(* ===== verification/Prelude.thy ===== *)
theory Prelude
  imports Main "HOL-Library.Word" "HOL-Library.Multiset"
begin

text \<open>
  Shared vocabulary of the development: names for machine integers, the outcomes of code that
  may abort or report an error, and generic facts about words, alignment and lists that the
  component theories use.
\<close>

unbundle bit_operations_syntax

section \<open>Machine integers\<close>

text \<open>The DSP is a 32-bit machine: \<open>size_t\<close> and \<open>uintptr_t\<close> have 32 bits there.\<close>

type_synonym u8 = "8 word"
type_synonym u16 = "16 word"
type_synonym u32 = "32 word"
type_synonym u64 = "64 word"
type_synonym i32 = "32 word"
type_synonym i64 = "64 word"
type_synonym usize = "32 word"

section \<open>Outcomes\<close>

text \<open>Code that either returns a value or calls \<open>abort\<close>.\<close>

datatype 'a run = Abort | Ret 'a

named_theorems align_simps \<open>values of rounding operations read as natural numbers\<close>

section \<open>Rounding on words\<close>

lemma unat_lt2p_aux: "unat v < 2 ^ LENGTH('a)" for v :: "'a::len word"
  by (rule unsigned_less)

lemma unat32_less: "unat (v :: 32 word) < 4294967296"
  using unat_lt2p_aux [of v] by simp

lemma unat64_less: "unat (v :: 64 word) < 18446744073709551616"
  using unat_lt2p_aux [of v] by simp

lemma unat_ucast_widen: "unat (ucast (w :: 32 word) :: 64 word) = unat w"
  using unat32_less [of w] by (simp add: unsigned_ucast_eq take_bit_nat_eq_self)

lemma unat_ucast_narrow: "unat (w :: 64 word) < 2 ^ 32 \<Longrightarrow> unat (ucast w :: 32 word) = unat w"
  by (simp add: unsigned_ucast_eq take_bit_nat_eq_self)

text \<open>A power of two has no bit in common with its predecessor, and nothing else but 0 has.\<close>

lemma nat_and_pred_zero_imp_power:
  fixes n :: nat
  assumes "n AND (n - 1) = 0" and "n \<noteq> 0"
  shows "\<exists>k. n = 2 ^ k"
  using assms
proof (induction n rule: less_induct)
  case (less n)
  show ?case
  proof (cases "even n")
    case True
    then obtain m where m: "n = 2 * m" by (rule evenE)
    with less.prems have "m \<noteq> 0" and "m < n" by auto
    have "(2 * m) AND (2 * m - 1) = 2 * (m AND (m - 1))"
    proof -
      have "(2 * m - 1) div 2 = m - 1" using \<open>m \<noteq> 0\<close> by linarith
      then show ?thesis by (subst and_rec) simp
    qed
    with less.prems m have "m AND (m - 1) = 0" by simp
    with less.IH [OF \<open>m < n\<close>] \<open>m \<noteq> 0\<close> obtain k where "m = 2 ^ k" by blast
    with m have "n = 2 ^ Suc k" by simp
    then show ?thesis by blast
  next
    case False
    then obtain m where m: "n = 2 * m + 1" by (rule oddE)
    have "(2 * m + 1) AND (2 * m) = 2 * m"
      by (subst and_rec) (auto simp: and.idem)
    with less.prems m have "n = 2 ^ 0" by simp
    then show ?thesis by blast
  qed
qed

lemma unat_and: "unat (x AND y) = unat x AND unat y"
  for x y :: "'a::len word"
  by (simp add: unsigned_and_eq)

lemma word_and_pred_zero_imp_power:
  fixes a :: "'a::len word"
  assumes "a AND (a - 1) = 0" and "a \<noteq> 0"
  shows "\<exists>k. k < LENGTH('a) \<and> unat a = 2 ^ k"
proof -
  have pos: "unat a \<noteq> 0" using assms(2) by (simp add: unat_eq_0)
  then have "unat (a - 1) = unat a - 1"
    by (metis unat_minus_one assms(2))
  with assms(1) have "unat a AND (unat a - 1) = 0"
    by (metis unat_and unat_0)
  then obtain k where k: "unat a = 2 ^ k"
    using nat_and_pred_zero_imp_power pos by blast
  have "(2::nat) ^ k < 2 ^ LENGTH('a)"
    using k unsigned_less [of a] by metis
  with k show ?thesis by auto
qed

lemma word_pred_power_mask: "unat a = 2 ^ k \<Longrightarrow> a - 1 = mask k"
  for a :: "'a::len word"
proof -
  assume "unat a = 2 ^ k"
  then have "word_of_nat (unat a) = (2 :: 'a word) ^ k" by simp
  then show ?thesis by (simp add: mask_eq_exp_minus_1)
qed

text \<open>Clearing the low bits rounds down to a multiple of a power of two.\<close>

lemma unat_and_not_mask: "unat (x AND NOT (mask n)) = unat x div 2 ^ n * 2 ^ n"
  for x :: "'a::len word"
proof -
  have split: "x AND NOT (mask n) = push_bit n (drop_bit n x)"
    by (rule bit_word_eqI) (auto simp: bit_simps)
  have lt: "unat x div 2 ^ n * 2 ^ n < 2 ^ LENGTH('a)"
    using unsigned_less [of x] div_times_less_eq_dividend [of "unat x" "2 ^ n"]
    by (metis le_less_trans)
  have "unat (push_bit n (drop_bit n x)) = take_bit LENGTH('a) (push_bit n (unat (drop_bit n x)))"
    by (rule unsigned_push_bit_eq)
  also have "unat (drop_bit n x) = unat x div 2 ^ n"
    by (subst unat_drop_bit_eq) (rule drop_bit_eq_div)
  also have "take_bit LENGTH('a) (push_bit n (unat x div 2 ^ n)) = unat x div 2 ^ n * 2 ^ n"
    using lt by (simp add: push_bit_eq_mult take_bit_nat_eq_self)
  finally show ?thesis by (simp only: split)
qed

lemma dvd_round_up_le:
  fixes a v m :: nat
  assumes "a dvd m" and "v \<le> m" and "a \<noteq> 0"
  shows "(v + a - 1) div a * a \<le> m"
proof -
  from assms(1) obtain c where m: "m = c * a" by (metis dvdE mult.commute)
  have "(v + a - 1) div a < Suc c"
    using assms m by (intro iffD2 [OF div_less_iff_less_mult]) (auto simp: algebra_simps)
  then show ?thesis using m by simp
qed

lemma round_up_ge: "(v :: nat) \<le> (v + a - 1) div a * a" if "a \<noteq> 0"
proof -
  have "(v + a - 1) div a * a + (v + a - 1) mod a = v + a - 1" by simp
  moreover have "(v + a - 1) mod a < a" using that by simp
  ultimately show ?thesis using that by linarith
qed

lemma round_up_less: "(v + a - 1) div a * a < (v :: nat) + a" if "a \<noteq> 0"
  using div_times_less_eq_dividend [of "v + a - 1" a] that by linarith

lemma round_up_dvd_bound:
  fixes v a g :: nat
  assumes "g dvd a" and "g dvd v" and "a \<noteq> 0"
  shows "(v + a - 1) div a * a \<le> v + a - g"
proof -
  have lt: "(v + a - 1) div a * a < v + a" using assms(3) by (rule round_up_less)
  moreover have "g dvd (v + a - 1) div a * a" and "g dvd v + a" using assms by auto
  ultimately have "g dvd v + a - (v + a - 1) div a * a" and "0 < v + a - (v + a - 1) div a * a"
    by (simp_all add: dvd_diff_nat)
  then have "g \<le> v + a - (v + a - 1) div a * a" by (rule dvd_imp_le)
  with lt show ?thesis by linarith
qed

lemma dvd_add_gap: "x + g \<le> y" if "g dvd x" "g dvd y" "x < y" for x y g :: nat
proof -
  from that have "g dvd y - x" and "0 < y - x" by (simp_all add: dvd_diff_nat)
  then have "g \<le> y - x" by (rule dvd_imp_le)
  with that(3) show ?thesis by linarith
qed

section \<open>Results\<close>

lemma map_sum_Inr: "map_sum f g z = Inr y \<longleftrightarrow> (\<exists>x. z = Inr x \<and> y = g x)"
  by (cases z) auto

lemma map_sum_Inl: "map_sum f g z = Inl y \<longleftrightarrow> (\<exists>x. z = Inl x \<and> y = f x)"
  by (cases z) auto

text \<open>Fallible steps report an error on the left. Sequencing, guards, and loops that stop at the
  first error.\<close>

fun bind_res :: "'e + 'a \<Rightarrow> ('a \<Rightarrow> 'e + 'b) \<Rightarrow> 'e + 'b" where
  "bind_res (Inl e) f = Inl e"
| "bind_res (Inr x) f = f x"

definition fail_if :: "bool \<Rightarrow> 'e \<Rightarrow> 'e + unit" where
  "fail_if b e = (if b then Inl e else Inr ())"

fun check_all :: "('a \<Rightarrow> 'e + unit) \<Rightarrow> 'a list \<Rightarrow> 'e + unit" where
  "check_all f [] = Inr ()"
| "check_all f (x # xs) = bind_res (f x) (\<lambda>_. check_all f xs)"

fun fold_res :: "('a \<Rightarrow> 's \<Rightarrow> 'e + 's) \<Rightarrow> 'a list \<Rightarrow> 's \<Rightarrow> 'e + 's" where
  "fold_res f [] s = Inr s"
| "fold_res f (x # xs) s = bind_res (f x s) (fold_res f xs)"

fun map_res :: "('a \<Rightarrow> 'e + 'b) \<Rightarrow> 'a list \<Rightarrow> 'e + 'b list" where
  "map_res f [] = Inr []"
| "map_res f (x # xs) = bind_res (f x) (\<lambda>y. bind_res (map_res f xs) (\<lambda>ys. Inr (y # ys)))"

named_theorems res_simps \<open>when a sequence of fallible steps succeeds\<close>

lemma bind_res_Inr [res_simps]: "bind_res r f = Inr y \<longleftrightarrow> (\<exists>x. r = Inr x \<and> f x = Inr y)"
  by (cases r) auto

lemma bind_res_Inl: "bind_res r f = Inl e \<longleftrightarrow> r = Inl e \<or> (\<exists>x. r = Inr x \<and> f x = Inl e)"
  by (cases r) auto

lemma fail_if_Inr [res_simps]: "fail_if b e = Inr u \<longleftrightarrow> \<not> b"
  by (auto simp: fail_if_def)

lemma check_all_Inr [res_simps]: "check_all f xs = Inr u \<longleftrightarrow> (\<forall>x\<in>set xs. f x = Inr ())"
  by (induction xs) (auto simp: bind_res_Inr)

lemma fold_res_invariant:
  assumes "fold_res f xs s = Inr s'" and "P s"
    and "\<And>x s s'. x \<in> set xs \<Longrightarrow> P s \<Longrightarrow> f x s = Inr s' \<Longrightarrow> P s'"
  shows "P s'"
  using assms by (induction xs arbitrary: s) (auto simp: bind_res_Inr)

lemma map_res_Inr: "map_res f xs = Inr ys \<longleftrightarrow> list_all2 (\<lambda>x y. f x = Inr y) xs ys"
  by (induction xs arbitrary: ys) (auto simp: bind_res_Inr list_all2_Cons1)

text \<open>Updating a list at several positions.\<close>

lemma length_fold_update [simp]:
  "length (fold (\<lambda>x ts. ts[p x := v x]) xs ts) = length ts"
  by (induction xs arbitrary: ts) auto

lemma fold_update_nth:
  "i < length ts \<Longrightarrow> distinct (map p xs) \<Longrightarrow>
   fold (\<lambda>x ts. ts[p x := v x]) xs ts ! i =
     (case find (\<lambda>x. p x = i) xs of None \<Rightarrow> ts ! i | Some x \<Rightarrow> v x)"
proof (induction xs arbitrary: ts)
  case (Cons x xs)
  show ?case
  proof (cases "p x = i")
    case True
    with Cons.prems have "find (\<lambda>x. p x = i) xs = None" by (auto simp: find_None_iff rev_image_eqI)
    with Cons True show ?thesis by simp
  qed (use Cons in \<open>simp split: option.split\<close>)
qed simp

section \<open>Removing by moving the last element\<close>

text \<open>An array element is removed by moving the last one into its place.\<close>

definition swap_remove :: "'a list \<Rightarrow> nat \<Rightarrow> 'a list" where
  "swap_remove es idx = butlast (es[idx := last es])"

lemma length_swap_remove [simp]: "length (swap_remove es idx) = length es - 1"
  by (simp add: swap_remove_def)

lemma mset_swap_remove:
  assumes "idx < length es"
  shows "mset es = mset (es ! idx # swap_remove es idx)"
proof (cases "idx = length es - 1")
  case True
  from assms have ne: "es \<noteq> []" by auto
  with True have last: "es ! idx = last es" by (simp add: last_conv_nth)
  with True have "swap_remove es idx = butlast es"
    by (metis swap_remove_def list_update_id)
  with ne last show ?thesis by (metis append_butlast_last_id mset.simps(2) mset_append add.commute add_mset_add_single mset_single_iff)
next
  case False
  with assms have "idx < length es - 1" by simp
  then have b: "swap_remove es idx = (butlast es)[idx := last es]" and i: "idx < length (butlast es)" and ne: "es \<noteq> []"
    by (auto simp: swap_remove_def butlast_list_update)
  have "mset ((butlast es)[idx := last es]) = add_mset (last es) (mset (butlast es) - {#butlast es ! idx#})"
    using i by (rule mset_update)
  moreover have "butlast es ! idx \<in># mset (butlast es)" using i by simp
  moreover have "mset es = add_mset (last es) (mset (butlast es))"
    using ne by (metis append_butlast_last_id mset.simps(2) mset_append add.commute add_mset_add_single mset.simps(1) add_mset_commute union_mset_add_mset_right add_0_right)
  ultimately show ?thesis using b i by (simp add: nth_butlast add_mset_commute)
qed

lemma swap_remove_facts:
  assumes "idx < length es"
  shows "set (swap_remove es idx) \<subseteq> set es" and "set es = insert (es ! idx) (set (swap_remove es idx))"
    and "distinct (map f es) \<longleftrightarrow> f (es ! idx) \<notin> f ` set (swap_remove es idx) \<and> distinct (map f (swap_remove es idx))"
    and "sum_list (map g (filter P es)) = (if P (es ! idx) then g (es ! idx) else (0 :: 'b :: comm_monoid_add))
      + sum_list (map g (filter P (swap_remove es idx)))"
proof -
  note m = mset_swap_remove [OF assms]
  have s: "set es = set (es ! idx # swap_remove es idx)" using m by (metis set_mset_mset)
  then show "set (swap_remove es idx) \<subseteq> set es" and "set es = insert (es ! idx) (set (swap_remove es idx))" by auto
  have "mset (map f es) = mset (map f (es ! idx # swap_remove es idx))" using m by (metis mset_map)
  then have "distinct (map f es) \<longleftrightarrow> distinct (map f (es ! idx # swap_remove es idx))"
    by (rule mset_eq_imp_distinct_iff)
  then show "distinct (map f es) \<longleftrightarrow> f (es ! idx) \<notin> f ` set (swap_remove es idx) \<and> distinct (map f (swap_remove es idx))"
    by simp
  have "mset (map g (filter P es)) = mset (map g (filter P (es ! idx # swap_remove es idx)))"
    using m by (metis mset_map mset_filter)
  then have "sum_list (map g (filter P es)) = sum_list (map g (filter P (es ! idx # swap_remove es idx)))"
    by (metis sum_mset_sum_list)
  then show "sum_list (map g (filter P es)) = (if P (es ! idx) then g (es ! idx) else 0)
      + sum_list (map g (filter P (swap_remove es idx)))" by simp
qed

lemma find_append: "find P (xs @ ys) = (case find P xs of None \<Rightarrow> find P ys | Some x \<Rightarrow> Some x)"
  by (induction xs) auto

end
