(* ===== verification/Region_Allocator.thy ===== *)
theory Region_Allocator
  imports Prelude
begin

text \<open>
  The interface between code that allocates and the memory region that serves it: what a client
  of a bump allocator relies on. A region has a set of free bytes, an allocation takes its block
  out of it, at a bounded cost, and succeeds while the cost fits into the capacity. The client's
  facts about whole sequences of allocations are proved once, from these laws.
\<close>

fun run_allocs :: "('p \<Rightarrow> 'r \<Rightarrow> ('b \<times> 'p) run) \<Rightarrow> 'p \<Rightarrow> 'r list \<Rightarrow> ('b list \<times> 'p) run" where
  "run_allocs alloc p [] = Ret ([], p)"
| "run_allocs alloc p (r # rs) =
     (case alloc p r of Abort \<Rightarrow> Abort
      | Ret (b, p') \<Rightarrow>
          (case run_allocs alloc p' rs of Abort \<Rightarrow> Abort | Ret (bs, p'') \<Rightarrow> Ret (b # bs, p'')))"

locale region_allocator =
  fixes alloc :: "'p \<Rightarrow> 'r \<Rightarrow> ('b \<times> 'p) run"
    and inv :: "'p \<Rightarrow> bool"
    and free :: "'p \<Rightarrow> nat set"
    and extent :: "'r \<Rightarrow> 'b \<Rightarrow> nat set"
    and used :: "'p \<Rightarrow> nat"
    and capacity :: "'p \<Rightarrow> nat"
    and cost :: "'r \<Rightarrow> nat"
    and legal :: "'r \<Rightarrow> bool"
  assumes alloc_inv: "inv p \<Longrightarrow> alloc p r = Ret (b, p') \<Longrightarrow> inv p'"
    and alloc_block: "inv p \<Longrightarrow> alloc p r = Ret (b, p') \<Longrightarrow> extent r b \<subseteq> free p"
    and alloc_free: "inv p \<Longrightarrow> alloc p r = Ret (b, p') \<Longrightarrow> free p' \<subseteq> free p - extent r b"
    and alloc_used: "inv p \<Longrightarrow> alloc p r = Ret (b, p') \<Longrightarrow> used p' \<le> used p + cost r"
    and alloc_capacity: "inv p \<Longrightarrow> alloc p r = Ret (b, p') \<Longrightarrow> capacity p' = capacity p"
    and alloc_progress: "inv p \<Longrightarrow> legal r \<Longrightarrow> used p + cost r \<le> capacity p \<Longrightarrow> alloc p r \<noteq> Abort"
begin

lemma run_allocs_ConsE:
  assumes "run_allocs alloc p (r # rs) = Ret (bs, q)"
  obtains b p' bs' where "alloc p r = Ret (b, p')" "run_allocs alloc p' rs = Ret (bs', q)" "bs = b # bs'"
  using assms by (auto split: run.splits)

lemma run_allocs_inv: "inv p \<Longrightarrow> run_allocs alloc p rs = Ret (bs, q) \<Longrightarrow> inv q"
proof (induction rs arbitrary: p bs)
  case (Cons r rs)
  from Cons.prems(2) show ?case
    by (rule run_allocs_ConsE) (auto intro: Cons.IH alloc_inv Cons.prems(1))
qed simp

lemma run_allocs_length: "run_allocs alloc p rs = Ret (bs, q) \<Longrightarrow> length bs = length rs"
  by (induction rs arbitrary: p bs) (auto split: run.splits)

lemma run_allocs_free_mono: "inv p \<Longrightarrow> run_allocs alloc p rs = Ret (bs, q) \<Longrightarrow> free q \<subseteq> free p"
proof (induction rs arbitrary: p bs)
  case (Cons r rs)
  from Cons.prems(2) obtain b p' bs' where
    s: "alloc p r = Ret (b, p')" "run_allocs alloc p' rs = Ret (bs', q)"
    by (rule run_allocs_ConsE)
  from Cons.IH [OF alloc_inv [OF Cons.prems(1) s(1)] s(2)] alloc_free [OF Cons.prems(1) s(1)]
  show ?case by blast
qed simp

lemma run_allocs_blocks_free:
  "inv p \<Longrightarrow> run_allocs alloc p rs = Ret (bs, q) \<Longrightarrow> i < length rs \<Longrightarrow>
   extent (rs ! i) (bs ! i) \<subseteq> free p \<and> free q \<inter> extent (rs ! i) (bs ! i) = {}"
proof (induction rs arbitrary: p bs i)
  case (Cons r rs)
  from Cons.prems(2) obtain b p' bs' where
    s: "alloc p r = Ret (b, p')" "run_allocs alloc p' rs = Ret (bs', q)" "bs = b # bs'"
    by (rule run_allocs_ConsE)
  note law = alloc_inv [OF Cons.prems(1) s(1)] alloc_block [OF Cons.prems(1) s(1)]
    alloc_free [OF Cons.prems(1) s(1)]
  have mono: "free q \<subseteq> free p'" using run_allocs_free_mono [OF law(1) s(2)] .
  show ?case
  proof (cases i)
    case 0
    with law mono show ?thesis by (auto simp: s(3))
  next
    case (Suc j)
    with Cons.prems(3) Cons.IH [OF law(1) s(2), of j] law(3) show ?thesis
      by (simp add: s(3)) blast
  qed
qed simp

text \<open>No two allocations of a sequence share a byte.\<close>

lemma run_allocs_disjoint:
  "inv p \<Longrightarrow> run_allocs alloc p rs = Ret (bs, q) \<Longrightarrow> i < j \<Longrightarrow> j < length rs \<Longrightarrow>
   extent (rs ! i) (bs ! i) \<inter> extent (rs ! j) (bs ! j) = {}"
proof (induction rs arbitrary: p bs i j)
  case (Cons r rs)
  from Cons.prems(2) obtain b p' bs' where
    s: "alloc p r = Ret (b, p')" "run_allocs alloc p' rs = Ret (bs', q)" "bs = b # bs'"
    by (rule run_allocs_ConsE)
  note inv' = alloc_inv [OF Cons.prems(1) s(1)]
  from Cons.prems(3,4) obtain j' where j': "j = Suc j'" "j' < length rs" by (cases j) auto
  show ?case
  proof (cases i)
    case 0
    have "extent (rs ! j') (bs' ! j') \<subseteq> free p'"
      using run_allocs_blocks_free [OF inv' s(2) j'(2)] by simp
    with alloc_free [OF Cons.prems(1) s(1)] show ?thesis by (auto simp: 0 j' s(3))
  next
    case (Suc i')
    with Cons.IH [OF inv' s(2), of i' j'] Cons.prems(3) j' show ?thesis by (simp add: s(3))
  qed
qed simp

text \<open>Declaring the sum of the costs is enough for a sequence to succeed.\<close>

lemma run_allocs_progress:
  "inv p \<Longrightarrow> list_all legal rs \<Longrightarrow> used p + sum_list (map cost rs) \<le> capacity p \<Longrightarrow>
   run_allocs alloc p rs \<noteq> Abort"
proof (induction rs arbitrary: p)
  case (Cons r rs)
  have "alloc p r \<noteq> Abort" using Cons.prems by (intro alloc_progress) auto
  then obtain b p' where s: "alloc p r = Ret (b, p')" by (cases "alloc p r") auto
  have "used p' + sum_list (map cost rs) \<le> capacity p'"
    using alloc_used [OF Cons.prems(1) s] alloc_capacity [OF Cons.prems(1) s] Cons.prems(3) by simp
  with Cons.IH [OF alloc_inv [OF Cons.prems(1) s]] Cons.prems(2) show ?case
    by (auto simp: s split: run.splits)
qed simp

lemmas run_allocs_facts = run_allocs_inv run_allocs_blocks_free run_allocs_disjoint run_allocs_progress

end

end
