(* ===== verification/Vtcm_Partition.thy ===== *)
theory Vtcm_Partition
  imports Region_Allocator
begin

text \<open>
  The VTCM partition of a dispatch: \<open>plugins/runtime/hexagon/dsp/rt/vtcm_partition.cpp\<close>.
  A dispatch allocates from its own contiguous piece of VTCM, bumped from the two ends; requests
  aligned to at least 2 KiB come from the front, all others from the back. Nothing is freed
  individually; the runtime empties the partition before every workgroup. Addresses and sizes
  are 32-bit words, alignments 64-bit words, as on the DSP. \<open>abort\<close> is the value \<open>Abort\<close>.

  The global pool the partitions are carved out of is hexagon-mlir's \<open>VtcmPool\<close>, which is not
  part of this repository: its operations are a parameter (a record of functions over an abstract
  pool state).
\<close>

section \<open>The code\<close>

definition VTCM_FRONT_LARGE_GRANULE :: usize where
  "VTCM_FRONT_LARGE_GRANULE = 2048"

definition VTCM_BACK_SMALL_GRANULE :: usize where
  "VTCM_BACK_SMALL_GRANULE = 128"

text \<open>\<open>SIZE_MAX\<close> requests the whole pool.\<close>

definition HEXAGON_RT_VTCM_PARTITION_ALL :: usize where
  "HEXAGON_RT_VTCM_PARTITION_ALL = - 1"

definition align_up :: "usize \<Rightarrow> usize \<Rightarrow> usize" where
  "align_up v a = (v + a - 1) AND NOT (a - 1)"

definition align_down :: "usize \<Rightarrow> usize \<Rightarrow> usize" where
  "align_down v a = v AND NOT (a - 1)"

text \<open>\<open>hexagon_rt_vtcm_partition_t\<close>; address 0 is \<open>NULL\<close>.\<close>

record vtcm_partition =
  vp_base :: usize
  vp_size :: usize
  vp_front :: usize
  vp_back :: usize
  vp_name :: "string option"

definition empty_partition :: vtcm_partition where
  "empty_partition = \<lparr>vp_base = 0, vp_size = 0, vp_front = 0, vp_back = 0, vp_name = None\<rparr>"

text \<open>The operations of the global pool the code calls.\<close>

record 'pool vtcm_pool_ops =
  VtcmAllocatedBytes :: "'pool \<Rightarrow> usize"
  getLargestFreeBlock :: "'pool \<Rightarrow> usize"
  Allocate :: "'pool \<Rightarrow> usize \<Rightarrow> usize \<times> 'pool"
  Free :: "'pool \<Rightarrow> usize \<Rightarrow> usize \<Rightarrow> 'pool"

definition partition_bytes :: "'pool vtcm_pool_ops \<Rightarrow> 'pool \<Rightarrow> usize \<Rightarrow> usize" where
  "partition_bytes ops pool nbytes =
     (if nbytes = HEXAGON_RT_VTCM_PARTITION_ALL
      then align_down (VtcmAllocatedBytes ops pool) VTCM_FRONT_LARGE_GRANULE
      else align_up nbytes VTCM_FRONT_LARGE_GRANULE)"

definition acquire_vtcm_partition ::
  "'pool vtcm_pool_ops \<Rightarrow> 'pool \<Rightarrow> usize \<Rightarrow> string option \<Rightarrow> (vtcm_partition \<times> 'pool) run" where
  "acquire_vtcm_partition ops pool nbytes name =
     (let out = empty_partition\<lparr>vp_name := name\<rparr>
      in if nbytes = 0 then Ret (out, pool)
         else (let n = partition_bytes ops pool nbytes;
                   (p, pool') = Allocate ops pool n
               in if p = 0 then Abort
                  else Ret (out\<lparr>vp_base := p, vp_size := n\<rparr>, pool')))"

definition try_acquire_vtcm_partition ::
  "'pool vtcm_pool_ops \<Rightarrow> 'pool \<Rightarrow> usize \<Rightarrow> string option \<Rightarrow> bool \<times> vtcm_partition \<times> 'pool" where
  "try_acquire_vtcm_partition ops pool nbytes name =
     (let out = empty_partition\<lparr>vp_name := name\<rparr>
      in if nbytes = 0 then (True, out, pool)
         else (let n = partition_bytes ops pool nbytes;
                   out1 = out\<lparr>vp_size := n\<rparr>
               in if getLargestFreeBlock ops pool < n then (False, out1, pool)
                  else (let (p, pool') = Allocate ops pool n
                        in (p \<noteq> 0, out1\<lparr>vp_base := p\<rparr>, pool'))))"

definition vtcm_pool_size :: "'pool vtcm_pool_ops \<Rightarrow> 'pool \<Rightarrow> usize" where
  "vtcm_pool_size ops pool = partition_bytes ops pool HEXAGON_RT_VTCM_PARTITION_ALL"

definition release_vtcm_partition ::
  "'pool vtcm_pool_ops \<Rightarrow> 'pool \<Rightarrow> vtcm_partition \<Rightarrow> vtcm_partition \<times> 'pool" where
  "release_vtcm_partition ops pool p =
     (empty_partition, if vp_base p \<noteq> 0 then Free ops pool (vp_base p) (vp_size p) else pool)"

definition vtcm_partition_reset :: "vtcm_partition \<Rightarrow> vtcm_partition" where
  "vtcm_partition_reset p = p\<lparr>vp_front := 0, vp_back := 0\<rparr>"

text \<open>
  \<open>hexagon_rt_vtcm_partition_alloc\<close>: the partition pointer may be \<open>NULL\<close> (\<open>None\<close>). The result
  is the returned pointer and the updated partition. \<open>align_up\<close> and \<open>align_down\<close> take a 32-bit
  \<open>uintptr_t\<close>, so the 64-bit alignment is converted (\<open>ucast\<close>) when it is passed to them.
\<close>

definition partition_alloc ::
  "vtcm_partition option \<Rightarrow> usize \<Rightarrow> u64 \<Rightarrow> (usize \<times> vtcm_partition option) run" where
  "partition_alloc po nbytes al =
     (if nbytes = 0 then Ret (0, po)
      else case po of None \<Rightarrow> Abort
      | Some p \<Rightarrow>
        let alignment = (if al < ucast VTCM_BACK_SMALL_GRANULE then ucast VTCM_BACK_SMALL_GRANULE else al)
        in if alignment AND (alignment - 1) \<noteq> 0 then Abort
           else if alignment > ucast (vp_size p) then Abort
           else
             let base = vp_base p;
                 back_begin = vp_size p - vp_back p
             in if alignment \<ge> ucast VTCM_FRONT_LARGE_GRANULE then
                  (let sz = align_up nbytes VTCM_FRONT_LARGE_GRANULE;
                       start = align_up (base + vp_front p) (ucast alignment) - base
                   in if sz < nbytes \<or> start > back_begin \<or> sz > back_begin - start then Abort
                      else Ret (base + start, Some (p\<lparr>vp_front := start + sz\<rparr>)))
                else
                  (let sz = align_up nbytes VTCM_BACK_SMALL_GRANULE
                   in if sz < nbytes \<or> sz > back_begin then Abort
                      else (let start = align_down (back_begin - sz) (ucast alignment)
                            in if start < vp_front p then Abort
                               else Ret (base + start, Some (p\<lparr>vp_back := vp_size p - start\<rparr>)))))"

record workgroup_state =
  workgroup_id_x :: u32
  workgroup_id_y :: u32
  workgroup_id_z :: u16
  ws_reserved :: u16
  processor_id :: u32
  ws_vtcm_partition :: "vtcm_partition option"

definition hexagon_runtime_vtcm_alloc ::
  "workgroup_state \<Rightarrow> usize \<Rightarrow> u64 \<Rightarrow> (usize \<times> workgroup_state) run" where
  "hexagon_runtime_vtcm_alloc ws nbytes al =
     (case partition_alloc (ws_vtcm_partition ws) nbytes al of
        Abort \<Rightarrow> Abort
      | Ret (ptr, po) \<Rightarrow> Ret (ptr, ws\<lparr>ws_vtcm_partition := po\<rparr>))"

section \<open>Rounding\<close>

lemma granule_values [align_simps]:
  "unat VTCM_FRONT_LARGE_GRANULE = 2 ^ 11" "unat VTCM_BACK_SMALL_GRANULE = 2 ^ 7"
  by (simp_all add: VTCM_FRONT_LARGE_GRANULE_def VTCM_BACK_SMALL_GRANULE_def)

lemma unat_align_down:
  assumes "unat a = 2 ^ k"
  shows "unat (align_down v a) = unat v div unat a * unat a"
  unfolding align_down_def word_pred_power_mask [OF assms] unat_and_not_mask assms ..

lemma unat_align_up:
  assumes k: "unat a = 2 ^ k"
  shows "unat (align_up v a) =
    (if unat v + unat a - 1 < 2 ^ 32 then (unat v + unat a - 1) div unat a * unat a else 0)"
proof -
  have pos: "1 \<le> unat a" using k by simp
  have a1: "unat (a - 1) = unat a - 1"
    using pos by (subst unat_sub) (auto simp: word_le_nat_alt)
  have sum: "unat (v + (a - 1)) =
      (if unat v + unat a - 1 < 2 ^ 32 then unat v + unat a - 1 else unat v + unat a - 1 - 2 ^ 32)"
    using pos by (simp add: unat_plus_if' a1)
  have "unat v + unat a - 1 - 2 ^ 32 < unat a"
    using unat32_less [of v] pos by simp
  then have "(unat v + unat a - 1 - 2 ^ 32) div unat a = 0" by simp
  moreover have "unat (align_up v a) = unat (v + (a - 1)) div unat a * unat a"
    unfolding align_up_def
    by (simp only: word_pred_power_mask [OF k] unat_and_not_mask k add_diff_eq [symmetric])
  ultimately show ?thesis by (simp add: sum)
qed

lemma align_up_ge_imp_no_wrap:
  assumes "unat a = 2 ^ k" and "v \<le> align_up v a" and "v \<noteq> 0"
  shows "unat (align_up v a) = (unat v + unat a - 1) div unat a * unat a"
  using assms(2,3) by (auto simp: unat_align_up [OF assms(1)] word_le_nat_alt unat_eq_0 split: if_splits)

section \<open>The invariant of a partition and the bytes it has left\<close>

definition vp_wf :: "vtcm_partition \<Rightarrow> bool" where
  "vp_wf p \<longleftrightarrow>
     2 ^ 11 dvd unat (vp_base p) \<and> 2 ^ 11 dvd unat (vp_size p) \<and>
     unat (vp_base p) + unat (vp_size p) \<le> 2 ^ 32 \<and>
     2 ^ 11 dvd unat (vp_front p) \<and> 2 ^ 7 dvd unat (vp_back p) \<and>
     unat (vp_front p) + unat (vp_back p) \<le> unat (vp_size p) \<and>
     (vp_size p \<noteq> 0 \<longrightarrow> vp_base p \<noteq> 0)"

definition vp_free :: "vtcm_partition \<Rightarrow> nat set" where
  "vp_free p = {unat (vp_base p) + unat (vp_front p) ..<
                unat (vp_base p) + unat (vp_size p) - unat (vp_back p)}"

definition mem_block :: "usize \<Rightarrow> usize \<Rightarrow> nat set" where
  "mem_block ptr nbytes = {unat ptr ..< unat ptr + unat nbytes}"

text \<open>The alignment an allocation really gets.\<close>

definition effective_alignment :: "u64 \<Rightarrow> nat" where
  "effective_alignment al = max (unat al) 128"

text \<open>
  What an allocation takes from the partition at most, as documented in \<open>vtcm_partition.h\<close>:
  the rounded size plus the alignment minus the granularity of its end.
\<close>

definition alloc_footprint :: "nat \<Rightarrow> nat \<Rightarrow> nat" where
  "alloc_footprint nbytes alignment =
     (let g = (if 2048 \<le> alignment then 2048 else 128)
      in (nbytes + g - 1) div g * g + (alignment - g))"

lemma vp_wf_reset [intro]: "vp_wf p \<Longrightarrow> vp_wf (vtcm_partition_reset p)"
  by (simp add: vp_wf_def vtcm_partition_reset_def)

text \<open>
  The equations of \<open>partition_alloc\<close> by the end of the partition that serves the request. A
  request for a non-empty block whose alignment is not a power of two, or larger than the
  partition, aborts.
\<close>

definition front_start :: "vtcm_partition \<Rightarrow> usize \<Rightarrow> usize" where
  "front_start p a = align_up (vp_base p + vp_front p) a - vp_base p"

definition back_start :: "vtcm_partition \<Rightarrow> usize \<Rightarrow> usize \<Rightarrow> usize" where
  "back_start p n a = align_down (vp_size p - vp_back p - align_up n VTCM_BACK_SMALL_GRANULE) a"

definition raised_alignment :: "u64 \<Rightarrow> u64" where
  "raised_alignment al = (if al < 128 then 128 else al)"

lemma unat_raised_alignment: "unat (raised_alignment al) = effective_alignment al"
  by (auto simp: raised_alignment_def effective_alignment_def word_less_nat_alt)

lemma partition_alloc_eq:
  assumes "n \<noteq> 0"
  shows "partition_alloc (Some p) n al =
    (let alignment = raised_alignment al
     in if alignment AND (alignment - 1) \<noteq> 0 \<or> unat (vp_size p) < unat alignment then Abort
        else if 2 ^ 11 \<le> unat alignment then
          (let sz = align_up n VTCM_FRONT_LARGE_GRANULE; start = front_start p (ucast alignment)
           in if sz < n \<or> start > vp_size p - vp_back p \<or> sz > vp_size p - vp_back p - start then Abort
              else Ret (vp_base p + start, Some (p\<lparr>vp_front := start + sz\<rparr>)))
        else
          (let sz = align_up n VTCM_BACK_SMALL_GRANULE; start = back_start p n (ucast alignment)
           in if sz < n \<or> sz > vp_size p - vp_back p \<or> start < vp_front p then Abort
              else Ret (vp_base p + start, Some (p\<lparr>vp_back := vp_size p - start\<rparr>))))"
proof -
  define alignment where "alignment = raised_alignment al"
  have r: "(if al < ucast VTCM_BACK_SMALL_GRANULE then ucast VTCM_BACK_SMALL_GRANULE else al) = alignment"
    by (simp add: alignment_def raised_alignment_def VTCM_BACK_SMALL_GRANULE_def)
  have gt: "(ucast (vp_size p) < alignment) = (unat (vp_size p) < unat alignment)"
    by (simp add: word_less_nat_alt unat_ucast_widen)
  have ge: "(ucast VTCM_FRONT_LARGE_GRANULE \<le> alignment) = (2 ^ 11 \<le> unat alignment)"
    by (simp add: word_le_nat_alt VTCM_FRONT_LARGE_GRANULE_def)
  show ?thesis
    unfolding partition_alloc_def alignment_def [symmetric] r option.case Let_def
    using assms by (simp only: gt ge front_start_def back_start_def if_False) auto
qed

text \<open>A power-of-two alignment that is no larger than the partition.\<close>

lemma raised_alignment_power:
  assumes "raised_alignment al AND (raised_alignment al - 1) = 0"
  obtains k where "effective_alignment al = 2 ^ k" "7 \<le> k" "k < 64"
proof -
  have ge: "2 ^ 7 \<le> effective_alignment al" by (simp add: effective_alignment_def)
  then have "raised_alignment al \<noteq> 0" by (metis unat_raised_alignment unat_0 not_numeral_le_zero
        le_zero_eq zero_neq_numeral power_eq_0_iff)
  from word_and_pred_zero_imp_power [OF assms this]
  obtain k where k: "k < 64" "effective_alignment al = 2 ^ k" by (auto simp: unat_raised_alignment)
  have "7 \<le> k"
  proof (rule ccontr)
    assume "\<not> 7 \<le> k"
    then have "(2::nat) ^ k < 2 ^ 7" by (intro power_strict_increasing) auto
    with ge k show False by simp
  qed
  with that k show ?thesis by blast
qed

lemma power_le_size_word:
  assumes "2 ^ k \<le> unat (v :: usize)" and "unat (w :: u64) = 2 ^ k"
  shows "unat (ucast w :: usize) = 2 ^ k"
proof -
  have "unat w < 2 ^ 32" using assms unat32_less [of v] by simp
  then show ?thesis using assms(2) by (simp only: unat_ucast_narrow)
qed

lemma power_cmp11: "(2::nat) ^ 11 \<le> 2 ^ k \<longleftrightarrow> 11 \<le> k"
  by (rule power_increasing_iff) simp

text \<open>What the words of a front allocation are as numbers.\<close>

lemma front_numbers:
  assumes wf: "vp_wf p" and a: "unat a = 2 ^ k" "11 \<le> k"
    and start: "start = align_up (vp_base p + vp_front p) a - vp_base p"
    and fits: "start \<le> vp_size p - vp_back p" "sz \<le> vp_size p - vp_back p - start" "sz \<noteq> 0"
    and nonempty: "vp_size p \<noteq> 0"
  defines "up \<equiv> (unat (vp_base p) + unat (vp_front p) + unat a - 1) div unat a * unat a"
  shows "unat start = up - unat (vp_base p)" "unat (vp_base p) + unat (vp_front p) \<le> up"
    "up + unat sz \<le> unat (vp_base p) + unat (vp_size p) - unat (vp_back p)"
proof -
  let ?B = "unat (vp_base p)" and ?F = "unat (vp_front p)" and ?S = "unat (vp_size p)"
    and ?K = "unat (vp_back p)"
  note w = wf [unfolded vp_wf_def]
  have bb: "unat (vp_size p - vp_back p) = ?S - ?K"
    using w by (subst unat_sub) (auto simp: word_le_nat_alt)
  have lt: "unat start < ?S - ?K"
    using fits by (simp add: word_le_nat_alt unat_sub bb unat_gt_0 [symmetric] unat_eq_0)
  have B0: "?B \<noteq> 0" using w nonempty by (auto simp: unat_eq_0)
  have sub: "unat (x - vp_base p) = (if ?B \<le> unat x then unat x - ?B else unat x + 2 ^ 32 - ?B)" for x
    by (simp add: unat_sub_if')
  have nowrap: "?B + ?F < 2 ^ 32"
  proof (rule ccontr)
    assume "\<not> ?thesis"
    with w have eq: "?B + ?F = 2 ^ 32" "?F = ?S" by auto
    then have "unat (vp_base p + vp_front p) = 0" by (simp add: unat_plus_if')
    moreover have "(unat a - 1) div unat a = 0" using a(1) by (intro div_less) simp
    ultimately have "unat (align_up (vp_base p + vp_front p) a) = 0"
      by (simp add: unat_align_up [OF a(1)])
    then have "unat start = ?S" using start B0 eq by (simp add: sub)
    with lt show False by simp
  qed
  then have v: "unat (vp_base p + vp_front p) = ?B + ?F" by (simp add: unat_plus_if')
  have nowrap2: "?B + ?F + unat a - 1 < 2 ^ 32"
  proof (rule ccontr)
    assume "\<not> ?thesis"
    then have "unat (align_up (vp_base p + vp_front p) a) = 0"
      by (simp add: unat_align_up [OF a(1)] v)
    then have "unat start = 2 ^ 32 - ?B" using start B0 by (simp add: sub)
    moreover from w have "?B + ?S \<le> 2 ^ 32" by simp
    ultimately show False using lt by simp
  qed
  then have au: "unat (align_up (vp_base p + vp_front p) a) = up"
    by (simp add: unat_align_up [OF a(1)] v up_def)
  show ge: "?B + ?F \<le> up" unfolding up_def using a(1) by (intro round_up_ge) simp
  then show st: "unat start = up - ?B" using start au by (simp add: sub)
  have "unat sz \<le> ?S - ?K - unat start"
    using fits lt by (simp add: word_le_nat_alt unat_sub bb)
  with lt st ge show "up + unat sz \<le> ?B + ?S - ?K" by linarith
qed

lemma back_numbers:
  assumes wf: "vp_wf p" and a: "unat a = 2 ^ k"
    and start: "start = align_down (vp_size p - vp_back p - sz) a"
    and fits: "sz \<le> vp_size p - vp_back p"
  shows "unat start = (unat (vp_size p) - unat (vp_back p) - unat sz) div unat a * unat a"
    "unat (vp_size p - vp_back p) = unat (vp_size p) - unat (vp_back p)"
    "unat start + unat sz \<le> unat (vp_size p) - unat (vp_back p)"
proof -
  show bb: "unat (vp_size p - vp_back p) = unat (vp_size p) - unat (vp_back p)"
    using wf by (subst unat_sub) (auto simp: word_le_nat_alt vp_wf_def)
  show st: "unat start = (unat (vp_size p) - unat (vp_back p) - unat sz) div unat a * unat a"
    using fits by (simp add: start unat_align_down [OF a] unat_sub bb)
  have "unat sz \<le> unat (vp_size p) - unat (vp_back p)" using fits by (simp add: word_le_nat_alt bb)
  then show "unat start + unat sz \<le> unat (vp_size p) - unat (vp_back p)"
    using div_times_less_eq_dividend [of "unat (vp_size p) - unat (vp_back p) - unat sz" "unat a"]
    unfolding st by linarith
qed

definition vp_used :: "vtcm_partition \<Rightarrow> nat" where
  "vp_used p = unat (vp_front p) + unat (vp_back p)"

text \<open>The contract of one allocation: invariant, placement, alignment, what is left.\<close>

definition alloc_ok :: "vtcm_partition \<Rightarrow> usize \<Rightarrow> nat \<Rightarrow> usize \<Rightarrow> vtcm_partition \<Rightarrow> bool" where
  "alloc_ok p n A ptr p' \<longleftrightarrow>
     vp_wf p' \<and> vp_base p' = vp_base p \<and> vp_size p' = vp_size p \<and> vp_name p' = vp_name p \<and>
     ptr \<noteq> 0 \<and> A dvd unat ptr \<and>
     mem_block ptr n \<subseteq> vp_free p \<and> vp_free p' \<subseteq> vp_free p - mem_block ptr n \<and>
     vp_used p' \<le> vp_used p + alloc_footprint (unat n) A"

lemma front_alloc_ok:
  assumes wf: "vp_wf p" and n: "n \<noteq> 0" and a: "unat a = 2 ^ k" "11 \<le> k" "2 ^ k \<le> unat (vp_size p)"
    and start: "start = align_up (vp_base p + vp_front p) a - vp_base p"
    and sz: "sz = align_up n VTCM_FRONT_LARGE_GRANULE" "n \<le> sz"
    and fits: "start \<le> vp_size p - vp_back p" "sz \<le> vp_size p - vp_back p - start"
  shows "alloc_ok p n (2 ^ k) (vp_base p + start) (p\<lparr>vp_front := start + sz\<rparr>)"
proof -
  let ?B = "unat (vp_base p)" and ?F = "unat (vp_front p)" and ?S = "unat (vp_size p)"
    and ?K = "unat (vp_back p)"
  define up where "up = (?B + ?F + 2 ^ k - 1) div 2 ^ k * 2 ^ k"
  note w = wf [unfolded vp_wf_def]
  have sz0: "sz \<noteq> 0" using n sz(2) by (auto simp: word_le_nat_alt unat_eq_0 dest: leD)
  have S0: "vp_size p \<noteq> 0" using a(3) by (auto simp: le_less_trans)
  note num = front_numbers [OF wf a(1,2) start fits sz0 S0, unfolded a(1), folded up_def]
  have szn: "unat sz = (unat n + 2 ^ 11 - 1) div 2 ^ 11 * 2 ^ 11"
    using align_up_ge_imp_no_wrap [OF granule_values(1)] sz n by (simp add: granule_values)
  have dk: "(2::nat) ^ 11 dvd 2 ^ k" using a(2) by (rule le_imp_power_dvd)
  have upd: "2 ^ k dvd up" by (simp add: up_def)
  have bound: "up \<le> ?B + ?F + 2 ^ k - 2 ^ 11"
    unfolding up_def using dk w by (intro round_up_dvd_bound) auto
  have B0: "0 < ?B" using w S0 by (auto simp: unat_gt_0)
  have szp: "0 < unat sz" using sz0 by (simp add: unat_gt_0)
  have wsum: "?F + ?K \<le> ?S" and wtop: "?B + ?S \<le> 2 ^ 32" using w by simp_all
  then have le: "up + unat sz + ?K \<le> ?B + ?S" using num(2,3) szp by linarith
  with wtop have top: "up + unat sz \<le> 2 ^ 32" by linarith
  have fr: "unat (start + sz) = up - ?B + unat sz"
    using num(1,2) top B0 by (simp add: unat_plus_if')
  have ptr: "unat (vp_base p + start) = up"
    using num(1,2) top szp by (simp add: unat_plus_if')
  have nsz: "unat n \<le> unat sz" using sz(2) by (simp add: word_le_nat_alt)
  have "(2::nat) ^ 11 dvd up - ?B + unat sz"
    using dk upd w szn by (intro dvd_add dvd_diff_nat) (auto intro: dvd_trans)
  then have wf': "vp_wf (p\<lparr>vp_front := start + sz\<rparr>)"
    using w num(1,2) le unfolding vp_wf_def by (simp add: fr)
  have "(2::nat) ^ 11 \<le> 2 ^ k" using dk by (rule dvd_imp_le) simp
  then have "alloc_footprint (unat n) (2 ^ k) = unat sz + (2 ^ k - 2 ^ 11)"
    by (simp add: alloc_footprint_def szn)
  then have "vp_used (p\<lparr>vp_front := start + sz\<rparr>) \<le> vp_used p + alloc_footprint (unat n) (2 ^ k)"
    using bound num(2) by (simp add: vp_used_def fr)
  then show ?thesis
    using wf' upd num nsz B0 by (auto simp: alloc_ok_def ptr fr mem_block_def vp_free_def unat_eq_0 [symmetric])
qed

lemma back_alloc_ok:
  assumes wf: "vp_wf p" and n: "n \<noteq> 0" and a: "unat a = 2 ^ k" "7 \<le> k" "k < 11" "2 ^ k \<le> unat (vp_size p)"
    and start: "start = align_down (vp_size p - vp_back p - sz) a"
    and sz: "sz = align_up n VTCM_BACK_SMALL_GRANULE" "n \<le> sz"
    and fits: "sz \<le> vp_size p - vp_back p" "vp_front p \<le> start"
  shows "alloc_ok p n (2 ^ k) (vp_base p + start) (p\<lparr>vp_back := vp_size p - start\<rparr>)"
proof -
  let ?B = "unat (vp_base p)" and ?F = "unat (vp_front p)" and ?S = "unat (vp_size p)"
    and ?K = "unat (vp_back p)"
  note w = wf [unfolded vp_wf_def]
  note num = back_numbers [OF wf a(1) start fits(1), unfolded a(1)]
  have S0: "vp_size p \<noteq> 0" using a(4) by (auto simp: le_less_trans)
  have szn: "unat sz = (unat n + 2 ^ 7 - 1) div 2 ^ 7 * 2 ^ 7"
    using align_up_ge_imp_no_wrap [OF granule_values(2)] sz n by (simp add: granule_values)
  have n0: "unat n \<noteq> 0" and nsz: "unat n \<le> unat sz"
    using n sz(2) by (simp_all add: word_le_nat_alt unat_eq_0)
  have d7: "(2::nat) ^ 7 dvd 2 ^ k" and d11: "(2::nat) ^ k dvd 2 ^ 11"
    using a by (auto intro!: le_imp_power_dvd simp del: power_numeral)
  have stK: "unat start \<le> ?S" using num(3) by linarith
  have bk: "unat (vp_size p - start) = ?S - unat start"
    using stK by (simp add: unat_sub word_le_nat_alt)
  have wsum: "?F + ?K \<le> ?S" and wtop: "?B + ?S \<le> 2 ^ 32" using w by simp_all
  then have le: "unat start + unat sz + ?K \<le> ?S" using num(3) n0 nsz by linarith
  with wtop have "?B + unat start < 2 ^ 32" using n0 nsz by linarith
  then have ptr: "unat (vp_base p + start) = ?B + unat start" by (simp add: unat_plus_if')
  have dst: "2 ^ k dvd unat start" by (simp add: num(1))
  have dS: "(2::nat) ^ 7 dvd ?S" "(2::nat) ^ k dvd ?B"
    using w d11 by (auto intro: dvd_trans [OF le_imp_power_dvd [of 7 11 "2::nat"]] dvd_trans)
  have F: "?F \<le> unat start" using fits(2) by (simp add: word_le_nat_alt)
  have wf': "vp_wf (p\<lparr>vp_back := vp_size p - start\<rparr>)"
    using w F stK dS dvd_trans [OF d7 dst] unfolding vp_wf_def by (simp add: bk dvd_diff_nat)
  have "(?S - ?K - unat sz) mod 2 ^ k < 2 ^ k" by simp
  then have "?S - ?K - unat sz < unat start + 2 ^ k"
    using num(1) div_mult_mod_eq [of "?S - ?K - unat sz" "2 ^ k"] by linarith
  moreover have "(2::nat) ^ 7 dvd ?S - ?K - unat sz" "(2::nat) ^ 7 dvd unat start + 2 ^ k"
    using w dS szn dvd_trans [OF d7 dst] d7 by (auto intro!: dvd_diff_nat dvd_add)
  ultimately have loss: "?S - ?K - unat sz + 2 ^ 7 \<le> unat start + 2 ^ k"
    by (metis dvd_add_gap)
  have "(2::nat) ^ 7 \<le> 2 ^ k" using d7 by (rule dvd_imp_le) simp
  moreover have "(2::nat) ^ k < 2 ^ 11" using a(3) by (rule power_strict_increasing) simp
  ultimately have "alloc_footprint (unat n) (2 ^ k) = unat sz + (2 ^ k - 2 ^ 7)"
    by (simp add: alloc_footprint_def szn)
  then have "vp_used (p\<lparr>vp_back := vp_size p - start\<rparr>) \<le> vp_used p + alloc_footprint (unat n) (2 ^ k)"
    using loss num(3) by (simp add: vp_used_def bk)
  moreover have "?B \<noteq> 0" using w S0 by (auto simp: unat_eq_0)
  ultimately show ?thesis
    using wf' dst dS num(3) nsz F n0
    by (auto simp: alloc_ok_def ptr bk mem_block_def vp_free_def unat_eq_0 [symmetric])
qed

section \<open>Correctness of an allocation\<close>

theorem partition_alloc_Ret:
  assumes wf: "vp_wf p" and n: "n \<noteq> 0" and ret: "partition_alloc (Some p) n al = Ret (ptr, po)"
  shows "\<exists>p'. po = Some p' \<and> alloc_ok p n (effective_alignment al) ptr p'"
proof -
  let ?al = "raised_alignment al"
  note eq = ret [unfolded partition_alloc_eq [OF n] Let_def]
  have pow: "?al AND (?al - 1) = 0" and size: "effective_alignment al \<le> unat (vp_size p)"
    using eq by (auto simp: unat_raised_alignment split: if_splits)
  obtain k where k: "effective_alignment al = 2 ^ k" "7 \<le> k" using pow by (rule raised_alignment_power)
  have a: "unat (ucast ?al :: usize) = 2 ^ k"
    using size k by (intro power_le_size_word) (simp_all add: unat_raised_alignment)
  have cmp: "2 ^ 11 \<le> unat ?al \<longleftrightarrow> 11 \<le> k"
    by (simp only: unat_raised_alignment k(1) power_cmp11)
  show ?thesis
  proof (cases "11 \<le> k")
    case True
    from front_alloc_ok [OF wf n a True _ front_start_def refl]
    show ?thesis using eq pow size k True cmp
      by (auto simp: unat_raised_alignment not_less split: if_splits)
  next
    case False
    from back_alloc_ok [OF wf n a k(2) _ _ back_start_def refl]
    show ?thesis using eq pow size k False cmp
      by (auto simp: unat_raised_alignment not_less split: if_splits)
  qed
qed

text \<open>
  Progress: a request with a power-of-two alignment whose documented footprint still fits
  never aborts.
\<close>

definition alloc_legal :: "usize \<times> u64 \<Rightarrow> bool" where
  "alloc_legal r \<longleftrightarrow> fst r = 0 \<or> raised_alignment (snd r) AND (raised_alignment (snd r) - 1) = 0"

lemma alloc_footprint_ge:
  assumes "n \<noteq> 0" and "128 \<le> A"
  shows "A \<le> alloc_footprint n A" "n \<le> alloc_footprint n A"
proof -
  define g :: nat where "g = (if 2048 \<le> A then 2048 else 128)"
  have g: "g \<noteq> 0" "g \<le> A" using assms(2) by (auto simp: g_def)
  have "n \<le> (n + g - 1) div g * g" using g(1) by (rule round_up_ge)
  moreover have "g \<le> (n + g - 1) div g * g"
    using assms(1) g by (cases "(n + g - 1) div g") (auto simp: div_eq_0_iff)
  moreover have "alloc_footprint n A = (n + g - 1) div g * g + (A - g)"
    by (simp add: alloc_footprint_def g_def)
  ultimately show "A \<le> alloc_footprint n A" "n \<le> alloc_footprint n A" using g by linarith+
qed

lemma round_up_word:
  assumes "unat g = 2 ^ j" and "(unat n + unat g - 1) div unat g * unat g < 2 ^ 32" and "n \<noteq> 0" and "j < 32"
  shows "unat (align_up n g) = (unat n + unat g - 1) div unat g * unat g" "n \<le> align_up n g"
proof -
  have "unat n + unat g - 1 < 2 ^ 32"
  proof (rule ccontr)
    assume "\<not> ?thesis"
    moreover have "unat g dvd 2 ^ 32" unfolding assms(1) using assms(4) by (intro le_imp_power_dvd) simp
    ultimately have "2 ^ 32 \<le> (unat n + unat g - 1) div unat g * unat g"
      by (metis div_le_mono dvd_div_mult_self mult_le_mono1 not_less)
    with assms(2) show False by simp
  qed
  then show eq: "unat (align_up n g) = (unat n + unat g - 1) div unat g * unat g"
    by (simp add: unat_align_up [OF assms(1)])
  have "unat g \<noteq> 0" using assms(1) by simp
  from round_up_ge [OF this, of "unat n"] show "n \<le> align_up n g"
    unfolding word_le_nat_alt eq .
qed

lemma front_progress:
  assumes wf: "vp_wf p" and n: "n \<noteq> 0" and a: "unat a = 2 ^ k" "11 \<le> k" "k < 32"
    and room: "vp_used p + alloc_footprint (unat n) (2 ^ k) \<le> unat (vp_size p)"
  defines "sz \<equiv> align_up n VTCM_FRONT_LARGE_GRANULE"
  shows "n \<le> sz" "front_start p a \<le> vp_size p - vp_back p"
    "sz \<le> vp_size p - vp_back p - front_start p a"
proof -
  let ?B = "unat (vp_base p)" and ?F = "unat (vp_front p)" and ?S = "unat (vp_size p)"
    and ?K = "unat (vp_back p)"
  define R where "R = (unat n + 2 ^ 11 - 1) div 2 ^ 11 * 2 ^ 11"
  define up where "up = (?B + ?F + 2 ^ k - 1) div 2 ^ k * 2 ^ k"
  note w = wf [unfolded vp_wf_def]
  have k11: "(2::nat) ^ 11 \<le> 2 ^ k" using a(2) by (simp only: power_cmp11)
  have n0: "unat n \<noteq> 0" using n by (simp add: unat_eq_0)
  have fp: "alloc_footprint (unat n) (2 ^ k) = R + (2 ^ k - 2 ^ 11)"
    using k11 by (simp add: alloc_footprint_def R_def)
  have sum: "?F + ?K + R + (2 ^ k - 2 ^ 11) \<le> ?S" using room by (simp add: fp vp_used_def)
  have Rn: "unat n \<le> R" unfolding R_def by (rule round_up_ge) simp
  have top: "?B + ?S \<le> 2 ^ 32" using w by simp
  have S0: "vp_size p \<noteq> 0" using sum Rn n0 by auto
  have B0: "0 < ?B" using w S0 by (auto simp: unat_gt_0)
  have R32: "R < 2 ^ 32" using sum top B0 by linarith
  have szR: "unat sz = R" and n_le: "n \<le> sz"
    using round_up_word [OF granule_values(1) _ n] R32 by (simp_all add: granule_values R_def sz_def)
  show "n \<le> sz" by (rule n_le)
  have bb: "unat (vp_size p - vp_back p) = ?S - ?K"
    using sum by (subst unat_sub) (auto simp: word_le_nat_alt)
  have v: "unat (vp_base p + vp_front p) = ?B + ?F"
    using top sum Rn n0 by (simp add: unat_plus_if')
  then have v0: "vp_base p + vp_front p \<noteq> 0" using B0 by (auto simp: unat_eq_0 [symmetric])
  have dk: "(2::nat) ^ 11 dvd 2 ^ k" using a(2) by (rule le_imp_power_dvd)
  have "up \<le> ?B + ?F + 2 ^ k - 2 ^ 11"
    unfolding up_def using dk w by (intro round_up_dvd_bound) auto
  then have upS: "up + R + ?K \<le> ?B + ?S" using sum k11 by linarith
  then have "up < 2 ^ 32" using top Rn n0 by linarith
  then have au: "unat (align_up (vp_base p + vp_front p) a) = up"
    using round_up_word(1) [OF a(1) _ v0 a(3)] by (simp add: v a(1) up_def)
  have ge: "?B + ?F \<le> up" unfolding up_def by (rule round_up_ge) simp
  then have st: "unat (front_start p a) = up - ?B"
    using au by (simp add: front_start_def unat_sub_if')
  show le: "front_start p a \<le> vp_size p - vp_back p"
    using upS ge by (simp add: word_le_nat_alt st bb)
  show "sz \<le> vp_size p - vp_back p - front_start p a"
    using upS ge by (simp add: word_le_nat_alt szR unat_sub [OF le] bb st)
qed

lemma back_progress:
  assumes wf: "vp_wf p" and n: "n \<noteq> 0" and a: "unat a = 2 ^ k" "7 \<le> k" "k < 11"
    and room: "vp_used p + alloc_footprint (unat n) (2 ^ k) \<le> unat (vp_size p)"
  defines "sz \<equiv> align_up n VTCM_BACK_SMALL_GRANULE"
  shows "n \<le> sz" "sz \<le> vp_size p - vp_back p" "vp_front p \<le> back_start p n a"
proof -
  let ?F = "unat (vp_front p)" and ?S = "unat (vp_size p)" and ?K = "unat (vp_back p)"
  define R where "R = (unat n + 2 ^ 7 - 1) div 2 ^ 7 * 2 ^ 7"
  note w = wf [unfolded vp_wf_def]
  have d7: "(2::nat) ^ 7 dvd 2 ^ k" using a(2) by (rule le_imp_power_dvd)
  then have k7: "(2::nat) ^ 7 \<le> 2 ^ k" by (rule dvd_imp_le) simp
  have "(2::nat) ^ k < 2 ^ 11" using a(3) by (rule power_strict_increasing) simp
  then have fp: "alloc_footprint (unat n) (2 ^ k) = R + (2 ^ k - 2 ^ 7)"
    by (simp add: alloc_footprint_def R_def)
  have sum: "?F + ?K + R + (2 ^ k - 2 ^ 7) \<le> ?S" using room by (simp add: fp vp_used_def)
  have R32: "R < 2 ^ 32" using sum unat32_less [of "vp_size p"] by simp
  have szR: "unat sz = R" and n_le: "n \<le> sz"
    using round_up_word [OF granule_values(2) _ n] R32 by (simp_all add: granule_values R_def sz_def)
  show "n \<le> sz" by (rule n_le)
  have bb: "unat (vp_size p - vp_back p) = ?S - ?K"
    using sum by (subst unat_sub) (auto simp: word_le_nat_alt)
  show fits: "sz \<le> vp_size p - vp_back p" using sum by (simp add: word_le_nat_alt szR bb)
  have bs: "back_start p n a = align_down (vp_size p - vp_back p - sz) a"
    by (simp add: back_start_def sz_def)
  have st: "unat (back_start p n a) = (?S - ?K - R) div 2 ^ k * 2 ^ k"
    using back_numbers(1) [OF wf a(1) bs fits] by (simp add: a(1) szR)
  have "(?S - ?K - R) mod 2 ^ k < 2 ^ k" by simp
  then have "?S - ?K - R < unat (back_start p n a) + 2 ^ k"
    using st div_mult_mod_eq [of "?S - ?K - R" "2 ^ k"] by linarith
  moreover have "(2::nat) ^ 7 dvd ?S" using w by (auto intro: dvd_trans [of _ "2 ^ 11"])
  then have "(2::nat) ^ 7 dvd ?S - ?K - R" using w by (auto simp: R_def intro!: dvd_diff_nat)
  moreover have "(2::nat) ^ 7 dvd unat (back_start p n a) + 2 ^ k"
    using d7 unfolding st by (intro dvd_add dvd_mult)
  ultimately have "?S - ?K - R + 2 ^ 7 \<le> unat (back_start p n a) + 2 ^ k" by (metis dvd_add_gap)
  then show "vp_front p \<le> back_start p n a" using sum k7 by (simp add: word_le_nat_alt)
qed

lemma partition_alloc_progress:
  assumes wf: "vp_wf p" and legal: "alloc_legal (n, al)"
    and room: "vp_used p + alloc_footprint (unat n) (effective_alignment al) \<le> unat (vp_size p)"
  shows "partition_alloc (Some p) n al \<noteq> Abort"
proof (cases "n = 0")
  case True
  then show ?thesis by (simp add: partition_alloc_def)
next
  case n: False
  let ?al = "raised_alignment al"
  have pow: "?al AND (?al - 1) = 0" using legal n by (simp add: alloc_legal_def)
  then obtain k where k: "effective_alignment al = 2 ^ k" "7 \<le> k" by (rule raised_alignment_power)
  have "2 ^ k \<le> alloc_footprint (unat n) (2 ^ k)"
    using n k(1) by (intro alloc_footprint_ge(1)) (auto simp: unat_eq_0 effective_alignment_def max_def split: if_splits)
  then have size: "2 ^ k \<le> unat (vp_size p)" using room k(1) by simp
  then have a: "unat (ucast ?al :: usize) = 2 ^ k"
    using k by (intro power_le_size_word) (simp_all add: unat_raised_alignment)
  have "(2::nat) ^ k < 2 ^ 32" using size unat32_less [of "vp_size p"] by simp
  then have k32: "k < 32" by (rule power_less_imp_less_exp [rotated]) simp
  have room': "vp_used p + alloc_footprint (unat n) (2 ^ k) \<le> unat (vp_size p)" using room k by simp
  have cmp: "2 ^ 11 \<le> unat ?al \<longleftrightarrow> 11 \<le> k"
    by (simp only: unat_raised_alignment k(1) power_cmp11)
  show ?thesis
  proof (cases "11 \<le> k")
    case True
    with front_progress [OF wf n a True k32 room'] show ?thesis
      using pow size cmp by (simp add: partition_alloc_eq [OF n] Let_def unat_raised_alignment k(1) not_less)
  next
    case False
    with back_progress [OF wf n a k(2) _ room'] show ?thesis
      using pow size cmp by (simp add: partition_alloc_eq [OF n] Let_def unat_raised_alignment k(1) not_less)
  qed
qed

section \<open>The partition as a region allocator\<close>

definition vp_step :: "vtcm_partition \<Rightarrow> usize \<times> u64 \<Rightarrow> (usize \<times> vtcm_partition) run" where
  "vp_step p r =
     (case partition_alloc (Some p) (fst r) (snd r) of
        Abort \<Rightarrow> Abort
      | Ret (ptr, po) \<Rightarrow> (case po of None \<Rightarrow> Abort | Some q \<Rightarrow> Ret (ptr, q)))"

definition vp_cost :: "usize \<times> u64 \<Rightarrow> nat" where
  "vp_cost r = alloc_footprint (unat (fst r)) (effective_alignment (snd r))"

lemma vp_step_RetE:
  assumes "vp_wf p" and "vp_step p r = Ret (ptr, q)"
  obtains (Zero) "fst r = 0" "q = p" "ptr = 0"
  | (Block) "alloc_ok p (fst r) (effective_alignment (snd r)) ptr q"
  using assms partition_alloc_Ret [of p "fst r" "snd r" ptr]
  by (cases "fst r = 0") (auto simp: vp_step_def partition_alloc_def split: run.splits option.splits)

interpretation vp: region_allocator vp_step vp_wf vp_free "\<lambda>r b. mem_block b (fst r)" vp_used
  "\<lambda>p. unat (vp_size p)" vp_cost alloc_legal
proof unfold_locales
  fix p r b p'
  assume wf: "vp_wf p" and ret: "vp_step p r = Ret (b, p')"
  show "vp_wf p'" using wf ret by (rule vp_step_RetE) (auto simp: alloc_ok_def wf)
  show "mem_block b (fst r) \<subseteq> vp_free p"
    using wf ret by (rule vp_step_RetE) (auto simp: alloc_ok_def mem_block_def)
  show "vp_free p' \<subseteq> vp_free p - mem_block b (fst r)"
    using wf ret by (rule vp_step_RetE) (auto simp: alloc_ok_def mem_block_def)
  show "vp_used p' \<le> vp_used p + vp_cost r"
    using wf ret by (rule vp_step_RetE) (auto simp: alloc_ok_def vp_cost_def)
  show "unat (vp_size p') = unat (vp_size p)"
    using wf ret by (rule vp_step_RetE) (auto simp: alloc_ok_def)
next
  fix p r
  assume wf: "vp_wf p" and legal: "alloc_legal r" and room: "vp_used p + vp_cost r \<le> unat (vp_size p)"
  obtain n al where r: "r = (n, al)" by (cases r)
  with partition_alloc_progress [OF wf, of n al] legal room
  have "partition_alloc (Some p) n al \<noteq> Abort" by (simp add: vp_cost_def)
  then obtain ptr po where ret: "partition_alloc (Some p) n al = Ret (ptr, po)"
    by (cases "partition_alloc (Some p) n al") auto
  then have "po \<noteq> None"
    using partition_alloc_Ret [OF wf _ ret] by (cases "n = 0") (auto simp: partition_alloc_def)
  with ret r show "vp_step p r \<noteq> Abort" by (auto simp: vp_step_def split: option.splits)
qed

text \<open>Every block of a sequence is aligned as requested.\<close>

lemma run_allocs_aligned:
  "vp_wf p \<Longrightarrow> run_allocs vp_step p rs = Ret (bs, q) \<Longrightarrow> i < length rs \<Longrightarrow> fst (rs ! i) \<noteq> 0 \<Longrightarrow>
   effective_alignment (snd (rs ! i)) dvd unat (bs ! i) \<and> bs ! i \<noteq> 0"
proof (induction rs arbitrary: p bs i)
  case (Cons r rs)
  from Cons.prems(2) obtain b p' bs' where
    s: "vp_step p r = Ret (b, p')" "run_allocs vp_step p' rs = Ret (bs', q)" "bs = b # bs'"
    by (rule vp.run_allocs_ConsE)
  show ?case
  proof (cases i)
    case 0
    with Cons.prems(4) have nz: "fst r \<noteq> 0" by simp
    from Cons.prems(1) s(1) show ?thesis
      by (rule vp_step_RetE) (use nz 0 in \<open>auto simp: alloc_ok_def s(3)\<close>)
  next
    case (Suc j)
    with Cons.IH [OF vp.alloc_inv [OF Cons.prems(1) s(1)] s(2), of j] Cons.prems show ?thesis
      by (simp add: s(3))
  qed
qed simp

section \<open>Acquiring a partition\<close>

text \<open>
  What the runtime relies on of \<open>VtcmPool\<close> (hexagon-mlir): a request for a non-zero multiple
  of 2 KiB that is no larger than the largest free block is served, with a 2 KiB aligned block
  inside the 32-bit address space.
\<close>

definition pool_serves_large :: "'pool vtcm_pool_ops \<Rightarrow> 'pool \<Rightarrow> bool" where
  "pool_serves_large ops pool \<longleftrightarrow>
     (\<forall>n. n \<noteq> 0 \<and> 2 ^ 11 dvd unat n \<and> n \<le> getLargestFreeBlock ops pool \<longrightarrow>
        fst (Allocate ops pool n) \<noteq> 0 \<and> 2 ^ 11 dvd unat (fst (Allocate ops pool n)) \<and>
        unat (fst (Allocate ops pool n)) + unat n \<le> 2 ^ 32)"

lemma partition_bytes_request:
  assumes "n \<noteq> 0" and "unat n \<le> 2 ^ 32 - 2 ^ 11"
  shows "n \<noteq> HEXAGON_RT_VTCM_PARTITION_ALL"
    "unat (partition_bytes ops pool n) = (unat n + 2 ^ 11 - 1) div 2 ^ 11 * 2 ^ 11"
    "n \<le> partition_bytes ops pool n"
    "unat (partition_bytes ops pool n) < unat n + 2 ^ 11"
proof -
  have unat_all: "unat HEXAGON_RT_VTCM_PARTITION_ALL = 2 ^ 32 - 1"
    by (simp add: HEXAGON_RT_VTCM_PARTITION_ALL_def unsigned_minus_1_eq_mask mask_eq_exp_minus_1)
  show all: "n \<noteq> HEXAGON_RT_VTCM_PARTITION_ALL"
    using assms(2) unat_all by auto
  have eq: "unat (align_up n VTCM_FRONT_LARGE_GRANULE) = (unat n + 2 ^ 11 - 1) div 2 ^ 11 * 2 ^ 11"
    using assms(2) by (simp add: unat_align_up [OF granule_values(1)] granule_values)
  with all show "unat (partition_bytes ops pool n) = (unat n + 2 ^ 11 - 1) div 2 ^ 11 * 2 ^ 11"
    by (simp add: partition_bytes_def)
  moreover have "unat n \<le> (unat n + 2 ^ 11 - 1) div 2 ^ 11 * 2 ^ 11" by (rule round_up_ge) simp
  moreover have "(unat n + 2 ^ 11 - 1) div 2 ^ 11 * 2 ^ 11 < unat n + 2 ^ 11"
    by (rule round_up_less) simp
  ultimately show "n \<le> partition_bytes ops pool n"
    "unat (partition_bytes ops pool n) < unat n + 2 ^ 11"
    by (simp_all add: word_le_nat_alt)
qed

lemma try_acquire_served:
  assumes n: "n \<noteq> 0" "unat n \<le> 2 ^ 32 - 2 ^ 11" and pool: "pool_serves_large ops pool"
    and acq: "try_acquire_vtcm_partition ops pool n name = (ok, p, pool')"
  shows "ok \<longleftrightarrow> partition_bytes ops pool n \<le> getLargestFreeBlock ops pool"
    "ok \<Longrightarrow> vp_wf p \<and> n \<le> vp_size p \<and> unat (vp_size p) < unat n + 2 ^ 11 \<and> vp_used p = 0"
    "\<not> ok \<Longrightarrow> pool' = pool \<and> vp_base p = 0"
proof -
  note b = partition_bytes_request(1) [OF n] partition_bytes_request(2,3,4) [OF n, of ops pool]
  let ?n = "partition_bytes ops pool n"
  have n0: "?n \<noteq> 0" using b(3) n(1) by auto
  have dv: "2 ^ 11 dvd unat ?n" by (simp add: b(2))
  let ?a = "Allocate ops pool ?n"
  have served: "fst ?a \<noteq> 0 \<and> 2 ^ 11 dvd unat (fst ?a) \<and> unat (fst ?a) + unat ?n \<le> 2 ^ 32"
    if "?n \<le> getLargestFreeBlock ops pool"
    using pool n0 dv that unfolding pool_serves_large_def by blast
  let ?p = "empty_partition\<lparr>vp_name := name, vp_size := ?n\<rparr>"
  have none: "\<not> ok \<and> p = ?p \<and> pool' = pool" if "\<not> ?n \<le> getLargestFreeBlock ops pool"
    using acq n(1) that by (auto simp: try_acquire_vtcm_partition_def Let_def not_le)
  have some: "ok \<and> p = ?p\<lparr>vp_base := fst ?a\<rparr>" if le: "?n \<le> getLargestFreeBlock ops pool"
    using acq n(1) le [THEN leD] served [OF le]
    by (auto simp: try_acquire_vtcm_partition_def Let_def case_prod_beta)
  show ok: "ok \<longleftrightarrow> ?n \<le> getLargestFreeBlock ops pool" using none some by blast
  show "vp_wf p \<and> n \<le> vp_size p \<and> unat (vp_size p) < unat n + 2 ^ 11 \<and> vp_used p = 0" if ok
    using that ok some served dv b(3,4) by (simp add: vp_wf_def vp_used_def empty_partition_def)
  show "pool' = pool \<and> vp_base p = 0" if "\<not> ok"
    using that ok none by (simp add: empty_partition_def)
qed

section \<open>Properties\<close>

text \<open>
  C14: an allocation that does not abort returns a block of the requested size inside the free
  bytes of the partition, aligned as requested (at least 128 bytes), removes the block from the
  free bytes, keeps the invariant, and uses up no more than the documented footprint.
\<close>

theorem vtcm_alloc_correct:
  assumes "vp_wf p" and "n \<noteq> 0" and "partition_alloc (Some p) n al = Ret (ptr, po)"
  shows "\<exists>q. po = Some q \<and> alloc_ok p n (effective_alignment al) ptr q"
  using partition_alloc_Ret [OF assms] by auto

text \<open>A concrete partition for the witnesses.\<close>

definition sample_partition :: vtcm_partition where
  "sample_partition = \<lparr>vp_base = 65536, vp_size = 8192, vp_front = 0, vp_back = 0, vp_name = None\<rparr>"

lemma sample_partition_wf: "vp_wf sample_partition"
  by (simp add: sample_partition_def vp_wf_def)

lemma sample_back_alloc:
  "partition_alloc (Some sample_partition) 100 64 =
     Ret (73600, Some (sample_partition\<lparr>vp_back := 128\<rparr>))"
  by code_simp

lemma sample_front_alloc:
  "partition_alloc (Some sample_partition) 3000 2048 =
     Ret (65536, Some (sample_partition\<lparr>vp_front := 4096\<rparr>))"
  by code_simp

theorem vtcm_alloc_correct_witness:
  "alloc_ok sample_partition 100 (effective_alignment 64) 73600 (sample_partition\<lparr>vp_back := 128\<rparr>)"
  using vtcm_alloc_correct [OF sample_partition_wf _ sample_back_alloc] by simp



text \<open>
  A request for a non-empty block with an alignment that is not a power of two or exceeds
  the partition aborts, as does any non-empty request without a partition; an empty request
  returns \<open>NULL\<close> and changes nothing.
\<close>

theorem vtcm_alloc_errors:
  assumes n: "n \<noteq> 0"
    and bad: "po = None \<or> (\<exists>p. po = Some p \<and>
      (unat (vp_size p) < effective_alignment al \<or> (\<nexists>k. effective_alignment al = 2 ^ k)))"
  shows "partition_alloc po n al = Abort \<and> partition_alloc po 0 al = Ret (0, po)"
proof
  show "partition_alloc po 0 al = Ret (0, po)" by (simp add: partition_alloc_def)
  have "raised_alignment al AND (raised_alignment al - 1) \<noteq> 0" if "\<nexists>k. effective_alignment al = 2 ^ k"
    using that raised_alignment_power by blast
  with bad n show "partition_alloc po n al = Abort"
    by (auto simp: partition_alloc_eq unat_raised_alignment Let_def)
      (simp add: partition_alloc_def)
qed

theorem vtcm_alloc_errors_witness:
  "partition_alloc None 5 128 = Abort \<and>
   partition_alloc (Some sample_partition) 5 16384 = Abort \<and>
   partition_alloc (Some sample_partition) 5 192 = Abort"
proof (intro conjI)
  have not_power: "\<nexists>k. (192::nat) = 2 ^ k"
  proof
    assume "\<exists>k. (192::nat) = 2 ^ k"
    then obtain k where k: "(192::nat) = 2 ^ k" by blast
    have "(2::nat) ^ 7 < 2 ^ k" and "(2::nat) ^ k < 2 ^ 8" unfolding k [symmetric] by simp_all
    then have "7 < k" and "k < 8" by (simp_all only: power_strict_increasing_iff one_less_numeral_iff semiring_norm)
    then show False by simp
  qed
  show "partition_alloc (Some sample_partition) 5 192 = Abort"
    using vtcm_alloc_errors [of 5 "Some sample_partition" 192] not_power
    by (auto simp: effective_alignment_def)
  show "partition_alloc (Some sample_partition) 5 16384 = Abort"
    using vtcm_alloc_errors [of 5 "Some sample_partition" 16384]
    by (simp add: effective_alignment_def sample_partition_def)
  show "partition_alloc None 5 128 = Abort"
    using vtcm_alloc_errors [of 5 None 128] by simp
qed

text \<open>
  For a demand of at most 4 GiB - 2 KiB, acquiring a partition without blocking succeeds
  exactly when the rounded demand fits the pool's largest free block; the partition is then well
  formed, empty, and at least as large as the demand but less than 2 KiB larger. A failed
  attempt leaves the pool as it was and yields no memory.
\<close>

theorem try_acquire_correct:
  assumes "n \<noteq> 0" and "unat n \<le> 2 ^ 32 - 2 ^ 11" and "pool_serves_large ops pool"
    and "try_acquire_vtcm_partition ops pool n name = (ok, p, pool')"
  shows "(ok \<longleftrightarrow> partition_bytes ops pool n \<le> getLargestFreeBlock ops pool) \<and>
    (if ok then vp_wf p \<and> n \<le> vp_size p \<and> unat (vp_size p) < unat n + 2 ^ 11 \<and> vp_used p = 0
     else pool' = pool \<and> vp_base p = 0)"
  using try_acquire_served [OF assms] by simp

text \<open>A pool of 1 MiB at 64 KiB that hands out its lowest free bytes.\<close>

definition sample_pool :: "usize vtcm_pool_ops" where
  "sample_pool = \<lparr>VtcmAllocatedBytes = (\<lambda>_. 1048576), getLargestFreeBlock = (\<lambda>s. 1048576 - s),
     Allocate = (\<lambda>s n. (65536 + s, s + n)), Free = (\<lambda>s _ n. s - n)\<rparr>"

lemma sample_pool_serves: "pool_serves_large sample_pool 0"
  by (auto simp: pool_serves_large_def sample_pool_def word_le_nat_alt)

theorem try_acquire_correct_witness:
  "\<exists>p pool'. try_acquire_vtcm_partition sample_pool 0 5000 None = (True, p, pool') \<and>
     vp_wf p \<and> 5000 \<le> vp_size p"
proof -
  have acq: "try_acquire_vtcm_partition sample_pool 0 5000 None =
      (True, \<lparr>vp_base = 65536, vp_size = 6144, vp_front = 0, vp_back = 0, vp_name = None\<rparr>, 6144)"
    by code_simp
  from try_acquire_correct [OF _ _ sample_pool_serves acq] acq show ?thesis by simp
qed

end
