(* ===== verification/Worklist_Search.thy ===== *)
theory Worklist_Search
  imports Prelude "HOL-Library.While_Combinator"
begin

text \<open>
  Depth-first search with an explicit worklist, the form the compiler's graph walks take: items are
  popped at the end of the worklist, an item's node is expanded when it was not visited before,
  and the search may stop early at an item it looks for. \<open>while_option\<close> is \<open>None\<close> when the loop
  does not end.
\<close>

type_synonym ('a, 'k) search_state = "bool \<times> 'k set \<times> 'a list"

definition search_step ::
  "('a \<Rightarrow> bool) \<Rightarrow> ('a \<Rightarrow> 'k option) \<Rightarrow> ('k \<Rightarrow> 'a list) \<Rightarrow> ('a, 'k) search_state \<Rightarrow> ('a, 'k) search_state" where
  "search_step hit key children s =
     (case s of (found, visited, worklist) \<Rightarrow>
        (let current = last worklist; worklist = butlast worklist
         in if hit current then (True, visited, worklist)
            else case key current of None \<Rightarrow> (False, visited, worklist)
              | Some k \<Rightarrow> if k \<in> visited then (False, visited, worklist)
                  else (False, insert k visited, worklist @ children k)))"

definition search_continues :: "('a, 'k) search_state \<Rightarrow> bool" where
  "search_continues s \<longleftrightarrow> (case s of (found, visited, worklist) \<Rightarrow> \<not> found \<and> worklist \<noteq> [])"

definition worklist_search ::
  "('a \<Rightarrow> bool) \<Rightarrow> ('a \<Rightarrow> 'k option) \<Rightarrow> ('k \<Rightarrow> 'a list) \<Rightarrow> 'a list \<Rightarrow> ('a, 'k) search_state option" where
  "worklist_search hit key children init =
     while_option search_continues (search_step hit key children) (False, {}, init)"

text \<open>The items a search can meet, and their nodes.\<close>

definition item_edges :: "('a \<Rightarrow> 'k option) \<Rightarrow> ('k \<Rightarrow> 'a list) \<Rightarrow> ('a \<times> 'a) set" where
  "item_edges key children = {(a, b). \<exists>k. key a = Some k \<and> b \<in> set (children k)}"

definition items :: "('a \<Rightarrow> 'k option) \<Rightarrow> ('k \<Rightarrow> 'a list) \<Rightarrow> 'a list \<Rightarrow> 'a set" where
  "items key children init = (item_edges key children)\<^sup>* `` set init"

definition nodes :: "('a \<Rightarrow> 'k option) \<Rightarrow> ('k \<Rightarrow> 'a list) \<Rightarrow> 'a list \<Rightarrow> 'k set" where
  "nodes key children init = {k. \<exists>a\<in>items key children init. key a = Some k}"

lemma items_init: "set init \<subseteq> items key children init"
  by (auto simp: items_def)

lemma items_children:
  "a \<in> items key children init \<Longrightarrow> key a = Some k \<Longrightarrow> set (children k) \<subseteq> items key children init"
  by (auto simp: items_def item_edges_def intro: rtrancl_into_rtrancl)

lemma items_closed:
  assumes "set init \<subseteq> S" and "\<And>a k. a \<in> S \<Longrightarrow> key a = Some k \<Longrightarrow> set (children k) \<subseteq> S"
  shows "items key children init \<subseteq> S"
proof
  fix x assume "x \<in> items key children init"
  then obtain a where "a \<in> set init" "(a, x) \<in> (item_edges key children)\<^sup>*" by (auto simp: items_def)
  then have "a \<in> S" using assms(1) by blast
  with \<open>(a, x) \<in> _\<close> show "x \<in> S"
    by induction (use assms(2) in \<open>auto simp: item_edges_def\<close>)
qed

lemma finite_nodes: "finite (items key children init) \<Longrightarrow> finite (nodes key children init)"
proof -
  assume fin: "finite (items key children init)"
  have "nodes key children init \<subseteq> the ` key ` items key children init"
    by (force simp: nodes_def)
  with fin show ?thesis by (auto intro: finite_subset)
qed

text \<open>
  The invariant: everything met is reachable, every reachable item that is not pending was
  examined, and nothing examined was looked for.
\<close>

definition search_inv ::
  "('a \<Rightarrow> bool) \<Rightarrow> ('a \<Rightarrow> 'k option) \<Rightarrow> ('k \<Rightarrow> 'a list) \<Rightarrow> 'a list \<Rightarrow> ('a, 'k) search_state \<Rightarrow> bool" where
  "search_inv hit key children init s \<longleftrightarrow>
     (case s of (found, visited, worklist) \<Rightarrow>
        set worklist \<subseteq> items key children init \<and> visited \<subseteq> nodes key children init \<and>
        (if found then \<exists>a\<in>items key children init. hit a
         else \<exists>done. set init \<subseteq> done \<union> set worklist \<and>
           (\<forall>a\<in>done. \<not> hit a \<and> (\<forall>k. key a = Some k \<longrightarrow> k \<in> visited)) \<and>
           (\<forall>k\<in>visited. set (children k) \<subseteq> done \<union> set worklist)))"

lemma search_inv_init: "search_inv hit key children init (False, {}, init)"
  using items_init by (fastforce simp: search_inv_def)

lemma search_inv_step:
  assumes inv: "search_inv hit key children init (False, visited, worklist)" and ne: "worklist \<noteq> []"
  shows "search_inv hit key children init (search_step hit key children (False, visited, worklist))"
proof -
  obtain wl c where wl: "worklist = wl @ [c]" using ne by (cases worklist rule: rev_cases) auto
  from inv obtain D where sub: "set wl \<subseteq> items key children init" and c: "c \<in> items key children init"
    and vis: "visited \<subseteq> nodes key children init"
    and D: "set init \<subseteq> D \<union> insert c (set wl)" "\<And>a. a \<in> D \<Longrightarrow> \<not> hit a"
      "\<And>a k. a \<in> D \<Longrightarrow> key a = Some k \<Longrightarrow> k \<in> visited"
      "\<And>k. k \<in> visited \<Longrightarrow> set (children k) \<subseteq> D \<union> insert c (set wl)"
    by (auto simp: search_inv_def wl)
  show ?thesis
  proof (cases "hit c")
    case True
    with sub c vis show ?thesis by (auto simp: search_inv_def search_step_def wl)
  next
    case miss: False
    show ?thesis
    proof (cases "\<exists>k. key c = Some k \<and> k \<notin> visited")
      case True
      then obtain k where k: "key c = Some k" "k \<notin> visited" by blast
      have "set (children k) \<subseteq> items key children init" using items_children [OF c k(1)] .
      moreover have "k \<in> nodes key children init" using c k(1) by (auto simp: nodes_def)
      moreover have "\<exists>D'. set init \<subseteq> D' \<union> set (wl @ children k) \<and>
          (\<forall>a\<in>D'. \<not> hit a \<and> (\<forall>k'. key a = Some k' \<longrightarrow> k' \<in> insert k visited)) \<and>
          (\<forall>k'\<in>insert k visited. set (children k') \<subseteq> D' \<union> set (wl @ children k))"
        by (rule exI [of _ "insert c D"]) (use D(1-3) miss k in \<open>auto dest: D(4) [THEN subsetD]\<close>)
      ultimately show ?thesis using sub vis miss k
        by (simp add: search_inv_def search_step_def wl)
    next
      case False
      have "\<exists>D'. set init \<subseteq> D' \<union> set wl \<and>
          (\<forall>a\<in>D'. \<not> hit a \<and> (\<forall>k'. key a = Some k' \<longrightarrow> k' \<in> visited)) \<and>
          (\<forall>k'\<in>visited. set (children k') \<subseteq> D' \<union> set wl)"
        by (rule exI [of _ "insert c D"]) (use D(1-3) miss False in \<open>auto dest: D(4) [THEN subsetD]\<close>)
      with sub vis miss False show ?thesis
        by (auto simp: search_inv_def search_step_def wl split: option.split)
    qed
  qed
qed

definition search_measure :: "('a \<Rightarrow> 'k option) \<Rightarrow> ('k \<Rightarrow> 'a list) \<Rightarrow> 'a list \<Rightarrow> ('a, 'k) search_state \<Rightarrow> nat" where
  "search_measure key children init s =
     (case s of (found, visited, worklist) \<Rightarrow>
        card (nodes key children init - visited) *
          Suc (\<Sum>k\<in>nodes key children init. length (children k)) + length worklist)"

lemma search_measure_step:
  assumes fin: "finite (items key children init)"
    and inv: "search_inv hit key children init (False, visited, worklist)" and ne: "worklist \<noteq> []"
  shows "search_measure key children init (search_step hit key children (False, visited, worklist))
           < search_measure key children init (False, visited, worklist)"
proof -
  obtain wl c where wl: "worklist = wl @ [c]" using ne by (cases worklist rule: rev_cases) auto
  have c: "c \<in> items key children init" using inv by (simp add: search_inv_def wl)
  let ?N = "nodes key children init"
  let ?M = "\<Sum>k\<in>?N. length (children k)"
  note finN = finite_nodes [OF fin]
  show ?thesis
  proof (cases "\<not> hit c \<and> (\<exists>k. key c = Some k \<and> k \<notin> visited)")
    case True
    then obtain k where k: "\<not> hit c" "key c = Some k" "k \<notin> visited" by blast
    have kN: "k \<in> ?N" using c k(2) by (auto simp: nodes_def)
    have le: "length (children k) \<le> ?M" using finN kN by (rule member_le_sum [rotated 2]) auto
    have eq: "?N - insert k visited = (?N - visited) - {k}" by blast
    have card: "card (?N - visited) = Suc (card (?N - insert k visited))"
      unfolding eq by (rule card.remove) (use finN kN k in auto)
    have "search_step hit key children (False, visited, worklist) =
        (False, insert k visited, wl @ children k)"
      using k by (simp add: search_step_def wl)
    moreover have "card (?N - visited) * Suc ?M = card (?N - insert k visited) * Suc ?M + Suc ?M"
      by (simp only: card mult_Suc add.commute)
    ultimately show ?thesis using le
      by (simp only: search_measure_def wl prod.case length_append list.size)
  next
    case False
    then show ?thesis by (auto simp: search_measure_def search_step_def wl split: option.split)
  qed
qed

text \<open>The search ends, finds exactly what is reachable, and otherwise has visited every node.\<close>

lemma worklist_search_correct:
  assumes fin: "finite (items key children init)"
  shows "\<exists>visited worklist.
    worklist_search hit key children init = Some (\<exists>a\<in>items key children init. hit a, visited, worklist) \<and>
    ((\<forall>a\<in>items key children init. \<not> hit a) \<longrightarrow> visited = nodes key children init)"
proof -
  let ?init = "(False, {}, init) :: ('a, 'k) search_state"
  have step: "search_inv hit key children init (search_step hit key children s) \<and>
      search_measure key children init (search_step hit key children s) < search_measure key children init s"
    if "search_inv hit key children init s" "search_continues s" for s
  proof -
    obtain found visited worklist where s: "s = (found, visited, worklist)" by (cases s)
    with that(2) have "\<not> found" "worklist \<noteq> []" by (simp_all add: search_continues_def)
    with that(1) show ?thesis
      using search_inv_step [of hit key children init visited worklist]
        search_measure_step [OF fin, of hit visited worklist] by (simp add: s)
  qed
  from measure_while_option_Some [where P = "search_inv hit key children init", OF step search_inv_init]
  obtain t where t: "while_option search_continues (search_step hit key children) ?init = Some t" by blast
  have stop: "\<not> search_continues t" using t by (rule while_option_stop)
  have inv: "search_inv hit key children init t"
    using t search_inv_init by (rule while_option_rule [rotated]) (use step in blast)
  obtain found visited worklist where s: "t = (found, visited, worklist)" by (cases t)
  show ?thesis
  proof (cases found)
    case True
    with inv have "\<exists>a\<in>items key children init. hit a" by (simp add: s search_inv_def)
    with t True s show ?thesis by (auto simp: worklist_search_def)
  next
    case False
    with stop s have wl: "worklist = []" by (simp add: search_continues_def)
    from inv False obtain D where D: "set init \<subseteq> D" "\<And>a. a \<in> D \<Longrightarrow> \<not> hit a"
      "\<And>a k. a \<in> D \<Longrightarrow> key a = Some k \<Longrightarrow> k \<in> visited" "\<And>k. k \<in> visited \<Longrightarrow> set (children k) \<subseteq> D"
      and vis: "visited \<subseteq> nodes key children init"
      by (auto simp: s wl search_inv_def)
    have sub: "items key children init \<subseteq> D" using D(1,3,4) by (intro items_closed) blast+
    then have "\<not> (\<exists>a\<in>items key children init. hit a)" using D(2) by blast
    moreover have "visited = nodes key children init"
      using vis sub D(3) by (auto simp: nodes_def)
    ultimately show ?thesis using t False s by (auto simp: worklist_search_def)
  qed
qed

end
