(* ===== verification/Dispatch_Resources.thy ===== *)
theory Dispatch_Resources
  imports Worklist_Search "HOL-Library.Multiset"
begin

text \<open>
  The compiler's measurement of what a dispatch needs:
  \<open>CodeGen/Transforms/HexagonAnnotateDispatchResources.cpp\<close> and the attribute it writes
  (\<open>CodeGen/IR/HexagonAttrs.cpp\<close>). Operations, blocks and functions of the module are numbers;
  what MLIR answers about them (their kind, types, effects, nesting, successors, the walk order
  of a function body, the symbol table) is the record \<open>mlir_module\<close>, a parameter of the model.
  \<open>PowerOf2Ceil\<close>, \<open>alignTo\<close> (LLVM) and the VTCM address space (hexagon-mlir) are parameters too.
  Sizes are unbounded integers: the code's \<open>int64_t\<close> sums do not overflow for the sizes VTCM has.
\<close>

section \<open>The IR\<close>

record llvm_support =
  PowerOf2Ceil :: "nat \<Rightarrow> nat"
  alignTo :: "nat \<Rightarrow> nat \<Rightarrow> nat"
  VTCM_ADDRESS_SPACE :: nat

record memref_type =
  hasStaticShape :: bool
  getNumElements :: nat
  elementTypeSize :: nat
  isSignlessIntOrIndexOrFloat :: bool
  getMemorySpaceAsInt :: nat

datatype op_kind =
    HmxMatmulOp | HmxPackOp | HmxUnpackOp | HmxAccZeroOp | HmxAccSetupReadOp | HmxMmaOp | HmxAccReadOp
  | RuntimeCreateGroupOp "int option"
  | ExecuteOp
  | CallOp string
  | AllocOp memref_type "nat option"
  | HexagonMemAllocOp memref_type nat
  | OtherOp

datatype value_type = VectorType | OtherType

datatype resource = DefaultResource | AutomaticAllocationScopeResource | OtherResource

datatype effect = AllocateEffect resource | OtherEffect resource

record mlir_module =
  opKind :: "nat \<Rightarrow> op_kind"
  getOperandTypes :: "nat \<Rightarrow> value_type list"
  getResultTypes :: "nat \<Rightarrow> value_type list"
  getEffects :: "nat \<Rightarrow> effect list option"
  isLoopLike :: "nat \<Rightarrow> bool"
  getBlock :: "nat \<Rightarrow> nat option"
  getParentOp :: "nat \<Rightarrow> nat option"
  getSuccessors :: "nat \<Rightarrow> nat list"
  walkOps :: "nat \<Rightarrow> nat list"
  isExternal :: "nat \<Rightarrow> bool"
  lookupSymbol :: "string \<Rightarrow> nat option"

section \<open>VTCM an allocation takes\<close>

definition kVTCMPoolMinimumBytes :: nat where
  "kVTCMPoolMinimumBytes = 128"

definition kVTCMLargeAlignment :: nat where
  "kVTCMLargeAlignment = 2048"

definition getStaticSizeInBytes :: "memref_type \<Rightarrow> nat option" where
  "getStaticSizeInBytes type =
     (if \<not> hasStaticShape type then None
      else Some (getNumElements type * elementTypeSize type))"

definition getPartitionAllocBytes :: "llvm_support \<Rightarrow> nat \<Rightarrow> nat \<Rightarrow> nat" where
  "getPartitionAllocBytes lv bytes alignment =
     (let effectiveAlignment = max (PowerOf2Ceil lv alignment) kVTCMPoolMinimumBytes;
          granularity = (if effectiveAlignment \<ge> kVTCMLargeAlignment
                         then kVTCMLargeAlignment else kVTCMPoolMinimumBytes)
      in alignTo lv bytes granularity + effectiveAlignment - granularity)"

definition getDefaultAllocAlignment :: "memref_type \<Rightarrow> nat" where
  "getDefaultAllocAlignment type =
     (if isSignlessIntOrIndexOrFloat type then 0 else elementTypeSize type)"

definition getAllocVTCMBytes_memref :: "llvm_support \<Rightarrow> memref_type \<Rightarrow> nat option \<Rightarrow> nat option" where
  "getAllocVTCMBytes_memref lv type al =
     (case getStaticSizeInBytes type of None \<Rightarrow> None
      | Some bytes \<Rightarrow>
          (let alignment = (case al of Some a \<Rightarrow> a | None \<Rightarrow> getDefaultAllocAlignment type)
           in Some (getPartitionAllocBytes lv bytes alignment)))"

definition getAllocVTCMBytes_hexagonmem :: "llvm_support \<Rightarrow> memref_type \<Rightarrow> nat \<Rightarrow> nat option" where
  "getAllocVTCMBytes_hexagonmem lv type al =
     (case getStaticSizeInBytes type of None \<Rightarrow> None
      | Some bytes \<Rightarrow>
          (let alignment = (if getMemorySpaceAsInt type = VTCM_ADDRESS_SPACE lv then al
                            else getDefaultAllocAlignment type)
           in Some (getPartitionAllocBytes lv bytes alignment)))"

text \<open>The \<open>TypeSwitch\<close> over the allocating operation.\<close>

definition alloc_vtcm_bytes :: "llvm_support \<Rightarrow> op_kind \<Rightarrow> nat option" where
  "alloc_vtcm_bytes lv k =
     (case k of AllocOp type al \<Rightarrow> getAllocVTCMBytes_memref lv type al
      | HexagonMemAllocOp type al \<Rightarrow> getAllocVTCMBytes_hexagonmem lv type al
      | _ \<Rightarrow> None)"

section \<open>Questions about one operation\<close>

text \<open>
  The stack resource is a subresource of \<open>DefaultResource\<close>, so \<open>isa<DefaultResource>\<close> holds for it.
\<close>

definition isa_DefaultResource :: "resource \<Rightarrow> bool" where
  "isa_DefaultResource r \<longleftrightarrow> r = DefaultResource \<or> r = AutomaticAllocationScopeResource"

definition allocatesHeapMemory :: "mlir_module \<Rightarrow> nat \<Rightarrow> bool" where
  "allocatesHeapMemory m op =
     (case getEffects m op of None \<Rightarrow> False
      | Some instances \<Rightarrow>
          list_ex (\<lambda>e. case e of
              AllocateEffect r \<Rightarrow> isa_DefaultResource r \<and> r \<noteq> AutomaticAllocationScopeResource
            | OtherEffect r \<Rightarrow> False) instances)"

definition isHmxOp :: "mlir_module \<Rightarrow> nat \<Rightarrow> bool" where
  "isHmxOp m op \<longleftrightarrow>
     opKind m op \<in> {HmxMatmulOp, HmxPackOp, HmxUnpackOp, HmxAccZeroOp, HmxAccSetupReadOp,
                    HmxMmaOp, HmxAccReadOp}"

definition hasVectorValue :: "mlir_module \<Rightarrow> nat \<Rightarrow> bool" where
  "hasVectorValue m op \<longleftrightarrow>
     list_ex (\<lambda>t. t = VectorType) (getOperandTypes m op) \<or>
     list_ex (\<lambda>t. t = VectorType) (getResultTypes m op)"

section \<open>Loops\<close>

text \<open>
  \<open>isInCFGCycle\<close>: depth-first search from the block's successors. The state of the loop is whether
  the block was met, the visited blocks and the worklist, popped at its end. A search that
  does not end is \<open>None\<close>.
\<close>

type_synonym cfg_search = "bool \<times> nat set \<times> nat list"

definition cfg_step :: "mlir_module \<Rightarrow> nat \<Rightarrow> cfg_search \<Rightarrow> cfg_search" where
  "cfg_step m block s =
     (case s of (found, visited, worklist) \<Rightarrow>
        (let current = last worklist; worklist = butlast worklist
         in if current = block then (True, visited, worklist)
            else if current \<in> visited then (False, visited, worklist)
            else (False, insert current visited, worklist @ getSuccessors m current)))"

definition isInCFGCycle :: "mlir_module \<Rightarrow> nat \<Rightarrow> bool option" where
  "isInCFGCycle m block =
     map_option fst
       (while_option (\<lambda>(found, visited, worklist). \<not> found \<and> worklist \<noteq> []) (cfg_step m block)
          (False, {}, getSuccessors m block))"

partial_function (option) isInLoop_from :: "mlir_module \<Rightarrow> nat \<Rightarrow> nat option \<Rightarrow> bool option" where
  "isInLoop_from m funcOp bo =
     (case bo of None \<Rightarrow> Some False
      | Some block \<Rightarrow>
          Option.bind (isInCFGCycle m block) (\<lambda>cyclic.
            if cyclic then Some True
            else (case getParentOp m block of None \<Rightarrow> Some False
                  | Some parent \<Rightarrow>
                      if parent = funcOp then Some False
                      else if isLoopLike m parent then Some True
                      else isInLoop_from m funcOp (getBlock m parent))))"

declare isInLoop_from.simps [code]

definition isInLoop :: "mlir_module \<Rightarrow> nat \<Rightarrow> nat \<Rightarrow> bool option" where
  "isInLoop m op funcOp = isInLoop_from m funcOp (getBlock m op)"

section \<open>Collecting the resources\<close>

record dispatch_resources =
  hvx :: bool
  hmx :: bool
  threads :: int
  threadsUnbounded :: bool
  vtcmBytes :: nat
  vtcmUnbounded :: bool

definition initial_resources :: dispatch_resources where
  "initial_resources = \<lparr>hvx = False, hmx = False, threads = 1, threadsUnbounded = False,
     vtcmBytes = 0, vtcmUnbounded = False\<rparr>"

datatype collect_error = AllocationInLoop nat

text \<open>\<open>None\<close>: a loop of the analysis did not end (or the fuel was too small).\<close>

type_synonym collect_state = "nat set \<times> dispatch_resources"
type_synonym collect_result = "(collect_error + collect_state) option"

text \<open>The part of the visit every operation takes: units and threads.\<close>

definition note_op :: "mlir_module \<Rightarrow> nat \<Rightarrow> dispatch_resources \<Rightarrow> dispatch_resources" where
  "note_op m op r =
     (let r = (if isHmxOp m op then r\<lparr>hmx := True, hvx := True\<rparr> else r);
          r = (if hasVectorValue m op then r\<lparr>hvx := True\<rparr> else r)
      in case opKind m op of
           RuntimeCreateGroupOp (Some n) \<Rightarrow> r\<lparr>threads := max (threads r) n\<rparr>
         | RuntimeCreateGroupOp None \<Rightarrow> r\<lparr>threadsUnbounded := True\<rparr>
         | ExecuteOp \<Rightarrow> r\<lparr>threadsUnbounded := True\<rparr>
         | _ \<Rightarrow> r)"

definition visit_op ::
  "(nat \<Rightarrow> collect_state \<Rightarrow> collect_result) \<Rightarrow> llvm_support \<Rightarrow> mlir_module \<Rightarrow> nat \<Rightarrow> nat \<Rightarrow>
   collect_state \<Rightarrow> collect_result" where
  "visit_op collect lv m funcOp op s =
     (let visited = fst s; r = note_op m op (snd s)
      in case opKind m op of
           CallOp callee \<Rightarrow>
             (case lookupSymbol m callee of None \<Rightarrow> Some (Inr (visited, r))
              | Some g \<Rightarrow> collect g (visited, r))
         | k \<Rightarrow>
             if \<not> allocatesHeapMemory m op then Some (Inr (visited, r))
             else (case isInLoop m op funcOp of
                     None \<Rightarrow> None
                   | Some True \<Rightarrow> Some (Inl (AllocationInLoop op))
                   | Some False \<Rightarrow>
                       (case alloc_vtcm_bytes lv k of
                          None \<Rightarrow> Some (Inr (visited, r\<lparr>vtcmUnbounded := True\<rparr>))
                        | Some bytes \<Rightarrow> Some (Inr (visited, r\<lparr>vtcmBytes := vtcmBytes r + bytes\<rparr>)))))"

text \<open>The walk over a function body, interrupted by the first failure.\<close>

fun walk_body :: "(nat \<Rightarrow> collect_state \<Rightarrow> collect_result) \<Rightarrow> nat list \<Rightarrow> collect_state \<Rightarrow> collect_result" where
  "walk_body visit [] s = Some (Inr s)"
| "walk_body visit (op # ops) s =
     (case visit op s of None \<Rightarrow> None
      | Some (Inl e) \<Rightarrow> Some (Inl e)
      | Some (Inr s') \<Rightarrow> walk_body visit ops s')"

text \<open>
  \<open>collectResources\<close>. The recursion follows calls; \<open>fuel\<close> bounds its depth, and one more than
  the number of functions is enough, as every nested call visits a new one.
\<close>

fun collectResources :: "nat \<Rightarrow> llvm_support \<Rightarrow> mlir_module \<Rightarrow> nat \<Rightarrow> collect_state \<Rightarrow> collect_result" where
  "collectResources 0 lv m funcOp s = None"
| "collectResources (Suc fuel) lv m funcOp (visited, r) =
     (if funcOp \<in> visited \<or> isExternal m funcOp then Some (Inr (insert funcOp visited, r))
      else walk_body (visit_op (collectResources fuel lv m) lv m funcOp) (walkOps m funcOp)
             (insert funcOp visited, r))"

section \<open>The pass and its attribute\<close>

record dispatch_resources_attr =
  attr_hvx :: bool
  attr_hmx :: bool
  attr_threads :: int
  attr_vtcmBytes :: int

definition kUnboundedThreads :: int where
  "kUnboundedThreads = 2 ^ 63 - 1"

definition kUnboundedVTCMBytes :: int where
  "kUnboundedVTCMBytes = 2 ^ 63 - 1"

datatype attr_error = ThreadsBelowOne int | NegativeVtcmBytes int

definition DispatchResourcesAttr_verify :: "dispatch_resources_attr \<Rightarrow> attr_error + unit" where
  "DispatchResourcesAttr_verify a =
     (if attr_threads a < 1 then Inl (ThreadsBelowOne (attr_threads a))
      else if attr_vtcmBytes a < 0 then Inl (NegativeVtcmBytes (attr_vtcmBytes a))
      else Inr ())"

definition resources_attr :: "dispatch_resources \<Rightarrow> dispatch_resources_attr" where
  "resources_attr r =
     \<lparr>attr_hvx = hvx r, attr_hmx = hmx r,
      attr_threads = (if threadsUnbounded r then kUnboundedThreads else threads r),
      attr_vtcmBytes = (if vtcmUnbounded r then kUnboundedVTCMBytes else int (vtcmBytes r))\<rparr>"

text \<open>\<open>runOnOperation\<close>: the exports in order; an export without a function is skipped.\<close>

fun annotate_exports ::
  "nat \<Rightarrow> llvm_support \<Rightarrow> mlir_module \<Rightarrow> string list \<Rightarrow>
   (collect_error + (string \<times> dispatch_resources_attr) list) option" where
  "annotate_exports fuel lv m [] = Some (Inr [])"
| "annotate_exports fuel lv m (e # es) =
     (case lookupSymbol m e of None \<Rightarrow> annotate_exports fuel lv m es
      | Some funcOp \<Rightarrow>
          (case collectResources fuel lv m funcOp ({}, initial_resources) of
             None \<Rightarrow> None
           | Some (Inl err) \<Rightarrow> Some (Inl err)
           | Some (Inr (visited, r)) \<Rightarrow>
               map_option (map_sum id (\<lambda>as. (e, resources_attr r) # as)) (annotate_exports fuel lv m es)))"

section \<open>The loop analysis decides its question\<close>

text \<open>Edges of the control-flow graph, and the blocks reachable from a block.\<close>

definition cfg_edges :: "mlir_module \<Rightarrow> (nat \<times> nat) set" where
  "cfg_edges m = {(b, c). c \<in> set (getSuccessors m b)}"

definition cfg_reach :: "mlir_module \<Rightarrow> nat \<Rightarrow> nat set" where
  "cfg_reach m b = {c. (b, c) \<in> (cfg_edges m)\<^sup>+}"

text \<open>The code's search is the generic one, looking for the block it started from.\<close>

lemma cfg_step_search: "cfg_step m b = search_step (\<lambda>c. c = b) Some (getSuccessors m)"
  by (rule ext) (auto simp: cfg_step_def search_step_def Let_def)

lemma isInCFGCycle_search:
  "isInCFGCycle m b = map_option fst (worklist_search (\<lambda>c. c = b) Some (getSuccessors m) (getSuccessors m b))"
proof -
  have "(\<lambda>(found, visited, worklist). \<not> found \<and> worklist \<noteq> []) = (search_continues :: cfg_search \<Rightarrow> bool)"
    by (rule ext) (auto simp: search_continues_def)
  then show ?thesis by (simp only: isInCFGCycle_def worklist_search_def cfg_step_search)
qed

lemma items_cfg_reach: "items Some (getSuccessors m) (getSuccessors m b) = cfg_reach m b"
proof -
  have "item_edges Some (getSuccessors m) = cfg_edges m" by (auto simp: item_edges_def cfg_edges_def)
  moreover have "set (getSuccessors m b) = cfg_edges m `` {b}" by (auto simp: cfg_edges_def)
  ultimately show ?thesis by (auto simp: items_def cfg_reach_def trancl_unfold_left)
qed

lemma cfg_reach_closed:
  assumes "set (getSuccessors m b) \<subseteq> V" and "\<And>c. c \<in> V \<Longrightarrow> set (getSuccessors m c) \<subseteq> V"
  shows "cfg_reach m b \<subseteq> V"
  unfolding items_cfg_reach [symmetric] using assms by (intro items_closed) auto

lemma isInCFGCycle_correct:
  assumes "finite (cfg_reach m b)"
  shows "isInCFGCycle m b = Some (b \<in> cfg_reach m b)"
  using worklist_search_correct [of Some "getSuccessors m" "getSuccessors m b" "\<lambda>c. c = b"] assms
  by (auto simp: isInCFGCycle_search items_cfg_reach)

text \<open>
  Whether a block is executed repeatedly within one call of the function: it lies on a cycle of
  the control-flow graph of its region, or an enclosing operation below the function is a
  loop or is itself in a block that is executed repeatedly.
\<close>

inductive repeated_block :: "mlir_module \<Rightarrow> nat \<Rightarrow> nat \<Rightarrow> bool" for m f where
  repeated_cycle: "b \<in> cfg_reach m b \<Longrightarrow> repeated_block m f b"
| repeated_loop: "getParentOp m b = Some p \<Longrightarrow> p \<noteq> f \<Longrightarrow> isLoopLike m p \<Longrightarrow> repeated_block m f b"
| repeated_outer: "getParentOp m b = Some p \<Longrightarrow> p \<noteq> f \<Longrightarrow> getBlock m p = Some b' \<Longrightarrow>
    repeated_block m f b' \<Longrightarrow> repeated_block m f b"

inductive_simps repeated_block_unfold: "repeated_block m f b"

definition repeated_op :: "mlir_module \<Rightarrow> nat \<Rightarrow> nat \<Rightarrow> bool" where
  "repeated_op m f op \<longleftrightarrow> (\<exists>b. getBlock m op = Some b \<and> repeated_block m f b)"

text \<open>
  What MLIR guarantees of a module: regions have finitely many blocks, and operations nest
  (\<open>depth\<close> decreases from a block to the block around it).
\<close>

definition module_wf :: "mlir_module \<Rightarrow> (nat \<Rightarrow> nat) \<Rightarrow> bool" where
  "module_wf m depth \<longleftrightarrow>
     (\<forall>b. finite (cfg_reach m b)) \<and>
     (\<forall>b p b'. getParentOp m b = Some p \<longrightarrow> getBlock m p = Some b' \<longrightarrow> depth b' < depth b)"

lemma isInLoop_from_correct:
  assumes wf: "module_wf m depth"
  shows "isInLoop_from m f bo = Some (\<exists>b. bo = Some b \<and> repeated_block m f b)"
proof (cases bo)
  case None
  then show ?thesis by (simp add: isInLoop_from.simps)
next
  case (Some b)
  have "isInLoop_from m f (Some b) = Some (repeated_block m f b)"
  proof (induction b rule: measure_induct_rule [of depth])
    case (less b)
    have cyc: "isInCFGCycle m b = Some (b \<in> cfg_reach m b)"
      using wf by (simp add: isInCFGCycle_correct module_wf_def)
    have IH: "isInLoop_from m f (getBlock m p) =
        Some (\<exists>b'. getBlock m p = Some b' \<and> repeated_block m f b')"
      if "getParentOp m b = Some p" for p
    proof (cases "getBlock m p")
      case None
      then show ?thesis by (simp add: isInLoop_from.simps)
    next
      case (Some b')
      with wf that have "depth b' < depth b" unfolding module_wf_def by blast
      with less Some show ?thesis by simp
    qed
    show ?case
      by (subst isInLoop_from.simps)
        (auto simp: cyc IH repeated_block_unfold [of m f b] split: option.splits)
  qed
  with Some show ?thesis by simp
qed

lemma isInLoop_correct: "module_wf m depth \<Longrightarrow> isInLoop m op f = Some (repeated_op m f op)"
  by (simp add: isInLoop_def isInLoop_from_correct repeated_op_def)

section \<open>What the collection computes\<close>

text \<open>
  The functions a dispatch runs, and the effect of one operation. \<open>collectResources\<close> amounts to
  absorbing, in some order, every operation of every reachable function exactly once.
\<close>

definition body :: "mlir_module \<Rightarrow> nat \<Rightarrow> nat list" where
  "body m f = (if isExternal m f then [] else walkOps m f)"

definition call_target :: "mlir_module \<Rightarrow> nat \<Rightarrow> nat option" where
  "call_target m op = (case opKind m op of CallOp s \<Rightarrow> lookupSymbol m s | _ \<Rightarrow> None)"

definition op_callees :: "mlir_module \<Rightarrow> nat \<Rightarrow> nat set" where
  "op_callees m op = set_option (call_target m op)"

definition callees :: "mlir_module \<Rightarrow> nat \<Rightarrow> nat set" where
  "callees m f = (\<Union>op\<in>set (body m f). op_callees m op)"

definition reachable :: "mlir_module \<Rightarrow> nat \<Rightarrow> nat set" where
  "reachable m f = {(f, g). g \<in> callees m f}\<^sup>* `` {f}"

definition is_call :: "mlir_module \<Rightarrow> nat \<Rightarrow> bool" where
  "is_call m op \<longleftrightarrow> (\<exists>s. opKind m op = CallOp s)"

definition heap_alloc :: "mlir_module \<Rightarrow> nat \<Rightarrow> bool" where
  "heap_alloc m op \<longleftrightarrow> \<not> is_call m op \<and> allocatesHeapMemory m op"

definition body_ok :: "mlir_module \<Rightarrow> nat \<Rightarrow> nat list \<Rightarrow> bool" where
  "body_ok m f ops \<longleftrightarrow> (\<forall>op\<in>set ops. heap_alloc m op \<longrightarrow> \<not> repeated_op m f op)"

definition absorb :: "llvm_support \<Rightarrow> mlir_module \<Rightarrow> nat \<Rightarrow> dispatch_resources \<Rightarrow> dispatch_resources" where
  "absorb lv m op r =
     (let r = note_op m op r
      in if \<not> heap_alloc m op then r
         else (case alloc_vtcm_bytes lv (opKind m op) of
                 None \<Rightarrow> r\<lparr>vtcmUnbounded := True\<rparr>
               | Some bytes \<Rightarrow> r\<lparr>vtcmBytes := vtcmBytes r + bytes\<rparr>))"

lemma reachable_refl: "f \<in> reachable m f"
  by (simp add: reachable_def)

lemma reachable_callees: "g \<in> reachable m f \<Longrightarrow> callees m g \<subseteq> reachable m f"
  by (auto simp: reachable_def intro: rtrancl_into_rtrancl)

lemma reachable_trans: "g \<in> reachable m f \<Longrightarrow> reachable m g \<subseteq> reachable m f"
  by (auto simp: reachable_def)

lemma reachable_callee: "g \<in> callees m f \<Longrightarrow> reachable m g \<subseteq> reachable m f"
  by (rule reachable_trans) (use reachable_callees [OF reachable_refl] in blast)

lemma reachable_closed:
  assumes "f \<in> V" and "\<And>g. g \<in> V \<Longrightarrow> callees m g \<subseteq> V"
  shows "reachable m f \<subseteq> V"
proof
  fix g assume "g \<in> reachable m f"
  then have "(f, g) \<in> {(f, g). g \<in> callees m f}\<^sup>*" by (simp add: reachable_def)
  then show "g \<in> V" using assms by induction auto
qed

text \<open>The outcome of visiting one operation.\<close>

lemma visit_op_eq:
  assumes "module_wf m depth"
  shows "visit_op collect lv m f op (V, r) =
    (if is_call m op then
       (case call_target m op of None \<Rightarrow> Some (Inr (V, absorb lv m op r))
        | Some g \<Rightarrow> collect g (V, absorb lv m op r))
     else if heap_alloc m op \<and> repeated_op m f op then Some (Inl (AllocationInLoop op))
     else Some (Inr (V, absorb lv m op r)))"
  by (cases "opKind m op"; cases "allocatesHeapMemory m op"; cases "repeated_op m f op")
    (simp_all add: visit_op_def absorb_def is_call_def heap_alloc_def call_target_def
      isInLoop_correct [OF assms] Let_def split: option.split)

lemma op_callees_eq: "op_callees m op = (case call_target m op of None \<Rightarrow> {} | Some g \<Rightarrow> {g})"
  by (simp add: op_callees_def split: option.split)

lemma call_target_callees: "op \<in> set (body m f) \<Longrightarrow> call_target m op = Some g \<Longrightarrow> g \<in> callees m f"
  unfolding callees_def by (rule UN_I [of op]) (simp_all add: op_callees_eq)

lemma call_target_call: "call_target m op = Some g \<Longrightarrow> is_call m op"
  by (auto simp: call_target_def is_call_def split: op_kind.splits)

text \<open>
  The relation between the states before and after visiting functions reachable from \<open>f\<close>: the
  new functions are closed under calls up to the final set, have no allocation in a loop, and
  their operations, with \<open>ops\<close>, are what was absorbed.
\<close>

definition grows ::
  "llvm_support \<Rightarrow> mlir_module \<Rightarrow> nat \<Rightarrow> nat multiset \<Rightarrow> collect_state \<Rightarrow> collect_state \<Rightarrow> bool" where
  "grows lv m f ops s s' \<longleftrightarrow>
     fst s \<subseteq> fst s' \<and> finite (fst s' - fst s) \<and> fst s' - fst s \<subseteq> reachable m f \<and>
     (\<forall>g\<in>fst s' - fst s. callees m g \<subseteq> fst s' \<and> body_ok m g (body m g)) \<and>
     (\<exists>tr. snd s' = fold (absorb lv m) tr (snd s) \<and>
        mset tr = (\<Sum>g\<in>fst s' - fst s. mset (body m g)) + ops)"

lemma grows_refl [simp]: "grows lv m f {#} s s"
  by (auto simp: grows_def intro: exI [of _ "[]"])

lemma grows_op: "grows lv m f {#op#} (V, r) (V, absorb lv m op r)"
  by (auto simp: grows_def intro: exI [of _ "[op]"])

lemma grows_trans:
  assumes "grows lv m f o1 s s1" and "grows lv m f o2 s1 s2"
  shows "grows lv m f (o1 + o2) s s2"
proof -
  let ?A = "fst s1 - fst s" and ?B = "fst s2 - fst s1"
  have u: "fst s2 - fst s = ?A \<union> ?B" and d: "?A \<inter> ?B = {}" and f: "finite ?A" "finite ?B"
    using assms by (auto simp: grows_def)
  obtain t1 where t1: "snd s1 = fold (absorb lv m) t1 (snd s)"
    "mset t1 = (\<Sum>g\<in>?A. mset (body m g)) + o1" using assms(1) by (auto simp: grows_def)
  obtain t2 where t2: "snd s2 = fold (absorb lv m) t2 (snd s1)"
    "mset t2 = (\<Sum>g\<in>?B. mset (body m g)) + o2" using assms(2) by (auto simp: grows_def)
  have "snd s2 = fold (absorb lv m) (t1 @ t2) (snd s)"
    "mset (t1 @ t2) = (\<Sum>g\<in>fst s2 - fst s. mset (body m g)) + (o1 + o2)"
    using t1 t2 sum.union_disjoint [OF f d, of "\<lambda>g. mset (body m g)"] by (simp_all add: u ac_simps)
  moreover have "fst s2 - fst s \<subseteq> reachable m f"
    "\<forall>g\<in>fst s2 - fst s. callees m g \<subseteq> fst s2 \<and> body_ok m g (body m g)"
    using assms by (auto simp: grows_def) blast+
  moreover have "fst s \<subseteq> fst s2" and "finite (fst s2 - fst s)"
    using assms f by (auto simp: grows_def u)
  ultimately show ?thesis unfolding grows_def by blast
qed

lemma grows_weaken: "g \<in> reachable m f \<Longrightarrow> grows lv m g ops s s' \<Longrightarrow> grows lv m f ops s s'"
  using reachable_trans by (fastforce simp: grows_def)

lemma walk_body_grows:
  assumes wf: "module_wf m depth"
    and rec: "\<And>g s s'. collect g s = Some (Inr s') \<Longrightarrow> g \<in> fst s' \<and> grows lv m g {#} s s'"
  shows "walk_body (visit_op collect lv m f) ops s = Some (Inr s') \<Longrightarrow> set ops \<subseteq> set (body m f) \<Longrightarrow>
    grows lv m f (mset ops) s s' \<and> (\<Union>op\<in>set ops. op_callees m op) \<subseteq> fst s' \<and> body_ok m f ops"
proof (induction ops arbitrary: s)
  case Nil
  then show ?case by (simp add: body_ok_def)
next
  case (Cons op ops)
  obtain V r where s: "s = (V, r)" by (cases s)
  from Cons.prems(1) obtain s1 where
    v: "visit_op collect lv m f op s = Some (Inr s1)" and
    w: "walk_body (visit_op collect lv m f) ops s1 = Some (Inr s')"
    by (auto split: option.splits sum.splits)
  note IH = Cons.IH [OF w] Cons.prems(2)
  have ok: "heap_alloc m op \<longrightarrow> \<not> repeated_op m f op"
    using v by (auto simp: s visit_op_eq [OF wf] heap_alloc_def split: if_splits)
  have one: "grows lv m f {#op#} s s1 \<and> op_callees m op \<subseteq> fst s1"
  proof (cases "call_target m op")
    case (Some g)
    then have cg: "op_callees m op = {g}" by (simp add: op_callees_eq)
    have c: "collect g (V, absorb lv m op r) = Some (Inr s1)"
      using v Some call_target_call [OF Some] by (simp add: s visit_op_eq [OF wf])
    have "g \<in> callees m f" using cg Cons.prems(2) by (auto simp: callees_def)
    then have "g \<in> reachable m f" using reachable_callees [OF reachable_refl] by blast
    then have "grows lv m f {#} (V, absorb lv m op r) s1" using rec [OF c] by (blast intro: grows_weaken)
    from grows_trans [OF grows_op this] rec [OF c] cg show ?thesis by (simp add: s)
  next
    case None
    then have "op_callees m op = {}" by (simp add: op_callees_eq)
    moreover have "s1 = (V, absorb lv m op r)"
      using v None ok by (auto simp: s visit_op_eq [OF wf] split: if_splits)
    ultimately show ?thesis by (simp add: s grows_op)
  qed
  have "fst s1 \<subseteq> fst s'" using IH by (simp add: grows_def)
  with one IH ok show ?case
    using grows_trans [of lv m f "{#op#}" s s1 "mset ops" s'] by (auto simp: body_ok_def)
qed

lemma collectResources_grows:
  assumes wf: "module_wf m depth"
  shows "collectResources fuel lv m f s = Some (Inr s') \<Longrightarrow> f \<in> fst s' \<and> grows lv m f {#} s s'"
proof (induction fuel arbitrary: f s s')
  case (Suc fuel)
  obtain V r where s: "s = (V, r)" by (cases s)
  consider "f \<in> V" | "f \<notin> V" "isExternal m f" | "f \<notin> V" "\<not> isExternal m f" by blast
  then show ?case
  proof cases
    case 1
    with Suc.prems show ?thesis by (auto simp: s insert_absorb)
  next
    case 2
    then have "callees m f = {}" "body m f = []" by (simp_all add: callees_def body_def)
    with 2 Suc.prems show ?thesis
      by (auto simp: s grows_def reachable_refl insert_Diff_if body_ok_def intro!: exI [of _ "[]"])
  next
    case 3
    then have bd: "body m f = walkOps m f" by (simp add: body_def)
    have w: "walk_body (visit_op (collectResources fuel lv m) lv m f) (walkOps m f) (insert f V, r) = Some (Inr s')"
      using 3 Suc.prems by (simp add: s)
    have gr: "grows lv m f (mset (body m f)) (insert f V, r) s'"
      and cl: "callees m f \<subseteq> fst s'" and ok: "body_ok m f (body m f)"
      using walk_body_grows [OF wf Suc.IH w] by (simp_all add: bd callees_def)
    have "f \<in> fst s'" using gr by (simp add: grows_def)
    have V': "fst s' - V = insert f (fst s' - insert f V)" using \<open>f \<in> fst s'\<close> 3 by auto
    have fin: "finite (fst s' - insert f V)" using gr by (simp add: grows_def)
    have "(\<Sum>g\<in>fst s' - V. mset (body m g)) = mset (body m f) + (\<Sum>g\<in>fst s' - insert f V. mset (body m g))"
      unfolding V' using fin by (subst sum.insert) auto
    moreover from gr obtain tr where "snd s' = fold (absorb lv m) tr r"
      "mset tr = (\<Sum>g\<in>fst s' - insert f V. mset (body m g)) + mset (body m f)"
      by (auto simp: grows_def)
    ultimately have "\<exists>tr. snd s' = fold (absorb lv m) tr r \<and>
        mset tr = (\<Sum>g\<in>fst s' - V. mset (body m g)) + {#}" by (metis add.commute add.right_neutral)
    moreover have "\<forall>g\<in>fst s' - V. callees m g \<subseteq> fst s' \<and> body_ok m g (body m g)"
      unfolding V' using gr cl ok by (simp add: grows_def)
    moreover have "fst s' - V \<subseteq> reachable m f" "finite (fst s' - V)"
      unfolding V' using gr reachable_refl [of f m] by (simp_all add: grows_def)
    moreover have "V \<subseteq> fst s'" using gr by (simp add: grows_def)
    ultimately show ?thesis using \<open>f \<in> fst s'\<close> by (simp add: grows_def s)
  qed
qed simp

text \<open>A failure names an allocation in a loop of a reachable function.\<close>

lemma walk_body_error:
  "walk_body visit ops s = Some (Inl e) \<Longrightarrow> \<exists>op\<in>set ops. \<exists>s'. visit op s' = Some (Inl e)"
  by (induction ops arbitrary: s) (fastforce split: option.splits sum.splits)+

lemma collectResources_error:
  assumes wf: "module_wf m depth"
  shows "collectResources fuel lv m f s = Some (Inl (AllocationInLoop op)) \<Longrightarrow>
    \<exists>g\<in>reachable m f. op \<in> set (body m g) \<and> heap_alloc m op \<and> repeated_op m g op"
proof (induction fuel arbitrary: f s)
  case (Suc fuel)
  obtain V r where s: "s = (V, r)" by (cases s)
  have ext: "\<not> isExternal m f"
    and w: "walk_body (visit_op (collectResources fuel lv m) lv m f) (walkOps m f) (insert f V, r) =
      Some (Inl (AllocationInLoop op))"
    using Suc.prems by (auto simp: s split: if_splits)
  from walk_body_error [OF w] ext obtain op' V1 r1 where op': "op' \<in> set (body m f)"
    "visit_op (collectResources fuel lv m) lv m f op' (V1, r1) = Some (Inl (AllocationInLoop op))"
    by (auto simp: body_def)
  show ?case
  proof (cases "is_call m op'")
    case True
    then obtain g where g: "call_target m op' = Some g"
      "collectResources fuel lv m g (V1, absorb lv m op' r1) = Some (Inl (AllocationInLoop op))"
      using op'(2) by (auto simp: visit_op_eq [OF wf] split: option.splits)
    have "g \<in> callees m f" using op'(1) g(1) by (rule call_target_callees)
    then have "reachable m g \<subseteq> reachable m f" by (rule reachable_callee)
    with Suc.IH [OF g(2)] show ?thesis by blast
  next
    case False
    with op' show ?thesis using reachable_refl
      by (auto simp: visit_op_eq [OF wf] split: if_splits)
  qed
qed simp

text \<open>Fuel: every nested call visits a function that was not visited before.\<close>

lemma walk_body_total:
  assumes "\<And>op s. op \<in> set ops \<Longrightarrow> V \<subseteq> fst s \<Longrightarrow> visit op s \<noteq> None"
    and "\<And>op s s'. op \<in> set ops \<Longrightarrow> V \<subseteq> fst s \<Longrightarrow> visit op s = Some (Inr s') \<Longrightarrow> V \<subseteq> fst s'"
  shows "V \<subseteq> fst s \<Longrightarrow> walk_body visit ops s \<noteq> None"
  using assms
proof (induction ops arbitrary: s)
  case (Cons op ops)
  have "visit op s \<noteq> None" using Cons.prems by simp
  moreover have "walk_body visit ops s' \<noteq> None" if "visit op s = Some (Inr s')" for s'
  proof (rule Cons.IH)
    show "V \<subseteq> fst s'" using Cons.prems(3) [OF _ Cons.prems(1) that] by simp
    show "visit op s \<noteq> None" if "op \<in> set ops" "V \<subseteq> fst s" for op s
      using that Cons.prems(2) by simp
    show "V \<subseteq> fst s'" if "op \<in> set ops" "V \<subseteq> fst s" "visit op s = Some (Inr s')" for op s s'
      using that Cons.prems(3) [of op s s'] by simp
  qed
  ultimately show ?case by (auto split: option.splits sum.splits simp del: not_None_eq)
qed simp

lemma collectResources_total:
  assumes wf: "module_wf m depth"
  shows "finite (reachable m f) \<Longrightarrow> card (reachable m f - fst s) < fuel \<Longrightarrow>
    collectResources fuel lv m f s \<noteq> None"
proof (induction fuel arbitrary: f s)
  case (Suc fuel)
  obtain V r where s: "s = (V, r)" by (cases s)
  show ?case
  proof (cases "f \<in> V \<or> isExternal m f")
    case False
    let ?visit = "visit_op (collectResources fuel lv m) lv m f"
    have "reachable m f - V = insert f (reachable m f - insert f V)"
      using False reachable_refl [of f m] by blast
    then have "card (reachable m f - V) = card (insert f (reachable m f - insert f V))"
      by (rule arg_cong [where f = card])
    also have "\<dots> = Suc (card (reachable m f - insert f V))"
      using Suc.prems(1) by (intro card_insert_disjoint) auto
    finally have less: "card (reachable m f - insert f V) < fuel"
      using Suc.prems(2) by (simp add: s)
    have "walk_body ?visit (walkOps m f) (insert f V, r) \<noteq> None"
    proof (rule walk_body_total [of _ "insert f V"])
      fix op and s1 :: collect_state assume op: "op \<in> set (walkOps m f)" and V: "insert f V \<subseteq> fst s1"
      have call: "collectResources fuel lv m g s2 \<noteq> None"
        if g: "call_target m op = Some g" and s2: "insert f V \<subseteq> fst s2" for g and s2 :: collect_state
      proof -
        have "op \<in> set (body m f)" using op False by (simp add: body_def)
        then have "g \<in> callees m f" using g by (rule call_target_callees)
        then have sub: "reachable m g \<subseteq> reachable m f" by (rule reachable_callee)
        with s2 have "reachable m g - fst s2 \<subseteq> reachable m f - insert f V" by blast
        from card_mono [OF _ this] Suc.prems(1) less have "card (reachable m g - fst s2) < fuel" by simp
        then show ?thesis using Suc.IH [of g s2] finite_subset [OF sub Suc.prems(1)] by simp
      qed
      show "?visit op s1 \<noteq> None"
        using call V by (cases s1) (auto simp: visit_op_eq [OF wf] split: option.split simp del: not_None_eq)
    next
      fix op and s1 s2 :: collect_state assume V: "insert f V \<subseteq> fst s1" and v: "?visit op s1 = Some (Inr s2)"
      obtain V1 r1 where s1: "s1 = (V1, r1)" by (cases s1)
      have call: "V1 \<subseteq> fst s2" if "collectResources fuel lv m g (V1, r2) = Some (Inr s2)" for g r2
        using collectResources_grows [OF wf that] by (simp add: grows_def)
      have "fst s1 \<subseteq> fst s2"
        using v by (auto simp: s1 visit_op_eq [OF wf] split: if_splits option.splits dest!: call)
      with V show "insert f V \<subseteq> fst s2" by blast
    qed simp
    with False show ?thesis by (simp add: s)
  qed (simp add: s)
qed simp

text \<open>Absorbing a list of operations.\<close>

definition op_bytes :: "llvm_support \<Rightarrow> mlir_module \<Rightarrow> nat \<Rightarrow> nat" where
  "op_bytes lv m op =
     (if heap_alloc m op then (case alloc_vtcm_bytes lv (opKind m op) of None \<Rightarrow> 0 | Some b \<Rightarrow> b) else 0)"

definition unbounded_alloc :: "llvm_support \<Rightarrow> mlir_module \<Rightarrow> nat \<Rightarrow> bool" where
  "unbounded_alloc lv m op \<longleftrightarrow> heap_alloc m op \<and> alloc_vtcm_bytes lv (opKind m op) = None"

definition uses_hvx :: "mlir_module \<Rightarrow> nat \<Rightarrow> bool" where
  "uses_hvx m op \<longleftrightarrow> isHmxOp m op \<or> hasVectorValue m op"

definition unbounded_tasks :: "mlir_module \<Rightarrow> nat \<Rightarrow> bool" where
  "unbounded_tasks m op \<longleftrightarrow> opKind m op = RuntimeCreateGroupOp None \<or> opKind m op = ExecuteOp"

definition group_size :: "mlir_module \<Rightarrow> nat \<Rightarrow> int list" where
  "group_size m op = (case opKind m op of RuntimeCreateGroupOp (Some n) \<Rightarrow> [n] | _ \<Rightarrow> [])"

lemma note_op_fields:
  "hvx (note_op m op r) = (hvx r \<or> uses_hvx m op)" "hmx (note_op m op r) = (hmx r \<or> isHmxOp m op)"
  "threads (note_op m op r) = fold max (group_size m op) (threads r)"
  "threadsUnbounded (note_op m op r) = (threadsUnbounded r \<or> unbounded_tasks m op)"
  "vtcmBytes (note_op m op r) = vtcmBytes r" "vtcmUnbounded (note_op m op r) = vtcmUnbounded r"
  by (auto simp: note_op_def uses_hvx_def group_size_def unbounded_tasks_def Let_def max.commute
      split: op_kind.splits option.splits)

lemma absorb_fields:
  "hvx (absorb lv m op r) = (hvx r \<or> uses_hvx m op)" "hmx (absorb lv m op r) = (hmx r \<or> isHmxOp m op)"
  "threads (absorb lv m op r) = fold max (group_size m op) (threads r)"
  "threadsUnbounded (absorb lv m op r) = (threadsUnbounded r \<or> unbounded_tasks m op)"
  "vtcmBytes (absorb lv m op r) = vtcmBytes r + op_bytes lv m op"
  "vtcmUnbounded (absorb lv m op r) = (vtcmUnbounded r \<or> unbounded_alloc lv m op)"
  by (auto simp: absorb_def note_op_fields op_bytes_def unbounded_alloc_def Let_def split: option.splits)

lemma fold_absorb_fields:
  "hvx (fold (absorb lv m) tr r) = (hvx r \<or> (\<exists>op\<in>set tr. uses_hvx m op))"
  "hmx (fold (absorb lv m) tr r) = (hmx r \<or> (\<exists>op\<in>set tr. isHmxOp m op))"
  "threads (fold (absorb lv m) tr r) = fold max (concat (map (group_size m) tr)) (threads r)"
  "threadsUnbounded (fold (absorb lv m) tr r) = (threadsUnbounded r \<or> (\<exists>op\<in>set tr. unbounded_tasks m op))"
  "vtcmBytes (fold (absorb lv m) tr r) = vtcmBytes r + sum_list (map (op_bytes lv m) tr)"
  "vtcmUnbounded (fold (absorb lv m) tr r) = (vtcmUnbounded r \<or> (\<exists>op\<in>set tr. unbounded_alloc lv m op))"
  by (induction tr arbitrary: r) (auto simp: absorb_fields)

lemma fold_max_Max: "fold max xs x = Max (insert x (set xs))" for x :: "'a::linorder"
  by (metis Max.set_eq_fold list.set(2))

text \<open>The operations a dispatch with entry \<open>f\<close> runs, each once.\<close>

definition dispatch_ops :: "mlir_module \<Rightarrow> nat \<Rightarrow> nat multiset" where
  "dispatch_ops m f = (\<Sum>g\<in>reachable m f. mset (body m g))"

definition dispatch_needs :: "llvm_support \<Rightarrow> mlir_module \<Rightarrow> nat \<Rightarrow> dispatch_resources \<Rightarrow> bool" where
  "dispatch_needs lv m f r \<longleftrightarrow>
     hvx r = (\<exists>op\<in>#dispatch_ops m f. uses_hvx m op) \<and>
     hmx r = (\<exists>op\<in>#dispatch_ops m f. isHmxOp m op) \<and>
     threads r = Max (insert 1 {n. \<exists>op\<in>#dispatch_ops m f. opKind m op = RuntimeCreateGroupOp (Some n)}) \<and>
     threadsUnbounded r = (\<exists>op\<in>#dispatch_ops m f. unbounded_tasks m op) \<and>
     vtcmBytes r = sum_mset (image_mset (op_bytes lv m) (dispatch_ops m f)) \<and>
     vtcmUnbounded r = (\<exists>op\<in>#dispatch_ops m f. unbounded_alloc lv m op)"

lemma fold_absorb_needs:
  assumes "mset tr = dispatch_ops m f"
  shows "dispatch_needs lv m f (fold (absorb lv m) tr initial_resources)"
proof -
  have set: "set_mset (dispatch_ops m f) = set tr"
    by (simp flip: assms)
  have sizes: "(\<Union>op\<in>set tr. set (group_size m op)) =
      {n. \<exists>op\<in>set tr. opKind m op = RuntimeCreateGroupOp (Some n)}"
    by (auto simp: group_size_def split: op_kind.splits option.splits)
  have sum: "sum_mset (image_mset (op_bytes lv m) (dispatch_ops m f)) = sum_list (map (op_bytes lv m) tr)"
    by (simp add: sum_mset_sum_list flip: assms mset_map)
  show ?thesis
    unfolding dispatch_needs_def set sum
    by (simp add: fold_absorb_fields fold_max_Max sizes initial_resources_def)
qed

lemma collectResources_Inr:
  assumes "module_wf m depth" and "collectResources fuel lv m f ({}, initial_resources) = Some (Inr (V, r))"
  shows "V = reachable m f" "dispatch_needs lv m f r"
    "\<And>g. g \<in> reachable m f \<Longrightarrow> body_ok m g (body m g)"
proof -
  from collectResources_grows [OF assms] have "f \<in> V" and g: "grows lv m f {#} ({}, initial_resources) (V, r)"
    by simp_all
  then show V: "V = reachable m f"
    using reachable_closed [of f V m] by (auto simp: grows_def)
  from g V show "g \<in> reachable m f \<Longrightarrow> body_ok m g (body m g)" for g by (auto simp: grows_def)
  from g V obtain tr where "r = fold (absorb lv m) tr initial_resources" "mset tr = dispatch_ops m f"
    by (auto simp: grows_def dispatch_ops_def)
  then show "dispatch_needs lv m f r" by (simp add: fold_absorb_needs)
qed

lemma dispatch_threads_pos:
  assumes "dispatch_needs lv m f r"
  shows "1 \<le> threads r"
proof -
  let ?N = "{n. \<exists>op\<in>#dispatch_ops m f. opKind m op = RuntimeCreateGroupOp (Some n)}"
  have "?N \<subseteq> (\<lambda>op. case opKind m op of RuntimeCreateGroupOp (Some n) \<Rightarrow> n | _ \<Rightarrow> 0) ` set_mset (dispatch_ops m f)"
    by (force split: op_kind.splits option.splits)
  then have "finite ?N" by (rule finite_subset) simp
  with assms show ?thesis by (simp add: dispatch_needs_def)
qed

section \<open>Properties\<close>

text \<open>
  A concrete module for the witnesses. The entry function 0 (\<open>main\<close>) allocates 250 floats, calls
  function 1 (\<open>work\<close>), which launches a group of four tasks and has a vector operation; block 100
  branches to block 101.
\<close>

fun pow2_ceil :: "nat \<Rightarrow> nat" where
  "pow2_ceil a = (if a \<le> 1 then a else 2 * pow2_ceil ((a + 1) div 2))"

declare pow2_ceil.simps [simp del]

definition sample_lv :: llvm_support where
  "sample_lv = \<lparr>PowerOf2Ceil = pow2_ceil,
     alignTo = (\<lambda>v g. (v + g - 1) div g * g), VTCM_ADDRESS_SPACE = 1\<rparr>"

definition sample_module :: mlir_module where
  "sample_module = \<lparr>
     opKind = (\<lambda>op. if op = 10 then AllocOp \<lparr>hasStaticShape = True, getNumElements = 250,
         elementTypeSize = 4, isSignlessIntOrIndexOrFloat = True, getMemorySpaceAsInt = 0\<rparr> None
       else if op = 11 then CallOp ''work''
       else if op = 12 then RuntimeCreateGroupOp (Some 4) else OtherOp),
     getOperandTypes = (\<lambda>op. if op = 13 then [VectorType] else []),
     getResultTypes = (\<lambda>op. []),
     getEffects = (\<lambda>op. if op = 10 then Some [AllocateEffect DefaultResource] else None),
     isLoopLike = (\<lambda>op. False),
     getBlock = (\<lambda>op. if op = 10 \<or> op = 11 then Some 100 else if op = 12 \<or> op = 13 then Some 101 else None),
     getParentOp = (\<lambda>b. if b = 100 then Some 0 else if b = 101 then Some 1 else None),
     getSuccessors = (\<lambda>b. if b = 100 then [101] else []),
     walkOps = (\<lambda>f. if f = 0 then [10, 11] else if f = 1 then [12, 13] else []),
     isExternal = (\<lambda>f. False),
     lookupSymbol = (\<lambda>s. if s = ''main'' then Some 0 else if s = ''work'' then Some 1 else None)\<rparr>"

lemma sample_module_wf: "module_wf sample_module (\<lambda>b. 0)"
proof -
  have edges: "cfg_edges sample_module = {(100, 101)}"
    by (auto simp: cfg_edges_def sample_module_def split: if_splits)
  have "cfg_reach sample_module b \<subseteq> {101}" for b
    by (rule cfg_reach_closed) (auto simp: sample_module_def split: if_splits)
  then have "finite (cfg_reach sample_module b)" for b by (rule finite_subset) simp
  then show ?thesis by (simp add: module_wf_def) (simp add: sample_module_def)
qed

lemma sample_module_once: "\<not> repeated_op sample_module g op"
proof -
  have edges: "cfg_reach sample_module b \<subseteq> {101}" for b
    by (rule cfg_reach_closed) (auto simp: sample_module_def split: if_splits)
  have "cfg_reach sample_module 101 \<subseteq> {}"
    by (rule cfg_reach_closed) (auto simp: sample_module_def split: if_splits)
  then have "b \<notin> cfg_reach sample_module b" for b using edges [of b] by (cases "b = 101") auto
  moreover have "getParentOp sample_module b = Some p \<Longrightarrow> getBlock sample_module p = None" for b p
    by (auto simp: sample_module_def split: if_splits)
  moreover have "\<not> isLoopLike sample_module p" for p by (simp add: sample_module_def)
  ultimately have "\<not> repeated_block sample_module g b" for b
    by (subst repeated_block_unfold) auto
  then show ?thesis by (simp add: repeated_op_def)
qed

lemma sample_module_reachable: "reachable sample_module 0 = {0, 1}"
proof
  have callees: "callees sample_module g = (if g = 0 then {1} else {})" for g
    by (auto simp: callees_def op_callees_eq call_target_def body_def sample_module_def)
  show "reachable sample_module 0 \<subseteq> {0, 1}"
    by (rule reachable_closed) (auto simp: callees)
  show "{0, 1} \<subseteq> reachable sample_module 0"
    using reachable_refl [of 0 sample_module] reachable_callees [of 0 sample_module 0] by (simp add: callees)
qed

lemma sample_module_collect:
  "\<exists>V r. collectResources 3 sample_lv sample_module 0 ({}, initial_resources) = Some (Inr (V, r))"
proof -
  let ?c = "collectResources 3 sample_lv sample_module 0 ({}, initial_resources)"
  have "?c \<noteq> None"
    by (rule collectResources_total [OF sample_module_wf]) (simp_all add: sample_module_reachable)
  moreover have "?c \<noteq> Some (Inl e)" for e
    using collectResources_error [OF sample_module_wf] sample_module_once by (cases e) blast
  ultimately show ?thesis by (cases ?c; cases "the ?c") auto
qed

text \<open>
  C21: for a module whose regions are finite and nest, and whose entry point reaches finitely many
  functions, the collection returns, given one unit of fuel more than there are reachable
  functions. It fails only for a heap allocation inside a loop of a reachable function; otherwise
  no reachable function has such an allocation, and the result is exactly what the operations of
  the reachable functions, each counted once, need: the vector and matrix units, the largest task
  group, the sum of their VTCM footprints, and whether threads or VTCM are unbounded.
\<close>

theorem collectResources_correct:
  assumes wf: "module_wf m depth" and fin: "finite (reachable m f)" and fuel: "card (reachable m f) < fuel"
  shows "case collectResources fuel lv m f ({}, initial_resources) of
      None \<Rightarrow> False
    | Some (Inl (AllocationInLoop op)) \<Rightarrow>
        (\<exists>g\<in>reachable m f. op \<in> set (body m g) \<and> heap_alloc m op \<and> repeated_op m g op)
    | Some (Inr (V, r)) \<Rightarrow>
        V = reachable m f \<and> dispatch_needs lv m f r \<and> (\<forall>g\<in>V. body_ok m g (body m g))"
proof -
  have "collectResources fuel lv m f ({}, initial_resources) \<noteq> None"
    using collectResources_total [OF wf fin] fuel by simp
  then show ?thesis
    using collectResources_error [OF wf] collectResources_Inr [OF wf]
    by (auto split: option.split sum.split collect_error.split)
qed

theorem collectResources_correct_witness:
  "\<exists>V r. collectResources 3 sample_lv sample_module 0 ({}, initial_resources) = Some (Inr (V, r)) \<and>
     V = {0, 1} \<and> dispatch_needs sample_lv sample_module 0 r"
proof -
  show ?thesis
    using collectResources_correct [OF sample_module_wf, of 0 3 sample_lv]
    by (auto simp: sample_module_reachable sample_module_once split: option.splits sum.splits collect_error.splits)
qed

text \<open>
  C34: deciding whether an operation is in a loop always ends and is right: an operation counts as
  repeated exactly when its block is on a cycle of the control-flow graph, or an enclosing
  operation below the function is a loop or is itself repeated.
\<close>

theorem isInLoop_decides:
  assumes "module_wf m depth"
  shows "isInLoop m op f = Some (repeated_op m f op)"
  by (rule isInLoop_correct [OF assms])

theorem isInLoop_decides_witness:
  "isInLoop sample_module 10 0 = Some (repeated_op sample_module 0 10)"
  by (rule isInLoop_decides [OF sample_module_wf])



end
