(* ===== verification/Vtcm_Demand.thy ===== *)
theory Vtcm_Demand
  imports Vtcm_Partition Dispatch_Resources
begin

text \<open>
  Compiler and runtime together: the allocations a dispatch was compiled to
  (\<open>CodeGen/Conversion/HexagonConvertToLLVM.cpp\<close>, the patterns that lower \<open>memref.alloc\<close> and
  \<open>hexagonmem.alloc\<close> to \<open>hexagon_runtime_vtcm_alloc\<close>) fit the partition acquired for the VTCM
  bytes the compiler declared for it (\<open>HexagonAnnotateDispatchResources.cpp\<close>), so the runtime
  never aborts in them. \<open>hexagonmem.alloc\<close> is taken with an identity layout.
\<close>

section \<open>The lowering of allocations\<close>

text \<open>Byte size and alignment an allocation passes to the runtime.\<close>

definition lower_memref_alloc :: "llvm_support \<Rightarrow> memref_type \<Rightarrow> nat option \<Rightarrow> nat \<times> nat" where
  "lower_memref_alloc lv type requested =
     (let sizeBytes = getNumElements type * elementTypeSize type;
          alignment = (case requested of Some a \<Rightarrow> a
            | None \<Rightarrow> if \<not> isSignlessIntOrIndexOrFloat type then PowerOf2Ceil lv (elementTypeSize type)
                       else 0)
      in (sizeBytes, alignment))"

definition lower_hexagonmem_alloc :: "llvm_support \<Rightarrow> memref_type \<Rightarrow> nat \<Rightarrow> nat \<times> nat" where
  "lower_hexagonmem_alloc lv type al =
     (if getMemorySpaceAsInt type = VTCM_ADDRESS_SPACE lv
      then (getNumElements type * elementTypeSize type, al)
      else lower_memref_alloc lv type None)"

definition lower_alloc :: "llvm_support \<Rightarrow> op_kind \<Rightarrow> (nat \<times> nat) option" where
  "lower_alloc lv k =
     (case k of AllocOp type al \<Rightarrow> Some (lower_memref_alloc lv type al)
      | HexagonMemAllocOp type al \<Rightarrow> Some (lower_hexagonmem_alloc lv type al)
      | _ \<Rightarrow> None)"

text \<open>The request the DSP sees: a 32-bit size and a 64-bit alignment.\<close>

definition runtime_request :: "llvm_support \<Rightarrow> op_kind \<Rightarrow> usize \<times> u64" where
  "runtime_request lv k =
     (case lower_alloc lv k of None \<Rightarrow> (0, 0)
      | Some (n, al) \<Rightarrow> (word_of_nat n, word_of_nat al))"

section \<open>Declared bytes cover the requests\<close>

text \<open>LLVM's documented \<open>PowerOf2Ceil\<close> and \<open>alignTo\<close>.\<close>

definition llvm_ok :: "llvm_support \<Rightarrow> bool" where
  "llvm_ok lv \<longleftrightarrow>
     PowerOf2Ceil lv 0 = 0 \<and>
     (\<forall>a>0. \<exists>k. PowerOf2Ceil lv a = 2 ^ k \<and> a \<le> 2 ^ k \<and> 2 ^ k < 2 * a) \<and>
     (\<forall>v g. 0 < g \<longrightarrow> alignTo lv v g = (v + g - 1) div g * g)"

text \<open>
  A request the machine can represent: the size fits \<open>size_t\<close>, and the alignment passed to the
  runtime is 0 or a power of two (the runtime rejects others).
\<close>

definition representable :: "llvm_support \<Rightarrow> op_kind \<Rightarrow> bool" where
  "representable lv k \<longleftrightarrow>
     (case lower_alloc lv k of None \<Rightarrow> False
      | Some (n, al) \<Rightarrow> n < 2 ^ 32 \<and> (al = 0 \<or> (\<exists>j<64. al = 2 ^ j)))"

lemma PowerOf2Ceil_power:
  assumes "llvm_ok lv"
  shows "PowerOf2Ceil lv (2 ^ j) = 2 ^ j"
proof -
  obtain k where k: "PowerOf2Ceil lv (2 ^ j) = 2 ^ k" "(2::nat) ^ j \<le> 2 ^ k" "(2::nat) ^ k < 2 * 2 ^ j"
    using assms unfolding llvm_ok_def by (metis zero_less_numeral zero_less_power)
  have "j \<le> k" using k(2) by simp
  moreover have "(2::nat) ^ k < 2 ^ Suc j" using k(3) by simp
  then have "k < Suc j" by (simp only: power_strict_increasing_iff one_less_numeral_iff semiring_norm)
  ultimately show ?thesis using k(1) by simp
qed

lemma PowerOf2Ceil_idem:
  assumes "llvm_ok lv"
  shows "PowerOf2Ceil lv (PowerOf2Ceil lv a) = PowerOf2Ceil lv a"
proof (cases "a = 0")
  case False
  then obtain k where "PowerOf2Ceil lv a = 2 ^ k" using assms unfolding llvm_ok_def by blast
  then show ?thesis by (simp add: PowerOf2Ceil_power [OF assms])
qed (use assms in \<open>simp add: llvm_ok_def\<close>)

text \<open>What the compiler counts for a statically shaped allocation is the footprint of the alignment
  it passes, rounded up to a power of two.\<close>

lemma alloc_vtcm_bytes_lowered:
  assumes ok: "llvm_ok lv" and some: "alloc_vtcm_bytes lv k = Some b"
  obtains n al where "lower_alloc lv k = Some (n, al)" "b = getPartitionAllocBytes lv n al"
proof -
  have same: "getPartitionAllocBytes lv n (PowerOf2Ceil lv a) = getPartitionAllocBytes lv n a" for n a
    by (simp add: getPartitionAllocBytes_def PowerOf2Ceil_idem [OF ok])
  have "\<exists>n al. lower_alloc lv k = Some (n, al) \<and> b = getPartitionAllocBytes lv n al"
    using some
    by (cases k)
      (auto simp: alloc_vtcm_bytes_def getAllocVTCMBytes_memref_def getAllocVTCMBytes_hexagonmem_def
        getStaticSizeInBytes_def getDefaultAllocAlignment_def lower_alloc_def lower_memref_alloc_def
        lower_hexagonmem_alloc_def same Let_def split: option.splits if_splits)
  then show ?thesis using that by blast
qed

lemma getPartitionAllocBytes_footprint:
  assumes ok: "llvm_ok lv" and al: "al = 0 \<or> (\<exists>j. al = 2 ^ j)"
  shows "getPartitionAllocBytes lv n al = alloc_footprint n (max al 128)"
proof -
  have p: "PowerOf2Ceil lv al = al"
    using al ok PowerOf2Ceil_power [OF ok] by (auto simp: llvm_ok_def)
  have a: "alignTo lv n g = (n + g - 1) div g * g" if "0 < g" for g
    using ok that by (simp add: llvm_ok_def)
  show ?thesis
    by (simp add: getPartitionAllocBytes_def alloc_footprint_def p a kVTCMPoolMinimumBytes_def
        kVTCMLargeAlignment_def Let_def)
qed

lemma request_cost:
  assumes ok: "llvm_ok lv" and rep: "representable lv k" and some: "alloc_vtcm_bytes lv k = Some b"
  shows "vp_cost (runtime_request lv k) = b" "alloc_legal (runtime_request lv k)"
proof -
  obtain n al where low: "lower_alloc lv k = Some (n, al)" and b: "b = getPartitionAllocBytes lv n al"
    using alloc_vtcm_bytes_lowered [OF ok some] .
  have n: "n < 2 ^ 32" and al: "al = 0 \<or> (\<exists>j<64. al = 2 ^ j)"
    using rep by (auto simp: representable_def low)
  have al64: "al < 2 ^ 64"
  proof (cases "al = 0")
    case False
    with al obtain j where "j < 64" "al = 2 ^ j" by blast
    then show ?thesis by (simp only: power_strict_increasing_iff one_less_numeral_iff semiring_norm)
  qed simp
  have u: "unat (word_of_nat n :: usize) = n" "unat (word_of_nat al :: u64) = al"
    using n al64 by (simp_all add: unsigned_of_nat take_bit_nat_eq_self)
  have al': "al = 0 \<or> (\<exists>j. al = 2 ^ j)" using al by blast
  show "vp_cost (runtime_request lv k) = b"
    using getPartitionAllocBytes_footprint [OF ok al', of n]
    by (simp add: runtime_request_def low vp_cost_def effective_alignment_def u b)
  have raised: "unat (raised_alignment (word_of_nat al)) = max al 128"
    by (simp add: unat_raised_alignment effective_alignment_def u)
  have "\<exists>j. max al 128 = 2 ^ j"
  proof (cases "al < 128")
    case True
    then have "max al 128 = 2 ^ 7" by simp
    then show ?thesis by blast
  next
    case False
    with al' show ?thesis by (auto simp: max_def)
  qed
  with raised have "\<exists>j. unat (raised_alignment (word_of_nat al)) = 2 ^ j" by simp
  then obtain j where j: "unat (raised_alignment (word_of_nat al)) = 2 ^ j" by blast
  have "raised_alignment (word_of_nat al) AND (raised_alignment (word_of_nat al) - 1) = 0"
  proof -
    have "unat (raised_alignment (word_of_nat al) AND mask j) = 0"
      by (simp add: unsigned_take_bit_eq j flip: take_bit_eq_mask)
    then show ?thesis by (simp add: word_pred_power_mask [OF j] unat_eq_0)
  qed
  then show "alloc_legal (runtime_request lv k)" by (simp add: runtime_request_def low alloc_legal_def)
qed

text \<open>The requests of allocations that the compiler bounded cost what it declared for them.\<close>

lemma requests_cost:
  assumes ok: "llvm_ok lv" and needs: "dispatch_needs lv m f r" and bounded: "\<not> vtcmUnbounded r"
    and allocs: "mset allocs \<subseteq># filter_mset (heap_alloc m) (dispatch_ops m f)"
    and rep: "\<And>op. op \<in> set allocs \<Longrightarrow> representable lv (opKind m op)"
  defines "reqs \<equiv> map (\<lambda>op. runtime_request lv (opKind m op)) allocs"
  shows "sum_list (map vp_cost reqs) \<le> vtcmBytes r" "list_all alloc_legal reqs"
proof -
  have mem: "heap_alloc m op \<and> op \<in># dispatch_ops m f" if "op \<in> set allocs" for op
    using mset_subset_eqD [OF allocs, of op] that by simp
  have some: "alloc_vtcm_bytes lv (opKind m op) = Some (op_bytes lv m op)" if "op \<in> set allocs" for op
    using mem [OF that] needs bounded unfolding dispatch_needs_def
    by (cases "alloc_vtcm_bytes lv (opKind m op)") (auto simp: unbounded_alloc_def op_bytes_def)
  have "map vp_cost reqs = map (op_bytes lv m) allocs"
    using request_cost(1) [OF ok rep some] by (simp add: reqs_def)
  also have "sum_list \<dots> = sum_mset (image_mset (op_bytes lv m) (mset allocs))"
    by (simp add: sum_mset_sum_list flip: mset_map)
  also have "\<dots> \<le> sum_mset (image_mset (op_bytes lv m) (dispatch_ops m f))"
  proof -
    have "mset allocs \<subseteq># dispatch_ops m f"
      using allocs multiset_filter_subset by (rule subset_mset.order_trans)
    then obtain X where "dispatch_ops m f = mset allocs + X" by (auto simp: mset_subset_eq_exists_conv)
    then show ?thesis by simp
  qed
  finally show "sum_list (map vp_cost reqs) \<le> vtcmBytes r" using needs by (simp add: dispatch_needs_def)
  show "list_all alloc_legal reqs"
    using request_cost(2) [OF ok rep some] by (auto simp: reqs_def list_all_iff)
qed

lemma empty_partition_wf: "vp_wf (empty_partition\<lparr>vp_name := name\<rparr>)"
  by (simp add: vp_wf_def empty_partition_def)


section \<open>A concrete dispatch\<close>

lemma pow2_ceil_bound: "0 < a \<Longrightarrow> \<exists>k. pow2_ceil a = 2 ^ k \<and> a \<le> 2 ^ k \<and> 2 ^ k < 2 * a"
proof (induction a rule: less_induct)
  case (less a)
  show ?case
  proof (cases "a = 1")
    case True
    then show ?thesis by (intro exI [of _ 0]) (use True in \<open>simp add: pow2_ceil.simps [of "Suc 0"]\<close>)
  next
    case False
    let ?h = "(a + 1) div 2"
    have h: "?h < a" "0 < ?h" using False less.prems by auto
    from less.IH [OF h] obtain k where k: "pow2_ceil ?h = 2 ^ k" "?h \<le> 2 ^ k" "2 ^ k < 2 * ?h" by blast
    have "2 ^ k \<noteq> a" if "odd a"
    proof
      assume "2 ^ k = a"
      with that have "k = 0" by (metis even_power even_numeral neq0_conv)
      with \<open>2 ^ k = a\<close> False show False by simp
    qed
    then have "2 ^ k < a" using k(3) by (cases "even a") auto
    moreover have "a \<le> 2 * 2 ^ k" using k(2) by linarith
    moreover have "pow2_ceil a = 2 * 2 ^ k"
      using False less.prems k(1) by (simp add: pow2_ceil.simps [of a])
    ultimately show ?thesis by (intro exI [of _ "Suc k"]) auto
  qed
qed

lemma sample_lv_ok: "llvm_ok sample_lv"
  by (auto simp: llvm_ok_def sample_lv_def pow2_ceil_bound pow2_ceil.simps [of 0])

lemma sample_demand_ops: "dispatch_ops sample_module 0 = {#10, 11, 12, 13#}"
  by (simp add: dispatch_ops_def sample_module_reachable body_def) (simp add: sample_module_def)


end
