(* ===== verification/Plan_Types.thy ===== *)
theory Plan_Types
  imports Prelude
begin

text \<open>
  The planner's data (\<open>CodeGen/Strategy/Planning/DispatchPlanTypes.h\<close>, \<open>.cpp\<close>) and the contracts of
  the lowering pipelines (\<open>PipelineContract.h\<close>, \<open>.cpp\<close>). Operations, values and functions are
  numbers, 0 is the null pointer. What MLIR, IREE and hexagon-mlir answer about them is the record
  \<open>planner_ir\<close>, a parameter of the model. Tile sizes and extents are integers, as the code never
  leaves the range of \<open>int64_t\<close> with them. Indexing a vector is \<open>!\<close>; it is only used in range
  (the \<open>SmallVector\<close> assertion), which \<open>shape_ok\<close> below guarantees.
\<close>

section \<open>What the planner asks of the IR\<close>

text \<open>\<open>ShapedType::kDynamic\<close>.\<close>

definition kDynamic :: int where
  "kDynamic = - (2 ^ 63)"

definition isDynamic :: "int \<Rightarrow> bool" where
  "isDynamic n \<longleftrightarrow> n = kDynamic"

datatype iterator_type = parallel | reduction | window

datatype affine_expr = AffineDimExpr nat | OtherAffineExpr

record affine_map =
  getNumDims :: nat
  getResults :: "affine_expr list"

text \<open>A type, seen through its element type where it is shaped.\<close>

record ir_type =
  isShapedType :: bool
  getRank :: nat
  isIntOrFloat :: bool
  roundedElementByteWidth :: int
  isF16 :: bool
  isF32 :: bool
  hasElementSizeInBytes :: bool

record contraction_dims =
  cd_batch :: "nat list"
  cd_m :: "nat list"
  cd_n :: "nat list"
  cd_k :: "nat list"

datatype conv_kind =
    Conv2DNhwcHwcf | Conv2DNchwFchw | DepthwiseConv2DNhwcHwc
  | PoolingNhwcSum | PoolingNhwcMax | PoolingNhwcMaxUnsigned | PoolingNhwcMin
  | PoolingNhwcMinUnsigned | PoolingNchwSum | PoolingNchwMax

record planner_ir =
  typeOf :: "nat \<Rightarrow> ir_type"
  getDefiningOp :: "nat \<Rightarrow> nat option"
  opOperands :: "nat \<Rightarrow> nat list"
  opResults :: "nat \<Rightarrow> nat list"
  isTilingInterface :: "nat \<Rightarrow> bool"
  isIndexingMapOp :: "nat \<Rightarrow> bool"
  isDestinationStyleOp :: "nat \<Rightarrow> bool"
  isLinalgOp :: "nat \<Rightarrow> bool"
  isGenericOp :: "nat \<Rightarrow> bool"
  isFillOp :: "nat \<Rightarrow> bool"
  isMatmulOp :: "nat \<Rightarrow> bool"
  isBatchMatmulOp :: "nat \<Rightarrow> bool"
  isTensorEmptyOp :: "nat \<Rightarrow> bool"
  isaCopyOp :: "nat \<Rightarrow> bool"
  isaContractionOp :: "nat \<Rightarrow> bool"
  isaConvolutionOpOfType :: "conv_kind \<Rightarrow> nat \<Rightarrow> bool"
  hasPureBufferSemantics :: "nat \<Rightarrow> bool"
  hasPureTensorSemantics :: "nat \<Rightarrow> bool"
  loopIteratorTypes :: "nat \<Rightarrow> iterator_type list"
  staticLoopRanges :: "nat \<Rightarrow> int list"
  operandMaps :: "nat \<Rightarrow> affine_map list"
  dpsInputs :: "nat \<Rightarrow> nat list"
  dpsInits :: "nat \<Rightarrow> nat list"
  tiedOperand :: "nat \<Rightarrow> nat \<Rightarrow> nat"
  inferContractionDims :: "nat \<Rightarrow> contraction_dims option"
  parentFunction :: "nat \<Rightarrow> nat option"
  getComputeOps :: "nat \<Rightarrow> nat list"
  hasSingleBlockBody :: "nat \<Rightarrow> bool"
  getRootOperation :: "nat list \<Rightarrow> nat option"
  topologicalSort :: "nat list \<Rightarrow> nat list"
  determineTileSizes :: "nat \<Rightarrow> int \<Rightarrow> nat list option \<Rightarrow> int list option"
  configNativeVectorSize :: "nat \<Rightarrow> int option"

text \<open>
  \<open>dpsInputs\<close> and \<open>dpsInits\<close> are positions in \<open>opOperands\<close>, and \<open>operandMaps\<close> holds the indexing map
  matching each operand.
\<close>

definition operandType :: "planner_ir \<Rightarrow> nat \<Rightarrow> nat \<Rightarrow> ir_type" where
  "operandType ir op i = typeOf ir (opOperands ir op ! i)"

section \<open>Planner data\<close>

record tile_decision =
  td_size :: int
  hardwareFixed :: bool

definition TileDecision :: "int \<Rightarrow> tile_decision" where
  "TileDecision s = \<lparr>td_size = s, hardwareFixed = False\<rparr>"

text \<open>A vector of \<open>n\<close> default decisions.\<close>

definition noTiles :: "nat \<Rightarrow> tile_decision list" where
  "noTiles n = replicate n (TileDecision 0)"

record global_dim =
  gd_id :: nat
  presentInRoot :: bool

record local_dim =
  ld_position :: nat
  ld_global :: nat
  staticExtent :: int
  iteratorType :: iterator_type

record op_shape =
  os_op :: nat
  os_ordinal :: nat
  os_dims :: "local_dim list"

record dispatch_shape =
  ds_entryPoint :: nat
  ds_root :: nat
  globalDimensions :: "global_dim list"
  ds_operations :: "op_shape list"

datatype compute_tile_level = CommonParallel | Reduction | InnerParallel

definition stringifyComputeTileLevel :: "compute_tile_level \<Rightarrow> string" where
  "stringifyComputeTileLevel level =
     (case level of CommonParallel \<Rightarrow> ''VectorCommonParallel''
      | Reduction \<Rightarrow> ''VectorReduction''
      | InnerParallel \<Rightarrow> ''VectorInnerParallel'')"

definition classifyComputeTileLevel :: "dispatch_shape \<Rightarrow> local_dim \<Rightarrow> compute_tile_level" where
  "classifyComputeTileLevel shape dimension =
     (if iteratorType dimension = reduction then Reduction
      else if presentInRoot (globalDimensions shape ! ld_global dimension) then CommonParallel
      else InnerParallel)"

definition findOpShape :: "dispatch_shape \<Rightarrow> nat \<Rightarrow> op_shape option" where
  "findOpShape shape op = find (\<lambda>item. os_op item = op) (ds_operations shape)"

text \<open>\<open>getRootShape\<close> asserts that the root is analyzed; \<open>None\<close> is the failed assertion.\<close>

definition getRootShape :: "dispatch_shape \<Rightarrow> op_shape option" where
  "getRootShape shape = findOpShape shape (ds_root shape)"

record target_info =
  nativeVectorBytes :: int
  architecturalVectorRegisterCount :: int
  hmxM :: int
  hmxN :: int

definition default_target_info :: target_info where
  "default_target_info = \<lparr>nativeVectorBytes = 128, architecturalVectorRegisterCount = 32,
     hmxM = 32, hmxN = 32\<rparr>"

record planning_options =
  enableVTCM :: bool
  vtcmTileBudgetBytes :: int
  enableHmxMatmul :: bool

text \<open>The decision trace of the context only prints and is left out.\<close>

record planning_context =
  pc_entryPoint :: nat
  pc_target :: target_info
  pc_options :: planning_options

datatype lowering_pipeline =
    PipelineDefault | BufferOpsTileAndVectorize | MultiTilingExpert | ConvTileAndDecomposeExpert
  | HmxMatmulExpert | LinalgExtTileAndVectorize

record root_tiling_plan =
  rt_vtcm :: "tile_decision list option"
  distributionTile :: "tile_decision list"
  cacheTile :: "tile_decision list"
  hmxTile :: "tile_decision list"
  rt_computeTile :: "tile_decision list"

record dispatch_strategy =
  st_pipeline :: lowering_pipeline
  requestLoopPeeling :: bool
  rootTiling :: root_tiling_plan

definition empty_root_tiling :: root_tiling_plan where
  "empty_root_tiling = \<lparr>rt_vtcm = None, distributionTile = [], cacheTile = [], hmxTile = [],
     rt_computeTile = []\<rparr>"

text \<open>A default-constructed \<open>DispatchStrategy\<close>.\<close>

definition default_strategy :: dispatch_strategy where
  "default_strategy = \<lparr>st_pipeline = PipelineDefault, requestLoopPeeling = False,
     rootTiling = empty_root_tiling\<rparr>"

record op_compute_tile_plan =
  op_op :: nat
  op_computeTile :: "tile_decision list"

record dispatch_plan =
  dp_strategy :: dispatch_strategy
  nonRootComputeTilePlans :: "op_compute_tile_plan list"

section \<open>Pipeline contracts\<close>

datatype loop_tiling_scope = Unused | Root | EveryConfiguredOperation | LastConfiguredOnEachSideOfRoot

datatype vtcm_requirement = VTCMUnsupported | VTCMOptional | VTCMRequired

datatype loop_peeling_support = PeelingUnsupported | TranslationInfoControlled | PeelingUnconditional

record pipeline_contract =
  requiresUniqueRootAnchor :: bool
  cacheParallel :: loop_tiling_scope
  vectorCommonParallel :: loop_tiling_scope
  vectorReduction :: loop_tiling_scope
  vectorInnerParallel :: loop_tiling_scope
  hmxScope :: loop_tiling_scope
  runsTileToVectorSize :: bool
  usesConfiguredVectorSizes :: bool
  supportsIndependentNonRootComputeTiles :: bool
  vtcmRequirement :: vtcm_requirement
  loopPeeling :: loop_peeling_support

definition default_contract :: pipeline_contract where
  "default_contract = \<lparr>requiresUniqueRootAnchor = False, cacheParallel = Unused,
     vectorCommonParallel = Unused, vectorReduction = Unused, vectorInnerParallel = Unused,
     hmxScope = Unused, runsTileToVectorSize = False, usesConfiguredVectorSizes = False,
     supportsIndependentNonRootComputeTiles = False, vtcmRequirement = VTCMUnsupported,
     loopPeeling = PeelingUnsupported\<rparr>"

definition getLoopTilingScope :: "pipeline_contract \<Rightarrow> compute_tile_level \<Rightarrow> loop_tiling_scope" where
  "getLoopTilingScope contract level =
     (case level of CommonParallel \<Rightarrow> vectorCommonParallel contract
      | Reduction \<Rightarrow> vectorReduction contract
      | InnerParallel \<Rightarrow> vectorInnerParallel contract)"

definition getPipelineContract :: "lowering_pipeline \<Rightarrow> pipeline_contract option" where
  "getPipelineContract pipeline =
     (case pipeline of
        BufferOpsTileAndVectorize \<Rightarrow> Some (default_contract\<lparr>
          vectorCommonParallel := EveryConfiguredOperation,
          usesConfiguredVectorSizes := True,
          supportsIndependentNonRootComputeTiles := True,
          loopPeeling := TranslationInfoControlled\<rparr>)
      | MultiTilingExpert \<Rightarrow> Some (default_contract\<lparr>
          requiresUniqueRootAnchor := True,
          cacheParallel := Root,
          vectorCommonParallel := Root,
          vectorReduction := EveryConfiguredOperation,
          vectorInnerParallel := LastConfiguredOnEachSideOfRoot,
          runsTileToVectorSize := True,
          usesConfiguredVectorSizes := True,
          supportsIndependentNonRootComputeTiles := True,
          vtcmRequirement := VTCMOptional,
          loopPeeling := TranslationInfoControlled\<rparr>)
      | HmxMatmulExpert \<Rightarrow> Some (default_contract\<lparr>
          requiresUniqueRootAnchor := True,
          hmxScope := Root,
          vectorCommonParallel := Root,
          vectorInnerParallel := LastConfiguredOnEachSideOfRoot,
          runsTileToVectorSize := True,
          usesConfiguredVectorSizes := True,
          supportsIndependentNonRootComputeTiles := True,
          vtcmRequirement := VTCMRequired\<rparr>)
      | ConvTileAndDecomposeExpert \<Rightarrow> Some (default_contract\<lparr>
          requiresUniqueRootAnchor := True,
          vectorCommonParallel := Root,
          vectorReduction := Root,
          usesConfiguredVectorSizes := True,
          loopPeeling := TranslationInfoControlled\<rparr>)
      | PipelineDefault \<Rightarrow> Some (default_contract\<lparr>
          vectorCommonParallel := LastConfiguredOnEachSideOfRoot\<rparr>)
      | _ \<Rightarrow> None)"

definition canRefineComputeTileDownstream :: "planner_ir \<Rightarrow> pipeline_contract \<Rightarrow> nat \<Rightarrow> bool" where
  "canRefineComputeTileDownstream ir contract op \<longleftrightarrow>
     runsTileToVectorSize contract \<and> \<not> isFillOp ir op"

section \<open>Diagnostics\<close>

text \<open>
  The ways planning fails, one constructor per emitted error (named after its message, with the
  operation it is attached to), and, for the model, a failed assertion and a loop that never ends.
\<close>

datatype footprint_reason = UnsupportedOperandElementType | DynamicReduction

datatype plan_error =
    VTCMTilingRequired | TensorRootRequired | UnboundedFootprint footprint_reason | DoesNotFitVTCM
  | MissingRootShape
  | HardwareFixedTileMismatch nat int int
  | NegativeTile nat
  | ForeignEntryPoint | GlobalDimMismatch nat nat | NullOperation | DuplicateOperation
  | OrdinalMismatch nat nat nat | ForeignOperation nat | NonTilingOperation nat | ShapeRankMismatch nat
  | LocalPositionMismatch nat nat nat | MissingGlobalDim nat nat | IteratorTypeMismatch nat nat
  | InvalidStaticExtent nat int | RootNotAnalyzed nat | UnreferencedGlobalDim nat | RootPresenceMismatch nat
  | LevelNotConsumed nat compute_tile_level
  | TileExceedsRootTile nat nat int int | TileDoesNotDivideRootTile nat nat int int
  | TileMustEqualRootTile nat nat int int
  | PeelingNotAccepted | PipelineRequiresVTCM | VTCMNotConsumed | CacheNotSuppressed
  | RootPlanRankMismatch nat | CacheTileNotConsumed nat | HmxTileNotConsumed nat
  | InvalidNonRootPlan | NonRootTilesUnsupported nat | ComputeTileRankMismatch nat
  | NoAnalyzedRoot | NoUniqueRootAnchor
  | TranslationInfoExists | TranslationInfoNotSet | LoweringConfigExists nat | UnexpectedConfiguredOp nat
  | NoRootOperation | InconsistentLoopRank nat | MapRankMismatch nat
  | StrategyFailed | NoPlanningContract
  | AssertionFailed | DoesNotReturn

section \<open>Well-formed shapes and tiles\<close>

text \<open>
  What analysis establishes of one operation's shape, and of the whole: dimensions in order,
  referring to existing global dimensions; distinct operations, in order.
\<close>

definition op_shape_ok :: "planner_ir \<Rightarrow> nat \<Rightarrow> op_shape \<Rightarrow> bool" where
  "op_shape_ok ir globals s \<longleftrightarrow>
     isTilingInterface ir (os_op s) \<and>
     map ld_position (os_dims s) = [0..<length (os_dims s)] \<and>
     map iteratorType (os_dims s) = loopIteratorTypes ir (os_op s) \<and>
     (\<forall>d\<in>set (os_dims s). ld_global d < globals \<and> (isDynamic (staticExtent d) \<or> 0 \<le> staticExtent d))"

definition shape_ok :: "planner_ir \<Rightarrow> dispatch_shape \<Rightarrow> bool" where
  "shape_ok ir shape \<longleftrightarrow>
     map gd_id (globalDimensions shape) = [0..<length (globalDimensions shape)] \<and>
     map os_ordinal (ds_operations shape) = [0..<length (ds_operations shape)] \<and>
     distinct (map os_op (ds_operations shape)) \<and>
     (\<forall>s\<in>set (ds_operations shape). op_shape_ok ir (length (globalDimensions shape)) s)"

definition tiles_ok :: "nat \<Rightarrow> tile_decision list \<Rightarrow> bool" where
  "tiles_ok rank tiles \<longleftrightarrow> length tiles = rank \<and> (\<forall>t\<in>set tiles. 0 \<le> td_size t)"

named_theorems plan_simps \<open>planner data unfolded\<close>

lemmas [plan_simps] = TileDecision_def noTiles_def default_strategy_def empty_root_tiling_def

lemma td_size_TileDecision [simp]: "td_size (TileDecision s) = s" "hardwareFixed (TileDecision s) = False"
  by (simp_all add: TileDecision_def)

lemma length_noTiles [simp]: "length (noTiles n) = n"
  by (simp add: noTiles_def)

lemma nth_noTiles [simp]: "i < n \<Longrightarrow> noTiles n ! i = TileDecision 0"
  by (simp add: noTiles_def)

lemma set_noTiles: "t \<in> set (noTiles n) \<Longrightarrow> t = TileDecision 0"
  by (auto simp: noTiles_def)

lemma tiles_ok_noTiles [intro, simp]: "tiles_ok n (noTiles n)"
  by (auto simp: tiles_ok_def dest: set_noTiles)

lemma tiles_ok_update [intro]: "tiles_ok n ts \<Longrightarrow> 0 \<le> td_size t \<Longrightarrow> tiles_ok n (ts[i := t])"
  using set_update_subset_insert by (fastforce simp: tiles_ok_def)

lemma tiles_ok_fold_update:
  "tiles_ok n ts \<Longrightarrow> (\<And>x. x \<in> set xs \<Longrightarrow> 0 \<le> td_size (v x)) \<Longrightarrow>
   tiles_ok n (fold (\<lambda>x ts. ts[p x := v x]) xs ts)"
  by (induction xs arbitrary: ts) auto

lemma findOpShape_Some: "findOpShape shape op = Some s \<Longrightarrow> s \<in> set (ds_operations shape) \<and> os_op s = op"
  by (auto simp: findOpShape_def find_Some_iff)

lemma findOpShape_None: "findOpShape shape op = None \<longleftrightarrow> op \<notin> os_op ` set (ds_operations shape)"
  by (auto simp: findOpShape_def find_None_iff)

lemma shape_ok_op: "shape_ok ir shape \<Longrightarrow> s \<in> set (ds_operations shape) \<Longrightarrow>
    op_shape_ok ir (length (globalDimensions shape)) s"
  by (simp add: shape_ok_def)

lemma op_shape_ok_position:
  assumes "op_shape_ok ir g s" and "i < length (os_dims s)"
  shows "ld_position (os_dims s ! i) = i" "iteratorType (os_dims s ! i) = loopIteratorTypes ir (os_op s) ! i"
proof -
  have "map ld_position (os_dims s) ! i = [0..<length (os_dims s)] ! i"
    "map iteratorType (os_dims s) ! i = loopIteratorTypes ir (os_op s) ! i"
    using assms(1) by (simp_all only: op_shape_ok_def)
  with assms(2) show "ld_position (os_dims s ! i) = i"
    "iteratorType (os_dims s ! i) = loopIteratorTypes ir (os_op s) ! i" by simp_all
qed

lemma op_shape_ok_position_less:
  "op_shape_ok ir g s \<Longrightarrow> d \<in> set (os_dims s) \<Longrightarrow> ld_position d < length (os_dims s)"
  by (auto simp: in_set_conv_nth op_shape_ok_position)

section \<open>A concrete dispatch\<close>

text \<open>
  For the witnesses: a matrix product of 64x128 and 128x96 floats (operation 2, values 100 and 101)
  into a filled accumulator (operation 1, result 103, on the \<open>tensor.empty\<close> 102 of operation 9).
\<close>

definition f32_tensor :: "nat \<Rightarrow> ir_type" where
  "f32_tensor n = \<lparr>isShapedType = True, getRank = n, isIntOrFloat = True, roundedElementByteWidth = 4,
     isF16 = False, isF32 = True, hasElementSizeInBytes = True\<rparr>"

definition f32_scalar :: ir_type where
  "f32_scalar = (f32_tensor 0)\<lparr>isShapedType := False\<rparr>"

definition dim_map :: "nat \<Rightarrow> nat list \<Rightarrow> affine_map" where
  "dim_map n ds = \<lparr>getNumDims = n, getResults = map AffineDimExpr ds\<rparr>"

definition sample_ir :: planner_ir where
  "sample_ir = \<lparr>
     typeOf = (\<lambda>v. if v = 99 then f32_scalar else f32_tensor 2),
     getDefiningOp = (\<lambda>v. if v = 102 then Some 9 else if v = 103 then Some 1 else if v = 104 then Some 2 else None),
     opOperands = (\<lambda>op. if op = 1 then [99, 102] else if op = 2 then [100, 101, 103] else []),
     opResults = (\<lambda>op. if op = 1 then [103] else if op = 2 then [104] else if op = 9 then [102] else []),
     isTilingInterface = (\<lambda>op. op = 1 \<or> op = 2),
     isIndexingMapOp = (\<lambda>op. op = 1 \<or> op = 2),
     isDestinationStyleOp = (\<lambda>op. op = 1 \<or> op = 2),
     isLinalgOp = (\<lambda>op. op = 1 \<or> op = 2),
     isGenericOp = (\<lambda>op. False),
     isFillOp = (\<lambda>op. op = 1),
     isMatmulOp = (\<lambda>op. op = 2),
     isBatchMatmulOp = (\<lambda>op. False),
     isTensorEmptyOp = (\<lambda>op. op = 9),
     isaCopyOp = (\<lambda>op. False),
     isaContractionOp = (\<lambda>op. op = 2),
     isaConvolutionOpOfType = (\<lambda>k op. False),
     hasPureBufferSemantics = (\<lambda>op. False),
     hasPureTensorSemantics = (\<lambda>op. op = 1 \<or> op = 2),
     loopIteratorTypes = (\<lambda>op. if op = 1 then [parallel, parallel]
       else if op = 2 then [parallel, parallel, reduction] else []),
     staticLoopRanges = (\<lambda>op. if op = 1 then [64, 96] else if op = 2 then [64, 96, 128] else []),
     operandMaps = (\<lambda>op. if op = 1 then [dim_map 2 [], dim_map 2 [0, 1]]
       else if op = 2 then [dim_map 3 [0, 2], dim_map 3 [2, 1], dim_map 3 [0, 1]] else []),
     dpsInputs = (\<lambda>op. if op = 1 then [0] else if op = 2 then [0, 1] else []),
     dpsInits = (\<lambda>op. if op = 1 then [1] else if op = 2 then [2] else []),
     tiedOperand = (\<lambda>op r. if op = 1 then 1 else 2),
     inferContractionDims = (\<lambda>op. if op = 2 then Some \<lparr>cd_batch = [], cd_m = [0], cd_n = [1], cd_k = [2]\<rparr> else None),
     parentFunction = (\<lambda>op. Some 7),
     getComputeOps = (\<lambda>f. [1, 2]),
     hasSingleBlockBody = (\<lambda>f. True),
     getRootOperation = (\<lambda>ops. Some 2),
     topologicalSort = (\<lambda>ops. ops),
     determineTileSizes = (\<lambda>op budget dims. Some [64, 96, 128]),
     configNativeVectorSize = (\<lambda>f. None)\<rparr>"

named_theorems sample_simps \<open>the concrete dispatch\<close>

lemma sample_ir_fields [sample_simps]:
  "typeOf sample_ir v = (if v = 99 then f32_scalar else f32_tensor 2)"
  "getDefiningOp sample_ir v = (if v = 102 then Some 9 else if v = 103 then Some 1 else if v = 104 then Some 2 else None)"
  "opOperands sample_ir op = (if op = 1 then [99, 102] else if op = 2 then [100, 101, 103] else [])"
  "opResults sample_ir op = (if op = 1 then [103] else if op = 2 then [104] else if op = 9 then [102] else [])"
  "isTilingInterface sample_ir op = (op = 1 \<or> op = 2)"
  "isIndexingMapOp sample_ir op = (op = 1 \<or> op = 2)"
  "isDestinationStyleOp sample_ir op = (op = 1 \<or> op = 2)"
  "isLinalgOp sample_ir op = (op = 1 \<or> op = 2)"
  "isGenericOp sample_ir op = (False)"
  "isFillOp sample_ir op = (op = 1)"
  "isMatmulOp sample_ir op = (op = 2)"
  "isBatchMatmulOp sample_ir op = (False)"
  "isTensorEmptyOp sample_ir op = (op = 9)"
  "isaCopyOp sample_ir op = (False)"
  "isaContractionOp sample_ir op = (op = 2)"
  "isaConvolutionOpOfType sample_ir k op = (False)"
  "hasPureBufferSemantics sample_ir op = (False)"
  "hasPureTensorSemantics sample_ir op = (op = 1 \<or> op = 2)"
  "loopIteratorTypes sample_ir op = (if op = 1 then [parallel, parallel] else if op = 2 then [parallel, parallel, reduction] else [])"
  "staticLoopRanges sample_ir op = (if op = 1 then [64, 96] else if op = 2 then [64, 96, 128] else [])"
  "operandMaps sample_ir op = (if op = 1 then [dim_map 2 [], dim_map 2 [0, 1]] else if op = 2 then [dim_map 3 [0, 2], dim_map 3 [2, 1], dim_map 3 [0, 1]] else [])"
  "dpsInputs sample_ir op = (if op = 1 then [0] else if op = 2 then [0, 1] else [])"
  "dpsInits sample_ir op = (if op = 1 then [1] else if op = 2 then [2] else [])"
  "tiedOperand sample_ir op r = (if op = 1 then 1 else 2)"
  "inferContractionDims sample_ir op = (if op = 2 then Some \<lparr>cd_batch = [], cd_m = [0], cd_n = [1], cd_k = [2]\<rparr> else None)"
  "parentFunction sample_ir op = (Some 7)"
  "getComputeOps sample_ir f = ([1, 2])"
  "hasSingleBlockBody sample_ir f = (True)"
  "getRootOperation sample_ir ops = (Some 2)"
  "topologicalSort sample_ir ops = (ops)"
  "determineTileSizes sample_ir op budget dims = (Some [64, 96, 128])"
  "configNativeVectorSize sample_ir f = (None)"
  by (simp_all add: sample_ir_def)

definition sample_context :: planning_context where
  "sample_context = \<lparr>pc_entryPoint = 7, pc_target = default_target_info,
     pc_options = \<lparr>enableVTCM = True, vtcmTileBudgetBytes = 1048576, enableHmxMatmul = False\<rparr>\<rparr>"

definition sample_root_shape :: op_shape where
  "sample_root_shape = \<lparr>os_op = 2, os_ordinal = 1, os_dims =
     [\<lparr>ld_position = 0, ld_global = 0, staticExtent = 64, iteratorType = parallel\<rparr>,
      \<lparr>ld_position = 1, ld_global = 1, staticExtent = 96, iteratorType = parallel\<rparr>,
      \<lparr>ld_position = 2, ld_global = 2, staticExtent = 128, iteratorType = reduction\<rparr>]\<rparr>"

definition sample_fill_shape :: op_shape where
  "sample_fill_shape = \<lparr>os_op = 1, os_ordinal = 0, os_dims =
     [\<lparr>ld_position = 0, ld_global = 0, staticExtent = 64, iteratorType = parallel\<rparr>,
      \<lparr>ld_position = 1, ld_global = 1, staticExtent = 96, iteratorType = parallel\<rparr>]\<rparr>"

definition sample_shape :: dispatch_shape where
  "sample_shape = \<lparr>ds_entryPoint = 7, ds_root = 2,
     globalDimensions = [\<lparr>gd_id = 0, presentInRoot = True\<rparr>, \<lparr>gd_id = 1, presentInRoot = True\<rparr>,
       \<lparr>gd_id = 2, presentInRoot = True\<rparr>],
     ds_operations = [sample_fill_shape, sample_root_shape]\<rparr>"

lemmas [sample_simps] = sample_shape_def sample_fill_shape_def sample_root_shape_def
  sample_context_def default_target_info_def f32_tensor_def f32_scalar_def dim_map_def

lemma sample_shape_ok: "shape_ok sample_ir sample_shape"
  by (simp add: shape_ok_def op_shape_ok_def sample_simps upt_rec)

end
