(* ===== verification/Strategy_Support.thy ===== *)
theory Strategy_Support
  imports Plan_Types
begin

text \<open>
  Tile-size helpers shared by the strategies:
  \<open>CodeGen/Strategy/Planning/Strategies/StrategySupport.cpp\<close>.
\<close>

section \<open>The code\<close>

text \<open>\<open>getDefaultVectorType\<close>: \<open>None\<close> is the null type.\<close>

definition getDefaultVectorType :: "planner_ir \<Rightarrow> nat \<Rightarrow> ir_type option" where
  "getDefaultVectorType ir op =
     (if opResults ir op \<noteq> [] then Some (typeOf ir (opResults ir op ! 0))
      else if opOperands ir op \<noteq> [] then Some (typeOf ir (opOperands ir op ! 0))
      else None)"

text \<open>Both operands of the division are positive, so it is the truncating one of C++.\<close>

definition getTypeNativeVectorWidth :: "planning_context \<Rightarrow> ir_type \<Rightarrow> int" where
  "getTypeNativeVectorWidth context type =
     (if \<not> isIntOrFloat type then 1
      else max 1 (nativeVectorBytes (pc_target context) div roundedElementByteWidth type))"

text \<open>
  The two divisor searches of \<open>chooseStaticTilingFactor\<close>, over the bound and the preference in
  units of \<open>step\<close>. The first counts \<open>smallDivisor\<close> up from 1; it either returns the cofactor of a
  divisor, or hands the final counter to the second, which counts down.
\<close>

function search_large :: "int \<Rightarrow> int \<Rightarrow> int \<Rightarrow> int + int" where
  "search_large bound preferred smallDivisor =
     (if 0 < smallDivisor \<and> smallDivisor \<le> bound div smallDivisor then
        if bound mod smallDivisor = 0 \<and> bound div smallDivisor \<le> preferred
        then Inl (bound div smallDivisor)
        else search_large bound preferred (smallDivisor + 1)
      else Inr smallDivisor)"
  by pat_completeness auto
termination
proof (relation "measure (\<lambda>(b, p, s). nat (b + 1 - s))", goal_cases)
  case (2 bound preferred s)
  then have "1 \<le> s" and le: "s \<le> bound div s" by auto
  have "s \<le> bound"
  proof (rule ccontr)
    assume "\<not> s \<le> bound"
    then have "bound div s \<le> 0" using \<open>1 \<le> s\<close> by (cases "0 \<le> bound") (auto simp: div_nonneg_neg_le0 div_neg_pos_less0 less_imp_le)
    with le \<open>1 \<le> s\<close> show False by linarith
  qed
  then show ?case by simp
qed simp

function search_small :: "int \<Rightarrow> int \<Rightarrow> int \<Rightarrow> int option" where
  "search_small bound preferred smallDivisor =
     (if 1 \<le> smallDivisor then
        if bound mod smallDivisor = 0 \<and> smallDivisor \<le> preferred then Some smallDivisor
        else search_small bound preferred (smallDivisor - 1)
      else None)"
  by pat_completeness auto
termination by (relation "measure (\<lambda>(b, p, s). nat s)") auto

declare search_large.simps [simp del] search_small.simps [simp del]

definition chooseStaticTilingFactor :: "int \<Rightarrow> int \<Rightarrow> int \<Rightarrow> int" where
  "chooseStaticTilingFactor staticBound preferred multipleOf =
     (if preferred \<le> 0 then 0
      else if isDynamic staticBound then preferred
      else
        let fallback = min staticBound preferred;
            step = max 1 multipleOf
        in if staticBound \<le> 0 \<or> staticBound mod step \<noteq> 0 \<or> preferred < step then fallback
           else
             let normalizedBound = staticBound div step;
                 normalizedPreferred = preferred div step
             in case search_large normalizedBound normalizedPreferred 1 of
                  Inl largeDivisor \<Rightarrow> largeDivisor * step
                | Inr smallDivisor \<Rightarrow>
                    (case search_small normalizedBound normalizedPreferred (smallDivisor - 1) of
                       Some smallDivisor \<Rightarrow> smallDivisor * step
                     | None \<Rightarrow> fallback))"

text \<open>The positions of the parallel dimensions, in order.\<close>

definition parallelPositions :: "op_shape \<Rightarrow> nat list" where
  "parallelPositions shape = map ld_position (filter (\<lambda>d. iteratorType d = parallel) (os_dims shape))"

text \<open>\<open>llvm::drop_end\<close> loops that set the tile of every dimension but the last to 1.\<close>

definition unit_tiles :: "nat list \<Rightarrow> tile_decision list \<Rightarrow> tile_decision list" where
  "unit_tiles dims tiles = fold (\<lambda>d ts. ts[d := TileDecision 1]) (butlast dims) tiles"

definition inferInnermostParallelComputeTile ::
  "planner_ir \<Rightarrow> planning_context \<Rightarrow> op_shape \<Rightarrow> nat \<Rightarrow> tile_decision list" where
  "inferInnermostParallelComputeTile ir context shape op =
     (let tiles = noTiles (length (os_dims shape))
      in case getDefaultVectorType ir op of None \<Rightarrow> tiles
         | Some vectorType \<Rightarrow>
             let vectorWidth = getTypeNativeVectorWidth context vectorType;
                 parallelDimensions = parallelPositions shape
             in if parallelDimensions = [] then tiles
                else
                  let tiles = (if 1 < length parallelDimensions then unit_tiles parallelDimensions tiles
                               else tiles);
                      innermost = last parallelDimensions;
                      bound = staticExtent (os_dims shape ! innermost)
                  in tiles[innermost := TileDecision
                       (if isDynamic bound then vectorWidth else min bound vectorWidth)])"

section \<open>The tiling factor is the largest legal one\<close>

text \<open>
  The first search skips a divisor when its cofactor is larger than the preference. As the
  counter passes the square root of the bound, the second search sees every divisor whose
  cofactor was not tried.
\<close>

definition skipped :: "int \<Rightarrow> int \<Rightarrow> int \<Rightarrow> bool" where
  "skipped b p s \<longleftrightarrow> (\<forall>e. 1 \<le> e \<and> e < s \<and> e dvd b \<longrightarrow> p < b div e)"

lemma skipped_step:
  assumes "skipped b p s" and "\<not> (b mod s = 0 \<and> b div s \<le> p)"
  shows "skipped b p (s + 1)"
  unfolding skipped_def
proof (intro allI impI)
  fix e assume e: "1 \<le> e \<and> e < s + 1 \<and> e dvd b"
  show "p < b div e"
  proof (cases "e = s")
    case True
    with e assms(2) show ?thesis by auto
  next
    case False
    with e assms(1) show ?thesis by (simp add: skipped_def)
  qed
qed

lemma skipped_cofactor:
  assumes "skipped b p s" and "0 < b" and "0 < d" and "d dvd b" and "d \<le> p"
  shows "s \<le> b div d"
proof (rule ccontr)
  assume less: "\<not> s \<le> b div d"
  from \<open>d dvd b\<close> obtain e where e: "b = d * e" ..
  with \<open>0 < b\<close> \<open>0 < d\<close> have "0 < e" by (simp add: zero_less_mult_iff)
  have "e dvd b" "e < s" "1 \<le> e" using less e \<open>0 < d\<close> \<open>0 < e\<close> by auto
  with assms(1) have "p < b div e" by (simp add: skipped_def)
  with e \<open>0 < e\<close> \<open>d \<le> p\<close> show False by simp
qed

lemma search_large_Inl:
  "search_large b p s = Inl d \<Longrightarrow> 0 < b \<Longrightarrow> 0 < s \<Longrightarrow> skipped b p s \<Longrightarrow>
   d dvd b \<and> 0 < d \<and> d \<le> p \<and> (\<forall>e. e dvd b \<and> 0 < e \<and> e \<le> p \<longrightarrow> e \<le> d)"
proof (induction b p s rule: search_large.induct)
  case (1 b p s)
  show ?case
  proof (cases "b mod s = 0 \<and> b div s \<le> p")
    case True
    with 1 have d: "d = b div s" and "s dvd b" and le: "s \<le> b div s"
      by (auto simp: search_large.simps [of b p s] split: if_splits)
    then have sd: "b = s * d" by simp
    have "e \<le> d" if e: "e dvd b" "0 < e" "e \<le> p" for e
    proof -
      have "s \<le> b div e" using skipped_cofactor [OF \<open>skipped b p s\<close> \<open>0 < b\<close>] e by simp
      then have "s * e \<le> b div e * e" using e(2) by (intro mult_right_mono) auto
      with e(1) sd \<open>0 < s\<close> show ?thesis by simp
    qed
    with d sd le True \<open>0 < s\<close> show ?thesis by auto
  next
    case False
    with 1 have "search_large b p (s + 1) = Inl d" "0 < s \<and> s \<le> b div s"
      by (auto simp: search_large.simps [of b p s] split: if_splits)
    with 1 False skipped_step show ?thesis by simp
  qed
qed

lemma search_large_Inr:
  "search_large b p s = Inr s' \<Longrightarrow> 0 < s \<Longrightarrow> skipped b p s \<Longrightarrow> 0 < s' \<and> b div s' < s' \<and> skipped b p s'"
proof (induction b p s rule: search_large.induct)
  case (1 b p s)
  then show ?case
    using skipped_step [of b p s]
    by (cases "s \<le> b div s") (auto simp: search_large.simps [of b p s] split: if_splits)
qed

lemma search_small_Some:
  "search_small b p s = Some d \<Longrightarrow>
   d dvd b \<and> 0 < d \<and> d \<le> p \<and> (\<forall>e. e dvd b \<and> 0 < e \<and> e \<le> p \<and> e \<le> s \<longrightarrow> e \<le> d)"
proof (induction b p s rule: search_small.induct)
  case (1 b p s)
  then show ?case
    by (auto simp: search_small.simps [of b p s] mod_eq_0_iff_dvd split: if_splits)
      (metis linorder_not_le order_le_less zle_diff1_eq)+
qed

lemma search_small_None:
  "search_small b p s = None \<Longrightarrow> e dvd b \<Longrightarrow> 0 < e \<Longrightarrow> e \<le> p \<Longrightarrow> s < e"
proof (induction b p s rule: search_small.induct)
  case (1 b p s)
  show ?case
  proof (cases "1 \<le> s")
    case True
    with 1 have "s - 1 < e" "s \<noteq> e"
      by (auto simp: search_small.simps [of b p s] mod_eq_0_iff_dvd split: if_splits)
    then show ?thesis by simp
  qed (use 1 in auto)
qed

text \<open>Both searches together find the largest divisor that is no larger than the preference.\<close>

lemma two_searches:
  assumes b: "0 < b" and p: "1 \<le> p"
  defines "r \<equiv> (case search_large b p 1 of Inl d \<Rightarrow> Some d | Inr s \<Rightarrow> search_small b p (s - 1))"
  shows "\<exists>d. r = Some d \<and> d dvd b \<and> 0 < d \<and> d \<le> p \<and> (\<forall>e. e dvd b \<and> 0 < e \<and> e \<le> p \<longrightarrow> e \<le> d)"
proof (cases "search_large b p 1")
  case (Inl d)
  with search_large_Inl [OF Inl b] show ?thesis by (simp add: r_def skipped_def)
next
  case (Inr s)
  from search_large_Inr [OF Inr] have s: "0 < s" "b div s < s" "skipped b p s"
    by (simp_all add: skipped_def)
  have small: "e \<le> s - 1" if "e dvd b" "0 < e" "e \<le> p" for e
  proof -
    from that(1) obtain q where q: "b = e * q" ..
    have "s \<le> b div e" using skipped_cofactor [OF s(3) b] that by simp
    then have "s \<le> q" using q that(2) by simp
    then have "e * s \<le> b" using q that(2) by simp
    then have "e * s div s \<le> b div s" using s(1) by (rule zdiv_mono1)
    then have "e \<le> b div s" using s(1) by simp
    with s(2) show ?thesis by simp
  qed
  have "r \<noteq> None"
    using search_small_None [of b p "s - 1" 1] small [of 1] p by (auto simp: r_def Inr)
  then obtain d where d: "r = Some d" by blast
  then have "search_small b p (s - 1) = Some d" by (simp add: r_def Inr)
  from search_small_Some [OF this] small d show ?thesis by blast
qed

definition best_factor :: "int \<Rightarrow> int \<Rightarrow> int \<Rightarrow> int \<Rightarrow> bool" where
  "best_factor b preferred step r \<longleftrightarrow>
     r dvd b \<and> step dvd r \<and> 0 < r \<and> r \<le> preferred \<and>
     (\<forall>d. d dvd b \<and> step dvd d \<and> 0 < d \<and> d \<le> preferred \<longrightarrow> d \<le> r)"

lemma chooseStaticTilingFactor_best:
  assumes p: "0 < preferred" and b: "0 < b" and step: "max 1 m dvd b" "max 1 m \<le> preferred"
  shows "best_factor b preferred (max 1 m) (chooseStaticTilingFactor b preferred m)"
proof -
  let ?s = "max 1 m"
  have s0: "0 < ?s" by simp
  from step(1) obtain nb where nb: "b = ?s * nb" ..
  have nb0: "0 < nb" using nb b s0 by (metis zero_less_mult_pos)
  let ?np = "preferred div ?s"
  have np: "1 \<le> ?np" using step(2) s0 by (metis div_self less_irrefl zdiv_mono1)
  from two_searches [OF nb0 np] obtain d where
    d: "(case search_large nb ?np 1 of Inl d \<Rightarrow> Some d | Inr s \<Rightarrow> search_small nb ?np (s - 1)) = Some d"
    "d dvd nb" "0 < d" "d \<le> ?np" "\<forall>e. e dvd nb \<and> 0 < e \<and> e \<le> ?np \<longrightarrow> e \<le> d"
    by blast
  have nd: "\<not> isDynamic b" using b by (simp add: isDynamic_def kDynamic_def)
  have nbs: "b div ?s = nb" using nb s0 by simp
  have r: "chooseStaticTilingFactor b preferred m = d * ?s"
    unfolding chooseStaticTilingFactor_def Let_def nbs
    using p b step nd d(1) by (auto simp: mod_eq_0_iff_dvd split: sum.splits option.splits)
  have "d * ?s \<le> ?np * ?s" using d(4) s0 by (intro mult_right_mono) auto
  also have "\<dots> \<le> preferred" using s0 by (metis less_irrefl minus_mod_eq_div_mult pos_mod_sign diff_le_eq le_add_same_cancel1)
  finally have le: "d * ?s \<le> preferred" .
  have "e \<le> d * ?s" if e: "e dvd b" "?s dvd e" "0 < e" "e \<le> preferred" for e
  proof -
    from e(2) obtain q where q: "e = ?s * q" ..
    have "q dvd nb" using e(1) unfolding q nb using s0 by (metis dvd_mult_cancel_left less_irrefl)
    moreover have "0 < q" using q e(3) s0 by (metis zero_less_mult_pos)
    moreover have "q \<le> ?np" using e(4) q s0 by (metis less_irrefl nonzero_mult_div_cancel_left zdiv_mono1)
    ultimately have "q \<le> d" using d(5) by blast
    then show ?thesis using q s0 by (simp add: mult.commute)
  qed
  then show ?thesis
    unfolding best_factor_def r using d(2,3) s0 le nb by (simp add: mult.commute)
qed

lemma chooseStaticTilingFactor_nonneg:
  assumes "isDynamic b \<or> 0 \<le> b"
  shows "0 \<le> chooseStaticTilingFactor b preferred m"
proof (cases "0 < preferred \<and> 0 < b \<and> max 1 m dvd b \<and> max 1 m \<le> preferred")
  case True
  then show ?thesis
    using chooseStaticTilingFactor_best [of preferred b m] by (simp add: best_factor_def)
next
  case False
  with assms show ?thesis
    by (auto simp: chooseStaticTilingFactor_def Let_def mod_eq_0_iff_dvd not_less)
qed

lemma chooseStaticTilingFactor_divides:
  assumes "0 < b" and "0 < preferred"
  shows "chooseStaticTilingFactor b preferred 1 dvd b" "0 < chooseStaticTilingFactor b preferred 1"
    "chooseStaticTilingFactor b preferred 1 \<le> preferred"
  using chooseStaticTilingFactor_best [of preferred b 1] assms by (simp_all add: best_factor_def)

lemma vectorWidth_pos: "1 \<le> getTypeNativeVectorWidth ctx type"
  by (simp add: getTypeNativeVectorWidth_def)

lemma parallelPositions_less: "op_shape_ok ir g s \<Longrightarrow> i \<in> set (parallelPositions s) \<Longrightarrow> i < length (os_dims s)"
  by (auto simp: parallelPositions_def op_shape_ok_position_less)

lemma parallelPositions_eq:
  assumes "op_shape_ok ir g s"
  shows "parallelPositions s = filter (\<lambda>i. iteratorType (os_dims s ! i) = parallel) [0..<length (os_dims s)]"
proof -
  have pos: "map ld_position (os_dims s) = [0..<length (os_dims s)]" using assms by (simp add: op_shape_ok_def)
  have ds: "os_dims s = map ((!) (os_dims s)) [0..<length (os_dims s)]" by (simp add: map_nth)
  have "map ld_position (filter (\<lambda>d. iteratorType d = parallel) (map ((!) (os_dims s)) [0..<length (os_dims s)]))
      = filter (\<lambda>i. iteratorType (os_dims s ! i) = parallel) [0..<length (os_dims s)]"
    by (simp add: filter_map o_def)
      (rule map_idI, simp add: op_shape_ok_position [OF assms])
  then show ?thesis unfolding parallelPositions_def ds [symmetric] .
qed

lemma parallelPositions_distinct: "op_shape_ok ir g s \<Longrightarrow> distinct (parallelPositions s)"
  by (simp add: parallelPositions_eq)

lemma parallelPositions_set:
  "op_shape_ok ir g s \<Longrightarrow>
   set (parallelPositions s) = {i. i < length (os_dims s) \<and> iteratorType (os_dims s ! i) = parallel}"
  by (auto simp: parallelPositions_eq)

lemma length_unit_tiles [simp]: "length (unit_tiles ds ts) = length ts"
  by (simp add: unit_tiles_def)

lemma unit_tiles_tiles_ok: "tiles_ok n ts \<Longrightarrow> tiles_ok n (unit_tiles ds ts)"
  unfolding unit_tiles_def by (rule tiles_ok_fold_update) auto

lemma unit_tiles_nth:
  "distinct ds \<Longrightarrow> i < length ts \<Longrightarrow>
   unit_tiles ds ts ! i = (if i \<in> set (butlast ds) then TileDecision 1 else ts ! i)"
  using fold_update_nth [of i ts "\<lambda>d. d" "butlast ds" "\<lambda>_. TileDecision 1"]
  by (cases "find (\<lambda>d. d = i) (butlast ds)")
    (auto simp: unit_tiles_def find_None_iff find_Some_iff distinct_butlast)

text \<open>A dimension of a well-formed shape has a non-negative or dynamic extent.\<close>

lemma extent_ok:
  "op_shape_ok ir g s \<Longrightarrow> i < length (os_dims s) \<Longrightarrow>
   isDynamic (staticExtent (os_dims s ! i)) \<or> 0 \<le> staticExtent (os_dims s ! i)"
  by (simp add: op_shape_ok_def)

lemma inferInnermost_tiles_ok:
  assumes "op_shape_ok ir g s"
  shows "tiles_ok (length (os_dims s)) (inferInnermostParallelComputeTile ir' ctx s op)"
proof -
  have "0 \<le> (if isDynamic b then w else min b w)"
    if "parallelPositions s \<noteq> []" "b = staticExtent (os_dims s ! last (parallelPositions s))"
      "w = getTypeNativeVectorWidth ctx ty" for b w ty
    using extent_ok [OF assms parallelPositions_less [OF assms last_in_set [OF that(1)]]]
      vectorWidth_pos [of ctx ty] that by auto
  then show ?thesis
    by (auto simp: inferInnermostParallelComputeTile_def Let_def split: option.split
        intro!: tiles_ok_update unit_tiles_tiles_ok)
qed

section \<open>Properties\<close>

text \<open>
  C37: the tiling factor. Without a positive preference it is 0, and a dynamic bound keeps the
  preference. Otherwise, when some multiple of the required alignment that divides the bound is
  within the preference, it is the largest such divisor; when there is none it is the smaller of
  bound and preference.
\<close>

theorem chooseStaticTilingFactor_correct:
  "let r = chooseStaticTilingFactor b preferred m; step = max 1 m
   in if preferred \<le> 0 then r = 0
      else if isDynamic b then r = preferred
      else if 0 < b \<and> step dvd b \<and> step \<le> preferred then best_factor b preferred step r
      else r = min b preferred \<and> (0 < b \<longrightarrow> (\<nexists>d. d dvd b \<and> step dvd d \<and> 0 < d \<and> d \<le> preferred))"
proof -
  have none: "\<nexists>d. d dvd b \<and> max 1 m dvd d \<and> 0 < d \<and> d \<le> preferred"
    if "0 < b" "\<not> (0 < b \<and> max 1 m dvd b \<and> max 1 m \<le> preferred)"
  proof
    assume "\<exists>d. d dvd b \<and> max 1 m dvd d \<and> 0 < d \<and> d \<le> preferred"
    then obtain d where d: "d dvd b" "max 1 m dvd d" "0 < d" "d \<le> preferred" by blast
    then have "max 1 m dvd b" by (blast intro: dvd_trans)
    moreover have "max 1 m \<le> d" using d by (intro zdvd_imp_le)
    ultimately show False using that d(4) by auto
  qed
  show ?thesis
  proof (cases "0 < preferred \<and> \<not> isDynamic b \<and> \<not> (0 < b \<and> max 1 m dvd b \<and> max 1 m \<le> preferred)")
    case True
    then show ?thesis using none
      by (auto simp: Let_def chooseStaticTilingFactor_def mod_eq_0_iff_dvd)
  next
    case False
    then consider "preferred \<le> 0" | "0 < preferred" "isDynamic b"
      | "0 < preferred" "\<not> isDynamic b" "0 < b \<and> max 1 m dvd b \<and> max 1 m \<le> preferred" by fastforce
    then show ?thesis
    proof cases
      case 3
      then have "best_factor b preferred (max 1 m) (chooseStaticTilingFactor b preferred m)"
        by (intro chooseStaticTilingFactor_best) auto
      with 3 show ?thesis unfolding Let_def by auto
    qed (simp_all add: Let_def chooseStaticTilingFactor_def)
  qed
qed

theorem chooseStaticTilingFactor_correct_witness:
  "best_factor 12 8 2 (chooseStaticTilingFactor 12 8 2)"
  using chooseStaticTilingFactor_correct [of 12 8 2] by (simp add: Let_def isDynamic_def kDynamic_def)

text \<open>Of an increasing list, the elements but the last are those below some other element.\<close>

lemma increasing_butlast:
  "sorted_wrt (<) xs \<Longrightarrow> i \<in> set (butlast xs) \<longleftrightarrow> i \<in> set xs \<and> (\<exists>j\<in>set xs. i < j)"
  for xs :: "nat list"
  by (induction xs rule: rev_induct) (auto simp: sorted_wrt_append)

lemma increasing_last:
  "sorted_wrt (<) xs \<Longrightarrow> i \<in> set xs \<Longrightarrow> \<not> (\<exists>j\<in>set xs. i < j) \<Longrightarrow> i = last xs"
  for xs :: "nat list"
  by (induction xs rule: rev_induct) (auto simp: sorted_wrt_append)

lemma inferInnermost_nth:
  assumes ok: "op_shape_ok ir g s" and ty: "getDefaultVectorType ir' op = Some ty"
    and i: "i < length (os_dims s)"
  shows "td_size (inferInnermostParallelComputeTile ir' ctx s op ! i) =
    (let d = os_dims s ! i; width = getTypeNativeVectorWidth ctx ty
     in if iteratorType d \<noteq> parallel then 0
        else if \<exists>j>i. j < length (os_dims s) \<and> iteratorType (os_dims s ! j) = parallel then 1
        else if isDynamic (staticExtent d) then width else min (staticExtent d) width)"
proof -
  let ?ps = "parallelPositions s"
  note mem = parallelPositions_set [OF ok]
  have inc: "sorted_wrt (<) ?ps"
    by (simp add: parallelPositions_eq [OF ok] sorted_wrt_filter)
  have dist: "distinct ?ps" using parallelPositions_distinct [OF ok] .
  have but: "i \<in> set (butlast ?ps) \<longleftrightarrow> iteratorType (os_dims s ! i) = parallel \<and>
      (\<exists>j>i. j < length (os_dims s) \<and> iteratorType (os_dims s ! j) = parallel)"
    using increasing_butlast [OF inc, of i] i by (auto simp: mem)
  consider (Red) "i \<notin> set ?ps" | (Outer) "i \<in> set (butlast ?ps)" "i \<in> set ?ps" "i \<noteq> last ?ps"
    | (Inner) "i = last ?ps" "?ps \<noteq> []" "i \<in> set ?ps" "i \<notin> set (butlast ?ps)"
    using increasing_last [OF inc, of i] increasing_butlast [OF inc, of i] increasing_butlast [OF inc, of "last ?ps"]
      dist by (metis append_butlast_last_id distinct_append disjoint_iff empty_iff in_set_butlastD
        list.set(1) list.set_intros(1))
  then show ?thesis
  proof cases
    case Red
    then have "?ps \<noteq> [] \<longrightarrow> i \<noteq> last ?ps" by auto
    moreover have "i \<notin> set (butlast ?ps)" using Red by (auto dest: in_set_butlastD)
    ultimately show ?thesis using Red i ty
      by (auto simp: inferInnermostParallelComputeTile_def Let_def unit_tiles_nth [OF dist] mem)
  next
    case Outer
    then have "1 < length ?ps" by (cases ?ps rule: rev_cases) auto
    with Outer show ?thesis using i ty but
      by (auto simp: inferInnermostParallelComputeTile_def Let_def unit_tiles_nth [OF dist])
  next
    case Inner
    with i ty but mem show ?thesis
      by (auto simp: inferInnermostParallelComputeTile_def Let_def)
  qed
qed

text \<open>
  The default compute tile of an operation with a result or operand type: the innermost
  parallel dimension gets one native vector (or its whole, smaller extent), every other parallel
  dimension gets 1, and reductions stay untiled.
\<close>

theorem inferInnermostParallelComputeTile_correct:
  assumes "op_shape_ok ir g s" and "getDefaultVectorType ir' op = Some ty"
    and "i < length (os_dims s)"
  shows "td_size (inferInnermostParallelComputeTile ir' ctx s op ! i) =
    (let d = os_dims s ! i; width = getTypeNativeVectorWidth ctx ty
     in if iteratorType d \<noteq> parallel then 0
        else if \<exists>j>i. j < length (os_dims s) \<and> iteratorType (os_dims s ! j) = parallel then 1
        else if isDynamic (staticExtent d) then width else min (staticExtent d) width)"
  by (rule inferInnermost_nth [OF assms])

theorem inferInnermostParallelComputeTile_correct_witness:
  "td_size (inferInnermostParallelComputeTile sample_ir sample_context sample_fill_shape 1 ! 1) = 32"
proof -
  have "op_shape_ok sample_ir 3 sample_fill_shape"
    by (simp add: op_shape_ok_def sample_simps upt_rec)
  then show ?thesis
    using inferInnermostParallelComputeTile_correct [of sample_ir 3 sample_fill_shape sample_ir 1
        "f32_tensor 2" 1 sample_context]
    by (simp add: getDefaultVectorType_def sample_simps getTypeNativeVectorWidth_def isDynamic_def
        kDynamic_def Let_def less_Suc_eq)
qed

end
