(* ===== verification/Strategies.thy ===== *)
theory Strategies
  imports Strategy_Support
begin

text \<open>
  The dispatch strategies and per-operation compute-tile policies
  (\<open>CodeGen/Strategy/Planning/Strategies/*.cpp\<close>) and their selection
  (\<open>StrategySelection.cpp\<close>, \<open>ComputeTileSelection.cpp\<close>). A selector fails, does not match or
  selects; a failed C++ assertion is a value of its own.
\<close>

datatype 'a select = AssertFailed | Failed | NoMatch | Selected 'a

text \<open>\<open>getRootShape\<close> inside a selector: a failed assertion ends it.\<close>

definition with_root_shape :: "dispatch_shape \<Rightarrow> (op_shape \<Rightarrow> 'a select) \<Rightarrow> 'a select" where
  "with_root_shape dispatchShape f =
     (case getRootShape dispatchShape of None \<Rightarrow> AssertFailed | Some shape \<Rightarrow> f shape)"

text \<open>\<open>dyn_cast_or_null<LinalgOp>(root)\<close>.\<close>

definition isLinalgRoot :: "planner_ir \<Rightarrow> dispatch_shape \<Rightarrow> bool" where
  "isLinalgRoot ir dispatchShape \<longleftrightarrow> ds_root dispatchShape \<noteq> 0 \<and> isLinalgOp ir (ds_root dispatchShape)"

text \<open>A strategy that only sets the pipeline, the peeling request and the three root tiles.\<close>

definition make_strategy ::
  "lowering_pipeline \<Rightarrow> bool \<Rightarrow> tile_decision list \<Rightarrow> tile_decision list \<Rightarrow> tile_decision list \<Rightarrow>
   dispatch_strategy" where
  "make_strategy pipeline peel distribution cache compute =
     \<lparr>st_pipeline = pipeline, requestLoopPeeling = peel,
      rootTiling = empty_root_tiling\<lparr>distributionTile := distribution, cacheTile := cache,
        rt_computeTile := compute\<rparr>\<rparr>"

section \<open>Buffer copies\<close>

definition isBufferLikeCopy :: "planner_ir \<Rightarrow> nat \<Rightarrow> bool" where
  "isBufferLikeCopy ir op \<longleftrightarrow> hasPureBufferSemantics ir op \<and> isaCopyOp ir op"

definition inferBufferCopyComputeTile ::
  "planner_ir \<Rightarrow> planning_context \<Rightarrow> op_shape \<Rightarrow> nat \<Rightarrow> tile_decision list" where
  "inferBufferCopyComputeTile ir ctx shape op = inferInnermostParallelComputeTile ir ctx shape op"

definition selectBufferCopyStrategy ::
  "planner_ir \<Rightarrow> planning_context \<Rightarrow> dispatch_shape \<Rightarrow> dispatch_strategy select" where
  "selectBufferCopyStrategy ir ctx dispatchShape =
     (if \<not> isLinalgRoot ir dispatchShape \<or> \<not> isBufferLikeCopy ir (ds_root dispatchShape) then NoMatch
      else with_root_shape dispatchShape (\<lambda>shape.
        let compute = inferBufferCopyComputeTile ir ctx shape (ds_root dispatchShape)
        in Selected (make_strategy BufferOpsTileAndVectorize False compute
             (noTiles (length (os_dims shape))) compute)))"

definition selectBufferCopyComputeTile ::
  "planner_ir \<Rightarrow> planning_context \<Rightarrow> dispatch_strategy \<Rightarrow> op_shape \<Rightarrow> op_compute_tile_plan select" where
  "selectBufferCopyComputeTile ir ctx strategy opShape =
     (if \<not> isLinalgOp ir (os_op opShape) \<or> \<not> isBufferLikeCopy ir (os_op opShape) then NoMatch
      else Selected \<lparr>op_op = os_op opShape,
        op_computeTile = inferBufferCopyComputeTile ir ctx opShape (os_op opShape)\<rparr>)"

section \<open>Convolutions\<close>

definition is2DConv :: "planner_ir \<Rightarrow> nat \<Rightarrow> bool" where
  "is2DConv ir op \<longleftrightarrow> isaConvolutionOpOfType ir Conv2DNhwcHwcf op \<or> isaConvolutionOpOfType ir Conv2DNchwFchw op"

definition is2DDepthwiseConv :: "planner_ir \<Rightarrow> nat \<Rightarrow> bool" where
  "is2DDepthwiseConv ir op \<longleftrightarrow> isaConvolutionOpOfType ir DepthwiseConv2DNhwcHwc op"

definition is2DPooling :: "planner_ir \<Rightarrow> nat \<Rightarrow> bool" where
  "is2DPooling ir op \<longleftrightarrow>
     list_ex (\<lambda>k. isaConvolutionOpOfType ir k op)
       [PoolingNhwcSum, PoolingNhwcMax, PoolingNhwcMaxUnsigned, PoolingNhwcMin,
        PoolingNhwcMinUnsigned, PoolingNchwSum, PoolingNchwMax]"

definition isNchw :: "planner_ir \<Rightarrow> nat \<Rightarrow> bool" where
  "isNchw ir op \<longleftrightarrow>
     isaConvolutionOpOfType ir Conv2DNchwFchw op \<or> isaConvolutionOpOfType ir PoolingNchwSum op \<or>
     isaConvolutionOpOfType ir PoolingNchwMax op"

definition isSupportedConvolution :: "planner_ir \<Rightarrow> nat \<Rightarrow> bool" where
  "isSupportedConvolution ir op \<longleftrightarrow> is2DConv ir op \<or> is2DDepthwiseConv ir op \<or> is2DPooling ir op"

definition getConvolutionVectorType :: "planner_ir \<Rightarrow> nat \<Rightarrow> ir_type option" where
  "getConvolutionVectorType ir op =
     (if opResults ir op \<noteq> [] then Some (typeOf ir (opResults ir op ! 0))
      else if opOperands ir op \<noteq> [] then Some (typeOf ir (opOperands ir op ! 0))
      else None)"

definition convolutionPreferred :: "planner_ir \<Rightarrow> nat \<Rightarrow> int \<Rightarrow> int list" where
  "convolutionPreferred ir op vectorWidth =
     (let preferred = (if is2DConv ir op then [1, 1, vectorWidth, vectorWidth, 1, 1, vectorWidth]
                       else [1, 1, vectorWidth, vectorWidth, 1, vectorWidth])
      in if isNchw ir op then
           map (\<lambda>oldPosition. preferred ! oldPosition)
             (if is2DConv ir op then [0, 3, 1, 2, 6, 4, 5] else [0, 3, 1, 2, 4, 5])
         else preferred)"

definition inferConvolutionDistributionTile ::
  "planner_ir \<Rightarrow> planning_context \<Rightarrow> op_shape \<Rightarrow> nat \<Rightarrow> tile_decision list" where
  "inferConvolutionDistributionTile ir ctx shape op =
     (let tiles = noTiles (length (os_dims shape))
      in case getConvolutionVectorType ir op of None \<Rightarrow> tiles
         | Some vectorType \<Rightarrow>
             let preferred = convolutionPreferred ir op (getTypeNativeVectorWidth ctx vectorType)
             in fold (\<lambda>dimension tiles.
                  if iteratorType dimension \<noteq> parallel then tiles
                  else let target = (if ld_position dimension < length preferred
                                     then preferred ! ld_position dimension else 1)
                       in tiles[ld_position dimension :=
                            TileDecision (chooseStaticTilingFactor (staticExtent dimension) target 1)])
                (os_dims shape) tiles)"

text \<open>
  \<open>inferConvolutionComputeTile\<close>: \<open>None\<close> when one of its assertions fails (a single init, a
  non-scalar result whose innermost index is a plain dimension).
\<close>

definition inferConvolutionComputeTile ::
  "planner_ir \<Rightarrow> planning_context \<Rightarrow> op_shape \<Rightarrow> nat \<Rightarrow> tile_decision list option" where
  "inferConvolutionComputeTile ir ctx shape op =
     (let tiles = inferConvolutionDistributionTile ir ctx shape op
      in if length (dpsInits ir op) \<noteq> 1 then None
         else let resultMap = operandMaps ir op ! (dpsInits ir op ! 0)
              in if getResults resultMap = [] then None
                 else case last (getResults resultMap) of
                        OtherAffineExpr \<Rightarrow> None
                      | AffineDimExpr innermost \<Rightarrow>
                          Some (fold (\<lambda>dimension tiles.
                            if iteratorType dimension \<noteq> parallel \<or> ld_position dimension = innermost
                            then tiles
                            else if td_size (tiles ! ld_position dimension) \<noteq> 1
                            then tiles[ld_position dimension := TileDecision 1]
                            else tiles)
                          (os_dims shape) tiles))"

definition selectConvolutionStrategy ::
  "planner_ir \<Rightarrow> planning_context \<Rightarrow> dispatch_shape \<Rightarrow> dispatch_strategy select" where
  "selectConvolutionStrategy ir ctx dispatchShape =
     (if \<not> isLinalgRoot ir dispatchShape \<or> \<not> isSupportedConvolution ir (ds_root dispatchShape) then NoMatch
      else with_root_shape dispatchShape (\<lambda>shape.
        case inferConvolutionComputeTile ir ctx shape (ds_root dispatchShape) of
          None \<Rightarrow> AssertFailed
        | Some compute \<Rightarrow>
            Selected (make_strategy ConvTileAndDecomposeExpert False
              (inferConvolutionDistributionTile ir ctx shape (ds_root dispatchShape))
              (noTiles (length (os_dims shape))) compute)))"

definition selectConvolutionComputeTile ::
  "planner_ir \<Rightarrow> planning_context \<Rightarrow> dispatch_strategy \<Rightarrow> op_shape \<Rightarrow> op_compute_tile_plan select" where
  "selectConvolutionComputeTile ir ctx strategy opShape =
     (if \<not> isLinalgOp ir (os_op opShape) \<or> \<not> isSupportedConvolution ir (os_op opShape) then NoMatch
      else case inferConvolutionComputeTile ir ctx opShape (os_op opShape) of
             None \<Rightarrow> AssertFailed
           | Some compute \<Rightarrow> Selected \<lparr>op_op = os_op opShape, op_computeTile = compute\<rparr>)"

section \<open>Contractions\<close>

definition kCacheTileCap :: int where
  "kCacheTileCap = 64"

definition analyzeSupportedContraction :: "planner_ir \<Rightarrow> nat \<Rightarrow> contraction_dims option" where
  "analyzeSupportedContraction ir op =
     (case inferContractionDims ir op of None \<Rightarrow> None
      | Some dimensions \<Rightarrow>
          if length (cd_m dimensions) \<noteq> 1 \<or> length (cd_n dimensions) \<noteq> 1 \<or>
             length (cd_k dimensions) \<noteq> 1 \<or> 1 < length (cd_batch dimensions)
          then None else Some dimensions)"

text \<open>Whether the first input indexed by N has K as its innermost index.\<close>

definition transposedRhs :: "planner_ir \<Rightarrow> nat \<Rightarrow> nat \<Rightarrow> nat \<Rightarrow> bool" where
  "transposedRhs ir op n k =
     (case find (\<lambda>m. AffineDimExpr n \<in> set (getResults m)) (take (length (dpsInputs ir op)) (operandMaps ir op)) of
        None \<Rightarrow> False
      | Some m \<Rightarrow> last (getResults m) = AffineDimExpr k)"

definition inferContractionComputeTile ::
  "planner_ir \<Rightarrow> planning_context \<Rightarrow> op_shape \<Rightarrow> nat \<Rightarrow> contraction_dims \<Rightarrow> bool \<Rightarrow>
   tile_decision list option" where
  "inferContractionComputeTile ir ctx shape op dimensions useHmx =
     (if dpsInits ir op = [] then None
      else
        let tiles = noTiles (length (os_dims shape));
            m = hd (cd_m dimensions); n = hd (cd_n dimensions); k = hd (cd_k dimensions);
            vectorWidth = getTypeNativeVectorWidth ctx (operandType ir op (dpsInits ir op ! 0));
            transposed = transposedRhs ir op n k;
            mTile = (if transposed then 1 else 8);
            nTile = (if transposed then 1 else vectorWidth);
            kTile = (if transposed then vectorWidth else min 8 vectorWidth);
            tiles = fold (\<lambda>batch tiles. tiles[batch := TileDecision 1]) (cd_batch dimensions) tiles
        in if useHmx then
             Some (tiles[m := \<lparr>td_size = hmxM (pc_target ctx), hardwareFixed = True\<rparr>,
                         n := \<lparr>td_size = hmxN (pc_target ctx), hardwareFixed = True\<rparr>])
           else
             let nBound = staticExtent (os_dims shape ! n)
             in Some (tiles[m := TileDecision (chooseStaticTilingFactor (staticExtent (os_dims shape ! m)) mTile 1),
                            n := TileDecision (if isDynamic nBound then nTile else min nBound nTile),
                            k := TileDecision (chooseStaticTilingFactor (staticExtent (os_dims shape ! k)) kTile 1)]))"

definition hasHmxElementTypes :: "planner_ir \<Rightarrow> nat \<Rightarrow> bool" where
  "hasHmxElementTypes ir op \<longleftrightarrow>
     length (dpsInits ir op) = 1 \<and>
     (let outputType = operandType ir op (dpsInits ir op ! 0)
      in (isF16 outputType \<or> isF32 outputType) \<and>
         list_all (\<lambda>i. isF16 (operandType ir op i)) (dpsInputs ir op))"

definition isHmxCandidateContraction :: "planner_ir \<Rightarrow> nat \<Rightarrow> bool" where
  "isHmxCandidateContraction ir op \<longleftrightarrow>
     isaContractionOp ir op \<and> analyzeSupportedContraction ir op \<noteq> None \<and> hasHmxElementTypes ir op"

text \<open>\<open>AffineMap::getResultPosition\<close>: the first result equal to a dimension.\<close>

definition getResultPosition :: "affine_map \<Rightarrow> nat \<Rightarrow> nat option" where
  "getResultPosition am d = find (\<lambda>i. getResults am ! i = AffineDimExpr d) [0..<length (getResults am)]"

definition isHmxLowerableMatmul :: "planner_ir \<Rightarrow> nat \<Rightarrow> bool" where
  "isHmxLowerableMatmul ir op \<longleftrightarrow>
     (isMatmulOp ir op \<or> isBatchMatmulOp ir op) \<and> hasHmxElementTypes ir op \<and>
     (case analyzeSupportedContraction ir op of None \<Rightarrow> False
      | Some dimensions \<Rightarrow>
          let outputMap = operandMaps ir op ! (dpsInits ir op ! 0)
          in case (getResultPosition outputMap (hd (cd_m dimensions)),
                   getResultPosition outputMap (hd (cd_n dimensions))) of
               (Some m, Some n) \<Rightarrow> m < n
             | _ \<Rightarrow> False)"

definition selectHmxStrategy ::
  "planner_ir \<Rightarrow> planning_context \<Rightarrow> dispatch_shape \<Rightarrow> dispatch_strategy select" where
  "selectHmxStrategy ir ctx dispatchShape =
     (let root = ds_root dispatchShape
      in if \<not> enableHmxMatmul (pc_options ctx) then NoMatch
         else if \<not> isLinalgRoot ir dispatchShape \<or> \<not> isHmxCandidateContraction ir root then NoMatch
         else if \<not> isHmxLowerableMatmul ir root then NoMatch
         else case analyzeSupportedContraction ir root of
                None \<Rightarrow> AssertFailed
              | Some dimensions \<Rightarrow>
                  with_root_shape dispatchShape (\<lambda>shape.
                    case inferContractionComputeTile ir ctx shape root dimensions True of
                      None \<Rightarrow> AssertFailed
                    | Some compute \<Rightarrow>
                        let rank = length (os_dims shape);
                            base = make_strategy HmxMatmulExpert False (noTiles rank) (noTiles rank) compute;
                            hmx = fold (\<lambda>batch tiles. tiles[batch := \<lparr>td_size = 1, hardwareFixed = True\<rparr>])
                                    (cd_batch dimensions) (noTiles rank)
                        in Selected (base\<lparr>rootTiling := (rootTiling base)\<lparr>hmxTile := hmx\<rparr>\<rparr>)))"

definition selectContractionStrategy ::
  "planner_ir \<Rightarrow> planning_context \<Rightarrow> dispatch_shape \<Rightarrow> dispatch_strategy select" where
  "selectContractionStrategy ir ctx dispatchShape =
     (let root = ds_root dispatchShape
      in if \<not> isLinalgRoot ir dispatchShape \<or> \<not> isaContractionOp ir root then NoMatch
         else case analyzeSupportedContraction ir root of
                None \<Rightarrow> NoMatch
              | Some dimensions \<Rightarrow>
                  with_root_shape dispatchShape (\<lambda>shape.
                    case inferContractionComputeTile ir ctx shape root dimensions False of
                      None \<Rightarrow> AssertFailed
                    | Some compute \<Rightarrow>
                        let rank = length (os_dims shape);
                            cache = fold (\<lambda>batch tiles. tiles[batch := TileDecision 1])
                                      (cd_batch dimensions) (noTiles rank);
                            cache = fold (\<lambda>d tiles. tiles[d := TileDecision
                                        (chooseStaticTilingFactor (staticExtent (os_dims shape ! d)) kCacheTileCap 1)])
                                      [hd (cd_m dimensions), hd (cd_n dimensions)] cache
                        in Selected (make_strategy MultiTilingExpert (hasPureTensorSemantics ir root)
                             (noTiles rank) cache compute)))"

definition makeHexagonDefaultStrategy :: "dispatch_shape \<Rightarrow> dispatch_strategy" where
  "makeHexagonDefaultStrategy dispatchShape =
     (case findOpShape dispatchShape (ds_root dispatchShape) of
        None \<Rightarrow> default_strategy
      | Some shape \<Rightarrow>
          let zero = noTiles (length (os_dims shape))
          in make_strategy PipelineDefault False zero zero zero)"

definition selectUnsupportedContractionFallback ::
  "planner_ir \<Rightarrow> planning_context \<Rightarrow> dispatch_shape \<Rightarrow> dispatch_strategy select" where
  "selectUnsupportedContractionFallback ir ctx dispatchShape =
     (let root = ds_root dispatchShape
      in if \<not> isLinalgRoot ir dispatchShape \<or> \<not> isaContractionOp ir root \<or>
            analyzeSupportedContraction ir root \<noteq> None then NoMatch
         else Selected (makeHexagonDefaultStrategy dispatchShape))"

definition selectContractionComputeTile ::
  "planner_ir \<Rightarrow> planning_context \<Rightarrow> dispatch_strategy \<Rightarrow> op_shape \<Rightarrow> op_compute_tile_plan select" where
  "selectContractionComputeTile ir ctx strategy opShape =
     (let op = os_op opShape
      in if \<not> isLinalgOp ir op \<or> \<not> isaContractionOp ir op then NoMatch
         else case analyzeSupportedContraction ir op of None \<Rightarrow> NoMatch
              | Some dimensions \<Rightarrow>
                  let useHmx = (st_pipeline strategy = HmxMatmulExpert \<and> hasHmxElementTypes ir op)
                  in case inferContractionComputeTile ir ctx opShape op dimensions useHmx of
                       None \<Rightarrow> AssertFailed
                     | Some compute \<Rightarrow> Selected \<lparr>op_op = op, op_computeTile = compute\<rparr>)"

section \<open>Generic operations\<close>

definition makeBaseStrategy :: "op_shape \<Rightarrow> dispatch_strategy" where
  "makeBaseStrategy shape =
     make_strategy MultiTilingExpert False (noTiles (length (os_dims shape)))
       (noTiles (length (os_dims shape))) []"

text \<open>\<open>-1\<close>, no reduction, is \<open>None\<close>; a missing operand 0 is a failed assertion.\<close>

definition innermostReduction :: "op_shape \<Rightarrow> nat option" where
  "innermostReduction shape =
     fold (\<lambda>d acc. if iteratorType d = reduction then Some (ld_position d) else acc) (os_dims shape) None"

definition inferGenericComputeTile ::
  "planner_ir \<Rightarrow> planning_context \<Rightarrow> op_shape \<Rightarrow> nat \<Rightarrow> tile_decision list option" where
  "inferGenericComputeTile ir ctx shape op =
     (if dpsInits ir op = [] \<and> opOperands ir op = [] then None
      else
        let rank = length (os_dims shape);
            resultType = (if dpsInits ir op \<noteq> [] then operandType ir op (dpsInits ir op ! 0)
                          else operandType ir op 0);
            vectorWidth = getTypeNativeVectorWidth ctx resultType;
            parallelDimensions = parallelPositions shape;
            vectorizeReduction = (2 \<le> length parallelDimensions \<and>
              (case innermostReduction shape of None \<Rightarrow> False | Some r \<Rightarrow> r = rank - 1));
            tiles = noTiles rank;
            tiles = (if parallelDimensions = [] then tiles
              else let innermost = last parallelDimensions;
                       bound = staticExtent (os_dims shape ! innermost)
                   in (unit_tiles parallelDimensions tiles)[innermost := TileDecision
                        (if vectorizeReduction then 1
                         else if isDynamic bound then vectorWidth else min bound vectorWidth)])
        in Some (case innermostReduction shape of None \<Rightarrow> tiles
             | Some r \<Rightarrow>
                 tiles[r := TileDecision (chooseStaticTilingFactor (staticExtent (os_dims shape ! r))
                   (if vectorizeReduction then vectorWidth else 8) 1)]))"

definition selectGenericStrategy ::
  "planner_ir \<Rightarrow> planning_context \<Rightarrow> dispatch_shape \<Rightarrow> dispatch_strategy select" where
  "selectGenericStrategy ir ctx dispatchShape =
     (let root = ds_root dispatchShape
      in if root = 0 \<or> \<not> isGenericOp ir root then NoMatch
         else with_root_shape dispatchShape (\<lambda>shape.
           case inferGenericComputeTile ir ctx shape root of
             None \<Rightarrow> AssertFailed
           | Some compute \<Rightarrow>
               let base = makeBaseStrategy shape;
                   parallelDimensions = parallelPositions shape;
                   cache = (if 1 < length parallelDimensions then
                       fold (\<lambda>d tiles. tiles[d := TileDecision
                           (chooseStaticTilingFactor (staticExtent (os_dims shape ! d)) kCacheTileCap 1)])
                         (butlast parallelDimensions) (cacheTile (rootTiling base))
                     else cacheTile (rootTiling base))
               in Selected (base\<lparr>requestLoopPeeling := hasPureTensorSemantics ir root,
                    rootTiling := (rootTiling base)\<lparr>cacheTile := cache, rt_computeTile := compute\<rparr>\<rparr>)))"

definition selectGenericComputeTile ::
  "planner_ir \<Rightarrow> planning_context \<Rightarrow> dispatch_strategy \<Rightarrow> op_shape \<Rightarrow> op_compute_tile_plan select" where
  "selectGenericComputeTile ir ctx strategy opShape =
     (if \<not> isGenericOp ir (os_op opShape) then NoMatch
      else case inferGenericComputeTile ir ctx opShape (os_op opShape) of
             None \<Rightarrow> AssertFailed
           | Some compute \<Rightarrow> Selected \<lparr>op_op = os_op opShape, op_computeTile = compute\<rparr>)"

section \<open>Any other tileable operation\<close>

definition isTileable :: "planner_ir \<Rightarrow> nat \<Rightarrow> bool" where
  "isTileable ir op \<longleftrightarrow> isTilingInterface ir op \<and> loopIteratorTypes ir op \<noteq> []"

definition selectDefaultTilingInterfaceStrategy ::
  "planner_ir \<Rightarrow> planning_context \<Rightarrow> dispatch_shape \<Rightarrow> dispatch_strategy select" where
  "selectDefaultTilingInterfaceStrategy ir ctx dispatchShape =
     (let root = ds_root dispatchShape
      in if root = 0 \<or> \<not> isTileable ir root then NoMatch
         else with_root_shape dispatchShape (\<lambda>shape.
           let zero = noTiles (length (os_dims shape));
               compute = inferInnermostParallelComputeTile ir ctx shape root
           in Selected (make_strategy
                (if isLinalgOp ir root then MultiTilingExpert else PipelineDefault)
                (isLinalgOp ir root \<and> hasPureTensorSemantics ir root) zero zero compute)))"

definition selectDefaultTilingInterfaceComputeTile ::
  "planner_ir \<Rightarrow> planning_context \<Rightarrow> dispatch_strategy \<Rightarrow> op_shape \<Rightarrow> op_compute_tile_plan select" where
  "selectDefaultTilingInterfaceComputeTile ir ctx strategy opShape =
     (if \<not> isTileable ir (os_op opShape) then NoMatch
      else Selected \<lparr>op_op = os_op opShape,
        op_computeTile = inferInnermostParallelComputeTile ir ctx opShape (os_op opShape)\<rparr>)"

section \<open>Selection\<close>

text \<open>The loop over candidates: the first that does not answer \<open>NoMatch\<close> decides.\<close>

fun first_match :: "'a select list \<Rightarrow> 'a select" where
  "first_match [] = NoMatch"
| "first_match (s # ss) = (case s of NoMatch \<Rightarrow> first_match ss | _ \<Rightarrow> s)"

definition candidates ::
  "(planner_ir \<Rightarrow> planning_context \<Rightarrow> dispatch_shape \<Rightarrow> dispatch_strategy select) list" where
  "candidates = [selectBufferCopyStrategy, selectConvolutionStrategy, selectHmxStrategy,
     selectContractionStrategy, selectUnsupportedContractionFallback, selectGenericStrategy,
     selectDefaultTilingInterfaceStrategy]"

definition selectDispatchStrategy ::
  "planner_ir \<Rightarrow> planning_context \<Rightarrow> dispatch_shape \<Rightarrow> dispatch_strategy select" where
  "selectDispatchStrategy ir ctx dispatchShape =
     (if findOpShape dispatchShape (ds_root dispatchShape) = None
      then Selected (makeHexagonDefaultStrategy dispatchShape)
      else case first_match (map (\<lambda>c. c ir ctx dispatchShape) candidates) of
             NoMatch \<Rightarrow> Selected (makeHexagonDefaultStrategy dispatchShape)
           | s \<Rightarrow> s)"

definition policies ::
  "(planner_ir \<Rightarrow> planning_context \<Rightarrow> dispatch_strategy \<Rightarrow> op_shape \<Rightarrow> op_compute_tile_plan select) list" where
  "policies = [selectBufferCopyComputeTile, selectConvolutionComputeTile, selectContractionComputeTile,
     selectGenericComputeTile, selectDefaultTilingInterfaceComputeTile]"

definition selectNonRootComputeTile ::
  "planner_ir \<Rightarrow> planning_context \<Rightarrow> dispatch_shape \<Rightarrow> dispatch_strategy \<Rightarrow> pipeline_contract \<Rightarrow>
   op_shape \<Rightarrow> op_compute_tile_plan select" where
  "selectNonRootComputeTile ir ctx dispatchShape strategy contract opShape =
     (if os_op opShape = ds_root dispatchShape then NoMatch
      else if \<not> supportsIndependentNonRootComputeTiles contract then NoMatch
      else first_match (map (\<lambda>p. p ir ctx strategy opShape) policies))"

section \<open>What the strategies rely on, and what they guarantee\<close>

text \<open>
  Documented behaviour of MLIR's operations: a contraction has an init and its dimensions are
  different loops of the operation; a convolution has one init, whose innermost index is a plain loop
  dimension; a \<open>linalg.generic\<close> has an operand; static loop ranges are not negative.
\<close>

definition ir_laws :: "planner_ir \<Rightarrow> bool" where
  "ir_laws ir \<longleftrightarrow>
     (\<forall>op. isaContractionOp ir op \<longrightarrow> dpsInits ir op \<noteq> []) \<and>
     (\<forall>op dims d. inferContractionDims ir op = Some dims \<longrightarrow>
        d \<in> set (cd_batch dims @ cd_m dims @ cd_n dims @ cd_k dims) \<longrightarrow> d < length (loopIteratorTypes ir op)) \<and>
     (\<forall>op dims. inferContractionDims ir op = Some dims \<longrightarrow>
        distinct (cd_batch dims @ cd_m dims @ cd_n dims @ cd_k dims)) \<and>
     (\<forall>op. isSupportedConvolution ir op \<longrightarrow> length (dpsInits ir op) = 1 \<and>
        (\<exists>rs d. getResults (operandMaps ir op ! (dpsInits ir op ! 0)) = rs @ [AffineDimExpr d])) \<and>
     (\<forall>op. isGenericOp ir op \<longrightarrow> dpsInits ir op \<noteq> [] \<or> opOperands ir op \<noteq> [])"

text \<open>The hardware tile sizes are not negative.\<close>

definition target_ok :: "planning_context \<Rightarrow> bool" where
  "target_ok ctx \<longleftrightarrow> 0 \<le> hmxM (pc_target ctx) \<and> 0 \<le> hmxN (pc_target ctx)"

definition all_zero :: "tile_decision list \<Rightarrow> bool" where
  "all_zero ts \<longleftrightarrow> (\<forall>t\<in>set ts. td_size t = 0)"

text \<open>
  A strategy that fits its root and its pipeline: tiles of the root's rank and not negative, and
  nothing the pipeline's contract would ignore or reject.
\<close>

definition strategy_ok :: "op_shape \<Rightarrow> dispatch_strategy \<Rightarrow> bool" where
  "strategy_ok shape s \<longleftrightarrow>
     (let rank = length (os_dims shape); root = rootTiling s
      in rt_vtcm root = None \<and>
         tiles_ok rank (distributionTile root) \<and> tiles_ok rank (cacheTile root) \<and>
         tiles_ok rank (rt_computeTile root) \<and> (hmxTile root = [] \<or> tiles_ok rank (hmxTile root)) \<and>
         (\<exists>contract. getPipelineContract (st_pipeline s) = Some contract \<and>
            (requestLoopPeeling s \<longrightarrow> loopPeeling contract = TranslationInfoControlled) \<and>
            (cacheParallel contract = Unused \<longrightarrow> all_zero (cacheTile root)) \<and>
            (hmxScope contract = Unused \<longrightarrow> all_zero (hmxTile root)) \<and>
            (\<not> usesConfiguredVectorSizes contract \<longrightarrow>
               all_zero (distributionTile root) \<and>
               (\<forall>i<rank. iteratorType (os_dims shape ! i) \<noteq> parallel \<longrightarrow> td_size (rt_computeTile root ! i) = 0))))"

lemma all_zero_noTiles [simp]: "all_zero (noTiles n)" "all_zero []"
  by (auto simp: all_zero_def dest: set_noTiles)

lemma getPipelineContract_simps:
  "getPipelineContract PipelineDefault = Some c \<Longrightarrow> loopPeeling c = PeelingUnsupported \<and>
     cacheParallel c = Unused \<and> hmxScope c = Unused \<and> \<not> usesConfiguredVectorSizes c"
  "getPipelineContract BufferOpsTileAndVectorize = Some c \<Longrightarrow> usesConfiguredVectorSizes c"
  by (auto simp: getPipelineContract_def default_contract_def)

lemma strategy_ok_make:
  assumes "tiles_ok (length (os_dims s)) d" "tiles_ok (length (os_dims s)) c" "tiles_ok (length (os_dims s)) t"
    and "pipeline = MultiTilingExpert \<or>
      pipeline \<in> {BufferOpsTileAndVectorize, ConvTileAndDecomposeExpert} \<and> \<not> peel \<and> all_zero c \<or>
      pipeline = PipelineDefault \<and> \<not> peel \<and> all_zero c \<and> all_zero d \<and>
        (\<forall>i<length (os_dims s). iteratorType (os_dims s ! i) \<noteq> parallel \<longrightarrow> td_size (t ! i) = 0)"
  shows "strategy_ok s (make_strategy pipeline peel d c t)"
  using assms
  by (auto simp: strategy_ok_def make_strategy_def empty_root_tiling_def getPipelineContract_def
      default_contract_def Let_def)

section \<open>Tiles of the strategies\<close>

lemma tiles_ok_fold:
  assumes "\<And>x ts. x \<in> set xs \<Longrightarrow> tiles_ok n ts \<Longrightarrow> tiles_ok n (f x ts)" and "tiles_ok n ts"
  shows "tiles_ok n (fold f xs ts)"
  using assms by (induction xs arbitrary: ts) auto

lemma extent_nonneg_in:
  "op_shape_ok ir g s \<Longrightarrow> d \<in> set (os_dims s) \<Longrightarrow> 0 \<le> chooseStaticTilingFactor (staticExtent d) p m"
  by (rule chooseStaticTilingFactor_nonneg) (simp add: op_shape_ok_def)

lemma inferConvolutionDistributionTile_ok:
  "op_shape_ok ir g s \<Longrightarrow> tiles_ok (length (os_dims s)) (inferConvolutionDistributionTile ir' ctx s op)"
  by (auto simp: inferConvolutionDistributionTile_def Let_def split: option.split
      intro!: tiles_ok_fold tiles_ok_update extent_nonneg_in)

lemma inferConvolutionComputeTile_ok:
  assumes "op_shape_ok ir g s" and "inferConvolutionComputeTile ir' ctx s op = Some ts"
  shows "tiles_ok (length (os_dims s)) ts"
  using assms inferConvolutionDistributionTile_ok [OF assms(1)]
  by (auto simp: inferConvolutionComputeTile_def Let_def split: if_splits affine_expr.splits
      intro!: tiles_ok_fold tiles_ok_update)

lemma inferConvolutionComputeTile_total:
  "ir_laws ir \<Longrightarrow> isSupportedConvolution ir op \<Longrightarrow> inferConvolutionComputeTile ir ctx s op \<noteq> None"
  by (fastforce simp: inferConvolutionComputeTile_def ir_laws_def Let_def)

lemma analyzeSupportedContraction_Some:
  assumes "analyzeSupportedContraction ir op = Some dims"
  shows "inferContractionDims ir op = Some dims" "length (cd_m dims) = 1" "length (cd_n dims) = 1"
    "length (cd_k dims) = 1" "length (cd_batch dims) \<le> 1"
  using assms by (auto simp: analyzeSupportedContraction_def split: option.splits if_splits)

lemma contraction_dims_less:
  assumes "ir_laws ir" and "analyzeSupportedContraction ir op = Some dims"
  shows "hd (cd_m dims) < length (loopIteratorTypes ir op)" "hd (cd_n dims) < length (loopIteratorTypes ir op)"
    "hd (cd_k dims) < length (loopIteratorTypes ir op)"
    "\<And>b. b \<in> set (cd_batch dims) \<Longrightarrow> b < length (loopIteratorTypes ir op)"
proof -
  note a = analyzeSupportedContraction_Some [OF assms(2)]
  have less: "d < length (loopIteratorTypes ir op)"
    if "d \<in> set (cd_batch dims @ cd_m dims @ cd_n dims @ cd_k dims)" for d
    using assms(1) a(1) that unfolding ir_laws_def by blast
  have "hd (cd_m dims) \<in> set (cd_m dims)" "hd (cd_n dims) \<in> set (cd_n dims)" "hd (cd_k dims) \<in> set (cd_k dims)"
    using a by (auto intro!: hd_in_set)
  with less show "hd (cd_m dims) < length (loopIteratorTypes ir op)"
    "hd (cd_n dims) < length (loopIteratorTypes ir op)" "hd (cd_k dims) < length (loopIteratorTypes ir op)"
    "\<And>b. b \<in> set (cd_batch dims) \<Longrightarrow> b < length (loopIteratorTypes ir op)" by simp_all
qed

lemma op_shape_rank: "op_shape_ok ir g s \<Longrightarrow> length (loopIteratorTypes ir (os_op s)) = length (os_dims s)"
  by (metis length_map op_shape_ok_def)

lemma inferContractionComputeTile_ok:
  assumes ok: "op_shape_ok ir g s" and laws: "ir_laws ir" and tgt: "target_ok ctx"
    and an: "analyzeSupportedContraction ir (os_op s) = Some dims"
    and inf: "inferContractionComputeTile ir ctx s (os_op s) dims hmx = Some ts"
  shows "tiles_ok (length (os_dims s)) ts"
proof -
  note rank = contraction_dims_less [OF laws an, unfolded op_shape_rank [OF ok]]
  have ext: "isDynamic (staticExtent (os_dims s ! i)) \<or> 0 \<le> staticExtent (os_dims s ! i)"
    if "i < length (os_dims s)" for i using extent_ok [OF ok that] .
  have batch: "tiles_ok n (fold (\<lambda>batch tiles. tiles[batch := TileDecision 1]) bs (noTiles n))" for n bs
    by (rule tiles_ok_fold) auto
  have n: "0 \<le> (if isDynamic b then w else min b w)" if "isDynamic b \<or> 0 \<le> b" "0 \<le> w" for b w :: int
    using that by auto
  show ?thesis
    using inf tgt ext [OF rank(1)] ext [OF rank(2)] ext [OF rank(3)]
      vectorWidth_pos [of ctx "operandType ir (os_op s) (dpsInits ir (os_op s) ! 0)"]
    by (auto simp: inferContractionComputeTile_def target_ok_def Let_def split: if_splits
        intro!: tiles_ok_update batch chooseStaticTilingFactor_nonneg)
qed

lemma innermostReduction_eq:
  "innermostReduction s = (case filter (\<lambda>d. iteratorType d = reduction) (rev (os_dims s)) of
     [] \<Rightarrow> None | d # _ \<Rightarrow> Some (ld_position d))"
proof -
  have "fold (\<lambda>d acc. if iteratorType d = reduction then Some (ld_position d) else acc) ds None =
      (case filter (\<lambda>d. iteratorType d = reduction) (rev ds) of [] \<Rightarrow> None | d # _ \<Rightarrow> Some (ld_position d))" for ds
    by (induction ds rule: rev_induct) auto
  then show ?thesis by (simp add: innermostReduction_def)
qed

lemma innermostReduction_Some:
  assumes "op_shape_ok ir g s" and "innermostReduction s = Some r"
  shows "r < length (os_dims s)" "iteratorType (os_dims s ! r) = reduction"
proof -
  obtain d ds where "filter (\<lambda>d. iteratorType d = reduction) (rev (os_dims s)) = d # ds" "r = ld_position d"
    using assms(2) by (auto simp: innermostReduction_eq split: list.splits)
  then have "d \<in> set (os_dims s)" "iteratorType d = reduction" "r = ld_position d"
    using filter_set [of "\<lambda>d. iteratorType d = reduction" "rev (os_dims s)"] by auto
  then obtain i where "i < length (os_dims s)" "os_dims s ! i = d" by (auto simp: in_set_conv_nth)
  with \<open>iteratorType d = reduction\<close> \<open>r = ld_position d\<close> op_shape_ok_position(1) [OF assms(1), of i]
  show "r < length (os_dims s)" "iteratorType (os_dims s ! r) = reduction" by auto
qed

lemma inferGenericComputeTile_ok:
  assumes ok: "op_shape_ok ir g s" and inf: "inferGenericComputeTile ir' ctx s op = Some ts"
  shows "tiles_ok (length (os_dims s)) ts"
proof -
  have last: "isDynamic (staticExtent (os_dims s ! last (parallelPositions s))) \<or>
      0 \<le> staticExtent (os_dims s ! last (parallelPositions s))" if "parallelPositions s \<noteq> []"
    using extent_ok [OF ok parallelPositions_less [OF ok last_in_set [OF that]]] .
  have red: "isDynamic (staticExtent (os_dims s ! r)) \<or> 0 \<le> staticExtent (os_dims s ! r)"
    if "innermostReduction s = Some r" for r
    using extent_ok [OF ok innermostReduction_Some(1) [OF ok that]] .
  have w: "0 \<le> getTypeNativeVectorWidth ctx ty" for ty using vectorWidth_pos [of ctx ty] by simp
  show ?thesis
    using inf last red w
    by (auto simp: inferGenericComputeTile_def Let_def split: if_splits option.splits
        intro!: tiles_ok_update unit_tiles_tiles_ok chooseStaticTilingFactor_nonneg)
qed

section \<open>The selected strategy\<close>

lemma with_root_shape_Selected:
  "with_root_shape shape f = Selected x \<longleftrightarrow> (\<exists>s. findOpShape shape (ds_root shape) = Some s \<and> f s = Selected x)"
  by (simp add: with_root_shape_def getRootShape_def split: option.split)

lemma root_shape_facts:
  assumes "shape_ok ir shape" and "findOpShape shape (ds_root shape) = Some s"
  shows "op_shape_ok ir (length (globalDimensions shape)) s" "os_op s = ds_root shape"
  using findOpShape_Some [OF assms(2)] shape_ok_op [OF assms(1)] by auto

lemma extent_nonneg_at:
  "op_shape_ok ir g s \<Longrightarrow> d < length (os_dims s) \<Longrightarrow>
   0 \<le> chooseStaticTilingFactor (staticExtent (os_dims s ! d)) p m"
  using extent_ok chooseStaticTilingFactor_nonneg by blast

lemma default_strategy_ok:
  assumes root: "findOpShape shape (ds_root shape) = Some s"
  shows "strategy_ok s (makeHexagonDefaultStrategy shape)"
  unfolding makeHexagonDefaultStrategy_def root Let_def option.case
  by (rule strategy_ok_make) auto

lemma bufferCopy_ok:
  assumes ok: "shape_ok ir shape" and root: "findOpShape shape (ds_root shape) = Some s"
    and sel: "selectBufferCopyStrategy ir ctx shape = Selected st"
  shows "strategy_ok s st"
  using sel inferInnermost_tiles_ok [OF root_shape_facts(1) [OF ok root]]
  by (auto simp: selectBufferCopyStrategy_def with_root_shape_Selected root inferBufferCopyComputeTile_def
      Let_def split: if_splits intro!: strategy_ok_make)

lemma convolution_ok:
  assumes ok: "shape_ok ir shape" and root: "findOpShape shape (ds_root shape) = Some s"
    and sel: "selectConvolutionStrategy ir ctx shape = Selected st"
  shows "strategy_ok s st"
  using sel inferConvolutionDistributionTile_ok [OF root_shape_facts(1) [OF ok root]]
    inferConvolutionComputeTile_ok [OF root_shape_facts(1) [OF ok root]]
  by (auto simp: selectConvolutionStrategy_def with_root_shape_Selected root
      split: if_splits option.splits intro!: strategy_ok_make)

lemma contraction_ok:
  assumes ok: "shape_ok ir shape" and root: "findOpShape shape (ds_root shape) = Some s"
    and laws: "ir_laws ir" and tgt: "target_ok ctx"
    and sel: "selectContractionStrategy ir ctx shape = Selected st"
  shows "strategy_ok s st"
proof -
  note rs = root_shape_facts [OF ok root]
  obtain dims compute where an: "analyzeSupportedContraction ir (os_op s) = Some dims"
    and inf: "inferContractionComputeTile ir ctx s (os_op s) dims False = Some compute"
    and st: "st = make_strategy MultiTilingExpert (hasPureTensorSemantics ir (os_op s)) (noTiles (length (os_dims s)))
      (fold (\<lambda>d tiles. tiles[d := TileDecision
           (chooseStaticTilingFactor (staticExtent (os_dims s ! d)) kCacheTileCap 1)])
         [hd (cd_m dims), hd (cd_n dims)]
         (fold (\<lambda>batch tiles. tiles[batch := TileDecision 1]) (cd_batch dims) (noTiles (length (os_dims s))))) compute"
    using sel by (auto simp: selectContractionStrategy_def with_root_shape_Selected root rs(2) Let_def
        split: if_splits option.splits)
  note rank = contraction_dims_less [OF laws an, unfolded op_shape_rank [OF rs(1)]]
  show ?thesis unfolding st
  proof (rule strategy_ok_make)
    show "tiles_ok (length (os_dims s)) (fold (\<lambda>d tiles. tiles[d := TileDecision
           (chooseStaticTilingFactor (staticExtent (os_dims s ! d)) kCacheTileCap 1)])
         [hd (cd_m dims), hd (cd_n dims)]
         (fold (\<lambda>batch tiles. tiles[batch := TileDecision 1]) (cd_batch dims) (noTiles (length (os_dims s)))))"
      using rank extent_nonneg_at [OF rs(1)] by (auto intro!: tiles_ok_fold tiles_ok_update)
  qed (auto intro: inferContractionComputeTile_ok [OF rs(1) laws tgt an inf])
qed

lemma hmx_ok:
  assumes ok: "shape_ok ir shape" and root: "findOpShape shape (ds_root shape) = Some s"
    and laws: "ir_laws ir" and tgt: "target_ok ctx" and sel: "selectHmxStrategy ir ctx shape = Selected st"
  shows "strategy_ok s st"
proof -
  note rs = root_shape_facts [OF ok root]
  obtain dims compute where an: "analyzeSupportedContraction ir (os_op s) = Some dims"
    and inf: "inferContractionComputeTile ir ctx s (os_op s) dims True = Some compute"
    and st: "st = (let base = make_strategy HmxMatmulExpert False (noTiles (length (os_dims s)))
        (noTiles (length (os_dims s))) compute
      in base\<lparr>rootTiling := (rootTiling base)\<lparr>hmxTile :=
        fold (\<lambda>batch tiles. tiles[batch := \<lparr>td_size = 1, hardwareFixed = True\<rparr>]) (cd_batch dims)
          (noTiles (length (os_dims s)))\<rparr>\<rparr>)"
    using sel by (auto simp: selectHmxStrategy_def with_root_shape_Selected root rs(2) Let_def
        split: if_splits option.splits)
  have "tiles_ok (length (os_dims s))
      (fold (\<lambda>batch tiles. tiles[batch := \<lparr>td_size = 1, hardwareFixed = True\<rparr>]) (cd_batch dims)
        (noTiles (length (os_dims s))))"
    by (auto intro!: tiles_ok_fold tiles_ok_update)
  with inferContractionComputeTile_ok [OF rs(1) laws tgt an inf] show ?thesis
    by (auto simp: st strategy_ok_def make_strategy_def empty_root_tiling_def getPipelineContract_def
        default_contract_def Let_def)
qed

lemma generic_ok:
  assumes ok: "shape_ok ir shape" and root: "findOpShape shape (ds_root shape) = Some s"
    and sel: "selectGenericStrategy ir ctx shape = Selected st"
  shows "strategy_ok s st"
proof -
  note rs = root_shape_facts [OF ok root]
  obtain compute cache where inf: "inferGenericComputeTile ir ctx s (ds_root shape) = Some compute"
    and cache: "cache = (if 1 < length (parallelPositions s) then
        fold (\<lambda>d tiles. tiles[d := TileDecision
            (chooseStaticTilingFactor (staticExtent (os_dims s ! d)) kCacheTileCap 1)])
          (butlast (parallelPositions s)) (noTiles (length (os_dims s)))
        else noTiles (length (os_dims s)))"
    and st: "st = make_strategy MultiTilingExpert (hasPureTensorSemantics ir (ds_root shape))
      (noTiles (length (os_dims s))) cache compute"
    using sel by (auto simp: selectGenericStrategy_def with_root_shape_Selected root makeBaseStrategy_def
        make_strategy_def empty_root_tiling_def Let_def split: if_splits option.splits)
  have "tiles_ok (length (os_dims s)) cache"
    using extent_nonneg_at [OF rs(1)] parallelPositions_less [OF rs(1)]
    by (auto simp: cache intro!: tiles_ok_fold tiles_ok_update dest: in_set_butlastD)
  with inferGenericComputeTile_ok [OF rs(1) inf] show ?thesis
    unfolding st by (intro strategy_ok_make) auto
qed

lemma tilingInterface_ok:
  assumes ok: "shape_ok ir shape" and root: "findOpShape shape (ds_root shape) = Some s"
    and sel: "selectDefaultTilingInterfaceStrategy ir ctx shape = Selected st"
  shows "strategy_ok s st"
proof -
  note rs = root_shape_facts [OF ok root]
  let ?t = "inferInnermostParallelComputeTile ir ctx s (ds_root shape)"
  have st: "st = make_strategy (if isLinalgOp ir (ds_root shape) then MultiTilingExpert else PipelineDefault)
      (isLinalgOp ir (ds_root shape) \<and> hasPureTensorSemantics ir (ds_root shape))
      (noTiles (length (os_dims s))) (noTiles (length (os_dims s))) ?t"
    using sel by (auto simp: selectDefaultTilingInterfaceStrategy_def with_root_shape_Selected root Let_def
        split: if_splits)
  have "td_size (?t ! i) = 0" if i: "i < length (os_dims s)" "iteratorType (os_dims s ! i) \<noteq> parallel" for i
  proof (cases "getDefaultVectorType ir (ds_root shape)")
    case None
    with i show ?thesis by (simp add: inferInnermostParallelComputeTile_def Let_def)
  next
    case (Some ty)
    then show ?thesis using inferInnermost_nth [OF rs(1) Some i(1)] i(2) by (simp add: Let_def)
  qed
  with inferInnermost_tiles_ok [OF rs(1)] show ?thesis
    unfolding st by (intro strategy_ok_make) auto
qed

text \<open>Which pipeline a root gets, read off the root alone.\<close>

definition expected_pipeline :: "planner_ir \<Rightarrow> planning_context \<Rightarrow> nat \<Rightarrow> lowering_pipeline" where
  "expected_pipeline ir ctx root =
     (if isLinalgOp ir root \<and> isBufferLikeCopy ir root then BufferOpsTileAndVectorize
      else if isLinalgOp ir root \<and> isSupportedConvolution ir root then ConvTileAndDecomposeExpert
      else if isLinalgOp ir root \<and> isaContractionOp ir root then
        (if analyzeSupportedContraction ir root = None then PipelineDefault
         else if enableHmxMatmul (pc_options ctx) \<and> hasHmxElementTypes ir root \<and> isHmxLowerableMatmul ir root
         then HmxMatmulExpert else MultiTilingExpert)
      else if isGenericOp ir root \<or> isTileable ir root \<and> isLinalgOp ir root then MultiTilingExpert
      else PipelineDefault)"

lemma first_match_Selected: "first_match ss = Selected x \<Longrightarrow> Selected x \<in> set ss"
  by (induction ss) (auto split: select.splits)

lemma first_match_total:
  "\<forall>s\<in>set ss. s \<noteq> AssertFailed \<and> s \<noteq> Failed \<Longrightarrow> first_match ss \<noteq> AssertFailed \<and> first_match ss \<noteq> Failed"
  by (induction ss) (auto split: select.splits)

lemma inferGenericComputeTile_total:
  "ir_laws ir \<Longrightarrow> isGenericOp ir op \<Longrightarrow> inferGenericComputeTile ir ctx s op \<noteq> None"
  by (auto simp: inferGenericComputeTile_def ir_laws_def Let_def)

lemma inferContractionComputeTile_total:
  "ir_laws ir \<Longrightarrow> isaContractionOp ir op \<Longrightarrow> inferContractionComputeTile ir ctx s op dims hmx \<noteq> None"
  by (auto simp: inferContractionComputeTile_def ir_laws_def Let_def)

lemma with_root_shape_found: "findOpShape shape (ds_root shape) = Some s \<Longrightarrow> with_root_shape shape f = f s"
  by (simp add: with_root_shape_def getRootShape_def)

text \<open>With an analyzed root, no candidate fails, and the pipeline it picks is the expected one.\<close>

lemma candidates_outcome:
  assumes root: "findOpShape shape (ds_root shape) = Some s" and laws: "ir_laws ir" and r0: "ds_root shape \<noteq> 0"
  shows "\<exists>st. selectDispatchStrategy ir ctx shape = Selected st \<and>
    st_pipeline st = expected_pipeline ir ctx (ds_root shape)"
proof -
  let ?r = "ds_root shape"
  note rs = with_root_shape_found [OF root]
  have default: "st_pipeline (makeHexagonDefaultStrategy shape) = PipelineDefault"
    by (simp add: makeHexagonDefaultStrategy_def root make_strategy_def Let_def)
  have contraction: "isHmxCandidateContraction ir ?r \<longleftrightarrow>
      isaContractionOp ir ?r \<and> analyzeSupportedContraction ir ?r \<noteq> None \<and> hasHmxElementTypes ir ?r"
    by (simp add: isHmxCandidateContraction_def)
  obtain gen where gen: "isGenericOp ir ?r \<longrightarrow> inferGenericComputeTile ir ctx s ?r = Some gen"
    using inferGenericComputeTile_total [OF laws] by fastforce
  obtain conv where conv: "isSupportedConvolution ir ?r \<longrightarrow> inferConvolutionComputeTile ir ctx s ?r = Some conv"
    using inferConvolutionComputeTile_total [OF laws] by fastforce
  have con: "\<exists>ts. inferContractionComputeTile ir ctx s ?r dims hmx = Some ts" if "isaContractionOp ir ?r" for dims hmx
    using inferContractionComputeTile_total [OF laws that] by fastforce
  note defs = selectDispatchStrategy_def candidates_def expected_pipeline_def root
  note sels = selectBufferCopyStrategy_def selectConvolutionStrategy_def selectHmxStrategy_def
    selectContractionStrategy_def selectUnsupportedContractionFallback_def selectGenericStrategy_def
    selectDefaultTilingInterfaceStrategy_def isLinalgRoot_def r0 rs Let_def
  show ?thesis
  proof (cases "isLinalgOp ir ?r \<and> (isBufferLikeCopy ir ?r \<or> isSupportedConvolution ir ?r)")
    case True
    then show ?thesis using conv
      by (auto simp: defs selectBufferCopyStrategy_def selectConvolutionStrategy_def isLinalgRoot_def r0 rs
          Let_def make_strategy_def)
  next
    case no_copy: False
    then have skip: "selectBufferCopyStrategy ir ctx shape = NoMatch" "selectConvolutionStrategy ir ctx shape = NoMatch"
      by (auto simp: selectBufferCopyStrategy_def selectConvolutionStrategy_def isLinalgRoot_def)
    show ?thesis
    proof (cases "isLinalgOp ir ?r \<and> isaContractionOp ir ?r")
      case True
      then show ?thesis
      proof (cases "analyzeSupportedContraction ir ?r")
        case None
        with True no_copy skip show ?thesis
          by (auto simp: defs selectHmxStrategy_def selectContractionStrategy_def contraction
              selectUnsupportedContractionFallback_def isLinalgRoot_def r0 default Let_def)
      next
        case (Some dims)
        obtain t1 t2 where "inferContractionComputeTile ir ctx s ?r dims True = Some t1"
          "inferContractionComputeTile ir ctx s ?r dims False = Some t2" using con True by blast
        with True no_copy skip Some show ?thesis
          by (auto simp: defs selectHmxStrategy_def selectContractionStrategy_def contraction
              isLinalgRoot_def r0 rs make_strategy_def Let_def)
      qed
    next
      case False
      then have "selectHmxStrategy ir ctx shape = NoMatch" "selectContractionStrategy ir ctx shape = NoMatch"
        "selectUnsupportedContractionFallback ir ctx shape = NoMatch"
        by (auto simp: selectHmxStrategy_def selectContractionStrategy_def contraction isLinalgRoot_def
            selectUnsupportedContractionFallback_def Let_def)
      with False no_copy skip gen show ?thesis
        by (auto simp: defs selectGenericStrategy_def selectDefaultTilingInterfaceStrategy_def r0 rs
            make_strategy_def makeBaseStrategy_def default Let_def)
    qed
  qed
qed

lemma selectDispatchStrategy_ok:
  assumes ok: "shape_ok ir shape" and root: "findOpShape shape (ds_root shape) = Some s"
    and laws: "ir_laws ir" and tgt: "target_ok ctx"
    and sel: "selectDispatchStrategy ir ctx shape = Selected st"
  shows "strategy_ok s st"
proof (cases "first_match (map (\<lambda>c. c ir ctx shape) candidates)")
  case (Selected x)
  with sel root have "first_match (map (\<lambda>c. c ir ctx shape) candidates) = Selected st"
    by (simp add: selectDispatchStrategy_def)
  then have "Selected st \<in> set (map (\<lambda>c. c ir ctx shape) candidates)" by (rule first_match_Selected)
  then consider "selectBufferCopyStrategy ir ctx shape = Selected st"
    | "selectConvolutionStrategy ir ctx shape = Selected st" | "selectHmxStrategy ir ctx shape = Selected st"
    | "selectContractionStrategy ir ctx shape = Selected st"
    | "selectUnsupportedContractionFallback ir ctx shape = Selected st"
    | "selectGenericStrategy ir ctx shape = Selected st"
    | "selectDefaultTilingInterfaceStrategy ir ctx shape = Selected st"
    by (auto simp: candidates_def)
  then show ?thesis
  proof cases
    case 5
    then show ?thesis using default_strategy_ok [OF root]
      by (auto simp: selectUnsupportedContractionFallback_def Let_def split: if_splits)
  qed (use bufferCopy_ok [OF ok root] convolution_ok [OF ok root] hmx_ok [OF ok root laws tgt]
      contraction_ok [OF ok root laws tgt] generic_ok [OF ok root] tilingInterface_ok [OF ok root] in blast)+
qed (use sel root default_strategy_ok [OF root] in \<open>auto simp: selectDispatchStrategy_def\<close>)

section \<open>The selected compute tiles\<close>

lemma policies_Selected:
  assumes ok: "op_shape_ok ir g s" and laws: "ir_laws ir" and tgt: "target_ok ctx"
    and sel: "first_match (map (\<lambda>p. p ir ctx strategy s) policies) = Selected plan"
  shows "op_op plan = os_op s" "tiles_ok (length (os_dims s)) (op_computeTile plan)"
proof -
  have "Selected plan \<in> set (map (\<lambda>p. p ir ctx strategy s) policies)" using sel by (rule first_match_Selected)
  then consider "selectBufferCopyComputeTile ir ctx strategy s = Selected plan"
    | "selectConvolutionComputeTile ir ctx strategy s = Selected plan"
    | "selectContractionComputeTile ir ctx strategy s = Selected plan"
    | "selectGenericComputeTile ir ctx strategy s = Selected plan"
    | "selectDefaultTilingInterfaceComputeTile ir ctx strategy s = Selected plan"
    by (auto simp: policies_def)
  then have "op_op plan = os_op s \<and> tiles_ok (length (os_dims s)) (op_computeTile plan)"
  proof cases
    case 1
    then show ?thesis using inferInnermost_tiles_ok [OF ok]
      by (auto simp: selectBufferCopyComputeTile_def inferBufferCopyComputeTile_def split: if_splits)
  next
    case 2
    then show ?thesis using inferConvolutionComputeTile_ok [OF ok]
      by (auto simp: selectConvolutionComputeTile_def split: if_splits option.splits)
  next
    case 3
    then show ?thesis using inferContractionComputeTile_ok [OF ok laws tgt]
      by (auto simp: selectContractionComputeTile_def Let_def split: if_splits option.splits)
  next
    case 4
    then show ?thesis using inferGenericComputeTile_ok [OF ok]
      by (auto simp: selectGenericComputeTile_def split: if_splits option.splits)
  next
    case 5
    then show ?thesis using inferInnermost_tiles_ok [OF ok]
      by (auto simp: selectDefaultTilingInterfaceComputeTile_def split: if_splits)
  qed
  then show "op_op plan = os_op s" "tiles_ok (length (os_dims s)) (op_computeTile plan)" by simp_all
qed

lemma selectNonRootComputeTile_Selected:
  assumes "op_shape_ok ir g s" and "ir_laws ir" and "target_ok ctx"
    and "selectNonRootComputeTile ir ctx shape strategy contract s = Selected plan"
  shows "op_op plan = os_op s" "tiles_ok (length (os_dims s)) (op_computeTile plan)"
    "os_op s \<noteq> ds_root shape" "supportsIndependentNonRootComputeTiles contract"
  using policies_Selected [OF assms(1-3)] assms(4)
  by (auto simp: selectNonRootComputeTile_def split: if_splits)

lemma selectNonRootComputeTile_total:
  assumes laws: "ir_laws ir"
  shows "selectNonRootComputeTile ir ctx shape strategy contract s \<noteq> AssertFailed"
    "selectNonRootComputeTile ir ctx shape strategy contract s \<noteq> Failed"
proof -
  let ?fine = "\<lambda>x. x \<noteq> AssertFailed \<and> x \<noteq> Failed"
  have "?fine (selectBufferCopyComputeTile ir ctx strategy s)"
    "?fine (selectDefaultTilingInterfaceComputeTile ir ctx strategy s)"
    by (simp_all add: selectBufferCopyComputeTile_def selectDefaultTilingInterfaceComputeTile_def)
  moreover have "?fine (selectConvolutionComputeTile ir ctx strategy s)"
    using inferConvolutionComputeTile_total [OF laws, of "os_op s" ctx s]
    by (auto simp: selectConvolutionComputeTile_def split: option.split)
  moreover have "?fine (selectGenericComputeTile ir ctx strategy s)"
    using inferGenericComputeTile_total [OF laws, of "os_op s" ctx s]
    by (auto simp: selectGenericComputeTile_def split: option.split)
  moreover have "?fine (selectContractionComputeTile ir ctx strategy s)"
  proof (cases "isaContractionOp ir (os_op s)")
    case True
    have "\<exists>ts. inferContractionComputeTile ir ctx s (os_op s) dims hmx = Some ts" for dims hmx
      using inferContractionComputeTile_total [OF laws True] by simp
    then obtain ts where "inferContractionComputeTile ir ctx s (os_op s) dims hmx = Some (ts dims hmx)" for dims hmx
      by metis
    then show ?thesis
      by (simp add: selectContractionComputeTile_def Let_def split: option.split)
  qed (simp add: selectContractionComputeTile_def Let_def)
  ultimately have "\<forall>x\<in>set (map (\<lambda>p. p ir ctx strategy s) policies). ?fine x"
    by (simp add: policies_def)
  from first_match_total [OF this] show
    "selectNonRootComputeTile ir ctx shape strategy contract s \<noteq> AssertFailed"
    "selectNonRootComputeTile ir ctx shape strategy contract s \<noteq> Failed"
    by (auto simp: selectNonRootComputeTile_def)
qed

section \<open>Properties\<close>

text \<open>
  For an analyzed root, strategy selection always selects: no candidate fails and no assertion
  fires. The pipeline depends on the root alone: buffer copies, convolutions, HMX products,
  contractions, unsupported contractions, generic operations and other tileable operations, in
  this order, each get theirs. The strategy has tiles of the root's rank, none negative, and asks
  nothing of the pipeline that its contract does not offer.
\<close>

theorem strategy_selection_correct:
  assumes "shape_ok ir shape" and "findOpShape shape (ds_root shape) = Some s" and "ds_root shape \<noteq> 0"
    and "ir_laws ir" and "target_ok ctx"
  shows "\<exists>st. selectDispatchStrategy ir ctx shape = Selected st \<and>
    st_pipeline st = expected_pipeline ir ctx (ds_root shape) \<and> strategy_ok s st"
proof -
  from candidates_outcome [OF assms(2,4,3)] obtain st where
    "selectDispatchStrategy ir ctx shape = Selected st"
    "st_pipeline st = expected_pipeline ir ctx (ds_root shape)" by blast
  with selectDispatchStrategy_ok [OF assms(1,2,4,5)] show ?thesis by blast
qed

lemma sample_ir_laws: "ir_laws sample_ir"
  by (auto simp: ir_laws_def sample_simps isSupportedConvolution_def is2DConv_def is2DDepthwiseConv_def
      is2DPooling_def split: if_splits)

lemma sample_target_ok: "target_ok sample_context"
  by (simp add: target_ok_def sample_simps)

lemma sample_root_found: "findOpShape sample_shape (ds_root sample_shape) = Some sample_root_shape"
  by (simp add: findOpShape_def sample_simps)

theorem strategy_selection_correct_witness:
  "\<exists>st. selectDispatchStrategy sample_ir sample_context sample_shape = Selected st \<and>
     st_pipeline st = MultiTilingExpert \<and> strategy_ok sample_root_shape st"
proof -
  have "ds_root sample_shape \<noteq> 0" by (simp add: sample_shape_def)
  moreover have "expected_pipeline sample_ir sample_context (ds_root sample_shape) = MultiTilingExpert"
    by (simp add: expected_pipeline_def sample_simps isBufferLikeCopy_def isSupportedConvolution_def
        is2DConv_def is2DDepthwiseConv_def is2DPooling_def analyzeSupportedContraction_def)
  ultimately show ?thesis
    using strategy_selection_correct [OF sample_shape_ok sample_root_found _ sample_ir_laws sample_target_ok]
    by simp
qed

text \<open>
  The compute tile selected for another operation of the dispatch belongs to it, has its rank
  and is not negative; the selection never fails, and selects nothing for the root or for a
  pipeline that cannot realize such tiles.
\<close>

theorem non_root_tile_selection_correct:
  assumes "op_shape_ok ir g s" and "ir_laws ir" and "target_ok ctx"
  shows "case selectNonRootComputeTile ir ctx shape strategy contract s of
      AssertFailed \<Rightarrow> False
    | Failed \<Rightarrow> False
    | NoMatch \<Rightarrow> True
    | Selected plan \<Rightarrow> op_op plan = os_op s \<and> tiles_ok (length (os_dims s)) (op_computeTile plan) \<and>
        os_op s \<noteq> ds_root shape \<and> supportsIndependentNonRootComputeTiles contract"
  using selectNonRootComputeTile_total [OF assms(2), of ctx shape strategy contract s]
    selectNonRootComputeTile_Selected [OF assms, of shape strategy contract]
  by (auto split: select.split)

theorem non_root_tile_selection_correct_witness:
  "\<exists>plan. selectNonRootComputeTile sample_ir sample_context sample_shape default_strategy
       (the (getPipelineContract MultiTilingExpert)) sample_fill_shape = Selected plan \<and>
     op_op plan = 1 \<and> tiles_ok 2 (op_computeTile plan)"
proof -
  let ?sel = "selectNonRootComputeTile sample_ir sample_context sample_shape default_strategy
       (the (getPipelineContract MultiTilingExpert)) sample_fill_shape"
  have "op_shape_ok sample_ir 3 sample_fill_shape" by (simp add: op_shape_ok_def sample_simps upt_rec)
  note * = non_root_tile_selection_correct [OF this sample_ir_laws sample_target_ok,
      where shape = sample_shape and strategy = default_strategy
        and contract = "the (getPipelineContract MultiTilingExpert)"]
  have "?sel \<noteq> NoMatch"
    by (simp add: selectNonRootComputeTile_def sample_simps getPipelineContract_def default_contract_def
        policies_def selectBufferCopyComputeTile_def isBufferLikeCopy_def selectConvolutionComputeTile_def
        isSupportedConvolution_def is2DConv_def is2DDepthwiseConv_def is2DPooling_def
        selectContractionComputeTile_def selectGenericComputeTile_def
        selectDefaultTilingInterfaceComputeTile_def isTileable_def Let_def)
  moreover have "os_op sample_fill_shape = 1" "length (os_dims sample_fill_shape) = 2"
    by (simp_all add: sample_fill_shape_def)
  ultimately show ?thesis using * by (cases ?sel) auto
qed

end
