(* ===== verification/Vtcm_Planning.thy ===== *)
theory Vtcm_Planning
  imports Strategies
begin

text \<open>
  The VTCM stage of the root: \<open>CodeGen/Strategy/Planning/VTCMPlanning.cpp\<close>. The tile search
  \<open>determineTileSizes\<close> is hexagon-mlir's and part of the parameter \<open>planner_ir\<close>.
\<close>

section \<open>The code\<close>

text \<open>\<open>handleUnavailableVTCM\<close>: an error when the pipeline requires VTCM, else the plan goes on without.\<close>

definition handleUnavailableVTCM ::
  "pipeline_contract \<Rightarrow> plan_error \<Rightarrow> dispatch_strategy \<Rightarrow> plan_error + dispatch_strategy" where
  "handleUnavailableVTCM contract diagnostic strategy =
     (if vtcmRequirement contract = VTCMRequired then Inl diagnostic else Inr strategy)"

definition suppressCacheTiling ::
  "dispatch_shape \<Rightarrow> dispatch_strategy \<Rightarrow> plan_error + dispatch_strategy" where
  "suppressCacheTiling dispatchShape strategy =
     (case findOpShape dispatchShape (ds_root dispatchShape) of None \<Rightarrow> Inl MissingRootShape
      | Some rootShape \<Rightarrow>
          Inr (strategy\<lparr>rootTiling := (rootTiling strategy)\<lparr>cacheTile :=
            map (\<lambda>tile. if td_size tile = 0 then tile else tile\<lparr>td_size := 0\<rparr>)
              (cacheTile (rootTiling strategy))\<rparr>\<rparr>))"

definition getUnboundedFootprintReason :: "planner_ir \<Rightarrow> nat \<Rightarrow> footprint_reason option" where
  "getUnboundedFootprintReason ir op =
     (if \<not> list_all (\<lambda>v. hasElementSizeInBytes (typeOf ir v)) (opOperands ir op)
      then Some UnsupportedOperandElementType
      else if list_ex (\<lambda>(range, it). it = reduction \<and> isDynamic range)
                (zip (staticLoopRanges ir op) (loopIteratorTypes ir op))
      then Some DynamicReduction
      else None)"

definition keepsReductionsWhole :: "planner_ir \<Rightarrow> nat \<Rightarrow> int list \<Rightarrow> bool" where
  "keepsReductionsWhole ir op tiles \<longleftrightarrow>
     list_all (\<lambda>(tile, range, it). \<not> (it = reduction \<and> tile \<noteq> range))
       (zip tiles (zip (staticLoopRanges ir op) (loopIteratorTypes ir op)))"

definition getParallelDims :: "planner_ir \<Rightarrow> nat \<Rightarrow> nat list" where
  "getParallelDims ir op =
     filter (\<lambda>i. loopIteratorTypes ir op ! i = parallel) [0..<length (loopIteratorTypes ir op)]"

definition determineStagedTileSizes :: "planner_ir \<Rightarrow> planning_context \<Rightarrow> nat \<Rightarrow> int list option" where
  "determineStagedTileSizes ir ctx op =
     (let budgetBytes = vtcmTileBudgetBytes (pc_options ctx);
          tiles = determineTileSizes ir op budgetBytes None
      in if (case tiles of None \<Rightarrow> False | Some ts \<Rightarrow> keepsReductionsWhole ir op ts) then tiles
         else let parallelDims = getParallelDims ir op
              in if parallelDims = [] then None
                 else determineTileSizes ir op budgetBytes (Some parallelDims))"

definition planVTCMTiling ::
  "planner_ir \<Rightarrow> planning_context \<Rightarrow> dispatch_shape \<Rightarrow> pipeline_contract \<Rightarrow> dispatch_strategy \<Rightarrow>
   plan_error + dispatch_strategy" where
  "planVTCMTiling ir ctx dispatchShape contract strategy =
     (let root = ds_root dispatchShape
      in if vtcmRequirement contract = VTCMUnsupported then Inr strategy
         else if \<not> enableVTCM (pc_options ctx)
         then handleUnavailableVTCM contract VTCMTilingRequired strategy
         else if \<not> isLinalgRoot ir dispatchShape \<or> \<not> hasPureTensorSemantics ir root
         then handleUnavailableVTCM contract TensorRootRequired strategy
         else case getUnboundedFootprintReason ir root of
                Some reason \<Rightarrow> handleUnavailableVTCM contract (UnboundedFootprint reason) strategy
              | None \<Rightarrow>
                  (case determineStagedTileSizes ir ctx root of
                     None \<Rightarrow> handleUnavailableVTCM contract DoesNotFitVTCM strategy
                   | Some tileSizes \<Rightarrow>
                       bind_res (suppressCacheTiling dispatchShape
                           (strategy\<lparr>rootTiling := (rootTiling strategy)\<lparr>rt_vtcm := Some (map TileDecision tileSizes)\<rparr>\<rparr>))
                         (\<lambda>strategy. case findOpShape dispatchShape root of
                            None \<Rightarrow> Inl MissingRootShape | Some rootShape \<Rightarrow> Inr strategy)))"

section \<open>What VTCM planning guarantees\<close>

text \<open>
  The tile search as hexagon-mlir documents it: one non-negative size per loop, and with a list of
  dimensions only those are tiled, every other keeps its whole extent.
\<close>

definition tile_search_laws :: "planner_ir \<Rightarrow> bool" where
  "tile_search_laws ir \<longleftrightarrow>
     (\<forall>op budget ds ts. determineTileSizes ir op budget ds = Some ts \<longrightarrow>
        length ts = length (loopIteratorTypes ir op) \<and> (\<forall>t\<in>set ts. 0 \<le> t) \<and>
        (\<forall>dims i. ds = Some dims \<longrightarrow> i < length ts \<longrightarrow> i \<notin> set dims \<longrightarrow> ts ! i = staticLoopRanges ir op ! i)) \<and>
     (\<forall>op. isLinalgOp ir op \<longrightarrow> length (staticLoopRanges ir op) = length (loopIteratorTypes ir op))"

definition reductions_whole :: "planner_ir \<Rightarrow> nat \<Rightarrow> int list \<Rightarrow> bool" where
  "reductions_whole ir op ts \<longleftrightarrow>
     length ts = length (loopIteratorTypes ir op) \<and>
     (\<forall>i<length ts. loopIteratorTypes ir op ! i = reduction \<longrightarrow> ts ! i = staticLoopRanges ir op ! i)"

lemma keepsReductionsWhole_iff:
  assumes "length ts = length (loopIteratorTypes ir op)"
    and "length (staticLoopRanges ir op) = length (loopIteratorTypes ir op)"
  shows "keepsReductionsWhole ir op ts \<longleftrightarrow> reductions_whole ir op ts"
  using assms by (auto simp: keepsReductionsWhole_def reductions_whole_def list_all_length)

lemma determineStagedTileSizes_ok:
  assumes laws: "tile_search_laws ir" and lin: "isLinalgOp ir op"
    and staged: "determineStagedTileSizes ir ctx op = Some ts"
  shows "reductions_whole ir op ts" "\<forall>t\<in>set ts. 0 \<le> t"
proof -
  have ranges: "length (staticLoopRanges ir op) = length (loopIteratorTypes ir op)"
    using laws lin by (simp add: tile_search_laws_def)
  have search: "length ts = length (loopIteratorTypes ir op) \<and> (\<forall>t\<in>set ts. 0 \<le> t) \<and>
      (\<forall>dims i. ds = Some dims \<longrightarrow> i < length ts \<longrightarrow> i \<notin> set dims \<longrightarrow> ts ! i = staticLoopRanges ir op ! i)"
    if "determineTileSizes ir op b ds = Some ts" for b ds ts
    using laws that unfolding tile_search_laws_def by blast
  consider (First) "determineTileSizes ir op (vtcmTileBudgetBytes (pc_options ctx)) None = Some ts"
      "keepsReductionsWhole ir op ts"
    | (Retry) "determineTileSizes ir op (vtcmTileBudgetBytes (pc_options ctx)) (Some (getParallelDims ir op)) = Some ts"
    using staged by (auto simp: determineStagedTileSizes_def Let_def split: if_splits option.splits)
  then have "reductions_whole ir op ts \<and> (\<forall>t\<in>set ts. 0 \<le> t)"
  proof cases
    case First
    with search [OF First(1)] keepsReductionsWhole_iff [OF _ ranges] show ?thesis by blast
  next
    case Retry
    note s = search [OF Retry]
    have "ts ! i = staticLoopRanges ir op ! i"
      if "i < length ts" "loopIteratorTypes ir op ! i = reduction" for i
      using s that by (auto simp: getParallelDims_def)
    with s show ?thesis by (simp add: reductions_whole_def)
  qed
  then show "reductions_whole ir op ts" "\<forall>t\<in>set ts. 0 \<le> t" by blast+
qed

text \<open>The strategy with its VTCM stage: everything but the stage and the cache tiles is unchanged.\<close>

definition staged_strategy :: "dispatch_strategy \<Rightarrow> int list \<Rightarrow> dispatch_strategy" where
  "staged_strategy st ts =
     st\<lparr>rootTiling := (rootTiling st)\<lparr>rt_vtcm := Some (map TileDecision ts),
       cacheTile := map (\<lambda>tile. tile\<lparr>td_size := 0\<rparr>) (cacheTile (rootTiling st))\<rparr>\<rparr>"

lemma planVTCMTiling_cases:
  assumes laws: "tile_search_laws ir" and root: "findOpShape shape (ds_root shape) = Some s"
  obtains (Error) e where "planVTCMTiling ir ctx shape contract st = Inl e"
      "vtcmRequirement contract = VTCMRequired"
      "e \<in> {VTCMTilingRequired, TensorRootRequired, DoesNotFitVTCM} \<union> range UnboundedFootprint"
  | (Without) "planVTCMTiling ir ctx shape contract st = Inr st" "vtcmRequirement contract \<noteq> VTCMRequired"
  | (Staged) ts where "planVTCMTiling ir ctx shape contract st = Inr (staged_strategy st ts)"
      "vtcmRequirement contract \<noteq> VTCMUnsupported" "enableVTCM (pc_options ctx)"
      "reductions_whole ir (ds_root shape) ts" "\<forall>t\<in>set ts. 0 \<le> t"
proof -
  have sup: "(\<lambda>tile. if td_size tile = 0 then tile else tile\<lparr>td_size := 0\<rparr>) = (\<lambda>tile. tile\<lparr>td_size := 0\<rparr>)"
    by (rule ext) simp
  consider "vtcmRequirement contract = VTCMUnsupported"
    | "vtcmRequirement contract \<noteq> VTCMUnsupported" "enableVTCM (pc_options ctx)" "isLinalgRoot ir shape"
      "hasPureTensorSemantics ir (ds_root shape)" "getUnboundedFootprintReason ir (ds_root shape) = None"
      "\<exists>ts. determineStagedTileSizes ir ctx (ds_root shape) = Some ts"
    | e where "vtcmRequirement contract \<noteq> VTCMUnsupported"
      "planVTCMTiling ir ctx shape contract st = handleUnavailableVTCM contract e st"
      "e \<in> {VTCMTilingRequired, TensorRootRequired, DoesNotFitVTCM} \<union> range UnboundedFootprint"
    by (cases "vtcmRequirement contract = VTCMUnsupported"; cases "enableVTCM (pc_options ctx)";
        cases "isLinalgRoot ir shape \<and> hasPureTensorSemantics ir (ds_root shape)";
        cases "getUnboundedFootprintReason ir (ds_root shape)";
        cases "determineStagedTileSizes ir ctx (ds_root shape)")
      (auto simp: planVTCMTiling_def Let_def)
  then show ?thesis
  proof cases
    case 1
    then show ?thesis using Without by (simp add: planVTCMTiling_def)
  next
    case 2
    then obtain ts where ts: "determineStagedTileSizes ir ctx (ds_root shape) = Some ts" by blast
    have "planVTCMTiling ir ctx shape contract st = Inr (staged_strategy st ts)"
      using 2 ts root by (simp add: planVTCMTiling_def suppressCacheTiling_def staged_strategy_def sup Let_def)
    moreover have "isLinalgOp ir (ds_root shape)" using 2 by (simp add: isLinalgRoot_def)
    ultimately show ?thesis
      using Staged 2 determineStagedTileSizes_ok [OF laws _ ts] by blast
  next
    case (3 e)
    show ?thesis
    proof (cases "vtcmRequirement contract = VTCMRequired")
      case True
      with 3 show ?thesis using Error by (simp add: handleUnavailableVTCM_def)
    next
      case False
      with 3 show ?thesis using Without by (simp add: handleUnavailableVTCM_def)
    qed
  qed
qed

section \<open>Properties\<close>

text \<open>
  VTCM planning of an analyzed root fails only for a pipeline that requires VTCM, and never
  falls back for one. A pipeline that cannot consume VTCM keeps its strategy. When a plan is made,
  every reduction dimension is staged whole, cache tiling is suppressed, and nothing else of the
  strategy changes.
\<close>

theorem planVTCMTiling_correct:
  assumes laws: "tile_search_laws ir" and root: "findOpShape shape (ds_root shape) = Some s"
  shows "case planVTCMTiling ir ctx shape contract st of
      Inl e \<Rightarrow> vtcmRequirement contract = VTCMRequired
    | Inr st' \<Rightarrow>
        (st' = st \<and> vtcmRequirement contract \<noteq> VTCMRequired \<or>
         (\<exists>ts. st' = staged_strategy st ts \<and> vtcmRequirement contract \<noteq> VTCMUnsupported \<and>
            reductions_whole ir (ds_root shape) ts \<and> all_zero (cacheTile (rootTiling st'))))"
proof (rule planVTCMTiling_cases [OF laws root, of ctx contract st])
  fix ts
  have "all_zero (cacheTile (rootTiling (staged_strategy st ts)))"
    by (auto simp: staged_strategy_def all_zero_def)
  then show ?thesis
    if "planVTCMTiling ir ctx shape contract st = Inr (staged_strategy st ts)"
      "vtcmRequirement contract \<noteq> VTCMUnsupported" "reductions_whole ir (ds_root shape) ts"
    using that by auto
qed auto

lemma sample_tile_search_laws:
  "tile_search_laws (sample_ir\<lparr>determineTileSizes := \<lambda>op b ds. if op = 2 then Some [64, 96, 128] else None\<rparr>)"
  by (auto simp: tile_search_laws_def sample_simps less_Suc_eq nth_Cons' split: if_splits)

theorem planVTCMTiling_correct_witness:
  "\<exists>st. planVTCMTiling (sample_ir\<lparr>determineTileSizes := \<lambda>op b ds. if op = 2 then Some [64, 96, 128] else None\<rparr>)
       sample_context sample_shape (the (getPipelineContract HmxMatmulExpert)) default_strategy = Inr st \<and>
     rt_vtcm (rootTiling st) = Some [TileDecision 64, TileDecision 96, TileDecision 128]"
proof -
  let ?ir = "sample_ir\<lparr>determineTileSizes := \<lambda>op b ds. if op = 2 then Some [64, 96, 128] else None\<rparr>"
  let ?st = "staged_strategy default_strategy [64, 96, 128]"
  have run: "planVTCMTiling ?ir sample_context sample_shape (the (getPipelineContract HmxMatmulExpert))
      default_strategy = Inr ?st"
    by (simp add: planVTCMTiling_def sample_simps getPipelineContract_def default_contract_def
        isLinalgRoot_def getUnboundedFootprintReason_def isDynamic_def kDynamic_def
        determineStagedTileSizes_def keepsReductionsWhole_def suppressCacheTiling_def findOpShape_def
        staged_strategy_def default_strategy_def empty_root_tiling_def)
  have "case planVTCMTiling ?ir sample_context sample_shape (the (getPipelineContract HmxMatmulExpert))
      default_strategy of Inl e \<Rightarrow> False | Inr st' \<Rightarrow> \<exists>ts. st' = staged_strategy default_strategy ts"
    using planVTCMTiling_correct [OF sample_tile_search_laws sample_root_found,
        where ctx = sample_context and st = default_strategy
          and contract = "the (getPipelineContract HmxMatmulExpert)"]
    unfolding run by (auto simp: getPipelineContract_def default_contract_def)
  then show ?thesis using run by (auto simp: staged_strategy_def)
qed

end
