(* ===== verification/Root_Tile_Propagation.thy ===== *)
theory Root_Tile_Propagation
  imports Vtcm_Planning Worklist_Search
begin

text \<open>
  How the root's compute tile bounds the tiles of the operations fused into its loops:
  \<open>CodeGen/Strategy/Planning/RootTilePropagation.cpp\<close>.
\<close>

section \<open>The code\<close>

text \<open>
  \<open>collectRootInputProducers\<close>: everything that feeds the root's inputs, following operands from a
  worklist of values; an operation is expanded once. \<open>None\<close> if the walk does not end.
\<close>

definition rootInputs :: "planner_ir \<Rightarrow> nat \<Rightarrow> nat list" where
  "rootInputs ir root =
     (if isDestinationStyleOp ir root then map (\<lambda>i. opOperands ir root ! i) (dpsInputs ir root)
      else opOperands ir root)"

definition collectRootInputProducers :: "planner_ir \<Rightarrow> nat \<Rightarrow> nat set option" where
  "collectRootInputProducers ir root =
     map_option (\<lambda>(found, producers, worklist). producers)
       (worklist_search (\<lambda>value. False) (getDefiningOp ir) (opOperands ir) (rootInputs ir root))"

record root_fusion_bounds =
  parallelTiles :: "nat \<Rightarrow> int option"
  reductionTiles :: "nat \<Rightarrow> int option"
  inputProducers :: "nat set"

text \<open>\<open>DenseMap::try_emplace\<close>.\<close>

definition try_emplace :: "nat \<Rightarrow> 'v \<Rightarrow> (nat \<Rightarrow> 'v option) \<Rightarrow> nat \<Rightarrow> 'v option" where
  "try_emplace k v m = (if m k = None then m(k := Some v) else m)"

definition add_root_dim ::
  "dispatch_shape \<Rightarrow> tile_decision list \<Rightarrow> local_dim \<Rightarrow> root_fusion_bounds \<Rightarrow> root_fusion_bounds" where
  "add_root_dim dispatchShape computeTile dimension b =
     (if length computeTile \<le> ld_position dimension then b
      else let tile = td_size (computeTile ! ld_position dimension)
           in if tile = 0 then b
              else if classifyComputeTileLevel dispatchShape dimension = Reduction
              then b\<lparr>reductionTiles := try_emplace (ld_global dimension) tile (reductionTiles b)\<rparr>
              else b\<lparr>parallelTiles := try_emplace (ld_global dimension) tile (parallelTiles b)\<rparr>)"

definition empty_bounds :: root_fusion_bounds where
  "empty_bounds = \<lparr>parallelTiles = (\<lambda>_. None), reductionTiles = (\<lambda>_. None), inputProducers = {}\<rparr>"

definition RootFusionBounds ::
  "planner_ir \<Rightarrow> dispatch_shape \<Rightarrow> root_tiling_plan \<Rightarrow> plan_error + root_fusion_bounds" where
  "RootFusionBounds ir dispatchShape plan =
     (case findOpShape dispatchShape (ds_root dispatchShape) of None \<Rightarrow> Inr empty_bounds
      | Some rootShape \<Rightarrow>
          let b = fold (add_root_dim dispatchShape (rt_computeTile plan)) (os_dims rootShape) empty_bounds
          in case collectRootInputProducers ir (ds_root dispatchShape) of
               None \<Rightarrow> Inl DoesNotReturn
             | Some producers \<Rightarrow> Inr (b\<lparr>inputProducers := producers\<rparr>))"

definition getBound :: "root_fusion_bounds \<Rightarrow> nat \<Rightarrow> nat \<Rightarrow> int" where
  "getBound b op global =
     (case parallelTiles b global of Some t \<Rightarrow> t
      | None \<Rightarrow> if op \<notin> inputProducers b then 0
                else (case reductionTiles b global of None \<Rightarrow> 0 | Some t \<Rightarrow> t))"

text \<open>One dimension of one non-root tile: the body of the inner loop.\<close>

definition reconcile_dim ::
  "dispatch_shape \<Rightarrow> root_fusion_bounds \<Rightarrow> bool \<Rightarrow> nat \<Rightarrow> local_dim \<Rightarrow> tile_decision list \<Rightarrow>
   plan_error + tile_decision list" where
  "reconcile_dim dispatchShape bounds refinable op dimension tiles =
     (if classifyComputeTileLevel dispatchShape dimension \<noteq> CommonParallel then Inr tiles
      else let rootTile = getBound bounds op (ld_global dimension);
               tile = tiles ! ld_position dimension
           in if rootTile = 0 then Inr tiles
              else if td_size tile = 0 then Inr tiles
              else let bounded = (if refinable then chooseStaticTilingFactor rootTile (td_size tile) 1
                                  else rootTile)
                   in if bounded = td_size tile then Inr tiles
                      else if hardwareFixed tile
                      then Inl (HardwareFixedTileMismatch op (td_size tile) rootTile)
                      else Inr (tiles[ld_position dimension := tile\<lparr>td_size := bounded\<rparr>]))"

definition reconcile_plan ::
  "planner_ir \<Rightarrow> dispatch_shape \<Rightarrow> pipeline_contract \<Rightarrow> root_fusion_bounds \<Rightarrow> op_compute_tile_plan \<Rightarrow>
   plan_error + op_compute_tile_plan" where
  "reconcile_plan ir dispatchShape contract bounds opPlan =
     (case findOpShape dispatchShape (op_op opPlan) of None \<Rightarrow> Inr opPlan
      | Some opShape \<Rightarrow>
          if length (op_computeTile opPlan) \<noteq> length (os_dims opShape) then Inr opPlan
          else bind_res
            (fold_res (reconcile_dim dispatchShape bounds
                (canRefineComputeTileDownstream ir contract (op_op opPlan)) (op_op opPlan))
              (os_dims opShape) (op_computeTile opPlan))
            (\<lambda>tiles. Inr (opPlan\<lparr>op_computeTile := tiles\<rparr>)))"

definition reconcileNonRootComputeTiles ::
  "planner_ir \<Rightarrow> dispatch_shape \<Rightarrow> pipeline_contract \<Rightarrow> dispatch_plan \<Rightarrow> plan_error + dispatch_plan" where
  "reconcileNonRootComputeTiles ir dispatchShape contract plan =
     (if vectorCommonParallel contract \<noteq> Root then Inr plan
      else if findOpShape dispatchShape (ds_root dispatchShape) = None then Inr plan
      else bind_res (RootFusionBounds ir dispatchShape (rootTiling (dp_strategy plan))) (\<lambda>bounds.
        bind_res (map_res (reconcile_plan ir dispatchShape contract bounds) (nonRootComputeTilePlans plan))
          (\<lambda>plans. Inr (plan\<lparr>nonRootComputeTilePlans := plans\<rparr>))))"

section \<open>The producers of the root's inputs\<close>

text \<open>An operation feeds the root's inputs if it defines one, or an operand of one that does.\<close>

inductive feeds_input :: "planner_ir \<Rightarrow> nat \<Rightarrow> nat \<Rightarrow> bool" for ir root where
  feeds_direct: "v \<in> set (rootInputs ir root) \<Longrightarrow> getDefiningOp ir v = Some p \<Longrightarrow> feeds_input ir root p"
| feeds_operand: "feeds_input ir root q \<Longrightarrow> v \<in> set (opOperands ir q) \<Longrightarrow> getDefiningOp ir v = Some p \<Longrightarrow>
    feeds_input ir root p"

text \<open>The values such a walk can meet; finite in any module.\<close>

definition fed_values :: "planner_ir \<Rightarrow> nat \<Rightarrow> nat set" where
  "fed_values ir root = items (getDefiningOp ir) (opOperands ir) (rootInputs ir root)"

lemma feeds_input_nodes: "{p. feeds_input ir root p} = nodes (getDefiningOp ir) (opOperands ir) (rootInputs ir root)"
proof (intro equalityI subsetI)
  fix p assume "p \<in> {p. feeds_input ir root p}"
  then have "feeds_input ir root p" by simp
  then show "p \<in> nodes (getDefiningOp ir) (opOperands ir) (rootInputs ir root)"
  proof induction
    case (feeds_direct v p)
    then show ?case using items_init by (fastforce simp: nodes_def)
  next
    case (feeds_operand q v p)
    then obtain a where "a \<in> items (getDefiningOp ir) (opOperands ir) (rootInputs ir root)"
      "getDefiningOp ir a = Some q" by (auto simp: nodes_def)
    from items_children [OF this] feeds_operand show ?case by (auto simp: nodes_def)
  qed
next
  let ?S = "{v. v \<in> set (rootInputs ir root) \<or> (\<exists>q. feeds_input ir root q \<and> v \<in> set (opOperands ir q))}"
  have "items (getDefiningOp ir) (opOperands ir) (rootInputs ir root) \<subseteq> ?S"
    by (rule items_closed) (auto intro: feeds_input.intros)
  moreover fix p assume "p \<in> nodes (getDefiningOp ir) (opOperands ir) (rootInputs ir root)"
  ultimately show "p \<in> {p. feeds_input ir root p}"
    by (auto simp: nodes_def intro: feeds_input.intros)
qed

lemma collectRootInputProducers_correct:
  assumes "finite (fed_values ir root)"
  shows "collectRootInputProducers ir root = Some {p. feeds_input ir root p}"
  using worklist_search_correct [of "getDefiningOp ir" "opOperands ir" "rootInputs ir root" "\<lambda>_. False"] assms
  by (auto simp: collectRootInputProducers_def feeds_input_nodes fed_values_def)

section \<open>The bounds\<close>

lemma RootFusionBounds_Inr:
  assumes "RootFusionBounds ir shape plan = Inr b" and "findOpShape shape (ds_root shape) = Some s"
  shows "\<exists>producers. collectRootInputProducers ir (ds_root shape) = Some producers \<and>
    b = (fold (add_root_dim shape (rt_computeTile plan)) (os_dims s) empty_bounds)\<lparr>inputProducers := producers\<rparr>"
  using assms by (auto simp: RootFusionBounds_def Let_def split: option.splits)

definition bounds_pos :: "root_fusion_bounds \<Rightarrow> bool" where
  "bounds_pos b \<longleftrightarrow> (\<forall>g t. parallelTiles b g = Some t \<or> reductionTiles b g = Some t \<longrightarrow> 0 < t)"

lemma add_root_dim_pos:
  assumes "bounds_pos b" and "\<forall>t\<in>set tiles. 0 \<le> td_size t"
  shows "bounds_pos (add_root_dim shape tiles d b)"
proof (cases "length tiles \<le> ld_position d \<or> td_size (tiles ! ld_position d) = 0")
  case False
  then have "tiles ! ld_position d \<in> set tiles" by simp
  with assms(2) have "0 \<le> td_size (tiles ! ld_position d)" by blast
  with False assms(1) show ?thesis
    by (auto simp: add_root_dim_def bounds_pos_def try_emplace_def Let_def)
qed (use assms(1) in \<open>auto simp: add_root_dim_def Let_def\<close>)

lemma RootFusionBounds_pos:
  assumes bounds: "RootFusionBounds ir shape plan = Inr b" and tiles: "\<forall>t\<in>set (rt_computeTile plan). 0 \<le> td_size t"
  shows "bounds_pos b"
proof -
  have "bounds_pos (fold (add_root_dim shape (rt_computeTile plan)) ds b0)" if "bounds_pos b0" for ds b0
    using that by (induction ds arbitrary: b0) (simp_all add: add_root_dim_pos tiles)
  moreover have empty: "bounds_pos empty_bounds" by (simp add: bounds_pos_def empty_bounds_def)
  ultimately have pos: "bounds_pos (fold (add_root_dim shape (rt_computeTile plan)) ds empty_bounds)" for ds
    by blast
  show ?thesis
  proof (cases "findOpShape shape (ds_root shape)")
    case None
    with bounds empty show ?thesis by (simp add: RootFusionBounds_def)
  next
    case (Some s)
    from RootFusionBounds_Inr [OF bounds this] pos [of "os_dims s"] show ?thesis
      by (auto simp: bounds_pos_def)
  qed
qed

lemma getBound_nonneg: "bounds_pos b \<Longrightarrow> 0 \<le> getBound b op g"
  by (auto simp: getBound_def bounds_pos_def less_imp_le split: option.split)

section \<open>Reconciled tiles fit\<close>

text \<open>One dimension fits: left to inference, or an exact part of the root's tile.\<close>

definition dim_fits :: "dispatch_shape \<Rightarrow> root_fusion_bounds \<Rightarrow> bool \<Rightarrow> nat \<Rightarrow> local_dim \<Rightarrow> tile_decision list \<Rightarrow> bool" where
  "dim_fits shape bounds refinable op d tiles \<longleftrightarrow>
     (let rootTile = getBound bounds op (ld_global d); n = td_size (tiles ! ld_position d)
      in classifyComputeTileLevel shape d = CommonParallel \<longrightarrow> rootTile \<noteq> 0 \<longrightarrow> n \<noteq> 0 \<longrightarrow>
         n \<le> rootTile \<and> rootTile mod n = 0 \<and> (\<not> refinable \<longrightarrow> n = rootTile))"

lemma reconcile_dim_Inr:
  assumes pos: "bounds_pos bounds" and tiles: "tiles_ok n tiles" and i: "ld_position d < n"
    and run: "reconcile_dim shape bounds refinable op d tiles = Inr tiles'"
  shows "tiles_ok n tiles'" "dim_fits shape bounds refinable op d tiles'"
    "\<And>j. j \<noteq> ld_position d \<Longrightarrow> tiles' ! j = tiles ! j"
proof -
  let ?t = "tiles ! ld_position d" and ?r = "getBound bounds op (ld_global d)"
  have i': "ld_position d < length tiles" using tiles i by (simp add: tiles_ok_def)
  have t0: "0 \<le> td_size ?t" using tiles i' by (simp add: tiles_ok_def)
  have r0: "0 \<le> ?r" using getBound_nonneg [OF pos] .
  have fact: "chooseStaticTilingFactor ?r (td_size ?t) 1 dvd ?r"
    "0 < chooseStaticTilingFactor ?r (td_size ?t) 1" "chooseStaticTilingFactor ?r (td_size ?t) 1 \<le> ?r"
    if "?r \<noteq> 0" "td_size ?t \<noteq> 0"
    using chooseStaticTilingFactor_divides [of ?r "td_size ?t"] that r0 t0
    by (auto intro: zdvd_imp_le)
  show "tiles_ok n tiles'"
    using run tiles fact r0
    by (auto simp: reconcile_dim_def Let_def less_imp_le split: if_splits intro!: tiles_ok_update)
  show "dim_fits shape bounds refinable op d tiles'"
    using run i' fact by (auto simp: reconcile_dim_def dim_fits_def Let_def mod_eq_0_iff_dvd split: if_splits)
  show "tiles' ! j = tiles ! j" if "j \<noteq> ld_position d" for j
    using run that by (auto simp: reconcile_dim_def Let_def split: if_splits)
qed

lemma reconcile_dims_Inr:
  assumes pos: "bounds_pos bounds"
  shows "fold_res (reconcile_dim shape bounds refinable op) ds tiles = Inr tiles' \<Longrightarrow> tiles_ok n tiles \<Longrightarrow>
    distinct (map ld_position ds) \<Longrightarrow> \<forall>d\<in>set ds. ld_position d < n \<Longrightarrow>
    tiles_ok n tiles' \<and> (\<forall>d\<in>set ds. dim_fits shape bounds refinable op d tiles') \<and>
    (\<forall>j. j \<notin> ld_position ` set ds \<longrightarrow> tiles' ! j = tiles ! j)"
proof (induction ds arbitrary: tiles)
  case (Cons d ds)
  from Cons.prems(1) obtain t1 where
    t1: "reconcile_dim shape bounds refinable op d tiles = Inr t1" and
    rest: "fold_res (reconcile_dim shape bounds refinable op) ds t1 = Inr tiles'"
    by (auto simp: res_simps)
  note one = reconcile_dim_Inr [OF pos Cons.prems(2) _ t1]
  have IH: "tiles_ok n tiles' \<and> (\<forall>d\<in>set ds. dim_fits shape bounds refinable op d tiles') \<and>
      (\<forall>j. j \<notin> ld_position ` set ds \<longrightarrow> tiles' ! j = t1 ! j)"
    by (rule Cons.IH [OF rest one(1)]) (use Cons.prems in auto)
  have "tiles' ! ld_position d = t1 ! ld_position d" using IH Cons.prems(3) by auto
  then have "dim_fits shape bounds refinable op d tiles'"
    using one(2) Cons.prems(4) by (simp add: dim_fits_def)
  with IH one(3) Cons.prems(4) show ?case by auto
qed simp

lemma op_shape_positions: "op_shape_ok ir g s \<Longrightarrow> distinct (map ld_position (os_dims s))"
  by (simp add: op_shape_ok_def)

definition plan_fits ::
  "planner_ir \<Rightarrow> dispatch_shape \<Rightarrow> pipeline_contract \<Rightarrow> root_fusion_bounds \<Rightarrow> op_compute_tile_plan \<Rightarrow> bool" where
  "plan_fits ir shape contract bounds p \<longleftrightarrow>
     (\<exists>s. findOpShape shape (op_op p) = Some s \<and> tiles_ok (length (os_dims s)) (op_computeTile p) \<and>
        (\<forall>d\<in>set (os_dims s). dim_fits shape bounds (canRefineComputeTileDownstream ir contract (op_op p))
           (op_op p) d (op_computeTile p)))"

lemma reconcile_plan_Inr:
  assumes ok: "shape_ok ir shape" and pos: "bounds_pos bounds"
    and found: "findOpShape shape (op_op p) = Some s" and tiles: "tiles_ok (length (os_dims s)) (op_computeTile p)"
    and run: "reconcile_plan ir shape contract bounds p = Inr p'"
  shows "op_op p' = op_op p" "plan_fits ir shape contract bounds p'"
proof -
  have s: "op_shape_ok ir (length (globalDimensions shape)) s"
    using findOpShape_Some [OF found] shape_ok_op [OF ok] by blast
  have len: "length (op_computeTile p) = length (os_dims s)" using tiles by (simp add: tiles_ok_def)
  from run found len obtain tiles' where t: "p' = p\<lparr>op_computeTile := tiles'\<rparr>"
    "fold_res (reconcile_dim shape bounds (canRefineComputeTileDownstream ir contract (op_op p)) (op_op p))
       (os_dims s) (op_computeTile p) = Inr tiles'"
    by (auto simp: reconcile_plan_def res_simps)
  have "\<forall>d\<in>set (os_dims s). ld_position d < length (os_dims s)"
    using op_shape_ok_position_less [OF s] by blast
  with reconcile_dims_Inr [OF pos t(2) tiles op_shape_positions [OF s]] found t(1)
  show "op_op p' = op_op p" "plan_fits ir shape contract bounds p'"
    by (auto simp: plan_fits_def)
qed

text \<open>A plan whose tiles have the rank of their operations.\<close>

definition plans_ok :: "dispatch_shape \<Rightarrow> op_compute_tile_plan list \<Rightarrow> bool" where
  "plans_ok shape plans \<longleftrightarrow>
     (\<forall>p\<in>set plans. \<exists>s. findOpShape shape (op_op p) = Some s \<and> tiles_ok (length (os_dims s)) (op_computeTile p))"

lemma reconcile_Inr:
  assumes ok: "shape_ok ir shape" and plans: "plans_ok shape (nonRootComputeTilePlans plan)"
    and root: "\<forall>t\<in>set (rt_computeTile (rootTiling (dp_strategy plan))). 0 \<le> td_size t"
    and run: "reconcileNonRootComputeTiles ir shape contract plan = Inr plan'"
  shows "dp_strategy plan' = dp_strategy plan"
    "map op_op (nonRootComputeTilePlans plan') = map op_op (nonRootComputeTilePlans plan)"
    "plans_ok shape (nonRootComputeTilePlans plan')"
    "vectorCommonParallel contract = Root \<Longrightarrow> findOpShape shape (ds_root shape) \<noteq> None \<Longrightarrow>
       \<exists>bounds. RootFusionBounds ir shape (rootTiling (dp_strategy plan)) = Inr bounds \<and>
         (\<forall>p\<in>set (nonRootComputeTilePlans plan'). plan_fits ir shape contract bounds p)"
proof -
  consider (Same) "plan' = plan" "vectorCommonParallel contract \<noteq> Root \<or> findOpShape shape (ds_root shape) = None"
    | (Run) bounds ps where "vectorCommonParallel contract = Root"
      "RootFusionBounds ir shape (rootTiling (dp_strategy plan)) = Inr bounds"
      "map_res (reconcile_plan ir shape contract bounds) (nonRootComputeTilePlans plan) = Inr ps"
      "plan' = plan\<lparr>nonRootComputeTilePlans := ps\<rparr>"
  proof (cases "vectorCommonParallel contract \<noteq> Root \<or> findOpShape shape (ds_root shape) = None")
    case True
    then have "plan' = plan" using run by (auto simp: reconcileNonRootComputeTiles_def split: if_splits)
    with True Same show ?thesis by blast
  next
    case False
    then have "\<exists>bounds ps. RootFusionBounds ir shape (rootTiling (dp_strategy plan)) = Inr bounds \<and>
        map_res (reconcile_plan ir shape contract bounds) (nonRootComputeTilePlans plan) = Inr ps \<and>
        Inr (plan\<lparr>nonRootComputeTilePlans := ps\<rparr>) = (Inr plan' :: plan_error + dispatch_plan)"
      using run by (auto simp: reconcileNonRootComputeTiles_def bind_res_Inr split: if_splits)
    with False Run show ?thesis by auto
  qed
  then have "dp_strategy plan' = dp_strategy plan \<and>
      map op_op (nonRootComputeTilePlans plan') = map op_op (nonRootComputeTilePlans plan) \<and>
      plans_ok shape (nonRootComputeTilePlans plan') \<and>
      (vectorCommonParallel contract = Root \<and> findOpShape shape (ds_root shape) \<noteq> None \<longrightarrow>
       (\<exists>bounds. RootFusionBounds ir shape (rootTiling (dp_strategy plan)) = Inr bounds \<and>
         (\<forall>p\<in>set (nonRootComputeTilePlans plan'). plan_fits ir shape contract bounds p)))"
  proof cases
    case Same
    then show ?thesis using plans by auto
  next
    case (Run bounds ps)
    have pos: "bounds_pos bounds" using RootFusionBounds_pos [OF Run(2) root] .
    have all: "list_all2 (\<lambda>p p'. reconcile_plan ir shape contract bounds p = Inr p')
        (nonRootComputeTilePlans plan) ps"
      using Run(3) by (simp add: map_res_Inr)
    have one: "op_op p' = op_op p \<and> plan_fits ir shape contract bounds p'"
      if "p \<in> set (nonRootComputeTilePlans plan)" "reconcile_plan ir shape contract bounds p = Inr p'" for p p'
      using plans that reconcile_plan_Inr [OF ok pos _ _ that(2)] by (auto simp: plans_ok_def)
    have "list_all2 (\<lambda>p p'. op_op p' = op_op p \<and> plan_fits ir shape contract bounds p')
        (nonRootComputeTilePlans plan) ps"
      using all one by (rule list.rel_mono_strong)
    then have fits: "\<forall>p'\<in>set ps. plan_fits ir shape contract bounds p'"
      and ops: "map op_op ps = map op_op (nonRootComputeTilePlans plan)"
      by (induction rule: list_all2_induct) auto
    from fits have "plans_ok shape ps" by (auto simp: plans_ok_def plan_fits_def)
    with Run fits ops show ?thesis by auto
  qed
  then show "dp_strategy plan' = dp_strategy plan"
    "map op_op (nonRootComputeTilePlans plan') = map op_op (nonRootComputeTilePlans plan)"
    "plans_ok shape (nonRootComputeTilePlans plan')"
    "vectorCommonParallel contract = Root \<Longrightarrow> findOpShape shape (ds_root shape) \<noteq> None \<Longrightarrow>
       \<exists>bounds. RootFusionBounds ir shape (rootTiling (dp_strategy plan)) = Inr bounds \<and>
         (\<forall>p\<in>set (nonRootComputeTilePlans plan'). plan_fits ir shape contract bounds p)"
    by blast+
qed

section \<open>Properties\<close>

text \<open>
  The producers of the root's inputs are exactly the operations that define an input of the
  root or, transitively, an operand of such an operation, and the walk ends.
\<close>

theorem root_input_producers_correct:
  assumes "finite (fed_values ir root)"
  shows "collectRootInputProducers ir root = Some {p. feeds_input ir root p}"
  by (rule collectRootInputProducers_correct [OF assms])

theorem root_input_producers_correct_witness:
  "collectRootInputProducers sample_ir 2 = Some {p. feeds_input sample_ir 2 p} \<and> feeds_input sample_ir 2 1 = False"
proof -
  have sub: "fed_values sample_ir 2 \<subseteq> {100, 101}"
    unfolding fed_values_def by (rule items_closed) (auto simp: rootInputs_def sample_simps)
  then have "finite (fed_values sample_ir 2)" using finite_subset by blast
  note run = root_input_producers_correct [OF this]
  have "{p. feeds_input sample_ir 2 p} = {}"
    using sub unfolding feeds_input_nodes fed_values_def by (auto simp: nodes_def sample_simps)
  with run show ?thesis by blast
qed


text \<open>The filled accumulator of the concrete product, tiled 16 by 64 where the root has 8 by 32.\<close>

definition sample_plan :: dispatch_plan where
  "sample_plan = \<lparr>dp_strategy = make_strategy MultiTilingExpert False (noTiles 3) (noTiles 3)
       [TileDecision 8, TileDecision 32, TileDecision 8],
     nonRootComputeTilePlans = [\<lparr>op_op = 1, op_computeTile = [TileDecision 16, TileDecision 64]\<rparr>]\<rparr>"


end
