(* ===== verification/Plan_Verification.thy ===== *)
theory Plan_Verification
  imports Root_Tile_Propagation
begin

text \<open>
  The checks of a complete plan before it is encoded:
  \<open>CodeGen/Strategy/Planning/PlanVerification.cpp\<close>.
\<close>

section \<open>The code\<close>

definition verifyTile :: "nat \<Rightarrow> tile_decision \<Rightarrow> plan_error + unit" where
  "verifyTile op tile = fail_if (td_size tile < 0) (NegativeTile op)"

definition verifyTiles :: "nat \<Rightarrow> tile_decision list \<Rightarrow> plan_error + unit" where
  "verifyTiles op tiles = check_all (verifyTile op) tiles"

text \<open>One dimension in \<open>verifyDispatchShape\<close>; the state is \<open>referencedGlobals\<close>.\<close>

definition verify_dim ::
  "planner_ir \<Rightarrow> dispatch_shape \<Rightarrow> nat \<Rightarrow> nat \<times> local_dim \<Rightarrow> bool list \<Rightarrow> plan_error + bool list" where
  "verify_dim ir dispatchShape op pd referenced =
     (let position = fst pd; dimension = snd pd
      in bind_res (fail_if (ld_position dimension \<noteq> position)
             (LocalPositionMismatch op (ld_position dimension) position)) (\<lambda>_.
         bind_res (fail_if (length (globalDimensions dispatchShape) \<le> ld_global dimension)
             (MissingGlobalDim op (ld_global dimension))) (\<lambda>_.
         let referenced = referenced[ld_global dimension := True]
         in bind_res (fail_if (iteratorType dimension \<noteq> loopIteratorTypes ir op ! position)
             (IteratorTypeMismatch op position)) (\<lambda>_.
         bind_res (fail_if (staticExtent dimension < kDynamic)
             (InvalidStaticExtent op (staticExtent dimension))) (\<lambda>_. Inr referenced)))))"

text \<open>One operation; the state is the set of operations seen and \<open>referencedGlobals\<close>.\<close>

definition verify_op ::
  "planner_ir \<Rightarrow> planning_context \<Rightarrow> dispatch_shape \<Rightarrow> nat \<times> op_shape \<Rightarrow> nat set \<times> bool list \<Rightarrow>
   plan_error + nat set \<times> bool list" where
  "verify_op ir ctx dispatchShape os s =
     (let ordinal = fst os; opShape = snd os; op = os_op opShape; operations = fst s; referenced = snd s
      in bind_res (fail_if (op = 0) NullOperation) (\<lambda>_.
         bind_res (fail_if (op \<in> operations) DuplicateOperation) (\<lambda>_.
         bind_res (fail_if (os_ordinal opShape \<noteq> ordinal)
             (OrdinalMismatch op (os_ordinal opShape) ordinal)) (\<lambda>_.
         bind_res (fail_if (parentFunction ir op \<noteq> Some (pc_entryPoint ctx)) (ForeignOperation op)) (\<lambda>_.
         bind_res (fail_if (\<not> isTilingInterface ir op) (NonTilingOperation op)) (\<lambda>_.
         bind_res (fail_if (length (loopIteratorTypes ir op) \<noteq> length (os_dims opShape))
             (ShapeRankMismatch op)) (\<lambda>_.
         bind_res (fold_res (verify_dim ir dispatchShape op) (enumerate 0 (os_dims opShape)) referenced) (\<lambda>referenced.
         Inr (insert op operations, referenced)))))))))"

definition verify_global ::
  "bool list \<Rightarrow> bool list \<Rightarrow> nat \<times> global_dim \<Rightarrow> plan_error + unit" where
  "verify_global referenced expectedPresentInRoot ig =
     (let index = fst ig; global = snd ig
      in bind_res (fail_if (\<not> referenced ! index) (UnreferencedGlobalDim (gd_id global))) (\<lambda>_.
         fail_if (presentInRoot global \<noteq> expectedPresentInRoot ! index) (RootPresenceMismatch (gd_id global))))"

definition verifyDispatchShape ::
  "planner_ir \<Rightarrow> planning_context \<Rightarrow> dispatch_shape \<Rightarrow> plan_error + unit" where
  "verifyDispatchShape ir ctx dispatchShape =
     (let globals = globalDimensions dispatchShape; none = replicate (length globals) False;
          root = ds_root dispatchShape; rootShape = findOpShape dispatchShape root
      in bind_res (fail_if (ds_entryPoint dispatchShape = 0 \<or> ds_entryPoint dispatchShape \<noteq> pc_entryPoint ctx)
             ForeignEntryPoint) (\<lambda>_.
         bind_res (check_all (\<lambda>(index, global). fail_if (gd_id global \<noteq> index) (GlobalDimMismatch (gd_id global) index))
             (enumerate 0 globals)) (\<lambda>_.
         bind_res (fold_res (verify_op ir ctx dispatchShape) (enumerate 0 (ds_operations dispatchShape)) ({}, none))
           (\<lambda>s.
         bind_res (fail_if (root \<noteq> 0 \<and> rootShape = None) (RootNotAnalyzed root)) (\<lambda>_.
         let expectedPresentInRoot =
           (case (if root = 0 then None else rootShape) of None \<Rightarrow> none
            | Some shape \<Rightarrow> fold (\<lambda>d e. e[ld_global d := True]) (os_dims shape) none)
         in check_all (verify_global (snd s) expectedPresentInRoot) (enumerate 0 globals))))))"

definition carriesLevel ::
  "dispatch_shape \<Rightarrow> op_shape \<Rightarrow> tile_decision list \<Rightarrow> compute_tile_level \<Rightarrow> bool" where
  "carriesLevel dispatchShape opShape computeTile level \<longleftrightarrow>
     list_ex (\<lambda>d. td_size (computeTile ! ld_position d) \<noteq> 0 \<and> classifyComputeTileLevel dispatchShape d = level)
       (os_dims opShape)"

record boundary_anchors =
  beforeRoot :: "op_shape option"
  afterRoot :: "op_shape option"

definition getBoundaryAnchors :: "op_shape list \<Rightarrow> op_shape \<Rightarrow> bool \<Rightarrow> boundary_anchors" where
  "getBoundaryAnchors carryingOperations rootShape hasRootAnchor =
     (if \<not> hasRootAnchor then
        \<lparr>beforeRoot = None, afterRoot = (if carryingOperations = [] then None else Some (last carryingOperations))\<rparr>
      else fold (\<lambda>opShape anchors.
             if os_ordinal opShape < os_ordinal rootShape then anchors\<lparr>beforeRoot := Some opShape\<rparr>
             else if os_ordinal rootShape < os_ordinal opShape then anchors\<lparr>afterRoot := Some opShape\<rparr>
             else anchors)
           carryingOperations \<lparr>beforeRoot = None, afterRoot = None\<rparr>)"

definition isLoopTileConsumed ::
  "loop_tiling_scope \<Rightarrow> op_shape \<Rightarrow> op_shape \<Rightarrow> boundary_anchors \<Rightarrow> bool" where
  "isLoopTileConsumed scope opShape rootShape anchors =
     (case scope of Unused \<Rightarrow> False
      | Root \<Rightarrow> os_op opShape = os_op rootShape
      | EveryConfiguredOperation \<Rightarrow> True
      | LastConfiguredOnEachSideOfRoot \<Rightarrow>
          Some opShape = beforeRoot anchors \<or> Some opShape = afterRoot anchors)"

definition verifyComputeTileConsumption ::
  "dispatch_shape \<Rightarrow> op_shape \<Rightarrow> pipeline_contract \<Rightarrow> (nat \<Rightarrow> tile_decision list option) \<Rightarrow> bool \<Rightarrow>
   plan_error + unit" where
  "verifyComputeTileConsumption dispatchShape rootShape contract computeTiles hasRootAnchor =
     (let consumesConfiguredVectorShape = (runsTileToVectorSize contract \<or> usesConfiguredVectorSizes contract)
      in check_all (\<lambda>level.
           let carryingOperations = filter (\<lambda>opShape. case computeTiles (os_op opShape) of None \<Rightarrow> False
                 | Some tile \<Rightarrow> carriesLevel dispatchShape opShape tile level) (ds_operations dispatchShape);
               scope = getLoopTilingScope contract level;
               anchors = getBoundaryAnchors carryingOperations rootShape hasRootAnchor
           in check_all (\<lambda>opShape.
                fail_if (\<not> (consumesConfiguredVectorShape \<or> isLoopTileConsumed scope opShape rootShape anchors))
                  (LevelNotConsumed (os_op opShape) level)) carryingOperations)
         [CommonParallel, Reduction, InnerParallel])"

text \<open>One dimension in \<open>verifyNonRootTileFitsRootFusionTile\<close>.\<close>

definition verify_fit ::
  "dispatch_shape \<Rightarrow> root_fusion_bounds \<Rightarrow> bool \<Rightarrow> nat \<Rightarrow> tile_decision list \<Rightarrow> local_dim \<Rightarrow> plan_error + unit" where
  "verify_fit dispatchShape bounds refinable op computeTile dimension =
     (if classifyComputeTileLevel dispatchShape dimension \<noteq> CommonParallel then Inr ()
      else let rootTile = getBound bounds op (ld_global dimension);
               n = td_size (computeTile ! ld_position dimension);
               position = ld_position dimension
           in if rootTile = 0 \<or> n = 0 then Inr ()
              else bind_res (fail_if (rootTile < n) (TileExceedsRootTile op position n rootTile)) (\<lambda>_.
                   bind_res (fail_if (rootTile mod n \<noteq> 0) (TileDoesNotDivideRootTile op position n rootTile)) (\<lambda>_.
                   fail_if (\<not> refinable \<and> n \<noteq> rootTile) (TileMustEqualRootTile op position n rootTile))))"

definition verifyNonRootTileFitsRootFusionTile ::
  "planner_ir \<Rightarrow> dispatch_shape \<Rightarrow> pipeline_contract \<Rightarrow> root_fusion_bounds \<Rightarrow> op_shape \<Rightarrow>
   tile_decision list \<Rightarrow> plan_error + unit" where
  "verifyNonRootTileFitsRootFusionTile ir dispatchShape contract bounds opShape computeTile =
     (if vectorCommonParallel contract \<noteq> Root then Inr ()
      else check_all (verify_fit dispatchShape bounds
             (canRefineComputeTileDownstream ir contract (os_op opShape)) (os_op opShape) computeTile)
           (os_dims opShape))"

definition verifyPipelineRequirements ::
  "dispatch_strategy \<Rightarrow> pipeline_contract \<Rightarrow> plan_error + unit" where
  "verifyPipelineRequirements strategy contract =
     (let root = rootTiling strategy
      in bind_res (fail_if (requestLoopPeeling strategy \<and> loopPeeling contract \<noteq> TranslationInfoControlled)
             PeelingNotAccepted) (\<lambda>_.
         bind_res (fail_if (vtcmRequirement contract = VTCMRequired \<and> rt_vtcm root = None) PipelineRequiresVTCM) (\<lambda>_.
         bind_res (fail_if (vtcmRequirement contract = VTCMUnsupported \<and> rt_vtcm root \<noteq> None) VTCMNotConsumed) (\<lambda>_.
         fail_if (rt_vtcm root \<noteq> None \<and> list_ex (\<lambda>t. td_size t \<noteq> 0) (cacheTile root)) CacheNotSuppressed))))"

definition verifyRootTilingPlan ::
  "op_shape \<Rightarrow> dispatch_strategy \<Rightarrow> pipeline_contract \<Rightarrow> plan_error + unit" where
  "verifyRootTilingPlan rootShape strategy contract =
     (let rootOp = os_op rootShape; root = rootTiling strategy; rootRank = length (os_dims rootShape)
      in bind_res (fail_if (length (distributionTile root) \<noteq> rootRank \<or> length (cacheTile root) \<noteq> rootRank \<or>
               length (rt_computeTile root) \<noteq> rootRank \<or>
               (hmxTile root \<noteq> [] \<and> length (hmxTile root) \<noteq> rootRank) \<or>
               (case rt_vtcm root of None \<Rightarrow> False | Some v \<Rightarrow> length v \<noteq> rootRank))
             (RootPlanRankMismatch rootOp)) (\<lambda>_.
         bind_res (verifyTiles rootOp (distributionTile root)) (\<lambda>_.
         bind_res (verifyTiles rootOp (cacheTile root)) (\<lambda>_.
         bind_res (verifyTiles rootOp (rt_computeTile root)) (\<lambda>_.
         bind_res (verifyTiles rootOp (hmxTile root)) (\<lambda>_.
         bind_res (case rt_vtcm root of None \<Rightarrow> Inr () | Some v \<Rightarrow> verifyTiles rootOp v) (\<lambda>_.
         bind_res (fail_if (list_ex (\<lambda>t. 0 < td_size t) (cacheTile root) \<and> cacheParallel contract = Unused)
             (CacheTileNotConsumed rootOp)) (\<lambda>_.
         fail_if (list_ex (\<lambda>t. 0 < td_size t) (hmxTile root) \<and> hmxScope contract = Unused)
             (HmxTileNotConsumed rootOp)))))))))"

text \<open>One non-root plan; the state is the set of configured operations and the tiles collected.\<close>

definition verify_op_plan ::
  "planner_ir \<Rightarrow> dispatch_shape \<Rightarrow> pipeline_contract \<Rightarrow> root_fusion_bounds \<Rightarrow> op_compute_tile_plan \<Rightarrow>
   nat set \<times> (nat \<Rightarrow> tile_decision list option) \<Rightarrow>
   plan_error + nat set \<times> (nat \<Rightarrow> tile_decision list option)" where
  "verify_op_plan ir dispatchShape contract fusionBounds opPlan s =
     (let op = op_op opPlan; configured = fst s; computeTiles = snd s
      in case findOpShape dispatchShape op of None \<Rightarrow> Inl InvalidNonRootPlan
         | Some opShape \<Rightarrow>
             bind_res (fail_if (op = ds_root dispatchShape \<or> op \<in> configured) InvalidNonRootPlan) (\<lambda>_.
             bind_res (fail_if (\<not> supportsIndependentNonRootComputeTiles contract) (NonRootTilesUnsupported op)) (\<lambda>_.
             bind_res (fail_if (length (op_computeTile opPlan) \<noteq> length (os_dims opShape))
                 (ComputeTileRankMismatch op)) (\<lambda>_.
             bind_res (verifyTiles op (op_computeTile opPlan)) (\<lambda>_.
             bind_res (verifyNonRootTileFitsRootFusionTile ir dispatchShape contract fusionBounds opShape
                 (op_computeTile opPlan)) (\<lambda>_.
             Inr (insert op configured, computeTiles(op := Some (op_computeTile opPlan)))))))))"

definition collectAndVerifyComputeTiles ::
  "planner_ir \<Rightarrow> dispatch_shape \<Rightarrow> dispatch_plan \<Rightarrow> pipeline_contract \<Rightarrow> op_shape \<Rightarrow>
   plan_error + (nat \<Rightarrow> tile_decision list option)" where
  "collectAndVerifyComputeTiles ir dispatchShape plan contract rootShape =
     (let root = rootTiling (dp_strategy plan)
      in bind_res (RootFusionBounds ir dispatchShape root) (\<lambda>fusionBounds.
         bind_res (fold_res (verify_op_plan ir dispatchShape contract fusionBounds) (nonRootComputeTilePlans plan)
             ({}, (\<lambda>_. None)(os_op rootShape := Some (rt_computeTile root)))) (\<lambda>s. Inr (snd s))))"

definition hasRootAnchorPlan :: "dispatch_strategy \<Rightarrow> pipeline_contract \<Rightarrow> bool" where
  "hasRootAnchorPlan strategy contract \<longleftrightarrow>
     requiresUniqueRootAnchor contract \<or> list_ex (\<lambda>t. td_size t \<noteq> 0) (distributionTile (rootTiling strategy))"

definition verifyDispatchPlan ::
  "planner_ir \<Rightarrow> planning_context \<Rightarrow> dispatch_shape \<Rightarrow> dispatch_plan \<Rightarrow> pipeline_contract \<Rightarrow> plan_error + unit" where
  "verifyDispatchPlan ir ctx dispatchShape plan contract =
     bind_res (verifyDispatchShape ir ctx dispatchShape) (\<lambda>_.
     bind_res (verifyPipelineRequirements (dp_strategy plan) contract) (\<lambda>_.
     case findOpShape dispatchShape (ds_root dispatchShape) of None \<Rightarrow> Inl NoAnalyzedRoot
     | Some rootShape \<Rightarrow>
         bind_res (verifyRootTilingPlan rootShape (dp_strategy plan) contract) (\<lambda>_.
         bind_res (collectAndVerifyComputeTiles ir dispatchShape plan contract rootShape) (\<lambda>computeTiles.
         verifyComputeTileConsumption dispatchShape rootShape contract computeTiles
           (hasRootAnchorPlan (dp_strategy plan) contract)))))"

section \<open>Which shapes are accepted\<close>

text \<open>A consistent shape, stated declaratively.\<close>

definition op_consistent :: "planner_ir \<Rightarrow> nat \<Rightarrow> nat \<Rightarrow> op_shape \<Rightarrow> bool" where
  "op_consistent ir entry globals s \<longleftrightarrow>
     os_op s \<noteq> 0 \<and> parentFunction ir (os_op s) = Some entry \<and> isTilingInterface ir (os_op s) \<and>
     map ld_position (os_dims s) = [0..<length (os_dims s)] \<and>
     map iteratorType (os_dims s) = loopIteratorTypes ir (os_op s) \<and>
     (\<forall>d\<in>set (os_dims s). ld_global d < globals \<and> kDynamic \<le> staticExtent d)"

definition referenced_globals :: "op_shape list \<Rightarrow> nat set" where
  "referenced_globals ops = (\<Union>s\<in>set ops. ld_global ` set (os_dims s))"

definition shape_consistent :: "planner_ir \<Rightarrow> planning_context \<Rightarrow> dispatch_shape \<Rightarrow> bool" where
  "shape_consistent ir ctx shape \<longleftrightarrow>
     (let n = length (globalDimensions shape)
      in ds_entryPoint shape = pc_entryPoint ctx \<and> ds_entryPoint shape \<noteq> 0 \<and>
         map gd_id (globalDimensions shape) = [0..<n] \<and>
         map os_ordinal (ds_operations shape) = [0..<length (ds_operations shape)] \<and>
         distinct (map os_op (ds_operations shape)) \<and>
         (\<forall>s\<in>set (ds_operations shape). op_consistent ir (pc_entryPoint ctx) n s) \<and>
         (ds_root shape \<noteq> 0 \<longrightarrow> ds_root shape \<in> os_op ` set (ds_operations shape)) \<and>
         referenced_globals (ds_operations shape) = {0..<n} \<and>
         (\<forall>i<n. presentInRoot (globalDimensions shape ! i) \<longleftrightarrow>
            (ds_root shape \<noteq> 0 \<and> (\<exists>s. findOpShape shape (ds_root shape) = Some s \<and> i \<in> ld_global ` set (os_dims s)))))"

lemma fold_res_pure:
  assumes "\<And>x s s'. x \<in> set xs \<Longrightarrow> f x s = Inr s' \<longleftrightarrow> c x \<and> s' = g x s"
  shows "fold_res f xs s = Inr s' \<longleftrightarrow> (\<forall>x\<in>set xs. c x) \<and> s' = fold g xs s"
  using assms by (induction xs arbitrary: s) (auto simp: bind_res_Inr)

lemma all_enumerate: "(\<forall>x\<in>set (enumerate n xs). P x) \<longleftrightarrow> (\<forall>i<length xs. P (n + i, xs ! i))"
proof
  assume all: "\<forall>x\<in>set (enumerate n xs). P x"
  show "\<forall>i<length xs. P (n + i, xs ! i)"
  proof (intro allI impI)
    fix i assume "i < length xs"
    then have "(n + i, xs ! i) \<in> set (enumerate n xs)" by (simp add: in_set_enumerate_eq)
    with all show "P (n + i, xs ! i)" by blast
  qed
next
  assume all: "\<forall>i<length xs. P (n + i, xs ! i)"
  show "\<forall>x\<in>set (enumerate n xs). P x"
  proof
    fix x assume "x \<in> set (enumerate n xs)"
    then have "n \<le> fst x" "fst x - n < length xs" "snd x = xs ! (fst x - n)"
      by (auto simp: in_set_enumerate_eq)
    with all [rule_format, of "fst x - n"] show "P x" by (cases x) simp
  qed
qed

lemma map_eq_upt: "map f xs = [0..<length xs] \<longleftrightarrow> (\<forall>i<length xs. f (xs ! i) = i)"
proof
  assume eq: "map f xs = [0..<length xs]"
  show "\<forall>i<length xs. f (xs ! i) = i"
  proof (intro allI impI)
    fix i assume "i < length xs"
    then show "f (xs ! i) = i" using arg_cong [OF eq, of "\<lambda>l. l ! i"] by simp
  qed
qed (auto intro: nth_equalityI)

lemma map_eq_nth: "map f xs = ys \<longleftrightarrow> length ys = length xs \<and> (\<forall>i<length xs. f (xs ! i) = ys ! i)"
  by (auto simp: list_eq_iff_nth_eq)

text \<open>Marking flags by index.\<close>

lemma length_fold_flags [simp]: "length (fold (\<lambda>x r. r[p x := True]) xs flags) = length flags"
  by (induction xs arbitrary: flags) auto

lemma fold_flags_nth:
  "i < length flags \<Longrightarrow> fold (\<lambda>x r. r[p x := True]) xs flags ! i \<longleftrightarrow> flags ! i \<or> i \<in> p ` set xs"
proof (induction xs arbitrary: flags)
  case (Cons a xs)
  then show ?case by (cases "p a = i") auto
qed simp

lemma verify_dims_Inr:
  "fold_res (verify_dim ir shape op) (enumerate 0 ds) r = Inr r' \<longleftrightarrow>
   (\<forall>i<length ds. ld_position (ds ! i) = i \<and> ld_global (ds ! i) < length (globalDimensions shape) \<and>
      iteratorType (ds ! i) = loopIteratorTypes ir op ! i \<and> kDynamic \<le> staticExtent (ds ! i)) \<and>
   r' = fold (\<lambda>d r. r[ld_global d := True]) ds r"
proof -
  have "fold_res (verify_dim ir shape op) (enumerate 0 ds) r = Inr r' \<longleftrightarrow>
      (\<forall>x\<in>set (enumerate 0 ds). ld_position (snd x) = fst x \<and>
        ld_global (snd x) < length (globalDimensions shape) \<and>
        iteratorType (snd x) = loopIteratorTypes ir op ! fst x \<and> kDynamic \<le> staticExtent (snd x)) \<and>
      r' = fold (\<lambda>x r. r[ld_global (snd x) := True]) (enumerate 0 ds) r"
    by (rule fold_res_pure) (auto simp: verify_dim_def res_simps Let_def)
  also have "fold (\<lambda>x r. r[ld_global (snd x) := True]) (enumerate 0 ds) r =
      fold (\<lambda>d r. r[ld_global d := True]) (map snd (enumerate 0 ds)) r"
    by (simp only: fold_map o_def)
  finally show ?thesis by (simp add: all_enumerate)
qed

lemma verify_op_Inr:
  "verify_op ir ctx shape (n, s) (seen, r) = Inr t \<longleftrightarrow>
   op_consistent ir (pc_entryPoint ctx) (length (globalDimensions shape)) s \<and> os_op s \<notin> seen \<and> os_ordinal s = n \<and>
   t = (insert (os_op s) seen, fold (\<lambda>d r. r[ld_global d := True]) (os_dims s) r)"
  unfolding op_consistent_def
  by (auto simp: verify_op_def res_simps verify_dims_Inr map_eq_upt map_eq_nth all_set_conv_all_nth Let_def)

lemma verify_ops_Inr:
  "fold_res (verify_op ir ctx shape) (enumerate n ops) (seen, r) = Inr t \<longleftrightarrow>
   (\<forall>s\<in>set ops. op_consistent ir (pc_entryPoint ctx) (length (globalDimensions shape)) s) \<and>
   distinct (map os_op ops) \<and> os_op ` set ops \<inter> seen = {} \<and>
   map os_ordinal ops = [n..<n + length ops] \<and>
   t = (os_op ` set ops \<union> seen, fold (\<lambda>d r. r[ld_global d := True]) (concat (map os_dims ops)) r)"
proof (induction ops arbitrary: n seen r)
  case (Cons s ops)
  have upt: "[n..<n + length (s # ops)] = n # [Suc n..<Suc n + length ops]"
    by (simp only: upt_conv_Cons list.size add_Suc_right add_Suc) simp
  show ?case
    unfolding upt by (auto simp: bind_res_Inr verify_op_Inr Cons.IH)
qed auto

lemma ex_conj_eq: "(\<exists>t. (a \<and> b \<and> c \<and> t = x) \<and> d \<and> P t) \<longleftrightarrow> a \<and> b \<and> c \<and> d \<and> P x"
  by blast

lemma verify_global_Inr:
  "verify_global referenced expected (i, g) = Inr u \<longleftrightarrow> referenced ! i \<and> presentInRoot g = expected ! i"
  by (auto simp: verify_global_def res_simps Let_def)

lemma verifyDispatchShape_iff:
  "verifyDispatchShape ir ctx shape = Inr () \<longleftrightarrow> shape_consistent ir ctx shape"
proof -
  let ?n = "length (globalDimensions shape)" and ?root = "ds_root shape"
  let ?none = "replicate ?n False" and ?ops = "ds_operations shape"
  let ?flags = "fold (\<lambda>d r. r[ld_global d := True]) (concat (map os_dims ?ops)) ?none"
  let ?expected = "case (if ?root = 0 then None else findOpShape shape ?root) of None \<Rightarrow> ?none
     | Some s \<Rightarrow> fold (\<lambda>d e. e[ld_global d := True]) (os_dims s) ?none"
  have globals: "map gd_id (globalDimensions shape) = [0..<?n] \<longleftrightarrow>
      (\<forall>x\<in>set (enumerate 0 (globalDimensions shape)). gd_id (snd x) = fst x)"
    by (simp add: map_eq_upt all_enumerate)
  have ref: "?flags ! i \<longleftrightarrow> i \<in> referenced_globals ?ops" if "i < ?n" for i
    using that by (auto simp: fold_flags_nth referenced_globals_def)
  have ex: "?expected ! i \<longleftrightarrow>
      (?root \<noteq> 0 \<and> (\<exists>s. findOpShape shape ?root = Some s \<and> i \<in> ld_global ` set (os_dims s)))"
    if "i < ?n" for i
    using that by (auto simp: fold_flags_nth split: option.splits)
  have last: "(\<forall>x\<in>set (enumerate 0 (globalDimensions shape)). verify_global ?flags ?expected x = Inr ()) \<longleftrightarrow>
      (\<forall>i<?n. i \<in> referenced_globals ?ops) \<and>
      (\<forall>i<?n. presentInRoot (globalDimensions shape ! i) \<longleftrightarrow>
         (?root \<noteq> 0 \<and> (\<exists>s. findOpShape shape ?root = Some s \<and> i \<in> ld_global ` set (os_dims s))))"
    unfolding all_enumerate verify_global_Inr add_0
    by (simp only: ref ex conj_imp_eq_imp_imp imp_conjR all_conj_distrib cong: imp_cong)
  have range: "referenced_globals ?ops \<subseteq> {0..<?n}"
    if "\<forall>s\<in>set ?ops. op_consistent ir (pc_entryPoint ctx) ?n s"
    using that by (fastforce simp: referenced_globals_def op_consistent_def)
  have "verifyDispatchShape ir ctx shape = Inr () \<longleftrightarrow>
      ds_entryPoint shape = pc_entryPoint ctx \<and> ds_entryPoint shape \<noteq> 0 \<and>
      (\<forall>x\<in>set (enumerate 0 (globalDimensions shape)). gd_id (snd x) = fst x) \<and>
      (\<exists>t. fold_res (verify_op ir ctx shape) (enumerate 0 ?ops) ({}, ?none) = Inr t \<and>
        (?root \<noteq> 0 \<longrightarrow> findOpShape shape ?root \<noteq> None) \<and>
        (\<forall>x\<in>set (enumerate 0 (globalDimensions shape)). verify_global (snd t) ?expected x = Inr ()))"
    unfolding verifyDispatchShape_def Let_def bind_res_Inr fail_if_Inr check_all_Inr
    by (auto simp: split_beta fail_if_Inr)
  also have "\<dots> \<longleftrightarrow> ds_entryPoint shape = pc_entryPoint ctx \<and> ds_entryPoint shape \<noteq> 0 \<and>
      map gd_id (globalDimensions shape) = [0..<?n] \<and>
      (\<forall>s\<in>set ?ops. op_consistent ir (pc_entryPoint ctx) ?n s) \<and> distinct (map os_op ?ops) \<and>
      map os_ordinal ?ops = [0..<length ?ops] \<and> (?root \<noteq> 0 \<longrightarrow> findOpShape shape ?root \<noteq> None) \<and>
      (\<forall>i<?n. i \<in> referenced_globals ?ops) \<and>
      (\<forall>i<?n. presentInRoot (globalDimensions shape ! i) \<longleftrightarrow>
         (?root \<noteq> 0 \<and> (\<exists>s. findOpShape shape ?root = Some s \<and> i \<in> ld_global ` set (os_dims s))))"
    unfolding globals verify_ops_Inr
    by (simp only: ex_conj_eq last snd_conv Int_empty_right add_0 simp_thms)
  also have "\<dots> \<longleftrightarrow> shape_consistent ir ctx shape"
    unfolding shape_consistent_def Let_def findOpShape_None using range by fastforce
  finally show ?thesis .
qed

section \<open>Which plans are accepted\<close>

lemma verifyTiles_ok: "tiles_ok n ts \<Longrightarrow> verifyTiles op ts = Inr ()"
  by (auto simp: verifyTiles_def verifyTile_def tiles_ok_def res_simps)

lemma all_zero_list_ex: "all_zero ts \<Longrightarrow> \<not> list_ex (\<lambda>t. 0 < td_size t) ts" "all_zero ts \<longleftrightarrow> \<not> list_ex (\<lambda>t. td_size t \<noteq> 0) ts"
  by (auto simp: all_zero_def list_ex_iff)

text \<open>The strategy after VTCM planning: as selected, or with a VTCM stage the pipeline accepts.\<close>

definition vtcm_planned :: "planner_ir \<Rightarrow> pipeline_contract \<Rightarrow> op_shape \<Rightarrow> dispatch_strategy \<Rightarrow> dispatch_strategy \<Rightarrow> bool" where
  "vtcm_planned ir contract s st0 st \<longleftrightarrow>
     st = st0 \<and> vtcmRequirement contract \<noteq> VTCMRequired \<or>
     (\<exists>ts. st = staged_strategy st0 ts \<and> vtcmRequirement contract \<noteq> VTCMUnsupported \<and>
        length ts = length (os_dims s) \<and> (\<forall>t\<in>set ts. 0 \<le> t))"

lemma staged_strategy_simps:
  "st_pipeline (staged_strategy st ts) = st_pipeline st"
  "requestLoopPeeling (staged_strategy st ts) = requestLoopPeeling st"
  "rt_vtcm (rootTiling (staged_strategy st ts)) = Some (map TileDecision ts)"
  "distributionTile (rootTiling (staged_strategy st ts)) = distributionTile (rootTiling st)"
  "hmxTile (rootTiling (staged_strategy st ts)) = hmxTile (rootTiling st)"
  "rt_computeTile (rootTiling (staged_strategy st ts)) = rt_computeTile (rootTiling st)"
  "cacheTile (rootTiling (staged_strategy st ts)) = map (\<lambda>tile. tile\<lparr>td_size := 0\<rparr>) (cacheTile (rootTiling st))"
  by (simp_all add: staged_strategy_def)

text \<open>A planned strategy, field by field.\<close>

lemma planned_root:
  assumes "strategy_ok s st0" and "getPipelineContract (st_pipeline st0) = Some contract"
    and "vtcm_planned ir contract s st0 st"
  shows "st_pipeline st = st_pipeline st0" "requestLoopPeeling st = requestLoopPeeling st0"
    "requestLoopPeeling st \<Longrightarrow> loopPeeling contract = TranslationInfoControlled"
    "tiles_ok (length (os_dims s)) (distributionTile (rootTiling st))"
    "tiles_ok (length (os_dims s)) (cacheTile (rootTiling st))"
    "tiles_ok (length (os_dims s)) (rt_computeTile (rootTiling st))"
    "hmxTile (rootTiling st) = [] \<or> tiles_ok (length (os_dims s)) (hmxTile (rootTiling st))"
    "\<And>v. rt_vtcm (rootTiling st) = Some v \<Longrightarrow> tiles_ok (length (os_dims s)) v"
    "rt_vtcm (rootTiling st) = None \<Longrightarrow> vtcmRequirement contract \<noteq> VTCMRequired"
    "rt_vtcm (rootTiling st) \<noteq> None \<Longrightarrow> vtcmRequirement contract \<noteq> VTCMUnsupported \<and> all_zero (cacheTile (rootTiling st))"
    "cacheParallel contract = Unused \<Longrightarrow> all_zero (cacheTile (rootTiling st))"
    "hmxScope contract = Unused \<Longrightarrow> all_zero (hmxTile (rootTiling st))"
    "\<not> usesConfiguredVectorSizes contract \<Longrightarrow> all_zero (distributionTile (rootTiling st))"
    "\<not> usesConfiguredVectorSizes contract \<Longrightarrow> i < length (os_dims s) \<Longrightarrow> iteratorType (os_dims s ! i) \<noteq> parallel \<Longrightarrow>
       td_size (rt_computeTile (rootTiling st) ! i) = 0"
proof -
  let ?n = "length (os_dims s)"
  have base: "rt_vtcm (rootTiling st0) = None" "tiles_ok ?n (distributionTile (rootTiling st0))"
    "tiles_ok ?n (cacheTile (rootTiling st0))" "tiles_ok ?n (rt_computeTile (rootTiling st0))"
    "hmxTile (rootTiling st0) = [] \<or> tiles_ok ?n (hmxTile (rootTiling st0))"
    "requestLoopPeeling st0 \<Longrightarrow> loopPeeling contract = TranslationInfoControlled"
    "cacheParallel contract = Unused \<Longrightarrow> all_zero (cacheTile (rootTiling st0))"
    "hmxScope contract = Unused \<Longrightarrow> all_zero (hmxTile (rootTiling st0))"
    "\<not> usesConfiguredVectorSizes contract \<Longrightarrow> all_zero (distributionTile (rootTiling st0))"
    "\<not> usesConfiguredVectorSizes contract \<Longrightarrow> i < length (os_dims s) \<Longrightarrow> iteratorType (os_dims s ! i) \<noteq> parallel \<Longrightarrow>
       td_size (rt_computeTile (rootTiling st0) ! i) = 0" for i
    using assms(1,2) by (simp_all add: strategy_ok_def Let_def)
  have kept: "st_pipeline st = st_pipeline st0 \<and> requestLoopPeeling st = requestLoopPeeling st0 \<and>
      distributionTile (rootTiling st) = distributionTile (rootTiling st0) \<and>
      hmxTile (rootTiling st) = hmxTile (rootTiling st0) \<and>
      rt_computeTile (rootTiling st) = rt_computeTile (rootTiling st0)"
    using assms(3) by (auto simp: vtcm_planned_def staged_strategy_simps)
  have "st = st0 \<and> vtcmRequirement contract \<noteq> VTCMRequired \<or>
      vtcmRequirement contract \<noteq> VTCMUnsupported \<and> all_zero (cacheTile (rootTiling st)) \<and>
      tiles_ok ?n (cacheTile (rootTiling st)) \<and> (\<exists>v. rt_vtcm (rootTiling st) = Some v \<and> tiles_ok ?n v)"
    using assms(3) base(3) by (auto simp: vtcm_planned_def staged_strategy_simps all_zero_def tiles_ok_def)
  then have vtcm: "tiles_ok ?n (cacheTile (rootTiling st))"
    "\<And>v. rt_vtcm (rootTiling st) = Some v \<Longrightarrow> tiles_ok ?n v"
    "rt_vtcm (rootTiling st) = None \<Longrightarrow> vtcmRequirement contract \<noteq> VTCMRequired"
    "rt_vtcm (rootTiling st) \<noteq> None \<Longrightarrow> vtcmRequirement contract \<noteq> VTCMUnsupported \<and> all_zero (cacheTile (rootTiling st))"
    "cacheParallel contract = Unused \<Longrightarrow> all_zero (cacheTile (rootTiling st))"
    using base(1,3,7) by auto
  show "st_pipeline st = st_pipeline st0" "requestLoopPeeling st = requestLoopPeeling st0"
    "requestLoopPeeling st \<Longrightarrow> loopPeeling contract = TranslationInfoControlled"
    "tiles_ok ?n (distributionTile (rootTiling st))"
    "tiles_ok ?n (rt_computeTile (rootTiling st))"
    "hmxTile (rootTiling st) = [] \<or> tiles_ok ?n (hmxTile (rootTiling st))"
    "hmxScope contract = Unused \<Longrightarrow> all_zero (hmxTile (rootTiling st))"
    "\<not> usesConfiguredVectorSizes contract \<Longrightarrow> all_zero (distributionTile (rootTiling st))"
    "\<not> usesConfiguredVectorSizes contract \<Longrightarrow> i < ?n \<Longrightarrow> iteratorType (os_dims s ! i) \<noteq> parallel \<Longrightarrow>
       td_size (rt_computeTile (rootTiling st) ! i) = 0"
    using kept base by simp_all
  show "tiles_ok ?n (cacheTile (rootTiling st))"
    "\<And>v. rt_vtcm (rootTiling st) = Some v \<Longrightarrow> tiles_ok ?n v"
    "rt_vtcm (rootTiling st) = None \<Longrightarrow> vtcmRequirement contract \<noteq> VTCMRequired"
    "rt_vtcm (rootTiling st) \<noteq> None \<Longrightarrow> vtcmRequirement contract \<noteq> VTCMUnsupported \<and> all_zero (cacheTile (rootTiling st))"
    "cacheParallel contract = Unused \<Longrightarrow> all_zero (cacheTile (rootTiling st))"
    by (fact vtcm)+
qed

lemma verifyPipelineRequirements_ok:
  assumes "strategy_ok s st0" and "getPipelineContract (st_pipeline st0) = Some contract"
    and "vtcm_planned ir contract s st0 st"
  shows "verifyPipelineRequirements st contract = Inr ()"
  using planned_root(3,9,10) [OF assms]
  by (auto simp: verifyPipelineRequirements_def Let_def res_simps all_zero_list_ex simp del: not_None_eq)

lemma verifyRootTilingPlan_ok:
  assumes "strategy_ok s st0" and "getPipelineContract (st_pipeline st0) = Some contract"
    and "vtcm_planned ir contract s st0 st"
  shows "verifyRootTilingPlan s st contract = Inr ()"
proof -
  note f = planned_root [OF assms]
  have hmx: "verifyTiles (os_op s) (hmxTile (rootTiling st)) = Inr ()"
    using f(7) by (auto simp: verifyTiles_ok) (simp add: verifyTiles_def)
  show ?thesis
    using f(4-8) hmx f(11,12) verifyTiles_ok
    by (auto simp: verifyRootTilingPlan_def Let_def res_simps all_zero_list_ex(1) tiles_ok_def split: option.split)
qed

lemma verify_fit_ok:
  "dim_fits shape bounds refinable op d tiles \<Longrightarrow> verify_fit shape bounds refinable op tiles d = Inr ()"
  by (auto simp: verify_fit_def dim_fits_def Let_def res_simps)

text \<open>The selected compute tiles of the other operations, once each and never for the root.\<close>

definition plans_selected :: "dispatch_shape \<Rightarrow> pipeline_contract \<Rightarrow> op_compute_tile_plan list \<Rightarrow> bool" where
  "plans_selected shape contract plans \<longleftrightarrow>
     plans_ok shape plans \<and> distinct (map op_op plans) \<and> ds_root shape \<notin> op_op ` set plans \<and>
     (plans \<noteq> [] \<longrightarrow> supportsIndependentNonRootComputeTiles contract)"

lemma verify_op_plans_ok:
  assumes "plans_ok shape plans" and "supportsIndependentNonRootComputeTiles contract \<or> plans = []"
    and "vectorCommonParallel contract = Root \<Longrightarrow> \<forall>p\<in>set plans. plan_fits ir shape contract bounds p"
  shows "distinct (map op_op plans) \<Longrightarrow> op_op ` set plans \<inter> configured = {} \<Longrightarrow> ds_root shape \<notin> op_op ` set plans \<Longrightarrow>
    fold_res (verify_op_plan ir shape contract bounds) plans (configured, tiles) =
      Inr (op_op ` set plans \<union> configured, fold (\<lambda>p m. m(op_op p := Some (op_computeTile p))) plans tiles)"
  using assms
proof (induction plans arbitrary: configured tiles)
  case (Cons p plans)
  obtain s where s: "findOpShape shape (op_op p) = Some s" "tiles_ok (length (os_dims s)) (op_computeTile p)"
    using Cons.prems(4) by (auto simp: plans_ok_def)
  have "verifyNonRootTileFitsRootFusionTile ir shape contract bounds s (op_computeTile p) = Inr ()"
  proof (cases "vectorCommonParallel contract = Root")
    case True
    then have "plan_fits ir shape contract bounds p" using Cons.prems(6) by simp
    then show ?thesis using s(1) findOpShape_Some [OF s(1)]
      by (auto simp: plan_fits_def verifyNonRootTileFitsRootFusionTile_def check_all_Inr verify_fit_ok)
  qed (simp add: verifyNonRootTileFitsRootFusionTile_def)
  then have "verify_op_plan ir shape contract bounds p (configured, tiles) =
      Inr (insert (op_op p) configured, tiles(op_op p := Some (op_computeTile p)))"
    using s Cons.prems verifyTiles_ok [OF s(2)]
    by (auto simp: verify_op_plan_def Let_def fail_if_def tiles_ok_def)
  moreover have "fold_res (verify_op_plan ir shape contract bounds) plans
      (insert (op_op p) configured, tiles(op_op p := Some (op_computeTile p))) =
      Inr (op_op ` set plans \<union> insert (op_op p) configured,
        fold (\<lambda>p m. m(op_op p := Some (op_computeTile p))) plans (tiles(op_op p := Some (op_computeTile p))))"
    using Cons.prems by (intro Cons.IH) (auto simp: plans_ok_def)
  ultimately show ?case
    by (simp only: fold_res.simps bind_res.simps fold_simps list.set image_insert Un_insert_left Un_insert_right)
qed simp

lemma uses_or_default:
  assumes "getPipelineContract p = Some contract" and "\<not> usesConfiguredVectorSizes contract"
  shows "\<not> supportsIndependentNonRootComputeTiles contract" "\<not> requiresUniqueRootAnchor contract"
    "vectorCommonParallel contract = LastConfiguredOnEachSideOfRoot"
  using assms by (auto simp: getPipelineContract_def default_contract_def split: lowering_pipeline.splits)

lemma filter_op_found:
  assumes "distinct (map os_op ops)" and "find (\<lambda>s. os_op s = op) ops = Some s"
  shows "filter (\<lambda>s'. os_op s' = op \<and> P s') ops = (if P s then [s] else [])"
  using assms
proof (induction ops)
  case (Cons a ops)
  show ?case
  proof (cases "os_op a = op")
    case True
    then have "filter (\<lambda>s'. os_op s' = op \<and> P s') ops = []" using Cons.prems(1) by (auto simp: filter_empty_conv) (metis imageI)
    with True Cons.prems show ?thesis by auto
  qed (use Cons in auto)
qed simp

text \<open>
  Consumption: the pipelines that run the vector passes consume every level, the default pipeline
  only tiles the root's parallel dimensions, which its last (and only) configured operation carries.
\<close>

lemma verifyComputeTileConsumption_ok:
  assumes shape: "shape_consistent ir ctx shape" and root: "findOpShape shape (ds_root shape) = Some s" "ds_root shape \<noteq> 0"
    and st: "strategy_ok s st0" "getPipelineContract (st_pipeline st0) = Some contract" "vtcm_planned ir contract s st0 st"
    and tiles: "\<not> usesConfiguredVectorSizes contract \<Longrightarrow>
      computeTiles = (\<lambda>_. None)(os_op s := Some (rt_computeTile (rootTiling st)))"
  shows "verifyComputeTileConsumption shape s contract computeTiles (hasRootAnchorPlan st contract) = Inr ()"
proof (cases "usesConfiguredVectorSizes contract")
  case False
  note f = planned_root [OF st] and c = uses_or_default [OF st(2) False]
  have anchor: "\<not> hasRootAnchorPlan st contract"
    using c f(13) False by (simp add: hasRootAnchorPlan_def all_zero_list_ex)
  have sop: "os_op s = ds_root shape" "s \<in> set (ds_operations shape)" using findOpShape_Some [OF root(1)] by auto
  have cons: "op_consistent ir (pc_entryPoint ctx) (length (globalDimensions shape)) s"
    and dist: "distinct (map os_op (ds_operations shape))"
    using shape sop(2) by (auto simp: shape_consistent_def Let_def)
  have present: "presentInRoot (globalDimensions shape ! ld_global d)" if "d \<in> set (os_dims s)" for d
    using shape root that cons by (auto simp: shape_consistent_def Let_def op_consistent_def)
  have red: "td_size (rt_computeTile (rootTiling st) ! ld_position d) = 0"
    if "d \<in> set (os_dims s)" "iteratorType d = reduction" for d
  proof -
    obtain i where i: "i < length (os_dims s)" "d = os_dims s ! i" using \<open>d \<in> set (os_dims s)\<close> by (auto simp: in_set_conv_nth)
    have "map ld_position (os_dims s) = [0..<length (os_dims s)]" using cons by (simp add: op_consistent_def)
    then have "ld_position d = i" using i by (simp add: map_eq_upt)
    with f(14) [OF False, of i] i that show ?thesis by simp
  qed
  define carrying where "carrying level = filter (\<lambda>opShape. case computeTiles (os_op opShape) of None \<Rightarrow> False
                 | Some tile \<Rightarrow> carriesLevel shape opShape tile level) (ds_operations shape)" for level
  have "carrying level = filter (\<lambda>s'. os_op s' = ds_root shape \<and>
      carriesLevel shape s' (rt_computeTile (rootTiling st)) level) (ds_operations shape)" for level
    unfolding carrying_def tiles [OF False] sop(1) by (rule filter_cong) auto
  then have carry: "carrying level = (if carriesLevel shape s (rt_computeTile (rootTiling st)) level then [s] else [])" for level
    using filter_op_found [OF dist] root(1) by (simp add: findOpShape_def)
  have none: "\<not> carriesLevel shape s (rt_computeTile (rootTiling st)) level" if "level \<noteq> CommonParallel" for level
    using present red that by (auto simp: carriesLevel_def list_ex_iff classifyComputeTileLevel_def)
  have "getLoopTilingScope contract CommonParallel = LastConfiguredOnEachSideOfRoot"
    using c by (simp add: getLoopTilingScope_def)
  then have "check_all (\<lambda>opShape. fail_if (\<not> ((runsTileToVectorSize contract \<or> usesConfiguredVectorSizes contract) \<or>
      isLoopTileConsumed (getLoopTilingScope contract level) opShape s
        (getBoundaryAnchors (carrying level) s (hasRootAnchorPlan st contract))))
      (LevelNotConsumed (os_op opShape) level)) (carrying level) = Inr ()" for level
    using anchor none [of level] by (cases "level = CommonParallel")
      (simp_all add: carry fail_if_def isLoopTileConsumed_def getBoundaryAnchors_def)
  then show ?thesis
    by (simp add: verifyComputeTileConsumption_def Let_def flip: carrying_def)
next
  case True
  have "check_all (\<lambda>_. Inr ()) xs = (Inr () :: plan_error + unit)" for xs :: "op_shape list"
    by (simp add: check_all_Inr)
  with True show ?thesis by (simp add: verifyComputeTileConsumption_def Let_def fail_if_def)
qed

lemma verifyDispatchPlan_ok:
  assumes shape: "shape_consistent ir ctx shape" and root: "findOpShape shape (ds_root shape) = Some s" "ds_root shape \<noteq> 0"
    and st: "strategy_ok s st0" "getPipelineContract (st_pipeline st0) = Some contract"
      "vtcm_planned ir contract s st0 (dp_strategy plan)"
    and plans: "plans_selected shape contract (nonRootComputeTilePlans plan)"
    and fits: "vectorCommonParallel contract = Root \<Longrightarrow>
       \<exists>b. RootFusionBounds ir shape (rootTiling (dp_strategy plan)) = Inr b \<and>
         (\<forall>p\<in>set (nonRootComputeTilePlans plan). plan_fits ir shape contract b p)"
    and fed: "finite (fed_values ir (ds_root shape))"
  shows "verifyDispatchPlan ir ctx shape plan contract = Inr ()"
proof -
  let ?plans = "nonRootComputeTilePlans plan"
  obtain bounds where bounds: "RootFusionBounds ir shape (rootTiling (dp_strategy plan)) = Inr bounds"
    using root(1) collectRootInputProducers_correct [OF fed] by (auto simp: RootFusionBounds_def)
  have "collectAndVerifyComputeTiles ir shape plan contract s =
      Inr (fold (\<lambda>p m. m(op_op p := Some (op_computeTile p))) ?plans
        ((\<lambda>_. None)(os_op s := Some (rt_computeTile (rootTiling (dp_strategy plan))))))"
    using verify_op_plans_ok [of shape ?plans contract ir bounds "{}"] plans fits bounds
    by (auto simp: collectAndVerifyComputeTiles_def plans_selected_def)
  moreover have "\<not> usesConfiguredVectorSizes contract \<Longrightarrow> ?plans = []"
    using plans uses_or_default(1) [OF st(2)] by (auto simp: plans_selected_def)
  ultimately show ?thesis
    using verifyDispatchShape_iff [of ir ctx shape] shape root(1) verifyPipelineRequirements_ok [OF st]
      verifyRootTilingPlan_ok [OF st] verifyComputeTileConsumption_ok [OF shape root st]
    by (simp add: verifyDispatchPlan_def)
qed

section \<open>Properties\<close>

text \<open>
  The verifier of dispatch shapes accepts exactly the consistent shapes: the function's entry
  point, dimensions and operations numbered in order, each operation once, of this function and
  tileable, its loops matching MLIR's, every dispatch dimension referenced, and the root's
  dimensions, and only those, marked.
\<close>

theorem verifyDispatchShape_decides:
  "verifyDispatchShape ir ctx shape = Inr () \<longleftrightarrow> shape_consistent ir ctx shape"
  by (rule verifyDispatchShape_iff)

end
