(* ===== verification/Lowering_Config.thy ===== *)
theory Lowering_Config
  imports Prelude "HOL-Library.Char_ord" "HOL-Library.List_Lexorder"
begin

text \<open>
  The lowering configuration attribute, \<open>CodeGen/IR/HexagonLoweringConfig.cpp\<close>: a dictionary from
  the names of tiling stages to tile sizes. An MLIR \<open>DictionaryAttr\<close> keeps its entries sorted by
  name. The assembly parser is modelled on the tokens of MLIR's lexer.
\<close>

section \<open>Tiling stages\<close>

datatype tiling_level =
    DistributionTiles | CacheParallelTiles | CacheReductionTiles | VectorCommonParallelTiles
  | VectorReductionTiles | VectorInnerParallelTiles | VTCMTiles | HmxTiles | InvalidLevel

fun level_index :: "tiling_level \<Rightarrow> nat" where
  "level_index DistributionTiles = 0"
| "level_index CacheParallelTiles = 1"
| "level_index CacheReductionTiles = 2"
| "level_index VectorCommonParallelTiles = 3"
| "level_index VectorReductionTiles = 4"
| "level_index VectorInnerParallelTiles = 5"
| "level_index VTCMTiles = 6"
| "level_index HmxTiles = 7"
| "level_index InvalidLevel = 8"

definition tilingLevelNames :: "string list" where
  "tilingLevelNames = [''distribution'', ''cache_parallel'', ''cache_reduction'', ''vector_common_parallel'',
     ''vector_reduction'', ''vector_inner_parallel'', ''vtcm'', ''hmx'']"

text \<open>A null \<open>StringRef\<close> is the empty string.\<close>

definition level_name_at :: "nat \<Rightarrow> string" where
  "level_name_at index = (if index < length tilingLevelNames then tilingLevelNames ! index else [])"

definition getTilingLevelName :: "tiling_level \<Rightarrow> string" where
  "getTilingLevelName level = level_name_at (level_index level)"

section \<open>The attribute\<close>

record level_attr =
  level_sizes :: "int list"
  scalableFlags :: "bool list"
  interchange :: "nat list"

datatype stage_attr = TilingLevelAttr level_attr | OtherAttr

type_synonym lowering_config = "(string \<times> stage_attr) list"

text \<open>\<open>DictionaryAttr::get\<close>.\<close>

definition dictionary :: "(string \<times> stage_attr) list \<Rightarrow> lowering_config" where
  "dictionary items = sort_key fst items"

definition makeTilingLevelAttr :: "int list \<Rightarrow> stage_attr" where
  "makeTilingLevelAttr tileSizes =
     TilingLevelAttr \<lparr>level_sizes = tileSizes, scalableFlags = [], interchange = []\<rparr>"

datatype config_error =
    UnknownStage string | NotATilingLevel string | NegativeTileSize string | NotFixedSizes string | StageRankMismatch

definition verify_item :: "string \<times> stage_attr \<Rightarrow> nat option \<Rightarrow> config_error + nat option" where
  "verify_item item rank =
     (let name = fst item
      in bind_res (fail_if (name \<notin> set tilingLevelNames) (UnknownStage name)) (\<lambda>_.
         case snd item of
           OtherAttr \<Rightarrow> Inl (NotATilingLevel name)
         | TilingLevelAttr level \<Rightarrow>
             bind_res (fail_if (list_ex (\<lambda>n. n < 0) (level_sizes level)) (NegativeTileSize name)) (\<lambda>_.
             bind_res (fail_if (True \<in> set (scalableFlags level) \<or> interchange level \<noteq> []) (NotFixedSizes name)) (\<lambda>_.
             bind_res (fail_if (rank \<noteq> None \<and> rank \<noteq> Some (length (level_sizes level))) StageRankMismatch) (\<lambda>_.
             Inr (Some (length (level_sizes level))))))))"

definition verify_config :: "lowering_config \<Rightarrow> config_error + unit" where
  "verify_config config = bind_res (fold_res verify_item config None) (\<lambda>_. Inr ())"

definition withoutTilingLevel :: "lowering_config \<Rightarrow> tiling_level \<Rightarrow> lowering_config option" where
  "withoutTilingLevel config level =
     (let key = getTilingLevelName level; items = filter (\<lambda>item. fst item \<noteq> key) config
      in if items = [] then None else Some (dictionary items))"

definition getTilingLevelAttr :: "lowering_config \<Rightarrow> nat \<Rightarrow> stage_attr option" where
  "getTilingLevelAttr config level =
     (let key = level_name_at level in if key = [] then None else map_of config key)"

definition hasTilingLevel :: "lowering_config \<Rightarrow> nat \<Rightarrow> bool" where
  "hasTilingLevel config level \<longleftrightarrow> getTilingLevelAttr config level \<noteq> None"

definition hasWorkgroupTilingLevel :: "lowering_config \<Rightarrow> bool" where
  "hasWorkgroupTilingLevel config \<longleftrightarrow> hasTilingLevel config (level_index DistributionTiles)"

definition getNumTilingLevels :: "lowering_config \<Rightarrow> nat option" where
  "getNumTilingLevels config = Some (length config)"

definition getStaticTilingLevelSizes :: "lowering_config \<Rightarrow> nat \<Rightarrow> int list" where
  "getStaticTilingLevelSizes config level =
     (case getTilingLevelAttr config level of
        Some (TilingLevelAttr attr) \<Rightarrow> level_sizes attr
      | _ \<Rightarrow> [])"

definition getWorkgroupTileSizes :: "lowering_config \<Rightarrow> int list" where
  "getWorkgroupTileSizes config = getStaticTilingLevelSizes config (level_index DistributionTiles)"

text \<open>The inner loop of \<open>getVectorSizes\<close>, from position \<open>i\<close>.\<close>

fun merge_sizes :: "nat \<Rightarrow> int list \<Rightarrow> int list \<Rightarrow> int list option" where
  "merge_sizes i [] result = Some result"
| "merge_sizes i (n # ns) result =
     (if n = 0 then merge_sizes (Suc i) ns result
      else if result ! i \<noteq> 0 then None
      else merge_sizes (Suc i) ns (result[i := n]))"

fun merge_levels :: "lowering_config \<Rightarrow> tiling_level list \<Rightarrow> int list \<Rightarrow> int list option" where
  "merge_levels config [] result = Some result"
| "merge_levels config (level # levels) result =
     (let ns = getStaticTilingLevelSizes config (level_index level)
      in if ns = [] then merge_levels config levels result
         else let result = (if result = [] then replicate (length ns) 0 else result)
              in if length result \<noteq> length ns then None
                 else case merge_sizes 0 ns result of None \<Rightarrow> None
                      | Some result \<Rightarrow> merge_levels config levels result)"

definition vectorLevels :: "tiling_level list" where
  "vectorLevels = [VectorCommonParallelTiles, VectorReductionTiles, VectorInnerParallelTiles]"

definition getVectorSizes :: "lowering_config \<Rightarrow> int list option" where
  "getVectorSizes config = merge_levels config vectorLevels []"

section \<open>Text\<close>

datatype token = TLess | TGreater | TEqual | TLSquare | TRSquare | TComma | TName string | TInt int

text \<open>\<open>llvm::interleaveComma\<close>.\<close>

fun interleaveComma :: "token list list \<Rightarrow> token list" where
  "interleaveComma [] = []"
| "interleaveComma [t] = t"
| "interleaveComma (t # ts) = t @ TComma # interleaveComma ts"

definition item_sizes :: "stage_attr \<Rightarrow> int list" where
  "item_sizes a = (case a of TilingLevelAttr level \<Rightarrow> level_sizes level | OtherAttr \<Rightarrow> [])"

definition print_item :: "string \<times> stage_attr \<Rightarrow> token list" where
  "print_item item = TName (fst item) # TEqual # TLSquare #
     interleaveComma (map (\<lambda>n. [TInt n]) (item_sizes (snd item))) @ [TRSquare]"

definition print_config :: "lowering_config \<Rightarrow> token list" where
  "print_config config = TLess # interleaveComma (map print_item config) @ [TGreater]"

text \<open>
  The parser. The sizes between square brackets and the items between angle brackets are MLIR's
  comma-separated lists: possibly empty, no trailing comma.
\<close>

fun parse_sizes_rest :: "token list \<Rightarrow> (int list \<times> token list) option" where
  "parse_sizes_rest (TRSquare # ts) = Some ([], ts)"
| "parse_sizes_rest (TComma # TInt n # ts) =
     (case parse_sizes_rest ts of None \<Rightarrow> None | Some (ns, ts) \<Rightarrow> Some (n # ns, ts))"
| "parse_sizes_rest _ = None"

fun parse_sizes :: "token list \<Rightarrow> (int list \<times> token list) option" where
  "parse_sizes (TLSquare # TRSquare # ts) = Some ([], ts)"
| "parse_sizes (TLSquare # TInt n # ts) =
     (case parse_sizes_rest ts of None \<Rightarrow> None | Some (ns, ts) \<Rightarrow> Some (n # ns, ts))"
| "parse_sizes _ = None"

fun parse_item :: "(string \<times> stage_attr) list \<Rightarrow> token list \<Rightarrow> ((string \<times> stage_attr) list \<times> token list) option" where
  "parse_item items (TName key # TEqual # ts) =
     (case parse_sizes ts of None \<Rightarrow> None
      | Some (sizes, ts) \<Rightarrow>
          if key \<in> fst ` set items then None
          else Some (items @ [(key, makeTilingLevelAttr sizes)], ts))"
| "parse_item items _ = None"

lemma parse_sizes_rest_length: "parse_sizes_rest ts = Some (ns, ts') \<Longrightarrow> length ts' < length ts"
  by (induction ts arbitrary: ns ts' rule: parse_sizes_rest.induct) (auto split: option.splits)

lemma parse_sizes_length: "parse_sizes ts = Some (ns, ts') \<Longrightarrow> length ts' < length ts"
  by (induction ts rule: parse_sizes.induct)
    (auto split: option.splits dest!: parse_sizes_rest_length)

lemma parse_item_length: "parse_item items ts = Some (items', ts') \<Longrightarrow> length ts' < length ts"
  by (induction items ts rule: parse_item.induct)
    (auto split: option.splits if_splits dest!: parse_sizes_length)

function parse_items_rest ::
  "(string \<times> stage_attr) list \<Rightarrow> token list \<Rightarrow> ((string \<times> stage_attr) list \<times> token list) option" where
  "parse_items_rest items ts =
     (case ts of
        TGreater # ts \<Rightarrow> Some (items, ts)
      | TComma # ts \<Rightarrow> (case parse_item items ts of None \<Rightarrow> None
          | Some (items, ts) \<Rightarrow> parse_items_rest items ts)
      | _ \<Rightarrow> None)"
  by pat_completeness auto
termination by (relation "measure (\<lambda>(items, ts). length ts)") (auto dest: parse_item_length)

declare parse_items_rest.simps [simp del]

fun parse_items :: "token list \<Rightarrow> ((string \<times> stage_attr) list \<times> token list) option" where
  "parse_items (TLess # TGreater # ts) = Some ([], ts)"
| "parse_items (TLess # ts) = (case parse_item [] ts of None \<Rightarrow> None | Some (items, ts) \<Rightarrow> parse_items_rest items ts)"
| "parse_items _ = None"

text \<open>\<open>LoweringConfigAttr::parse\<close>; \<open>getChecked\<close> runs the verifier.\<close>

definition parse_config :: "token list \<Rightarrow> (lowering_config \<times> token list) option" where
  "parse_config ts =
     (case parse_items ts of None \<Rightarrow> None
      | Some (items, ts) \<Rightarrow>
          if verify_config (dictionary items) = Inr () then Some (dictionary items, ts) else None)"

section \<open>Verified configurations\<close>

definition stage_ok :: "nat \<Rightarrow> string \<times> stage_attr \<Rightarrow> bool" where
  "stage_ok rank item \<longleftrightarrow> fst item \<in> set tilingLevelNames \<and>
     (\<exists>level. snd item = TilingLevelAttr level \<and> length (level_sizes level) = rank \<and>
        (\<forall>n\<in>set (level_sizes level). 0 \<le> n) \<and> True \<notin> set (scalableFlags level) \<and> interchange level = [])"

lemma verify_item_Inr:
  "verify_item item rank = Inr rank' \<longleftrightarrow> (\<exists>n. stage_ok n item \<and> (rank = None \<or> rank = Some n) \<and> rank' = Some n)"
  by (auto simp: verify_item_def stage_ok_def res_simps Let_def list_ex_iff not_less split: stage_attr.splits)

lemma verify_items_Inr:
  "fold_res verify_item config (Some n) = Inr rank \<longleftrightarrow> (\<forall>item\<in>set config. stage_ok n item) \<and> rank = Some n"
  by (induction config) (auto simp: bind_res_Inr verify_item_Inr)

lemma verify_config_iff: "verify_config config = Inr () \<longleftrightarrow> (\<exists>n. \<forall>item\<in>set config. stage_ok n item)"
proof (cases config)
  case Nil
  then show ?thesis by (simp add: verify_config_def)
next
  case (Cons item rest)
  then show ?thesis
    by (fastforce simp: verify_config_def bind_res_Inr verify_item_Inr verify_items_Inr)
qed

lemma tilingLevelNames_index: "level \<noteq> InvalidLevel \<Longrightarrow> level_index level < length tilingLevelNames"
  by (cases level) (simp_all add: tilingLevelNames_def)

lemma getTilingLevelName_simps:
  "getTilingLevelName DistributionTiles = ''distribution''"
  "getTilingLevelName CacheParallelTiles = ''cache_parallel''"
  "getTilingLevelName CacheReductionTiles = ''cache_reduction''"
  "getTilingLevelName VectorCommonParallelTiles = ''vector_common_parallel''"
  "getTilingLevelName VectorReductionTiles = ''vector_reduction''"
  "getTilingLevelName VectorInnerParallelTiles = ''vector_inner_parallel''"
  "getTilingLevelName VTCMTiles = ''vtcm''"
  "getTilingLevelName HmxTiles = ''hmx''"
  "getTilingLevelName InvalidLevel = []"
  by (simp_all add: getTilingLevelName_def level_name_at_def tilingLevelNames_def)

lemma getTilingLevelName_inj: "getTilingLevelName l = getTilingLevelName l' \<longleftrightarrow> l = l'"
  by (cases l; cases l') (simp_all add: getTilingLevelName_simps)

lemma getTilingLevelName_valid: "l \<noteq> InvalidLevel \<Longrightarrow> getTilingLevelName l \<in> set tilingLevelNames \<and> getTilingLevelName l \<noteq> []"
  by (cases l) (simp_all add: getTilingLevelName_simps tilingLevelNames_def)

lemma getTilingLevelAttr_level:
  "l \<noteq> InvalidLevel \<Longrightarrow> getTilingLevelAttr config (level_index l) = map_of config (getTilingLevelName l)"
  using getTilingLevelName_valid [of l] by (simp add: getTilingLevelAttr_def getTilingLevelName_def)

lemma dictionary_facts [simp]:
  "set (dictionary items) = set items" "length (dictionary items) = length items"
  "distinct (map fst (dictionary items)) \<longleftrightarrow> distinct (map fst items)" "sorted (map fst (dictionary items))"
  "dictionary items = [] \<longleftrightarrow> items = []"
proof -
  show "distinct (map fst (dictionary items)) \<longleftrightarrow> distinct (map fst items)"
    by (simp add: dictionary_def distinct_map)
  show "dictionary items = [] \<longleftrightarrow> items = []"
    by (metis dictionary_def length_0_conv length_sort)
qed (simp_all add: dictionary_def)

lemma map_of_dictionary: "distinct (map fst items) \<Longrightarrow> map_of (dictionary items) = map_of items"
  by (intro map_of_inject_set [THEN iffD2]) simp_all

lemma dictionary_sorted: "sorted (map fst items) \<Longrightarrow> dictionary items = items"
  by (simp add: dictionary_def sorted_sort_id sort_key_id_if_sorted)

section \<open>Removing a stage\<close>

lemma withoutTilingLevel_facts:
  assumes "distinct (map fst config)" and "withoutTilingLevel config level = Some config'"
  shows "set config' = {item \<in> set config. fst item \<noteq> getTilingLevelName level}"
    "distinct (map fst config')" "sorted (map fst config')"
    "map_of config' = (map_of config)(getTilingLevelName level := None)"
proof -
  let ?items = "filter (\<lambda>item. fst item \<noteq> getTilingLevelName level) config"
  have c: "config' = dictionary ?items"
    using assms(2) by (auto simp: withoutTilingLevel_def Let_def split: if_splits)
  have d: "distinct (map fst ?items)" using assms(1) by (rule distinct_map_filter)
  show "set config' = {item \<in> set config. fst item \<noteq> getTilingLevelName level}"
    "distinct (map fst config')" "sorted (map fst config')" using c d by simp_all
  have "map_of ?items = (map_of config)(getTilingLevelName level := None)"
    by (induction config) auto
  then show "map_of config' = (map_of config)(getTilingLevelName level := None)"
    by (simp add: c map_of_dictionary [OF d])
qed

section \<open>Vector sizes\<close>

definition merge_one :: "int \<Rightarrow> int \<Rightarrow> int" where
  "merge_one n r = (if n = 0 then r else n)"

lemma merge_sizes_append:
  "length ns = length rs \<Longrightarrow> merge_sizes (length pre) ns (pre @ rs) =
     (if list_all2 (\<lambda>n r. n = 0 \<or> r = 0) ns rs then Some (pre @ map2 merge_one ns rs) else None)"
proof (induction ns rs arbitrary: pre rule: list_induct2)
  case (Cons n ns r rs)
  from Cons.IH [of "pre @ [r]"] Cons.IH [of "pre @ [n]"] show ?case
    by (auto simp: merge_one_def)
qed simp

lemma merge_sizes_all:
  "length ns = length rs \<Longrightarrow> merge_sizes 0 ns rs =
     (if list_all2 (\<lambda>n r. n = 0 \<or> r = 0) ns rs then Some (map2 merge_one ns rs) else None)"
  using merge_sizes_append [of ns rs "[]"] by simp

text \<open>A size at a position, 0 beyond the end; how many of some sizes are not 0.\<close>

definition at :: "int list \<Rightarrow> nat \<Rightarrow> int" where
  "at ns i = (if i < length ns then ns ! i else 0)"

definition overlaps :: "int list \<Rightarrow> bool" where
  "overlaps ns \<longleftrightarrow> 1 < length (filter (\<lambda>n. n \<noteq> 0) ns)"

definition level_at :: "lowering_config \<Rightarrow> nat \<Rightarrow> tiling_level \<Rightarrow> int" where
  "level_at config i level = at (getStaticTilingLevelSizes config (level_index level)) i"

lemma at_Nil [simp]: "at [] i = 0"
  by (simp add: at_def)

lemma overlaps_Cons_0 [simp]: "overlaps (0 # ns) = overlaps ns" "overlaps (x # 0 # ns) = overlaps (x # ns)"
  by (simp_all add: overlaps_def)

lemma overlaps_merge: "n = 0 \<or> r = 0 \<Longrightarrow> overlaps (r # n # ns) = overlaps (merge_one n r # ns)" "merge_one n r = (if n = 0 then r else n)"
  by (auto simp: overlaps_def merge_one_def)

lemma merge_levels_spec:
  assumes "\<forall>l\<in>set levels. length (getStaticTilingLevelSizes config (level_index l)) \<in> {0, n}" and "length r \<in> {0, n}"
  shows "case merge_levels config levels r of
      None \<Rightarrow> \<exists>i. overlaps (at r i # map (level_at config i) levels)
    | Some r' \<Rightarrow> length r' \<in> {0, n} \<and>
        (\<forall>i. \<not> overlaps (at r i # map (level_at config i) levels) \<and>
             at r' i = at r i + sum_list (map (level_at config i) levels))"
  using assms
proof (induction levels arbitrary: r)
  case (Cons l levels)
  let ?ns = "getStaticTilingLevelSizes config (level_index l)"
  show ?case
  proof (cases "?ns = []")
    case True
    then have "level_at config i l = 0" for i by (simp add: level_at_def at_def)
    with True Cons.IH [of r] Cons.prems show ?thesis by (auto split: option.splits)
  next
    case False
    then have n: "length ?ns = n" "n \<noteq> 0" using Cons.prems(1) by auto
    define r0 where "r0 = (if r = [] then replicate n 0 else r)"
    have r: "length r0 = n" "\<And>i. at r0 i = at r i" using Cons.prems(2) by (auto simp: at_def r0_def)
    have "merge_levels config (l # levels) r =
        (case merge_sizes 0 ?ns r0 of None \<Rightarrow> None | Some r \<Rightarrow> merge_levels config levels r)"
      using n r(1) False by (cases "r = []") (simp_all add: Let_def r0_def)
    then have step: "merge_levels config (l # levels) r =
        (if list_all2 (\<lambda>n r. n = 0 \<or> r = 0) ?ns r0 then merge_levels config levels (map2 merge_one ?ns r0) else None)"
      using n r(1) by (simp add: merge_sizes_all)
    show ?thesis
    proof (cases "list_all2 (\<lambda>n r. n = 0 \<or> r = 0) ?ns r0")
      case True
      define r1 where "r1 = map2 merge_one ?ns r0"
      have len: "length r1 \<in> {0, n}" using n r by (simp add: r1_def)
      have disj: "level_at config i l = 0 \<or> at r i = 0" for i
        using True n r(1) r(2) [of i, symmetric] by (auto simp: level_at_def at_def list_all2_conv_all_nth)
      have at1: "at r1 i = merge_one (level_at config i l) (at r i)" for i
        using n r(1) r(2) [of i, symmetric] by (auto simp: level_at_def at_def merge_one_def r1_def)
      have facts: "at r1 i = at r i + level_at config i l"
        "overlaps (at r i # level_at config i l # rest) = overlaps (at r1 i # rest)" for i rest
        using disj [of i] unfolding at1 by (auto simp: overlaps_merge)
      have "\<forall>l\<in>set levels. length (getStaticTilingLevelSizes config (level_index l)) \<in> {0, n}"
        using Cons.prems(1) by simp
      from Cons.IH [OF this len] show ?thesis
        unfolding step if_P [OF True] r1_def [symmetric] list.map sum_list.Cons facts(2)
        by (simp add: facts(1) add.assoc split: option.splits)
    next
      case False
      then obtain i where i: "i < n" "?ns ! i \<noteq> 0" "r0 ! i \<noteq> 0"
        using n r(1) by (auto simp: list_all2_conv_all_nth)
      then have "level_at config i l \<noteq> 0" "at r i \<noteq> 0"
        using n r(1) r(2) [of i, symmetric] by (auto simp: level_at_def at_def)
      then have "overlaps (at r i # map (level_at config i) (l # levels))" by (simp add: overlaps_def)
      then show ?thesis unfolding step if_not_P [OF False] by auto
    qed
  qed
qed (auto simp: overlaps_def)

lemma verified_stage_sizes:
  assumes "verify_config config = Inr ()"
  shows "\<exists>n. \<forall>l. length (getStaticTilingLevelSizes config (level_index l)) \<in> {0, n}"
proof -
  obtain n where n: "\<forall>item\<in>set config. stage_ok n item" using assms verify_config_iff by blast
  have "length (getStaticTilingLevelSizes config (level_index l)) \<in> {0, n}" for l
  proof (cases "getTilingLevelAttr config (level_index l)")
    case (Some a)
    then have "(level_name_at (level_index l), a) \<in> set config"
      by (auto simp: getTilingLevelAttr_def Let_def map_of_SomeD split: if_splits)
    with n Some show ?thesis by (auto simp: getStaticTilingLevelSizes_def stage_ok_def split: stage_attr.split)
  qed (simp add: getStaticTilingLevelSizes_def)
  then show ?thesis by blast
qed

section \<open>Printing and parsing\<close>

definition plain_config :: "lowering_config \<Rightarrow> bool" where
  "plain_config config \<longleftrightarrow> (\<forall>item\<in>set config. \<exists>ns. snd item = makeTilingLevelAttr ns)"

lemma interleaveComma_Cons: "interleaveComma (t # ts) = t @ concat (map (\<lambda>t. TComma # t) ts)"
  by (induction ts arbitrary: t) simp_all

lemma parse_sizes_rest_print:
  "parse_sizes_rest (concat (map (\<lambda>n. [TComma, TInt n]) ns) @ TRSquare # ts) = Some (ns, ts)"
  by (induction ns) simp_all

lemma parse_sizes_print:
  "parse_sizes (TLSquare # interleaveComma (map (\<lambda>n. [TInt n]) ns) @ TRSquare # ts) = Some (ns, ts)"
proof (cases ns)
  case (Cons n ms)
  then show ?thesis using parse_sizes_rest_print [of ms ts]
    by (simp add: interleaveComma_Cons o_def del: interleaveComma.simps)
qed simp

lemma parse_item_print:
  "parse_item items (print_item (key, makeTilingLevelAttr ns) @ ts) =
     (if key \<in> fst ` set items then None else Some (items @ [(key, makeTilingLevelAttr ns)], ts))"
  using parse_sizes_print [of ns ts] by (simp add: print_item_def item_sizes_def makeTilingLevelAttr_def)

lemma parse_items_rest_print:
  "plain_config config \<Longrightarrow> distinct (map fst (items @ config)) \<Longrightarrow>
   parse_items_rest items (concat (map (\<lambda>t. TComma # t) (map print_item config)) @ TGreater # ts) = Some (items @ config, ts)"
proof (induction config arbitrary: items)
  case (Cons item config)
  obtain key ns where item: "item = (key, makeTilingLevelAttr ns)"
    using Cons.prems(1) by (cases item) (auto simp: plain_config_def)
  have "parse_items_rest (items @ [item]) (concat (map (\<lambda>t. TComma # t) (map print_item config)) @ TGreater # ts) =
      Some ((items @ [item]) @ config, ts)"
    using Cons.prems by (intro Cons.IH) (auto simp: plain_config_def)
  moreover have "key \<notin> fst ` set items" using Cons.prems(2) item by auto
  ultimately show ?case
    by (subst parse_items_rest.simps) (simp add: item parse_item_print)
qed (subst parse_items_rest.simps, simp)

lemma parse_items_print:
  assumes "plain_config config" and "distinct (map fst config)"
  shows "parse_items (print_config config @ ts) = Some (config, ts)"
proof (cases config)
  case Nil
  then show ?thesis by (simp add: print_config_def)
next
  case (Cons item rest)
  obtain key ns where item: "item = (key, makeTilingLevelAttr ns)"
    using assms(1) Cons by (cases item) (auto simp: plain_config_def)
  have "parse_items (TLess # print_item item @ us) =
      (case parse_item [] (print_item item @ us) of None \<Rightarrow> None | Some (items, ts) \<Rightarrow> parse_items_rest items ts)" for us
    by (simp add: print_item_def)
  moreover have "parse_items_rest [item] (concat (map (\<lambda>t. TComma # t) (map print_item rest)) @ TGreater # ts) =
      Some ([item] @ rest, ts)"
    using assms Cons by (intro parse_items_rest_print) (auto simp: plain_config_def)
  ultimately show ?thesis
    using Cons by (simp add: print_config_def interleaveComma_Cons item parse_item_print del: interleaveComma.simps map_map)
qed

section \<open>Properties\<close>


definition sample_config :: lowering_config where
  "sample_config = [(''distribution'', makeTilingLevelAttr [0, 0, 0]),
     (''vector_common_parallel'', makeTilingLevelAttr [8, 32, 0]),
     (''vector_reduction'', makeTilingLevelAttr [0, 0, 8])]"

lemma sample_config_facts:
  "plain_config sample_config" "distinct (map fst sample_config)" "sorted (map fst sample_config)"
  "verify_config sample_config = Inr ()"
proof -
  have "stage_ok 3 item" if "item \<in> set sample_config" for item
    using that by (auto simp: sample_config_def stage_ok_def makeTilingLevelAttr_def tilingLevelNames_def)
  then show "verify_config sample_config = Inr ()" using verify_config_iff by blast
qed (auto simp: sample_config_def plain_config_def less_list_code less_eq_list_code)


text \<open>
  Of a verified configuration, the vector sizes exist exactly when no dimension has a size in
  two vector stages, and then each dimension has the size of the one stage that tiles it, 0 where
  none does.
\<close>

theorem getVectorSizes_correct:
  assumes "verify_config config = Inr ()"
  shows "case getVectorSizes config of
      None \<Rightarrow> \<exists>i. overlaps (map (level_at config i) vectorLevels)
    | Some ns \<Rightarrow> \<forall>i. \<not> overlaps (map (level_at config i) vectorLevels) \<and>
        at ns i = sum_list (map (level_at config i) vectorLevels)"
proof -
  obtain n where n: "\<And>l. length (getStaticTilingLevelSizes config (level_index l)) \<in> {0, n}"
    using verified_stage_sizes [OF assms] by blast
  from merge_levels_spec [of vectorLevels config n "[]"] n show ?thesis
    by (auto simp: getVectorSizes_def at_Nil split: option.splits)
qed

theorem getVectorSizes_correct_witness:
  "\<exists>ns. getVectorSizes sample_config = Some ns \<and> at ns 0 = 8 \<and> at ns 1 = 32 \<and> at ns 2 = 8"
proof -
  have sizes: "level_at sample_config i VectorCommonParallelTiles = at [8, 32, 0] i"
    "level_at sample_config i VectorReductionTiles = at [0, 0, 8] i"
    "level_at sample_config i VectorInnerParallelTiles = 0" for i
    by (simp_all add: level_at_def getStaticTilingLevelSizes_def getTilingLevelAttr_def level_name_at_def
        tilingLevelNames_def sample_config_def makeTilingLevelAttr_def at_def)
  have "\<not> overlaps (map (level_at sample_config i) vectorLevels)" for i
  proof (cases "i < 3")
    case True
    then have "i = 0 \<or> i = 1 \<or> i = 2" by linarith
    then show ?thesis by (auto simp: vectorLevels_def sizes at_def overlaps_def)
  qed (simp add: vectorLevels_def sizes at_def overlaps_def)
  with getVectorSizes_correct [OF sample_config_facts(4)] obtain ns where
    "getVectorSizes sample_config = Some ns" "\<And>i. at ns i = at [8, 32, 0] i + at [0, 0, 8] i"
    by (auto simp: vectorLevels_def sizes split: option.splits)
  moreover have "at [8, 32, 0] i + at [0, 0, 8] i = [8, 32, 8] ! i" if "i < 3" for i
    using that by (auto simp: at_def less_Suc_eq numeral_3_eq_3)
  ultimately show ?thesis by simp
qed

text \<open>
  Removing a stage removes that stage and nothing else: every other stage reads as before, the
  removed one is absent, and a verified configuration stays verified. Nothing is left exactly when
  no other stage was present.
\<close>

theorem withoutTilingLevel_correct:
  assumes "distinct (map fst config)" and "level \<noteq> InvalidLevel" and "verify_config config = Inr ()"
  shows "case withoutTilingLevel config level of
      None \<Rightarrow> \<forall>l. l \<noteq> level \<longrightarrow> \<not> hasTilingLevel config (level_index l)
    | Some config' \<Rightarrow> verify_config config' = Inr () \<and> \<not> hasTilingLevel config' (level_index level) \<and>
        (\<forall>l. l \<noteq> level \<longrightarrow> getTilingLevelAttr config' (level_index l) = getTilingLevelAttr config (level_index l))"
proof (cases "withoutTilingLevel config level")
  case None
  then have all: "\<forall>item\<in>set config. fst item = getTilingLevelName level"
    by (auto simp: withoutTilingLevel_def Let_def filter_empty_conv split: if_splits)
  have "\<not> hasTilingLevel config (level_index l)" if "l \<noteq> level" for l
  proof (cases "l = InvalidLevel")
    case True
    then show ?thesis by (simp add: hasTilingLevel_def getTilingLevelAttr_def level_name_at_def tilingLevelNames_def)
  next
    case False
    have "map_of config (getTilingLevelName l) = None"
      using all that by (auto simp: map_of_eq_None_iff getTilingLevelName_inj)
    then show ?thesis by (simp add: hasTilingLevel_def getTilingLevelAttr_level [OF False])
  qed
  with None show ?thesis by simp
next
  case (Some config')
  note f = withoutTilingLevel_facts [OF assms(1) Some]
  have "verify_config config' = Inr ()" using assms(3) f(1) by (auto simp: verify_config_iff)
  moreover have "getTilingLevelAttr config' (level_index l) =
      (if l = level then None else getTilingLevelAttr config (level_index l))" for l
  proof (cases "l = InvalidLevel")
    case True
    then show ?thesis using assms(2) by (simp add: getTilingLevelAttr_def level_name_at_def tilingLevelNames_def)
  qed (simp add: getTilingLevelAttr_level f(4) getTilingLevelName_inj)
  ultimately show ?thesis using Some by (simp add: hasTilingLevel_def)
qed

theorem withoutTilingLevel_correct_witness:
  "\<exists>config'. withoutTilingLevel sample_config VectorReductionTiles = Some config' \<and>
     verify_config config' = Inr () \<and> hasWorkgroupTilingLevel config'"
proof -
  have "withoutTilingLevel sample_config VectorReductionTiles \<noteq> None"
    by (simp add: withoutTilingLevel_def sample_config_def getTilingLevelName_simps)
  moreover have "hasTilingLevel sample_config (level_index DistributionTiles)"
    by (simp add: hasTilingLevel_def getTilingLevelAttr_def level_name_at_def tilingLevelNames_def sample_config_def)
  ultimately show ?thesis
    using withoutTilingLevel_correct [OF sample_config_facts(2) _ sample_config_facts(4), of VectorReductionTiles]
    by (auto simp: hasWorkgroupTilingLevel_def hasTilingLevel_def split: option.splits
        dest: spec [of _ DistributionTiles] simp del: level_index.simps)
qed

end
