(* ===== verification/Plan_Encoding.thy ===== *)
theory Plan_Encoding
  imports Plan_Verification Lowering_Config
begin

text \<open>
  Turning a verified plan into attributes and putting them on the IR:
  \<open>CodeGen/Strategy/Planning/PlanEncoding.cpp\<close>. The part of the IR that planning changes is the
  translation info of functions and the lowering configuration of operations.
\<close>

section \<open>The code\<close>

definition getSizes :: "tile_decision list \<Rightarrow> int list" where
  "getSizes decisions = map td_size decisions"

definition anyNonZero :: "int list \<Rightarrow> bool" where
  "anyNonZero sizes \<longleftrightarrow> list_ex (\<lambda>n. n \<noteq> 0) sizes"

definition appendLevel ::
  "tiling_level \<Rightarrow> int list \<Rightarrow> bool \<Rightarrow> (string \<times> stage_attr) list \<Rightarrow> (string \<times> stage_attr) list" where
  "appendLevel level sizes preserveAllZero entries =
     (if sizes = [] \<or> (\<not> preserveAllZero \<and> \<not> anyNonZero sizes) then entries
      else entries @ [(getTilingLevelName level, makeTilingLevelAttr sizes)])"

text \<open>The loop that assigns each dimension to one of the vectors \<open>common\<close>, \<open>reduction\<close>, \<open>inner\<close>.\<close>

definition assign_level ::
  "dispatch_shape \<Rightarrow> tile_decision list \<Rightarrow> local_dim \<Rightarrow> int list \<times> int list \<times> int list \<Rightarrow>
   int list \<times> int list \<times> int list" where
  "assign_level shape compute dimension v =
     (case v of (common, reductions, inner) \<Rightarrow>
        let n = td_size (compute ! ld_position dimension)
        in case classifyComputeTileLevel shape dimension of
             Reduction \<Rightarrow> (common, reductions[ld_position dimension := n], inner)
           | CommonParallel \<Rightarrow> (common[ld_position dimension := n], reductions, inner)
           | InnerParallel \<Rightarrow> (common, reductions, inner[ld_position dimension := n]))"

definition encodeOpConfig ::
  "dispatch_shape \<Rightarrow> op_shape \<Rightarrow> tile_decision list \<Rightarrow> tile_decision list \<Rightarrow> tile_decision list \<Rightarrow>
   tile_decision list \<Rightarrow> tile_decision list \<Rightarrow> bool \<Rightarrow> lowering_config option" where
  "encodeOpConfig shape opShape distribution cache compute vtcm hmx preserveZeroDistribution =
     (let zeros = replicate (length compute) 0;
          (common, reductions, inner) = fold (assign_level shape compute) (os_dims opShape) (zeros, zeros, zeros);
          entries = appendLevel DistributionTiles (getSizes distribution) preserveZeroDistribution [];
          entries = appendLevel CacheParallelTiles (getSizes cache) False entries;
          entries = appendLevel VectorCommonParallelTiles common False entries;
          entries = appendLevel VectorReductionTiles reductions False entries;
          entries = appendLevel VectorInnerParallelTiles inner False entries;
          entries = appendLevel VTCMTiles (getSizes vtcm) False entries;
          entries = appendLevel HmxTiles (getSizes hmx) False entries
      in if entries = [] then None else Some (dictionary entries))"

record translation_info =
  ti_pipeline :: lowering_pipeline
  enableLoopPeeling :: bool

record encoded_dispatch_plan =
  ep_entryPoint :: nat
  ep_translationInfo :: translation_info
  ep_operations :: "(nat \<times> lowering_config) list"

text \<open>\<open>nonRootPlansByOp\<close>; a later plan of the same operation replaces an earlier one.\<close>

definition plans_by_op :: "op_compute_tile_plan list \<Rightarrow> nat \<Rightarrow> op_compute_tile_plan option" where
  "plans_by_op plans = fold (\<lambda>p m. m(op_op p := Some p)) plans (\<lambda>_. None)"

text \<open>One operation of the dispatch; \<open>None\<close> when it gets no configuration.\<close>

definition encode_op ::
  "dispatch_shape \<Rightarrow> dispatch_plan \<Rightarrow> pipeline_contract \<Rightarrow> op_shape \<Rightarrow> lowering_config option" where
  "encode_op dispatchShape plan contract opShape =
     (if os_op opShape = ds_root dispatchShape
      then let root = rootTiling (dp_strategy plan);
               vtcm = (case rt_vtcm root of None \<Rightarrow> [] | Some v \<Rightarrow> v)
           in encodeOpConfig dispatchShape opShape (distributionTile root) (cacheTile root)
                (rt_computeTile root) vtcm (hmxTile root) (requiresUniqueRootAnchor contract)
      else case plans_by_op (nonRootComputeTilePlans plan) (os_op opShape) of
             None \<Rightarrow> None
           | Some p \<Rightarrow> encodeOpConfig dispatchShape opShape [] [] (op_computeTile p) [] [] False)"

definition encode_operations ::
  "dispatch_shape \<Rightarrow> dispatch_plan \<Rightarrow> pipeline_contract \<Rightarrow> (nat \<times> lowering_config) list" where
  "encode_operations dispatchShape plan contract =
     List.map_filter (\<lambda>opShape. map_option (\<lambda>config. (os_op opShape, config))
       (encode_op dispatchShape plan contract opShape)) (ds_operations dispatchShape)"

definition encodeDispatchPlan ::
  "planning_context \<Rightarrow> dispatch_shape \<Rightarrow> dispatch_plan \<Rightarrow> pipeline_contract \<Rightarrow> plan_error + encoded_dispatch_plan" where
  "encodeDispatchPlan ctx dispatchShape plan contract =
     (let info = \<lparr>ti_pipeline = st_pipeline (dp_strategy plan),
                  enableLoopPeeling = requestLoopPeeling (dp_strategy plan)\<rparr>;
          operations = encode_operations dispatchShape plan contract;
          anchors = filter (\<lambda>(op, config). hasWorkgroupTilingLevel config) operations
      in if requiresUniqueRootAnchor contract \<and>
            (length anchors \<noteq> 1 \<or> fst (last anchors) \<noteq> ds_root dispatchShape)
         then Inl NoUniqueRootAnchor
         else Inr \<lparr>ep_entryPoint = pc_entryPoint ctx, ep_translationInfo = info, ep_operations = operations\<rparr>)"

text \<open>
  The IR's configuration. \<open>acceptsTranslationInfo\<close> is whether IREE's \<open>setTranslationInfo\<close> succeeds
  on a function.
\<close>

record ir_config =
  translationInfo :: "nat \<Rightarrow> translation_info option"
  loweringConfig :: "nat \<Rightarrow> lowering_config option"
  acceptsTranslationInfo :: "nat \<Rightarrow> bool"

definition applyEncodedDispatchPlan :: "encoded_dispatch_plan \<Rightarrow> ir_config \<Rightarrow> (plan_error + unit) \<times> ir_config" where
  "applyEncodedDispatchPlan encodedPlan cfg =
     (if translationInfo cfg (ep_entryPoint encodedPlan) \<noteq> None then (Inl TranslationInfoExists, cfg)
      else case find (\<lambda>(op, config). loweringConfig cfg op \<noteq> None) (ep_operations encodedPlan) of
             Some (op, config) \<Rightarrow> (Inl (LoweringConfigExists op), cfg)
           | None \<Rightarrow>
               if \<not> acceptsTranslationInfo cfg (ep_entryPoint encodedPlan) then (Inl TranslationInfoNotSet, cfg)
               else let cfg = cfg\<lparr>translationInfo := (translationInfo cfg)
                      (ep_entryPoint encodedPlan := Some (ep_translationInfo encodedPlan))\<rparr>
                    in (Inr (), fold (\<lambda>(op, config) cfg. cfg\<lparr>loweringConfig := (loweringConfig cfg)(op := Some config)\<rparr>)
                         (ep_operations encodedPlan) cfg))"

section \<open>Encoded stages\<close>

type_synonym stage_entry = "tiling_level \<times> int list \<times> bool"

definition keep_stage :: "stage_entry \<Rightarrow> bool" where
  "keep_stage e \<longleftrightarrow> (case e of (level, sizes, preserve) \<Rightarrow> sizes \<noteq> [] \<and> (preserve \<or> anyNonZero sizes))"

definition encode_stages :: "stage_entry list \<Rightarrow> (string \<times> stage_attr) list" where
  "encode_stages stages =
     map (\<lambda>(level, sizes, preserve). (getTilingLevelName level, makeTilingLevelAttr sizes)) (filter keep_stage stages)"

lemma appendLevel_stages: "appendLevel level sizes preserve (encode_stages stages) = encode_stages (stages @ [(level, sizes, preserve)])"
  by (auto simp: appendLevel_def encode_stages_def keep_stage_def)

lemma appendLevel_first: "appendLevel level sizes preserve [] = encode_stages [(level, sizes, preserve)]"
  by (auto simp: appendLevel_def encode_stages_def keep_stage_def)

lemma encode_stages_distinct: "distinct (map fst stages) \<Longrightarrow> distinct (map fst (encode_stages stages))"
proof (induction stages)
  case (Cons e stages)
  obtain level sizes preserve where e: "e = (level, sizes, preserve)" by (cases e)
  have "getTilingLevelName level \<notin> fst ` set (encode_stages stages)"
    using Cons.prems e by (force simp: encode_stages_def getTilingLevelName_inj)
  moreover have "encode_stages (e # stages) =
      (if keep_stage e then [(getTilingLevelName level, makeTilingLevelAttr sizes)] else []) @ encode_stages stages"
    using e by (simp add: encode_stages_def)
  ultimately show ?case using Cons by simp
qed (simp add: encode_stages_def)

definition stage_of :: "stage_entry list \<Rightarrow> tiling_level \<Rightarrow> int list" where
  "stage_of stages level =
     (case map_of stages level of None \<Rightarrow> []
      | Some (sizes, preserve) \<Rightarrow> if keep_stage (level, sizes, preserve) then sizes else [])"

lemma encode_stages_lookup:
  "distinct (map fst stages) \<Longrightarrow> map_of (encode_stages stages) (getTilingLevelName level) =
     (if stage_of stages level = [] then None else Some (makeTilingLevelAttr (stage_of stages level)))"
proof (induction stages)
  case (Cons e stages)
  obtain l sizes preserve where e: "e = (l, sizes, preserve)" by (cases e)
  have none: "map_of stages l = None" using Cons.prems e by (simp add: map_of_eq_None_iff)
  then have "stage_of stages l = []" by (simp add: stage_of_def)
  moreover have "stage_of (e # stages) level =
      (if level = l then (if keep_stage e then sizes else []) else stage_of stages level)"
    using e by (simp add: stage_of_def)
  moreover have "encode_stages (e # stages) =
      (if keep_stage e then [(getTilingLevelName l, makeTilingLevelAttr sizes)] else []) @ encode_stages stages"
    using e by (simp add: encode_stages_def)
  moreover have "keep_stage e \<Longrightarrow> sizes \<noteq> []" using e by (simp add: keep_stage_def)
  ultimately show ?case using Cons by (auto simp: getTilingLevelName_inj)
qed (simp add: encode_stages_def stage_of_def)

lemma encoded_stage_sizes:
  assumes "distinct (map fst stages)" and "level \<noteq> InvalidLevel"
  shows "getStaticTilingLevelSizes (dictionary (encode_stages stages)) (level_index level) = stage_of stages level"
  using encode_stages_lookup [OF assms(1), of level]
  by (auto simp: getStaticTilingLevelSizes_def getTilingLevelAttr_level [OF assms(2)] makeTilingLevelAttr_def
      map_of_dictionary [OF encode_stages_distinct [OF assms(1)]])

text \<open>A stage that is dropped only loses zeros.\<close>

lemma stage_of_at:
  "at (stage_of stages level) i = (case map_of stages level of None \<Rightarrow> 0 | Some (sizes, preserve) \<Rightarrow> at sizes i)"
  by (auto simp: stage_of_def keep_stage_def at_def anyNonZero_def list_ex_length split: option.split)

lemma stage_ok_verifies: "\<forall>item\<in>set config. stage_ok n item \<Longrightarrow> verify_config config = Inr ()"
  unfolding verify_config_iff by blast

lemma encode_stages_ok:
  assumes "\<forall>(level, sizes, preserve)\<in>set stages. level \<noteq> InvalidLevel \<and> length sizes \<in> {0, n} \<and> (\<forall>k\<in>set sizes. 0 \<le> k)"
  shows "\<forall>item\<in>set (dictionary (encode_stages stages)). stage_ok n item"
proof -
  have "stage_ok n item" if "item \<in> set (encode_stages stages)" for item
    using that assms getTilingLevelName_valid
    by (fastforce simp: encode_stages_def keep_stage_def stage_ok_def makeTilingLevelAttr_def)
  then show ?thesis by simp
qed

section \<open>The configuration of one operation\<close>

text \<open>The vectors of the assignment loop, each described on its own.\<close>

definition level_vector :: "dispatch_shape \<Rightarrow> tile_decision list \<Rightarrow> local_dim list \<Rightarrow> compute_tile_level \<Rightarrow> int list \<Rightarrow> int list" where
  "level_vector shape compute ds level v =
     fold (\<lambda>d v. if classifyComputeTileLevel shape d = level then v[ld_position d := td_size (compute ! ld_position d)] else v) ds v"

lemma assign_levels:
  "fold (assign_level shape compute) ds (common, reductions, inner) =
     (level_vector shape compute ds CommonParallel common, level_vector shape compute ds Reduction reductions,
      level_vector shape compute ds InnerParallel inner)"
proof (induction ds arbitrary: common reductions inner)
  case (Cons d ds)
  then show ?case
    by (cases "classifyComputeTileLevel shape d") (simp_all add: assign_level_def level_vector_def Let_def)
qed (simp add: level_vector_def)

lemma length_level_vector [simp]: "length (level_vector shape compute ds level v) = length v"
  by (induction ds arbitrary: v) (auto simp: level_vector_def)

lemma level_vector_nth:
  assumes "distinct (map ld_position ds)" and "d \<in> set ds" and "ld_position d < length v"
  shows "level_vector shape compute ds level v ! ld_position d =
    (if classifyComputeTileLevel shape d = level then td_size (compute ! ld_position d) else v ! ld_position d)"
  using assms
proof (induction ds arbitrary: v)
  case (Cons e ds)
  have skip: "level_vector shape compute ds level w ! ld_position e = w ! ld_position e" if "e \<notin> set ds" "ld_position e \<notin> ld_position ` set ds" for w
    using that(2) by (induction ds arbitrary: w) (auto simp: level_vector_def)
  show ?case
  proof (cases "d = e")
    case True
    with Cons.prems skip show ?thesis by (force simp: level_vector_def)
  next
    case False
    then have d: "d \<in> set ds" using Cons.prems by simp
    then have "ld_position d \<in> ld_position ` set ds" by (rule imageI)
    then have "ld_position d \<noteq> ld_position e" using Cons.prems(1) by auto
    with d Cons show ?thesis by (simp add: level_vector_def)
  qed
qed simp

definition op_stages ::
  "dispatch_shape \<Rightarrow> op_shape \<Rightarrow> tile_decision list \<Rightarrow> tile_decision list \<Rightarrow> tile_decision list \<Rightarrow>
   tile_decision list \<Rightarrow> tile_decision list \<Rightarrow> bool \<Rightarrow> stage_entry list" where
  "op_stages shape s distribution cache compute vtcm hmx preserve =
     (let vec = (\<lambda>level. level_vector shape compute (os_dims s) level (replicate (length compute) 0))
      in [(DistributionTiles, getSizes distribution, preserve), (CacheParallelTiles, getSizes cache, False),
          (VectorCommonParallelTiles, vec CommonParallel, False), (VectorReductionTiles, vec Reduction, False),
          (VectorInnerParallelTiles, vec InnerParallel, False), (VTCMTiles, getSizes vtcm, False),
          (HmxTiles, getSizes hmx, False)])"

lemma encodeOpConfig_stages:
  "encodeOpConfig shape s distribution cache compute vtcm hmx preserve =
     (let entries = encode_stages (op_stages shape s distribution cache compute vtcm hmx preserve)
      in if entries = [] then None else Some (dictionary entries))"
  unfolding encodeOpConfig_def Let_def assign_levels prod.case
  by (simp only: appendLevel_first appendLevel_stages append_Cons append_Nil op_stages_def Let_def)

lemma op_stages_distinct: "distinct (map fst (op_stages shape s distribution cache compute vtcm hmx preserve))"
  by (simp add: op_stages_def Let_def)

text \<open>Tiles of an operation's rank, or none at all.\<close>

definition tiles_or_none :: "nat \<Rightarrow> tile_decision list \<Rightarrow> bool" where
  "tiles_or_none n tiles \<longleftrightarrow> tiles = [] \<or> tiles_ok n tiles"

lemma getSizes_nonneg: "tiles_or_none n tiles \<Longrightarrow> length (getSizes tiles) \<in> {0, n} \<and> (\<forall>k\<in>set (getSizes tiles). 0 \<le> k)"
  by (auto simp: tiles_or_none_def tiles_ok_def getSizes_def)

lemma level_vector_nonneg:
  assumes "\<forall>d\<in>set ds. 0 \<le> td_size (compute ! ld_position d)" and "\<forall>k\<in>set v. 0 \<le> k"
  shows "\<forall>k\<in>set (level_vector shape compute ds level v). 0 \<le> k"
  using assms
proof (induction ds arbitrary: v)
  case (Cons d ds)
  have "\<forall>k\<in>set (v[ld_position d := td_size (compute ! ld_position d)]). 0 \<le> k"
    using Cons.prems set_update_subset_insert [of v "ld_position d" "td_size (compute ! ld_position d)"] by auto
  with Cons show ?case by (auto simp: level_vector_def)
qed (simp add: level_vector_def)

text \<open>What the configuration says, stage by stage, and that MLIR accepts it.\<close>

lemma encodeOpConfig_Some:
  assumes s: "op_shape_ok ir g s" and compute: "tiles_ok (length (os_dims s)) compute"
    and rest: "tiles_or_none (length (os_dims s)) distribution" "tiles_or_none (length (os_dims s)) cache"
      "tiles_or_none (length (os_dims s)) vtcm" "tiles_or_none (length (os_dims s)) hmx"
    and run: "encodeOpConfig shape s distribution cache compute vtcm hmx preserve = Some config"
  shows "\<forall>item\<in>set config. stage_ok (length (os_dims s)) item" "distinct (map fst config)" "sorted (map fst config)"
    "\<And>l. l \<noteq> InvalidLevel \<Longrightarrow> getStaticTilingLevelSizes config (level_index l) =
       stage_of (op_stages shape s distribution cache compute vtcm hmx preserve) l"
proof -
  let ?st = "op_stages shape s distribution cache compute vtcm hmx preserve"
  have config: "config = dictionary (encode_stages ?st)"
    using run by (auto simp: encodeOpConfig_stages Let_def split: if_splits)
  have "\<forall>d\<in>set (os_dims s). 0 \<le> td_size (compute ! ld_position d)"
    using compute op_shape_ok_position_less [OF s] by (auto simp: tiles_ok_def)
  then have vec: "\<forall>k\<in>set (level_vector shape compute (os_dims s) level (replicate (length compute) 0)). 0 \<le> k" for level
    by (intro level_vector_nonneg) auto
  have len: "length compute = length (os_dims s)" using compute by (simp add: tiles_ok_def)
  have "\<forall>(level, sizes, preserve)\<in>set ?st.
      level \<noteq> InvalidLevel \<and> length sizes \<in> {0, length (os_dims s)} \<and> (\<forall>k\<in>set sizes. 0 \<le> k)"
    using getSizes_nonneg [OF rest(1)] getSizes_nonneg [OF rest(2)] getSizes_nonneg [OF rest(3)]
      getSizes_nonneg [OF rest(4)] vec len by (simp add: op_stages_def Let_def)
  then show "\<forall>item\<in>set config. stage_ok (length (os_dims s)) item" unfolding config by (rule encode_stages_ok)
  show "distinct (map fst config)" "sorted (map fst config)"
    using encode_stages_distinct [OF op_stages_distinct] by (simp_all add: config)
  show "getStaticTilingLevelSizes config (level_index l) = stage_of ?st l" if "l \<noteq> InvalidLevel" for l
    unfolding config by (rule encoded_stage_sizes [OF op_stages_distinct that])
qed

lemma op_dim_at:
  assumes "op_shape_ok ir g s" and "i < length (os_dims s)"
  obtains d where "d \<in> set (os_dims s)" "ld_position d = i"
  using op_shape_ok_position(1) [OF assms] assms(2) nth_mem by blast

text \<open>Each dimension's compute size is in exactly one vector stage.\<close>

lemma encoded_vector_levels:
  assumes s: "op_shape_ok ir g s" and compute: "tiles_ok (length (os_dims s)) compute"
    and rest: "tiles_or_none (length (os_dims s)) distribution" "tiles_or_none (length (os_dims s)) cache"
      "tiles_or_none (length (os_dims s)) vtcm" "tiles_or_none (length (os_dims s)) hmx"
    and run: "encodeOpConfig shape s distribution cache compute vtcm hmx preserve = Some config"
  shows "\<not> overlaps (map (level_at config i) vectorLevels) \<and>
    sum_list (map (level_at config i) vectorLevels) = at (map td_size compute) i"
proof -
  let ?vec = "\<lambda>level. level_vector shape compute (os_dims s) level (replicate (length compute) 0)"
  have len: "length compute = length (os_dims s)" using compute by (simp add: tiles_ok_def)
  note sizes = encodeOpConfig_Some(4) [OF assms]
  have lv: "level_at config i VectorCommonParallelTiles = at (?vec CommonParallel) i"
    "level_at config i VectorReductionTiles = at (?vec Reduction) i"
    "level_at config i VectorInnerParallelTiles = at (?vec InnerParallel) i"
    by (simp_all add: level_at_def sizes stage_of_at op_stages_def Let_def del: level_index.simps)
  show ?thesis
  proof (cases "i < length (os_dims s)")
    case True
    with s obtain d where d: "d \<in> set (os_dims s)" "ld_position d = i" by (rule op_dim_at)
    have "at (?vec level) i = (if classifyComputeTileLevel shape d = level then td_size (compute ! i) else 0)" for level
      using level_vector_nth [OF op_shape_positions [OF s] d(1), of "replicate (length compute) 0"] True len d(2)
      by (simp add: at_def)
    then show ?thesis using True len
      by (cases "classifyComputeTileLevel shape d") (simp_all add: lv vectorLevels_def overlaps_def at_def)
  next
    case False
    then show ?thesis using len by (simp add: lv vectorLevels_def overlaps_def at_def)
  qed
qed

lemma encoded_vector_sizes:
  assumes s: "op_shape_ok ir g s" and compute: "tiles_ok (length (os_dims s)) compute"
    and rest: "tiles_or_none (length (os_dims s)) distribution" "tiles_or_none (length (os_dims s)) cache"
      "tiles_or_none (length (os_dims s)) vtcm" "tiles_or_none (length (os_dims s)) hmx"
    and run: "encodeOpConfig shape s distribution cache compute vtcm hmx preserve = Some config"
  shows "\<exists>ns. getVectorSizes config = Some ns \<and> (\<forall>i. at ns i = at (map td_size compute) i)"
proof -
  obtain n where n: "\<And>l. length (getStaticTilingLevelSizes config (level_index l)) \<in> {0, n}"
    using verified_stage_sizes [OF stage_ok_verifies [OF encodeOpConfig_Some(1) [OF assms]]] by blast
  then show ?thesis
    using merge_levels_spec [of vectorLevels config n "[]"] encoded_vector_levels [OF assms]
    by (auto simp: getVectorSizes_def split: option.splits)
qed

section \<open>The whole plan\<close>

lemma hasTilingLevel_encoded:
  assumes "encodeOpConfig shape s distribution cache compute vtcm hmx preserve = Some config" and "level \<noteq> InvalidLevel"
  shows "hasTilingLevel config (level_index level) \<longleftrightarrow>
    stage_of (op_stages shape s distribution cache compute vtcm hmx preserve) level \<noteq> []"
proof -
  let ?st = "op_stages shape s distribution cache compute vtcm hmx preserve"
  have "config = dictionary (encode_stages ?st)"
    using assms by (auto simp: encodeOpConfig_stages Let_def split: if_splits)
  then have "map_of config (getTilingLevelName level) =
      (if stage_of ?st level = [] then None else Some (makeTilingLevelAttr (stage_of ?st level)))"
    using encode_stages_lookup [OF op_stages_distinct]
    by (simp add: map_of_dictionary [OF encode_stages_distinct [OF op_stages_distinct]])
  then show ?thesis by (simp add: hasTilingLevel_def getTilingLevelAttr_level [OF assms(2)])
qed

lemma hasWorkgroupTilingLevel_encoded:
  assumes "encodeOpConfig shape s distribution cache compute vtcm hmx preserve = Some config"
  shows "hasWorkgroupTilingLevel config \<longleftrightarrow> distribution \<noteq> [] \<and> (preserve \<or> anyNonZero (getSizes distribution))"
  unfolding hasWorkgroupTilingLevel_def
  by (subst hasTilingLevel_encoded [OF assms])
    (auto simp: stage_of_def op_stages_def keep_stage_def getSizes_def Let_def)

text \<open>Only the distribution stage may be all zero.\<close>

lemma stage_of_nonzero:
  assumes "stage_of stages level \<noteq> []" and "\<And>sizes. (level, sizes, True) \<notin> set stages"
  shows "anyNonZero (stage_of stages level)"
  using assms map_of_SomeD [of stages level]
  by (auto simp: stage_of_def keep_stage_def split: option.splits if_splits)


lemma encoded_nonzero:
  assumes "encodeOpConfig shape s distribution cache compute vtcm hmx preserve = Some config"
    and "level \<noteq> InvalidLevel" and "level \<noteq> DistributionTiles" and "hasTilingLevel config (level_index level)"
  shows "anyNonZero (getStaticTilingLevelSizes config (level_index level))"
proof -
  let ?st = "op_stages shape s distribution cache compute vtcm hmx preserve"
  have "config = dictionary (encode_stages ?st)"
    using assms(1) by (auto simp: encodeOpConfig_stages Let_def split: if_splits)
  then have "getStaticTilingLevelSizes config (level_index level) = stage_of ?st level"
    by (simp only: encoded_stage_sizes [OF op_stages_distinct assms(2)])
  moreover have "stage_of ?st level \<noteq> []" using hasTilingLevel_encoded [OF assms(1,2)] assms(4) by simp
  moreover have "(level, sizes, True) \<notin> set ?st" if "preserve \<longrightarrow> level \<noteq> DistributionTiles" for sizes
    using that by (auto simp: op_stages_def Let_def)
  ultimately show ?thesis using assms(3) stage_of_nonzero by metis
qed

text \<open>The stages that only the root's plan has.\<close>

definition root_stages :: "tiling_level set" where
  "root_stages = {DistributionTiles, CacheParallelTiles, VTCMTiles, HmxTiles}"

lemma compute_only_encoded:
  assumes "encodeOpConfig shape s [] [] compute [] [] False = Some config" and "level \<in> root_stages"
  shows "\<not> hasTilingLevel config (level_index level)"
proof -
  have "level \<noteq> InvalidLevel" using assms(2) by (auto simp: root_stages_def)
  from hasTilingLevel_encoded [OF assms(1) this] assms(2) show ?thesis
    by (auto simp: root_stages_def stage_of_def op_stages_def getSizes_def Let_def)
qed

lemma encodeOpConfig_preserved:
  "distribution \<noteq> [] \<Longrightarrow> \<exists>config. encodeOpConfig shape s distribution cache compute vtcm hmx True = Some config"
  by (auto simp: encodeOpConfig_stages op_stages_def encode_stages_def keep_stage_def getSizes_def Let_def)

text \<open>Only the root can carry the distribution stage, and it does where an anchor is required.\<close>

lemma encode_op_anchor:
  assumes "requiresUniqueRootAnchor contract" and "distributionTile (rootTiling (dp_strategy plan)) \<noteq> []"
  shows "(\<exists>config. encode_op shape plan contract s = Some config \<and> hasWorkgroupTilingLevel config) \<longleftrightarrow>
    os_op s = ds_root shape"
proof (cases "os_op s = ds_root shape")
  case True
  let ?root = "rootTiling (dp_strategy plan)"
  obtain config where "encode_op shape plan contract s = Some config"
    using encodeOpConfig_preserved [OF assms(2)] True assms(1) by (fastforce simp: encode_op_def Let_def)
  moreover from this have "hasWorkgroupTilingLevel config"
    using True assms by (auto simp: encode_op_def Let_def dest!: hasWorkgroupTilingLevel_encoded)
  ultimately show ?thesis using True by simp
next
  case False
  then show ?thesis
    by (auto simp: encode_op_def dest!: hasWorkgroupTilingLevel_encoded split: option.splits)
qed

lemma filter_map_filter:
  "filter P (List.map_filter g xs) = map (\<lambda>x. the (g x)) (filter (\<lambda>x. \<exists>y. g x = Some y \<and> P y) xs)"
  by (induction xs) (auto simp: List.map_filter_def)

lemma encodeDispatchPlan_ok:
  assumes shape: "distinct (map os_op (ds_operations shape))" and root: "findOpShape shape (ds_root shape) = Some s"
    and tiles: "distributionTile (rootTiling (dp_strategy plan)) \<noteq> []"
  shows "encodeDispatchPlan ctx shape plan contract = Inr \<lparr>ep_entryPoint = pc_entryPoint ctx,
     ep_translationInfo = \<lparr>ti_pipeline = st_pipeline (dp_strategy plan),
        enableLoopPeeling = requestLoopPeeling (dp_strategy plan)\<rparr>,
     ep_operations = encode_operations shape plan contract\<rparr>"
proof (cases "requiresUniqueRootAnchor contract")
  case True
  let ?g = "\<lambda>s. map_option (\<lambda>config. (os_op s, config)) (encode_op shape plan contract s)"
  have "(\<exists>y. ?g s' = Some y \<and> (case y of (op, config) \<Rightarrow> hasWorkgroupTilingLevel config)) \<longleftrightarrow> os_op s' = ds_root shape \<and> True" for s'
    using encode_op_anchor [OF True tiles, of shape s'] by auto
  then have "filter (\<lambda>(op, config). hasWorkgroupTilingLevel config) (encode_operations shape plan contract) =
      map (\<lambda>x. the (?g x)) (filter (\<lambda>s'. os_op s' = ds_root shape \<and> True) (ds_operations shape))"
    unfolding encode_operations_def filter_map_filter by simp
  also have "\<dots> = [the (?g s)]"
    using filter_op_found [OF shape, of "ds_root shape" s "\<lambda>_. True"] root by (simp add: findOpShape_def)
  finally have anchors: "filter (\<lambda>(op, config). hasWorkgroupTilingLevel config) (encode_operations shape plan contract) = [the (?g s)]" .
  have "os_op s = ds_root shape" using findOpShape_Some [OF root] by simp
  moreover from this have "encode_op shape plan contract s \<noteq> None"
    using encode_op_anchor [OF True tiles, of shape s] by auto
  ultimately have "fst (the (?g s)) = ds_root shape" by auto
  with anchors show ?thesis by (simp add: encodeDispatchPlan_def Let_def)
qed (simp add: encodeDispatchPlan_def Let_def)

lemma encode_operations_ops:
  "distinct (map os_op (ds_operations shape)) \<Longrightarrow> distinct (map fst (encode_operations shape plan contract))"
proof -
  let ?g = "\<lambda>s. map_option (\<lambda>config. (os_op s, config)) (encode_op shape plan contract s)"
  have "distinct (map os_op xs) \<Longrightarrow> distinct (map fst (List.map_filter ?g xs)) \<and>
      fst ` set (List.map_filter ?g xs) \<subseteq> os_op ` set xs" for xs
    by (induction xs) (auto simp: List.map_filter_def)
  then show "distinct (map os_op (ds_operations shape)) \<Longrightarrow> distinct (map fst (encode_operations shape plan contract))"
    by (simp add: encode_operations_def)
qed

lemma map_of_encode_operations:
  assumes "distinct (map os_op (ds_operations shape))"
  shows "map_of (encode_operations shape plan contract) op =
    (case findOpShape shape op of None \<Rightarrow> None | Some s \<Rightarrow> encode_op shape plan contract s)"
proof -
  let ?g = "\<lambda>s. map_option (\<lambda>config. (os_op s, config)) (encode_op shape plan contract s)"
  have none: "op \<notin> os_op ` set xs \<Longrightarrow> map_of (List.map_filter ?g xs) op = None" for xs
    by (induction xs) (auto simp: List.map_filter_simps split: option.split)
  have "distinct (map os_op xs) \<Longrightarrow> map_of (List.map_filter ?g xs) op =
      (case find (\<lambda>s. os_op s = op) xs of None \<Rightarrow> None | Some s \<Rightarrow> encode_op shape plan contract s)" for xs
    using none by (induction xs) (auto simp: List.map_filter_simps split: option.split)
  then show ?thesis using assms by (simp add: encode_operations_def findOpShape_def)
qed

section \<open>Applying a plan\<close>

lemma fold_configs:
  "distinct (map fst ops) \<Longrightarrow>
   fold (\<lambda>(op, config) cfg. cfg\<lparr>loweringConfig := (loweringConfig cfg)(op := Some config)\<rparr>) ops cfg =
     cfg\<lparr>loweringConfig := \<lambda>op. case map_of ops op of None \<Rightarrow> loweringConfig cfg op | Some config \<Rightarrow> Some config\<rparr>"
proof (induction ops arbitrary: cfg)
  case (Cons o' ops)
  obtain op config where o: "o' = (op, config)" by (cases o')
  have "map_of ops op = None" using Cons.prems o by (simp add: map_of_eq_None_iff)
  then have "(\<lambda>x. case map_of ops x of None \<Rightarrow> ((loweringConfig cfg)(op := Some config)) x | Some c \<Rightarrow> Some c) =
      (\<lambda>x. case map_of (o' # ops) x of None \<Rightarrow> loweringConfig cfg x | Some c \<Rightarrow> Some c)"
    using o by (auto simp: fun_eq_iff split: option.split)
  with Cons o show ?case by (simp cong: option.case_cong)
qed simp

lemma applyEncodedDispatchPlan_Inr:
  assumes "distinct (map fst (ep_operations ep))" and "translationInfo cfg (ep_entryPoint ep) = None"
    and "\<forall>op\<in>fst ` set (ep_operations ep). loweringConfig cfg op = None"
    and "acceptsTranslationInfo cfg (ep_entryPoint ep)"
  shows "applyEncodedDispatchPlan ep cfg = (Inr (),
    cfg\<lparr>translationInfo := (translationInfo cfg)(ep_entryPoint ep := Some (ep_translationInfo ep)),
      loweringConfig := \<lambda>op. case map_of (ep_operations ep) op of None \<Rightarrow> loweringConfig cfg op | Some c \<Rightarrow> Some c\<rparr>)"
proof -
  have "find (\<lambda>(op, config). loweringConfig cfg op \<noteq> None) (ep_operations ep) = None"
    using assms(3) by (auto simp: find_None_iff)
  then show ?thesis
    using assms by (simp add: applyEncodedDispatchPlan_def fold_configs Let_def cong: option.case_cong)
qed

section \<open>Properties\<close>

text \<open>
  C25: the configuration encoded for an operation passes MLIR's verifier, and reads back as the
  plan: the merged vector sizes exist and are the compute tile, whichever vector stages its
  dimensions were sent to, and every other stage has the sizes of its decisions (a stage of zeros
  may be dropped, which reads as zeros).
\<close>

theorem encodeOpConfig_correct:
  assumes s: "op_shape_ok ir g s" and compute: "tiles_ok (length (os_dims s)) compute"
    and rest: "tiles_or_none (length (os_dims s)) distribution" "tiles_or_none (length (os_dims s)) cache"
      "tiles_or_none (length (os_dims s)) vtcm" "tiles_or_none (length (os_dims s)) hmx"
    and run: "encodeOpConfig shape s distribution cache compute vtcm hmx preserve = Some config"
  shows "verify_config config = Inr () \<and>
    (\<exists>ns. getVectorSizes config = Some ns \<and> (\<forall>i. at ns i = at (map td_size compute) i)) \<and>
    (\<forall>i. level_at config i DistributionTiles = at (map td_size distribution) i \<and>
         level_at config i CacheParallelTiles = at (map td_size cache) i \<and>
         level_at config i VTCMTiles = at (map td_size vtcm) i \<and>
         level_at config i HmxTiles = at (map td_size hmx) i)"
proof -
  note f = encodeOpConfig_Some [OF assms]
  note encoded_vector_sizes [OF assms]
  moreover have "level_at config i DistributionTiles = at (map td_size distribution) i \<and>
         level_at config i CacheParallelTiles = at (map td_size cache) i \<and>
         level_at config i VTCMTiles = at (map td_size vtcm) i \<and>
         level_at config i HmxTiles = at (map td_size hmx) i" for i
    by (simp add: level_at_def f(4) stage_of_at op_stages_def getSizes_def Let_def del: level_index.simps)
  ultimately show ?thesis using stage_ok_verifies [OF f(1)] by blast
qed

theorem encodeOpConfig_correct_witness:
  "\<exists>config. encodeOpConfig sample_shape sample_root_shape (noTiles 3) (noTiles 3)
       [TileDecision 8, TileDecision 32, TileDecision 8] [] [] True = Some config \<and>
     verify_config config = Inr () \<and> level_at config 1 DistributionTiles = 0"
proof -
  have s: "op_shape_ok sample_ir 3 sample_root_shape" by (simp add: op_shape_ok_def sample_simps upt_rec)
  have compute: "tiles_ok (length (os_dims sample_root_shape)) [TileDecision 8, TileDecision 32, TileDecision 8]"
    by (simp add: tiles_ok_def sample_root_shape_def)
  have rest: "tiles_or_none (length (os_dims sample_root_shape)) (noTiles 3)"
    "tiles_or_none (length (os_dims sample_root_shape)) []"
    by (simp_all add: tiles_or_none_def sample_root_shape_def flip: numeral_3_eq_3)
  have "noTiles 3 \<noteq> []" by (simp add: noTiles_def)
  then obtain config where config: "encodeOpConfig sample_shape sample_root_shape (noTiles 3) (noTiles 3)
       [TileDecision 8, TileDecision 32, TileDecision 8] [] [] True = Some config"
    using encodeOpConfig_preserved by blast
  with encodeOpConfig_correct [OF s compute rest(1) rest(1) rest(2) rest(2) config] show ?thesis
    by (auto simp: at_def noTiles_def)
qed

text \<open>
  Putting a plan on the IR is all or nothing. Where the function or one of the operations is
  already configured, or IREE refuses the translation info, nothing changes; otherwise exactly the
  planned operations and the entry point get their attributes.
\<close>

theorem applyEncodedDispatchPlan_correct:
  assumes "distinct (map fst (ep_operations ep))"
  shows "case applyEncodedDispatchPlan ep cfg of
      (Inl e, cfg') \<Rightarrow> cfg' = cfg \<and>
        (translationInfo cfg (ep_entryPoint ep) \<noteq> None \<or>
         (\<exists>op\<in>fst ` set (ep_operations ep). loweringConfig cfg op \<noteq> None) \<or>
         \<not> acceptsTranslationInfo cfg (ep_entryPoint ep))
    | (Inr _, cfg') \<Rightarrow>
        translationInfo cfg' = (translationInfo cfg)(ep_entryPoint ep := Some (ep_translationInfo ep)) \<and>
        (\<forall>op. loweringConfig cfg' op = (case map_of (ep_operations ep) op of
           None \<Rightarrow> loweringConfig cfg op | Some config \<Rightarrow> Some config))"
proof (cases "find (\<lambda>(op, config). loweringConfig cfg op \<noteq> None) (ep_operations ep)")
  case None
  then have "\<forall>op\<in>fst ` set (ep_operations ep). loweringConfig cfg op = None" by (auto simp: find_None_iff)
  with None applyEncodedDispatchPlan_Inr [OF assms, of cfg] show ?thesis
    by (cases "translationInfo cfg (ep_entryPoint ep)"; cases "acceptsTranslationInfo cfg (ep_entryPoint ep)")
      (simp_all add: applyEncodedDispatchPlan_def)
next
  case (Some o')
  then have "o' \<in> set (ep_operations ep)" "loweringConfig cfg (fst o') \<noteq> None"
    by (auto simp: find_Some_iff) (metis nth_mem)
  then have op: "\<exists>op\<in>fst ` set (ep_operations ep). loweringConfig cfg op \<noteq> None" by blast
  have "applyEncodedDispatchPlan ep cfg =
      (Inl (if translationInfo cfg (ep_entryPoint ep) \<noteq> None then TranslationInfoExists
            else LoweringConfigExists (fst o')), cfg)"
    unfolding applyEncodedDispatchPlan_def Some by (cases o') simp
  with op show ?thesis by simp
qed

theorem applyEncodedDispatchPlan_correct_witness:
  "\<exists>cfg'. applyEncodedDispatchPlan
      \<lparr>ep_entryPoint = 7, ep_translationInfo = \<lparr>ti_pipeline = MultiTilingExpert, enableLoopPeeling = False\<rparr>,
       ep_operations = [(2, sample_config)]\<rparr>
      \<lparr>translationInfo = \<lambda>_. None, loweringConfig = \<lambda>_. None, acceptsTranslationInfo = \<lambda>_. True\<rparr> = (Inr (), cfg') \<and>
    loweringConfig cfg' 2 = Some sample_config \<and> loweringConfig cfg' 1 = None"
proof -
  let ?ep = "\<lparr>ep_entryPoint = 7, ep_translationInfo = \<lparr>ti_pipeline = MultiTilingExpert, enableLoopPeeling = False\<rparr>,
       ep_operations = [(2, sample_config)]\<rparr>"
  let ?cfg = "\<lparr>translationInfo = \<lambda>_. None, loweringConfig = \<lambda>_. None, acceptsTranslationInfo = \<lambda>_. True\<rparr>"
  have "distinct (map fst (ep_operations ?ep))" by simp
  from applyEncodedDispatchPlan_correct [OF this, of ?cfg] show ?thesis
    by (auto split: prod.splits sum.splits)
qed

end
