(* ===== verification/Dispatch_Analysis.thy ===== *)
theory Dispatch_Analysis
  imports Plan_Encoding
begin

text \<open>
  The dimension graph of a dispatch and the shape derived from it:
  \<open>CodeGen/Strategy/Planning/DispatchAnalysis.cpp\<close>. Every loop of every operation gets a
  provisional id; loops that index the same dimension of the same value are united; the classes are
  numbered. The known dimensions of a value are optional ids, \<open>None\<close> for \<open>kUnknownGlobalDim\<close>.
\<close>

section \<open>Equivalence classes\<close>

text \<open>
  \<open>llvm::EquivalenceClasses\<close> over the ids \<open>0, 1, \<dots>\<close>, inserted in this order: the list of leaders by
  member. Uniting two classes makes the first one's leader the leader of both.
\<close>

type_synonym leaders = "nat list"

definition insert_id :: "leaders \<Rightarrow> leaders" where
  "insert_id ls = ls @ [length ls]"

definition unionSets :: "nat \<Rightarrow> nat \<Rightarrow> leaders \<Rightarrow> leaders" where
  "unionSets a b ls = map (\<lambda>l. if l = ls ! b then ls ! a else l) ls"

section \<open>The graph\<close>

record graph_state =
  operationDimensions :: "nat \<Rightarrow> nat list option"
  provisionalDimensionCount :: nat
  equivalence :: leaders
  valueDimensions :: "nat \<Rightarrow> nat option list option"

definition isEligible :: "planner_ir \<Rightarrow> nat \<Rightarrow> bool" where
  "isEligible ir op \<longleftrightarrow> isTilingInterface ir op \<and> loopIteratorTypes ir op \<noteq> []"

text \<open>The ids that a map assigns to the dimensions of a value.\<close>

definition map_dimensions :: "nat list \<Rightarrow> nat \<Rightarrow> affine_map \<Rightarrow> nat option list" where
  "map_dimensions localDimensions rank m =
     map (\<lambda>valueDim.
       if valueDim < length (getResults m) then
         (case getResults m ! valueDim of
            AffineDimExpr p \<Rightarrow> if p < length localDimensions then Some (localDimensions ! p) else None
          | OtherAffineExpr \<Rightarrow> None)
       else None) [0..<rank]"

text \<open>Another reader of a value whose dimensions are known: one dimension, then all.\<close>

definition unify_dimension ::
  "nat \<times> nat option \<Rightarrow> nat option list \<times> leaders \<Rightarrow> nat option list \<times> leaders" where
  "unify_dimension vd s =
     (let (valueDim, currentDimension) = vd; (known, ls) = s
      in if length known \<le> valueDim then s
         else case currentDimension of None \<Rightarrow> s
              | Some c \<Rightarrow>
                  (case known ! valueDim of None \<Rightarrow> (known[valueDim := Some c], ls)
                   | Some k \<Rightarrow> (known, unionSets k c ls)))"

definition read_value :: "nat \<Rightarrow> nat option list \<Rightarrow> graph_state \<Rightarrow> graph_state" where
  "read_value v dims g =
     (case valueDimensions g v of
        None \<Rightarrow> g\<lparr>valueDimensions := (valueDimensions g)(v := Some dims)\<rparr>
      | Some known \<Rightarrow>
          let (known, ls) = fold unify_dimension (enumerate 0 dims) (known, equivalence g)
          in g\<lparr>valueDimensions := (valueDimensions g)(v := Some known), equivalence := ls\<rparr>)"

definition propagate_operand :: "planner_ir \<Rightarrow> nat \<Rightarrow> nat list \<Rightarrow> nat \<Rightarrow> graph_state \<Rightarrow> graph_state" where
  "propagate_operand ir op localDimensions i g =
     (let v = opOperands ir op ! i
      in if \<not> isShapedType (typeOf ir v) then g
         else if (case getDefiningOp ir v of None \<Rightarrow> False | Some d \<Rightarrow> isTensorEmptyOp ir d) then g
         else read_value v (map_dimensions localDimensions (getRank (typeOf ir v)) (operandMaps ir op ! i)) g)"

definition propagate_result :: "planner_ir \<Rightarrow> nat \<Rightarrow> nat list \<Rightarrow> nat \<Rightarrow> graph_state \<Rightarrow> graph_state" where
  "propagate_result ir op localDimensions r g =
     (let v = opResults ir op ! r
      in if \<not> isShapedType (typeOf ir v) then g
         else g\<lparr>valueDimensions := (valueDimensions g)(v := Some
           (map_dimensions localDimensions (getRank (typeOf ir v)) (operandMaps ir op ! tiedOperand ir op r)))\<rparr>)"

definition propagateIndexingOp :: "planner_ir \<Rightarrow> nat \<Rightarrow> nat list \<Rightarrow> graph_state \<Rightarrow> graph_state" where
  "propagateIndexingOp ir op localDimensions g =
     (let g = fold (propagate_operand ir op localDimensions) [0..<length (opOperands ir op)] g
      in if \<not> isDestinationStyleOp ir op then g
         else fold (propagate_result ir op localDimensions) [0..<length (opResults ir op)] g)"

definition identity_operand :: "planner_ir \<Rightarrow> nat list \<Rightarrow> nat \<Rightarrow> graph_state \<Rightarrow> graph_state" where
  "identity_operand ir localDimensions v g =
     (if \<not> isShapedType (typeOf ir v) \<or> getRank (typeOf ir v) \<noteq> length localDimensions then g
      else case valueDimensions g v of
             Some known \<Rightarrow> if length known \<noteq> length localDimensions then g
               else read_value v (map Some localDimensions) g
           | None \<Rightarrow> read_value v (map Some localDimensions) g)"

definition identity_result :: "planner_ir \<Rightarrow> nat list \<Rightarrow> nat \<Rightarrow> graph_state \<Rightarrow> graph_state" where
  "identity_result ir localDimensions v g =
     (if isShapedType (typeOf ir v) \<and> getRank (typeOf ir v) = length localDimensions
      then g\<lparr>valueDimensions := (valueDimensions g)(v := Some (map Some localDimensions))\<rparr> else g)"

definition propagateIdentityOp :: "planner_ir \<Rightarrow> nat \<Rightarrow> nat list \<Rightarrow> graph_state \<Rightarrow> graph_state" where
  "propagateIdentityOp ir op localDimensions g =
     fold (identity_result ir localDimensions) (opResults ir op)
       (fold (identity_operand ir localDimensions) (opOperands ir op) g)"

text \<open>The loop of \<open>build\<close>: new ids for the operation's loops, then its values.\<close>

definition add_loop :: "nat \<Rightarrow> graph_state \<Rightarrow> graph_state" where
  "add_loop op g =
     (let ds = (case operationDimensions g op of None \<Rightarrow> [] | Some ds \<Rightarrow> ds)
      in g\<lparr>operationDimensions := (operationDimensions g)(op := Some (ds @ [provisionalDimensionCount g])),
           provisionalDimensionCount := Suc (provisionalDimensionCount g),
           equivalence := insert_id (equivalence g)\<rparr>)"

definition build_op :: "planner_ir \<Rightarrow> nat \<Rightarrow> graph_state \<Rightarrow> graph_state" where
  "build_op ir op g =
     (let loopCount = length (loopIteratorTypes ir op);
          g = ((add_loop op) ^^ loopCount) g;
          localDimensions = (case operationDimensions g op of None \<Rightarrow> [] | Some ds \<Rightarrow> ds)
      in if isIndexingMapOp ir op then propagateIndexingOp ir op localDimensions g
         else propagateIdentityOp ir op localDimensions g)"

definition empty_graph :: graph_state where
  "empty_graph = \<lparr>operationDimensions = \<lambda>_. None, provisionalDimensionCount = 0, equivalence = [],
     valueDimensions = \<lambda>_. None\<rparr>"

definition build :: "planner_ir \<Rightarrow> nat list \<Rightarrow> graph_state" where
  "build ir operations = fold (build_op ir) operations empty_graph"

text \<open>\<open>compact\<close>: the classes numbered in the order of their leaders.\<close>

definition class_leaders :: "leaders \<Rightarrow> nat list" where
  "class_leaders ls = filter (\<lambda>i. ls ! i = i) [0..<length ls]"

definition compactIds :: "leaders \<Rightarrow> (nat \<Rightarrow> nat option) \<times> nat" where
  "compactIds ls = fold (\<lambda>leader (ids, nextId).
       (\<lambda>member. if member < length ls \<and> ls ! member = leader then Some nextId else ids member, Suc nextId))
     (class_leaders ls) (\<lambda>_. None, 0)"

definition compact_lookup :: "leaders \<Rightarrow> nat \<Rightarrow> nat" where
  "compact_lookup ls d = (case fst (compactIds ls) d of None \<Rightarrow> 0 | Some i \<Rightarrow> i)"

record dimension_graph =
  dimensionsOf :: "nat \<Rightarrow> nat list"
  compactDimensionCount :: nat

definition DimensionGraph :: "planner_ir \<Rightarrow> nat list \<Rightarrow> dimension_graph" where
  "DimensionGraph ir orderedComputeOps =
     (let operations = topologicalSort ir (filter (isEligible ir) orderedComputeOps);
          g = build ir operations
      in \<lparr>dimensionsOf = (\<lambda>op. case operationDimensions g op of None \<Rightarrow> []
            | Some ds \<Rightarrow> map (compact_lookup (equivalence g)) ds),
          compactDimensionCount = snd (compactIds (equivalence g))\<rparr>)"

section \<open>The shape\<close>

definition getStaticLoopRanges :: "planner_ir \<Rightarrow> nat \<Rightarrow> nat \<Rightarrow> int list" where
  "getStaticLoopRanges ir op loopCount =
     (if isIndexingMapOp ir op then staticLoopRanges ir op else replicate loopCount kDynamic)"

text \<open>The loop body of \<open>analyzeDispatch\<close>; the state is the global dimensions and the operations.\<close>

definition analyze_op ::
  "planner_ir \<Rightarrow> dimension_graph \<Rightarrow> nat \<Rightarrow> nat \<Rightarrow> global_dim list \<times> op_shape list \<Rightarrow>
   plan_error + global_dim list \<times> op_shape list" where
  "analyze_op ir graph root op s =
     (let (globals, operations) = s
      in if \<not> isEligible ir op then Inr s
         else
           let globalIds = dimensionsOf graph op;
               iteratorTypes = loopIteratorTypes ir op;
               staticRanges = getStaticLoopRanges ir op (length iteratorTypes)
           in bind_res (fail_if (length globalIds \<noteq> length iteratorTypes \<or> length staticRanges \<noteq> length iteratorTypes)
                  (InconsistentLoopRank op)) (\<lambda>_.
              bind_res (fail_if (isIndexingMapOp ir op \<and>
                    list_ex (\<lambda>i. isShapedType (typeOf ir (opOperands ir op ! i)) \<and>
                      getNumDims (operandMaps ir op ! i) \<noteq> length iteratorTypes) [0..<length (opOperands ir op)])
                  (MapRankMismatch op)) (\<lambda>_.
              let dims = map (\<lambda>position. \<lparr>ld_position = position, ld_global = globalIds ! position,
                    staticExtent = staticRanges ! position, iteratorType = iteratorTypes ! position\<rparr>)
                    [0..<length globalIds];
                  globals = (if op = root
                    then fold (\<lambda>d gs. gs[ld_global d := (gs ! ld_global d)\<lparr>presentInRoot := True\<rparr>]) dims globals
                    else globals)
              in Inr (globals, operations @ [\<lparr>os_op = op, os_ordinal = length operations, os_dims = dims\<rparr>]))))"

definition analyzeDispatch :: "planner_ir \<Rightarrow> planning_context \<Rightarrow> nat list \<Rightarrow> plan_error + dispatch_shape" where
  "analyzeDispatch ir ctx orderedComputeOps =
     (case getRootOperation ir orderedComputeOps of None \<Rightarrow> Inl NoRootOperation
      | Some root \<Rightarrow>
          let graph = DimensionGraph ir orderedComputeOps;
              globals = map (\<lambda>i. \<lparr>gd_id = i, presentInRoot = False\<rparr>) [0..<compactDimensionCount graph]
          in bind_res (fold_res (analyze_op ir graph root) orderedComputeOps (globals, [])) (\<lambda>(globals, operations).
             let shape = \<lparr>ds_entryPoint = pc_entryPoint ctx, ds_root = root, globalDimensions = globals,
                   ds_operations = operations\<rparr>
             in Inr (if findOpShape shape root = None then shape\<lparr>ds_root := 0\<rparr> else shape)))"

section \<open>Classes\<close>

definition leaders_ok :: "leaders \<Rightarrow> bool" where
  "leaders_ok ls \<longleftrightarrow> (\<forall>i<length ls. ls ! i < length ls \<and> ls ! (ls ! i) = ls ! i)"

definition united :: "leaders \<Rightarrow> nat \<Rightarrow> nat \<Rightarrow> bool" where
  "united ls x y \<longleftrightarrow> x < length ls \<and> y < length ls \<and> ls ! x = ls ! y"

lemma united_trans: "united ls x y \<Longrightarrow> united ls y z \<Longrightarrow> united ls x z"
  and united_sym: "united ls x y \<Longrightarrow> united ls y x"
  and united_refl: "x < length ls \<Longrightarrow> united ls x x"
  by (simp_all add: united_def)

lemma length_unionSets [simp]: "length (unionSets a b ls) = length ls"
  by (simp add: unionSets_def)

lemma unionSets_nth: "i < length ls \<Longrightarrow> unionSets a b ls ! i = (if ls ! i = ls ! b then ls ! a else ls ! i)"
  by (simp add: unionSets_def)

lemma leaders_ok_union: "leaders_ok ls \<Longrightarrow> a < length ls \<Longrightarrow> leaders_ok (unionSets a b ls)"
  by (auto simp: leaders_ok_def unionSets_nth)

lemma united_union_mono: "united ls x y \<Longrightarrow> united (unionSets a b ls) x y"
  by (simp add: united_def unionSets_nth)

lemma united_union: "a < length ls \<Longrightarrow> b < length ls \<Longrightarrow> united (unionSets a b ls) a b"
  by (simp add: united_def unionSets_nth)

lemma leaders_ok_insert: "leaders_ok ls \<Longrightarrow> leaders_ok (insert_id ls)"
  by (auto simp: leaders_ok_def insert_id_def nth_append less_Suc_eq)

lemma united_insert_mono: "united ls x y \<Longrightarrow> united (insert_id ls) x y"
  by (simp add: united_def insert_id_def nth_append)

section \<open>What the propagation keeps\<close>

definition dims_below :: "nat \<Rightarrow> nat option list \<Rightarrow> bool" where
  "dims_below n vs \<longleftrightarrow> (\<forall>d. Some d \<in> set vs \<longrightarrow> d < n)"

text \<open>Ids are below the counter, and a value has as many dimensions as its rank.\<close>

definition graph_ok :: "planner_ir \<Rightarrow> graph_state \<Rightarrow> bool" where
  "graph_ok ir g \<longleftrightarrow>
     leaders_ok (equivalence g) \<and> length (equivalence g) = provisionalDimensionCount g \<and>
     (\<forall>v vs. valueDimensions g v = Some vs \<longrightarrow>
        length vs = getRank (typeOf ir v) \<and> dims_below (provisionalDimensionCount g) vs)"

text \<open>Dimension \<open>vd\<close> of value \<open>v\<close> is in the class of the loop \<open>x\<close>.\<close>

definition knows :: "graph_state \<Rightarrow> nat \<Rightarrow> nat \<Rightarrow> nat \<Rightarrow> bool" where
  "knows g v vd x \<longleftrightarrow>
     (\<exists>vs y. valueDimensions g v = Some vs \<and> vd < length vs \<and> vs ! vd = Some y \<and> united (equivalence g) y x)"

text \<open>Classes only grow, and the dimensions of values outside \<open>V\<close> stay known.\<close>

definition grows :: "nat set \<Rightarrow> graph_state \<Rightarrow> graph_state \<Rightarrow> bool" where
  "grows V g g' \<longleftrightarrow>
     (\<forall>x y. united (equivalence g) x y \<longrightarrow> united (equivalence g') x y) \<and>
     (\<forall>v vd x. v \<notin> V \<longrightarrow> knows g v vd x \<longrightarrow> knows g' v vd x)"

lemma graph_grows_refl [simp]: "grows V g g"
  by (simp add: grows_def)

lemma graph_grows_trans: "grows V g g' \<Longrightarrow> grows V g' g'' \<Longrightarrow> grows V g g''"
  by (simp add: grows_def)

lemma grows_mono: "grows V g g' \<Longrightarrow> V \<subseteq> W \<Longrightarrow> grows W g g'"
  unfolding grows_def by blast

text \<open>Propagation leaves the operations' own dimensions alone.\<close>

definition same_dims :: "graph_state \<Rightarrow> graph_state \<Rightarrow> bool" where
  "same_dims g g' \<longleftrightarrow> operationDimensions g' = operationDimensions g \<and>
     provisionalDimensionCount g' = provisionalDimensionCount g"

definition propagates :: "planner_ir \<Rightarrow> nat set \<Rightarrow> graph_state \<Rightarrow> graph_state \<Rightarrow> bool" where
  "propagates ir V g g' \<longleftrightarrow> graph_ok ir g' \<and> same_dims g g' \<and> grows V g g'"

lemma propagates_refl: "graph_ok ir g \<Longrightarrow> propagates ir V g g"
  by (simp add: propagates_def same_dims_def)

lemma propagates_trans: "propagates ir V g g' \<Longrightarrow> propagates ir V g' g'' \<Longrightarrow> propagates ir V g g''"
  unfolding propagates_def same_dims_def using graph_grows_trans by metis

lemma propagates_mono: "propagates ir V g g' \<Longrightarrow> V \<subseteq> W \<Longrightarrow> propagates ir W g g'"
  unfolding propagates_def using grows_mono by blast

lemma propagates_fold:
  assumes "\<And>x g. x \<in> set xs \<Longrightarrow> graph_ok ir g \<Longrightarrow> provisionalDimensionCount g = n \<Longrightarrow> propagates ir V g (f x g)"
    and "graph_ok ir g" and "provisionalDimensionCount g = n"
  shows "propagates ir V g (fold f xs g)"
  using assms
proof (induction xs arbitrary: g)
  case (Cons x xs)
  have x: "propagates ir V g (f x g)" using Cons.prems by simp
  then have "graph_ok ir (f x g)" "provisionalDimensionCount (f x g) = n"
    using Cons.prems by (auto simp: propagates_def same_dims_def)
  then have "propagates ir V (f x g) (fold f xs (f x g))" using Cons by simp
  with x show ?case using propagates_trans by simp
qed (simp add: propagates_refl)

text \<open>Uniting one value's dimensions with those of another reader.\<close>

definition unify_ok :: "nat \<Rightarrow> nat option list \<Rightarrow> leaders \<Rightarrow> nat option list \<times> leaders \<Rightarrow> bool" where
  "unify_ok n known ls s \<longleftrightarrow>
     (case s of (known', ls') \<Rightarrow>
        length known' = length known \<and> dims_below n known' \<and> leaders_ok ls' \<and> length ls' = n \<and>
        (\<forall>x y. united ls x y \<longrightarrow> united ls' x y) \<and>
        (\<forall>vd y. vd < length known \<longrightarrow> known ! vd = Some y \<longrightarrow> known' ! vd = Some y))"

lemma dims_below_update: "dims_below n vs \<Longrightarrow> c < n \<Longrightarrow> dims_below n (vs[i := Some c])"
  using set_update_subset_insert by (fastforce simp: dims_below_def)

lemma dims_below_nth: "dims_below n vs \<Longrightarrow> i < length vs \<Longrightarrow> vs ! i = Some d \<Longrightarrow> d < n"
  unfolding dims_below_def using nth_mem by metis

lemma unify_dimension_ok:
  assumes "unify_ok n known ls s" and "\<And>c. cd = Some c \<Longrightarrow> c < n"
  shows "unify_ok n known ls (unify_dimension (vd, cd) s)"
    "\<And>c. vd < length known \<Longrightarrow> cd = Some c \<Longrightarrow>
       (\<exists>y. fst (unify_dimension (vd, cd) s) ! vd = Some y \<and> united (snd (unify_dimension (vd, cd) s)) y c)"
proof -
  obtain known1 ls1 where s: "s = (known1, ls1)" by (cases s)
  note ok = assms(1) [unfolded unify_ok_def s prod.case]
  have b: "known1 ! vd = Some k \<Longrightarrow> vd < length known \<Longrightarrow> k < n" for k
    using ok dims_below_nth by metis
  show "unify_ok n known ls (unify_dimension (vd, cd) s)"
    using ok assms(2) b
    by (auto simp: unify_ok_def unify_dimension_def s dims_below_update leaders_ok_union united_union_mono
        nth_list_update split: option.splits)
  show "\<exists>y. fst (unify_dimension (vd, cd) s) ! vd = Some y \<and> united (snd (unify_dimension (vd, cd) s)) y c"
    if "vd < length known" "cd = Some c" for c
    using ok assms(2) [OF that(2)] b that
    by (auto simp: unify_dimension_def s united_refl united_union split: option.splits)
qed

lemma unify_ok_trans:
  "unify_ok n known ls (known1, ls1) \<Longrightarrow> unify_ok n known1 ls1 s \<Longrightarrow> unify_ok n known ls s"
  by (auto simp: unify_ok_def split: prod.splits)

lemma unify_dimensions_ok:
  assumes "dims_below n dims" and "unify_ok n known ls s"
  shows "unify_ok n known ls (fold unify_dimension (enumerate m dims) s) \<and>
    (\<forall>i c. i < length dims \<longrightarrow> m + i < length known \<longrightarrow> dims ! i = Some c \<longrightarrow>
      (\<exists>y. fst (fold unify_dimension (enumerate m dims) s) ! (m + i) = Some y \<and>
        united (snd (fold unify_dimension (enumerate m dims) s)) y c))"
  using assms
proof (induction dims arbitrary: m s known ls)
  case (Cons d dims)
  let ?s = "unify_dimension (m, d) s" and ?r = "fold unify_dimension (enumerate (Suc m) dims) (unify_dimension (m, d) s)"
  have dn: "\<And>c. d = Some c \<Longrightarrow> c < n" and rest: "dims_below n dims"
    using Cons.prems(1) by (auto simp: dims_below_def)
  note one = unify_dimension_ok [OF Cons.prems(2), of d m, OF dn]
  obtain known1 ls1 where s1: "?s = (known1, ls1)" by (cases ?s)
  have "unify_ok n known ls (known1, ls1)" using one(1) by (simp add: s1)
  then have len: "length known1 = length known" and "unify_ok n known1 ls1 (known1, ls1)"
    by (auto simp: unify_ok_def)
  from Cons.IH [OF rest this(2), of "Suc m"] have from1: "unify_ok n known1 ls1 ?r" by (simp add: s1)
  note IH = Cons.IH [OF rest one(1), of "Suc m" ]
  have "\<exists>y. fst ?r ! (m + i) = Some y \<and> united (snd ?r) y c"
    if "i < length (d # dims)" "m + i < length known" "(d # dims) ! i = Some c" for i c
  proof (cases i)
    case 0
    with that one(2) s1 obtain y where "known1 ! m = Some y" "united ls1 y c" by auto
    with from1 len that 0 show ?thesis by (cases ?r) (auto simp: unify_ok_def)
  next
    case (Suc j)
    with that IH show ?thesis by auto
  qed
  with IH show ?case by (simp del: enumerate_simps add: enumerate_simps(2))
qed simp

lemma read_value_propagates:
  assumes g: "graph_ok ir g" and dims: "dims_below (provisionalDimensionCount g) dims"
    and len: "length dims = getRank (typeOf ir v)"
  shows "propagates ir V g (read_value v dims g)"
    "\<And>vd c. vd < length dims \<Longrightarrow> dims ! vd = Some c \<Longrightarrow> knows (read_value v dims g) v vd c"
proof -
  let ?n = "provisionalDimensionCount g"
  have ok: "leaders_ok (equivalence g)" "length (equivalence g) = ?n"
    using g by (simp_all add: graph_ok_def)
  have both: "propagates ir V g (read_value v dims g) \<and>
      (\<forall>vd c. vd < length dims \<longrightarrow> dims ! vd = Some c \<longrightarrow> knows (read_value v dims g) v vd c)"
  proof (cases "valueDimensions g v")
    case None
    have "knows (read_value v dims g) v vd c" if "vd < length dims" "dims ! vd = Some c" for vd c
      using that None dims_below_nth [OF dims that] ok by (auto simp: knows_def read_value_def united_refl)
    moreover have "propagates ir V g (read_value v dims g)"
      using None g dims len
      by (auto simp: propagates_def same_dims_def graph_ok_def grows_def knows_def read_value_def)
    ultimately show ?thesis by blast
  next
    case (Some known)
    have known: "length known = length dims" "dims_below ?n known" using g Some len by (auto simp: graph_ok_def)
    obtain known' ls where run: "fold unify_dimension (enumerate 0 dims) (known, equivalence g) = (known', ls)"
      by fastforce
    have "unify_ok ?n known (equivalence g) (known, equivalence g)"
      using known ok by (simp add: unify_ok_def)
    from unify_dimensions_ok [OF dims this, of 0] have u: "unify_ok ?n known (equivalence g) (known', ls)"
      and all: "\<And>i c. i < length dims \<Longrightarrow> dims ! i = Some c \<Longrightarrow> \<exists>y. known' ! i = Some y \<and> united ls y c"
      using run known by auto
    have r: "read_value v dims g = g\<lparr>valueDimensions := (valueDimensions g)(v := Some known'), equivalence := ls\<rparr>"
      using Some run by (simp add: read_value_def)
    have len': "length known' = length dims" using u known by (simp add: unify_ok_def)
    have "knows (read_value v dims g) w vd x" if "knows g w vd x" for w vd x
      using that u Some by (auto simp: knows_def r unify_ok_def)
    then have "propagates ir V g (read_value v dims g)"
      using g u known len by (auto simp: propagates_def same_dims_def graph_ok_def grows_def r unify_ok_def)
    moreover have "knows (read_value v dims g) v vd c" if "vd < length dims" "dims ! vd = Some c" for vd c
      using all [OF that] that len' by (auto simp: knows_def r)
    ultimately show ?thesis by blast
  qed
  then show "propagates ir V g (read_value v dims g)"
    "\<And>vd c. vd < length dims \<Longrightarrow> dims ! vd = Some c \<Longrightarrow> knows (read_value v dims g) v vd c"
    by blast+
qed

text \<open>Setting the dimensions of a result.\<close>

lemma write_value_propagates:
  assumes g: "graph_ok ir g" and dims: "dims_below (provisionalDimensionCount g) dims"
    and len: "length dims = getRank (typeOf ir v)" and v: "v \<in> V"
  shows "propagates ir V g (g\<lparr>valueDimensions := (valueDimensions g)(v := Some dims)\<rparr>)"
  using assms by (auto simp: propagates_def same_dims_def graph_ok_def grows_def knows_def)

lemma write_value_knows:
  assumes "graph_ok ir g" and "dims_below (provisionalDimensionCount g) dims"
    and "vd < length dims" and "dims ! vd = Some c"
  shows "knows (g\<lparr>valueDimensions := (valueDimensions g)(v := Some dims)\<rparr>) v vd c"
  using assms dims_below_nth [OF assms(2-4)] by (auto simp: knows_def graph_ok_def united_refl)

lemma map_dimensions_facts:
  assumes "\<forall>d\<in>set locals. d < n"
  shows "length (map_dimensions locals rank m) = rank" "dims_below n (map_dimensions locals rank m)"
    "\<And>vd p. vd < rank \<Longrightarrow> vd < length (getResults m) \<Longrightarrow> getResults m ! vd = AffineDimExpr p \<Longrightarrow> p < length locals \<Longrightarrow>
       map_dimensions locals rank m ! vd = Some (locals ! p)"
  using assms by (auto simp: map_dimensions_def dims_below_def split: if_splits affine_expr.splits)

lemma dims_below_Some: "\<forall>d\<in>set locals. d < n \<Longrightarrow> dims_below n (map Some locals)"
  by (auto simp: dims_below_def)

lemma propagate_operand_ok:
  assumes "graph_ok ir g" and "\<forall>d\<in>set locals. d < provisionalDimensionCount g"
  shows "propagates ir V g (propagate_operand ir op locals i g)"
  using assms map_dimensions_facts [OF assms(2)]
  by (auto simp: propagate_operand_def Let_def propagates_refl intro: read_value_propagates(1))

lemma propagate_result_ok:
  assumes "graph_ok ir g" and "\<forall>d\<in>set locals. d < provisionalDimensionCount g" and "opResults ir op ! r \<in> V"
  shows "propagates ir V g (propagate_result ir op locals r g)"
  using assms map_dimensions_facts [OF assms(2)]
  by (auto simp: propagate_result_def Let_def propagates_refl intro!: write_value_propagates)

lemma propagateIndexingOp_ok:
  assumes g: "graph_ok ir g" and locals: "\<forall>d\<in>set locals. d < provisionalDimensionCount g"
  shows "propagates ir (set (opResults ir op)) g (propagateIndexingOp ir op locals g)"
proof -
  let ?V = "set (opResults ir op)"
  let ?g = "fold (propagate_operand ir op locals) [0..<length (opOperands ir op)] g"
  have 1: "propagates ir ?V g ?g"
    using locals by (intro propagates_fold [where n = "provisionalDimensionCount g"] propagate_operand_ok g) auto
  then have g': "graph_ok ir ?g" "provisionalDimensionCount ?g = provisionalDimensionCount g"
    by (auto simp: propagates_def same_dims_def)
  have "propagates ir ?V ?g (fold (propagate_result ir op locals) [0..<length (opResults ir op)] ?g)"
    using locals g' by (intro propagates_fold [where n = "provisionalDimensionCount g"] propagate_result_ok) auto
  from propagates_trans [OF 1 this] 1 show ?thesis by (simp add: propagateIndexingOp_def Let_def)
qed

lemma identity_operand_ok:
  assumes "graph_ok ir g" and "\<forall>d\<in>set locals. d < provisionalDimensionCount g"
  shows "propagates ir V g (identity_operand ir locals v g)"
  using assms dims_below_Some [OF assms(2)]
  by (auto simp: identity_operand_def propagates_refl intro!: read_value_propagates(1) split: option.split)

lemma identity_result_ok:
  assumes "graph_ok ir g" and "\<forall>d\<in>set locals. d < provisionalDimensionCount g" and "v \<in> V"
  shows "propagates ir V g (identity_result ir locals v g)"
  using assms dims_below_Some [OF assms(2)]
  by (auto simp: identity_result_def propagates_refl intro!: write_value_propagates)

lemma propagateIdentityOp_ok:
  assumes g: "graph_ok ir g" and locals: "\<forall>d\<in>set locals. d < provisionalDimensionCount g"
  shows "propagates ir (set (opResults ir op)) g (propagateIdentityOp ir op locals g)"
proof -
  let ?V = "set (opResults ir op)" and ?g = "fold (identity_operand ir locals) (opOperands ir op) g"
  have 1: "propagates ir ?V g ?g"
    using locals by (intro propagates_fold [where n = "provisionalDimensionCount g"] identity_operand_ok g) auto
  then have g': "graph_ok ir ?g" "provisionalDimensionCount ?g = provisionalDimensionCount g"
    by (auto simp: propagates_def same_dims_def)
  have "propagates ir ?V ?g (fold (identity_result ir locals) (opResults ir op) ?g)"
    using locals g' by (intro propagates_fold [where n = "provisionalDimensionCount g"] identity_result_ok) auto
  from propagates_trans [OF 1 this] show ?thesis by (simp add: propagateIdentityOp_def)
qed

section \<open>The numbering of classes\<close>

definition number_class :: "leaders \<Rightarrow> nat \<Rightarrow> (nat \<Rightarrow> nat option) \<times> nat \<Rightarrow> (nat \<Rightarrow> nat option) \<times> nat" where
  "number_class ls leader = (\<lambda>(ids, nextId).
     (\<lambda>member. if member < length ls \<and> ls ! member = leader then Some nextId else ids member, Suc nextId))"

lemma number_classes:
  "distinct L \<Longrightarrow> snd (fold (number_class ls) L (ids, k)) = k + length L \<and>
   (\<forall>m i. i < length L \<longrightarrow> m < length ls \<longrightarrow> ls ! m = L ! i \<longrightarrow> fst (fold (number_class ls) L (ids, k)) m = Some (k + i)) \<and>
   (\<forall>m. \<not> (m < length ls \<and> ls ! m \<in> set L) \<longrightarrow> fst (fold (number_class ls) L (ids, k)) m = ids m)"
proof (induction L arbitrary: ids k)
  case (Cons l L)
  let ?ids = "\<lambda>member. if member < length ls \<and> ls ! member = l then Some k else ids member"
  have step: "fold (number_class ls) (l # L) (ids, k) = fold (number_class ls) L (?ids, Suc k)"
    by (simp add: number_class_def)
  have IH: "snd (fold (number_class ls) L (?ids, Suc k)) = Suc k + length L"
    "\<And>m i. i < length L \<Longrightarrow> m < length ls \<Longrightarrow> ls ! m = L ! i \<Longrightarrow>
       fst (fold (number_class ls) L (?ids, Suc k)) m = Some (Suc k + i)"
    "\<And>m. \<not> (m < length ls \<and> ls ! m \<in> set L) \<Longrightarrow> fst (fold (number_class ls) L (?ids, Suc k)) m = ?ids m"
    using Cons.IH [of ?ids "Suc k"] Cons.prems by auto
  show ?case
    unfolding step
  proof (intro conjI allI impI)
    show "snd (fold (number_class ls) L (?ids, Suc k)) = k + length (l # L)" using IH(1) by simp
    show "fst (fold (number_class ls) L (?ids, Suc k)) m = Some (k + i)"
      if "i < length (l # L)" "m < length ls" "ls ! m = (l # L) ! i" for m i
      using that IH(2) [of _ m] IH(3) [of m] Cons.prems by (cases i) auto
    show "fst (fold (number_class ls) L (?ids, Suc k)) m = ids m"
      if "\<not> (m < length ls \<and> ls ! m \<in> set (l # L))" for m
      using that IH(3) [of m] by auto
  qed
qed simp

lemma compactIds_fold: "compactIds ls = fold (number_class ls) (class_leaders ls) (\<lambda>_. None, 0)"
  by (simp add: compactIds_def number_class_def [abs_def])

lemma class_leaders_facts:
  "distinct (class_leaders ls)" "leaders_ok ls \<Longrightarrow> d < length ls \<Longrightarrow> ls ! d \<in> set (class_leaders ls)"
  "l \<in> set (class_leaders ls) \<Longrightarrow> l < length ls \<and> ls ! l = l"
  by (auto simp: class_leaders_def leaders_ok_def)

lemma compact_lookup_index:
  assumes "leaders_ok ls" and "d < length ls"
  obtains i where "i < length (class_leaders ls)" "class_leaders ls ! i = ls ! d" "compact_lookup ls d = i"
proof -
  obtain i where i: "i < length (class_leaders ls)" "class_leaders ls ! i = ls ! d"
    using class_leaders_facts(2) [OF assms] by (auto simp: in_set_conv_nth)
  have "fst (compactIds ls) d = Some (0 + i)"
    using number_classes [OF class_leaders_facts(1), where ids = "\<lambda>_. None" and k = 0 and ls = ls] i assms(2) by (simp add: compactIds_fold)
  with i that show ?thesis by (simp add: compact_lookup_def)
qed

lemma compact_count: "snd (compactIds ls) = length (class_leaders ls)"
  using number_classes [OF class_leaders_facts(1), where ids = "\<lambda>_. None" and k = 0 and ls = ls] by (simp add: compactIds_fold)

lemma compact_lookup_less: "leaders_ok ls \<Longrightarrow> d < length ls \<Longrightarrow> compact_lookup ls d < snd (compactIds ls)"
  by (metis compact_lookup_index compact_count)

lemma compact_lookup_eq:
  assumes "leaders_ok ls" and "x < length ls" and "y < length ls"
  shows "compact_lookup ls x = compact_lookup ls y \<longleftrightarrow> united ls x y"
proof -
  obtain i where i: "i < length (class_leaders ls)" "class_leaders ls ! i = ls ! x" "compact_lookup ls x = i"
    using assms by (metis compact_lookup_index)
  obtain j where j: "j < length (class_leaders ls)" "class_leaders ls ! j = ls ! y" "compact_lookup ls y = j"
    using assms by (metis compact_lookup_index)
  have "i = j \<longleftrightarrow> ls ! x = ls ! y"
    using i j class_leaders_facts(1) nth_eq_iff_index_eq by metis
  with i j assms show ?thesis by (simp add: united_def)
qed

lemma compact_lookup_surj:
  assumes "leaders_ok ls" and "k < snd (compactIds ls)"
  shows "\<exists>d<length ls. compact_lookup ls d = k"
proof -
  have k: "k < length (class_leaders ls)" using assms(2) by (simp add: compact_count)
  let ?l = "class_leaders ls ! k"
  have l: "?l < length ls" "ls ! ?l = ?l" using class_leaders_facts(3) nth_mem [OF k] by blast+
  obtain i where "i < length (class_leaders ls)" "class_leaders ls ! i = ls ! ?l" "compact_lookup ls ?l = i"
    using compact_lookup_index [OF assms(1) l(1)] by blast
  moreover from this have "i = k" using k l class_leaders_facts(1) nth_eq_iff_index_eq by metis
  ultimately show ?thesis using l by blast
qed

section \<open>Building\<close>

lemma add_loops:
  "operationDimensions g op = None \<Longrightarrow> length (equivalence g) = provisionalDimensionCount g \<Longrightarrow>
   operationDimensions ((add_loop op ^^ Suc k) g) =
     (operationDimensions g)(op := Some [provisionalDimensionCount g..<provisionalDimensionCount g + Suc k]) \<and>
   provisionalDimensionCount ((add_loop op ^^ Suc k) g) = provisionalDimensionCount g + Suc k \<and>
   valueDimensions ((add_loop op ^^ Suc k) g) = valueDimensions g \<and>
   equivalence ((add_loop op ^^ Suc k) g) = (insert_id ^^ Suc k) (equivalence g)"
proof (induction k)
  case (Suc k)
  define g' where "g' = (add_loop op ^^ Suc k) g"
  define ls where "ls = (insert_id ^^ Suc k) (equivalence g)"
  have step: "(add_loop op ^^ Suc (Suc k)) g = add_loop op g'" "(insert_id ^^ Suc (Suc k)) (equivalence g) = insert_id ls"
    by (simp_all add: g'_def ls_def)
  have "operationDimensions g' = (operationDimensions g)(op := Some [provisionalDimensionCount g..<provisionalDimensionCount g + Suc k]) \<and>
      provisionalDimensionCount g' = provisionalDimensionCount g + Suc k \<and>
      valueDimensions g' = valueDimensions g \<and> equivalence g' = ls"
    using Suc unfolding g'_def ls_def by blast
  then show ?case unfolding step by (simp add: add_loop_def)
qed (simp add: add_loop_def)

lemma insert_ids:
  "leaders_ok ls \<Longrightarrow> leaders_ok ((insert_id ^^ k) ls) \<and> length ((insert_id ^^ k) ls) = length ls + k \<and>
   (\<forall>x y. united ls x y \<longrightarrow> united ((insert_id ^^ k) ls) x y)"
proof (induction k)
  case (Suc k)
  have "length (insert_id l) = Suc (length l)" for l by (simp add: insert_id_def)
  with Suc show ?case by (auto simp: leaders_ok_insert united_insert_mono)
qed simp

text \<open>The graph after an operation got its loops.\<close>

lemma add_loops_ok:
  assumes g: "graph_ok ir g" and op: "operationDimensions g op = None" and k: "k \<noteq> 0"
  defines "n \<equiv> provisionalDimensionCount g"
  shows "graph_ok ir ((add_loop op ^^ k) g)" "grows {} g ((add_loop op ^^ k) g)"
    "operationDimensions ((add_loop op ^^ k) g) = (operationDimensions g)(op := Some [n..<n + k])"
    "provisionalDimensionCount ((add_loop op ^^ k) g) = n + k"
proof -
  obtain j where j: "k = Suc j" using k not0_implies_Suc by blast
  have ok: "leaders_ok (equivalence g)" "length (equivalence g) = n" using g by (simp_all add: graph_ok_def n_def)
  note a = add_loops [OF op ok(2) [unfolded n_def], of j, folded j n_def] and i = insert_ids [OF ok(1), of k]
  show "graph_ok ir ((add_loop op ^^ k) g)"
    using g a i ok(2) by (auto simp: graph_ok_def dims_below_def n_def intro: trans_less_add1)
  show "grows {} g ((add_loop op ^^ k) g)"
    using a i by (fastforce simp: grows_def knows_def)
  show "operationDimensions ((add_loop op ^^ k) g) = (operationDimensions g)(op := Some [n..<n + k])"
    "provisionalDimensionCount ((add_loop op ^^ k) g) = n + k"
    using a by simp_all
qed

lemma build_op_ok:
  assumes g: "graph_ok ir g" and op: "operationDimensions g op = None" and el: "isEligible ir op"
  defines "n \<equiv> provisionalDimensionCount g" and "k \<equiv> length (loopIteratorTypes ir op)"
  shows "graph_ok ir (build_op ir op g)" "grows (set (opResults ir op)) g (build_op ir op g)"
    "operationDimensions (build_op ir op g) = (operationDimensions g)(op := Some [n..<n + k])"
    "provisionalDimensionCount (build_op ir op g) = n + k"
proof -
  have k: "k \<noteq> 0" using el by (simp add: isEligible_def k_def)
  let ?g = "(add_loop op ^^ k) g"
  note a = add_loops_ok [OF g op k, folded n_def]
  have locals: "\<forall>d\<in>set [n..<n + k]. d < provisionalDimensionCount ?g" using a(4) by simp
  have b: "build_op ir op g = (if isIndexingMapOp ir op then propagateIndexingOp ir op [n..<n + k] ?g
      else propagateIdentityOp ir op [n..<n + k] ?g)"
    using a(3) by (simp add: build_op_def k_def Let_def)
  have p: "propagates ir (set (opResults ir op)) ?g (build_op ir op g)"
    unfolding b using propagateIndexingOp_ok [OF a(1) locals] propagateIdentityOp_ok [OF a(1) locals] by simp
  show "graph_ok ir (build_op ir op g)" using p by (simp add: propagates_def)
  have "grows (set (opResults ir op)) g ?g" by (rule grows_mono [OF a(2)]) simp
  then show "grows (set (opResults ir op)) g (build_op ir op g)"
    using p unfolding propagates_def by (blast intro: graph_grows_trans)
  show "operationDimensions (build_op ir op g) = (operationDimensions g)(op := Some [n..<n + k])"
    "provisionalDimensionCount (build_op ir op g) = n + k"
    using p a by (simp_all add: propagates_def same_dims_def)
qed

text \<open>The graph after some operations: each has its loops, and together they have all.\<close>

definition built :: "planner_ir \<Rightarrow> nat list \<Rightarrow> graph_state \<Rightarrow> bool" where
  "built ir ops g \<longleftrightarrow>
     graph_ok ir g \<and> (\<forall>op. operationDimensions g op \<noteq> None \<longleftrightarrow> op \<in> set ops) \<and>
     (\<forall>op ds. operationDimensions g op = Some ds \<longrightarrow> length ds = length (loopIteratorTypes ir op)) \<and>
     {d. \<exists>op ds. operationDimensions g op = Some ds \<and> d \<in> set ds} = {0..<provisionalDimensionCount g}"

lemma built_step:
  assumes b: "built ir ops g" and op: "op \<notin> set ops" "isEligible ir op"
  shows "built ir (ops @ [op]) (build_op ir op g)"
proof -
  have g: "graph_ok ir g" and none: "operationDimensions g op = None" using b op by (auto simp: built_def)
  note r = build_op_ok [OF g none op(2)]
  let ?n = "provisionalDimensionCount g" and ?k = "length (loopIteratorTypes ir op)"
  have "{d. \<exists>op' ds. operationDimensions (build_op ir op g) op' = Some ds \<and> d \<in> set ds} =
      {d. \<exists>op ds. operationDimensions g op = Some ds \<and> d \<in> set ds} \<union> {?n..<?n + ?k}"
  proof (intro equalityI subsetI)
    fix d assume "d \<in> {d. \<exists>op ds. operationDimensions g op = Some ds \<and> d \<in> set ds} \<union> {?n..<?n + ?k}"
    then consider op' ds where "operationDimensions g op' = Some ds" "d \<in> set ds" | "d \<in> {?n..<?n + ?k}" by blast
    then show "d \<in> {d. \<exists>op' ds. operationDimensions (build_op ir op g) op' = Some ds \<and> d \<in> set ds}"
    proof cases
      case (1 op' ds)
      then have "op' \<noteq> op" using none by auto
      with 1 show ?thesis unfolding r(3) by auto
    qed (auto simp: r(3) intro!: exI [of _ op])
  qed (use none in \<open>auto simp: r(3) split: if_splits\<close>)
  also have "\<dots> = {0..<?n + ?k}" using b unfolding built_def by auto
  finally show ?thesis using b r none op unfolding built_def r(3,4) by auto
qed

lemma build_fold:
  "built ir pre g \<Longrightarrow> distinct (pre @ ops) \<Longrightarrow> \<forall>op\<in>set ops. isEligible ir op \<Longrightarrow>
   built ir (pre @ ops) (fold (build_op ir) ops g)"
proof (induction ops arbitrary: pre g)
  case (Cons op ops)
  from Cons.prems have "built ir (pre @ [op]) (build_op ir op g)" by (intro built_step) auto
  from Cons.IH [OF this] Cons.prems show ?case by simp
qed simp

lemma built_build: "distinct ops \<Longrightarrow> \<forall>op\<in>set ops. isEligible ir op \<Longrightarrow> built ir ops (build ir ops)"
proof -
  have "built ir [] empty_graph" by (simp add: built_def empty_graph_def graph_ok_def leaders_ok_def)
  from build_fold [OF this] show "distinct ops \<Longrightarrow> \<forall>op\<in>set ops. isEligible ir op \<Longrightarrow> built ir ops (build ir ops)"
    by (simp add: build_def)
qed

section \<open>The graph of a dispatch\<close>

text \<open>
  What analysis relies on: the operations are distinct operations of the function, a topological
  sort only reorders, and static loop ranges are dynamic or not negative.
\<close>

definition dispatch_ops :: "planner_ir \<Rightarrow> planning_context \<Rightarrow> nat list \<Rightarrow> bool" where
  "dispatch_ops ir ctx ops \<longleftrightarrow> distinct ops \<and> pc_entryPoint ctx \<noteq> 0 \<and>
     (\<forall>op\<in>set ops. op \<noteq> 0 \<and> parentFunction ir op = Some (pc_entryPoint ctx))"

definition analysis_laws :: "planner_ir \<Rightarrow> bool" where
  "analysis_laws ir \<longleftrightarrow>
     (\<forall>ops. distinct ops \<longrightarrow> distinct (topologicalSort ir ops) \<and> set (topologicalSort ir ops) = set ops) \<and>
     (\<forall>op. \<forall>r\<in>set (staticLoopRanges ir op). isDynamic r \<or> 0 \<le> r)"

lemma dimension_graph_facts:
  assumes ops: "distinct ops" and laws: "analysis_laws ir"
  shows "op \<in> set ops \<Longrightarrow> isEligible ir op \<Longrightarrow> length (dimensionsOf (DimensionGraph ir ops) op) = length (loopIteratorTypes ir op)"
    "op \<in> set ops \<Longrightarrow> isEligible ir op \<Longrightarrow>
       \<forall>d\<in>set (dimensionsOf (DimensionGraph ir ops) op). d < compactDimensionCount (DimensionGraph ir ops)"
    "k < compactDimensionCount (DimensionGraph ir ops) \<Longrightarrow>
       \<exists>op\<in>set ops. isEligible ir op \<and> k \<in> set (dimensionsOf (DimensionGraph ir ops) op)"
proof -
  let ?ops = "topologicalSort ir (filter (isEligible ir) ops)" and ?G = "DimensionGraph ir ops"
  let ?g = "build ir ?ops"
  have set: "distinct ?ops" "set ?ops = {op \<in> set ops. isEligible ir op}"
    using laws ops by (auto simp: analysis_laws_def)
  then have b: "built ir ?ops ?g" by (intro built_build) auto
  then have ok: "leaders_ok (equivalence ?g)" "length (equivalence ?g) = provisionalDimensionCount ?g"
    by (auto simp: built_def graph_ok_def)
  have G: "dimensionsOf ?G op = (case operationDimensions ?g op of None \<Rightarrow> []
      | Some ds \<Rightarrow> map (compact_lookup (equivalence ?g)) ds)" "compactDimensionCount ?G = snd (compactIds (equivalence ?g))" for op
    by (simp_all add: DimensionGraph_def Let_def)
  have below: "d < length (equivalence ?g)" if "operationDimensions ?g op = Some ds" "d \<in> set ds" for op ds d
  proof -
    have "d \<in> {d. \<exists>op ds. operationDimensions ?g op = Some ds \<and> d \<in> set ds}" using that by blast
    then show ?thesis using b ok(2) unfolding built_def by simp
  qed
  have some: "\<exists>ds. operationDimensions ?g op = Some ds" if "op \<in> set ops" "isEligible ir op" for op
    using b that set(2) unfolding built_def by auto
  show "length (dimensionsOf ?G op) = length (loopIteratorTypes ir op)" if "op \<in> set ops" "isEligible ir op"
  proof -
    note ex = some [OF that]
    then obtain ds where "operationDimensions ?g op = Some ds" by blast
    moreover from this b have "length ds = length (loopIteratorTypes ir op)" unfolding built_def by blast
    ultimately show ?thesis by (simp add: G)
  qed
  show "\<forall>d\<in>set (dimensionsOf ?G op). d < compactDimensionCount ?G" if "op \<in> set ops" "isEligible ir op"
    using some [OF that] below compact_lookup_less [OF ok(1)] by (auto simp: G)
  show "\<exists>op\<in>set ops. isEligible ir op \<and> k \<in> set (dimensionsOf ?G op)" if k: "k < compactDimensionCount ?G"
  proof -
    obtain d where d: "d < length (equivalence ?g)" "compact_lookup (equivalence ?g) d = k"
      using compact_lookup_surj [OF ok(1)] k by (auto simp: G)
    have "d \<in> {d. \<exists>op ds. operationDimensions ?g op = Some ds \<and> d \<in> set ds}"
      using b d(1) ok(2) unfolding built_def by simp
    then obtain op ds where o: "operationDimensions ?g op = Some ds" "d \<in> set ds" by blast
    then have "op \<in> set ?ops" using b unfolding built_def by blast
    then have "op \<in> set ops" "isEligible ir op" using set(2) by blast+
    moreover have "k \<in> set (dimensionsOf ?G op)" using o d(2) by (auto simp: G(1))
    ultimately show ?thesis by blast
  qed
qed

section \<open>The analyzed shape\<close>

definition analyzed_dims :: "planner_ir \<Rightarrow> dimension_graph \<Rightarrow> nat \<Rightarrow> local_dim list" where
  "analyzed_dims ir graph op =
     map (\<lambda>position. \<lparr>ld_position = position, ld_global = dimensionsOf graph op ! position,
        staticExtent = getStaticLoopRanges ir op (length (loopIteratorTypes ir op)) ! position,
        iteratorType = loopIteratorTypes ir op ! position\<rparr>)
       [0..<length (dimensionsOf graph op)]"

definition mark_dims :: "local_dim list \<Rightarrow> global_dim list \<Rightarrow> global_dim list" where
  "mark_dims dims globals = fold (\<lambda>d gs. gs[ld_global d := (gs ! ld_global d)\<lparr>presentInRoot := True\<rparr>]) dims globals"

text \<open>The operations whose loops disagree with their maps or ranges.\<close>

definition ranks_agree :: "planner_ir \<Rightarrow> nat \<Rightarrow> bool" where
  "ranks_agree ir op \<longleftrightarrow>
     (let n = length (loopIteratorTypes ir op)
      in length (getStaticLoopRanges ir op n) = n \<and>
         (isIndexingMapOp ir op \<longrightarrow> (\<forall>i<length (opOperands ir op). isShapedType (typeOf ir (opOperands ir op ! i)) \<longrightarrow>
            getNumDims (operandMaps ir op ! i) = n)))"

lemma analyze_op_Inr:
  assumes "length (dimensionsOf graph op) = length (loopIteratorTypes ir op)" and "isEligible ir op"
  shows "analyze_op ir graph root op (globals, operations) = Inr s' \<longleftrightarrow> ranks_agree ir op \<and>
    s' = (if op = root then mark_dims (analyzed_dims ir graph op) globals else globals,
          operations @ [\<lparr>os_op = op, os_ordinal = length operations, os_dims = analyzed_dims ir graph op\<rparr>])"
  using assms
  by (auto simp: analyze_op_def ranks_agree_def analyzed_dims_def mark_dims_def res_simps Let_def list_ex_iff)

lemma analyze_op_skip: "\<not> isEligible ir op \<Longrightarrow> analyze_op ir graph root op s = Inr s"
  by (cases s) (simp add: analyze_op_def)

lemma length_mark_dims [simp]: "length (mark_dims dims globals) = length globals"
  by (induction dims arbitrary: globals) (simp_all add: mark_dims_def)

lemma mark_dims_nth:
  "i < length globals \<Longrightarrow> \<forall>d\<in>set dims. ld_global d < length globals \<Longrightarrow>
   gd_id (mark_dims dims globals ! i) = gd_id (globals ! i) \<and>
   (presentInRoot (mark_dims dims globals ! i) \<longleftrightarrow> presentInRoot (globals ! i) \<or> i \<in> ld_global ` set dims)"
proof (induction dims arbitrary: globals)
  case (Cons d dims)
  have step: "mark_dims (d # dims) globals = mark_dims dims (globals[ld_global d := (globals ! ld_global d)\<lparr>presentInRoot := True\<rparr>])"
    by (simp add: mark_dims_def)
  show ?case
    using Cons.IH [of "globals[ld_global d := (globals ! ld_global d)\<lparr>presentInRoot := True\<rparr>]"] Cons.prems
    unfolding step by (cases "ld_global d = i") auto
qed (simp add: mark_dims_def)

lemma map_ld_global: "map ld_global (analyzed_dims ir graph op) = dimensionsOf graph op"
  by (simp add: analyzed_dims_def o_def map_nth)

text \<open>The state of the analysis after the operations \<open>done\<close>.\<close>

definition analyzing ::
  "planner_ir \<Rightarrow> planning_context \<Rightarrow> dimension_graph \<Rightarrow> nat \<Rightarrow> nat list \<Rightarrow> global_dim list \<times> op_shape list \<Rightarrow> bool" where
  "analyzing ir ctx graph root seen s \<longleftrightarrow>
     (case s of (globals, operations) \<Rightarrow>
        map os_op operations = filter (isEligible ir) seen \<and>
        map os_ordinal operations = [0..<length operations] \<and>
        (\<forall>s\<in>set operations. os_dims s = analyzed_dims ir graph (os_op s) \<and> ranks_agree ir (os_op s)) \<and>
        map gd_id globals = [0..<compactDimensionCount graph] \<and>
        (\<forall>i<length globals. presentInRoot (globals ! i) \<longleftrightarrow>
           root \<in> set seen \<and> isEligible ir root \<and> i \<in> set (dimensionsOf graph root)))"

lemma analyzing_step:
  assumes a: "analyzing ir ctx graph root seen (globals, operations)"
    and g: "isEligible ir op \<Longrightarrow> length (dimensionsOf graph op) = length (loopIteratorTypes ir op)"
      "isEligible ir op \<Longrightarrow> \<forall>d\<in>set (dimensionsOf graph op). d < compactDimensionCount graph"
    and run: "analyze_op ir graph root op (globals, operations) = Inr s'"
  shows "analyzing ir ctx graph root (seen @ [op]) s'"
proof (cases "isEligible ir op")
  case False
  then show ?thesis using a run by (auto simp: analyze_op_skip analyzing_def)
next
  case True
  have len: "length globals = compactDimensionCount graph"
    using a by (auto simp: analyzing_def dest!: arg_cong [where f = length])
  have s': "ranks_agree ir op" "s' = (if op = root then mark_dims (analyzed_dims ir graph op) globals else globals,
      operations @ [\<lparr>os_op = op, os_ordinal = length operations, os_dims = analyzed_dims ir graph op\<rparr>])"
    using run by (simp_all add: analyze_op_Inr [OF g(1) [OF True] True])
  have dims: "\<forall>d\<in>set (analyzed_dims ir graph op). ld_global d < length globals"
    "ld_global ` set (analyzed_dims ir graph op) = set (dimensionsOf graph op)"
    using g(2) [OF True] len by (auto simp: map_ld_global [symmetric, of graph op ir])
  have "map gd_id (mark_dims (analyzed_dims ir graph op) globals) = map gd_id globals"
    using mark_dims_nth [OF _ dims(1)] by (intro nth_equalityI) simp_all
  with a True s' mark_dims_nth [OF _ dims(1)] dims(2) show ?thesis
    by (auto simp: analyzing_def)
qed

lemma analyze_fold:
  assumes g: "\<And>op. op \<in> set ops \<Longrightarrow> isEligible ir op \<Longrightarrow>
      length (dimensionsOf graph op) = length (loopIteratorTypes ir op) \<and>
      (\<forall>d\<in>set (dimensionsOf graph op). d < compactDimensionCount graph)"
  shows "analyzing ir ctx graph root seen s \<Longrightarrow> fold_res (analyze_op ir graph root) ops s = Inr s' \<Longrightarrow>
    analyzing ir ctx graph root (seen @ ops) s'"
  using g
proof (induction ops arbitrary: seen s)
  case (Cons op ops)
  obtain globals operations where s: "s = (globals, operations)" by (cases s)
  from Cons.prems(2) obtain s1 where s1: "analyze_op ir graph root op s = Inr s1"
    "fold_res (analyze_op ir graph root) ops s1 = Inr s'" by (auto simp: res_simps)
  have "analyzing ir ctx graph root (seen @ [op]) s1"
    by (rule analyzing_step [OF Cons.prems(1) [unfolded s] _ _ s1(1) [unfolded s]]) (use Cons.prems(3) in auto)
  then have "analyzing ir ctx graph root ((seen @ [op]) @ ops) s'"
    by (rule Cons.IH [OF _ s1(2)]) (use Cons.prems(3) in auto)
  then show ?case by simp
qed simp

text \<open>A successful analysis gives a consistent shape with the eligible operations in order.\<close>

lemma analyzeDispatch_Inr:
  assumes ops: "dispatch_ops ir ctx ops" and laws: "analysis_laws ir"
    and run: "analyzeDispatch ir ctx ops = Inr shape"
  shows "shape_consistent ir ctx shape" "shape_ok ir shape"
    "map os_op (ds_operations shape) = filter (isEligible ir) ops"
    "\<forall>s\<in>set (ds_operations shape). os_dims s \<noteq> [] \<and> map ld_global (os_dims s) = dimensionsOf (DimensionGraph ir ops) (os_op s)"
    "\<exists>root. getRootOperation ir ops = Some root \<and>
       ds_root shape = (if root \<in> set ops \<and> isEligible ir root then root else 0)"
proof -
  let ?G = "DimensionGraph ir ops" and ?entry = "pc_entryPoint ctx"
  let ?globals = "map (\<lambda>i. \<lparr>gd_id = i, presentInRoot = False\<rparr>) [0..<compactDimensionCount ?G]"
  have dist: "distinct ops" using ops by (simp add: dispatch_ops_def)
  note G = dimension_graph_facts [OF dist laws]
  from run obtain root globals operations where root: "getRootOperation ir ops = Some root" and
    f: "fold_res (analyze_op ir ?G root) ops (?globals, []) = Inr (globals, operations)" and
    sh: "shape = (let shape = \<lparr>ds_entryPoint = ?entry, ds_root = root, globalDimensions = globals, ds_operations = operations\<rparr>
        in if findOpShape shape root = None then shape\<lparr>ds_root := 0\<rparr> else shape)"
    by (auto simp: analyzeDispatch_def Let_def bind_res_Inr split: option.splits)
  have "analyzing ir ctx ?G root [] (?globals, [])"
    by (simp add: analyzing_def o_def)
  then have a: "analyzing ir ctx ?G root ops (globals, operations)"
    using analyze_fold [OF _ _ f, of ctx "[]"] G(1,2) by simp
  have len: "length globals = compactDimensionCount ?G"
    using a by (auto simp: analyzing_def dest!: arg_cong [where f = length])
  have op_in: "os_op s \<in> set ops \<and> isEligible ir (os_op s)" if "s \<in> set operations" for s
  proof -
    have "os_op s \<in> set (map os_op operations)" using that by simp
    also have "map os_op operations = filter (isEligible ir) ops" using a by (simp add: analyzing_def)
    finally show ?thesis by simp
  qed
  have dims: "os_dims s = analyzed_dims ir ?G (os_op s)" "ranks_agree ir (os_op s)" if "s \<in> set operations" for s
    using a that by (auto simp: analyzing_def)
  have oc: "op_consistent ir ?entry (length globals) s \<and> op_shape_ok ir (length globals) s" if s: "s \<in> set operations" for s
  proof -
    note o = op_in [OF s]
    have l: "length (dimensionsOf ?G (os_op s)) = length (loopIteratorTypes ir (os_op s))" using G(1) o by blast
    have ranges: "isDynamic r \<or> 0 \<le> r" if "r \<in> set (getStaticLoopRanges ir (os_op s) n)" for r n
      using that laws by (auto simp: getStaticLoopRanges_def analysis_laws_def isDynamic_def split: if_splits)
    have lr: "length (getStaticLoopRanges ir (os_op s) (length (loopIteratorTypes ir (os_op s)))) = length (loopIteratorTypes ir (os_op s))"
      using dims(2) [OF s] by (simp add: ranks_agree_def Let_def)
    have pos: "map ld_position (os_dims s) = [0..<length (os_dims s)]"
      "map iteratorType (os_dims s) = loopIteratorTypes ir (os_op s)"
      unfolding dims(1) [OF s] analyzed_dims_def using l by (simp_all add: o_def map_nth)
    have each: "ld_global d < length globals \<and> (isDynamic (staticExtent d) \<or> 0 \<le> staticExtent d)" if "d \<in> set (os_dims s)" for d
    proof -
      obtain i where i: "i < length (dimensionsOf ?G (os_op s))" "ld_global d = dimensionsOf ?G (os_op s) ! i"
        "staticExtent d = getStaticLoopRanges ir (os_op s) (length (loopIteratorTypes ir (os_op s))) ! i"
        using \<open>d \<in> set (os_dims s)\<close> unfolding dims(1) [OF s] by (auto simp: analyzed_dims_def)
      have "staticExtent d \<in> set (getStaticLoopRanges ir (os_op s) (length (loopIteratorTypes ir (os_op s))))"
        using i l lr by simp
      from ranges [OF this] show ?thesis using G(2) [of "os_op s"] o i len by auto
    qed
    then have "kDynamic \<le> staticExtent d" if "d \<in> set (os_dims s)" for d
      using that by (fastforce simp: isDynamic_def kDynamic_def)
    with pos each o ops show ?thesis
      by (auto simp: op_consistent_def op_shape_ok_def dispatch_ops_def isEligible_def)
  qed
  have ops': "map os_op (ds_operations shape) = filter (isEligible ir) ops" "ds_operations shape = operations"
    "globalDimensions shape = globals" "ds_entryPoint shape = ?entry"
    using a by (simp_all add: sh analyzing_def Let_def)
  have found: "findOpShape shape root = None \<longleftrightarrow> \<not> (root \<in> set ops \<and> isEligible ir root)"
  proof -
    have "os_op ` set operations = set (map os_op operations)" by simp
    also have "\<dots> = {op \<in> set ops. isEligible ir op}" using ops'(1,2) by simp
    finally show ?thesis by (auto simp: findOpShape_None ops'(2))
  qed
  have "findOpShape \<lparr>ds_entryPoint = ?entry, ds_root = root, globalDimensions = globals, ds_operations = operations\<rparr> root =
      findOpShape shape root" by (simp add: findOpShape_def ops'(2))
  then have rt: "ds_root shape = (if root \<in> set ops \<and> isEligible ir root then root else 0)"
    using found by (auto simp: sh Let_def)
  show "map os_op (ds_operations shape) = filter (isEligible ir) ops"
    "\<exists>root. getRootOperation ir ops = Some root \<and> ds_root shape = (if root \<in> set ops \<and> isEligible ir root then root else 0)"
    using ops' root rt by blast+
  show "\<forall>s\<in>set (ds_operations shape). os_dims s \<noteq> [] \<and> map ld_global (os_dims s) = dimensionsOf ?G (os_op s)"
  proof
    fix s assume "s \<in> set (ds_operations shape)"
    then have s: "s \<in> set operations" by (simp add: ops'(2))
    have "dimensionsOf ?G (os_op s) \<noteq> []" using G(1) op_in [OF s] by (fastforce simp: isEligible_def)
    then show "os_dims s \<noteq> [] \<and> map ld_global (os_dims s) = dimensionsOf ?G (os_op s)"
      using map_ld_global [of ir ?G "os_op s"] by (auto simp: dims(1) [OF s] analyzed_dims_def)
  qed
  have ordinals: "map os_ordinal operations = [0..<length operations]" "map gd_id globals = [0..<length globals]"
    "distinct (map os_op operations)"
    using a dist len ops'(1,2) by (simp_all add: analyzing_def)
  show "shape_ok ir shape" using ordinals oc by (simp add: shape_ok_def ops')
  have refs: "referenced_globals operations = {0..<length globals}"
  proof (intro equalityI subsetI)
    show "k \<in> {0..<length globals}" if "k \<in> referenced_globals operations" for k
      using that oc by (auto simp: referenced_globals_def op_consistent_def)
    show "k \<in> referenced_globals operations" if k: "k \<in> {0..<length globals}" for k
    proof -
      obtain op where op: "op \<in> set ops" "isEligible ir op" "k \<in> set (dimensionsOf ?G op)" using G(3) k len by auto
      then have "op \<in> set (map os_op operations)" using ops'(1,2) by simp
      then obtain s where s: "s \<in> set operations" "os_op s = op" by auto
      then have "k \<in> set (map ld_global (os_dims s))" using dims(1) op(3) map_ld_global by metis
      with s show ?thesis by (auto simp: referenced_globals_def)
    qed
  qed
  have present: "presentInRoot (globals ! i) \<longleftrightarrow> (ds_root shape \<noteq> 0 \<and>
      (\<exists>s. findOpShape shape (ds_root shape) = Some s \<and> i \<in> ld_global ` set (os_dims s)))" if i: "i < length globals" for i
  proof (cases "root \<in> set ops \<and> isEligible ir root")
    case True
    then obtain s where s: "findOpShape shape root = Some s" using found by blast
    then have "s \<in> set operations" "os_op s = root" using findOpShape_Some ops'(2) by metis+
    then have "set (dimensionsOf ?G root) = set (map ld_global (os_dims s))" using dims(1) map_ld_global by metis
    moreover have "root \<noteq> 0" using True ops by (auto simp: dispatch_ops_def)
    ultimately show ?thesis using a i True rt s by (simp add: analyzing_def)
  next
    case False
    then show ?thesis using a i rt by (auto simp: analyzing_def)
  qed
  have "ds_root shape \<noteq> 0 \<longrightarrow> ds_root shape \<in> os_op ` set operations"
    using found rt by (auto simp: findOpShape_None ops'(2))
  then show "shape_consistent ir ctx shape"
    using ordinals oc refs present ops by (simp add: shape_consistent_def ops' dispatch_ops_def Let_def)
qed

text \<open>When the analysis fails.\<close>

lemma analyze_op_cases:
  assumes "isEligible ir op \<Longrightarrow> length (dimensionsOf graph op) = length (loopIteratorTypes ir op)"
  shows "(\<exists>s'. analyze_op ir graph root op s = Inr s') \<longleftrightarrow> (isEligible ir op \<longrightarrow> ranks_agree ir op)"
    "analyze_op ir graph root op s = Inl e \<Longrightarrow> e = InconsistentLoopRank op \<or> e = MapRankMismatch op"
proof -
  obtain globals operations where s: "s = (globals, operations)" by (cases s)
  show "(\<exists>s'. analyze_op ir graph root op s = Inr s') \<longleftrightarrow> (isEligible ir op \<longrightarrow> ranks_agree ir op)"
    using analyze_op_Inr [of graph op ir root globals operations] assms analyze_op_skip [of ir op graph root s]
    unfolding s by (cases "isEligible ir op") auto
  show "analyze_op ir graph root op s = Inl e \<Longrightarrow> e = InconsistentLoopRank op \<or> e = MapRankMismatch op"
    by (auto simp: s analyze_op_def Let_def fail_if_def split: if_splits)
qed

lemma analyze_fold_total:
  "(\<And>op. op \<in> set ops \<Longrightarrow> isEligible ir op \<Longrightarrow> length (dimensionsOf graph op) = length (loopIteratorTypes ir op)) \<Longrightarrow>
   ((\<exists>s'. fold_res (analyze_op ir graph root) ops s = Inr s') \<longleftrightarrow> (\<forall>op\<in>set ops. isEligible ir op \<longrightarrow> ranks_agree ir op)) \<and>
   (\<forall>e. fold_res (analyze_op ir graph root) ops s = Inl e \<longrightarrow> (\<exists>op\<in>set ops. e = InconsistentLoopRank op \<or> e = MapRankMismatch op))"
proof (induction ops arbitrary: s)
  case (Cons op ops)
  have op: "isEligible ir op \<Longrightarrow> length (dimensionsOf graph op) = length (loopIteratorTypes ir op)"
    using Cons.prems by simp
  have c: "(\<exists>s'. analyze_op ir graph root op s = Inr s') \<longleftrightarrow> (isEligible ir op \<longrightarrow> ranks_agree ir op)"
    "\<And>e. analyze_op ir graph root op s = Inl e \<Longrightarrow> e = InconsistentLoopRank op \<or> e = MapRankMismatch op"
    using analyze_op_cases [OF op, where s = s and root = root] by blast+
  show ?case
  proof (cases "analyze_op ir graph root op s")
    case (Inl e)
    then show ?thesis using c by auto
  next
    case (Inr s1)
    then show ?thesis using c(1) Cons.IH [of s1] Cons.prems by auto
  qed
qed simp

lemma analyzeDispatch_total:
  assumes "distinct ops" and "analysis_laws ir"
  shows "(\<exists>shape. analyzeDispatch ir ctx ops = Inr shape) \<longleftrightarrow>
      getRootOperation ir ops \<noteq> None \<and> (\<forall>op\<in>set ops. isEligible ir op \<longrightarrow> ranks_agree ir op)"
    "analyzeDispatch ir ctx ops = Inl e \<Longrightarrow>
      e = NoRootOperation \<or> (\<exists>op\<in>set ops. e = InconsistentLoopRank op \<or> e = MapRankMismatch op)"
proof -
  let ?G = "DimensionGraph ir ops"
  have f: "(\<exists>s'. fold_res (analyze_op ir ?G root) ops s = Inr s') \<longleftrightarrow> (\<forall>op\<in>set ops. isEligible ir op \<longrightarrow> ranks_agree ir op)"
    "fold_res (analyze_op ir ?G root) ops s = Inl e \<Longrightarrow> \<exists>op\<in>set ops. e = InconsistentLoopRank op \<or> e = MapRankMismatch op" for root s e
    using analyze_fold_total [of ops ir ?G root s, OF dimension_graph_facts(1) [OF assms]] by blast+
  show "(\<exists>shape. analyzeDispatch ir ctx ops = Inr shape) \<longleftrightarrow>
      getRootOperation ir ops \<noteq> None \<and> (\<forall>op\<in>set ops. isEligible ir op \<longrightarrow> ranks_agree ir op)"
  proof (cases "getRootOperation ir ops")
    case (Some root)
    have "(\<exists>shape. analyzeDispatch ir ctx ops = Inr shape) \<longleftrightarrow>
      (\<exists>s'. fold_res (analyze_op ir ?G root) ops (map (\<lambda>i. \<lparr>gd_id = i, presentInRoot = False\<rparr>) [0..<compactDimensionCount ?G], []) = Inr s')"
      using Some by (auto simp: analyzeDispatch_def Let_def bind_res_Inr)
    with f(1) Some show ?thesis by simp
  qed (simp add: analyzeDispatch_def)
  assume e: "analyzeDispatch ir ctx ops = Inl e"
  show "e = NoRootOperation \<or> (\<exists>op\<in>set ops. e = InconsistentLoopRank op \<or> e = MapRankMismatch op)"
  proof (cases "getRootOperation ir ops")
    case (Some root)
    with e show ?thesis
      using f(2) [of root "(map (\<lambda>i. \<lparr>gd_id = i, presentInRoot = False\<rparr>) [0..<compactDimensionCount ?G], [])" e]
      by (cases "fold_res (analyze_op ir ?G root) ops (map (\<lambda>i. \<lparr>gd_id = i, presentInRoot = False\<rparr>) [0..<compactDimensionCount ?G], [])")
        (auto simp: analyzeDispatch_def Let_def)
  qed (use e in \<open>simp add: analyzeDispatch_def\<close>)
qed

section \<open>Shared dimensions\<close>

text \<open>An operation with indexing maps reads dimension \<open>vd\<close> of value \<open>v\<close> with its loop \<open>p\<close>.\<close>

definition reads_dim :: "planner_ir \<Rightarrow> nat \<Rightarrow> nat \<Rightarrow> nat \<Rightarrow> nat \<Rightarrow> bool" where
  "reads_dim ir op v vd p \<longleftrightarrow>
     isIndexingMapOp ir op \<and> isShapedType (typeOf ir v) \<and> vd < getRank (typeOf ir v) \<and>
     (case getDefiningOp ir v of None \<Rightarrow> True | Some d \<Rightarrow> \<not> isTensorEmptyOp ir d) \<and>
     (\<exists>i<length (opOperands ir op). opOperands ir op ! i = v \<and>
        vd < length (getResults (operandMaps ir op ! i)) \<and>
        getResults (operandMaps ir op ! i) ! vd = AffineDimExpr p)"

text \<open>A destination-style operation writes dimension \<open>vd\<close> of its result \<open>v\<close> with its loop \<open>p\<close>.\<close>

definition writes_dim :: "planner_ir \<Rightarrow> nat \<Rightarrow> nat \<Rightarrow> nat \<Rightarrow> nat \<Rightarrow> bool" where
  "writes_dim ir op v vd p \<longleftrightarrow>
     isIndexingMapOp ir op \<and> isDestinationStyleOp ir op \<and> isShapedType (typeOf ir v) \<and>
     vd < getRank (typeOf ir v) \<and> distinct (opResults ir op) \<and>
     (\<exists>r<length (opResults ir op). opResults ir op ! r = v \<and>
        vd < length (getResults (operandMaps ir op ! tiedOperand ir op r)) \<and>
        getResults (operandMaps ir op ! tiedOperand ir op r) ! vd = AffineDimExpr p)"

lemma fold_split_knows:
  assumes i: "i < n" and g: "graph_ok ir g" and c: "provisionalDimensionCount g = m"
    and each: "\<And>j g. j < n \<Longrightarrow> graph_ok ir g \<Longrightarrow> provisionalDimensionCount g = m \<Longrightarrow> propagates ir UNIV g (f j g)"
    and later: "\<And>j g. i < j \<Longrightarrow> j < n \<Longrightarrow> graph_ok ir g \<Longrightarrow> provisionalDimensionCount g = m \<Longrightarrow> propagates ir (- {v}) g (f j g)"
    and there: "\<And>g. graph_ok ir g \<Longrightarrow> provisionalDimensionCount g = m \<Longrightarrow> knows (f i g) v vd x"
  shows "knows (fold f [0..<n] g) v vd x"
proof -
  have split: "[0..<n] = [0..<i] @ i # [Suc i..<n]" using i upt_add_eq_append [of 0 i "n - i"] upt_conv_Cons by auto
  let ?g1 = "fold f [0..<i] g"
  have "propagates ir UNIV g ?g1" using i each g c by (intro propagates_fold [where n = m]) auto
  then have g1: "graph_ok ir ?g1" "provisionalDimensionCount ?g1 = m" using c by (auto simp: propagates_def same_dims_def)
  have "propagates ir UNIV ?g1 (f i ?g1)" using each [OF i g1] .
  then have g2: "graph_ok ir (f i ?g1)" "provisionalDimensionCount (f i ?g1) = m"
    using g1 by (auto simp: propagates_def same_dims_def)
  have "propagates ir (- {v}) (f i ?g1) (fold f [Suc i..<n] (f i ?g1))"
    using later g2 by (intro propagates_fold [where n = m]) auto
  then show ?thesis using there [OF g1] by (simp add: split propagates_def grows_def)
qed

lemma knows_mono: "propagates ir V g g' \<Longrightarrow> v \<notin> V \<Longrightarrow> knows g v vd x \<Longrightarrow> knows g' v vd x"
  by (simp add: propagates_def grows_def)

lemma knows_united: "knows g v vd x \<Longrightarrow> knows g v vd y \<Longrightarrow> united (equivalence g) x y"
  by (auto simp: knows_def united_def)

lemma reads_known:
  assumes g: "graph_ok ir g" and locals: "\<forall>d\<in>set locals. d < provisionalDimensionCount g"
    and reads: "reads_dim ir op v vd p" and p: "p < length locals" and v: "v \<notin> set (opResults ir op)"
  shows "knows (propagateIndexingOp ir op locals g) v vd (locals ! p)"
proof -
  let ?n = "provisionalDimensionCount g" and ?g = "fold (propagate_operand ir op locals) [0..<length (opOperands ir op)] g"
  obtain i where i: "i < length (opOperands ir op)" "opOperands ir op ! i = v"
    "vd < length (getResults (operandMaps ir op ! i))" "getResults (operandMaps ir op ! i) ! vd = AffineDimExpr p"
    using reads by (auto simp: reads_dim_def)
  have op_ok: "propagates ir V g (propagate_operand ir op locals j g)"
    if "graph_ok ir g" "provisionalDimensionCount g = ?n" for V j g
    using that locals by (intro propagate_operand_ok) auto
  have there: "knows (propagate_operand ir op locals i g) v vd (locals ! p)"
    if "graph_ok ir g" "provisionalDimensionCount g = ?n" for g
  proof -
    have "\<forall>d\<in>set locals. d < provisionalDimensionCount g" using locals that by simp
    note m = map_dimensions_facts [OF this, where rank = "getRank (typeOf ir v)" and m = "operandMaps ir op ! i"]
    have "propagate_operand ir op locals i g =
        read_value v (map_dimensions locals (getRank (typeOf ir v)) (operandMaps ir op ! i)) g"
      using reads i(2) by (auto simp: propagate_operand_def reads_dim_def Let_def split: option.splits)
    then show ?thesis
      using read_value_propagates(2) [OF that(1) m(2,1)] m(1,3) i p reads by (auto simp: reads_dim_def)
  qed
  have k: "knows ?g v vd (locals ! p)"
    by (rule fold_split_knows [OF i(1) g refl]) (use op_ok there in auto)
  have 1: "propagates ir {} g ?g" using op_ok by (intro propagates_fold [where n = ?n] g) auto
  have "propagates ir (set (opResults ir op)) ?g (fold (propagate_result ir op locals) [0..<length (opResults ir op)] ?g)"
    using locals 1 by (intro propagates_fold [where n = ?n] propagate_result_ok) (auto simp: propagates_def same_dims_def)
  from knows_mono [OF this v k] k show ?thesis by (simp add: propagateIndexingOp_def Let_def)
qed

lemma writes_known:
  assumes g: "graph_ok ir g" and locals: "\<forall>d\<in>set locals. d < provisionalDimensionCount g"
    and writes: "writes_dim ir op v vd p" and p: "p < length locals"
  shows "knows (propagateIndexingOp ir op locals g) v vd (locals ! p)"
proof -
  let ?n = "provisionalDimensionCount g" and ?g = "fold (propagate_operand ir op locals) [0..<length (opOperands ir op)] g"
  obtain r where r: "r < length (opResults ir op)" "opResults ir op ! r = v"
    "vd < length (getResults (operandMaps ir op ! tiedOperand ir op r))"
    "getResults (operandMaps ir op ! tiedOperand ir op r) ! vd = AffineDimExpr p"
    and dist: "distinct (opResults ir op)"
    using writes by (auto simp: writes_dim_def)
  have 1: "propagates ir {} g ?g"
    using locals by (intro propagates_fold [where n = ?n] propagate_operand_ok g) auto
  then have g': "graph_ok ir ?g" "provisionalDimensionCount ?g = ?n" by (auto simp: propagates_def same_dims_def)
  have there: "knows (propagate_result ir op locals r g) v vd (locals ! p)"
    if "graph_ok ir g" "provisionalDimensionCount g = ?n" for g
  proof -
    have "\<forall>d\<in>set locals. d < provisionalDimensionCount g" using locals that by simp
    note m = map_dimensions_facts [OF this, where rank = "getRank (typeOf ir v)" and m = "operandMaps ir op ! tiedOperand ir op r"]
    show ?thesis
      using write_value_knows [OF that(1) m(2), of vd "locals ! p" v] m(1,3) r p writes
      by (auto simp: propagate_result_def writes_dim_def Let_def)
  qed
  have "knows (fold (propagate_result ir op locals) [0..<length (opResults ir op)] ?g) v vd (locals ! p)"
  proof (rule fold_split_knows [OF r(1) g'])
    show "propagates ir UNIV g (propagate_result ir op locals j g)"
      if "j < length (opResults ir op)" "graph_ok ir g" "provisionalDimensionCount g = ?n" for j g
      using that locals by (intro propagate_result_ok) auto
    show "propagates ir (- {v}) g (propagate_result ir op locals j g)"
      if "r < j" "j < length (opResults ir op)" "graph_ok ir g" "provisionalDimensionCount g = ?n" for j g
      using that locals r dist by (intro propagate_result_ok) (auto simp: nth_eq_iff_index_eq)
  qed (use there in auto)
  then show ?thesis using writes by (simp add: propagateIndexingOp_def writes_dim_def Let_def)
qed

lemma build_op_knows:
  assumes g: "graph_ok ir g" and op: "operationDimensions g op = None" "isEligible ir op"
    and uses: "reads_dim ir op v vd p \<and> v \<notin> set (opResults ir op) \<or> writes_dim ir op v vd p"
    and p: "p < length (loopIteratorTypes ir op)"
  shows "knows (build_op ir op g) v vd (provisionalDimensionCount g + p)"
proof -
  let ?n = "provisionalDimensionCount g" and ?k = "length (loopIteratorTypes ir op)"
  have k: "?k \<noteq> 0" using op(2) by (simp add: isEligible_def)
  note a = add_loops_ok [OF g op(1) k]
  have locals: "\<forall>d\<in>set [?n..<?n + ?k]. d < provisionalDimensionCount ((add_loop op ^^ ?k) g)" using a(4) by simp
  have "isIndexingMapOp ir op" using uses by (auto simp: reads_dim_def writes_dim_def)
  then have b: "build_op ir op g = propagateIndexingOp ir op [?n..<?n + ?k] ((add_loop op ^^ ?k) g)"
    using a(3) by (simp add: build_op_def Let_def)
  have "p < length [?n..<?n + ?k]" "[?n..<?n + ?k] ! p = ?n + p" using p by simp_all
  then show ?thesis
    using uses reads_known [OF a(1) locals] writes_known [OF a(1) locals] unfolding b by metis
qed

lemma build_fold_grows:
  "built ir pre g \<Longrightarrow> distinct (pre @ ops) \<Longrightarrow> \<forall>op\<in>set ops. isEligible ir op \<Longrightarrow>
   grows (\<Union>op\<in>set ops. set (opResults ir op)) g (fold (build_op ir) ops g) \<and>
   (\<forall>op\<in>set pre. operationDimensions (fold (build_op ir) ops g) op = operationDimensions g op)"
proof (induction ops arbitrary: pre g)
  case (Cons op ops)
  have b: "built ir (pre @ [op]) (build_op ir op g)" using Cons.prems by (intro built_step) auto
  have "graph_ok ir g" "operationDimensions g op = None" using Cons.prems by (auto simp: built_def)
  note r = build_op_ok [OF this, simplified, of]
  have el: "isEligible ir op" using Cons.prems(3) by simp
  have IH: "grows (\<Union>op\<in>set ops. set (opResults ir op)) (build_op ir op g) (fold (build_op ir) ops (build_op ir op g)) \<and>
      (\<forall>op'\<in>set (pre @ [op]). operationDimensions (fold (build_op ir) ops (build_op ir op g)) op' = operationDimensions (build_op ir op g) op')"
    using Cons.IH [OF b] Cons.prems by simp
  have "grows (\<Union>op\<in>set (op # ops). set (opResults ir op)) g (fold (build_op ir) (op # ops) g)"
    using graph_grows_trans [OF grows_mono [OF r(2) [OF el]] grows_mono [OF conjunct1 [OF IH]]] by auto
  then show ?case using IH r(3) [OF el] Cons.prems(2) by auto
qed simp

text \<open>
  Loops that touch the same dimension of the same value, one operation after the other, are the same
  dispatch dimension.
\<close>

lemma shared_dimension_united:
  assumes order: "topologicalSort ir (filter (isEligible ir) ops) = pre @ op1 # mid @ op2 # post"
    and dist: "distinct ops" and laws: "analysis_laws ir"
    and first: "reads_dim ir op1 v vd p \<and> v \<notin> set (opResults ir op1) \<or> writes_dim ir op1 v vd p"
    and second: "reads_dim ir op2 v vd q"
    and untouched: "\<forall>op\<in>set mid \<union> {op2}. v \<notin> set (opResults ir op)"
    and loops: "p < length (loopIteratorTypes ir op1)" "q < length (loopIteratorTypes ir op2)"
  shows "dimensionsOf (DimensionGraph ir ops) op1 ! p = dimensionsOf (DimensionGraph ir ops) op2 ! q"
proof -
  let ?ops = "pre @ op1 # mid @ op2 # post" and ?n = provisionalDimensionCount
  have "distinct (filter (isEligible ir) ops)" using dist by simp
  then have "distinct (topologicalSort ir (filter (isEligible ir) ops)) \<and>
      set (topologicalSort ir (filter (isEligible ir) ops)) = set (filter (isEligible ir) ops)"
    using laws unfolding analysis_laws_def by blast
  then have dist': "distinct ?ops" and "set ?ops = set (filter (isEligible ir) ops)" unfolding order by blast+
  then have el: "\<forall>op\<in>set ?ops. isEligible ir op" by simp
  define g0 where "g0 = build ir pre"
  define g1 where "g1 = build_op ir op1 g0"
  define g2 where "g2 = fold (build_op ir) mid g1"
  define g3 where "g3 = build_op ir op2 g2"
  have final: "build ir ?ops = fold (build_op ir) post g3"
    by (simp add: build_def g0_def g1_def g2_def g3_def)
  have b0: "built ir pre g0" unfolding g0_def using dist' el by (intro built_build) auto
  have b1: "built ir (pre @ [op1]) g1" unfolding g1_def using dist' el by (intro built_step b0) auto
  have b2: "built ir ((pre @ [op1]) @ mid) g2" unfolding g2_def using dist' el by (intro build_fold b1) auto
  have b3: "built ir (((pre @ [op1]) @ mid) @ [op2]) g3" unfolding g3_def using dist' el by (intro built_step b2) auto
  have o0: "graph_ok ir g0" "operationDimensions g0 op1 = None" using b0 dist' by (auto simp: built_def)
  have o2: "graph_ok ir g2" "operationDimensions g2 op2 = None" using b2 dist' by (auto simp: built_def)
  have e1: "isEligible ir op1" and e2: "isEligible ir op2" using el by auto
  have k1: "knows g1 v vd (?n g0 + p)" unfolding g1_def by (rule build_op_knows [OF o0 e1 first loops(1)])
  have m: "grows (\<Union>op\<in>set mid. set (opResults ir op)) g1 g2" "operationDimensions g2 op1 = operationDimensions g1 op1"
    using build_fold_grows [OF b1, of mid] dist' el by (auto simp: g2_def)
  note r2 = build_op_ok [OF o2 e2, folded g3_def]
  have "knows g3 v vd (?n g0 + p)"
    using k1 m(1) r2(2) untouched by (auto simp: grows_def)
  moreover have "knows g3 v vd (?n g2 + q)"
    unfolding g3_def using second untouched by (intro build_op_knows [OF o2 e2 _ loops(2)]) auto
  ultimately have u3: "united (equivalence g3) (?n g0 + p) (?n g2 + q)"
    by (rule knows_united)
  have last: "grows (\<Union>op\<in>set post. set (opResults ir op)) g3 (build ir ?ops)"
    "\<forall>op\<in>set (((pre @ [op1]) @ mid) @ [op2]). operationDimensions (build ir ?ops) op = operationDimensions g3 op"
    unfolding final using build_fold_grows [OF b3, of post] dist' el by auto
  from u3 last(1) have u: "united (equivalence (build ir ?ops)) (?n g0 + p) (?n g2 + q)" by (simp add: grows_def)
  have "operationDimensions (build ir ?ops) op1 = Some [?n g0..<?n g0 + length (loopIteratorTypes ir op1)]"
    "operationDimensions (build ir ?ops) op2 = Some [?n g2..<?n g2 + length (loopIteratorTypes ir op2)]"
    using last(2) r2(3) m(2) build_op_ok(3) [OF o0 e1, folded g1_def] dist' by auto
  moreover have "leaders_ok (equivalence (build ir ?ops))"
    using built_build [OF dist' el] by (simp add: built_def graph_ok_def)
  ultimately show ?thesis
    using loops u compact_lookup_eq [of "equivalence (build ir ?ops)" "?n g0 + p" "?n g2 + q"]
    by (simp add: DimensionGraph_def order Let_def united_def)
qed

section \<open>Properties\<close>

text \<open>
  Analyzing a dispatch succeeds exactly when a root is found and every tileable operation's
  ranges and indexing maps agree with its loops, and then the shape is consistent: the operations
  with loops in their order, numbered, each dimension pointing to an existing dispatch dimension,
  every dispatch dimension used, and the root's dimensions marked. It is the shape that plan
  verification accepts.
\<close>

theorem analyzeDispatch_correct:
  assumes "dispatch_ops ir ctx ops" and "analysis_laws ir"
  shows "case analyzeDispatch ir ctx ops of
      Inl e \<Rightarrow> getRootOperation ir ops = None \<or> (\<exists>op\<in>set ops. isEligible ir op \<and> \<not> ranks_agree ir op)
    | Inr shape \<Rightarrow> getRootOperation ir ops \<noteq> None \<and>
        map os_op (ds_operations shape) = filter (isEligible ir) ops \<and>
        verifyDispatchShape ir ctx shape = Inr ()"
proof -
  have "distinct ops" using assms(1) by (simp add: dispatch_ops_def)
  note total = analyzeDispatch_total(1) [OF this assms(2), of ctx]
  show ?thesis
  proof (cases "analyzeDispatch ir ctx ops")
    case (Inl e)
    with total show ?thesis by auto
  next
    case (Inr shape)
    with total analyzeDispatch_Inr(1,3) [OF assms Inr] show ?thesis by (auto simp: verifyDispatchShape_iff)
  qed
qed

lemma sample_analysis_laws: "analysis_laws sample_ir"
  by (auto simp: analysis_laws_def sample_simps split: if_splits)

lemma sample_dispatch_ops: "dispatch_ops sample_ir sample_context [1, 2]"
  by (simp add: dispatch_ops_def sample_simps)

theorem analyzeDispatch_correct_witness:
  "\<exists>shape. analyzeDispatch sample_ir sample_context [1, 2] = Inr shape \<and>
     map os_op (ds_operations shape) = [1, 2] \<and> verifyDispatchShape sample_ir sample_context shape = Inr ()"
proof -
  have "ranks_agree sample_ir 1" "ranks_agree sample_ir 2" "isEligible sample_ir 1" "isEligible sample_ir 2"
    by (auto simp: ranks_agree_def isEligible_def getStaticLoopRanges_def sample_simps less_Suc_eq nth_Cons' Let_def)
  then show ?thesis
    using analyzeDispatch_correct [OF sample_dispatch_ops sample_analysis_laws]
    by (auto simp: sample_simps split: sum.splits)
qed



end
