(* ===== verification/Dispatch_Planner.thy ===== *)
theory Dispatch_Planner
  imports Dispatch_Analysis
begin

text \<open>
  The planner as a whole: \<open>CodeGen/Strategy/Planning/DispatchPlanner.cpp\<close>, its entry point
  \<open>CodeGen/Strategy/KernelDispatch.cpp\<close> and the pass over a module's functions.
\<close>

section \<open>The code\<close>

definition getTargetInfo :: "planner_ir \<Rightarrow> nat \<Rightarrow> target_info" where
  "getTargetInfo ir entryPoint =
     (case configNativeVectorSize ir entryPoint of None \<Rightarrow> default_target_info
      | Some nativeVector \<Rightarrow> default_target_info\<lparr>nativeVectorBytes := max 1 nativeVector\<rparr>)"

definition configureDefaultPipeline :: "nat \<Rightarrow> ir_config \<Rightarrow> (plan_error + unit) \<times> ir_config" where
  "configureDefaultPipeline entryPoint cfg =
     applyEncodedDispatchPlan \<lparr>ep_entryPoint = entryPoint,
       ep_translationInfo = \<lparr>ti_pipeline = PipelineDefault, enableLoopPeeling = False\<rparr>, ep_operations = []\<rparr> cfg"

text \<open>A selector's answer where \<open>NoMatch\<close> is \<open>std::nullopt\<close>.\<close>

fun selected :: "'a select \<Rightarrow> plan_error + 'a option" where
  "selected AssertFailed = Inl AssertionFailed"
| "selected Failed = Inl StrategyFailed"
| "selected NoMatch = Inr None"
| "selected (Selected x) = Inr (Some x)"

text \<open>The loop over the operations other than the root.\<close>

definition select_plan ::
  "planner_ir \<Rightarrow> planning_context \<Rightarrow> dispatch_shape \<Rightarrow> dispatch_strategy \<Rightarrow> pipeline_contract \<Rightarrow> op_shape \<Rightarrow>
   op_compute_tile_plan list \<Rightarrow> plan_error + op_compute_tile_plan list" where
  "select_plan ir ctx shape strategy contract opShape plans =
     (if os_op opShape = ds_root shape then Inr plans
      else bind_res (selected (selectNonRootComputeTile ir ctx shape strategy contract opShape)) (\<lambda>sel.
        Inr (case sel of None \<Rightarrow> plans | Some plan \<Rightarrow> plans @ [plan])))"

text \<open>From an analyzed root to an encoded plan.\<close>

definition planDispatch ::
  "planner_ir \<Rightarrow> planning_context \<Rightarrow> dispatch_shape \<Rightarrow> plan_error + encoded_dispatch_plan" where
  "planDispatch ir ctx shape =
     bind_res (selected (selectDispatchStrategy ir ctx shape)) (\<lambda>sel.
     case sel of None \<Rightarrow> Inl StrategyFailed
     | Some strategy \<Rightarrow>
         (case getPipelineContract (st_pipeline strategy) of None \<Rightarrow> Inl NoPlanningContract
          | Some contract \<Rightarrow>
              bind_res (planVTCMTiling ir ctx shape contract strategy) (\<lambda>strategy.
              bind_res (fold_res (select_plan ir ctx shape strategy contract) (ds_operations shape) []) (\<lambda>plans.
              bind_res (reconcileNonRootComputeTiles ir shape contract
                  \<lparr>dp_strategy = strategy, nonRootComputeTilePlans = plans\<rparr>) (\<lambda>plan.
              bind_res (verifyDispatchPlan ir ctx shape plan contract) (\<lambda>_.
              encodeDispatchPlan ctx shape plan contract))))))"

definition configureDispatch ::
  "planner_ir \<Rightarrow> nat \<Rightarrow> planning_options \<Rightarrow> ir_config \<Rightarrow> (plan_error + unit) \<times> ir_config" where
  "configureDispatch ir entryPoint options cfg =
     (if translationInfo cfg entryPoint \<noteq> None then (Inr (), cfg)
      else if \<not> hasSingleBlockBody ir entryPoint then configureDefaultPipeline entryPoint cfg
      else let computeOps = getComputeOps ir entryPoint
           in if computeOps = [] then configureDefaultPipeline entryPoint cfg
              else case find (\<lambda>op. loweringConfig cfg op \<noteq> None) computeOps of
                     Some op \<Rightarrow> (Inl (UnexpectedConfiguredOp op), cfg)
                   | None \<Rightarrow>
                       let ctx = \<lparr>pc_entryPoint = entryPoint, pc_target = getTargetInfo ir entryPoint, pc_options = options\<rparr>
                       in case analyzeDispatch ir ctx computeOps of
                            Inl e \<Rightarrow> (Inl e, cfg)
                          | Inr shape \<Rightarrow>
                              if ds_root shape = 0 then configureDefaultPipeline entryPoint cfg
                              else case planDispatch ir ctx shape of
                                     Inl e \<Rightarrow> (Inl e, cfg)
                                   | Inr encoded \<Rightarrow> applyEncodedDispatchPlan encoded cfg)"

text \<open>\<open>KernelDispatch.cpp\<close>: the command-line options, with the budget halved for double buffering.\<close>

record hexagon_flags =
  isHexagonVTCMTilingEnabled :: bool
  getHexagonVTCMTileBudgetBytes :: int
  isHexagonDoubleBufferingEnabled :: bool
  isHexagonHmxMatmulEnabled :: bool

text \<open>C++ division by two rounds towards zero.\<close>

definition half :: "int \<Rightarrow> int" where
  "half n = (if n < 0 then - (- n div 2) else n div 2)"

definition initHexagonLaunchConfig ::
  "planner_ir \<Rightarrow> hexagon_flags \<Rightarrow> nat \<Rightarrow> ir_config \<Rightarrow> (plan_error + unit) \<times> ir_config" where
  "initHexagonLaunchConfig ir flags funcOp cfg =
     (let budget = getHexagonVTCMTileBudgetBytes flags;
          options = \<lparr>enableVTCM = isHexagonVTCMTilingEnabled flags,
            vtcmTileBudgetBytes = (if isHexagonDoubleBufferingEnabled flags then half budget else budget),
            enableHmxMatmul = isHexagonHmxMatmulEnabled flags\<rparr>
      in configureDispatch ir funcOp options cfg)"

text \<open>The pass: functions in order, stopping at the first failure. \<open>True\<close> is success.\<close>

fun select_lowering_strategy :: "planner_ir \<Rightarrow> hexagon_flags \<Rightarrow> nat list \<Rightarrow> ir_config \<Rightarrow> bool \<times> ir_config" where
  "select_lowering_strategy ir flags [] cfg = (True, cfg)"
| "select_lowering_strategy ir flags (f # fs) cfg =
     (case initHexagonLaunchConfig ir flags f cfg of
        (Inl e, cfg) \<Rightarrow> (False, cfg)
      | (Inr _, cfg) \<Rightarrow> select_lowering_strategy ir flags fs cfg)"

section \<open>Planning an analyzed root\<close>

text \<open>Everything the planner assumes of MLIR, IREE and hexagon-mlir.\<close>

definition planner_laws :: "planner_ir \<Rightarrow> bool" where
  "planner_laws ir \<longleftrightarrow> ir_laws ir \<and> analysis_laws ir \<and> tile_search_laws ir \<and> (\<forall>op. finite (fed_values ir op))"

definition vtcm_error :: "plan_error \<Rightarrow> bool" where
  "vtcm_error e \<longleftrightarrow> e \<in> {VTCMTilingRequired, TensorRootRequired, DoesNotFitVTCM} \<union> range UnboundedFootprint"

definition hardware_error :: "plan_error \<Rightarrow> bool" where
  "hardware_error e \<longleftrightarrow> (\<exists>op n m. e = HardwareFixedTileMismatch op n m)"

text \<open>Tiles that later stages may adjust. Only the HMX pipeline fixes any.\<close>

definition adjustable :: "tile_decision list \<Rightarrow> bool" where
  "adjustable tiles \<longleftrightarrow> (\<forall>t\<in>set tiles. \<not> hardwareFixed t)"

lemma adjustable_noTiles [simp]: "adjustable (noTiles n)"
  by (auto simp: adjustable_def dest: set_noTiles)

lemma adjustable_update [intro]: "adjustable ts \<Longrightarrow> \<not> hardwareFixed t \<Longrightarrow> adjustable (ts[i := t])"
  using set_update_subset_insert by (fastforce simp: adjustable_def)

lemma adjustable_fold: "adjustable ts \<Longrightarrow> (\<And>x ts. adjustable ts \<Longrightarrow> adjustable (f x ts)) \<Longrightarrow> adjustable (fold f xs ts)"
  by (induction xs arbitrary: ts) auto

lemma adjustable_innermost: "adjustable (inferInnermostParallelComputeTile ir ctx s op)"
  by (auto simp: inferInnermostParallelComputeTile_def unit_tiles_def Let_def split: option.split
      intro!: adjustable_update adjustable_fold)

lemma adjustable_convolution: "inferConvolutionComputeTile ir ctx s op = Some ts \<Longrightarrow> adjustable ts"
  by (auto simp: inferConvolutionComputeTile_def inferConvolutionDistributionTile_def Let_def
      split: option.splits if_splits affine_expr.splits intro!: adjustable_update adjustable_fold)

lemma adjustable_contraction: "inferContractionComputeTile ir ctx s op dims False = Some ts \<Longrightarrow> adjustable ts"
  by (auto simp: inferContractionComputeTile_def Let_def split: if_splits intro!: adjustable_update adjustable_fold)

lemma adjustable_generic: "inferGenericComputeTile ir ctx s op = Some ts \<Longrightarrow> adjustable ts"
  by (auto simp: inferGenericComputeTile_def unit_tiles_def Let_def split: if_splits option.splits
      intro!: adjustable_update adjustable_fold)

lemma policies_adjustable:
  assumes sel: "selectNonRootComputeTile ir ctx shape strategy contract s = Selected plan"
    and hmx: "st_pipeline strategy \<noteq> HmxMatmulExpert"
  shows "adjustable (op_computeTile plan)"
proof -
  have "Selected plan \<in> set (map (\<lambda>p. p ir ctx strategy s) policies)"
    using sel by (intro first_match_Selected) (auto simp: selectNonRootComputeTile_def split: if_splits)
  then consider "selectBufferCopyComputeTile ir ctx strategy s = Selected plan"
    | "selectConvolutionComputeTile ir ctx strategy s = Selected plan"
    | "selectContractionComputeTile ir ctx strategy s = Selected plan"
    | "selectGenericComputeTile ir ctx strategy s = Selected plan"
    | "selectDefaultTilingInterfaceComputeTile ir ctx strategy s = Selected plan"
    by (auto simp: policies_def)
  then show ?thesis
    using hmx adjustable_innermost adjustable_convolution adjustable_contraction adjustable_generic
    by cases (auto simp: selectBufferCopyComputeTile_def inferBufferCopyComputeTile_def selectConvolutionComputeTile_def
        selectContractionComputeTile_def selectGenericComputeTile_def selectDefaultTilingInterfaceComputeTile_def
        Let_def split: if_splits option.splits)
qed

lemma reconcile_adjustable:
  assumes ok: "shape_ok ir shape" and fed: "finite (fed_values ir (ds_root shape))"
    and adj: "\<forall>p\<in>set (nonRootComputeTilePlans plan). adjustable (op_computeTile p)"
  shows "\<exists>plan'. reconcileNonRootComputeTiles ir shape contract plan = Inr plan'"
proof -
  have dim: "\<exists>tiles'. reconcile_dim shape bounds r op d tiles = Inr tiles' \<and> adjustable tiles' \<and> length tiles' = length tiles"
    if "adjustable tiles" "ld_position d < length tiles" for bounds r op d tiles
  proof -
    have "\<not> hardwareFixed (tiles ! ld_position d)" using that by (simp add: adjustable_def)
    then show ?thesis using that(1) by (auto simp: reconcile_dim_def Let_def intro!: adjustable_update)
  qed
  have dims: "\<exists>tiles'. fold_res (reconcile_dim shape bounds r op) ds tiles = Inr tiles'"
    if "adjustable tiles" "\<forall>d\<in>set ds. ld_position d < length tiles" for bounds r op ds tiles
    using that
  proof (induction ds arbitrary: tiles)
    case (Cons d ds)
    then obtain t1 where t1: "reconcile_dim shape bounds r op d tiles = Inr t1" "adjustable t1" "length t1 = length tiles"
      using dim [of tiles d bounds r op] by auto
    show ?case using Cons.IH [OF t1(2)] Cons.prems(2) t1 by auto
  qed simp
  have one: "\<exists>p'. reconcile_plan ir shape contract bounds p = Inr p'" if "adjustable (op_computeTile p)" for bounds p
  proof (cases "findOpShape shape (op_op p)")
    case (Some s)
    have "op_shape_ok ir (length (globalDimensions shape)) s"
      using shape_ok_op [OF ok] findOpShape_Some [OF Some] by blast
    then have "\<forall>d\<in>set (os_dims s). ld_position d < length (os_dims s)" using op_shape_ok_position_less by blast
    with dims [OF that, of "os_dims s"] Some show ?thesis by (auto simp: reconcile_plan_def bind_res_Inr)
  qed (simp add: reconcile_plan_def)
  have all: "\<forall>p\<in>set ps. adjustable (op_computeTile p) \<Longrightarrow> \<exists>ps'. map_res (reconcile_plan ir shape contract bounds) ps = Inr ps'"
    for bounds ps
    by (induction ps) (use one in \<open>fastforce simp: bind_res_Inr\<close>)+
  obtain b where "RootFusionBounds ir shape (rootTiling (dp_strategy plan)) = Inr b"
    using collectRootInputProducers_correct [OF fed]
    by (cases "findOpShape shape (ds_root shape)") (auto simp: RootFusionBounds_def)
  with all [OF adj] show ?thesis by (auto simp: reconcileNonRootComputeTiles_def bind_res_Inr)
qed

lemma plan_fold_Inr:
  assumes laws: "ir_laws ir" and tgt: "target_ok ctx"
    and ok: "\<And>s. s \<in> set ops \<Longrightarrow> op_shape_ok ir g s \<and> findOpShape shape (os_op s) = Some s"
  shows "distinct (map os_op ops) \<Longrightarrow> plans_selected shape contract plans \<Longrightarrow> op_op ` set plans \<inter> os_op ` set ops = {} \<Longrightarrow>
    \<exists>plans'. fold_res (select_plan ir ctx shape strategy contract) ops plans = Inr plans' \<and>
      plans_selected shape contract plans'"
  using ok
proof (induction ops arbitrary: plans)
  case (Cons s ops)
  have s: "op_shape_ok ir g s" "findOpShape shape (os_op s) = Some s" using Cons.prems(4) by auto
  let ?sel = "selectNonRootComputeTile ir ctx shape strategy contract s"
  have step: "\<exists>plans1. select_plan ir ctx shape strategy contract s plans = Inr plans1 \<and> plans_selected shape contract plans1 \<and>
      op_op ` set plans1 \<inter> os_op ` set ops = {}"
  proof (cases "os_op s = ds_root shape")
    case True
    then show ?thesis using Cons.prems by (auto simp: select_plan_def)
  next
    case False
    show ?thesis
    proof (cases ?sel)
      case NoMatch
      then show ?thesis using False Cons.prems by (auto simp: select_plan_def)
    next
      case (Selected p)
      note f = selectNonRootComputeTile_Selected [OF s(1) laws tgt Selected]
      have "plans_selected shape contract (plans @ [p])"
        using f s(2) Cons.prems(2,3) by (auto simp: plans_selected_def plans_ok_def)
      then show ?thesis using Selected False f(1) Cons.prems(1,3) by (auto simp: select_plan_def)
    qed (use selectNonRootComputeTile_total [OF laws] in auto)
  qed
  then obtain plans1 where p: "select_plan ir ctx shape strategy contract s plans = Inr plans1"
    "plans_selected shape contract plans1" "op_op ` set plans1 \<inter> os_op ` set ops = {}" by blast
  from Cons.IH [OF _ p(2,3)] Cons.prems p(1) show ?case by auto
qed auto

lemma plan_fold_adjustable:
  assumes "st_pipeline strategy \<noteq> HmxMatmulExpert"
  shows "fold_res (select_plan ir ctx shape strategy contract) ops plans = Inr plans' \<Longrightarrow>
    \<forall>p\<in>set plans. adjustable (op_computeTile p) \<Longrightarrow> \<forall>p\<in>set plans'. adjustable (op_computeTile p)"
proof (rule fold_res_invariant [where P = "\<lambda>plans. \<forall>p\<in>set plans. adjustable (op_computeTile p)"], assumption, assumption)
  fix s plans plans'
  assume "\<forall>p\<in>set plans. adjustable (op_computeTile p)" "select_plan ir ctx shape strategy contract s plans = Inr plans'"
  then show "\<forall>p\<in>set plans'. adjustable (op_computeTile p)"
    using policies_adjustable [OF _ assms]
    by (cases "selectNonRootComputeTile ir ctx shape strategy contract s")
      (auto simp: select_plan_def split: if_splits)
qed

lemma reconcile_Inl:
  assumes "finite (fed_values ir (ds_root shape))" and "reconcileNonRootComputeTiles ir shape contract plan = Inl e"
  shows "hardware_error e"
proof -
  have dim: "hardware_error e" if "reconcile_dim shape bounds r op d tiles = Inl e" for bounds r op d tiles e
    using that by (auto simp: reconcile_dim_def hardware_error_def Let_def split: if_splits)
  have dims: "fold_res (reconcile_dim shape bounds r op) ds tiles = Inl e \<Longrightarrow> hardware_error e" for bounds r op ds tiles e
    by (induction ds arbitrary: tiles) (auto simp: bind_res_Inl dim)
  have one: "hardware_error e" if "reconcile_plan ir shape contract bounds p = Inl e" for bounds p e
    using that by (auto simp: reconcile_plan_def bind_res_Inl dims split: option.splits if_splits)
  have all: "map_res (reconcile_plan ir shape contract bounds) ps = Inl e \<Longrightarrow> hardware_error e" for bounds ps e
    by (induction ps) (auto simp: bind_res_Inl one)
  obtain b where "RootFusionBounds ir shape (rootTiling (dp_strategy plan)) = Inr b"
    using collectRootInputProducers_correct [OF assms(1)]
    by (cases "findOpShape shape (ds_root shape)") (auto simp: RootFusionBounds_def)
  with assms(2) all show ?thesis
    by (auto simp: reconcileNonRootComputeTiles_def bind_res_Inl split: if_splits)
qed

text \<open>A shape as analysis leaves it, with its root.\<close>

definition analyzed :: "planner_ir \<Rightarrow> planning_context \<Rightarrow> dispatch_shape \<Rightarrow> op_shape \<Rightarrow> bool" where
  "analyzed ir ctx shape s \<longleftrightarrow> shape_consistent ir ctx shape \<and> shape_ok ir shape \<and> ds_root shape \<noteq> 0 \<and>
     findOpShape shape (ds_root shape) = Some s \<and> os_dims s \<noteq> []"

lemma required_is_hmx: "getPipelineContract p = Some c \<Longrightarrow> vtcmRequirement c = VTCMRequired \<Longrightarrow> p = HmxMatmulExpert"
  by (auto simp: getPipelineContract_def default_contract_def split: lowering_pipeline.splits)

lemma found_by_op: "distinct (map os_op ops) \<Longrightarrow> s \<in> set ops \<Longrightarrow> find (\<lambda>s'. os_op s' = os_op s) ops = Some s"
  by (induction ops) (auto simp: image_iff)

text \<open>The stages of a plan that reached encoding.\<close>

lemma planDispatch_stages:
  assumes an: "analyzed ir ctx shape s" and laws: "planner_laws ir" and tgt: "target_ok ctx"
  obtains (VTCM) e where "planDispatch ir ctx shape = Inl e" "vtcm_error e"
      "expected_pipeline ir ctx (ds_root shape) = HmxMatmulExpert"
  | (Hardware) e where "planDispatch ir ctx shape = Inl e" "hardware_error e"
      "expected_pipeline ir ctx (ds_root shape) = HmxMatmulExpert"
  | (Planned) plan contract st0 where "planDispatch ir ctx shape = encodeDispatchPlan ctx shape plan contract"
      "strategy_ok s st0" "getPipelineContract (st_pipeline st0) = Some contract"
      "vtcm_planned ir contract s st0 (dp_strategy plan)"
      "st_pipeline st0 = expected_pipeline ir ctx (ds_root shape)"
      "plans_selected shape contract (nonRootComputeTilePlans plan)"
proof -
  have sc: "shape_consistent ir ctx shape" and ok: "shape_ok ir shape" and r0: "ds_root shape \<noteq> 0" and
    root: "findOpShape shape (ds_root shape) = Some s" using an by (simp_all add: analyzed_def)
  have L: "ir_laws ir" "tile_search_laws ir" "finite (fed_values ir (ds_root shape))"
    using laws by (simp_all add: planner_laws_def)
  obtain st0 where st0: "selectDispatchStrategy ir ctx shape = Selected st0"
    "st_pipeline st0 = expected_pipeline ir ctx (ds_root shape)"
    using candidates_outcome [OF root L(1) r0] by blast
  have sok: "strategy_ok s st0" by (rule selectDispatchStrategy_ok [OF ok root L(1) tgt st0(1)])
  then obtain contract where contract: "getPipelineContract (st_pipeline st0) = Some contract"
    by (auto simp: strategy_ok_def Let_def)
  let ?vtcm = "planVTCMTiling ir ctx shape contract st0"
  have s_ops: "s \<in> set (ds_operations shape)" "os_op s = ds_root shape" using findOpShape_Some [OF root] by auto
  have rank: "length (loopIteratorTypes ir (ds_root shape)) = length (os_dims s)"
    using op_shape_rank [OF shape_ok_op [OF ok s_ops(1)]] s_ops(2) by simp
  have start: "planDispatch ir ctx shape = bind_res ?vtcm (\<lambda>strategy.
      bind_res (fold_res (select_plan ir ctx shape strategy contract) (ds_operations shape) []) (\<lambda>plans.
      bind_res (reconcileNonRootComputeTiles ir shape contract \<lparr>dp_strategy = strategy, nonRootComputeTilePlans = plans\<rparr>) (\<lambda>plan.
      bind_res (verifyDispatchPlan ir ctx shape plan contract) (\<lambda>_. encodeDispatchPlan ctx shape plan contract))))"
    by (simp add: planDispatch_def st0 contract del: bind_res.simps(2)) (simp add: contract)
  have after: ?thesis if st: "?vtcm = Inr st" "vtcm_planned ir contract s st0 st" for st
  proof -
    have dist: "distinct (map os_op (ds_operations shape))" using ok by (simp add: shape_ok_def)
    have "plans_selected shape contract []" by (simp add: plans_selected_def plans_ok_def)
    then obtain plans where plans: "fold_res (select_plan ir ctx shape st contract) (ds_operations shape) [] = Inr plans"
      "plans_selected shape contract plans"
      using plan_fold_Inr [OF L(1) tgt _ dist, of "length (globalDimensions shape)" shape contract "[]" st]
        shape_ok_op [OF ok] found_by_op [OF dist] by (auto simp: findOpShape_def)
    let ?plan = "\<lparr>dp_strategy = st, nonRootComputeTilePlans = plans\<rparr>"
    show ?thesis
    proof (cases "reconcileNonRootComputeTiles ir shape contract ?plan")
      case (Inl e)
      then have "planDispatch ir ctx shape = Inl e" by (simp add: start st plans)
      moreover have "expected_pipeline ir ctx (ds_root shape) = HmxMatmulExpert"
      proof (rule ccontr)
        assume "expected_pipeline ir ctx (ds_root shape) \<noteq> HmxMatmulExpert"
        then have "st_pipeline st \<noteq> HmxMatmulExpert" using st0(2) planned_root(1) [OF sok contract st(2)] by simp
        from plan_fold_adjustable [OF this plans(1)]
        have "\<exists>plan'. reconcileNonRootComputeTiles ir shape contract ?plan = Inr plan'"
          by (intro reconcile_adjustable [OF ok L(3)]) simp
        with Inl show False by simp
      qed
      ultimately show ?thesis using Hardware reconcile_Inl [OF L(3) Inl] by blast
    next
      case (Inr plan)
      have tiles: "\<forall>t\<in>set (rt_computeTile (rootTiling (dp_strategy ?plan))). 0 \<le> td_size t"
        using planned_root(6) [OF sok contract st(2)] by (simp add: tiles_ok_def)
      have po: "plans_ok shape (nonRootComputeTilePlans ?plan)" using plans(2) by (simp add: plans_selected_def)
      note r = reconcile_Inr [OF ok po tiles Inr]
      have nonempty: "nonRootComputeTilePlans plan = [] \<longleftrightarrow> plans = []" using r(2) by (metis dispatch_plan.select_convs(2) map_is_Nil_conv)
      have "op_op ` set (nonRootComputeTilePlans plan) = op_op ` set plans"
        using arg_cong [OF r(2), of set] by simp
      then have sel: "plans_selected shape contract (nonRootComputeTilePlans plan)"
        using plans(2) r(2,3) nonempty by (simp add: plans_selected_def)
      have strat: "vtcm_planned ir contract s st0 (dp_strategy plan)" using st(2) r(1) by simp
      have "vectorCommonParallel contract = Root \<Longrightarrow>
         \<exists>b. RootFusionBounds ir shape (rootTiling (dp_strategy plan)) = Inr b \<and>
           (\<forall>p\<in>set (nonRootComputeTilePlans plan). plan_fits ir shape contract b p)"
        using r(1,4) root by simp
      then have "verifyDispatchPlan ir ctx shape plan contract = Inr ()"
        by (intro verifyDispatchPlan_ok [OF sc root r0 sok contract strat sel _ L(3)])
      then have "planDispatch ir ctx shape = encodeDispatchPlan ctx shape plan contract"
        by (simp add: start st plans Inr)
      then show ?thesis using Planned sok contract strat st0(2) sel by blast
    qed
  qed
  show ?thesis
  proof (rule planVTCMTiling_cases [OF L(2) root, of ctx contract st0])
    fix e assume "?vtcm = Inl e" "vtcmRequirement contract = VTCMRequired"
      "e \<in> {VTCMTilingRequired, TensorRootRequired, DoesNotFitVTCM} \<union> range UnboundedFootprint"
    then show ?thesis using VTCM required_is_hmx [OF contract] st0(2) by (simp add: start vtcm_error_def)
  next
    assume "?vtcm = Inr st0" "vtcmRequirement contract \<noteq> VTCMRequired"
    then show ?thesis by (intro after [of st0]) (auto simp: vtcm_planned_def)
  next
    fix ts assume "?vtcm = Inr (staged_strategy st0 ts)" "vtcmRequirement contract \<noteq> VTCMUnsupported"
      "reductions_whole ir (ds_root shape) ts" "\<forall>t\<in>set ts. 0 \<le> t"
    then show ?thesis using rank by (intro after [of "staged_strategy st0 ts"]) (auto simp: vtcm_planned_def reductions_whole_def)
  qed
qed

text \<open>What the encoded plan holds.\<close>

lemma plans_by_op_Some: "plans_by_op plans op = Some p \<Longrightarrow> p \<in> set plans \<and> op_op p = op"
proof -
  have "fold (\<lambda>p m. m(op_op p := Some p)) plans m op = Some p \<Longrightarrow> p \<in> set plans \<and> op_op p = op \<or> m op = Some p" for m
    by (induction plans arbitrary: m) (fastforce split: if_splits)+
  from this [of "\<lambda>_. None"] show "plans_by_op plans op = Some p \<Longrightarrow> p \<in> set plans \<and> op_op p = op"
    by (auto simp: plans_by_op_def)
qed

text \<open>The configuration of an operation whose compute tile is \<open>compute\<close>; only a distribution stage may be all zero.\<close>

definition only_effective_stages :: "lowering_config \<Rightarrow> bool" where
  "only_effective_stages config \<longleftrightarrow>
     (\<forall>level. level \<noteq> InvalidLevel \<longrightarrow> level \<noteq> DistributionTiles \<longrightarrow> hasTilingLevel config (level_index level) \<longrightarrow>
        anyNonZero (getStaticTilingLevelSizes config (level_index level)))"

definition config_ok :: "nat \<Rightarrow> lowering_config \<Rightarrow> tile_decision list \<Rightarrow> bool" where
  "config_ok rank config compute \<longleftrightarrow> verify_config config = Inr () \<and>
     (\<forall>item\<in>set config. stage_ok rank item) \<and> only_effective_stages config \<and> tiles_ok rank compute \<and>
     (\<exists>ns. getVectorSizes config = Some ns \<and> (\<forall>i. at ns i = at (map td_size compute) i))"

lemma encode_op_ok:
  assumes an: "analyzed ir ctx shape s"
    and st: "strategy_ok s st0" "getPipelineContract (st_pipeline st0) = Some contract"
      "vtcm_planned ir contract s st0 (dp_strategy plan)"
    and plans: "plans_selected shape contract (nonRootComputeTilePlans plan)"
    and s': "findOpShape shape op = Some s'" and enc: "encode_op shape plan contract s' = Some config"
  shows "\<exists>compute. config_ok (length (os_dims s')) config compute"
proof -
  have ok: "shape_ok ir shape" and root: "findOpShape shape (ds_root shape) = Some s"
    using an by (simp_all add: analyzed_def)
  have so: "op_shape_ok ir (length (globalDimensions shape)) s'" "os_op s' = op"
    using shape_ok_op [OF ok] findOpShape_Some [OF s'] by auto
  note f = planned_root [OF st]
  show ?thesis
  proof (cases "op = ds_root shape")
    case True
    then have s: "s' = s" using root s' by simp
    let ?root = "rootTiling (dp_strategy plan)" and ?n = "length (os_dims s')"
    have tiles: "tiles_ok ?n (rt_computeTile ?root)" "tiles_or_none ?n (distributionTile ?root)"
      "tiles_or_none ?n (cacheTile ?root)" "tiles_or_none ?n (case rt_vtcm ?root of None \<Rightarrow> [] | Some v \<Rightarrow> v)"
      "tiles_or_none ?n (hmxTile ?root)"
      using f(4-8) by (auto simp: s tiles_or_none_def split: option.split)
    have root_config: "encodeOpConfig shape s' (distributionTile ?root) (cacheTile ?root) (rt_computeTile ?root)
        (case rt_vtcm ?root of None \<Rightarrow> [] | Some v \<Rightarrow> v) (hmxTile ?root) (requiresUniqueRootAnchor contract) = Some config"
      using enc so(2) True by (simp add: encode_op_def Let_def)
    from encodeOpConfig_Some(1) [OF so(1) tiles root_config] encoded_vector_sizes [OF so(1) tiles root_config] tiles(1)
    show ?thesis using stage_ok_verifies encoded_nonzero [OF root_config] by (auto simp: config_ok_def only_effective_stages_def)
  next
    case False
    then obtain p where p: "plans_by_op (nonRootComputeTilePlans plan) op = Some p"
      "encodeOpConfig shape s' [] [] (op_computeTile p) [] [] False = Some config"
      using enc so(2) by (auto simp: encode_op_def split: option.splits)
    have tiles: "tiles_ok (length (os_dims s')) (op_computeTile p)"
      using plans plans_by_op_Some [OF p(1)] s' by (auto simp: plans_selected_def plans_ok_def)
    have none: "tiles_or_none (length (os_dims s')) []" by (simp add: tiles_or_none_def)
    from encodeOpConfig_Some(1) [OF so(1) tiles none none none none p(2)]
      encoded_vector_sizes [OF so(1) tiles none none none none p(2)] tiles
    show ?thesis using stage_ok_verifies encoded_nonzero [OF p(2)] by (auto simp: config_ok_def only_effective_stages_def)
  qed
qed

text \<open>
  A complete plan: the pipeline is the root's, every configured operation is one of the dispatch and
  has a sound configuration of its rank, the stages of the root's plan are on the root alone, and the
  distribution stage marks it where the pipeline needs it.
\<close>

definition complete_plan :: "planner_ir \<Rightarrow> planning_context \<Rightarrow> dispatch_shape \<Rightarrow> encoded_dispatch_plan \<Rightarrow> bool" where
  "complete_plan ir ctx shape ep \<longleftrightarrow>
     ep_entryPoint ep = pc_entryPoint ctx \<and>
     ti_pipeline (ep_translationInfo ep) = expected_pipeline ir ctx (ds_root shape) \<and>
     distinct (map fst (ep_operations ep)) \<and>
     (\<forall>(op, config)\<in>set (ep_operations ep). \<exists>s compute. findOpShape shape op = Some s \<and>
        config_ok (length (os_dims s)) config compute \<and>
        (\<forall>level\<in>root_stages. hasTilingLevel config (level_index level) \<longrightarrow> op = ds_root shape)) \<and>
     (\<forall>contract. getPipelineContract (expected_pipeline ir ctx (ds_root shape)) = Some contract \<longrightarrow>
        requiresUniqueRootAnchor contract \<longrightarrow>
        (\<exists>config. map_of (ep_operations ep) (ds_root shape) = Some config \<and> hasWorkgroupTilingLevel config))"

lemma planDispatch_outcome:
  assumes an: "analyzed ir ctx shape s" and laws: "planner_laws ir" and tgt: "target_ok ctx"
  shows "case planDispatch ir ctx shape of
      Inl e \<Rightarrow> (vtcm_error e \<or> hardware_error e) \<and> expected_pipeline ir ctx (ds_root shape) = HmxMatmulExpert
    | Inr ep \<Rightarrow> complete_plan ir ctx shape ep"
proof (rule planDispatch_stages [OF assms])
  fix plan contract st0
  assume run: "planDispatch ir ctx shape = encodeDispatchPlan ctx shape plan contract"
    and st: "strategy_ok s st0" "getPipelineContract (st_pipeline st0) = Some contract"
      "vtcm_planned ir contract s st0 (dp_strategy plan)"
    and pipe: "st_pipeline st0 = expected_pipeline ir ctx (ds_root shape)"
    and plans: "plans_selected shape contract (nonRootComputeTilePlans plan)"
  have ok: "shape_ok ir shape" and root: "findOpShape shape (ds_root shape) = Some s" and dims: "os_dims s \<noteq> []"
    using an by (simp_all add: analyzed_def)
  have dist: "distinct (map os_op (ds_operations shape))" using ok by (simp add: shape_ok_def)
  note f = planned_root [OF st]
  have tiles: "distributionTile (rootTiling (dp_strategy plan)) \<noteq> []" using f(4) dims by (auto simp: tiles_ok_def)
  note enc = encodeDispatchPlan_ok [OF dist root tiles, of ctx contract]
  have each: "\<exists>s compute. findOpShape shape op = Some s \<and> config_ok (length (os_dims s)) config compute \<and>
      (\<forall>level\<in>root_stages. hasTilingLevel config (level_index level) \<longrightarrow> op = ds_root shape)"
    if "(op, config) \<in> set (encode_operations shape plan contract)" for op config
  proof -
    have "map_of (encode_operations shape plan contract) op = Some config"
      using that encode_operations_ops [OF dist] by simp
    then obtain s' where s': "findOpShape shape op = Some s'" "encode_op shape plan contract s' = Some config"
      by (auto simp: map_of_encode_operations [OF dist] split: option.splits)
    have "op = ds_root shape" if "level \<in> root_stages" "hasTilingLevel config (level_index level)" for level
      using s' that findOpShape_Some [OF s'(1)]
      by (auto simp: encode_op_def dest: compute_only_encoded split: if_splits option.splits)
    with encode_op_ok [OF an st plans s'] s' show ?thesis by blast
  qed
  have "\<exists>config. map_of (encode_operations shape plan contract) (ds_root shape) = Some config \<and> hasWorkgroupTilingLevel config"
    if "requiresUniqueRootAnchor contract"
    using encode_op_anchor [OF that tiles, of shape s] findOpShape_Some [OF root] root
    by (auto simp: map_of_encode_operations [OF dist])
  with each f(1) pipe st(2) encode_operations_ops [OF dist] show ?thesis
    unfolding run enc complete_plan_def by auto
qed auto

section \<open>The planner\<close>

lemma target_ok_default: "target_ok \<lparr>pc_entryPoint = f, pc_target = getTargetInfo ir f, pc_options = options\<rparr>"
  by (simp add: target_ok_def getTargetInfo_def default_target_info_def split: option.split)

lemma analyzed_root:
  assumes "dispatch_ops ir ctx ops" and "analysis_laws ir" and "analyzeDispatch ir ctx ops = Inr shape" and "ds_root shape \<noteq> 0"
  shows "\<exists>s. analyzed ir ctx shape s"
proof -
  note a = analyzeDispatch_Inr [OF assms(1-3)]
  have "ds_root shape \<in> os_op ` set (ds_operations shape)"
    using a(1) assms(4) by (simp add: shape_consistent_def Let_def)
  then obtain s where "findOpShape shape (ds_root shape) = Some s"
    using findOpShape_None [of shape "ds_root shape"] by fastforce
  then show ?thesis using a assms(4) findOpShape_Some by (fastforce simp: analyzed_def)
qed

text \<open>How planning a function can fail.\<close>

definition planning_failure :: "planner_ir \<Rightarrow> nat list \<Rightarrow> bool \<Rightarrow> plan_error \<Rightarrow> bool" where
  "planning_failure ir ops hmx e \<longleftrightarrow>
     e = NoRootOperation \<or>
     (\<exists>op\<in>set ops. e = UnexpectedConfiguredOp op \<or> e = InconsistentLoopRank op \<or> e = MapRankMismatch op) \<or>
     hmx \<and> (vtcm_error e \<or> hardware_error e)"

lemma hmx_pipeline: "expected_pipeline ir ctx op = HmxMatmulExpert \<Longrightarrow> enableHmxMatmul (pc_options ctx)"
  by (auto simp: expected_pipeline_def split: if_splits)

text \<open>What a run leaves: the entry point has its translation info, nothing else but operations of
  the dispatch is configured.\<close>

definition configured :: "nat \<Rightarrow> nat list \<Rightarrow> ir_config \<Rightarrow> ir_config \<Rightarrow> bool" where
  "configured f ops cfg cfg' \<longleftrightarrow>
     translationInfo cfg' f \<noteq> None \<and> (\<forall>g. g \<noteq> f \<longrightarrow> translationInfo cfg' g = translationInfo cfg g) \<and>
     (\<forall>op. op \<notin> set ops \<longrightarrow> loweringConfig cfg' op = loweringConfig cfg op)"

lemma default_pipeline_configured:
  "translationInfo cfg f = None \<Longrightarrow> acceptsTranslationInfo cfg f \<Longrightarrow>
   \<exists>cfg'. configureDefaultPipeline f cfg = (Inr (), cfg') \<and> configured f ops cfg cfg'"
  by (simp add: configureDefaultPipeline_def applyEncodedDispatchPlan_def configured_def)

lemma configureDispatch_outcome:
  assumes ops: "dispatch_ops ir \<lparr>pc_entryPoint = f, pc_target = getTargetInfo ir f, pc_options = options\<rparr> (getComputeOps ir f)"
    and laws: "planner_laws ir" and acc: "acceptsTranslationInfo cfg f"
  shows "(\<exists>e. configureDispatch ir f options cfg = (Inl e, cfg) \<and>
        planning_failure ir (getComputeOps ir f) (enableHmxMatmul options) e) \<or>
    (\<exists>cfg'. configureDispatch ir f options cfg = (Inr (), cfg') \<and> configured f (getComputeOps ir f) cfg cfg')"
proof (cases "translationInfo cfg f")
  case (Some t)
  then show ?thesis by (simp add: configureDispatch_def configured_def)
next
  case None
  let ?ops = "getComputeOps ir f" and ?ctx = "\<lparr>pc_entryPoint = f, pc_target = getTargetInfo ir f, pc_options = options\<rparr>"
  have al: "analysis_laws ir" using laws by (simp add: planner_laws_def)
  note default = default_pipeline_configured [OF None acc, of ?ops]
  show ?thesis
  proof (cases "\<not> hasSingleBlockBody ir f \<or> ?ops = []")
    case True
    then show ?thesis using None default by (auto simp: configureDispatch_def Let_def)
  next
    case False
    note start = False None
    show ?thesis
    proof (cases "find (\<lambda>op. loweringConfig cfg op \<noteq> None) ?ops")
      case (Some op)
      then have "op \<in> set ?ops" by (auto simp: find_Some_iff)
      with Some start show ?thesis by (auto simp: configureDispatch_def planning_failure_def Let_def)
    next
      case None
      then have free: "\<forall>op\<in>set ?ops. loweringConfig cfg op = None" by (auto simp: find_None_iff)
      have run: "configureDispatch ir f options cfg = (case analyzeDispatch ir ?ctx ?ops of Inl e \<Rightarrow> (Inl e, cfg)
          | Inr shape \<Rightarrow> if ds_root shape = 0 then configureDefaultPipeline f cfg
              else case planDispatch ir ?ctx shape of Inl e \<Rightarrow> (Inl e, cfg) | Inr encoded \<Rightarrow> applyEncodedDispatchPlan encoded cfg)"
        using None start by (simp add: configureDispatch_def Let_def)
      show ?thesis
      proof (cases "analyzeDispatch ir ?ctx ?ops")
        case (Inl e)
        have "distinct ?ops" using ops by (simp add: dispatch_ops_def)
        from analyzeDispatch_total(2) [OF this al Inl] have "planning_failure ir ?ops (enableHmxMatmul options) e"
          by (auto simp: planning_failure_def)
        then show ?thesis using Inl by (simp add: run)
      next
        case (Inr shape)
        show ?thesis
        proof (cases "ds_root shape = 0")
          case True
          then show ?thesis using default Inr by (simp add: run)
        next
          case False
          obtain s where an: "analyzed ir ?ctx shape s" using analyzed_root [OF ops al Inr False] by blast
          note out = planDispatch_outcome [OF an laws target_ok_default]
          show ?thesis
          proof (cases "planDispatch ir ?ctx shape")
            case (Inl e)
            then have "planning_failure ir ?ops (enableHmxMatmul options) e"
              using out hmx_pipeline [of ir ?ctx] by (auto simp: planning_failure_def)
            then show ?thesis using Inl Inr False by (simp add: run)
          next
            case (Inr ep)
            then have cp: "complete_plan ir ?ctx shape ep" using out by simp
            have in_ops: "op \<in> set ?ops" if op_in: "op \<in> fst ` set (ep_operations ep)" for op
            proof -
              obtain s where "findOpShape shape op = Some s" using op_in cp by (auto simp: complete_plan_def)
              then have "op \<in> set (map os_op (ds_operations shape))" using findOpShape_Some by fastforce
              also have "map os_op (ds_operations shape) = filter (isEligible ir) ?ops"
                by (rule analyzeDispatch_Inr(3) [OF ops al \<open>analyzeDispatch ir ?ctx ?ops = Inr shape\<close>])
              finally show ?thesis by simp
            qed
            have f: "ep_entryPoint ep = f" "distinct (map fst (ep_operations ep))" using cp by (simp_all add: complete_plan_def)
            then have "applyEncodedDispatchPlan ep cfg = (Inr (),
                cfg\<lparr>translationInfo := (translationInfo cfg)(f := Some (ep_translationInfo ep)),
                  loweringConfig := \<lambda>op. case map_of (ep_operations ep) op of None \<Rightarrow> loweringConfig cfg op | Some c \<Rightarrow> Some c\<rparr>)"
              using applyEncodedDispatchPlan_Inr [of ep cfg] start(2) acc in_ops free by simp
            moreover have "map_of (ep_operations ep) op = None" if "op \<notin> set ?ops" for op
              using that in_ops by (auto simp: map_of_eq_None_iff)
            ultimately show ?thesis
              using Inr \<open>analyzeDispatch ir ?ctx ?ops = Inr shape\<close> False by (simp add: run configured_def)
          qed
        qed
      qed
    qed
  qed
qed

section \<open>Properties\<close>

text \<open>
  C13: planning a function is all or nothing, and self-consistent. It fails only on an operation
  that is already configured, on a dispatch that cannot be analyzed, or, with HMX enabled, when the
  VTCM stage cannot be planned or a hardware tile does not fit the root's, and then the IR is
  unchanged. In particular no plan that the planner
  makes is rejected by its own verification or encoding, and no assertion fires. Otherwise the
  function has a translation info, and no other function and no operation outside the dispatch
  changed.
\<close>

theorem configureDispatch_correct:
  assumes "dispatch_ops ir \<lparr>pc_entryPoint = f, pc_target = getTargetInfo ir f, pc_options = options\<rparr> (getComputeOps ir f)"
    and "planner_laws ir" and "acceptsTranslationInfo cfg f"
  shows "case configureDispatch ir f options cfg of
      (Inl e, cfg') \<Rightarrow> cfg' = cfg \<and> planning_failure ir (getComputeOps ir f) (enableHmxMatmul options) e
    | (Inr _, cfg') \<Rightarrow> configured f (getComputeOps ir f) cfg cfg'"
  using configureDispatch_outcome [OF assms] by (auto split: prod.splits sum.splits)

text \<open>
  C17: for an analyzed dispatch with a root, planning gives the pipeline that the root alone
  determines and a complete plan: each configured operation is one of the dispatch, its
  configuration passes MLIR's verifier and has its rank, its merged vector sizes exist and are its
  compute tile, the distribution, cache, VTCM and HMX stages are on the root alone, and the first is
  there whenever the pipeline finds its root by it. It fails only for the HMX pipeline, whose VTCM stage and hardware tiles may not fit.
\<close>

theorem planDispatch_correct:
  assumes "analyzed ir ctx shape s" and "planner_laws ir" and "target_ok ctx"
  shows "case planDispatch ir ctx shape of
      Inl e \<Rightarrow> (vtcm_error e \<or> hardware_error e) \<and> expected_pipeline ir ctx (ds_root shape) = HmxMatmulExpert
    | Inr ep \<Rightarrow> complete_plan ir ctx shape ep"
  by (rule planDispatch_outcome [OF assms])

text \<open>The concrete dispatch, with a tile search that keeps its law.\<close>

definition sample_planner :: planner_ir where
  "sample_planner = sample_ir\<lparr>determineTileSizes := \<lambda>op b ds. if op = 2 then Some [64, 96, 128] else None\<rparr>"

lemma sample_fed_values: "finite (fed_values sample_planner op)"
proof -
  have "fed_values sample_planner op \<subseteq> {99, 100, 101, 102, 103}"
    unfolding fed_values_def
    by (rule items_closed) (auto simp: rootInputs_def sample_planner_def sample_simps split: if_splits)
  then show ?thesis using finite_subset by blast
qed

lemma sample_planner_laws: "planner_laws sample_planner"
proof -
  have "ir_laws sample_planner"
    using sample_ir_laws by (simp add: ir_laws_def sample_planner_def isSupportedConvolution_def is2DConv_def
        is2DDepthwiseConv_def is2DPooling_def)
  moreover have "analysis_laws sample_planner"
    using sample_analysis_laws by (simp add: analysis_laws_def sample_planner_def)
  ultimately show ?thesis
    using sample_tile_search_laws sample_fed_values by (simp add: planner_laws_def sample_planner_def)
qed

definition sample_ir_config :: ir_config where
  "sample_ir_config = \<lparr>translationInfo = \<lambda>_. None, loweringConfig = \<lambda>_. None, acceptsTranslationInfo = \<lambda>_. True\<rparr>"

theorem configureDispatch_correct_witness:
  "\<exists>r cfg'. configureDispatch sample_planner 7 (pc_options sample_context) sample_ir_config = (r, cfg') \<and>
     (r = Inr () \<longrightarrow> translationInfo cfg' 7 \<noteq> None) \<and> translationInfo cfg' 8 = None \<and> loweringConfig cfg' 5 = None"
proof -
  have ops: "dispatch_ops sample_planner \<lparr>pc_entryPoint = 7, pc_target = getTargetInfo sample_planner 7,
      pc_options = pc_options sample_context\<rparr> (getComputeOps sample_planner 7)"
    by (simp add: dispatch_ops_def sample_planner_def sample_simps)
  have acc: "acceptsTranslationInfo sample_ir_config 7" by (simp add: sample_ir_config_def)
  have "getComputeOps sample_planner 7 = [1, 2]" by (simp add: sample_planner_def sample_simps)
  with configureDispatch_correct [OF ops sample_planner_laws acc] show ?thesis
    by (auto simp: configured_def sample_ir_config_def split: prod.splits sum.splits)
qed

lemma sample_analyzed: "analyzed sample_planner sample_context sample_shape sample_root_shape"
proof -
  have "shape_consistent sample_planner sample_context sample_shape"
    by (auto simp: shape_consistent_def op_consistent_def referenced_globals_def sample_planner_def sample_simps
        findOpShape_def kDynamic_def upt_rec Let_def less_Suc_eq nth_Cons')
  moreover have "shape_ok sample_planner sample_shape"
    using sample_shape_ok by (simp add: shape_ok_def op_shape_ok_def sample_planner_def)
  ultimately show ?thesis using sample_root_found by (simp add: analyzed_def sample_simps)
qed

theorem planDispatch_correct_witness:
  "\<exists>r. planDispatch sample_planner sample_context sample_shape = r \<and>
     (\<exists>ep. r = Inr ep \<and> ti_pipeline (ep_translationInfo ep) = MultiTilingExpert)"
proof -
  have "expected_pipeline sample_planner sample_context (ds_root sample_shape) = MultiTilingExpert"
    by (simp add: expected_pipeline_def sample_planner_def sample_simps isBufferLikeCopy_def isSupportedConvolution_def
        is2DConv_def is2DDepthwiseConv_def is2DPooling_def analyzeSupportedContraction_def)
  with planDispatch_correct [OF sample_analyzed sample_planner_laws sample_target_ok] show ?thesis
    by (auto simp: complete_plan_def split: sum.splits)
qed

end
