(* ===== verification/Dsp_Status.thy ===== *)
theory Dsp_Status
  imports Prelude
begin

text \<open>The status codes of the DSP runtime and of the host's IREE runtime.\<close>

datatype aee = AEE_SUCCESS | AEE_EFAILED | AEE_ENOMEMORY | AEE_EBADPARM | AEE_EBADITEM
  | AEE_EINCOMPLETEITEM | AEE_EWOULDBLOCK | AEE_EUNABLETOLOAD | AEE_ERESOURCENOTFOUND
  | AEE_EUNSUPPORTED | AEE_EVERSIONNOTSUPPORT

datatype iree_status = OK | CANCELLED | UNKNOWN | INVALID_ARGUMENT | DEADLINE_EXCEEDED | NOT_FOUND
  | ALREADY_EXISTS | PERMISSION_DENIED | RESOURCE_EXHAUSTED | FAILED_PRECONDITION | ABORTED
  | OUT_OF_RANGE | UNIMPLEMENTED | INTERNAL | UNAVAILABLE | UNAUTHENTICATED | DEFERRED | INCOMPATIBLE

text \<open>\<open>iree_hal_hexagon_make_status_from_dsp_err\<close> on the codes that the DSP runtime returns.\<close>

fun status_from_dsp_err :: "aee \<Rightarrow> iree_status" where
  "status_from_dsp_err AEE_SUCCESS = OK"
| "status_from_dsp_err AEE_EFAILED = UNKNOWN"
| "status_from_dsp_err AEE_ENOMEMORY = RESOURCE_EXHAUSTED"
| "status_from_dsp_err AEE_EBADPARM = INVALID_ARGUMENT"
| "status_from_dsp_err AEE_EBADITEM = OUT_OF_RANGE"
| "status_from_dsp_err AEE_EINCOMPLETEITEM = INVALID_ARGUMENT"
| "status_from_dsp_err AEE_EWOULDBLOCK = DEFERRED"
| "status_from_dsp_err AEE_EUNABLETOLOAD = FAILED_PRECONDITION"
| "status_from_dsp_err AEE_ERESOURCENOTFOUND = NOT_FOUND"
| "status_from_dsp_err AEE_EUNSUPPORTED = INCOMPATIBLE"
| "status_from_dsp_err AEE_EVERSIONNOTSUPPORT = INCOMPATIBLE"

end
