(* ===== verification/Hold_Cache.thy ===== *)
theory Hold_Cache
  imports Dsp_Status
begin

text \<open>
  What a client of a cache of shared allocations relies on: acquiring holds an allocation once more
  or fails and holds nothing more; releasing holds it once less. The residency cache of a DSP
  session provides it, the execution of a command buffer uses it.
\<close>

locale hold_cache =
  fixes ok :: "'r \<Rightarrow> bool"
    and acquire :: "'k \<Rightarrow> 'n \<Rightarrow> 'r \<Rightarrow> (aee + 'a) \<times> 'r"
    and release :: "'k \<Rightarrow> 'r \<Rightarrow> 'r"
    and holds :: "'r \<Rightarrow> 'k \<Rightarrow> nat"
    and limit :: nat
  assumes acquire_ok: "ok r \<Longrightarrow> holds r k < limit \<Longrightarrow> acquire k n r = (res, r') \<Longrightarrow>
      ok r' \<and> (case res of Inl e \<Rightarrow> e \<noteq> AEE_SUCCESS \<and> holds r' = holds r
                | Inr a \<Rightarrow> holds r' = (holds r)(k := holds r k + 1))"
    and release_ok: "ok r \<Longrightarrow> ok (release k r) \<and> holds (release k r) = (holds r)(k := holds r k - 1)"
begin

lemma acquire_Inr:
  "acquire k n r = (Inr a, r') \<Longrightarrow> ok r \<Longrightarrow> holds r k < limit \<Longrightarrow>
     ok r' \<and> holds r' = (holds r)(k := holds r k + 1)"
  using acquire_ok [of r k n "Inr a" r'] by simp

lemma acquire_Inl:
  "acquire k n r = (Inl e, r') \<Longrightarrow> ok r \<Longrightarrow> holds r k < limit \<Longrightarrow>
     ok r' \<and> holds r' = holds r \<and> e \<noteq> AEE_SUCCESS"
  using acquire_ok [of r k n "Inl e" r'] by simp

lemma release_all:
  "ok r \<Longrightarrow> ok (fold release ks r) \<and> holds (fold release ks r) k = holds r k - count_list ks k"
proof (induction ks arbitrary: r)
  case (Cons x ks)
  from release_ok [OF Cons.prems, of x] Cons.IH [of "release x r"] show ?case by auto
qed simp

lemma release_acquired:
  "acquire k n r = (Inr a, r') \<Longrightarrow> ok r \<Longrightarrow> holds r k < limit \<Longrightarrow>
     ok (release k r') \<and> holds (release k r') = holds r"
  using acquire_Inr [of k n r a r'] release_ok [of r' k] by auto

end

text \<open>
  The owner of the allocations also asks the cache to forget one, and relies on what stays mapped:
  an acquire maps at most its own allocation, a forgotten one is mapped no more unless it is held.
\<close>

locale forget_cache = hold_cache ok acquire release holds limit
  for ok :: "'r \<Rightarrow> bool"
    and acquire :: "'k \<Rightarrow> 'n \<Rightarrow> 'r \<Rightarrow> (aee + 'a) \<times> 'r"
    and release :: "'k \<Rightarrow> 'r \<Rightarrow> 'r"
    and holds :: "'r \<Rightarrow> 'k \<Rightarrow> nat"
    and limit :: nat +
  fixes forget :: "'k \<Rightarrow> 'r \<Rightarrow> bool \<times> 'r"
    and mapped :: "'r \<Rightarrow> 'k set"
  assumes acquire_mapped: "ok r \<Longrightarrow> acquire k n r = (res, r') \<Longrightarrow> mapped r' \<subseteq> insert k (mapped r)"
    and release_mapped: "ok r \<Longrightarrow> mapped (release k r) = mapped r"
    and forget_ok: "ok r \<Longrightarrow> forget k r = (used, r') \<Longrightarrow>
      ok r' \<and> holds r' = holds r \<and> mapped r' \<subseteq> mapped r \<and> (used \<longleftrightarrow> holds r k > 0) \<and> (\<not> used \<longrightarrow> k \<notin> mapped r')"
begin

lemma forgotten_not_mapped:
  "ok r \<Longrightarrow> holds r k = 0 \<Longrightarrow> forget k r = (used, r') \<Longrightarrow> \<not> used \<and> k \<notin> mapped r'"
  using forget_ok [of r k used r'] by simp

lemma client_keeps_mapped_within:
  "ok r \<Longrightarrow> mapped r \<subseteq> S \<Longrightarrow> k \<in> S \<Longrightarrow> acquire k n r = (res, r') \<Longrightarrow> mapped r' \<subseteq> S"
  using acquire_mapped [of r k n res r'] by auto

lemma released_and_forgotten:
  "acquire k n r = (Inr a, r') \<Longrightarrow> ok r \<Longrightarrow> holds r k = 0 \<Longrightarrow> 0 < limit \<Longrightarrow>
     forget k (release k r') = (used, r'') \<Longrightarrow> \<not> used \<and> k \<notin> mapped r'' \<and> mapped r'' \<subseteq> insert k (mapped r)"
  using release_acquired [of k n r a r'] acquire_Inr [of k n r a r'] acquire_mapped [of r k n "Inr a" r']
    release_mapped [of r' k] forget_ok [of "release k r'" k used r'']
  by auto

end

end
