(* ===== verification/Residency.thy ===== *)
theory Residency
  imports Hold_Cache
begin

text \<open>
  The residency cache of a DSP session: \<open>plugins/runtime/hexagon/dsp/residency.c\<close>. It maps shared
  allocations, named by their file descriptors, into the 32-bit address space of the DSP when a
  command uses them, counts the uses, and unmaps unused ones, least recently used first, when space
  is needed. Sizes and the use counter are 64-bit words, addresses and reference counts 32-bit
  words, and every sum wraps as in the code. The operations hold the cache's mutex, so concurrent
  use is a sequence of operations.

  Mapping, unmapping, cache maintenance and \<open>realloc\<close> belong to the SDK and the C library. Their
  answers are a parameter, functions of everything that happened before; what happened is part of
  the state, the newest event first.
\<close>

section \<open>The environment\<close>

datatype cache_op = FLUSH_INVALIDATE | INVALIDATE

datatype dsp_event =
    Mmap i32 u64 "usize option"
  | Munmap usize u64 bool
  | CacheClean usize u64 cache_op bool
  | Realloc usize bool

record dsp_env =
  HAP_mmap2 :: "dsp_event list \<Rightarrow> i32 \<Rightarrow> u64 \<Rightarrow> usize option"
  HAP_munmap2 :: "dsp_event list \<Rightarrow> usize \<Rightarrow> u64 \<Rightarrow> bool"
  qurt_mem_cache_clean :: "dsp_event list \<Rightarrow> usize \<Rightarrow> u64 \<Rightarrow> cache_op \<Rightarrow> bool"
  realloc :: "dsp_event list \<Rightarrow> usize \<Rightarrow> bool"

text \<open>The ranges mapped after a history.\<close>

fun mapped_ranges :: "dsp_event list \<Rightarrow> (usize \<times> u64) set" where
  "mapped_ranges [] = {}"
| "mapped_ranges (Mmap fd n (Some a) # h) = insert (a, n) (mapped_ranges h)"
| "mapped_ranges (Munmap a n True # h) = mapped_ranges h - {(a, n)}"
| "mapped_ranges (_ # h) = mapped_ranges h"

definition overlap :: "usize \<times> u64 \<Rightarrow> usize \<times> u64 \<Rightarrow> bool" where
  "overlap r s \<longleftrightarrow> {unat (fst r) ..< unat (fst r) + unat (snd r)} \<inter> {unat (fst s) ..< unat (fst s) + unat (snd s)} \<noteq> {}"

text \<open>
  What the cache relies on: a successful mapping is a page-aligned range of the address space,
  not at address 0, that overlaps nothing mapped before.
\<close>

definition mmap_law :: "dsp_env \<Rightarrow> bool" where
  "mmap_law env \<longleftrightarrow> (\<forall>h fd n a. HAP_mmap2 env h fd n = Some a \<longrightarrow>
     a \<noteq> 0 \<and> 4096 dvd unat a \<and> unat a + unat n \<le> 2 ^ 32 \<and>
     (\<forall>r\<in>mapped_ranges h. \<not> overlap (a, n) r))"

section \<open>The code\<close>

record residency_entry =
  re_fd :: i32
  re_size :: u64
  re_vaddr :: usize
  re_ref_count :: u32
  re_last_use :: u64

record residency =
  rs_budget :: u64
  mapped_bytes :: u64
  in_use_bytes :: u64
  use_counter :: u64
  rs_entries :: "residency_entry list"
  rs_capacity :: u32
  rs_history :: "dsp_event list"

definition log_event :: "dsp_event \<Rightarrow> residency \<Rightarrow> residency" where
  "log_event ev r = r\<lparr>rs_history := ev # rs_history r\<rparr>"

definition residency_create :: "dsp_event list \<Rightarrow> residency" where
  "residency_create h = \<lparr>rs_budget = 0, mapped_bytes = 0, in_use_bytes = 0, use_counter = 0,
     rs_entries = [], rs_capacity = 0, rs_history = h\<rparr>"

definition residency_find :: "residency \<Rightarrow> i32 \<Rightarrow> nat option" where
  "residency_find r fd = find (\<lambda>idx. re_fd (rs_entries r ! idx) = fd) [0..<length (rs_entries r)]"

definition residency_cache_op :: "dsp_env \<Rightarrow> residency_entry \<Rightarrow> cache_op \<Rightarrow> residency \<Rightarrow> bool \<times> residency" where
  "residency_cache_op env e op r =
     (let ok = qurt_mem_cache_clean env (rs_history r) (re_vaddr e) (re_size e) op
      in (ok, log_event (CacheClean (re_vaddr e) (re_size e) op ok) r))"

definition unmap_entry :: "dsp_env \<Rightarrow> nat \<Rightarrow> residency \<Rightarrow> residency" where
  "unmap_entry env idx r =
     (let e = rs_entries r ! idx;
          r1 = snd (residency_cache_op env e FLUSH_INVALIDATE r);
          ok = HAP_munmap2 env (rs_history r1) (re_vaddr e) (re_size e);
          r2 = log_event (Munmap (re_vaddr e) (re_size e) ok) r1
      in r2\<lparr>mapped_bytes := mapped_bytes r2 - re_size e, rs_entries := swap_remove (rs_entries r2) idx\<rparr>)"

definition lru_step :: "residency_entry list \<Rightarrow> nat \<Rightarrow> nat option \<Rightarrow> nat option" where
  "lru_step es idx lru =
     (if re_ref_count (es ! idx) = 0 \<and>
         (case lru of None \<Rightarrow> True | Some l \<Rightarrow> re_last_use (es ! idx) < re_last_use (es ! l))
      then Some idx else lru)"

definition evict_one :: "dsp_env \<Rightarrow> residency \<Rightarrow> residency option" where
  "evict_one env r =
     (case fold (lru_step (rs_entries r)) [0..<length (rs_entries r)] None of
        None \<Rightarrow> None
      | Some lru \<Rightarrow> Some (unmap_entry env lru r))"

lemma entries_unmap_entry [simp]:
  "rs_entries (unmap_entry env idx r) = swap_remove (rs_entries r) idx"
  by (simp add: unmap_entry_def Let_def residency_cache_op_def log_event_def)

lemma evict_one_shrinks: "evict_one env r = Some r' \<Longrightarrow> length (rs_entries r') < length (rs_entries r)"
proof -
  assume e: "evict_one env r = Some r'"
  then have "rs_entries r \<noteq> []" by (auto simp: evict_one_def)
  with e show ?thesis by (auto simp: evict_one_def split: option.splits)
qed

text \<open>\<open>hexagon_dsp_residency_destroy\<close>: what can be unmapped is.\<close>

function evict_all :: "dsp_env \<Rightarrow> residency \<Rightarrow> residency" where
  "evict_all env r = (case evict_one env r of None \<Rightarrow> r | Some r' \<Rightarrow> evict_all env r')"
  by pat_completeness auto
termination by (relation "measure (length \<circ> rs_entries \<circ> snd)") (auto simp: evict_one_shrinks)

declare evict_all.simps [simp del]

definition residency_destroy :: "dsp_env \<Rightarrow> residency \<Rightarrow> residency" where
  "residency_destroy env r = evict_all env r"

definition residency_set_budget :: "u64 \<Rightarrow> residency \<Rightarrow> aee \<times> residency" where
  "residency_set_budget budget_bytes r =
     (if budget_bytes = 0 then (AEE_EBADPARM, r) else (AEE_SUCCESS, r\<lparr>rs_budget := budget_bytes\<rparr>))"

definition out_of_room :: "residency \<Rightarrow> aee" where
  "out_of_room r = (if in_use_bytes r > 0 then AEE_EWOULDBLOCK else AEE_ENOMEMORY)"

text \<open>The two loops of \<open>hexa_residency_acquire_locked\<close>: within the budget, and until a mapping is
  possible.\<close>

function make_room :: "dsp_env \<Rightarrow> u64 \<Rightarrow> residency \<Rightarrow> aee \<times> residency" where
  "make_room env alloc_size r =
     (if mapped_bytes r + alloc_size > rs_budget r
      then (case evict_one env r of None \<Rightarrow> (out_of_room r, r) | Some r' \<Rightarrow> make_room env alloc_size r')
      else (AEE_SUCCESS, r))"
  by pat_completeness auto
termination by (relation "measure (length \<circ> rs_entries \<circ> snd \<circ> snd)") (auto simp: evict_one_shrinks)

function map_retry :: "dsp_env \<Rightarrow> i32 \<Rightarrow> u64 \<Rightarrow> residency \<Rightarrow> (aee + usize) \<times> residency" where
  "map_retry env fd alloc_size r =
     (let res = HAP_mmap2 env (rs_history r) fd alloc_size;
          r1 = log_event (Mmap fd alloc_size res) r
      in case res of
           Some vaddr \<Rightarrow> (Inr vaddr, r1)
         | None \<Rightarrow> (case evict_one env r1 of
               None \<Rightarrow> (Inl (out_of_room r1), r1)
             | Some r' \<Rightarrow> map_retry env fd alloc_size r'))"
  by pat_completeness auto
termination
  by (relation "measure (length \<circ> rs_entries \<circ> snd \<circ> snd \<circ> snd)")
    (auto dest: evict_one_shrinks simp: log_event_def)

declare make_room.simps [simp del] map_retry.simps [simp del]

text \<open>An entry has 32 bytes on the DSP.\<close>

definition grow_entries :: "dsp_env \<Rightarrow> residency \<Rightarrow> bool \<times> residency" where
  "grow_entries env r =
     (if of_nat (length (rs_entries r)) = rs_capacity r
      then (let capacity = (if rs_capacity r \<noteq> 0 then 2 * rs_capacity r else 64);
                ok = realloc env (rs_history r) (capacity * 32);
                r1 = log_event (Realloc (capacity * 32) ok) r
            in if ok then (True, r1\<lparr>rs_capacity := capacity\<rparr>) else (False, r1))
      else (True, r))"

definition residency_acquire :: "dsp_env \<Rightarrow> i32 \<Rightarrow> u64 \<Rightarrow> residency \<Rightarrow> (aee + usize) \<times> residency" where
  "residency_acquire env fd alloc_size r =
     (case residency_find r fd of
        Some idx \<Rightarrow>
          (let e = rs_entries r ! idx;
               r1 = (if re_ref_count e = 0 then r\<lparr>in_use_bytes := in_use_bytes r + re_size e\<rparr> else r);
               e1 = e\<lparr>re_ref_count := re_ref_count e + 1, re_last_use := use_counter r + 1\<rparr>
           in (Inr (re_vaddr e), r1\<lparr>use_counter := use_counter r + 1, rs_entries := (rs_entries r)[idx := e1]\<rparr>))
      | None \<Rightarrow>
          if alloc_size = 0 then (Inl AEE_EBADPARM, r)
          else case make_room env alloc_size r of (err, r1) \<Rightarrow>
            if err \<noteq> AEE_SUCCESS then (Inl err, r1)
            else case grow_entries env r1 of (ok, r2) \<Rightarrow>
              if \<not> ok then (Inl AEE_ENOMEMORY, r2)
              else case map_retry env fd alloc_size r2 of
                (Inl e, r3) \<Rightarrow> (Inl e, r3)
              | (Inr vaddr, r3) \<Rightarrow>
                  (Inr vaddr, r3\<lparr>use_counter := use_counter r3 + 1,
                     rs_entries := rs_entries r3 @ [\<lparr>re_fd = fd, re_size = alloc_size, re_vaddr = vaddr,
                       re_ref_count = 1, re_last_use = use_counter r3 + 1\<rparr>],
                     mapped_bytes := mapped_bytes r3 + alloc_size,
                     in_use_bytes := in_use_bytes r3 + alloc_size\<rparr>))"

definition residency_release :: "i32 \<Rightarrow> residency \<Rightarrow> residency" where
  "residency_release fd r =
     (case residency_find r fd of
        None \<Rightarrow> r
      | Some idx \<Rightarrow>
          let e = rs_entries r ! idx
          in if re_ref_count e > 0
             then let e1 = e\<lparr>re_ref_count := re_ref_count e - 1\<rparr>;
                      r1 = r\<lparr>rs_entries := (rs_entries r)[idx := e1]\<rparr>
                  in if re_ref_count e1 = 0 then r1\<lparr>in_use_bytes := in_use_bytes r1 - re_size e\<rparr> else r1
             else r)"

text \<open>The address of the range is computed in 32 bits.\<close>

definition invalidate_if_mapped ::
  "dsp_env \<Rightarrow> i32 \<Rightarrow> u64 \<Rightarrow> u64 \<Rightarrow> bool \<Rightarrow> residency \<Rightarrow> aee \<times> residency" where
  "invalidate_if_mapped env fd offset len flush r =
     (case residency_find r fd of
        None \<Rightarrow> (AEE_SUCCESS, r)
      | Some idx \<Rightarrow>
          if len > 0
          then let addr = re_vaddr (rs_entries r ! idx) + ucast offset;
                   op = (if flush then FLUSH_INVALIDATE else INVALIDATE);
                   ok = qurt_mem_cache_clean env (rs_history r) addr len op
               in (if ok then AEE_SUCCESS else AEE_EFAILED, log_event (CacheClean addr len op ok) r)
          else (AEE_SUCCESS, r))"

definition residency_forget :: "dsp_env \<Rightarrow> i32 \<Rightarrow> residency \<Rightarrow> bool \<times> residency" where
  "residency_forget env fd r =
     (case residency_find r fd of
        None \<Rightarrow> (False, r)
      | Some idx \<Rightarrow> if re_ref_count (rs_entries r ! idx) > 0 then (True, r) else (False, unmap_entry env idx r))"

section \<open>Accounting\<close>

definition entry_range :: "residency_entry \<Rightarrow> usize \<times> u64" where
  "entry_range e = (re_vaddr e, re_size e)"

definition entry_ok :: "dsp_event list \<Rightarrow> residency_entry \<Rightarrow> bool" where
  "entry_ok h e \<longleftrightarrow> re_size e \<noteq> 0 \<and> re_vaddr e \<noteq> 0 \<and> 4096 dvd unat (re_vaddr e) \<and>
     unat (re_vaddr e) + unat (re_size e) \<le> 2 ^ 32 \<and> entry_range e \<in> mapped_ranges h"

text \<open>Every range is flushed and invalidated immediately before it is unmapped.\<close>

fun unmaps_flushed :: "dsp_event list \<Rightarrow> bool" where
  "unmaps_flushed [] = True"
| "unmaps_flushed (Munmap a n ok # h) =
     ((case h of CacheClean b m op c # _ \<Rightarrow> b = a \<and> m = n \<and> op = FLUSH_INVALIDATE | _ \<Rightarrow> False) \<and> unmaps_flushed h)"
| "unmaps_flushed (_ # h) = unmaps_flushed h"

definition in_use :: "residency_entry \<Rightarrow> bool" where
  "in_use e \<longleftrightarrow> re_ref_count e \<noteq> 0"

definition residency_ok :: "residency \<Rightarrow> bool" where
  "residency_ok r \<longleftrightarrow>
     distinct (map re_fd (rs_entries r)) \<and>
     mapped_bytes r = sum_list (map re_size (rs_entries r)) \<and>
     in_use_bytes r = sum_list (map re_size (filter in_use (rs_entries r))) \<and>
     (\<forall>e\<in>set (rs_entries r). entry_ok (rs_history r) e) \<and>
     (\<forall>e\<in>set (rs_entries r). \<forall>e'\<in>set (rs_entries r). re_fd e \<noteq> re_fd e' \<longrightarrow> \<not> overlap (entry_range e) (entry_range e')) \<and>
     length (rs_entries r) \<le> unat (rs_capacity r) \<and> unat (rs_capacity r) \<le> 2 ^ 21 \<and>
     unmaps_flushed (rs_history r)"

text \<open>How often an allocation is held.\<close>

definition holds :: "residency \<Rightarrow> i32 \<Rightarrow> nat" where
  "holds r fd = (case find (\<lambda>e. re_fd e = fd) (rs_entries r) of None \<Rightarrow> 0 | Some e \<Rightarrow> unat (re_ref_count e))"

named_theorems residency_simps \<open>fields of updated residency states\<close>

lemma log_event_fields [residency_simps]:
  "rs_budget (log_event ev r) = rs_budget r" "mapped_bytes (log_event ev r) = mapped_bytes r"
  "in_use_bytes (log_event ev r) = in_use_bytes r" "use_counter (log_event ev r) = use_counter r"
  "rs_entries (log_event ev r) = rs_entries r" "rs_capacity (log_event ev r) = rs_capacity r"
  "rs_history (log_event ev r) = ev # rs_history r"
  by (simp_all add: log_event_def)

lemma residency_find_Some:
  "residency_find r fd = Some idx \<Longrightarrow> idx < length (rs_entries r) \<and> re_fd (rs_entries r ! idx) = fd"
  by (auto simp: residency_find_def find_Some_iff)

lemma residency_find_None:
  "residency_find r fd = None \<longleftrightarrow> fd \<notin> re_fd ` set (rs_entries r)"
  by (fastforce simp: residency_find_def find_None_iff in_set_conv_nth image_iff)

lemma holds_entry:
  assumes "distinct (map re_fd (rs_entries r))" and "e \<in> set (rs_entries r)"
  shows "holds r (re_fd e) = unat (re_ref_count e)"
proof -
  obtain e' where e': "find (\<lambda>x. re_fd x = re_fd e) (rs_entries r) = Some e'"
    using assms(2) by (metis (mono_tags, lifting) find_None_iff not_None_eq)
  then have "e' \<in> set (rs_entries r)" and "re_fd e' = re_fd e" by (auto simp: find_Some_iff)
  with assms have "e' = e" by (meson distinct_map inj_onD)
  with e' show ?thesis by (simp add: holds_def)
qed

lemma holds_absent: "fd \<notin> re_fd ` set (rs_entries r) \<Longrightarrow> holds r fd = 0"
proof -
  assume "fd \<notin> re_fd ` set (rs_entries r)"
  then have "find (\<lambda>e. re_fd e = fd) (rs_entries r) = None" by (auto simp: find_None_iff)
  then show ?thesis by (simp add: holds_def)
qed

lemma overlap_self: "entry_ok h e \<Longrightarrow> overlap (entry_range e) (entry_range e)"
  by (auto simp: entry_ok_def overlap_def entry_range_def unat_eq_0 [symmetric] simp del: unat_eq_0)

text \<open>What making room changes: unused entries may go, everything else stays.\<close>

definition evicted :: "residency \<Rightarrow> residency \<Rightarrow> bool" where
  "evicted r r' \<longleftrightarrow> set (rs_entries r') \<subseteq> set (rs_entries r) \<and>
     (\<forall>e\<in>set (rs_entries r). in_use e \<longrightarrow> e \<in> set (rs_entries r')) \<and>
     rs_budget r' = rs_budget r \<and> use_counter r' = use_counter r \<and> in_use_bytes r' = in_use_bytes r \<and>
     length (rs_entries r') \<le> length (rs_entries r)"

lemma evicted_refl [simp]: "evicted r r"
  by (simp add: evicted_def)

lemma evicted_trans: "evicted r s \<Longrightarrow> evicted s t \<Longrightarrow> evicted r t"
  unfolding evicted_def by (auto dest: subsetD)

lemma evicted_holds:
  assumes "evicted r r'" and "distinct (map re_fd (rs_entries r))" and "distinct (map re_fd (rs_entries r'))"
  shows "holds r' fd = holds r fd"
proof (cases "\<exists>e\<in>set (rs_entries r'). re_fd e = fd")
  case True
  then obtain e where "e \<in> set (rs_entries r')" "re_fd e = fd" by blast
  moreover from this assms(1) have "e \<in> set (rs_entries r)" by (auto simp: evicted_def)
  ultimately show ?thesis using holds_entry assms(2,3) by metis
next
  case False
  then have "holds r' fd = 0" by (intro holds_absent) auto
  moreover have "holds r fd = 0"
  proof (cases "\<exists>e\<in>set (rs_entries r). re_fd e = fd")
    case True
    then obtain e where e: "e \<in> set (rs_entries r)" "re_fd e = fd" by blast
    with False assms(1) have "re_ref_count e = 0" by (auto simp: evicted_def in_use_def)
    with e show ?thesis using holds_entry [OF assms(2) e(1)] by simp
  qed (auto intro!: holds_absent)
  ultimately show ?thesis by simp
qed

lemma unmap_entry_fields:
  "rs_budget (unmap_entry env idx r) = rs_budget r"
  "mapped_bytes (unmap_entry env idx r) = mapped_bytes r - re_size (rs_entries r ! idx)"
  "in_use_bytes (unmap_entry env idx r) = in_use_bytes r"
  "use_counter (unmap_entry env idx r) = use_counter r"
  "rs_capacity (unmap_entry env idx r) = rs_capacity r"
  "\<exists>ok c. rs_history (unmap_entry env idx r) =
     Munmap (re_vaddr (rs_entries r ! idx)) (re_size (rs_entries r ! idx)) ok #
     CacheClean (re_vaddr (rs_entries r ! idx)) (re_size (rs_entries r ! idx)) FLUSH_INVALIDATE c # rs_history r"
  by (simp_all add: unmap_entry_def Let_def residency_cache_op_def residency_simps)

lemma mapped_ranges_unmap:
  "s \<in> mapped_ranges h \<Longrightarrow> s \<noteq> (a, n) \<Longrightarrow> s \<in> mapped_ranges (Munmap a n ok # CacheClean b m op c # h)"
  by (cases ok) auto

lemma unmap_entry_ok:
  assumes ok: "residency_ok r" and idx: "idx < length (rs_entries r)" and unused: "\<not> in_use (rs_entries r ! idx)"
  shows "residency_ok (unmap_entry env idx r)" and "evicted r (unmap_entry env idx r)"
proof -
  let ?e = "rs_entries r ! idx" and ?r = "unmap_entry env idx r"
  note rem = swap_remove_facts [OF idx]
  obtain u c where h: "rs_history ?r = Munmap (re_vaddr ?e) (re_size ?e) u #
      CacheClean (re_vaddr ?e) (re_size ?e) FLUSH_INVALIDATE c # rs_history r"
    using unmap_entry_fields(6) by blast
  have "?e \<in> set (rs_entries r)" using idx by simp
  then have e: "entry_ok (rs_history r) ?e" using ok by (simp add: residency_ok_def)
  have dist: "re_fd ?e \<notin> re_fd ` set (swap_remove (rs_entries r) idx)"
    "distinct (map re_fd (swap_remove (rs_entries r) idx))"
    using ok rem(3) [of re_fd] by (simp_all add: residency_ok_def)
  have stay: "entry_ok (rs_history ?r) x" if x: "x \<in> set (swap_remove (rs_entries r) idx)" for x
  proof -
    have xs: "x \<in> set (rs_entries r)" using x rem(1) by auto
    then have ex: "entry_ok (rs_history r) x" using ok by (simp add: residency_ok_def)
    have "re_fd ?e \<noteq> re_fd x" using dist(1) x by auto
    then have "\<not> overlap (entry_range ?e) (entry_range x)"
      using ok xs idx unfolding residency_ok_def by force
    then have "entry_range x \<noteq> entry_range ?e" using overlap_self [OF ex] by auto
    then have "entry_range x \<in> mapped_ranges (rs_history ?r)"
      using ex unfolding h by (intro mapped_ranges_unmap) (simp_all add: entry_ok_def entry_range_def)
    with ex show ?thesis by (simp add: entry_ok_def)
  qed
  have sums: "mapped_bytes r = re_size ?e + sum_list (map re_size (swap_remove (rs_entries r) idx))"
    "in_use_bytes r = sum_list (map re_size (filter in_use (swap_remove (rs_entries r) idx)))"
    using ok rem(4) [of re_size "\<lambda>_. True"] rem(4) [of re_size in_use] unused
    by (simp_all add: residency_ok_def)
  have flushed: "unmaps_flushed (rs_history ?r)" using ok by (simp add: h residency_ok_def)
  have apart: "\<forall>x\<in>set (swap_remove (rs_entries r) idx). \<forall>y\<in>set (swap_remove (rs_entries r) idx).
      re_fd x \<noteq> re_fd y \<longrightarrow> \<not> overlap (entry_range x) (entry_range y)"
    using ok rem(1) unfolding residency_ok_def by blast
  show "residency_ok ?r"
    using dist(2) sums flushed apart stay ok idx
    unfolding residency_ok_def by (auto simp: unmap_entry_fields(1-5))
  show "evicted r ?r"
    using rem(1,2) unused by (auto simp: evicted_def unmap_entry_fields(1-5))
qed

lemma log_event_ok:
  assumes "residency_ok r" and "mapped_ranges (rs_history r) \<subseteq> mapped_ranges (ev # rs_history r)"
    and "unmaps_flushed (rs_history r) \<Longrightarrow> unmaps_flushed (ev # rs_history r)"
  shows "residency_ok (log_event ev r)" and "evicted r (log_event ev r)"
  using assms by (auto simp: residency_ok_def residency_simps entry_ok_def evicted_def)

text \<open>The scan finds an unused entry with the smallest use stamp, if there is an unused one.\<close>

definition least_recent :: "residency_entry list \<Rightarrow> nat \<Rightarrow> nat \<Rightarrow> bool" where
  "least_recent es n i \<longleftrightarrow> i < n \<and> \<not> in_use (es ! i) \<and>
     (\<forall>j<n. \<not> in_use (es ! j) \<longrightarrow> re_last_use (es ! i) \<le> re_last_use (es ! j))"

lemma lru_fold:
  "case fold (lru_step es) [0..<n] None of
     None \<Rightarrow> \<forall>i<n. in_use (es ! i)
   | Some i \<Rightarrow> least_recent es n i"
proof (induction n)
  case (Suc n)
  then show ?case
    by (auto simp: lru_step_def least_recent_def in_use_def less_Suc_eq not_less split: option.splits
        intro: order.trans less_imp_le)
qed simp

lemma evict_one_None: "evict_one env r = None \<longleftrightarrow> (\<forall>e\<in>set (rs_entries r). in_use e)"
  using lru_fold [of "length (rs_entries r)" "rs_entries r"]
  by (auto simp: evict_one_def least_recent_def in_set_conv_nth split: option.splits
      intro: bexI [OF _ nth_mem])

lemma evict_one_Some:
  assumes "evict_one env r = Some r'"
  obtains i where "least_recent (rs_entries r) (length (rs_entries r)) i" "r' = unmap_entry env i r"
  using assms lru_fold [of "length (rs_entries r)" "rs_entries r"]
  by (auto simp: evict_one_def split: option.splits)

lemma evict_one_ok:
  assumes "residency_ok r" and "evict_one env r = Some r'"
  shows "residency_ok r' \<and> evicted r r'"
  using assms(2)
proof (rule evict_one_Some)
  fix i
  assume "least_recent (rs_entries r) (length (rs_entries r)) i" "r' = unmap_entry env i r"
  with unmap_entry_ok [OF assms(1)] show ?thesis by (simp add: least_recent_def)
qed

lemma evict_all_ok:
  "residency_ok r \<Longrightarrow> residency_ok (evict_all env r) \<and> evicted r (evict_all env r) \<and>
     (\<forall>e\<in>set (rs_entries (evict_all env r)). in_use e)"
proof (induction env r rule: evict_all.induct)
  case (1 env r)
  show ?case
  proof (cases "evict_one env r")
    case None
    then have "evict_all env r = r" by (subst evict_all.simps) simp
    with 1 None show ?thesis by (simp add: evict_one_None)
  next
    case (Some r')
    then have "evict_all env r = evict_all env r'" by (subst evict_all.simps) simp
    with 1(1) [OF Some] evict_one_ok [OF 1(2) Some] show ?thesis by (auto intro: evicted_trans)
  qed
qed

section \<open>No sum overflows\<close>

text \<open>The mapped ranges do not overlap in a 32-bit address space, so the 64-bit sums are exact.\<close>

lemma disjoint_ranges_total:
  assumes "distinct (map re_fd es)" and "\<forall>e\<in>set es. unat (re_vaddr e) + unat (re_size e) \<le> 2 ^ 32"
    and "\<forall>e\<in>set es. \<forall>e'\<in>set es. re_fd e \<noteq> re_fd e' \<longrightarrow> \<not> overlap (entry_range e) (entry_range e')"
  shows "(\<Sum>e\<leftarrow>es. unat (re_size e)) \<le> 2 ^ 32"
proof -
  let ?R = "\<lambda>e. {unat (re_vaddr e) ..< unat (re_vaddr e) + unat (re_size e)}"
  have "(\<Sum>e\<leftarrow>es. unat (re_size e)) = (\<Sum>e\<in>set es. card (?R e))"
    using assms(1) by (simp add: distinct_map sum_list_distinct_conv_sum_set)
  also have "\<dots> = card (\<Union>e\<in>set es. ?R e)"
  proof (intro card_UN_disjoint [symmetric] ballI impI)
    fix e e' assume "e \<in> set es" "e' \<in> set es" "e \<noteq> e'"
    with assms(1) have "re_fd e \<noteq> re_fd e'" by (meson distinct_map inj_onD)
    with assms(3) \<open>e \<in> set es\<close> \<open>e' \<in> set es\<close> show "?R e \<inter> ?R e' = {}"
      by (simp add: overlap_def entry_range_def)
  qed auto
  also have "\<dots> \<le> card {0 ..< (2 :: nat) ^ 32}"
    using assms(2) by (intro card_mono) fastforce+
  finally show ?thesis by simp
qed

lemma unat_sum_list:
  fixes ws :: "u64 list"
  assumes "(\<Sum>w\<leftarrow>ws. unat w) < 2 ^ 64"
  shows "unat (sum_list ws) = (\<Sum>w\<leftarrow>ws. unat w)"
  using assms
proof (induction ws)
  case (Cons w ws)
  then have "unat (sum_list ws) = (\<Sum>w\<leftarrow>ws. unat w)" by simp
  with Cons.prems show ?case by (simp add: unat_word_ariths)
qed simp

lemma mapped_bytes_exact:
  assumes "residency_ok r"
  shows "unat (mapped_bytes r) = (\<Sum>e\<leftarrow>rs_entries r. unat (re_size e))" and "unat (mapped_bytes r) \<le> 2 ^ 32"
proof -
  have le: "(\<Sum>e\<leftarrow>rs_entries r. unat (re_size e)) \<le> 2 ^ 32"
    using assms by (intro disjoint_ranges_total) (auto simp: residency_ok_def entry_ok_def)
  then show "unat (mapped_bytes r) = (\<Sum>e\<leftarrow>rs_entries r. unat (re_size e))"
    using assms unat_sum_list [of "map re_size (rs_entries r)"]
    by (simp add: residency_ok_def comp_def)
  with le show "unat (mapped_bytes r) \<le> 2 ^ 32" by simp
qed

lemma in_use_bytes_zero:
  assumes "residency_ok r"
  shows "in_use_bytes r > 0 \<longleftrightarrow> (\<exists>e\<in>set (rs_entries r). in_use e)"
proof -
  let ?es = "filter in_use (rs_entries r)"
  have le: "(\<Sum>e\<leftarrow>?es. unat (re_size e)) \<le> 2 ^ 32"
    using assms by (intro disjoint_ranges_total) (auto simp: residency_ok_def entry_ok_def distinct_map_filter)
  then have "unat (in_use_bytes r) = (\<Sum>e\<leftarrow>?es. unat (re_size e))"
    using assms unat_sum_list [of "map re_size ?es"] by (simp add: residency_ok_def comp_def)
  moreover have "(\<Sum>e\<leftarrow>?es. unat (re_size e)) = 0 \<longleftrightarrow> ?es = []"
  proof (cases ?es)
    case (Cons e es)
    then have "e \<in> set ?es" by simp
    then have "re_size e \<noteq> 0" using assms by (auto simp: residency_ok_def entry_ok_def)
    with Cons show ?thesis by (simp add: unat_eq_0)
  qed simp
  ultimately have "in_use_bytes r = 0 \<longleftrightarrow> ?es = []" by (metis unat_eq_0)
  then show ?thesis by (auto simp: word_gt_0 filter_empty_conv)
qed

text \<open>Page alignment bounds the number of entries, and so the size of their array.\<close>

lemma entries_bound:
  assumes "residency_ok r"
  shows "length (rs_entries r) < 2 ^ 20"
proof -
  let ?f = "\<lambda>e. unat (re_vaddr e) div 4096"
  have ok: "\<forall>e\<in>set (rs_entries r). entry_ok (rs_history r) e" using assms by (simp add: residency_ok_def)
  have inj: "inj_on ?f (set (rs_entries r))"
  proof (rule inj_onI)
    fix e e' assume e: "e \<in> set (rs_entries r)" "e' \<in> set (rs_entries r)" "?f e = ?f e'"
    with ok have d: "4096 dvd unat (re_vaddr e)" "4096 dvd unat (re_vaddr e')" by (auto simp: entry_ok_def)
    with e(3) have "unat (re_vaddr e) = unat (re_vaddr e')" by (metis dvd_div_mult_self)
    moreover have "0 < unat (re_size e)" "0 < unat (re_size e')"
      using ok e by (auto simp: entry_ok_def unat_gt_0)
    ultimately have "overlap (entry_range e) (entry_range e')"
      by (auto simp: overlap_def entry_range_def)
    with assms e have "re_fd e = re_fd e'" unfolding residency_ok_def by blast
    with assms e show "e = e'" unfolding residency_ok_def by (meson distinct_map inj_onD)
  qed
  have "?f ` set (rs_entries r) \<subseteq> {1 ..< 2 ^ 20}"
  proof
    fix k assume "k \<in> ?f ` set (rs_entries r)"
    then obtain e where e: "e \<in> set (rs_entries r)" "k = ?f e" by blast
    with ok have "entry_ok (rs_history r) e" by blast
    then have "unat (re_vaddr e) \<noteq> 0" "4096 dvd unat (re_vaddr e)" "unat (re_vaddr e) < 2 ^ 32"
      using unat32_less [of "re_vaddr e"] by (auto simp: entry_ok_def unat_eq_0)
    with e(2) show "k \<in> {1 ..< 2 ^ 20}" by (auto simp: less_mult_imp_div_less elim!: dvdE)
  qed
  then have "card (?f ` set (rs_entries r)) \<le> card {1 ..< (2 :: nat) ^ 20}" by (intro card_mono) auto
  moreover have "card (?f ` set (rs_entries r)) = length (rs_entries r)"
    using card_image [OF inj] assms by (simp add: residency_ok_def distinct_map distinct_card)
  ultimately show ?thesis by simp
qed

section \<open>Acquiring\<close>

lemma make_room_ok:
  assumes "residency_ok r" and "make_room env n r = (err, r')"
  shows "residency_ok r' \<and> evicted r r' \<and>
    (if err = AEE_SUCCESS then mapped_bytes r' + n \<le> rs_budget r'
     else err = out_of_room r' \<and> (\<forall>e\<in>set (rs_entries r'). in_use e))"
  using assms
proof (induction env n r arbitrary: err r' rule: make_room.induct)
  case (1 env n r)
  show ?case
  proof (cases "mapped_bytes r + n > rs_budget r")
    case True
    show ?thesis
    proof (cases "evict_one env r")
      case None
      with 1(3) True have "err = out_of_room r" "r' = r" by (auto simp: make_room.simps [of env n r])
      with 1(2) None show ?thesis by (auto simp: evict_one_None out_of_room_def)
    next
      case (Some s)
      with 1(3) True have run: "make_room env n s = (err, r')" by (simp add: make_room.simps [of env n r])
      from evict_one_ok [OF 1(2) Some] have s: "residency_ok s" "evicted r s" by auto
      from 1(1) [OF True Some s(1) run] evicted_trans [OF s(2)] show ?thesis by blast
    qed
  next
    case False
    with 1(2,3) show ?thesis by (auto simp: make_room.simps [of env n r])
  qed
qed

lemma grow_entries_ok:
  assumes ok: "residency_ok r" and run: "grow_entries env r = (b, r')"
  shows "residency_ok r' \<and> evicted r r' \<and> rs_entries r' = rs_entries r \<and> mapped_bytes r' = mapped_bytes r \<and>
    (b \<longrightarrow> length (rs_entries r') < unat (rs_capacity r'))"
proof (cases "of_nat (length (rs_entries r)) = rs_capacity r")
  case True
  let ?c = "if rs_capacity r \<noteq> 0 then 2 * rs_capacity r else 64"
  have small: "length (rs_entries r) < 2 ^ 20" using ok by (rule entries_bound)
  with True have cap: "unat (rs_capacity r) = length (rs_entries r)"
    by (simp add: True [symmetric] unat_of_nat)
  have c: "unat ?c \<le> 2 ^ 21" "length (rs_entries r) < unat ?c"
  proof -
    have "unat (2 * rs_capacity r) = 2 * length (rs_entries r)"
      using small cap by (simp add: unat_word_ariths)
    with small cap show "unat ?c \<le> 2 ^ 21" "length (rs_entries r) < unat ?c"
      by (auto simp: unat_eq_0)
  qed
  let ?b = "realloc env (rs_history r) (?c * 32)"
  have r1: "residency_ok (log_event (Realloc (?c * 32) ?b) r)" "evicted r (log_event (Realloc (?c * 32) ?b) r)"
    using log_event_ok [OF ok, of "Realloc (?c * 32) ?b"] by auto
  from run True have "b = ?b" and r': "r' = (if ?b then (log_event (Realloc (?c * 32) ?b) r)\<lparr>rs_capacity := ?c\<rparr>
      else log_event (Realloc (?c * 32) ?b) r)"
    by (auto simp: grow_entries_def Let_def split: if_splits)
  with r1 c show ?thesis
    by (cases ?b) (auto simp: residency_ok_def evicted_def residency_simps)
next
  case False
  with run have "b" "r' = r" by (simp_all add: grow_entries_def)
  moreover have "length (rs_entries r) \<le> unat (rs_capacity r)" using ok by (simp add: residency_ok_def)
  moreover have "length (rs_entries r) \<noteq> unat (rs_capacity r)" using False by auto
  ultimately show ?thesis using ok by simp
qed

lemma evicted_mapped_le:
  assumes "residency_ok r" and "residency_ok r'" and "evicted r r'"
  shows "unat (mapped_bytes r') \<le> unat (mapped_bytes r)"
proof -
  have d: "distinct (rs_entries r)" "distinct (rs_entries r')"
    using assms(1,2) by (auto simp: residency_ok_def distinct_map)
  have "(\<Sum>e\<leftarrow>rs_entries r'. unat (re_size e)) = (\<Sum>e\<in>set (rs_entries r'). unat (re_size e))"
    using d(2) by (rule sum_list_distinct_conv_sum_set)
  also have "\<dots> \<le> (\<Sum>e\<in>set (rs_entries r). unat (re_size e))"
    using assms(3) by (intro sum_mono2) (auto simp: evicted_def)
  also have "\<dots> = (\<Sum>e\<leftarrow>rs_entries r. unat (re_size e))"
    using d(1) by (rule sum_list_distinct_conv_sum_set [symmetric])
  finally show ?thesis using assms(1,2) by (simp add: mapped_bytes_exact)
qed

lemma evict_one_capacity: "evict_one env r = Some r' \<Longrightarrow> rs_capacity r' = rs_capacity r"
  by (auto simp: evict_one_def unmap_entry_fields split: option.splits)

lemma map_retry_ok:
  assumes "residency_ok r" and "map_retry env fd n r = (res, r')"
  shows "residency_ok r' \<and> evicted r r' \<and> rs_capacity r' = rs_capacity r \<and>
    (case res of
       Inl err \<Rightarrow> err = out_of_room r' \<and> (\<forall>e\<in>set (rs_entries r'). in_use e)
     | Inr a \<Rightarrow> \<exists>r0. residency_ok r0 \<and> HAP_mmap2 env (rs_history r0) fd n = Some a \<and>
         r' = log_event (Mmap fd n (Some a)) r0)"
  using assms
proof (induction env fd n r arbitrary: res r' rule: map_retry.induct)
  case (1 env fd n r)
  let ?a = "HAP_mmap2 env (rs_history r) fd n"
  let ?r1 = "log_event (Mmap fd n ?a) r"
  have r1: "residency_ok ?r1" "evicted r ?r1"
    using log_event_ok [OF 1(2), of "Mmap fd n ?a"] by (cases ?a; auto)+
  show ?case
  proof (cases ?a)
    case (Some a)
    with 1(3) have "res = Inr a" "r' = ?r1" by (auto simp: map_retry.simps [of env fd n r] Let_def)
    with r1 1(2) Some show ?thesis by (auto simp: residency_simps)
  next
    case None
    show ?thesis
    proof (cases "evict_one env ?r1")
      case None
      with 1(3) \<open>?a = None\<close> have "res = Inl (out_of_room ?r1)" "r' = ?r1"
        by (auto simp: map_retry.simps [of env fd n r] Let_def)
      with r1 None show ?thesis by (auto simp: evict_one_None residency_simps)
    next
      case (Some s)
      with 1(3) \<open>?a = None\<close> have run: "map_retry env fd n s = (res, r')"
        by (simp add: map_retry.simps [of env fd n r] Let_def)
      from evict_one_ok [OF r1(1) Some] have s: "residency_ok s" "evicted ?r1 s" by auto
      have "rs_capacity s = rs_capacity r" using evict_one_capacity [OF Some] by (simp add: residency_simps)
      with 1(1) [OF refl refl None Some s(1) run] evicted_trans [OF evicted_trans [OF r1(2) s(2)]]
      show ?thesis by simp
    qed
  qed
qed

text \<open>Held allocations stay where they are.\<close>

definition held_kept :: "residency \<Rightarrow> residency \<Rightarrow> bool" where
  "held_kept r r' \<longleftrightarrow> (\<forall>e\<in>set (rs_entries r). in_use e \<longrightarrow>
     (\<exists>e'\<in>set (rs_entries r'). re_fd e' = re_fd e \<and> entry_range e' = entry_range e))"

lemma evicted_held_kept: "evicted r r' \<Longrightarrow> held_kept r r'"
  unfolding evicted_def held_kept_def by blast

lemma holds_cong: "rs_entries r = rs_entries r' \<Longrightarrow> holds r fd = holds r' fd"
  by (simp add: holds_def)

lemma holds_update:
  assumes d: "distinct (map re_fd (rs_entries r))" and idx: "idx < length (rs_entries r)"
    and fd: "re_fd e = re_fd (rs_entries r ! idx)" and r': "rs_entries r' = (rs_entries r)[idx := e]"
  shows "holds r' f = (if f = re_fd e then unat (re_ref_count e) else holds r f)"
proof -
  have fds: "map re_fd (rs_entries r') = map re_fd (rs_entries r)"
    using fd idx by (simp add: r' map_update) (metis length_map list_update_id nth_map)
  then have d': "distinct (map re_fd (rs_entries r'))" using d by simp
  show ?thesis
  proof (cases "f = re_fd e")
    case True
    moreover have "e \<in> set (rs_entries r')" using idx by (simp add: r' set_update_memI)
    ultimately show ?thesis using holds_entry [OF d'] by simp
  next
    case False
    show ?thesis
    proof (cases "f \<in> re_fd ` set (rs_entries r)")
      case True
      then obtain x where x: "x \<in> set (rs_entries r)" "re_fd x = f" by blast
      then obtain j where j: "j < length (rs_entries r)" "rs_entries r ! j = x" by (metis in_set_conv_nth)
      with False fd x(2) have "j \<noteq> idx" by auto
      with j have "x \<in> set (rs_entries r')" by (metis r' length_list_update nth_list_update_neq nth_mem)
      with x False holds_entry [OF d] holds_entry [OF d'] show ?thesis by metis
    next
      case nf: False
      moreover from fds have "re_fd ` set (rs_entries r') = re_fd ` set (rs_entries r)" by (metis list.set_map)
      ultimately show ?thesis using False by (simp add: holds_absent)
    qed
  qed
qed

lemma sum_list_update_group:
  fixes xs :: "'a :: ab_group_add list"
  shows "k < length xs \<Longrightarrow> sum_list (xs[k := x]) = sum_list xs - xs ! k + x"
  by (induction xs arbitrary: k) (auto split: nat.split)

text \<open>Changing the counters of one entry, with the bytes in use adjusted.\<close>

lemma update_entry_ok:
  assumes ok: "residency_ok r" and idx: "idx < length (rs_entries r)"
    and same: "re_fd e = re_fd (rs_entries r ! idx)" "entry_range e = entry_range (rs_entries r ! idx)"
    and r': "rs_entries r' = (rs_entries r)[idx := e]" "mapped_bytes r' = mapped_bytes r"
      "rs_capacity r' = rs_capacity r" "rs_history r' = rs_history r"
    and bytes: "in_use_bytes r' = in_use_bytes r - (if in_use (rs_entries r ! idx) then re_size e else 0)
      + (if in_use e then re_size e else 0)"
  shows "residency_ok r' \<and> held_kept r r'"
proof -
  let ?e = "rs_entries r ! idx"
  have sz: "re_size e = re_size ?e" "re_vaddr e = re_vaddr ?e" using same(2) by (auto simp: entry_range_def)
  have maps: "map re_fd (rs_entries r') = map re_fd (rs_entries r)" "map re_size (rs_entries r') = map re_size (rs_entries r)"
    using same(1) sz idx by (simp_all add: r'(1) map_update) (metis length_map list_update_id nth_map)+
  let ?g = "\<lambda>e. if in_use e then re_size e else 0"
  have "sum_list (map re_size (filter in_use (rs_entries r'))) = sum_list (map ?g (rs_entries r'))"
    by (rule sum_list_map_filter')
  also have "\<dots> = sum_list (map ?g (rs_entries r)) - ?g ?e + ?g e"
    using idx by (simp add: r'(1) map_update sum_list_update_group)
  also have "sum_list (map ?g (rs_entries r)) = in_use_bytes r"
    using ok sum_list_map_filter' [of re_size in_use "rs_entries r"] by (simp add: residency_ok_def)
  finally have use: "in_use_bytes r' = sum_list (map re_size (filter in_use (rs_entries r')))"
    using bytes sz(1) by simp
  have like: "\<exists>x\<in>set (rs_entries r). re_fd x = re_fd y \<and> entry_range x = entry_range y \<and>
      re_size x = re_size y \<and> re_vaddr x = re_vaddr y" if "y \<in> set (rs_entries r')" for y
  proof -
    have "y = e \<or> y \<in> set (rs_entries r)"
      using that set_update_subset_insert [of "rs_entries r" idx e] by (auto simp: r'(1))
    then show ?thesis
    proof
      assume "y = e"
      with idx same sz show ?thesis by (intro bexI [of _ ?e]) auto
    qed auto
  qed
  have all: "\<forall>y\<in>set (rs_entries r'). entry_ok (rs_history r') y"
    using like ok unfolding residency_ok_def entry_ok_def r'(4) by metis
  have apart: "\<forall>y\<in>set (rs_entries r'). \<forall>z\<in>set (rs_entries r'). re_fd y \<noteq> re_fd z \<longrightarrow> \<not> overlap (entry_range y) (entry_range z)"
    using like ok unfolding residency_ok_def by metis
  have "residency_ok r'"
    using ok maps use all apart r' unfolding residency_ok_def by simp
  moreover have "held_kept r r'"
    unfolding held_kept_def
  proof (intro ballI impI)
    fix x assume "x \<in> set (rs_entries r)"
    then obtain j where j: "j < length (rs_entries r)" "rs_entries r ! j = x" by (metis in_set_conv_nth)
    then have "rs_entries r' ! j = (if j = idx then e else x)" "j < length (rs_entries r')" by (auto simp: r'(1))
    with j same show "\<exists>e'\<in>set (rs_entries r'). re_fd e' = re_fd x \<and> entry_range e' = entry_range x"
      by (metis nth_mem)
  qed
  ultimately show ?thesis by simp
qed

lemma insert_entry_ok:
  assumes ok: "residency_ok r" and law: "mmap_law env" and map: "HAP_mmap2 env (rs_history r) fd n = Some a"
    and new: "fd \<notin> re_fd ` set (rs_entries r)" and n: "n \<noteq> 0" and room: "length (rs_entries r) < unat (rs_capacity r)"
    and e: "e = \<lparr>re_fd = fd, re_size = n, re_vaddr = a, re_ref_count = 1, re_last_use = c\<rparr>"
    and r': "rs_entries r' = rs_entries r @ [e]" "mapped_bytes r' = mapped_bytes r + n"
      "in_use_bytes r' = in_use_bytes r + n" "rs_capacity r' = rs_capacity r"
      "rs_history r' = Mmap fd n (Some a) # rs_history r"
  shows "residency_ok r'"
proof -
  have a: "a \<noteq> 0" "4096 dvd unat a" "unat a + unat n \<le> 2 ^ 32" "\<forall>s\<in>mapped_ranges (rs_history r). \<not> overlap (a, n) s"
    using law map unfolding mmap_law_def by blast+
  have sym: "overlap s t \<longleftrightarrow> overlap t s" for s t by (auto simp: overlap_def Int_commute)
  have "\<not> overlap (entry_range e) (entry_range x)" if "x \<in> set (rs_entries r)" for x
    using a(4) ok that by (auto simp: residency_ok_def entry_ok_def entry_range_def e)
  with ok new n room a r' sym show ?thesis
    unfolding residency_ok_def by (auto simp: e entry_ok_def entry_range_def in_use_def)
qed

definition mapped_fds :: "residency \<Rightarrow> i32 set" where
  "mapped_fds r = re_fd ` set (rs_entries r)"

lemma acquire_hit:
  assumes ok: "residency_ok r" and few: "holds r fd < 2 ^ 32 - 1"
    and idx: "residency_find r fd = Some idx" and run: "residency_acquire env fd n r = (res, r')"
  shows "\<exists>a. res = Inr a \<and> residency_ok r' \<and> held_kept r r' \<and>
    (\<forall>f. holds r' f = holds r f + (if f = fd then 1 else 0)) \<and>
    (\<exists>e\<in>set (rs_entries r'). re_fd e = fd \<and> re_vaddr e = a)"
proof -
  let ?e = "rs_entries r ! idx"
  let ?e1 = "?e\<lparr>re_ref_count := re_ref_count ?e + 1, re_last_use := use_counter r + 1\<rparr>"
  from residency_find_Some [OF idx] have i: "idx < length (rs_entries r)" "re_fd ?e = fd" by auto
  have d: "distinct (map re_fd (rs_entries r))" using ok by (simp add: residency_ok_def)
  have cnt: "unat (re_ref_count ?e) = holds r fd" using holds_entry [OF d, of ?e] i by simp
  have inc: "unat (re_ref_count ?e + 1) = holds r fd + 1"
    using few cnt by (simp add: unat_word_ariths)
  then have nz: "re_ref_count ?e + 1 \<noteq> 0" by (metis add_eq_0_iff_both_eq_0 unat_0 zero_neq_one)
  from run idx have res: "res = Inr (re_vaddr ?e)" and ent: "rs_entries r' = (rs_entries r)[idx := ?e1]"
    and rest: "mapped_bytes r' = mapped_bytes r" "rs_capacity r' = rs_capacity r" "rs_history r' = rs_history r"
      "in_use_bytes r' = in_use_bytes r + (if re_ref_count ?e = 0 then re_size ?e else 0)"
    by (auto simp: residency_acquire_def Let_def)
  have "residency_ok r' \<and> held_kept r r'"
    by (rule update_entry_ok [OF ok i(1) _ _ ent rest(1-3)])
      (use nz rest(4) in \<open>auto simp: entry_range_def in_use_def\<close>)
  moreover have "holds r' f = holds r f + (if f = fd then 1 else 0)" for f
    using holds_update [OF d i(1) _ ent] inc i(2) by simp
  moreover have "\<exists>e\<in>set (rs_entries r'). re_fd e = fd \<and> re_vaddr e = re_vaddr ?e"
    using i by (intro bexI [of _ ?e1]) (simp_all add: ent set_update_memI)
  ultimately show ?thesis using res by blast
qed

lemma out_of_room_cases:
  assumes "residency_ok r" and "\<forall>e\<in>set (rs_entries r). in_use e"
  shows "out_of_room r = AEE_EWOULDBLOCK \<and> rs_entries r \<noteq> [] \<or> out_of_room r = AEE_ENOMEMORY \<and> rs_entries r = []"
  using assms in_use_bytes_zero [OF assms(1)] by (cases "rs_entries r") (auto simp: out_of_room_def)

lemma acquire_miss:
  assumes ok: "residency_ok r" and law: "mmap_law env" and new: "residency_find r fd = None" and n: "n \<noteq> 0"
    and run: "residency_acquire env fd n r = (res, r')"
  shows "residency_ok r' \<and> held_kept r r' \<and>
    (case res of
       Inr a \<Rightarrow> (\<forall>f. holds r' f = holds r f + (if f = fd then 1 else 0)) \<and>
         (\<exists>e\<in>set (rs_entries r'). re_fd e = fd \<and> re_vaddr e = a) \<and> unat (mapped_bytes r') \<le> unat (rs_budget r)
     | Inl err \<Rightarrow> (\<forall>f. holds r' f = holds r f) \<and>
         (err = AEE_EWOULDBLOCK \<and> rs_entries r' \<noteq> [] \<and> (\<forall>e\<in>set (rs_entries r'). in_use e) \<or>
          err = AEE_ENOMEMORY \<and> (rs_entries r' = [] \<or> (\<exists>b h. rs_history r' = Realloc b False # h))))"
proof -
  have d: "residency_ok s \<Longrightarrow> distinct (map re_fd (rs_entries s))" for s by (simp add: residency_ok_def)
  obtain err1 r1 where room: "make_room env n r = (err1, r1)" by (cases "make_room env n r")
  note m = make_room_ok [OF ok room]
  show ?thesis
  proof (cases "err1 = AEE_SUCCESS")
    case False
    with run new n room have "res = Inl err1" "r' = r1" by (auto simp: residency_acquire_def)
    with m False out_of_room_cases [of r1] evicted_holds [OF _ d [OF ok] d] evicted_held_kept
    show ?thesis by auto
  next
    case True
    obtain b r2 where grow: "grow_entries env r1 = (b, r2)" by (cases "grow_entries env r1")
    have r1: "residency_ok r1" "evicted r r1" using m by auto
    note g = grow_entries_ok [OF r1(1) grow]
    then have r2: "residency_ok r2" "evicted r r2" using evicted_trans [OF r1(2)] by auto
    show ?thesis
    proof (cases b)
      case False
      with run new n room True grow have "res = Inl AEE_ENOMEMORY" "r' = r2" by (auto simp: residency_acquire_def)
      moreover from grow False have "\<exists>b h. rs_history r2 = Realloc b False # h"
        by (auto simp: grow_entries_def Let_def residency_simps split: if_splits)
      ultimately show ?thesis
        using r2 evicted_holds [OF r2(2) d [OF ok] d [OF r2(1)]] evicted_held_kept [OF r2(2)] by simp
    next
      case b: True
      obtain res3 r3 where retry: "map_retry env fd n r2 = (res3, r3)" by (cases "map_retry env fd n r2")
      note t = map_retry_ok [OF r2(1) retry]
      then have r3: "residency_ok r3" "evicted r r3" using evicted_trans [OF r2(2)] by auto
      note hold = evicted_holds [OF r3(2) d [OF ok] d [OF r3(1)]]
      show ?thesis
      proof (cases res3)
        case (Inl err)
        with run new n room True grow b retry have "res = Inl err" "r' = r3" by (auto simp: residency_acquire_def)
        with Inl t r3 hold out_of_room_cases [of r3] evicted_held_kept [OF r3(2)] show ?thesis by auto
      next
        case (Inr a)
        let ?e = "\<lparr>re_fd = fd, re_size = n, re_vaddr = a, re_ref_count = 1, re_last_use = use_counter r3 + 1\<rparr>"
        from Inr t obtain r0 where r0: "residency_ok r0" "HAP_mmap2 env (rs_history r0) fd n = Some a"
          "r3 = log_event (Mmap fd n (Some a)) r0" by auto
        from run new n room True grow b retry Inr have res: "res = Inr a"
          and ent: "rs_entries r' = rs_entries r3 @ [?e]" "mapped_bytes r' = mapped_bytes r3 + n"
            "in_use_bytes r' = in_use_bytes r3 + n" "rs_capacity r' = rs_capacity r3" "rs_history r' = rs_history r3"
          by (auto simp: residency_acquire_def)
        have abs: "fd \<notin> re_fd ` set (rs_entries r)" using new by (simp add: residency_find_None)
        then have abs3: "fd \<notin> re_fd ` set (rs_entries r3)" using r3(2) by (auto simp: evicted_def)
        have "length (rs_entries r3) \<le> length (rs_entries r2)" using t by (simp add: evicted_def)
        moreover have "length (rs_entries r2) < unat (rs_capacity r2)" using g b by blast
        moreover have "rs_capacity r3 = rs_capacity r2" using t by blast
        ultimately have len: "length (rs_entries r0) < unat (rs_capacity r0)" by (simp add: r0(3) residency_simps)
        have ok': "residency_ok r'"
          by (rule insert_entry_ok [OF r0(1) law r0(2) _ n len refl]) (use abs3 ent r0(3) in \<open>auto simp: residency_simps\<close>)
        have kept: "held_kept r r'"
          using evicted_held_kept [OF r3(2)] by (auto simp: held_kept_def ent(1))
        have holds: "holds r' f = holds r f + (if f = fd then 1 else 0)" for f
        proof (cases "f = fd")
          case True
          with holds_entry [OF d [OF ok'], of ?e] holds_absent [OF abs] show ?thesis by (simp add: ent(1))
        next
          case False
          then have "holds r' f = holds r3 f" by (simp add: holds_def ent(1) find_append split: option.split)
          with hold False show ?thesis by simp
        qed
        have "evicted r1 r3" using g t evicted_trans by blast
        then have "unat (mapped_bytes r3) \<le> unat (mapped_bytes r1)" by (rule evicted_mapped_le [OF r1(1) r3(1)])
        moreover have "unat (mapped_bytes r1) \<le> 2 ^ 32" by (rule mapped_bytes_exact(2) [OF r1(1)])
        moreover have "unat n \<le> 2 ^ 32" using law r0(2) unfolding mmap_law_def by (meson add_leE)
        ultimately have "unat (mapped_bytes r3 + n) \<le> unat (mapped_bytes r1 + n)" by (simp add: unat_word_ariths)
        also have "\<dots> \<le> unat (rs_budget r)"
          using m True r1(2) by (auto simp: evicted_def word_le_nat_alt)
        finally have budget: "unat (mapped_bytes r') \<le> unat (rs_budget r)" by (simp add: ent)
        from ok' kept holds budget res show ?thesis by (auto simp: ent(1))
      qed
    qed
  qed
qed

section \<open>Releasing and forgetting\<close>

lemma release_ok:
  assumes ok: "residency_ok r"
  shows "residency_ok (residency_release fd r)" and "held_kept r (residency_release fd r)"
    and "holds (residency_release fd r) f = holds r f - (if f = fd then 1 else 0)"
    and "mapped_fds (residency_release fd r) = mapped_fds r"
proof -
  let ?r = "residency_release fd r"
  have d: "distinct (map re_fd (rs_entries r))" using ok by (simp add: residency_ok_def)
  have "residency_ok ?r \<and> held_kept r ?r \<and> holds ?r f = holds r f - (if f = fd then 1 else 0) \<and>
    mapped_fds ?r = mapped_fds r"
  proof (cases "residency_find r fd")
    case None
    then have "holds r fd = 0" by (intro holds_absent) (simp add: residency_find_None)
    with None ok show ?thesis by (auto simp: residency_release_def evicted_held_kept)
  next
    case (Some idx)
    let ?e = "rs_entries r ! idx"
    let ?e1 = "?e\<lparr>re_ref_count := re_ref_count ?e - 1\<rparr>"
    from residency_find_Some [OF Some] have i: "idx < length (rs_entries r)" "re_fd ?e = fd" by auto
    have cnt: "unat (re_ref_count ?e) = holds r fd" using holds_entry [OF d, of ?e] i by simp
    show ?thesis
    proof (cases "re_ref_count ?e = 0")
      case True
      with cnt Some ok show ?thesis by (auto simp: residency_release_def Let_def evicted_held_kept)
    next
      case False
      then have dec: "unat (re_ref_count ?e - 1) = holds r fd - 1"
        using cnt by (simp add: unat_minus_one)
      have ent: "rs_entries ?r = (rs_entries r)[idx := ?e1]"
        and rest: "mapped_bytes ?r = mapped_bytes r" "rs_capacity ?r = rs_capacity r" "rs_history ?r = rs_history r"
        and bytes: "in_use_bytes ?r = in_use_bytes r - (if re_ref_count ?e - 1 = 0 then re_size ?e else 0)"
        using Some False by (auto simp: residency_release_def Let_def word_gt_0)
      have "residency_ok ?r \<and> held_kept r ?r"
        by (rule update_entry_ok [OF ok i(1) _ _ ent rest])
          (use False bytes in \<open>auto simp: entry_range_def in_use_def\<close>)
      moreover have "holds ?r f = holds r f - (if f = fd then 1 else 0)"
        using holds_update [OF d i(1) _ ent] dec i(2) by simp
      moreover have "map re_fd (rs_entries ?r) = map re_fd (rs_entries r)"
        using i(1) by (simp add: ent map_update) (metis length_map list_update_id nth_map)
      then have "mapped_fds ?r = mapped_fds r" by (metis list.set_map mapped_fds_def)
      ultimately show ?thesis by simp
    qed
  qed
  then show "residency_ok ?r" and "held_kept r ?r" and "holds ?r f = holds r f - (if f = fd then 1 else 0)"
    and "mapped_fds ?r = mapped_fds r" by auto
qed

lemma forget_ok:
  assumes ok: "residency_ok r" and run: "residency_forget env fd r = (used, r')"
  shows "residency_ok r' \<and> held_kept r r' \<and> holds r' f = holds r f \<and>
    (used \<longleftrightarrow> holds r fd > 0) \<and> (\<not> used \<longrightarrow> fd \<notin> mapped_fds r')"
proof (cases "residency_find r fd")
  case None
  then have "fd \<notin> re_fd ` set (rs_entries r)" by (simp add: residency_find_None)
  with None run ok holds_absent show ?thesis
    by (auto simp: residency_forget_def evicted_held_kept mapped_fds_def)
next
  case (Some idx)
  let ?e = "rs_entries r ! idx"
  from residency_find_Some [OF Some] have i: "idx < length (rs_entries r)" "re_fd ?e = fd" by auto
  have d: "distinct (map re_fd (rs_entries r))" using ok by (simp add: residency_ok_def)
  have cnt: "unat (re_ref_count ?e) = holds r fd" using holds_entry [OF d, of ?e] i by simp
  show ?thesis
  proof (cases "in_use ?e")
    case True
    with Some run ok cnt show ?thesis
      by (auto simp: residency_forget_def in_use_def word_gt_0 evicted_held_kept unat_eq_0 [symmetric] simp del: unat_eq_0)
  next
    case False
    with Some run have r': "used = False" "r' = unmap_entry env idx r"
      by (auto simp: residency_forget_def in_use_def)
    note u = unmap_entry_ok [OF ok i(1) False, of env]
    then have "distinct (map re_fd (rs_entries (unmap_entry env idx r)))" by (simp add: residency_ok_def)
    with u d have "holds (unmap_entry env idx r) f = holds r f" by (intro evicted_holds)
    moreover have "fd \<notin> mapped_fds (unmap_entry env idx r)"
      using swap_remove_facts(3) [OF i(1), of re_fd] d i(2) by (simp add: mapped_fds_def)
    ultimately show ?thesis
      using u r' cnt False evicted_held_kept by (auto simp: in_use_def)
  qed
qed

lemma invalidate_ok:
  assumes ok: "residency_ok r" and run: "invalidate_if_mapped env fd off n flush r = (err, r')"
  shows "residency_ok r' \<and> held_kept r r' \<and> holds r' f = holds r f"
proof -
  have "r' = r \<or> (\<exists>a op b. r' = log_event (CacheClean a n op b) r)"
    using run by (auto simp: invalidate_if_mapped_def Let_def split: option.splits if_splits)
  then show ?thesis
  proof
    assume "\<exists>a op b. r' = log_event (CacheClean a n op b) r"
    then obtain a op b where r': "r' = log_event (CacheClean a n op b) r" by blast
    have "residency_ok r'" "evicted r r'"
      unfolding r' by (rule log_event_ok [OF ok]; simp)+
    then show ?thesis using holds_cong [of r' r f] evicted_held_kept by (auto simp: r' residency_simps)
  qed (use ok in \<open>simp add: evicted_held_kept\<close>)
qed

section \<open>Runs\<close>

datatype residency_call =
    SetBudget u64
  | Acquire i32 u64
  | Release i32
  | Invalidate i32 u64 u64 bool
  | Forget i32

text \<open>One call: whether it acquired, and the state after it.\<close>

definition residency_step :: "dsp_env \<Rightarrow> residency_call \<Rightarrow> residency \<Rightarrow> bool \<times> residency" where
  "residency_step env c r =
     (case c of
        SetBudget b \<Rightarrow> (False, snd (residency_set_budget b r))
      | Acquire fd n \<Rightarrow> (case residency_acquire env fd n r of (res, r') \<Rightarrow> (\<not> isl res, r'))
      | Release fd \<Rightarrow> (False, residency_release fd r)
      | Invalidate fd off n flush \<Rightarrow> (False, snd (invalidate_if_mapped env fd off n flush r))
      | Forget fd \<Rightarrow> (False, snd (residency_forget env fd r)))"

text \<open>The abstract cache: how often each allocation is held.\<close>

definition hold_step :: "residency_call \<Rightarrow> bool \<Rightarrow> (i32 \<Rightarrow> nat) \<Rightarrow> i32 \<Rightarrow> nat" where
  "hold_step c acquired H =
     (case c of
        Acquire fd n \<Rightarrow> if acquired then H(fd := H fd + 1) else H
      | Release fd \<Rightarrow> H(fd := H fd - 1)
      | _ \<Rightarrow> H)"

definition countable_call :: "residency_call \<Rightarrow> residency \<Rightarrow> bool" where
  "countable_call c r \<longleftrightarrow> (\<forall>fd n. c = Acquire fd n \<longrightarrow> holds r fd < 2 ^ 32 - 1)"

inductive residency_reachable :: "dsp_env \<Rightarrow> residency \<Rightarrow> bool" for env where
  reach_create: "residency_reachable env (residency_create [])"
| reach_step: "residency_reachable env r \<Longrightarrow> countable_call c r \<Longrightarrow>
    residency_reachable env (snd (residency_step env c r))"

lemma residency_step_ok:
  assumes ok: "residency_ok r" and law: "mmap_law env" and few: "countable_call c r"
    and run: "residency_step env c r = (acquired, r')"
  shows "residency_ok r' \<and> held_kept r r' \<and> holds r' = hold_step c acquired (holds r)"
proof (cases c)
  case (SetBudget b)
  with run have r': "r' = r \<or> r' = r\<lparr>rs_budget := b\<rparr>"
    by (auto simp: residency_step_def residency_set_budget_def split: if_splits)
  moreover have "residency_ok (r\<lparr>rs_budget := b\<rparr>)" "held_kept r (r\<lparr>rs_budget := b\<rparr>)"
    using ok by (auto simp: residency_ok_def held_kept_def)
  moreover have "holds r' = holds r" using r' by (auto simp: holds_def)
  ultimately show ?thesis using SetBudget ok by (auto simp: hold_step_def evicted_held_kept)
next
  case (Acquire fd n)
  obtain res where acq: "residency_acquire env fd n r = (res, r')" "acquired = (\<not> isl res)"
    using run Acquire by (auto simp: residency_step_def split: prod.splits)
  have cnt: "holds r fd < 2 ^ 32 - 1" using few Acquire by (simp add: countable_call_def)
  show ?thesis
  proof (cases "residency_find r fd")
    case (Some idx)
    from acquire_hit [OF ok cnt Some acq(1)] Acquire acq(2) show ?thesis
      by (auto simp: hold_step_def)
  next
    case None
    show ?thesis
    proof (cases "n = 0")
      case True
      with None acq Acquire ok show ?thesis
        by (auto simp: residency_acquire_def hold_step_def evicted_held_kept)
    next
      case False
      from acquire_miss [OF ok law None False acq(1)] acq(2) Acquire show ?thesis
        by (cases res) (auto simp: hold_step_def)
    qed
  qed
next
  case (Release fd)
  with run release_ok [OF ok] show ?thesis
    by (auto simp: residency_step_def hold_step_def fun_eq_iff)
next
  case (Invalidate fd off n flush)
  with run invalidate_ok [OF ok] show ?thesis
    by (auto simp: residency_step_def hold_step_def fun_eq_iff split: prod.splits intro: surjective_pairing)
      (metis prod.collapse)+
next
  case (Forget fd)
  with run forget_ok [OF ok] show ?thesis
    by (auto simp: residency_step_def hold_step_def fun_eq_iff) (metis prod.collapse)+
qed

fun residency_run :: "dsp_env \<Rightarrow> residency_call list \<Rightarrow> residency \<Rightarrow> bool list \<times> residency" where
  "residency_run env [] r = ([], r)"
| "residency_run env (c # cs) r =
     (case residency_step env c r of (acquired, r') \<Rightarrow>
      case residency_run env cs r' of (bs, r'') \<Rightarrow> (acquired # bs, r''))"

fun hold_run :: "residency_call list \<Rightarrow> bool list \<Rightarrow> (i32 \<Rightarrow> nat) \<Rightarrow> i32 \<Rightarrow> nat" where
  "hold_run (c # cs) (b # bs) H = hold_run cs bs (hold_step c b H)"
| "hold_run _ _ H = H"

fun countable_run :: "dsp_env \<Rightarrow> residency_call list \<Rightarrow> residency \<Rightarrow> bool" where
  "countable_run env [] r = True"
| "countable_run env (c # cs) r = (countable_call c r \<and> countable_run env cs (snd (residency_step env c r)))"

text \<open>An allocation is held at every point of a run.\<close>

fun held_through :: "dsp_env \<Rightarrow> i32 \<Rightarrow> residency_call list \<Rightarrow> residency \<Rightarrow> bool" where
  "held_through env fd [] r = True"
| "held_through env fd (c # cs) r =
     (holds r fd > 0 \<and> held_through env fd cs (snd (residency_step env c r)))"

lemma residency_create_ok: "residency_ok (residency_create [])"
  by (simp add: residency_ok_def residency_create_def)

lemma residency_reachable_ok: "residency_reachable env r \<Longrightarrow> mmap_law env \<Longrightarrow> residency_ok r"
proof (induction rule: residency_reachable.induct)
  case (reach_step r c)
  from residency_step_ok [OF reach_step.IH [OF reach_step.prems] reach_step.prems reach_step.hyps(2), of "fst (residency_step env c r)"]
  show ?case by simp
qed (rule residency_create_ok)

lemma residency_run_ok:
  assumes "mmap_law env" and "residency_ok r" and "countable_run env cs r" and "residency_run env cs r = (bs, r')"
  shows "residency_ok r' \<and> holds r' = hold_run cs bs (holds r)"
  using assms(2-4)
proof (induction cs arbitrary: r bs)
  case (Cons c cs)
  obtain a s where s: "residency_step env c r = (a, s)" by (cases "residency_step env c r")
  obtain bs' where bs: "residency_run env cs s = (bs', r')" "bs = a # bs'"
    using Cons.prems(3) s by (auto split: prod.splits)
  from residency_step_ok [OF Cons.prems(1) assms(1) _ s] Cons.prems(2) s
  have "residency_ok s" "holds s = hold_step c a (holds r)" "countable_run env cs s" by auto
  with Cons.IH [OF _ _ bs(1)] bs(2) show ?case by simp
qed simp

lemma residency_run_kept:
  assumes "mmap_law env" and "residency_ok r" and "countable_run env cs r" and "residency_run env cs r = (bs, r')"
    and "held_through env fd cs r" and "e \<in> set (rs_entries r)" "re_fd e = fd"
  shows "\<exists>e'\<in>set (rs_entries r'). re_fd e' = fd \<and> entry_range e' = entry_range e"
  using assms(2-)
proof (induction cs arbitrary: r bs e)
  case (Cons c cs)
  obtain a s where s: "residency_step env c r = (a, s)" by (cases "residency_step env c r")
  obtain bs' where bs: "residency_run env cs s = (bs', r')" "bs = a # bs'"
    using Cons.prems(3) s by (auto split: prod.splits)
  from residency_step_ok [OF Cons.prems(1) assms(1) _ s] Cons.prems(2,4) s
  have ok: "residency_ok s" "held_kept r s" "countable_run env cs s" "holds r fd > 0" "held_through env fd cs s" by auto
  have "distinct (map re_fd (rs_entries r))" using Cons.prems(1) by (simp add: residency_ok_def)
  with holds_entry [of r e] Cons.prems(5,6) ok(4) have "in_use e" by (auto simp: in_use_def)
  with ok(2) Cons.prems(5,6) obtain e1 where e1: "e1 \<in> set (rs_entries s)" "re_fd e1 = fd" "entry_range e1 = entry_range e"
    unfolding held_kept_def by blast
  from Cons.IH [OF ok(1,3) bs(1) ok(5) e1(1,2)] e1(3) show ?case by simp
qed auto

section \<open>The interface to commands\<close>

lemma acquire_holds:
  assumes ok: "residency_ok r" and law: "mmap_law env" and few: "holds r fd < 2 ^ 32 - 1"
    and run: "residency_acquire env fd n r = (res, r')"
  shows "residency_ok r' \<and> (case res of Inl e \<Rightarrow> e \<noteq> AEE_SUCCESS \<and> holds r' = holds r
    | Inr a \<Rightarrow> holds r' = (holds r)(fd := holds r fd + 1))"
proof -
  have step: "residency_step env (Acquire fd n) r = (\<not> isl res, r')"
    using run by (simp add: residency_step_def)
  have "residency_ok r' \<and> holds r' = hold_step (Acquire fd n) (\<not> isl res) (holds r)"
    using residency_step_ok [OF ok law _ step] few by (auto simp: countable_call_def)
  moreover have "e \<noteq> AEE_SUCCESS" if "res = Inl e" for e
  proof (cases "residency_find r fd")
    case None
    show ?thesis
    proof (cases "n = 0")
      case True
      with None run that show ?thesis by (auto simp: residency_acquire_def)
    next
      case False
      from acquire_miss [OF ok law None False run] that show ?thesis by auto
    qed
  next
    case (Some idx)
    with run that show ?thesis by (simp add: residency_acquire_def Let_def)
  qed
  ultimately show ?thesis by (cases res) (auto simp: hold_step_def)
qed

interpretation rc: hold_cache "\<lambda>r. residency_ok r \<and> mmap_law env" "residency_acquire env" residency_release
    holds "2 ^ 32 - 1" for env
  by unfold_locales (auto simp: acquire_holds release_ok fun_eq_iff)

lemma evicted_mapped: "evicted r r' \<Longrightarrow> mapped_fds r' \<subseteq> mapped_fds r"
  by (auto simp: evicted_def mapped_fds_def)

lemma acquire_mapped:
  assumes ok: "residency_ok r" and run: "residency_acquire env fd n r = (res, r')"
  shows "mapped_fds r' \<subseteq> insert fd (mapped_fds r)"
proof (cases "residency_find r fd")
  case (Some idx)
  from residency_find_Some [OF Some] have i: "idx < length (rs_entries r)" "re_fd (rs_entries r ! idx) = fd" by auto
  from run Some obtain e where "rs_entries r' = (rs_entries r)[idx := e]" "re_fd e = fd"
    by (auto simp: residency_acquire_def Let_def i(2))
  then show ?thesis using set_update_subset_insert [of "rs_entries r" idx e] by (auto simp: mapped_fds_def)
next
  case None
  obtain err1 r1 where room: "make_room env n r = (err1, r1)" by (cases "make_room env n r")
  obtain b r2 where grow: "grow_entries env r1 = (b, r2)" by (cases "grow_entries env r1")
  obtain res3 r3 where retry: "map_retry env fd n r2 = (res3, r3)" by (cases "map_retry env fd n r2")
  note m = make_room_ok [OF ok room]
  then have r1: "residency_ok r1" "evicted r r1" by auto
  note g = grow_entries_ok [OF r1(1) grow]
  then have r2: "residency_ok r2" "evicted r r2" using evicted_trans [OF r1(2)] by auto
  note t = map_retry_ok [OF r2(1) retry]
  then have r3: "evicted r r3" using evicted_trans [OF r2(2)] by auto
  from run None room grow retry have "mapped_fds r' \<subseteq> insert fd (mapped_fds r') \<and>
      (r' = r \<or> r' = r1 \<or> r' = r2 \<or> r' = r3 \<or> mapped_fds r' = insert fd (mapped_fds r3))"
    by (auto simp: residency_acquire_def mapped_fds_def split: if_splits sum.splits)
  with r1(2) r2(2) r3 show ?thesis by (auto dest: evicted_mapped)
qed

lemma forget_mapped:
  assumes ok: "residency_ok r" and run: "residency_forget env fd r = (used, r')"
  shows "mapped_fds r' \<subseteq> mapped_fds r"
proof (cases "residency_find r fd")
  case (Some idx)
  then have i: "idx < length (rs_entries r)" using residency_find_Some by auto
  from run Some show ?thesis
    using swap_remove_facts(1) [OF i] by (auto simp: residency_forget_def mapped_fds_def split: if_splits)
qed (use run in \<open>simp add: residency_forget_def\<close>)

interpretation rf: forget_cache "\<lambda>r. residency_ok r \<and> mmap_law env" "residency_acquire env" residency_release
    holds "2 ^ 32 - 1" "residency_forget env" mapped_fds for env
proof unfold_locales
  fix r k used r'
  assume "residency_ok r \<and> mmap_law env" and run: "residency_forget env k r = (used, r')"
  then have ok: "residency_ok r" "mmap_law env" by auto
  from forget_ok [OF ok(1) run] forget_mapped [OF ok(1) run] ok(2)
  show "(residency_ok r' \<and> mmap_law env) \<and> holds r' = holds r \<and> mapped_fds r' \<subseteq> mapped_fds r \<and>
      (used \<longleftrightarrow> holds r k > 0) \<and> (\<not> used \<longrightarrow> k \<notin> mapped_fds r')"
    by (simp add: fun_eq_iff)
qed (auto simp: release_ok dest: acquire_mapped)

section \<open>Properties\<close>

definition sample_env :: dsp_env where
  "sample_env = \<lparr>HAP_mmap2 = (\<lambda>h fd n. if mapped_ranges h = {} \<and> n \<le> 8192 then Some 4096 else None),
     HAP_munmap2 = (\<lambda>h a n. True), qurt_mem_cache_clean = (\<lambda>h a n op. True), realloc = (\<lambda>h n. True)\<rparr>"

lemma sample_env_law: "mmap_law sample_env"
  by (auto simp: mmap_law_def sample_env_def word_le_nat_alt split: if_splits)

definition sample_residency :: residency where
  "sample_residency = snd (residency_step sample_env (SetBudget 8192) (residency_create []))"

lemma sample_reachable: "residency_reachable sample_env sample_residency"
  unfolding sample_residency_def
  by (intro reach_step reach_create) (simp add: countable_call_def)

lemma sample_residency_eq: "sample_residency = (residency_create [])\<lparr>rs_budget := 8192\<rparr>"
  by (simp add: sample_residency_def residency_step_def residency_set_budget_def residency_create_def)

lemmas residency_eval = residency_step_def residency_acquire_def residency_find_def make_room.simps grow_entries_def
  map_retry.simps log_event_def sample_env_def residency_create_def Let_def

lemma sample_acquire:
  "residency_acquire sample_env 3 4096 sample_residency =
     (Inr 4096, \<lparr>rs_budget = 8192, mapped_bytes = 4096, in_use_bytes = 4096, use_counter = 1,
        rs_entries = [\<lparr>re_fd = 3, re_size = 4096, re_vaddr = 4096, re_ref_count = 1, re_last_use = 1\<rparr>],
        rs_capacity = 64, rs_history = [Mmap 3 4096 (Some 4096), Realloc 2048 True]\<rparr>)"
  by (simp add: residency_eval sample_residency_eq)

text \<open>
  C22: the accounting of the cache, in every state that calls can reach: no allocation is mapped
  twice, the byte counters are the exact sums over the mapped and the used entries and never
  overflow, every entry is a page-aligned range that is mapped and overlaps no other, the array of
  entries has room for them and its size never overflows, and every range was flushed and
  invalidated right before it was unmapped.
\<close>

theorem residency_invariant:
  assumes "mmap_law env" and "residency_reachable env r"
  shows "residency_ok r \<and>
    unat (mapped_bytes r) = (\<Sum>e\<leftarrow>rs_entries r. unat (re_size e)) \<and> unat (mapped_bytes r) \<le> 2 ^ 32 \<and>
    (in_use_bytes r > 0 \<longleftrightarrow> (\<exists>e\<in>set (rs_entries r). in_use e)) \<and> length (rs_entries r) < 2 ^ 20"
  using residency_reachable_ok [OF assms(2,1)] mapped_bytes_exact in_use_bytes_zero entries_bound by blast

theorem residency_invariant_witness: "residency_ok sample_residency"
  using residency_invariant [OF sample_env_law sample_reachable] by simp

text \<open>
  C35: acquiring an allocation. On success it is mapped at the returned address and held once more,
  and a new mapping leaves the cache within its budget. On failure nothing is held that was not: an
  empty allocation is a bad parameter; "would block" means that everything that could be unmapped
  was and something is still in use; "no memory" means that nothing is left to unmap, or that the
  array of entries could not grow. Either way, held allocations stay where they are.
\<close>

theorem residency_acquire_correct:
  assumes "mmap_law env" and "residency_ok r" and "holds r fd < 2 ^ 32 - 1"
  shows "case residency_acquire env fd n r of (res, r') \<Rightarrow>
    residency_ok r' \<and> held_kept r r' \<and>
    (case res of
       Inr a \<Rightarrow> holds r' = (holds r)(fd := holds r fd + 1) \<and>
         (\<exists>e\<in>set (rs_entries r'). re_fd e = fd \<and> re_vaddr e = a) \<and>
         (fd \<notin> mapped_fds r \<longrightarrow> unat (mapped_bytes r') \<le> unat (rs_budget r))
     | Inl err \<Rightarrow> holds r' = holds r \<and> fd \<notin> mapped_fds r \<and>
         (err = AEE_EBADPARM \<and> n = 0 \<and> r' = r \<or>
          err = AEE_EWOULDBLOCK \<and> rs_entries r' \<noteq> [] \<and> (\<forall>e\<in>set (rs_entries r'). in_use e) \<or>
          err = AEE_ENOMEMORY \<and> (rs_entries r' = [] \<or> (\<exists>b h. rs_history r' = Realloc b False # h))))"
proof -
  obtain res r' where run: "residency_acquire env fd n r = (res, r')" by (cases "residency_acquire env fd n r")
  show ?thesis
  proof (cases "residency_find r fd")
    case (Some idx)
    then have "fd \<in> mapped_fds r" using residency_find_None [of r fd] by (simp add: mapped_fds_def)
    with acquire_hit [OF assms(2,3) Some run] run show ?thesis by (auto simp: fun_eq_iff)
  next
    case None
    then have new: "fd \<notin> mapped_fds r" by (simp add: mapped_fds_def residency_find_None)
    show ?thesis
    proof (cases "n = 0")
      case True
      with None new run assms(2) show ?thesis
        by (auto simp: residency_acquire_def evicted_held_kept)
    next
      case False
      from acquire_miss [OF assms(2,1) None False run] run new show ?thesis
        by (cases res) (auto simp: fun_eq_iff)
    qed
  qed
qed

theorem residency_acquire_correct_witness:
  "residency_ok (snd (residency_acquire sample_env 3 4096 sample_residency)) \<and>
   holds (snd (residency_acquire sample_env 3 4096 sample_residency)) 3 = 1"
proof -
  have "holds sample_residency f = 0" for f
    by (simp add: sample_residency_eq residency_create_def holds_def)
  with residency_acquire_correct [OF sample_env_law residency_reachable_ok [OF sample_reachable sample_env_law], of 3 4096]
  show ?thesis by (simp add: sample_acquire)
qed

text \<open>
  C16: the cache implements a counter of holds: over any run of calls, how often an allocation is
  held is what its successful acquisitions and its releases make it, whatever was evicted,
  forgotten or mapped again in between.
\<close>

theorem residency_refines_holds:
  assumes "mmap_law env" and "residency_reachable env r" and "countable_run env cs r"
    and "residency_run env cs r = (bs, r')"
  shows "holds r' = hold_run cs bs (holds r)"
  using residency_run_ok [OF assms(1) residency_reachable_ok [OF assms(2,1)] assms(3,4)] by simp

definition sample_calls :: "residency_call list" where
  "sample_calls = [Acquire 3 4096, Acquire 3 4096, Acquire 5 4096, Release 3, Invalidate 3 0 64 True, Forget 3]"

lemma sample_run:
  "residency_run sample_env sample_calls sample_residency =
     ([True, True, False, False, False, False],
      \<lparr>rs_budget = 8192, mapped_bytes = 4096, in_use_bytes = 4096, use_counter = 2,
        rs_entries = [\<lparr>re_fd = 3, re_size = 4096, re_vaddr = 4096, re_ref_count = 1, re_last_use = 2\<rparr>],
        rs_capacity = 64, rs_history = [CacheClean 4096 64 FLUSH_INVALIDATE True, Mmap 5 4096 None,
          Mmap 3 4096 (Some 4096), Realloc 2048 True]\<rparr>)"
  by (simp add: sample_calls_def residency_eval sample_residency_eq evict_one_def lru_step_def out_of_room_def
      residency_release_def invalidate_if_mapped_def residency_forget_def upt_rec)

lemma sample_countable: "countable_run sample_env sample_calls sample_residency"
  by (simp add: sample_calls_def residency_eval sample_residency_eq evict_one_def lru_step_def out_of_room_def
      residency_release_def invalidate_if_mapped_def residency_forget_def upt_rec countable_call_def holds_def)

theorem residency_refines_holds_witness:
  "holds (snd (residency_run sample_env sample_calls sample_residency)) 3 = 1"
proof -
  have "holds sample_residency f = 0" for f
    by (simp add: sample_residency_eq residency_create_def holds_def)
  moreover have "holds (snd (residency_run sample_env sample_calls sample_residency)) =
      hold_run sample_calls [True, True, False, False, False, False] (holds sample_residency)"
    using residency_refines_holds [OF sample_env_law sample_reachable sample_countable sample_run]
    by (simp only: sample_run snd_conv)
  ultimately show ?thesis by (simp add: sample_calls_def hold_step_def)
qed

text \<open>
  C31: as long as an allocation is held, it stays mapped at the address that acquiring it gave,
  through any run of other calls: budget changes, evictions for other allocations, cache
  maintenance, and the host forgetting it.
\<close>

theorem held_allocation_stays_mapped:
  assumes "mmap_law env" and "residency_reachable env r" and "countable_run env cs r"
    and "residency_run env cs r = (bs, r')" and "held_through env fd cs r"
    and "e \<in> set (rs_entries r)" and "re_fd e = fd"
  shows "\<exists>e'\<in>set (rs_entries r'). re_fd e' = fd \<and> re_vaddr e' = re_vaddr e \<and> re_size e' = re_size e \<and>
    (re_vaddr e, re_size e) \<in> mapped_ranges (rs_history r')"
proof -
  have ok: "residency_ok r" using assms(1,2) by (rule residency_reachable_ok [rotated])
  from residency_run_kept [OF assms(1) ok assms(3-7)] obtain e' where
    e': "e' \<in> set (rs_entries r')" "re_fd e' = fd" "entry_range e' = entry_range e" by blast
  moreover have "residency_ok r'" using residency_run_ok [OF assms(1) ok assms(3,4)] by simp
  ultimately have "entry_range e' \<in> mapped_ranges (rs_history r')" by (auto simp: residency_ok_def entry_ok_def)
  with e' show ?thesis by (intro bexI [of _ e']) (auto simp: entry_range_def)
qed

definition sample_held :: residency where
  "sample_held = snd (residency_step sample_env (Acquire 3 4096) sample_residency)"

lemma sample_held_facts:
  "residency_reachable sample_env sample_held"
  "countable_run sample_env [Acquire 5 4096, Forget 3, SetBudget 1] sample_held"
  "held_through sample_env 3 [Acquire 5 4096, Forget 3, SetBudget 1] sample_held"
  "\<lparr>re_fd = 3, re_size = 4096, re_vaddr = 4096, re_ref_count = 1, re_last_use = 1\<rparr> \<in> set (rs_entries sample_held)"
proof -
  have "countable_call (Acquire 3 4096) sample_residency"
    by (simp add: countable_call_def sample_residency_eq residency_create_def holds_def)
  then show "residency_reachable sample_env sample_held"
    unfolding sample_held_def by (intro reach_step sample_reachable)
qed (simp_all add: sample_held_def residency_eval sample_residency_eq evict_one_def lru_step_def out_of_room_def
      residency_set_budget_def residency_forget_def upt_rec countable_call_def holds_def)

theorem held_allocation_stays_mapped_witness:
  "\<exists>e'\<in>set (rs_entries (snd (residency_run sample_env [Acquire 5 4096, Forget 3, SetBudget 1] sample_held))).
     re_fd e' = 3 \<and> re_vaddr e' = 4096"
  using held_allocation_stays_mapped [OF sample_env_law sample_held_facts(1,2) _ sample_held_facts(3,4)]
  by (metis prod.collapse residency_entry.simps(1,2,3))

text \<open>
  Eviction takes one allocation that is not in use and was used least recently, after flushing
  and invalidating its range, and nothing else; it fails only when everything is in use.
\<close>

theorem eviction_correct:
  assumes "residency_ok r"
  shows "case evict_one env r of
      None \<Rightarrow> \<forall>e\<in>set (rs_entries r). in_use e
    | Some r' \<Rightarrow> \<exists>e\<in>set (rs_entries r). \<not> in_use e \<and>
        (\<forall>e'\<in>set (rs_entries r). \<not> in_use e' \<longrightarrow> re_last_use e \<le> re_last_use e') \<and>
        set (rs_entries r') = set (rs_entries r) - {e} \<and>
        (\<exists>b c. rs_history r' = Munmap (re_vaddr e) (re_size e) b #
           CacheClean (re_vaddr e) (re_size e) FLUSH_INVALIDATE c # rs_history r)"
proof (cases "evict_one env r")
  case None
  then have "\<forall>e\<in>set (rs_entries r). in_use e" by (simp add: evict_one_None)
  with None show ?thesis by simp
next
  case (Some r')
  then show ?thesis
  proof (rule evict_one_Some)
    fix i
    assume lr: "least_recent (rs_entries r) (length (rs_entries r)) i" and r': "r' = unmap_entry env i r"
    let ?e = "rs_entries r ! i"
    from lr have i: "i < length (rs_entries r)" and "\<not> in_use ?e" by (simp_all add: least_recent_def)
    moreover have "\<forall>e'\<in>set (rs_entries r). \<not> in_use e' \<longrightarrow> re_last_use ?e \<le> re_last_use e'"
      using lr by (auto simp: least_recent_def in_set_conv_nth)
    moreover have "set (rs_entries r') = set (rs_entries r) - {?e}"
      using swap_remove_facts(2) [OF i] swap_remove_facts(3) [OF i, of re_fd] assms
      by (auto simp: r' residency_ok_def)
    moreover have "\<exists>b c. rs_history r' = Munmap (re_vaddr ?e) (re_size ?e) b #
        CacheClean (re_vaddr ?e) (re_size ?e) FLUSH_INVALIDATE c # rs_history r"
      using unmap_entry_fields(6) [of env i r] by (auto simp: r')
    ultimately show ?thesis using Some by (auto intro!: bexI [of _ ?e])
  qed
qed

definition sample_unused :: residency where
  "sample_unused = residency_release 3 sample_held"

lemma sample_unused_entries:
  "rs_entries sample_unused = [\<lparr>re_fd = 3, re_size = 4096, re_vaddr = 4096, re_ref_count = 0, re_last_use = 1\<rparr>]"
  by (simp add: sample_unused_def residency_release_def residency_find_def sample_held_def residency_step_def
      sample_acquire Let_def)

theorem eviction_correct_witness:
  "case evict_one sample_env sample_unused of None \<Rightarrow> False | Some r' \<Rightarrow> rs_entries r' = []"
proof -
  have "residency_ok sample_unused"
    using release_ok [OF residency_reachable_ok [OF sample_held_facts(1) sample_env_law]]
    by (simp add: sample_unused_def)
  from eviction_correct [OF this, of sample_env] show ?thesis
    by (auto simp: sample_unused_entries in_use_def split: option.splits)
qed

end
