(* ===== verification/Wire_Format.thy ===== *)
theory Wire_Format
  imports Dsp_Status
begin

text \<open>
  The data that the host sends to the DSP: the packed structures of
  \<open>plugins/runtime/hexagon/arm_dsp/cmd_buf.h\<close> and \<open>arm_dsp/bindings.h\<close> and their memory images.
  Both processors are little endian. The command type is one byte; a file descriptor of -1 means
  that the slot of the binding table is used instead.

  The interface between the writer and the readers is the locale \<open>wire_struct\<close>: a (legal) structure
  has an image of a fixed size and is read back from it.
\<close>

section \<open>Bytes of a word\<close>

definition le_bytes :: "nat \<Rightarrow> 'a::len word \<Rightarrow> u8 list" where
  "le_bytes n w = map (\<lambda>i. ucast (drop_bit (8 * i) w)) [0..<n]"

fun le_word :: "u8 list \<Rightarrow> 'a::len word" where
  "le_word [] = 0"
| "le_word (b # bs) = ucast b OR push_bit 8 (le_word bs)"

lemma length_le_bytes [simp]: "length (le_bytes n w) = n"
  by (simp add: le_bytes_def)

lemma bit_le_word:
  "bit (le_word bs :: 'a::len word) k \<longleftrightarrow>
     k < LENGTH('a) \<and> k div 8 < length bs \<and> bit (bs ! (k div 8)) (k mod 8)"
proof (induction bs arbitrary: k)
  case (Cons b bs)
  show ?case
  proof (cases "k < 8")
    case True
    then show ?thesis by (auto simp: bit_or_iff bit_push_bit_iff bit_ucast_iff)
  next
    case False
    then have "k div 8 = Suc ((k - 8) div 8)" "k mod 8 = (k - 8) mod 8"
      by (simp_all add: le_div_geq le_mod_geq)
    moreover have "\<not> bit b k" using False by (auto dest: bit_imp_le_length)
    ultimately show ?thesis using False
      by (auto simp: bit_or_iff bit_push_bit_iff bit_ucast_iff Cons.IH)
  qed
qed simp

lemma le_word_bytes:
  assumes "LENGTH('a) \<le> 8 * n"
  shows "le_word (le_bytes n w) = (w :: 'a::len word)"
proof (rule bit_word_eqI)
  fix k assume k: "k < LENGTH('a)"
  with assms have "k div 8 < n" by (simp add: less_mult_imp_div_less mult.commute)
  with k show "bit (le_word (le_bytes n w) :: 'a word) k \<longleftrightarrow> bit w k"
    by (simp add: bit_le_word le_bytes_def bit_ucast_iff bit_drop_bit_eq)
qed

lemma le_word_bytes_sizes [simp]:
  "le_word (le_bytes 1 b) = (b :: u8)" "le_word (le_bytes (Suc 0) b) = (b :: u8)"
  "le_word (le_bytes 2 h) = (h :: u16)" "le_word (le_bytes 4 w) = (w :: u32)"
  "le_word (le_bytes 8 d) = (d :: u64)"
  by (simp_all add: le_word_bytes)

definition slice :: "nat \<Rightarrow> nat \<Rightarrow> 'a list \<Rightarrow> 'a list" where
  "slice a n bs = take n (drop a bs)"

section \<open>Reading\<close>

text \<open>The pointer and the remaining size of a reader are the list of the remaining bytes.
  \<open>PEEK_SERIALIZED\<close> and \<open>READ_SERIALIZED\<close> of \<open>dsp/command_buffer.c\<close>:\<close>

definition peek_serialized :: "nat \<Rightarrow> (u8 list \<Rightarrow> 'a) \<Rightarrow> u8 list \<Rightarrow> aee + 'a" where
  "peek_serialized n dec bs = (if length bs < n then Inl AEE_EINCOMPLETEITEM else Inr (dec (take n bs)))"

definition read_serialized :: "nat \<Rightarrow> (u8 list \<Rightarrow> 'a) \<Rightarrow> u8 list \<Rightarrow> aee + 'a \<times> u8 list" where
  "read_serialized n dec bs =
     bind_res (peek_serialized n dec bs) (\<lambda>v. Inr (v, drop n bs))"

text \<open>A loop that reads a structure per iteration.\<close>

fun read_loop :: "nat \<Rightarrow> (u8 list \<Rightarrow> 'a) \<Rightarrow> ('a \<Rightarrow> 's \<Rightarrow> aee + 's) \<Rightarrow> nat \<Rightarrow> u8 list \<Rightarrow> 's \<Rightarrow> aee + 's \<times> u8 list" where
  "read_loop n dec step 0 bs s = Inr (s, bs)"
| "read_loop n dec step (Suc k) bs s =
     bind_res (read_serialized n dec bs) (\<lambda>(v, bs'). bind_res (step v s) (\<lambda>s'. read_loop n dec step k bs' s'))"

locale wire_struct =
  fixes bytes :: nat
    and enc :: "'a \<Rightarrow> u8 list"
    and dec :: "u8 list \<Rightarrow> 'a"
    and legal :: "'a \<Rightarrow> bool"
  assumes enc_length: "legal x \<Longrightarrow> length (enc x) = bytes"
    and dec_enc: "legal x \<Longrightarrow> dec (enc x) = x"
begin

lemma peek_enc: "legal x \<Longrightarrow> peek_serialized bytes dec (enc x @ bs) = Inr x"
  by (simp add: peek_serialized_def enc_length dec_enc)

lemma read_enc: "legal x \<Longrightarrow> read_serialized bytes dec (enc x @ bs) = Inr (x, bs)"
  by (simp add: read_serialized_def peek_enc enc_length)

lemma read_loop_enc:
  "\<forall>x\<in>set xs. legal x \<Longrightarrow> read_loop bytes dec step (length xs) (concat (map enc xs) @ bs) s =
     bind_res (fold_res step xs s) (\<lambda>s'. Inr (s', bs))"
proof (induction xs arbitrary: s)
  case (Cons x xs)
  then show ?case by (cases "step x s") (simp_all add: read_enc)
qed simp

lemma enc_inj: "legal x \<Longrightarrow> legal y \<Longrightarrow> enc x = enc y \<Longrightarrow> x = y"
  by (metis dec_enc)

lemma length_concat_enc: "\<forall>x\<in>set xs. legal x \<Longrightarrow> length (concat (map enc xs)) = bytes * length xs"
  by (induction xs) (simp_all add: enc_length)

end

section \<open>The structures\<close>

text \<open>\<open>arm_dsp/bindings.h\<close>.\<close>

record binding =
  bi_fd :: i32
  bi_offset :: u64
  bi_length :: u64
  bi_alloc_size :: u64

definition binding_bytes :: "binding \<Rightarrow> u8 list" where
  "binding_bytes b = le_bytes 4 (bi_fd b) @ le_bytes 8 (bi_offset b) @ le_bytes 8 (bi_length b) @
     le_bytes 8 (bi_alloc_size b)"

definition binding_of :: "u8 list \<Rightarrow> binding" where
  "binding_of bs = \<lparr>bi_fd = le_word (slice 0 4 bs), bi_offset = le_word (slice 4 8 bs),
     bi_length = le_word (slice 12 8 bs), bi_alloc_size = le_word (slice 20 8 bs)\<rparr>"

interpretation binding_wire: wire_struct 28 binding_bytes binding_of "\<lambda>_. True"
  by unfold_locales (simp_all add: binding_bytes_def binding_of_def slice_def)

text \<open>A header with a count: \<open>hexagon_rt_arm_dsp_binding_tab_t\<close> and \<open>hexagon_rt_arm_dsp_cmd_buf_t\<close>,
  and the constant \<open>hexagon_rt_arm_dsp_con_t\<close>.\<close>

definition u32_bytes :: "u32 \<Rightarrow> u8 list" where
  "u32_bytes n = le_bytes 4 n"

definition u32_of :: "u8 list \<Rightarrow> u32" where
  "u32_of bs = le_word (slice 0 4 bs)"

interpretation u32_wire: wire_struct 4 u32_bytes u32_of "\<lambda>_. True"
  by unfold_locales (simp_all add: u32_bytes_def u32_of_def slice_def)

text \<open>\<open>arm_dsp/cmd_buf.h\<close>.\<close>

record buf_ref =
  br_slot :: u32
  br_fd :: i32
  br_offset :: u64
  br_length :: u64
  br_alloc_size :: u64

definition buf_ref_bytes :: "buf_ref \<Rightarrow> u8 list" where
  "buf_ref_bytes b = le_bytes 4 (br_slot b) @ le_bytes 4 (br_fd b) @ le_bytes 8 (br_offset b) @
     le_bytes 8 (br_length b) @ le_bytes 8 (br_alloc_size b)"

definition buf_ref_of :: "u8 list \<Rightarrow> buf_ref" where
  "buf_ref_of bs = \<lparr>br_slot = le_word (slice 0 4 bs), br_fd = le_word (slice 4 4 bs),
     br_offset = le_word (slice 8 8 bs), br_length = le_word (slice 16 8 bs),
     br_alloc_size = le_word (slice 24 8 bs)\<rparr>"

interpretation buf_ref_wire: wire_struct 32 buf_ref_bytes buf_ref_of "\<lambda>_. True"
  by unfold_locales (simp_all add: buf_ref_bytes_def buf_ref_of_def slice_def)

definition CMD_DISPATCH :: u8 where "CMD_DISPATCH = 0"
definition CMD_BARRIER :: u8 where "CMD_BARRIER = 1"
definition CMD_COPY :: u8 where "CMD_COPY = 2"
definition CMD_FILL :: u8 where "CMD_FILL = 3"

definition cmd_type_of :: "u8 list \<Rightarrow> u8" where
  "cmd_type_of bs = le_word (slice 0 1 bs)"

record cmd_dispatch =
  cd_cmd_type :: u8
  cd_function_handle :: i64
  cd_workgroup_size_x :: u32
  cd_workgroup_size_y :: u32
  cd_workgroup_size_z :: u16
  cd_workgroup_count_x :: u32
  cd_workgroup_count_y :: u32
  cd_workgroup_count_z :: u16
  cd_constant_count :: u16
  cd_num_bindings :: u32

definition cmd_dispatch_bytes :: "cmd_dispatch \<Rightarrow> u8 list" where
  "cmd_dispatch_bytes d = le_bytes 1 (cd_cmd_type d) @ le_bytes 8 (cd_function_handle d) @
     le_bytes 4 (cd_workgroup_size_x d) @ le_bytes 4 (cd_workgroup_size_y d) @ le_bytes 2 (cd_workgroup_size_z d) @
     le_bytes 4 (cd_workgroup_count_x d) @ le_bytes 4 (cd_workgroup_count_y d) @ le_bytes 2 (cd_workgroup_count_z d) @
     le_bytes 2 (cd_constant_count d) @ le_bytes 4 (cd_num_bindings d)"

definition cmd_dispatch_of :: "u8 list \<Rightarrow> cmd_dispatch" where
  "cmd_dispatch_of bs = \<lparr>cd_cmd_type = le_word (slice 0 1 bs), cd_function_handle = le_word (slice 1 8 bs),
     cd_workgroup_size_x = le_word (slice 9 4 bs), cd_workgroup_size_y = le_word (slice 13 4 bs),
     cd_workgroup_size_z = le_word (slice 17 2 bs), cd_workgroup_count_x = le_word (slice 19 4 bs),
     cd_workgroup_count_y = le_word (slice 23 4 bs), cd_workgroup_count_z = le_word (slice 27 2 bs),
     cd_constant_count = le_word (slice 29 2 bs), cd_num_bindings = le_word (slice 31 4 bs)\<rparr>"

interpretation cmd_dispatch_wire: wire_struct 35 cmd_dispatch_bytes cmd_dispatch_of "\<lambda>_. True"
  by unfold_locales (simp_all add: cmd_dispatch_bytes_def cmd_dispatch_of_def slice_def)

definition cmd_barrier_bytes :: "u8 \<Rightarrow> u8 list" where
  "cmd_barrier_bytes t = le_bytes 1 t"

interpretation cmd_barrier_wire: wire_struct 1 cmd_barrier_bytes cmd_type_of "\<lambda>_. True"
  by unfold_locales (simp_all add: cmd_barrier_bytes_def cmd_type_of_def slice_def)

record cmd_copy =
  cc_cmd_type :: u8
  cc_src :: buf_ref
  cc_trgt :: buf_ref

definition cmd_copy_bytes :: "cmd_copy \<Rightarrow> u8 list" where
  "cmd_copy_bytes c = le_bytes 1 (cc_cmd_type c) @ buf_ref_bytes (cc_src c) @ buf_ref_bytes (cc_trgt c)"

definition cmd_copy_of :: "u8 list \<Rightarrow> cmd_copy" where
  "cmd_copy_of bs = \<lparr>cc_cmd_type = le_word (slice 0 1 bs), cc_src = buf_ref_of (slice 1 32 bs),
     cc_trgt = buf_ref_of (slice 33 32 bs)\<rparr>"

interpretation cmd_copy_wire: wire_struct 65 cmd_copy_bytes cmd_copy_of "\<lambda>_. True"
  by unfold_locales
    (simp_all add: cmd_copy_bytes_def cmd_copy_of_def slice_def buf_ref_wire.enc_length buf_ref_wire.dec_enc)

record cmd_fill =
  cf_cmd_type :: u8
  cf_pattern_length :: u8
  cf_pattern :: "u8 list"
  cf_trgt :: buf_ref

text \<open>The pattern is an array of 4 bytes.\<close>

definition cmd_fill_bytes :: "cmd_fill \<Rightarrow> u8 list" where
  "cmd_fill_bytes f = le_bytes 1 (cf_cmd_type f) @ le_bytes 1 (cf_pattern_length f) @ cf_pattern f @
     buf_ref_bytes (cf_trgt f)"

definition cmd_fill_of :: "u8 list \<Rightarrow> cmd_fill" where
  "cmd_fill_of bs = \<lparr>cf_cmd_type = le_word (slice 0 1 bs), cf_pattern_length = le_word (slice 1 1 bs),
     cf_pattern = slice 2 4 bs, cf_trgt = buf_ref_of (slice 6 32 bs)\<rparr>"

definition cmd_fill_legal :: "cmd_fill \<Rightarrow> bool" where
  "cmd_fill_legal f \<longleftrightarrow> length (cf_pattern f) = 4"

interpretation cmd_fill_wire: wire_struct 38 cmd_fill_bytes cmd_fill_of cmd_fill_legal
  by unfold_locales
    (simp_all add: cmd_fill_bytes_def cmd_fill_of_def cmd_fill_legal_def slice_def
      buf_ref_wire.enc_length buf_ref_wire.dec_enc)

section \<open>Commands\<close>

text \<open>A command and what its image consists of: a dispatch is followed by its constants and buffer
  references.\<close>

datatype command =
    DispatchCmd cmd_dispatch "u32 list" "buf_ref list"
  | BarrierCmd
  | CopyCmd buf_ref buf_ref
  | FillCmd u8 "u8 list" buf_ref

fun command_bytes :: "command \<Rightarrow> u8 list" where
  "command_bytes (DispatchCmd d cs refs) =
     cmd_dispatch_bytes d @ concat (map u32_bytes cs) @ concat (map buf_ref_bytes refs)"
| "command_bytes BarrierCmd = cmd_barrier_bytes CMD_BARRIER"
| "command_bytes (CopyCmd s t) = cmd_copy_bytes \<lparr>cc_cmd_type = CMD_COPY, cc_src = s, cc_trgt = t\<rparr>"
| "command_bytes (FillCmd n pat t) =
     cmd_fill_bytes \<lparr>cf_cmd_type = CMD_FILL, cf_pattern_length = n, cf_pattern = pat, cf_trgt = t\<rparr>"

fun command_ok :: "command \<Rightarrow> bool" where
  "command_ok (DispatchCmd d cs refs) \<longleftrightarrow> cd_cmd_type d = CMD_DISPATCH \<and>
     length cs = unat (cd_constant_count d) \<and> length refs = unat (cd_num_bindings d)"
| "command_ok (FillCmd n pat t) \<longleftrightarrow> length pat = 4"
| "command_ok _ \<longleftrightarrow> True"

fun command_type :: "command \<Rightarrow> u8" where
  "command_type (DispatchCmd d cs refs) = CMD_DISPATCH"
| "command_type BarrierCmd = CMD_BARRIER"
| "command_type (CopyCmd s t) = CMD_COPY"
| "command_type (FillCmd n pat t) = CMD_FILL"

lemmas struct_lengths = binding_wire.enc_length u32_wire.enc_length buf_ref_wire.enc_length
  cmd_dispatch_wire.enc_length cmd_barrier_wire.enc_length cmd_copy_wire.enc_length cmd_fill_wire.enc_length

lemma peek_command_type:
  assumes "command_ok c"
  shows "peek_serialized 1 cmd_type_of (command_bytes c @ bs) = Inr (command_type c)"
  using assms
  by (cases c) (simp_all add: peek_serialized_def cmd_type_of_def slice_def cmd_dispatch_bytes_def
      cmd_barrier_bytes_def cmd_copy_bytes_def cmd_fill_bytes_def)

lemma command_bytes_nonempty: "command_ok c \<Longrightarrow> command_bytes c \<noteq> []"
  using peek_command_type [of c "[]"] by (auto simp: peek_serialized_def)

text \<open>Four bytes are a word.\<close>

lemma le_bytes_word:
  assumes "length bs = n" and "8 * n \<le> LENGTH('a)"
  shows "le_bytes n (le_word bs :: 'a::len word) = bs"
proof (rule nth_equalityI)
  fix i assume "i < length (le_bytes n (le_word bs :: 'a word))"
  then have i: "i < n" by simp
  show "le_bytes n (le_word bs :: 'a word) ! i = bs ! i"
  proof (rule bit_word_eqI)
    fix k assume k: "k < LENGTH(8)"
    then have "8 * i + k < LENGTH('a)" "(8 * i + k) div 8 = i" "(8 * i + k) mod 8 = k" using i assms(2) by auto
    with i k assms(1) show "bit (le_bytes n (le_word bs :: 'a word) ! i) k = bit (bs ! i) k"
      by (simp add: le_bytes_def bit_ucast_iff bit_drop_bit_eq bit_le_word add.commute)
  qed
qed (simp add: assms)

fun words_of :: "u8 list \<Rightarrow> u32 list" where
  "words_of (a # b # c # d # bs) = u32_of [a, b, c, d] # words_of bs"
| "words_of _ = []"

lemma words_of_bytes: "4 dvd length bs \<Longrightarrow> concat (map u32_bytes (words_of bs)) = bs"
proof (induction bs rule: words_of.induct)
  case (1 a b c d bs)
  have "u32_bytes (u32_of [a, b, c, d]) = [a, b, c, d]"
    by (simp only: u32_bytes_def u32_of_def slice_def) (subst le_bytes_word; simp)
  moreover from 1(2) have "4 dvd length bs + 4" by (simp add: numeral_eq_Suc)
  then have "4 dvd length bs" by (simp only: dvd_add_triv_right_iff)
  ultimately show ?case using 1(1) by simp
qed (auto dest: dvd_imp_le)

lemma length_words_of: "length (words_of bs) = length bs div 4"
  by (induction bs rule: words_of.induct) auto

end
