(* ===== verification/Serialize.thy ===== *)
theory Serialize
  imports Wire_Format
begin

text \<open>
  The host's serialization of commands and binding tables: \<open>plugins/runtime/hexagon/serialize/\<close>.
  Every function exists twice: \<open>_prep\<close> computes the size of the buffer, \<open>_exec\<close> writes into it and
  fails when it does not fit. Host sizes are 64-bit words. A buffer being written is the list of the
  bytes written so far; its capacity is the number of bytes that were allocated.

  Buffers belong to IREE: they are numbers, and normalizing a reference to a subspan buffer is a
  parameter, as is the lookup of a file descriptor, which the code passes as a function pointer.
\<close>

section \<open>IREE data\<close>

record hal_buffer_ref =
  hr_buffer_slot :: u32
  hr_buffer :: "nat option"
  hr_offset :: u64
  hr_length :: u64

record hal_binding =
  hb_buffer :: nat
  hb_offset :: u64
  hb_length :: u64

record hal_dispatch_config =
  workgroup_size_0 :: u32
  workgroup_size_1 :: u32
  workgroup_size_2 :: u32
  workgroup_count_0 :: u32
  workgroup_count_1 :: u32
  workgroup_count_2 :: u32
  workgroup_count_ref_length :: u64
  dynamic_workgroup_local_memory :: u32

record host_env =
  buffer_ref_normalize :: "hal_buffer_ref \<Rightarrow> iree_status + hal_buffer_ref"
  buffer_binding_normalize :: "hal_binding \<Rightarrow> iree_status + hal_binding"
  get_buffer_fd :: "nat \<Rightarrow> iree_status + i32 \<times> u64"

section \<open>\<open>serialize.h\<close>\<close>

text \<open>\<open>SERIALIZE_CHECK_SIZE\<close>, and appending what \<open>SERIALIZE_TO\<close> and \<open>SERIALIZE_COPY_TO\<close> reserve.\<close>

definition serialize_check_size :: "u64 \<Rightarrow> nat \<Rightarrow> u8 list \<Rightarrow> iree_status + unit" where
  "serialize_check_size cap n out = fail_if (length out + n > unat cap) INTERNAL"

definition serialize_to :: "u64 \<Rightarrow> u8 list \<Rightarrow> u8 list \<Rightarrow> iree_status + u8 list" where
  "serialize_to cap bs out = bind_res (serialize_check_size cap (length bs) out) (\<lambda>_. Inr (out @ bs))"

text \<open>The file descriptor of a normalized reference: -1 without a buffer, which means its slot.\<close>

definition ref_fd :: "host_env \<Rightarrow> hal_buffer_ref \<Rightarrow> iree_status + i32 \<times> u64" where
  "ref_fd env r = (case hr_buffer r of None \<Rightarrow> Inr (- 1, 0) | Some b \<Rightarrow> get_buffer_fd env b)"

definition wire_ref :: "hal_buffer_ref \<Rightarrow> i32 \<times> u64 \<Rightarrow> buf_ref" where
  "wire_ref r f = \<lparr>br_slot = hr_buffer_slot r, br_fd = fst f, br_offset = hr_offset r,
     br_length = hr_length r, br_alloc_size = snd f\<rparr>"

section \<open>Dispatches: \<open>cmd_dispatch_serialize.c\<close>\<close>

definition dispatch_constant_count :: "u8 list \<Rightarrow> iree_status + u16" where
  "dispatch_constant_count constants =
     (let data_length = of_nat (length constants) :: u64
      in if data_length AND 3 \<noteq> 0 then Inl UNIMPLEMENTED
         else let constant_count = data_length div 4
              in if constant_count > 65535 then Inl OUT_OF_RANGE else Inr (ucast constant_count))"

definition dispatch_serialize_prep :: "u8 list \<Rightarrow> hal_buffer_ref list \<Rightarrow> iree_status + u64" where
  "dispatch_serialize_prep constants bindings =
     bind_res (dispatch_constant_count constants) (\<lambda>constant_count.
     Inr (35 + ucast constant_count * 4 + of_nat (length bindings) * 32))"

definition serialize_binding_ref :: "host_env \<Rightarrow> u64 \<Rightarrow> hal_buffer_ref \<Rightarrow> u8 list \<Rightarrow> iree_status + u8 list" where
  "serialize_binding_ref env cmd_size b out =
     bind_res (buffer_ref_normalize env b) (\<lambda>nb.
     bind_res (ref_fd env nb) (\<lambda>f.
     serialize_to cmd_size (buf_ref_bytes (wire_ref nb f)) out))"

definition dispatch_serialize_exec ::
  "host_env \<Rightarrow> i64 \<Rightarrow> hal_dispatch_config \<Rightarrow> u8 list \<Rightarrow> hal_buffer_ref list \<Rightarrow> u64 \<Rightarrow> iree_status + u8 list" where
  "dispatch_serialize_exec env function_handle config constants bindings cmd_size =
     (if workgroup_size_2 config > 65535 then Inl OUT_OF_RANGE
      else if workgroup_count_ref_length config \<noteq> 0 then Inl UNIMPLEMENTED
      else if dynamic_workgroup_local_memory config \<noteq> 0 then Inl UNIMPLEMENTED
      else
        bind_res (dispatch_constant_count constants) (\<lambda>constant_count.
        let dispatch = \<lparr>cd_cmd_type = CMD_DISPATCH, cd_function_handle = function_handle,
              cd_workgroup_size_x = (if workgroup_size_0 config \<noteq> 0 then workgroup_size_0 config else 1),
              cd_workgroup_size_y = (if workgroup_size_1 config \<noteq> 0 then workgroup_size_1 config else 1),
              cd_workgroup_size_z = (if workgroup_size_2 config \<noteq> 0 then ucast (workgroup_size_2 config) else 1),
              cd_workgroup_count_x = workgroup_count_0 config, cd_workgroup_count_y = workgroup_count_1 config,
              cd_workgroup_count_z = ucast (workgroup_count_2 config), cd_constant_count = constant_count,
              cd_num_bindings = of_nat (length bindings)\<rparr>
        in bind_res (serialize_to cmd_size (cmd_dispatch_bytes dispatch) []) (\<lambda>out.
           bind_res (serialize_to cmd_size (take (unat constant_count * 4) constants) out) (\<lambda>out.
           fold_res (serialize_binding_ref env cmd_size) bindings out))))"

section \<open>Barriers, copies and fills\<close>

definition barrier_serialize_prep :: u64 where
  "barrier_serialize_prep = 1"

definition barrier_serialize_exec :: "u64 \<Rightarrow> iree_status + u8 list" where
  "barrier_serialize_exec cmd_size = serialize_to cmd_size (cmd_barrier_bytes CMD_BARRIER) []"

definition copy_serialize_prep :: u64 where
  "copy_serialize_prep = 65"

definition copy_serialize_exec ::
  "host_env \<Rightarrow> hal_buffer_ref \<Rightarrow> hal_buffer_ref \<Rightarrow> u64 \<Rightarrow> iree_status + u8 list" where
  "copy_serialize_exec env source_ref target_ref cmd_size =
     bind_res (buffer_ref_normalize env source_ref) (\<lambda>s.
     bind_res (buffer_ref_normalize env target_ref) (\<lambda>t.
     bind_res (serialize_check_size cmd_size 65 []) (\<lambda>_.
     bind_res (ref_fd env s) (\<lambda>src.
     bind_res (ref_fd env t) (\<lambda>trgt.
     Inr (cmd_copy_bytes \<lparr>cc_cmd_type = CMD_COPY, cc_src = wire_ref s src, cc_trgt = wire_ref t trgt\<rparr>))))))"

definition fill_serialize_prep :: u64 where
  "fill_serialize_prep = 38"

definition fill_serialize_exec ::
  "host_env \<Rightarrow> u8 \<Rightarrow> u8 list \<Rightarrow> hal_buffer_ref \<Rightarrow> u64 \<Rightarrow> iree_status + u8 list" where
  "fill_serialize_exec env pattern_length pattern target_ref cmd_size =
     bind_res (buffer_ref_normalize env target_ref) (\<lambda>t.
     bind_res (serialize_check_size cmd_size 38 []) (\<lambda>_.
     if pattern_length > 4 then Inl OUT_OF_RANGE
     else bind_res (ref_fd env t) (\<lambda>trgt.
       Inr (cmd_fill_bytes \<lparr>cf_cmd_type = CMD_FILL, cf_pattern_length = pattern_length,
         cf_pattern = take (unat pattern_length) pattern @ replicate (4 - unat pattern_length) 0,
         cf_trgt = wire_ref t trgt\<rparr>))))"

section \<open>Binding tables: \<open>bindings_serialize.c\<close>\<close>

definition bindings_serialize_prep :: "hal_binding list \<Rightarrow> iree_status + u64" where
  "bindings_serialize_prep bindings =
     (if (of_nat (length bindings) :: u64) > 4294967295 then Inl RESOURCE_EXHAUSTED
      else Inr (4 + of_nat (length bindings) * 28))"

definition serialize_binding :: "host_env \<Rightarrow> u64 \<Rightarrow> hal_binding \<Rightarrow> u8 list \<Rightarrow> iree_status + u8 list" where
  "serialize_binding env bind_tab_size b out =
     bind_res (buffer_binding_normalize env b) (\<lambda>nb.
     bind_res (get_buffer_fd env (hb_buffer nb)) (\<lambda>f.
     serialize_to bind_tab_size (binding_bytes \<lparr>bi_fd = fst f, bi_offset = hb_offset nb,
       bi_length = hb_length nb, bi_alloc_size = snd f\<rparr>) out))"

definition bindings_serialize_exec :: "host_env \<Rightarrow> hal_binding list \<Rightarrow> u64 \<Rightarrow> iree_status + u8 list" where
  "bindings_serialize_exec env bindings bind_tab_size =
     bind_res (serialize_to bind_tab_size (u32_bytes (of_nat (length bindings))) [])
       (fold_res (serialize_binding env bind_tab_size) bindings)"

section \<open>Command buffers: \<open>command_buffer_serialize.c\<close>\<close>

text \<open>The recorded entries are the list of their serialized commands.\<close>

definition command_buffer_serialize_prep :: "u8 list list \<Rightarrow> iree_status + u64 \<times> u32" where
  "command_buffer_serialize_prep entries =
     fold_res (\<lambda>entry (cmd_buf_size, num_entries).
         let new_size = cmd_buf_size + of_nat (length entry); n = num_entries + 1
         in if new_size < cmd_buf_size \<or> n = 0 then Inl RESOURCE_EXHAUSTED else Inr (new_size, n))
       entries (4, 0)"

definition command_buffer_serialize_exec :: "u8 list list \<Rightarrow> u32 \<Rightarrow> u64 \<Rightarrow> iree_status + u8 list" where
  "command_buffer_serialize_exec entries num_entries cmd_buf_size =
     bind_res (serialize_to cmd_buf_size (u32_bytes num_entries) [])
       (fold_res (serialize_to cmd_buf_size) entries)"

section \<open>What is written\<close>

lemma serialize_to_Inr [res_simps]:
  "serialize_to cap bs out = Inr out' \<longleftrightarrow> length out + length bs \<le> unat cap \<and> out' = out @ bs"
  by (auto simp: serialize_to_def serialize_check_size_def fail_if_def)

lemma serialize_check_size_Inr [res_simps]:
  "serialize_check_size cap n out = Inr u \<longleftrightarrow> length out + n \<le> unat cap"
  by (auto simp: serialize_check_size_def fail_if_def)

lemma constant_count_Inr:
  assumes "dispatch_constant_count constants = Inr k" and "length constants < 2 ^ 64"
  shows "4 dvd length constants" and "unat k = length constants div 4" and "length constants div 4 \<le> 65535"
proof -
  let ?n = "of_nat (length constants) :: u64"
  have n: "unat ?n = length constants" using assms(2) by (simp add: unat_of_nat)
  have and3: "?n AND 3 = 0" and le: "\<not> ?n div 4 > 65535" and k: "k = ucast (?n div 4)"
    using assms(1) by (auto simp: dispatch_constant_count_def Let_def split: if_splits)
  have "unat (?n AND 3) = length constants mod 4"
  proof -
    have "(3 :: u64) = mask 2" by (simp add: mask_eq_exp_minus_1)
    then have "?n AND 3 = take_bit 2 ?n" by (simp only: take_bit_eq_mask)
    then show ?thesis using n by (simp add: take_bit_eq_mod unat_mod)
  qed
  with and3 show "4 dvd length constants" by (simp add: dvd_eq_mod_eq_0)
  have d: "unat (?n div 4) = length constants div 4" using n by (simp add: unat_div)
  with le show le': "length constants div 4 \<le> 65535" by (simp add: word_less_nat_alt)
  show "unat k = length constants div 4"
    using d le' unfolding k by (simp add: unsigned_ucast_eq take_bit_nat_eq_self)
qed

text \<open>The reference on the wire for a reference of the host.\<close>

definition serialized_ref :: "host_env \<Rightarrow> hal_buffer_ref \<Rightarrow> buf_ref \<Rightarrow> bool" where
  "serialized_ref env b r \<longleftrightarrow>
     (\<exists>nb f. buffer_ref_normalize env b = Inr nb \<and> ref_fd env nb = Inr f \<and> r = wire_ref nb f)"

lemma serialize_binding_ref_Inr [res_simps]:
  "serialize_binding_ref env n b out = Inr out' \<longleftrightarrow>
     (\<exists>r. serialized_ref env b r \<and> length out + 32 \<le> unat n \<and> out' = out @ buf_ref_bytes r)"
  by (fastforce simp: serialize_binding_ref_def serialized_ref_def res_simps struct_lengths)

lemma serialize_refs:
  assumes "fold_res (serialize_binding_ref env n) bindings out = Inr bs"
  shows "\<exists>refs. list_all2 (serialized_ref env) bindings refs \<and> bs = out @ concat (map buf_ref_bytes refs) \<and>
    (bindings \<noteq> [] \<longrightarrow> length bs \<le> unat n)"
  using assms
proof (induction bindings arbitrary: out)
  case (Cons b bindings)
  then obtain r where b: "serialized_ref env b r" and len: "length out + 32 \<le> unat n"
    and rest: "fold_res (serialize_binding_ref env n) bindings (out @ buf_ref_bytes r) = Inr bs"
    by (auto simp: res_simps)
  from Cons.IH [OF rest] obtain refs where
    "list_all2 (serialized_ref env) bindings refs" "bs = out @ buf_ref_bytes r @ concat (map buf_ref_bytes refs)"
    "bindings \<noteq> [] \<longrightarrow> length bs \<le> unat n"
    by auto
  with b len show ?case
    by (intro exI [of _ "r # refs"]) (auto simp: struct_lengths)
qed simp

lemma dispatch_serialize_Inr:
  assumes run: "dispatch_serialize_exec env h config constants bindings n = Inr bs"
    and lens: "length constants < 2 ^ 64" "length bindings < 2 ^ 32"
  shows "\<exists>d refs. bs = command_bytes (DispatchCmd d (words_of constants) refs) \<and>
    command_ok (DispatchCmd d (words_of constants) refs) \<and> list_all2 (serialized_ref env) bindings refs \<and>
    cd_function_handle d = h \<and>
    unat (cd_workgroup_size_x d) = max 1 (unat (workgroup_size_0 config)) \<and>
    unat (cd_workgroup_size_y d) = max 1 (unat (workgroup_size_1 config)) \<and>
    unat (cd_workgroup_size_z d) = max 1 (unat (workgroup_size_2 config)) \<and>
    cd_workgroup_count_x d = workgroup_count_0 config \<and> cd_workgroup_count_y d = workgroup_count_1 config \<and>
    unat (cd_workgroup_count_z d) = unat (workgroup_count_2 config) mod 2 ^ 16"
proof -
  from run obtain k where k: "dispatch_constant_count constants = Inr k"
    and z: "workgroup_size_2 config \<le> 65535"
    by (auto simp: dispatch_serialize_exec_def res_simps Let_def not_less split: if_splits)
  note kc = constant_count_Inr [OF k lens(1)]
  define d where "d = \<lparr>cd_cmd_type = CMD_DISPATCH, cd_function_handle = h,
              cd_workgroup_size_x = (if workgroup_size_0 config \<noteq> 0 then workgroup_size_0 config else 1),
              cd_workgroup_size_y = (if workgroup_size_1 config \<noteq> 0 then workgroup_size_1 config else 1),
              cd_workgroup_size_z = (if workgroup_size_2 config \<noteq> 0 then ucast (workgroup_size_2 config) else 1),
              cd_workgroup_count_x = workgroup_count_0 config, cd_workgroup_count_y = workgroup_count_1 config,
              cd_workgroup_count_z = ucast (workgroup_count_2 config), cd_constant_count = k,
              cd_num_bindings = of_nat (length bindings)\<rparr>"
  from run k have "fold_res (serialize_binding_ref env n) bindings
      (cmd_dispatch_bytes d @ take (unat k * 4) constants) = Inr bs"
    by (auto simp: dispatch_serialize_exec_def d_def res_simps Let_def split: if_splits)
  from serialize_refs [OF this] kc obtain refs where
    refs: "list_all2 (serialized_ref env) bindings refs"
      "bs = cmd_dispatch_bytes d @ constants @ concat (map buf_ref_bytes refs)" by auto
  have z': "unat (ucast (workgroup_size_2 config) :: u16) = unat (workgroup_size_2 config)"
    using z by (simp add: unsigned_ucast_eq take_bit_nat_eq_self word_le_nat_alt)
  have "unat (ucast (workgroup_count_2 config) :: u16) = unat (workgroup_count_2 config) mod 2 ^ 16"
    by (simp add: unsigned_ucast_eq take_bit_eq_mod)
  with refs kc z' lens(2) list_all2_lengthD [OF refs(1)] show ?thesis
    by (intro exI [of _ d] exI [of _ refs])
      (auto simp: d_def words_of_bytes length_words_of unat_of_nat max_def unat_eq_0 not_le Suc_le_eq unat_gt_0)
qed

text \<open>When serializing a reference fails although it fits.\<close>

definition ref_error :: "host_env \<Rightarrow> hal_buffer_ref \<Rightarrow> iree_status \<Rightarrow> bool" where
  "ref_error env b e \<longleftrightarrow> buffer_ref_normalize env b = Inl e \<or>
     (\<exists>nb. buffer_ref_normalize env b = Inr nb \<and> ref_fd env nb = Inl e)"

lemma serialize_refs_Inl:
  assumes "fold_res (serialize_binding_ref env n) bindings out = Inl e"
    and "length out + 32 * length bindings \<le> unat n"
  shows "\<exists>b\<in>set bindings. ref_error env b e"
  using assms
proof (induction bindings arbitrary: out)
  case (Cons b bindings)
  show ?case
  proof (cases "serialize_binding_ref env n b out")
    case (Inl e')
    with Cons.prems have "ref_error env b e"
      by (auto simp: serialize_binding_ref_def ref_error_def bind_res_Inl serialize_to_def
          serialize_check_size_def fail_if_def struct_lengths split: if_splits)
    then show ?thesis by simp
  next
    case (Inr out')
    then have "length out' = length out + 32" by (auto simp: res_simps struct_lengths)
    with Cons.prems Inr Cons.IH [of out'] show ?thesis by simp
  qed
qed simp

lemma dispatch_prep_size:
  assumes prep: "dispatch_serialize_prep constants bindings = Inr n"
    and lens: "length constants < 2 ^ 64" "length bindings < 2 ^ 32"
  shows "unat n = 35 + length constants + 32 * length bindings"
proof -
  from prep obtain k where k: "dispatch_constant_count constants = Inr k"
    and n: "n = 35 + ucast k * 4 + of_nat (length bindings) * 32"
    by (auto simp: dispatch_serialize_prep_def res_simps)
  note kc = constant_count_Inr [OF k lens(1)]
  let ?n = "35 + unat k * 4 + length bindings * 32"
  have e: "n = of_nat ?n" unfolding n by simp
  have "?n < 2 ^ 64" using kc lens(2) by simp
  then have "unat n = ?n" by (simp only: e unat_of_nat) simp
  with kc show ?thesis by simp
qed

lemma copy_serialize_Inr:
  "copy_serialize_exec env s t n = Inr bs \<longleftrightarrow>
     (\<exists>src trgt. serialized_ref env s src \<and> serialized_ref env t trgt \<and> 65 \<le> unat n \<and>
        bs = command_bytes (CopyCmd src trgt))"
  by (fastforce simp: copy_serialize_exec_def serialized_ref_def res_simps)

lemma fill_serialize_Inr:
  "fill_serialize_exec env len pat t n = Inr bs \<longleftrightarrow>
     (\<exists>trgt. serialized_ref env t trgt \<and> 38 \<le> unat n \<and> len \<le> 4 \<and>
        bs = command_bytes (FillCmd len (take (unat len) pat @ replicate (4 - unat len) 0) trgt))"
  by (fastforce simp: fill_serialize_exec_def serialized_ref_def res_simps not_less split: if_splits)

lemma barrier_serialize_Inr:
  "barrier_serialize_exec n = Inr bs \<longleftrightarrow> 1 \<le> unat n \<and> bs = command_bytes BarrierCmd"
  by (auto simp: barrier_serialize_exec_def res_simps cmd_barrier_bytes_def)

text \<open>Command buffers: the computed size is the size written.\<close>

lemma command_buffer_prep:
  assumes "fold_res (\<lambda>entry (cmd_buf_size :: u64, num_entries :: u32).
         let new_size = cmd_buf_size + of_nat (length entry); n = num_entries + 1
         in if new_size < cmd_buf_size \<or> n = 0 then Inl RESOURCE_EXHAUSTED else Inr (new_size, n))
       entries (s, k) = Inr (s', k')"
    and "\<forall>e\<in>set entries. length e < 2 ^ 64"
  shows "unat s' = unat s + length (concat entries) \<and> unat k' = unat k + length entries"
  using assms
proof (induction entries arbitrary: s k)
  case (Cons e entries)
  let ?s = "s + of_nat (length e)" and ?k = "k + 1"
  have no: "\<not> ?s < s" "?k \<noteq> 0" using Cons.prems(1) by (auto simp: Let_def split: if_splits)
  then have rest: "fold_res (\<lambda>entry (cmd_buf_size :: u64, num_entries :: u32).
         let new_size = cmd_buf_size + of_nat (length entry); n = num_entries + 1
         in if new_size < cmd_buf_size \<or> n = 0 then Inl RESOURCE_EXHAUSTED else Inr (new_size, n))
       entries (?s, ?k) = Inr (s', k')"
    using Cons.prems(1) by (simp add: Let_def)
  have "unat ?s = unat s + length e"
  proof -
    have "s \<le> ?s" using no(1) by simp
    then have "unat ?s = unat s + unat (of_nat (length e) :: u64)" by (simp add: unat_plus_simple)
    then show ?thesis using Cons.prems(2) by (simp add: unat_of_nat)
  qed
  moreover have "unat ?k = unat k + 1"
    using no(2) unatSuc [of k] by (simp add: add.commute)
  ultimately show ?case using Cons.IH [OF rest] Cons.prems(2) by simp
qed simp

lemma serialize_entries:
  assumes "length out + length (concat entries) \<le> unat n"
  shows "fold_res (serialize_to n) entries out = Inr (out @ concat entries)"
  using assms
proof (induction entries arbitrary: out)
  case (Cons e entries)
  then have "serialize_to n e out = Inr (out @ e)" by (simp add: serialize_to_Inr)
  with Cons show ?case by simp
qed simp

lemma command_buffer_serialized:
  assumes prep: "command_buffer_serialize_prep entries = Inr (n, k)"
    and "\<forall>e\<in>set entries. length e < 2 ^ 64"
  shows "command_buffer_serialize_exec entries k n = Inr (u32_bytes k @ concat entries)"
    and "unat n = 4 + length (concat entries)" and "unat k = length entries"
proof -
  from command_buffer_prep [OF prep [unfolded command_buffer_serialize_prep_def] assms(2)]
  show n: "unat n = 4 + length (concat entries)" and "unat k = length entries" by auto
  show "command_buffer_serialize_exec entries k n = Inr (u32_bytes k @ concat entries)"
    using n serialize_entries [of "u32_bytes k" entries n]
    by (simp add: command_buffer_serialize_exec_def serialize_to_def serialize_check_size_def fail_if_def
        u32_wire.enc_length)
qed

text \<open>Binding tables.\<close>

definition serialized_binding :: "host_env \<Rightarrow> hal_binding \<Rightarrow> binding \<Rightarrow> bool" where
  "serialized_binding env b w \<longleftrightarrow> (\<exists>nb f. buffer_binding_normalize env b = Inr nb \<and>
     get_buffer_fd env (hb_buffer nb) = Inr f \<and>
     w = \<lparr>bi_fd = fst f, bi_offset = hb_offset nb, bi_length = hb_length nb, bi_alloc_size = snd f\<rparr>)"

lemma serialize_binding_Inr [res_simps]:
  "serialize_binding env n b out = Inr out' \<longleftrightarrow>
     (\<exists>w. serialized_binding env b w \<and> length out + 28 \<le> unat n \<and> out' = out @ binding_bytes w)"
  by (fastforce simp: serialize_binding_def serialized_binding_def res_simps struct_lengths)

lemma serialize_bindings:
  assumes "fold_res (serialize_binding env n) bindings out = Inr bs"
  shows "\<exists>ws. list_all2 (serialized_binding env) bindings ws \<and> bs = out @ concat (map binding_bytes ws)"
  using assms
proof (induction bindings arbitrary: out)
  case (Cons b bindings)
  then obtain w where b: "serialized_binding env b w"
    and rest: "fold_res (serialize_binding env n) bindings (out @ binding_bytes w) = Inr bs"
    by (auto simp: res_simps)
  from Cons.IH [OF rest] obtain ws where "list_all2 (serialized_binding env) bindings ws"
    "bs = out @ binding_bytes w @ concat (map binding_bytes ws)" by auto
  with b show ?case by (intro exI [of _ "w # ws"]) simp
qed simp

section \<open>Properties\<close>

text \<open>
  C26: a recorded dispatch. Serialization into a buffer of the computed size fits exactly; it fails
  only for a workgroup size z of more than 16 bits, an indirect workgroup count, local memory, or a
  buffer reference that cannot be resolved. Otherwise the DSP reads back a dispatch with the same
  function, the same constants and the resolved references in order, workgroup sizes of at least 1,
  and the workgroup counts, of which it gets only the low 16 bits of z.
\<close>

theorem dispatch_serialized:
  assumes prep: "dispatch_serialize_prep constants bindings = Inr n"
    and lens: "length constants < 2 ^ 64" "length bindings < 2 ^ 32"
  shows "case dispatch_serialize_exec env h config constants bindings n of
      Inl e \<Rightarrow> e = OUT_OF_RANGE \<and> unat (workgroup_size_2 config) \<ge> 2 ^ 16 \<or>
        e = UNIMPLEMENTED \<and> (workgroup_count_ref_length config \<noteq> 0 \<or> dynamic_workgroup_local_memory config \<noteq> 0) \<or>
        (\<exists>b\<in>set bindings. ref_error env b e)
    | Inr bs \<Rightarrow> length bs = unat n \<and> (\<exists>d cs refs. bs = command_bytes (DispatchCmd d cs refs) \<and>
        command_ok (DispatchCmd d cs refs) \<and> concat (map u32_bytes cs) = constants \<and>
        list_all2 (serialized_ref env) bindings refs \<and> cd_function_handle d = h \<and>
        unat (cd_workgroup_size_x d) = max 1 (unat (workgroup_size_0 config)) \<and>
        unat (cd_workgroup_size_y d) = max 1 (unat (workgroup_size_1 config)) \<and>
        unat (cd_workgroup_size_z d) = max 1 (unat (workgroup_size_2 config)) \<and>
        cd_workgroup_count_x d = workgroup_count_0 config \<and> cd_workgroup_count_y d = workgroup_count_1 config \<and>
        unat (cd_workgroup_count_z d) = unat (workgroup_count_2 config) mod 2 ^ 16)"
proof -
  from prep obtain k where k: "dispatch_constant_count constants = Inr k"
    by (auto simp: dispatch_serialize_prep_def res_simps)
  note kc = constant_count_Inr [OF k lens(1)]
  note size = dispatch_prep_size [OF prep lens]
  show ?thesis
  proof (cases "dispatch_serialize_exec env h config constants bindings n")
    case (Inr bs)
    from dispatch_serialize_Inr [OF Inr lens] obtain d refs where
      d: "bs = command_bytes (DispatchCmd d (words_of constants) refs)" "list_all2 (serialized_ref env) bindings refs"
      and rest: "command_ok (DispatchCmd d (words_of constants) refs)" "cd_function_handle d = h"
        "unat (cd_workgroup_size_x d) = max 1 (unat (workgroup_size_0 config))"
        "unat (cd_workgroup_size_y d) = max 1 (unat (workgroup_size_1 config))"
        "unat (cd_workgroup_size_z d) = max 1 (unat (workgroup_size_2 config))"
        "cd_workgroup_count_x d = workgroup_count_0 config" "cd_workgroup_count_y d = workgroup_count_1 config"
        "unat (cd_workgroup_count_z d) = unat (workgroup_count_2 config) mod 2 ^ 16" by blast
    have "length bs = unat n"
      using d list_all2_lengthD [OF d(2)] kc(1) size
      by (simp add: struct_lengths words_of_bytes buf_ref_wire.length_concat_enc)
    with Inr d rest words_of_bytes [OF kc(1)] show ?thesis
      by (simp del: command_bytes.simps command_ok.simps) blast
  next
    case (Inl e)
    show ?thesis
    proof (cases "workgroup_size_2 config > 65535 \<or> workgroup_count_ref_length config \<noteq> 0 \<or> dynamic_workgroup_local_memory config \<noteq> 0")
      case True
      with Inl show ?thesis
        by (auto simp: dispatch_serialize_exec_def word_less_nat_alt split: if_splits)
    next
      case False
      with Inl k obtain out where "fold_res (serialize_binding_ref env n) bindings out = Inl e"
        "length out = 35 + length constants"
        using kc(1,2) size
        by (auto simp: dispatch_serialize_exec_def Let_def serialize_to_def serialize_check_size_def fail_if_def
            struct_lengths min_def split: if_splits)
      with serialize_refs_Inl [of env n bindings out e] size Inl show ?thesis by simp
    qed
  qed
qed

definition sample_host :: host_env where
  "sample_host = \<lparr>buffer_ref_normalize = Inr, buffer_binding_normalize = Inr, get_buffer_fd = (\<lambda>b. Inr (of_nat b, 4096))\<rparr>"

definition sample_config :: hal_dispatch_config where
  "sample_config = \<lparr>workgroup_size_0 = 0, workgroup_size_1 = 4, workgroup_size_2 = 1, workgroup_count_0 = 2,
     workgroup_count_1 = 3, workgroup_count_2 = 65537, workgroup_count_ref_length = 0, dynamic_workgroup_local_memory = 0\<rparr>"

definition sample_bindings :: "hal_buffer_ref list" where
  "sample_bindings = [\<lparr>hr_buffer_slot = 0, hr_buffer = Some 5, hr_offset = 0, hr_length = 64\<rparr>,
     \<lparr>hr_buffer_slot = 1, hr_buffer = None, hr_offset = 0, hr_length = 32\<rparr>]"

lemma sample_dispatch_prep: "dispatch_serialize_prep [1, 0, 0, 0] sample_bindings = Inr 103"
  by (simp add: dispatch_serialize_prep_def dispatch_constant_count_def sample_bindings_def)

theorem dispatch_serialized_witness:
  "case dispatch_serialize_exec sample_host 7 sample_config [1, 0, 0, 0] sample_bindings 103 of
     Inl e \<Rightarrow> False | Inr bs \<Rightarrow> length bs = 103"
  using dispatch_serialized [OF sample_dispatch_prep, where env = sample_host and h = 7 and config = sample_config]
  by (auto simp: sample_config_def sample_host_def sample_bindings_def ref_error_def ref_fd_def split: sum.splits)

end
