(* ===== verification/Direct_Bufs.thy ===== *)
theory Direct_Bufs
  imports Serialize
begin

text \<open>
  A command buffer on the DSP: the first half of \<open>plugins/runtime/hexagon/dsp/command_buffer.c\<close>.
  Creating it copies the serialized commands and collects the ranges of all direct buffer references,
  once to count them and once to merge overlapping and adjacent ranges, so that executions can
  maintain the caches without walking the commands.
\<close>

section \<open>The code\<close>

text \<open>\<open>bufs\<close> and \<open>num_bufs\<close>: only a count when \<open>bufs\<close> is \<open>NULL\<close>.\<close>

datatype direct_acc = CountOnly u32 | Collect "binding list"

definition binding_end :: "binding \<Rightarrow> u64" where
  "binding_end b = bi_offset b + bi_length b"

function absorb_ranges ::
  "i32 \<Rightarrow> nat \<Rightarrow> u64 \<Rightarrow> u64 \<Rightarrow> binding list \<Rightarrow> u64 \<times> u64 \<times> binding list" where
  "absorb_ranges fd idx b e bufs =
     (if idx < length bufs
      then let idx_begin = bi_offset (bufs ! idx); idx_end = binding_end (bufs ! idx)
           in if bi_fd (bufs ! idx) \<noteq> fd \<or> idx_begin > e \<or> b > idx_end
              then absorb_ranges fd (Suc idx) b e bufs
              else absorb_ranges fd idx (if idx_begin < b then idx_begin else b)
                     (if idx_end > e then idx_end else e) (swap_remove bufs idx)
      else (b, e, bufs))"
  by pat_completeness auto
termination
  by (relation "measure (\<lambda>(fd, idx, b, e, bufs). length bufs - idx)") auto

declare absorb_ranges.simps [simp del]

text \<open>The entries of the array hold no allocation size: it is not set.\<close>

definition add_direct_buf :: "buf_ref \<Rightarrow> direct_acc \<Rightarrow> direct_acc" where
  "add_direct_buf ref acc =
     (if br_fd ref = - 1 then acc
      else case acc of
        CountOnly n \<Rightarrow> CountOnly (n + 1)
      | Collect bufs \<Rightarrow>
          (case absorb_ranges (br_fd ref) 0 (br_offset ref) (br_offset ref + br_length ref) bufs of
             (b, e, bufs') \<Rightarrow> Collect (bufs' @ [\<lparr>bi_fd = br_fd ref, bi_offset = b, bi_length = e - b, bi_alloc_size = 0\<rparr>])))"

definition collect_command :: "u8 list \<Rightarrow> direct_acc \<Rightarrow> aee + direct_acc \<times> u8 list" where
  "collect_command data acc =
     bind_res (peek_serialized 1 cmd_type_of data) (\<lambda>cmd_type.
     if cmd_type = CMD_DISPATCH then
       bind_res (read_serialized 35 cmd_dispatch_of data) (\<lambda>(d, data).
       bind_res (read_loop 4 u32_of (\<lambda>con acc. Inr acc) (unat (cd_constant_count d)) data acc) (\<lambda>(acc, data).
       read_loop 32 buf_ref_of (\<lambda>ref acc. Inr (add_direct_buf ref acc)) (unat (cd_num_bindings d)) data acc))
     else if cmd_type = CMD_BARRIER then
       bind_res (read_serialized 1 cmd_type_of data) (\<lambda>(_, data). Inr (acc, data))
     else if cmd_type = CMD_COPY then
       bind_res (read_serialized 65 cmd_copy_of data) (\<lambda>(c, data).
       Inr (add_direct_buf (cc_trgt c) (add_direct_buf (cc_src c) acc), data))
     else if cmd_type = CMD_FILL then
       bind_res (read_serialized 38 cmd_fill_of data) (\<lambda>(f, data).
       Inr (add_direct_buf (cf_trgt f) acc, data))
     else Inl AEE_EBADITEM)"

fun collect_commands :: "nat \<Rightarrow> u8 list \<Rightarrow> direct_acc \<Rightarrow> aee + direct_acc" where
  "collect_commands 0 data acc = Inr acc"
| "collect_commands (Suc n) data acc =
     bind_res (collect_command data acc) (\<lambda>(acc, data). collect_commands n data acc)"

definition collect_direct_bufs :: "u8 list \<Rightarrow> direct_acc \<Rightarrow> aee + direct_acc" where
  "collect_direct_bufs data acc =
     bind_res (read_serialized 4 u32_of data) (\<lambda>(num_entries, data).
     collect_commands (unat num_entries) data acc)"

record dsp_command_buffer =
  cb_rpc_handle :: u64
  cb_data :: "u8 list"
  cb_direct_bufs :: "binding list"

text \<open>\<open>HAP_malloc\<close> reports an error or may yield \<open>NULL\<close>: for each allocation, in order, its status
  and whether there is memory.\<close>

definition hap_malloc :: "(nat \<Rightarrow> usize \<Rightarrow> aee \<times> bool) \<Rightarrow> nat \<Rightarrow> usize \<Rightarrow> aee + unit" where
  "hap_malloc mem k n =
     (case mem k n of (err, nonnull) \<Rightarrow>
        if err \<noteq> AEE_SUCCESS then Inl err else if \<not> nonnull then Inl AEE_ENOMEMORY else Inr ())"

text \<open>The management structure has 24 bytes on the DSP, an entry of \<open>direct_bufs\<close> 28.\<close>

definition command_buffer_create ::
  "(nat \<Rightarrow> usize \<Rightarrow> aee \<times> bool) \<Rightarrow> u64 \<Rightarrow> u8 list \<Rightarrow> aee + dsp_command_buffer" where
  "command_buffer_create mem rpc_handle data =
     bind_res (hap_malloc mem 0 24) (\<lambda>_.
     bind_res (hap_malloc mem 1 (of_nat (length data))) (\<lambda>_.
     bind_res (collect_direct_bufs data (CountOnly 0)) (\<lambda>counted.
     let max_direct_bufs = (case counted of CountOnly n \<Rightarrow> n | Collect _ \<Rightarrow> 0)
     in if max_direct_bufs > 0
        then bind_res (hap_malloc mem 2 (max_direct_bufs * 28)) (\<lambda>_.
             bind_res (collect_direct_bufs data (Collect [])) (\<lambda>acc.
             Inr \<lparr>cb_rpc_handle = rpc_handle, cb_data = data,
               cb_direct_bufs = (case acc of Collect bufs \<Rightarrow> bufs | CountOnly _ \<Rightarrow> [])\<rparr>))
        else Inr \<lparr>cb_rpc_handle = rpc_handle, cb_data = data, cb_direct_bufs = []\<rparr>)))"

section \<open>Merging\<close>

text \<open>The bytes of a reference or entry, and what two separate ranges are: a gap is between them.\<close>

definition covered :: "binding \<Rightarrow> (i32 \<times> nat) set" where
  "covered b = {bi_fd b} \<times> {unat (bi_offset b) ..< unat (bi_offset b) + unat (bi_length b)}"

definition ref_bytes :: "buf_ref \<Rightarrow> (i32 \<times> nat) set" where
  "ref_bytes r = (if br_fd r = - 1 then {}
     else {br_fd r} \<times> {unat (br_offset r) ..< unat (br_offset r) + unat (br_length r)})"

definition no_wrap :: "u64 \<Rightarrow> u64 \<Rightarrow> bool" where
  "no_wrap off len \<longleftrightarrow> unat off + unat len < 2 ^ 64"

definition separate :: "binding \<Rightarrow> binding \<Rightarrow> bool" where
  "separate a b \<longleftrightarrow> bi_fd a \<noteq> bi_fd b \<or>
     unat (bi_offset a) + unat (bi_length a) < unat (bi_offset b) \<or>
     unat (bi_offset b) + unat (bi_length b) < unat (bi_offset a)"

definition bufs_ok :: "binding list \<Rightarrow> bool" where
  "bufs_ok bufs \<longleftrightarrow> (\<forall>b\<in>set bufs. no_wrap (bi_offset b) (bi_length b)) \<and> sorted_wrt separate bufs"

lemma sorted_wrt_insert_sym:
  assumes "symp P"
  shows "sorted_wrt P (xs @ x # ys) \<longleftrightarrow> (\<forall>y\<in>set (xs @ ys). P x y) \<and> sorted_wrt P (xs @ ys)"
  using assms by (auto simp: sorted_wrt_append dest: sympD)

lemma sorted_wrt_mset:
  assumes "symp P" and "mset xs = mset ys"
  shows "sorted_wrt P xs \<longleftrightarrow> sorted_wrt P ys"
  using assms(2)
proof (induction xs arbitrary: ys)
  case (Cons x xs)
  then have "x \<in> set ys" by (metis list.set_intros(1) set_mset_mset)
  then obtain us vs where ys: "ys = us @ x # vs" by (meson split_list)
  with Cons.prems have m: "mset xs = mset (us @ vs)" by simp
  then have "set xs = set (us @ vs)" by (metis set_mset_mset)
  with Cons.IH [OF m] show ?case unfolding ys by (simp only: sorted_wrt_insert_sym [OF assms(1)] sorted_wrt.simps)
qed simp

lemma separate_sym: "symp separate"
  by (auto simp: symp_def separate_def)

lemma bufs_ok_swap_remove:
  assumes "idx < length bufs"
  shows "bufs_ok bufs \<longleftrightarrow> no_wrap (bi_offset (bufs ! idx)) (bi_length (bufs ! idx)) \<and>
    (\<forall>b\<in>set (swap_remove bufs idx). separate (bufs ! idx) b) \<and> bufs_ok (swap_remove bufs idx)"
  using sorted_wrt_mset [OF separate_sym mset_swap_remove [OF assms]] swap_remove_facts(2) [OF assms]
  by (auto simp: bufs_ok_def)

lemma swap_remove_nth: "j < idx \<Longrightarrow> idx < length xs \<Longrightarrow> swap_remove xs idx ! j = xs ! j"
  by (simp add: swap_remove_def nth_butlast)

text \<open>The range from \<open>b\<close> to \<open>e\<close> as an entry.\<close>

definition range_of :: "i32 \<Rightarrow> u64 \<Rightarrow> u64 \<Rightarrow> binding" where
  "range_of fd b e = \<lparr>bi_fd = fd, bi_offset = b, bi_length = e - b, bi_alloc_size = 0\<rparr>"

lemma range_of_nat:
  assumes "b \<le> e"
  shows "unat (bi_length (range_of fd b e)) = unat e - unat b" and "no_wrap (bi_offset (range_of fd b e)) (bi_length (range_of fd b e))"
proof -
  show l: "unat (bi_length (range_of fd b e)) = unat e - unat b"
    using assms by (simp add: range_of_def unat_sub)
  have "unat b \<le> unat e" using assms by (simp add: word_le_nat_alt)
  then show "no_wrap (bi_offset (range_of fd b e)) (bi_length (range_of fd b e))"
    using l unat64_less [of e] by (simp add: no_wrap_def range_of_def)
qed

lemma binding_end_nat: "no_wrap (bi_offset x) (bi_length x) \<Longrightarrow> unat (binding_end x) = unat (bi_offset x) + unat (bi_length x)"
  by (simp add: binding_end_def no_wrap_def unat_word_ariths)

lemma hull_touching:
  assumes be: "b \<le> e" and x: "no_wrap (bi_offset x) (bi_length x)" "bi_fd x = fd"
    and touch: "\<not> (bi_offset x > e \<or> b > binding_end x)"
    and b': "b' = (if bi_offset x < b then bi_offset x else b)" and e': "e' = (if binding_end x > e then binding_end x else e)"
  shows "b' \<le> e'" and "covered (range_of fd b' e') = covered (range_of fd b e) \<union> covered x"
    and "separate y (range_of fd b e) \<Longrightarrow> separate y x \<Longrightarrow> separate y (range_of fd b' e')"
proof -
  note ends = binding_end_nat [OF x(1)]
  have nat: "unat b \<le> unat e" "unat (bi_offset x) \<le> unat e" "unat b \<le> unat (bi_offset x) + unat (bi_length x)"
    using be touch ends by (auto simp: word_le_nat_alt not_less)
  have b'n: "unat b' = min (unat b) (unat (bi_offset x))" by (simp add: b' word_less_nat_alt)
  have e'n: "unat e' = max (unat e) (unat (bi_offset x) + unat (bi_length x))"
    using ends by (simp add: e' word_less_nat_alt)
  show le: "b' \<le> e'" using b'n e'n nat by (simp add: word_le_nat_alt)
  note r = range_of_nat(1) [OF be, of fd] and r' = range_of_nat(1) [OF le, of fd]
  have f: "bi_offset (range_of fd b e) = b" "bi_fd (range_of fd b e) = fd" for b e by (simp_all add: range_of_def)
  show "covered (range_of fd b' e') = covered (range_of fd b e) \<union> covered x"
    using nat b'n e'n by (auto simp: covered_def r r' f x(2))
  show "separate y (range_of fd b' e')" if "separate y (range_of fd b e)" "separate y x"
    using that nat b'n e'n by (auto simp: separate_def r r' f x(2))
qed

lemma absorb_ranges_ok:
  assumes "bufs_ok bufs" and "b \<le> e" and "\<forall>j<idx. j < length bufs \<longrightarrow> separate (bufs ! j) (range_of fd b e)"
    and "absorb_ranges fd idx b e bufs = (b', e', bufs')"
  shows "bufs_ok bufs' \<and> b' \<le> e' \<and> (\<forall>x\<in>set bufs'. separate x (range_of fd b' e')) \<and>
    covered (range_of fd b' e') \<union> (\<Union>x\<in>set bufs'. covered x) = covered (range_of fd b e) \<union> (\<Union>x\<in>set bufs. covered x) \<and>
    length bufs' \<le> length bufs"
  using assms
proof (induction fd idx b e bufs rule: absorb_ranges.induct)
  case (1 fd idx b e bufs)
  show ?case
  proof (cases "idx < length bufs")
    case False
    with 1(6) have "b' = b" "e' = e" "bufs' = bufs" by (simp_all add: absorb_ranges.simps [of fd idx])
    with 1 False show ?thesis by (auto simp: in_set_conv_nth)
  next
    case True
    let ?x = "bufs ! idx"
    from bufs_ok_swap_remove [OF True] 1(3) have x: "no_wrap (bi_offset ?x) (bi_length ?x)"
      "\<forall>y\<in>set (swap_remove bufs idx). separate ?x y" "bufs_ok (swap_remove bufs idx)" by auto
    show ?thesis
    proof (cases "bi_fd ?x \<noteq> fd \<or> bi_offset ?x > e \<or> b > binding_end ?x")
      case skip: True
      with True 1(6) have run: "absorb_ranges fd (Suc idx) b e bufs = (b', e', bufs')"
        by (simp add: absorb_ranges.simps [of fd idx] Let_def)
      have "separate ?x (range_of fd b e)"
        using skip binding_end_nat [OF x(1)] range_of_nat(1) [OF 1(4), of fd] 1(4)
        by (auto simp: separate_def range_of_def word_less_nat_alt word_le_nat_alt)
      with 1(5) have "\<forall>j<Suc idx. j < length bufs \<longrightarrow> separate (bufs ! j) (range_of fd b e)"
        by (simp add: less_Suc_eq)
      with 1(1) [OF True refl refl skip 1(3,4) _ run] show ?thesis by simp
    next
      case False
      let ?b = "if bi_offset ?x < b then bi_offset ?x else b" and ?e = "if binding_end ?x > e then binding_end ?x else e"
      from True False 1(6) have run: "absorb_ranges fd idx ?b ?e (swap_remove bufs idx) = (b', e', bufs')"
        by (simp add: absorb_ranges.simps [of fd idx] Let_def)
      have fd: "bi_fd ?x = fd" and touch: "\<not> (bi_offset ?x > e \<or> b > binding_end ?x)" using False by auto
      note hull = hull_touching [OF 1(4) x(1) fd touch refl refl]
      have sep: "\<forall>j<idx. j < length (swap_remove bufs idx) \<longrightarrow> separate (swap_remove bufs idx ! j) (range_of fd ?b ?e)"
      proof (intro allI impI)
        fix j assume j: "j < idx" "j < length (swap_remove bufs idx)"
        then have n: "swap_remove bufs idx ! j = bufs ! j" using True by (simp add: swap_remove_nth)
        moreover have "separate ?x (bufs ! j)" using x(2) j n by (metis nth_mem)
        ultimately show "separate (swap_remove bufs idx ! j) (range_of fd ?b ?e)"
          using 1(5) j True separate_sym by (intro hull(3)) (auto dest: sympD)
      qed
      from 1(2) [OF True refl refl False x(3) hull(1) sep run] hull(2) swap_remove_facts(2) [OF True]
      show ?thesis by (auto simp: Un_assoc)
    qed
  qed
qed

definition all_covered :: "binding list \<Rightarrow> (i32 \<times> nat) set" where
  "all_covered bufs = (\<Union>b\<in>set bufs. covered b)"

definition ref_no_wrap :: "buf_ref \<Rightarrow> bool" where
  "ref_no_wrap r \<longleftrightarrow> no_wrap (br_offset r) (br_length r)"

lemma absorb_ranges_length: "absorb_ranges fd idx b e bufs = (b', e', bufs') \<Longrightarrow> length bufs' \<le> length bufs"
proof (induction fd idx b e bufs rule: absorb_ranges.induct)
  case (1 fd idx b e bufs)
  then show ?case
    by (subst (asm) (3) absorb_ranges.simps) (force simp: Let_def split: if_splits)
qed

lemma add_direct_buf_Collect:
  "\<exists>bufs'. add_direct_buf ref (Collect bufs) = Collect bufs' \<and>
     length bufs' \<le> length bufs + (if br_fd ref = - 1 then 0 else 1) \<and>
     (bufs_ok bufs \<and> ref_no_wrap ref \<longrightarrow> bufs_ok bufs' \<and> all_covered bufs' = all_covered bufs \<union> ref_bytes ref)"
proof (cases "br_fd ref = - 1")
  case True
  then show ?thesis by (simp add: add_direct_buf_def ref_bytes_def)
next
  case False
  let ?fd = "br_fd ref" and ?b = "br_offset ref" and ?e = "br_offset ref + br_length ref"
  obtain b e bufs1 where run: "absorb_ranges ?fd 0 ?b ?e bufs = (b, e, bufs1)" by (cases "absorb_ranges ?fd 0 ?b ?e bufs")
  let ?new = "bufs1 @ [range_of ?fd b e]"
  have "bufs_ok ?new \<and> all_covered ?new = all_covered bufs \<union> ref_bytes ref"
    if ok: "bufs_ok bufs" and nw: "ref_no_wrap ref"
  proof -
    have e: "unat ?e = unat ?b + unat (br_length ref)"
      using nw by (simp add: ref_no_wrap_def no_wrap_def unat_word_ariths)
    then have le: "?b \<le> ?e" by (simp add: word_le_nat_alt)
    have "covered (range_of ?fd ?b ?e) = ref_bytes ref"
      using False e range_of_nat(1) [OF le, of ?fd] by (simp add: covered_def ref_bytes_def range_of_def)
    with absorb_ranges_ok [OF ok le _ run] range_of_nat(2) show ?thesis
      by (auto simp: bufs_ok_def sorted_wrt_append all_covered_def)
  qed
  moreover have "add_direct_buf ref (Collect bufs) = Collect ?new"
    using False run by (simp add: add_direct_buf_def range_of_def)
  moreover have "length ?new \<le> length bufs + 1" using absorb_ranges_length [OF run] by simp
  ultimately show ?thesis using False by (intro exI [of _ ?new]) simp
qed

lemma fold_add_direct_buf:
  "\<exists>bufs'. fold add_direct_buf refs (Collect bufs) = Collect bufs' \<and>
     length bufs' \<le> length bufs + length (filter (\<lambda>r. br_fd r \<noteq> - 1) refs) \<and>
     (bufs_ok bufs \<and> (\<forall>r\<in>set refs. ref_no_wrap r) \<longrightarrow>
        bufs_ok bufs' \<and> all_covered bufs' = all_covered bufs \<union> (\<Union>r\<in>set refs. ref_bytes r))"
proof (induction refs arbitrary: bufs)
  case (Cons r refs)
  from add_direct_buf_Collect [of r bufs] obtain bufs1 where b1: "add_direct_buf r (Collect bufs) = Collect bufs1"
    "length bufs1 \<le> length bufs + (if br_fd r = - 1 then 0 else 1)"
    "bufs_ok bufs \<and> ref_no_wrap r \<longrightarrow> bufs_ok bufs1 \<and> all_covered bufs1 = all_covered bufs \<union> ref_bytes r"
    by blast
  from Cons.IH [of bufs1] obtain bufs2 where "fold add_direct_buf refs (Collect bufs1) = Collect bufs2"
    "length bufs2 \<le> length bufs1 + length (filter (\<lambda>r. br_fd r \<noteq> - 1) refs)"
    "bufs_ok bufs1 \<and> (\<forall>r\<in>set refs. ref_no_wrap r) \<longrightarrow>
        bufs_ok bufs2 \<and> all_covered bufs2 = all_covered bufs1 \<union> (\<Union>r\<in>set refs. ref_bytes r)" by blast
  with b1 show ?case by (intro exI [of _ bufs2]) (auto simp: Un_assoc split: if_splits)
qed simp

lemma fold_add_CountOnly:
  "fold add_direct_buf refs (CountOnly n) = CountOnly (n + of_nat (length (filter (\<lambda>r. br_fd r \<noteq> - 1) refs)))"
  by (induction refs arbitrary: n) (auto simp: add_direct_buf_def algebra_simps)

section \<open>Walking any data\<close>

text \<open>What a walk reads does not depend on what it collects.\<close>

lemma read_serialized_cases:
  "length bs < n \<and> read_serialized n dec bs = Inl AEE_EINCOMPLETEITEM \<or>
   n \<le> length bs \<and> read_serialized n dec bs = Inr (dec (take n bs), drop n bs)"
  by (auto simp: read_serialized_def peek_serialized_def)

lemma read_loop_cases:
  "(\<exists>e. \<forall>s. read_loop n dec (\<lambda>v s. Inr (f v s)) k bs s = Inl e) \<or>
   (\<exists>vs rest. length vs = k \<and> length rest + n * k = length bs \<and>
      (\<forall>s. read_loop n dec (\<lambda>v s. Inr (f v s)) k bs s = Inr (fold f vs s, rest)))"
proof (induction k arbitrary: bs)
  case (Suc k)
  show ?case
  proof (cases "length bs < n")
    case True
    then show ?thesis by (auto simp: read_serialized_def peek_serialized_def)
  next
    case False
    then have r: "read_serialized n dec bs = Inr (dec (take n bs), drop n bs)" "length (drop n bs) + n = length bs"
      by (auto simp: read_serialized_def peek_serialized_def)
    from Suc.IH [of "drop n bs"] show ?thesis
    proof
      assume "\<exists>e. \<forall>s. read_loop n dec (\<lambda>v s. Inr (f v s)) k (drop n bs) s = Inl e"
      then show ?thesis by (auto simp: r)
    next
      assume "\<exists>vs rest. length vs = k \<and> length rest + n * k = length (drop n bs) \<and>
        (\<forall>s. read_loop n dec (\<lambda>v s. Inr (f v s)) k (drop n bs) s = Inr (fold f vs s, rest))"
      then obtain vs rest where "length vs = k" "length rest + n * k = length (drop n bs)"
        "\<forall>s. read_loop n dec (\<lambda>v s. Inr (f v s)) k (drop n bs) s = Inr (fold f vs s, rest)" by blast
      with r show ?thesis by (intro disjI2 exI [of _ "dec (take n bs) # vs"] exI [of _ rest]) auto
    qed
  qed
qed simp

definition walks :: "(direct_acc \<Rightarrow> aee + direct_acc \<times> u8 list) \<Rightarrow> u8 list \<Rightarrow> bool" where
  "walks f data \<longleftrightarrow> (\<exists>e. \<forall>acc. f acc = Inl e) \<or>
     (\<exists>refs rest. 32 * length refs + length rest \<le> length data \<and>
        (\<forall>acc. f acc = Inr (fold add_direct_buf refs acc, rest)))"

lemma fold_ignore: "fold (\<lambda>v s. s) vs s = s"
  by (induction vs) auto

lemma collect_dispatch_walks:
  assumes "length data \<ge> 35" and "cd = cmd_dispatch_of (take 35 data)"
  shows "walks (\<lambda>acc. bind_res (read_loop 4 u32_of (\<lambda>con acc. Inr acc) (unat (cd_constant_count cd)) (drop 35 data) acc)
    (\<lambda>(acc, data). read_loop 32 buf_ref_of (\<lambda>ref acc. Inr (add_direct_buf ref acc)) (unat (cd_num_bindings cd)) data acc)) data"
  using read_loop_cases [of 4 u32_of "\<lambda>con acc. acc" "unat (cd_constant_count cd)" "drop 35 data"]
proof
  assume "\<exists>e. \<forall>s :: direct_acc. read_loop 4 u32_of (\<lambda>con acc. Inr acc) (unat (cd_constant_count cd)) (drop 35 data) s = Inl e"
  then show ?thesis by (auto simp: walks_def)
next
  assume "\<exists>vs rest. length vs = unat (cd_constant_count cd) \<and> length rest + 4 * unat (cd_constant_count cd) = length (drop 35 data) \<and>
    (\<forall>s :: direct_acc. read_loop 4 u32_of (\<lambda>con acc. Inr acc) (unat (cd_constant_count cd)) (drop 35 data) s = Inr (fold (\<lambda>con acc. acc) vs s, rest))"
  then obtain rest where len: "length rest + 4 * unat (cd_constant_count cd) = length (drop 35 data)"
    and loop: "\<forall>s :: direct_acc. read_loop 4 u32_of (\<lambda>con acc. Inr acc) (unat (cd_constant_count cd)) (drop 35 data) s = Inr (s, rest)"
    by (auto simp: fold_ignore)
  from len have c: "length rest \<le> length data" by simp
  from read_loop_cases [of 32 buf_ref_of add_direct_buf "unat (cd_num_bindings cd)" rest] show ?thesis
  proof
    assume "\<exists>vs r. length vs = unat (cd_num_bindings cd) \<and> length r + 32 * unat (cd_num_bindings cd) = length rest \<and>
      (\<forall>s. read_loop 32 buf_ref_of (\<lambda>v s. Inr (add_direct_buf v s)) (unat (cd_num_bindings cd)) rest s = Inr (fold add_direct_buf vs s, r))"
    then obtain vs r where "32 * length vs + length r \<le> length data"
      "\<forall>s. read_loop 32 buf_ref_of (\<lambda>v s. Inr (add_direct_buf v s)) (unat (cd_num_bindings cd)) rest s = Inr (fold add_direct_buf vs s, r)"
      using c by (metis add.commute)
    with loop show ?thesis unfolding walks_def by auto
  qed (auto simp: walks_def loop)
qed

lemma collect_command_walks: "walks (collect_command data) data"
proof (cases "data = []")
  case True
  then show ?thesis by (auto simp: walks_def collect_command_def peek_serialized_def)
next
  case False
  then have p: "peek_serialized 1 cmd_type_of data = Inr (cmd_type_of (take 1 data))" by (cases data) (auto simp: peek_serialized_def)
  let ?t = "cmd_type_of (take 1 data)"
  consider (D) "?t = CMD_DISPATCH" | (B) "?t = CMD_BARRIER" | (C) "?t = CMD_COPY" | (F) "?t = CMD_FILL"
    | (X) "?t \<notin> {CMD_DISPATCH, CMD_BARRIER, CMD_COPY, CMD_FILL}" by blast
  then show ?thesis
  proof cases
    case D
    show ?thesis
    proof (cases "length data < 35")
      case True
      with p D show ?thesis by (auto simp: walks_def collect_command_def read_serialized_def peek_serialized_def)
    next
      case len: False
      with read_serialized_cases [of data 35 cmd_dispatch_of]
      have "read_serialized 35 cmd_dispatch_of data = Inr (cmd_dispatch_of (take 35 data), drop 35 data)" by auto
      with p D len collect_dispatch_walks [OF _ refl, of data] show ?thesis
        unfolding walks_def by (simp add: collect_command_def not_less)
    qed
  next
    case B
    with p show ?thesis
      using read_serialized_cases [of data 1 cmd_type_of]
      by (auto simp: walks_def collect_command_def CMD_DISPATCH_def CMD_BARRIER_def intro!: exI [of _ "[] :: buf_ref list"])
  next
    case C
    from read_serialized_cases [of data 65 cmd_copy_of] show ?thesis
    proof
      assume "65 \<le> length data \<and> read_serialized 65 cmd_copy_of data = Inr (cmd_copy_of (take 65 data), drop 65 data)"
      with p C show ?thesis
        by (auto simp: walks_def collect_command_def CMD_DISPATCH_def CMD_BARRIER_def CMD_COPY_def
            intro!: exI [of _ "[cc_src (cmd_copy_of (take 65 data)), cc_trgt (cmd_copy_of (take 65 data))]"])
    qed (use p C in \<open>auto simp: walks_def collect_command_def CMD_DISPATCH_def CMD_BARRIER_def CMD_COPY_def\<close>)
  next
    case F
    from read_serialized_cases [of data 38 cmd_fill_of] show ?thesis
    proof
      assume "38 \<le> length data \<and> read_serialized 38 cmd_fill_of data = Inr (cmd_fill_of (take 38 data), drop 38 data)"
      with p F show ?thesis
        by (auto simp: walks_def collect_command_def CMD_DISPATCH_def CMD_BARRIER_def CMD_COPY_def CMD_FILL_def
            intro!: exI [of _ "[cf_trgt (cmd_fill_of (take 38 data))]"])
    qed (use p F in \<open>auto simp: walks_def collect_command_def CMD_DISPATCH_def CMD_BARRIER_def CMD_COPY_def CMD_FILL_def\<close>)
  next
    case X
    with p show ?thesis by (auto simp: walks_def collect_command_def)
  qed
qed

lemma collect_commands_walks:
  "(\<exists>e. \<forall>acc. collect_commands n data acc = Inl e) \<or>
   (\<exists>refs. 32 * length refs \<le> length data \<and> (\<forall>acc. collect_commands n data acc = Inr (fold add_direct_buf refs acc)))"
proof (induction n arbitrary: data)
  case (Suc n)
  from collect_command_walks [of data] show ?case unfolding walks_def
  proof
    assume "\<exists>refs rest. 32 * length refs + length rest \<le> length data \<and>
      (\<forall>acc. collect_command data acc = Inr (fold add_direct_buf refs acc, rest))"
    then obtain refs rest where c: "32 * length refs + length rest \<le> length data"
      "\<forall>acc. collect_command data acc = Inr (fold add_direct_buf refs acc, rest)" by blast
    from Suc.IH [of rest] show ?thesis
    proof
      assume "\<exists>refs. 32 * length refs \<le> length rest \<and> (\<forall>acc. collect_commands n rest acc = Inr (fold add_direct_buf refs acc))"
      then obtain refs' where "32 * length refs' \<le> length rest" "\<forall>acc. collect_commands n rest acc = Inr (fold add_direct_buf refs' acc)" by blast
      with c show ?thesis by (intro disjI2 exI [of _ "refs @ refs'"]) auto
    qed (auto simp: c)
  qed auto
qed (auto intro!: exI [of _ "[]"])

lemma collect_direct_bufs_walks:
  "(\<exists>e. \<forall>acc. collect_direct_bufs data acc = Inl e) \<or>
   (\<exists>refs. 32 * length refs \<le> length data \<and> (\<forall>acc. collect_direct_bufs data acc = Inr (fold add_direct_buf refs acc)))"
  using read_serialized_cases [of data 4 u32_of]
proof
  assume r: "4 \<le> length data \<and> read_serialized 4 u32_of data = Inr (u32_of (take 4 data), drop 4 data)"
  from collect_commands_walks [of "unat (u32_of (take 4 data))" "drop 4 data"] show ?thesis
  proof
    assume "\<exists>refs. 32 * length refs \<le> length (drop 4 data) \<and>
      (\<forall>acc. collect_commands (unat (u32_of (take 4 data))) (drop 4 data) acc = Inr (fold add_direct_buf refs acc))"
    then obtain refs where refs: "32 * length refs \<le> length (drop 4 data)"
      "\<forall>acc. collect_commands (unat (u32_of (take 4 data))) (drop 4 data) acc = Inr (fold add_direct_buf refs acc)" by blast
    from refs(1) have "32 * length refs \<le> length data" by simp
    with refs(2) r show ?thesis by (auto simp: collect_direct_bufs_def)
  qed (use r in \<open>auto simp: collect_direct_bufs_def\<close>)
qed (auto simp: collect_direct_bufs_def)

section \<open>Walking serialized commands\<close>

fun command_refs :: "command \<Rightarrow> buf_ref list" where
  "command_refs (DispatchCmd d cs refs) = refs"
| "command_refs BarrierCmd = []"
| "command_refs (CopyCmd s t) = [s, t]"
| "command_refs (FillCmd n pat t) = [t]"

lemmas command_type_defs = CMD_DISPATCH_def CMD_BARRIER_def CMD_COPY_def CMD_FILL_def

lemma fold_res_fold: "fold_res (\<lambda>x s. Inr (f x s)) xs s = Inr (fold f xs s)"
  by (induction xs arbitrary: s) auto

lemma collect_command_serialized:
  assumes "command_ok c"
  shows "collect_command (command_bytes c @ bs) acc = Inr (fold add_direct_buf (command_refs c) acc, bs)"
proof (cases c)
  case (DispatchCmd d cs refs)
  then have "length cs = unat (cd_constant_count d)" "length refs = unat (cd_num_bindings d)" using assms by auto
  then have "read_loop 4 u32_of (\<lambda>con acc. Inr acc) (unat (cd_constant_count d)) (concat (map u32_bytes cs) @ r) acc = Inr (acc, r)"
    "read_loop 32 buf_ref_of (\<lambda>ref acc. Inr (add_direct_buf ref acc)) (unat (cd_num_bindings d)) (concat (map buf_ref_bytes refs) @ r) acc
       = Inr (fold add_direct_buf refs acc, r)" for r
    using u32_wire.read_loop_enc [of cs "\<lambda>con acc. Inr acc" r acc] buf_ref_wire.read_loop_enc [of refs "\<lambda>ref acc. Inr (add_direct_buf ref acc)" r acc]
    by (simp_all add: fold_res_fold fold_ignore)
  with DispatchCmd peek_command_type [OF assms, of bs] show ?thesis
    by (simp add: collect_command_def cmd_dispatch_wire.read_enc)
next
  case BarrierCmd
  with peek_command_type [OF assms, of bs] show ?thesis
    by (simp add: collect_command_def cmd_barrier_wire.read_enc [simplified] command_type_defs)
next
  case (CopyCmd s t)
  with peek_command_type [OF assms, of bs] show ?thesis
    by (simp add: collect_command_def cmd_copy_wire.read_enc command_type_defs)
next
  case (FillCmd n pat t)
  with assms peek_command_type [OF assms, of bs] show ?thesis
    by (simp add: collect_command_def cmd_fill_wire.read_enc cmd_fill_legal_def command_type_defs)
qed

lemma collect_commands_serialized:
  "\<forall>c\<in>set cs. command_ok c \<Longrightarrow>
     collect_commands (length cs) (concat (map command_bytes cs) @ bs) acc =
       Inr (fold add_direct_buf (concat (map command_refs cs)) acc)"
  by (induction cs arbitrary: acc) (simp_all add: collect_command_serialized)

section \<open>Properties\<close>

text \<open>
  C39: what the host records is what the DSP reads. The serialized command buffer has exactly the
  computed size; walking it on the DSP gives ranges that cover exactly the bytes of all direct
  buffer references of the recorded commands, no two of the same allocation overlapping or
  adjacent, and no more ranges than references.
\<close>

theorem recorded_buffers_collected:
  assumes cmds: "\<forall>c\<in>set cs. command_ok c \<and> (\<forall>r\<in>set (command_refs c). ref_no_wrap r) \<and> length (command_bytes c) < 2 ^ 64"
    and prep: "command_buffer_serialize_prep (map command_bytes cs) = Inr (n, k)"
  shows "\<exists>data bufs. command_buffer_serialize_exec (map command_bytes cs) k n = Inr data \<and> length data = unat n \<and>
    collect_direct_bufs data (Collect []) = Inr (Collect bufs) \<and> bufs_ok bufs \<and>
    all_covered bufs = (\<Union>c\<in>set cs. \<Union>r\<in>set (command_refs c). ref_bytes r) \<and>
    length bufs \<le> length (concat (map command_refs cs))"
proof -
  let ?data = "u32_bytes k @ concat (map command_bytes cs)" and ?refs = "concat (map command_refs cs)"
  from command_buffer_serialized [OF prep] cmds
  have exec: "command_buffer_serialize_exec (map command_bytes cs) k n = Inr ?data"
    and n: "unat n = length ?data" and k: "unat k = length cs"
    by (auto simp: u32_wire.enc_length)
  have nil: "bufs_ok []" "all_covered [] = {}" by (simp_all add: bufs_ok_def all_covered_def)
  from fold_add_direct_buf [of ?refs "[]", unfolded nil list.size add_0 simp_thms Un_empty_left]
  obtain bufs where bufs: "fold add_direct_buf ?refs (Collect []) = Collect bufs"
    "length bufs \<le> length (filter (\<lambda>r. br_fd r \<noteq> - 1) ?refs)"
    "(\<forall>r\<in>set ?refs. ref_no_wrap r) \<longrightarrow> bufs_ok bufs \<and> all_covered bufs = (\<Union>r\<in>set ?refs. ref_bytes r)"
    using nil(1) by blast
  have "collect_direct_bufs ?data (Collect []) = Inr (Collect bufs)"
    using collect_commands_serialized [of cs "[]" "Collect []"] cmds bufs(1)
    by (simp add: collect_direct_bufs_def u32_wire.read_enc k)
  moreover have "length bufs \<le> length ?refs" using bufs(2) length_filter_le le_trans by blast
  ultimately show ?thesis using exec n bufs(3) cmds by (intro exI [of _ ?data] exI [of _ bufs]) auto
qed

definition sample_ref :: "i32 \<Rightarrow> u64 \<Rightarrow> u64 \<Rightarrow> buf_ref" where
  "sample_ref fd off len = \<lparr>br_slot = 0, br_fd = fd, br_offset = off, br_length = len, br_alloc_size = 4096\<rparr>"

definition sample_commands :: "command list" where
  "sample_commands = [CopyCmd (sample_ref 3 0 64) (sample_ref 3 64 64), BarrierCmd,
     FillCmd 1 [7, 0, 0, 0] (sample_ref 4 0 16)]"

lemma sample_commands_prep:
  "command_buffer_serialize_prep (map command_bytes sample_commands) = Inr (108, 3)"
  by (simp add: command_buffer_serialize_prep_def sample_commands_def cmd_copy_wire.enc_length
      cmd_barrier_wire.enc_length cmd_fill_wire.enc_length cmd_fill_legal_def)

theorem recorded_buffers_collected_witness:
  "\<exists>data bufs. command_buffer_serialize_exec (map command_bytes sample_commands) 3 108 = Inr data \<and>
     length data = 108 \<and> collect_direct_bufs data (Collect []) = Inr (Collect bufs) \<and>
     all_covered bufs = {3} \<times> {0..<128} \<union> {4} \<times> {0..<16}"
proof -
  have ok: "\<forall>c\<in>set sample_commands. command_ok c \<and> (\<forall>r\<in>set (command_refs c). ref_no_wrap r) \<and> length (command_bytes c) < 2 ^ 64"
    by (simp add: sample_commands_def sample_ref_def ref_no_wrap_def no_wrap_def cmd_copy_wire.enc_length
      cmd_barrier_wire.enc_length cmd_fill_wire.enc_length cmd_fill_legal_def)
  have refs: "(\<Union>c\<in>set sample_commands. \<Union>r\<in>set (command_refs c). ref_bytes r) = {3} \<times> {0..<128} \<union> {4} \<times> {0..<16}"
    by (auto simp: sample_commands_def sample_ref_def ref_bytes_def)
  from recorded_buffers_collected [OF ok sample_commands_prep] refs show ?thesis by auto
qed

text \<open>
  Creating a command buffer never writes past the array of collected ranges, whatever data the
  host sends: both walks over the data succeed together, the second stores at most as many entries
  as the first counted, and the size of the array does not overflow. It fails exactly when memory
  runs out or the data is malformed.
\<close>

theorem command_buffer_create_safe:
  assumes "length data < 2 ^ 31"
  shows "case command_buffer_create mem h data of
      Inl e \<Rightarrow> (\<exists>k n. hap_malloc mem k n = Inl e) \<or> (\<forall>acc. collect_direct_bufs data acc = Inl e)
    | Inr cb \<Rightarrow> cb_data cb = data \<and> (\<exists>n. collect_direct_bufs data (CountOnly 0) = Inr (CountOnly n) \<and>
        length (cb_direct_bufs cb) \<le> unat n \<and> unat (n * 28) = 28 * unat n \<and>
        (n > 0 \<longrightarrow> hap_malloc mem 2 (n * 28) = Inr ()))"
  using collect_direct_bufs_walks [of data]
proof
  assume "\<exists>e. \<forall>acc. collect_direct_bufs data acc = Inl e"
  then obtain e where "\<forall>acc. collect_direct_bufs data acc = Inl e" ..
  then show ?thesis
    by (cases "hap_malloc mem 0 24"; cases "hap_malloc mem 1 (of_nat (length data))")
      (auto simp: command_buffer_create_def)
next
  assume "\<exists>refs. 32 * length refs \<le> length data \<and> (\<forall>acc. collect_direct_bufs data acc = Inr (fold add_direct_buf refs acc))"
  then obtain refs where refs: "32 * length refs \<le> length data"
    "\<And>acc. collect_direct_bufs data acc = Inr (fold add_direct_buf refs acc)" by blast
  let ?m = "length (filter (\<lambda>r. br_fd r \<noteq> - 1) refs)"
  define n where "n = (of_nat ?m :: u32)"
  have m: "?m \<le> length refs" by simp
  have "length data < 2147483648" using assms by simp
  with m refs(1) have small: "28 * ?m < 4294967296" by linarith
  then have n: "unat n = ?m" by (simp add: n_def unat_of_nat)
  have n28: "unat (n * 28) = 28 * unat n" using n small by (simp add: unat_word_ariths)
  have count: "collect_direct_bufs data (CountOnly 0) = Inr (CountOnly n)"
    by (simp add: refs(2) fold_add_CountOnly n_def)
  obtain bufs where bufs: "collect_direct_bufs data (Collect []) = Inr (Collect bufs)" "length bufs \<le> unat n"
    using fold_add_direct_buf [of refs "[]"] refs(2) n by auto
  show ?thesis
    by (cases "hap_malloc mem 0 24"; cases "hap_malloc mem 1 (of_nat (length data))"; cases "hap_malloc mem 2 (n * 28)")
      (auto simp: command_buffer_create_def count bufs n28)
qed

theorem command_buffer_create_safe_witness:
  "case command_buffer_create (\<lambda>k n. (AEE_SUCCESS, True)) 0 (u32_bytes 1 @ [9]) of Inl e \<Rightarrow> e = AEE_EBADITEM | Inr cb \<Rightarrow> False"
proof -
  have r: "collect_direct_bufs (u32_bytes 1 @ [9]) acc = Inl AEE_EBADITEM" for acc
    by (simp add: collect_direct_bufs_def u32_wire.read_enc collect_command_def peek_serialized_def
        cmd_type_of_def slice_def command_type_defs)
  show ?thesis
    using command_buffer_create_safe [of "u32_bytes 1 @ [9]" "\<lambda>k n. (AEE_SUCCESS, True)" 0]
    by (simp add: r hap_malloc_def u32_wire.enc_length split: sum.splits)
qed

end
