(* ===== verification/Cmd_Sched.thy ===== *)
theory Cmd_Sched
  imports Residency Vtcm_Partition Direct_Bufs
begin

text \<open>
  The scheduler that executes a command buffer on the DSP: the first half of the execution code of
  \<open>plugins/runtime/hexagon/dsp/command_buffer.c\<close>. The master thread walks the commands. A dispatch
  is prepared in a task slot (its buffers are resolved and mapped), gets a VTCM partition, and runs
  on the master or on a worker thread; the master finishes it, which returns everything it holds.

  The functions of an executable, the worker threads, \<open>HAP_malloc\<close>, the residency environment and
  the VTCM pool are a parameter, \<open>exec_env\<close>; their answers may depend on everything that happened
  before, which the state logs (newest event first). A worker's dispatch is one step, taken when the
  master next waits; which workers complete by then, and in which order, is up to the environment.
  Profiling only observes and is left out.
\<close>

section \<open>State\<close>

text \<open>\<open>hexagon_dsp_function_t\<close> with its attributes; the code of a function is a number.\<close>

record dispatch_attrs =
  hexagon_flags :: u64
  attr_vtcm_bytes :: u64
  attr_threads :: u64

record dsp_function =
  fn_dispatch_func :: nat
  fn_environment :: usize
  fn_name :: "string option"
  fn_attrs :: "dispatch_attrs option"

definition DISPATCH_FLAG_RESOURCES_VALID :: u64 where "DISPATCH_FLAG_RESOURCES_VALID = 1"
definition DISPATCH_FLAG_USES_HMX :: u64 where "DISPATCH_FLAG_USES_HMX = 4"

text \<open>\<open>INT64_MAX\<close>, the value of a resource that the compiler could not bound.\<close>

definition UNBOUNDED :: u64 where "UNBOUNDED = 2 ^ 63 - 1"

record dispatch_state =
  ds_workgroup_size :: "u32 \<times> u32 \<times> u16"
  ds_workgroup_count_x :: u32
  ds_workgroup_count_y :: u32
  ds_workgroup_count_z :: u16
  ds_constants :: "u32 list"
  ds_binding_ptrs :: "usize list"
  ds_binding_lengths :: "usize list"

datatype task_state = TASK_RUNNING | TASK_SUCCEEDED | TASK_FAILED

record dispatch_task =
  tk_dispatch_state :: dispatch_state
  tk_vtcm_partition :: vtcm_partition
  tk_dispatch_func :: nat
  tk_environment :: usize
  tk_func_name :: "string option"
  tk_mapped_fds :: "i32 list"
  tk_state :: task_state
  tk_in_flight :: bool

type_synonym memory = "usize \<Rightarrow> u8"

datatype exec_event =
    Malloc usize aee bool
  | Started nat
  | Finished nat task_state
  | Copied usize usize usize
  | Filled usize u64
  | Barrier

text \<open>The state of the DSP process that an execution changes, and the scheduler's own.\<close>

record 'pool dsp_state =
  xs_residency :: residency
  xs_pool :: 'pool
  xs_mem :: memory
  xs_blocks :: nat
  xs_log :: "exec_event list"

record 'pool sched = "'pool dsp_state" +
  max_concurrent :: u32
  sc_tasks :: "dispatch_task list"
  num_in_flight :: u32
  num_completed :: u32
  sc_vtcm_pool_size :: usize
  vtcm_in_use :: usize
  sc_status :: aee

text \<open>What a call of a dispatch function does: its return value, what it allocated from its
  partition, and the memory after it.\<close>

record workgroup_result =
  wr_ret :: i32
  wr_front :: usize
  wr_back :: usize
  wr_mem :: memory

record 'pool exec_env =
  xe_dsp :: dsp_env
  xe_pool_ops :: "'pool vtcm_pool_ops"
  xe_function :: "i64 \<Rightarrow> dsp_function"
  xe_malloc :: "exec_event list \<Rightarrow> usize \<Rightarrow> aee \<times> bool"
  xe_dispatch_fn :: "exec_event list \<Rightarrow> nat \<Rightarrow> usize \<Rightarrow> dispatch_state \<Rightarrow> workgroup_state \<Rightarrow> memory \<Rightarrow> workgroup_result"
  xe_completed :: "exec_event list \<Rightarrow> nat list \<Rightarrow> nat list"
  xe_next_completed :: "exec_event list \<Rightarrow> nat list \<Rightarrow> nat option"

text \<open>
  Outcomes other than a return: \<open>abort\<close> (or a failed \<open>assert\<close>), waiting for ever, and an access
  outside of an array.
\<close>

datatype fault = Aborted | Blocked | Crashed

section \<open>Buffers\<close>

text \<open>The binding table: the serialized entries and their number.\<close>

record bind_table =
  bt_data :: "u8 list"
  bt_num_ent :: u32

definition bind_entry :: "bind_table \<Rightarrow> u32 \<Rightarrow> binding option" where
  "bind_entry bt slot =
     (if 28 * unat slot + 28 \<le> length (bt_data bt) then Some (binding_of (slice (28 * unat slot) 28 (bt_data bt)))
      else None)"

record res_buf =
  rb_fd :: i32
  rb_dsp_vaddr :: usize
  rb_offset :: u64
  rb_length :: u64

text \<open>The file descriptor, offset and length of a reference, and the size of the whole allocation.\<close>

definition resolve_ref :: "buf_ref \<Rightarrow> bind_table \<Rightarrow> fault + (aee + i32 \<times> u64 \<times> u64 \<times> u64)" where
  "resolve_ref ref bt =
     (if br_fd ref \<noteq> - 1 then Inr (Inr (br_fd ref, br_offset ref, br_length ref, br_alloc_size ref))
      else if br_slot ref \<ge> bt_num_ent bt then Inr (Inl AEE_EBADITEM)
      else case bind_entry bt (br_slot ref) of
        None \<Rightarrow> Inl Crashed
      | Some entry \<Rightarrow>
          if br_offset ref > bi_length entry then Inr (Inl AEE_EBADITEM)
          else let len = (if br_length ref = - 1 then bi_length entry - br_offset ref else br_length ref)
               in if len > bi_length entry - br_offset ref then Inr (Inl AEE_EBADITEM)
                  else Inr (Inr (bi_fd entry, bi_offset entry + br_offset ref, len, bi_alloc_size entry)))"

definition resolve_and_map ::
  "'pool exec_env \<Rightarrow> buf_ref \<Rightarrow> bind_table \<Rightarrow> residency \<Rightarrow> fault + (aee + res_buf) \<times> residency" where
  "resolve_and_map env ref bt r =
     bind_res (resolve_ref ref bt) (\<lambda>resolved.
     case resolved of
       Inl e \<Rightarrow> Inr (Inl e, r)
     | Inr (fd, offset, len, alloc_size) \<Rightarrow>
         (case residency_acquire (xe_dsp env) fd alloc_size r of
            (Inl e, r') \<Rightarrow> Inr (Inl e, r')
          | (Inr vaddr, r') \<Rightarrow>
              Inr (Inr \<lparr>rb_fd = fd, rb_dsp_vaddr = vaddr, rb_offset = offset, rb_length = len\<rparr>, r')))"

definition unmap_fds :: "i32 list \<Rightarrow> residency \<Rightarrow> residency" where
  "unmap_fds fds r = fold residency_release fds r"

section \<open>Preparing a dispatch\<close>

text \<open>
  The loop over the buffer references. On an error, the buffers mapped so far are unmapped and the
  arrays freed (\<open>True\<close>), except when the data ends early, where the macro returns at once.
\<close>

record mapped_bindings =
  mp_ptrs :: "usize list"
  mp_lengths :: "usize list"
  mp_fds :: "i32 list"

fun map_bindings :: "'pool exec_env \<Rightarrow> bind_table \<Rightarrow> nat \<Rightarrow> u8 list \<Rightarrow> mapped_bindings \<Rightarrow> residency \<Rightarrow>
    fault + (aee \<times> bool + mapped_bindings \<times> u8 list) \<times> residency" where
  "map_bindings env bt 0 data m r = Inr (Inr (m, data), r)"
| "map_bindings env bt (Suc n) data m r =
     (case read_serialized 32 buf_ref_of data of
        Inl e \<Rightarrow> Inr (Inl (e, False), r)
      | Inr (ref, data) \<Rightarrow>
          bind_res (resolve_and_map env ref bt r) (\<lambda>(res, r).
          case res of
            Inl e \<Rightarrow> Inr (Inl (e, True), unmap_fds (mp_fds m) r)
          | Inr rb \<Rightarrow> map_bindings env bt n data
              \<lparr>mp_ptrs = mp_ptrs m @ [rb_dsp_vaddr rb + ucast (rb_offset rb)],
               mp_lengths = mp_lengths m @ [ucast (rb_length rb)], mp_fds = mp_fds m @ [rb_fd rb]\<rparr> r))"

text \<open>Sizes are 32-bit words. Pointers, sizes and integers have 4 bytes, and every array starts at a
  multiple of 8.\<close>

definition HEXAGON_ALIGN_SIZE_8 :: "usize \<Rightarrow> usize" where
  "HEXAGON_ALIGN_SIZE_8 s = (s + 7) AND NOT 7"

definition dispatch_entry_size :: "cmd_dispatch \<Rightarrow> usize" where
  "dispatch_entry_size d = 35 + ucast (cd_constant_count d) * 4 + cd_num_bindings d * 32"

definition dispatch_arrays_size :: "cmd_dispatch \<Rightarrow> usize" where
  "dispatch_arrays_size d =
     (let binding_ptrs_offset = HEXAGON_ALIGN_SIZE_8 (ucast (cd_constant_count d) * 4);
          binding_lengths_offset = HEXAGON_ALIGN_SIZE_8 (binding_ptrs_offset + cd_num_bindings d * 4);
          mapped_fds_offset = HEXAGON_ALIGN_SIZE_8 (binding_lengths_offset + cd_num_bindings d * 4)
      in mapped_fds_offset + cd_num_bindings d * 4)"

definition exec_malloc :: "'pool exec_env \<Rightarrow> usize \<Rightarrow> ('pool, 'a) sched_scheme \<Rightarrow> aee \<times> ('pool, 'a) sched_scheme" where
  "exec_malloc env n s =
     (case xe_malloc env (xs_log s) n of (err, nonnull) \<Rightarrow>
        let s = s\<lparr>xs_log := Malloc n err nonnull # xs_log s\<rparr>
        in if err \<noteq> AEE_SUCCESS then (err, s)
           else if \<not> nonnull then (AEE_ENOMEMORY, s)
           else (AEE_SUCCESS, s\<lparr>xs_blocks := xs_blocks s + 1\<rparr>))"

text \<open>The resources a dispatch declared: VTCM, HMX, and the number of its tasks.\<close>

definition declared_resources :: "dsp_function \<Rightarrow> usize \<times> bool \<times> u64" where
  "declared_resources f =
     (case fn_attrs f of
        None \<Rightarrow> (HEXAGON_RT_VTCM_PARTITION_ALL, True, UNBOUNDED)
      | Some attrs \<Rightarrow>
          if hexagon_flags attrs AND DISPATCH_FLAG_RESOURCES_VALID \<noteq> 0
          then (if attr_vtcm_bytes attrs \<noteq> UNBOUNDED then ucast (attr_vtcm_bytes attrs) else HEXAGON_RT_VTCM_PARTITION_ALL,
                hexagon_flags attrs AND DISPATCH_FLAG_USES_HMX \<noteq> 0, attr_threads attrs)
          else (HEXAGON_RT_VTCM_PARTITION_ALL, True, UNBOUNDED))"

text \<open>
  \<open>hexa_cmd_buf_prepare_dispatch\<close>: the prepared task with the resources and the rest of the data.
  What a failed preparation leaves in the free slot is dead and not kept. First the part after the
  arrays have been allocated.
\<close>

definition prepared_task :: "cmd_dispatch \<Rightarrow> dsp_function \<Rightarrow> u32 list \<Rightarrow> mapped_bindings \<Rightarrow> dispatch_task" where
  "prepared_task d function constants m =
     \<lparr>tk_dispatch_state =
        \<lparr>ds_workgroup_size = (cd_workgroup_size_x d, cd_workgroup_size_y d, cd_workgroup_size_z d),
         ds_workgroup_count_x = cd_workgroup_count_x d, ds_workgroup_count_y = cd_workgroup_count_y d,
         ds_workgroup_count_z = cd_workgroup_count_z d, ds_constants = constants,
         ds_binding_ptrs = mp_ptrs m, ds_binding_lengths = mp_lengths m\<rparr>,
      tk_vtcm_partition = empty_partition, tk_dispatch_func = fn_dispatch_func function,
      tk_environment = fn_environment function, tk_func_name = fn_name function,
      tk_mapped_fds = mp_fds m, tk_state = TASK_RUNNING, tk_in_flight = False\<rparr>"

definition fill_dispatch ::
  "'pool exec_env \<Rightarrow> cmd_dispatch \<Rightarrow> u8 list \<Rightarrow> bind_table \<Rightarrow> 'pool sched \<Rightarrow>
   fault + (aee + dispatch_task \<times> u8 list \<times> usize \<times> bool \<times> u64) \<times> 'pool sched" where
  "fill_dispatch env d data bt s =
     (let function = xe_function env (cd_function_handle d)
      in case read_loop 4 u32_of (\<lambda>c cs. Inr (cs @ [c])) (unat (cd_constant_count d)) data [] of
        Inl e \<Rightarrow> Inr (Inl e, s)
      | Inr (constants, data) \<Rightarrow>
          (case map_bindings env bt (unat (cd_num_bindings d)) data
              \<lparr>mp_ptrs = [], mp_lengths = [], mp_fds = []\<rparr> (xs_residency s) of
            Inl f \<Rightarrow> Inl f
          | Inr (Inl (e, freed), r) \<Rightarrow>
              Inr (Inl e, s\<lparr>xs_residency := r, xs_blocks := xs_blocks s - (if freed then 1 else 0)\<rparr>)
          | Inr (Inr (m, data), r) \<Rightarrow>
              Inr (Inr (prepared_task d function constants m, data, declared_resources function),
                s\<lparr>xs_residency := r\<rparr>)))"

definition prepare_dispatch ::
  "'pool exec_env \<Rightarrow> u8 list \<Rightarrow> bind_table \<Rightarrow> 'pool sched \<Rightarrow>
   fault + (aee + dispatch_task \<times> u8 list \<times> usize \<times> bool \<times> u64) \<times> 'pool sched" where
  "prepare_dispatch env data bt s =
     (case peek_serialized 35 cmd_dispatch_of data of
        Inl e \<Rightarrow> Inr (Inl e, s)
      | Inr d \<Rightarrow>
          if of_nat (length data) < dispatch_entry_size d then Inr (Inl AEE_EINCOMPLETEITEM, s)
          else if cd_function_handle d = 0 then Inr (Inl AEE_EBADPARM, s)
          else case exec_malloc env (dispatch_arrays_size d) s of (err, s) \<Rightarrow>
            if err \<noteq> AEE_SUCCESS then Inr (Inl err, s) else fill_dispatch env d (drop 35 data) bt s)"

section \<open>Running and finishing a dispatch\<close>

text \<open>The workgroup ids in the order of the loops, x fastest.\<close>

definition workgroup_ids :: "dispatch_state \<Rightarrow> (u32 \<times> u32 \<times> u16) list" where
  "workgroup_ids ds =
     [(of_nat x, of_nat y, of_nat z). z \<leftarrow> [0..<unat (ds_workgroup_count_z ds)],
        y \<leftarrow> [0..<unat (ds_workgroup_count_y ds)], x \<leftarrow> [0..<unat (ds_workgroup_count_x ds)]]"

fun run_workgroups :: "'pool exec_env \<Rightarrow> exec_event list \<Rightarrow> (u32 \<times> u32 \<times> u16) list \<Rightarrow> dispatch_task \<Rightarrow> memory \<Rightarrow>
    task_state \<times> dispatch_task \<times> memory" where
  "run_workgroups env log [] t mem = (TASK_SUCCEEDED, t, mem)"
| "run_workgroups env log ((x, y, z) # ids) t mem =
     (let p = vtcm_partition_reset (tk_vtcm_partition t);
          ws = \<lparr>workgroup_id_x = x, workgroup_id_y = y, workgroup_id_z = z, ws_reserved = 0, processor_id = 0,
                ws_vtcm_partition = Some p\<rparr>;
          res = xe_dispatch_fn env log (tk_dispatch_func t) (tk_environment t) (tk_dispatch_state t) ws mem;
          t' = t\<lparr>tk_vtcm_partition := p\<lparr>vp_front := wr_front res, vp_back := wr_back res\<rparr>\<rparr>
      in if wr_ret res \<noteq> 0 then (TASK_FAILED, t', wr_mem res) else run_workgroups env log ids t' (wr_mem res))"

definition run_dispatch :: "'pool exec_env \<Rightarrow> exec_event list \<Rightarrow> dispatch_task \<Rightarrow> memory \<Rightarrow> task_state \<times> dispatch_task \<times> memory" where
  "run_dispatch env log t mem = run_workgroups env log (workgroup_ids (tk_dispatch_state t)) t mem"

definition finish_dispatch :: "'pool exec_env \<Rightarrow> nat \<Rightarrow> 'pool sched \<Rightarrow> 'pool sched" where
  "finish_dispatch env idx s =
     (let t = sc_tasks s ! idx;
          (p, pool) = release_vtcm_partition (xe_pool_ops env) (xs_pool s) (tk_vtcm_partition t)
      in s\<lparr>sc_status := (if tk_state t = TASK_FAILED then AEE_EFAILED else sc_status s),
           vtcm_in_use := vtcm_in_use s - vp_size (tk_vtcm_partition t),
           xs_pool := pool,
           xs_residency := unmap_fds (tk_mapped_fds t) (xs_residency s),
           xs_blocks := xs_blocks s - 1,
           sc_tasks := (sc_tasks s)[idx := t\<lparr>tk_vtcm_partition := p, tk_in_flight := False\<rparr>],
           xs_log := Finished idx (tk_state t) # xs_log s\<rparr>)"

text \<open>\<open>hexa_cmd_buf_task_worker\<close>, for a slot whose worker has not completed.\<close>

definition running :: "dispatch_task \<Rightarrow> bool" where
  "running t \<longleftrightarrow> tk_in_flight t \<and> tk_state t = TASK_RUNNING"

definition task_worker :: "'pool exec_env \<Rightarrow> nat \<Rightarrow> 'pool sched \<Rightarrow> 'pool sched" where
  "task_worker env idx s =
     (if idx < length (sc_tasks s) \<and> running (sc_tasks s ! idx)
      then case run_dispatch env (xs_log s) (sc_tasks s ! idx) (xs_mem s) of (state, t, mem) \<Rightarrow>
        s\<lparr>sc_tasks := (sc_tasks s)[idx := t\<lparr>tk_state := state\<rparr>], xs_mem := mem,
          num_completed := num_completed s + 1\<rparr>
      else s)"

definition running_slots :: "'pool sched \<Rightarrow> nat list" where
  "running_slots s = filter (\<lambda>idx. running (sc_tasks s ! idx)) [0..<length (sc_tasks s)]"

text \<open>Workers complete at any time before the wait, and the wait goes on until one has.\<close>

definition await_completion :: "'pool exec_env \<Rightarrow> 'pool sched \<Rightarrow> fault + 'pool sched" where
  "await_completion env s =
     (let s = fold (task_worker env) (xe_completed env (xs_log s) (running_slots s)) s
      in if num_completed s \<noteq> 0 then Inr s
         else case xe_next_completed env (xs_log s) (running_slots s) of
           None \<Rightarrow> Inl Blocked
         | Some idx \<Rightarrow> let s = task_worker env idx s in if num_completed s \<noteq> 0 then Inr s else Inl Blocked)"

definition sched_wait_one :: "'pool exec_env \<Rightarrow> 'pool sched \<Rightarrow> fault + 'pool sched" where
  "sched_wait_one env s =
     (if num_in_flight s = 0 then Inl Aborted
      else bind_res (await_completion env s) (\<lambda>s.
        case find (\<lambda>idx. tk_in_flight (sc_tasks s ! idx) \<and> tk_state (sc_tasks s ! idx) \<noteq> TASK_RUNNING)
               [0..<length (sc_tasks s)] of
          None \<Rightarrow> Inl Crashed
        | Some idx \<Rightarrow>
            Inr (finish_dispatch env idx
              (s\<lparr>num_completed := num_completed s - 1, num_in_flight := num_in_flight s - 1\<rparr>))))"

lemma task_worker_fields [simp]:
  "num_in_flight (task_worker env idx s) = num_in_flight s" "max_concurrent (task_worker env idx s) = max_concurrent s"
  "xs_residency (task_worker env idx s) = xs_residency s" "xs_pool (task_worker env idx s) = xs_pool s"
  "xs_blocks (task_worker env idx s) = xs_blocks s" "xs_log (task_worker env idx s) = xs_log s"
  "vtcm_in_use (task_worker env idx s) = vtcm_in_use s" "sc_status (task_worker env idx s) = sc_status s"
  "sc_vtcm_pool_size (task_worker env idx s) = sc_vtcm_pool_size s"
  "length (sc_tasks (task_worker env idx s)) = length (sc_tasks s)"
  by (auto simp: task_worker_def split: prod.splits)

lemma fold_task_worker_num_in_flight [simp]:
  "num_in_flight (fold (task_worker env) idxs s) = num_in_flight s"
  by (induction idxs arbitrary: s) auto

lemma sched_wait_one_num_in_flight:
  "sched_wait_one env s = Inr s' \<Longrightarrow> num_in_flight s \<noteq> 0 \<and> num_in_flight s' = num_in_flight s - 1"
  by (auto simp: sched_wait_one_def await_completion_def finish_dispatch_def Let_def res_simps
      split: if_splits option.splits prod.splits)

lemma sched_wait_one_decreases:
  "sched_wait_one env s = Inr s' \<Longrightarrow> unat (num_in_flight s') < unat (num_in_flight s)"
  using sched_wait_one_num_in_flight [of env s s'] by (auto simp: unat_minus_one unat_gt_0)

text \<open>Preparing changes the residency cache, the memory blocks and the log only.\<close>

definition same_sched :: "'pool sched \<Rightarrow> 'pool sched \<Rightarrow> bool" where
  "same_sched s s' \<longleftrightarrow> xs_pool s' = xs_pool s \<and> xs_mem s' = xs_mem s \<and> max_concurrent s' = max_concurrent s \<and>
     sc_tasks s' = sc_tasks s \<and> num_in_flight s' = num_in_flight s \<and> num_completed s' = num_completed s \<and>
     sc_vtcm_pool_size s' = sc_vtcm_pool_size s \<and> vtcm_in_use s' = vtcm_in_use s \<and> sc_status s' = sc_status s"

lemma exec_malloc_frame:
  "exec_malloc env n s = (err, s') \<Longrightarrow>
     same_sched s s' \<and> xs_residency s' = xs_residency s \<and>
     xs_blocks s' = xs_blocks s + (if err = AEE_SUCCESS then 1 else 0) \<and>
     (\<exists>e b. xs_log s' = Malloc n e b # xs_log s)"
  by (auto simp: exec_malloc_def same_sched_def Let_def split: prod.splits if_splits)

lemma fill_dispatch_frame:
  "fill_dispatch env d data bt s = Inr (res, s') \<Longrightarrow> same_sched s s' \<and> xs_log s' = xs_log s"
  unfolding fill_dispatch_def Let_def
  by (auto simp: same_sched_def split: sum.split_asm prod.split_asm)

lemma prepare_dispatch_frame:
  "prepare_dispatch env data bt s = Inr (res, s') \<Longrightarrow> same_sched s s'"
  unfolding prepare_dispatch_def
  by (auto split: sum.split_asm prod.split_asm if_split_asm dest!: fill_dispatch_frame exec_malloc_frame)
    (simp_all add: same_sched_def)

lemma prepare_dispatch_num_in_flight:
  "prepare_dispatch env data bt s = Inr (res, s') \<Longrightarrow> num_in_flight s' = num_in_flight s"
  by (auto dest: prepare_dispatch_frame simp: same_sched_def)

text \<open>Every loop that waits ends, since each wait leaves one dispatch less in flight.\<close>

function sched_drain :: "'pool exec_env \<Rightarrow> 'pool sched \<Rightarrow> fault + 'pool sched" where
  "sched_drain env s =
     (if num_in_flight s = 0 then Inr s
      else case sched_wait_one env s of Inl f \<Rightarrow> Inl f | Inr s' \<Rightarrow> sched_drain env s')"
  by pat_completeness auto
termination
  by (relation "measure (\<lambda>(env, s). unat (num_in_flight s))") (auto dest: sched_wait_one_decreases)

text \<open>Waiting for a free execution slot.\<close>

function wait_for_slot :: "'pool exec_env \<Rightarrow> 'pool sched \<Rightarrow> fault + 'pool sched" where
  "wait_for_slot env s =
     (if num_in_flight s < max_concurrent s then Inr s
      else case sched_wait_one env s of Inl f \<Rightarrow> Inl f | Inr s' \<Rightarrow> wait_for_slot env s')"
  by pat_completeness auto
termination
  by (relation "measure (\<lambda>(env, s). unat (num_in_flight s))") (auto dest: sched_wait_one_decreases)

text \<open>Preparing again whenever a dispatch in flight has released its buffers.\<close>

function prepare_retry ::
  "'pool exec_env \<Rightarrow> u8 list \<Rightarrow> bind_table \<Rightarrow> 'pool sched \<Rightarrow>
   fault + (aee + dispatch_task \<times> u8 list \<times> usize \<times> bool \<times> u64) \<times> 'pool sched" where
  "prepare_retry env data bt s =
     (case prepare_dispatch env data bt s of
        Inl f \<Rightarrow> Inl f
      | Inr (res, s1) \<Rightarrow>
          if res = Inl AEE_EWOULDBLOCK \<and> num_in_flight s1 > 0
          then (case sched_wait_one env s1 of Inl f \<Rightarrow> Inl f | Inr s2 \<Rightarrow> prepare_retry env data bt s2)
          else Inr (res, s1))"
  by pat_completeness auto
termination
  by (relation "measure (\<lambda>(env, data, bt, s). unat (num_in_flight s))")
    (auto dest!: sched_wait_one_decreases prepare_dispatch_num_in_flight)

text \<open>Waiting until the partition can be carved out of the pool.\<close>

function vtcm_retry ::
  "'pool exec_env \<Rightarrow> usize \<Rightarrow> string option \<Rightarrow> 'pool sched \<Rightarrow> fault + vtcm_partition \<times> 'pool sched" where
  "vtcm_retry env vtcm_bytes name s =
     (case try_acquire_vtcm_partition (xe_pool_ops env) (xs_pool s) vtcm_bytes name of
        (True, p, pool) \<Rightarrow> Inr (p, s\<lparr>xs_pool := pool\<rparr>)
      | (False, p, pool) \<Rightarrow>
          (let s1 = s\<lparr>xs_pool := pool\<rparr>
           in if num_in_flight s1 = 0 then Inl Aborted
              else case sched_wait_one env s1 of Inl f \<Rightarrow> Inl f | Inr s2 \<Rightarrow> vtcm_retry env vtcm_bytes name s2))"
  by pat_completeness auto
termination
  by (relation "measure (\<lambda>(env, n, name, s). unat (num_in_flight s))") (auto dest: sched_wait_one_decreases)

end
