(* ===== verification/Cmd_Exec.thy ===== *)
theory Cmd_Exec
  imports Cmd_Sched
begin

text \<open>
  Executing a command buffer on the DSP: the commands, the walk over them and the cache maintenance
  around it, the second half of the execution code of
  \<open>plugins/runtime/hexagon/dsp/command_buffer.c\<close>.
\<close>

section \<open>The commands\<close>

text \<open>\<open>hexa_cmd_buf_residency_exceeded\<close>.\<close>

definition residency_exceeded :: aee where
  "residency_exceeded = AEE_ENOMEMORY"

text \<open>A prepared dispatch runs in its slot: on the master, or given to a worker.\<close>

definition start_dispatch :: "'pool exec_env \<Rightarrow> nat \<Rightarrow> dispatch_task \<Rightarrow> bool \<Rightarrow> 'pool sched \<Rightarrow> aee \<times> 'pool sched" where
  "start_dispatch env idx t uses_hmx s =
     (let s = s\<lparr>vtcm_in_use := vtcm_in_use s + vp_size (tk_vtcm_partition t), xs_log := Started idx # xs_log s\<rparr>
      in if uses_hmx \<or> max_concurrent s = 1
         then (case run_dispatch env (xs_log s) t (xs_mem s) of (state, t, mem) \<Rightarrow>
           let s = finish_dispatch env idx (s\<lparr>sc_tasks := (sc_tasks s)[idx := t\<lparr>tk_state := state\<rparr>], xs_mem := mem\<rparr>)
           in (sc_status s, s))
         else (AEE_SUCCESS,
           s\<lparr>sc_tasks := (sc_tasks s)[idx := t\<lparr>tk_state := TASK_RUNNING, tk_in_flight := True\<rparr>],
             num_in_flight := num_in_flight s + 1\<rparr>))"

definition exec_dispatch ::
  "'pool exec_env \<Rightarrow> u8 list \<Rightarrow> bind_table \<Rightarrow> 'pool sched \<Rightarrow> fault + (aee \<times> u8 list) \<times> 'pool sched" where
  "exec_dispatch env data bt s =
     bind_res (wait_for_slot env s) (\<lambda>s.
     case find (\<lambda>idx. \<not> tk_in_flight (sc_tasks s ! idx)) [0..<length (sc_tasks s)] of
       None \<Rightarrow> Inl Crashed
     | Some task_idx \<Rightarrow>
         bind_res (prepare_retry env data bt s) (\<lambda>(res, s).
         case res of
           Inl e \<Rightarrow> Inr ((if e = AEE_EWOULDBLOCK then residency_exceeded else e, data), s)
         | Inr (t, data, vtcm_bytes, uses_hmx, threads) \<Rightarrow>
             if vtcm_bytes \<noteq> HEXAGON_RT_VTCM_PARTITION_ALL \<and> vtcm_bytes > sc_vtcm_pool_size s then Inl Aborted
             else bind_res (vtcm_retry env vtcm_bytes (tk_func_name t) s) (\<lambda>(p, s).
               case start_dispatch env task_idx (t\<lparr>tk_vtcm_partition := p\<rparr>) uses_hmx s of
                 (err, s) \<Rightarrow> Inr ((err, data), s))))"

definition exec_barrier ::
  "'pool exec_env \<Rightarrow> u8 list \<Rightarrow> 'pool sched \<Rightarrow> fault + (aee \<times> u8 list) \<times> 'pool sched" where
  "exec_barrier env data s =
     (case read_serialized 1 cmd_type_of data of
        Inl e \<Rightarrow> Inr ((e, data), s)
      | Inr (_, data) \<Rightarrow>
          bind_res (sched_drain env s) (\<lambda>s. Inr ((AEE_SUCCESS, data), s\<lparr>xs_log := Barrier # xs_log s\<rparr>)))"

text \<open>Mapping the buffer of a transfer, once more after all dispatches have released theirs.\<close>

definition map_ref :: "'pool exec_env \<Rightarrow> buf_ref \<Rightarrow> bind_table \<Rightarrow> 'pool sched \<Rightarrow> fault + (aee + res_buf) \<times> 'pool sched" where
  "map_ref env ref bt s =
     bind_res (resolve_and_map env ref bt (xs_residency s)) (\<lambda>(res, r). Inr (res, s\<lparr>xs_residency := r\<rparr>))"

definition map_ref_drained ::
  "'pool exec_env \<Rightarrow> buf_ref \<Rightarrow> bind_table \<Rightarrow> 'pool sched \<Rightarrow> fault + (aee + res_buf) \<times> 'pool sched" where
  "map_ref_drained env ref bt s =
     bind_res (map_ref env ref bt s) (\<lambda>(res, s).
     bind_res (if res = Inl AEE_EWOULDBLOCK then bind_res (sched_drain env s) (map_ref env ref bt) else Inr (res, s))
       (\<lambda>(res, s). Inr (case res of Inl e \<Rightarrow> Inl (if e = AEE_EWOULDBLOCK then residency_exceeded else e) | Inr rb \<Rightarrow> Inr rb, s)))"

definition release_buf :: "res_buf \<Rightarrow> 'pool sched \<Rightarrow> 'pool sched" where
  "release_buf rb s = s\<lparr>xs_residency := residency_release (rb_fd rb) (xs_residency s)\<rparr>"

definition buf_address :: "res_buf \<Rightarrow> usize" where
  "buf_address rb = rb_dsp_vaddr rb + ucast (rb_offset rb)"

text \<open>\<open>memcpy\<close> takes a 32-bit size.\<close>

definition copy_memory :: "usize \<Rightarrow> usize \<Rightarrow> usize \<Rightarrow> memory \<Rightarrow> memory" where
  "copy_memory dest src n mem = (\<lambda>a. if a - dest < n then mem (src + (a - dest)) else mem a)"

definition exec_copy ::
  "'pool exec_env \<Rightarrow> u8 list \<Rightarrow> bind_table \<Rightarrow> 'pool sched \<Rightarrow> fault + (aee \<times> u8 list) \<times> 'pool sched" where
  "exec_copy env data bt s =
     (case read_serialized 65 cmd_copy_of data of
        Inl e \<Rightarrow> Inr ((e, data), s)
      | Inr (c, data) \<Rightarrow>
          bind_res (map_ref_drained env (cc_src c) bt s) (\<lambda>(res, s).
          case res of
            Inl e \<Rightarrow> Inr ((e, data), s)
          | Inr src \<Rightarrow>
              bind_res (map_ref_drained env (cc_trgt c) bt s) (\<lambda>(res, s).
              case res of
                Inl e \<Rightarrow> Inr ((e, data), release_buf src s)
              | Inr dest \<Rightarrow>
                  let n = ucast (if rb_length dest < rb_length src then rb_length dest else rb_length src) :: usize;
                      s = s\<lparr>xs_mem := copy_memory (buf_address dest) (buf_address src) n (xs_mem s),
                            xs_log := Copied (buf_address dest) (buf_address src) n # xs_log s\<rparr>
                  in Inr ((AEE_SUCCESS, data), release_buf src (release_buf dest s)))))"

text \<open>
  The loop of a fill. It runs over the length of the reference as it is serialized, not over the
  resolved one. The pattern index is a byte.
\<close>

fun fill_memory :: "nat \<Rightarrow> usize \<Rightarrow> u8 list \<Rightarrow> u8 \<Rightarrow> u8 \<Rightarrow> memory \<Rightarrow> memory" where
  "fill_memory 0 a pat len p mem = mem"
| "fill_memory (Suc n) a pat len p mem =
     fill_memory n (a + 1) pat len (if p + 1 \<ge> len then 0 else p + 1) (mem(a := pat ! unat p))"

definition exec_fill ::
  "'pool exec_env \<Rightarrow> u8 list \<Rightarrow> bind_table \<Rightarrow> 'pool sched \<Rightarrow> fault + (aee \<times> u8 list) \<times> 'pool sched" where
  "exec_fill env data bt s =
     (case read_serialized 38 cmd_fill_of data of
        Inl e \<Rightarrow> Inr ((e, data), s)
      | Inr (c, data) \<Rightarrow>
          bind_res (map_ref_drained env (cf_trgt c) bt s) (\<lambda>(res, s).
          case res of
            Inl e \<Rightarrow> Inr ((e, data), s)
          | Inr dest \<Rightarrow>
              if cf_pattern_length c > 4 \<and> br_length (cf_trgt c) > 4 then Inl Crashed
              else let s = s\<lparr>xs_mem := fill_memory (unat (br_length (cf_trgt c))) (buf_address dest) (cf_pattern c)
                               (cf_pattern_length c) 0 (xs_mem s),
                             xs_log := Filled (buf_address dest) (br_length (cf_trgt c)) # xs_log s\<rparr>
                   in Inr ((AEE_SUCCESS, data), release_buf dest s)))"

section \<open>The walk\<close>

definition exec_command ::
  "'pool exec_env \<Rightarrow> u8 list \<Rightarrow> bind_table \<Rightarrow> 'pool sched \<Rightarrow> fault + (aee \<times> u8 list) \<times> 'pool sched" where
  "exec_command env data bt s =
     (case peek_serialized 1 cmd_type_of data of
        Inl e \<Rightarrow> Inr ((e, data), s)
      | Inr cmd_type \<Rightarrow>
          if cmd_type = CMD_DISPATCH then exec_dispatch env data bt s
          else if cmd_type = CMD_BARRIER then exec_barrier env data s
          else if cmd_type = CMD_COPY then exec_copy env data bt s
          else if cmd_type = CMD_FILL then exec_fill env data bt s
          else Inr ((AEE_EBADITEM, data), s))"

fun walk_entries :: "'pool exec_env \<Rightarrow> nat \<Rightarrow> u8 list \<Rightarrow> bind_table \<Rightarrow> 'pool sched \<Rightarrow> fault + aee \<times> 'pool sched" where
  "walk_entries env 0 data bt s = Inr (AEE_SUCCESS, s)"
| "walk_entries env (Suc n) data bt s =
     (if sc_status s \<noteq> AEE_SUCCESS then Inr (sc_status s, s)
      else bind_res (exec_command env data bt s) (\<lambda>((err, data), s).
        if err \<noteq> AEE_SUCCESS then Inr (err, s) else walk_entries env n data bt s))"

definition walk_cmds :: "'pool exec_env \<Rightarrow> u8 list \<Rightarrow> bind_table \<Rightarrow> 'pool sched \<Rightarrow> fault + aee \<times> 'pool sched" where
  "walk_cmds env data bt s =
     (case read_serialized 4 u32_of data of
        Inl e \<Rightarrow> Inr (e, s)
      | Inr (num_entries, data) \<Rightarrow> walk_entries env (unat num_entries) data bt s)"

text \<open>A zeroed task slot.\<close>

definition zero_task :: dispatch_task where
  "zero_task = \<lparr>tk_dispatch_state = \<lparr>ds_workgroup_size = (0, 0, 0), ds_workgroup_count_x = 0,
       ds_workgroup_count_y = 0, ds_workgroup_count_z = 0, ds_constants = [], ds_binding_ptrs = [],
       ds_binding_lengths = []\<rparr>,
     tk_vtcm_partition = empty_partition, tk_dispatch_func = 0, tk_environment = 0, tk_func_name = None,
     tk_mapped_fds = [], tk_state = TASK_RUNNING, tk_in_flight = False\<rparr>"

definition initial_sched :: "'pool exec_env \<Rightarrow> u32 \<Rightarrow> 'pool dsp_state \<Rightarrow> 'pool sched" where
  "initial_sched env n s = dsp_state.extend s
     \<lparr>max_concurrent = n, sc_tasks = replicate (unat n) zero_task, num_in_flight = 0, num_completed = 0,
      sc_vtcm_pool_size = vtcm_pool_size (xe_pool_ops env) (xs_pool s), vtcm_in_use = 0, sc_status = AEE_SUCCESS\<rparr>"

text \<open>A task has 96 bytes, aligned to 16.\<close>

definition exec_cmds ::
  "'pool exec_env \<Rightarrow> u8 list \<Rightarrow> bind_table \<Rightarrow> u32 \<Rightarrow> 'pool dsp_state \<Rightarrow> fault + aee \<times> 'pool dsp_state" where
  "exec_cmds env data bt concurrency s =
     (let n = (if concurrency < 1 then 1 else concurrency)
      in case exec_malloc env (n * 96 + 16) (initial_sched env n s) of (err, s) \<Rightarrow>
        if err \<noteq> AEE_SUCCESS then Inr (err, dsp_state.truncate s)
        else bind_res (walk_cmds env data bt s) (\<lambda>(err, s).
          bind_res (sched_drain env s) (\<lambda>s.
          Inr (if err = AEE_SUCCESS then sc_status s else err,
            dsp_state.truncate (s\<lparr>xs_blocks := xs_blocks s - 1\<rparr>)))))"

section \<open>Cache maintenance\<close>

fun invalidate_bufs :: "dsp_env \<Rightarrow> binding list \<Rightarrow> bool \<Rightarrow> residency \<Rightarrow> aee \<times> residency" where
  "invalidate_bufs env [] flush r = (AEE_SUCCESS, r)"
| "invalidate_bufs env (b # bs) flush r =
     (if bi_fd b = - 1 then invalidate_bufs env bs flush r
      else case invalidate_if_mapped env (bi_fd b) (bi_offset b) (bi_length b) flush r of (err, r) \<Rightarrow>
        if err \<noteq> AEE_SUCCESS then (err, r) else invalidate_bufs env bs flush r)"

text \<open>All buffers of an execution: the binding table, and then the direct references.\<close>

definition invalidate_all ::
  "dsp_env \<Rightarrow> binding list \<Rightarrow> dsp_command_buffer \<Rightarrow> bool \<Rightarrow> residency \<Rightarrow> aee \<times> residency" where
  "invalidate_all env tab cb flush r =
     (case invalidate_bufs env tab flush r of (err, r) \<Rightarrow>
        if err = AEE_SUCCESS then invalidate_bufs env (cb_direct_bufs cb) flush r else (err, r))"

fun bind_entries :: "bind_table \<Rightarrow> nat \<Rightarrow> binding list option" where
  "bind_entries bt 0 = Some []"
| "bind_entries bt (Suc n) =
     (case (bind_entries bt n, bind_entry bt (of_nat n)) of (Some bs, Some b) \<Rightarrow> Some (bs @ [b]) | _ \<Rightarrow> None)"

definition exec_buf ::
  "'pool exec_env \<Rightarrow> dsp_command_buffer \<Rightarrow> u8 list \<Rightarrow> u32 \<Rightarrow> 'pool dsp_state \<Rightarrow> fault + aee \<times> 'pool dsp_state" where
  "exec_buf env cb bind_tab_data concurrency s =
     (case read_serialized 4 u32_of bind_tab_data of
        Inl e \<Rightarrow> Inr (e, s)
      | Inr (num_ent, data) \<Rightarrow>
          if of_nat (length data) < num_ent * 28 then Inr (AEE_EINCOMPLETEITEM, s)
          else let bt = \<lparr>bt_data = data, bt_num_ent = num_ent\<rparr>
               in case bind_entries bt (unat num_ent) of
                 None \<Rightarrow> Inl Crashed
               | Some tab \<Rightarrow>
                   (case invalidate_all (xe_dsp env) tab cb False (xs_residency s) of (err, r) \<Rightarrow>
                     if err \<noteq> AEE_SUCCESS then Inr (err, s\<lparr>xs_residency := r\<rparr>)
                     else bind_res (exec_cmds env (cb_data cb) bt concurrency (s\<lparr>xs_residency := r\<rparr>)) (\<lambda>(err, s).
                       case invalidate_all (xe_dsp env) tab cb True (xs_residency s) of (err_flush, r) \<Rightarrow>
                         Inr (if err \<noteq> AEE_SUCCESS then err else err_flush, s\<lparr>xs_residency := r\<rparr>))))"

text \<open>\<open>hexagon_dsp_command_buffer_execute\<close>, with the limit that the session holds.\<close>

definition command_buffer_execute where
  "command_buffer_execute = exec_buf"

end
