(* ===== verification/Cmd_Safety.thy ===== *)
theory Cmd_Safety
  imports Cmd_Exec
begin

text \<open>
  Correctness of executing a command buffer: the invariant of the scheduler, that every operation
  keeps it and returns, and what follows for a whole execution.
\<close>

section \<open>What the execution relies on\<close>

text \<open>A worker that runs completes at some time: every dispatch function returns.\<close>

definition workers_law :: "'pool exec_env \<Rightarrow> bool" where
  "workers_law env \<longleftrightarrow> (\<forall>log slots. slots \<noteq> [] \<longrightarrow> (\<exists>idx\<in>set slots. xe_next_completed env log slots = Some idx))"

text \<open>The VTCM pool keeps account of the blocks it has handed out.\<close>

definition pool_law :: "'pool vtcm_pool_ops \<Rightarrow> ('pool \<Rightarrow> (usize \<times> usize) multiset) \<Rightarrow> bool" where
  "pool_law ops allocated \<longleftrightarrow>
     (\<forall>pool n p pool'. Allocate ops pool n = (p, pool') \<longrightarrow>
        allocated pool' = (if p = 0 then allocated pool else add_mset (p, n) (allocated pool))) \<and>
     (\<forall>pool p n. (p, n) \<in># allocated pool \<longrightarrow> allocated (Free ops pool p n) = allocated pool - {#(p, n)#})"

text \<open>Also, \<open>HAP_malloc\<close> never reports that it would block.\<close>

definition exec_laws :: "'pool exec_env \<Rightarrow> ('pool \<Rightarrow> (usize \<times> usize) multiset) \<Rightarrow> bool" where
  "exec_laws env allocated \<longleftrightarrow> workers_law env \<and> mmap_law (xe_dsp env) \<and> pool_law (xe_pool_ops env) allocated \<and>
     (\<forall>log n. fst (xe_malloc env log n) \<noteq> AEE_EWOULDBLOCK)"

definition bind_table_ok :: "bind_table \<Rightarrow> bool" where
  "bind_table_ok bt \<longleftrightarrow> 28 * unat (bt_num_ent bt) \<le> length (bt_data bt)"

section \<open>Sums over the dispatches in flight\<close>

definition in_flight_sum :: "(dispatch_task \<Rightarrow> 'm :: comm_monoid_add) \<Rightarrow> dispatch_task list \<Rightarrow> 'm" where
  "in_flight_sum f ts = (\<Sum>t\<leftarrow>ts. if tk_in_flight t then f t else 0)"

lemma sum_list_map_update:
  fixes g :: "'a \<Rightarrow> 'm :: comm_monoid_add"
  shows "idx < length xs \<Longrightarrow> sum_list (map g (xs[idx := x])) + g (xs ! idx) = sum_list (map g xs) + g x"
proof (induction xs arbitrary: idx)
  case (Cons u us)
  show ?case
  proof (cases idx)
    case 0
    then show ?thesis by (simp add: ac_simps)
  next
    case (Suc n)
    with Cons show ?thesis by (simp add: add.assoc)
  qed
qed simp

lemma in_flight_sum_update:
  assumes "idx < length ts"
  shows "in_flight_sum f (ts[idx := t]) + (if tk_in_flight (ts ! idx) then f (ts ! idx) else 0) =
    in_flight_sum f ts + (if tk_in_flight t then f t else 0)"
  unfolding in_flight_sum_def by (rule sum_list_map_update [OF assms])

lemma in_flight_sum_start:
  assumes "idx < length ts" and "\<not> tk_in_flight (ts ! idx)" and "tk_in_flight t"
  shows "in_flight_sum f (ts[idx := t]) = in_flight_sum f ts + f t"
  using in_flight_sum_update [OF assms(1), of f t] assms(2,3) by simp

lemma in_flight_sum_finish:
  assumes "idx < length ts" and "tk_in_flight (ts ! idx)" and "\<not> tk_in_flight t"
  shows "in_flight_sum f ts = in_flight_sum f (ts[idx := t]) + f (ts ! idx)"
  using in_flight_sum_update [OF assms(1), of f t] assms(2,3) by simp

lemma in_flight_sum_same:
  assumes "idx < length ts" and "tk_in_flight t = tk_in_flight (ts ! idx)" and "f t = f (ts ! idx)"
  shows "in_flight_sum f (ts[idx := t]) = in_flight_sum (f :: _ \<Rightarrow> 'm :: cancel_comm_monoid_add) ts"
  using in_flight_sum_update [OF assms(1), of f t] assms(2,3) by (auto split: if_splits)

lemma in_flight_sum_idle: "\<forall>t\<in>set ts. \<not> tk_in_flight t \<Longrightarrow> in_flight_sum f ts = 0"
  by (induction ts) (auto simp: in_flight_sum_def)

lemma in_flight_sum_mono:
  fixes f g :: "dispatch_task \<Rightarrow> nat"
  assumes "\<And>t. f t \<le> g t"
  shows "in_flight_sum f ts \<le> in_flight_sum g ts"
  using assms by (induction ts) (auto simp: in_flight_sum_def add_mono)

section \<open>Schedules\<close>

text \<open>
  Which slots have a dispatch started and not finished after a log, and what a correct schedule is:
  slots are used by one dispatch at a time, and at a barrier nothing is outstanding.
\<close>

fun outstanding :: "exec_event list \<Rightarrow> nat set" where
  "outstanding [] = {}"
| "outstanding (Started idx # l) = insert idx (outstanding l)"
| "outstanding (Finished idx st # l) = outstanding l - {idx}"
| "outstanding (_ # l) = outstanding l"

fun well_scheduled :: "nat \<Rightarrow> exec_event list \<Rightarrow> bool" where
  "well_scheduled n [] \<longleftrightarrow> True"
| "well_scheduled n (Started idx # l) \<longleftrightarrow> idx < n \<and> idx \<notin> outstanding l \<and> well_scheduled n l"
| "well_scheduled n (Finished idx st # l) \<longleftrightarrow> idx \<in> outstanding l \<and> well_scheduled n l"
| "well_scheduled n (Barrier # l) \<longleftrightarrow> outstanding l = {} \<and> well_scheduled n l"
| "well_scheduled n (_ # l) \<longleftrightarrow> well_scheduled n l"

text \<open>The events since an earlier log.\<close>

definition events_since :: "exec_event list \<Rightarrow> exec_event list \<Rightarrow> exec_event list" where
  "events_since L log = take (length log - length L) log"

lemma events_since_refl [simp]: "events_since L L = []"
  by (simp add: events_since_def)

definition extends :: "exec_event list \<Rightarrow> exec_event list \<Rightarrow> bool" where
  "extends L log \<longleftrightarrow> (\<exists>l. log = l @ L)"

lemma events_since_Cons: "extends L log \<Longrightarrow> events_since L (e # log) = e # events_since L log"
  by (auto simp: events_since_def extends_def)

lemma extends_Cons: "extends L log \<Longrightarrow> extends L (e # log)"
  by (auto simp: extends_def)

lemma extends_refl [simp]: "extends L L"
  by (simp add: extends_def)

section \<open>The invariant\<close>

definition in_flight_slots :: "dispatch_task list \<Rightarrow> nat set" where
  "in_flight_slots ts = {idx. idx < length ts \<and> tk_in_flight (ts ! idx)}"

definition task_block :: "dispatch_task \<Rightarrow> (usize \<times> usize) multiset" where
  "task_block t = (if vp_base (tk_vtcm_partition t) = 0 then {#}
     else {#(vp_base (tk_vtcm_partition t), vp_size (tk_vtcm_partition t))#})"

definition one_task :: "dispatch_task \<Rightarrow> nat" where
  "one_task t = 1"

definition completed_task :: "dispatch_task \<Rightarrow> nat" where
  "completed_task t = (if tk_state t \<noteq> TASK_RUNNING then 1 else 0)"

definition task_vtcm :: "dispatch_task \<Rightarrow> usize" where
  "task_vtcm t = vp_size (tk_vtcm_partition t)"

definition task_holds :: "i32 \<Rightarrow> dispatch_task \<Rightarrow> nat" where
  "task_holds fd t = count_list (tk_mapped_fds t) fd"

definition task_load :: "dispatch_task \<Rightarrow> nat" where
  "task_load t = length (tk_mapped_fds t)"

lemmas task_sums = one_task_def completed_task_def task_vtcm_def task_holds_def task_load_def task_block_def

text \<open>What held before the execution: how often allocations were held, the blocks of the VTCM pool,
  the number of memory blocks, and the log.\<close>

record 'pool exec_base =
  eb_holds :: "i32 \<Rightarrow> nat"
  eb_allocated :: "(usize \<times> usize) multiset"
  eb_blocks :: nat
  eb_log :: "exec_event list"

definition held_by_tasks :: "'pool exec_base \<Rightarrow> dispatch_task list \<Rightarrow> i32 \<Rightarrow> nat" where
  "held_by_tasks b ts fd = eb_holds b fd + in_flight_sum (task_holds fd) ts"

text \<open>Everything a dispatch in flight holds is accounted for, and nothing else is held.\<close>

definition sched_inv ::
  "('pool \<Rightarrow> (usize \<times> usize) multiset) \<Rightarrow> 'pool exec_base \<Rightarrow> 'pool sched \<Rightarrow> bool" where
  "sched_inv allocated b s \<longleftrightarrow>
     residency_ok (xs_residency s) \<and> max_concurrent s > 0 \<and> length (sc_tasks s) = unat (max_concurrent s) \<and>
     unat (num_in_flight s) = in_flight_sum one_task (sc_tasks s) \<and>
     unat (num_completed s) = in_flight_sum completed_task (sc_tasks s) \<and>
     vtcm_in_use s = in_flight_sum task_vtcm (sc_tasks s) \<and>
     holds (xs_residency s) = held_by_tasks b (sc_tasks s) \<and>
     allocated (xs_pool s) = eb_allocated b + in_flight_sum task_block (sc_tasks s) \<and>
     xs_blocks s = eb_blocks b + 1 + in_flight_sum one_task (sc_tasks s) \<and>
     sc_status s \<in> {AEE_SUCCESS, AEE_EFAILED} \<and>
     extends (eb_log b) (xs_log s) \<and>
     well_scheduled (unat (max_concurrent s)) (events_since (eb_log b) (xs_log s)) \<and>
     outstanding (events_since (eb_log b) (xs_log s)) = in_flight_slots (sc_tasks s)"

lemma in_flight_sum_one: "in_flight_sum one_task ts \<le> length ts"
  by (induction ts) (auto simp: in_flight_sum_def one_task_def)

lemma in_flight_sum_zero:
  fixes f :: "dispatch_task \<Rightarrow> nat"
  shows "in_flight_sum f ts = 0 \<longleftrightarrow> (\<forall>t\<in>set ts. tk_in_flight t \<longrightarrow> f t = 0)"
  by (induction ts) (auto simp: in_flight_sum_def)

section \<open>Workers\<close>

definition same_holdings :: "dispatch_task \<Rightarrow> dispatch_task \<Rightarrow> bool" where
  "same_holdings t t' \<longleftrightarrow> tk_mapped_fds t' = tk_mapped_fds t \<and> tk_in_flight t' = tk_in_flight t \<and>
     vp_base (tk_vtcm_partition t') = vp_base (tk_vtcm_partition t) \<and>
     vp_size (tk_vtcm_partition t') = vp_size (tk_vtcm_partition t)"

lemma run_workgroups_holdings:
  "run_workgroups env log ids t mem = (st, t', mem') \<Longrightarrow> same_holdings t t' \<and> st \<noteq> TASK_RUNNING"
proof (induction ids arbitrary: t mem)
  case (Cons id ids)
  obtain x y z where id: "id = (x, y, z)" by (metis prod_cases3)
  let ?p = "vtcm_partition_reset (tk_vtcm_partition t)"
  let ?res = "xe_dispatch_fn env log (tk_dispatch_func t) (tk_environment t) (tk_dispatch_state t)
    \<lparr>workgroup_id_x = x, workgroup_id_y = y, workgroup_id_z = z, ws_reserved = 0, processor_id = 0,
     ws_vtcm_partition = Some ?p\<rparr> mem"
  let ?t = "t\<lparr>tk_vtcm_partition := ?p\<lparr>vp_front := wr_front ?res, vp_back := wr_back ?res\<rparr>\<rparr>"
  have "same_holdings t ?t" by (simp add: same_holdings_def vtcm_partition_reset_def)
  moreover have "same_holdings ?t t' \<and> st \<noteq> TASK_RUNNING"
  proof (cases "wr_ret ?res = 0")
    case True
    with Cons.prems id have "run_workgroups env log ids ?t (wr_mem ?res) = (st, t', mem')" by (simp add: Let_def)
    then show ?thesis by (rule Cons.IH)
  next
    case False
    with Cons.prems id show ?thesis by (auto simp: Let_def same_holdings_def)
  qed
  ultimately show ?case by (auto simp: same_holdings_def)
qed (simp add: same_holdings_def)

lemma run_dispatch_holdings:
  "run_dispatch env log t mem = (st, t', mem') \<Longrightarrow> same_holdings t t' \<and> st \<noteq> TASK_RUNNING"
  unfolding run_dispatch_def by (rule run_workgroups_holdings)

definition load :: "dispatch_task list \<Rightarrow> nat" where
  "load ts = in_flight_sum task_load ts"

text \<open>What no operation changes, and the buffers held, which waiting only lowers.\<close>

definition progressed :: "'pool sched \<Rightarrow> 'pool sched \<Rightarrow> bool" where
  "progressed s s' \<longleftrightarrow> max_concurrent s' = max_concurrent s \<and> sc_vtcm_pool_size s' = sc_vtcm_pool_size s \<and>
     load (sc_tasks s') \<le> load (sc_tasks s) \<and> in_flight_slots (sc_tasks s') \<subseteq> in_flight_slots (sc_tasks s)"

lemma progressed_refl [simp]: "progressed s s"
  by (simp add: progressed_def)

lemma progressed_trans: "progressed s t \<Longrightarrow> progressed t u \<Longrightarrow> progressed s u"
  by (auto simp: progressed_def)

lemma in_flight_slots_same:
  "idx < length ts \<Longrightarrow> tk_in_flight t = tk_in_flight (ts ! idx) \<Longrightarrow> in_flight_slots (ts[idx := t]) = in_flight_slots ts"
  by (auto simp: in_flight_slots_def nth_list_update split: if_splits)

lemma word_Suc_unat: "unat (w :: u32) < unat n \<Longrightarrow> unat (w + 1) = Suc (unat w)" for n :: u32
  using unat32_less [of n] by (simp add: unat_word_ariths)

lemma in_flight_sum_less:
  fixes f :: "dispatch_task \<Rightarrow> nat"
  assumes "idx < length ts" and "tk_in_flight (ts ! idx)" and "f (ts ! idx) < g (ts ! idx)" and "\<And>t. f t \<le> g t"
  shows "in_flight_sum f ts < in_flight_sum g ts"
  using assms
proof (induction ts arbitrary: idx)
  case (Cons u us)
  show ?case
  proof (cases idx)
    case 0
    with Cons.prems in_flight_sum_mono [of f g us] show ?thesis
      by (simp add: in_flight_sum_def add_less_le_mono)
  next
    case (Suc n)
    with Cons.prems have "in_flight_sum f us < in_flight_sum g us" by (intro Cons.IH) auto
    with Cons.prems(4) [of u] show ?thesis by (simp add: in_flight_sum_def add_le_less_mono)
  qed
qed simp

lemma task_worker_step:
  assumes inv: "sched_inv allocated b s" and idx: "idx < length (sc_tasks s)" and run: "running (sc_tasks s ! idx)"
  shows "sched_inv allocated b (task_worker env idx s) \<and> progressed s (task_worker env idx s) \<and>
    num_completed (task_worker env idx s) \<noteq> 0"
proof -
  let ?t = "sc_tasks s ! idx" and ?ts = "sc_tasks s"
  obtain st t mem where r: "run_dispatch env (xs_log s) ?t (xs_mem s) = (st, t, mem)" by (metis prod_cases3)
  from run_dispatch_holdings [OF r] have t: "same_holdings ?t t" "st \<noteq> TASK_RUNNING" by auto
  let ?u = "t\<lparr>tk_state := st\<rparr>"
  have fl: "tk_in_flight ?t" "tk_state ?t = TASK_RUNNING" using run by (auto simp: running_def)
  have s': "task_worker env idx s = s\<lparr>sc_tasks := ?ts[idx := ?u], xs_mem := mem, num_completed := num_completed s + 1\<rparr>"
    using idx run r by (simp add: task_worker_def)
  have flu: "tk_in_flight ?u = tk_in_flight ?t" using t by (simp add: same_holdings_def)
  have dn: "in_flight_sum completed_task (?ts[idx := ?u]) = in_flight_sum completed_task ?ts + 1"
    using in_flight_sum_update [OF idx, of completed_task ?u] fl flu t(2) by (simp add: completed_task_def)
  have "in_flight_sum completed_task ?ts < in_flight_sum one_task ?ts"
    using fl by (intro in_flight_sum_less [OF idx]) (auto simp: task_sums)
  also have "\<dots> \<le> unat (max_concurrent s)"
    using inv in_flight_sum_one [of ?ts] by (simp add: sched_inv_def)
  finally have few: "unat (num_completed s) < unat (max_concurrent s)" using inv by (simp add: sched_inv_def)
  note inc = word_Suc_unat [OF few]
  have "one_task ?u = one_task ?t" "task_vtcm ?u = task_vtcm ?t" "task_load ?u = task_load ?t"
    "task_block ?u = task_block ?t" "\<And>fd. task_holds fd ?u = task_holds fd ?t"
    using t by (simp_all add: task_sums same_holdings_def)
  note keep = this(1-4) [THEN in_flight_sum_same [OF idx flu]] this(5)
  have "in_flight_sum (task_holds fd) (?ts[idx := ?u]) = in_flight_sum (task_holds fd) ?ts" for fd
    by (rule in_flight_sum_same [OF idx flu]) (rule keep(5))
  then have held: "held_by_tasks b (?ts[idx := ?u]) = held_by_tasks b ?ts" by (simp add: held_by_tasks_def fun_eq_iff)
  show ?thesis
    using inv inc dn held
    by (auto simp: s' sched_inv_def keep(1-4) progressed_def load_def in_flight_slots_same [OF idx flu])
qed

lemma task_worker_inv:
  assumes "sched_inv allocated b s"
  shows "sched_inv allocated b (task_worker env idx s) \<and> progressed s (task_worker env idx s)"
  using task_worker_step [OF assms] assms by (cases "idx < length (sc_tasks s) \<and> running (sc_tasks s ! idx)")
    (auto simp: task_worker_def)

lemma fold_task_worker_inv:
  "sched_inv allocated b s \<Longrightarrow>
     sched_inv allocated b (fold (task_worker env) idxs s) \<and> progressed s (fold (task_worker env) idxs s)"
proof (induction idxs arbitrary: s)
  case (Cons i idxs)
  from task_worker_inv [OF Cons.prems, of env i] Cons.IH [of "task_worker env i s"] show ?case
    by (auto intro: progressed_trans)
qed simp

section \<open>Finishing a dispatch\<close>

lemma release_partition_block:
  assumes "pool_law ops allocated" and "task_block t \<subseteq># allocated pool"
    and "release_vtcm_partition ops pool (tk_vtcm_partition t) = (p, pool')"
  shows "allocated pool' = allocated pool - task_block t"
  using assms by (auto simp: release_vtcm_partition_def task_block_def pool_law_def split: if_splits)

lemma unmap_fds_holds:
  assumes "residency_ok r" and "mmap_law env"
  shows "residency_ok (unmap_fds fds r) \<and> holds (unmap_fds fds r) fd = holds r fd - count_list fds fd"
  using rc.release_all [of r env fds fd] assms by (simp add: unmap_fds_def)

lemma in_flight_slots_remove:
  "idx < length ts \<Longrightarrow> \<not> tk_in_flight t \<Longrightarrow> in_flight_slots (ts[idx := t]) = in_flight_slots ts - {idx}"
  by (auto simp: in_flight_slots_def nth_list_update split: if_splits)

lemma in_flight_slots_add:
  "idx < length ts \<Longrightarrow> tk_in_flight t \<Longrightarrow> in_flight_slots (ts[idx := t]) = insert idx (in_flight_slots ts)"
  by (auto simp: in_flight_slots_def nth_list_update split: if_splits)

lemma unat_pred: "unat w = Suc n \<Longrightarrow> unat (w - 1) = n" for w :: u32
  by (metis One_nat_def diff_Suc_1 nat.simps(3) unat_0 unat_minus_one)

lemma finish_dispatch_inv:
  assumes inv: "sched_inv allocated b s" and laws: "mmap_law (xe_dsp env)" "pool_law (xe_pool_ops env) allocated"
    and idx: "idx < length (sc_tasks s)" and fl: "tk_in_flight (sc_tasks s ! idx)"
    and st: "tk_state (sc_tasks s ! idx) \<noteq> TASK_RUNNING"
    and s': "s' = finish_dispatch env idx (s\<lparr>num_completed := num_completed s - 1, num_in_flight := num_in_flight s - 1\<rparr>)"
  shows "sched_inv allocated b s' \<and> progressed s s'"
proof -
  let ?ts = "sc_tasks s" and ?t = "sc_tasks s ! idx"
  obtain p pool where rel: "release_vtcm_partition (xe_pool_ops env) (xs_pool s) (tk_vtcm_partition ?t) = (p, pool)"
    by (metis prod.collapse)
  let ?u = "?t\<lparr>tk_vtcm_partition := p, tk_in_flight := False\<rparr>"
  let ?us = "?ts[idx := ?u]"
  have split: "in_flight_sum f ?ts = in_flight_sum f ?us + f ?t" for f :: "dispatch_task \<Rightarrow> 'm :: comm_monoid_add"
    by (rule in_flight_sum_finish [OF idx fl]) simp
  note inv' = inv [unfolded sched_inv_def]
  have one: "one_task ?t = 1" "completed_task ?t = 1" using st by (simp_all add: task_sums)
  have nif: "unat (num_in_flight s - 1) = in_flight_sum one_task ?us"
    and nc: "unat (num_completed s - 1) = in_flight_sum completed_task ?us"
    using inv' one split [of one_task] split [of completed_task] by (auto intro!: unat_pred)
  have "task_block ?t \<subseteq># allocated (xs_pool s)" using inv' split [of task_block] by simp
  with release_partition_block [OF laws(2) _ rel] inv' split [of task_block]
  have pool: "allocated pool = eb_allocated b + in_flight_sum task_block ?us" by simp
  let ?r = "unmap_fds (tk_mapped_fds ?t) (xs_residency s)"
  have "holds ?r fd = held_by_tasks b ?us fd" for fd
    using unmap_fds_holds [OF _ laws(1), of "xs_residency s" "tk_mapped_fds ?t" fd] inv' split [of "task_holds fd"]
    by (simp add: held_by_tasks_def task_holds_def)
  then have holds: "holds ?r = held_by_tasks b ?us" by (rule ext)
  have ok: "residency_ok ?r"
    using unmap_fds_holds [OF _ laws(1), of "xs_residency s" "tk_mapped_fds ?t"] inv' by blast
  have slots: "in_flight_slots ?us = in_flight_slots ?ts - {idx}" by (rule in_flight_slots_remove [OF idx]) simp
  have "idx \<in> in_flight_slots ?ts" using idx fl by (simp add: in_flight_slots_def)
  with inv' have out: "idx \<in> outstanding (events_since (eb_log b) (xs_log s))" by simp
  have eq: "s' = s\<lparr>num_completed := num_completed s - 1, num_in_flight := num_in_flight s - 1,
      sc_status := (if tk_state ?t = TASK_FAILED then AEE_EFAILED else sc_status s),
      vtcm_in_use := vtcm_in_use s - vp_size (tk_vtcm_partition ?t), xs_pool := pool, xs_residency := ?r,
      xs_blocks := xs_blocks s - 1, sc_tasks := ?us, xs_log := Finished idx (tk_state ?t) # xs_log s\<rparr>"
    by (simp add: s' finish_dispatch_def rel Let_def)
  have rest: "vtcm_in_use s - vp_size (tk_vtcm_partition ?t) = in_flight_sum task_vtcm ?us"
    "xs_blocks s - 1 = eb_blocks b + 1 + in_flight_sum one_task ?us"
    "load ?us \<le> load ?ts"
    using inv' split [of task_vtcm] split [of one_task] split [of task_load] one
    by (simp_all add: task_vtcm_def load_def)
  from inv' have "extends (eb_log b) (xs_log s)" by simp
  note log = events_since_Cons [OF this] extends_Cons [OF this]
  show ?thesis
    unfolding eq sched_inv_def progressed_def
    using inv' nif nc pool holds ok slots out rest log by simp
qed

section \<open>Waiting\<close>

lemma sched_inv_counts:
  assumes "sched_inv allocated b s"
  shows "in_flight_sum one_task (sc_tasks s) = 0 \<longleftrightarrow> num_in_flight s = 0"
    and "in_flight_sum completed_task (sc_tasks s) = 0 \<longleftrightarrow> num_completed s = 0"
proof -
  have "unat (num_in_flight s) = in_flight_sum one_task (sc_tasks s)"
    "unat (num_completed s) = in_flight_sum completed_task (sc_tasks s)"
    using assms by (simp_all add: sched_inv_def)
  then show "in_flight_sum one_task (sc_tasks s) = 0 \<longleftrightarrow> num_in_flight s = 0"
    "in_flight_sum completed_task (sc_tasks s) = 0 \<longleftrightarrow> num_completed s = 0"
    by (metis unat_eq_0)+
qed

lemma running_slots_nonempty:
  assumes inv: "sched_inv allocated b s" and "num_in_flight s \<noteq> 0" and "num_completed s = 0"
  shows "running_slots s \<noteq> []"
proof -
  have "in_flight_sum one_task (sc_tasks s) \<noteq> 0" "in_flight_sum completed_task (sc_tasks s) = 0"
    using assms sched_inv_counts [OF inv] by auto
  then obtain t where "t \<in> set (sc_tasks s)" "tk_in_flight t" "tk_state t = TASK_RUNNING"
    by (auto simp: in_flight_sum_zero task_sums split: if_splits)
  then show ?thesis by (auto simp: running_slots_def filter_empty_conv running_def in_set_conv_nth)
qed

lemma await_completion_inv:
  assumes inv: "sched_inv allocated b s" and law: "workers_law env" and fl: "num_in_flight s \<noteq> 0"
  obtains s' where "await_completion env s = Inr s'" and "sched_inv allocated b s'" and "progressed s s'"
    and "num_completed s' \<noteq> 0" and "num_in_flight s' = num_in_flight s"
proof -
  define s1 where "s1 = fold (task_worker env) (xe_completed env (xs_log s) (running_slots s)) s"
  have s1: "sched_inv allocated b s1" "progressed s s1" "num_in_flight s1 = num_in_flight s"
    using fold_task_worker_inv [OF inv, of env] by (simp_all add: s1_def)
  show ?thesis
  proof (cases "num_completed s1 = 0")
    case False
    with s1 show ?thesis by (intro that [of s1]) (simp_all add: await_completion_def s1_def Let_def)
  next
    case True
    with s1 fl have "running_slots s1 \<noteq> []" by (intro running_slots_nonempty) auto
    with law obtain idx where idx: "xe_next_completed env (xs_log s1) (running_slots s1) = Some idx"
      "idx \<in> set (running_slots s1)" unfolding workers_law_def by blast
    from idx(2) have "idx < length (sc_tasks s1)" "running (sc_tasks s1 ! idx)" by (auto simp: running_slots_def)
    from task_worker_step [OF s1(1) this, of env] s1 True idx(1) show ?thesis
      by (intro that [of "task_worker env idx s1"])
        (auto simp: await_completion_def s1_def [symmetric] Let_def intro: progressed_trans)
  qed
qed

lemma sched_wait_one_inv:
  assumes inv: "sched_inv allocated b s" and fl: "num_in_flight s \<noteq> 0"
    and laws: "workers_law env" "mmap_law (xe_dsp env)" "pool_law (xe_pool_ops env) allocated"
  obtains s' where "sched_wait_one env s = Inr s'" and "sched_inv allocated b s'" and "progressed s s'"
proof -
  from await_completion_inv [OF inv laws(1) fl] obtain s1 where
    s1: "await_completion env s = Inr s1" "sched_inv allocated b s1" "progressed s s1" "num_completed s1 \<noteq> 0" by blast
  let ?P = "\<lambda>idx. tk_in_flight (sc_tasks s1 ! idx) \<and> tk_state (sc_tasks s1 ! idx) \<noteq> TASK_RUNNING"
  have "in_flight_sum completed_task (sc_tasks s1) \<noteq> 0"
    using s1(4) sched_inv_counts [OF s1(2)] by simp
  then obtain t where "t \<in> set (sc_tasks s1)" "tk_in_flight t" "tk_state t \<noteq> TASK_RUNNING"
    by (auto simp: in_flight_sum_zero task_sums split: if_splits)
  then have "find ?P [0..<length (sc_tasks s1)] \<noteq> None"
    by (auto simp: find_None_iff in_set_conv_nth)
  then obtain idx where find: "find ?P [0..<length (sc_tasks s1)] = Some idx" by blast
  then have idx: "idx < length (sc_tasks s1)" "?P idx" by (auto simp: find_Some_iff)
  let ?s = "finish_dispatch env idx (s1\<lparr>num_completed := num_completed s1 - 1, num_in_flight := num_in_flight s1 - 1\<rparr>)"
  have "sched_inv allocated b ?s \<and> progressed s1 ?s"
    using finish_dispatch_inv [OF s1(2) laws(2,3) idx(1) conjunct1 [OF idx(2)] conjunct2 [OF idx(2)] refl] .
  with s1 fl find show ?thesis
    by (intro that [of ?s]) (auto simp: sched_wait_one_def intro: progressed_trans)
qed

lemma wait_one_inv:
  assumes "sched_inv allocated b s" and "num_in_flight s \<noteq> 0" and "exec_laws env allocated"
  obtains s' where "sched_wait_one env s = Inr s'" and "sched_inv allocated b s'" and "progressed s s'"
  using sched_wait_one_inv [OF assms(1,2), of env] assms(3) unfolding exec_laws_def by blast

declare sched_drain.simps [simp del] wait_for_slot.simps [simp del] prepare_retry.simps [simp del]
  vtcm_retry.simps [simp del]

lemma sched_drain_inv:
  assumes "sched_inv allocated b s" and laws: "exec_laws env allocated"
  shows "\<exists>s'. sched_drain env s = Inr s' \<and> sched_inv allocated b s' \<and> progressed s s' \<and> num_in_flight s' = 0"
  using assms(1)
proof (induction "unat (num_in_flight s)" arbitrary: s rule: less_induct)
  case less
  show ?case
  proof (cases "num_in_flight s = 0")
    case True
    with less.prems show ?thesis by (subst sched_drain.simps) simp
  next
    case False
    from wait_one_inv [OF less.prems False laws] obtain s1 where
      s1: "sched_wait_one env s = Inr s1" "sched_inv allocated b s1" "progressed s s1" by blast
    from less.hyps [OF sched_wait_one_decreases [OF s1(1)] s1(2)] False s1 show ?thesis
      by (subst sched_drain.simps) (auto intro: progressed_trans)
  qed
qed

lemma wait_for_slot_inv:
  assumes "sched_inv allocated b s" and laws: "exec_laws env allocated"
  shows "\<exists>s'. wait_for_slot env s = Inr s' \<and> sched_inv allocated b s' \<and> progressed s s' \<and>
    num_in_flight s' < max_concurrent s'"
  using assms(1)
proof (induction "unat (num_in_flight s)" arbitrary: s rule: less_induct)
  case less
  show ?case
  proof (cases "num_in_flight s < max_concurrent s")
    case True
    with less.prems show ?thesis by (subst wait_for_slot.simps) simp
  next
    case False
    then have "num_in_flight s \<noteq> 0" using less.prems by (auto simp: sched_inv_def)
    from wait_one_inv [OF less.prems this laws] obtain s1 where
      s1: "sched_wait_one env s = Inr s1" "sched_inv allocated b s1" "progressed s s1" by blast
    from less.hyps [OF sched_wait_one_decreases [OF s1(1)] s1(2)] False s1 show ?thesis
      by (subst wait_for_slot.simps) (auto intro: progressed_trans)
  qed
qed

section \<open>Mapping buffers\<close>

lemma resolve_ref_ok:
  assumes "bind_table_ok bt"
  shows "\<exists>res. resolve_ref ref bt = Inr res \<and> (\<forall>e. res = Inl e \<longrightarrow> e = AEE_EBADITEM)"
proof -
  have "bind_entry bt (br_slot ref) \<noteq> None" if "br_slot ref < bt_num_ent bt"
    using assms that by (auto simp: bind_entry_def bind_table_ok_def word_less_nat_alt)
  then show ?thesis by (auto simp: resolve_ref_def Let_def not_le split: option.split)
qed

lemma resolve_and_map_ok:
  assumes bt: "bind_table_ok bt" and law: "mmap_law (xe_dsp env)" and ok: "residency_ok r"
    and few: "\<forall>fd. holds r fd < 2 ^ 32 - 1"
  shows "\<exists>res r'. resolve_and_map env ref bt r = Inr (res, r') \<and> residency_ok r' \<and>
    (case res of Inl e \<Rightarrow> e \<noteq> AEE_SUCCESS \<and> holds r' = holds r
     | Inr rb \<Rightarrow> holds r' = (holds r)(rb_fd rb := holds r (rb_fd rb) + 1))"
proof -
  from resolve_ref_ok [OF bt, of ref] obtain res where res: "resolve_ref ref bt = Inr res" "\<And>e. res = Inl e \<Longrightarrow> e = AEE_EBADITEM"
    by blast
  show ?thesis
  proof (cases res)
    case (Inl e)
    with res ok show ?thesis by (simp add: resolve_and_map_def)
  next
    case (Inr q)
    obtain fd off len n where q: "q = (fd, off, len, n)" by (metis prod_cases4)
    obtain a r' where a: "residency_acquire (xe_dsp env) fd n r = (a, r')" by (metis prod.collapse)
    from acquire_holds [OF ok law few [THEN spec, of fd] a] show ?thesis
      by (cases a) (auto simp: resolve_and_map_def res(1) Inr q a)
  qed
qed

lemma map_bindings_ok:
  assumes bt: "bind_table_ok bt" and law: "mmap_law (xe_dsp env)"
  shows "residency_ok r \<Longrightarrow> holds r = (\<lambda>fd. H fd + count_list (mp_fds m) fd) \<Longrightarrow>
    \<forall>fd. H fd + length (mp_fds m) + length refs < 2 ^ 32 \<Longrightarrow>
    \<exists>res r'. map_bindings env bt (length refs) (concat (map buf_ref_bytes refs) @ rest) m r = Inr (res, r') \<and>
      residency_ok r' \<and>
      (case res of Inl (e, freed) \<Rightarrow> freed \<and> e \<noteq> AEE_SUCCESS \<and> holds r' = H
       | Inr (m', data) \<Rightarrow> data = rest \<and> length (mp_fds m') = length (mp_fds m) + length refs \<and>
           holds r' = (\<lambda>fd. H fd + count_list (mp_fds m') fd))"
proof (induction refs arbitrary: m r)
  case (Cons ref refs)
  have "holds r fd < 2 ^ 32 - 1" for fd
    using Cons.prems(3) [THEN spec, of fd] count_le_length [of "mp_fds m" fd] by (simp add: Cons.prems(2))
  then obtain res r1 where r1: "resolve_and_map env ref bt r = Inr (res, r1)" "residency_ok r1"
    "case res of Inl e \<Rightarrow> e \<noteq> AEE_SUCCESS \<and> holds r1 = holds r
     | Inr rb \<Rightarrow> holds r1 = (holds r)(rb_fd rb := holds r (rb_fd rb) + 1)"
    using resolve_and_map_ok [OF bt law Cons.prems(1), of ref] by blast
  have read: "read_serialized 32 buf_ref_of (concat (map buf_ref_bytes (ref # refs)) @ rest) =
      Inr (ref, concat (map buf_ref_bytes refs) @ rest)"
    by (simp add: buf_ref_wire.read_enc)
  show ?case
  proof (cases res)
    case (Inl e)
    then have "residency_ok (unmap_fds (mp_fds m) r1)" "holds (unmap_fds (mp_fds m) r1) = H"
      using unmap_fds_holds [OF r1(2) law, of "mp_fds m"] r1(3) Cons.prems(2) by (auto simp: fun_eq_iff)
    with Inl r1 read show ?thesis by simp
  next
    case (Inr rb)
    let ?m = "\<lparr>mp_ptrs = mp_ptrs m @ [rb_dsp_vaddr rb + ucast (rb_offset rb)],
      mp_lengths = mp_lengths m @ [ucast (rb_length rb)], mp_fds = mp_fds m @ [rb_fd rb]\<rparr>"
    have "holds r1 = (\<lambda>fd. H fd + count_list (mp_fds ?m) fd)"
      using r1(3) Inr Cons.prems(2) by (auto simp: fun_eq_iff)
    from Cons.IH [OF r1(2) this] Cons.prems(3) obtain res' r2 where
      "map_bindings env bt (length refs) (concat (map buf_ref_bytes refs) @ rest) ?m r1 = Inr (res', r2)"
      "residency_ok r2"
      "case res' of Inl (e, freed) \<Rightarrow> freed \<and> e \<noteq> AEE_SUCCESS \<and> holds r2 = H
       | Inr (m', data) \<Rightarrow> data = rest \<and> length (mp_fds m') = length (mp_fds ?m) + length refs \<and>
           holds r2 = (\<lambda>fd. H fd + count_list (mp_fds m') fd)" by auto
    then show ?thesis using Inr r1(1) read by (auto split: sum.splits)
  qed
qed auto

section \<open>Preparing a dispatch\<close>

text \<open>A prepared dispatch holds buffers, a block of memory and later VTCM, and is not in flight yet.\<close>

definition base_with :: "'pool exec_base \<Rightarrow> dispatch_task \<Rightarrow> 'pool exec_base" where
  "base_with b t = b\<lparr>eb_holds := (\<lambda>fd. eb_holds b fd + task_holds fd t),
     eb_allocated := eb_allocated b + task_block t, eb_blocks := eb_blocks b + 1\<rparr>"

definition roomy :: "'pool exec_base \<Rightarrow> 'pool sched \<Rightarrow> u8 list \<Rightarrow> bool" where
  "roomy b s data \<longleftrightarrow> (\<forall>fd. eb_holds b fd < 2 ^ 31) \<and> 32 * load (sc_tasks s) + length data < 2 ^ 31"

lemma roomy_progressed: "roomy b s data \<Longrightarrow> progressed s s' \<Longrightarrow> roomy b s' data"
  by (auto simp: roomy_def progressed_def)

lemma held_by_tasks_le: "held_by_tasks b ts fd \<le> eb_holds b fd + load ts"
  unfolding held_by_tasks_def load_def
  by (intro add_left_mono in_flight_sum_mono) (simp add: task_sums count_le_length)

lemma dispatch_entry_size_ok:
  assumes "command_ok (DispatchCmd d cs refs)" and "length (command_bytes (DispatchCmd d cs refs) @ rest) < 2 ^ 31"
  shows "unat (dispatch_entry_size d) = length (command_bytes (DispatchCmd d cs refs))"
proof -
  have l: "length (command_bytes (DispatchCmd d cs refs)) = 35 + 4 * unat (cd_constant_count d) + 32 * unat (cd_num_bindings d)"
    using assms(1) by (simp add: struct_lengths u32_wire.length_concat_enc buf_ref_wire.length_concat_enc)
  have "ucast (cd_constant_count d) = (of_nat (unat (cd_constant_count d)) :: usize)"
    "cd_num_bindings d = of_nat (unat (cd_num_bindings d))" by simp_all
  then have eq: "dispatch_entry_size d = of_nat (35 + 4 * unat (cd_constant_count d) + 32 * unat (cd_num_bindings d))"
    unfolding dispatch_entry_size_def by (metis (no_types) mult.commute of_nat_add of_nat_mult of_nat_numeral)
  have "35 + 4 * unat (cd_constant_count d) + 32 * unat (cd_num_bindings d) < 2 ^ LENGTH(32)"
    using l assms(2) by simp
  then show ?thesis unfolding eq unat_of_nat l by (rule mod_less)
qed

text \<open>What a log event of a preparation leaves.\<close>

lemma malloc_log:
  assumes "sched_inv allocated b s" and "same_sched s s'" and "xs_log s' = Malloc n e c # xs_log s"
    and "residency_ok (xs_residency s')"
    and "holds (xs_residency s') = held_by_tasks b' (sc_tasks s)"
    and "xs_blocks s' = eb_blocks b' + 1 + in_flight_sum one_task (sc_tasks s)"
    and "eb_allocated b' = eb_allocated b" "eb_log b' = eb_log b"
  shows "sched_inv allocated b' s'"
proof -
  from assms(1) have "extends (eb_log b) (xs_log s)" by (simp add: sched_inv_def)
  note log = events_since_Cons [OF this] extends_Cons [OF this]
  show ?thesis using assms log by (auto simp: sched_inv_def same_sched_def)
qed

definition prepared :: "'pool exec_env \<Rightarrow> cmd_dispatch \<Rightarrow> buf_ref list \<Rightarrow> u8 list \<Rightarrow>
    dispatch_task \<times> u8 list \<times> usize \<times> bool \<times> u64 \<Rightarrow> bool" where
  "prepared env d refs rest p \<longleftrightarrow> (case p of (t, data, res) \<Rightarrow> data = rest \<and> \<not> tk_in_flight t \<and>
     tk_state t = TASK_RUNNING \<and> tk_vtcm_partition t = empty_partition \<and> task_load t = length refs \<and>
     res = declared_resources (xe_function env (cd_function_handle d)))"

lemma task_block_empty [simp]: "tk_vtcm_partition t = empty_partition \<Longrightarrow> task_block t = {#}"
  by (simp add: task_block_def empty_partition_def)

lemma prepare_dispatch_inv:
  assumes inv: "sched_inv allocated b s" and laws: "exec_laws env allocated" and bt: "bind_table_ok bt"
    and cmd: "command_ok (DispatchCmd d cs refs)" and data: "data = command_bytes (DispatchCmd d cs refs) @ rest"
    and room: "roomy b s data"
  shows "\<exists>res s'. prepare_dispatch env data bt s = Inr (res, s') \<and> progressed s s' \<and>
    (case res of Inl e \<Rightarrow> e \<noteq> AEE_SUCCESS \<and> sched_inv allocated b s'
     | Inr (t, q) \<Rightarrow> prepared env d refs rest (t, q) \<and> sched_inv allocated (base_with b t) s')"
proof -
  have law: "mmap_law (xe_dsp env)" using laws by (simp add: exec_laws_def)
  have small: "length data < 2 ^ 31" using room by (simp add: roomy_def)
  have peek: "peek_serialized 35 cmd_dispatch_of data = Inr d"
    by (simp add: data cmd_dispatch_wire.peek_enc)
  have drop: "drop 35 data = concat (map u32_bytes cs) @ concat (map buf_ref_bytes refs) @ rest"
    by (simp add: data cmd_dispatch_wire.enc_length)
  have cs: "read_loop 4 u32_of (\<lambda>c cs. Inr (cs @ [c])) (length cs) (concat (map u32_bytes cs) @ bs) [] = Inr (cs, bs)" for bs
  proof -
    have "fold_res (\<lambda>c cs. Inr (cs @ [c]) :: aee + u32 list) cs a = Inr (a @ cs)" for a
      by (induction cs arbitrary: a) auto
    then show ?thesis by (simp add: u32_wire.read_loop_enc)
  qed
  have sz: "\<not> of_nat (length data) < dispatch_entry_size d"
  proof -
    have "unat (dispatch_entry_size d) \<le> length data"
      using dispatch_entry_size_ok [OF cmd, of rest] small data by simp
    moreover have "unat (of_nat (length data) :: usize) = length data" using small by (simp add: unat_of_nat)
    ultimately show ?thesis by (simp add: word_less_nat_alt)
  qed
  note inv' = inv [unfolded sched_inv_def]
  obtain err s1 where m: "exec_malloc env (dispatch_arrays_size d) s = (err, s1)" by (metis prod.collapse)
  from exec_malloc_frame [OF m] obtain e c where
    s1: "same_sched s s1" "xs_residency s1 = xs_residency s"
      "xs_blocks s1 = xs_blocks s + (if err = AEE_SUCCESS then 1 else 0)"
      "xs_log s1 = Malloc (dispatch_arrays_size d) e c # xs_log s" by blast
  have prog: "progressed s s'" if "same_sched s s'" for s' :: "'a sched"
    using that by (simp add: progressed_def same_sched_def)
  show ?thesis
  proof (cases "cd_function_handle d = 0")
    case True
    with peek sz inv show ?thesis by (simp add: prepare_dispatch_def)
  next
    case nonnull: False
    show ?thesis
    proof (cases "err = AEE_SUCCESS")
      case False
      have "sched_inv allocated b s1"
        using malloc_log [OF inv s1(1,4), of b] s1(2,3) inv' False by simp
      with False m peek sz nonnull prog [OF s1(1)] show ?thesis by (simp add: prepare_dispatch_def)
    next
      case True
      let ?m0 = "\<lparr>mp_ptrs = [], mp_lengths = [], mp_fds = []\<rparr>"
      have few: "\<forall>fd. held_by_tasks b (sc_tasks s) fd + length (mp_fds ?m0) + length refs < 2 ^ 32"
      proof
        fix fd
        have "32 * length refs \<le> length data"
          by (simp add: data buf_ref_wire.length_concat_enc)
        moreover have "eb_holds b fd < 2 ^ 31" "32 * load (sc_tasks s) + length data < 2 ^ 31"
          using room by (simp_all add: roomy_def)
        ultimately show "held_by_tasks b (sc_tasks s) fd + length (mp_fds ?m0) + length refs < 2 ^ 32"
          using held_by_tasks_le [of b "sc_tasks s" fd] by simp
      qed
      have rok: "residency_ok (xs_residency s)"
        "holds (xs_residency s) = (\<lambda>fd. held_by_tasks b (sc_tasks s) fd + count_list (mp_fds ?m0) fd)"
        using inv' by simp_all
      from map_bindings_ok [OF bt law rok few, of rest]
      obtain res r where map: "map_bindings env bt (length refs) (concat (map buf_ref_bytes refs) @ rest) ?m0 (xs_residency s) = Inr (res, r)"
        and r: "residency_ok r" and
        res: "case res of Inl (e, freed) \<Rightarrow> freed \<and> e \<noteq> AEE_SUCCESS \<and> holds r = held_by_tasks b (sc_tasks s)
          | Inr (m', data) \<Rightarrow> data = rest \<and> length (mp_fds m') = length (mp_fds ?m0) + length refs \<and>
              holds r = (\<lambda>fd. held_by_tasks b (sc_tasks s) fd + count_list (mp_fds m') fd)"
        by blast
      have fill: "prepare_dispatch env data bt s = fill_dispatch env d (drop 35 data) bt s1"
        using peek sz nonnull m True by (simp add: prepare_dispatch_def)
      have nc: "unat (cd_constant_count d) = length cs" "unat (cd_num_bindings d) = length refs"
        using cmd by simp_all
      show ?thesis
      proof (cases res)
        case (Inl q)
        then obtain e' where q: "res = Inl (e', True)" "e' \<noteq> AEE_SUCCESS" "holds r = held_by_tasks b (sc_tasks s)"
          using res by (cases q) auto
        let ?s = "s1\<lparr>xs_residency := r, xs_blocks := xs_blocks s1 - 1\<rparr>"
        have same: "same_sched s ?s" using s1(1) by (simp add: same_sched_def)
        have "sched_inv allocated b ?s"
          using malloc_log [OF inv same, of _ e c b] s1(3,4) q(3) r inv' True by simp
        moreover have "prepare_dispatch env data bt s = Inr (Inl e', ?s)"
          by (simp add: fill fill_dispatch_def drop nc cs s1(2) map q(1) Let_def)
        ultimately show ?thesis using q(2) prog [OF same] by simp
      next
        case (Inr q)
        then obtain m' where q: "res = Inr (m', rest)" "length (mp_fds m') = length refs"
          "holds r = (\<lambda>fd. held_by_tasks b (sc_tasks s) fd + count_list (mp_fds m') fd)"
          using res by (cases q) auto
        let ?t = "prepared_task d (xe_function env (cd_function_handle d)) cs m'"
        let ?s = "s1\<lparr>xs_residency := r\<rparr>"
        have same: "same_sched s ?s" using s1(1) by (simp add: same_sched_def)
        have t: "tk_mapped_fds ?t = mp_fds m'" "tk_vtcm_partition ?t = empty_partition"
          by (simp_all add: prepared_task_def)
        have "holds r = held_by_tasks (base_with b ?t) (sc_tasks s)"
          using q(3) t(1) by (simp add: fun_eq_iff held_by_tasks_def base_with_def task_holds_def)
        then have "sched_inv allocated (base_with b ?t) ?s"
          using malloc_log [OF inv same, of _ e c "base_with b ?t"] s1(3,4) r inv' True t(2)
          by (simp add: base_with_def)
        moreover have "prepare_dispatch env data bt s =
            Inr (Inr (?t, rest, declared_resources (xe_function env (cd_function_handle d))), ?s)"
          by (simp add: fill fill_dispatch_def drop nc cs s1(2) map q(1) Let_def)
        moreover have "prepared env d refs rest (?t, rest, declared_resources (xe_function env (cd_function_handle d)))"
          using q(2) by (simp add: prepared_def prepared_task_def task_load_def)
        ultimately show ?thesis using prog [OF same] by simp
      qed
    qed
  qed
qed

lemma prepare_retry_inv:
  assumes "sched_inv allocated b s" and laws: "exec_laws env allocated" and bt: "bind_table_ok bt"
    and cmd: "command_ok (DispatchCmd d cs refs)" and data: "data = command_bytes (DispatchCmd d cs refs) @ rest"
    and "roomy b s data"
  shows "\<exists>res s'. prepare_retry env data bt s = Inr (res, s') \<and> progressed s s' \<and>
    (case res of Inl e \<Rightarrow> e \<noteq> AEE_SUCCESS \<and> sched_inv allocated b s'
     | Inr (t, q) \<Rightarrow> prepared env d refs rest (t, q) \<and> sched_inv allocated (base_with b t) s')"
  using assms(1,6)
proof (induction "unat (num_in_flight s)" arbitrary: s rule: less_induct)
  case less
  from prepare_dispatch_inv [OF less.prems(1) laws bt cmd data less.prems(2)] obtain res s1 where
    p: "prepare_dispatch env data bt s = Inr (res, s1)" and prog: "progressed s s1" and
    res: "case res of Inl e \<Rightarrow> e \<noteq> AEE_SUCCESS \<and> sched_inv allocated b s1
      | Inr (t, q) \<Rightarrow> prepared env d refs rest (t, q) \<and> sched_inv allocated (base_with b t) s1" by blast
  show ?case
  proof (cases "res = Inl AEE_EWOULDBLOCK \<and> num_in_flight s1 > 0")
    case False
    with p prog res show ?thesis by (subst prepare_retry.simps) auto
  next
    case True
    then have "sched_inv allocated b s1" "num_in_flight s1 \<noteq> 0" using res by auto
    from wait_one_inv [OF this laws] obtain s2 where
      s2: "sched_wait_one env s1 = Inr s2" "sched_inv allocated b s2" "progressed s1 s2" by blast
    have prog2: "progressed s s2" using prog s2(3) by (rule progressed_trans)
    have "unat (num_in_flight s2) < unat (num_in_flight s)"
      using sched_wait_one_decreases [OF s2(1)] prepare_dispatch_num_in_flight [OF p] by simp
    from less.hyps [OF this s2(2) roomy_progressed [OF less.prems(2) prog2]] obtain res' s3 where
      "prepare_retry env data bt s2 = Inr (res', s3)" "progressed s2 s3"
      "case res' of Inl e \<Rightarrow> e \<noteq> AEE_SUCCESS \<and> sched_inv allocated b s3
        | Inr (t, q) \<Rightarrow> prepared env d refs rest (t, q) \<and> sched_inv allocated (base_with b t) s3" by blast
    with p True s2(1) prog2 show ?thesis
      by (subst prepare_retry.simps) (auto intro: progressed_trans)
  qed
qed

section \<open>Acquiring VTCM\<close>

text \<open>A request the pool serves whenever nobody but others before the execution has VTCM.\<close>

definition vtcm_served :: "'pool exec_env \<Rightarrow> ('pool \<Rightarrow> (usize \<times> usize) multiset) \<Rightarrow> (usize \<times> usize) multiset \<Rightarrow> usize \<Rightarrow> bool" where
  "vtcm_served env allocated A n \<longleftrightarrow>
     (\<forall>pool name. allocated pool = A \<longrightarrow> fst (try_acquire_vtcm_partition (xe_pool_ops env) pool n name))"

lemma try_acquire_block:
  assumes law: "pool_law ops allocated" and tr: "try_acquire_vtcm_partition ops pool n name = (ok, p, pool')"
  shows "allocated pool' = (if ok then allocated pool + (if vp_base p = 0 then {#} else {#(vp_base p, vp_size p)#}) else allocated pool)"
proof -
  obtain q pool1 where a: "Allocate ops pool (partition_bytes ops pool n) = (q, pool1)" by (metis prod.collapse)
  with law have "allocated pool1 = (if q = 0 then allocated pool else add_mset (q, partition_bytes ops pool n) (allocated pool))"
    unfolding pool_law_def by blast
  with tr a show ?thesis
    by (auto simp: try_acquire_vtcm_partition_def empty_partition_def Let_def split: if_splits)
qed

lemma vtcm_retry_inv:
  assumes "sched_inv allocated (base_with b t) s" and t: "tk_vtcm_partition t = empty_partition"
    and laws: "exec_laws env allocated"
  shows "case vtcm_retry env n name s of
      Inl f \<Rightarrow> f = Aborted \<and> \<not> vtcm_served env allocated (eb_allocated b) n
    | Inr (p, s') \<Rightarrow> sched_inv allocated (base_with b (t\<lparr>tk_vtcm_partition := p\<rparr>)) s' \<and> progressed s s'"
  using assms(1)
proof (induction "unat (num_in_flight s)" arbitrary: s rule: less_induct)
  case less
  obtain ok p pool where tr: "try_acquire_vtcm_partition (xe_pool_ops env) (xs_pool s) n name = (ok, p, pool)"
    by (metis prod_cases3)
  have "pool_law (xe_pool_ops env) allocated" using laws by (simp add: exec_laws_def)
  note block = try_acquire_block [OF this tr]
  let ?s = "s\<lparr>xs_pool := pool\<rparr>"
  show ?case
  proof (cases ok)
    case True
    have "sched_inv allocated (base_with b (t\<lparr>tk_vtcm_partition := p\<rparr>)) ?s"
      using less.prems block True t
      by (auto simp: sched_inv_def base_with_def held_by_tasks_def fun_eq_iff task_sums empty_partition_def)
    with True tr show ?thesis by (subst vtcm_retry.simps) (simp add: progressed_def)
  next
    case False
    have inv: "sched_inv allocated (base_with b t) ?s"
      using less.prems block False by (simp add: sched_inv_def)
    show ?thesis
    proof (cases "num_in_flight s = 0")
      case True
      then have "\<forall>u\<in>set (sc_tasks s). \<not> tk_in_flight u"
        using sched_inv_counts(1) [OF less.prems] by (auto simp: in_flight_sum_zero one_task_def)
      then have "allocated (xs_pool s) = eb_allocated b"
        using less.prems t by (simp add: sched_inv_def base_with_def in_flight_sum_idle)
      with tr False have "\<not> vtcm_served env allocated (eb_allocated b) n"
        by (auto simp: vtcm_served_def) (metis fst_conv)
      with True tr False show ?thesis by (subst vtcm_retry.simps) simp
    next
      case fl: False
      then have "num_in_flight ?s \<noteq> 0" by simp
      from wait_one_inv [OF inv this laws] obtain s2 where
        s2: "sched_wait_one env ?s = Inr s2" "sched_inv allocated (base_with b t) s2" "progressed ?s s2" by blast
      have "unat (num_in_flight s2) < unat (num_in_flight s)"
        using sched_wait_one_decreases [OF s2(1)] by simp
      note IH = less.hyps [OF this s2(2)]
      have "vtcm_retry env n name s = vtcm_retry env n name s2"
        using tr False fl s2(1) by (subst vtcm_retry.simps) simp
      moreover have "progressed s s2" using s2(3) by (simp add: progressed_def)
      ultimately show ?thesis using IH by (auto split: sum.splits intro: progressed_trans)
    qed
  qed
qed

section \<open>Starting a dispatch\<close>

lemma run_workgroups_in_flight:
  "run_workgroups env log ids (t\<lparr>tk_in_flight := c\<rparr>) mem =
     (case run_workgroups env log ids t mem of (st, t', mem') \<Rightarrow> (st, t'\<lparr>tk_in_flight := c\<rparr>, mem'))"
proof (induction ids arbitrary: t mem)
  case (Cons id ids)
  obtain x y z where id: "id = (x, y, z)" by (metis prod_cases3)
  have swap: "t\<lparr>tk_in_flight := c, tk_vtcm_partition := p\<rparr> = (t\<lparr>tk_vtcm_partition := p\<rparr>)\<lparr>tk_in_flight := c\<rparr>" for p by simp
  show ?case by (simp add: id Let_def Cons.IH [symmetric] swap del: dispatch_task.update_convs)
qed simp

text \<open>A dispatch in its slot, about to run.\<close>

definition launched :: "nat \<Rightarrow> dispatch_task \<Rightarrow> 'pool sched \<Rightarrow> 'pool sched" where
  "launched idx t s = s\<lparr>vtcm_in_use := vtcm_in_use s + vp_size (tk_vtcm_partition t), xs_log := Started idx # xs_log s,
     sc_tasks := (sc_tasks s)[idx := t\<lparr>tk_state := TASK_RUNNING, tk_in_flight := True\<rparr>], num_in_flight := num_in_flight s + 1\<rparr>"

lemma launched_inv:
  assumes inv: "sched_inv allocated (base_with b t) s" and idx: "idx < length (sc_tasks s)"
    and free: "\<not> tk_in_flight (sc_tasks s ! idx)"
  shows "sched_inv allocated b (launched idx t s)"
    and "load (sc_tasks (launched idx t s)) = load (sc_tasks s) + task_load t"
proof -
  let ?ts = "sc_tasks s" and ?t = "t\<lparr>tk_state := TASK_RUNNING, tk_in_flight := True\<rparr>"
  have add: "in_flight_sum f (?ts[idx := ?t]) = in_flight_sum f ?ts + f ?t" for f :: "dispatch_task \<Rightarrow> 'm :: comm_monoid_add"
    by (rule in_flight_sum_start [OF idx free]) simp
  note inv' = inv [unfolded sched_inv_def]
  have t: "one_task ?t = 1" "completed_task ?t = 0" "task_vtcm ?t = vp_size (tk_vtcm_partition t)"
    "task_block ?t = task_block t" "task_load ?t = task_load t" "\<And>fd. task_holds fd ?t = task_holds fd t"
    by (simp_all add: task_sums)
  have "in_flight_sum one_task (?ts[idx := ?t]) \<le> unat (max_concurrent s)"
    using in_flight_sum_one [of "?ts[idx := ?t]"] inv' by simp
  then have "unat (num_in_flight s) < unat (max_concurrent s)" using inv' add [of one_task] t(1) by simp
  note inc = word_Suc_unat [OF this]
  have held: "held_by_tasks b (?ts[idx := ?t]) = held_by_tasks (base_with b t) ?ts"
    by (rule ext) (simp add: held_by_tasks_def base_with_def add t(6))
  have slots: "in_flight_slots (?ts[idx := ?t]) = insert idx (in_flight_slots ?ts)"
    by (rule in_flight_slots_add [OF idx]) simp
  have new: "idx \<notin> in_flight_slots ?ts" "idx < unat (max_concurrent s)"
    using free idx inv' by (auto simp: in_flight_slots_def)
  have log: "eb_log (base_with b t) = eb_log b" "eb_blocks (base_with b t) = eb_blocks b + 1"
    "eb_allocated (base_with b t) = eb_allocated b + task_block t" by (simp_all add: base_with_def)
  from inv' log have "extends (eb_log b) (xs_log s)" by simp
  note ext = events_since_Cons [OF this] extends_Cons [OF this]
  show "sched_inv allocated b (launched idx t s)"
    unfolding launched_def sched_inv_def
    using inv' inc held slots new t ext log by (simp add: add ac_simps)
  show "load (sc_tasks (launched idx t s)) = load ?ts + task_load t"
    by (simp add: launched_def load_def add t)
qed

text \<open>Running on the master is running on a worker that completes at once.\<close>

lemma start_dispatch_master:
  fixes env :: "'pool exec_env"
  assumes idx: "idx < length (sc_tasks s)" and t: "tk_state t = TASK_RUNNING"
    and master: "uses_hmx \<or> max_concurrent s = 1"
  defines "w \<equiv> task_worker env idx (launched idx t s)"
  shows "start_dispatch env idx t uses_hmx s =
    (let s' = finish_dispatch env idx (w\<lparr>num_completed := num_completed w - 1, num_in_flight := num_in_flight w - 1\<rparr>)
     in (sc_status s', s'))"
proof -
  let ?t = "t\<lparr>tk_in_flight := True\<rparr>"
  obtain st u mem where run: "run_dispatch env (Started idx # xs_log s) t (xs_mem s) = (st, u, mem)" by (metis prod_cases3)
  then have run': "run_dispatch env (Started idx # xs_log s) ?t (xs_mem s) = (st, u\<lparr>tk_in_flight := True\<rparr>, mem)"
    by (simp add: run_dispatch_def run_workgroups_in_flight)
  have upd: "t\<lparr>tk_state := TASK_RUNNING, tk_in_flight := True\<rparr> = ?t" using t by simp
  have w: "w = s\<lparr>vtcm_in_use := vtcm_in_use s + vp_size (tk_vtcm_partition t), xs_log := Started idx # xs_log s,
      num_in_flight := num_in_flight s + 1, sc_tasks := (sc_tasks s)[idx := u\<lparr>tk_in_flight := True, tk_state := st\<rparr>],
      xs_mem := mem, num_completed := num_completed s + 1\<rparr>"
    using idx t run' by (simp add: w_def launched_def task_worker_def upd running_def)
  from run idx master show ?thesis
    by (simp add: w start_dispatch_def finish_dispatch_def Let_def case_prod_beta)
qed

lemma start_dispatch_inv:
  assumes inv: "sched_inv allocated (base_with b t) s" and laws: "exec_laws env allocated"
    and idx: "idx < length (sc_tasks s)" and free: "\<not> tk_in_flight (sc_tasks s ! idx)"
    and t: "tk_state t = TASK_RUNNING" and start: "start_dispatch env idx t uses_hmx s = (err, s')"
  shows "sched_inv allocated b s' \<and> max_concurrent s' = max_concurrent s \<and>
    sc_vtcm_pool_size s' = sc_vtcm_pool_size s \<and> load (sc_tasks s') \<le> load (sc_tasks s) + task_load t \<and>
    err \<in> {AEE_SUCCESS, AEE_EFAILED}"
proof -
  note l = launched_inv [OF inv idx free]
  let ?l = "launched idx t s"
  show ?thesis
  proof (cases "uses_hmx \<or> max_concurrent s = 1")
    case False
    then have "s' = ?l" "err = AEE_SUCCESS"
      using start by (auto simp: start_dispatch_def launched_def Let_def)
    with l show ?thesis by (simp add: launched_def)
  next
    case True
    let ?w = "task_worker env idx ?l"
    have idx': "idx < length (sc_tasks ?l)" and run: "running (sc_tasks ?l ! idx)"
      using idx by (simp_all add: launched_def running_def)
    from task_worker_step [OF l(1) idx' run, of env] have w: "sched_inv allocated b ?w" "progressed ?l ?w" by auto
    obtain st u mem where r: "run_dispatch env (xs_log ?l) (sc_tasks ?l ! idx) (xs_mem ?l) = (st, u, mem)" by (metis prod_cases3)
    with idx' run have "sc_tasks ?w ! idx = u\<lparr>tk_state := st\<rparr>" by (simp add: task_worker_def)
    with run_dispatch_holdings [OF r] run have fin: "tk_in_flight (sc_tasks ?w ! idx)" "tk_state (sc_tasks ?w ! idx) \<noteq> TASK_RUNNING"
      by (simp_all add: same_holdings_def running_def)
    from start start_dispatch_master [OF idx t True, of env] have
      s': "s' = finish_dispatch env idx (?w\<lparr>num_completed := num_completed ?w - 1, num_in_flight := num_in_flight ?w - 1\<rparr>)"
      and err: "err = sc_status s'" by (auto simp only: Let_def prod.inject)
    have "idx < length (sc_tasks ?w)" using idx' by simp
    from finish_dispatch_inv [OF w(1) _ _ this fin s'] laws have "sched_inv allocated b s'" "progressed ?w s'"
      by (simp_all add: exec_laws_def)
    with w(2) l(2) err show ?thesis by (auto simp: progressed_def launched_def sched_inv_def)
  qed
qed

section \<open>Commands\<close>

text \<open>A dispatch whose declared VTCM fits the pool, and that the pool serves.\<close>

definition dispatch_fits ::
  "'pool exec_env \<Rightarrow> ('pool \<Rightarrow> (usize \<times> usize) multiset) \<Rightarrow> (usize \<times> usize) multiset \<Rightarrow> usize \<Rightarrow> cmd_dispatch \<Rightarrow> bool" where
  "dispatch_fits env allocated A pool_size d \<longleftrightarrow>
     (let n = fst (declared_resources (xe_function env (cd_function_handle d)))
      in (n = HEXAGON_RT_VTCM_PARTITION_ALL \<or> n \<le> pool_size) \<and> vtcm_served env allocated A n)"

text \<open>What executing a command does to the scheduler.\<close>

definition command_done ::
  "('pool \<Rightarrow> (usize \<times> usize) multiset) \<Rightarrow> 'pool exec_base \<Rightarrow> u8 list \<Rightarrow> u8 list \<Rightarrow> 'pool sched \<Rightarrow> aee \<Rightarrow> u8 list \<Rightarrow> 'pool sched \<Rightarrow> bool" where
  "command_done allocated b data rest s err data' s' \<longleftrightarrow>
     sched_inv allocated b s' \<and> max_concurrent s' = max_concurrent s \<and> sc_vtcm_pool_size s' = sc_vtcm_pool_size s \<and>
     err \<noteq> AEE_EWOULDBLOCK \<and>
     (err = AEE_SUCCESS \<longrightarrow> data' = rest \<and>
        32 * load (sc_tasks s') + length rest \<le> 32 * load (sc_tasks s) + length data)"

lemma all_in_flight: "\<forall>t\<in>set ts. tk_in_flight t \<Longrightarrow> in_flight_sum one_task ts = length ts"
  by (induction ts) (auto simp: in_flight_sum_def one_task_def)

lemma exec_dispatch_inv:
  assumes inv: "sched_inv allocated b s" and laws: "exec_laws env allocated" and bt: "bind_table_ok bt"
    and cmd: "command_ok (DispatchCmd d cs refs)" and data: "data = command_bytes (DispatchCmd d cs refs) @ rest"
    and room: "roomy b s data"
  shows "case exec_dispatch env data bt s of
      Inl f \<Rightarrow> f = Aborted \<and> \<not> dispatch_fits env allocated (eb_allocated b) (sc_vtcm_pool_size s) d
    | Inr ((err, data'), s') \<Rightarrow> command_done allocated b data rest s err data' s'"
proof -
  from wait_for_slot_inv [OF inv laws] obtain s1 where
    s1: "wait_for_slot env s = Inr s1" "sched_inv allocated b s1" "progressed s s1" "num_in_flight s1 < max_concurrent s1" by blast
  have "in_flight_sum one_task (sc_tasks s1) < length (sc_tasks s1)"
    using s1(2,4) by (simp add: sched_inv_def word_less_nat_alt)
  then obtain u where "u \<in> set (sc_tasks s1)" "\<not> tk_in_flight u"
    by (metis all_in_flight less_irrefl)
  then have "find (\<lambda>idx. \<not> tk_in_flight (sc_tasks s1 ! idx)) [0..<length (sc_tasks s1)] \<noteq> None"
    by (auto simp: find_None_iff in_set_conv_nth)
  then obtain idx where find: "find (\<lambda>idx. \<not> tk_in_flight (sc_tasks s1 ! idx)) [0..<length (sc_tasks s1)] = Some idx" by blast
  then have idx: "idx < length (sc_tasks s1)" "\<not> tk_in_flight (sc_tasks s1 ! idx)" by (auto simp: find_Some_iff)
  from prepare_retry_inv [OF s1(2) laws bt cmd data roomy_progressed [OF room s1(3)]] obtain res s2 where
    p: "prepare_retry env data bt s1 = Inr (res, s2)" "progressed s1 s2" and
    res: "case res of Inl e \<Rightarrow> e \<noteq> AEE_SUCCESS \<and> sched_inv allocated b s2
      | Inr (t, q) \<Rightarrow> prepared env d refs rest (t, q) \<and> sched_inv allocated (base_with b t) s2" by blast
  note prog = progressed_trans [OF s1(3) p(2)]
  show ?thesis
  proof (cases res)
    case (Inl e)
    with res prog s1(1) find p(1) show ?thesis
      by (auto simp: exec_dispatch_def command_done_def progressed_def residency_exceeded_def)
  next
    case (Inr q)
    obtain t data' n hmx threads where q: "q = (t, data', n, hmx, threads)" by (metis prod_cases5)
    from res Inr q have t: "data' = rest" "\<not> tk_in_flight t" "tk_state t = TASK_RUNNING"
      "tk_vtcm_partition t = empty_partition" "task_load t = length refs"
      "n = fst (declared_resources (xe_function env (cd_function_handle d)))"
      and inv2: "sched_inv allocated (base_with b t) s2" by (auto simp: prepared_def) (metis fst_conv)
    have psize: "sc_vtcm_pool_size s2 = sc_vtcm_pool_size s" using prog by (simp add: progressed_def)
    show ?thesis
    proof (cases "n \<noteq> HEXAGON_RT_VTCM_PARTITION_ALL \<and> n > sc_vtcm_pool_size s2")
      case True
      with psize t(6) have "\<not> dispatch_fits env allocated (eb_allocated b) (sc_vtcm_pool_size s) d"
        by (auto simp: dispatch_fits_def Let_def)
      with True s1(1) find p(1) Inr q show ?thesis by (simp add: exec_dispatch_def)
    next
      case False
      note v = vtcm_retry_inv [OF inv2 t(4) laws, of n "tk_func_name t"]
      show ?thesis
      proof (cases "vtcm_retry env n (tk_func_name t) s2")
        case (Inl f)
        with v t(6) have "f = Aborted" "\<not> dispatch_fits env allocated (eb_allocated b) (sc_vtcm_pool_size s) d"
          by (auto simp: dispatch_fits_def Let_def)
        with False s1(1) find p(1) Inr q Inl show ?thesis by (simp add: exec_dispatch_def)
      next
        case v2: (Inr r)
        obtain part s3 where r: "r = (part, s3)" by (cases r)
        let ?t = "t\<lparr>tk_vtcm_partition := part\<rparr>"
        from v v2 r have s3: "sched_inv allocated (base_with b ?t) s3" "progressed s2 s3" by auto
        have idx3: "idx < length (sc_tasks s3)" "\<not> tk_in_flight (sc_tasks s3 ! idx)"
          using idx progressed_trans [OF p(2) s3(2)] s3(1) s1(2)
          by (auto simp: progressed_def sched_inv_def in_flight_slots_def)
        obtain err s4 where start: "start_dispatch env idx ?t hmx s3 = (err, s4)" by (metis prod.collapse)
        from start_dispatch_inv [OF s3(1) laws idx3 _ start] t(3,5) have
          s4: "sched_inv allocated b s4" "max_concurrent s4 = max_concurrent s3" "sc_vtcm_pool_size s4 = sc_vtcm_pool_size s3"
            "load (sc_tasks s4) \<le> load (sc_tasks s3) + length refs" "err \<in> {AEE_SUCCESS, AEE_EFAILED}"
          by (auto simp: task_load_def)
        have "exec_dispatch env data bt s = Inr ((err, rest), s4)"
          using False s1(1) find p(1) Inr q v2 r start t(1) by (simp add: exec_dispatch_def)
        moreover have "32 * length refs + length rest \<le> length data"
          by (simp add: data buf_ref_wire.length_concat_enc)
        ultimately show ?thesis
          using s4 progressed_trans [OF prog s3(2)] by (auto simp: command_done_def progressed_def)
      qed
    qed
  qed
qed

lemma load_idle: "num_in_flight s = 0 \<Longrightarrow> sched_inv allocated b s \<Longrightarrow> in_flight_slots (sc_tasks s) = {}"
  using sched_inv_counts(1) [of allocated b s] by (auto simp: in_flight_sum_zero one_task_def in_flight_slots_def)

lemma exec_barrier_inv:
  assumes inv: "sched_inv allocated b s" and laws: "exec_laws env allocated"
    and data: "data = command_bytes BarrierCmd @ rest"
  shows "\<exists>err data' s'. exec_barrier env data s = Inr ((err, data'), s') \<and> command_done allocated b data rest s err data' s'"
proof -
  from sched_drain_inv [OF inv laws] obtain s1 where
    s1: "sched_drain env s = Inr s1" "sched_inv allocated b s1" "progressed s s1" "num_in_flight s1 = 0" by blast
  from s1(2) have "extends (eb_log b) (xs_log s1)" by (simp add: sched_inv_def)
  note log = events_since_Cons [OF this] extends_Cons [OF this]
  have "sched_inv allocated b (s1\<lparr>xs_log := Barrier # xs_log s1\<rparr>)"
    using s1(2) log load_idle [OF s1(4,2)] by (simp add: sched_inv_def)
  moreover have "read_serialized 1 cmd_type_of data = Inr (CMD_BARRIER, rest)"
    by (simp add: data cmd_barrier_wire.read_enc [simplified])
  ultimately show ?thesis using s1 by (simp add: exec_barrier_def command_done_def progressed_def data)
qed

text \<open>The buffers of a transfer, held by the master until it is done.\<close>

definition base_hold :: "'pool exec_base \<Rightarrow> i32 \<Rightarrow> 'pool exec_base" where
  "base_hold b fd = b\<lparr>eb_holds := (eb_holds b)(fd := eb_holds b fd + 1)\<rparr>"

definition holdable :: "'pool exec_base \<Rightarrow> 'pool sched \<Rightarrow> bool" where
  "holdable b s \<longleftrightarrow> (\<forall>fd. eb_holds b fd + load (sc_tasks s) < 2 ^ 32 - 1)"

lemma holdable_progressed: "holdable b s \<Longrightarrow> progressed s s' \<Longrightarrow> holdable b s'"
  unfolding holdable_def progressed_def by (meson add_left_mono le_less_trans)

lemma roomy_holdable: "roomy b s data \<Longrightarrow> holdable b s" "roomy b s data \<Longrightarrow> holdable (base_hold b fd) s"
proof -
  assume r: "roomy b s data"
  have "eb_holds b f + load (sc_tasks s) + 1 < 2 ^ 32 - 1" for f
  proof -
    from r have "eb_holds b f < 2 ^ 31" "32 * load (sc_tasks s) < 2 ^ 31" by (auto simp: roomy_def)
    then show ?thesis by simp
  qed
  then have h: "eb_holds b f + load (sc_tasks s) < 2 ^ 32 - 2" for f by simp
  show "holdable b s" using h by (fastforce simp: holdable_def intro: less_trans)
  show "holdable (base_hold b fd) s"
    unfolding holdable_def
  proof
    fix f
    show "eb_holds (base_hold b fd) f + load (sc_tasks s) < 2 ^ 32 - 1" using h [of f] by (cases "f = fd") (simp_all add: base_hold_def)
  qed
qed

lemma sched_inv_residency:
  assumes inv: "sched_inv allocated b s" and "residency_ok r"
    and "\<And>fd. holds r fd + eb_holds b fd = holds (xs_residency s) fd + eb_holds b' fd"
    and "eb_allocated b' = eb_allocated b" "eb_blocks b' = eb_blocks b" "eb_log b' = eb_log b"
  shows "sched_inv allocated b' (s\<lparr>xs_residency := r\<rparr>)"
proof -
  have "holds (xs_residency s) fd = held_by_tasks b (sc_tasks s) fd" for fd using inv by (simp add: sched_inv_def)
  with assms(3) have "holds r fd = held_by_tasks b' (sc_tasks s) fd" for fd
    by (metis (no_types) add.commute add.left_commute add_left_cancel held_by_tasks_def)
  then have "holds r = held_by_tasks b' (sc_tasks s)" by (rule ext)
  with assms show ?thesis by (auto simp: sched_inv_def)
qed

lemma map_ref_inv:
  assumes inv: "sched_inv allocated b s" and laws: "exec_laws env allocated" and bt: "bind_table_ok bt"
    and room: "holdable b s"
  shows "\<exists>res s'. map_ref env ref bt s = Inr (res, s') \<and> progressed s s' \<and>
    (case res of Inl e \<Rightarrow> e \<noteq> AEE_SUCCESS \<and> sched_inv allocated b s'
     | Inr rb \<Rightarrow> sched_inv allocated (base_hold b (rb_fd rb)) s')"
proof -
  have law: "mmap_law (xe_dsp env)" using laws by (simp add: exec_laws_def)
  have ok: "residency_ok (xs_residency s)" and h: "holds (xs_residency s) = held_by_tasks b (sc_tasks s)"
    using inv by (simp_all add: sched_inv_def)
  have few: "\<forall>fd. holds (xs_residency s) fd < 2 ^ 32 - 1"
    using room held_by_tasks_le [of b "sc_tasks s"] unfolding h holdable_def by (meson le_less_trans)
  from resolve_and_map_ok [OF bt law ok few, of ref] obtain res r where
    r: "resolve_and_map env ref bt (xs_residency s) = Inr (res, r)" "residency_ok r" and
    res: "case res of Inl e \<Rightarrow> e \<noteq> AEE_SUCCESS \<and> holds r = holds (xs_residency s)
     | Inr rb \<Rightarrow> holds r = (holds (xs_residency s))(rb_fd rb := holds (xs_residency s) (rb_fd rb) + 1)" by blast
  let ?s = "s\<lparr>xs_residency := r\<rparr>"
  have "progressed s ?s" by (simp add: progressed_def)
  moreover have "map_ref env ref bt s = Inr (res, ?s)" by (simp add: map_ref_def r)
  moreover have "case res of Inl e \<Rightarrow> e \<noteq> AEE_SUCCESS \<and> sched_inv allocated b ?s
     | Inr rb \<Rightarrow> sched_inv allocated (base_hold b (rb_fd rb)) ?s"
  proof (cases res)
    case (Inl e)
    with res sched_inv_residency [OF inv r(2), of b] show ?thesis by simp
  next
    case (Inr rb)
    with res sched_inv_residency [OF inv r(2), of "base_hold b (rb_fd rb)"] show ?thesis by (simp add: base_hold_def)
  qed
  ultimately show ?thesis by blast
qed

lemma map_ref_drained_inv:
  assumes inv: "sched_inv allocated b s" and laws: "exec_laws env allocated" and bt: "bind_table_ok bt"
    and room: "holdable b s"
  shows "\<exists>res s'. map_ref_drained env ref bt s = Inr (res, s') \<and> progressed s s' \<and>
    (case res of Inl e \<Rightarrow> e \<noteq> AEE_SUCCESS \<and> e \<noteq> AEE_EWOULDBLOCK \<and> sched_inv allocated b s'
     | Inr rb \<Rightarrow> sched_inv allocated (base_hold b (rb_fd rb)) s')"
proof -
  from map_ref_inv [OF inv laws bt room, of ref] obtain res s1 where
    s1: "map_ref env ref bt s = Inr (res, s1)" "progressed s s1" and
    res: "case res of Inl e \<Rightarrow> e \<noteq> AEE_SUCCESS \<and> sched_inv allocated b s1
      | Inr rb \<Rightarrow> sched_inv allocated (base_hold b (rb_fd rb)) s1" by blast
  show ?thesis
  proof (cases "res = Inl AEE_EWOULDBLOCK")
    case False
    with s1 res show ?thesis by (auto simp: map_ref_drained_def split: sum.splits)
  next
    case True
    with res have "sched_inv allocated b s1" by simp
    from sched_drain_inv [OF this laws] obtain s2 where
      s2: "sched_drain env s1 = Inr s2" "sched_inv allocated b s2" "progressed s1 s2" by blast
    note prog = progressed_trans [OF s1(2) s2(3)]
    from map_ref_inv [OF s2(2) laws bt holdable_progressed [OF room prog], of ref] obtain res' s3 where
      s3: "map_ref env ref bt s2 = Inr (res', s3)" "progressed s2 s3" and
      "case res' of Inl e \<Rightarrow> e \<noteq> AEE_SUCCESS \<and> sched_inv allocated b s3
        | Inr rb \<Rightarrow> sched_inv allocated (base_hold b (rb_fd rb)) s3" by blast
    with True s1 s2(1) progressed_trans [OF prog s3(2)] show ?thesis
      by (auto simp: map_ref_drained_def residency_exceeded_def split: sum.splits)
  qed
qed

lemma release_buf_inv:
  assumes inv: "sched_inv allocated (base_hold b (rb_fd rb)) s"
  shows "sched_inv allocated b (release_buf rb s)"
proof -
  let ?r = "xs_residency s" and ?fd = "rb_fd rb"
  have ok: "residency_ok ?r" using inv by (simp add: sched_inv_def)
  have "holds ?r ?fd = eb_holds b ?fd + 1 + in_flight_sum (task_holds ?fd) (sc_tasks s)"
    using inv by (simp add: sched_inv_def held_by_tasks_def base_hold_def)
  then have "holds (residency_release ?fd ?r) fd + eb_holds (base_hold b ?fd) fd = holds ?r fd + eb_holds b fd" for fd
    by (simp add: release_ok(3) [OF ok] base_hold_def)
  with sched_inv_residency [OF inv release_ok(1) [OF ok], of ?fd b] show ?thesis
    by (simp add: release_buf_def base_hold_def)
qed

lemma transfer_inv:
  assumes inv: "sched_inv allocated b s" and "\<exists>x y z. e = Copied x y z \<or> e = Filled x w"
  shows "sched_inv allocated b (s\<lparr>xs_mem := mem, xs_log := e # xs_log s\<rparr>)"
proof -
  from inv have "extends (eb_log b) (xs_log s)" by (simp add: sched_inv_def)
  note log = events_since_Cons [OF this] extends_Cons [OF this]
  from assms log show ?thesis by (auto simp: sched_inv_def)
qed

lemma exec_copy_inv:
  assumes inv: "sched_inv allocated b s" and laws: "exec_laws env allocated" and bt: "bind_table_ok bt"
    and room: "roomy b s data" and data: "data = command_bytes (CopyCmd src trgt) @ rest"
  shows "\<exists>err data' s'. exec_copy env data bt s = Inr ((err, data'), s') \<and> command_done allocated b data rest s err data' s'"
proof -
  let ?c = "\<lparr>cc_cmd_type = CMD_COPY, cc_src = src, cc_trgt = trgt\<rparr>"
  have read: "read_serialized 65 cmd_copy_of data = Inr (?c, rest)" by (simp add: data cmd_copy_wire.read_enc)
  from map_ref_drained_inv [OF inv laws bt roomy_holdable(1) [OF room], of src] obtain res s1 where
    s1: "map_ref_drained env src bt s = Inr (res, s1)" "progressed s s1" and
    res: "case res of Inl e \<Rightarrow> e \<noteq> AEE_SUCCESS \<and> e \<noteq> AEE_EWOULDBLOCK \<and> sched_inv allocated b s1
      | Inr rb \<Rightarrow> sched_inv allocated (base_hold b (rb_fd rb)) s1" by blast
  show ?thesis
  proof (cases res)
    case (Inl e)
    with res s1 read show ?thesis by (simp add: exec_copy_def command_done_def progressed_def)
  next
    case (Inr r1)
    with res have inv1: "sched_inv allocated (base_hold b (rb_fd r1)) s1" by simp
    have "holdable (base_hold b (rb_fd r1)) s1"
      using roomy_holdable(2) [OF room] holdable_progressed s1(2) by blast
    from map_ref_drained_inv [OF inv1 laws bt this, of trgt] obtain res2 s2 where
      s2: "map_ref_drained env trgt bt s1 = Inr (res2, s2)" "progressed s1 s2" and
      res2: "case res2 of Inl e \<Rightarrow> e \<noteq> AEE_SUCCESS \<and> e \<noteq> AEE_EWOULDBLOCK \<and> sched_inv allocated (base_hold b (rb_fd r1)) s2
        | Inr rb \<Rightarrow> sched_inv allocated (base_hold (base_hold b (rb_fd r1)) (rb_fd rb)) s2" by blast
    note prog = progressed_trans [OF s1(2) s2(2)]
    show ?thesis
    proof (cases res2)
      case (Inl e)
      with res2 have "sched_inv allocated b (release_buf r1 s2)" by (auto intro: release_buf_inv)
      moreover have "exec_copy env data bt s = Inr ((e, rest), release_buf r1 s2)"
        using Inl read s1(1) s2(1) Inr by (simp add: exec_copy_def)
      ultimately show ?thesis using res2 Inl prog
        by (simp add: command_done_def progressed_def release_buf_def)
    next
      case r2: (Inr r2)
      with res2 have inv2: "sched_inv allocated (base_hold (base_hold b (rb_fd r1)) (rb_fd r2)) s2" by simp
      define n :: usize where "n = ucast (if rb_length r2 < rb_length r1 then rb_length r2 else rb_length r1)"
      let ?s = "s2\<lparr>xs_mem := copy_memory (buf_address r2) (buf_address r1) n (xs_mem s2),
        xs_log := Copied (buf_address r2) (buf_address r1) n # xs_log s2\<rparr>"
      have "sched_inv allocated b (release_buf r1 (release_buf r2 ?s))"
        by (intro release_buf_inv transfer_inv inv2) simp
      moreover have "exec_copy env data bt s = Inr ((AEE_SUCCESS, rest), release_buf r1 (release_buf r2 ?s))"
        using read s1(1) s2(1) Inr r2 by (simp add: exec_copy_def n_def Let_def)
      ultimately show ?thesis using prog by (simp add: command_done_def progressed_def release_buf_def data)
    qed
  qed
qed

lemma exec_fill_inv:
  assumes inv: "sched_inv allocated b s" and laws: "exec_laws env allocated" and bt: "bind_table_ok bt"
    and room: "roomy b s data" and data: "data = command_bytes (FillCmd n pat trgt) @ rest"
    and cmd: "command_ok (FillCmd n pat trgt)" and n: "n \<le> 4"
  shows "\<exists>err data' s'. exec_fill env data bt s = Inr ((err, data'), s') \<and> command_done allocated b data rest s err data' s'"
proof -
  let ?c = "\<lparr>cf_cmd_type = CMD_FILL, cf_pattern_length = n, cf_pattern = pat, cf_trgt = trgt\<rparr>"
  have read: "read_serialized 38 cmd_fill_of data = Inr (?c, rest)"
    using cmd by (simp add: data cmd_fill_wire.read_enc cmd_fill_legal_def)
  from map_ref_drained_inv [OF inv laws bt roomy_holdable(1) [OF room], of trgt] obtain res s1 where
    s1: "map_ref_drained env trgt bt s = Inr (res, s1)" "progressed s s1" and
    res: "case res of Inl e \<Rightarrow> e \<noteq> AEE_SUCCESS \<and> e \<noteq> AEE_EWOULDBLOCK \<and> sched_inv allocated b s1
      | Inr rb \<Rightarrow> sched_inv allocated (base_hold b (rb_fd rb)) s1" by blast
  show ?thesis
  proof (cases res)
    case (Inl e)
    with res s1 read show ?thesis by (simp add: exec_fill_def command_done_def progressed_def)
  next
    case (Inr rb)
    let ?s = "s1\<lparr>xs_mem := fill_memory (unat (br_length trgt)) (buf_address rb) pat n 0 (xs_mem s1),
      xs_log := Filled (buf_address rb) (br_length trgt) # xs_log s1\<rparr>"
    have "sched_inv allocated (base_hold b (rb_fd rb)) s1" using res Inr by simp
    then have "sched_inv allocated b (release_buf rb ?s)" by (intro release_buf_inv transfer_inv) simp_all
    moreover have "exec_fill env data bt s = Inr ((AEE_SUCCESS, rest), release_buf rb ?s)"
      using read s1(1) Inr n by (simp add: exec_fill_def Let_def not_less)
    ultimately show ?thesis using s1(2) by (simp add: command_done_def progressed_def release_buf_def data)
  qed
qed

section \<open>The walk\<close>

text \<open>What the host serializes: a well-formed command, and patterns of at most 4 bytes.\<close>

fun executable_command :: "command \<Rightarrow> bool" where
  "executable_command (FillCmd n pat t) \<longleftrightarrow> command_ok (FillCmd n pat t) \<and> n \<le> 4"
| "executable_command c \<longleftrightarrow> command_ok c"

fun command_fits :: "'pool exec_env \<Rightarrow> ('pool \<Rightarrow> (usize \<times> usize) multiset) \<Rightarrow> (usize \<times> usize) multiset \<Rightarrow> usize \<Rightarrow> command \<Rightarrow> bool" where
  "command_fits env allocated A n (DispatchCmd d cs refs) \<longleftrightarrow> dispatch_fits env allocated A n d"
| "command_fits env allocated A n c \<longleftrightarrow> True"

lemma executable_ok: "executable_command c \<Longrightarrow> command_ok c"
  by (cases c) auto

lemma exec_command_inv:
  assumes inv: "sched_inv allocated b s" and laws: "exec_laws env allocated" and bt: "bind_table_ok bt"
    and room: "roomy b s data" and data: "data = command_bytes c @ rest" and cmd: "executable_command c"
  shows "case exec_command env data bt s of
      Inl f \<Rightarrow> f = Aborted \<and> \<not> command_fits env allocated (eb_allocated b) (sc_vtcm_pool_size s) c
    | Inr ((err, data'), s') \<Rightarrow> command_done allocated b data rest s err data' s'"
proof -
  have ok: "command_ok c" using cmd by (rule executable_ok)
  have peek: "peek_serialized 1 cmd_type_of data = Inr (command_type c)"
    unfolding data by (rule peek_command_type [OF ok])
  note types = CMD_DISPATCH_def CMD_BARRIER_def CMD_COPY_def CMD_FILL_def
  show ?thesis
  proof (cases c)
    case (DispatchCmd d cs refs)
    with peek have "exec_command env data bt s = exec_dispatch env data bt s" by (simp add: exec_command_def)
    with exec_dispatch_inv [OF inv laws bt ok [unfolded DispatchCmd] data [unfolded DispatchCmd] room]
    show ?thesis by (simp only: DispatchCmd command_fits.simps)
  next
    case BarrierCmd
    with peek have "exec_command env data bt s = exec_barrier env data s" by (simp add: exec_command_def types)
    with exec_barrier_inv [OF inv laws data [unfolded BarrierCmd]] show ?thesis by auto
  next
    case (CopyCmd src trgt)
    with peek have "exec_command env data bt s = exec_copy env data bt s" by (simp add: exec_command_def types)
    with exec_copy_inv [OF inv laws bt room data [unfolded CopyCmd]] show ?thesis by auto
  next
    case (FillCmd n pat trgt)
    with peek have "exec_command env data bt s = exec_fill env data bt s" by (simp add: exec_command_def types)
    with exec_fill_inv [OF inv laws bt room data [unfolded FillCmd] ok [unfolded FillCmd]] cmd FillCmd show ?thesis by auto
  qed
qed

lemma walk_entries_inv:
  assumes "sched_inv allocated b s" and laws: "exec_laws env allocated" and bt: "bind_table_ok bt"
    and "roomy b s (concat (map command_bytes cs) @ rest)" and "\<forall>c\<in>set cs. executable_command c"
  shows "case walk_entries env (length cs) (concat (map command_bytes cs) @ rest) bt s of
      Inl f \<Rightarrow> f = Aborted \<and> (\<exists>c\<in>set cs. \<not> command_fits env allocated (eb_allocated b) (sc_vtcm_pool_size s) c)
    | Inr (err, s') \<Rightarrow> sched_inv allocated b s' \<and> max_concurrent s' = max_concurrent s \<and> err \<noteq> AEE_EWOULDBLOCK"
  using assms(1,4,5)
proof (induction cs arbitrary: s)
  case Nil
  then show ?case by simp
next
  case (Cons c cs)
  let ?rest = "concat (map command_bytes cs) @ rest"
  let ?data = "concat (map command_bytes (c # cs)) @ rest"
  show ?case
  proof (cases "sc_status s = AEE_SUCCESS")
    case False
    then have "sc_status s = AEE_EFAILED" using Cons.prems(1) by (auto simp: sched_inv_def)
    with Cons.prems(1) show ?thesis by simp
  next
    case True
    have e: "executable_command c" and es: "\<forall>c\<in>set cs. executable_command c" using Cons.prems(3) by auto
    note step = exec_command_inv [OF Cons.prems(1) laws bt Cons.prems(2) _ e, of ?rest, simplified]
    show ?thesis
    proof (cases "exec_command env ?data bt s")
      case (Inl f)
      with step True show ?thesis by simp
    next
      case (Inr q)
      obtain err data s1 where q: "q = ((err, data), s1)" by (metis prod_cases3 prod.collapse)
      from step Inr q have d: "command_done allocated b ?data ?rest s err data s1" by simp
      show ?thesis
      proof (cases "err = AEE_SUCCESS")
        case False
        with d Inr q True show ?thesis by (simp add: command_done_def)
      next
        case success: True
        from d success have s1: "sched_inv allocated b s1" "max_concurrent s1 = max_concurrent s"
          "sc_vtcm_pool_size s1 = sc_vtcm_pool_size s" "data = ?rest"
          and less: "32 * load (sc_tasks s1) + length ?rest \<le> 32 * load (sc_tasks s) + length ?data"
          by (simp_all only: command_done_def simp_thms)
        have "roomy b s1 ?rest" using Cons.prems(2) less unfolding roomy_def by (auto intro: le_less_trans)
        from Cons.IH [OF s1(1) this es] s1 Inr q True success show ?thesis by (auto split: sum.splits)
      qed
    qed
  qed
qed

section \<open>Whole executions\<close>

text \<open>The base of an execution that starts in a state, and the serialized form of commands.\<close>

definition base_of :: "('pool \<Rightarrow> (usize \<times> usize) multiset) \<Rightarrow> 'pool dsp_state \<Rightarrow> 'pool exec_base" where
  "base_of allocated s = \<lparr>eb_holds = holds (xs_residency s), eb_allocated = allocated (xs_pool s),
     eb_blocks = xs_blocks s, eb_log = xs_log s\<rparr>"

definition commands_bytes :: "command list \<Rightarrow> u8 list" where
  "commands_bytes cs = u32_bytes (of_nat (length cs)) @ concat (map command_bytes cs)"

text \<open>A process that can execute: few enough holds that the counters cannot overflow.\<close>

definition dsp_ready :: "'pool dsp_state \<Rightarrow> bool" where
  "dsp_ready s \<longleftrightarrow> residency_ok (xs_residency s) \<and> (\<forall>fd. holds (xs_residency s) fd < 2 ^ 31)"

text \<open>An execution leaves the process as it found it.\<close>

definition restored :: "('pool \<Rightarrow> (usize \<times> usize) multiset) \<Rightarrow> 'pool dsp_state \<Rightarrow> 'pool dsp_state \<Rightarrow> bool" where
  "restored allocated s s' \<longleftrightarrow> residency_ok (xs_residency s') \<and> holds (xs_residency s') = holds (xs_residency s) \<and>
     allocated (xs_pool s') = allocated (xs_pool s) \<and> xs_blocks s' = xs_blocks s"

definition scheduled :: "u32 \<Rightarrow> 'pool dsp_state \<Rightarrow> 'pool dsp_state \<Rightarrow> bool" where
  "scheduled n s s' \<longleftrightarrow> extends (xs_log s) (xs_log s') \<and>
     well_scheduled (unat n) (events_since (xs_log s) (xs_log s')) \<and> outstanding (events_since (xs_log s) (xs_log s')) = {}"

lemma length_commands: "\<forall>c\<in>set cs. executable_command c \<Longrightarrow> length cs \<le> length (concat (map command_bytes cs))"
proof (induction cs)
  case (Cons c cs)
  then have "command_bytes c \<noteq> []" using executable_ok command_bytes_nonempty by auto
  with Cons show ?case by (cases "command_bytes c") auto
qed simp

lemma exec_cmds_inv:
  assumes laws: "exec_laws env allocated" and bt: "bind_table_ok bt" and ready: "dsp_ready s"
    and cs: "\<forall>c\<in>set cs. executable_command c" and small: "length (commands_bytes cs) < 2 ^ 31"
  shows "case exec_cmds env (commands_bytes cs) bt n s of
      Inl f \<Rightarrow> f = Aborted \<and>
        (\<exists>c\<in>set cs. \<not> command_fits env allocated (allocated (xs_pool s)) (vtcm_pool_size (xe_pool_ops env) (xs_pool s)) c)
    | Inr (err, s') \<Rightarrow> err \<noteq> AEE_EWOULDBLOCK \<and> restored allocated s s' \<and> scheduled (max 1 n) s s'"
proof -
  define k where "k = (if n < 1 then 1 else n)"
  let ?i = "initial_sched env k s" and ?b = "base_of allocated s"
  have k: "k = max 1 n" "k > 0" by (auto simp: k_def max_def word_less_nat_alt word_le_nat_alt unat_gt_0)
  have i: "xs_residency ?i = xs_residency s" "xs_pool ?i = xs_pool s" "xs_log ?i = xs_log s" "xs_blocks ?i = xs_blocks s"
    "max_concurrent ?i = k" "sc_vtcm_pool_size ?i = vtcm_pool_size (xe_pool_ops env) (xs_pool s)"
    "sc_tasks ?i = replicate (unat k) zero_task" "num_in_flight ?i = 0" "num_completed ?i = 0" "vtcm_in_use ?i = 0"
    "sc_status ?i = AEE_SUCCESS"
    by (simp_all add: initial_sched_def dsp_state.extend_def)
  have sum0: "in_flight_sum f (replicate (unat k) zero_task) = 0" for f :: "dispatch_task \<Rightarrow> 'm :: comm_monoid_add"
    by (rule in_flight_sum_idle) (simp add: zero_task_def)
  have slots0: "in_flight_slots (replicate (unat k) zero_task) = {}" by (auto simp: in_flight_slots_def zero_task_def)
  obtain err s1 where m: "exec_malloc env (k * 96 + 16) ?i = (err, s1)" by (metis prod.collapse)
  from exec_malloc_frame [OF m] obtain e c where
    s1: "same_sched ?i s1" "xs_residency s1 = xs_residency s"
      "xs_blocks s1 = xs_blocks s + (if err = AEE_SUCCESS then 1 else 0)"
      "xs_log s1 = Malloc (k * 96 + 16) e c # xs_log s" by (auto simp: i)
  have log: "events_since (xs_log s) (xs_log s1) = [Malloc (k * 96 + 16) e c]" "extends (xs_log s) (xs_log s1)"
    by (simp_all add: s1(4) events_since_Cons extends_Cons)
  show ?thesis
  proof (cases "err = AEE_SUCCESS")
    case False
    have "err \<noteq> AEE_EWOULDBLOCK"
      using m laws by (auto simp: exec_malloc_def exec_laws_def Let_def split: prod.splits if_splits) (metis fst_conv)
    moreover have "exec_cmds env (commands_bytes cs) bt n s = Inr (err, dsp_state.truncate s1)"
      using m False by (simp add: exec_cmds_def k_def Let_def)
    ultimately show ?thesis
      using s1 ready log False i
      by (simp add: restored_def scheduled_def dsp_state.truncate_def dsp_ready_def same_sched_def)
  next
    case True
    have inv: "sched_inv allocated ?b s1"
      using s1 ready log True i k(2)
      by (auto simp: sched_inv_def same_sched_def dsp_ready_def base_of_def sum0 slots0 held_by_tasks_def fun_eq_iff)
    have few: "length cs < 2 ^ 32" using length_commands [OF cs] small by (simp add: commands_bytes_def)
    have walk: "walk_cmds env (commands_bytes cs) bt s1 = walk_entries env (length cs) (concat (map command_bytes cs) @ []) bt s1"
      using few by (simp add: walk_cmds_def commands_bytes_def u32_wire.read_enc unat_of_nat)
    have "roomy ?b s1 (concat (map command_bytes cs) @ [])"
      using ready small s1(1) i by (simp add: roomy_def dsp_ready_def base_of_def same_sched_def load_def sum0 commands_bytes_def)
    note w = walk_entries_inv [OF inv laws bt this cs]
    have psize: "sc_vtcm_pool_size s1 = vtcm_pool_size (xe_pool_ops env) (xs_pool s)" "max_concurrent s1 = k"
      using s1(1) i by (simp_all add: same_sched_def)
    show ?thesis
    proof (cases "walk_entries env (length cs) (concat (map command_bytes cs) @ []) bt s1")
      case (Inl f)
      with w m True walk psize show ?thesis by (simp add: exec_cmds_def k_def Let_def base_of_def)
    next
      case (Inr q)
      obtain err' s2 where q: "q = (err', s2)" by (cases q)
      with w Inr have s2: "sched_inv allocated ?b s2" "max_concurrent s2 = k" "err' \<noteq> AEE_EWOULDBLOCK"
        using psize by auto
      from sched_drain_inv [OF s2(1) laws] obtain s3 where
        s3: "sched_drain env s2 = Inr s3" "sched_inv allocated ?b s3" "progressed s2 s3" "num_in_flight s3 = 0" by blast
      have idle: "\<forall>t\<in>set (sc_tasks s3). \<not> tk_in_flight t"
        using load_idle [OF s3(4,2)] by (auto simp: in_flight_slots_def in_set_conv_nth)
      have "exec_cmds env (commands_bytes cs) bt n s =
          Inr (if err' = AEE_SUCCESS then sc_status s3 else err', dsp_state.truncate (s3\<lparr>xs_blocks := xs_blocks s3 - 1\<rparr>))"
        using m True walk Inr q s3(1) by (simp add: exec_cmds_def k_def Let_def)
      moreover have "sc_status s3 \<noteq> AEE_EWOULDBLOCK" using s3(2) by (auto simp: sched_inv_def)
      moreover have "restored allocated s (dsp_state.truncate (s3\<lparr>xs_blocks := xs_blocks s3 - 1\<rparr>))"
        using s3(2) by (simp add: restored_def sched_inv_def dsp_state.truncate_def base_of_def held_by_tasks_def
            in_flight_sum_idle [OF idle] fun_eq_iff)
      moreover have "scheduled k s (dsp_state.truncate (s3\<lparr>xs_blocks := xs_blocks s3 - 1\<rparr>))"
        using s3(2,3) s2(2) load_idle [OF s3(4,2)]
        by (simp add: scheduled_def sched_inv_def dsp_state.truncate_def base_of_def progressed_def)
      ultimately show ?thesis using s2(3) by (simp add: k(1))
    qed
  qed
qed

end
