(* ===== verification/Cmd_Properties.thy ===== *)
theory Cmd_Properties
  imports Cmd_Safety
begin

text \<open>
  The properties of executing a command buffer on the DSP: safety, completion, scheduling, cache
  maintenance, the ranges of resolved references, and fills.
\<close>

section \<open>The binding table\<close>

definition table_bytes :: "binding list \<Rightarrow> u8 list" where
  "table_bytes tab = u32_bytes (of_nat (length tab)) @ concat (map binding_bytes tab)"

lemma slice_table:
  "i < length tab \<Longrightarrow> slice (28 * i) 28 (concat (map binding_bytes tab)) = binding_bytes (tab ! i)"
proof (induction tab arbitrary: i)
  case (Cons b tab)
  have l: "length (binding_bytes b) = 28" by (simp add: binding_wire.enc_length)
  show ?case
  proof (cases i)
    case 0
    with l show ?thesis by (simp add: slice_def)
  next
    case (Suc j)
    with Cons.prems Cons.IH [of j] l show ?thesis by (simp add: slice_def)
  qed
qed simp

lemma table_entries:
  assumes "28 * length tab < 2 ^ 31"
  defines "bt \<equiv> \<lparr>bt_data = concat (map binding_bytes tab), bt_num_ent = of_nat (length tab)\<rparr>"
  shows "bind_table_ok bt" and "unat (of_nat (length tab) :: u32) = length tab"
    and "bind_entries bt (length tab) = Some tab"
proof -
  show len: "unat (of_nat (length tab) :: u32) = length tab" using assms(1) by (simp add: unat_of_nat)
  have l: "length (concat (map binding_bytes tab)) = 28 * length tab" by (simp add: binding_wire.length_concat_enc)
  with len show "bind_table_ok bt" by (simp add: bind_table_ok_def bt_def)
  have entry: "bind_entry bt (of_nat i) = Some (tab ! i)" if "i < length tab" for i
  proof -
    have "unat (of_nat i :: u32) = i" using that assms(1) by (simp add: unat_of_nat)
    with that l show ?thesis by (simp add: bind_entry_def bt_def slice_table binding_wire.dec_enc)
  qed
  have "n \<le> length tab \<Longrightarrow> bind_entries bt n = Some (take n tab)" for n
    by (induction n) (simp_all add: entry take_Suc_conv_app_nth)
  from this [of "length tab"] show "bind_entries bt (length tab) = Some tab" by simp
qed

section \<open>Cache maintenance\<close>

text \<open>Every mapped buffer of a list got a successful cache operation since a state of the cache.\<close>

definition cleaned :: "cache_op \<Rightarrow> binding list \<Rightarrow> residency \<Rightarrow> residency \<Rightarrow> bool" where
  "cleaned op bufs r r' \<longleftrightarrow> (\<exists>l. rs_history r' = l @ rs_history r \<and>
     (\<forall>b\<in>set bufs. bi_fd b \<noteq> - 1 \<longrightarrow> bi_length b > 0 \<longrightarrow> (\<forall>e\<in>set (rs_entries r). re_fd e = bi_fd b \<longrightarrow>
        CacheClean (re_vaddr e + ucast (bi_offset b)) (bi_length b) op True \<in> set l)))"

definition cache_law :: "dsp_env \<Rightarrow> bool" where
  "cache_law env \<longleftrightarrow> (\<forall>h a n op. qurt_mem_cache_clean env h a n op)"

lemma invalidate_one:
  assumes ok: "residency_ok r" and run: "invalidate_if_mapped env fd off n flush r = (err, r')"
  shows "err \<in> {AEE_SUCCESS, AEE_EFAILED} \<and> rs_entries r' = rs_entries r \<and> (cache_law env \<longrightarrow> err = AEE_SUCCESS) \<and>
    (\<exists>l. rs_history r' = l @ rs_history r \<and> (err = AEE_SUCCESS \<longrightarrow> n > 0 \<longrightarrow> (\<forall>e\<in>set (rs_entries r). re_fd e = fd \<longrightarrow>
       CacheClean (re_vaddr e + ucast off) n (if flush then FLUSH_INVALIDATE else INVALIDATE) True \<in> set l)))"
proof (cases "residency_find r fd")
  case None
  then have "fd \<notin> re_fd ` set (rs_entries r)" by (simp add: residency_find_None)
  with None run show ?thesis by (auto simp: invalidate_if_mapped_def)
next
  case (Some idx)
  then have idx: "idx < length (rs_entries r)" "re_fd (rs_entries r ! idx) = fd"
    using residency_find_Some [of r fd idx] by auto
  have "distinct (map re_fd (rs_entries r))" using ok by (simp add: residency_ok_def)
  with idx have "e = rs_entries r ! idx" if "e \<in> set (rs_entries r)" "re_fd e = fd" for e
    using that by (auto simp: in_set_conv_nth distinct_conv_nth)
  with Some run show ?thesis
    by (auto simp: invalidate_if_mapped_def Let_def log_event_def cache_law_def split: if_splits)
qed

lemma cleaned_Nil [simp]: "cleaned op [] r r"
  by (simp add: cleaned_def)

lemma invalidate_bufs_ok:
  "residency_ok r \<Longrightarrow> invalidate_bufs env bs flush r = (err, r') \<Longrightarrow>
     residency_ok r' \<and> holds r' = holds r \<and> rs_entries r' = rs_entries r \<and> err \<in> {AEE_SUCCESS, AEE_EFAILED} \<and>
     (cache_law env \<longrightarrow> err = AEE_SUCCESS) \<and>
     (err = AEE_SUCCESS \<longrightarrow> cleaned (if flush then FLUSH_INVALIDATE else INVALIDATE) bs r r')"
proof (induction bs arbitrary: r)
  case (Cons b bs)
  show ?case
  proof (cases "bi_fd b = - 1")
    case True
    with Cons show ?thesis by (auto simp: cleaned_def)
  next
    case False
    obtain e1 r1 where one: "invalidate_if_mapped env (bi_fd b) (bi_offset b) (bi_length b) flush r = (e1, r1)"
      by (metis prod.collapse)
    have ok1: "residency_ok r1" "holds r1 = holds r" using invalidate_ok [OF Cons.prems(1) one] by (auto simp: fun_eq_iff)
    note i1 = invalidate_one [OF Cons.prems(1) one]
    show ?thesis
    proof (cases "e1 = AEE_SUCCESS")
      case failed: False
      with one False Cons.prems(2) have "err = e1" "r' = r1" by auto
      with failed i1 ok1 show ?thesis by auto
    next
      case True
      with one False Cons.prems(2) have "invalidate_bufs env bs flush r1 = (err, r')" by simp
      note IH = Cons.IH [OF ok1(1) this]
      from i1 True obtain l1 where l1: "rs_history r1 = l1 @ rs_history r" "rs_entries r1 = rs_entries r"
        "bi_length b > 0 \<Longrightarrow> e \<in> set (rs_entries r) \<Longrightarrow> re_fd e = bi_fd b \<Longrightarrow>
           CacheClean (re_vaddr e + ucast (bi_offset b)) (bi_length b) (if flush then FLUSH_INVALIDATE else INVALIDATE) True \<in> set l1" for e
        by blast
      have "cleaned (if flush then FLUSH_INVALIDATE else INVALIDATE) (b # bs) r r'" if "err = AEE_SUCCESS"
      proof -
        from IH that obtain l where l: "rs_history r' = l @ rs_history r1"
          "\<forall>b\<in>set bs. bi_fd b \<noteq> - 1 \<longrightarrow> bi_length b > 0 \<longrightarrow> (\<forall>e\<in>set (rs_entries r1). re_fd e = bi_fd b \<longrightarrow>
             CacheClean (re_vaddr e + ucast (bi_offset b)) (bi_length b) (if flush then FLUSH_INVALIDATE else INVALIDATE) True \<in> set l)"
          unfolding cleaned_def by blast
        with l1 show ?thesis unfolding cleaned_def by (intro exI [of _ "l @ l1"]) auto
      qed
      with IH ok1 l1(2) show ?thesis by simp
    qed
  qed
qed auto

lemma cleaned_append:
  "cleaned op bs r r1 \<Longrightarrow> rs_entries r1 = rs_entries r \<Longrightarrow> cleaned op cs r1 r' \<Longrightarrow> cleaned op (bs @ cs) r r'"
  unfolding cleaned_def by (elim exE conjE, rule_tac x = "la @ l" in exI) auto

lemma invalidate_all_ok:
  assumes ok: "residency_ok r" and run: "invalidate_all env tab cb flush r = (err, r')"
  shows "residency_ok r' \<and> holds r' = holds r \<and> rs_entries r' = rs_entries r \<and> err \<in> {AEE_SUCCESS, AEE_EFAILED} \<and>
     (cache_law env \<longrightarrow> err = AEE_SUCCESS) \<and>
     (err = AEE_SUCCESS \<longrightarrow> cleaned (if flush then FLUSH_INVALIDATE else INVALIDATE) (tab @ cb_direct_bufs cb) r r')"
proof -
  obtain e1 r1 where one: "invalidate_bufs env tab flush r = (e1, r1)" by (metis prod.collapse)
  note i1 = invalidate_bufs_ok [OF ok one]
  show ?thesis
  proof (cases "e1 = AEE_SUCCESS")
    case True
    with run one have "invalidate_bufs env (cb_direct_bufs cb) flush r1 = (err, r')" by (simp add: invalidate_all_def)
    with invalidate_bufs_ok [OF _ this] i1 True show ?thesis by (auto intro: cleaned_append)
  next
    case False
    with run one i1 show ?thesis by (simp add: invalidate_all_def)
  qed
qed

section \<open>Executing a command buffer\<close>

text \<open>The data of an execution as the host sends it.\<close>

definition host_data :: "command list \<Rightarrow> binding list \<Rightarrow> bool" where
  "host_data cs tab \<longleftrightarrow> (\<forall>c\<in>set cs. executable_command c) \<and> length (commands_bytes cs) < 2 ^ 31 \<and>
     length (table_bytes tab) < 2 ^ 31"

definition host_table :: "binding list \<Rightarrow> bind_table" where
  "host_table tab = \<lparr>bt_data = concat (map binding_bytes tab), bt_num_ent = of_nat (length tab)\<rparr>"

lemma exec_buf_host:
  assumes "host_data cs tab"
  shows "exec_buf env cb (table_bytes tab) n s =
    (case invalidate_all (xe_dsp env) tab cb False (xs_residency s) of (err, r) \<Rightarrow>
      if err \<noteq> AEE_SUCCESS then Inr (err, s\<lparr>xs_residency := r\<rparr>)
      else bind_res (exec_cmds env (cb_data cb) (host_table tab) n (s\<lparr>xs_residency := r\<rparr>)) (\<lambda>(err, s).
        case invalidate_all (xe_dsp env) tab cb True (xs_residency s) of (err_flush, r) \<Rightarrow>
          Inr (if err \<noteq> AEE_SUCCESS then err else err_flush, s\<lparr>xs_residency := r\<rparr>)))"
proof -
  have l: "length (concat (map binding_bytes tab)) = 28 * length tab" by (simp add: binding_wire.length_concat_enc)
  then have small: "28 * length tab < 2 ^ 31" using assms by (simp add: host_data_def table_bytes_def)
  note tab = table_entries [OF small]
  have "(of_nat (length tab) * 28 :: u32) = of_nat (length (concat (map binding_bytes tab)))"
    unfolding l by (simp add: mult.commute)
  then show ?thesis
    unfolding host_table_def
    using tab(2,3) by (simp add: exec_buf_def table_bytes_def u32_wire.read_enc Let_def)
qed

lemma exec_buf_inv:
  assumes laws: "exec_laws env allocated" and ready: "dsp_ready s" and host: "host_data cs tab"
    and cb: "cb_data cb = commands_bytes cs"
  shows "case exec_buf env cb (table_bytes tab) n s of
      Inl f \<Rightarrow> f = Aborted \<and>
        (\<exists>c\<in>set cs. \<not> command_fits env allocated (allocated (xs_pool s)) (vtcm_pool_size (xe_pool_ops env) (xs_pool s)) c)
    | Inr (err, s') \<Rightarrow> err \<noteq> AEE_EWOULDBLOCK \<and> restored allocated s s'"
proof -
  have small: "28 * length tab < 2 ^ 31"
    using host by (simp add: host_data_def table_bytes_def binding_wire.length_concat_enc)
  have bt: "bind_table_ok (host_table tab)" using table_entries(1) [OF small] by (simp add: host_table_def)
  have ok: "residency_ok (xs_residency s)" using ready by (simp add: dsp_ready_def)
  obtain e1 r1 where i1: "invalidate_all (xe_dsp env) tab cb False (xs_residency s) = (e1, r1)" by (metis prod.collapse)
  note k1 = invalidate_all_ok [OF ok i1]
  show ?thesis
  proof (cases "e1 = AEE_SUCCESS")
    case False
    with i1 k1 show ?thesis by (auto simp: exec_buf_host [OF host] restored_def)
  next
    case True
    let ?s = "s\<lparr>xs_residency := r1\<rparr>"
    have ready1: "dsp_ready ?s" using ready k1 by (simp add: dsp_ready_def)
    have host': "\<forall>c\<in>set cs. executable_command c" "length (commands_bytes cs) < 2 ^ 31"
      using host by (simp_all add: host_data_def)
    note x = exec_cmds_inv [OF laws bt ready1 host', of n]
    show ?thesis
    proof (cases "exec_cmds env (commands_bytes cs) (host_table tab) n ?s")
      case (Inl f)
      with x i1 True show ?thesis by (simp add: exec_buf_host [OF host] cb)
    next
      case (Inr q)
      obtain err s2 where q: "q = (err, s2)" by (cases q)
      from x Inr q have r2: "err \<noteq> AEE_EWOULDBLOCK" "restored allocated ?s s2" by auto
      obtain e3 r3 where i3: "invalidate_all (xe_dsp env) tab cb True (xs_residency s2) = (e3, r3)" by (metis prod.collapse)
      have "residency_ok (xs_residency s2)" using r2 by (simp add: restored_def)
      note k3 = invalidate_all_ok [OF this i3]
      have run: "exec_buf env cb (table_bytes tab) n s =
          Inr (if err \<noteq> AEE_SUCCESS then err else e3, s2\<lparr>xs_residency := r3\<rparr>)"
        using i1 True Inr q i3 by (simp add: exec_buf_host [OF host] cb)
      have "restored allocated s (s2\<lparr>xs_residency := r3\<rparr>)" using r2(2) k1 k3 by (simp add: restored_def)
      with r2(1) k3 show ?thesis unfolding run by auto
    qed
  qed
qed

section \<open>Properties\<close>


text \<open>A process with one page-sized allocation to map, a VTCM pool of one block, and workers that
  complete in order.\<close>

definition list_pool :: "(usize \<times> usize) list vtcm_pool_ops" where
  "list_pool = \<lparr>VtcmAllocatedBytes = (\<lambda>_. 1048576), getLargestFreeBlock = (\<lambda>l. if l = [] then 1048576 else 0),
     Allocate = (\<lambda>l n. if l = [] then (65536, [(65536, n)]) else (0, l)), Free = (\<lambda>l p n. remove1 (p, n) l)\<rparr>"

definition sample_exec :: "(usize \<times> usize) list exec_env" where
  "sample_exec = \<lparr>xe_dsp = sample_env, xe_pool_ops = list_pool,
     xe_function = (\<lambda>h. \<lparr>fn_dispatch_func = 0, fn_environment = 0, fn_name = None,
       fn_attrs = Some \<lparr>hexagon_flags = 3, attr_vtcm_bytes = 5000, attr_threads = 1\<rparr>\<rparr>),
     xe_malloc = (\<lambda>log n. (AEE_SUCCESS, True)),
     xe_dispatch_fn = (\<lambda>log f e ds ws mem. \<lparr>wr_ret = 0, wr_front = 0, wr_back = 0, wr_mem = mem\<rparr>),
     xe_completed = (\<lambda>log slots. []),
     xe_next_completed = (\<lambda>log slots. if slots = [] then None else Some (hd slots))\<rparr>"

definition sample_process :: "(usize \<times> usize) list dsp_state" where
  "sample_process = \<lparr>xs_residency = sample_residency, xs_pool = [], xs_mem = (\<lambda>_. 0), xs_blocks = 0, xs_log = []\<rparr>"

definition sample_program :: "command list" where
  "sample_program =
     [DispatchCmd \<lparr>cd_cmd_type = CMD_DISPATCH, cd_function_handle = 64, cd_workgroup_size_x = 1, cd_workgroup_size_y = 1,
        cd_workgroup_size_z = 1, cd_workgroup_count_x = 2, cd_workgroup_count_y = 1, cd_workgroup_count_z = 1,
        cd_constant_count = 0, cd_num_bindings = 1\<rparr> [] [\<lparr>br_slot = 0, br_fd = 3, br_offset = 0, br_length = 64, br_alloc_size = 4096\<rparr>],
      BarrierCmd, FillCmd 1 [7, 0, 0, 0] \<lparr>br_slot = 0, br_fd = 3, br_offset = 64, br_length = 32, br_alloc_size = 4096\<rparr>]"

definition sample_buffer :: dsp_command_buffer where
  "sample_buffer = \<lparr>cb_rpc_handle = 0, cb_data = commands_bytes sample_program, cb_direct_bufs = []\<rparr>"

lemma sample_exec_laws: "exec_laws sample_exec mset"
  by (auto simp: exec_laws_def workers_law_def pool_law_def sample_exec_def list_pool_def sample_env_law split: if_splits)

lemma sample_process_ready: "dsp_ready sample_process"
proof -
  have "residency_ok sample_residency" by (rule residency_reachable_ok [OF sample_reachable sample_env_law])
  moreover have "holds sample_residency fd = 0" for fd
    by (simp add: sample_residency_eq residency_create_def holds_def)
  ultimately show ?thesis by (simp add: dsp_ready_def sample_process_def)
qed

lemma sample_host_data: "host_data sample_program []"
  by (simp add: host_data_def sample_program_def commands_bytes_def table_bytes_def struct_lengths cmd_fill_legal_def)

lemma sample_fits:
  "\<forall>c\<in>set sample_program. command_fits sample_exec mset (mset (xs_pool sample_process))
     (vtcm_pool_size (xe_pool_ops sample_exec) (xs_pool sample_process)) c"
proof -
  have n: "fst (declared_resources (xe_function sample_exec 64)) = 5000"
    by (simp add: sample_exec_def declared_resources_def DISPATCH_FLAG_RESOURCES_VALID_def UNBOUNDED_def)
  have "vtcm_pool_size list_pool [] = 1048576"
    by code_simp
  moreover have "fst (try_acquire_vtcm_partition list_pool [] 5000 name)" for name
  proof -
    have "partition_bytes list_pool [] 5000 = 6144" by code_simp
    then show ?thesis by (simp add: try_acquire_vtcm_partition_def list_pool_def Let_def)
  qed
  ultimately show ?thesis
    by (simp add: sample_program_def dispatch_fits_def n Let_def vtcm_served_def sample_process_def)
      (simp add: sample_exec_def)
qed




text \<open>
  C15: dispatches are scheduled correctly: at most as many at a time as allowed, each in a slot of its
  own, every one that is started is finished, at a barrier all dispatches before it have finished,
  and none is left when the commands have been executed, also on an error.
\<close>

theorem dispatches_well_scheduled:
  assumes "exec_laws env allocated" and "bind_table_ok bt" and "dsp_ready s"
    and "\<forall>c\<in>set cs. executable_command c" and "length (commands_bytes cs) < 2 ^ 31"
    and "exec_cmds env (commands_bytes cs) bt n s = Inr (err, s')"
  shows "\<exists>events. xs_log s' = events @ xs_log s \<and> well_scheduled (unat (max 1 n)) events \<and> outstanding events = {}"
proof -
  have "scheduled (max 1 n) s s'" using exec_cmds_inv [OF assms(1-5), of n] assms(6) by simp
  then show ?thesis by (auto simp: scheduled_def extends_def events_since_def)
qed

theorem dispatches_well_scheduled_witness:
  "\<exists>err s' events. exec_cmds sample_exec (commands_bytes sample_program) (host_table []) 2 sample_process = Inr (err, s') \<and>
     xs_log s' = events \<and> well_scheduled 2 events \<and> outstanding events = {}"
proof -
  have bt: "bind_table_ok (host_table [])" by (simp add: bind_table_ok_def host_table_def)
  have cs: "\<forall>c\<in>set sample_program. executable_command c" "length (commands_bytes sample_program) < 2 ^ 31"
    using sample_host_data by (simp_all add: host_data_def)
  obtain err s' where run: "exec_cmds sample_exec (commands_bytes sample_program) (host_table []) 2 sample_process = Inr (err, s')"
    using exec_cmds_inv [OF sample_exec_laws bt sample_process_ready cs, of 2] sample_fits by (auto split: sum.splits)
  from dispatches_well_scheduled [OF sample_exec_laws bt sample_process_ready cs run] run show ?thesis
    by (auto simp: sample_process_def max_def)
qed



text \<open>
  Resolving a buffer reference. A direct one is used as it is. An indirect one names an entry of
  the binding table and a range inside of that entry, from its offset to the end for a whole-buffer
  length; an entry or a range outside is the only error, and the table is never read past its end.
\<close>

theorem resolve_ref_correct:
  assumes "bind_table_ok bt"
  shows "case resolve_ref ref bt of
      Inl f \<Rightarrow> False
    | Inr (Inl e) \<Rightarrow> e = AEE_EBADITEM \<and> br_fd ref = - 1 \<and> (br_slot ref \<ge> bt_num_ent bt \<or>
        (\<exists>entry. bind_entry bt (br_slot ref) = Some entry \<and>
          (br_offset ref > bi_length entry \<or> br_length ref \<noteq> - 1 \<and> br_length ref > bi_length entry - br_offset ref)))
    | Inr (Inr (fd, offset, len, alloc_size)) \<Rightarrow>
        if br_fd ref \<noteq> - 1 then fd = br_fd ref \<and> offset = br_offset ref \<and> len = br_length ref \<and> alloc_size = br_alloc_size ref
        else \<exists>entry. bind_entry bt (br_slot ref) = Some entry \<and> fd = bi_fd entry \<and> alloc_size = bi_alloc_size entry \<and>
          unat (br_offset ref) + unat len \<le> unat (bi_length entry) \<and>
          offset = bi_offset entry + br_offset ref \<and>
          (if br_length ref = - 1 then unat (br_offset ref) + unat len = unat (bi_length entry) else len = br_length ref)"
proof (cases "br_fd ref = - 1 \<and> br_slot ref < bt_num_ent bt")
  case False
  then show ?thesis by (auto simp: resolve_ref_def not_less)
next
  case True
  with assms obtain entry where entry: "bind_entry bt (br_slot ref) = Some entry"
    by (auto simp: bind_entry_def bind_table_ok_def word_less_nat_alt)
  show ?thesis
  proof (cases "br_offset ref > bi_length entry")
    case off: True
    with True entry show ?thesis by (simp add: resolve_ref_def not_le)
  next
    case False
    then have rest: "unat (bi_length entry - br_offset ref) = unat (bi_length entry) - unat (br_offset ref)"
      and le: "unat (br_offset ref) \<le> unat (bi_length entry)"
      by (simp_all add: unat_sub word_le_nat_alt not_less)
    have "unat (br_offset ref) + unat len \<le> unat (bi_length entry) \<longleftrightarrow> \<not> bi_length entry - br_offset ref < len" for len :: u64
      using rest le by (auto simp: word_less_nat_alt)
    with True False entry rest le show ?thesis
      by (simp add: resolve_ref_def Let_def not_le)
  qed
qed

definition sample_tab :: bind_table where
  "sample_tab = host_table [\<lparr>bi_fd = 5, bi_offset = 4096, bi_length = 256, bi_alloc_size = 8192\<rparr>]"

theorem resolve_ref_correct_witness:
  "case resolve_ref \<lparr>br_slot = 1, br_fd = - 1, br_offset = 64, br_length = - 1, br_alloc_size = 0\<rparr> sample_tab of
     Inr (Inl e) \<Rightarrow> e = AEE_EBADITEM | _ \<Rightarrow> False"
proof -
  have bt: "bind_table_ok sample_tab"
    using table_entries(1) [of "[\<lparr>bi_fd = 5, bi_offset = 4096, bi_length = 256, bi_alloc_size = 8192\<rparr>]"]
    by (simp add: sample_tab_def host_table_def)
  have "bind_entry sample_tab 1 = None"
    by (simp add: bind_entry_def sample_tab_def host_table_def binding_wire.enc_length)
  with resolve_ref_correct [OF bt, of "\<lparr>br_slot = 1, br_fd = - 1, br_offset = 64, br_length = - 1, br_alloc_size = 0\<rparr>"]
  show ?thesis by (auto split: sum.splits)
qed

section \<open>Fills\<close>

lemma fill_memory_spec:
  assumes "0 < len" "len \<le> 4" and "length pat = 4" and "n \<le> 2 ^ 32" and "p < len"
  shows "fill_memory n a pat len p mem x =
    (if unat (x - a) < n then pat ! ((unat p + unat (x - a)) mod unat len) else mem x)"
  using assms(4,5)
proof (induction n arbitrary: a p mem)
  case (Suc n)
  let ?p = "if p + 1 \<ge> len then 0 else p + 1"
  have len: "unat len \<le> 4" "0 < unat len" using assms(1,2) by (simp_all add: word_le_nat_alt unat_gt_0 word_gt_0)
  have up: "unat p < unat len" using Suc.prems(2) by (simp add: word_less_nat_alt)
  have p1: "unat (p + 1) = unat p + 1" using up len by (simp add: unat_word_ariths)
  have p: "?p < len \<and> unat ?p = (unat p + 1) mod unat len"
  proof (cases "p + 1 \<ge> len")
    case True
    then have "unat p + 1 = unat len" using up p1 by (simp add: word_le_nat_alt)
    with True assms(1) show ?thesis by simp
  next
    case False
    then have "unat p + 1 < unat len" using p1 by (simp add: word_le_nat_alt)
    then have "unat p + 1 = (unat p + 1) mod unat len" by simp
    moreover have "p + 1 < len" using False by simp
    ultimately show ?thesis unfolding if_not_P [OF False] p1 by (intro conjI)
  qed
  have IH: "fill_memory n (a + 1) pat len ?p (mem(a := pat ! unat p)) x =
    (if unat (x - (a + 1)) < n then pat ! ((unat ?p + unat (x - (a + 1))) mod unat len) else (mem(a := pat ! unat p)) x)"
    using Suc.prems(1) conjunct1 [OF p] by (intro Suc.IH) simp_all
  show ?case
  proof (cases "x = a")
    case True
    have "unat (x - (a + 1)) = 2 ^ 32 - 1" using True by (simp add: unsigned_minus_1_eq_mask mask_eq_exp_minus_1)
    with True IH Suc.prems up show ?thesis by (simp add: mod_less)
  next
    case False
    then have "x - a \<noteq> 0" by simp
    then have d: "unat (x - a) = Suc (unat (x - (a + 1)))"
      by (metis Suc_pred diff_diff_add One_nat_def unat_gt_0 unat_minus_one)
    have "(unat ?p + unat (x - (a + 1))) mod unat len = (unat p + unat (x - a)) mod unat len"
      unfolding conjunct2 [OF p] d mod_add_left_eq by simp
    with IH False d show ?thesis by simp
  qed
qed simp

text \<open>
  A fill of a length of at most 4 GiB, with a pattern of one to four bytes, writes the pattern
  repeatedly into the given range and nothing else. The range is that of the serialized length, as
  the loop runs over it.
\<close>

theorem fill_correct:
  assumes "0 < len" "len \<le> 4" and "length pat = 4" and "unat (br_length trgt) \<le> 2 ^ 32"
    and m: "map_ref_drained env trgt bt s = Inr (Inr dest, s1)"
  shows "\<exists>s'. exec_fill env (command_bytes (FillCmd len pat trgt) @ rest) bt s = Inr ((AEE_SUCCESS, rest), s') \<and>
    xs_residency s' = residency_release (rb_fd dest) (xs_residency s1) \<and>
    (\<forall>x. xs_mem s' x = (if unat (x - buf_address dest) < unat (br_length trgt)
       then pat ! (unat (x - buf_address dest) mod unat len) else xs_mem s1 x))"
proof -
  have "read_serialized 38 cmd_fill_of (command_bytes (FillCmd len pat trgt) @ rest) =
      Inr (\<lparr>cf_cmd_type = CMD_FILL, cf_pattern_length = len, cf_pattern = pat, cf_trgt = trgt\<rparr>, rest)"
    using assms(3) by (simp add: cmd_fill_wire.read_enc cmd_fill_legal_def)
  then show ?thesis
    using m assms(2) by (simp add: exec_fill_def Let_def release_buf_def fill_memory_spec [OF assms(1-4) assms(1)] not_less)
qed

definition sample_fill_state :: "(usize \<times> usize) list sched" where
  "sample_fill_state = initial_sched sample_exec 1 sample_process"

lemma sample_fill_maps:
  "\<exists>dest s1. map_ref_drained sample_exec \<lparr>br_slot = 0, br_fd = 3, br_offset = 64, br_length = 32, br_alloc_size = 4096\<rparr> bt
     sample_fill_state = Inr (Inr dest, s1) \<and> buf_address dest = 4160"
  by (simp add: map_ref_drained_def map_ref_def resolve_and_map_def resolve_ref_def sample_exec_def sample_fill_state_def
      initial_sched_def dsp_state.extend_def sample_process_def sample_acquire buf_address_def)

theorem fill_correct_witness:
  "\<exists>s'. exec_fill sample_exec (command_bytes (FillCmd 1 [7, 0, 0, 0] \<lparr>br_slot = 0, br_fd = 3, br_offset = 64, br_length = 32,
       br_alloc_size = 4096\<rparr>) @ []) sample_tab sample_fill_state = Inr ((AEE_SUCCESS, []), s') \<and> xs_mem s' 4165 = 7"
proof -
  obtain dest s1 where m: "map_ref_drained sample_exec \<lparr>br_slot = 0, br_fd = 3, br_offset = 64, br_length = 32, br_alloc_size = 4096\<rparr>
      sample_tab sample_fill_state = Inr (Inr dest, s1)" "buf_address dest = 4160"
    using sample_fill_maps [of sample_tab] by blast
  from fill_correct [OF _ _ _ _ m(1), of 1 "[7, 0, 0, 0]" "[]"] m(2) show ?thesis by (auto simp del: command_bytes.simps)
qed

text \<open>A whole-buffer fill of an indirect reference does not stop at the end of the range it resolves to.\<close>

lemma indirect_whole_fill_overruns:
  assumes "len \<le> 4" and "length pat = 4" and "br_length trgt = - 1"
    and m: "map_ref_drained env trgt bt s = Inr (Inr dest, s1)"
  shows "\<exists>s'. exec_fill env (command_bytes (FillCmd len pat trgt) @ rest) bt s = Inr ((AEE_SUCCESS, rest), s') \<and>
    xs_log s' = Filled (buf_address dest) (2 ^ 64 - 1) # xs_log s1"
proof -
  have "read_serialized 38 cmd_fill_of (command_bytes (FillCmd len pat trgt) @ rest) =
      Inr (\<lparr>cf_cmd_type = CMD_FILL, cf_pattern_length = len, cf_pattern = pat, cf_trgt = trgt\<rparr>, rest)"
    using assms(2) by (simp add: cmd_fill_wire.read_enc cmd_fill_legal_def)
  then show ?thesis using m assms(1,3) by (simp add: exec_fill_def Let_def release_buf_def not_less)
qed

end
