(* ===== verification/Recording.thy ===== *)
theory Recording
  imports Cmd_Properties
begin

text \<open>
  The host's command buffers: \<open>plugins/runtime/hexagon/command_buffer.c\<close>. Recording serializes every
  command at once into an entry of a list; \<open>end\<close> serializes the list and hands it to the DSP.

  The allocators, IREE's resource set and the transport of the RPC call are parameters that answer as
  functions of the history. The host has 64-bit sizes; the header of an entry takes 16 bytes. A ghost
  counter holds the number of entries that are allocated and not freed.
\<close>

section \<open>State and environment\<close>

record recorder =
  rc_entries :: "u8 list list"
  rc_retained :: "nat list"
  rc_profiler_capacity :: u32
  rc_dsp_buffer :: "dsp_command_buffer option"
  rc_mallocs :: nat
  rc_blocks :: nat

record recording_env =
  re_host :: host_env
  re_malloc :: "nat \<Rightarrow> u64 \<Rightarrow> iree_status + unit"
  re_resource_set_insert :: "nat list \<Rightarrow> nat option list \<Rightarrow> iree_status + unit"
  re_rpcmem_alloc :: "u64 \<Rightarrow> bool"
  re_rpc :: "aee"
  re_dsp_malloc :: "nat \<Rightarrow> usize \<Rightarrow> aee \<times> bool"
  re_extra_records :: u32

section \<open>Creation and destruction\<close>

definition recorder_create :: "iree_status + unit \<Rightarrow> bool \<Rightarrow> iree_status + unit \<Rightarrow> iree_status + recorder" where
  "recorder_create malloc unretained resource_set_allocate =
     bind_res malloc (\<lambda>_.
     bind_res (if unretained then Inr () else resource_set_allocate) (\<lambda>_.
     Inr \<lparr>rc_entries = [], rc_retained = [], rc_profiler_capacity = 3, rc_dsp_buffer = None,
       rc_mallocs = 0, rc_blocks = 0\<rparr>))"

definition clear_recorded :: "recorder \<Rightarrow> recorder" where
  "clear_recorded r = r\<lparr>rc_entries := [], rc_blocks := rc_blocks r - length (rc_entries r)\<rparr>"

definition recorder_clear :: "recorder \<Rightarrow> recorder" where
  "recorder_clear r = clear_recorded (r\<lparr>rc_dsp_buffer := None\<rparr>)"

definition recorder_destroy :: "recorder \<Rightarrow> recorder" where
  "recorder_destroy r = (recorder_clear r)\<lparr>rc_retained := []\<rparr>"

section \<open>Recording\<close>

definition append_entry :: "u8 list \<Rightarrow> recorder \<Rightarrow> recorder" where
  "append_entry entry r = r\<lparr>rc_entries := rc_entries r @ [entry]\<rparr>"

definition free_entry :: "recorder \<Rightarrow> recorder" where
  "free_entry r = r\<lparr>rc_blocks := rc_blocks r - 1\<rparr>"

text \<open>What every recording function does with a command: allocate the entry, serialize, retain the
  buffers, append. Barriers have no buffers to retain. On a failure the entry is freed.\<close>

definition record_entry ::
  "recording_env \<Rightarrow> u64 \<Rightarrow> iree_status + u8 list \<Rightarrow> nat option list option \<Rightarrow> u32 \<Rightarrow> recorder \<Rightarrow>
     (iree_status + unit) \<times> recorder" where
  "record_entry env cmd_size serialized buffers records r =
     (case re_malloc env (rc_mallocs r) (16 + cmd_size) of
        Inl e \<Rightarrow> (Inl e, r\<lparr>rc_mallocs := Suc (rc_mallocs r)\<rparr>)
      | Inr _ \<Rightarrow>
          let r = r\<lparr>rc_mallocs := Suc (rc_mallocs r), rc_blocks := Suc (rc_blocks r)\<rparr>
          in case serialized of
               Inl e \<Rightarrow> (Inl e, free_entry r)
             | Inr cmd_data \<Rightarrow>
                 (case (case buffers of None \<Rightarrow> Inr () | Some bs \<Rightarrow> re_resource_set_insert env (rc_retained r) bs) of
                    Inl e \<Rightarrow> (Inl e, free_entry r)
                  | Inr _ \<Rightarrow>
                      let r = append_entry cmd_data r
                      in (Inr (), r\<lparr>rc_retained := rc_retained r @ List.map_filter id (case buffers of None \<Rightarrow> [] | Some bs \<Rightarrow> bs),
                            rc_profiler_capacity := rc_profiler_capacity r + records\<rparr>)))"

definition record_execution_barrier :: "recording_env \<Rightarrow> u64 \<Rightarrow> recorder \<Rightarrow> (iree_status + unit) \<times> recorder" where
  "record_execution_barrier env buffer_barrier_count r =
     (if buffer_barrier_count \<noteq> 0 then (Inl UNIMPLEMENTED, r)
      else record_entry env barrier_serialize_prep (barrier_serialize_exec barrier_serialize_prep) None 1 r)"

definition record_fill_buffer ::
  "recording_env \<Rightarrow> hal_buffer_ref \<Rightarrow> u8 list \<Rightarrow> recorder \<Rightarrow> (iree_status + unit) \<times> recorder" where
  "record_fill_buffer env target_ref pattern r =
     (if length pattern = 0 \<or> length pattern > 4 then (Inl OUT_OF_RANGE, r)
      else case buffer_ref_normalize (re_host env) target_ref of
        Inl e \<Rightarrow> (Inl e, r)
      | Inr t \<Rightarrow>
          record_entry env fill_serialize_prep
            (fill_serialize_exec (re_host env) (of_nat (length pattern)) pattern t fill_serialize_prep)
            (Some [hr_buffer t]) 1 r)"

definition record_copy_buffer ::
  "recording_env \<Rightarrow> hal_buffer_ref \<Rightarrow> hal_buffer_ref \<Rightarrow> recorder \<Rightarrow> (iree_status + unit) \<times> recorder" where
  "record_copy_buffer env source_ref target_ref r =
     (case buffer_ref_normalize (re_host env) source_ref of
        Inl e \<Rightarrow> (Inl e, r)
      | Inr s \<Rightarrow>
          (case buffer_ref_normalize (re_host env) target_ref of
             Inl e \<Rightarrow> (Inl e, r)
           | Inr t \<Rightarrow>
               record_entry env copy_serialize_prep (copy_serialize_exec (re_host env) s t copy_serialize_prep)
                 (Some [hr_buffer s, hr_buffer t]) 1 r))"

text \<open>The flags of a dispatch matter for two questions that IREE answers. An executable of another
  driver has the handle 0.\<close>

record dispatch_args =
  da_custom_arguments :: bool
  da_indirect_parameters :: bool
  da_executable :: u64
  da_function :: i64
  da_config :: hal_dispatch_config
  da_constants :: "u8 list"
  da_bindings :: "hal_buffer_ref list"

definition record_dispatch :: "recording_env \<Rightarrow> dispatch_args \<Rightarrow> recorder \<Rightarrow> (iree_status + unit) \<times> recorder" where
  "record_dispatch env a r =
     (if da_custom_arguments a then (Inl UNIMPLEMENTED, r)
      else if da_indirect_parameters a then (Inl UNIMPLEMENTED, r)
      else if da_executable a = 0 then (Inl UNIMPLEMENTED, r)
      else case dispatch_serialize_prep (da_constants a) (da_bindings a) of
        Inl e \<Rightarrow> (Inl e, r)
      | Inr cmd_size \<Rightarrow>
          record_entry env cmd_size
            (dispatch_serialize_exec (re_host env) (da_function a) (da_config a) (da_constants a) (da_bindings a) cmd_size)
            (Some (map hr_buffer (da_bindings a))) (3 + re_extra_records env) r)"

datatype hal_call = Begin | BeginDebugGroup | EndDebugGroup
  | SignalEvent | ResetEvent | WaitEvents | AdviseBuffer | UpdateBuffer | Collective
  | ExecutionBarrier u64
  | FillBuffer hal_buffer_ref "u8 list"
  | CopyBuffer hal_buffer_ref hal_buffer_ref
  | Dispatch dispatch_args

fun record_call :: "recording_env \<Rightarrow> hal_call \<Rightarrow> recorder \<Rightarrow> (iree_status + unit) \<times> recorder" where
  "record_call env (ExecutionBarrier n) r = record_execution_barrier env n r"
| "record_call env (FillBuffer t pat) r = record_fill_buffer env t pat r"
| "record_call env (CopyBuffer s t) r = record_copy_buffer env s t r"
| "record_call env (Dispatch a) r = record_dispatch env a r"
| "record_call env Begin r = (Inr (), r)"
| "record_call env BeginDebugGroup r = (Inr (), r)"
| "record_call env EndDebugGroup r = (Inr (), r)"
| "record_call env _ r = (Inl UNIMPLEMENTED, r)"

fun record_calls :: "recording_env \<Rightarrow> hal_call list \<Rightarrow> recorder \<Rightarrow> (iree_status + unit) list \<times> recorder" where
  "record_calls env [] r = ([], r)"
| "record_calls env (c # cs) r =
     (case record_call env c r of (st, r) \<Rightarrow>
      case record_calls env cs r of (sts, r) \<Rightarrow> (st # sts, r))"

section \<open>End\<close>

text \<open>The DSP gets the bytes of the serialized command buffer and keeps a copy.\<close>

definition recording_end :: "recording_env \<Rightarrow> u64 \<Rightarrow> recorder \<Rightarrow> (iree_status + unit) \<times> recorder" where
  "recording_end env session r =
     (case command_buffer_serialize_prep (rc_entries r) of
        Inl e \<Rightarrow> (Inl e, r)
      | Inr (cmd_buf_size, num_entries) \<Rightarrow>
          if cmd_buf_size > 2147483647 then (Inl RESOURCE_EXHAUSTED, r)
          else if \<not> re_rpcmem_alloc env cmd_buf_size then (Inl UNKNOWN, r)
          else case command_buffer_serialize_exec (rc_entries r) num_entries cmd_buf_size of
            Inl e \<Rightarrow> (Inl e, r)
          | Inr cmd_buf_data \<Rightarrow>
              if re_rpc env \<noteq> AEE_SUCCESS then (Inl (status_from_dsp_err (re_rpc env)), r)
              else case command_buffer_create (re_dsp_malloc env) session cmd_buf_data of
                Inl dsp_err \<Rightarrow> (Inl (status_from_dsp_err dsp_err), r)
              | Inr cb \<Rightarrow> (Inr (), clear_recorded (r\<lparr>rc_dsp_buffer := Some cb\<rparr>)))"

section \<open>What a call records\<close>

text \<open>The command that a call stands for.\<close>

fun records_as :: "recording_env \<Rightarrow> hal_call \<Rightarrow> command \<Rightarrow> bool" where
  "records_as env (ExecutionBarrier n) c \<longleftrightarrow> n = 0 \<and> c = BarrierCmd"
| "records_as env (FillBuffer t pat) c \<longleftrightarrow> (\<exists>nt w. buffer_ref_normalize (re_host env) t = Inr nt \<and>
     serialized_ref (re_host env) nt w \<and> length pat \<in> {1..4} \<and>
     c = FillCmd (of_nat (length pat)) (pat @ replicate (4 - length pat) 0) w)"
| "records_as env (CopyBuffer s t) c \<longleftrightarrow> (\<exists>ns nt v w. buffer_ref_normalize (re_host env) s = Inr ns \<and>
     buffer_ref_normalize (re_host env) t = Inr nt \<and> serialized_ref (re_host env) ns v \<and>
     serialized_ref (re_host env) nt w \<and> c = CopyCmd v w)"
| "records_as env (Dispatch a) c \<longleftrightarrow> (\<exists>d cs refs. c = DispatchCmd d cs refs \<and> command_ok c \<and>
     concat (map u32_bytes cs) = da_constants a \<and>
     list_all2 (serialized_ref (re_host env)) (da_bindings a) refs \<and> cd_function_handle d = da_function a \<and>
     unat (cd_workgroup_size_x d) = max 1 (unat (workgroup_size_0 (da_config a))) \<and>
     unat (cd_workgroup_size_y d) = max 1 (unat (workgroup_size_1 (da_config a))) \<and>
     unat (cd_workgroup_size_z d) = max 1 (unat (workgroup_size_2 (da_config a))) \<and>
     cd_workgroup_count_x d = workgroup_count_0 (da_config a) \<and> cd_workgroup_count_y d = workgroup_count_1 (da_config a) \<and>
     unat (cd_workgroup_count_z d) = unat (workgroup_count_2 (da_config a)) mod 2 ^ 16)"
| "records_as env _ c \<longleftrightarrow> False"

text \<open>The calls that record a command when they succeed, and the profiler records they reserve.\<close>

fun call_records :: "recording_env \<Rightarrow> hal_call \<Rightarrow> u32 option" where
  "call_records env (ExecutionBarrier n) = Some 1"
| "call_records env (FillBuffer t pat) = Some 1"
| "call_records env (CopyBuffer s t) = Some 1"
| "call_records env (Dispatch a) = Some (3 + re_extra_records env)"
| "call_records env _ = None"

text \<open>The arguments of a call fit into the memory of the host; a dispatch has less than \<open>2\<^sup>3\<^sup>2\<close> bindings.\<close>

fun call_sized :: "hal_call \<Rightarrow> bool" where
  "call_sized (Dispatch a) \<longleftrightarrow> length (da_constants a) < 2 ^ 64 \<and> length (da_bindings a) < 2 ^ 32"
| "call_sized _ \<longleftrightarrow> True"

fun recorded_calls :: "recording_env \<Rightarrow> hal_call list \<Rightarrow> (iree_status + unit) list \<Rightarrow> hal_call list" where
  "recorded_calls env (c # cs) (st # sts) =
     (if st = Inr () \<and> call_records env c \<noteq> None then c # recorded_calls env cs sts else recorded_calls env cs sts)"
| "recorded_calls env _ _ = []"

definition recorder_ok :: "recorder \<Rightarrow> bool" where
  "recorder_ok r \<longleftrightarrow> rc_blocks r = length (rc_entries r)"

lemma record_entry_Inr:
  assumes "record_entry env n ser buffers records r = (Inr (), r')"
  shows "\<exists>bs. ser = Inr bs \<and> rc_entries r' = rc_entries r @ [bs] \<and> rc_blocks r' = Suc (rc_blocks r) \<and>
    rc_profiler_capacity r' = rc_profiler_capacity r + records \<and> rc_dsp_buffer r' = rc_dsp_buffer r"
  using assms by (auto simp: record_entry_def Let_def append_entry_def split: sum.splits option.splits)

lemma record_entry_Inl:
  assumes "record_entry env n ser buffers records r = (Inl e, r')"
  shows "rc_entries r' = rc_entries r \<and> rc_blocks r' = rc_blocks r \<and>
    rc_profiler_capacity r' = rc_profiler_capacity r \<and> rc_dsp_buffer r' = rc_dsp_buffer r"
  using assms by (auto simp: record_entry_def Let_def free_entry_def split: sum.splits option.splits)

text \<open>One call: when it fails or records nothing the entries stay; when it records they grow by the
  image of its command.\<close>

lemma record_call_Inl:
  "record_call env c r = (Inl e, r') \<Longrightarrow> rc_entries r' = rc_entries r \<and> rc_blocks r' = rc_blocks r \<and>
     rc_profiler_capacity r' = rc_profiler_capacity r \<and> rc_dsp_buffer r' = rc_dsp_buffer r"
  by (cases c)
    (auto simp: record_execution_barrier_def record_fill_buffer_def record_copy_buffer_def record_dispatch_def
      split: if_splits sum.splits dest: record_entry_Inl)

lemma record_call_None:
  "record_call env c r = (Inr (), r') \<Longrightarrow> call_records env c = None \<Longrightarrow> r' = r"
  by (cases c) auto

lemma record_dispatch_entry:
  assumes "record_dispatch env a r = (Inr (), r')" and "call_sized (Dispatch a)"
  shows "\<exists>c. records_as env (Dispatch a) c \<and> executable_command c \<and> rc_entries r' = rc_entries r @ [command_bytes c]"
proof -
  from assms(1) obtain n where n: "dispatch_serialize_prep (da_constants a) (da_bindings a) = Inr n"
    and run: "record_entry env n (dispatch_serialize_exec (re_host env) (da_function a) (da_config a)
        (da_constants a) (da_bindings a) n) (Some (map hr_buffer (da_bindings a))) (3 + re_extra_records env) r = (Inr (), r')"
    by (auto simp: record_dispatch_def split: if_splits sum.splits)
  from n obtain k where k: "dispatch_constant_count (da_constants a) = Inr k"
    by (auto simp: dispatch_serialize_prep_def res_simps)
  have lens: "length (da_constants a) < 2 ^ 64" "length (da_bindings a) < 2 ^ 32" using assms(2) by auto
  from record_entry_Inr [OF run] obtain bs where
    ser: "dispatch_serialize_exec (re_host env) (da_function a) (da_config a) (da_constants a) (da_bindings a) n = Inr bs"
    and bs: "rc_entries r' = rc_entries r @ [bs]" by blast
  from dispatch_serialize_Inr [OF ser lens] obtain d refs where
    d: "bs = command_bytes (DispatchCmd d (words_of (da_constants a)) refs)"
      "command_ok (DispatchCmd d (words_of (da_constants a)) refs)"
      "list_all2 (serialized_ref (re_host env)) (da_bindings a) refs"
    and fields: "cd_function_handle d = da_function a"
      "unat (cd_workgroup_size_x d) = max 1 (unat (workgroup_size_0 (da_config a)))"
      "unat (cd_workgroup_size_y d) = max 1 (unat (workgroup_size_1 (da_config a)))"
      "unat (cd_workgroup_size_z d) = max 1 (unat (workgroup_size_2 (da_config a)))"
      "cd_workgroup_count_x d = workgroup_count_0 (da_config a)" "cd_workgroup_count_y d = workgroup_count_1 (da_config a)"
      "unat (cd_workgroup_count_z d) = unat (workgroup_count_2 (da_config a)) mod 2 ^ 16" by blast
  have "concat (map u32_bytes (words_of (da_constants a))) = da_constants a"
    by (rule words_of_bytes [OF constant_count_Inr(1) [OF k lens(1)]])
  with d fields bs show ?thesis
    by (intro exI [of _ "DispatchCmd d (words_of (da_constants a)) refs"]) (simp del: command_bytes.simps)
qed

lemma record_call_entry:
  assumes run: "record_call env c r = (Inr (), r')" and n: "call_records env c = Some n" and sized: "call_sized c"
  shows "\<exists>x. records_as env c x \<and> executable_command x \<and> rc_entries r' = rc_entries r @ [command_bytes x]"
    and "rc_blocks r' = Suc (rc_blocks r)" and "rc_profiler_capacity r' = rc_profiler_capacity r + n"
    and "rc_dsp_buffer r' = rc_dsp_buffer r"
proof -
  show "rc_blocks r' = Suc (rc_blocks r)" "rc_profiler_capacity r' = rc_profiler_capacity r + n"
    "rc_dsp_buffer r' = rc_dsp_buffer r"
    using run n
    by (cases c; auto simp: record_execution_barrier_def record_fill_buffer_def record_copy_buffer_def record_dispatch_def
      split: if_splits sum.splits dest: record_entry_Inr)+
  show "\<exists>x. records_as env c x \<and> executable_command x \<and> rc_entries r' = rc_entries r @ [command_bytes x]"
  proof (cases c)
    case (Dispatch a)
    with run sized record_dispatch_entry show ?thesis by simp
  next
    case (ExecutionBarrier k)
    with run show ?thesis
      by (auto simp: record_execution_barrier_def barrier_serialize_Inr split: if_splits dest: record_entry_Inr)
  next
    case (CopyBuffer s t)
    with run obtain ns nt where norm: "buffer_ref_normalize (re_host env) s = Inr ns" "buffer_ref_normalize (re_host env) t = Inr nt"
      and e: "record_entry env copy_serialize_prep (copy_serialize_exec (re_host env) ns nt copy_serialize_prep)
        (Some [hr_buffer ns, hr_buffer nt]) 1 r = (Inr (), r')"
      by (auto simp: record_copy_buffer_def split: sum.splits)
    from record_entry_Inr [OF e] obtain v w where "serialized_ref (re_host env) ns v" "serialized_ref (re_host env) nt w"
      "rc_entries r' = rc_entries r @ [command_bytes (CopyCmd v w)]"
      by (auto simp: copy_serialize_Inr)
    with CopyBuffer norm show ?thesis by (intro exI [of _ "CopyCmd v w"]) (auto simp del: command_bytes.simps)
  next
    case (FillBuffer t pat)
    with run obtain nt where norm: "buffer_ref_normalize (re_host env) t = Inr nt" and len: "length pat \<in> {1..4}"
      and e: "record_entry env fill_serialize_prep (fill_serialize_exec (re_host env) (of_nat (length pat)) pat nt fill_serialize_prep)
        (Some [hr_buffer nt]) 1 r = (Inr (), r')"
      by (auto simp: record_fill_buffer_def Suc_le_eq split: sum.splits if_splits)
    have u: "unat (of_nat (length pat) :: u8) = length pat" using len by (simp add: unat_of_nat)
    from record_entry_Inr [OF e] u obtain w where "serialized_ref (re_host env) nt w" "(of_nat (length pat) :: u8) \<le> 4"
      "rc_entries r' = rc_entries r @ [command_bytes (FillCmd (of_nat (length pat)) (pat @ replicate (4 - length pat) 0) w)]"
      by (auto simp: fill_serialize_Inr)
    with FillBuffer norm len show ?thesis
      by (intro exI [of _ "FillCmd (of_nat (length pat)) (pat @ replicate (4 - length pat) 0) w"])
        (auto simp del: command_bytes.simps)
  qed (use n in auto)
qed

lemma record_calls_recorded:
  assumes "record_calls env calls r = (sts, r')" and "\<forall>c\<in>set calls. call_sized c"
  shows "\<exists>xs. rc_entries r' = rc_entries r @ map command_bytes xs \<and>
    list_all2 (records_as env) (recorded_calls env calls sts) xs \<and> (\<forall>x\<in>set xs. executable_command x) \<and>
    rc_blocks r' = rc_blocks r + length xs \<and> rc_dsp_buffer r' = rc_dsp_buffer r \<and>
    rc_profiler_capacity r' = rc_profiler_capacity r +
      (\<Sum>c\<leftarrow>recorded_calls env calls sts. the (call_records env c))"
  using assms
proof (induction calls arbitrary: r sts)
  case (Cons c calls)
  obtain st r1 where one: "record_call env c r = (st, r1)" by fastforce
  obtain sts1 where rest: "record_calls env calls r1 = (sts1, r')" and sts: "sts = st # sts1"
    using Cons.prems(1) one by (auto split: prod.splits)
  from Cons.IH [OF rest] Cons.prems(2) obtain xs where
    xs: "rc_entries r' = rc_entries r1 @ map command_bytes xs"
      "list_all2 (records_as env) (recorded_calls env calls sts1) xs" "\<forall>x\<in>set xs. executable_command x"
      "rc_blocks r' = rc_blocks r1 + length xs" "rc_dsp_buffer r' = rc_dsp_buffer r1"
      "rc_profiler_capacity r' = rc_profiler_capacity r1 + (\<Sum>c\<leftarrow>recorded_calls env calls sts1. the (call_records env c))"
    by auto
  show ?case
  proof (cases "st = Inr () \<and> call_records env c \<noteq> None")
    case True
    then obtain n where n: "call_records env c = Some n" by auto
    have sized: "call_sized c" using Cons.prems(2) by simp
    note e = record_call_entry [OF _ n sized, of r r1] one True
    from e obtain x where "records_as env c x" "executable_command x" "rc_entries r1 = rc_entries r @ [command_bytes x]" by auto
    with e xs sts n show ?thesis by (intro exI [of _ "x # xs"]) (simp del: command_bytes.simps executable_command.simps)
  next
    case False
    have "rc_entries r1 = rc_entries r \<and> rc_blocks r1 = rc_blocks r \<and>
        rc_profiler_capacity r1 = rc_profiler_capacity r \<and> rc_dsp_buffer r1 = rc_dsp_buffer r"
      using False one record_call_Inl [of env c r] record_call_None [of env c r] by (cases st) auto
    with False xs sts show ?thesis by (intro exI [of _ xs]) auto
  qed
qed simp

section \<open>The end of a recording\<close>

lemma executable_length:
  assumes "executable_command c"
  shows "length (command_bytes c) < 2 ^ 64"
proof (cases c)
  case (DispatchCmd d cs refs)
  have "unat (cd_constant_count d) < 2 ^ 16" "unat (cd_num_bindings d) < 2 ^ 32"
    using unat_lt2p_aux [of "cd_constant_count d"] unat_lt2p_aux [of "cd_num_bindings d"] by simp_all
  with DispatchCmd assms have "length cs < 2 ^ 16" "length refs < 2 ^ 32" by auto
  with DispatchCmd show ?thesis
    by (simp add: struct_lengths u32_wire.length_concat_enc buf_ref_wire.length_concat_enc)
next
  case (FillCmd n pat t)
  then show ?thesis using assms by (simp add: struct_lengths cmd_fill_legal_def)
qed (simp_all add: struct_lengths cmd_barrier_bytes_def)

lemma recording_end_cases:
  assumes entries: "rc_entries r = map command_bytes cs" and cmds: "\<forall>c\<in>set cs. executable_command c"
  shows "case recording_end env session r of
      (Inl e, r') \<Rightarrow> r' = r
    | (Inr _, r') \<Rightarrow> rc_entries r' = [] \<and> rc_blocks r' = rc_blocks r - length cs \<and>
        length (commands_bytes cs) < 2 ^ 31 \<and>
        (\<exists>cb. rc_dsp_buffer r' = Some cb \<and> cb_data cb = commands_bytes cs \<and>
           command_buffer_create (re_dsp_malloc env) session (commands_bytes cs) = Inr cb)"
proof (cases "command_buffer_serialize_prep (rc_entries r)")
  case (Inl e)
  then show ?thesis by (simp add: recording_end_def)
next
  case (Inr p)
  obtain n k where p: "p = (n, k)" by (cases p)
  have "\<forall>e\<in>set (rc_entries r). length e < 2 ^ 64" using cmds entries executable_length by auto
  note s = command_buffer_serialized [OF Inr [unfolded p] this]
  have k: "k = of_nat (length cs)" using s(3) entries by (metis length_map of_nat_unat ucast_id)
  have data: "u32_bytes k @ concat (rc_entries r) = commands_bytes cs"
    by (simp add: commands_bytes_def k entries)
  have len: "length (commands_bytes cs) = unat n"
    using s(2) by (simp add: data [symmetric] u32_wire.enc_length)
  have data': "cb_data cb = d" if "command_buffer_create m h d = Inr cb" for m h d cb
    using that by (auto simp: command_buffer_create_def res_simps Let_def split: if_splits)
  show ?thesis
  proof (cases "n > 2147483647 \<or> \<not> re_rpcmem_alloc env n \<or> re_rpc env \<noteq> AEE_SUCCESS")
    case True
    then show ?thesis using Inr p s(1) by (auto simp: recording_end_def)
  next
    case False
    then have "unat n < 2 ^ 31" by (simp add: word_less_nat_alt)
    with False Inr p s(1) data len data' show ?thesis
      by (auto simp: recording_end_def clear_recorded_def entries split: sum.splits)
  qed
qed

section \<open>Property\<close>

lemma recorder_create_Inr:
  "recorder_create m u a = Inr r \<Longrightarrow> rc_entries r = [] \<and> rc_blocks r = 0 \<and> rc_profiler_capacity r = 3 \<and> rc_dsp_buffer r = None"
  by (auto simp: recorder_create_def res_simps)

text \<open>
  C8: a recording reaches the DSP unchanged. After any sequence of calls on a new command buffer,
  failed calls included, the entries are in order the images of the calls that succeeded, no memory
  of a failed call is left, and as many profiler records are reserved as these calls ask for. Ending
  the recording either fails and keeps it, or creates a command buffer on the DSP that holds exactly
  the serialized commands, which the DSP can execute, and frees all entries.
\<close>

theorem recording_reaches_dsp:
  assumes "recorder_create m u a = Inr r0" and "record_calls env calls r0 = (sts, r)"
    and "\<forall>c\<in>set calls. call_sized c"
  shows "\<exists>cs. list_all2 (records_as env) (recorded_calls env calls sts) cs \<and>
    (\<forall>c\<in>set cs. executable_command c) \<and> rc_entries r = map command_bytes cs \<and> rc_blocks r = length cs \<and>
    rc_profiler_capacity r = 3 + (\<Sum>c\<leftarrow>recorded_calls env calls sts. the (call_records env c)) \<and>
    (case recording_end env session r of
       (Inl e, r') \<Rightarrow> r' = r
     | (Inr _, r') \<Rightarrow> rc_entries r' = [] \<and> rc_blocks r' = 0 \<and>
         (\<exists>cb. rc_dsp_buffer r' = Some cb \<and> cb_data cb = commands_bytes cs \<and> host_data cs []))"
proof -
  note new = recorder_create_Inr [OF assms(1)]
  from record_calls_recorded [OF assms(2,3)] new obtain cs where
    cs: "rc_entries r = map command_bytes cs" "list_all2 (records_as env) (recorded_calls env calls sts) cs"
      "\<forall>c\<in>set cs. executable_command c" "rc_blocks r = length cs"
      "rc_profiler_capacity r = 3 + (\<Sum>c\<leftarrow>recorded_calls env calls sts. the (call_records env c))"
    by auto
  have "length (table_bytes []) < 2 ^ 31" by (simp add: table_bytes_def struct_lengths)
  with cs recording_end_cases [OF cs(1,3), of env session] show ?thesis
    by (intro exI [of _ cs]) (auto simp: host_data_def split: sum.splits prod.splits)
qed

definition sample_recording_env :: recording_env where
  "sample_recording_env = \<lparr>re_host = sample_host, re_malloc = (\<lambda>n _. if n = 1 then Inl RESOURCE_EXHAUSTED else Inr ()),
     re_resource_set_insert = (\<lambda>_ _. Inr ()), re_rpcmem_alloc = (\<lambda>_. True), re_rpc = AEE_SUCCESS,
     re_dsp_malloc = (\<lambda>_ _. (AEE_SUCCESS, True)), re_extra_records = 2\<rparr>"

definition sample_recording :: "hal_call list" where
  "sample_recording = [Begin, FillBuffer \<lparr>hr_buffer_slot = 0, hr_buffer = Some 3, hr_offset = 0, hr_length = 32\<rparr> [7],
     ExecutionBarrier 0, UpdateBuffer, ExecutionBarrier 0,
     Dispatch \<lparr>da_custom_arguments = False, da_indirect_parameters = False, da_executable = 1, da_function = 64,
       da_config = sample_config, da_constants = [1, 0, 0, 0], da_bindings = sample_bindings\<rparr>]"

definition sample_recorder :: recorder where
  "sample_recorder = \<lparr>rc_entries = [], rc_retained = [], rc_profiler_capacity = 3, rc_dsp_buffer = None,
     rc_mallocs = 0, rc_blocks = 0\<rparr>"

lemma sample_create: "recorder_create (Inr ()) False (Inr ()) = Inr sample_recorder"
  by (simp add: recorder_create_def sample_recorder_def)

lemma sample_statuses:
  "fst (record_calls sample_recording_env sample_recording sample_recorder) =
     [Inr (), Inr (), Inl RESOURCE_EXHAUSTED, Inl UNIMPLEMENTED, Inr (), Inr ()]"
  by code_simp

theorem recording_reaches_dsp_witness:
  "\<exists>cs. length cs = 3 \<and>
     rc_entries (snd (record_calls sample_recording_env sample_recording sample_recorder)) = map command_bytes cs"
proof -
  obtain sts r where run: "record_calls sample_recording_env sample_recording sample_recorder = (sts, r)" by fastforce
  have sized: "\<forall>c\<in>set sample_recording. call_sized c" by (simp add: sample_recording_def sample_bindings_def)
  from run sample_statuses have "length (recorded_calls sample_recording_env sample_recording sts) = 3"
    by (simp add: sample_recording_def)
  with recording_reaches_dsp [OF sample_create run sized, of 0] run show ?thesis
    by (auto dest!: list_all2_lengthD simp del: map_eq_conv)
qed

end
