(* ===== verification/Host_Queue.thy ===== *)
theory Host_Queue
  imports Recording
begin

text \<open>
  The session of the DSP (\<open>plugins/runtime/hexagon/dsp/device.c\<close>) and the queue of the host's device
  (\<open>plugins/runtime/hexagon/device.c\<close>), which together with the recorder make the path of a command
  buffer from the host's calls to its execution. The build without the profiler is modelled.
\<close>

section \<open>The session of the DSP\<close>

record session =
  se_max_concurrent :: u32
  se_residency :: residency

text \<open>Opening: whether there is memory, and the status of the power request.\<close>

definition session_open :: "bool \<Rightarrow> aee \<Rightarrow> aee \<Rightarrow> dsp_event list \<Rightarrow> aee + session" where
  "session_open calloc residency_status power_status h =
     (if \<not> calloc then Inl AEE_ENOMEMORY
      else if residency_status \<noteq> AEE_SUCCESS then Inl residency_status
      else if power_status \<noteq> AEE_SUCCESS then Inl power_status
      else Inr \<lparr>se_max_concurrent = 1, se_residency = residency_create h\<rparr>)"

definition session_close :: "dsp_env \<Rightarrow> session \<Rightarrow> residency" where
  "session_close env s = residency_destroy env (se_residency s)"

text \<open>The limit of concurrent dispatches. \<open>hvx_units\<close> is the answer of \<open>qurt_hvx_get_units\<close>.\<close>

definition hvx_contexts :: "u32 \<Rightarrow> int" where
  "hvx_contexts hvx_units = uint (drop_bit 8 hvx_units AND 255)"

definition set_max_concurrent_dispatches :: "u32 \<Rightarrow> int \<Rightarrow> i32 \<Rightarrow> session \<Rightarrow> fault + aee \<times> session" where
  "set_max_concurrent_dispatches hvx_units num_workers max_concurrent_dispatches s =
     (if max_concurrent_dispatches = 1 then Inr (AEE_SUCCESS, s\<lparr>se_max_concurrent := 1\<rparr>)
      else let limit = min (hvx_contexts hvx_units) num_workers
           in if limit < 1 then Inl Aborted
              else let m = if max_concurrent_dispatches = 0 then word_of_int limit else max_concurrent_dispatches
                   in if sint m < 0 \<or> sint m > limit then Inr (AEE_EBADPARM, s)
                      else Inr (AEE_SUCCESS, s\<lparr>se_max_concurrent := m\<rparr>))"

definition set_residency_budget :: "i64 \<Rightarrow> session \<Rightarrow> aee \<times> session" where
  "set_residency_budget budget_bytes s =
     (if sint budget_bytes \<le> 0 then (AEE_EBADPARM, s)
      else case residency_set_budget budget_bytes (se_residency s) of
        (err, r) \<Rightarrow> (err, s\<lparr>se_residency := r\<rparr>))"

text \<open>A limit that was set is at least 1 and within what the DSP has, whichever limit was asked for.\<close>

lemma hvx_contexts_bounds: "0 \<le> hvx_contexts u \<and> hvx_contexts u \<le> 255"
proof -
  have "uint (drop_bit 8 u AND 255) \<le> uint (255 :: u32)"
    by (simp add: uint_and)
  then show ?thesis by (simp add: hvx_contexts_def)
qed

lemma set_max_concurrent_bounds:
  assumes "set_max_concurrent_dispatches u w m s = Inr (AEE_SUCCESS, s')"
  shows "1 \<le> sint (se_max_concurrent s') \<and>
    (se_max_concurrent s' = 1 \<or> sint (se_max_concurrent s') \<le> min (hvx_contexts u) w) \<and>
    se_residency s' = se_residency s"
proof -
  let ?l = "min (hvx_contexts u) w"
  have small: "?l \<le> 255" using hvx_contexts_bounds [of u] by linarith
  have l: "sint (word_of_int ?l :: i32) = ?l" if "1 \<le> ?l"
    using that small by (simp add: sint_uint uint_word_of_int signed_take_bit_int_eq_self take_bit_int_eq_self)
  have "sint m \<noteq> 0" if "m \<noteq> 0" using that by (simp add: signed_eq_0_iff)
  with assms l show ?thesis
    by (auto simp: set_max_concurrent_dispatches_def Let_def not_less split: if_splits)
qed

section \<open>The queue of the device\<close>

text \<open>A command buffer of another driver has no handle. The handle of a command buffer that has not
  been ended is 0.\<close>

definition get_rpc_handle :: "bool \<Rightarrow> recorder \<Rightarrow> iree_status + dsp_command_buffer option" where
  "get_rpc_handle isa r = (if isa then Inr (rc_dsp_buffer r) else Inl INCOMPATIBLE)"

definition queue_execute_cmd_buf ::
  "recording_env \<Rightarrow> 'pool exec_env \<Rightarrow> u32 \<Rightarrow> bool \<Rightarrow> recorder \<Rightarrow> hal_binding list \<Rightarrow> 'pool dsp_state \<Rightarrow>
     fault + (iree_status + unit) \<times> 'pool dsp_state" where
  "queue_execute_cmd_buf env xenv n isa r bindings s =
     (case get_rpc_handle isa r of Inl e \<Rightarrow> Inr (Inl e, s)
      | Inr handle \<Rightarrow>
     (case bindings_serialize_prep bindings of Inl e \<Rightarrow> Inr (Inl e, s)
      | Inr bind_tab_size \<Rightarrow>
     if bind_tab_size > 2147483647 then Inr (Inl RESOURCE_EXHAUSTED, s)
     else if \<not> re_rpcmem_alloc env bind_tab_size then Inr (Inl RESOURCE_EXHAUSTED, s)
     else (case bindings_serialize_exec (re_host env) bindings bind_tab_size of Inl e \<Rightarrow> Inr (Inl e, s)
      | Inr bind_tab_data \<Rightarrow>
     if re_rpc env \<noteq> AEE_SUCCESS then Inr (Inl (status_from_dsp_err (re_rpc env)), s)
     else (case handle of None \<Rightarrow> Inl Crashed
      | Some cb \<Rightarrow> bind_res (command_buffer_execute xenv cb bind_tab_data n s) (\<lambda>(dsp_err, s).
          Inr (if dsp_err \<noteq> AEE_SUCCESS then Inl (status_from_dsp_err dsp_err) else Inr (), s))))))"

text \<open>The answers of the semaphores, whether there is a command buffer; whether the semaphores get
  signalled.\<close>

definition queue_execute ::
  "iree_status + unit \<Rightarrow> iree_status + unit \<Rightarrow> recording_env \<Rightarrow> 'pool exec_env \<Rightarrow> u32 \<Rightarrow> (bool \<times> recorder) option \<Rightarrow>
     hal_binding list \<Rightarrow> 'pool dsp_state \<Rightarrow> fault + (iree_status + unit) \<times> 'pool dsp_state \<times> bool" where
  "queue_execute wait signal env xenv n command_buffer bindings s =
     (case wait of Inl e \<Rightarrow> Inr (Inl e, s, False)
      | Inr _ \<Rightarrow>
          bind_res (case command_buffer of None \<Rightarrow> Inr (Inr (), s)
                    | Some (isa, r) \<Rightarrow> queue_execute_cmd_buf env xenv n isa r bindings s) (\<lambda>(st, s).
          case st of Inl e \<Rightarrow> Inr (Inl e, s, False) | Inr _ \<Rightarrow> Inr (signal, s, True)))"

section \<open>From the host's calls to the execution\<close>

lemma bindings_table:
  assumes prep: "bindings_serialize_prep bindings = Inr n" and small: "n \<le> 2147483647"
    and exec: "bindings_serialize_exec env bindings n = Inr bs" and len: "length bindings < 2 ^ 64"
  shows "\<exists>tab. list_all2 (serialized_binding env) bindings tab \<and> bs = table_bytes tab \<and> length bs < 2 ^ 31"
proof -
  from prep have n: "n = 4 + of_nat (length bindings) * 28" and le: "(of_nat (length bindings) :: u64) \<le> 4294967295"
    by (auto simp: bindings_serialize_prep_def not_less split: if_splits)
  have l: "length bindings < 2 ^ 32" using le len by (simp add: word_le_nat_alt unat_of_nat)
  let ?n = "4 + length bindings * 28"
  have e: "n = of_nat ?n" unfolding n by simp
  have "?n < 2 ^ 64" using l by simp
  then have "unat n = ?n" by (simp only: e unat_of_nat) simp
  with small have bound: "?n < 2 ^ 31" by (simp add: word_le_nat_alt)
  from exec have "fold_res (serialize_binding env n) bindings (u32_bytes (of_nat (length bindings))) = Inr bs"
    by (auto simp: bindings_serialize_exec_def res_simps)
  from serialize_bindings [OF this] obtain tab where tab: "list_all2 (serialized_binding env) bindings tab"
    "bs = u32_bytes (of_nat (length bindings)) @ concat (map binding_bytes tab)" by blast
  then have "bs = table_bytes tab" by (simp add: table_bytes_def list_all2_lengthD)
  moreover from tab have "length bs = ?n"
    by (simp add: list_all2_lengthD struct_lengths binding_wire.length_concat_enc)
  ultimately show ?thesis using tab bound by auto
qed


definition barrier_recording :: "hal_call list" where
  "barrier_recording = [ExecutionBarrier 0, SignalEvent]"

lemma barrier_recorded:
  "fst (record_calls sample_recording_env barrier_recording sample_recorder) = [Inr (), Inl UNIMPLEMENTED]"
  "fst (recording_end sample_recording_env 0 (snd (record_calls sample_recording_env barrier_recording sample_recorder))) = Inr ()"
  by code_simp+


end
