(* ===== verification/Struct_Layout.thy ===== *)
theory Struct_Layout
  imports Cmd_Sched
begin

text \<open>
  How structures lie in the memory of the DSP, a 32-bit little-endian machine: the natural layout
  that its C compiler and LLVM give a structure that is not packed. The types and the constants of
  this theory describe both sides of the interface between a compiled executable and the runtime:
  the compiler fills LLVM constants, the linker puts them somewhere, the runtime reads C structures.
\<close>

section \<open>Types\<close>

datatype abi_type = Int_Type nat | Ptr_Type | Struct_Type "abi_type list"

definition round_up :: "nat \<Rightarrow> nat \<Rightarrow> nat" where
  "round_up a n = (n + a - 1) div a * a"

fun type_align :: "abi_type \<Rightarrow> nat" and fields_align :: "abi_type list \<Rightarrow> nat" where
  "type_align (Int_Type n) = n"
| "type_align Ptr_Type = 4"
| "type_align (Struct_Type ts) = fields_align ts"
| "fields_align [] = 1"
| "fields_align (t # ts) = max (type_align t) (fields_align ts)"

fun type_size :: "abi_type \<Rightarrow> nat" and fields_end :: "nat \<Rightarrow> abi_type list \<Rightarrow> nat" where
  "type_size (Int_Type n) = n"
| "type_size Ptr_Type = 4"
| "type_size (Struct_Type ts) = round_up (fields_align ts) (fields_end 0 ts)"
| "fields_end off [] = off"
| "fields_end off (t # ts) = fields_end (round_up (type_align t) off + type_size t) ts"

text \<open>The offset of a field, and of a field of a field.\<close>

fun field_offset :: "nat \<Rightarrow> abi_type list \<Rightarrow> nat \<Rightarrow> nat" where
  "field_offset off [] i = off"
| "field_offset off (t # ts) 0 = round_up (type_align t) off"
| "field_offset off (t # ts) (Suc i) = field_offset (round_up (type_align t) off + type_size t) ts i"

lemma field_offset_numeral [simp]:
  "field_offset off (t # ts) (numeral k) = field_offset (round_up (type_align t) off + type_size t) ts (pred_numeral k)"
  by (simp add: numeral_eq_Suc)

fun offset_of :: "abi_type \<Rightarrow> nat list \<Rightarrow> nat" where
  "offset_of (Struct_Type ts) (i # is) = field_offset 0 ts i + offset_of (ts ! i) is"
| "offset_of t is = 0"

section \<open>Memory\<close>

definition bytes_at :: "memory \<Rightarrow> usize \<Rightarrow> nat \<Rightarrow> u8 list" where
  "bytes_at m p n = map (\<lambda>i. m (p + of_nat i)) [0..<n]"

definition load :: "memory \<Rightarrow> usize \<Rightarrow> nat \<Rightarrow> 'a::len word" where
  "load m p n = le_word (bytes_at m p n)"

lemma load_bytes:
  assumes "bytes_at m p n = le_bytes n (w :: 'a::len word)" and "LENGTH('a) \<le> 8 * n"
  shows "load m p n = w"
  using assms by (simp add: load_def le_word_bytes)

section \<open>Constants\<close>

text \<open>
  The initializers of the global variables of a module. A pointer is null, the address of a global
  variable or of a function; both are numbered.
\<close>

datatype llvm_const =
    Int_Const nat u64
  | Null_Const
  | Global_Const nat
  | Function_Const nat
  | Struct_Const "llvm_const list"
  | Array_Const abi_type "llvm_const list"
  | Bytes_Const "u8 list"

fun const_type :: "llvm_const \<Rightarrow> abi_type" where
  "const_type (Int_Const n v) = Int_Type n"
| "const_type (Struct_Const cs) = Struct_Type (map const_type cs)"
| "const_type c = Ptr_Type"

text \<open>A linked library: the memory it is loaded into, and where its variables and functions lie.\<close>

record linked =
  li_memory :: memory
  li_global :: "nat \<Rightarrow> usize"
  li_function :: "nat \<Rightarrow> usize"

text \<open>The memory at an address holds a constant; what lies in the padding is left open.\<close>

fun const_at :: "linked \<Rightarrow> usize \<Rightarrow> llvm_const \<Rightarrow> bool"
  and fields_at :: "linked \<Rightarrow> usize \<Rightarrow> nat \<Rightarrow> llvm_const list \<Rightarrow> bool"
  and elements_at :: "linked \<Rightarrow> usize \<Rightarrow> nat \<Rightarrow> llvm_const list \<Rightarrow> bool" where
  "const_at l p (Int_Const n v) \<longleftrightarrow> bytes_at (li_memory l) p n = le_bytes n v"
| "const_at l p Null_Const \<longleftrightarrow> bytes_at (li_memory l) p 4 = le_bytes 4 (0 :: usize)"
| "const_at l p (Global_Const g) \<longleftrightarrow> bytes_at (li_memory l) p 4 = le_bytes 4 (li_global l g)"
| "const_at l p (Function_Const f) \<longleftrightarrow> bytes_at (li_memory l) p 4 = le_bytes 4 (li_function l f)"
| "const_at l p (Struct_Const cs) \<longleftrightarrow> fields_at l p 0 cs"
| "const_at l p (Array_Const t cs) \<longleftrightarrow> elements_at l p (type_size t) cs"
| "const_at l p (Bytes_Const bs) \<longleftrightarrow> bytes_at (li_memory l) p (length bs) = bs"
| "fields_at l p off [] \<longleftrightarrow> True"
| "fields_at l p off (c # cs) \<longleftrightarrow>
     const_at l (p + of_nat (round_up (type_align (const_type c)) off)) c \<and>
     fields_at l p (round_up (type_align (const_type c)) off + type_size (const_type c)) cs"
| "elements_at l p n [] \<longleftrightarrow> True"
| "elements_at l p n (c # cs) \<longleftrightarrow> const_at l p c \<and> elements_at l (p + of_nat n) n cs"

fun const_size :: "llvm_const \<Rightarrow> nat" where
  "const_size (Array_Const t cs) = type_size t * length cs"
| "const_size (Bytes_Const bs) = length bs"
| "const_size c = type_size (const_type c)"

text \<open>Every variable lies somewhere in the address space, not at address zero, and holds its initializer.\<close>

definition linked_ok :: "linked \<Rightarrow> llvm_const list \<Rightarrow> bool" where
  "linked_ok l globals \<longleftrightarrow>
     list_all (\<lambda>(i, c). li_global l i \<noteq> 0 \<and> unat (li_global l i) + const_size c \<le> 2 ^ 32 \<and>
       const_at l (li_global l i) c) (enumerate 0 globals)"

lemma linked_okD:
  assumes "linked_ok l globals" and "i < length globals" and "globals ! i = c"
  shows "li_global l i \<noteq> 0" and "const_at l (li_global l i) c" and "unat (li_global l i) + const_size c \<le> 2 ^ 32"
proof -
  have "(i, c) \<in> set (enumerate 0 globals)"
    using assms(2,3) by (auto simp: in_set_enumerate_eq)
  with assms(1) show "li_global l i \<noteq> 0" "const_at l (li_global l i) c" "unat (li_global l i) + const_size c \<le> 2 ^ 32"
    by (auto simp: linked_ok_def list_all_iff)
qed

text \<open>Reading a field gives what the constant has there.\<close>

lemma fields_atD:
  assumes "fields_at l p off cs" and "i < length cs"
  shows "const_at l (p + of_nat (field_offset off (map const_type cs) i)) (cs ! i)"
  using assms
proof (induction cs arbitrary: off i)
  case (Cons c cs)
  then show ?case by (cases i) simp_all
qed simp

lemma elements_atD:
  assumes "elements_at l p n cs" and "i < length cs"
  shows "const_at l (p + of_nat (n * i)) (cs ! i)"
  using assms
proof (induction cs arbitrary: p i)
  case (Cons c cs)
  show ?case
  proof (cases i)
    case (Suc j)
    with Cons.IH [of "p + of_nat n" j] Cons.prems have
      "const_at l (p + of_nat n + of_nat (n * j)) (cs ! j)" by simp
    then show ?thesis by (simp add: Suc algebra_simps)
  qed (use Cons.prems in simp)
qed simp

lemma load_const:
  "const_at l p (Int_Const 8 v) \<Longrightarrow> load (li_memory l) p 8 = v"
  "const_at l p Null_Const \<Longrightarrow> load (li_memory l) p 4 = (0 :: usize)"
  "const_at l p (Global_Const g) \<Longrightarrow> load (li_memory l) p 4 = li_global l g"
  "const_at l p (Function_Const f) \<Longrightarrow> load (li_memory l) p 4 = li_function l f"
  by (auto intro: load_bytes)

lemma le_bytes_ucast:
  assumes "8 * n \<le> LENGTH('b)" and "8 * n \<le> LENGTH('a)"
  shows "le_bytes n (ucast w :: 'b::len word) = le_bytes n (w :: 'a::len word)"
proof -
  have "ucast (drop_bit (8 * i) (ucast w :: 'b word)) = (ucast (drop_bit (8 * i) w) :: u8)" if "i < n" for i
  proof (rule bit_word_eqI)
    fix k assume "k < LENGTH(8)"
    with that assms show "bit (ucast (drop_bit (8 * i) (ucast w :: 'b word)) :: u8) k \<longleftrightarrow>
        bit (ucast (drop_bit (8 * i) w) :: u8) k"
      by (auto simp: bit_ucast_iff bit_drop_bit_eq)
  qed
  then show ?thesis by (simp add: le_bytes_def)
qed

lemma load_i32:
  assumes "const_at l p (Int_Const 4 v)"
  shows "load (li_memory l) p 4 = (ucast v :: u32)"
  using assms by (auto intro!: load_bytes simp: le_bytes_ucast)

section \<open>Strings\<close>

text \<open>\<open>strcmp(p, s) == 0\<close> for the bytes \<open>s\<close> in front of the terminating zero.\<close>

fun strcmp_eq :: "memory \<Rightarrow> usize \<Rightarrow> u8 list \<Rightarrow> bool" where
  "strcmp_eq m p [] \<longleftrightarrow> m p = 0"
| "strcmp_eq m p (b # bs) \<longleftrightarrow> m p = b \<and> strcmp_eq m (p + 1) bs"

definition string_bytes :: "string \<Rightarrow> u8 list" where
  "string_bytes s = map of_char s"

lemma bytes_at_Suc: "bytes_at m p (Suc n) = m p # bytes_at m (p + 1) n"
proof -
  have "[0..<Suc n] = 0 # map Suc [0..<n]" by (simp add: upt_conv_Cons map_Suc_upt del: upt_Suc)
  then show ?thesis by (simp add: bytes_at_def algebra_simps del: upt_Suc)
qed

lemma strcmp_eq_bytes: 
  assumes "bytes_at m p (Suc (length bs)) = bs @ [0]" and "0 \<notin> set bs" and "0 \<notin> set bs'"
  shows "strcmp_eq m p bs' \<longleftrightarrow> bs' = bs"
  using assms
proof (induction bs' arbitrary: p bs)
  case Nil
  then show ?case by (cases bs) (auto simp: bytes_at_Suc)
next
  case (Cons b bs')
  show ?case
  proof (cases bs)
    case Nil
    with Cons.prems show ?thesis by (auto simp: bytes_at_Suc)
  next
    case (Cons c cs)
    with Cons.prems Cons.IH [of "p + 1" cs] show ?thesis by (auto simp: bytes_at_Suc)
  qed
qed

text \<open>A name with a zero in it would end early.\<close>

definition c_name :: "string \<Rightarrow> bool" where
  "c_name s \<longleftrightarrow> CHR 0x00 \<notin> set s"

lemma unat_of_char: "unat (of_char c :: u8) = (of_char c :: nat)"
  unfolding of_nat_of_char [symmetric, where ?'a = "8 word"] unsigned_of_nat
  using nat_of_char_less_256 [of c] by (simp add: take_bit_nat_eq_self del: of_nat_of_char)

lemma of_char_u8_eq: "(of_char c :: u8) = of_char d \<longleftrightarrow> c = d"
  by (metis unat_of_char of_char_eq_iff)

lemma of_char_u8_zero: "(of_char c :: u8) = 0 \<longleftrightarrow> c = CHR 0x00"
proof -
  have "(of_char (CHR 0x00) :: u8) = 0" by (simp add: of_char_def)
  then show ?thesis by (metis of_char_u8_eq)
qed

lemma string_bytes_zero [simp]: "0 \<in> set (string_bytes s) \<longleftrightarrow> \<not> c_name s"
  by (auto simp: string_bytes_def c_name_def image_iff of_char_u8_zero eq_commute [of 0])

lemma string_bytes_eq [simp]: "string_bytes s = string_bytes s' \<longleftrightarrow> s = s'"
proof -
  have "inj (of_char :: char \<Rightarrow> u8)" by (simp add: inj_def of_char_u8_eq)
  then show ?thesis by (auto simp: string_bytes_def dest: map_injective)
qed

lemma length_string_bytes [simp]: "length (string_bytes s) = length s"
  by (simp add: string_bytes_def)

text \<open>A string constant in memory is its string.\<close>

lemma strcmp_eq_string:
  assumes "const_at l p (Bytes_Const (string_bytes s @ [0]))" and "c_name s" and "c_name s'"
  shows "strcmp_eq (li_memory l) p (string_bytes s') \<longleftrightarrow> s' = s"
  using strcmp_eq_bytes [of "li_memory l" p "string_bytes s" "string_bytes s'"] assms by simp

end
