(* ===== verification/Library_Builder.thy ===== *)
theory Library_Builder
  imports Struct_Layout Dispatch_Resources
begin

text \<open>
  The executable library that the compiler puts into every binary:
  \<open>plugins/compiler/hexagon/Target/LibraryBuilder.cpp\<close> and \<open>LibraryBuilder.h\<close>, and
  \<open>buildExecutableMetadata\<close> of \<open>Target/HexagonExecutableSerialization.cpp\<close>, which declares the
  exports with the resources measured for them. The module under construction is the list of
  initializers of its global variables; a new variable gets the next number.
\<close>

section \<open>Structure types\<close>

definition makeImportTableType :: abi_type where
  "makeImportTableType = Struct_Type [Int_Type 4, Ptr_Type]"

definition makeDispatchAttrsType :: abi_type where
  "makeDispatchAttrsType = Struct_Type [Int_Type 8, Int_Type 8, Int_Type 8]"

definition makeExportTableType :: abi_type where
  "makeExportTableType = Struct_Type [Int_Type 4, Ptr_Type, Ptr_Type, Ptr_Type]"

definition makeLibraryHeaderType :: abi_type where
  "makeLibraryHeaderType = Struct_Type [Int_Type 4]"

definition makeLibraryType :: abi_type where
  "makeLibraryType = Struct_Type [Ptr_Type, makeImportTableType, makeExportTableType]"

section \<open>Constants\<close>

type_synonym globals = "llvm_const list"

definition createStringConstant :: "string \<Rightarrow> globals \<Rightarrow> llvm_const \<times> globals" where
  "createStringConstant value gs = (Global_Const (length gs), gs @ [Bytes_Const (string_bytes value @ [0])])"

definition createArrayConstant :: "abi_type \<Rightarrow> llvm_const list \<Rightarrow> globals \<Rightarrow> llvm_const \<times> globals" where
  "createArrayConstant elementType elements gs = (Global_Const (length gs), gs @ [Array_Const elementType elements])"

fun createStrings :: "string list \<Rightarrow> globals \<Rightarrow> llvm_const list \<times> globals" where
  "createStrings [] gs = ([], gs)"
| "createStrings (s # ss) gs =
     (let (c, gs) = createStringConstant s gs; (cs, gs) = createStrings ss gs in (c # cs, gs))"

section \<open>The builder\<close>

definition VERSION_LATEST :: u32 where "VERSION_LATEST = 0x48580001"

record library_export =
  le_name :: string
  le_attrs :: dispatch_attrs
  le_func :: nat

record library_builder =
  lb_version :: u32
  lb_imports :: "(string \<times> bool) list"
  lb_exports :: "library_export list"

definition new_builder :: "u32 \<Rightarrow> library_builder" where
  "new_builder version = \<lparr>lb_version = version, lb_imports = [], lb_exports = []\<rparr>"

definition addImport :: "string \<Rightarrow> bool \<Rightarrow> library_builder \<Rightarrow> library_builder" where
  "addImport name weak b = b\<lparr>lb_imports := lb_imports b @ [(name, weak)]\<rparr>"

definition addExport :: "string \<Rightarrow> dispatch_attrs \<Rightarrow> nat \<Rightarrow> library_builder \<Rightarrow> library_builder" where
  "addExport name attrs func b = b\<lparr>lb_exports := lb_exports b @ [\<lparr>le_name = name, le_attrs = attrs, le_func = func\<rparr>]\<rparr>"

definition buildLibraryV0ImportTable :: "library_builder \<Rightarrow> globals \<Rightarrow> llvm_const \<times> globals" where
  "buildLibraryV0ImportTable b gs =
     (let (symbolNames, gs) =
        (if lb_imports b = [] then (Null_Const, gs)
         else let (values, gs) = createStrings (map (\<lambda>(name, weak). if weak then CHR ''?'' # name else name) (lb_imports b)) gs
              in createArrayConstant Ptr_Type values gs)
      in (Struct_Const [Int_Const 4 (of_nat (length (lb_imports b))), symbolNames], gs))"

definition buildLibraryV0ExportTable :: "library_builder \<Rightarrow> globals \<Rightarrow> llvm_const \<times> globals" where
  "buildLibraryV0ExportTable b gs =
     (let (exportPtrs, gs) = createArrayConstant Ptr_Type (map (Function_Const \<circ> le_func) (lb_exports b)) gs;
          attrValue = (\<lambda>e. Struct_Const [Int_Const 8 (hexagon_flags (le_attrs e)), Int_Const 8 (attr_vtcm_bytes (le_attrs e)),
            Int_Const 8 (dispatch_attrs.attr_threads (le_attrs e))]);
          (exportAttrs, gs) = createArrayConstant makeDispatchAttrsType (map attrValue (lb_exports b)) gs;
          (exportNames, gs) =
            (if lb_exports b = [] then (Null_Const, gs)
             else let (values, gs) = createStrings (map le_name (lb_exports b)) gs
                  in createArrayConstant Ptr_Type values gs)
      in (Struct_Const [Int_Const 4 (of_nat (length (lb_exports b))), exportPtrs, exportAttrs, exportNames], gs))"

definition buildLibraryV0 :: "library_builder \<Rightarrow> globals \<Rightarrow> llvm_const \<times> globals" where
  "buildLibraryV0 b gs =
     (let header = Global_Const (length gs);
          gs = gs @ [Struct_Const [Int_Const 4 (ucast (lb_version b))]];
          (imports, gs) = buildLibraryV0ImportTable b gs;
          (exports, gs) = buildLibraryV0ExportTable b gs
      in (Global_Const (length gs), gs @ [Struct_Const [header, imports, exports]]))"

text \<open>The query function: what it returns for the version it is asked for.\<close>

definition build_library :: "library_builder \<Rightarrow> globals \<Rightarrow> (u32 \<Rightarrow> llvm_const) \<times> globals" where
  "build_library b gs =
     (let (v0, gs) = buildLibraryV0 b gs
      in (\<lambda>max_version. if max_version = lb_version b then v0 else Null_Const, gs))"

section \<open>The exports of a variant\<close>

definition RESOURCES_VALID :: u64 where "RESOURCES_VALID = 1"
definition USES_HVX :: u64 where "USES_HVX = 2"
definition USES_HMX :: u64 where "USES_HMX = 4"

definition dispatch_attrs_of :: "dispatch_resources_attr option \<Rightarrow> dispatch_attrs" where
  "dispatch_attrs_of resources =
     (case resources of
        None \<Rightarrow> \<lparr>hexagon_flags = 0, attr_vtcm_bytes = 0, dispatch_attrs.attr_threads = 1\<rparr>
      | Some r \<Rightarrow>
          \<lparr>hexagon_flags = RESOURCES_VALID OR (if attr_hvx r then USES_HVX else 0) OR (if attr_hmx r then USES_HMX else 0),
           attr_vtcm_bytes = word_of_int (attr_vtcmBytes r),
           dispatch_attrs.attr_threads = word_of_int (dispatch_resources_attr.attr_threads r)\<rparr>)"

text \<open>
  A variant as far as it matters here: its imports attribute and its exports with the resources
  attribute. \<open>getFunction\<close> is the symbol table of the LLVM module.
\<close>

record executable_variant =
  va_imports :: "(string \<times> bool) list option"
  va_exports :: "(string \<times> dispatch_resources_attr option) list"

fun declare_exports ::
  "(string \<Rightarrow> nat option) \<Rightarrow> (string \<times> dispatch_resources_attr option) list \<Rightarrow> library_builder \<Rightarrow> library_builder" where
  "declare_exports getFunction [] b = b"
| "declare_exports getFunction ((name, resources) # es) b =
     declare_exports getFunction es
       (case getFunction name of
          None \<Rightarrow> b
        | Some llvmFunc \<Rightarrow> addExport name (dispatch_attrs_of resources) llvmFunc b)"

definition buildExecutableMetadata ::
  "(string \<Rightarrow> nat option) \<Rightarrow> executable_variant \<Rightarrow> globals \<Rightarrow> (u32 \<Rightarrow> llvm_const) \<times> globals" where
  "buildExecutableMetadata getFunction variant gs =
     (let b = new_builder VERSION_LATEST;
          b = fold (\<lambda>(name, weak). addImport name weak) (case va_imports variant of None \<Rightarrow> [] | Some is \<Rightarrow> is) b;
          b = declare_exports getFunction (va_exports variant) b
      in build_library b gs)"

section \<open>The module that is built\<close>

definition string_consts :: "string list \<Rightarrow> globals" where
  "string_consts ss = map (\<lambda>s. Bytes_Const (string_bytes s @ [0])) ss"

lemma length_string_consts [simp]: "length (string_consts ss) = length ss"
  by (simp add: string_consts_def)

lemma createStrings_eq:
  "createStrings ss gs = (map Global_Const [length gs..<length gs + length ss], gs @ string_consts ss)"
  by (induction ss arbitrary: gs)
    (simp_all add: createStringConstant_def string_consts_def upt_conv_Cons del: upt_Suc)

definition attr_const :: "dispatch_attrs \<Rightarrow> llvm_const" where
  "attr_const a = Struct_Const [Int_Const 8 (hexagon_flags a), Int_Const 8 (attr_vtcm_bytes a),
     Int_Const 8 (dispatch_attrs.attr_threads a)]"

lemma attr_const_type [simp]: "const_type (attr_const a) = makeDispatchAttrsType"
  by (simp add: attr_const_def makeDispatchAttrsType_def)

definition import_globals :: "library_builder \<Rightarrow> nat \<Rightarrow> globals" where
  "import_globals b n =
     (if lb_imports b = [] then []
      else string_consts (map (\<lambda>(name, weak). if weak then CHR ''?'' # name else name) (lb_imports b)) @
        [Array_Const Ptr_Type (map Global_Const [n..<n + length (lb_imports b)])])"

definition export_globals :: "library_builder \<Rightarrow> nat \<Rightarrow> globals" where
  "export_globals b n =
     [Array_Const Ptr_Type (map (Function_Const \<circ> le_func) (lb_exports b)),
      Array_Const makeDispatchAttrsType (map (attr_const \<circ> le_attrs) (lb_exports b))] @
     (if lb_exports b = [] then []
      else string_consts (map le_name (lb_exports b)) @
        [Array_Const Ptr_Type (map Global_Const [n + 2..<n + 2 + length (lb_exports b)])])"

definition import_table :: "library_builder \<Rightarrow> nat \<Rightarrow> llvm_const" where
  "import_table b n = Struct_Const [Int_Const 4 (of_nat (length (lb_imports b))),
     if lb_imports b = [] then Null_Const else Global_Const (n + length (lb_imports b))]"

definition export_table :: "library_builder \<Rightarrow> nat \<Rightarrow> llvm_const" where
  "export_table b n = Struct_Const [Int_Const 4 (of_nat (length (lb_exports b))), Global_Const n, Global_Const (n + 1),
     if lb_exports b = [] then Null_Const else Global_Const (n + 2 + length (lb_exports b))]"

lemma buildLibraryV0ImportTable_eq:
  "buildLibraryV0ImportTable b gs = (import_table b (length gs), gs @ import_globals b (length gs))"
  by (simp add: buildLibraryV0ImportTable_def createStrings_eq createArrayConstant_def import_table_def import_globals_def)

lemma buildLibraryV0ExportTable_eq:
  "buildLibraryV0ExportTable b gs = (export_table b (length gs), gs @ export_globals b (length gs))"
  by (simp add: buildLibraryV0ExportTable_def createStrings_eq createArrayConstant_def export_table_def export_globals_def
      attr_const_def comp_def)

definition library_globals :: "library_builder \<Rightarrow> nat \<Rightarrow> globals" where
  "library_globals b n =
     (let is = import_globals b (n + 1); k = n + 1 + length is; es = export_globals b k
      in [Struct_Const [Int_Const 4 (ucast (lb_version b))]] @ is @ es @
         [Struct_Const [Global_Const n, import_table b (n + 1), export_table b k]])"

lemma buildLibraryV0_eq:
  "buildLibraryV0 b gs =
     (Global_Const (length gs + length (library_globals b (length gs)) - 1), gs @ library_globals b (length gs))"
  by (simp add: buildLibraryV0_def buildLibraryV0ImportTable_eq buildLibraryV0ExportTable_eq library_globals_def Let_def)

text \<open>The exports with a function, and no others, in order.\<close>

definition declared_exports ::
  "(string \<Rightarrow> nat option) \<Rightarrow> (string \<times> dispatch_resources_attr option) list \<Rightarrow> library_export list" where
  "declared_exports getFunction es =
     map (\<lambda>(name, r). \<lparr>le_name = name, le_attrs = dispatch_attrs_of r, le_func = the (getFunction name)\<rparr>)
       (filter (\<lambda>(name, r). getFunction name \<noteq> None) es)"

lemma declare_exports_eq:
  "declare_exports getFunction es b = b\<lparr>lb_exports := lb_exports b @ declared_exports getFunction es\<rparr>"
  by (induction getFunction es b rule: declare_exports.induct)
    (auto simp: declared_exports_def addExport_def split: option.splits)

lemma addImports_eq: "fold (\<lambda>(name, weak). addImport name weak) is b = b\<lparr>lb_imports := lb_imports b @ is\<rparr>"
  by (induction "is" arbitrary: b) (auto simp: addImport_def)

definition variant_builder :: "(string \<Rightarrow> nat option) \<Rightarrow> executable_variant \<Rightarrow> library_builder" where
  "variant_builder getFunction variant =
     \<lparr>lb_version = VERSION_LATEST, lb_imports = (case va_imports variant of None \<Rightarrow> [] | Some is \<Rightarrow> is),
      lb_exports = declared_exports getFunction (va_exports variant)\<rparr>"

lemma buildExecutableMetadata_eq:
  "buildExecutableMetadata getFunction variant gs = build_library (variant_builder getFunction variant) gs"
  by (simp add: buildExecutableMetadata_def addImports_eq declare_exports_eq new_builder_def variant_builder_def)

end
