(* ===== verification/Dsp_Executable.thy ===== *)
theory Dsp_Executable
  imports Library_Builder
begin

text \<open>
  Executables on the DSP: \<open>plugins/runtime/hexagon/dsp/executable.c\<close> with the structures of
  \<open>dsp/rt/executable_library.h\<close>. An executable is loaded from a shared library, whose tables the
  runtime reads through C structures; functions are looked up by name and then used by the handle,
  which is their address. What the compiler builds and what the runtime reads meet here.

  The C allocator, the dynamic loader and the call of the query function are the parameter
  \<open>loader_env\<close>, and so is the memory the loaded libraries lie in. The heap state holds the live
  blocks, the open libraries, and the two kinds of structures of this file at their addresses.
\<close>

section \<open>The structures of the interface\<close>

definition HEXAGON_EXECUTABLE_LIBRARY_VERSION_LATEST :: u32 where
  "HEXAGON_EXECUTABLE_LIBRARY_VERSION_LATEST = 0x48580001"

definition HEXAGON_EXECUTABLE_LIBRARY_EXPORT_NAME :: string where
  "HEXAGON_EXECUTABLE_LIBRARY_EXPORT_NAME = ''hexagon_executable_library_query''"

definition library_header_t :: abi_type where "library_header_t = Struct_Type [Int_Type 4]"
definition import_table_t :: abi_type where "import_table_t = Struct_Type [Int_Type 4, Ptr_Type]"
definition environment_t :: abi_type where "environment_t = Struct_Type [Ptr_Type]"

definition dispatch_attrs_t :: abi_type where
  "dispatch_attrs_t = Struct_Type [Int_Type 8, Int_Type 8, Int_Type 8]"

definition export_table_t :: abi_type where
  "export_table_t = Struct_Type [Int_Type 4, Ptr_Type, Ptr_Type, Ptr_Type]"

definition library_t :: abi_type where
  "library_t = Struct_Type [Ptr_Type, import_table_t, export_table_t]"

text \<open>\<open>hexagon_dsp_executable_t\<close> and \<open>hexagon_dsp_function_t\<close>; the library is a union of two pointers.\<close>

definition executable_t :: abi_type where
  "executable_t = Struct_Type [Int_Type 8, Ptr_Type, Ptr_Type, Ptr_Type, Ptr_Type, environment_t, Ptr_Type, Int_Type 4]"

definition function_t :: abi_type where
  "function_t = Struct_Type [Ptr_Type, Ptr_Type, Ptr_Type, Ptr_Type]"

section \<open>State\<close>

record loaded_executable =
  ex_rpc_handle :: u64
  ex_name :: usize
  ex_shlib :: usize
  ex_query_func :: usize
  ex_library :: usize
  ex_functions :: usize
  ex_function_count :: u32

record function_entry =
  fe_executable :: usize
  fe_dispatch_func :: usize
  fe_name :: usize
  fe_attrs :: usize

record dsp_heap =
  hp_blocks :: "(usize \<times> nat) list"
  hp_libraries :: "usize list"
  hp_executables :: "usize \<Rightarrow> loaded_executable option"
  hp_functions :: "usize \<Rightarrow> function_entry option"

record loader_env =
  lo_memory :: memory
  lo_calloc :: "dsp_heap \<Rightarrow> nat \<Rightarrow> usize"
  lo_strdup :: "dsp_heap \<Rightarrow> string \<Rightarrow> usize"
  lo_dlopen :: "dsp_heap \<Rightarrow> string \<Rightarrow> usize"
  lo_dlsym :: "usize \<Rightarrow> string \<Rightarrow> usize"
  lo_call_query :: "usize \<Rightarrow> u32 \<Rightarrow> usize \<Rightarrow> usize"

definition add_block :: "usize \<Rightarrow> nat \<Rightarrow> dsp_heap \<Rightarrow> dsp_heap" where
  "add_block p n h = h\<lparr>hp_blocks := (p, n) # hp_blocks h\<rparr>"

definition free_block :: "usize \<Rightarrow> dsp_heap \<Rightarrow> dsp_heap" where
  "free_block p h = (if p = 0 then h else h\<lparr>hp_blocks := filter (\<lambda>(a, n). a \<noteq> p) (hp_blocks h)\<rparr>)"

section \<open>Loading\<close>

definition function_addresses :: "usize \<Rightarrow> nat \<Rightarrow> usize list" where
  "function_addresses base n = map (\<lambda>i. base + of_nat (i * type_size function_t)) [0..<n]"

text \<open>Entry \<open>i\<close> of the export table of a library.\<close>

definition export_entry :: "memory \<Rightarrow> usize \<Rightarrow> usize \<Rightarrow> nat \<Rightarrow> function_entry" where
  "export_entry m executable library i =
     (let ptrs = load m (library + of_nat (offset_of library_t [2, 1])) 4;
          attrs = load m (library + of_nat (offset_of library_t [2, 2])) 4;
          names = load m (library + of_nat (offset_of library_t [2, 3])) 4
      in \<lparr>fe_executable = executable, fe_dispatch_func = load m (ptrs + of_nat (i * 4)) 4,
          fe_name = load m (names + of_nat (i * 4)) 4,
          fe_attrs = (if attrs \<noteq> 0 then attrs + of_nat (i * type_size dispatch_attrs_t) else 0)\<rparr>)"

definition set_up_functions ::
  "loader_env \<Rightarrow> usize \<Rightarrow> loaded_executable \<Rightarrow> dsp_heap \<Rightarrow> aee \<times> loaded_executable \<times> dsp_heap" where
  "set_up_functions env address ex h =
     (let m = lo_memory env; library = ex_library ex;
          count = (load m (library + of_nat (offset_of library_t [2, 0])) 4 :: u32);
          names = (load m (library + of_nat (offset_of library_t [2, 3])) 4 :: usize)
      in if count = 0 then (AEE_SUCCESS, ex, h)
         else if names = 0 then (AEE_EUNSUPPORTED, ex, h)
         else let functions = lo_calloc env h (unat count * type_size function_t)
              in if functions = 0 then (AEE_ENOMEMORY, ex, h)
                 else (AEE_SUCCESS, ex\<lparr>ex_functions := functions, ex_function_count := count\<rparr>,
                   (add_block functions (unat count * type_size function_t) h)\<lparr>hp_functions := hp_functions h ++
                      map_of (zip (function_addresses functions (unat count))
                        (map (export_entry m address library) [0..<unat count]))\<rparr>))"

text \<open>
  \<open>hexagon_dsp_executable_set_up\<close> in two parts: the name and the shared library, and what follows
  once the library is open.
\<close>

definition set_up_library ::
  "loader_env \<Rightarrow> usize \<Rightarrow> loaded_executable \<Rightarrow> dsp_heap \<Rightarrow> aee \<times> loaded_executable \<times> dsp_heap" where
  "set_up_library env address ex h =
     (let query = lo_dlsym env (ex_shlib ex) HEXAGON_EXECUTABLE_LIBRARY_EXPORT_NAME
      in if query = 0 then (AEE_ERESOURCENOTFOUND, ex, h)
         else
      let ex = ex\<lparr>ex_query_func := query\<rparr>;
          library = lo_call_query env query HEXAGON_EXECUTABLE_LIBRARY_VERSION_LATEST
            (address + of_nat (offset_of executable_t [5]))
      in if library = 0 then (AEE_EUNSUPPORTED, ex, h)
         else
      let ex = ex\<lparr>ex_library := library\<rparr>; m = lo_memory env;
          header = load m library 4;
          version = load m (header + of_nat (offset_of library_header_t [0])) 4
      in if version \<noteq> HEXAGON_EXECUTABLE_LIBRARY_VERSION_LATEST then (AEE_EVERSIONNOTSUPPORT, ex, h)
         else if (load m (library + of_nat (offset_of library_t [1, 0])) 4 :: u32) \<noteq> 0 then (AEE_EUNSUPPORTED, ex, h)
         else set_up_functions env address ex h)"

definition set_up ::
  "loader_env \<Rightarrow> usize \<Rightarrow> string \<Rightarrow> loaded_executable \<Rightarrow> dsp_heap \<Rightarrow> aee \<times> loaded_executable \<times> dsp_heap" where
  "set_up env address name ex h =
     (let copy = lo_strdup env h name
      in if copy = 0 then (AEE_ENOMEMORY, ex, h)
         else
      let ex = ex\<lparr>ex_name := copy\<rparr>; h = add_block copy (length name + 1) h;
          shlib = lo_dlopen env h name
      in if shlib = 0 then (AEE_EUNABLETOLOAD, ex, h)
         else set_up_library env address (ex\<lparr>ex_shlib := shlib\<rparr>) (h\<lparr>hp_libraries := shlib # hp_libraries h\<rparr>))"

text \<open>The memory of an executable is zeroed when it is allocated.\<close>

definition new_executable :: "u64 \<Rightarrow> loaded_executable" where
  "new_executable rpc_handle = \<lparr>ex_rpc_handle = rpc_handle, ex_name = 0, ex_shlib = 0, ex_query_func = 0,
     ex_library = 0, ex_functions = 0, ex_function_count = 0\<rparr>"

text \<open>Closing an executable at an address: \<open>dlclose\<close>, then the three blocks.\<close>

definition close_executable :: "usize \<Rightarrow> loaded_executable \<Rightarrow> dsp_heap \<Rightarrow> dsp_heap" where
  "close_executable address ex h =
     (let h = (if ex_shlib ex \<noteq> 0 then h\<lparr>hp_libraries := remove1 (ex_shlib ex) (hp_libraries h)\<rparr> else h);
          freed = set (function_addresses (ex_functions ex) (unat (ex_function_count ex)));
          h = (free_block (ex_functions ex) h)\<lparr>hp_functions := (\<lambda>p. if p \<in> freed then None else hp_functions h p)\<rparr>;
          h = free_block (ex_name ex) h
      in (free_block address h)\<lparr>hp_executables := (hp_executables h)(address := None)\<rparr>)"

definition executable_load :: "loader_env \<Rightarrow> u64 \<Rightarrow> string \<Rightarrow> dsp_heap \<Rightarrow> (aee + i64) \<times> dsp_heap" where
  "executable_load env rpc_handle name h =
     (let address = lo_calloc env h (type_size executable_t)
      in if address = 0 then (Inl AEE_ENOMEMORY, h)
         else
      let h = add_block address (type_size executable_t) h
      in case set_up env address name (new_executable rpc_handle) h of (err, ex, h) \<Rightarrow>
           if err \<noteq> AEE_SUCCESS then (Inl err, close_executable address ex h)
           else (Inr (ucast address), h\<lparr>hp_executables := (hp_executables h)(address \<mapsto> ex)\<rparr>))"

definition executable_close :: "i64 \<Rightarrow> dsp_heap \<Rightarrow> fault + aee \<times> dsp_heap" where
  "executable_close handle h =
     (case hp_executables h (ucast handle) of
        None \<Rightarrow> Inl Crashed
      | Some ex \<Rightarrow> Inr (AEE_SUCCESS, close_executable (ucast handle) ex h))"

section \<open>Functions\<close>

fun lookup_from :: "loader_env \<Rightarrow> dsp_heap \<Rightarrow> string \<Rightarrow> usize list \<Rightarrow> fault + (aee + i64)" where
  "lookup_from env h name [] = Inr (Inl AEE_ERESOURCENOTFOUND)"
| "lookup_from env h name (p # ps) =
     (case hp_functions h p of
        None \<Rightarrow> Inl Crashed
      | Some f \<Rightarrow>
          if fe_name f \<noteq> 0 \<and> strcmp_eq (lo_memory env) (fe_name f) (string_bytes name) then Inr (Inr (ucast p))
          else lookup_from env h name ps)"

definition lookup_function :: "loader_env \<Rightarrow> i64 \<Rightarrow> string \<Rightarrow> dsp_heap \<Rightarrow> fault + (aee + i64)" where
  "lookup_function env handle name h =
     (if handle = 0 then Inr (Inl AEE_EBADPARM)
      else case hp_executables h (ucast handle) of
        None \<Rightarrow> Inl Crashed
      | Some ex \<Rightarrow> lookup_from env h name (function_addresses (ex_functions ex) (unat (ex_function_count ex))))"

text \<open>\<open>hexagon_dsp_function_get_dispatch_func\<close>, \<open>_get_environment\<close>, \<open>_get_name\<close>, \<open>_get_attrs\<close>.\<close>

definition get_dispatch_func :: "function_entry \<Rightarrow> usize" where
  "get_dispatch_func f = fe_dispatch_func f"

definition get_environment :: "function_entry \<Rightarrow> usize" where
  "get_environment f = fe_executable f + of_nat (offset_of executable_t [5])"

definition get_name :: "function_entry \<Rightarrow> usize" where
  "get_name f = fe_name f"

definition get_attrs :: "function_entry \<Rightarrow> usize" where
  "get_attrs f = fe_attrs f"

text \<open>The attributes that the scheduler reads through the pointer.\<close>

definition attrs_at :: "memory \<Rightarrow> usize \<Rightarrow> dispatch_attrs option" where
  "attrs_at m p =
     (if p = 0 then None
      else Some \<lparr>hexagon_flags = load m (p + of_nat (offset_of dispatch_attrs_t [0])) 8,
        attr_vtcm_bytes = load m (p + of_nat (offset_of dispatch_attrs_t [1])) 8,
        dispatch_attrs.attr_threads = load m (p + of_nat (offset_of dispatch_attrs_t [2])) 8\<rparr>)"

end
