(* ===== verification/Built_Library.thy ===== *)
theory Built_Library
  imports Dsp_Executable
begin

text \<open>
  What the runtime reads in a library that the compiler built and the linker placed: the layouts of
  both sides agree, and every read of the loader returns what the builder wrote.
\<close>

section \<open>Layout\<close>

lemma layout_agrees:
  "library_header_t = makeLibraryHeaderType" "import_table_t = makeImportTableType"
  "export_table_t = makeExportTableType" "dispatch_attrs_t = makeDispatchAttrsType" "library_t = makeLibraryType"
  by (simp_all add: library_header_t_def makeLibraryHeaderType_def import_table_t_def makeImportTableType_def
      export_table_t_def makeExportTableType_def dispatch_attrs_t_def makeDispatchAttrsType_def library_t_def makeLibraryType_def)

lemma library_offsets:
  "offset_of library_t [1, 0] = 4" "offset_of library_t [2, 0] = 12" "offset_of library_t [2, 1] = 16"
  "offset_of library_t [2, 2] = 20" "offset_of library_t [2, 3] = 24" "offset_of library_header_t [0] = 0"
  by (simp_all add: library_t_def import_table_t_def export_table_t_def library_header_t_def round_up_def)

lemma structure_sizes:
  "type_size function_t = 16" "type_size dispatch_attrs_t = 24" "type_size executable_t = 40"
  "offset_of executable_t [5] = 24" "type_size library_t = 28"
  by (simp_all add: function_t_def dispatch_attrs_t_def executable_t_def environment_t_def library_t_def
      import_table_t_def export_table_t_def round_up_def)

lemma attrs_offsets:
  "offset_of dispatch_attrs_t [0] = 0" "offset_of dispatch_attrs_t [1] = 8" "offset_of dispatch_attrs_t [2] = 16"
  by (simp_all add: dispatch_attrs_t_def round_up_def)

text \<open>
  The environment of an executable lies 24 bytes into a block, so it is never at a multiple of 16
  when the block is.
\<close>

lemma environment_misaligned:
  assumes "unat address mod 16 = 0" and "unat address + 40 \<le> 2 ^ 32"
  shows "unat (get_environment \<lparr>fe_executable = address, fe_dispatch_func = f, fe_name = n, fe_attrs = a\<rparr>) mod 16 = 8"
proof -
  have "unat (address + 24) = unat address + 24"
    using assms(2) by (simp add: unat_plus_if')
  then show ?thesis using assms(1) by (simp add: get_environment_def structure_sizes) presburger
qed

section \<open>Reading a built library\<close>

definition library_address :: "linked \<Rightarrow> library_builder \<Rightarrow> globals \<Rightarrow> usize" where
  "library_address l b gs = li_global l (length gs + length (library_globals b (length gs)) - 1)"

lemma library_globals_last:
  "library_globals b n = butlast (library_globals b n) @
     [Struct_Const [Global_Const n, import_table b (n + 1), export_table b (n + 1 + length (import_globals b (n + 1)))]]"
  by (simp add: library_globals_def Let_def butlast_append)

text \<open>The number of the first variable of the export tables.\<close>

definition exports_index :: "library_builder \<Rightarrow> globals \<Rightarrow> nat" where
  "exports_index b gs = length gs + 1 + length (import_globals b (length gs + 1))"

lemma global:
  assumes img: "linked_ok l (gs @ library_globals b (length gs))" and "i < length (library_globals b (length gs))" and "library_globals b (length gs) ! i = c"
  shows "li_global l (length gs + i) \<noteq> 0" "const_at l (li_global l (length gs + i)) c"
    "unat (li_global l (length gs + i)) + const_size c \<le> 2 ^ 32"
  using linked_okD [OF img, of "length gs + i"] assms(2,3) by (simp_all add: nth_append)

lemma library_const:
  assumes img: "linked_ok l (gs @ library_globals b (length gs))"
  shows "library_address l b gs \<noteq> 0"
    and "const_at l (library_address l b gs) (Struct_Const [Global_Const (length gs), import_table b (length gs + 1), export_table b (exports_index b gs)])"
proof -
  let ?k = "length (library_globals b (length gs)) - 1"
  have k: "?k < length (library_globals b (length gs))" by (simp add: library_globals_def Let_def)
  have "library_globals b (length gs) ! ?k =
      Struct_Const [Global_Const (length gs), import_table b (length gs + 1), export_table b (exports_index b gs)]"
    by (simp add: exports_index_def library_globals_def Let_def nth_append)
  note g = global [OF img k this]
  have "library_address l b gs = li_global l (length gs + ?k)" using k by (simp add: library_address_def)
  with g show "library_address l b gs \<noteq> 0"
    "const_at l (library_address l b gs) (Struct_Const [Global_Const (length gs), import_table b (length gs + 1), export_table b (exports_index b gs)])"
    by simp_all
qed

lemma ucast_length: "(ucast (of_nat n :: u64) :: u32) = of_nat n"
  by (simp add: unsigned_of_nat word_of_nat_eq_iff)

lemma ucast_ucast_u32: "(ucast (ucast (v :: u32) :: u64) :: u32) = v"
  by (rule bit_word_eqI) (simp add: bit_ucast_iff)

lemma library_reads:
  assumes img: "linked_ok l (gs @ library_globals b (length gs))"
  shows "load (li_memory l) (library_address l b gs) 4 = li_global l (length gs)"
  "load (li_memory l) (library_address l b gs + 4) 4 = (of_nat (length (lb_imports b)) :: u32)"
  "load (li_memory l) (library_address l b gs + 12) 4 = (of_nat (length (lb_exports b)) :: u32)"
  "load (li_memory l) (library_address l b gs + 16) 4 = li_global l (exports_index b gs)"
  "load (li_memory l) (library_address l b gs + 20) 4 = li_global l (exports_index b gs + 1)"
  "load (li_memory l) (library_address l b gs + 24) 4 = (if lb_exports b = [] then 0 else li_global l (exports_index b gs + 2 + length (lb_exports b)))"
proof -
  note c = library_const(2) [OF img, unfolded import_table_def export_table_def]
  have "const_at l (library_address l b gs) (Global_Const (length gs))" "const_at l (library_address l b gs + 4) (Int_Const 4 (of_nat (length (lb_imports b))))"
    "const_at l (library_address l b gs + 12) (Int_Const 4 (of_nat (length (lb_exports b))))" "const_at l (library_address l b gs + 16) (Global_Const (exports_index b gs))"
    "const_at l (library_address l b gs + 20) (Global_Const (exports_index b gs + 1))"
    "const_at l (library_address l b gs + 24) (if lb_exports b = [] then Null_Const else Global_Const (exports_index b gs + 2 + length (lb_exports b)))"
    using c by (simp_all add: round_up_def ac_simps split: if_splits)
  then show "load (li_memory l) (library_address l b gs) 4 = li_global l (length gs)"
    "load (li_memory l) (library_address l b gs + 4) 4 = (of_nat (length (lb_imports b)) :: u32)"
    "load (li_memory l) (library_address l b gs + 12) 4 = (of_nat (length (lb_exports b)) :: u32)"
    "load (li_memory l) (library_address l b gs + 16) 4 = li_global l (exports_index b gs)"
    "load (li_memory l) (library_address l b gs + 20) 4 = li_global l (exports_index b gs + 1)"
    "load (li_memory l) (library_address l b gs + 24) 4 = (if lb_exports b = [] then 0 else li_global l (exports_index b gs + 2 + length (lb_exports b)))"
    by (auto simp: load_const load_i32 ucast_length simp del: const_at.simps)
qed

text \<open>The variables that the tables point to.\<close>

lemma header_version:
  assumes img: "linked_ok l (gs @ library_globals b (length gs))"
  shows "load (li_memory l) (load (li_memory l) (library_address l b gs) 4) 4 = lb_version b"
proof -
  have "const_at l (li_global l (length gs + 0)) (Struct_Const [Int_Const 4 (ucast (lb_version b))])"
    by (rule global(2) [OF img]) (simp_all add: library_globals_def Let_def)
  then have "const_at l (li_global l (length gs)) (Int_Const 4 (ucast (lb_version b)))"
    by (simp add: round_up_def)
  then show ?thesis by (simp only: library_reads [OF img] load_i32 ucast_ucast_u32)
qed

lemma export_global:
  assumes img: "linked_ok l (gs @ library_globals b (length gs))" and "i < length (export_globals b (exports_index b gs))" and "export_globals b (exports_index b gs) ! i = c"
  shows "li_global l (exports_index b gs + i) \<noteq> 0" "const_at l (li_global l (exports_index b gs + i)) c"
    "unat (li_global l (exports_index b gs + i)) + const_size c \<le> 2 ^ 32"
proof -
  let ?i = "1 + length (import_globals b (length gs + 1)) + i"
  have "?i < length (library_globals b (length gs))" "library_globals b (length gs) ! ?i = c"
    using assms(2,3) by (simp_all add: exports_index_def library_globals_def Let_def nth_append)
  from global [OF img this] show "li_global l (exports_index b gs + i) \<noteq> 0" "const_at l (li_global l (exports_index b gs + i)) c"
    "unat (li_global l (exports_index b gs + i)) + const_size c \<le> 2 ^ 32"
    by (simp_all add: exports_index_def add.assoc)
qed

lemma export_reads:
  assumes img: "linked_ok l (gs @ library_globals b (length gs))" and i: "i < length (lb_exports b)" and e: "lb_exports b ! i = e"
  shows "load (li_memory l) (li_global l (exports_index b gs) + of_nat (i * 4)) 4 = li_function l (le_func e)"
    and "const_at l (li_global l (exports_index b gs + 1) + of_nat (i * 24)) (attr_const (le_attrs e))"
    and "load (li_memory l) (li_global l (exports_index b gs + 2 + length (lb_exports b)) + of_nat (i * 4)) 4 = li_global l (exports_index b gs + 2 + i)"
    and "li_global l (exports_index b gs + 2 + i) \<noteq> 0"
    and "const_at l (li_global l (exports_index b gs + 2 + i)) (Bytes_Const (string_bytes (le_name e) @ [0]))"
    and "li_global l (exports_index b gs + 1) \<noteq> 0" and "li_global l (exports_index b gs + 2 + length (lb_exports b)) \<noteq> 0"
proof -
  from i have ne: "lb_exports b \<noteq> []" by auto
  have "const_at l (li_global l (exports_index b gs + 0)) (Array_Const Ptr_Type (map (Function_Const \<circ> le_func) (lb_exports b)))"
    by (rule export_global(2) [OF img]) (simp_all add: export_globals_def)
  then have "elements_at l (li_global l (exports_index b gs)) 4 (map (Function_Const \<circ> le_func) (lb_exports b))" by simp
  from elements_atD [OF this, of i] i e
  show "load (li_memory l) (li_global l (exports_index b gs) + of_nat (i * 4)) 4 = li_function l (le_func e)"
    by (auto intro: load_const simp: mult.commute)
next
  have "const_at l (li_global l (exports_index b gs + 1)) (Array_Const makeDispatchAttrsType (map (attr_const \<circ> le_attrs) (lb_exports b)))"
    by (rule export_global(2) [OF img]) (simp_all add: export_globals_def)
  then have "elements_at l (li_global l (exports_index b gs + 1)) 24 (map (attr_const \<circ> le_attrs) (lb_exports b))"
    by (simp add: layout_agrees [symmetric] structure_sizes)
  from elements_atD [OF this, of i] i e
  show "const_at l (li_global l (exports_index b gs + 1) + of_nat (i * 24)) (attr_const (le_attrs e))"
    by (simp add: mult.commute)
next
  have "const_at l (li_global l (exports_index b gs + (2 + length (lb_exports b))))
      (Array_Const Ptr_Type (map Global_Const [exports_index b gs + 2..<exports_index b gs + 2 + length (lb_exports b)]))"
    by (rule export_global(2) [OF img]) (use i in \<open>auto simp: export_globals_def nth_append\<close>)
  then have "elements_at l (li_global l (exports_index b gs + 2 + length (lb_exports b))) 4
      (map Global_Const [exports_index b gs + 2..<exports_index b gs + 2 + length (lb_exports b)])" by (simp add: add.assoc)
  from elements_atD [OF this, of i] i
  have "const_at l (li_global l (exports_index b gs + 2 + length (lb_exports b)) + of_nat (i * 4)) (Global_Const (exports_index b gs + 2 + i))"
    by (simp add: mult.commute del: const_at.simps upt_Suc)
  then show "load (li_memory l) (li_global l (exports_index b gs + 2 + length (lb_exports b)) + of_nat (i * 4)) 4 = li_global l (exports_index b gs + 2 + i)"
    by (rule load_const)
next
  have *: "2 + i < length (export_globals b (exports_index b gs))"
    "export_globals b (exports_index b gs) ! (2 + i) = Bytes_Const (string_bytes (le_name e) @ [0])"
    using i e by (auto simp: export_globals_def nth_append string_consts_def)
  from export_global [OF img *] show "li_global l (exports_index b gs + 2 + i) \<noteq> 0"
    "const_at l (li_global l (exports_index b gs + 2 + i)) (Bytes_Const (string_bytes (le_name e) @ [0]))"
    by (simp_all add: add.assoc)
next
  show "li_global l (exports_index b gs + 1) \<noteq> 0" by (rule export_global(1) [OF img]) (auto simp: export_globals_def)
next
  have "2 + length (lb_exports b) < length (export_globals b (exports_index b gs))" using i by (auto simp: export_globals_def)
  from export_global(1) [OF img this refl] show "li_global l (exports_index b gs + 2 + length (lb_exports b)) \<noteq> 0"
    by (simp add: add.assoc)
qed

text \<open>The pointer to the attributes of an export does not wrap to null.\<close>

lemma attrs_pointer:
  assumes img: "linked_ok l (gs @ library_globals b (length gs))" and i: "i < length (lb_exports b)"
  shows "li_global l (exports_index b gs + 1) + of_nat (i * 24) \<noteq> 0"
proof -
  let ?p = "li_global l (exports_index b gs + 1)"
  have c: "1 < length (export_globals b (exports_index b gs))"
    "export_globals b (exports_index b gs) ! 1 = Array_Const makeDispatchAttrsType (map (attr_const \<circ> le_attrs) (lb_exports b))"
    by (simp_all add: export_globals_def)
  from export_global [OF img c] have "?p \<noteq> 0" "unat ?p + 24 * length (lb_exports b) \<le> 2 ^ 32"
    by (simp_all add: layout_agrees [symmetric] structure_sizes)
  with i have p: "0 < unat ?p" "unat ?p + i * 24 < 2 ^ LENGTH(32)" by (simp_all add: unat_gt_0)
  then have "unat (of_nat (i * 24) :: usize) = i * 24"
    unfolding unat_of_nat by (intro mod_less) linarith
  with p have "unat (?p + of_nat (i * 24)) = unat ?p + i * 24" by (metis unat_add_lem)
  with p(1) show ?thesis by (metis add_is_0 less_irrefl unat_0)
qed

lemma attrs_read:
  assumes "const_at l p (attr_const a)" and "p \<noteq> 0"
  shows "attrs_at (li_memory l) p = Some a"
proof -
  have "const_at l p (Int_Const 8 (hexagon_flags a))" "const_at l (p + 8) (Int_Const 8 (attr_vtcm_bytes a))"
    "const_at l (p + 16) (Int_Const 8 (dispatch_attrs.attr_threads a))"
    using assms(1) by (simp_all add: attr_const_def round_up_def)
  with assms(2) show ?thesis unfolding attrs_at_def attrs_offsets by (simp add: load_const(1) del: const_at.simps)
qed

text \<open>Entry \<open>i\<close> of the function table stands for export \<open>i\<close>.\<close>

definition entry_ok :: "linked \<Rightarrow> library_export \<Rightarrow> usize \<Rightarrow> function_entry \<Rightarrow> bool" where
  "entry_ok l e a f \<longleftrightarrow> fe_executable f = a \<and> fe_dispatch_func f = li_function l (le_func e) \<and> fe_name f \<noteq> 0 \<and>
     const_at l (fe_name f) (Bytes_Const (string_bytes (le_name e) @ [0])) \<and>
     attrs_at (li_memory l) (fe_attrs f) = Some (le_attrs e)"

lemma export_entry_ok:
  assumes img: "linked_ok l (gs @ library_globals b (length gs))" and i: "i < length (lb_exports b)"
  shows "entry_ok l (lb_exports b ! i) a (export_entry (li_memory l) a (library_address l b gs) i)"
proof -
  have "lb_exports b \<noteq> []" using i by auto
  then have eqs: "load (li_memory l) (library_address l b gs + of_nat (offset_of library_t [2, 1])) 4 = li_global l (exports_index b gs)"
    "load (li_memory l) (library_address l b gs + of_nat (offset_of library_t [2, 2])) 4 = li_global l (exports_index b gs + 1)"
    "load (li_memory l) (library_address l b gs + of_nat (offset_of library_t [2, 3])) 4 =
       li_global l (exports_index b gs + 2 + length (lb_exports b))"
    unfolding library_offsets of_nat_numeral by (simp_all only: library_reads [OF img] if_False)
  note r = export_reads [OF img i refl]
  have "export_entry (li_memory l) a (library_address l b gs) i = \<lparr>fe_executable = a,
      fe_dispatch_func = li_function l (le_func (lb_exports b ! i)), fe_name = li_global l (exports_index b gs + 2 + i),
      fe_attrs = li_global l (exports_index b gs + 1) + of_nat (i * 24)\<rparr>"
    unfolding export_entry_def Let_def eqs structure_sizes r(1,3) by (simp only: r(6) not_False_eq_True if_True)
  then show ?thesis
    using r(2,4,5) attrs_pointer [OF img i] by (simp add: entry_ok_def attrs_read del: const_at.simps of_nat_mult)
qed

text \<open>A library at an address, as its builder and the linker leave it.\<close>

definition compiled_image :: "linked \<Rightarrow> library_builder \<times> globals \<Rightarrow> usize \<Rightarrow> bool" where
  "compiled_image l = (\<lambda>(b, gs) p. linked_ok l (gs @ library_globals b (length gs)) \<and> length (lb_exports b) < 2 ^ 28 \<and>
     p = library_address l b gs)"

end
