(* ===== verification/Executable_Loading.thy ===== *)
theory Executable_Loading
  imports Built_Library
begin

text \<open>
  Loading on the DSP: what a load leaves in the heap, and that the runtime finds every export of a
  library that satisfies the contract \<open>library_contract\<close>; the libraries of the compiler do.
\<close>

section \<open>The heap\<close>

text \<open>Addresses in use, and what the C allocator promises: it never returns one of them.\<close>

definition addresses_in_use :: "dsp_heap \<Rightarrow> usize set" where
  "addresses_in_use h = {0} \<union> fst ` set (hp_blocks h) \<union> dom (hp_executables h) \<union> dom (hp_functions h)"

definition fresh_block :: "dsp_heap \<Rightarrow> usize \<Rightarrow> nat \<Rightarrow> bool" where
  "fresh_block h p n \<longleftrightarrow> unat p + n \<le> 2 ^ 32 \<and> (\<forall>i<n. p + of_nat i \<notin> addresses_in_use h)"

definition allocator_laws :: "loader_env \<Rightarrow> bool" where
  "allocator_laws env \<longleftrightarrow>
     (\<forall>h n. 0 < n \<longrightarrow> lo_calloc env h n \<noteq> 0 \<longrightarrow> fresh_block h (lo_calloc env h n) n) \<and>
     (\<forall>h s. lo_strdup env h s \<noteq> 0 \<longrightarrow> fresh_block h (lo_strdup env h s) (length s + 1))"

lemma allocator_lawsD:
  "allocator_laws env \<Longrightarrow> p = lo_calloc env h n \<Longrightarrow> p \<noteq> 0 \<Longrightarrow> 0 < n \<Longrightarrow> fresh_block h p n"
  "allocator_laws env \<Longrightarrow> p = lo_strdup env h s \<Longrightarrow> p \<noteq> 0 \<Longrightarrow> fresh_block h p (length s + 1)"
  unfolding allocator_laws_def by blast+

lemma fresh_block_start: "fresh_block h p n \<Longrightarrow> 0 < n \<Longrightarrow> p \<notin> addresses_in_use h"
  unfolding fresh_block_def by (auto dest: spec [of _ 0])

lemma unat_offset:
  assumes "unat (p :: usize) + n * 16 \<le> 2 ^ 32" and "i < n"
  shows "unat (p + of_nat (i * 16)) = unat p + i * 16"
proof -
  from assms have lt: "unat p + i * 16 < 2 ^ LENGTH(32)" by simp
  then have "unat (of_nat (i * 16) :: usize) = i * 16"
    unfolding unat_of_nat by (intro mod_less) linarith
  with lt show ?thesis by (metis unat_add_lem)
qed

lemma fresh_functions:
  assumes "fresh_block h p (n * 16)"
  shows "set (function_addresses p n) \<inter> addresses_in_use h = {}" and "distinct (function_addresses p n)"
proof -
  have bound: "unat p + n * 16 \<le> 2 ^ 32" and fresh: "\<forall>i<n * 16. p + of_nat i \<notin> addresses_in_use h"
    using assms unfolding fresh_block_def by blast+
  have "p + of_nat (i * 16) \<notin> addresses_in_use h" if "i < n" for i
    using that by (intro fresh [rule_format]) simp
  then show "set (function_addresses p n) \<inter> addresses_in_use h = {}"
    by (auto simp: function_addresses_def structure_sizes simp del: of_nat_mult)
  have "inj_on (\<lambda>i. p + of_nat (i * 16)) (set [0..<n])"
  proof (rule inj_onI)
    fix i j assume ij: "i \<in> set [0..<n]" "j \<in> set [0..<n]" and eq: "p + of_nat (i * 16) = p + of_nat (j * 16)"
    from ij have "i < n" "j < n" by simp_all
    from unat_offset [OF bound this(1)] unat_offset [OF bound this(2)]
    have "unat p + i * 16 = unat p + j * 16" unfolding eq by (rule trans [OF sym])
    then show "i = j" by presburger
  qed
  then show "distinct (function_addresses p n)"
    by (simp add: function_addresses_def structure_sizes distinct_map del: of_nat_mult)
qed

text \<open>What an executable under construction holds beyond the heap before the load.\<close>

definition holds_only :: "dsp_heap \<Rightarrow> usize \<Rightarrow> loaded_executable \<Rightarrow> dsp_heap \<Rightarrow> bool" where
  "holds_only h0 address ex h \<longleftrightarrow> address \<notin> addresses_in_use h0 \<and>
     (\<exists>fb nb n fs. hp_blocks h = fb @ nb @ (address, n) # hp_blocks h0 \<and>
        (if ex_name ex = 0 then nb = [] else (\<exists>k. nb = [(ex_name ex, k)])) \<and> ex_name ex \<notin> addresses_in_use h0 - {0} \<and>
        (if ex_functions ex = 0 then fb = [] else (\<exists>k. fb = [(ex_functions ex, k)])) \<and> ex_functions ex \<notin> addresses_in_use h0 - {0} \<and>
        hp_functions h = hp_functions h0 ++ map_of fs \<and>
        map fst fs = function_addresses (ex_functions ex) (unat (ex_function_count ex)) \<and>
        fst ` set fs \<inter> addresses_in_use h0 = {}) \<and>
     hp_libraries h = (if ex_shlib ex = 0 then [] else [ex_shlib ex]) @ hp_libraries h0"

lemma holds_onlyI:
  assumes "address \<notin> addresses_in_use h0" and "hp_blocks h = fb @ nb @ (address, n) # hp_blocks h0"
    and "if ex_name ex = 0 then nb = [] else (\<exists>k. nb = [(ex_name ex, k)])" and "ex_name ex \<notin> addresses_in_use h0 - {0}"
    and "if ex_functions ex = 0 then fb = [] else (\<exists>k. fb = [(ex_functions ex, k)])"
    and "ex_functions ex \<notin> addresses_in_use h0 - {0}" and "hp_functions h = hp_functions h0 ++ map_of fs"
    and "map fst fs = function_addresses (ex_functions ex) (unat (ex_function_count ex))"
    and "fst ` set fs \<inter> addresses_in_use h0 = {}"
    and "hp_libraries h = (if ex_shlib ex = 0 then [] else [ex_shlib ex]) @ hp_libraries h0"
  shows "holds_only h0 address ex h"
  unfolding holds_only_def using assms by blast

lemma close_holds_only:
  assumes "holds_only h0 address ex h" and "hp_executables h = hp_executables h0 \<or> hp_executables h = (hp_executables h0)(address \<mapsto> ex)"
  shows "close_executable address ex h = h0"
proof -
  from assms(1) obtain fb nb n fs where a: "address \<notin> addresses_in_use h0"
    and blocks: "hp_blocks h = fb @ nb @ (address, n) # hp_blocks h0"
    and nb: "if ex_name ex = 0 then nb = [] else (\<exists>k. nb = [(ex_name ex, k)])" "ex_name ex \<notin> addresses_in_use h0 - {0}"
    and fb: "if ex_functions ex = 0 then fb = [] else (\<exists>k. fb = [(ex_functions ex, k)])" "ex_functions ex \<notin> addresses_in_use h0 - {0}"
    and fs: "hp_functions h = hp_functions h0 ++ map_of fs"
      "map fst fs = function_addresses (ex_functions ex) (unat (ex_function_count ex))" "fst ` set fs \<inter> addresses_in_use h0 = {}"
    and libs: "hp_libraries h = (if ex_shlib ex = 0 then [] else [ex_shlib ex]) @ hp_libraries h0"
    unfolding holds_only_def by blast
  have a0: "address \<noteq> 0" "hp_executables h0 address = None" using a by (auto simp: addresses_in_use_def)
  have old: "a \<noteq> address \<and> (ex_name ex \<noteq> 0 \<longrightarrow> a \<noteq> ex_name ex) \<and> (ex_functions ex \<noteq> 0 \<longrightarrow> a \<noteq> ex_functions ex)"
    if "(a, k) \<in> set (hp_blocks h0)" for a k :: _
    using that a nb(2) fb(2) by (force simp: addresses_in_use_def image_iff)
  have "hp_blocks (close_executable address ex h) = hp_blocks h0"
    using nb fb a0
    by (auto dest: old simp: close_executable_def free_block_def Let_def blocks filter_id_conv split: if_splits)
  moreover have "hp_libraries (close_executable address ex h) = hp_libraries h0"
    by (simp add: close_executable_def free_block_def Let_def libs)
  moreover have "hp_executables (close_executable address ex h) = hp_executables h0"
    using assms(2) a0 by (auto simp: close_executable_def free_block_def Let_def fun_eq_iff)
  moreover have "hp_functions (close_executable address ex h) = hp_functions h0"
  proof
    fix p
    have sets: "set (function_addresses (ex_functions ex) (unat (ex_function_count ex))) = fst ` set fs"
      using fs(2) by (metis list.set_map)
    show "hp_functions (close_executable address ex h) p = hp_functions h0 p"
    proof (cases "p \<in> fst ` set fs")
      case True
      then have "hp_functions h0 p = None" using fs(3) by (auto simp: addresses_in_use_def)
      with True sets show ?thesis by (simp add: close_executable_def free_block_def Let_def)
    next
      case False
      then have "map_of fs p = None" by (simp add: map_of_eq_None_iff)
      with False sets show ?thesis by (simp add: close_executable_def free_block_def Let_def fs(1) map_add_def)
    qed
  qed
  ultimately show ?thesis by simp
qed

lemma addresses_in_use_mono:
  assumes "holds_only h0 address ex h" and "hp_executables h = hp_executables h0"
  shows "addresses_in_use h0 \<subseteq> addresses_in_use h"
  using assms by (auto simp: holds_only_def addresses_in_use_def)

lemma holds_add_functions:
  assumes "holds_only h0 address ex h" and none: "ex_functions ex = 0" "ex_function_count ex = 0"
    and "p \<notin> addresses_in_use h0" and "p \<noteq> 0" and "map fst fs = function_addresses p (unat n)"
    and "set (function_addresses p (unat n)) \<inter> addresses_in_use h0 = {}"
  shows "holds_only h0 address (ex\<lparr>ex_functions := p, ex_function_count := n\<rparr>)
    ((add_block p k h)\<lparr>hp_functions := hp_functions h ++ map_of fs\<rparr>)"
proof -
  from assms(1) none obtain nb k' where old: "address \<notin> addresses_in_use h0" "hp_blocks h = nb @ (address, k') # hp_blocks h0"
    "if ex_name ex = 0 then nb = [] else (\<exists>k. nb = [(ex_name ex, k)])" "ex_name ex \<notin> addresses_in_use h0 - {0}"
    "hp_functions h = hp_functions h0" "hp_libraries h = (if ex_shlib ex = 0 then [] else [ex_shlib ex]) @ hp_libraries h0"
    by (auto simp: holds_only_def function_addresses_def)
  have "fst ` set fs = set (function_addresses p (unat n))" using assms(6) by (metis list.set_map)
  then show ?thesis using old assms(4-7)
    by (intro holds_onlyI [where fb = "[(p, k)]" and nb = nb and fs = fs]) (simp_all add: add_block_def)
qed

lemma set_up_functions_holds:
  assumes laws: "allocator_laws env" and h: "holds_only h0 address ex h" "hp_executables h = hp_executables h0"
    and none: "ex_functions ex = 0" "ex_function_count ex = 0"
    and run: "set_up_functions env address ex h = (err, ex', h')"
  shows "holds_only h0 address ex' h' \<and> hp_executables h' = hp_executables h0"
proof -
  obtain n where n_def: "n = (load (lo_memory env) (ex_library ex + of_nat (offset_of library_t [2, 0])) 4 :: u32)" by blast
  obtain p where p_def: "p = lo_calloc env h (unat n * 16)" by blast
  obtain fs where fs_def: "fs = zip (function_addresses p (unat n)) (map (export_entry (lo_memory env) address (ex_library ex)) [0..<unat n])"
    by blast
  from run consider "ex' = ex" "h' = h"
    | "n \<noteq> 0" "p \<noteq> 0" "ex' = ex\<lparr>ex_functions := p, ex_function_count := n\<rparr>"
      "h' = (add_block p (unat n * 16) h)\<lparr>hp_functions := hp_functions h ++ map_of fs\<rparr>"
    by (auto simp: set_up_functions_def structure_sizes Let_def n_def [symmetric] p_def [symmetric] fs_def [symmetric]
        split: if_splits)
  then show ?thesis
  proof cases
    case 1
    with h show ?thesis by simp
  next
    case 2
    then have pos: "0 < unat n * 16" by (simp add: unat_gt_0)
    note fresh = allocator_lawsD(1) [OF laws p_def 2(2) pos]
    have "p \<notin> addresses_in_use h0" "set (function_addresses p (unat n)) \<inter> addresses_in_use h0 = {}"
      using fresh_block_start [OF fresh pos] fresh_functions(1) [OF fresh] addresses_in_use_mono [OF h] by blast+
    moreover have "map fst fs = function_addresses p (unat n)" by (simp add: fs_def function_addresses_def)
    moreover have "hp_executables h' = hp_executables h0" using 2 h(2) by (simp add: add_block_def)
    ultimately show ?thesis
      using holds_add_functions [OF h(1) none] 2 by simp
  qed
qed

lemma set_up_library_holds:
  assumes laws: "allocator_laws env" and "hp_executables h = hp_executables h0"
    and h: "\<And>q lib. holds_only h0 address (ex\<lparr>ex_query_func := q, ex_library := lib\<rparr>) h"
    and none: "ex_functions ex = 0" "ex_function_count ex = 0"
    and run: "set_up_library env address ex h = (err, ex', h')"
  shows "holds_only h0 address ex' h' \<and> hp_executables h' = hp_executables h0"
proof -
  from run consider "ex' = ex" "h' = h" | q where "ex' = ex\<lparr>ex_query_func := q\<rparr>" "h' = h"
    | q lib where "ex' = ex\<lparr>ex_query_func := q, ex_library := lib\<rparr>" "h' = h"
    | q lib where "set_up_functions env address (ex\<lparr>ex_query_func := q, ex_library := lib\<rparr>) h = (err, ex', h')"
    by (auto simp: set_up_library_def Let_def split: if_splits)
  then show ?thesis
  proof cases
    case 1
    with h [where q = "ex_query_func ex" and lib = "ex_library ex"] assms(2) show ?thesis by simp
  next
    case (2 q)
    have "ex\<lparr>ex_query_func := q\<rparr> = ex\<lparr>ex_query_func := q, ex_library := ex_library ex\<rparr>" by (cases ex) simp
    with 2 h [where q = q and lib = "ex_library ex"] assms(2) show ?thesis by simp
  next
    case 3
    with h assms(2) show ?thesis by simp
  next
    case 4
    show ?thesis by (rule set_up_functions_holds [OF laws h assms(2) _ _ 4]) (simp_all add: none)
  qed
qed

lemma named_holds:
  assumes "address \<notin> addresses_in_use h0" and "copy \<notin> addresses_in_use h0" and "copy \<noteq> 0"
  shows "holds_only h0 address
      \<lparr>ex_rpc_handle = rpc, ex_name = copy, ex_shlib = s, ex_query_func = q, ex_library = lib, ex_functions = 0, ex_function_count = 0\<rparr>
      (h0\<lparr>hp_blocks := (copy, k) # (address, n) # hp_blocks h0, hp_libraries := (if s = 0 then [] else [s]) @ hp_libraries h0\<rparr>)"
  using assms by (intro holds_onlyI [where fs = "[]" and nb = "[(copy, k)]" and fb = "[]"]) (simp_all add: function_addresses_def)

lemma set_up_holds:
  assumes laws: "allocator_laws env" and address: "address \<notin> addresses_in_use h0"
    and run: "set_up env address name (new_executable rpc) (add_block address n h0) = (err, ex, h)"
  shows "holds_only h0 address ex h \<and> hp_executables h = hp_executables h0"
proof -
  have start: "holds_only h0 address (new_executable rpc) (add_block address n h0)"
    "hp_executables (add_block address n h0) = hp_executables h0"
    using address by (auto simp: holds_only_def add_block_def new_executable_def function_addresses_def)
  obtain copy where c: "copy = lo_strdup env (add_block address n h0) name" by blast
  obtain s where s: "s = lo_dlopen env (add_block copy (length name + 1) (add_block address n h0)) name" by blast
  let ?h1 = "add_block copy (length name + 1) (add_block address n h0)"
  from run consider "ex = new_executable rpc" "h = add_block address n h0"
    | "copy \<noteq> 0" "ex = (new_executable rpc)\<lparr>ex_name := copy\<rparr>" "h = ?h1"
    | "copy \<noteq> 0" "s \<noteq> 0" "set_up_library env address ((new_executable rpc)\<lparr>ex_name := copy, ex_shlib := s\<rparr>)
        (?h1\<lparr>hp_libraries := s # hp_libraries ?h1\<rparr>) = (err, ex, h)"
    unfolding set_up_def Let_def c [symmetric] s [symmetric] by (auto split: if_splits)
  then show ?thesis
  proof cases
    case 1
    with start show ?thesis by simp
  next
    case 2
    note fresh = allocator_lawsD(2) [OF laws c 2(1)]
    have "copy \<notin> addresses_in_use h0"
      using fresh_block_start [OF fresh] addresses_in_use_mono [OF start] by auto
    from named_holds [OF address this 2(1), of rpc 0 0 0 "length name + 1" n]
    have "holds_only h0 address ex h" unfolding 2(2,3) new_executable_def add_block_def by simp
    then show ?thesis by (simp add: 2(3) add_block_def)
  next
    case 3
    note fresh = allocator_lawsD(2) [OF laws c 3(1)]
    have "copy \<notin> addresses_in_use h0"
      using fresh_block_start [OF fresh] addresses_in_use_mono [OF start] by auto
    note held = named_holds [OF address this 3(1), of rpc s _ _ "length name + 1" n]
    have "holds_only h0 address ((new_executable rpc)\<lparr>ex_name := copy, ex_shlib := s, ex_query_func := q, ex_library := lib\<rparr>)
        (?h1\<lparr>hp_libraries := s # hp_libraries ?h1\<rparr>)" for q lib
      using held [of q lib] by (simp add: 3(2) new_executable_def add_block_def)
    from set_up_library_holds [OF laws _ this _ _ 3(3)] show ?thesis
      by (simp add: new_executable_def add_block_def)
  qed
qed

section \<open>Loading and closing\<close>

lemma ucast_handle [simp]: "ucast (ucast (p :: usize) :: i64) = p"
  by (rule bit_word_eqI) (simp add: bit_ucast_iff)

lemma set_up_errors:
  assumes "set_up env address name ex h = (err, ex', h')"
  shows "err \<in> {AEE_SUCCESS, AEE_ENOMEMORY, AEE_EUNABLETOLOAD, AEE_ERESOURCENOTFOUND, AEE_EUNSUPPORTED, AEE_EVERSIONNOTSUPPORT}"
  using assms by (auto simp: set_up_def set_up_library_def set_up_functions_def Let_def split: if_splits)

lemma executable_load_restores:
  assumes laws: "allocator_laws env" and load: "executable_load env rpc name h = (r, h')"
  shows "case r of
      Inl e \<Rightarrow> h' = h \<and>
        e \<in> {AEE_ENOMEMORY, AEE_EUNABLETOLOAD, AEE_ERESOURCENOTFOUND, AEE_EUNSUPPORTED, AEE_EVERSIONNOTSUPPORT}
    | Inr handle \<Rightarrow> executable_close handle h' = Inr (AEE_SUCCESS, h)"
proof -
  obtain a where a: "a = lo_calloc env h (type_size executable_t)" by blast
  show ?thesis
  proof (cases "a = 0")
    case True
    with load a show ?thesis by (auto simp: executable_load_def)
  next
    case False
    have "fresh_block h a (type_size executable_t)"
      by (rule allocator_lawsD(1) [OF laws a False]) (simp add: structure_sizes)
    then have fresh: "a \<notin> addresses_in_use h" by (rule fresh_block_start) (simp add: structure_sizes)
    obtain err ex h1 where s: "set_up env a name (new_executable rpc) (add_block a (type_size executable_t) h) = (err, ex, h1)"
      using prod_cases3 by blast
    from set_up_holds [OF laws fresh s] have held: "holds_only h a ex h1" "hp_executables h1 = hp_executables h" by simp_all
    have close: "close_executable a ex h1 = h"
      "close_executable a ex (h1\<lparr>hp_executables := (hp_executables h1)(a \<mapsto> ex)\<rparr>) = h"
      by (rule close_holds_only; use held in \<open>simp add: holds_only_def\<close>)+
    from load False s a have r: "(r, h') = (if err \<noteq> AEE_SUCCESS then (Inl err, close_executable a ex h1)
        else (Inr (ucast a), h1\<lparr>hp_executables := (hp_executables h1)(a \<mapsto> ex)\<rparr>))"
      unfolding executable_load_def Let_def a [symmetric] by (auto split: if_splits)
    show ?thesis
    proof (cases "err = AEE_SUCCESS")
      case True
      with r have rh: "r = Inr (ucast a)" "h' = h1\<lparr>hp_executables := (hp_executables h1)(a \<mapsto> ex)\<rparr>" by simp_all
      have "executable_close (ucast a) h' = Inr (AEE_SUCCESS, close_executable a ex h')"
        by (simp add: executable_close_def rh(2))
      with close(2) rh show ?thesis by simp
    next
      case False
      with r close(1) set_up_errors [OF s] show ?thesis by auto
    qed
  qed
qed

section \<open>Looking up what was built\<close>

lemma find_matching:
  assumes "length xs = length ys" and "\<And>i. i < length xs \<Longrightarrow> P (xs ! i) \<longleftrightarrow> Q (ys ! i)"
  shows "(find P xs = None \<and> find Q ys = None) \<or>
    (\<exists>i<length xs. find P xs = Some (xs ! i) \<and> find Q ys = Some (ys ! i))"
  using assms
proof (induction xs ys rule: list_induct2)
  case (Cons x xs y ys)
  have "P x \<longleftrightarrow> Q y" "\<And>i. i < length xs \<Longrightarrow> P (xs ! i) \<longleftrightarrow> Q (ys ! i)"
    using Cons.prems [of 0] Cons.prems [of "Suc _"] by simp_all
  with Cons.IH show ?case by (auto intro: exI [of _ 0] exI [of _ "Suc _"])
qed simp

lemma lookup_from_find:
  assumes "list_all2 (\<lambda>p f. hp_functions h p = Some f) ps fs"
  shows "lookup_from env h name ps =
    (case find (\<lambda>(p, f). fe_name f \<noteq> 0 \<and> strcmp_eq (lo_memory env) (fe_name f) (string_bytes name)) (zip ps fs) of
       None \<Rightarrow> Inr (Inl AEE_ERESOURCENOTFOUND) | Some (p, f) \<Rightarrow> Inr (Inr (ucast p)))"
  using assms by (induction ps fs rule: list_all2_induct) simp_all

text \<open>A table of functions at a fresh block is found again.\<close>

lemma function_table:
  assumes "fresh_block h p (n * 16)" and "length fs = n"
  shows "list_all2 (\<lambda>a f. (m ++ map_of (zip (function_addresses p n) fs)) a = Some f) (function_addresses p n) fs"
proof (rule list_all2_all_nthI)
  have len: "length (function_addresses p n) = n" by (simp add: function_addresses_def)
  then show "length (function_addresses p n) = length fs" using assms(2) by simp
  fix i assume "i < length (function_addresses p n)"
  then have "map_of (zip (function_addresses p n) fs) (function_addresses p n ! i) = Some (fs ! i)"
    using fresh_functions(2) [OF assms(1)] len assms(2) by (intro map_of_zip_nth) simp_all
  then show "(m ++ map_of (zip (function_addresses p n) fs)) (function_addresses p n ! i) = Some (fs ! i)"
    by simp
qed

text \<open>The runtime finds an export of the library under a name, with everything the compiler declared for it.\<close>

definition finds_export ::
  "loader_env \<Rightarrow> linked \<Rightarrow> i64 \<Rightarrow> string \<Rightarrow> dsp_heap \<Rightarrow> library_export \<Rightarrow> bool" where
  "finds_export env l handle s h e \<longleftrightarrow>
     (\<exists>fh f. lookup_function env handle s h = Inr (Inr fh) \<and> hp_functions h (ucast fh) = Some f \<and>
        get_dispatch_func f = li_function l (le_func e) \<and> attrs_at (lo_memory env) (get_attrs f) = Some (le_attrs e) \<and>
        get_environment f = ucast handle + 24 \<and> strcmp_eq (lo_memory env) (get_name f) (string_bytes s))"

section \<open>The contract between library and runtime\<close>

text \<open>
  What the runtime relies on in a library at an address: the fields it reads before it looks at the
  exports, and that entry \<open>i\<close> of the tables stands for export \<open>i\<close>.
\<close>

locale library_contract =
  fixes image :: "linked \<Rightarrow> 'lib \<Rightarrow> usize \<Rightarrow> bool" and version :: "'lib \<Rightarrow> u32"
    and n_imports :: "'lib \<Rightarrow> nat" and lib_exports :: "'lib \<Rightarrow> library_export list"
  assumes address: "image l x p \<Longrightarrow> p \<noteq> 0"
    and version_read: "image l x p \<Longrightarrow> load (li_memory l) (load (li_memory l) p 4) 4 = version x"
    and imports_read: "image l x p \<Longrightarrow> load (li_memory l) (p + 4) 4 = (of_nat (n_imports x) :: u32)"
    and exports_read: "image l x p \<Longrightarrow> load (li_memory l) (p + 12) 4 = (of_nat (length (lib_exports x)) :: u32)"
    and names_read: "image l x p \<Longrightarrow> lib_exports x \<noteq> [] \<Longrightarrow> load (li_memory l) (p + 24) 4 \<noteq> (0 :: usize)"
    and few_exports: "image l x p \<Longrightarrow> length (lib_exports x) < 2 ^ 28"
    and entry_read: "image l x p \<Longrightarrow> i < length (lib_exports x) \<Longrightarrow>
      entry_ok l (lib_exports x ! i) a (export_entry (li_memory l) a p i)"
begin

lemma unat_n_exports:
  assumes "image l x lib"
  shows "unat (of_nat (length (lib_exports x)) :: u32) = length (lib_exports x)"
  unfolding unat_of_nat using few_exports [OF assms] by (intro mod_less) simp

lemma set_up_functions_built:
  assumes img: "image l x lib" and env: "lo_memory env = li_memory l" and "ex_library ex = lib"
  shows "set_up_functions env a ex h =
    (let n = length (lib_exports x); p = lo_calloc env h (n * 16)
     in if n = 0 then (AEE_SUCCESS, ex, h)
        else if p = 0 then (AEE_ENOMEMORY, ex, h)
        else (AEE_SUCCESS, ex\<lparr>ex_functions := p, ex_function_count := of_nat n\<rparr>,
          (add_block p (n * 16) h)\<lparr>hp_functions := hp_functions h ++
             map_of (zip (function_addresses p n) (map (export_entry (li_memory l) a lib) [0..<n]))\<rparr>))"
proof (cases "lib_exports x = []")
  case True
  then show ?thesis
    unfolding set_up_functions_def Let_def assms(2,3) library_offsets of_nat_numeral exports_read [OF img] by simp
next
  case False
  then have "(of_nat (length (lib_exports x)) :: u32) \<noteq> 0"
    using unat_n_exports [OF img] by (metis length_0_conv unat_0)
  then show ?thesis
    unfolding set_up_functions_def Let_def assms(2,3) library_offsets of_nat_numeral exports_read [OF img]
      unat_n_exports [OF img] structure_sizes
    using False names_read [OF img False] by simp
qed

lemma set_up_library_built:
  assumes img: "image l x lib" and env: "lo_memory env = li_memory l"
    and "lo_dlsym env (ex_shlib ex) HEXAGON_EXECUTABLE_LIBRARY_EXPORT_NAME = q" and "q \<noteq> 0"
    and "\<And>e. lo_call_query env q HEXAGON_EXECUTABLE_LIBRARY_VERSION_LATEST e = lib"
    and "version x = HEXAGON_EXECUTABLE_LIBRARY_VERSION_LATEST"
  shows "set_up_library env a ex h =
    (if (of_nat (n_imports x) :: u32) \<noteq> 0
     then (AEE_EUNSUPPORTED, ex\<lparr>ex_query_func := q, ex_library := lib\<rparr>, h)
     else set_up_functions env a (ex\<lparr>ex_query_func := q, ex_library := lib\<rparr>) h)"
proof -
  have v: "load (li_memory l) (load (li_memory l) lib 4 + of_nat (offset_of library_header_t [0])) 4 =
      HEXAGON_EXECUTABLE_LIBRARY_VERSION_LATEST"
    unfolding library_offsets using version_read [OF img] assms(6) by simp
  have n: "load (li_memory l) (lib + of_nat (offset_of library_t [1, 0])) 4 = (of_nat (n_imports x) :: u32)"
    unfolding library_offsets of_nat_numeral by (rule imports_read [OF img])
  show ?thesis
    unfolding set_up_library_def Let_def assms(2,3,5) v n using assms(4) address [OF img] by simp
qed

lemma lookup_loaded:
  assumes img: "image l x lib" and env: "lo_memory env = li_memory l" and names: "list_all (\<lambda>e. c_name (le_name e)) (lib_exports x)" and s: "c_name s"
    and a: "a \<noteq> 0" and ex: "hp_executables h a = Some ex" and fresh: "fresh_block h0 p (length (lib_exports x) * 16)"
    and p: "ex_functions ex = p" "ex_function_count ex = of_nat (length (lib_exports x))"
    and table_h: "hp_functions h = m ++ map_of (zip (function_addresses p (length (lib_exports x)))
       (map (export_entry (li_memory l) a lib) [0..<length (lib_exports x)]))"
  shows "case find (\<lambda>e. le_name e = s) (lib_exports x) of
      None \<Rightarrow> lookup_function env (ucast a) s h = Inr (Inl AEE_ERESOURCENOTFOUND)
    | Some e \<Rightarrow> finds_export env l (ucast a) s h e"
proof -
  let ?n = "length (lib_exports x)"
  let ?fs = "map (export_entry (li_memory l) a lib) [0..<?n]" and ?ps = "function_addresses p ?n"
  let ?P = "\<lambda>(p, f). fe_name f \<noteq> 0 \<and> strcmp_eq (lo_memory env) (fe_name f) (string_bytes s)"
  have a': "(ucast a :: i64) \<noteq> 0" using a ucast_handle [of a] by (metis unsigned_0)
  have table: "list_all2 (\<lambda>p f. hp_functions h p = Some f) ?ps ?fs"
    unfolding table_h by (rule function_table [OF fresh]) simp
  have lookup: "lookup_function env (ucast a) s h =
      (case find ?P (zip ?ps ?fs) of None \<Rightarrow> Inr (Inl AEE_ERESOURCENOTFOUND) | Some (p, f) \<Rightarrow> Inr (Inr (ucast p)))"
    using a' by (simp add: lookup_function_def ex p unat_n_exports [OF img] lookup_from_find [OF table])
  have len: "length (zip ?ps ?fs) = ?n" "length ?ps = ?n" by (simp_all add: function_addresses_def)
  have nth: "zip ?ps ?fs ! i = (?ps ! i, export_entry (li_memory l) a lib i)" if "i < ?n" for i
    using that len by simp
  have facts: "fe_name (export_entry (li_memory l) a lib i) \<noteq> 0"
    "strcmp_eq (li_memory l) (fe_name (export_entry (li_memory l) a lib i)) (string_bytes s) \<longleftrightarrow> le_name (lib_exports x ! i) = s"
    if "i < ?n" for i
    using entry_read [OF img that, of a] strcmp_eq_string [of l _ _ s] names that s
    by (auto simp: entry_ok_def list_all_length simp del: const_at.simps)
  have "(find ?P (zip ?ps ?fs) = None \<and> find (\<lambda>e. le_name e = s) (lib_exports x) = None) \<or>
    (\<exists>i<length (zip ?ps ?fs). find ?P (zip ?ps ?fs) = Some (zip ?ps ?fs ! i) \<and>
       find (\<lambda>e. le_name e = s) (lib_exports x) = Some (lib_exports x ! i))"
    by (rule find_matching [OF len(1)]) (simp only: len nth facts env prod.case simp_thms)
  then show ?thesis
  proof (elim disjE exE conjE)
    assume "find ?P (zip ?ps ?fs) = None" "find (\<lambda>e. le_name e = s) (lib_exports x) = None"
    then show ?thesis by (simp add: lookup)
  next
    fix i assume "i < length (zip ?ps ?fs)" and P: "find ?P (zip ?ps ?fs) = Some (zip ?ps ?fs ! i)"
      and Q: "find (\<lambda>e. le_name e = s) (lib_exports x) = Some (lib_exports x ! i)"
    then have i: "i < ?n" using len(1) by simp
    from Q have same: "le_name (lib_exports x ! i) = s" by (auto simp: find_Some_iff)
    have "hp_functions h (?ps ! i) = Some (export_entry (li_memory l) a lib i)"
      using list_all2_nthD [OF table, of i] i len(2) by simp
    with P [unfolded nth [OF i]] Q facts(2) [OF i] same entry_read [OF img i, of a] show ?thesis
      by (auto simp: finds_export_def lookup env get_dispatch_func_def get_attrs_def get_name_def get_environment_def
          structure_sizes entry_ok_def simp del: const_at.simps intro!: exI [of _ "export_entry (li_memory l) a lib i"])
  qed
qed

lemma load_built:
  assumes img: "image l x lib" and env: "lo_memory env = li_memory l" "\<And>h. lo_dlopen env h name = shlib" "shlib \<noteq> 0"
    "lo_dlsym env shlib HEXAGON_EXECUTABLE_LIBRARY_EXPORT_NAME = q" "q \<noteq> 0"
    "\<And>e. lo_call_query env q HEXAGON_EXECUTABLE_LIBRARY_VERSION_LATEST e = lib"
    and version: "version x = HEXAGON_EXECUTABLE_LIBRARY_VERSION_LATEST" and laws: "allocator_laws env"
    and few: "n_imports x < 2 ^ 32" and names: "list_all (\<lambda>e. c_name (le_name e)) (lib_exports x)"
    and load: "executable_load env rpc name h = (r, h')"
  shows "case r of
      Inl e \<Rightarrow> e = AEE_ENOMEMORY \<or> e = AEE_EUNSUPPORTED \<and> n_imports x \<noteq> 0
    | Inr handle \<Rightarrow> n_imports x = 0 \<and>
        (\<forall>s. c_name s \<longrightarrow>
          (case find (\<lambda>e. le_name e = s) (lib_exports x) of
             None \<Rightarrow> lookup_function env handle s h' = Inr (Inl AEE_ERESOURCENOTFOUND)
           | Some e \<Rightarrow> finds_export env l handle s h' e))"
proof -
  obtain a where a: "a = lo_calloc env h (type_size executable_t)" by blast
  let ?h0 = "add_block a (type_size executable_t) h"
  obtain copy where copy: "copy = lo_strdup env ?h0 name" by blast
  let ?ex = "(new_executable rpc)\<lparr>ex_name := copy, ex_shlib := shlib\<rparr>"
  let ?h1 = "(add_block copy (length name + 1) ?h0)\<lparr>hp_libraries := shlib # hp_libraries (add_block copy (length name + 1) ?h0)\<rparr>"
  let ?ex1 = "?ex\<lparr>ex_query_func := q, ex_library := lib\<rparr>"
  let ?n = "length (lib_exports x)"
  let ?p = "lo_calloc env ?h1 (?n * 16)" and ?n_bytes = "length (lib_exports x) * 16"
  let ?table = "\<lambda>p. zip (function_addresses p (length (lib_exports x)))
    (map (export_entry (li_memory l) a lib) [0..<length (lib_exports x)])"
  show ?thesis
  proof (cases "a = 0 \<or> copy = 0")
    case True
    then have "r = Inl AEE_ENOMEMORY"
      using load unfolding executable_load_def Let_def set_up_def a [symmetric] copy [symmetric] by (auto split: if_splits)
    then show ?thesis by simp
  next
    case False
    have "set_up env a name (new_executable rpc) ?h0 = set_up_library env a ?ex ?h1"
      using False env(3) unfolding set_up_def Let_def copy [symmetric] env(2) by simp
    also have "\<dots> = (if (of_nat (n_imports x) :: u32) \<noteq> 0 then (AEE_EUNSUPPORTED, ?ex1, ?h1)
        else set_up_functions env a ?ex1 ?h1)"
      using set_up_library_built [OF img env(1) _ env(5,6) version, of ?ex a ?h1] env(4) by simp
    finally have set_up: "set_up env a name (new_executable rpc) ?h0 =
        (if (of_nat (n_imports x) :: u32) \<noteq> 0 then (AEE_EUNSUPPORTED, ?ex1, ?h1) else set_up_functions env a ?ex1 ?h1)" .
    show ?thesis
    proof (cases "n_imports x = 0")
      case no_imports: False
      then have "unat (of_nat (n_imports x) :: u32) \<noteq> 0"
        unfolding unat_of_nat using few by (subst mod_less) simp_all
      then have "(of_nat (n_imports x) :: u32) \<noteq> 0" by (metis unat_0)
      with set_up load False no_imports show ?thesis
        unfolding executable_load_def Let_def a [symmetric] by auto
    next
      case True
      then have run: "set_up env a name (new_executable rpc) ?h0 = set_up_functions env a ?ex1 ?h1" using set_up by simp
      have built: "set_up_functions env a ?ex1 ?h1 =
        (if ?n = 0 then (AEE_SUCCESS, ?ex1, ?h1)
         else if ?p = 0 then (AEE_ENOMEMORY, ?ex1, ?h1)
         else (AEE_SUCCESS, ?ex1\<lparr>ex_functions := ?p, ex_function_count := of_nat ?n\<rparr>,
           (add_block ?p (?n * 16) ?h1)\<lparr>hp_functions := hp_functions ?h1 ++ map_of (?table ?p)\<rparr>))"
        by (subst set_up_functions_built [OF img env(1)]) (simp_all add: Let_def)
      have found: ?thesis if s: "set_up env a name (new_executable rpc) ?h0 = (AEE_SUCCESS, ex2, h2)"
        and t: "fresh_block h3 p ?n_bytes" "ex_functions ex2 = p" "ex_function_count ex2 = of_nat ?n"
          "hp_functions h2 = m ++ map_of (?table p)" for ex2 h2 h3 p m
      proof -
        have rh: "r = Inr (ucast a)" "h' = h2\<lparr>hp_executables := (hp_executables h2)(a \<mapsto> ex2)\<rparr>"
          using load False s unfolding executable_load_def Let_def a [symmetric] by simp_all
        have "case find (\<lambda>e. le_name e = s) (lib_exports x) of
             None \<Rightarrow> lookup_function env (ucast a) s h' = Inr (Inl AEE_ERESOURCENOTFOUND)
           | Some e \<Rightarrow> finds_export env l (ucast a) s h' e" if "c_name s" for s
          by (rule lookup_loaded [OF img env(1) names that _ _ t(1-3)]) (use False t(4) in \<open>simp_all add: rh(2)\<close>)
        then show ?thesis using True by (simp add: rh(1))
      qed
      consider "?n = 0" | "?n \<noteq> 0" "?p = 0" | "?n \<noteq> 0" "?p \<noteq> 0" by blast
      then show ?thesis
      proof cases
        case 1
        have f: "fresh_block h 0 ?n_bytes" by (simp add: fresh_block_def 1)
        have s: "set_up env a name (new_executable rpc) ?h0 = (AEE_SUCCESS, ?ex1, ?h1)"
          unfolding run built using 1 by (simp only: simp_thms if_True)
        have m: "hp_functions ?h1 = hp_functions h ++ map_of (?table 0)"
          using 1 by (simp add: add_block_def function_addresses_def)
        have e: "ex_functions ?ex1 = 0" "ex_function_count ?ex1 = of_nat ?n"
          by (simp_all add: new_executable_def 1 [simplified])
        show ?thesis by (rule found [OF s f e m])
      next
        case 2
        with load False run built show ?thesis
          unfolding executable_load_def Let_def a [symmetric] by auto
      next
        case 3
        let ?ex2 = "?ex1\<lparr>ex_functions := ?p, ex_function_count := of_nat ?n\<rparr>"
        let ?h2 = "(add_block ?p (?n * 16) ?h1)\<lparr>hp_functions := hp_functions ?h1 ++ map_of (?table ?p)\<rparr>"
        have f: "fresh_block ?h1 ?p ?n_bytes" using 3 by (intro allocator_lawsD(1) [OF laws refl]) simp_all
        have s: "set_up env a name (new_executable rpc) ?h0 = (AEE_SUCCESS, ?ex2, ?h2)"
          unfolding run built using 3 by (simp only: if_False)
        have e: "ex_functions ?ex2 = ?p" "ex_function_count ?ex2 = of_nat ?n" by simp_all
        have m: "hp_functions ?h2 = hp_functions ?h1 ++ map_of (?table ?p)" by simp
        show ?thesis by (rule found [OF s f e m])
      qed
    qed
  qed
qed

end

text \<open>The libraries that the compiler builds satisfy the contract.\<close>

interpretation compiled: library_contract compiled_image "\<lambda>(b, gs). lb_version b" "\<lambda>(b, gs). length (lb_imports b)"
    "\<lambda>(b, gs). lb_exports b"
proof unfold_locales
  fix l x p i a assume img: "compiled_image l x p"
  obtain b gs where x: "x = (b, gs)" by force
  with img have ok: "linked_ok l (gs @ library_globals b (length gs))" and p: "p = library_address l b gs"
    and small: "length (lb_exports b) < 2 ^ 28" by (simp_all add: compiled_image_def)
  show "p \<noteq> 0" using library_const(1) [OF ok] p by simp
  show "load (li_memory l) (load (li_memory l) p 4) 4 = (case x of (b, gs) \<Rightarrow> lb_version b)"
    using header_version [OF ok] x p by simp
  show "load (li_memory l) (p + 4) 4 = (of_nat (case x of (b, gs) \<Rightarrow> length (lb_imports b)) :: u32)"
    using library_reads(2) [OF ok] x p by simp
  show "load (li_memory l) (p + 12) 4 = (of_nat (length (case x of (b, gs) \<Rightarrow> lb_exports b)) :: u32)"
    using library_reads(3) [OF ok] x p by simp
  show "length (case x of (b, gs) \<Rightarrow> lb_exports b) < 2 ^ 28" using small x by simp
  show "load (li_memory l) (p + 24) 4 \<noteq> (0 :: usize)" if "(case x of (b, gs) \<Rightarrow> lb_exports b) \<noteq> []"
    using library_reads(6) [OF ok] export_reads(7) [OF ok, of 0] that x p by simp
  show "entry_ok l ((case x of (b, gs) \<Rightarrow> lb_exports b) ! i) a (export_entry (li_memory l) a p i)"
    if "i < length (case x of (b, gs) \<Rightarrow> lb_exports b)"
    using export_entry_ok [OF ok, of i a] that x p by simp
qed

section \<open>Executables of the compiler\<close>

fun const_value :: "linked \<Rightarrow> llvm_const \<Rightarrow> usize" where
  "const_value l (Global_Const g) = li_global l g"
| "const_value l (Function_Const f) = li_function l f"
| "const_value l c = 0"

text \<open>
  The file of that name can be opened on the DSP, is the linked library, and its query function is
  the one the compiler generated.
\<close>

definition opens :: "loader_env \<Rightarrow> linked \<Rightarrow> (u32 \<Rightarrow> llvm_const) \<Rightarrow> string \<Rightarrow> bool" where
  "opens env l query name \<longleftrightarrow> lo_memory env = li_memory l \<and>
     (\<exists>shlib q. shlib \<noteq> 0 \<and> q \<noteq> 0 \<and> (\<forall>h. lo_dlopen env h name = shlib) \<and>
        lo_dlsym env shlib HEXAGON_EXECUTABLE_LIBRARY_EXPORT_NAME = q \<and>
        (\<forall>v e. lo_call_query env q v e = const_value l (query v)))"

lemma declared_exports_names: "\<forall>(n, r)\<in>set es. c_name n \<Longrightarrow> list_all (\<lambda>e. c_name (le_name e)) (declared_exports getFunction es)"
  by (auto simp: declared_exports_def list_all_iff)

lemma length_declared_exports: "length (declared_exports getFunction es) \<le> length es"
  by (simp add: declared_exports_def)

text \<open>
  C23: loading an executable on the DSP leaks nothing: a load that fails leaves the heap and the open
  libraries as they were, whatever the library holds, with one of five errors; closing an executable
  that was loaded takes back everything its load took.
\<close>

theorem load_close_restores:
  assumes "allocator_laws env" and "executable_load env rpc name h = (r, h')"
  shows "case r of
      Inl e \<Rightarrow> h' = h \<and>
        e \<in> {AEE_ENOMEMORY, AEE_EUNABLETOLOAD, AEE_ERESOURCENOTFOUND, AEE_EUNSUPPORTED, AEE_EVERSIONNOTSUPPORT}
    | Inr handle \<Rightarrow> executable_close handle h' = Inr (AEE_SUCCESS, h)"
  using executable_load_restores [OF assms] .

text \<open>
  C9: every export of a compiled executable is found at run time, and nothing else: a library that
  the compiler built loads, unless memory runs out or it declares imports, and then looking up a name
  returns the first export of that name, with the function it stands for and the attributes that the
  compiler wrote.
\<close>

theorem built_library_loads:
  assumes "buildExecutableMetadata getFunction variant gs = (query, gs')" and "linked_ok l gs'" and "opens env l query name"
    and "allocator_laws env" and "length (va_exports variant) < 2 ^ 28"
    and "case va_imports variant of None \<Rightarrow> True | Some is \<Rightarrow> length is < 2 ^ 32"
    and "\<forall>(n, r)\<in>set (va_exports variant). c_name n" and "executable_load env rpc name h = (r, h')"
  shows "case r of
      Inl e \<Rightarrow> e = AEE_ENOMEMORY \<or> e = AEE_EUNSUPPORTED \<and> va_imports variant \<notin> {None, Some []}
    | Inr handle \<Rightarrow> va_imports variant \<in> {None, Some []} \<and>
        (\<forall>s. c_name s \<longrightarrow>
          (case find (\<lambda>e. le_name e = s) (declared_exports getFunction (va_exports variant)) of
             None \<Rightarrow> lookup_function env handle s h' = Inr (Inl AEE_ERESOURCENOTFOUND)
           | Some e \<Rightarrow> finds_export env l handle s h' e))"
proof -
  let ?b = "variant_builder getFunction variant"
  have q: "query = (\<lambda>v. if v = VERSION_LATEST then Global_Const (length gs + length (library_globals ?b (length gs)) - 1) else Null_Const)"
    and gs': "gs' = gs @ library_globals ?b (length gs)"
    using assms(1) by (auto simp: buildExecutableMetadata_eq build_library_def buildLibraryV0_eq variant_builder_def)
  have img: "compiled_image l (?b, gs) (library_address l ?b gs)"
    using assms(2,5) length_declared_exports [of getFunction "va_exports variant"]
    by (simp add: compiled_image_def gs' variant_builder_def)
  obtain shlib sym where env: "lo_memory env = li_memory l" "\<And>h. lo_dlopen env h name = shlib" "shlib \<noteq> 0"
    "lo_dlsym env shlib HEXAGON_EXECUTABLE_LIBRARY_EXPORT_NAME = sym" "sym \<noteq> 0"
    "\<And>v e. lo_call_query env sym v e = const_value l (query v)"
    using assms(3) by (auto simp: opens_def)
  have call: "lo_call_query env sym HEXAGON_EXECUTABLE_LIBRARY_VERSION_LATEST e = library_address l ?b gs" for e
    by (simp add: env(6) q VERSION_LATEST_def HEXAGON_EXECUTABLE_LIBRARY_VERSION_LATEST_def library_address_def)
  have imps: "lb_imports ?b = (case va_imports variant of None \<Rightarrow> [] | Some is \<Rightarrow> is)"
    and exports: "lb_exports ?b = declared_exports getFunction (va_exports variant)" by (simp_all add: variant_builder_def)
  then have none: "lb_imports ?b = [] \<longleftrightarrow> va_imports variant \<in> {None, Some []}" by (auto split: option.splits)
  have version: "(case (?b, gs) of (b, gs) \<Rightarrow> lb_version b) = HEXAGON_EXECUTABLE_LIBRARY_VERSION_LATEST"
    by (simp add: variant_builder_def VERSION_LATEST_def HEXAGON_EXECUTABLE_LIBRARY_VERSION_LATEST_def)
  have few: "(case (?b, gs) of (b, gs) \<Rightarrow> length (lb_imports b)) < 2 ^ 32"
    using assms(6) by (simp add: imps split: option.splits)
  have names: "list_all (\<lambda>e. c_name (le_name e)) (case (?b, gs) of (b, gs) \<Rightarrow> lb_exports b)"
    using declared_exports_names [OF assms(7)] by (simp add: exports)
  from compiled.load_built [OF img env(1-5) call version assms(4) few names assms(8)]
  show ?thesis by (simp add: exports none split: sum.splits)
qed

text \<open>A library with one export, linked at address 256.\<close>

definition sample_variant :: executable_variant where
  "sample_variant = \<lparr>va_imports = None,
     va_exports = [(''mm'', Some \<lparr>attr_hvx = True, attr_hmx = True, dispatch_resources_attr.attr_threads = 1, attr_vtcmBytes = 5000\<rparr>)]\<rparr>"

definition sample_image :: "u8 list" where
  "sample_image = [
     1, 0, 88, 72, 0, 0, 0, 0, 0, 0, 0, 0, 0, 0, 0, 0, 0, 0, 0, 0, 0, 0, 0, 0, 0, 0, 0, 0, 0, 0, 0, 0,
     0, 0, 1, 0, 0, 0, 0, 0, 0, 0, 0, 0, 0, 0, 0, 0, 0, 0, 0, 0, 0, 0, 0, 0, 0, 0, 0, 0, 0, 0, 0, 0,
     7, 0, 0, 0, 0, 0, 0, 0, 136, 19, 0, 0, 0, 0, 0, 0, 1, 0, 0, 0, 0, 0, 0, 0, 0, 0, 0, 0, 0, 0, 0, 0,
     109, 109, 0, 0, 0, 0, 0, 0, 0, 0, 0, 0, 0, 0, 0, 0, 0, 0, 0, 0, 0, 0, 0, 0, 0, 0, 0, 0, 0, 0, 0, 0,
     96, 1, 0, 0, 0, 0, 0, 0, 0, 0, 0, 0, 0, 0, 0, 0, 0, 0, 0, 0, 0, 0, 0, 0, 0, 0, 0, 0, 0, 0, 0, 0,
     0, 1, 0, 0, 0, 0, 0, 0, 0, 0, 0, 0, 1, 0, 0, 0, 32, 1, 0, 0, 64, 1, 0, 0, 128, 1, 0, 0, 0, 0, 0, 0]"

definition sample_linked :: linked where
  "sample_linked = \<lparr>li_memory = (\<lambda>p. if 256 \<le> p \<and> p < 448 then sample_image ! unat (p - 256) else 0),
     li_global = (\<lambda>i. of_nat (256 + 32 * i)), li_function = (\<lambda>f. 65536)\<rparr>"

definition sample_functions :: "string \<Rightarrow> nat option" where
  "sample_functions = [''mm'' \<mapsto> 0]"

definition free_at :: "dsp_heap \<Rightarrow> usize \<Rightarrow> nat \<Rightarrow> bool" where
  "free_at h p n \<longleftrightarrow> p < 262144 \<and> n \<le> 256 \<and>
     list_all (\<lambda>i. let a = p + of_nat i in a \<noteq> 0 \<and> a \<notin> set (map fst (hp_blocks h)) \<and>
       hp_executables h a = None \<and> hp_functions h a = None) [0..<n]"

definition next_block :: "dsp_heap \<Rightarrow> nat \<Rightarrow> usize" where
  "next_block h n = (let p = 131072 + 256 * of_nat (length (hp_blocks h)) in if free_at h p n then p else 0)"

definition sample_loader :: loader_env where
  "sample_loader = \<lparr>lo_memory = li_memory sample_linked, lo_calloc = next_block,
     lo_strdup = (\<lambda>h s. next_block h (length s + 1)), lo_dlopen = (\<lambda>h s. 1), lo_dlsym = (\<lambda>lib s. 2),
     lo_call_query = (\<lambda>q v e. const_value sample_linked (fst (buildExecutableMetadata sample_functions sample_variant []) v))\<rparr>"

definition empty_heap :: dsp_heap where
  "empty_heap = \<lparr>hp_blocks = [], hp_libraries = [], hp_executables = Map.empty, hp_functions = Map.empty\<rparr>"

lemma upt_small: "[0..<3] = [0, 1, 2 :: nat]" "[0..<4] = [0, 1, 2, 3 :: nat]" "[0..<8] = [0, 1, 2, 3, 4, 5, 6, 7 :: nat]"
  by (simp_all add: upt_rec)

lemma sample_build: "buildExecutableMetadata sample_functions sample_variant [] =
   (\<lambda>v. if v = 0x48580001 then Global_Const (Suc (Suc (Suc (Suc (Suc 0))))) else Null_Const,
   [Struct_Const [Int_Const 4 0x48580001], Array_Const Ptr_Type [Function_Const 0],
    Array_Const makeDispatchAttrsType [Struct_Const [Int_Const 8 7, Int_Const 8 5000, Int_Const 8 1]],
    Bytes_Const [109, 109, 0], Array_Const Ptr_Type [Global_Const 3],
    Struct_Const [Global_Const 0, Struct_Const [Int_Const 4 0, Null_Const],
      Struct_Const [Int_Const 4 1, Global_Const 1, Global_Const 2, Global_Const 4]]])"
  by (simp add: buildExecutableMetadata_eq build_library_def buildLibraryV0_eq library_globals_def import_globals_def
      export_globals_def import_table_def export_table_def variant_builder_def sample_variant_def sample_functions_def
      declared_exports_def dispatch_attrs_of_def attr_const_def string_consts_def string_bytes_def of_char_def
      RESOURCES_VALID_def USES_HVX_def USES_HMX_def VERSION_LATEST_def Let_def)

lemma sample_linked_ok: "linked_ok sample_linked (snd (buildExecutableMetadata sample_functions sample_variant []))"
  unfolding sample_build snd_conv
  by (simp add: linked_ok_def bytes_at_def le_bytes_def upt_small sample_linked_def sample_image_def round_up_def
      makeDispatchAttrsType_def)

lemma sample_load: "fst (executable_load sample_loader 1 ''x.so'' empty_heap) = Inr 131072"
  by code_simp

lemma sample_loader_laws: "allocator_laws sample_loader"
proof -
  have "fresh_block h (next_block h n) n" if "next_block h n \<noteq> 0" for h n
  proof -
    let ?p = "next_block h n"
    from that have f: "free_at h ?p n" by (auto simp: next_block_def Let_def split: if_splits)
    then have "unat ?p < 262144" "n \<le> 256" by (simp_all add: free_at_def word_less_nat_alt)
    then have "unat ?p + n \<le> 2 ^ 32" by simp
    with f show ?thesis by (auto simp: fresh_block_def free_at_def Let_def list_all_iff addresses_in_use_def)
  qed
  then show ?thesis by (simp add: allocator_laws_def sample_loader_def del: add_Suc_right)
qed

lemma sample_opens: "opens sample_loader sample_linked (fst (buildExecutableMetadata sample_functions sample_variant [])) name"
  unfolding opens_def sample_loader_def by (intro conjI exI [of _ 1] exI [of _ 2]) simp_all

theorem load_close_restores_witness:
  "executable_close 131072 (snd (executable_load sample_loader 1 ''x.so'' empty_heap)) = Inr (AEE_SUCCESS, empty_heap)"
proof -
  obtain h where h: "executable_load sample_loader 1 ''x.so'' empty_heap = (Inr 131072, h)"
    using sample_load by (metis prod.collapse)
  from load_close_restores [OF sample_loader_laws this] h show ?thesis by simp
qed

theorem built_library_loads_witness:
  "finds_export sample_loader sample_linked 131072 ''mm'' (snd (executable_load sample_loader 1 ''x.so'' empty_heap))
    \<lparr>le_name = ''mm'', le_attrs = \<lparr>hexagon_flags = 7, attr_vtcm_bytes = 5000, attr_threads = 1\<rparr>, le_func = 0\<rparr>"
proof -
  obtain h where h: "executable_load sample_loader 1 ''x.so'' empty_heap = (Inr 131072, h)"
    using sample_load by (metis prod.collapse)
  let ?m = "buildExecutableMetadata sample_functions sample_variant []"
  have b: "?m = (fst ?m, snd ?m)" by simp
  have "declared_exports sample_functions (va_exports sample_variant) =
      [\<lparr>le_name = ''mm'', le_attrs = \<lparr>hexagon_flags = 7, attr_vtcm_bytes = 5000, attr_threads = 1\<rparr>, le_func = 0\<rparr>]"
    by (simp add: declared_exports_def sample_functions_def sample_variant_def dispatch_attrs_of_def
        RESOURCES_VALID_def USES_HVX_def USES_HMX_def)
  with built_library_loads [OF b sample_linked_ok sample_opens sample_loader_laws _ _ _ h] h show ?thesis
    by (auto simp: sample_variant_def c_name_def dest: spec [of _ "''mm''"])
qed

text \<open>
  What the compiler measured is what the scheduler takes as declared: for the attributes of an
  export, the VTCM, the use of HMX and the number of tasks arrive unchanged, what could not be bounded
  counts as everything, and so does everything of an export that was not measured.
\<close>

theorem measured_resources_scheduled:
  assumes "fn_attrs f = Some (dispatch_attrs_of (map_option resources_attr measured))"
    and "case measured of None \<Rightarrow> True | Some r \<Rightarrow> int (vtcmBytes r) < 2 ^ 63 - 1"
  shows "declared_resources f =
    (case measured of
       None \<Rightarrow> (HEXAGON_RT_VTCM_PARTITION_ALL, True, UNBOUNDED)
     | Some r \<Rightarrow> (if vtcmUnbounded r then HEXAGON_RT_VTCM_PARTITION_ALL else of_nat (vtcmBytes r), hmx r,
         if threadsUnbounded r then UNBOUNDED else word_of_int (threads r)))"
proof (cases measured)
  case None
  with assms(1) show ?thesis by (simp add: declared_resources_def dispatch_attrs_of_def)
next
  case (Some r)
  have flags: "(RESOURCES_VALID OR (if a then USES_HVX else 0) OR (if b then USES_HMX else 0)) AND DISPATCH_FLAG_RESOURCES_VALID \<noteq> 0"
    "((RESOURCES_VALID OR (if a then USES_HVX else 0) OR (if b then USES_HMX else 0)) AND DISPATCH_FLAG_USES_HMX \<noteq> 0) = b" for a b
    by (cases a; cases b; simp add: RESOURCES_VALID_def USES_HVX_def USES_HMX_def DISPATCH_FLAG_RESOURCES_VALID_def
        DISPATCH_FLAG_USES_HMX_def)+
  have unbounded: "(word_of_int kUnboundedVTCMBytes :: u64) = UNBOUNDED" "(word_of_int kUnboundedThreads :: u64) = UNBOUNDED"
    by (simp_all add: kUnboundedVTCMBytes_def kUnboundedThreads_def UNBOUNDED_def)
  have bounded: "(of_nat (vtcmBytes r) :: u64) \<noteq> UNBOUNDED"
  proof
    assume "(of_nat (vtcmBytes r) :: u64) = UNBOUNDED"
    moreover have "unat (of_nat (vtcmBytes r) :: u64) = vtcmBytes r"
      unfolding unat_of_nat using assms(2) Some by (intro mod_less) simp
    ultimately have "vtcmBytes r = unat UNBOUNDED" by simp
    then show False using assms(2) Some by (simp add: UNBOUNDED_def)
  qed
  have cast: "ucast (of_nat n :: u64) = (of_nat n :: u32)" for n by (rule ucast_length)
  from assms(1) Some show ?thesis
    using flags bounded unbounded
    by (simp add: declared_resources_def dispatch_attrs_of_def resources_attr_def cast)
qed

theorem measured_resources_scheduled_witness:
  "declared_resources \<lparr>fn_dispatch_func = 0, fn_environment = 0, fn_name = None,
     fn_attrs = Some (dispatch_attrs_of (Some (resources_attr (initial_resources\<lparr>hmx := True, vtcmBytes := 4096\<rparr>))))\<rparr> =
   (4096, True, 1)"
  by (subst measured_resources_scheduled [where measured = "Some (initial_resources\<lparr>hmx := True, vtcmBytes := 4096\<rparr>)"])
    (simp_all add: initial_resources_def)

end
