(* ===== verification/Status_Codes.thy ===== *)
theory Status_Codes
  imports Dsp_Status
begin

text \<open>
  The status codes that the host makes of the errors of the DSP and of the C library, and the
  parsing of Boolean parameters: \<open>plugins/runtime/hexagon/utils.c\<close>. The numbers of the error codes
  come from headers that are not part of the repository; they are a parameter, a function from names.
\<close>

section \<open>Errors of the DSP\<close>

definition DSP_ERR_LIST :: "(string \<times> iree_status) list" where
  "DSP_ERR_LIST = [
    (''AEE_SUCCESS'', OK), (''AEE_EUNKNOWN'', UNKNOWN), (''AEE_EFAILED'', UNKNOWN),
    (''AEE_ENOMEMORY'', RESOURCE_EXHAUSTED), (''AEE_ECLASSNOTSUPPORT'', INCOMPATIBLE),
    (''AEE_EVERSIONNOTSUPPORT'', INCOMPATIBLE), (''AEE_EALREADYLOADED'', ALREADY_EXISTS),
    (''AEE_EUNABLETOLOAD'', FAILED_PRECONDITION), (''AEE_EUNABLETOUNLOAD'', FAILED_PRECONDITION),
    (''AEE_EALARMPENDING'', FAILED_PRECONDITION), (''AEE_EINVALIDTIME'', INVALID_ARGUMENT),
    (''AEE_EBADCLASS'', INVALID_ARGUMENT), (''AEE_EBADMETRIC'', INVALID_ARGUMENT),
    (''AEE_EEXPIRED'', DEADLINE_EXCEEDED), (''AEE_EBADSTATE'', FAILED_PRECONDITION),
    (''AEE_EBADPARM'', INVALID_ARGUMENT), (''AEE_ESCHEMENOTSUPPORTED'', INCOMPATIBLE),
    (''AEE_EBADITEM'', OUT_OF_RANGE), (''AEE_EINVALIDFORMAT'', INVALID_ARGUMENT),
    (''AEE_EINCOMPLETEITEM'', INVALID_ARGUMENT), (''AEE_ENOPERSISTMEMORY'', RESOURCE_EXHAUSTED),
    (''AEE_EUNSUPPORTED'', INCOMPATIBLE), (''AEE_EPRIVLEVEL'', PERMISSION_DENIED),
    (''AEE_ERESOURCENOTFOUND'', NOT_FOUND), (''AEE_EREENTERED'', FAILED_PRECONDITION),
    (''AEE_EBADTASK'', FAILED_PRECONDITION), (''AEE_EALLOCATED'', ALREADY_EXISTS),
    (''AEE_EALREADY'', ALREADY_EXISTS), (''AEE_EADSAUTHBAD'', UNAUTHENTICATED),
    (''AEE_ENEEDSERVICEPROG'', FAILED_PRECONDITION), (''AEE_EMEMPTR'', INVALID_ARGUMENT),
    (''AEE_EHEAP'', RESOURCE_EXHAUSTED), (''AEE_EIDLE'', FAILED_PRECONDITION),
    (''AEE_EITEMBUSY'', FAILED_PRECONDITION), (''AEE_EBADSID'', INVALID_ARGUMENT), (''AEE_ENOTYPE'', NOT_FOUND),
    (''AEE_ENEEDMORE'', INVALID_ARGUMENT), (''AEE_EADSCAPS'', INCOMPATIBLE),
    (''AEE_EBADSHUTDOWN'', FAILED_PRECONDITION), (''AEE_EBUFFERTOOSMALL'', RESOURCE_EXHAUSTED),
    (''AEE_EACKPENDING'', DEFERRED), (''AEE_ENOTOWNER'', PERMISSION_DENIED),
    (''AEE_EINVALIDITEM'', INVALID_ARGUMENT), (''AEE_ENOTALLOWED'', PERMISSION_DENIED),
    (''AEE_EOUTOFHANDLES'', RESOURCE_EXHAUSTED), (''AEE_ENOMORE'', NOT_FOUND),
    (''AEE_ECPUEXCEPTION'', INTERNAL), (''AEE_EREADONLY'', PERMISSION_DENIED), (''AEE_ERPC'', INTERNAL),
    (''AEE_EFILE'', INTERNAL), (''AEE_ENOSUCH'', NOT_FOUND), (''AEE_EINTERRUPTED'', ABORTED),
    (''AEE_EWOULDBLOCK'', DEFERRED), (''AEE_EINVALIDMSG'', INVALID_ARGUMENT),
    (''AEE_EINVALIDTHREAD'', INVALID_ARGUMENT), (''AEE_EINVALIDPROCESS'', INVALID_ARGUMENT),
    (''AEE_EINVALIDFILENAME'', INVALID_ARGUMENT), (''AEE_EINVALIDDIGESTSIZE'', INVALID_ARGUMENT),
    (''AEE_EINVALIDSEGS'', INVALID_ARGUMENT), (''AEE_EINVALIDSIGNATURE'', UNAUTHENTICATED),
    (''AEE_EINVALIDDOMAIN'', INVALID_ARGUMENT), (''AEE_EINVALIDFD'', INVALID_ARGUMENT),
    (''AEE_EINVALIDDEVICE'', NOT_FOUND), (''AEE_EINVALIDMODE'', INVALID_ARGUMENT),
    (''AEE_EINVALIDPROCNAME'', INVALID_ARGUMENT), (''AEE_ENOSUCHMOD'', NOT_FOUND),
    (''AEE_ENOSUCHINSTANCE'', NOT_FOUND), (''AEE_ENOSUCHTHREAD'', NOT_FOUND),
    (''AEE_ENOSUCHPROCESS'', NOT_FOUND), (''AEE_ENOSUCHSYMBOL'', NOT_FOUND), (''AEE_ENOSUCHDEVICE'', NOT_FOUND),
    (''AEE_ENOSUCHPROP'', NOT_FOUND), (''AEE_ENOSUCHFILE'', NOT_FOUND), (''AEE_ENOSUCHHANDLE'', NOT_FOUND),
    (''AEE_ENOSUCHSTREAM'', NOT_FOUND), (''AEE_ENOSUCHMAP'', NOT_FOUND), (''AEE_ENOSUCHREGISTER'', NOT_FOUND),
    (''AEE_ENOSUCHCLIENT'', NOT_FOUND), (''AEE_EBADDOMAIN'', INVALID_ARGUMENT),
    (''AEE_EBADSIZE'', INVALID_ARGUMENT), (''AEE_EBADPERMS'', PERMISSION_DENIED),
    (''AEE_EBADFD'', INVALID_ARGUMENT), (''AEE_EBADPID'', INVALID_ARGUMENT),
    (''AEE_EBADTID'', INVALID_ARGUMENT), (''AEE_EBADELF'', INVALID_ARGUMENT),
    (''AEE_EBADASID'', INVALID_ARGUMENT), (''AEE_EBADCONTEXT'', INVALID_ARGUMENT),
    (''AEE_EBADMEMALIGN'', INVALID_ARGUMENT), (''AEE_EIOCTL'', FAILED_PRECONDITION),
    (''AEE_EFOPEN'', NOT_FOUND), (''AEE_EFGETS'', INTERNAL), (''AEE_EFFLUSH'', INTERNAL),
    (''AEE_EFCLOSE'', INTERNAL), (''AEE_EEOF'', OUT_OF_RANGE), (''AEE_EFREAD'', INTERNAL),
    (''AEE_EFWRITE'', INTERNAL), (''AEE_EFGETPOS'', INTERNAL), (''AEE_EFSETPOS'', INTERNAL),
    (''AEE_EFTELL'', INTERNAL), (''AEE_EFSEEK'', INTERNAL), (''AEE_EFLEN'', OUT_OF_RANGE),
    (''AEE_EGETENV'', FAILED_PRECONDITION), (''AEE_ESETENV'', FAILED_PRECONDITION),
    (''AEE_EMMAP'', FAILED_PRECONDITION), (''AEE_EIONMAP'', FAILED_PRECONDITION),
    (''AEE_EIONALLOC'', RESOURCE_EXHAUSTED), (''AEE_ENORPCMEMORY'', RESOURCE_EXHAUSTED),
    (''AEE_ENOROOTOFTRUST'', UNAUTHENTICATED), (''AEE_ENOTLOCKED'', FAILED_PRECONDITION),
    (''AEE_ENOTINITIALIZED'', FAILED_PRECONDITION), (''AEE_EUNSUPPORTEDAPI'', INCOMPATIBLE),
    (''AEE_EUNPACK'', INTERNAL), (''AEE_EPOLL'', FAILED_PRECONDITION),
    (''AEE_EEVENTREAD'', FAILED_PRECONDITION), (''AEE_EMAXBUFS'', RESOURCE_EXHAUSTED),
    (''AEE_EINVARGS'', INVALID_ARGUMENT), (''AEE_ECONNREFUSED'', UNAVAILABLE),
    (''AEE_ENOSESSION'', UNAVAILABLE), (''AEE_EUNSIGNEDMOD'', PERMISSION_DENIED),
    (''AEE_EINVALIDHASH'', INVALID_ARGUMENT), (''AEE_EBADVA'', INVALID_ARGUMENT),
    (''AEE_ENOSUCHJOB'', NOT_FOUND), (''AEE_EBADMAPREFCNT'', INVALID_ARGUMENT),
    (''AEE_EBADPAGECNT'', INVALID_ARGUMENT), (''AEE_EMAPALREADYPRESENT'', ALREADY_EXISTS),
    (''AEE_ENOFREESECTION'', RESOURCE_EXHAUSTED), (''AEE_U2GCLIENT_OPEN'', FAILED_PRECONDITION),
    (''AEE_EDALDEVATTACH'', FAILED_PRECONDITION), (''AEE_EDALINTREGISTER'', FAILED_PRECONDITION),
    (''AEE_EDALINTUNREGISTER'', FAILED_PRECONDITION), (''AEE_EDALGETPROP'', NOT_FOUND),
    (''AEE_EDALGETVAL'', FAILED_PRECONDITION), (''AEE_EDCVSREQUEST'', FAILED_PRECONDITION),
    (''AEE_EQURTREGIONCREATE'', FAILED_PRECONDITION), (''AEE_EQURTCACHECLEAN'', FAILED_PRECONDITION),
    (''AEE_EQURTREGIONGETATTR'', FAILED_PRECONDITION), (''AEE_EQURTBADREGIONPERMS'', PERMISSION_DENIED),
    (''AEE_EQURTMEMPOOLADD'', RESOURCE_EXHAUSTED), (''AEE_EQURTREGISTERDEV'', FAILED_PRECONDITION),
    (''AEE_EQURTMEMPOOLCREATE'', RESOURCE_EXHAUSTED), (''AEE_EQURTGETVA'', FAILED_PRECONDITION),
    (''AEE_EQURTREGIONDELETE'', FAILED_PRECONDITION), (''AEE_EQURTMEMPOOLATTACH'', FAILED_PRECONDITION),
    (''AEE_EQURTTHREADCREATE'', RESOURCE_EXHAUSTED), (''AEE_EQURTCOPYTOUSER'', FAILED_PRECONDITION),
    (''AEE_EQURTMEMMAPCREATE'', RESOURCE_EXHAUSTED), (''AEE_EQURTINVHANDLE'', INVALID_ARGUMENT),
    (''AEE_EQURTBADASID'', INVALID_ARGUMENT), (''AEE_EQURTOPENFAILED'', FAILED_PRECONDITION),
    (''AEE_EQURTCOPYFROMUSER'', FAILED_PRECONDITION), (''AEE_EQURTLINELOCK'', FAILED_PRECONDITION),
    (''AEE_EQURTQDIDEFMETHOD'', FAILED_PRECONDITION), (''AEE_EQURTCREATEHANDLE'', FAILED_PRECONDITION),
    (''AEE_EQURTWRITABLEMEM'', FAILED_PRECONDITION), (''AEE_EQURTTHREADCREATEDEF'', RESOURCE_EXHAUSTED),
    (''AEE_EQURTLOOKUPVA'', NOT_FOUND), (''AEE_EQURTLOOKUPPA'', NOT_FOUND),
    (''AEE_EQURTMIGRATESECURE'', FAILED_PRECONDITION), (''AEE_EQURTQDIOPEN'', FAILED_PRECONDITION),
    (''AEE_EQURTMAPREMOVE'', FAILED_PRECONDITION), (''AEE_EQURTQDICLOSE'', FAILED_PRECONDITION),
    (''AEE_EQURTWAIT'', FAILED_PRECONDITION), (''AEE_EMMPMREQUEST'', FAILED_PRECONDITION),
    (''AEE_EMMPMRELEASE'', FAILED_PRECONDITION), (''AEE_EMMPMSETPARAM'', INVALID_ARGUMENT),
    (''AEE_EMMPMREGISTER'', FAILED_PRECONDITION), (''AEE_EMMPMGETINFO'', NOT_FOUND),
    (''AEE_EMAX_MMPM_CLIENTS'', RESOURCE_EXHAUSTED), (''AEE_EDCVSREGISTER'', FAILED_PRECONDITION),
    (''AEE_PDRREGFAIL'', FAILED_PRECONDITION), (''AEE_DEFAULT_PROCESS'', NOT_FOUND),
    (''AEE_ENULLCONTEXT'', INVALID_ARGUMENT), (''AEE_EINVALIDJOB'', INVALID_ARGUMENT),
    (''AEE_EBUSY'', FAILED_PRECONDITION), (''AEE_ESTUBSKELVERMISMATCH'', INCOMPATIBLE),
    (''AEE_EBADHANDLE'', INVALID_ARGUMENT)]"

text \<open>The offset that the codes of the DSP may have.\<close>

definition DSP_ERR_OFFSET :: i32 where "DSP_ERR_OFFSET = 0x80000400"

text \<open>The switch: the status, and the name for the message if the code is known.\<close>

definition make_status_from_dsp_err :: "(string \<Rightarrow> i32) \<Rightarrow> i32 \<Rightarrow> iree_status \<times> string option" where
  "make_status_from_dsp_err code dsp_err =
     (case find (\<lambda>(name, status). dsp_err = code name \<or> dsp_err = code name + DSP_ERR_OFFSET) DSP_ERR_LIST of
        None \<Rightarrow> (UNKNOWN, None)
      | Some (name, status) \<Rightarrow> (status, Some name))"

text \<open>The labels of the switch; a C compiler accepts it only if they differ.\<close>

definition dsp_err_labels :: "(string \<Rightarrow> i32) \<Rightarrow> i32 list" where
  "dsp_err_labels code = concat (map (\<lambda>(name, status). [code name, code name + DSP_ERR_OFFSET]) DSP_ERR_LIST)"

lemma find_label:
  assumes "distinct (concat (map (\<lambda>(n, s). [f n, g n]) xs))" and "(n, s) \<in> set xs" and "e \<in> {f n, g n}"
  shows "find (\<lambda>(n, s). e = f n \<or> e = g n) xs = Some (n, s)"
  using assms
proof (induction xs)
  case (Cons x xs)
  then show ?case by (cases x) (auto; force)
qed simp

text \<open>Every code of the list gets its status, with and without the offset.\<close>

lemma make_status_listed:
  assumes "distinct (dsp_err_labels code)" and "(name, status) \<in> set DSP_ERR_LIST"
  shows "make_status_from_dsp_err code (code name) = (status, Some name)"
    and "make_status_from_dsp_err code (code name + DSP_ERR_OFFSET) = (status, Some name)"
proof -
  note found = find_label [where f = code and g = "\<lambda>n. code n + DSP_ERR_OFFSET", OF assms(1) [unfolded dsp_err_labels_def] assms(2)]
  show "make_status_from_dsp_err code (code name) = (status, Some name)"
    unfolding make_status_from_dsp_err_def by (subst found) simp_all
  show "make_status_from_dsp_err code (code name + DSP_ERR_OFFSET) = (status, Some name)"
    unfolding make_status_from_dsp_err_def by (subst found) simp_all
qed

fun aee_name :: "aee \<Rightarrow> string" where
  "aee_name AEE_SUCCESS = ''AEE_SUCCESS''"
| "aee_name AEE_EFAILED = ''AEE_EFAILED''"
| "aee_name AEE_ENOMEMORY = ''AEE_ENOMEMORY''"
| "aee_name AEE_EBADPARM = ''AEE_EBADPARM''"
| "aee_name AEE_EBADITEM = ''AEE_EBADITEM''"
| "aee_name AEE_EINCOMPLETEITEM = ''AEE_EINCOMPLETEITEM''"
| "aee_name AEE_EWOULDBLOCK = ''AEE_EWOULDBLOCK''"
| "aee_name AEE_EUNABLETOLOAD = ''AEE_EUNABLETOLOAD''"
| "aee_name AEE_ERESOURCENOTFOUND = ''AEE_ERESOURCENOTFOUND''"
| "aee_name AEE_EUNSUPPORTED = ''AEE_EUNSUPPORTED''"
| "aee_name AEE_EVERSIONNOTSUPPORT = ''AEE_EVERSIONNOTSUPPORT''"

text \<open>The status function of the model is this table on the codes that the DSP runtime returns.\<close>

lemma status_from_dsp_err_table: "map_of DSP_ERR_LIST (aee_name e) = Some (status_from_dsp_err e)"
  by (cases e) (simp_all add: DSP_ERR_LIST_def)

section \<open>Errors of the C library\<close>

definition ERR_NO_LIST :: "(string \<times> iree_status) list" where
  "ERR_NO_LIST = [
    (''ECANCELED'', CANCELLED), (''EBADF'', INVALID_ARGUMENT), (''EFAULT'', INVALID_ARGUMENT),
    (''EINVAL'', INVALID_ARGUMENT), (''ENODEV'', NOT_FOUND), (''ENOTDIR'', NOT_FOUND), (''ENOENT'', NOT_FOUND),
    (''ENXIO'', NOT_FOUND), (''EEXIST'', ALREADY_EXISTS), (''EACCES'', PERMISSION_DENIED),
    (''EPERM'', PERMISSION_DENIED), (''EROFS'', PERMISSION_DENIED), (''ENOMEM'', RESOURCE_EXHAUSTED),
    (''EIO'', RESOURCE_EXHAUSTED), (''EMFILE'', RESOURCE_EXHAUSTED), (''ENOSPC'', RESOURCE_EXHAUSTED),
    (''E2BIG'', OUT_OF_RANGE), (''EFBIG'', OUT_OF_RANGE), (''EAGAIN'', DEFERRED), (''EBUSY'', DEFERRED),
    (''ENOEXEC'', INCOMPATIBLE)]"

text \<open>Every label of the switch assigns the status to itself.\<close>

definition make_status_from_errno :: "string \<Rightarrow> iree_status" where
  "make_status_from_errno err_no =
     (let status_code = UNKNOWN
      in case map_of ERR_NO_LIST err_no of None \<Rightarrow> status_code | Some status_code_ \<Rightarrow> status_code)"

lemma make_status_from_errno_unknown: "make_status_from_errno err_no = UNKNOWN"
  by (simp add: make_status_from_errno_def split: option.splits)

section \<open>Boolean parameters\<close>

definition to_lower :: "char \<Rightarrow> char" where
  "to_lower c = (if 65 \<le> (of_char c :: nat) \<and> (of_char c :: nat) \<le> 90 then char_of (of_char c + (32 :: nat)) else c)"

definition string_view_equal_case :: "string \<Rightarrow> string \<Rightarrow> bool" where
  "string_view_equal_case s t \<longleftrightarrow> map to_lower s = map to_lower t"

definition accepted_bools :: "(string \<times> bool) list" where
  "accepted_bools = [(''true'', True), (''false'', False), (''yes'', True), (''no'', False),
     (''y'', True), (''n'', False), (''1'', True), (''0'', False)]"

definition parse_bool_from_string :: "string \<Rightarrow> iree_status + bool" where
  "parse_bool_from_string str =
     (case find (\<lambda>(s, parsed). string_view_equal_case str s) accepted_bools of
        None \<Rightarrow> Inl INVALID_ARGUMENT
      | Some (s, parsed) \<Rightarrow> Inr parsed)"

end
