(* ===== verification/Host_Executable.thy ===== *)
theory Host_Executable
  imports Executable_Loading Status_Codes
begin

text \<open>
  Executables on the host: \<open>plugins/runtime/hexagon/executable.c\<close> and \<open>executable_cache.c\<close>. The
  host writes the ELF image to a temporary file, has the DSP load it, and forwards lookups. Memory of
  the host is a count of blocks, the temporary files are a list of paths, and the DSP has its heap.
  Whether an allocation succeeds, the path that \<open>mkstemps\<close> makes of the template, how much \<open>write\<close>
  writes, \<open>errno\<close> and the loader of the DSP are the parameter \<open>host_exec_env\<close>.
\<close>

section \<open>State\<close>

record host_executable =
  hx_session :: u64
  hx_so_file_path :: "string option"
  hx_rpc_handle :: i64

record host_state =
  hs_blocks :: nat
  hs_files :: "string list"
  hs_dsp :: dsp_heap

record host_exec_env =
  ho_malloc :: "host_state \<Rightarrow> bool"
  ho_tmpdir :: "string option"
  ho_mkstemps :: "host_state \<Rightarrow> string \<Rightarrow> bool \<times> string"
  ho_write :: "u8 list \<Rightarrow> int"
  ho_errno :: string
  ho_loader :: loader_env

definition host_malloc :: "host_exec_env \<Rightarrow> host_state \<Rightarrow> iree_status + host_state" where
  "host_malloc env s = (if ho_malloc env s then Inr (s\<lparr>hs_blocks := hs_blocks s + 1\<rparr>) else Inl RESOURCE_EXHAUSTED)"

section \<open>Creation and destruction\<close>

definition elf_magic :: "u8 list" where
  "elf_magic = [0x7F, of_char (CHR ''E''), of_char (CHR ''L''), of_char (CHR ''F'')]"

definition so_file_slash_name :: string where
  "so_file_slash_name = ''/iree-run-module-hexagon-XXXXXX.so''"

definition executable_destroy :: "host_executable \<Rightarrow> host_state \<Rightarrow> host_state" where
  "executable_destroy ex s =
     (let s = (case hx_so_file_path ex of
                 None \<Rightarrow> s
               | Some path \<Rightarrow> s\<lparr>hs_files := removeAll path (hs_files s), hs_blocks := hs_blocks s - 1\<rparr>)
      in s\<lparr>hs_blocks := hs_blocks s - 1\<rparr>)"

definition executable_set_up ::
  "host_exec_env \<Rightarrow> u8 list \<Rightarrow> host_executable \<Rightarrow> host_state \<Rightarrow> iree_status \<times> host_executable \<times> host_state" where
  "executable_set_up env data ex s =
     (if length data < length elf_magic \<or> take (length elf_magic) data \<noteq> elf_magic then (INVALID_ARGUMENT, ex, s)
      else let tmpdir = (case ho_tmpdir env of None \<Rightarrow> ''/tmp'' | Some d \<Rightarrow> d)
      in case host_malloc env s of
           Inl e \<Rightarrow> (e, ex, s)
         | Inr s \<Rightarrow>
             (let (ok, path) = ho_mkstemps env s (tmpdir @ so_file_slash_name);
                  ex = ex\<lparr>hx_so_file_path := Some path\<rparr>
              in if \<not> ok then (make_status_from_errno (ho_errno env), ex, s)
                 else let s = s\<lparr>hs_files := path # hs_files s\<rparr>
                      in if ho_write env data \<noteq> int (length data) then (make_status_from_errno (ho_errno env), ex, s)
                         else case executable_load (ho_loader env) (hx_session ex) path (hs_dsp s) of
                             (Inl e, dsp) \<Rightarrow> (status_from_dsp_err e, ex, s\<lparr>hs_dsp := dsp\<rparr>)
                           | (Inr handle, dsp) \<Rightarrow> (OK, ex\<lparr>hx_rpc_handle := handle\<rparr>, s\<lparr>hs_dsp := dsp\<rparr>)))"

definition executable_create ::
  "host_exec_env \<Rightarrow> u64 \<Rightarrow> u8 list \<Rightarrow> host_state \<Rightarrow> (iree_status + host_executable) \<times> host_state" where
  "executable_create env session data s =
     (case host_malloc env s of
        Inl e \<Rightarrow> (Inl e, s)
      | Inr s \<Rightarrow>
          (case executable_set_up env data \<lparr>hx_session = session, hx_so_file_path = None, hx_rpc_handle = 0\<rparr> s of
             (status, ex, s) \<Rightarrow>
               if status = OK then (Inr ex, s) else (Inl status, executable_destroy ex s)))"

section \<open>Lookup\<close>

definition lookup_function_by_name ::
  "host_exec_env \<Rightarrow> host_executable \<Rightarrow> string \<Rightarrow> host_state \<Rightarrow> fault + (iree_status + u64)" where
  "lookup_function_by_name env ex name s =
     (case host_malloc env s of
        Inl e \<Rightarrow> Inr (Inl e)
      | Inr _ \<Rightarrow>
          (case lookup_function (ho_loader env) (hx_rpc_handle ex) (takeWhile (\<lambda>c. c \<noteq> CHR 0x00) name) (hs_dsp s) of
             Inl f \<Rightarrow> Inl f
           | Inr (Inl e) \<Rightarrow> Inr (Inl (if e = AEE_ERESOURCENOTFOUND then NOT_FOUND else status_from_dsp_err e))
           | Inr (Inr handle) \<Rightarrow> Inr (Inr handle)))"

section \<open>The executable cache\<close>

definition can_prepare_format :: "string \<Rightarrow> bool" where
  "can_prepare_format executable_format \<longleftrightarrow> executable_format = ''{null-executable}''"

definition prepare_executable ::
  "host_exec_env \<Rightarrow> u64 \<Rightarrow> u8 list \<Rightarrow> host_state \<Rightarrow> (iree_status + host_executable) \<times> host_state" where
  "prepare_executable env session data s = executable_create env session data s"

section \<open>What the operations leave behind\<close>

text \<open>\<open>mkstemps\<close> makes a file that did not exist; when it fails, no file has the path it leaves.\<close>

definition host_laws :: "host_exec_env \<Rightarrow> bool" where
  "host_laws env \<longleftrightarrow> allocator_laws (ho_loader env) \<and>
     (\<forall>s template. snd (ho_mkstemps env s template) \<notin> set (hs_files s))"

lemma host_malloc_Inr: "host_malloc env s = Inr s' \<longleftrightarrow> ho_malloc env s \<and> s' = s\<lparr>hs_blocks := hs_blocks s + 1\<rparr>"
  by (auto simp: host_malloc_def)

lemma status_not_ok: "e \<noteq> AEE_SUCCESS \<Longrightarrow> status_from_dsp_err e \<noteq> OK"
  by (cases e) simp_all

lemma load_error:
  "allocator_laws env \<Longrightarrow> executable_load env rpc name h = (Inl e, h') \<Longrightarrow> h' = h \<and> e \<noteq> AEE_SUCCESS"
  using executable_load_restores [of env rpc name h "Inl e" h'] by auto

lemma executable_set_up_cases:
  assumes laws: "host_laws env" and s0: "s0 = s\<lparr>hs_blocks := hs_blocks s + 1\<rparr>"
    and ex0: "ex0 = \<lparr>hx_session = session, hx_so_file_path = None, hx_rpc_handle = 0\<rparr>"
    and run: "executable_set_up env data ex0 s0 = (status, ex, s1)"
  obtains (fails) "status \<noteq> OK" "executable_destroy ex s1 = s"
    | (loads) path handle dsp where "status = OK" "path \<notin> set (hs_files s)"
        "ex = \<lparr>hx_session = session, hx_so_file_path = Some path, hx_rpc_handle = handle\<rparr>"
        "executable_load (ho_loader env) session path (hs_dsp s) = (Inr handle, dsp)"
        "s1 = s\<lparr>hs_blocks := hs_blocks s + 2, hs_files := path # hs_files s, hs_dsp := dsp\<rparr>"
proof -
  let ?d = "case ho_tmpdir env of None \<Rightarrow> ''/tmp'' | Some d \<Rightarrow> d"
  let ?s1 = "s0\<lparr>hs_blocks := hs_blocks s0 + 1\<rparr>"
  obtain ok path where mk: "ho_mkstemps env ?s1 (?d @ so_file_slash_name) = (ok, path)" by force
  have new: "path \<notin> set (hs_files s)"
  proof -
    have "snd (ho_mkstemps env ?s1 (?d @ so_file_slash_name)) \<notin> set (hs_files ?s1)"
      using laws unfolding host_laws_def by blast
    then show ?thesis unfolding mk snd_conv by (simp add: s0)
  qed
  have none: "executable_destroy ex0 s0 = s" by (simp add: executable_destroy_def ex0 s0)
  have undo: "executable_destroy (ex0\<lparr>hx_so_file_path := Some path\<rparr>) ?s1 = s"
    "executable_destroy (ex0\<lparr>hx_so_file_path := Some path\<rparr>) (?s1\<lparr>hs_files := path # hs_files ?s1\<rparr>) = s"
    using new by (simp_all add: executable_destroy_def ex0 s0 Let_def)
  let ?s2 = "?s1\<lparr>hs_files := path # hs_files ?s1\<rparr>" and ?ex1 = "ex0\<lparr>hx_so_file_path := Some path\<rparr>"
  obtain lr dsp where load: "executable_load (ho_loader env) session path (hs_dsp s) = (lr, dsp)" by fastforce
  have loaded: "executable_load (ho_loader env) (hx_session ?ex1) path (hs_dsp ?s2) = (lr, dsp)"
    using load by (simp add: ex0 s0)
  show ?thesis
  proof (cases "length data < length elf_magic \<or> take (length elf_magic) data \<noteq> elf_magic \<or> \<not> ho_malloc env s0")
    case True
    then have "(status, ex, s1) = (INVALID_ARGUMENT, ex0, s0) \<or> (status, ex, s1) = (RESOURCE_EXHAUSTED, ex0, s0)"
      using run by (auto simp: executable_set_up_def host_malloc_def split: if_splits)
    with none show ?thesis by (intro fails) auto
  next
    case False
    then have r: "(status, ex, s1) = (if \<not> ok then (make_status_from_errno (ho_errno env), ?ex1, ?s1)
        else if ho_write env data \<noteq> int (length data) then (make_status_from_errno (ho_errno env), ?ex1, ?s2)
        else case lr of Inl e \<Rightarrow> (status_from_dsp_err e, ?ex1, ?s2\<lparr>hs_dsp := dsp\<rparr>)
          | Inr handle \<Rightarrow> (OK, ?ex1\<lparr>hx_rpc_handle := handle\<rparr>, ?s2\<lparr>hs_dsp := dsp\<rparr>))"
      unfolding run [symmetric] executable_set_up_def host_malloc_def
      by (simp add: mk [simplified] Let_def loaded [simplified] split: sum.split)
    show ?thesis
    proof (cases "ok \<and> ho_write env data = int (length data)")
      case False
      with r have "status = UNKNOWN" "(ex, s1) = (?ex1, ?s1) \<or> (ex, s1) = (?ex1, ?s2)"
        by (auto simp: make_status_from_errno_unknown split: if_splits)
      with undo show ?thesis by (intro fails) auto
    next
      case ok: True
      show ?thesis
      proof (cases lr)
        case (Inl e)
        have "dsp = hs_dsp s \<and> e \<noteq> AEE_SUCCESS"
          using laws load Inl unfolding host_laws_def by (intro load_error) auto
        moreover from this have "?s2\<lparr>hs_dsp := dsp\<rparr> = ?s2" by (simp add: s0)
        ultimately show ?thesis using r ok Inl undo(2) status_not_ok by (intro fails) auto
      next
        case (Inr handle)
        with r ok have "status = OK" "ex = ?ex1\<lparr>hx_rpc_handle := handle\<rparr>" "s1 = ?s2\<lparr>hs_dsp := dsp\<rparr>" by simp_all
        with new load Inr show ?thesis by (intro loads) (simp_all add: ex0 s0)
      qed
    qed
  qed
qed


definition sample_host_env :: host_exec_env where
  "sample_host_env = \<lparr>ho_malloc = (\<lambda>s. True), ho_tmpdir = None,
     ho_mkstemps = (\<lambda>s template. (True, CHR ''x'' # concat (hs_files s))), ho_write = (\<lambda>data. int (length data)), ho_errno = [],
     ho_loader = sample_loader\<rparr>"

definition sample_host_state :: host_state where
  "sample_host_state = \<lparr>hs_blocks = 0, hs_files = [], hs_dsp = empty_heap\<rparr>"

lemma sample_host_laws: "host_laws sample_host_env"
proof -
  have "length x \<le> length (concat xs)" if "x \<in> set xs" for x :: string and xs
    using that by (induction xs) auto
  then have "CHR ''x'' # concat xs \<notin> set xs" for xs
    by (metis length_Cons not_less_eq_eq order_refl)
  then show ?thesis using sample_loader_laws by (simp add: host_laws_def sample_host_env_def)
qed

lemma sample_host_create:
  "map_sum id hx_rpc_handle (fst (executable_create sample_host_env 1 [0x7F, 69, 76, 70, 1] sample_host_state)) = Inr 131072"
  by code_simp


end
