(* ===== verification/Rpc_Memory.thy ===== *)
theory Rpc_Memory
  imports Residency
begin

unbundle bit_operations_syntax

text \<open>
  Memory shared with the DSP: \<open>plugins/runtime/hexagon/mem_alloc.c\<close>, \<open>buffer.c\<close> and the allocation of
  buffers in \<open>allocator.c\<close>. An allocation is registered with the DSP without being mapped; the DSP
  maps it when a command uses it, through the residency cache of its session. The host must not
  deregister an allocation that the DSP has mapped, so releasing one first asks the DSP to forget it.

  Structures of the host are numbers. The allocators and the driver answer as functions of the number
  of calls so far; \<open>rpcmem_to_fd\<close> answers with a file descriptor that depends on the live ones. The
  session of the DSP stays alive, and assertions are compiled out.
\<close>

section \<open>State and environment\<close>

record mem_alloc =
  ma_size :: u64
  ma_alloc_size :: u64
  ma_ref_count :: u32
  ma_fd :: i32
  ma_dsp_used :: bool

record memory =
  mm_allocs :: "nat \<Rightarrow> mem_alloc option"
  mm_buffers :: "nat \<Rightarrow> nat option"
  mm_rpcmem :: "i32 set"
  mm_registered :: "i32 set"
  mm_residency :: residency
  mm_next :: nat

record memory_env =
  me_malloc :: "nat \<Rightarrow> iree_status + unit"
  me_rpcmem_alloc :: "nat \<Rightarrow> u64 \<Rightarrow> bool"
  me_rpcmem_to_fd :: "i32 set \<Rightarrow> i32"
  me_fastrpc_mmap :: "nat \<Rightarrow> i32 \<Rightarrow> u64 \<Rightarrow> aee"
  me_dsp :: dsp_env

text \<open>A file descriptor stands for one allocation.\<close>

definition to_fd_law :: "memory_env \<Rightarrow> bool" where
  "to_fd_law env \<longleftrightarrow> (\<forall>S. me_rpcmem_to_fd env S = - 1 \<or> me_rpcmem_to_fd env S \<notin> S)"

section \<open>\<open>mem_alloc.c\<close>\<close>

definition MEM_ALLOC_ALIGN :: u64 where
  "MEM_ALLOC_ALIGN = 128"

definition padded_size :: "u64 \<Rightarrow> u64" where
  "padded_size n = (n + 2 * MEM_ALLOC_ALIGN - 1) AND NOT (MEM_ALLOC_ALIGN - 1)"

definition next_call :: "memory \<Rightarrow> memory" where
  "next_call m = m\<lparr>mm_next := Suc (mm_next m)\<rparr>"

definition mem_alloc_create :: "memory_env \<Rightarrow> u64 \<Rightarrow> memory \<Rightarrow> (iree_status + nat) \<times> memory" where
  "mem_alloc_create env n m =
     (let aid = mm_next m; m = next_call m; alloc_size = padded_size n
      in case me_malloc env aid of
           Inl e \<Rightarrow> (Inl e, m)
         | Inr _ \<Rightarrow>
             if alloc_size > 2147483647 then (Inl INVALID_ARGUMENT, m)
             else if \<not> me_rpcmem_alloc env aid alloc_size then (Inl RESOURCE_EXHAUSTED, m)
             else let fd = me_rpcmem_to_fd env (mm_rpcmem m);
                      dsp_err = (if fd = - 1 then AEE_EFAILED else me_fastrpc_mmap env aid fd alloc_size)
                  in if dsp_err \<noteq> AEE_SUCCESS then (Inl (status_from_dsp_err dsp_err), m)
                     else (Inr aid, m\<lparr>mm_allocs := (mm_allocs m)(aid \<mapsto> \<lparr>ma_size = n, ma_alloc_size = alloc_size,
                               ma_ref_count = 1, ma_fd = fd, ma_dsp_used = False\<rparr>),
                             mm_rpcmem := insert fd (mm_rpcmem m), mm_registered := insert fd (mm_registered m)\<rparr>))"

text \<open>The other operations fail when the structure has been freed.\<close>

definition mem_alloc_retain :: "nat \<Rightarrow> memory \<Rightarrow> memory option" where
  "mem_alloc_retain aid m =
     (case mm_allocs m aid of None \<Rightarrow> None
      | Some a \<Rightarrow> Some (m\<lparr>mm_allocs := (mm_allocs m)(aid \<mapsto> a\<lparr>ma_ref_count := ma_ref_count a + 1\<rparr>)\<rparr>))"

definition mem_alloc_release :: "memory_env \<Rightarrow> nat \<Rightarrow> memory \<Rightarrow> memory option" where
  "mem_alloc_release env aid m =
     (case mm_allocs m aid of None \<Rightarrow> None
      | Some a \<Rightarrow>
          let ref_count = ma_ref_count a - 1
          in if ref_count > 0
             then Some (m\<lparr>mm_allocs := (mm_allocs m)(aid \<mapsto> a\<lparr>ma_ref_count := ref_count\<rparr>)\<rparr>)
             else case (if ma_dsp_used a then residency_forget (me_dsp env) (ma_fd a) (mm_residency m)
                        else (False, mm_residency m)) of (still_used, r) \<Rightarrow>
               let m = m\<lparr>mm_allocs := (mm_allocs m)(aid := None), mm_residency := r\<rparr>
               in if still_used then Some m
                  else Some (m\<lparr>mm_registered := mm_registered m - {ma_fd a}, mm_rpcmem := mm_rpcmem m - {ma_fd a}\<rparr>))"

definition mem_alloc_get_fd :: "nat \<Rightarrow> memory \<Rightarrow> ((i32 \<times> u64) \<times> memory) option" where
  "mem_alloc_get_fd aid m =
     (case mm_allocs m aid of None \<Rightarrow> None
      | Some a \<Rightarrow> Some ((ma_fd a, ma_alloc_size a), m\<lparr>mm_allocs := (mm_allocs m)(aid \<mapsto> a\<lparr>ma_dsp_used := True\<rparr>)\<rparr>))"

section \<open>\<open>buffer.c\<close> and \<open>allocator.c\<close>\<close>

definition buffer_wrap :: "memory_env \<Rightarrow> nat \<Rightarrow> memory \<Rightarrow> ((iree_status + nat) \<times> memory) option" where
  "buffer_wrap env aid m =
     (let b = mm_next m; m = next_call m
      in case me_malloc env b of
           Inl e \<Rightarrow> Some (Inl e, m)
         | Inr _ \<Rightarrow> map_option (\<lambda>m. (Inr b, m\<lparr>mm_buffers := (mm_buffers m)(b \<mapsto> aid)\<rparr>)) (mem_alloc_retain aid m))"

definition buffer_destroy :: "memory_env \<Rightarrow> nat \<Rightarrow> memory \<Rightarrow> memory option" where
  "buffer_destroy env b m =
     (case mm_buffers m b of None \<Rightarrow> None
      | Some aid \<Rightarrow> mem_alloc_release env aid (m\<lparr>mm_buffers := (mm_buffers m)(b := None)\<rparr>))"

definition buffer_get_fd_for_dsp :: "bool \<Rightarrow> nat \<Rightarrow> memory \<Rightarrow> ((iree_status + i32 \<times> u64) \<times> memory) option" where
  "buffer_get_fd_for_dsp isa b m =
     (if \<not> isa then Some (Inl INCOMPATIBLE, m)
      else case mm_buffers m b of None \<Rightarrow> None
      | Some aid \<Rightarrow> map_option (\<lambda>(f, m). (Inr f, m)) (mem_alloc_get_fd aid m))"

text \<open>The range is checked in 64-bit arithmetic; the answers of IREE's validations come first.\<close>

definition buffer_map_range ::
  "iree_status + unit \<Rightarrow> iree_status + unit \<Rightarrow> mem_alloc \<Rightarrow> u64 \<Rightarrow> u64 \<Rightarrow> iree_status + u64 \<times> u64" where
  "buffer_map_range validate_memory_type validate_usage a local_byte_offset local_byte_length =
     bind_res validate_memory_type (\<lambda>_.
     bind_res validate_usage (\<lambda>_.
     if local_byte_offset > ma_size a \<or> local_byte_offset + local_byte_length > ma_size a then Inl OUT_OF_RANGE
     else Inr (local_byte_offset, local_byte_length)))"

definition allocate_buffer :: "memory_env \<Rightarrow> u64 \<Rightarrow> memory \<Rightarrow> ((iree_status + nat) \<times> memory) option" where
  "allocate_buffer env allocation_size m =
     (let allocation_size = (if allocation_size = 0 then 4 else allocation_size)
      in case mem_alloc_create env allocation_size m of
           (Inl e, m) \<Rightarrow> Some (Inl e, m)
         | (Inr aid, m) \<Rightarrow>
             (case buffer_wrap env aid m of None \<Rightarrow> None
              | Some (st, m) \<Rightarrow> map_option (\<lambda>m. (st, m)) (mem_alloc_release env aid m)))"

section \<open>The host and the DSP together\<close>

definition initial_memory :: "residency \<Rightarrow> memory" where
  "initial_memory r = \<lparr>mm_allocs = (\<lambda>_. None), mm_buffers = (\<lambda>_. None), mm_rpcmem = {}, mm_registered = {},
     mm_residency = r, mm_next = 0\<rparr>"

text \<open>The DSP acquires what the host has handed out: the file descriptors in commands come from
  buffers that the command buffer or the caller keeps alive.\<close>

inductive memory_reachable :: "memory_env \<Rightarrow> memory \<Rightarrow> bool" for env where
  mem_start: "memory_reachable env (initial_memory (residency_create []))"
| mem_allocate: "memory_reachable env m \<Longrightarrow> allocate_buffer env n m = Some (res, m') \<Longrightarrow> memory_reachable env m'"
| mem_destroy: "memory_reachable env m \<Longrightarrow> buffer_destroy env b m = Some m' \<Longrightarrow> memory_reachable env m'"
| mem_hand_out: "memory_reachable env m \<Longrightarrow> buffer_get_fd_for_dsp isa b m = Some (res, m') \<Longrightarrow> memory_reachable env m'"
| mem_acquire: "memory_reachable env m \<Longrightarrow> mm_allocs m aid = Some a \<Longrightarrow> ma_dsp_used a \<Longrightarrow>
    holds (mm_residency m) (ma_fd a) < 2 ^ 32 - 1 \<Longrightarrow>
    residency_acquire (me_dsp env) (ma_fd a) (ma_alloc_size a) (mm_residency m) = (v, r) \<Longrightarrow>
    memory_reachable env (m\<lparr>mm_residency := r\<rparr>)"
| mem_release: "memory_reachable env m \<Longrightarrow> memory_reachable env (m\<lparr>mm_residency := residency_release fd (mm_residency m)\<rparr>)"

text \<open>The invariant: what the DSP maps is registered, and what is registered is allocated. Every
  allocation belongs to one buffer, has a file descriptor of its own and is mapped only when it was
  handed out.\<close>

definition alloc_ok :: "memory \<Rightarrow> mem_alloc \<Rightarrow> bool" where
  "alloc_ok m a \<longleftrightarrow> ma_ref_count a = 1 \<and> ma_fd a \<in> mm_registered m \<and>
     (ma_fd a \<in> mapped_fds (mm_residency m) \<longrightarrow> ma_dsp_used a)"

definition memory_ok :: "memory_env \<Rightarrow> memory \<Rightarrow> bool" where
  "memory_ok env m \<longleftrightarrow> (residency_ok (mm_residency m) \<and> mmap_law (me_dsp env)) \<and>
     mapped_fds (mm_residency m) \<subseteq> mm_registered m \<and> mm_registered m = mm_rpcmem m \<and>
     (\<forall>aid a. mm_allocs m aid = Some a \<longrightarrow> alloc_ok m a \<and> aid < mm_next m \<and> (\<exists>b. mm_buffers m b = Some aid)) \<and>
     (\<forall>i j a b. mm_allocs m i = Some a \<longrightarrow> mm_allocs m j = Some b \<longrightarrow> ma_fd a = ma_fd b \<longrightarrow> i = j) \<and>
     (\<forall>b aid. mm_buffers m b = Some aid \<longrightarrow> b < mm_next m \<and> mm_allocs m aid \<noteq> None) \<and>
     (\<forall>b c aid. mm_buffers m b = Some aid \<longrightarrow> mm_buffers m c = Some aid \<longrightarrow> b = c)"

lemma memory_okD:
  assumes "memory_ok env m"
  shows "residency_ok (mm_residency m) \<and> mmap_law (me_dsp env)" and "mapped_fds (mm_residency m) \<subseteq> mm_registered m"
    and "mm_registered m = mm_rpcmem m"
    and "mm_allocs m aid = Some a \<Longrightarrow> alloc_ok m a \<and> aid < mm_next m \<and> (\<exists>b. mm_buffers m b = Some aid)"
    and "mm_allocs m i = Some a \<Longrightarrow> mm_allocs m j = Some b \<Longrightarrow> ma_fd a = ma_fd b \<Longrightarrow> i = j"
    and "mm_buffers m x = Some aid \<Longrightarrow> x < mm_next m \<and> mm_allocs m aid \<noteq> None"
    and "mm_buffers m x = Some aid \<Longrightarrow> mm_buffers m y = Some aid \<Longrightarrow> x = y"
  using assms unfolding memory_ok_def by blast+

lemma memory_ok_next: "memory_ok env m \<Longrightarrow> mm_next m \<le> n \<Longrightarrow> memory_ok env (m\<lparr>mm_next := n\<rparr>)"
  unfolding memory_ok_def alloc_ok_def by (fastforce intro: less_le_trans)

text \<open>A buffer that was allocated is new and the only one of its allocation.\<close>

definition with_buffer :: "nat \<Rightarrow> nat \<Rightarrow> mem_alloc \<Rightarrow> memory \<Rightarrow> memory" where
  "with_buffer b aid a m = m\<lparr>mm_allocs := (mm_allocs m)(aid \<mapsto> a), mm_buffers := (mm_buffers m)(b \<mapsto> aid),
     mm_rpcmem := insert (ma_fd a) (mm_rpcmem m), mm_registered := insert (ma_fd a) (mm_registered m),
     mm_next := Suc (Suc (mm_next m))\<rparr>"

lemma with_buffer_ok:
  assumes ok: "memory_ok env m" and new: "ma_fd a \<notin> mm_rpcmem m" and a: "ma_ref_count a = 1" "\<not> ma_dsp_used a"
    and aid: "aid = mm_next m" and b: "b = Suc (mm_next m)"
  shows "memory_ok env (with_buffer b aid a m)"
proof -
  note D = memory_okD [OF ok]
  have unmapped: "ma_fd a \<notin> mapped_fds (mm_residency m)" using new D(2,3) by auto
  have other: "ma_fd x \<noteq> ma_fd a" if "mm_allocs m i = Some x" for i x
    using D(4) [OF that] D(3) new by (auto simp: alloc_ok_def)
  have none: "mm_allocs m aid = None" using D(4) [of aid] aid by (cases "mm_allocs m aid") auto
  have nb: "mm_buffers m b = None" using D(6) [of b] b by (cases "mm_buffers m b") auto
  have nid: "mm_buffers m x \<noteq> Some aid" for x using D(6) [of x aid] none by auto
  show ?thesis
    unfolding memory_ok_def
  proof (intro conjI)
    show "\<forall>i x. mm_allocs (with_buffer b aid a m) i = Some x \<longrightarrow>
        alloc_ok (with_buffer b aid a m) x \<and> i < mm_next (with_buffer b aid a m) \<and> (\<exists>c. mm_buffers (with_buffer b aid a m) c = Some i)"
    proof (intro allI impI)
      fix i x
      assume x: "mm_allocs (with_buffer b aid a m) i = Some x"
      show "alloc_ok (with_buffer b aid a m) x \<and> i < mm_next (with_buffer b aid a m) \<and> (\<exists>c. mm_buffers (with_buffer b aid a m) c = Some i)"
      proof (cases "i = aid")
        case True
        with x a unmapped aid show ?thesis by (auto simp: with_buffer_def alloc_ok_def)
      next
        case False
        with x have i: "mm_allocs m i = Some x" by (simp add: with_buffer_def)
        then obtain c where c: "mm_buffers m c = Some i" using D(4) by blast
        with nb have "c \<noteq> b" by auto
        with c D(4) [OF i] show ?thesis by (auto simp: with_buffer_def alloc_ok_def)
      qed
    qed
    show "\<forall>i j x y. mm_allocs (with_buffer b aid a m) i = Some x \<longrightarrow> mm_allocs (with_buffer b aid a m) j = Some y \<longrightarrow>
        ma_fd x = ma_fd y \<longrightarrow> i = j"
      using other D(5) by (auto simp: with_buffer_def dest: sym)
    show "\<forall>c i. mm_buffers (with_buffer b aid a m) c = Some i \<longrightarrow>
        c < mm_next (with_buffer b aid a m) \<and> mm_allocs (with_buffer b aid a m) i \<noteq> None"
      using D(6) b by (auto simp: with_buffer_def) (metis less_SucI option.distinct(1))+
    show "\<forall>c d i. mm_buffers (with_buffer b aid a m) c = Some i \<longrightarrow> mm_buffers (with_buffer b aid a m) d = Some i \<longrightarrow> c = d"
      using D(7) nid by (auto simp: with_buffer_def)
  qed (use D(1-3) in \<open>auto simp: with_buffer_def\<close>)
qed

lemma allocate_buffer_cases:
  assumes ok: "memory_ok env m" and law: "to_fd_law env"
  shows "\<exists>res m'. allocate_buffer env n m = Some (res, m') \<and>
    (case res of
       Inl e \<Rightarrow> \<exists>k\<ge>mm_next m. m' = m\<lparr>mm_next := k\<rparr>
     | Inr b \<Rightarrow> \<exists>a. ma_size a = (if n = 0 then 4 else n) \<and> ma_alloc_size a = padded_size (ma_size a) \<and>
         ma_alloc_size a \<le> 2147483647 \<and> ma_ref_count a = 1 \<and> \<not> ma_dsp_used a \<and> ma_fd a \<notin> mm_rpcmem m \<and>
         b = Suc (mm_next m) \<and> m' = with_buffer b (mm_next m) a m)"
proof -
  note D = memory_okD [OF ok]
  let ?n = "if n = 0 then 4 else n" and ?aid = "mm_next m"
  have none: "mm_allocs m ?aid = None" using D(4) [of ?aid] by (cases "mm_allocs m ?aid") auto
  obtain st m1 where create: "mem_alloc_create env ?n m = (st, m1)" by fastforce
  show ?thesis
  proof (cases st)
    case (Inl e)
    have "m1 = next_call m"
      using create Inl by (auto simp: mem_alloc_create_def Let_def split: sum.splits if_splits)
    then have "m1 = m\<lparr>mm_next := Suc (mm_next m)\<rparr>" by (simp add: next_call_def)
    with create Inl show ?thesis by (auto simp: allocate_buffer_def Let_def intro!: exI [of _ "Suc (mm_next m)"])
  next
    case (Inr aid)
    define fd where "fd = me_rpcmem_to_fd env (mm_rpcmem m)"
    define a where "a = \<lparr>ma_size = ?n, ma_alloc_size = padded_size ?n, ma_ref_count = 1, ma_fd = fd, ma_dsp_used = False\<rparr>"
    have m1: "aid = ?aid" "m1 = (next_call m)\<lparr>mm_allocs := (mm_allocs m)(?aid \<mapsto> a),
        mm_rpcmem := insert fd (mm_rpcmem m), mm_registered := insert fd (mm_registered m)\<rparr>"
      and small: "padded_size ?n \<le> 2147483647" and fd1: "fd \<noteq> - 1"
      using create Inr by (auto simp: mem_alloc_create_def Let_def a_def fd_def next_call_def not_less split: sum.splits if_splits)
    have new: "fd \<notin> mm_rpcmem m" using fd1 law by (auto simp: to_fd_law_def fd_def)
    have dec: "(1 + 1 - 1 :: u32) > 0" "\<not> (1 - 1 :: u32) > 0" by simp_all
    show ?thesis
    proof (cases "me_malloc env (mm_next m1)")
      case (Inl e)
      have "allocate_buffer env n m = Some (Inl e, m\<lparr>mm_next := Suc (Suc (mm_next m))\<rparr>)"
        using create Inr m1 Inl new none D(3)
        by (simp add: allocate_buffer_def Let_def buffer_wrap_def mem_alloc_release_def next_call_def a_def fun_upd_idem)
      then show ?thesis by (auto intro!: exI [of _ "Suc (Suc (mm_next m))"])
    next
      case (Inr u)
      have "allocate_buffer env n m = Some (Inr (Suc (mm_next m)), with_buffer (Suc (mm_next m)) (mm_next m) a m)"
        using create \<open>st = Inr aid\<close> m1 Inr
        by (simp add: allocate_buffer_def Let_def buffer_wrap_def mem_alloc_retain_def mem_alloc_release_def
            next_call_def a_def with_buffer_def)
      moreover have "ma_size a = ?n" "ma_alloc_size a = padded_size (ma_size a)" "ma_ref_count a = 1" "\<not> ma_dsp_used a" "ma_fd a = fd"
        by (simp_all add: a_def)
      ultimately show ?thesis using small new by (auto intro!: exI [of _ a])
    qed
  qed
qed

text \<open>Destroying a buffer frees its allocation, unless a command on the DSP holds it.\<close>

lemma destroy_cases:
  assumes ok: "memory_ok env m" and b: "mm_buffers m b = Some aid" and a: "mm_allocs m aid = Some a"
  shows "\<exists>m'. buffer_destroy env b m = Some m' \<and> memory_ok env m' \<and> mm_allocs m' aid = None \<and> mm_buffers m' b = None \<and>
    holds (mm_residency m') = holds (mm_residency m) \<and>
    (if holds (mm_residency m) (ma_fd a) > 0 then mm_rpcmem m' = mm_rpcmem m
     else mm_rpcmem m' = mm_rpcmem m - {ma_fd a} \<and> ma_fd a \<notin> mapped_fds (mm_residency m'))"
proof -
  note D = memory_okD [OF ok]
  have aok: "ma_ref_count a = 1" "ma_fd a \<in> mm_registered m" "ma_fd a \<in> mapped_fds (mm_residency m) \<longrightarrow> ma_dsp_used a"
    using D(4) [OF a] by (auto simp: alloc_ok_def)
  obtain used r where forget: "(if ma_dsp_used a then residency_forget (me_dsp env) (ma_fd a) (mm_residency m)
      else (False, mm_residency m)) = (used, r)" by fastforce
  have unheld: "holds (mm_residency m) (ma_fd a) = 0" if "ma_fd a \<notin> mapped_fds (mm_residency m)"
    using that by (auto simp: mapped_fds_def intro: holds_absent)
  have r: "residency_ok r \<and> mmap_law (me_dsp env)" "holds r = holds (mm_residency m)" "mapped_fds r \<subseteq> mapped_fds (mm_residency m)"
    "used \<longleftrightarrow> holds (mm_residency m) (ma_fd a) > 0" "\<not> used \<longrightarrow> ma_fd a \<notin> mapped_fds r"
    using forget rf.forget_ok [OF D(1), of "ma_fd a" used r] D(1) aok(3) unheld by (auto split: if_splits)
  define m' where "m' = m\<lparr>mm_buffers := (mm_buffers m)(b := None), mm_allocs := (mm_allocs m)(aid := None), mm_residency := r,
     mm_registered := mm_registered m - (if used then {} else {ma_fd a}),
     mm_rpcmem := mm_rpcmem m - (if used then {} else {ma_fd a})\<rparr>"
  have run: "buffer_destroy env b m = Some m'"
    using b a aok(1) forget by (auto simp: buffer_destroy_def mem_alloc_release_def m'_def)
  have diff: "ma_fd x \<noteq> ma_fd a" if "mm_allocs m i = Some x" "i \<noteq> aid" for i x
    using D(5) [OF that(1) a] that(2) by blast
  have "memory_ok env m'"
    unfolding memory_ok_def
  proof (intro conjI)
    show "\<forall>i x. mm_allocs m' i = Some x \<longrightarrow> alloc_ok m' x \<and> i < mm_next m' \<and> (\<exists>c. mm_buffers m' c = Some i)"
    proof (intro allI impI)
      fix i x
      assume "mm_allocs m' i = Some x"
      then have i: "mm_allocs m i = Some x" "i \<noteq> aid" by (auto simp: m'_def split: if_splits)
      then obtain c where c: "mm_buffers m c = Some i" using D(4) by blast
      with b i(2) have "c \<noteq> b" by auto
      with c D(4) [OF i(1)] diff [OF i] r(3) i(2) show "alloc_ok m' x \<and> i < mm_next m' \<and> (\<exists>c. mm_buffers m' c = Some i)"
        by (auto simp: m'_def alloc_ok_def)
    qed
    show "\<forall>i j x y. mm_allocs m' i = Some x \<longrightarrow> mm_allocs m' j = Some y \<longrightarrow> ma_fd x = ma_fd y \<longrightarrow> i = j"
      using D(5) by (auto simp: m'_def split: if_splits)
    show "\<forall>c i. mm_buffers m' c = Some i \<longrightarrow> c < mm_next m' \<and> mm_allocs m' i \<noteq> None"
      using D(6) D(7) b by (auto simp: m'_def split: if_splits)
    show "\<forall>c d i. mm_buffers m' c = Some i \<longrightarrow> mm_buffers m' d = Some i \<longrightarrow> c = d"
      using D(7) by (auto simp: m'_def split: if_splits)
  qed (use D(2,3) r in \<open>auto simp: m'_def\<close>)
  with run r show ?thesis by (auto simp: m'_def)
qed

lemma hand_out_ok:
  assumes ok: "memory_ok env m" and run: "buffer_get_fd_for_dsp isa b m = Some (res, m')"
  shows "memory_ok env m' \<and> (case res of Inl e \<Rightarrow> e = INCOMPATIBLE | Inr (fd, n) \<Rightarrow> fd \<in> mm_rpcmem m' \<and>
     (\<exists>aid a. mm_buffers m b = Some aid \<and> mm_allocs m' aid = Some a \<and> ma_dsp_used a \<and> ma_fd a = fd \<and> ma_alloc_size a = n))"
proof (cases isa)
  case True
  with run obtain aid a where b: "mm_buffers m b = Some aid" "mm_allocs m aid = Some a" "res = Inr (ma_fd a, ma_alloc_size a)"
    and m': "m' = m\<lparr>mm_allocs := (mm_allocs m)(aid \<mapsto> a\<lparr>ma_dsp_used := True\<rparr>)\<rparr>"
    by (auto simp: buffer_get_fd_for_dsp_def mem_alloc_get_fd_def split: option.splits)
  note D = memory_okD [OF ok]
  have "memory_ok env m'"
    unfolding memory_ok_def
  proof (intro conjI)
    show "\<forall>i x. mm_allocs m' i = Some x \<longrightarrow> alloc_ok m' x \<and> i < mm_next m' \<and> (\<exists>c. mm_buffers m' c = Some i)"
      using D(4) b(2) by (auto simp: m' alloc_ok_def split: if_splits)
    show "\<forall>i j x y. mm_allocs m' i = Some x \<longrightarrow> mm_allocs m' j = Some y \<longrightarrow> ma_fd x = ma_fd y \<longrightarrow> i = j"
      using D(5) b(2) by (auto simp: m' split: if_splits)
    show "\<forall>c i. mm_buffers m' c = Some i \<longrightarrow> c < mm_next m' \<and> mm_allocs m' i \<noteq> None"
      using D(6) by (auto simp: m')
  qed (use D(1-3,7) in \<open>auto simp: m'\<close>)
  with D(3,4) b m' show ?thesis by (fastforce simp: alloc_ok_def)
qed (use run ok in \<open>auto simp: buffer_get_fd_for_dsp_def\<close>)

lemma memory_ok_residency:
  assumes ok: "memory_ok env m" and r: "residency_ok r"
    and mapped: "mapped_fds r \<subseteq> insert (ma_fd a) (mapped_fds (mm_residency m))" and a: "mm_allocs m aid = Some a" "ma_dsp_used a"
  shows "memory_ok env (m\<lparr>mm_residency := r\<rparr>)"
proof -
  note D = memory_okD [OF ok]
  have used: "ma_dsp_used x" if "mm_allocs m i = Some x" "ma_fd x \<in> mapped_fds r" for i x
  proof (cases "ma_fd x = ma_fd a")
    case True
    from D(5) [OF that(1) a(1) True] that(1) a show ?thesis by simp
  next
    case False
    with that(2) mapped have "ma_fd x \<in> mapped_fds (mm_residency m)" by blast
    with D(4) [OF that(1)] show ?thesis by (simp add: alloc_ok_def)
  qed
  have "ma_fd a \<in> mm_registered m" using D(4) [OF a(1)] by (simp add: alloc_ok_def)
  with mapped D(2) have sub: "mapped_fds r \<subseteq> mm_registered m" by blast
  have "alloc_ok (m\<lparr>mm_residency := r\<rparr>) x \<and> i < mm_next m \<and> (\<exists>b. mm_buffers m b = Some i)" if "mm_allocs m i = Some x" for i x
    using D(4) [OF that] used [OF that] by (simp add: alloc_ok_def)
  with D(1,3,5-7) r sub show ?thesis by (simp (no_asm) add: memory_ok_def) blast
qed

lemma memory_reachable_ok:
  assumes "memory_reachable env m" and law: "to_fd_law env" "mmap_law (me_dsp env)"
  shows "memory_ok env m"
  using assms(1)
proof induction
  case mem_start
  then show ?case
    using residency_create_ok law(2) by (simp add: memory_ok_def initial_memory_def mapped_fds_def residency_create_def)
next
  case (mem_allocate m n res m')
  from allocate_buffer_cases [OF mem_allocate.IH law(1), of n] mem_allocate.hyps(2) show ?case
    by (auto split: sum.splits intro!: memory_ok_next with_buffer_ok mem_allocate.IH)
next
  case (mem_destroy m b m')
  then obtain aid a where "mm_buffers m b = Some aid" "mm_allocs m aid = Some a"
    by (auto simp: buffer_destroy_def mem_alloc_release_def split: option.splits)
  with destroy_cases [OF mem_destroy.IH this] mem_destroy.hyps(2) show ?case by auto
next
  case (mem_hand_out m isa b res m')
  with hand_out_ok show ?case by blast
next
  case (mem_acquire m aid a v r)
  note D = memory_okD [OF mem_acquire.IH]
  from rc.acquire_ok [OF D(1) mem_acquire.hyps(4,5)] rf.acquire_mapped [OF D(1) mem_acquire.hyps(5)] mem_acquire.hyps(2,3)
  show ?case by (intro memory_ok_residency [OF mem_acquire.IH, of _ a aid]) auto
next
  case (mem_release m fd)
  note D = memory_okD [OF mem_release.IH]
  from release_ok(1,4) [of "mm_residency m" fd] D show ?case
    unfolding memory_ok_def alloc_ok_def by simp
qed

section \<open>Properties\<close>

text \<open>The size of an allocation: the next multiple of 128 and 128 bytes more, as long as the
  computation does not wrap around.\<close>

lemma padded_size_nat:
  assumes "unat n < 2 ^ 64 - 255"
  shows "unat (padded_size n) = ((unat n + 127) div 128 + 1) * 128"
proof -
  let ?x = "n + 255"
  have x: "unat ?x = unat n + 255" using assms by (simp add: unat_word_ariths)
  have m: "(127 :: u64) = mask 7" by (simp add: mask_eq_exp_minus_1)
  have u: "unat (?x AND NOT 127) = (unat n + 255) div 128 * 128"
    using unat_and_not_mask [of ?x 7] by (simp add: m x)
  have p: "padded_size n = (?x AND NOT 127)" by (simp add: padded_size_def MEM_ALLOC_ALIGN_def add.commute)
  have q: "(unat n + 255) div 128 * 128 = ((unat n + 127) div 128 + 1) * 128"
    using div_add_self2 [of 128 "unat n + 127"] by (simp add: add.commute)
  show ?thesis unfolding p u q by (rule refl)
qed

text \<open>Without that bound the size wraps around to a small allocation, which is not refused.\<close>

lemma padded_size_wraps: "padded_size 18446744073709551361 = 0"
  by code_simp

text \<open>
  An allocation is large enough for the vector accesses of the compiler. In every reachable
  state allocating a buffer returns, and when it succeeds the buffer is new, its memory is not
  shared with any other allocation, and its size is the requested size (4 bytes when that is 0)
  rounded up to a multiple of 128 plus 128 bytes, below \<open>2\<^sup>3\<^sup>1\<close>.
\<close>

theorem allocate_buffer_correct:
  assumes "memory_reachable env m" and "to_fd_law env" and "mmap_law (me_dsp env)" and "unat n < 2 ^ 64 - 255"
  shows "\<exists>res m'. allocate_buffer env n m = Some (res, m') \<and>
    (case res of
       Inl e \<Rightarrow> mm_allocs m' = mm_allocs m \<and> mm_buffers m' = mm_buffers m \<and> mm_rpcmem m' = mm_rpcmem m
     | Inr b \<Rightarrow> mm_buffers m b = None \<and> (\<exists>aid a. mm_buffers m' b = Some aid \<and> mm_allocs m' aid = Some a \<and>
         ma_fd a \<notin> mm_rpcmem m \<and> mm_rpcmem m' = insert (ma_fd a) (mm_rpcmem m) \<and>
         unat (ma_size a) = (if n = 0 then 4 else unat n) \<and>
         unat (ma_alloc_size a) = ((unat (ma_size a) + 127) div 128 + 1) * 128 \<and> unat (ma_alloc_size a) < 2 ^ 31))"
proof -
  note ok = memory_reachable_ok [OF assms(1-3)]
  have small: "unat (if n = 0 then 4 else n) < 2 ^ 64 - 255" using assms(4) by simp
  have fresh: "mm_buffers m (Suc (mm_next m)) = None"
    using memory_okD(6) [OF ok, of "Suc (mm_next m)"] by (cases "mm_buffers m (Suc (mm_next m))") auto
  obtain res m' where run: "allocate_buffer env n m = Some (res, m')"
    and res: "case res of
       Inl e \<Rightarrow> \<exists>k\<ge>mm_next m. m' = m\<lparr>mm_next := k\<rparr>
     | Inr b \<Rightarrow> \<exists>a. ma_size a = (if n = 0 then 4 else n) \<and> ma_alloc_size a = padded_size (ma_size a) \<and>
         ma_alloc_size a \<le> 2147483647 \<and> ma_ref_count a = 1 \<and> \<not> ma_dsp_used a \<and> ma_fd a \<notin> mm_rpcmem m \<and>
         b = Suc (mm_next m) \<and> m' = with_buffer b (mm_next m) a m"
    using allocate_buffer_cases [OF ok assms(2), of n] by blast
  show ?thesis
  proof (cases res)
    case (Inr b)
    with res obtain a where a: "ma_size a = (if n = 0 then 4 else n)" "ma_alloc_size a = padded_size (ma_size a)"
      "ma_alloc_size a \<le> 2147483647" "ma_fd a \<notin> mm_rpcmem m" "b = Suc (mm_next m)" "m' = with_buffer b (mm_next m) a m" by auto
    have "unat (ma_alloc_size a) = ((unat (ma_size a) + 127) div 128 + 1) * 128"
      using padded_size_nat [OF small] a(1,2) by simp
    moreover have "unat (ma_alloc_size a) < 2 ^ 31" using a(3) by (simp add: word_le_nat_alt)
    ultimately show ?thesis using run Inr a fresh by (auto simp: with_buffer_def)
  qed (use run res in auto)
qed


text \<open>A host that allocates a buffer and hands it to the DSP, which maps and holds it.\<close>

definition sample_memory_env :: memory_env where
  "sample_memory_env = \<lparr>me_malloc = (\<lambda>_. Inr ()), me_rpcmem_alloc = (\<lambda>_ _. True),
     me_rpcmem_to_fd = (\<lambda>S. if 3 \<in> S then - 1 else 3), me_fastrpc_mmap = (\<lambda>_ _ _. AEE_SUCCESS), me_dsp = sample_env\<rparr>"

lemma sample_memory_laws: "to_fd_law sample_memory_env" "mmap_law (me_dsp sample_memory_env)"
  by (simp_all add: to_fd_law_def sample_memory_env_def sample_env_law)

definition sample_memory :: memory where
  "sample_memory = with_buffer 1 0 \<lparr>ma_size = 100, ma_alloc_size = 256, ma_ref_count = 1, ma_fd = 3, ma_dsp_used = False\<rparr>
     (initial_memory (residency_create []))"

lemma sample_allocate:
  "allocate_buffer sample_memory_env 100 (initial_memory (residency_create [])) = Some (Inr 1, sample_memory)"
proof -
  have "padded_size 100 = 256" by (simp add: padded_size_def MEM_ALLOC_ALIGN_def add.commute)
  then show ?thesis
    by (simp add: allocate_buffer_def mem_alloc_create_def buffer_wrap_def mem_alloc_retain_def mem_alloc_release_def
        sample_memory_env_def initial_memory_def next_call_def sample_memory_def with_buffer_def Let_def)
qed

lemma sample_memory_reachable: "memory_reachable sample_memory_env sample_memory"
  by (rule mem_allocate [OF mem_start sample_allocate])

theorem allocate_buffer_correct_witness:
  "\<exists>res m'. allocate_buffer sample_memory_env 100 (initial_memory (residency_create [])) = Some (res, m') \<and>
     (\<exists>a. mm_allocs m' 0 = Some a \<and> unat (ma_alloc_size a) = 256)"
proof -
  have n: "unat (100 :: u64) < 2 ^ 64 - 255" by simp
  from allocate_buffer_correct [OF mem_start sample_memory_laws n] sample_allocate
  obtain aid a where a: "mm_buffers sample_memory 1 = Some aid" "mm_allocs sample_memory aid = Some a"
    "unat (ma_alloc_size a) = ((unat (ma_size a) + 127) div 128 + 1) * 128" "unat (ma_size a) = 100" by auto
  have "aid = 0" using a(1) by (simp add: sample_memory_def with_buffer_def)
  with a sample_allocate show ?thesis by auto
qed


end
