(* ===== verification/Hmx_Contracts.thy ===== *)
theory Hmx_Contracts
  imports Prelude "HOL-Library.Signed_Division"
begin

text \<open>
  The contracts of the HMX operations of the compiler: \<open>CodeGen/IR/HmxContracts.cpp\<close> with its header and
  the verifiers of \<open>CodeGen/IR/HexagonOps.cpp\<close>. They fix the shapes of tiles and tile grids and derive
  the alignment of a buffer's base address from the allocation behind its views.

  Sizes, strides and offsets are the compiler's 64-bit integers; the shapes of buffers are far from
  their bounds, so the products are integers here. A diagnostic is a constructor.
\<close>

section \<open>Types and constants\<close>

datatype elem_type = F16 | BF16 | F32 | I32 | I8 | OtherElem

definition kDynamic :: int where
  "kDynamic = - 9223372036854775808"

record shaped_type =
  st_shape :: "int list"
  st_elem :: elem_type

text \<open>A memref type: its strides and its offset where the layout is strided, its memory space, and
  whether its layout is the identity.\<close>

record hmx_memref_type = shaped_type +
  mt_strides :: "int list option"
  mt_space :: int
  mt_identity :: bool

datatype acc_type = HmxAccType "int list" elem_type | OtherType

definition kHmxLogicalTileSize :: int where "kHmxLogicalTileSize = 32"
definition kHmxTileRows :: int where "kHmxTileRows = 16"
definition kHmxTileColumns :: int where "kHmxTileColumns = 32"
definition kHmxTileInterleave :: int where "kHmxTileInterleave = 2"
definition kHmxConfigBytes :: int where "kHmxConfigBytes = 256"
definition kHmxTileRank :: nat where "kHmxTileRank = 3"
definition kHmxTileGridRank :: nat where "kHmxTileGridRank = 5"
definition kHmxAlignment :: int where "kHmxAlignment = 2048"
definition kHmxTileStrides :: "int list" where
  "kHmxTileStrides = [kHmxTileColumns * kHmxTileInterleave, kHmxTileInterleave, 1]"

lemmas hmx_constants = kHmxLogicalTileSize_def kHmxTileRows_def kHmxTileColumns_def kHmxTileInterleave_def
  kHmxConfigBytes_def kHmxTileRank_def kHmxTileGridRank_def kHmxAlignment_def kHmxTileStrides_def kDynamic_def

definition getHmxTileCount :: "int \<Rightarrow> int" where
  "getHmxTileCount elements = (elements + kHmxLogicalTileSize - 1) sdiv kHmxLogicalTileSize"

definition getHmxElementCapacity :: "int \<Rightarrow> int" where
  "getHmxElementCapacity tiles = tiles * kHmxLogicalTileSize"

fun getHmxElementSizeBytes :: "elem_type \<Rightarrow> int" where
  "getHmxElementSizeBytes F16 = 2"
| "getHmxElementSizeBytes BF16 = 2"
| "getHmxElementSizeBytes F32 = 4"
| "getHmxElementSizeBytes I32 = 4"
| "getHmxElementSizeBytes I8 = 1"
| "getHmxElementSizeBytes OtherElem = 0"

section \<open>Shape contracts\<close>

datatype hmx_error = NotTile | NoTileSuffix | NoStaticGrid | NotSingleTile | RowsNotCovered | ColumnsNotCovered
  | BadSource | BadDest | BadDim | KMismatch | NotSingleton | GridMismatch | TileTooSmall | BadConfig | BadAccumulator
  | NotInVtcm | NotAligned | NoUpperBound | ExceedsMaximum | NotRowMajor | NotContiguous

abbreviation rank :: "'a shaped_type_scheme \<Rightarrow> nat" where
  "rank t \<equiv> length (st_shape t)"

definition hasStaticHmxTileSuffix :: "'a shaped_type_scheme \<Rightarrow> bool" where
  "hasStaticHmxTileSuffix t =
     (if rank t < kHmxTileRank then False
      else drop (rank t - kHmxTileRank) (st_shape t) = [kHmxTileRows, kHmxTileColumns, kHmxTileInterleave])"

definition isHmxTileGrid :: "'a shaped_type_scheme \<Rightarrow> bool" where
  "isHmxTileGrid t \<longleftrightarrow> rank t = kHmxTileGridRank"

definition hasPositiveStaticTileGrid :: "'a shaped_type_scheme \<Rightarrow> bool" where
  "hasPositiveStaticTileGrid t \<longleftrightarrow>
     list_all (\<lambda>d. let n = st_shape t ! d in \<not> (n = kDynamic \<or> n \<le> 0)) [0, 1]"

definition isHmxF16Tile :: "'a shaped_type_scheme \<Rightarrow> bool \<Rightarrow> bool" where
  "isHmxF16Tile t requireGrid \<longleftrightarrow>
     (let expectedRank = if requireGrid then kHmxTileGridRank else kHmxTileRank
      in rank t = expectedRank \<and> st_elem t = F16 \<and> hasStaticHmxTileSuffix t \<and>
         (\<not> requireGrid \<or> hasPositiveStaticTileGrid t))"

fun isHmxAccumulator :: "acc_type \<Rightarrow> bool" where
  "isHmxAccumulator (HmxAccType shape e) \<longleftrightarrow> shape = [kHmxLogicalTileSize, kHmxLogicalTileSize] \<and> e = F32"
| "isHmxAccumulator OtherType \<longleftrightarrow> False"

definition verifyHmxF16Tile :: "'a shaped_type_scheme \<Rightarrow> bool \<Rightarrow> hmx_error + unit" where
  "verifyHmxF16Tile t requireGrid =
     (let expectedRank = if requireGrid then kHmxTileGridRank else kHmxTileRank
      in if rank t \<noteq> expectedRank \<or> st_elem t \<noteq> F16 then Inl NotTile
         else if \<not> hasStaticHmxTileSuffix t then Inl NoTileSuffix
         else if requireGrid \<and> \<not> hasPositiveStaticTileGrid t then Inl NoStaticGrid
         else Inr ())"

definition verifyHmxSingleF16Tile :: "'a shaped_type_scheme \<Rightarrow> bool \<Rightarrow> hmx_error + unit" where
  "verifyHmxSingleF16Tile t allowSingletonGrid =
     (let grid = (allowSingletonGrid \<and> isHmxTileGrid t)
      in if \<not> isHmxF16Tile t grid \<or> (grid \<and> (st_shape t ! 0 \<noteq> 1 \<or> st_shape t ! 1 \<noteq> 1)) then Inl NotSingleTile
         else Inr ())"

definition verifyStaticGridCovers :: "'a shaped_type_scheme \<Rightarrow> 'b shaped_type_scheme \<Rightarrow> bool \<Rightarrow> hmx_error + unit" where
  "verifyStaticGridCovers gridType matrixType transposed =
     (let rows = st_shape matrixType ! (if transposed then 1 else 0);
          columns = st_shape matrixType ! (if transposed then 0 else 1)
      in if rows \<noteq> kDynamic \<and> st_shape gridType ! 0 < getHmxTileCount rows then Inl RowsNotCovered
         else if columns \<noteq> kDynamic \<and> st_shape gridType ! 1 < getHmxTileCount columns then Inl ColumnsNotCovered
         else Inr ())"

definition verifyHmxPackContract :: "'a shaped_type_scheme \<Rightarrow> 'b shaped_type_scheme \<Rightarrow> int \<Rightarrow> hmx_error + unit" where
  "verifyHmxPackContract sourceType destType d =
     (if rank sourceType \<noteq> 2 \<or> st_elem sourceType \<noteq> F16 then Inl BadSource
      else bind_res (verifyHmxF16Tile destType True) (\<lambda>_.
        if d \<noteq> 0 \<and> d \<noteq> 1 then Inl BadDim
        else verifyStaticGridCovers destType sourceType (d = 1)))"

definition verifyHmxMatmulContract ::
  "'a shaped_type_scheme \<Rightarrow> 'b shaped_type_scheme \<Rightarrow> 'c shaped_type_scheme \<Rightarrow> bool \<Rightarrow> hmx_error + unit" where
  "verifyHmxMatmulContract lhsType rhsType accType allowSingleTileAccumulator =
     bind_res (verifyHmxF16Tile lhsType True) (\<lambda>_.
     bind_res (verifyHmxF16Tile rhsType True) (\<lambda>_.
     let singleTileAcc = (allowSingleTileAccumulator \<and> rank accType = kHmxTileRank)
     in bind_res (verifyHmxF16Tile accType (\<not> singleTileAcc)) (\<lambda>_.
        if st_shape lhsType ! 1 \<noteq> st_shape rhsType ! 0 then Inl KMismatch
        else if singleTileAcc
        then (if st_shape lhsType ! 0 \<noteq> 1 \<or> st_shape rhsType ! 1 \<noteq> 1 then Inl NotSingleton else Inr ())
        else if st_shape lhsType ! 0 \<noteq> st_shape accType ! 0 \<or> st_shape rhsType ! 1 \<noteq> st_shape accType ! 1
        then Inl GridMismatch else Inr ())))"

definition verifyHmxUnpackContract :: "'a shaped_type_scheme \<Rightarrow> 'b shaped_type_scheme \<Rightarrow> int \<Rightarrow> hmx_error + unit" where
  "verifyHmxUnpackContract sourceType destType d =
     (let sourceIsGrid = isHmxTileGrid sourceType
      in bind_res (verifyHmxF16Tile sourceType sourceIsGrid) (\<lambda>_.
         if rank destType \<noteq> 2 \<or> (st_elem destType \<noteq> F16 \<and> st_elem destType \<noteq> F32) then Inl BadDest
         else if d \<noteq> 0 then Inl BadDim
         else if sourceIsGrid then verifyStaticGridCovers sourceType destType False
         else if list_ex (\<lambda>destDim. let n = st_shape destType ! destDim in n \<noteq> kDynamic \<and> n > kHmxLogicalTileSize) [0, 1]
         then Inl TileTooSmall else Inr ()))"

section \<open>Values\<close>

text \<open>A buffer value is its type and its defining operation. Allocations and arguments carry a number
  that identifies them; an offset of a subview is a constant or an index value.\<close>

datatype index_offset = ConstOffset int | DynOffset nat

datatype hmx_value = Value (value_type: hmx_memref_type) (defining_op: hmx_def)
and hmx_def = AssumeAlignment hmx_value int
  | MemrefAlloc nat "int option"
  | MemrefAlloca nat "int option"
  | HexagonMemAlloc nat int
  | MemrefCast hmx_value
  | CollapseShape hmx_value
  | ExpandShape hmx_value
  | SubView hmx_value "index_offset list"
  | OtherDef nat

fun getHmxMemRefViewSource :: "hmx_value \<Rightarrow> hmx_value option" where
  "getHmxMemRefViewSource (Value t (MemrefCast v)) = Some v"
| "getHmxMemRefViewSource (Value t (CollapseShape v)) = Some v"
| "getHmxMemRefViewSource (Value t (ExpandShape v)) = Some v"
| "getHmxMemRefViewSource (Value t (SubView v offsets)) = Some v"
| "getHmxMemRefViewSource _ = None"

lemma view_source_smaller [termination_simp]: "getHmxMemRefViewSource v = Some s \<Longrightarrow> size s < size v"
  by (cases v rule: getHmxMemRefViewSource.cases) auto

lemma subview_source_smaller [termination_simp]: "defining_op v = SubView s offsets \<Longrightarrow> size s < size v"
  by (cases v) auto

fun getHmxAllocationBase :: "hmx_value \<Rightarrow> hmx_value" where
  "getHmxAllocationBase v = (case getHmxMemRefViewSource v of None \<Rightarrow> v | Some s \<Rightarrow> getHmxAllocationBase s)"

declare getHmxAllocationBase.simps [simp del]

fun getDeclaredHmxAlignment :: "hmx_value \<Rightarrow> int option" where
  "getDeclaredHmxAlignment (Value t (AssumeAlignment v a)) = Some a"
| "getDeclaredHmxAlignment (Value t (MemrefAlloc i a)) = Some (case a of None \<Rightarrow> 0 | Some n \<Rightarrow> n)"
| "getDeclaredHmxAlignment (Value t (MemrefAlloca i a)) = Some (case a of None \<Rightarrow> 0 | Some n \<Rightarrow> n)"
| "getDeclaredHmxAlignment (Value t (HexagonMemAlloc i a)) = Some a"
| "getDeclaredHmxAlignment _ = None"

text \<open>The solver knows a divisor of the unsigned and one of the signed value of an index.\<close>

type_synonym divisibility = "nat \<Rightarrow> (int \<times> int) option"

definition isKnownMultipleOf :: "divisibility \<Rightarrow> nat \<Rightarrow> int \<Rightarrow> bool" where
  "isKnownMultipleOf solver i requiredMultiple =
     (case solver i of None \<Rightarrow> False
      | Some (u, s) \<Rightarrow> u mod requiredMultiple = 0 \<or> s mod requiredMultiple = 0)"

fun offset_step :: "divisibility \<Rightarrow> int \<Rightarrow> int \<Rightarrow> index_offset \<times> int \<Rightarrow> int \<Rightarrow> int option" where
  "offset_step solver requiredAlignment elementBytes (off, stride) byteOffsetModulo =
     (if stride = kDynamic then None
      else let strideBytes = stride * elementBytes; strideBytesModulo = strideBytes smod requiredAlignment
           in case off of
                DynOffset i \<Rightarrow>
                  (if isKnownMultipleOf solver i (requiredAlignment sdiv gcd \<bar>strideBytes\<bar> requiredAlignment)
                   then Some byteOffsetModulo else None)
              | ConstOffset c \<Rightarrow>
                  Some ((byteOffsetModulo + ((c smod requiredAlignment) * strideBytesModulo) smod requiredAlignment)
                        smod requiredAlignment))"

fun offset_steps :: "divisibility \<Rightarrow> int \<Rightarrow> int \<Rightarrow> (index_offset \<times> int) list \<Rightarrow> int \<Rightarrow> int option" where
  "offset_steps solver a e [] m = Some m"
| "offset_steps solver a e (x # xs) m = Option.bind (offset_step solver a e x m) (offset_steps solver a e xs)"

definition getSubViewByteOffsetModulo :: "divisibility \<Rightarrow> hmx_memref_type \<Rightarrow> index_offset list \<Rightarrow> int \<Rightarrow> int option" where
  "getSubViewByteOffsetModulo solver sourceType offsets requiredAlignment =
     (case mt_strides sourceType of None \<Rightarrow> None
      | Some sourceStrides \<Rightarrow>
          let elementBytes = getHmxElementSizeBytes (st_elem sourceType)
          in if elementBytes = 0 then None
             else offset_steps solver requiredAlignment elementBytes (zip offsets sourceStrides) 0)"

fun providesHmxAlignment :: "divisibility \<Rightarrow> int \<Rightarrow> hmx_value \<Rightarrow> bool" where
  "providesHmxAlignment solver requiredAlignment v =
     (case getDeclaredHmxAlignment v of
        Some declared \<Rightarrow> declared smod requiredAlignment = 0
      | None \<Rightarrow>
          (case defining_op v of
             SubView source offsets \<Rightarrow>
               (if \<not> providesHmxAlignment solver requiredAlignment source then False
                else getSubViewByteOffsetModulo solver (value_type source) offsets requiredAlignment = Some 0)
           | _ \<Rightarrow>
               (case getHmxMemRefViewSource v of None \<Rightarrow> False
                | Some source \<Rightarrow> providesHmxAlignment solver requiredAlignment source)))"

declare providesHmxAlignment.simps [simp del]

section \<open>Soundness of the alignment proof\<close>

text \<open>Where buffers are at run time: the addresses of values and the values of indices. Allocations
  keep the alignment they declare, \<open>memref.assume_alignment\<close> holds, views forward the address of
  their source and a subview advances it by its offsets, as MLIR documents these operations.\<close>

fun offset_value :: "(nat \<Rightarrow> int) \<Rightarrow> index_offset \<Rightarrow> int" where
  "offset_value idx (ConstOffset c) = c"
| "offset_value idx (DynOffset i) = idx i"

definition byte_offset :: "(nat \<Rightarrow> int) \<Rightarrow> int \<Rightarrow> (index_offset \<times> int) list \<Rightarrow> int" where
  "byte_offset idx elementBytes xs = (\<Sum>(off, stride)\<leftarrow>xs. offset_value idx off * (stride * elementBytes))"

definition address_law :: "(hmx_value \<Rightarrow> int) \<Rightarrow> (nat \<Rightarrow> int) \<Rightarrow> bool" where
  "address_law addr idx \<longleftrightarrow>
     (\<forall>t v a. a dvd addr (Value t (AssumeAlignment v a))) \<and>
     (\<forall>t i a. a dvd addr (Value t (MemrefAlloc i (Some a)))) \<and>
     (\<forall>t i a. a dvd addr (Value t (MemrefAlloca i (Some a)))) \<and>
     (\<forall>t i a. a dvd addr (Value t (HexagonMemAlloc i a))) \<and>
     (\<forall>t v. addr (Value t (MemrefCast v)) = addr v) \<and>
     (\<forall>t v. addr (Value t (CollapseShape v)) = addr v) \<and>
     (\<forall>t v. addr (Value t (ExpandShape v)) = addr v) \<and>
     (\<forall>t v offsets strides. mt_strides (value_type v) = Some strides \<longrightarrow> kDynamic \<notin> set (map snd (zip offsets strides)) \<longrightarrow>
        getHmxElementSizeBytes (st_elem (value_type v)) \<noteq> 0 \<longrightarrow>
        addr (Value t (SubView v offsets)) =
          addr v + byte_offset idx (getHmxElementSizeBytes (st_elem (value_type v))) (zip offsets strides))"

text \<open>What the solver knows is true.\<close>

definition solver_law :: "divisibility \<Rightarrow> (nat \<Rightarrow> int) \<Rightarrow> bool" where
  "solver_law solver idx \<longleftrightarrow> (\<forall>i u s. solver i = Some (u, s) \<longrightarrow> u dvd idx i \<and> s dvd idx i)"

text \<open>Every allocation that the proof reaches declares its alignment.\<close>

fun declares_alignment :: "hmx_value \<Rightarrow> bool" where
  "declares_alignment (Value t (AssumeAlignment v a)) \<longleftrightarrow> True"
| "declares_alignment (Value t (MemrefAlloc i a)) \<longleftrightarrow> a \<noteq> None"
| "declares_alignment (Value t (MemrefAlloca i a)) \<longleftrightarrow> a \<noteq> None"
| "declares_alignment (Value t (HexagonMemAlloc i a)) \<longleftrightarrow> True"
| "declares_alignment (Value t (MemrefCast v)) \<longleftrightarrow> declares_alignment v"
| "declares_alignment (Value t (CollapseShape v)) \<longleftrightarrow> declares_alignment v"
| "declares_alignment (Value t (ExpandShape v)) \<longleftrightarrow> declares_alignment v"
| "declares_alignment (Value t (SubView v offsets)) \<longleftrightarrow> declares_alignment v"
| "declares_alignment (Value t (OtherDef i)) \<longleftrightarrow> True"

lemma smod_dvd: "n dvd (a :: int) - a smod n"
  by (metis dvd_triv_left minus_smod_eq_mult_sdiv)

lemma smod_zero_dvd: "a smod n = 0 \<Longrightarrow> n dvd (a :: int)"
  using smod_dvd [of n a] by simp

text \<open>A multiple of \<open>a / gcd\<close> keeps the alignment.\<close>

lemma gcd_multiple:
  fixes a s x :: int
  assumes a: "0 < a" and x: "a sdiv gcd \<bar>s\<bar> a dvd x"
  shows "a dvd x * s"
proof -
  have g: "gcd \<bar>s\<bar> a > 0" "gcd \<bar>s\<bar> a dvd a" "gcd \<bar>s\<bar> a dvd s" using a by simp_all
  have "a sdiv gcd \<bar>s\<bar> a = a div gcd \<bar>s\<bar> a" using a g by (simp add: divide_int_eq_signed_divide_int)
  with x have "a div gcd \<bar>s\<bar> a * gcd \<bar>s\<bar> a dvd x * s" using g(3) by (intro mult_dvd_mono) simp_all
  then show ?thesis using g(2) by simp
qed

lemma known_multiple:
  assumes "solver_law solver idx" and "isKnownMultipleOf solver i m"
  shows "m dvd idx i"
proof -
  obtain u s where us: "solver i = Some (u, s)" "m dvd u \<or> m dvd s"
    using assms(2) by (auto simp: isKnownMultipleOf_def split: option.splits)
  then show ?thesis using assms(1) by (auto simp: solver_law_def intro: dvd_trans)
qed

lemma offset_step_sound:
  assumes law: "solver_law solver idx" and a: "0 < a" and step: "offset_step solver a e (off, stride) m = Some m'"
  shows "stride \<noteq> kDynamic \<and> a dvd (m + offset_value idx off * (stride * e)) - m'"
proof (cases off)
  case (ConstOffset c)
  let ?s = "stride * e"
  have "stride \<noteq> kDynamic" and m': "m' = (m + ((c smod a) * (?s smod a)) smod a) smod a"
    using step ConstOffset by (simp_all add: Let_def split: if_splits)
  moreover have "a dvd (m + c * ?s) - (m + ((c smod a) * (?s smod a)) smod a)"
  proof -
    have "a dvd (c smod a) * (?s smod a) - ((c smod a) * (?s smod a)) smod a" by (rule smod_dvd)
    moreover have "a dvd c * (?s - ?s smod a)" by (intro dvd_mult smod_dvd)
    moreover have "a dvd (c - c smod a) * (?s smod a)" by (intro dvd_mult2 smod_dvd)
    ultimately have "a dvd ((c smod a) * (?s smod a) - ((c smod a) * (?s smod a)) smod a) + c * (?s - ?s smod a) + (c - c smod a) * (?s smod a)"
      by (intro dvd_add)
    then show ?thesis by (simp add: algebra_simps)
  qed
  moreover have "a dvd (m + ((c smod a) * (?s smod a)) smod a) - m'" unfolding m' by (rule smod_dvd)
  ultimately show ?thesis using dvd_add [of a "(m + c * ?s) - (m + ((c smod a) * (?s smod a)) smod a)" "(m + ((c smod a) * (?s smod a)) smod a) - m'"]
    ConstOffset by (simp add: algebra_simps)
next
  case (DynOffset i)
  have "stride \<noteq> kDynamic" "m' = m" "isKnownMultipleOf solver i (a sdiv gcd \<bar>stride * e\<bar> a)"
    using step DynOffset by (simp_all add: Let_def split: if_splits)
  then show ?thesis using gcd_multiple [OF a known_multiple [OF law]] DynOffset by simp
qed

lemma offset_steps_sound:
  assumes law: "solver_law solver idx" and a: "0 < a" and "offset_steps solver a e xs m = Some m'"
  shows "kDynamic \<notin> set (map snd xs) \<and> a dvd (m + byte_offset idx e xs) - m'"
  using assms(3)
proof (induction xs arbitrary: m)
  case Nil
  then show ?case by (simp add: byte_offset_def)
next
  case (Cons x xs)
  obtain off stride where x: "x = (off, stride)" by fastforce
  obtain m1 where m1: "offset_step solver a e (off, stride) m = Some m1" "offset_steps solver a e xs m1 = Some m'"
    using Cons.prems x by (cases "offset_step solver a e x m") auto
  note s = offset_step_sound [OF law a m1(1)] and t = Cons.IH [OF m1(2)]
  have "a dvd ((m + offset_value idx off * (stride * e)) - m1) + ((m1 + byte_offset idx e xs) - m')"
    using s t by (intro dvd_add) blast+
  moreover have "byte_offset idx e (x # xs) = offset_value idx off * (stride * e) + byte_offset idx e xs"
    by (simp add: byte_offset_def x)
  ultimately show ?case using s t x by (simp add: algebra_simps)
qed

lemma providesHmxAlignment_sound:
  assumes law: "address_law addr idx" and solver: "solver_law solver idx" and a: "0 < a"
  shows "providesHmxAlignment solver a v \<Longrightarrow> declares_alignment v \<Longrightarrow> a dvd addr v"
proof (induction v rule: measure_induct_rule [where f = size])
  case (less v)
  obtain t d where v: "v = Value t d" by (cases v)
  have view: "a dvd addr s" if "getHmxMemRefViewSource v = Some s" "providesHmxAlignment solver a s" for s
  proof (rule less.IH)
    show "size s < size v" using view_source_smaller that(1) by simp
    show "declares_alignment s" using less.prems(2) that(1) by (cases v rule: getHmxMemRefViewSource.cases) auto
  qed (use that in simp)
  have run: "case getDeclaredHmxAlignment v of Some declared \<Rightarrow> declared smod a = 0
      | None \<Rightarrow> (case d of SubView source offsets \<Rightarrow> providesHmxAlignment solver a source \<and>
            getSubViewByteOffsetModulo solver (value_type source) offsets a = Some 0
          | _ \<Rightarrow> (\<exists>s. getHmxMemRefViewSource v = Some s \<and> providesHmxAlignment solver a s))"
    using less.prems(1) by (subst (asm) providesHmxAlignment.simps) (auto simp: v split: option.splits if_splits hmx_def.splits)
  show ?case
  proof (cases d)
    case (AssumeAlignment s n)
    have "a dvd n" using run AssumeAlignment smod_zero_dvd by (auto simp: v)
    moreover have "n dvd addr v" using law AssumeAlignment by (auto simp: v address_law_def)
    ultimately show ?thesis by (rule dvd_trans)
  next
    case (MemrefAlloc i n)
    then obtain k where k: "n = Some k" using less.prems(2) by (auto simp: v)
    have "a dvd k" using run MemrefAlloc k smod_zero_dvd by (auto simp: v)
    moreover have "k dvd addr v" using law MemrefAlloc k by (auto simp: v address_law_def)
    ultimately show ?thesis by (rule dvd_trans)
  next
    case (MemrefAlloca i n)
    then obtain k where k: "n = Some k" using less.prems(2) by (auto simp: v)
    have "a dvd k" using run MemrefAlloca k smod_zero_dvd by (auto simp: v)
    moreover have "k dvd addr v" using law MemrefAlloca k by (auto simp: v address_law_def)
    ultimately show ?thesis by (rule dvd_trans)
  next
    case (HexagonMemAlloc i n)
    have "a dvd n" using run HexagonMemAlloc smod_zero_dvd by (auto simp: v)
    moreover have "n dvd addr v" using law HexagonMemAlloc by (auto simp: v address_law_def)
    ultimately show ?thesis by (rule dvd_trans)
  next
    case (MemrefCast s)
    have "a dvd addr s" using run view MemrefCast by (auto simp: v)
    moreover have "addr v = addr s" using law MemrefCast by (simp add: v address_law_def)
    ultimately show ?thesis by simp
  next
    case (CollapseShape s)
    have "a dvd addr s" using run view CollapseShape by (auto simp: v)
    moreover have "addr v = addr s" using law CollapseShape by (simp add: v address_law_def)
    ultimately show ?thesis by simp
  next
    case (ExpandShape s)
    have "a dvd addr s" using run view ExpandShape by (auto simp: v)
    moreover have "addr v = addr s" using law ExpandShape by (simp add: v address_law_def)
    ultimately show ?thesis by simp
  next
    case (SubView s offsets)
    have p: "providesHmxAlignment solver a s" "getSubViewByteOffsetModulo solver (value_type s) offsets a = Some 0"
      using run SubView by (auto simp: v)
    obtain strides where st: "mt_strides (value_type s) = Some strides" "getHmxElementSizeBytes (st_elem (value_type s)) \<noteq> 0"
      "offset_steps solver a (getHmxElementSizeBytes (st_elem (value_type s))) (zip offsets strides) 0 = Some 0"
      using p(2) by (auto simp: getSubViewByteOffsetModulo_def Let_def split: option.splits if_splits)
    note sound = offset_steps_sound [OF solver a st(3)]
    have "addr v = addr s + byte_offset idx (getHmxElementSizeBytes (st_elem (value_type s))) (zip offsets strides)"
      using law st sound SubView unfolding v address_law_def by blast
    moreover have "a dvd addr s" using view p(1) SubView by (auto simp: v)
    ultimately show ?thesis using sound by simp
  next
    case (OtherDef i)
    then show ?thesis using run by (auto simp: v)
  qed
qed

text \<open>An allocation that declares no alignment counts as aligned: its alignment 0 is a multiple of
  every requirement. The alignment is then not guaranteed.\<close>

lemma undeclared_alignment_accepted: "providesHmxAlignment solver requiredAlignment (Value t (MemrefAlloc i None))"
  by (subst providesHmxAlignment.simps) simp

end
