(* ===== verification/Hmx_Tiles.thy ===== *)
theory Hmx_Tiles
  imports Prelude
begin

text \<open>
  The micro kernels that move matrices into and out of the layout of the HMX matrix unit:
  \<open>plugins/runtime/hexagon/dsp/ukernel/hmx/hmx.c\<close>. The unit works on tiles of 32 x 32 half-precision
  values; a packed tile has 16 vectors, each with two rows interleaved.

  Values of half and single precision are their bit patterns. The vector instructions of the DSP and
  the arithmetic on floats are parameters with the documented behaviour as laws. Indices are computed
  in 32 bits as in the code; a pointer plus an index is a natural number. Every access checks that it
  is within its array and aligned.
\<close>

section \<open>Arrays and vector instructions\<close>

type_synonym half = u16
type_synonym float32 = u32

datatype hmx_fault = OutOfBounds | Misaligned

record 'a arr =
  ar_addr :: nat
  ar_elems :: "'a list"

text \<open>Vector accesses to \<open>n\<close> elements of \<open>w\<close> bytes at an index, aligned to \<open>al\<close> bytes.\<close>

definition load_vec :: "nat \<Rightarrow> nat \<Rightarrow> nat \<Rightarrow> 'a arr \<Rightarrow> nat \<Rightarrow> hmx_fault + 'a list" where
  "load_vec al w n a i =
     (if i + n > length (ar_elems a) then Inl OutOfBounds
      else if \<not> al dvd ar_addr a + w * i then Inl Misaligned
      else Inr (take n (drop i (ar_elems a))))"

definition put :: "nat \<Rightarrow> 'a list \<Rightarrow> 'a list \<Rightarrow> 'a list" where
  "put i xs es = take i es @ xs @ drop (i + length xs) es"

definition store_vec :: "nat \<Rightarrow> nat \<Rightarrow> nat \<Rightarrow> 'a list \<Rightarrow> 'a arr \<Rightarrow> hmx_fault + 'a arr" where
  "store_vec al w i xs a =
     (if i + length xs > length (ar_elems a) then Inl OutOfBounds
      else if \<not> al dvd ar_addr a + w * i then Inl Misaligned
      else Inr (a\<lparr>ar_elems := put i xs (ar_elems a)\<rparr>))"

definition load_elem :: "'a arr \<Rightarrow> nat \<Rightarrow> hmx_fault + 'a" where
  "load_elem a i = (if i < length (ar_elems a) then Inr (ar_elems a ! i) else Inl OutOfBounds)"

definition store_elem :: "nat \<Rightarrow> 'a \<Rightarrow> 'a arr \<Rightarrow> hmx_fault + 'a arr" where
  "store_elem i x a =
     (if i < length (ar_elems a) then Inr (a\<lparr>ar_elems := (ar_elems a)[i := x]\<rparr>) else Inl OutOfBounds)"

text \<open>The instructions on vectors of 128 bytes, and the conversion and the additions.\<close>

record hvx =
  vshuff_h :: "half list \<Rightarrow> half list"
  vdeal_h :: "half list \<Rightarrow> half list"
  vshuff_vvr :: "half list \<Rightarrow> half list \<Rightarrow> int \<Rightarrow> half list \<times> half list"
  vcvt_sf_hf :: "half list \<Rightarrow> float32 list \<times> float32 list"
  vadd_sf :: "float32 list \<Rightarrow> float32 list \<Rightarrow> float32 list"
  vadd_hf :: "half list \<Rightarrow> half list \<Rightarrow> half list"
  half_to_float :: "half \<Rightarrow> float32"
  float_add :: "float32 \<Rightarrow> float32 \<Rightarrow> float32"
  half_add :: "half \<Rightarrow> half \<Rightarrow> half"

text \<open>\<open>Vd.h = vshuff(Vu.h)\<close> interleaves the halves of a vector, \<open>Vd.h = vdeal(Vu.h)\<close> separates them
  again.\<close>

definition interleave :: "'a list \<Rightarrow> 'a list" where
  "interleave v = map (\<lambda>k. v ! (k div 2 + 32 * (k mod 2))) [0..<64]"

definition deinterleave :: "'a list \<Rightarrow> 'a list" where
  "deinterleave v = map (\<lambda>k. v ! (2 * (k mod 32) + k div 32)) [0..<64]"

text \<open>\<open>Vdd = vshuff(Vu, Vv, Rt)\<close>: for every power of two that \<open>Rt\<close> contains, from the smallest, the
  upper elements at that distance in the low vector are swapped with the lower ones of the high
  vector. On elements of 2 bytes, for an even \<open>Rt\<close>; the result is the low and the high vector.\<close>

definition swap_step :: "nat \<Rightarrow> 'a list \<times> 'a list \<Rightarrow> 'a list \<times> 'a list" where
  "swap_step j = (\<lambda>(lo, hi). (map (\<lambda>k. if odd (k div 2 ^ j) then hi ! (k - 2 ^ j) else lo ! k) [0..<64],
     map (\<lambda>k. if odd (k div 2 ^ j) then hi ! k else lo ! (k + 2 ^ j)) [0..<64]))"

definition shuffle_pair :: "'a list \<Rightarrow> 'a list \<Rightarrow> int \<Rightarrow> 'a list \<times> 'a list" where
  "shuffle_pair vu vv rt = fold (\<lambda>j p. if bit rt (Suc j) then swap_step j p else p) [0..<6] (vv, vu)"

definition shuffle_law :: "hvx \<Rightarrow> bool" where
  "shuffle_law hv \<longleftrightarrow>
     (\<forall>v. length v = 64 \<longrightarrow> vshuff_h hv v = interleave v \<and> vdeal_h hv v = deinterleave v) \<and>
     (\<forall>u v rt. length u = 64 \<longrightarrow> length v = 64 \<longrightarrow> even rt \<longrightarrow> vshuff_vvr hv u v rt = shuffle_pair u v rt)"

text \<open>Conversion takes the even elements to the low vector, the odd ones to the high one; additions
  work on each element.\<close>

definition arithmetic_law :: "hvx \<Rightarrow> bool" where
  "arithmetic_law hv \<longleftrightarrow>
     (\<forall>v. length v = 64 \<longrightarrow> vcvt_sf_hf hv v =
        (map (\<lambda>k. half_to_float hv (v ! (2 * k))) [0..<32], map (\<lambda>k. half_to_float hv (v ! (2 * k + 1))) [0..<32])) \<and>
     (\<forall>u v. length u = 32 \<longrightarrow> length v = 32 \<longrightarrow> vadd_sf hv u v = map2 (float_add hv) u v) \<and>
     (\<forall>u v. length u = 64 \<longrightarrow> length v = 64 \<longrightarrow> vadd_hf hv u v = map2 (half_add hv) u v)"

section \<open>Packing\<close>

definition HMX_TILE :: u32 where
  "HMX_TILE = 32"

definition HMX_TILE_BYTES :: u32 where
  "HMX_TILE_BYTES = 2048"

definition acc_setup_read :: "u8 list" where
  "acc_setup_read = fold (\<lambda>c config. config[c * 4 + 1 := 0x3C]) [0..<32] (replicate 256 0)"

definition tile_extent :: "u32 \<Rightarrow> u32 \<Rightarrow> u32" where
  "tile_extent actual tile =
     (let base = tile * HMX_TILE
      in if base \<ge> actual then 0
         else let rem = actual - base in if rem < HMX_TILE then rem else HMX_TILE)"

text \<open>The index of the first element of a tile in a grid.\<close>

definition tile_at :: "u32 \<Rightarrow> u32 \<Rightarrow> u32 \<Rightarrow> nat" where
  "tile_at row_tile col_tiles col_tile = unat ((row_tile * col_tiles + col_tile) * HMX_TILE_BYTES) div 2"

text \<open>Two rows of a tile become one vector of the packed tile.\<close>

definition store_row_pair :: "hvx \<Rightarrow> nat \<Rightarrow> nat \<Rightarrow> half list \<Rightarrow> half list \<Rightarrow> half arr \<Rightarrow> hmx_fault + half arr" where
  "store_row_pair hv t row_pair row0 row1 dest = store_vec 128 2 (t + 64 * row_pair) (vshuff_h hv (row0 @ row1)) dest"

definition zero_scratch :: "half arr" where
  "zero_scratch = \<lparr>ar_addr = 0, ar_elems = replicate 1024 0\<rparr>"

definition shuffle_scratch :: "hvx \<Rightarrow> nat \<Rightarrow> half arr \<Rightarrow> half arr \<Rightarrow> hmx_fault + half arr" where
  "shuffle_scratch hv t scratch =
     fold_res (\<lambda>row_pair dest.
       bind_res (load_vec 64 2 32 scratch (2 * row_pair * 32)) (\<lambda>row0.
       bind_res (load_vec 64 2 32 scratch ((2 * row_pair + 1) * 32)) (\<lambda>row1.
       store_row_pair hv t row_pair row0 row1 dest))) [0..<16]"

definition pack_rm_ragged_tile ::
  "hvx \<Rightarrow> nat \<Rightarrow> half arr \<Rightarrow> u32 \<Rightarrow> u32 \<Rightarrow> u32 \<Rightarrow> u32 \<Rightarrow> u32 \<Rightarrow> half arr \<Rightarrow> hmx_fault + half arr" where
  "pack_rm_ragged_tile hv t src source_stride base_row base_col valid_rows valid_cols dest =
     bind_res (fold_res (\<lambda>r. let src_row = unat ((base_row + of_nat r) * source_stride) + unat base_col
         in fold_res (\<lambda>c scratch.
              bind_res (load_elem src (src_row + c)) (\<lambda>x. store_elem (unat (of_nat r * HMX_TILE + of_nat c)) x scratch))
            [0..<unat valid_cols]) [0..<unat valid_rows] zero_scratch)
     (\<lambda>scratch. shuffle_scratch hv t scratch dest)"

definition pack_rm_tile ::
  "hvx \<Rightarrow> nat \<Rightarrow> half arr \<Rightarrow> u32 \<Rightarrow> u32 \<Rightarrow> u32 \<Rightarrow> u32 \<Rightarrow> u32 \<Rightarrow> half arr \<Rightarrow> hmx_fault + half arr" where
  "pack_rm_tile hv t src source_stride base_row base_col valid_rows valid_cols dest =
     (if valid_rows \<ge> HMX_TILE \<and> valid_cols \<ge> HMX_TILE \<and> source_stride mod HMX_TILE = 0
      then fold_res (\<lambda>row_pair dest.
             let row0 = unat ((base_row + 2 * of_nat row_pair) * source_stride) + unat base_col;
                 row1 = row0 + unat source_stride
             in bind_res (load_vec 64 2 32 src row0) (\<lambda>h0.
                bind_res (load_vec 64 2 32 src row1) (\<lambda>h1.
                store_row_pair hv t row_pair h0 h1 dest))) [0..<16] dest
      else pack_rm_ragged_tile hv t src source_stride base_row base_col valid_rows valid_cols dest)"

definition zero_tile :: "nat \<Rightarrow> half arr \<Rightarrow> hmx_fault + half arr" where
  "zero_tile t dest = store_vec 1 2 t (replicate 1024 0) dest"

definition pack_f16 :: "hvx \<Rightarrow> half arr \<Rightarrow> half arr \<Rightarrow> u32 \<Rightarrow> u32 \<Rightarrow> u32 \<Rightarrow> u32 \<Rightarrow> u32 \<Rightarrow> hmx_fault + half arr" where
  "pack_f16 hv dest src source_stride actual_rows actual_cols row_tiles col_tiles =
     fold_res (\<lambda>row_tile.
       let valid_rows = tile_extent actual_rows (of_nat row_tile)
       in fold_res (\<lambda>col_tile dest.
         let valid_cols = tile_extent actual_cols (of_nat col_tile);
             t = tile_at (of_nat row_tile) col_tiles (of_nat col_tile)
         in if valid_rows = 0 \<or> valid_cols = 0 then zero_tile t dest
            else pack_rm_tile hv t src source_stride (of_nat row_tile * HMX_TILE) (of_nat col_tile * HMX_TILE)
                   valid_rows valid_cols dest) [0..<unat col_tiles]) [0..<unat row_tiles] dest"

section \<open>Packing a transposed matrix\<close>

definition vshuff_cross_stage :: "hvx \<Rightarrow> nat \<Rightarrow> int \<Rightarrow> half list list \<Rightarrow> half list list" where
  "vshuff_cross_stage hv d rt v =
     fold (\<lambda>i v. if (i div d) mod 2 = 0
       then let w = vshuff_vvr hv (v ! (i + d)) (v ! i) rt in v[i := fst w, i + d := snd w]
       else v) [0..<16] v"

definition pack_transposed_full_tile ::
  "hvx \<Rightarrow> nat \<Rightarrow> half arr \<Rightarrow> u32 \<Rightarrow> u32 \<Rightarrow> u32 \<Rightarrow> half arr \<Rightarrow> hmx_fault + half arr" where
  "pack_transposed_full_tile hv t src source_stride base_interleave base_other dest =
     bind_res (map_res (\<lambda>p.
         let o0 = unat ((base_other + 2 * of_nat p) * source_stride) + unat base_interleave;
             o1 = o0 + unat source_stride
         in bind_res (load_vec 64 2 32 src o0) (\<lambda>h0.
            bind_res (load_vec 64 2 32 src o1) (\<lambda>h1. Inr (h0 @ h1)))) [0..<16])
     (\<lambda>v. let v = vshuff_cross_stage hv 1 (- 4) v;
              v = vshuff_cross_stage hv 8 (- 8) v;
              v = vshuff_cross_stage hv 4 (- 8) v;
              v = vshuff_cross_stage hv 2 (- 8) v;
              v = vshuff_cross_stage hv 1 (- 4) v
          in fold_res (\<lambda>q. store_vec 128 2 (t + 64 * q) (v ! q)) [0..<16] dest)"

definition pack_transposed_ragged_tile ::
  "hvx \<Rightarrow> nat \<Rightarrow> half arr \<Rightarrow> u32 \<Rightarrow> u32 \<Rightarrow> u32 \<Rightarrow> u32 \<Rightarrow> u32 \<Rightarrow> half arr \<Rightarrow> hmx_fault + half arr" where
  "pack_transposed_ragged_tile hv t src source_stride base_i base_o valid_i valid_o dest =
     bind_res (fold_res (\<lambda>ot. let src_row = unat ((base_o + of_nat ot) * source_stride) + unat base_i
         in fold_res (\<lambda>i scratch.
              bind_res (load_elem src (src_row + i)) (\<lambda>x. store_elem (unat (of_nat i * HMX_TILE + of_nat ot)) x scratch))
            [0..<unat valid_i]) [0..<unat valid_o] zero_scratch)
     (\<lambda>scratch. shuffle_scratch hv t scratch dest)"

definition pack_transposed_f16 ::
  "hvx \<Rightarrow> half arr \<Rightarrow> half arr \<Rightarrow> u32 \<Rightarrow> u32 \<Rightarrow> u32 \<Rightarrow> u32 \<Rightarrow> u32 \<Rightarrow> hmx_fault + half arr" where
  "pack_transposed_f16 hv dest src source_stride actual_interleave actual_other interleave_tiles other_tiles =
     fold_res (\<lambda>i_tile.
       let valid_i = tile_extent actual_interleave (of_nat i_tile)
       in fold_res (\<lambda>o_tile dest.
         let valid_o = tile_extent actual_other (of_nat o_tile);
             t = tile_at (of_nat i_tile) other_tiles (of_nat o_tile)
         in if valid_i = 0 \<or> valid_o = 0 then zero_tile t dest
            else let base_i = of_nat i_tile * HMX_TILE; base_o = of_nat o_tile * HMX_TILE
            in if valid_i \<ge> HMX_TILE \<and> valid_o \<ge> HMX_TILE \<and> source_stride mod HMX_TILE = 0
               then pack_transposed_full_tile hv t src source_stride base_i base_o dest
               else pack_transposed_ragged_tile hv t src source_stride base_i base_o valid_i valid_o dest)
       [0..<unat other_tiles]) [0..<unat interleave_tiles] dest"

section \<open>Unpacking the accumulator\<close>

text \<open>The scratch of a ragged tile; every element is written before it is read.\<close>

definition tile_scratch :: "'a::zero arr" where
  "tile_scratch = \<lparr>ar_addr = 0, ar_elems = replicate 1024 0\<rparr>"

text \<open>Adds the valid region of a scratch to the destination.\<close>

definition add_valid_region ::
  "('a \<Rightarrow> 'a \<Rightarrow> 'a) \<Rightarrow> 'a arr \<Rightarrow> nat \<Rightarrow> u32 \<Rightarrow> u32 \<Rightarrow> u32 \<Rightarrow> 'a arr \<Rightarrow> hmx_fault + 'a arr" where
  "add_valid_region add scratch d dest_stride valid_rows valid_cols =
     fold_res (\<lambda>r. let drow = d + unat (of_nat r * dest_stride); srow = unat (of_nat r * HMX_TILE)
       in fold_res (\<lambda>c dest.
            bind_res (load_elem dest (drow + c)) (\<lambda>x.
            bind_res (load_elem scratch (srow + c)) (\<lambda>y. store_elem (drow + c) (add x y) dest)))
          [0..<unat valid_cols]) [0..<unat valid_rows]"

definition unpack_acc_ragged_tile ::
  "hvx \<Rightarrow> nat \<Rightarrow> half arr \<Rightarrow> nat \<Rightarrow> u32 \<Rightarrow> u32 \<Rightarrow> u32 \<Rightarrow> float32 arr \<Rightarrow> hmx_fault + float32 arr" where
  "unpack_acc_ragged_tile hv t src d dest_stride valid_rows valid_cols dest =
     bind_res (fold_res (\<lambda>row_pair scratch.
         bind_res (load_vec 128 2 64 src (t + 64 * row_pair)) (\<lambda>v.
         let rows_f32 = vcvt_sf_hf hv v
         in bind_res (store_vec 128 4 (2 * row_pair * 32) (fst rows_f32) scratch)
              (store_vec 128 4 ((2 * row_pair + 1) * 32) (snd rows_f32)))) [0..<16] tile_scratch)
     (\<lambda>scratch. add_valid_region (float_add hv) scratch d dest_stride valid_rows valid_cols dest)"

definition unpack_acc_tile ::
  "hvx \<Rightarrow> nat \<Rightarrow> half arr \<Rightarrow> nat \<Rightarrow> u32 \<Rightarrow> u32 \<Rightarrow> u32 \<Rightarrow> float32 arr \<Rightarrow> hmx_fault + float32 arr" where
  "unpack_acc_tile hv t src d dest_stride valid_rows valid_cols dest =
     (if valid_rows \<ge> HMX_TILE \<and> valid_cols \<ge> HMX_TILE \<and> dest_stride mod HMX_TILE = 0
      then fold_res (\<lambda>row_pair dest.
             bind_res (load_vec 128 2 64 src (t + 64 * row_pair)) (\<lambda>v.
             let rows_f32 = vcvt_sf_hf hv v;
                 row0 = d + unat (2 * of_nat row_pair * dest_stride);
                 row1 = d + unat ((2 * of_nat row_pair + 1) * dest_stride)
             in bind_res (load_vec 128 4 32 dest row0) (\<lambda>x0.
                bind_res (store_vec 128 4 row0 (vadd_sf hv x0 (fst rows_f32)) dest) (\<lambda>dest.
                bind_res (load_vec 128 4 32 dest row1) (\<lambda>x1.
                store_vec 128 4 row1 (vadd_sf hv x1 (snd rows_f32)) dest))))) [0..<16] dest
      else unpack_acc_ragged_tile hv t src d dest_stride valid_rows valid_cols dest)"

definition unpack_acc_ragged_tile_f16 ::
  "hvx \<Rightarrow> nat \<Rightarrow> half arr \<Rightarrow> nat \<Rightarrow> u32 \<Rightarrow> u32 \<Rightarrow> u32 \<Rightarrow> half arr \<Rightarrow> hmx_fault + half arr" where
  "unpack_acc_ragged_tile_f16 hv t src d dest_stride valid_rows valid_cols dest =
     bind_res (fold_res (\<lambda>row_pair scratch.
         bind_res (load_vec 128 2 64 src (t + 64 * row_pair)) (\<lambda>v.
         let rows = vdeal_h hv v
         in bind_res (store_vec 64 2 (2 * row_pair * 32) (take 32 rows) scratch)
              (store_vec 64 2 ((2 * row_pair + 1) * 32) (drop 32 rows)))) [0..<16] tile_scratch)
     (\<lambda>scratch. add_valid_region (half_add hv) scratch d dest_stride valid_rows valid_cols dest)"

definition unpack_acc_tile_f16 ::
  "hvx \<Rightarrow> nat \<Rightarrow> half arr \<Rightarrow> nat \<Rightarrow> u32 \<Rightarrow> u32 \<Rightarrow> u32 \<Rightarrow> half arr \<Rightarrow> hmx_fault + half arr" where
  "unpack_acc_tile_f16 hv t src d dest_stride valid_rows valid_cols dest =
     (if valid_rows \<ge> HMX_TILE \<and> valid_cols \<ge> HMX_TILE \<and> dest_stride mod HMX_TILE = 0
      then fold_res (\<lambda>row_pair dest.
             bind_res (load_vec 128 2 64 src (t + 64 * row_pair)) (\<lambda>v.
             let row0 = d + unat (2 * of_nat row_pair * dest_stride);
                 row1 = d + unat ((2 * of_nat row_pair + 1) * dest_stride)
             in bind_res (load_vec 64 2 32 dest row0) (\<lambda>x0.
                bind_res (load_vec 64 2 32 dest row1) (\<lambda>x1.
                let rows = vadd_hf hv (x0 @ x1) (vdeal_h hv v)
                in bind_res (store_vec 64 2 row0 (take 32 rows) dest) (store_vec 64 2 row1 (drop 32 rows)))))) [0..<16] dest
      else unpack_acc_ragged_tile_f16 hv t src d dest_stride valid_rows valid_cols dest)"

definition unpack_acc_f16_to_f32 ::
  "hvx \<Rightarrow> float32 arr \<Rightarrow> half arr \<Rightarrow> u32 \<Rightarrow> u32 \<Rightarrow> u32 \<Rightarrow> u32 \<Rightarrow> u32 \<Rightarrow> hmx_fault + float32 arr" where
  "unpack_acc_f16_to_f32 hv dest src dest_stride actual_rows actual_cols row_tiles col_tiles =
     fold_res (\<lambda>row_tile dest.
       let valid_rows = tile_extent actual_rows (of_nat row_tile)
       in if valid_rows = 0 then Inr dest
          else fold_res (\<lambda>col_tile dest.
            let valid_cols = tile_extent actual_cols (of_nat col_tile)
            in if valid_cols = 0 then Inr dest
               else unpack_acc_tile hv (tile_at (of_nat row_tile) col_tiles (of_nat col_tile)) src
                      (unat (of_nat row_tile * HMX_TILE * dest_stride) + unat (of_nat col_tile * HMX_TILE))
                      dest_stride valid_rows valid_cols dest) [0..<unat col_tiles] dest) [0..<unat row_tiles] dest"

definition unpack_acc_f16_to_f16 ::
  "hvx \<Rightarrow> half arr \<Rightarrow> half arr \<Rightarrow> u32 \<Rightarrow> u32 \<Rightarrow> u32 \<Rightarrow> u32 \<Rightarrow> u32 \<Rightarrow> hmx_fault + half arr" where
  "unpack_acc_f16_to_f16 hv dest src dest_stride actual_rows actual_cols row_tiles col_tiles =
     fold_res (\<lambda>row_tile dest.
       let valid_rows = tile_extent actual_rows (of_nat row_tile)
       in if valid_rows = 0 then Inr dest
          else fold_res (\<lambda>col_tile dest.
            let valid_cols = tile_extent actual_cols (of_nat col_tile)
            in if valid_cols = 0 then Inr dest
               else unpack_acc_tile_f16 hv (tile_at (of_nat row_tile) col_tiles (of_nat col_tile)) src
                      (unat (of_nat row_tile * HMX_TILE * dest_stride) + unat (of_nat col_tile * HMX_TILE))
                      dest_stride valid_rows valid_cols dest) [0..<unat col_tiles] dest) [0..<unat row_tiles] dest"

end
