(* ===== verification/Hmx_Pack.thy ===== *)
theory Hmx_Pack
  imports Hmx_Tiles
begin

text \<open>
  Correctness of packing: of the tiles, of the grid, and of the shuffles that transpose a tile.
\<close>

section \<open>Loops that fill consecutive blocks\<close>

lemma length_put [simp]: "i + length xs \<le> length es \<Longrightarrow> length (put i xs es) = length es"
  by (simp add: put_def)

lemma put_Nil [simp]: "put i [] es = es"
  by (simp add: put_def)

lemma put_put: "i + length xs + length ys \<le> length es \<Longrightarrow> put (i + length xs) ys (put i xs es) = put i (xs @ ys) es"
  by (simp add: put_def add_ac)

lemma put_nth:
  "i + length xs \<le> length es \<Longrightarrow> k < length es \<Longrightarrow>
     put i xs es ! k = (if i \<le> k \<and> k < i + length xs then xs ! (k - i) else es ! k)"
  by (auto simp: put_def nth_append)

lemma fold_res_append: "fold_res f (xs @ ys) s = bind_res (fold_res f xs s) (fold_res f ys)"
proof (induction xs arbitrary: s)
  case (Cons x xs)
  then show ?case by (cases "f x s") auto
qed simp

lemma bind_res_assoc: "bind_res (bind_res r f) g = bind_res r (\<lambda>x. bind_res (f x) g)"
  by (cases r) auto

lemma fold_res_map: "fold_res f (map h ys) s = fold_res (\<lambda>y. f (h y)) ys s"
proof (induction ys arbitrary: s)
  case (Cons y ys)
  then show ?case by (cases "f (h y) s") simp_all
qed simp

lemma fold_res_product:
  "fold_res (\<lambda>x. fold_res (f x) ys) xs s = fold_res (\<lambda>(x, y). f x y) (List.product xs ys) s"
proof (induction xs arbitrary: s)
  case (Cons x xs)
  then show ?case by (cases "fold_res (f x) ys s") (simp_all add: fold_res_append fold_res_map)
qed simp

lemma length_blocks: "(\<And>p. p < k \<Longrightarrow> length (g p) = n) \<Longrightarrow> length (concat (map g [0..<k])) = n * k"
  by (induction k) auto

lemma nth_blocks:
  assumes "\<And>p. p < k \<Longrightarrow> length (g p) = n" and "a < k" and "b < n"
  shows "concat (map g [0..<k]) ! (n * a + b) = g a ! b"
  using assms
proof (induction k)
  case (Suc k)
  have len: "length (concat (map g [0..<k])) = n * k" using Suc.prems(1) by (intro length_blocks) simp
  show ?case
  proof (cases "a = k")
    case True
    with len Suc.prems(3) show ?thesis by (simp add: nth_append)
  next
    case False
    then have a: "a < k" using Suc.prems(2) by simp
    have "n * a + b < n * Suc a" using Suc.prems(3) by simp
    also have "\<dots> \<le> n * k" using a by (intro mult_le_mono) simp_all
    finally show ?thesis using Suc a len by (simp add: nth_append)
  qed
qed simp

lemma fold_put:
  assumes step: "\<And>p a. p < k \<Longrightarrow> ar_addr a = ar_addr a0 \<Longrightarrow> length (ar_elems a) = length (ar_elems a0) \<Longrightarrow>
      f p a = Inr (a\<lparr>ar_elems := put (t + n * p) (g p) (ar_elems a)\<rparr>)"
    and len: "\<And>p. p < k \<Longrightarrow> length (g p) = n" and fits: "t + n * k \<le> length (ar_elems a0)"
  shows "fold_res f [0..<k] a0 = Inr (a0\<lparr>ar_elems := put t (concat (map g [0..<k])) (ar_elems a0)\<rparr>)"
  using assms
proof (induction k)
  case (Suc k)
  let ?gs = "concat (map g [0..<k])"
  have l: "length ?gs = n * k" using Suc.prems(2) by (intro length_blocks) simp
  have f: "t + n * k + n \<le> length (ar_elems a0)" using Suc.prems(3) by simp
  have "fold_res f [0..<k] a0 = Inr (a0\<lparr>ar_elems := put t ?gs (ar_elems a0)\<rparr>)"
    using Suc f by simp
  moreover have "f k (a0\<lparr>ar_elems := put t ?gs (ar_elems a0)\<rparr>) =
      Inr (a0\<lparr>ar_elems := put (t + n * k) (g k) (put t ?gs (ar_elems a0))\<rparr>)"
    using Suc.prems(1) [of k "a0\<lparr>ar_elems := put t ?gs (ar_elems a0)\<rparr>"] l f by simp
  moreover have "put (t + n * k) (g k) (put t ?gs (ar_elems a0)) = put t (?gs @ g k) (ar_elems a0)"
    using put_put [of t ?gs "g k" "ar_elems a0"] l f Suc.prems(2) [of k] by simp
  ultimately show ?case by (simp add: fold_res_append)
qed simp

section \<open>One tile\<close>

text \<open>The image of a tile: two rows interleaved in every vector.\<close>

definition tile_image :: "(nat \<Rightarrow> nat \<Rightarrow> half) \<Rightarrow> half list" where
  "tile_image f = concat (map (\<lambda>p. map (\<lambda>k. f (2 * p + k mod 2) (k div 2)) [0..<64]) [0..<16])"

lemma length_tile_image [simp]: "length (tile_image f) = 1024"
  unfolding tile_image_def by (subst length_blocks [where n = 64]) simp_all

lemma tile_image_nth:
  assumes "i < 32" and "j < 32"
  shows "tile_image f ! (64 * (i div 2) + 2 * j + i mod 2) = f i j"
proof -
  have i: "2 * (i div 2) + i mod 2 = i" by simp
  have "tile_image f ! (64 * (i div 2) + (2 * j + i mod 2)) = f (2 * (i div 2) + (2 * j + i mod 2) mod 2) ((2 * j + i mod 2) div 2)"
    unfolding tile_image_def using assms by (subst nth_blocks [where n = 64]) auto
  then show ?thesis by (simp add: i add.assoc)
qed

lemma interleave_rows:
  assumes "length xs = 32" and "length ys = 32"
  shows "interleave (xs @ ys) = map (\<lambda>k. (if k mod 2 = 0 then xs else ys) ! (k div 2)) [0..<64]"
  using assms by (auto simp: interleave_def nth_append)

text \<open>An array that a packed tile goes to.\<close>

definition tile_place :: "nat \<Rightarrow> 'a arr \<Rightarrow> bool" where
  "tile_place t a \<longleftrightarrow> t + 1024 \<le> length (ar_elems a) \<and> 128 dvd ar_addr a + 2 * t"

lemma store_row_pair_image:
  assumes law: "shuffle_law hv" and place: "t + 1024 \<le> length (ar_elems a)" "128 dvd ar_addr a + 2 * t" and p: "p < 16"
  shows "store_row_pair hv t p (map (f (2 * p)) [0..<32]) (map (f (2 * p + 1)) [0..<32]) a =
    Inr (a\<lparr>ar_elems := put (t + 64 * p) (map (\<lambda>k. f (2 * p + k mod 2) (k div 2)) [0..<64]) (ar_elems a)\<rparr>)"
proof -
  let ?v = "map (f (2 * p)) [0..<32] @ map (f (2 * p + 1)) [0..<32]"
  have "vshuff_h hv ?v = interleave ?v" using law by (simp add: shuffle_law_def)
  also have "\<dots> = map (\<lambda>k. f (2 * p + k mod 2) (k div 2)) [0..<64]"
    by (subst interleave_rows) (auto simp: mod2_eq_if)
  finally have v: "vshuff_h hv ?v = map (\<lambda>k. f (2 * p + k mod 2) (k div 2)) [0..<64]" .
  have "128 dvd ar_addr a + 2 * (t + 64 * p)"
    using place(2) dvd_add [of 128 "ar_addr a + 2 * t" "128 * p"] by (simp add: algebra_simps)
  then show ?thesis using place(1) p unfolding store_row_pair_def v by (simp add: store_vec_def)
qed

lemma row_pairs_image:
  assumes law: "shuffle_law hv" and place: "tile_place t a"
    and rows: "\<And>p. p < 16 \<Longrightarrow> row0 p = Inr (map (f (2 * p)) [0..<32]) \<and> row1 p = Inr (map (f (2 * p + 1)) [0..<32])"
  shows "fold_res (\<lambda>p a. bind_res (row0 p) (\<lambda>r0. bind_res (row1 p) (\<lambda>r1. store_row_pair hv t p r0 r1 a))) [0..<16] a =
    Inr (a\<lparr>ar_elems := put t (tile_image f) (ar_elems a)\<rparr>)"
  unfolding tile_image_def
proof (rule fold_put [where n = 64])
  fix p :: nat and b :: "half arr"
  assume p: "p < 16" and b: "ar_addr b = ar_addr a" "length (ar_elems b) = length (ar_elems a)"
  then show "bind_res (row0 p) (\<lambda>r0. bind_res (row1 p) (\<lambda>r1. store_row_pair hv t p r0 r1 b)) =
      Inr (b\<lparr>ar_elems := put (t + 64 * p) (map (\<lambda>k. f (2 * p + k mod 2) (k div 2)) [0..<64]) (ar_elems b)\<rparr>)"
    using store_row_pair_image [OF law, of t b p f] place rows [OF p] by (simp add: tile_place_def)
qed (use place in \<open>simp_all add: tile_place_def\<close>)

lemma load_row:
  assumes "i + 32 \<le> length (ar_elems a)" and "64 dvd ar_addr a + 2 * i"
  shows "load_vec 64 2 32 a i = Inr (map (\<lambda>k. ar_elems a ! (i + k)) [0..<32])"
proof -
  have "take 32 (drop i (ar_elems a)) = map (\<lambda>k. ar_elems a ! (i + k)) [0..<32]"
    using assms(1) by (intro nth_equalityI) auto
  with assms show ?thesis by (simp add: load_vec_def)
qed

text \<open>A scratch that holds a tile.\<close>

definition scratch_of :: "(nat \<Rightarrow> nat \<Rightarrow> half) \<Rightarrow> half arr \<Rightarrow> bool" where
  "scratch_of f s \<longleftrightarrow> ar_addr s = 0 \<and> length (ar_elems s) = 1024 \<and> (\<forall>i<32. \<forall>j<32. ar_elems s ! (i * 32 + j) = f i j)"

lemma shuffle_scratch_image:
  assumes law: "shuffle_law hv" and place: "tile_place t a" and s: "scratch_of f s"
  shows "shuffle_scratch hv t s a = Inr (a\<lparr>ar_elems := put t (tile_image f) (ar_elems a)\<rparr>)"
  unfolding shuffle_scratch_def
proof (rule row_pairs_image [OF law place])
  fix p :: nat
  assume p: "p < 16"
  have row: "load_vec 64 2 32 s (r * 32) = Inr (map (f r) [0..<32])" if "r < 32" for r
    using s that by (subst load_row) (auto simp: scratch_of_def)
  show "load_vec 64 2 32 s (2 * p * 32) = Inr (map (f (2 * p)) [0..<32]) \<and>
      load_vec 64 2 32 s ((2 * p + 1) * 32) = Inr (map (f (2 * p + 1)) [0..<32])"
    using row [of "2 * p"] row [of "2 * p + 1"] p by simp
qed

text \<open>Gathering elements into a scratch.\<close>

lemma gather:
  assumes "\<And>x. x \<in> set xs \<Longrightarrow> g x < length (ar_elems src) \<and> h x < length (ar_elems a)"
  shows "fold_res (\<lambda>x a. bind_res (load_elem src (g x)) (\<lambda>v. store_elem (h x) v a)) xs a =
    Inr (a\<lparr>ar_elems := fold (\<lambda>x es. es[h x := ar_elems src ! g x]) xs (ar_elems a)\<rparr>)"
  using assms
proof (induction xs arbitrary: a)
  case (Cons x xs)
  then show ?case by (simp add: load_elem_def store_elem_def)
qed simp

lemma find_product:
  assumes "\<And>x y. x < n \<Longrightarrow> y < m \<Longrightarrow> P (x, y) \<longleftrightarrow> x = a \<and> y = b"
  shows "find P (List.product [0..<n] [0..<m]) = (if a < n \<and> b < m then Some (a, b) else None)"
proof (cases "a < n \<and> b < m")
  case True
  have "P z \<longleftrightarrow> z = (a, b)" if "z \<in> set (List.product [0..<n] [0..<m])" for z
    using assms that by (cases z) auto
  moreover have "(a, b) \<in> set (List.product [0..<n] [0..<m])" using True by simp
  ultimately have "find P (List.product [0..<n] [0..<m]) = Some (a, b)"
    by (metis (no_types, lifting) find_None_iff find_Some_iff2 nth_mem not_None_eq option.sel)
  with True show ?thesis by simp
next
  case False
  with assms have "find P (List.product [0..<n] [0..<m]) = None" by (auto simp: find_None_iff)
  with False show ?thesis by simp
qed

lemma tile_pos_eq:
  fixes x y x' y' :: nat
  assumes "y < 32" and "y' < 32"
  shows "x * 32 + y = x' * 32 + y' \<longleftrightarrow> x = x' \<and> y = y'"
proof
  assume eq: "x * 32 + y = x' * 32 + y'"
  have "x = (x * 32 + y) div 32" "x' = (x' * 32 + y') div 32" using assms by simp_all
  with eq have "x = x'" by simp
  with eq show "x = x' \<and> y = y'" by simp
qed simp

lemma gather_scratch:
  assumes small: "n \<le> 32" "m \<le> 32"
    and reads: "\<And>x y. x < n \<Longrightarrow> y < m \<Longrightarrow> g x y < length (ar_elems src)"
    and writes: "\<And>x y. x < n \<Longrightarrow> y < m \<Longrightarrow> h x y = (if tr then y * 32 + x else x * 32 + y)"
  defines "f \<equiv> \<lambda>i j. if tr then (if j < n \<and> i < m then ar_elems src ! g j i else 0)
      else (if i < n \<and> j < m then ar_elems src ! g i j else 0)"
  shows "\<exists>s. fold_res (\<lambda>x. fold_res (\<lambda>y s. bind_res (load_elem src (g x y)) (\<lambda>v. store_elem (h x y) v s)) [0..<m]) [0..<n]
      zero_scratch = Inr s \<and> scratch_of f s"
proof -
  let ?xs = "List.product [0..<n] [0..<m]" and ?g = "\<lambda>p. g (fst p) (snd p)" and ?h = "\<lambda>p. h (fst p) (snd p)"
  have mem: "p \<in> set ?xs \<longleftrightarrow> fst p < n \<and> snd p < m" for p by (cases p) auto
  have w: "?h p < 1024" if "p \<in> set ?xs" for p
    using that small writes by (auto simp: mem)
  have run: "fold_res (\<lambda>x. fold_res (\<lambda>y s. bind_res (load_elem src (g x y)) (\<lambda>v. store_elem (h x y) v s)) [0..<m]) [0..<n]
      zero_scratch = Inr (zero_scratch\<lparr>ar_elems := fold (\<lambda>p es. es[?h p := ar_elems src ! ?g p]) ?xs (ar_elems zero_scratch)\<rparr>)"
    unfolding fold_res_product case_prod_beta
    using reads w by (intro gather) (auto simp: zero_scratch_def mem simp del: set_product)
  have dist: "distinct (map ?h ?xs)"
    unfolding distinct_map
  proof (intro conjI inj_onI)
    show "distinct ?xs" by (simp add: distinct_product)
    fix p q assume pq: "p \<in> set ?xs" "q \<in> set ?xs" "?h p = ?h q"
    from pq small writes [of "fst p" "snd p"] writes [of "fst q" "snd q"] tile_pos_eq [of "snd p" "snd q" "fst p" "fst q"]
      tile_pos_eq [of "fst p" "fst q" "snd p" "snd q"] show "p = q"
      by (auto simp: mem prod_eq_iff split: if_splits)
  qed
  have "fold (\<lambda>p es. es[?h p := ar_elems src ! ?g p]) ?xs (ar_elems zero_scratch) ! (i * 32 + j) = f i j"
    if i: "i < 32" and j: "j < 32" for i j
  proof -
    have u: "x * 32 + y = i * 32 + j \<longleftrightarrow> x = i \<and> y = j" if "y < 32" for x y :: nat
      by (rule tile_pos_eq [OF that j])
    have find: "find (\<lambda>p. ?h p = i * 32 + j) ?xs = (if tr then (if j < n \<and> i < m then Some (j, i) else None)
        else (if i < n \<and> j < m then Some (i, j) else None))"
    proof (cases tr)
      case True
      then have "?h (x, y) = i * 32 + j \<longleftrightarrow> x = j \<and> y = i" if "x < n" "y < m" for x y
        using that small writes u [of x y] by auto
      from find_product [of n m "\<lambda>p. ?h p = i * 32 + j" j i, OF this] True show ?thesis by simp
    next
      case False
      then have "?h (x, y) = i * 32 + j \<longleftrightarrow> x = i \<and> y = j" if "x < n" "y < m" for x y
        using that small writes u [of y x] by auto
      from find_product [of n m "\<lambda>p. ?h p = i * 32 + j" i j, OF this] False show ?thesis by simp
    qed
    have k: "i * 32 + j < length (ar_elems zero_scratch)" using i j by (simp add: zero_scratch_def)
    show ?thesis
      unfolding fold_update_nth [OF k dist] find f_def using k by (auto simp: zero_scratch_def)
  qed
  then have "scratch_of f (zero_scratch\<lparr>ar_elems := fold (\<lambda>p es. es[?h p := ar_elems src ! ?g p]) ?xs (ar_elems zero_scratch)\<rparr>)"
    by (simp add: scratch_of_def zero_scratch_def)
  with run show ?thesis by blast
qed

section \<open>Matrices and grids of tiles\<close>

text \<open>A row-major matrix: aligned as the interface asks for, every row within the array, and the array
  within the address space.\<close>

definition matrix_at :: "half arr \<Rightarrow> u32 \<Rightarrow> u32 \<Rightarrow> u32 \<Rightarrow> bool" where
  "matrix_at src stride rows cols \<longleftrightarrow> 64 dvd ar_addr src \<and> length (ar_elems src) \<le> 2 ^ 31 \<and>
     (\<forall>r<unat rows. r * unat stride + unat cols \<le> length (ar_elems src))"

definition matrix_elem :: "half arr \<Rightarrow> u32 \<Rightarrow> u32 \<Rightarrow> u32 \<Rightarrow> nat \<Rightarrow> nat \<Rightarrow> half" where
  "matrix_elem src stride rows cols i j =
     (if i < unat rows \<and> j < unat cols then ar_elems src ! (i * unat stride + j) else 0)"

text \<open>Where the packed layout has the element of a row and a column.\<close>

definition packed_index :: "nat \<Rightarrow> nat \<Rightarrow> nat \<Rightarrow> nat" where
  "packed_index col_tiles i j =
     1024 * (i div 32 * col_tiles + j div 32) + 64 * (i mod 32 div 2) + 2 * (j mod 32) + i mod 2"

lemma unat_of_nat32: "n < 2 ^ 32 \<Longrightarrow> unat (of_nat n :: u32) = n"
  by (simp add: unat_of_nat)

lemma unat_mult32: "a < 2 ^ 32 \<Longrightarrow> a * unat (s :: u32) < 2 ^ 32 \<Longrightarrow> unat (of_nat a * s) = a * unat s"
  by (simp add: unat_word_ariths unat_of_nat)

lemma tile_extent_nat:
  assumes "rt * 32 < 2 ^ 32"
  shows "unat (tile_extent actual (of_nat rt)) = min 32 (unat actual - rt * 32)"
proof -
  have b: "unat (of_nat rt * 32 :: u32) = rt * 32"
    using assms unat_mult32 [of rt 32] by simp
  show ?thesis
    using b by (auto simp: tile_extent_def HMX_TILE_def Let_def word_le_nat_alt word_less_nat_alt unat_sub min_def)
qed

lemma tile_at_nat:
  assumes "2048 * (rt * unat CT + ct) < 2 ^ 32" and "rt < 2 ^ 32" and "ct < 2 ^ 32"
  shows "tile_at (of_nat rt) CT (of_nat ct) = 1024 * (rt * unat CT + ct)"
proof -
  have e: "(of_nat rt * CT + of_nat ct) * 2048 = (of_nat (2048 * (rt * unat CT + ct)) :: u32)"
    by (simp add: mult.commute)
  show ?thesis
    unfolding tile_at_def HMX_TILE_BYTES_def e using assms(1) by (simp only: unat_of_nat32)
qed

text \<open>The index of an element that the code computes.\<close>

lemma row_index:
  assumes m: "matrix_at src stride rows cols" and r: "rt * 32 + r < unat rows" and c: "ct * 32 < 2 ^ 32"
  shows "unat ((of_nat rt * HMX_TILE + of_nat r) * stride) + unat (of_nat ct * HMX_TILE) = (rt * 32 + r) * unat stride + ct * 32"
proof -
  have "(rt * 32 + r) * unat stride \<le> 2 ^ 31" using m r by (fastforce simp: matrix_at_def)
  moreover have "rt * 32 + r < 2 ^ 32" using r unat32_less [of rows] by simp
  ultimately have "unat (of_nat (rt * 32 + r) * stride) = (rt * 32 + r) * unat stride" by (intro unat_mult32) auto
  moreover have "unat (of_nat ct * 32 :: u32) = ct * 32" using c unat_mult32 [of ct 32] by simp
  ultimately show ?thesis by (simp add: HMX_TILE_def)
qed

lemma full_tile:
  assumes "tile_extent actual (of_nat rt) \<ge> HMX_TILE" and "rt * 32 < 2 ^ 32"
  shows "rt * 32 + 32 \<le> unat actual"
  using assms(1) tile_extent_nat [OF assms(2), of actual]
  by (auto simp: HMX_TILE_def word_le_nat_alt min_def split: if_splits)

lemma aligned_row:
  assumes "64 dvd addr" and "stride mod HMX_TILE = 0"
  shows "64 dvd addr + 2 * (i * unat stride + 32 * c)"
proof -
  have "unat stride mod 32 = 0" using assms(2) unat_mod [of stride 32] by (simp add: HMX_TILE_def)
  then have "32 dvd unat stride" by (simp add: dvd_eq_mod_eq_0)
  then obtain q where "unat stride = 32 * q" by (rule dvdE)
  then have "2 * (i * unat stride + 32 * c) = 64 * (i * q + c)" by simp
  with assms(1) show ?thesis by (metis dvd_add dvd_triv_left)
qed

lemma load_matrix_row:
  assumes m: "matrix_at src stride rows cols" and s: "stride mod HMX_TILE = 0"
    and r: "r < unat rows" and c: "32 * c + 32 \<le> unat cols"
  shows "load_vec 64 2 32 src (r * unat stride + 32 * c) =
    Inr (map (\<lambda>k. matrix_elem src stride rows cols r (32 * c + k)) [0..<32])"
proof -
  have "r * unat stride + unat cols \<le> length (ar_elems src)" using m r by (simp add: matrix_at_def)
  with c have "r * unat stride + 32 * c + 32 \<le> length (ar_elems src)" by simp
  moreover have "64 dvd ar_addr src + 2 * (r * unat stride + 32 * c)"
    using m s by (intro aligned_row) (simp_all add: matrix_at_def)
  ultimately show ?thesis
    using r c by (subst load_row) (auto simp: matrix_elem_def add.assoc)
qed

lemma ragged_extent:
  assumes "rt * 32 < 2 ^ 32" and "x < unat (tile_extent actual (of_nat rt))"
  shows "x < 32" and "rt * 32 + x < unat actual"
  using assms tile_extent_nat [OF assms(1), of actual] by auto

lemma in_extent:
  "rt * 32 < 2 ^ 32 \<Longrightarrow> x < 32 \<Longrightarrow> x < unat (tile_extent actual (of_nat rt)) \<longleftrightarrow> 32 * rt + x < unat actual"
  using tile_extent_nat [of rt actual] by auto

lemma matrix_index:
  assumes "matrix_at src stride rows cols" and "r < unat rows" and "c < unat cols"
  shows "r * unat stride + c < length (ar_elems src)"
proof -
  have "r * unat stride + unat cols \<le> length (ar_elems src)" using assms(1,2) by (simp add: matrix_at_def)
  with assms(3) show ?thesis by simp
qed

lemma pack_rm_tile_image:
  assumes law: "shuffle_law hv" and place: "tile_place t a" and m: "matrix_at src stride rows cols"
    and rt: "rt * 32 < 2 ^ 32" and ct: "ct * 32 < 2 ^ 32"
  shows "pack_rm_tile hv t src stride (of_nat rt * HMX_TILE) (of_nat ct * HMX_TILE)
      (tile_extent rows (of_nat rt)) (tile_extent cols (of_nat ct)) a =
    Inr (a\<lparr>ar_elems := put t (tile_image (\<lambda>i j. matrix_elem src stride rows cols (32 * rt + i) (32 * ct + j))) (ar_elems a)\<rparr>)"
    (is "?pack = Inr (a\<lparr>ar_elems := put t (tile_image ?f) (ar_elems a)\<rparr>)")
proof (cases "tile_extent rows (of_nat rt) \<ge> HMX_TILE \<and> tile_extent cols (of_nat ct) \<ge> HMX_TILE \<and> stride mod HMX_TILE = 0")
  case True
  have rows: "rt * 32 + 32 \<le> unat rows" and cols: "ct * 32 + 32 \<le> unat cols"
    using True full_tile rt ct by blast+
  have "?pack = fold_res (\<lambda>p a. bind_res (load_vec 64 2 32 src (unat ((of_nat rt * HMX_TILE + 2 * of_nat p) * stride) + unat (of_nat ct * HMX_TILE)))
      (\<lambda>r0. bind_res (load_vec 64 2 32 src (unat ((of_nat rt * HMX_TILE + 2 * of_nat p) * stride) + unat (of_nat ct * HMX_TILE) + unat stride))
      (\<lambda>r1. store_row_pair hv t p r0 r1 a))) [0..<16] a"
    using True by (simp add: pack_rm_tile_def Let_def)
  also have "\<dots> = Inr (a\<lparr>ar_elems := put t (tile_image ?f) (ar_elems a)\<rparr>)"
  proof (rule row_pairs_image [OF law place])
    fix p :: nat
    assume p: "p < 16"
    have i: "unat ((of_nat rt * HMX_TILE + 2 * of_nat p) * stride) + unat (of_nat ct * HMX_TILE) =
        (rt * 32 + 2 * p) * unat stride + ct * 32"
      using row_index [OF m, of rt "2 * p" ct] rows ct p by simp
    have row: "load_vec 64 2 32 src ((rt * 32 + r) * unat stride + ct * 32) = Inr (map (?f r) [0..<32])" if "r < 32" for r
      using load_matrix_row [OF m _ _ , of "rt * 32 + r" ct] True rows cols that by (simp add: mult.commute)
    have i1: "(rt * 32 + 2 * p) * unat stride + ct * 32 + unat stride = (rt * 32 + (2 * p + 1)) * unat stride + ct * 32"
      by (simp add: algebra_simps)
    show "load_vec 64 2 32 src (unat ((of_nat rt * HMX_TILE + 2 * of_nat p) * stride) + unat (of_nat ct * HMX_TILE)) =
          Inr (map (?f (2 * p)) [0..<32]) \<and>
        load_vec 64 2 32 src (unat ((of_nat rt * HMX_TILE + 2 * of_nat p) * stride) + unat (of_nat ct * HMX_TILE) + unat stride) =
          Inr (map (?f (2 * p + 1)) [0..<32])"
      unfolding i i1 using row [of "2 * p"] row [of "2 * p + 1"] p by simp
  qed
  finally show ?thesis .
next
  case False
  let ?vr = "unat (tile_extent rows (of_nat rt))" and ?vc = "unat (tile_extent cols (of_nat ct))"
  let ?g = "\<lambda>r c. unat ((of_nat rt * HMX_TILE + of_nat r) * stride) + unat (of_nat ct * HMX_TILE) + c"
  have le: "?vr \<le> 32" "?vc \<le> 32" using tile_extent_nat rt ct by simp_all
  have g: "?g r c = (rt * 32 + r) * unat stride + (ct * 32 + c)" if "r < ?vr" for r c
    using row_index [OF m _ ct, of rt r] ragged_extent(2) [OF rt that] by simp
  have h: "unat (of_nat r * HMX_TILE + of_nat c) = r * 32 + c" if "r < ?vr" "c < ?vc" for r c
  proof -
    have "r < 32" "c < 32" using that le by auto
    then have "unat (of_nat (r * 32 + c) :: u32) = r * 32 + c" by (intro unat_of_nat32) simp
    then show ?thesis by (simp add: HMX_TILE_def)
  qed
  obtain s where run: "fold_res (\<lambda>r. fold_res (\<lambda>c s. bind_res (load_elem src (?g r c))
        (\<lambda>v. store_elem (unat (of_nat r * HMX_TILE + of_nat c)) v s)) [0..<?vc]) [0..<?vr] zero_scratch = Inr s"
    and s: "scratch_of (\<lambda>i j. if i < ?vr \<and> j < ?vc then ar_elems src ! ?g i j else 0) s"
    using gather_scratch [of ?vr ?vc ?g src "\<lambda>r c. unat (of_nat r * HMX_TILE + of_nat c)" False] le h g
      matrix_index [OF m] ragged_extent(2) [OF rt] ragged_extent(2) [OF ct] by auto
  have "scratch_of ?f s"
    using s g in_extent [OF rt] in_extent [OF ct]
    by (auto simp: scratch_of_def matrix_elem_def mult.commute [of 32] add.assoc)
  from shuffle_scratch_image [OF law place this] run False show ?thesis
    by (auto simp: pack_rm_tile_def pack_rm_ragged_tile_def Let_def)
qed

lemma zero_tile_image:
  "tile_place t a \<Longrightarrow> zero_tile t a = Inr (a\<lparr>ar_elems := put t (replicate 1024 0) (ar_elems a)\<rparr>)"
  by (simp add: zero_tile_def store_vec_def tile_place_def)

lemma zero_image: "(\<And>i j. i < 32 \<Longrightarrow> j < 32 \<Longrightarrow> f i j = 0) \<Longrightarrow> tile_image f = replicate 1024 0"
proof (rule nth_equalityI)
  fix k
  assume zero: "\<And>i j. i < 32 \<Longrightarrow> j < 32 \<Longrightarrow> f i j = 0" and k: "k < length (tile_image f)"
  have "tile_image f ! (64 * (k div 64) + k mod 64) = f (2 * (k div 64) + k mod 64 mod 2) (k mod 64 div 2)"
    unfolding tile_image_def using k by (subst nth_blocks [where n = 64]) auto
  moreover have "k div 64 < 16" using k by (simp add: less_mult_imp_div_less)
  then have "2 * (k div 64) + k mod 64 mod 2 < 32" by (simp add: mod2_eq_if)
  moreover have "k mod 64 div 2 < 32" by (simp add: less_mult_imp_div_less)
  ultimately show "tile_image f ! k = replicate 1024 0 ! k" using zero k by simp
qed simp

text \<open>The grid: every tile is put to its place.\<close>

definition grid_of :: "nat \<Rightarrow> nat \<Rightarrow> (nat \<Rightarrow> nat \<Rightarrow> half) \<Rightarrow> half list" where
  "grid_of RT CT g = concat (map (\<lambda>rt. concat (map (\<lambda>ct. tile_image (\<lambda>i j. g (32 * rt + i) (32 * ct + j))) [0..<CT])) [0..<RT])"

lemma length_grid_row [simp]: "length (concat (map (\<lambda>ct. tile_image (h ct)) [0..<CT])) = 1024 * CT"
  by (rule length_blocks) simp

lemma length_grid [simp]: "length (grid_of RT CT g) = 1024 * (RT * CT)"
  unfolding grid_of_def by (subst length_blocks [where n = "1024 * CT"]) (auto simp: algebra_simps)

lemma block_bound: "i < (n :: nat) \<Longrightarrow> m * i + m \<le> m * n"
  using mult_le_mono2 [of "Suc i" n m] by simp

lemma grid_nth:
  assumes i: "i < 32 * RT" and j: "j < 32 * CT"
  shows "grid_of RT CT g ! packed_index CT i j = g i j" and "packed_index CT i j < 1024 * (RT * CT)"
proof -
  let ?o = "64 * (i mod 32 div 2) + 2 * (j mod 32) + i mod 32 mod 2"
  have q: "i div 32 < RT" "j div 32 < CT" using i j by (auto simp: less_mult_imp_div_less mult.commute)
  have mod2: "i mod 32 mod 2 = i mod 2" by (simp add: mod_mod_cancel)
  have "i mod 32 div 2 < 16" by (simp add: less_mult_imp_div_less)
  moreover have "j mod 32 < 32" "i mod 32 mod 2 < 2" by simp_all
  ultimately have o: "?o < 1024" by linarith
  have inner: "1024 * (j div 32) + ?o < 1024 * CT" using o block_bound [OF q(2), of 1024] by linarith
  have idx: "packed_index CT i j = 1024 * CT * (i div 32) + (1024 * (j div 32) + ?o)"
    by (simp add: packed_index_def mod2 algebra_simps)
  have "grid_of RT CT g ! packed_index CT i j =
      concat (map (\<lambda>ct. tile_image (\<lambda>x y. g (32 * (i div 32) + x) (32 * ct + y))) [0..<CT]) ! (1024 * (j div 32) + ?o)"
    unfolding idx grid_of_def using q(1) inner by (intro nth_blocks) auto
  also have "\<dots> = tile_image (\<lambda>x y. g (32 * (i div 32) + x) (32 * (j div 32) + y)) ! ?o"
    using q(2) o by (intro nth_blocks) auto
  also have "\<dots> = g i j" by (subst tile_image_nth) auto
  finally show "grid_of RT CT g ! packed_index CT i j = g i j" .
  have "1024 * CT * (i div 32) + 1024 * CT \<le> 1024 * CT * RT" by (rule block_bound [OF q(1)])
  with inner show "packed_index CT i j < 1024 * (RT * CT)" unfolding idx by (simp add: algebra_simps)
qed

lemma grid_run:
  fixes dest :: "half arr"
  assumes tile: "\<And>rt ct a. rt < RT \<Longrightarrow> ct < CT \<Longrightarrow> ar_addr a = ar_addr dest \<Longrightarrow> length (ar_elems a) = length (ar_elems dest) \<Longrightarrow>
      F rt ct a = Inr (a\<lparr>ar_elems := put (1024 * (rt * CT + ct)) (tile_image (\<lambda>i j. g (32 * rt + i) (32 * ct + j))) (ar_elems a)\<rparr>)"
    and len: "1024 * (RT * CT) \<le> length (ar_elems dest)"
  shows "fold_res (\<lambda>rt. fold_res (F rt) [0..<CT]) [0..<RT] dest = Inr (dest\<lparr>ar_elems := put 0 (grid_of RT CT g) (ar_elems dest)\<rparr>)"
  unfolding grid_of_def
proof (rule fold_put [where n = "1024 * CT"])
  fix rt :: nat and a :: "half arr"
  assume rt: "rt < RT" and a: "ar_addr a = ar_addr dest" "length (ar_elems a) = length (ar_elems dest)"
  have fits: "1024 * CT * rt + 1024 * CT \<le> length (ar_elems a)"
    using block_bound [OF rt, of "1024 * CT"] len a(2) by (simp add: algebra_simps)
  show "fold_res (F rt) [0..<CT] a = Inr (a\<lparr>ar_elems :=
      put (0 + 1024 * CT * rt) (concat (map (\<lambda>ct. tile_image (\<lambda>i j. g (32 * rt + i) (32 * ct + j))) [0..<CT])) (ar_elems a)\<rparr>)"
    using fits a rt tile by (intro fold_put [where n = 1024]) (auto simp: algebra_simps)
qed (use len in \<open>auto simp: algebra_simps\<close>)

text \<open>Where packed tiles may go.\<close>

definition grid_place :: "u32 \<Rightarrow> u32 \<Rightarrow> half arr \<Rightarrow> bool" where
  "grid_place row_tiles col_tiles dest \<longleftrightarrow> 128 dvd ar_addr dest \<and> length (ar_elems dest) \<le> 2 ^ 31 \<and>
     1024 * (unat row_tiles * unat col_tiles) \<le> length (ar_elems dest)"

lemma grid_place_tile:
  assumes place: "grid_place RT CT dest" and rt: "rt < unat RT" and ct: "ct < unat CT"
    and a: "ar_addr a = ar_addr dest" "length (ar_elems a) = length (ar_elems dest)"
  shows "rt * 32 < 2 ^ 32" and "ct * 32 < 2 ^ 32" and "tile_at (of_nat rt) CT (of_nat ct) = 1024 * (rt * unat CT + ct)"
    and "tile_place (1024 * (rt * unat CT + ct)) a"
proof -
  have "1024 * (unat RT * unat CT) \<le> 2 ^ 31" using place unfolding grid_place_def by linarith
  then have n: "unat RT * unat CT \<le> 2097152" by (simp add: mult.commute)
  have b: "rt * unat CT + ct < unat RT * unat CT"
    using block_bound [OF rt, of "unat CT"] ct by (simp add: mult.commute)
  have "rt * 1 \<le> rt * unat CT" using ct by (intro mult_le_mono2) simp
  with b n have small: "rt < 2097152" "ct < 2097152" by linarith+
  then show "rt * 32 < 2 ^ 32" "ct * 32 < 2 ^ 32" by simp_all
  show "tile_at (of_nat rt) CT (of_nat ct) = 1024 * (rt * unat CT + ct)"
    using small b n by (intro tile_at_nat) simp_all
  have "1024 * (rt * unat CT + ct) + 1024 \<le> length (ar_elems a)"
    using block_bound [OF b, of 1024] place a(2) by (simp add: grid_place_def)
  moreover have "128 dvd ar_addr a + 2 * (1024 * (rt * unat CT + ct))"
  proof -
    have "2 * (1024 * (rt * unat CT + ct)) = 128 * (16 * (rt * unat CT + ct))" by simp
    then show ?thesis using place a(1) unfolding grid_place_def by (metis dvd_add dvd_triv_left)
  qed
  ultimately show "tile_place (1024 * (rt * unat CT + ct)) a" by (simp add: tile_place_def)
qed

lemma empty_tile:
  assumes "rt * 32 < 2 ^ 32" and "ct * 32 < 2 ^ 32" and "tile_extent rows (of_nat rt) = 0 \<or> tile_extent cols (of_nat ct) = 0"
  shows "tile_image (\<lambda>i j. matrix_elem src stride rows cols (32 * rt + i) (32 * ct + j)) = replicate 1024 0"
proof (rule zero_image)
  fix i j :: nat
  from assms(3) tile_extent_nat [OF assms(1), of rows] tile_extent_nat [OF assms(2), of cols]
  have "unat rows \<le> rt * 32 \<or> unat cols \<le> ct * 32" by (auto simp: min_def split: if_splits)
  then show "matrix_elem src stride rows cols (32 * rt + i) (32 * ct + j) = 0" by (auto simp: matrix_elem_def)
qed

lemma pack_f16_run:
  assumes law: "shuffle_law hv" and m: "matrix_at src stride rows cols" and place: "grid_place RT CT dest"
  shows "pack_f16 hv dest src stride rows cols RT CT =
    Inr (dest\<lparr>ar_elems := put 0 (grid_of (unat RT) (unat CT) (matrix_elem src stride rows cols)) (ar_elems dest)\<rparr>)"
  unfolding pack_f16_def Let_def
proof (rule grid_run)
  fix rt ct and a :: "half arr"
  assume t: "rt < unat RT" "ct < unat CT" "ar_addr a = ar_addr dest" "length (ar_elems a) = length (ar_elems dest)"
  note p = grid_place_tile [OF place t]
  show "(if tile_extent rows (of_nat rt) = 0 \<or> tile_extent cols (of_nat ct) = 0
      then zero_tile (tile_at (of_nat rt) CT (of_nat ct)) a
      else pack_rm_tile hv (tile_at (of_nat rt) CT (of_nat ct)) src stride (of_nat rt * HMX_TILE) (of_nat ct * HMX_TILE)
        (tile_extent rows (of_nat rt)) (tile_extent cols (of_nat ct)) a) =
    Inr (a\<lparr>ar_elems := put (1024 * (rt * unat CT + ct))
      (tile_image (\<lambda>i j. matrix_elem src stride rows cols (32 * rt + i) (32 * ct + j))) (ar_elems a)\<rparr>)"
    using empty_tile [OF p(1,2)] zero_tile_image [OF p(4)] pack_rm_tile_image [OF law p(4) m p(1,2)]
    by (simp add: p(3))
qed (use place in \<open>simp add: grid_place_def\<close>)

end
