(* ===== verification/Hmx_Transpose.thy ===== *)
theory Hmx_Transpose
  imports Hmx_Pack
begin

text \<open>
  The fast path of packing a transposed matrix: five stages of vector shuffles transpose a tile and
  interleave its rows. The shuffles move elements and do not look at them, so it is enough to run the
  stages once, on the positions of the elements.
\<close>

section \<open>The shuffles of the stages\<close>

text \<open>The shuffle by -4 weaves two vectors two elements at a time, the one by -8 four at a time.\<close>

fun weave2 :: "'a list \<Rightarrow> 'a list \<Rightarrow> 'a list" where
  "weave2 (a # b # xs) (c # d # ys) = a # b # c # d # weave2 xs ys"
| "weave2 _ _ = []"

fun weave4 :: "'a list \<Rightarrow> 'a list \<Rightarrow> 'a list" where
  "weave4 (a # b # c # d # xs) (e # f # g # h # ys) = a # b # c # d # e # f # g # h # weave4 xs ys"
| "weave4 _ _ = []"

lemma weave2_map: "weave2 (map f xs) (map f ys) = map f (weave2 xs ys)"
  by (induction xs ys rule: weave2.induct) simp_all

lemma weave4_map: "weave4 (map f xs) (map f ys) = map f (weave4 xs ys)"
  by (induction xs ys rule: weave4.induct) simp_all

definition both_halves :: "('a list \<Rightarrow> 'a list \<Rightarrow> 'a list) \<Rightarrow> 'a list \<Rightarrow> 'a list \<Rightarrow> 'a list \<times> 'a list" where
  "both_halves w u v = (w (take 32 v) (take 32 u), w (drop 32 v) (drop 32 u))"

lemma step_bound:
  assumes "even (k div 2 ^ j)" and "k < 64" and "j < 6"
  shows "k + 2 ^ j < (64 :: nat)"
proof (rule ccontr)
  let ?m = "2 ^ j :: nat"
  have m: "(64 :: nat) = ?m * 2 ^ (6 - j)" using assms(3) by (simp flip: power_add)
  assume "\<not> k + ?m < 64"
  then have "64 div ?m \<le> (k + ?m) div ?m" by (intro div_le_mono) simp
  moreover have "64 div ?m = 2 ^ (6 - j)" by (subst m) simp
  moreover have "k div ?m < 2 ^ (6 - j)" using assms(2) m by (simp add: less_mult_imp_div_less mult.commute)
  moreover have "(k + ?m) div ?m = Suc (k div ?m)" by (subst div_add_self2) simp_all
  ultimately have "k div ?m = 2 ^ (6 - j) - 1" by linarith
  moreover have "odd (2 ^ (6 - j) - 1 :: nat)" using assms(3) by simp
  ultimately show False using assms(1) by simp
qed

lemma swap_step_map:
  assumes "length lo = 64" and "length hi = 64" and "j < 6"
  shows "swap_step j (map f lo, map f hi) = map_prod (map f) (map f) (swap_step j (lo, hi))"
  using assms step_bound [OF _ _ assms(3)] by (auto simp: swap_step_def)

lemma shuffle_pair_map:
  assumes "length u = 64" and "length v = 64"
  shows "shuffle_pair (map f u) (map f v) rt = map_prod (map f) (map f) (shuffle_pair u v rt)"
proof -
  have "fold (\<lambda>j p. if bit rt (Suc j) then swap_step j p else p) js (map f lo, map f hi) =
      map_prod (map f) (map f) (fold (\<lambda>j p. if bit rt (Suc j) then swap_step j p else p) js (lo, hi))"
    if "\<forall>j\<in>set js. j < 6" "length lo = 64" "length hi = 64" for js and lo hi :: "'a list"
    using that
  proof (induction js arbitrary: lo hi)
    case (Cons j js)
    show ?case
    proof (cases "bit rt (Suc j)")
      case True
      obtain lo' hi' where s: "swap_step j (lo, hi) = (lo', hi')" by fastforce
      then have "length lo' = 64" "length hi' = 64" by (auto simp: swap_step_def)
      with Cons s True show ?thesis by (simp add: swap_step_map)
    qed (use Cons in simp)
  qed simp
  from this [of "[0..<6]" v u] assms show ?thesis by (simp add: shuffle_pair_def)
qed

definition low_labels :: "nat list" where "low_labels = [0..<64]"
definition high_labels :: "nat list" where "high_labels = map (\<lambda>k. k + 64) [0..<64]"

lemma shuffle_labels:
  "shuffle_pair high_labels low_labels (- 4) = both_halves weave2 high_labels low_labels"
  "shuffle_pair high_labels low_labels (- 8) = both_halves weave4 high_labels low_labels"
  by code_simp+

lemma from_labels:
  assumes "length u = 64" and "length v = 64"
  shows "map (\<lambda>k. (v @ u) ! k) low_labels = v" and "map (\<lambda>k. (v @ u) ! k) high_labels = u"
  using assms by (auto simp: low_labels_def high_labels_def nth_append intro: nth_equalityI)

lemma shuffle_weave:
  assumes l: "length u = 64" "length v = 64"
  shows "shuffle_pair u v (- 4) = both_halves weave2 u v" and "shuffle_pair u v (- 8) = both_halves weave4 u v"
proof -
  let ?f = "\<lambda>k. (v @ u) ! k"
  have len: "length high_labels = 64" "length low_labels = 64" by (simp_all add: low_labels_def high_labels_def)
  note m = shuffle_pair_map [OF len, of ?f, unfolded from_labels [OF l]]
  have "map_prod (map ?f) (map ?f) (both_halves weave2 high_labels low_labels) = both_halves weave2 u v"
    by (simp add: both_halves_def flip: weave2_map take_map drop_map) (simp add: from_labels [OF l])
  with m show "shuffle_pair u v (- 4) = both_halves weave2 u v" by (simp add: shuffle_labels)
  have "map_prod (map ?f) (map ?f) (both_halves weave4 high_labels low_labels) = both_halves weave4 u v"
    by (simp add: both_halves_def flip: weave4_map take_map drop_map) (simp add: from_labels [OF l])
  with m show "shuffle_pair u v (- 8) = both_halves weave4 u v" by (simp add: shuffle_labels)
qed

section \<open>The stages\<close>

definition stage :: "('a list \<Rightarrow> 'a list \<Rightarrow> 'a list) \<Rightarrow> nat \<Rightarrow> 'a list list \<Rightarrow> 'a list list" where
  "stage w d v = fold (\<lambda>i v. if (i div d) mod 2 = 0
     then let p = both_halves w (v ! (i + d)) (v ! i) in v[i := fst p, i + d := snd p] else v) [0..<16] v"

definition wf_vectors :: "'a list list \<Rightarrow> bool" where
  "wf_vectors v \<longleftrightarrow> length v = 16 \<and> (\<forall>i<16. length (v ! i) = 64)"

lemma length_weave4: "length xs = 4 * n \<Longrightarrow> length ys = 4 * n \<Longrightarrow> length (weave4 xs ys) = 8 * n"
proof (induction n arbitrary: xs ys)
  case (Suc n)
  obtain a b c d us where xs: "xs = a # b # c # d # us" "length us = 4 * n"
    using Suc.prems(1) by (auto simp: length_Suc_conv numeral_eq_Suc)
  obtain e f g h vs where ys: "ys = e # f # g # h # vs" "length vs = 4 * n"
    using Suc.prems(2) by (auto simp: length_Suc_conv numeral_eq_Suc)
  show ?case using Suc.IH [OF xs(2) ys(2)] by (simp add: xs(1) ys(1))
qed simp

lemma length_weave2: "length xs = 2 * n \<Longrightarrow> length ys = 2 * n \<Longrightarrow> length (weave2 xs ys) = 4 * n"
proof (induction n arbitrary: xs ys)
  case (Suc n)
  have "2 * Suc n = Suc (Suc (2 * n))" by simp
  with Suc show ?case by (auto simp: length_Suc_conv)
qed simp

lemma weave_length:
  "length xs = 32 \<Longrightarrow> length ys = 32 \<Longrightarrow> length (weave2 xs ys) = 64"
  "length xs = 32 \<Longrightarrow> length ys = 32 \<Longrightarrow> length (weave4 xs ys) = 64"
  using length_weave2 [of xs 16 ys] length_weave4 [of xs 8 ys] by simp_all

lemma fold_related:
  assumes "R s t" and "\<And>x s t. x \<in> set xs \<Longrightarrow> R s t \<Longrightarrow> R (f x s) (g x t)"
  shows "R (fold f xs s) (fold g xs t)"
  using assms by (induction xs arbitrary: s t) auto

lemma stage_pairs: "i < 16 \<Longrightarrow> (i div d) mod 2 = 0 \<Longrightarrow> d \<in> {1, 2, 4, 8} \<Longrightarrow> i + d < (16 :: nat)"
  by (elim insertE emptyE; simp) presburger+

lemma stage_step:
  assumes w: "\<And>xs ys. length xs = 32 \<Longrightarrow> length ys = 32 \<Longrightarrow> length (w xs ys) = 64"
    and v: "wf_vectors v" and i: "i < 16" "i + d < 16"
  shows "wf_vectors (v[i := fst (both_halves w (v ! (i + d)) (v ! i)), i + d := snd (both_halves w (v ! (i + d)) (v ! i))])"
  using v i by (auto simp: wf_vectors_def both_halves_def nth_list_update w)

lemma stage_wf:
  assumes w: "\<And>xs ys. length xs = 32 \<Longrightarrow> length ys = 32 \<Longrightarrow> length (w xs ys) = 64"
    and v: "wf_vectors v" and d: "d \<in> {1, 2, 4, 8}"
  shows "wf_vectors (stage w d v)"
proof -
  have "(\<lambda>s t. wf_vectors s) (stage w d v) (stage w d v)"
    unfolding stage_def
    by (rule fold_related [where R = "\<lambda>s t. wf_vectors s"])
      (use v stage_step [OF w] stage_pairs [OF _ _ d] in \<open>auto simp: Let_def\<close>)
  then show ?thesis .
qed

lemma cross_stage:
  assumes law: "shuffle_law hv" and v: "wf_vectors v" and d: "d \<in> {1, 2, 4, 8}"
    and w: "\<And>xs ys. length xs = 32 \<Longrightarrow> length ys = 32 \<Longrightarrow> length (w xs ys) = 64"
    and rt: "even rt" and sh: "\<And>a b :: half list. length a = 64 \<Longrightarrow> length b = 64 \<Longrightarrow> shuffle_pair a b rt = both_halves w a b"
  shows "vshuff_cross_stage hv d rt v = stage w d v"
proof -
  have "(\<lambda>s t. s = t \<and> wf_vectors s) (vshuff_cross_stage hv d rt v) (stage w d v)"
    unfolding vshuff_cross_stage_def stage_def
  proof (rule fold_related [where R = "\<lambda>s t. s = t \<and> wf_vectors s"])
    fix i :: nat and s t :: "half list list"
    assume i: "i \<in> set [0..<16]" and st: "s = t \<and> wf_vectors s"
    have "vshuff_vvr hv (s ! (i + d)) (s ! i) rt = both_halves w (s ! (i + d)) (s ! i)" if "i + d < 16"
      using law rt st i that sh [of "s ! (i + d)" "s ! i"] unfolding shuffle_law_def wf_vectors_def
      by (metis atLeastLessThan_iff set_upt)
    then show "(if (i div d) mod 2 = 0 then let p = vshuff_vvr hv (s ! (i + d)) (s ! i) rt in s[i := fst p, i + d := snd p] else s) =
        (if (i div d) mod 2 = 0 then let p = both_halves w (t ! (i + d)) (t ! i) in t[i := fst p, i + d := snd p] else t) \<and>
      wf_vectors (if (i div d) mod 2 = 0 then let p = vshuff_vvr hv (s ! (i + d)) (s ! i) rt in s[i := fst p, i + d := snd p] else s)"
      using st i stage_step [OF w] stage_pairs [OF _ _ d, of i] by (auto simp: Let_def)
  qed (use v in simp)
  then show ?thesis by blast
qed

lemma stage_map:
  assumes w: "\<And>xs ys. w' (map f xs) (map f ys) = map f (w xs ys)"
    and v: "length v = 16" and d: "d \<in> {1, 2, 4, 8}"
  shows "stage w' d (map (map f) v) = map (map f) (stage w d v)"
proof -
  have "(\<lambda>s t. s = map (map f) t \<and> length t = 16) (stage w' d (map (map f) v)) (stage w d v)"
    unfolding stage_def
  proof (rule fold_related [where R = "\<lambda>s t. s = map (map f) t \<and> length t = 16"])
    fix i :: nat and s t
    assume i: "i \<in> set [0..<16]" and st: "s = map (map f) t \<and> length t = 16"
    show "(if (i div d) mod 2 = 0 then let p = both_halves w' (s ! (i + d)) (s ! i) in s[i := fst p, i + d := snd p] else s) =
        map (map f) (if (i div d) mod 2 = 0 then let p = both_halves w (t ! (i + d)) (t ! i) in t[i := fst p, i + d := snd p] else t) \<and>
      length (if (i div d) mod 2 = 0 then let p = both_halves w (t ! (i + d)) (t ! i) in t[i := fst p, i + d := snd p] else t) = 16"
      using st i stage_pairs [OF _ _ d, of i] by (auto simp: Let_def both_halves_def map_update take_map drop_map w)
  qed (use v in simp)
  then show ?thesis by blast
qed

definition ladder :: "'a list list \<Rightarrow> 'a list list" where
  "ladder v = stage weave2 1 (stage weave4 2 (stage weave4 4 (stage weave4 8 (stage weave2 1 v))))"

definition positions :: "(int \<times> int) list list" where
  "positions = map (\<lambda>p. map (\<lambda>k. (p, k)) [0..63]) [0..15]"

definition transposed_positions :: "(int \<times> int) list list" where
  "transposed_positions = map (\<lambda>q. map (\<lambda>k. (k div 4, 32 * ((k div 2) mod 2) + 2 * q + k mod 2)) [0..63]) [0..15]"

lemma ladder_positions: "ladder positions = transposed_positions"
  by code_simp

lemma positions_nth:
  assumes "q < 16" and "k < 64"
  shows "positions ! q ! k = (int q, int k)"
    and "transposed_positions ! q ! k = (int (k div 4), int (32 * ((k div 2) mod 2) + 2 * q + k mod 2))"
  using assms by (simp_all add: positions_def transposed_positions_def zdiv_int zmod_int)

lemma positions_length: "length positions = 16" "q < 16 \<Longrightarrow> length (positions ! q) = 64"
    "length transposed_positions = 16" "q < 16 \<Longrightarrow> length (transposed_positions ! q) = 64"
  by (simp_all add: positions_def transposed_positions_def)

lemma length_ladder_stage [simp]: "length (stage w d v) = length v"
proof -
  have "length (fold (\<lambda>i v. if P i then let p = g i v in v[i := fst p, i + d := snd p] else v) xs v) = length v"
    for P :: "nat \<Rightarrow> bool" and g :: "nat \<Rightarrow> 'a list list \<Rightarrow> 'a list \<times> 'a list" and xs
    by (induction xs arbitrary: v) (auto simp: Let_def)
  then show ?thesis unfolding stage_def .
qed

lemma ladder_map: "length v = 16 \<Longrightarrow> ladder (map (map f) v) = map (map f) (ladder v)"
  by (simp add: ladder_def stage_map [where w = weave2 and w' = weave2, OF weave2_map]
      stage_map [where w = weave4 and w' = weave4, OF weave4_map])

lemma ladder_nth:
  assumes v: "wf_vectors v" and q: "q < 16" and k: "k < 64"
  shows "ladder v ! q ! k = v ! (k div 4) ! (32 * ((k div 2) mod 2) + 2 * q + k mod 2)"
proof -
  let ?f = "\<lambda>(p, k). v ! nat p ! nat k"
  have "v = map (map ?f) positions"
    using v by (auto simp: wf_vectors_def positions_length positions_nth intro!: nth_equalityI)
  then have "ladder v = map (map ?f) transposed_positions"
    using ladder_map [OF positions_length(1), of ?f] ladder_positions by simp
  then show ?thesis using q k by (simp add: positions_length positions_nth nat_add_distrib nat_mult_distrib)
qed

lemma ladder_wf: "wf_vectors v \<Longrightarrow> wf_vectors (ladder v)"
  unfolding ladder_def by (intro stage_wf weave_length) simp_all

lemma cross_stages:
  assumes law: "shuffle_law hv" and v: "wf_vectors v"
  shows "vshuff_cross_stage hv 1 (- 4) (vshuff_cross_stage hv 2 (- 8) (vshuff_cross_stage hv 4 (- 8)
      (vshuff_cross_stage hv 8 (- 8) (vshuff_cross_stage hv 1 (- 4) v)))) = ladder v"
proof -
  have c2: "vshuff_cross_stage hv 1 (- 4) v = stage weave2 1 v" if "wf_vectors v" for v
    by (rule cross_stage [OF law that]) (simp_all add: weave_length shuffle_weave)
  have c4: "vshuff_cross_stage hv d (- 8) v = stage weave4 d v" if "wf_vectors v" "d \<in> {1, 2, 4, 8}" for v d
    by (rule cross_stage [OF law that]) (simp_all add: weave_length shuffle_weave)
  show ?thesis
    unfolding ladder_def c2 [OF v] using v by (subst c4 c2, (intro stage_wf weave_length; simp), simp?)+
qed

section \<open>Transposed tiles\<close>

lemma map_res_values: "(\<And>x. x \<in> set xs \<Longrightarrow> f x = Inr (g x)) \<Longrightarrow> map_res f xs = Inr (map g xs)"
  by (induction xs) auto

lemma store_vectors_image:
  assumes place: "tile_place t a"
    and v: "\<And>q. q < 16 \<Longrightarrow> v ! q = map (\<lambda>k. f (2 * q + k mod 2) (k div 2)) [0..<64]"
  shows "fold_res (\<lambda>q. store_vec 128 2 (t + 64 * q) (v ! q)) [0..<16] a =
    Inr (a\<lparr>ar_elems := put t (tile_image f) (ar_elems a)\<rparr>)"
  unfolding tile_image_def
proof (rule fold_put [where n = 64])
  fix q :: nat and b :: "half arr"
  assume q: "q < 16" and b: "ar_addr b = ar_addr a" "length (ar_elems b) = length (ar_elems a)"
  have "128 dvd ar_addr a + 2 * (t + 64 * q)"
    using place dvd_add [of 128 "ar_addr a + 2 * t" "128 * q"] by (simp add: tile_place_def algebra_simps)
  then show "store_vec 128 2 (t + 64 * q) (v ! q) b =
      Inr (b\<lparr>ar_elems := put (t + 64 * q) (map (\<lambda>k. f (2 * q + k mod 2) (k div 2)) [0..<64]) (ar_elems b)\<rparr>)"
    using place q b by (simp add: store_vec_def tile_place_def v)
qed (use place in \<open>simp_all add: tile_place_def\<close>)

lemma quarters: "k < 64 \<Longrightarrow> k div 2 = 2 * (k div 4) + (k div 2) mod 2" for k :: nat
proof -
  have "k div 4 = (k div 2) div 2" by (simp add: div_mult2_eq [of k 2 2, simplified])
  then show ?thesis by simp
qed

lemma pack_transposed_full_tile_image:
  assumes law: "shuffle_law hv" and place: "tile_place t a" and m: "matrix_at src stride other inner"
    and s: "stride mod HMX_TILE = 0" and o: "ot * 32 + 32 \<le> unat other" and i: "it * 32 + 32 \<le> unat inner"
    and it: "it * 32 < 2 ^ 32"
  shows "pack_transposed_full_tile hv t src stride (of_nat it * HMX_TILE) (of_nat ot * HMX_TILE) a =
    Inr (a\<lparr>ar_elems := put t (tile_image (\<lambda>i j. matrix_elem src stride other inner (32 * ot + j) (32 * it + i))) (ar_elems a)\<rparr>)"
proof -
  let ?row = "\<lambda>r. map (\<lambda>k. matrix_elem src stride other inner (32 * ot + r) (32 * it + k)) [0..<32]"
  let ?v = "map (\<lambda>p. ?row (2 * p) @ ?row (2 * p + 1)) [0..<16]"
  have row: "load_vec 64 2 32 src ((ot * 32 + r) * unat stride + it * 32) = Inr (?row r)" if "r < 32" for r
    using load_matrix_row [OF m s, of "ot * 32 + r" it] o i that by (simp add: mult.commute)
  have loads: "map_res (\<lambda>p. let o0 = unat ((of_nat ot * HMX_TILE + 2 * of_nat p) * stride) + unat (of_nat it * HMX_TILE);
        o1 = o0 + unat stride
      in bind_res (load_vec 64 2 32 src o0) (\<lambda>h0. bind_res (load_vec 64 2 32 src o1) (\<lambda>h1. Inr (h0 @ h1)))) [0..<16] = Inr ?v"
  proof (rule map_res_values)
    fix p :: nat
    assume "p \<in> set [0..<16]"
    then have p: "p < 16" by simp
    have o0: "unat ((of_nat ot * HMX_TILE + 2 * of_nat p) * stride) + unat (of_nat it * HMX_TILE) =
        (ot * 32 + 2 * p) * unat stride + it * 32"
      using row_index [OF m _ it, of ot "2 * p"] o p by simp
    have o1: "(ot * 32 + 2 * p) * unat stride + it * 32 + unat stride = (ot * 32 + (2 * p + 1)) * unat stride + it * 32"
      by (simp add: algebra_simps)
    show "(let o0 = unat ((of_nat ot * HMX_TILE + 2 * of_nat p) * stride) + unat (of_nat it * HMX_TILE); o1 = o0 + unat stride
        in bind_res (load_vec 64 2 32 src o0) (\<lambda>h0. bind_res (load_vec 64 2 32 src o1) (\<lambda>h1. Inr (h0 @ h1)))) =
      Inr (?row (2 * p) @ ?row (2 * p + 1))"
      unfolding Let_def o0 o1 using row [of "2 * p"] row [of "2 * p + 1"] p by simp
  qed
  have wf: "wf_vectors ?v" by (simp add: wf_vectors_def)
  have out: "ladder ?v ! q = map (\<lambda>k. matrix_elem src stride other inner (32 * ot + k div 2) (32 * it + (2 * q + k mod 2))) [0..<64]"
    if q: "q < 16" for q
  proof (rule nth_equalityI)
    show l: "length (ladder ?v ! q) = length (map (\<lambda>k. matrix_elem src stride other inner (32 * ot + k div 2) (32 * it + (2 * q + k mod 2))) [0..<64])"
      using ladder_wf [OF wf] q by (simp add: wf_vectors_def)
    fix k assume "k < length (ladder ?v ! q)"
    with l have k: "k < 64" by simp
    have k4: "k div 4 < 16" using k by (simp add: less_mult_imp_div_less)
    have c: "2 * q + k mod 2 < 32" using q by (simp add: mod2_eq_if)
    have "ladder ?v ! q ! k = ?row (2 * (k div 4) + (k div 2) mod 2) ! (2 * q + k mod 2)"
    proof (cases "(k div 2) mod 2 = 0")
      case True
      then show ?thesis unfolding ladder_nth [OF wf q k] using k4 c by (simp add: nth_append)
    next
      case False
      then have one: "(k div 2) mod 2 = 1" by simp
      show ?thesis unfolding ladder_nth [OF wf q k] one using k4 by (simp add: nth_append)
    qed
    also have "\<dots> = matrix_elem src stride other inner (32 * ot + k div 2) (32 * it + (2 * q + k mod 2))"
      using c quarters [OF k] by simp
    finally show "ladder ?v ! q ! k = map (\<lambda>k. matrix_elem src stride other inner (32 * ot + k div 2) (32 * it + (2 * q + k mod 2))) [0..<64] ! k"
      using k by simp
  qed
  have "pack_transposed_full_tile hv t src stride (of_nat it * HMX_TILE) (of_nat ot * HMX_TILE) a =
      fold_res (\<lambda>q. store_vec 128 2 (t + 64 * q) (ladder ?v ! q)) [0..<16] a"
    unfolding pack_transposed_full_tile_def loads by (simp only: bind_res.simps Let_def cross_stages [OF law wf])
  also have "\<dots> = Inr (a\<lparr>ar_elems := put t (tile_image (\<lambda>i j. matrix_elem src stride other inner (32 * ot + j) (32 * it + i))) (ar_elems a)\<rparr>)"
    by (rule store_vectors_image [OF place]) (rule out)
  finally show ?thesis .
qed

lemma pack_transposed_ragged_tile_image:
  assumes law: "shuffle_law hv" and place: "tile_place t a" and m: "matrix_at src stride other inner"
    and ot: "ot * 32 < 2 ^ 32" and it: "it * 32 < 2 ^ 32"
  shows "pack_transposed_ragged_tile hv t src stride (of_nat it * HMX_TILE) (of_nat ot * HMX_TILE)
      (tile_extent inner (of_nat it)) (tile_extent other (of_nat ot)) a =
    Inr (a\<lparr>ar_elems := put t (tile_image (\<lambda>i j. matrix_elem src stride other inner (32 * ot + j) (32 * it + i))) (ar_elems a)\<rparr>)"
    (is "?pack = Inr (a\<lparr>ar_elems := put t (tile_image ?f) (ar_elems a)\<rparr>)")
proof -
  let ?vo = "unat (tile_extent other (of_nat ot))" and ?vi = "unat (tile_extent inner (of_nat it))"
  let ?g = "\<lambda>x y. unat ((of_nat ot * HMX_TILE + of_nat x) * stride) + unat (of_nat it * HMX_TILE) + y"
  have le: "?vo \<le> 32" "?vi \<le> 32" using tile_extent_nat ot it by simp_all
  have g: "?g x y = (ot * 32 + x) * unat stride + (it * 32 + y)" if "x < ?vo" for x y
    using row_index [OF m _ it, of ot x] ragged_extent(2) [OF ot that] by simp
  have h: "unat (of_nat y * HMX_TILE + of_nat x) = y * 32 + x" if "x < ?vo" "y < ?vi" for x y
  proof -
    have "x < 32" "y < 32" using that le by auto
    then have "unat (of_nat (y * 32 + x) :: u32) = y * 32 + x" by (intro unat_of_nat32) simp
    then show ?thesis by (simp add: HMX_TILE_def)
  qed
  obtain s where run: "fold_res (\<lambda>x. fold_res (\<lambda>y s. bind_res (load_elem src (?g x y))
        (\<lambda>v. store_elem (unat (of_nat y * HMX_TILE + of_nat x)) v s)) [0..<?vi]) [0..<?vo] zero_scratch = Inr s"
    and s: "scratch_of (\<lambda>i j. if j < ?vo \<and> i < ?vi then ar_elems src ! ?g j i else 0) s"
    using gather_scratch [of ?vo ?vi ?g src "\<lambda>x y. unat (of_nat y * HMX_TILE + of_nat x)" True] le h g
      matrix_index [OF m] ragged_extent(2) [OF ot] ragged_extent(2) [OF it] by auto
  have "scratch_of ?f s"
    using s g in_extent [OF ot] in_extent [OF it]
    by (auto simp: scratch_of_def matrix_elem_def mult.commute [of 32] add.assoc)
  from shuffle_scratch_image [OF law place this] run show ?thesis
    by (auto simp: pack_transposed_ragged_tile_def Let_def)
qed

lemma pack_transposed_f16_run:
  assumes law: "shuffle_law hv" and m: "matrix_at src stride other inner" and place: "grid_place IT OT dest"
  shows "pack_transposed_f16 hv dest src stride inner other IT OT =
    Inr (dest\<lparr>ar_elems := put 0 (grid_of (unat IT) (unat OT) (\<lambda>i j. matrix_elem src stride other inner j i)) (ar_elems dest)\<rparr>)"
  unfolding pack_transposed_f16_def Let_def
proof (rule grid_run)
  fix it ot and a :: "half arr"
  assume t: "it < unat IT" "ot < unat OT" "ar_addr a = ar_addr dest" "length (ar_elems a) = length (ar_elems dest)"
  note p = grid_place_tile [OF place t]
  have empty: "tile_image (\<lambda>i j. matrix_elem src stride other inner (32 * ot + j) (32 * it + i)) = replicate 1024 0"
    if "tile_extent inner (of_nat it) = 0 \<or> tile_extent other (of_nat ot) = 0"
  proof (rule zero_image)
    fix i j :: nat
    from that tile_extent_nat [OF p(1), of inner] tile_extent_nat [OF p(2), of other]
    have "unat inner \<le> it * 32 \<or> unat other \<le> ot * 32" by (auto simp: min_def split: if_splits)
    then show "matrix_elem src stride other inner (32 * ot + j) (32 * it + i) = 0" by (auto simp: matrix_elem_def)
  qed
  show "(if tile_extent inner (of_nat it) = 0 \<or> tile_extent other (of_nat ot) = 0
      then zero_tile (tile_at (of_nat it) OT (of_nat ot)) a
      else if tile_extent inner (of_nat it) \<ge> HMX_TILE \<and> tile_extent other (of_nat ot) \<ge> HMX_TILE \<and> stride mod HMX_TILE = 0
        then pack_transposed_full_tile hv (tile_at (of_nat it) OT (of_nat ot)) src stride (of_nat it * HMX_TILE) (of_nat ot * HMX_TILE) a
        else pack_transposed_ragged_tile hv (tile_at (of_nat it) OT (of_nat ot)) src stride (of_nat it * HMX_TILE) (of_nat ot * HMX_TILE)
          (tile_extent inner (of_nat it)) (tile_extent other (of_nat ot)) a) =
    Inr (a\<lparr>ar_elems := put (1024 * (it * unat OT + ot))
      (tile_image (\<lambda>i j. matrix_elem src stride other inner (32 * ot + j) (32 * it + i))) (ar_elems a)\<rparr>)"
    using empty zero_tile_image [OF p(4)] pack_transposed_ragged_tile_image [OF law p(4) m p(2,1)]
      pack_transposed_full_tile_image [OF law p(4) m _ _ _ p(1)] full_tile [OF _ p(1)] full_tile [OF _ p(2)]
    by (simp add: p(3))
qed (use place in \<open>simp add: grid_place_def\<close>)

end
