(* ===== verification/Hmx_Unpack.thy ===== *)
theory Hmx_Unpack
  imports Hmx_Pack
begin

text \<open>
  Correctness of unpacking: every element of the matrix gets its value of the packed tiles added, and
  nothing else of the destination changes.
\<close>

section \<open>Adding to a region\<close>

text \<open>The destination after the positions of a set, given as rows and columns, were added to.\<close>

definition added_at :: "('a \<Rightarrow> 'a \<Rightarrow> 'a) \<Rightarrow> (nat \<Rightarrow> nat \<Rightarrow> 'a) \<Rightarrow> nat \<Rightarrow> 'a arr \<Rightarrow> (nat \<times> nat) set \<Rightarrow> 'a arr" where
  "added_at add val s d P = d\<lparr>ar_elems :=
     map (\<lambda>k. if (k div s, k mod s) \<in> P then add (ar_elems d ! k) (val (k div s) (k mod s)) else ar_elems d ! k)
       [0..<length (ar_elems d)]\<rparr>"

lemma added_simps [simp]:
  "ar_addr (added_at add val s d P) = ar_addr d"
  "length (ar_elems (added_at add val s d P)) = length (ar_elems d)"
  by (simp_all add: added_at_def)

lemma added_update [simp]:
  "(added_at add val s d P)\<lparr>ar_elems := ar_elems (added_at add val s d Q)\<rparr> = added_at add val s d Q"
  by (simp add: added_at_def)

lemma added_none [simp]: "added_at add val s d {} = d"
  by (cases d) (simp add: added_at_def map_nth)

lemma added_nth:
  assumes "j < s" and "i * s + j < length (ar_elems d)"
  shows "ar_elems (added_at add val s d P) ! (i * s + j) =
    (if (i, j) \<in> P then add (ar_elems d ! (i * s + j)) (val i j) else ar_elems d ! (i * s + j))"
  using assms by (simp add: added_at_def)

lemma added_row_load:
  assumes j: "j + 32 \<le> s" and fits: "i * s + j + 32 \<le> length (ar_elems d)" and al: "al dvd ar_addr d + w * (i * s + j)"
    and P: "P \<inter> {i} \<times> {j..<j + 32} = {}"
  shows "load_vec al w 32 (added_at add val s d P) (i * s + j) = Inr (map (\<lambda>c. ar_elems d ! (i * s + j + c)) [0..<32])"
proof -
  have "take 32 (drop (i * s + j) (ar_elems (added_at add val s d P))) = map (\<lambda>c. ar_elems d ! (i * s + j + c)) [0..<32]"
  proof (rule nth_equalityI)
    fix c assume "c < length (take 32 (drop (i * s + j) (ar_elems (added_at add val s d P))))"
    then have c: "c < 32" by simp
    then have "(i, j + c) \<notin> P" using P by auto
    then show "take 32 (drop (i * s + j) (ar_elems (added_at add val s d P))) ! c =
        map (\<lambda>c. ar_elems d ! (i * s + j + c)) [0..<32] ! c"
      using c fits added_nth [of "j + c" s i d add val P] j by (simp add: add.assoc)
  qed (use fits in simp)
  with fits al show ?thesis by (simp add: load_vec_def)
qed

lemma in_row:
  fixes j s i k :: nat
  assumes "j + 32 \<le> s"
  shows "i * s + j \<le> k \<and> k < i * s + j + 32 \<longleftrightarrow> k div s = i \<and> k mod s \<in> {j..<j + 32}"
proof
  assume k: "i * s + j \<le> k \<and> k < i * s + j + 32"
  define c where "c = k - i * s"
  have "k = i * s + c" "c < s" using k assms by (auto simp: c_def)
  with k show "k div s = i \<and> k mod s \<in> {j..<j + 32}" by auto
next
  assume "k div s = i \<and> k mod s \<in> {j..<j + 32}"
  then show "i * s + j \<le> k \<and> k < i * s + j + 32" using div_mult_mod_eq [of k s] by auto
qed

lemma added_row_store:
  assumes j: "j + 32 \<le> s" and fits: "i * s + j + 32 \<le> length (ar_elems d)" and al: "al dvd ar_addr d + w * (i * s + j)"
  shows "store_vec al w (i * s + j) (map (\<lambda>c. add (ar_elems d ! (i * s + j + c)) (val i (j + c))) [0..<32])
      (added_at add val s d P) = Inr (added_at add val s d (P \<union> {i} \<times> {j..<j + 32}))"
proof -
  let ?xs = "map (\<lambda>c. add (ar_elems d ! (i * s + j + c)) (val i (j + c))) [0..<32]"
  have "put (i * s + j) ?xs (ar_elems (added_at add val s d P)) = ar_elems (added_at add val s d (P \<union> {i} \<times> {j..<j + 32}))"
  proof (rule nth_equalityI)
    fix k assume "k < length (put (i * s + j) ?xs (ar_elems (added_at add val s d P)))"
    then have k: "k < length (ar_elems d)" using fits by simp
    show "put (i * s + j) ?xs (ar_elems (added_at add val s d P)) ! k = ar_elems (added_at add val s d (P \<union> {i} \<times> {j..<j + 32})) ! k"
    proof (cases "i * s + j \<le> k \<and> k < i * s + j + 32")
      case True
      with in_row [OF j, of i k] have r: "k div s = i" "k mod s \<in> {j..<j + 32}" by blast+
      have kk: "k = i * s + k mod s" using r(1) div_mult_mod_eq [of k s] by simp
      define c where "c = k - (i * s + j)"
      have c: "c < 32" "j + c = k mod s" "i * s + j + c = k" using True kk unfolding c_def by linarith+
      have "put (i * s + j) ?xs (ar_elems (added_at add val s d P)) ! k = ?xs ! c"
        using True k fits by (subst put_nth) (simp_all add: c_def)
      also have "\<dots> = add (ar_elems d ! k) (val i (k mod s))" using c by simp
      finally show ?thesis using k r by (simp add: added_at_def)
    next
      case False
      with in_row [OF j, of i k] have "\<not> (k div s = i \<and> k mod s \<in> {j..<j + 32})" by blast
      then show ?thesis using False k fits by (subst put_nth) (auto simp: added_at_def)
    qed
  qed (use fits in simp)
  with fits al show ?thesis by (simp add: store_vec_def)
qed

lemma added_elem:
  assumes j: "j < s" and k: "i * s + j < length (ar_elems d)" and P: "(i, j) \<notin> P"
  shows "bind_res (load_elem (added_at add val s d P) (i * s + j)) (\<lambda>x. store_elem (i * s + j) (add x (val i j)) (added_at add val s d P)) =
    Inr (added_at add val s d (insert (i, j) P))"
proof -
  have e: "m = i * s + j \<longleftrightarrow> m div s = i \<and> m mod s = j" for m
    using j div_mult_mod_eq [of m s] by auto
  have "(ar_elems (added_at add val s d P))[i * s + j := add (ar_elems d ! (i * s + j)) (val i j)] =
      ar_elems (added_at add val s d (insert (i, j) P))"
  proof (rule nth_equalityI)
    fix m assume "m < length ((ar_elems (added_at add val s d P))[i * s + j := add (ar_elems d ! (i * s + j)) (val i j)])"
    then have m: "m < length (ar_elems d)" by simp
    show "(ar_elems (added_at add val s d P))[i * s + j := add (ar_elems d ! (i * s + j)) (val i j)] ! m =
        ar_elems (added_at add val s d (insert (i, j) P)) ! m"
    proof (cases "m = i * s + j")
      case True
      then show ?thesis using k added_nth [OF j k, of add val "insert (i, j) P"] by simp
    next
      case False
      with e have "\<not> (m div s = i \<and> m mod s = j)" by blast
      with False m show ?thesis by (auto simp: added_at_def)
    qed
  qed simp
  then show ?thesis
    using k P added_nth [OF j k, of add val P] by (simp add: load_elem_def store_elem_def)
qed

text \<open>Loops that add to disjoint regions.\<close>

lemma fold_regions:
  assumes "\<And>x P. x \<in> set xs \<Longrightarrow> P \<inter> Q x = {} \<Longrightarrow> f x (A P) = Inr (A (P \<union> Q x))"
    and "distinct xs" and "\<And>x y. x \<in> set xs \<Longrightarrow> y \<in> set xs \<Longrightarrow> x \<noteq> y \<Longrightarrow> Q x \<inter> Q y = {}"
    and "\<And>x. x \<in> set xs \<Longrightarrow> P \<inter> Q x = {}"
  shows "fold_res f xs (A P) = Inr (A (P \<union> (\<Union>x\<in>set xs. Q x)))"
  using assms
proof (induction xs arbitrary: P)
  case (Cons x xs)
  have "f x (A P) = Inr (A (P \<union> Q x))" using Cons.prems by simp
  moreover have "fold_res f xs (A (P \<union> Q x)) = Inr (A (P \<union> Q x \<union> (\<Union>y\<in>set xs. Q y)))"
  proof (rule Cons.IH)
    show "(P \<union> Q x) \<inter> Q y = {}" if "y \<in> set xs" for y
      using that Cons.prems(2) Cons.prems(3) [of x y] Cons.prems(4) [of y] by auto
  qed (use Cons.prems in auto)
  ultimately show ?case by (simp add: Un_assoc)
qed simp

lemma UN_shift: "(\<Union>r\<in>set [0..<n]. g (b + r)) = (\<Union>i\<in>{b..<b + n}. g i)" for b n :: nat
proof -
  have e: "{b..<b + n} = (+) b ` {0..<n}" by (simp add: add.commute)
  show ?thesis unfolding e by (simp only: set_upt image_image)
qed

section \<open>Tiles\<close>

text \<open>The values of the packed tile at \<open>t\<close>.\<close>

definition tile_value :: "half arr \<Rightarrow> nat \<Rightarrow> nat \<Rightarrow> nat \<Rightarrow> half" where
  "tile_value src t i j = ar_elems src ! (t + 64 * (i div 2) + 2 * j + i mod 2)"

lemma load_tile_vector:
  assumes "tile_place t src" and p: "p < 16"
  shows "load_vec 128 2 64 src (t + 64 * p) = Inr (map (\<lambda>k. ar_elems src ! (t + 64 * p + k)) [0..<64])"
proof -
  have "take 64 (drop (t + 64 * p) (ar_elems src)) = map (\<lambda>k. ar_elems src ! (t + 64 * p + k)) [0..<64]"
    using assms by (intro nth_equalityI) (auto simp: tile_place_def add.assoc)
  moreover have "128 dvd ar_addr src + 2 * (t + 64 * p)"
    using assms(1) dvd_add [of 128 "ar_addr src + 2 * t" "128 * p"] by (simp add: tile_place_def algebra_simps)
  ultimately show ?thesis using assms by (simp add: load_vec_def tile_place_def)
qed

lemma convert_rows:
  assumes law: "arithmetic_law hv"
  shows "vcvt_sf_hf hv (map (\<lambda>k. ar_elems src ! (t + 64 * p + k)) [0..<64]) =
    (map (\<lambda>j. half_to_float hv (tile_value src t (2 * p) j)) [0..<32],
     map (\<lambda>j. half_to_float hv (tile_value src t (2 * p + 1) j)) [0..<32])"
  using law by (simp add: arithmetic_law_def tile_value_def)

lemma deal_rows:
  assumes law: "shuffle_law hv"
  shows "vdeal_h hv (map (\<lambda>k. ar_elems src ! (t + 64 * p + k)) [0..<64]) =
    map (tile_value src t (2 * p)) [0..<32] @ map (tile_value src t (2 * p + 1)) [0..<32]"
proof -
  have "vdeal_h hv (map (\<lambda>k. ar_elems src ! (t + 64 * p + k)) [0..<64]) =
      deinterleave (map (\<lambda>k. ar_elems src ! (t + 64 * p + k)) [0..<64])"
    using law by (simp add: shuffle_law_def)
  also have "\<dots> = map (tile_value src t (2 * p)) [0..<32] @ map (tile_value src t (2 * p + 1)) [0..<32]"
  proof (rule nth_equalityI)
    fix k assume "k < length (deinterleave (map (\<lambda>k. ar_elems src ! (t + 64 * p + k)) [0..<64]))"
    then have k: "k < 64" by (simp add: deinterleave_def)
    show "deinterleave (map (\<lambda>k. ar_elems src ! (t + 64 * p + k)) [0..<64]) ! k =
        (map (tile_value src t (2 * p)) [0..<32] @ map (tile_value src t (2 * p + 1)) [0..<32]) ! k"
    proof (cases "k < 32")
      case True
      then show ?thesis by (simp add: deinterleave_def nth_append tile_value_def)
    next
      case False
      then have "k div 32 = 1" "k mod 32 = k - 32" "Suc (2 * (k - 32)) < 64" using k by (auto simp: mod_if div_if)
      then show ?thesis using False k by (simp add: deinterleave_def nth_append tile_value_def)
    qed
  qed (simp add: deinterleave_def)
  finally show ?thesis .
qed

definition holds_tile :: "(nat \<Rightarrow> nat \<Rightarrow> 'a) \<Rightarrow> 'a arr \<Rightarrow> bool" where
  "holds_tile f s \<longleftrightarrow> length (ar_elems s) = 1024 \<and> (\<forall>i<32. \<forall>j<32. ar_elems s ! (i * 32 + j) = f i j)"

lemma fill_scratch:
  fixes f :: "nat \<Rightarrow> nat \<Rightarrow> 'a::zero"
  assumes al: "al dvd w * 32" and rows: "\<And>p. p < 16 \<Longrightarrow> load p = Inr (v p) \<and> row0 (v p) = map (f (2 * p)) [0..<32] \<and> row1 (v p) = map (f (2 * p + 1)) [0..<32]"
  shows "\<exists>s. fold_res (\<lambda>p s. bind_res (load p) (\<lambda>v. bind_res (store_vec al w (2 * p * 32) (row0 v) s)
      (store_vec al w ((2 * p + 1) * 32) (row1 v)))) [0..<16] tile_scratch = Inr s \<and> holds_tile f s"
proof -
  let ?g = "\<lambda>p. map (f (2 * p)) [0..<32] @ map (f (2 * p + 1)) [0..<32]"
  let ?s = "tile_scratch\<lparr>ar_elems := put 0 (concat (map ?g [0..<16])) (ar_elems tile_scratch)\<rparr>"
  have len: "length (concat (map ?g [0..<16])) = 1024" by (subst length_blocks [where n = 64]) simp_all
  have dvd: "al dvd w * (r * 32)" for r
    using dvd_mult2 [OF al, of r] by (simp add: mult.assoc mult.commute [of r])
  have "fold_res (\<lambda>p s. bind_res (load p) (\<lambda>v. bind_res (store_vec al w (2 * p * 32) (row0 v) s)
      (store_vec al w ((2 * p + 1) * 32) (row1 v)))) [0..<16] tile_scratch = Inr ?s"
  proof (rule fold_put [where n = 64])
    fix p :: nat and a :: "'a arr"
    assume p: "p < 16" and a: "ar_addr a = ar_addr (tile_scratch :: 'a arr)" "length (ar_elems a) = length (ar_elems (tile_scratch :: 'a arr))"
    have "store_vec al w (2 * p * 32) (map (f (2 * p)) [0..<32]) a =
        Inr (a\<lparr>ar_elems := put (64 * p) (map (f (2 * p)) [0..<32]) (ar_elems a)\<rparr>)"
      using p a dvd [of "2 * p"] by (simp add: store_vec_def tile_scratch_def mult.commute)
    moreover have "store_vec al w ((2 * p + 1) * 32) (map (f (2 * p + 1)) [0..<32]) (a\<lparr>ar_elems := put (64 * p) (map (f (2 * p)) [0..<32]) (ar_elems a)\<rparr>) =
        Inr (a\<lparr>ar_elems := put (64 * p) (?g p) (ar_elems a)\<rparr>)"
      using p a dvd [of "2 * p + 1"] put_put [of "64 * p" "map (f (2 * p)) [0..<32]" "map (f (2 * p + 1)) [0..<32]" "ar_elems a"]
      by (simp add: store_vec_def tile_scratch_def algebra_simps)
    ultimately show "bind_res (load p) (\<lambda>v. bind_res (store_vec al w (2 * p * 32) (row0 v) a) (store_vec al w ((2 * p + 1) * 32) (row1 v))) =
        Inr (a\<lparr>ar_elems := put (0 + 64 * p) (?g p) (ar_elems a)\<rparr>)"
      using rows [OF p] by simp
  qed (simp_all add: tile_scratch_def)
  moreover have "holds_tile f ?s"
    unfolding holds_tile_def
  proof (intro conjI allI impI)
    fix i j :: nat
    assume i: "i < 32" and j: "j < 32"
    have idx: "i * 32 + j = 64 * (i div 2) + (32 * (i mod 2) + j)"
    proof -
      have "i = 2 * (i div 2) + i mod 2" by simp
      then show ?thesis by linarith
    qed
    have m: "i mod 2 = 0 \<or> i mod 2 = 1" by auto
    have b: "32 * (i mod 2) + j < 64" using j m by auto
    have "ar_elems ?s ! (i * 32 + j) = concat (map ?g [0..<16]) ! (i * 32 + j)"
      using len i j by (simp add: put_nth tile_scratch_def)
    also have "\<dots> = ?g (i div 2) ! (32 * (i mod 2) + j)"
      unfolding idx using i b by (intro nth_blocks) auto
    also have "\<dots> = f (2 * (i div 2) + i mod 2) j"
      using j by (cases "even i") (simp_all add: nth_append odd_two_times_div_two_succ odd_iff_mod_2_eq_one)
    finally show "ar_elems ?s ! (i * 32 + j) = f i j" by simp
  qed (use len in \<open>simp add: tile_scratch_def\<close>)
  ultimately show ?thesis by blast
qed

text \<open>A destination: aligned, every row within the array, and rows that do not overlap.\<close>

definition output_at :: "nat \<Rightarrow> 'a arr \<Rightarrow> u32 \<Rightarrow> u32 \<Rightarrow> u32 \<Rightarrow> bool" where
  "output_at al dest stride rows cols \<longleftrightarrow> al dvd ar_addr dest \<and> length (ar_elems dest) \<le> 2 ^ 31 \<and> unat cols \<le> unat stride \<and>
     (\<forall>r<unat rows. r * unat stride + unat cols \<le> length (ar_elems dest))"

text \<open>The part of a tile that is within the matrix.\<close>

definition tile_region :: "u32 \<Rightarrow> u32 \<Rightarrow> nat \<Rightarrow> nat \<Rightarrow> (nat \<times> nat) set" where
  "tile_region rows cols rt ct = {32 * rt..<32 * rt + unat (tile_extent rows (of_nat rt))} \<times> {32 * ct..<32 * ct + unat (tile_extent cols (of_nat ct))}"

lemma output_row:
  assumes out: "output_at al d stride rows cols" and r: "32 * rt + r < unat rows" and rt: "r < 2 ^ 31"
  shows "unat (of_nat r * stride) = r * unat stride"
    and "(32 * rt + r) * unat stride + unat cols \<le> length (ar_elems d)"
proof -
  show fits: "(32 * rt + r) * unat stride + unat cols \<le> length (ar_elems d)" using out r by (simp add: output_at_def)
  have "r * unat stride \<le> (32 * rt + r) * unat stride" by (intro mult_le_mono1) simp
  also have "\<dots> \<le> 2 ^ 31" using fits out by (simp add: output_at_def)
  finally show "unat (of_nat r * stride) = r * unat stride" using rt by (intro unat_mult32) simp_all
qed

lemma output_base:
  assumes out: "output_at al d stride rows cols" and r: "32 * rt < unat rows" and ct: "32 * ct < unat cols"
  shows "unat (of_nat rt * HMX_TILE * stride) + unat (of_nat ct * HMX_TILE) = 32 * rt * unat stride + 32 * ct"
proof -
  have "32 * rt * unat stride \<le> 2 ^ 31" using out r by (fastforce simp: output_at_def)
  moreover have "32 * rt < 2 ^ 32" using r unat32_less [of rows] by simp
  ultimately have "unat (of_nat (32 * rt) * stride) = 32 * rt * unat stride" by (intro unat_mult32) auto
  moreover have "unat (of_nat ct * 32 :: u32) = ct * 32" using ct unat32_less [of cols] unat_mult32 [of ct 32] by simp
  ultimately show ?thesis by (simp add: HMX_TILE_def mult.commute)
qed

lemma add_valid_region_added:
  assumes s: "holds_tile f scratch" and out: "output_at al d stride rows cols"
    and rt: "32 * rt < unat rows" and ct: "32 * ct < unat cols"
    and f: "\<And>i j. i < 32 \<Longrightarrow> j < 32 \<Longrightarrow> f i j = val (32 * rt + i) (32 * ct + j)"
    and P: "P \<inter> tile_region rows cols rt ct = {}"
  shows "add_valid_region add scratch (32 * rt * unat stride + 32 * ct) stride (tile_extent rows (of_nat rt)) (tile_extent cols (of_nat ct))
      (added_at add val (unat stride) d P) = Inr (added_at add val (unat stride) d (P \<union> tile_region rows cols rt ct))"
proof -
  let ?vr = "unat (tile_extent rows (of_nat rt))" and ?vc = "unat (tile_extent cols (of_nat ct))"
  let ?A = "added_at add val (unat stride) d" and ?s = "unat stride"
  have rt': "rt * 32 < 2 ^ 32" and ct': "ct * 32 < 2 ^ 32" using rt ct unat32_less [of rows] unat32_less [of cols] by simp_all
  have vr: "?vr \<le> 32" "32 * rt + ?vr \<le> unat rows" and vc: "?vc \<le> 32" "32 * ct + ?vc \<le> unat cols"
    using tile_extent_nat [OF rt', of rows] tile_extent_nat [OF ct', of cols] rt ct by auto
  have row: "fold_res (\<lambda>c dest. bind_res (load_elem dest (32 * rt * ?s + 32 * ct + unat (of_nat r * stride) + c)) (\<lambda>x.
        bind_res (load_elem scratch (unat (of_nat r * HMX_TILE) + c)) (\<lambda>y.
        store_elem (32 * rt * ?s + 32 * ct + unat (of_nat r * stride) + c) (add x y) dest))) [0..<?vc] (?A P') =
      Inr (?A (P' \<union> {32 * rt + r} \<times> {32 * ct..<32 * ct + ?vc}))"
    if r: "r < ?vr" and P': "P' \<inter> {32 * rt + r} \<times> {32 * ct..<32 * ct + ?vc} = {}" for r P'
  proof -
    have rr: "32 * rt + r < unat rows" "r < 32" using r vr by simp_all
    have fits: "(32 * rt + r) * ?s + unat cols \<le> length (ar_elems d)" using output_row(2) [OF out rr(1)] rr(2) by simp
    have base: "32 * rt * ?s + 32 * ct + unat (of_nat r * stride) + c = (32 * rt + r) * ?s + (32 * ct + c)" for c
      using output_row(1) [OF out rr(1)] rr(2) by (simp add: algebra_simps)
    have "fold_res (\<lambda>c dest. bind_res (load_elem dest (32 * rt * ?s + 32 * ct + unat (of_nat r * stride) + c)) (\<lambda>x.
          bind_res (load_elem scratch (unat (of_nat r * HMX_TILE) + c)) (\<lambda>y.
          store_elem (32 * rt * ?s + 32 * ct + unat (of_nat r * stride) + c) (add x y) dest))) [0..<?vc] (?A P') =
        Inr (?A (P' \<union> (\<Union>c\<in>set [0..<?vc]. {(32 * rt + r, 32 * ct + c)})))"
    proof (rule fold_regions)
      fix c P'' assume "c \<in> set [0..<?vc]" and new: "P'' \<inter> {(32 * rt + r, 32 * ct + c)} = {}"
      then have c: "c < ?vc" by simp
      have sc: "load_elem scratch (unat (of_nat r * HMX_TILE) + c) = Inr (val (32 * rt + r) (32 * ct + c))"
      proof -
        have "unat (of_nat r * 32 :: u32) = r * 32" using rr(2) unat_mult32 [of r 32] by simp
        then show ?thesis using s f c vc rr(2) by (simp add: load_elem_def holds_tile_def HMX_TILE_def)
      qed
      have j: "32 * ct + c < ?s" and k: "(32 * rt + r) * ?s + (32 * ct + c) < length (ar_elems d)"
        using c vc out fits by (auto simp: output_at_def)
      show "bind_res (load_elem (?A P'') (32 * rt * ?s + 32 * ct + unat (of_nat r * stride) + c)) (\<lambda>x.
          bind_res (load_elem scratch (unat (of_nat r * HMX_TILE) + c)) (\<lambda>y.
          store_elem (32 * rt * ?s + 32 * ct + unat (of_nat r * stride) + c) (add x y) (?A P''))) =
        Inr (?A (P'' \<union> {(32 * rt + r, 32 * ct + c)}))"
        unfolding base sc using added_elem [OF j k, of P'' add val] new by simp
    qed (use P' in auto)
    moreover have "(\<Union>c\<in>set [0..<?vc]. {(32 * rt + r, 32 * ct + c)}) = {32 * rt + r} \<times> {32 * ct..<32 * ct + ?vc}"
      using UN_shift [of "\<lambda>j. {(32 * rt + r, j)}" "32 * ct" ?vc] by auto
    ultimately show ?thesis by simp
  qed
  have "add_valid_region add scratch (32 * rt * ?s + 32 * ct) stride (tile_extent rows (of_nat rt)) (tile_extent cols (of_nat ct)) (?A P) =
      Inr (?A (P \<union> (\<Union>r\<in>set [0..<?vr]. {32 * rt + r} \<times> {32 * ct..<32 * ct + ?vc})))"
    unfolding add_valid_region_def Let_def
  proof (rule fold_regions)
    show "P \<inter> {32 * rt + r} \<times> {32 * ct..<32 * ct + ?vc} = {}" if "r \<in> set [0..<?vr]" for r
      using P that by (auto simp: tile_region_def)
  qed (use row in auto)
  moreover have "(\<Union>r\<in>set [0..<?vr]. {32 * rt + r} \<times> {32 * ct..<32 * ct + ?vc}) = tile_region rows cols rt ct"
    using UN_shift [of "\<lambda>i. {i} \<times> {32 * ct..<32 * ct + ?vc}" "32 * rt" ?vr] by (auto simp: tile_region_def)
  ultimately show ?thesis by simp
qed

text \<open>The fast path, for pairs of rows.\<close>

lemma fold_row_pairs:
  assumes step: "\<And>p P. p < 16 \<Longrightarrow> P \<inter> {a + 2 * p, a + 2 * p + 1} \<times> {b..<b + 32} = {} \<Longrightarrow>
      f p (A P) = Inr (A (P \<union> {a + 2 * p, a + 2 * p + 1} \<times> {b..<b + 32}))"
    and P: "P \<inter> {a..<a + 32} \<times> {b..<b + 32} = {}"
  shows "fold_res f [0..<16] (A P) = Inr (A (P \<union> {a..<a + 32} \<times> {b..<b + 32}))"
proof -
  have "fold_res f [0..<16] (A P) = Inr (A (P \<union> (\<Union>p\<in>set [0..<16]. {a + 2 * p, a + 2 * p + 1} \<times> {b..<b + 32})))"
  proof (rule fold_regions)
    show "{a + 2 * p, a + 2 * p + 1} \<times> {b..<b + 32} \<inter> {a + 2 * q, a + 2 * q + 1} \<times> {b..<b + 32} = {}" if "p \<noteq> q" for p q
      using that by auto
    show "P \<inter> {a + 2 * p, a + 2 * p + 1} \<times> {b..<b + 32} = {}" if "p \<in> set [0..<16]" for p
      using P that by auto
  qed (use step in auto)
  moreover have "(\<Union>p\<in>set [0..<16]. {a + 2 * p, a + 2 * p + 1} \<times> {b..<b + 32}) = {a..<a + 32} \<times> {b..<b + 32}"
  proof (intro equalityI subsetI)
    fix x assume "x \<in> {a..<a + 32} \<times> {b..<b + 32}"
    then obtain i j where x: "x = (i, j)" "a \<le> i" "i < a + 32" "j \<in> {b..<b + 32}" by auto
    then have "(i - a) div 2 \<in> set [0..<16]" "i = a + 2 * ((i - a) div 2) \<or> i = a + 2 * ((i - a) div 2) + 1" by (simp, presburger)
    with x show "x \<in> (\<Union>p\<in>set [0..<16]. {a + 2 * p, a + 2 * p + 1} \<times> {b..<b + 32})" by blast
  qed auto
  ultimately show ?thesis by simp
qed

lemma full_region:
  assumes "tile_extent rows (of_nat rt) \<ge> HMX_TILE" and "tile_extent cols (of_nat ct) \<ge> HMX_TILE"
    and "32 * rt < unat rows" and "32 * ct < unat cols"
  shows "tile_region rows cols rt ct = {32 * rt..<32 * rt + 32} \<times> {32 * ct..<32 * ct + 32}"
    and "32 * rt + 32 \<le> unat rows" and "32 * ct + 32 \<le> unat cols"
proof -
  have b: "rt * 32 < 2 ^ 32" "ct * 32 < 2 ^ 32" using assms(3,4) unat32_less [of rows] unat32_less [of cols] by simp_all
  show r: "32 * rt + 32 \<le> unat rows" "32 * ct + 32 \<le> unat cols"
    using full_tile [OF assms(1) b(1)] full_tile [OF assms(2) b(2)] by simp_all
  show "tile_region rows cols rt ct = {32 * rt..<32 * rt + 32} \<times> {32 * ct..<32 * ct + 32}"
    using r tile_extent_nat [OF b(1), of rows] tile_extent_nat [OF b(2), of cols] by (simp add: tile_region_def)
qed

text \<open>The rows that the fast path reads and writes.\<close>

lemma fast_rows:
  assumes out: "output_at al d stride rows cols" and al: "al = 32 * w" and s: "stride mod HMX_TILE = 0"
    and r: "32 * rt + 32 \<le> unat rows" and c: "32 * ct + 32 \<le> unat cols" and p: "p < 16" and k: "k \<in> {0, 1}"
  shows "32 * rt * unat stride + 32 * ct + unat ((2 * of_nat p + of_nat k) * stride) = (32 * rt + (2 * p + k)) * unat stride + 32 * ct"
    and "32 * ct + 32 \<le> unat stride" and "(32 * rt + (2 * p + k)) * unat stride + 32 * ct + 32 \<le> length (ar_elems d)"
    and "al dvd ar_addr d + w * ((32 * rt + (2 * p + k)) * unat stride + 32 * ct)"
proof -
  have r': "32 * rt + (2 * p + k) < unat rows" using r p k by auto
  have e: "(2 * of_nat p + of_nat k :: u32) = of_nat (2 * p + k)" by simp
  have "2 * p + k < 2 ^ 31" using p k by auto
  from output_row [OF out r' this] show "32 * rt * unat stride + 32 * ct + unat ((2 * of_nat p + of_nat k) * stride) =
      (32 * rt + (2 * p + k)) * unat stride + 32 * ct" and "(32 * rt + (2 * p + k)) * unat stride + 32 * ct + 32 \<le> length (ar_elems d)"
    unfolding e using c by (simp_all add: algebra_simps)
  show "32 * ct + 32 \<le> unat stride" using out c by (simp add: output_at_def)
  have "unat stride mod 32 = 0" using s unat_mod [of stride 32] by (simp add: HMX_TILE_def)
  then obtain q where q: "unat stride = 32 * q" by (metis dvd_def mod_0_imp_dvd)
  have "w * ((32 * rt + (2 * p + k)) * unat stride + 32 * ct) = al * ((32 * rt + (2 * p + k)) * q + ct)"
    by (simp add: q al algebra_simps)
  then show "al dvd ar_addr d + w * ((32 * rt + (2 * p + k)) * unat stride + 32 * ct)"
    using out by (metis dvd_add dvd_triv_left output_at_def)
qed

lemma holds_tile_scratch:
  assumes "arithmetic_law hv" and "tile_place t src"
  shows "\<exists>s. fold_res (\<lambda>row_pair scratch.
         bind_res (load_vec 128 2 64 src (t + 64 * row_pair)) (\<lambda>v.
         bind_res (store_vec 128 4 (2 * row_pair * 32) (fst (vcvt_sf_hf hv v)) scratch)
              (store_vec 128 4 ((2 * row_pair + 1) * 32) (snd (vcvt_sf_hf hv v))))) [0..<16] tile_scratch = Inr s \<and>
      holds_tile (\<lambda>i j. half_to_float hv (tile_value src t i j)) s"
  by (rule fill_scratch [where v = "\<lambda>p. map (\<lambda>k. ar_elems src ! (t + 64 * p + k)) [0..<64]"])
    (use assms in \<open>simp_all add: load_tile_vector convert_rows\<close>)

lemma holds_tile_scratch_f16:
  assumes "shuffle_law hv" and "tile_place t src"
  shows "\<exists>s. fold_res (\<lambda>row_pair scratch.
         bind_res (load_vec 128 2 64 src (t + 64 * row_pair)) (\<lambda>v.
         bind_res (store_vec 64 2 (2 * row_pair * 32) (take 32 (vdeal_h hv v)) scratch)
              (store_vec 64 2 ((2 * row_pair + 1) * 32) (drop 32 (vdeal_h hv v))))) [0..<16] tile_scratch = Inr s \<and>
      holds_tile (tile_value src t) s"
  by (rule fill_scratch [where v = "\<lambda>p. map (\<lambda>k. ar_elems src ! (t + 64 * p + k)) [0..<64]"])
    (use assms in \<open>simp_all add: load_tile_vector deal_rows\<close>)

lemma map2_upt: "map2 f (map g [0..<n]) (map h [0..<n]) = map (\<lambda>c. f (g c) (h c)) [0..<n]"
  by (rule nth_equalityI) simp_all

lemma unpack_acc_tile_added:
  assumes law: "arithmetic_law hv" and place: "tile_place t src" and out: "output_at 128 d stride rows cols"
    and rt: "32 * rt < unat rows" and ct: "32 * ct < unat cols"
    and val: "\<And>i j. i < 32 \<Longrightarrow> j < 32 \<Longrightarrow> val (32 * rt + i) (32 * ct + j) = half_to_float hv (tile_value src t i j)"
    and P: "P \<inter> tile_region rows cols rt ct = {}"
  shows "unpack_acc_tile hv t src (unat (of_nat rt * HMX_TILE * stride) + unat (of_nat ct * HMX_TILE)) stride
      (tile_extent rows (of_nat rt)) (tile_extent cols (of_nat ct)) (added_at (float_add hv) val (unat stride) d P) =
    Inr (added_at (float_add hv) val (unat stride) d (P \<union> tile_region rows cols rt ct))"
    (is "?unpack = Inr (?A (P \<union> tile_region rows cols rt ct))")
proof (cases "tile_extent rows (of_nat rt) \<ge> HMX_TILE \<and> tile_extent cols (of_nat ct) \<ge> HMX_TILE \<and> stride mod HMX_TILE = 0")
  case True
  note full = full_region [OF _ _ rt ct]
  have r: "32 * rt + 32 \<le> unat rows" and c: "32 * ct + 32 \<le> unat cols"
    and reg: "tile_region rows cols rt ct = {32 * rt..<32 * rt + 32} \<times> {32 * ct..<32 * ct + 32}" using full True by blast+
  let ?s = "unat stride" and ?b = "32 * rt * unat stride + 32 * ct"
  have "?unpack = fold_res (\<lambda>p dest. bind_res (load_vec 128 2 64 src (t + 64 * p)) (\<lambda>v.
      bind_res (load_vec 128 4 32 dest (?b + unat (2 * of_nat p * stride))) (\<lambda>x0.
      bind_res (store_vec 128 4 (?b + unat (2 * of_nat p * stride)) (vadd_sf hv x0 (fst (vcvt_sf_hf hv v))) dest) (\<lambda>dest.
      bind_res (load_vec 128 4 32 dest (?b + unat ((2 * of_nat p + 1) * stride))) (\<lambda>x1.
      store_vec 128 4 (?b + unat ((2 * of_nat p + 1) * stride)) (vadd_sf hv x1 (snd (vcvt_sf_hf hv v))) dest))))) [0..<16] (?A P)"
    using True by (simp only: unpack_acc_tile_def output_base [OF out rt ct] Let_def) simp
  also have "\<dots> = Inr (?A (P \<union> {32 * rt..<32 * rt + 32} \<times> {32 * ct..<32 * ct + 32}))"
  proof (rule fold_row_pairs)
    fix p :: nat and P
    assume p: "p < 16" and P: "P \<inter> {32 * rt + 2 * p, 32 * rt + 2 * p + 1} \<times> {32 * ct..<32 * ct + 32} = {}"
    let ?i0 = "32 * rt + 2 * p" and ?i1 = "32 * rt + (2 * p + 1)"
    have al: "(128 :: nat) = 32 * 4" by simp
    note f0 = fast_rows [OF out al _ r c p, of 0] and f1 = fast_rows [OF out al _ r c p, of 1]
    have i0: "?b + unat (2 * of_nat p * stride) = ?i0 * ?s + 32 * ct"
      and i1: "?b + unat ((2 * of_nat p + 1) * stride) = ?i1 * ?s + 32 * ct" using f0(1) f1(1) True by simp_all
    have st: "store_vec 128 4 ((32 * rt + i) * ?s + 32 * ct) (vadd_sf hv (map (\<lambda>c. ar_elems d ! ((32 * rt + i) * ?s + 32 * ct + c)) [0..<32])
        (map (\<lambda>j. half_to_float hv (tile_value src t i j)) [0..<32])) (?A P') = Inr (?A (P' \<union> {32 * rt + i} \<times> {32 * ct..<32 * ct + 32}))"
      if "i < 32" "32 * ct + 32 \<le> ?s" "(32 * rt + i) * ?s + 32 * ct + 32 \<le> length (ar_elems d)"
        "128 dvd ar_addr d + 4 * ((32 * rt + i) * ?s + 32 * ct)" for i P'
    proof -
      have "vadd_sf hv (map (\<lambda>c. ar_elems d ! ((32 * rt + i) * ?s + 32 * ct + c)) [0..<32]) (map (\<lambda>j. half_to_float hv (tile_value src t i j)) [0..<32]) =
          map (\<lambda>c. float_add hv (ar_elems d ! ((32 * rt + i) * ?s + 32 * ct + c)) (val (32 * rt + i) (32 * ct + c))) [0..<32]"
        using law that(1) by (simp add: arithmetic_law_def map2_upt val)
      then show ?thesis using added_row_store [OF that(2-4)] by simp
    qed
    have l0: "load_vec 128 4 32 (?A P) (?i0 * ?s + 32 * ct) = Inr (map (\<lambda>c. ar_elems d ! (?i0 * ?s + 32 * ct + c)) [0..<32])"
      using f0(2-4) True P by (intro added_row_load) auto
    have s0: "store_vec 128 4 (?i0 * ?s + 32 * ct) (vadd_sf hv (map (\<lambda>c. ar_elems d ! (?i0 * ?s + 32 * ct + c)) [0..<32])
        (map (\<lambda>j. half_to_float hv (tile_value src t (2 * p) j)) [0..<32])) (?A P) = Inr (?A (P \<union> {?i0} \<times> {32 * ct..<32 * ct + 32}))"
      using f0(2-4) True p by (intro st) simp_all
    have l1: "load_vec 128 4 32 (?A (P \<union> {?i0} \<times> {32 * ct..<32 * ct + 32})) (?i1 * ?s + 32 * ct) =
        Inr (map (\<lambda>c. ar_elems d ! (?i1 * ?s + 32 * ct + c)) [0..<32])"
      using f1(2-4) True P by (intro added_row_load) auto
    have s1: "store_vec 128 4 (?i1 * ?s + 32 * ct) (vadd_sf hv (map (\<lambda>c. ar_elems d ! (?i1 * ?s + 32 * ct + c)) [0..<32])
        (map (\<lambda>j. half_to_float hv (tile_value src t (2 * p + 1) j)) [0..<32])) (?A (P \<union> {?i0} \<times> {32 * ct..<32 * ct + 32})) =
        Inr (?A (P \<union> {?i0} \<times> {32 * ct..<32 * ct + 32} \<union> {?i1} \<times> {32 * ct..<32 * ct + 32}))"
      using f1(2-4) True p by (intro st) simp_all
    have reg: "P \<union> {?i0} \<times> {32 * ct..<32 * ct + 32} \<union> {?i1} \<times> {32 * ct..<32 * ct + 32} =
        P \<union> {32 * rt + 2 * p, 32 * rt + 2 * p + 1} \<times> {32 * ct..<32 * ct + 32}" by auto
    show "bind_res (load_vec 128 2 64 src (t + 64 * p)) (\<lambda>v.
        bind_res (load_vec 128 4 32 (?A P) (?b + unat (2 * of_nat p * stride))) (\<lambda>x0.
        bind_res (store_vec 128 4 (?b + unat (2 * of_nat p * stride)) (vadd_sf hv x0 (fst (vcvt_sf_hf hv v))) (?A P)) (\<lambda>dest.
        bind_res (load_vec 128 4 32 dest (?b + unat ((2 * of_nat p + 1) * stride))) (\<lambda>x1.
        store_vec 128 4 (?b + unat ((2 * of_nat p + 1) * stride)) (vadd_sf hv x1 (snd (vcvt_sf_hf hv v))) dest)))) =
      Inr (?A (P \<union> {32 * rt + 2 * p, 32 * rt + 2 * p + 1} \<times> {32 * ct..<32 * ct + 32}))"
      unfolding i0 i1 by (simp only: load_tile_vector [OF place p] bind_res.simps convert_rows [OF law] fst_conv snd_conv l0 s0 l1 s1 reg)
  qed (use P reg in simp)
  finally show ?thesis by (simp only: reg)
next
  case False
  obtain s where run: "fold_res (\<lambda>row_pair scratch. bind_res (load_vec 128 2 64 src (t + 64 * row_pair)) (\<lambda>v.
         bind_res (store_vec 128 4 (2 * row_pair * 32) (fst (vcvt_sf_hf hv v)) scratch)
              (store_vec 128 4 ((2 * row_pair + 1) * 32) (snd (vcvt_sf_hf hv v))))) [0..<16] tile_scratch = Inr s"
    and s: "holds_tile (\<lambda>i j. half_to_float hv (tile_value src t i j)) s" using holds_tile_scratch [OF law place] by blast
  have "?unpack = add_valid_region (float_add hv) s (32 * rt * unat stride + 32 * ct) stride (tile_extent rows (of_nat rt))
      (tile_extent cols (of_nat ct)) (?A P)"
    using False run by (simp only: unpack_acc_tile_def unpack_acc_ragged_tile_def output_base [OF out rt ct] Let_def) simp
  also have "\<dots> = Inr (?A (P \<union> tile_region rows cols rt ct))"
    by (rule add_valid_region_added [OF s out rt ct _ P]) (simp add: val)
  finally show ?thesis .
qed

lemma unpack_acc_tile_f16_added:
  assumes laws: "shuffle_law hv" "arithmetic_law hv" and place: "tile_place t src" and out: "output_at 64 d stride rows cols"
    and rt: "32 * rt < unat rows" and ct: "32 * ct < unat cols"
    and val: "\<And>i j. i < 32 \<Longrightarrow> j < 32 \<Longrightarrow> val (32 * rt + i) (32 * ct + j) = tile_value src t i j"
    and P: "P \<inter> tile_region rows cols rt ct = {}"
  shows "unpack_acc_tile_f16 hv t src (unat (of_nat rt * HMX_TILE * stride) + unat (of_nat ct * HMX_TILE)) stride
      (tile_extent rows (of_nat rt)) (tile_extent cols (of_nat ct)) (added_at (half_add hv) val (unat stride) d P) =
    Inr (added_at (half_add hv) val (unat stride) d (P \<union> tile_region rows cols rt ct))"
    (is "?unpack = Inr (?A (P \<union> tile_region rows cols rt ct))")
proof (cases "tile_extent rows (of_nat rt) \<ge> HMX_TILE \<and> tile_extent cols (of_nat ct) \<ge> HMX_TILE \<and> stride mod HMX_TILE = 0")
  case True
  note full = full_region [OF _ _ rt ct]
  have r: "32 * rt + 32 \<le> unat rows" and c: "32 * ct + 32 \<le> unat cols"
    and reg: "tile_region rows cols rt ct = {32 * rt..<32 * rt + 32} \<times> {32 * ct..<32 * ct + 32}" using full True by blast+
  let ?s = "unat stride" and ?b = "32 * rt * unat stride + 32 * ct"
  let ?step = "\<lambda>p dest. bind_res (load_vec 128 2 64 src (t + 64 * p)) (\<lambda>v.
      bind_res (load_vec 64 2 32 dest (?b + unat (2 * of_nat p * stride))) (\<lambda>x0.
      bind_res (load_vec 64 2 32 dest (?b + unat ((2 * of_nat p + 1) * stride))) (\<lambda>x1.
      bind_res (store_vec 64 2 (?b + unat (2 * of_nat p * stride)) (take 32 (vadd_hf hv (x0 @ x1) (vdeal_h hv v))) dest)
        (store_vec 64 2 (?b + unat ((2 * of_nat p + 1) * stride)) (drop 32 (vadd_hf hv (x0 @ x1) (vdeal_h hv v)))))))"
  have "?unpack = fold_res ?step [0..<16] (?A P)"
    using True by (simp only: unpack_acc_tile_f16_def output_base [OF out rt ct] Let_def) simp
  also have "\<dots> = Inr (?A (P \<union> {32 * rt..<32 * rt + 32} \<times> {32 * ct..<32 * ct + 32}))"
  proof (rule fold_row_pairs)
    fix p :: nat and P
    assume p: "p < 16" and P: "P \<inter> {32 * rt + 2 * p, 32 * rt + 2 * p + 1} \<times> {32 * ct..<32 * ct + 32} = {}"
    let ?i0 = "32 * rt + 2 * p" and ?i1 = "32 * rt + (2 * p + 1)"
    have al: "(64 :: nat) = 32 * 2" by simp
    note f0 = fast_rows [OF out al _ r c p, of 0] and f1 = fast_rows [OF out al _ r c p, of 1]
    have i0: "?b + unat (2 * of_nat p * stride) = ?i0 * ?s + 32 * ct"
      and i1: "?b + unat ((2 * of_nat p + 1) * stride) = ?i1 * ?s + 32 * ct" using f0(1) f1(1) True by simp_all
    let ?old = "\<lambda>i. map (\<lambda>c. ar_elems d ! ((32 * rt + i) * ?s + 32 * ct + c)) [0..<32]"
    let ?new = "\<lambda>i. map (\<lambda>c. half_add hv (ar_elems d ! ((32 * rt + i) * ?s + 32 * ct + c)) (val (32 * rt + i) (32 * ct + c))) [0..<32]"
    have v0: "val (32 * rt + 2 * p) (32 * ct + x) = tile_value src t (2 * p) x"
      and v1: "val (32 * rt + (2 * p + 1)) (32 * ct + x) = tile_value src t (2 * p + 1) x" if "x < 32" for x
      using p that val [of "2 * p" x] val [of "2 * p + 1" x] by simp_all
    have sum: "vadd_hf hv (?old (2 * p) @ ?old (2 * p + 1)) (map (tile_value src t (2 * p)) [0..<32] @ map (tile_value src t (2 * p + 1)) [0..<32]) =
        ?new (2 * p) @ ?new (2 * p + 1)"
    proof -
      have "vadd_hf hv (?old (2 * p) @ ?old (2 * p + 1)) (map (tile_value src t (2 * p)) [0..<32] @ map (tile_value src t (2 * p + 1)) [0..<32]) =
          map2 (half_add hv) (?old (2 * p) @ ?old (2 * p + 1)) (map (tile_value src t (2 * p)) [0..<32] @ map (tile_value src t (2 * p + 1)) [0..<32])"
        using laws(2) by (simp add: arithmetic_law_def)
      also have "\<dots> = map2 (half_add hv) (?old (2 * p)) (map (tile_value src t (2 * p)) [0..<32]) @
          map2 (half_add hv) (?old (2 * p + 1)) (map (tile_value src t (2 * p + 1)) [0..<32])" by (simp add: zip_append)
      also have "\<dots> = ?new (2 * p) @ ?new (2 * p + 1)" unfolding map2_upt using v0 v1 by simp
      finally show ?thesis .
    qed
    have halves: "take 32 (?new i @ ?new k) = ?new i" "drop 32 (?new i @ ?new k) = ?new k" for i k by simp_all
    have l0: "load_vec 64 2 32 (?A P) (?i0 * ?s + 32 * ct) = Inr (?old (2 * p))"
      using f0(2-4) True P by (intro added_row_load) auto
    have l1: "load_vec 64 2 32 (?A P) (?i1 * ?s + 32 * ct) = Inr (?old (2 * p + 1))"
      using f1(2-4) True P by (intro added_row_load) auto
    have s0: "store_vec 64 2 (?i0 * ?s + 32 * ct) (?new (2 * p)) (?A P) = Inr (?A (P \<union> {?i0} \<times> {32 * ct..<32 * ct + 32}))"
      using f0(2-4) True by (intro added_row_store) simp_all
    have s1: "store_vec 64 2 (?i1 * ?s + 32 * ct) (?new (2 * p + 1)) (?A (P \<union> {?i0} \<times> {32 * ct..<32 * ct + 32})) =
        Inr (?A (P \<union> {?i0} \<times> {32 * ct..<32 * ct + 32} \<union> {?i1} \<times> {32 * ct..<32 * ct + 32}))"
      using f1(2-4) True by (intro added_row_store) simp_all
    have reg: "P \<union> {?i0} \<times> {32 * ct..<32 * ct + 32} \<union> {?i1} \<times> {32 * ct..<32 * ct + 32} =
        P \<union> {32 * rt + 2 * p, 32 * rt + 2 * p + 1} \<times> {32 * ct..<32 * ct + 32}" by auto
    show "?step p (?A P) = Inr (?A (P \<union> {32 * rt + 2 * p, 32 * rt + 2 * p + 1} \<times> {32 * ct..<32 * ct + 32}))"
      unfolding i0 i1
      by (simp only: load_tile_vector [OF place p] bind_res.simps deal_rows [OF laws(1)] l0 l1 sum halves s0 s1 reg)
  qed (use P reg in simp)
  finally show ?thesis by (simp only: reg)
next
  case False
  obtain s where run: "fold_res (\<lambda>row_pair scratch. bind_res (load_vec 128 2 64 src (t + 64 * row_pair)) (\<lambda>v.
         bind_res (store_vec 64 2 (2 * row_pair * 32) (take 32 (vdeal_h hv v)) scratch)
              (store_vec 64 2 ((2 * row_pair + 1) * 32) (drop 32 (vdeal_h hv v))))) [0..<16] tile_scratch = Inr s"
    and s: "holds_tile (tile_value src t) s" using holds_tile_scratch_f16 [OF laws(1) place] by blast
  have "?unpack = add_valid_region (half_add hv) s (32 * rt * unat stride + 32 * ct) stride (tile_extent rows (of_nat rt))
      (tile_extent cols (of_nat ct)) (?A P)"
    using False run by (simp only: unpack_acc_tile_f16_def unpack_acc_ragged_tile_f16_def output_base [OF out rt ct] Let_def) simp
  also have "\<dots> = Inr (?A (P \<union> tile_region rows cols rt ct))"
    by (rule add_valid_region_added [OF s out rt ct _ P]) (simp add: val)
  finally show ?thesis .
qed

section \<open>The grid\<close>

lemma tile_regions_disjoint:
  assumes "(rt, ct) \<noteq> (rt', ct')" and "32 * rt < 2 ^ 32" "32 * ct < 2 ^ 32" "32 * rt' < 2 ^ 32" "32 * ct' < 2 ^ 32"
  shows "tile_region rows cols rt ct \<inter> tile_region rows cols rt' ct' = {}"
proof -
  have b: "i div 32 = rt \<and> j div 32 = ct" if "(i, j) \<in> tile_region rows cols rt ct" "32 * rt < 2 ^ 32" "32 * ct < 2 ^ 32" for i j rt ct
  proof -
    have "unat (tile_extent rows (of_nat rt)) \<le> 32" "unat (tile_extent cols (of_nat ct)) \<le> 32"
      using that tile_extent_nat by (simp_all add: mult.commute)
    then have "32 * rt \<le> i" "i < 32 * rt + 32" "32 * ct \<le> j" "j < 32 * ct + 32" using that by (auto simp: tile_region_def)
    then show ?thesis by linarith
  qed
  show ?thesis
  proof (rule ccontr)
    assume "tile_region rows cols rt ct \<inter> tile_region rows cols rt' ct' \<noteq> {}"
    then obtain i j where "(i, j) \<in> tile_region rows cols rt ct" "(i, j) \<in> tile_region rows cols rt' ct'" by fast
    with b [of i j rt ct] b [of i j rt' ct'] assms show False by simp
  qed
qed

lemma unpack_grid:
  assumes bound: "RT \<le> 2 ^ 21" "CT \<le> 2 ^ 21"
    and tile: "\<And>rt ct P. rt < RT \<Longrightarrow> ct < CT \<Longrightarrow> 32 * rt < unat rows \<Longrightarrow> 32 * ct < unat cols \<Longrightarrow>
      P \<inter> tile_region rows cols rt ct = {} \<Longrightarrow> U rt ct (A P) = Inr (A (P \<union> tile_region rows cols rt ct))"
  shows "fold_res (\<lambda>rt dest. if tile_extent rows (of_nat rt) = 0 then Inr dest
      else fold_res (\<lambda>ct dest. if tile_extent cols (of_nat ct) = 0 then Inr dest else U rt ct dest) [0..<CT] dest) [0..<RT] (A {}) =
    Inr (A (\<Union>rt<RT. \<Union>ct<CT. tile_region rows cols rt ct))"
proof -
  have small: "32 * n < 2 ^ 32" if "n < RT \<or> n < CT" for n using that bound by auto
  have zero: "tile_extent m (of_nat n) = 0 \<longleftrightarrow> unat m \<le> 32 * n" if "n < RT \<or> n < CT" for m n
  proof -
    have "unat (tile_extent m (of_nat n)) = min 32 (unat m - n * 32)" using small [OF that] by (intro tile_extent_nat) simp
    then show ?thesis by (auto simp: unat_eq_0 [symmetric] min_def mult.commute)
  qed
  have row: "fold_res (\<lambda>ct dest. if tile_extent cols (of_nat ct) = 0 then Inr dest else U rt ct dest) [0..<CT] (A P) =
      Inr (A (P \<union> (\<Union>ct<CT. tile_region rows cols rt ct)))"
    if rt: "rt < RT" "32 * rt < unat rows" and P: "P \<inter> (\<Union>ct<CT. tile_region rows cols rt ct) = {}" for rt P
  proof -
    have "fold_res (\<lambda>ct dest. if tile_extent cols (of_nat ct) = 0 then Inr dest else U rt ct dest) [0..<CT] (A P) =
        Inr (A (P \<union> (\<Union>ct\<in>set [0..<CT]. tile_region rows cols rt ct)))"
    proof (rule fold_regions)
      fix ct P assume "ct \<in> set [0..<CT]" and new: "P \<inter> tile_region rows cols rt ct = {}"
      then have ct: "ct < CT" by simp
      show "(if tile_extent cols (of_nat ct) = 0 then Inr (A P) else U rt ct (A P)) = Inr (A (P \<union> tile_region rows cols rt ct))"
      proof (cases "tile_extent cols (of_nat ct) = 0")
        case True
        then show ?thesis by (simp add: tile_region_def)
      next
        case False
        then show ?thesis using tile [OF rt(1) ct rt(2) _ new] zero [of ct cols] ct by simp
      qed
    next
      fix ct ct' assume "ct \<in> set [0..<CT]" "ct' \<in> set [0..<CT]" "ct \<noteq> ct'"
      then show "tile_region rows cols rt ct \<inter> tile_region rows cols rt ct' = {}"
        using rt small by (intro tile_regions_disjoint) auto
    next
      fix ct assume "ct \<in> set [0..<CT]"
      then show "P \<inter> tile_region rows cols rt ct = {}" using P by auto
    qed simp
    then show ?thesis by (simp add: atLeast0LessThan)
  qed
  have "fold_res (\<lambda>rt dest. if tile_extent rows (of_nat rt) = 0 then Inr dest
      else fold_res (\<lambda>ct dest. if tile_extent cols (of_nat ct) = 0 then Inr dest else U rt ct dest) [0..<CT] dest) [0..<RT] (A {}) =
    Inr (A ({} \<union> (\<Union>rt\<in>set [0..<RT]. \<Union>ct<CT. tile_region rows cols rt ct)))"
  proof (rule fold_regions)
    fix rt P assume "rt \<in> set [0..<RT]" and new: "P \<inter> (\<Union>ct<CT. tile_region rows cols rt ct) = {}"
    then have rt: "rt < RT" by simp
    show "(if tile_extent rows (of_nat rt) = 0 then Inr (A P)
        else fold_res (\<lambda>ct dest. if tile_extent cols (of_nat ct) = 0 then Inr dest else U rt ct dest) [0..<CT] (A P)) =
      Inr (A (P \<union> (\<Union>ct<CT. tile_region rows cols rt ct)))"
    proof (cases "tile_extent rows (of_nat rt) = 0")
      case True
      then show ?thesis by (simp add: tile_region_def)
    next
      case False
      then show ?thesis using row [OF rt _ new] zero [of rt rows] rt by simp
    qed
  next
    fix rt rt' assume r: "rt \<in> set [0..<RT]" "rt' \<in> set [0..<RT]" "rt \<noteq> rt'"
    have "tile_region rows cols rt ct \<inter> tile_region rows cols rt' ct' = {}" if "ct < CT" "ct' < CT" for ct ct'
      using r small that by (intro tile_regions_disjoint) auto
    then show "(\<Union>ct<CT. tile_region rows cols rt ct) \<inter> (\<Union>ct<CT. tile_region rows cols rt' ct) = {}" by fast
  qed simp_all
  then show ?thesis by (simp add: atLeast0LessThan)
qed

text \<open>The tiles cover the matrix.\<close>

lemma tiles_cover:
  assumes cover: "unat rows \<le> 32 * RT" "unat cols \<le> 32 * CT" and bound: "RT \<le> 2 ^ 21" "CT \<le> 2 ^ 21"
  shows "(\<Union>rt<RT. \<Union>ct<CT. tile_region rows cols rt ct) = {..<unat rows} \<times> {..<unat cols}"
proof (intro equalityI subsetI)
  have ext: "unat (tile_extent m (of_nat n)) = min 32 (unat m - n * 32)" if "n < RT \<or> n < CT" for m n
    using that bound by (intro tile_extent_nat) auto
  fix x
  {
    assume "x \<in> (\<Union>rt<RT. \<Union>ct<CT. tile_region rows cols rt ct)"
    then obtain rt ct where "rt < RT" "ct < CT" "x \<in> tile_region rows cols rt ct" by blast
    then show "x \<in> {..<unat rows} \<times> {..<unat cols}" using ext [of rt rows] ext [of ct cols] by (auto simp: tile_region_def)
  next
    assume "x \<in> {..<unat rows} \<times> {..<unat cols}"
    then obtain i j where x: "x = (i, j)" "i < unat rows" "j < unat cols" by auto
    have d: "i div 32 < RT" "j div 32 < CT" using x cover by (auto simp: less_mult_imp_div_less mult.commute)
    have "x \<in> tile_region rows cols (i div 32) (j div 32)"
      using x d ext [of "i div 32" rows] ext [of "j div 32" cols] div_mult_mod_eq [of i 32] div_mult_mod_eq [of j 32]
        mod_less_divisor [of 32 i] mod_less_divisor [of 32 j]
      by (simp add: tile_region_def min_def) linarith
    with d show "x \<in> (\<Union>rt<RT. \<Union>ct<CT. tile_region rows cols rt ct)" by blast
  }
qed

lemma tile_value_packed:
  "i < 32 \<Longrightarrow> j < 32 \<Longrightarrow> tile_value src (1024 * (rt * CT + ct)) i j = ar_elems src ! packed_index CT (32 * rt + i) (32 * ct + j)"
proof -
  have "(32 * rt + i) mod 2 = i mod 2" by presburger
  then show "i < 32 \<Longrightarrow> j < 32 \<Longrightarrow> tile_value src (1024 * (rt * CT + ct)) i j = ar_elems src ! packed_index CT (32 * rt + i) (32 * ct + j)"
    by (simp add: tile_value_def packed_index_def)
qed

end
