(* ===== verification/Hmx_Properties.thy ===== *)
theory Hmx_Properties
  imports Hmx_Transpose Hmx_Unpack
begin

text \<open>
  What the micro kernels of the matrix unit promise: where packing puts every element, that packing a
  transposed matrix is packing its transpose, and what unpacking adds to the destination.
\<close>

lemma grid_of_cong:
  assumes "\<And>i j. i < 32 * RT \<Longrightarrow> j < 32 * CT \<Longrightarrow> g i j = h i j"
  shows "grid_of RT CT g = grid_of RT CT h"
proof -
  have "tile_image (\<lambda>i j. g (32 * rt + i) (32 * ct + j)) = tile_image (\<lambda>i j. h (32 * rt + i) (32 * ct + j))"
    if r: "rt < RT" and c: "ct < CT" for rt ct
  proof -
    have "g (32 * rt + (2 * p + k mod 2)) (32 * ct + k div 2) = h (32 * rt + (2 * p + k mod 2)) (32 * ct + k div 2)"
      if "p < 16" "k < 64" for p k
    proof (rule assms)
      have "2 * p + k mod 2 < 32" using that(1) by (simp add: mod2_eq_if)
      then show "32 * rt + (2 * p + k mod 2) < 32 * RT" using block_bound [OF r, of 32] by linarith
      have "k div 2 < 32" using that(2) by (simp add: less_mult_imp_div_less)
      then show "32 * ct + k div 2 < 32 * CT" using block_bound [OF c, of 32] by linarith
    qed
    then show ?thesis unfolding tile_image_def by (intro arg_cong [where f = concat] map_cong) auto
  qed
  then show ?thesis unfolding grid_of_def by (intro arg_cong [where f = concat] map_cong refl) auto
qed

text \<open>
  Packing succeeds for a matrix within its array and enough room for the tiles, puts every element
  of the padded matrix to its place in the tile layout, zeros where the matrix has no element, and
  writes nothing else.
\<close>

theorem pack_f16_correct:
  assumes "shuffle_law hv" and "matrix_at src stride rows cols" and "grid_place row_tiles col_tiles dest"
  shows "\<exists>dest'. pack_f16 hv dest src stride rows cols row_tiles col_tiles = Inr dest' \<and>
    ar_addr dest' = ar_addr dest \<and> length (ar_elems dest') = length (ar_elems dest) \<and>
    (\<forall>i<32 * unat row_tiles. \<forall>j<32 * unat col_tiles.
      ar_elems dest' ! packed_index (unat col_tiles) i j = matrix_elem src stride rows cols i j) \<and>
    (\<forall>k. 1024 * (unat row_tiles * unat col_tiles) \<le> k \<and> k < length (ar_elems dest) \<longrightarrow> ar_elems dest' ! k = ar_elems dest ! k)"
proof -
  let ?g = "matrix_elem src stride rows cols" and ?RT = "unat row_tiles" and ?CT = "unat col_tiles"
  have room: "1024 * (?RT * ?CT) \<le> length (ar_elems dest)" using assms(3) by (simp add: grid_place_def)
  have "put 0 (grid_of ?RT ?CT ?g) (ar_elems dest) ! packed_index ?CT i j = ?g i j" if "i < 32 * ?RT" "j < 32 * ?CT" for i j
    using grid_nth(1) [OF that, of ?g] grid_nth(2) [OF that] room by (subst put_nth) auto
  moreover have "put 0 (grid_of ?RT ?CT ?g) (ar_elems dest) ! k = ar_elems dest ! k"
    if "1024 * (?RT * ?CT) \<le> k" "k < length (ar_elems dest)" for k
    using that room by (subst put_nth) auto
  ultimately show ?thesis
    using pack_f16_run [OF assms] room by simp
qed

text \<open>
  C7: packing a matrix as transposed, with its ladder of vector shuffles, gives the same tiles as
  packing its transpose.
\<close>

theorem pack_transposed_equivalent:
  assumes law: "shuffle_law hv" and m: "matrix_at src stride other inner" and m': "matrix_at src' stride' inner other"
    and tr: "\<forall>i<unat inner. \<forall>j<unat other. ar_elems src' ! (i * unat stride' + j) = ar_elems src ! (j * unat stride + i)"
    and place: "grid_place inner_tiles other_tiles dest"
  shows "\<exists>dest'. pack_transposed_f16 hv dest src stride inner other inner_tiles other_tiles = Inr dest' \<and>
    pack_f16 hv dest src' stride' inner other inner_tiles other_tiles = Inr dest'"
proof -
  have "grid_of (unat inner_tiles) (unat other_tiles) (\<lambda>i j. matrix_elem src stride other inner j i) =
      grid_of (unat inner_tiles) (unat other_tiles) (matrix_elem src' stride' inner other)"
    by (rule grid_of_cong) (use tr in \<open>simp add: matrix_elem_def\<close>)
  then show ?thesis by (simp add: pack_transposed_f16_run [OF law m place] pack_f16_run [OF law m' place])
qed

section \<open>Unpacking\<close>

lemma grid_bound:
  assumes "grid_place RT CT src" and "0 < unat RT" and "0 < unat CT"
  shows "unat RT \<le> 2 ^ 21" and "unat CT \<le> 2 ^ 21"
proof -
  have n: "unat RT * unat CT \<le> 2 ^ 21" using assms(1) by (simp add: grid_place_def)
  have "unat RT \<le> unat RT * unat CT" "unat CT \<le> unat RT * unat CT" using assms(2,3) by simp_all
  with n show "unat RT \<le> 2 ^ 21" "unat CT \<le> 2 ^ 21" by linarith+
qed

text \<open>The values that unpacking adds, and the destination afterwards.\<close>

definition added_matrix :: "('a \<Rightarrow> 'a \<Rightarrow> 'a) \<Rightarrow> (nat \<Rightarrow> nat \<Rightarrow> 'a) \<Rightarrow> 'a arr \<Rightarrow> u32 \<Rightarrow> u32 \<Rightarrow> u32 \<Rightarrow> 'a arr \<Rightarrow> bool" where
  "added_matrix add val dest stride rows cols dest' \<longleftrightarrow>
     ar_addr dest' = ar_addr dest \<and> length (ar_elems dest') = length (ar_elems dest) \<and>
     (\<forall>i<unat rows. \<forall>j<unat cols. ar_elems dest' ! (i * unat stride + j) = add (ar_elems dest ! (i * unat stride + j)) (val i j)) \<and>
     (\<forall>k<length (ar_elems dest). (\<forall>i<unat rows. \<forall>j<unat cols. k \<noteq> i * unat stride + j) \<longrightarrow> ar_elems dest' ! k = ar_elems dest ! k)"

lemma added_at_matrix:
  assumes out: "output_at al d stride rows cols"
  shows "added_matrix add val d stride rows cols (added_at add val (unat stride) d ({..<unat rows} \<times> {..<unat cols}))"
  unfolding added_matrix_def
proof (intro conjI allI impI)
  fix i j assume i: "i < unat rows" and j: "j < unat cols"
  have "i * unat stride + unat cols \<le> length (ar_elems d)" "unat cols \<le> unat stride" using out i by (auto simp: output_at_def)
  with j have "j < unat stride" "i * unat stride + j < length (ar_elems d)" by simp_all
  from added_nth [OF this] i j
  show "ar_elems (added_at add val (unat stride) d ({..<unat rows} \<times> {..<unat cols})) ! (i * unat stride + j) =
      add (ar_elems d ! (i * unat stride + j)) (val i j)" by simp
next
  fix k assume k: "k < length (ar_elems d)" and other: "\<forall>i<unat rows. \<forall>j<unat cols. k \<noteq> i * unat stride + j"
  have "\<not> (k div unat stride < unat rows \<and> k mod unat stride < unat cols)"
    using other div_mult_mod_eq [of k "unat stride"] by metis
  with k show "ar_elems (added_at add val (unat stride) d ({..<unat rows} \<times> {..<unat cols})) ! k = ar_elems d ! k"
    by (auto simp: added_at_def)
qed simp_all

lemma empty_grid:
  "unat CT = 0 \<Longrightarrow> fold_res (\<lambda>rt dest. if tile_extent rows (of_nat rt) = 0 then Inr dest
      else fold_res (F rt) [0..<unat CT] dest) xs d = Inr d"
  by (induction xs) auto

lemma unpack_run:
  assumes place: "grid_place row_tiles col_tiles src" and cover: "unat rows \<le> 32 * unat row_tiles" "unat cols \<le> 32 * unat col_tiles"
    and tile: "\<And>rt ct P. rt < unat row_tiles \<Longrightarrow> ct < unat col_tiles \<Longrightarrow> 32 * rt < unat rows \<Longrightarrow> 32 * ct < unat cols \<Longrightarrow>
      tile_at (of_nat rt) col_tiles (of_nat ct) = 1024 * (rt * unat col_tiles + ct) \<Longrightarrow>
      tile_place (1024 * (rt * unat col_tiles + ct)) src \<Longrightarrow> P \<inter> tile_region rows cols rt ct = {} \<Longrightarrow>
      U rt ct (added_at add val s dest P) = Inr (added_at add val s dest (P \<union> tile_region rows cols rt ct))"
  shows "fold_res (\<lambda>rt d. if tile_extent rows (of_nat rt) = 0 then Inr d
      else fold_res (\<lambda>ct d. if tile_extent cols (of_nat ct) = 0 then Inr d else U rt ct d) [0..<unat col_tiles] d) [0..<unat row_tiles] dest =
    Inr (added_at add val s dest ({..<unat rows} \<times> {..<unat cols}))"
proof (cases "unat row_tiles = 0 \<or> unat col_tiles = 0")
  case True
  then have "{..<unat rows} \<times> {..<unat cols} = {}" using cover by auto
  with True show ?thesis by (auto simp: empty_grid)
next
  case False
  then have bound: "unat row_tiles \<le> 2 ^ 21" "unat col_tiles \<le> 2 ^ 21" using grid_bound [OF place] by auto
  have "fold_res (\<lambda>rt d. if tile_extent rows (of_nat rt) = 0 then Inr d
      else fold_res (\<lambda>ct d. if tile_extent cols (of_nat ct) = 0 then Inr d else U rt ct d) [0..<unat col_tiles] d) [0..<unat row_tiles]
        (added_at add val s dest {}) =
    Inr (added_at add val s dest (\<Union>rt<unat row_tiles. \<Union>ct<unat col_tiles. tile_region rows cols rt ct))"
    using bound tile grid_place_tile [OF place _ _ refl refl] by (intro unpack_grid) auto
  then show ?thesis using tiles_cover [OF cover bound] by simp
qed

lemma unpack_f32_run:
  assumes "arithmetic_law hv" and "grid_place row_tiles col_tiles src" and "output_at 128 dest stride rows cols"
    and "unat rows \<le> 32 * unat row_tiles" and "unat cols \<le> 32 * unat col_tiles"
  shows "unpack_acc_f16_to_f32 hv dest src stride rows cols row_tiles col_tiles =
    Inr (added_at (float_add hv) (\<lambda>i j. half_to_float hv (ar_elems src ! packed_index (unat col_tiles) i j)) (unat stride) dest
      ({..<unat rows} \<times> {..<unat cols}))" (is "_ = Inr (added_at _ ?val _ _ _)")
  unfolding unpack_acc_f16_to_f32_def Let_def
  using assms(2,4,5)
proof (rule unpack_run)
  fix rt ct P
  assume t: "rt < unat row_tiles" "ct < unat col_tiles" "32 * rt < unat rows" "32 * ct < unat cols"
    and at: "tile_at (of_nat rt) col_tiles (of_nat ct) = 1024 * (rt * unat col_tiles + ct)"
    and p: "tile_place (1024 * (rt * unat col_tiles + ct)) src" and P: "P \<inter> tile_region rows cols rt ct = {}"
  show "unpack_acc_tile hv (tile_at (of_nat rt) col_tiles (of_nat ct)) src (unat (of_nat rt * HMX_TILE * stride) + unat (of_nat ct * HMX_TILE))
      stride (tile_extent rows (of_nat rt)) (tile_extent cols (of_nat ct)) (added_at (float_add hv) ?val (unat stride) dest P) =
    Inr (added_at (float_add hv) ?val (unat stride) dest (P \<union> tile_region rows cols rt ct))"
    unfolding at by (rule unpack_acc_tile_added [OF assms(1) p assms(3) t(3,4) _ P]) (simp only: tile_value_packed)
qed

lemma unpack_f16_run:
  assumes "shuffle_law hv" "arithmetic_law hv" and "grid_place row_tiles col_tiles src" and "output_at 64 dest stride rows cols"
    and "unat rows \<le> 32 * unat row_tiles" and "unat cols \<le> 32 * unat col_tiles"
  shows "unpack_acc_f16_to_f16 hv dest src stride rows cols row_tiles col_tiles =
    Inr (added_at (half_add hv) (\<lambda>i j. ar_elems src ! packed_index (unat col_tiles) i j) (unat stride) dest
      ({..<unat rows} \<times> {..<unat cols}))" (is "_ = Inr (added_at _ ?val _ _ _)")
  unfolding unpack_acc_f16_to_f16_def Let_def
  using assms(3,5,6)
proof (rule unpack_run)
  fix rt ct P
  assume t: "rt < unat row_tiles" "ct < unat col_tiles" "32 * rt < unat rows" "32 * ct < unat cols"
    and at: "tile_at (of_nat rt) col_tiles (of_nat ct) = 1024 * (rt * unat col_tiles + ct)"
    and p: "tile_place (1024 * (rt * unat col_tiles + ct)) src" and P: "P \<inter> tile_region rows cols rt ct = {}"
  show "unpack_acc_tile_f16 hv (tile_at (of_nat rt) col_tiles (of_nat ct)) src (unat (of_nat rt * HMX_TILE * stride) + unat (of_nat ct * HMX_TILE))
      stride (tile_extent rows (of_nat rt)) (tile_extent cols (of_nat ct)) (added_at (half_add hv) ?val (unat stride) dest P) =
    Inr (added_at (half_add hv) ?val (unat stride) dest (P \<union> tile_region rows cols rt ct))"
    unfolding at by (rule unpack_acc_tile_f16_added [OF assms(1,2) p assms(4) t(3,4) _ P]) (simp only: tile_value_packed)
qed

text \<open>
  Unpacking an accumulator adds to every element of the destination its value of the packed
  tiles, widened to single precision, and leaves the rest of the destination alone; it stays within both arrays.
\<close>

theorem unpack_f32_correct:
  assumes "arithmetic_law hv" and "grid_place row_tiles col_tiles src" and "output_at 128 dest stride rows cols"
    and "unat rows \<le> 32 * unat row_tiles" and "unat cols \<le> 32 * unat col_tiles"
  shows "\<exists>dest'. unpack_acc_f16_to_f32 hv dest src stride rows cols row_tiles col_tiles = Inr dest' \<and>
    added_matrix (float_add hv) (\<lambda>i j. half_to_float hv (ar_elems src ! packed_index (unat col_tiles) i j)) dest stride rows cols dest'"
  using unpack_f32_run [OF assms] added_at_matrix [OF assms(3)] by auto

text \<open>
  C27: unpacking what was packed adds the original matrix: every element of the half-precision
  destination gets the element of the source added, whatever the strides and ragged edges of the two
  are, and nothing else changes.
\<close>

theorem unpack_pack_roundtrip:
  assumes laws: "shuffle_law hv" "arithmetic_law hv"
    and m: "matrix_at src stride rows cols" and place: "grid_place row_tiles col_tiles tiles"
    and cover: "unat rows \<le> 32 * unat row_tiles" "unat cols \<le> 32 * unat col_tiles"
    and out: "output_at 64 dest stride' rows cols"
  shows "\<exists>tiles' dest'. pack_f16 hv tiles src stride rows cols row_tiles col_tiles = Inr tiles' \<and>
    unpack_acc_f16_to_f16 hv dest tiles' stride' rows cols row_tiles col_tiles = Inr dest' \<and>
    added_matrix (half_add hv) (\<lambda>i j. ar_elems src ! (i * unat stride + j)) dest stride' rows cols dest'"
proof -
  let ?g = "matrix_elem src stride rows cols" and ?RT = "unat row_tiles" and ?CT = "unat col_tiles"
  define tiles' where "tiles' = tiles\<lparr>ar_elems := put 0 (grid_of ?RT ?CT ?g) (ar_elems tiles)\<rparr>"
  have room: "1024 * (?RT * ?CT) \<le> length (ar_elems tiles)" using place by (simp add: grid_place_def)
  have elem: "ar_elems tiles' ! packed_index ?CT i j = ?g i j" if "i < 32 * ?RT" "j < 32 * ?CT" for i j
    unfolding tiles'_def using grid_nth(1) [OF that, of ?g] grid_nth(2) [OF that] room by (simp add: put_nth)
  have place': "grid_place row_tiles col_tiles tiles'" using place room by (simp add: grid_place_def tiles'_def)
  let ?val = "\<lambda>i j. ar_elems tiles' ! packed_index ?CT i j"
  let ?dest' = "added_at (half_add hv) ?val (unat stride') dest ({..<unat rows} \<times> {..<unat cols})"
  have "unpack_acc_f16_to_f16 hv dest tiles' stride' rows cols row_tiles col_tiles = Inr ?dest'"
    by (rule unpack_f16_run [OF laws place' out cover])
  moreover have "pack_f16 hv tiles src stride rows cols row_tiles col_tiles = Inr tiles'"
    using pack_f16_run [OF laws(1) m place] by (simp add: tiles'_def)
  moreover have "added_matrix (half_add hv) (\<lambda>i j. ar_elems src ! (i * unat stride + j)) dest stride' rows cols ?dest'"
  proof -
    have "?val i j = ar_elems src ! (i * unat stride + j)" if "i < unat rows" "j < unat cols" for i j
      using elem [of i j] cover that by (simp add: matrix_elem_def)
    then show ?thesis using added_at_matrix [OF out, of "half_add hv" ?val] by (simp add: added_matrix_def)
  qed
  ultimately show ?thesis by blast
qed

section \<open>A concrete instance\<close>

text \<open>A vector unit that follows the laws, with addition and conversion on the bit patterns.\<close>

definition sample_hvx :: hvx where
  "sample_hvx = \<lparr>vshuff_h = interleave, vdeal_h = deinterleave, vshuff_vvr = shuffle_pair,
     vcvt_sf_hf = (\<lambda>v. (map (\<lambda>k. ucast (v ! (2 * k))) [0..<32], map (\<lambda>k. ucast (v ! (2 * k + 1))) [0..<32])),
     vadd_sf = map2 (+), vadd_hf = map2 (+), half_to_float = ucast, float_add = (+), half_add = (+)\<rparr>"

lemma sample_laws: "shuffle_law sample_hvx" "arithmetic_law sample_hvx"
  by (simp_all add: sample_hvx_def shuffle_law_def arithmetic_law_def)

text \<open>A matrix with two rows of three elements, its transpose, and a destination of two tiles.\<close>

definition sample_matrix :: "half arr" where "sample_matrix = \<lparr>ar_addr = 128, ar_elems = [1, 2, 3, 4, 5, 6]\<rparr>"
definition sample_transpose :: "half arr" where "sample_transpose = \<lparr>ar_addr = 128, ar_elems = [1, 4, 2, 5, 3, 6]\<rparr>"
definition sample_tiles :: "half arr" where "sample_tiles = \<lparr>ar_addr = 256, ar_elems = replicate 1024 7\<rparr>"
definition sample_out :: "'a::zero arr" where "sample_out = \<lparr>ar_addr = 128, ar_elems = replicate 6 0\<rparr>"

lemma less_two_three: "(\<forall>i<2. P i) \<longleftrightarrow> P 0 \<and> P 1" "(\<forall>i<3. P i) \<longleftrightarrow> P 0 \<and> P 1 \<and> P 2" for P :: "nat \<Rightarrow> bool"
  by (auto simp: numeral_eq_Suc less_Suc_eq)

lemma sample_places:
  "matrix_at sample_matrix 3 2 3" "matrix_at sample_transpose 2 3 2" "grid_place 1 1 sample_tiles"
  "output_at 64 sample_out 3 2 3" "output_at 128 sample_out 3 2 3"
  by (simp_all add: matrix_at_def sample_matrix_def sample_transpose_def grid_place_def sample_tiles_def output_at_def sample_out_def
      less_two_three)

theorem pack_f16_correct_witness:
  "\<exists>dest'. pack_f16 sample_hvx sample_tiles sample_matrix 3 2 3 1 1 = Inr dest' \<and> ar_elems dest' ! 3 = 5 \<and> ar_elems dest' ! 7 = 0"
proof -
  obtain dest' where d: "pack_f16 sample_hvx sample_tiles sample_matrix 3 2 3 1 1 = Inr dest'"
    "\<forall>i<32 * unat (1 :: u32). \<forall>j<32 * unat (1 :: u32). ar_elems dest' ! packed_index (unat (1 :: u32)) i j = matrix_elem sample_matrix 3 2 3 i j"
    using pack_f16_correct [OF sample_laws(1) sample_places(1,3)] by blast
  have e: "matrix_elem sample_matrix 3 2 3 1 1 = 5" "matrix_elem sample_matrix 3 2 3 1 3 = 0"
    "packed_index (unat (1 :: u32)) 1 1 = 3" "packed_index (unat (1 :: u32)) 1 3 = 7"
    by (simp_all add: matrix_elem_def sample_matrix_def packed_index_def)
  have "ar_elems dest' ! 3 = 5" using d(2) [rule_format, of 1 1] by (simp only: e) simp
  moreover have "ar_elems dest' ! 7 = 0" using d(2) [rule_format, of 1 3] by (simp only: e) simp
  ultimately show ?thesis using d(1) by blast
qed

theorem pack_transposed_equivalent_witness:
  "\<exists>dest'. pack_transposed_f16 sample_hvx sample_tiles sample_matrix 3 3 2 1 1 = Inr dest' \<and>
     pack_f16 sample_hvx sample_tiles sample_transpose 2 3 2 1 1 = Inr dest'"
  by (rule pack_transposed_equivalent [OF sample_laws(1) sample_places(1,2) _ sample_places(3)])
    (simp add: less_two_three sample_matrix_def sample_transpose_def)

theorem unpack_f32_correct_witness:
  "\<exists>dest'. unpack_acc_f16_to_f32 sample_hvx sample_out sample_tiles 3 2 3 1 1 = Inr dest' \<and> ar_elems dest' ! 4 = 7"
proof -
  obtain dest' where d: "unpack_acc_f16_to_f32 sample_hvx sample_out sample_tiles 3 2 3 1 1 = Inr dest'"
    "added_matrix (float_add sample_hvx) (\<lambda>i j. half_to_float sample_hvx (ar_elems sample_tiles ! packed_index 1 i j)) sample_out 3 2 3 dest'"
    using unpack_f32_correct [OF sample_laws(2) sample_places(3,5)] by auto
  have "ar_elems dest' ! (1 * 3 + 1) = 7"
    using d(2) by (simp add: added_matrix_def less_two_three sample_hvx_def sample_out_def sample_tiles_def packed_index_def)
  with d(1) show ?thesis by auto
qed

theorem unpack_pack_roundtrip_witness:
  "\<exists>tiles' dest'. pack_f16 sample_hvx sample_tiles sample_matrix 3 2 3 1 1 = Inr tiles' \<and>
     unpack_acc_f16_to_f16 sample_hvx sample_out tiles' 3 2 3 1 1 = Inr dest' \<and> ar_elems dest' ! 5 = 6"
proof -
  obtain tiles' dest' where d: "pack_f16 sample_hvx sample_tiles sample_matrix 3 2 3 1 1 = Inr tiles'"
    "unpack_acc_f16_to_f16 sample_hvx sample_out tiles' 3 2 3 1 1 = Inr dest'"
    "added_matrix (half_add sample_hvx) (\<lambda>i j. ar_elems sample_matrix ! (i * unat (3 :: u32) + j)) sample_out 3 2 3 dest'"
    using unpack_pack_roundtrip [OF sample_laws sample_places(1,3) _ _ sample_places(4)] by auto
  have "ar_elems dest' ! (1 * 3 + 2) = 6"
    using d(3) by (simp add: added_matrix_def less_two_three sample_hvx_def sample_out_def sample_matrix_def)
  with d(1,2) show ?thesis by auto
qed

end
