(* ===== verification/Hmx_Runtime_ABI.thy ===== *)
theory Hmx_Runtime_ABI
  imports Hmx_Contracts Hmx_Properties
begin

text \<open>
  The boundary between the HMX operations of the compiler and the micro kernels of the DSP: the pass
  \<open>CodeGen/Transforms/HexagonVerifyHmxRuntimeABI.cpp\<close>, which checks what the kernels rely on, the
  operation verifiers of \<open>CodeGen/IR/HexagonOps.cpp\<close>, and the conversion of
  \<open>CodeGen/Conversion/HexagonHmxToLLVM.cpp\<close>, which turns an operation into a kernel call.

  The divisibility analysis and the bounds on dynamic sizes are parameters.
\<close>

section \<open>Operations\<close>

datatype hmx_op =
    HmxPack hmx_value hmx_value int
  | HmxUnpack hmx_value hmx_value int
  | HmxMatmul hmx_value hmx_value hmx_value
  | HmxAccSetupRead hmx_value
  | HmxAccZero
  | HmxMma hmx_value hmx_value acc_type
  | HmxAccRead acc_type hmx_value
  | OtherOp

fun verify_hmx_op :: "hmx_op \<Rightarrow> hmx_error + unit" where
  "verify_hmx_op (HmxPack source dest d) = verifyHmxPackContract (value_type source) (value_type dest) d"
| "verify_hmx_op (HmxUnpack source dest d) = verifyHmxUnpackContract (value_type source) (value_type dest) d"
| "verify_hmx_op (HmxMatmul lhs rhs acc) = verifyHmxMatmulContract (value_type lhs) (value_type rhs) (value_type acc) True"
| "verify_hmx_op (HmxAccSetupRead config) =
     (let configType = value_type config
      in if rank configType \<noteq> 1 \<or> st_elem configType \<noteq> I8 \<or> st_shape configType ! 0 = kDynamic \<or>
            st_shape configType ! 0 < kHmxConfigBytes then Inl BadConfig else Inr ())"
| "verify_hmx_op HmxAccZero = Inr ()"
| "verify_hmx_op (HmxMma lhs rhs accIn) =
     bind_res (verifyHmxSingleF16Tile (value_type lhs) True) (\<lambda>_.
     bind_res (verifyHmxSingleF16Tile (value_type rhs) True) (\<lambda>_.
     if \<not> isHmxAccumulator accIn then Inl BadAccumulator else Inr ()))"
| "verify_hmx_op (HmxAccRead acc dest) =
     (if \<not> isHmxAccumulator acc then Inl BadAccumulator else verifyHmxSingleF16Tile (value_type dest) False)"
| "verify_hmx_op OtherOp = Inr ()"

section \<open>Runtime preconditions\<close>

definition kHalfVectorAlignment :: int where "kHalfVectorAlignment = 64"
definition kHvxAlignment :: int where "kHvxAlignment = 128"

record analysis =
  an_solver :: divisibility
  an_bound :: "hmx_value \<Rightarrow> nat \<Rightarrow> int option"

definition isVtcm :: "hmx_memref_type \<Rightarrow> bool" where
  "isVtcm t \<longleftrightarrow> mt_space t = 1"

definition hasUnitInnerStride :: "hmx_memref_type \<Rightarrow> bool" where
  "hasUnitInnerStride t = (case mt_strides t of None \<Rightarrow> False | Some strides \<Rightarrow> strides \<noteq> [] \<and> last strides = 1)"

definition hasRowMajorLayout :: "hmx_memref_type \<Rightarrow> bool" where
  "hasRowMajorLayout t =
     (case mt_strides t of None \<Rightarrow> False
      | Some strides \<Rightarrow>
          if last strides \<noteq> 1 then False
          else let rowStride = hd strides; columns = st_shape t ! 1
               in rowStride = kDynamic \<or> columns = kDynamic \<or> rowStride \<ge> columns)"

definition hasContiguousTileSuffixLayout :: "hmx_memref_type \<Rightarrow> bool" where
  "hasContiguousTileSuffixLayout t =
     (case mt_strides t of None \<Rightarrow> False
      | Some strides \<Rightarrow> drop (length strides - kHmxTileRank) strides = kHmxTileStrides)"

definition verifyPlacementAndAlignment :: "analysis \<Rightarrow> hmx_value \<Rightarrow> int \<Rightarrow> hmx_error + unit" where
  "verifyPlacementAndAlignment an v requiredAlignment =
     (if \<not> isVtcm (value_type v) then Inl NotInVtcm
      else if \<not> providesHmxAlignment (an_solver an) requiredAlignment v then Inl NotAligned
      else Inr ())"

definition verifyDynamicDimensionFits :: "analysis \<Rightarrow> hmx_value \<Rightarrow> nat \<Rightarrow> int \<Rightarrow> hmx_error + unit" where
  "verifyDynamicDimensionFits an v d maximum =
     (if st_shape (value_type v) ! d \<noteq> kDynamic then Inr ()
      else case an_bound an v d of None \<Rightarrow> Inl NoUpperBound
      | Some upperBound \<Rightarrow> if upperBound > maximum then Inl ExceedsMaximum else Inr ())"

definition verifyDynamicGridCoverage :: "analysis \<Rightarrow> hmx_value \<Rightarrow> hmx_value \<Rightarrow> bool \<Rightarrow> hmx_error + unit" where
  "verifyDynamicGridCoverage an grid matrix transposed =
     (let rowCapacity = getHmxElementCapacity (st_shape (value_type grid) ! 0);
          columnCapacity = getHmxElementCapacity (st_shape (value_type grid) ! 1)
      in bind_res (verifyDynamicDimensionFits an matrix (if transposed then 1 else 0) rowCapacity) (\<lambda>_.
         verifyDynamicDimensionFits an matrix (if transposed then 0 else 1) columnCapacity))"

definition verifyPackRuntimePreconditions :: "analysis \<Rightarrow> hmx_value \<Rightarrow> hmx_value \<Rightarrow> int \<Rightarrow> hmx_error + unit" where
  "verifyPackRuntimePreconditions an source dest d =
     bind_res (verifyPlacementAndAlignment an source kHalfVectorAlignment) (\<lambda>_.
     bind_res (verifyPlacementAndAlignment an dest kHmxAlignment) (\<lambda>_.
     if \<not> hasRowMajorLayout (value_type source) then Inl NotRowMajor
     else if \<not> mt_identity (value_type dest) then Inl NotContiguous
     else verifyDynamicGridCoverage an dest source (d = 1)))"

definition verifyUnpackRuntimePreconditions :: "analysis \<Rightarrow> hmx_value \<Rightarrow> hmx_value \<Rightarrow> hmx_error + unit" where
  "verifyUnpackRuntimePreconditions an source dest =
     (let destAlignment = (if st_elem (value_type dest) = F16 then kHalfVectorAlignment else kHvxAlignment)
      in bind_res (verifyPlacementAndAlignment an source kHmxAlignment) (\<lambda>_.
         bind_res (verifyPlacementAndAlignment an dest destAlignment) (\<lambda>_.
         let sourceIsGrid = isHmxTileGrid (value_type source)
         in if (if sourceIsGrid then \<not> mt_identity (value_type source)
                else \<not> hasContiguousTileSuffixLayout (value_type source)) then Inl NotContiguous
            else if \<not> hasRowMajorLayout (value_type dest) then Inl NotRowMajor
            else if sourceIsGrid then verifyDynamicGridCoverage an source dest False
            else bind_res (verifyDynamicDimensionFits an dest 0 kHmxLogicalTileSize) (\<lambda>_.
                 verifyDynamicDimensionFits an dest 1 kHmxLogicalTileSize))))"

definition verifyAccSetupReadRuntimePreconditions :: "analysis \<Rightarrow> hmx_value \<Rightarrow> hmx_error + unit" where
  "verifyAccSetupReadRuntimePreconditions an config =
     bind_res (verifyPlacementAndAlignment an config kHmxAlignment) (\<lambda>_.
     if \<not> hasUnitInnerStride (value_type config) then Inl NotContiguous else Inr ())"

definition verifyMmaRuntimePreconditions :: "analysis \<Rightarrow> hmx_value \<Rightarrow> hmx_value \<Rightarrow> hmx_error + unit" where
  "verifyMmaRuntimePreconditions an lhs rhs =
     fold_res (\<lambda>v _.
       bind_res (verifyPlacementAndAlignment an v kHmxAlignment) (\<lambda>_.
       if \<not> hasContiguousTileSuffixLayout (value_type v) then Inl NotContiguous else Inr ())) [lhs, rhs] ()"

definition verifyAccReadRuntimePreconditions :: "analysis \<Rightarrow> hmx_value \<Rightarrow> hmx_error + unit" where
  "verifyAccReadRuntimePreconditions an dest =
     bind_res (verifyPlacementAndAlignment an dest kHmxAlignment) (\<lambda>_.
     if \<not> hasContiguousTileSuffixLayout (value_type dest) then Inl NotContiguous else Inr ())"

fun op_preconditions :: "analysis \<Rightarrow> hmx_op \<Rightarrow> hmx_error + unit" where
  "op_preconditions an (HmxPack source dest d) = verifyPackRuntimePreconditions an source dest d"
| "op_preconditions an (HmxUnpack source dest d) = verifyUnpackRuntimePreconditions an source dest"
| "op_preconditions an (HmxAccSetupRead config) = verifyAccSetupReadRuntimePreconditions an config"
| "op_preconditions an (HmxMma lhs rhs acc) = verifyMmaRuntimePreconditions an lhs rhs"
| "op_preconditions an (HmxAccRead acc dest) = verifyAccReadRuntimePreconditions an dest"
| "op_preconditions an _ = Inr ()"

text \<open>The walk stops at the first operation that fails.\<close>

definition verifyHmxRuntimeBufferPreconditions :: "analysis \<Rightarrow> hmx_op list \<Rightarrow> hmx_error + unit" where
  "verifyHmxRuntimeBufferPreconditions an ops = fold_res (\<lambda>op _. op_preconditions an op) ops ()"

text \<open>Every function with the result of its analysis, none when the analysis fails.\<close>

fun verifyHmxRuntimeABI :: "(analysis option \<times> hmx_op list) list \<Rightarrow> bool" where
  "verifyHmxRuntimeABI [] \<longleftrightarrow> True"
| "verifyHmxRuntimeABI ((an, ops) # fs) \<longleftrightarrow>
     (case an of None \<Rightarrow> False
      | Some a \<Rightarrow> verifyHmxRuntimeBufferPreconditions a ops = Inr () \<and> verifyHmxRuntimeABI fs)"

section \<open>Kernel calls\<close>

text \<open>The descriptors of the buffers at run time.\<close>

record runtime =
  rt_addr :: "hmx_value \<Rightarrow> int"
  rt_size :: "hmx_value \<Rightarrow> nat \<Rightarrow> int"
  rt_stride :: "hmx_value \<Rightarrow> nat \<Rightarrow> int"
  rt_index :: "nat \<Rightarrow> int"

definition createI32 :: "int \<Rightarrow> u32" where
  "createI32 n = of_int n"

definition castToI32 :: "int \<Rightarrow> u32" where
  "castToI32 n = of_int n"

definition buffer_size :: "runtime \<Rightarrow> hmx_value \<Rightarrow> nat \<Rightarrow> u32" where
  "buffer_size rt v d =
     (if st_shape (value_type v) ! d \<noteq> kDynamic then createI32 (st_shape (value_type v) ! d) else castToI32 (rt_size rt v d))"

definition buffer_stride :: "runtime \<Rightarrow> hmx_value \<Rightarrow> nat \<Rightarrow> u32" where
  "buffer_stride rt v d =
     (let staticStride = the (mt_strides (value_type v)) ! d
      in if staticStride \<noteq> kDynamic then createI32 staticStride else castToI32 (rt_stride rt v d))"

datatype kernel_call =
    AccClear
  | AccSetupRead hmx_value
  | PackF16 hmx_value hmx_value u32 u32 u32 u32 u32
  | PackTransposedF16 hmx_value hmx_value u32 u32 u32 u32 u32
  | UnpackF32 hmx_value hmx_value u32 u32 u32 u32 u32
  | UnpackF16 hmx_value hmx_value u32 u32 u32 u32 u32
  | MmaF16 hmx_value hmx_value
  | AccReadF16 hmx_value

definition convertPack :: "runtime \<Rightarrow> hmx_value \<Rightarrow> hmx_value \<Rightarrow> int \<Rightarrow> kernel_call" where
  "convertPack rt source dest d =
     (let transposed = (d = 1)
      in (if transposed then PackTransposedF16 else PackF16) dest source (buffer_stride rt source 0)
           (buffer_size rt source (if transposed then 1 else 0)) (buffer_size rt source (if transposed then 0 else 1))
           (buffer_size rt dest 0) (buffer_size rt dest 1))"

definition convertUnpack :: "runtime \<Rightarrow> hmx_value \<Rightarrow> hmx_value \<Rightarrow> kernel_call" where
  "convertUnpack rt source dest =
     (let sourceIsGrid = isHmxTileGrid (value_type source);
          rowTiles = (if sourceIsGrid then buffer_size rt source 0 else createI32 1);
          colTiles = (if sourceIsGrid then buffer_size rt source 1 else createI32 1)
      in (if st_elem (value_type dest) = F32 then UnpackF32 else UnpackF16) dest source (buffer_stride rt dest 0)
           (buffer_size rt dest 0) (buffer_size rt dest 1) rowTiles colTiles)"

fun convert_op :: "runtime \<Rightarrow> hmx_op \<Rightarrow> kernel_call option" where
  "convert_op rt (HmxPack source dest d) = Some (convertPack rt source dest d)"
| "convert_op rt (HmxUnpack source dest d) = Some (convertUnpack rt source dest)"
| "convert_op rt (HmxAccSetupRead config) = Some (AccSetupRead config)"
| "convert_op rt HmxAccZero = Some AccClear"
| "convert_op rt (HmxMma lhs rhs acc) = Some (MmaF16 lhs rhs)"
| "convert_op rt (HmxAccRead acc dest) = Some (AccReadF16 dest)"
| "convert_op rt _ = None"

text \<open>What the call of a packing or unpacking kernel does to the arrays behind its buffers.\<close>

fun run_pack_call :: "hvx \<Rightarrow> kernel_call \<Rightarrow> half arr \<Rightarrow> half arr \<Rightarrow> hmx_fault + half arr" where
  "run_pack_call hv (PackF16 _ _ stride rows cols row_tiles col_tiles) src dest =
     pack_f16 hv dest src stride rows cols row_tiles col_tiles"
| "run_pack_call hv (PackTransposedF16 _ _ stride inner other inner_tiles other_tiles) src dest =
     pack_transposed_f16 hv dest src stride inner other inner_tiles other_tiles"
| "run_pack_call hv _ src dest = Inr dest"

fun run_unpack_call :: "hvx \<Rightarrow> kernel_call \<Rightarrow> half arr \<Rightarrow> float32 arr \<Rightarrow> hmx_fault + float32 arr" where
  "run_unpack_call hv (UnpackF32 _ _ stride rows cols row_tiles col_tiles) src dest =
     unpack_acc_f16_to_f32 hv dest src stride rows cols row_tiles col_tiles"
| "run_unpack_call hv _ src dest = Inr dest"

fun run_unpack_f16_call :: "hvx \<Rightarrow> kernel_call \<Rightarrow> half arr \<Rightarrow> half arr \<Rightarrow> hmx_fault + half arr" where
  "run_unpack_f16_call hv (UnpackF16 _ _ stride rows cols row_tiles col_tiles) src dest =
     unpack_acc_f16_to_f16 hv dest src stride rows cols row_tiles col_tiles"
| "run_unpack_f16_call hv _ src dest = Inr dest"

section \<open>Verified operations run\<close>

text \<open>What the analyses know holds at run time.\<close>

definition analysis_law :: "runtime \<Rightarrow> analysis \<Rightarrow> bool" where
  "analysis_law rt an \<longleftrightarrow> address_law (rt_addr rt) (rt_index rt) \<and> solver_law (an_solver an) (rt_index rt) \<and>
     (\<forall>v d b. an_bound an v d = Some b \<longrightarrow> rt_size rt v d \<le> b)"

text \<open>A descriptor agrees with its type, and its values fit the 32-bit index type of the DSP.\<close>

definition descriptor_ok :: "runtime \<Rightarrow> hmx_value \<Rightarrow> bool" where
  "descriptor_ok rt v \<longleftrightarrow> (\<forall>strides. mt_strides (value_type v) = Some strides \<longrightarrow> length strides = rank (value_type v)) \<and>
     (\<forall>d<2. (st_shape (value_type v) ! d \<noteq> kDynamic \<longrightarrow> rt_size rt v d = st_shape (value_type v) ! d) \<and>
       0 \<le> rt_size rt v d \<and> rt_size rt v d < 2 ^ 31 \<and>
       (the (mt_strides (value_type v)) ! d \<noteq> kDynamic \<longrightarrow> rt_stride rt v d = the (mt_strides (value_type v)) ! d) \<and>
       0 \<le> rt_stride rt v d \<and> rt_stride rt v d < 2 ^ 31)"

lemma static_size:
  "descriptor_ok rt v \<Longrightarrow> d < 2 \<Longrightarrow> st_shape (value_type v) ! d \<noteq> kDynamic \<Longrightarrow> rt_size rt v d = st_shape (value_type v) ! d"
  unfolding descriptor_ok_def by blast

text \<open>The arrays behind a row-major matrix and behind a tile or a grid of tiles.\<close>

definition matrix_buffer :: "runtime \<Rightarrow> hmx_value \<Rightarrow> 'a arr \<Rightarrow> bool" where
  "matrix_buffer rt v a \<longleftrightarrow> descriptor_ok rt v \<and> int (ar_addr a) = rt_addr rt v \<and> length (ar_elems a) \<le> 2 ^ 31 \<and>
     (\<forall>r<nat (rt_size rt v 0). r * nat (rt_stride rt v 0) + nat (rt_size rt v 1) \<le> length (ar_elems a))"

definition grid_buffer :: "runtime \<Rightarrow> hmx_value \<Rightarrow> 'a arr \<Rightarrow> bool" where
  "grid_buffer rt v a \<longleftrightarrow> descriptor_ok rt v \<and> int (ar_addr a) = rt_addr rt v \<and> length (ar_elems a) \<le> 2 ^ 31 \<and>
     (if isHmxTileGrid (value_type v) then 1024 * (nat (rt_size rt v 0) * nat (rt_size rt v 1)) else 1024) \<le> length (ar_elems a)"

lemma unat_of_int32: "0 \<le> n \<Longrightarrow> n < 2 ^ 31 \<Longrightarrow> unat (of_int n :: u32) = nat n"
  by (simp add: unat_eq_nat_uint uint_word_of_int)

lemma descriptor_values:
  assumes "descriptor_ok rt v" and "d < 2"
  shows "unat (buffer_size rt v d) = nat (rt_size rt v d)" and "unat (buffer_stride rt v d) = nat (rt_stride rt v d)"
  using assms unat_of_int32
  by (auto simp: descriptor_ok_def buffer_size_def buffer_stride_def createI32_def castToI32_def Let_def)

lemma placed:
  assumes law: "analysis_law rt an" and place: "verifyPlacementAndAlignment an v a = Inr ()" and decl: "declares_alignment v"
    and a: "0 < a" and arr: "int (ar_addr arr) = rt_addr rt v"
  shows "nat a dvd ar_addr arr"
proof -
  have "a dvd rt_addr rt v"
    using law place decl a by (auto simp: analysis_law_def verifyPlacementAndAlignment_def intro: providesHmxAlignment_sound split: if_splits)
  then show ?thesis using arr a by (metis int_dvd_int_iff int_nat_eq less_imp_le)
qed

text \<open>The grid covers the matrix.\<close>

lemma tile_count_covers: "0 \<le> n \<Longrightarrow> getHmxTileCount n \<le> m \<Longrightarrow> n \<le> m * 32"
proof -
  assume n: "0 \<le> n" and m: "getHmxTileCount n \<le> m"
  have "getHmxTileCount n = (n + 31) div 32"
    using n divide_int_eq_signed_divide_int [of "n + 31" 32] by (simp add: getHmxTileCount_def hmx_constants algebra_simps)
  with m show ?thesis by linarith
qed

lemma dimension_covered:
  assumes law: "analysis_law rt an" and desc: "descriptor_ok rt v" and d: "d < 2"
    and static: "st_shape (value_type v) ! d \<noteq> kDynamic \<Longrightarrow> rt_size rt v d \<le> m"
    and fits: "verifyDynamicDimensionFits an v d m = Inr ()"
  shows "rt_size rt v d \<le> m"
  using assms by (force simp: verifyDynamicDimensionFits_def analysis_law_def split: if_splits option.splits)

lemma grid_covers:
  assumes law: "analysis_law rt an" and desc: "descriptor_ok rt v"
    and static: "verifyStaticGridCovers (value_type g) (value_type v) tr = Inr ()"
    and dyn: "verifyDynamicGridCoverage an g v tr = Inr ()"
  shows "rt_size rt v (if tr then 1 else 0) \<le> st_shape (value_type g) ! 0 * 32"
    and "rt_size rt v (if tr then 0 else 1) \<le> st_shape (value_type g) ! 1 * 32"
proof -
  have d: "(if tr then 1 else 0) < (2 :: nat)" "(if tr then 0 else 1) < (2 :: nat)" by auto
  have s: "rt_size rt v d \<le> m * 32" if "st_shape (value_type v) ! d \<noteq> kDynamic" "\<not> m < getHmxTileCount (st_shape (value_type v) ! d)" "d < 2" for d m
  proof (rule tile_count_covers)
    show "0 \<le> rt_size rt v d" using desc that(3) by (auto simp: descriptor_ok_def)
    have "rt_size rt v d = st_shape (value_type v) ! d" using desc that(1,3) by (auto simp: descriptor_ok_def)
    then show "getHmxTileCount (rt_size rt v d) \<le> m" using that(2) by simp
  qed
  have f: "verifyDynamicDimensionFits an v (if tr then 1 else 0) (st_shape (value_type g) ! 0 * 32) = Inr ()"
    "verifyDynamicDimensionFits an v (if tr then 0 else 1) (st_shape (value_type g) ! 1 * 32) = Inr ()"
    using dyn by (auto simp: verifyDynamicGridCoverage_def getHmxElementCapacity_def hmx_constants Let_def bind_res_Inr)
  show "rt_size rt v (if tr then 1 else 0) \<le> st_shape (value_type g) ! 0 * 32"
  proof (rule dimension_covered [OF law desc d(1) _ f(1)])
    assume st: "st_shape (value_type v) ! (if tr then 1 else 0) \<noteq> kDynamic"
    have "\<not> st_shape (value_type g) ! 0 < getHmxTileCount (st_shape (value_type v) ! (if tr then 1 else 0))"
      using static st unfolding verifyStaticGridCovers_def Let_def by (metis Inl_Inr_False)
    with st show "rt_size rt v (if tr then 1 else 0) \<le> st_shape (value_type g) ! 0 * 32" by (rule s [OF _ _ d(1)])
  qed
  show "rt_size rt v (if tr then 0 else 1) \<le> st_shape (value_type g) ! 1 * 32"
  proof (rule dimension_covered [OF law desc d(2) _ f(2)])
    assume st: "st_shape (value_type v) ! (if tr then 0 else 1) \<noteq> kDynamic"
    have "\<not> st_shape (value_type g) ! 1 < getHmxTileCount (st_shape (value_type v) ! (if tr then 0 else 1))"
      using static st unfolding verifyStaticGridCovers_def Let_def by (metis Inl_Inr_False)
    with st show "rt_size rt v (if tr then 0 else 1) \<le> st_shape (value_type g) ! 1 * 32" by (rule s [OF _ _ d(2)])
  qed
qed

lemma verified_grid:
  assumes "verifyHmxF16Tile (value_type g) True = Inr ()" and "descriptor_ok rt g"
  shows "isHmxTileGrid (value_type g)" and "rt_size rt g 0 = st_shape (value_type g) ! 0" and "rt_size rt g 1 = st_shape (value_type g) ! 1"
  using assms by (auto simp: verifyHmxF16Tile_def isHmxTileGrid_def hasPositiveStaticTileGrid_def descriptor_ok_def Let_def split: if_splits)

lemma grid_at:
  assumes law: "analysis_law rt an" and place: "verifyPlacementAndAlignment an g kHmxAlignment = Inr ()"
    and decl: "declares_alignment g" and buf: "grid_buffer rt g a"
    and tile: "RT = (if isHmxTileGrid (value_type g) then buffer_size rt g 0 else createI32 1)"
      "CT = (if isHmxTileGrid (value_type g) then buffer_size rt g 1 else createI32 1)"
  shows "grid_place RT CT a"
proof -
  have "nat kHmxAlignment dvd ar_addr a"
    using buf by (intro placed [OF law place decl]) (auto simp: grid_buffer_def hmx_constants)
  then have "128 dvd ar_addr a" by (auto simp: hmx_constants intro: dvd_trans)
  then show ?thesis
    using buf tile by (auto simp: grid_place_def grid_buffer_def createI32_def descriptor_values split: if_splits)
qed

lemma matrix_at_buffer:
  assumes law: "analysis_law rt an" and place: "verifyPlacementAndAlignment an v kHalfVectorAlignment = Inr ()"
    and decl: "declares_alignment v" and buf: "matrix_buffer rt v a"
  shows "matrix_at a (buffer_stride rt v 0) (buffer_size rt v 0) (buffer_size rt v 1)"
proof -
  have "nat kHalfVectorAlignment dvd ar_addr a"
    using buf by (intro placed [OF law place decl]) (auto simp: matrix_buffer_def kHalfVectorAlignment_def)
  then show ?thesis using buf by (auto simp: matrix_at_def matrix_buffer_def kHalfVectorAlignment_def descriptor_values)
qed


text \<open>A destination: where the layout is only known at run time, its rows do not overlap.\<close>

definition output_buffer :: "runtime \<Rightarrow> hmx_value \<Rightarrow> 'a arr \<Rightarrow> bool" where
  "output_buffer rt v a \<longleftrightarrow> matrix_buffer rt v a \<and>
     (the (mt_strides (value_type v)) ! 0 = kDynamic \<or> st_shape (value_type v) ! 1 = kDynamic \<longrightarrow> rt_size rt v 1 \<le> rt_stride rt v 0)"

lemma output_at_buffer:
  assumes law: "analysis_law rt an" and place: "verifyPlacementAndAlignment an v al = Inr ()" and al: "al = 64 \<or> al = 128"
    and decl: "declares_alignment v" and buf: "output_buffer rt v a" and rows: "hasRowMajorLayout (value_type v)" "rank (value_type v) = 2"
  shows "output_at (nat al) a (buffer_stride rt v 0) (buffer_size rt v 0) (buffer_size rt v 1)"
proof -
  have desc: "descriptor_ok rt v" using buf by (simp add: output_buffer_def matrix_buffer_def)
  have "nat al dvd ar_addr a"
    using buf al by (intro placed [OF law place decl]) (auto simp: output_buffer_def matrix_buffer_def)
  moreover have "rt_size rt v 1 \<le> rt_stride rt v 0"
  proof (cases "the (mt_strides (value_type v)) ! 0 = kDynamic \<or> st_shape (value_type v) ! 1 = kDynamic")
    case True
    with buf show ?thesis by (auto simp: output_buffer_def)
  next
    case False
    obtain strides where s: "mt_strides (value_type v) = Some strides" using rows(1) by (auto simp: hasRowMajorLayout_def split: option.splits)
    then have "strides \<noteq> []" using desc rows(2) by (auto simp: descriptor_ok_def)
    then have "hd strides = strides ! 0" by (rule hd_conv_nth)
    with rows(1) s False have "st_shape (value_type v) ! 1 \<le> the (mt_strides (value_type v)) ! 0"
      by (simp add: hasRowMajorLayout_def Let_def split: if_splits)
    moreover have "rt_size rt v 1 = st_shape (value_type v) ! 1" "rt_stride rt v 0 = the (mt_strides (value_type v)) ! 0"
      using desc False by (auto simp: descriptor_ok_def)
    ultimately show ?thesis by simp
  qed
  ultimately show ?thesis
    using buf by (auto simp: output_at_def output_buffer_def matrix_buffer_def descriptor_values intro: nat_mono)
qed

lemma unpack_covered:
  assumes op: "verify_hmx_op (HmxUnpack source dest d) = Inr ()" and pre: "op_preconditions an (HmxUnpack source dest d) = Inr ()"
    and law: "analysis_law rt an" and desc: "descriptor_ok rt source" "descriptor_ok rt dest"
    and tile: "RT = (if isHmxTileGrid (value_type source) then buffer_size rt source 0 else createI32 1)"
      "CT = (if isHmxTileGrid (value_type source) then buffer_size rt source 1 else createI32 1)"
  shows "unat (buffer_size rt dest 0) \<le> 32 * unat RT" and "unat (buffer_size rt dest 1) \<le> 32 * unat CT"
proof -
  have sizes: "0 \<le> rt_size rt dest 0" "0 \<le> rt_size rt dest 1" "0 \<le> rt_size rt source 0" "0 \<le> rt_size rt source 1"
    using desc by (auto simp: descriptor_ok_def)
  note vals = descriptor_values [OF desc(1)] descriptor_values [OF desc(2)]
  have "unat (buffer_size rt dest 0) \<le> 32 * unat RT \<and> unat (buffer_size rt dest 1) \<le> 32 * unat CT"
  proof (cases "isHmxTileGrid (value_type source)")
    case True
    have s: "verifyHmxF16Tile (value_type source) True = Inr ()" "verifyStaticGridCovers (value_type source) (value_type dest) False = Inr ()"
      using op True by (auto simp: verifyHmxUnpackContract_def bind_res_Inr Let_def split: if_splits)
    have p: "verifyDynamicGridCoverage an source dest False = Inr ()"
      using pre True by (auto simp: verifyUnpackRuntimePreconditions_def bind_res_Inr Let_def split: if_splits)
    note g = verified_grid [OF s(1) desc(1)]
    show ?thesis using grid_covers [OF law desc(2) s(2) p] sizes g tile by (simp add: vals nat_le_iff)
  next
    case False
    have s: "st_shape (value_type dest) ! i \<noteq> kDynamic \<Longrightarrow> st_shape (value_type dest) ! i \<le> 32" if "i < 2" for i
      using op False that by (cases i) (auto simp: verifyHmxUnpackContract_def bind_res_Inr Let_def hmx_constants split: if_splits)
    have p: "verifyDynamicDimensionFits an dest 0 32 = Inr ()" "verifyDynamicDimensionFits an dest 1 32 = Inr ()"
      using pre False by (auto simp: verifyUnpackRuntimePreconditions_def bind_res_Inr Let_def hmx_constants split: if_splits)
    have static: "rt_size rt dest i \<le> 32" if "i < 2" "st_shape (value_type dest) ! i \<noteq> kDynamic" for i
      using s [OF that] static_size [OF desc(2) that] by simp
    have "rt_size rt dest 0 \<le> 32" by (rule dimension_covered [OF law desc(2) _ static p(1)]) simp_all
    moreover have "rt_size rt dest 1 \<le> 32" by (rule dimension_covered [OF law desc(2) _ static p(2)]) simp_all
    ultimately show ?thesis using False tile sizes by (simp add: vals createI32_def nat_le_iff)
  qed
  then show "unat (buffer_size rt dest 0) \<le> 32 * unat RT" "unat (buffer_size rt dest 1) \<le> 32 * unat CT" by auto
qed


section \<open>A concrete instance\<close>

text \<open>Two allocations, a source of two rows and three columns and a grid of one tile, both at
  addresses that are multiples of their alignments.\<close>

definition matrix_type :: hmx_memref_type where
  "matrix_type = \<lparr>st_shape = [2, 3], st_elem = F16, mt_strides = Some [3, 1], mt_space = 1, mt_identity = True\<rparr>"

definition grid_type :: hmx_memref_type where
  "grid_type = \<lparr>st_shape = [1, 1, 16, 32, 2], st_elem = F16, mt_strides = Some [1024, 1024, 64, 2, 1], mt_space = 1, mt_identity = True\<rparr>"

definition matrix_value :: hmx_value where "matrix_value = Value matrix_type (HexagonMemAlloc 0 128)"
definition grid_value :: hmx_value where "grid_value = Value grid_type (HexagonMemAlloc 1 2048)"

text \<open>Every allocation is at the address 0; views add their offsets.\<close>

fun sample_addr :: "hmx_value \<Rightarrow> int" where
  "sample_addr (Value t (MemrefCast v)) = sample_addr v"
| "sample_addr (Value t (CollapseShape v)) = sample_addr v"
| "sample_addr (Value t (ExpandShape v)) = sample_addr v"
| "sample_addr (Value t (SubView v offsets)) = sample_addr v +
     byte_offset (\<lambda>_. 0) (getHmxElementSizeBytes (st_elem (value_type v))) (zip offsets (the (mt_strides (value_type v))))"
| "sample_addr _ = 0"

definition sample_runtime :: runtime where
  "sample_runtime = \<lparr>rt_addr = sample_addr, rt_size = (\<lambda>v d. if v = grid_value then [1, 1] ! d else [2, 3] ! d),
     rt_stride = (\<lambda>v d. if v = grid_value then [1024, 1024] ! d else [3, 1] ! d), rt_index = (\<lambda>_. 0)\<rparr>"

definition sample_analysis :: analysis where
  "sample_analysis = \<lparr>an_solver = (\<lambda>_. None), an_bound = (\<lambda>_ _. None)\<rparr>"

lemma sample_analysis_law: "analysis_law sample_runtime sample_analysis"
  by (simp add: analysis_law_def sample_runtime_def sample_analysis_def address_law_def solver_law_def)

lemma sample_checks:
  "verify_hmx_op (HmxPack matrix_value grid_value 0) = Inr ()" "op_preconditions sample_analysis (HmxPack matrix_value grid_value 0) = Inr ()"
  "verify_hmx_op (HmxUnpack grid_value matrix_value 0) = Inr ()" "op_preconditions sample_analysis (HmxUnpack grid_value matrix_value 0) = Inr ()"
  by code_simp+

lemma less_two: "(\<forall>d<2. P d) \<longleftrightarrow> P 0 \<and> P 1" for P :: "nat \<Rightarrow> bool"
  by (auto simp: numeral_eq_Suc less_Suc_eq)

definition matrix_arr :: "half arr" where "matrix_arr = \<lparr>ar_addr = 0, ar_elems = [1, 2, 3, 4, 5, 6]\<rparr>"
definition grid_arr :: "half arr" where "grid_arr = \<lparr>ar_addr = 0, ar_elems = replicate 1024 7\<rparr>"

lemma sample_buffers:
  "matrix_buffer sample_runtime matrix_value matrix_arr"
  "output_buffer sample_runtime matrix_value matrix_arr"
  "grid_buffer sample_runtime grid_value grid_arr"
  by (simp_all add: matrix_buffer_def output_buffer_def grid_buffer_def descriptor_ok_def sample_runtime_def matrix_value_def grid_value_def
      matrix_type_def grid_type_def less_two hmx_constants isHmxTileGrid_def matrix_arr_def grid_arr_def)

lemma sample_declared: "declares_alignment matrix_value" "declares_alignment grid_value"
  by (simp_all add: matrix_value_def grid_value_def)

lemma sample_sizes: "rt_size sample_runtime matrix_value 0 = 2" "rt_size sample_runtime matrix_value 1 = 3"
    "rt_size sample_runtime grid_value 1 = 1" "rt_stride sample_runtime matrix_value 0 = 3"
  by (simp_all add: sample_runtime_def matrix_value_def grid_value_def matrix_type_def grid_type_def)



end
