(* ===== verification/Dma_Engine.thy ===== *)
theory Dma_Engine
  imports Prelude
begin

text \<open>
  What a program that uses the DMA engine of the DSP does: a processor that issues transfers and waits
  for them, and an engine that works on the transfers in the order they were issued, one element at a
  time, at any time. \<open>memref.dma_start\<close> and \<open>memref.dma_wait\<close> have this meaning: a wait names a tag and a
  slot of it and returns once the transfer that was started with them is complete.

  When no computation conflicts with the transfers that may be pending, every run of the program ends
  as if each transfer were done at once.
\<close>

section \<open>Programs and runs\<close>

text \<open>Memory: DDR, and a VTCM buffer with its slot and the offset in it.\<close>

datatype loc = Ddr int | Vtcm nat nat int

type_synonym 'v mem = "loc \<Rightarrow> 'v"

record transfer =
  tr_tag :: nat
  tr_slot :: nat
  tr_moves :: "(loc \<times> loc) list"

datatype 'c instr = Start transfer | Wait nat nat | Exec 'c

definition move :: "loc \<times> loc \<Rightarrow> 'v mem \<Rightarrow> 'v mem" where
  "move p m = m(snd p := m (fst p))"

abbreviation labelled :: "nat \<Rightarrow> nat \<Rightarrow> transfer \<Rightarrow> bool" where
  "labelled tag slot tr \<equiv> tr_tag tr = tag \<and> tr_slot tr = slot"

inductive dma_step :: "('c \<Rightarrow> 'v mem \<times> 'r \<Rightarrow> 'v mem \<times> 'r) \<Rightarrow>
    'c instr list \<times> ('v mem \<times> 'r) \<times> transfer list \<Rightarrow> 'c instr list \<times> ('v mem \<times> 'r) \<times> transfer list \<Rightarrow> bool" for run where
  cpu_start: "dma_step run (Start tr # p, s, q) (p, s, q @ [tr])"
| cpu_wait: "list_all (\<lambda>tr. \<not> labelled tag slot tr) q \<Longrightarrow> dma_step run (Wait tag slot # p, s, q) (p, s, q)"
| cpu_exec: "dma_step run (Exec c # p, s, q) (p, run c s, q)"
| engine_move: "tr_moves tr = mv # ms \<Longrightarrow> dma_step run (p, (m, r), tr # q) (p, (move mv m, r), tr\<lparr>tr_moves := ms\<rparr> # q)"
| engine_done: "tr_moves tr = [] \<Longrightarrow> dma_step run (p, s, tr # q) (p, s, q)"

text \<open>The same program when every transfer is done as it is started.\<close>

fun sync_instr :: "('c \<Rightarrow> 'v mem \<times> 'r \<Rightarrow> 'v mem \<times> 'r) \<Rightarrow> 'c instr \<Rightarrow> 'v mem \<times> 'r \<Rightarrow> 'v mem \<times> 'r" where
  "sync_instr run (Start tr) s = apfst (fold move (tr_moves tr)) s"
| "sync_instr run (Wait tag slot) s = s"
| "sync_instr run (Exec c) s = run c s"

definition sync_run :: "('c \<Rightarrow> 'v mem \<times> 'r \<Rightarrow> 'v mem \<times> 'r) \<Rightarrow> 'c instr list \<Rightarrow> 'v mem \<times> 'r \<Rightarrow> 'v mem \<times> 'r" where
  "sync_run run p = fold (sync_instr run) p"

section \<open>Pending transfers\<close>

text \<open>After a wait everything up to the last transfer with the label is complete.\<close>

fun after_wait :: "nat \<Rightarrow> nat \<Rightarrow> transfer list \<Rightarrow> transfer list" where
  "after_wait tag slot [] = []"
| "after_wait tag slot (tr # q) = (if list_ex (labelled tag slot) (tr # q) then after_wait tag slot q else tr # q)"

fun pending :: "'c instr list \<Rightarrow> transfer list \<Rightarrow> transfer list" where
  "pending [] Q = Q"
| "pending (Start tr # p) Q = pending p (Q @ [tr])"
| "pending (Wait tag slot # p) Q = pending p (after_wait tag slot Q)"
| "pending (Exec c # p) Q = pending p Q"

lemma pending_append: "pending (p1 @ p2) Q = pending p2 (pending p1 Q)"
  by (induction p1 Q rule: pending.induct) simp_all

text \<open>A computation reads and writes some locations.\<close>

definition conflict_free :: "loc set \<Rightarrow> loc set \<Rightarrow> transfer list \<Rightarrow> bool" where
  "conflict_free R W Q \<longleftrightarrow> (\<forall>tr\<in>set Q. \<forall>(s, d)\<in>set (tr_moves tr). d \<notin> R \<and> d \<notin> W \<and> s \<notin> W)"

fun dma_safe :: "('c \<Rightarrow> loc set) \<Rightarrow> ('c \<Rightarrow> loc set) \<Rightarrow> 'c instr list \<Rightarrow> transfer list \<Rightarrow> bool" where
  "dma_safe R W [] Q \<longleftrightarrow> True"
| "dma_safe R W (Start tr # p) Q \<longleftrightarrow> dma_safe R W p (Q @ [tr])"
| "dma_safe R W (Wait tag slot # p) Q \<longleftrightarrow> dma_safe R W p (after_wait tag slot Q)"
| "dma_safe R W (Exec c # p) Q \<longleftrightarrow> conflict_free (R c) (W c) Q \<and> dma_safe R W p Q"

lemma dma_safe_append: "dma_safe R W (p1 @ p2) Q \<longleftrightarrow> dma_safe R W p1 Q \<and> dma_safe R W p2 (pending p1 Q)"
  by (induction p1 Q rule: pending.induct) auto

text \<open>The queue of the engine is an end of the transfers that may be pending, the first of it perhaps
  partly done.\<close>

definition lags :: "transfer list \<Rightarrow> transfer list \<Rightarrow> bool" where
  "lags q Q \<longleftrightarrow> (\<exists>Q1 Q2. Q = Q1 @ Q2 \<and> (q = Q2 \<or>
     (\<exists>tr Q3 ms. Q2 = tr # Q3 \<and> q = tr\<lparr>tr_moves := ms\<rparr> # Q3 \<and> set ms \<subseteq> set (tr_moves tr))))"

lemma lags_refl: "lags q q"
  unfolding lags_def by (rule exI [of _ "[]"]) auto

lemma lags_start: "lags q Q \<Longrightarrow> lags (q @ [tr]) (Q @ [tr])"
  unfolding lags_def by fastforce

lemma lags_move:
  assumes "lags (tr # q) Q" and "set ms \<subseteq> set (tr_moves tr)"
  shows "lags (tr\<lparr>tr_moves := ms\<rparr> # q) Q"
proof -
  obtain Q1 Q2 where Q: "Q = Q1 @ Q2" and c: "tr # q = Q2 \<or> (\<exists>t Q3 ns. Q2 = t # Q3 \<and> tr # q = t\<lparr>tr_moves := ns\<rparr> # Q3 \<and> set ns \<subseteq> set (tr_moves t))"
    using assms(1) unfolding lags_def by blast
  from c obtain t Q3 where t: "Q2 = t # Q3" "q = Q3" "tr\<lparr>tr_moves := ms\<rparr> = t\<lparr>tr_moves := ms\<rparr>" "set ms \<subseteq> set (tr_moves t)"
    using assms(2) by fastforce
  then show ?thesis unfolding lags_def using Q by blast
qed

lemma lags_done: "lags (tr # q) Q \<Longrightarrow> lags q Q"
proof -
  assume "lags (tr # q) Q"
  then obtain Q1 Q2 where Q: "Q = Q1 @ Q2" and c: "tr # q = Q2 \<or> (\<exists>t Q3 ns. Q2 = t # Q3 \<and> tr # q = t\<lparr>tr_moves := ns\<rparr> # Q3 \<and> set ns \<subseteq> set (tr_moves t))"
    unfolding lags_def by blast
  from c obtain t where "Q2 = t # q" by auto
  with Q have "Q = (Q1 @ [t]) @ q" by simp
  then show "lags q Q" unfolding lags_def by blast
qed

lemma after_wait_append:
  "list_all (\<lambda>tr. \<not> labelled tag slot tr) Q2 \<Longrightarrow> \<exists>Q3. after_wait tag slot (Q1 @ Q2) = Q3 @ Q2"
proof (induction Q1)
  case Nil
  then have "after_wait tag slot Q2 = Q2" by (cases Q2) (auto simp: list_all_iff list_ex_iff)
  then show ?case by auto
next
  case (Cons t Q1)
  then obtain Q3 where Q3: "after_wait tag slot (Q1 @ Q2) = Q3 @ Q2" by blast
  show ?case
  proof (cases "list_ex (labelled tag slot) (t # Q1 @ Q2)")
    case True
    then have "after_wait tag slot ((t # Q1) @ Q2) = after_wait tag slot (Q1 @ Q2)" by (simp only: append_Cons after_wait.simps if_True)
    with Q3 show ?thesis by auto
  next
    case False
    then have "after_wait tag slot ((t # Q1) @ Q2) = (t # Q1) @ Q2" by (simp only: append_Cons after_wait.simps if_False)
    then show ?thesis by blast
  qed
qed

lemma lags_wait:
  assumes "lags q Q" and "list_all (\<lambda>tr. \<not> labelled tag slot tr) q"
  shows "lags q (after_wait tag slot Q)"
proof -
  obtain Q1 Q2 where Q: "Q = Q1 @ Q2" and c: "q = Q2 \<or> (\<exists>t Q3 ns. Q2 = t # Q3 \<and> q = t\<lparr>tr_moves := ns\<rparr> # Q3 \<and> set ns \<subseteq> set (tr_moves t))"
    using assms(1) unfolding lags_def by blast
  have "list_all (\<lambda>tr. \<not> labelled tag slot tr) Q2" using c assms(2) by auto
  from after_wait_append [OF this, of Q1] obtain Q3 where "after_wait tag slot Q = Q3 @ Q2" using Q by blast
  with c show ?thesis unfolding lags_def by blast
qed

lemma conflict_free_lags: "lags q Q \<Longrightarrow> conflict_free R W Q \<Longrightarrow> conflict_free R W q"
  unfolding lags_def conflict_free_def by fastforce

section \<open>Every run ends as the synchronous one\<close>

definition drain :: "transfer list \<Rightarrow> 'v mem \<Rightarrow> 'v mem" where
  "drain q m = fold move (concat (map tr_moves q)) m"

text \<open>A client of the engine: its computations read and write what they declare.\<close>

locale dma_client =
  fixes run :: "'c \<Rightarrow> 'v mem \<times> 'r \<Rightarrow> 'v mem \<times> 'r" and R :: "'c \<Rightarrow> loc set" and W :: "'c \<Rightarrow> loc set"
  assumes writes: "l \<notin> W c \<Longrightarrow> fst (run c (m, r)) l = m l"
    and reads: "(\<And>l. l \<in> R c \<Longrightarrow> m l = m' l) \<Longrightarrow> snd (run c (m, r)) = snd (run c (m', r))"
    and reads_mem: "(\<And>l. l \<in> R c \<Longrightarrow> m l = m' l) \<Longrightarrow> l \<in> W c \<Longrightarrow> fst (run c (m, r)) l = fst (run c (m', r)) l"
begin

lemma exec_move:
  assumes "d \<notin> R c" and "d \<notin> W c" and "s \<notin> W c"
  shows "run c (move (s, d) m, r) = apfst (move (s, d)) (run c (m, r))"
proof (rule prod_eqI)
  have agree: "\<And>l. l \<in> R c \<Longrightarrow> move (s, d) m l = m l" using assms(1) by (auto simp: move_def)
  show "snd (run c (move (s, d) m, r)) = snd (apfst (move (s, d)) (run c (m, r)))"
    using reads [of c "move (s, d) m" m r] agree by simp
  show "fst (run c (move (s, d) m, r)) = fst (apfst (move (s, d)) (run c (m, r)))"
  proof
    fix l
    show "fst (run c (move (s, d) m, r)) l = fst (apfst (move (s, d)) (run c (m, r))) l"
    proof (cases "l \<in> W c")
      case True
      then have "fst (run c (move (s, d) m, r)) l = fst (run c (m, r)) l" using reads_mem [of c "move (s, d) m" m] agree by simp
      with True assms(2) show ?thesis by (auto simp: move_def)
    next
      case False
      then show ?thesis using writes [of l c] writes [of s c] assms(3) by (auto simp: move_def)
    qed
  qed
qed

lemma exec_moves:
  assumes "\<forall>(s, d)\<in>set ms. d \<notin> R c \<and> d \<notin> W c \<and> s \<notin> W c"
  shows "run c (fold move ms m, r) = apfst (fold move ms) (run c (m, r))"
  using assms
proof (induction ms arbitrary: m)
  case (Cons x ms)
  obtain s d where x: "x = (s, d)" by fastforce
  have "run c (fold move ms (move x m), r) = apfst (fold move ms) (run c (move x m, r))" using Cons by simp
  also have "run c (move x m, r) = apfst (move x) (run c (m, r))" using Cons.prems exec_move x by simp
  finally show ?case by (cases "run c (m, r)") simp
qed simp

lemma exec_drain: "conflict_free (R c) (W c) q \<Longrightarrow> run c (drain q m, r) = apfst (drain q) (run c (m, r))"
  unfolding drain_def by (rule exec_moves) (auto simp: conflict_free_def)

lemma step_sync:
  assumes "dma_step run (p, s, q) (p', s', q')" and "lags q Q" and "dma_safe R W p Q"
  shows "\<exists>Q'. lags q' Q' \<and> dma_safe R W p' Q' \<and> pending p' Q' = pending p Q \<and>
    sync_run run p' (apfst (drain q') s') = sync_run run p (apfst (drain q) s)"
  using assms(1)
proof cases
  case (cpu_start tr)
  have "apfst (drain (q @ [tr])) s = apfst (fold move (tr_moves tr)) (apfst (drain q) s)" by (cases s) (simp add: drain_def)
  with cpu_start assms(2,3) show ?thesis by (intro exI [of _ "Q @ [tr]"]) (auto simp: lags_start sync_run_def)
next
  case (cpu_wait tag slot)
  then show ?thesis using assms(2,3) lags_wait by (intro exI [of _ "after_wait tag slot Q"]) (auto simp: sync_run_def)
next
  case (cpu_exec c)
  have "conflict_free (R c) (W c) q" using assms(2,3) cpu_exec conflict_free_lags by auto
  from exec_drain [OF this] have "run c (apfst (drain q) s) = apfst (drain q) (run c s)" by (cases s) simp
  with cpu_exec assms(2,3) show ?thesis by (intro exI [of _ Q]) (auto simp: sync_run_def)
next
  case (engine_move tr mv ms m r q0)
  have "lags (tr\<lparr>tr_moves := ms\<rparr> # q0) Q" using assms(2) engine_move by (intro lags_move) auto
  with engine_move assms(3) show ?thesis by (intro exI [of _ Q]) (auto simp: drain_def)
next
  case (engine_done tr)
  have "drain q m = drain q' m" for m :: "'v mem" using engine_done by (simp add: drain_def)
  then have "apfst (drain q') s = apfst (drain q) s" by (cases s) simp
  moreover have "lags q' Q" using assms(2) engine_done lags_done by blast
  ultimately show ?thesis using engine_done assms(3) by (intro exI [of _ Q]) (simp only: simp_thms)
qed

lemma steps_sync:
  assumes "(dma_step run)\<^sup>*\<^sup>* (p, s, q) (p', s', q')" and "lags q Q" and "dma_safe R W p Q"
  shows "\<exists>Q'. lags q' Q' \<and> dma_safe R W p' Q' \<and> pending p' Q' = pending p Q \<and>
    sync_run run p' (apfst (drain q') s') = sync_run run p (apfst (drain q) s)"
  using assms
proof (induction "(p, s, q)" arbitrary: p s q Q rule: converse_rtranclp_induct)
  case base
  then show ?case by blast
next
  case (step z)
  obtain p1 s1 q1 where z: "z = (p1, s1, q1)" by (cases z)
  from step_sync [OF step.hyps(1) [unfolded z] step.prems] obtain Q1 where Q1: "lags q1 Q1" "dma_safe R W p1 Q1"
    "pending p1 Q1 = pending p Q" "sync_run run p1 (apfst (drain q1) s1) = sync_run run p (apfst (drain q) s)" by blast
  from step.hyps(3) [OF z Q1(1,2)] Q1(3,4) show ?case by auto
qed

text \<open>A safe program that waits for everything ends as its synchronous run, with nothing pending.\<close>

lemma run_sync:
  assumes "(dma_step run)\<^sup>*\<^sup>* (p, s, []) ([], s', q')" and "dma_safe R W p []" and "pending p [] = []"
  shows "q' = [] \<and> s' = sync_run run p s"
proof -
  obtain Q' where Q': "lags q' Q'" "Q' = pending p []" "sync_run run [] (apfst (drain q') s') = sync_run run p (apfst (drain []) s)"
    using steps_sync [OF assms(1) lags_refl assms(2)] unfolding pending.simps by blast
  have "Q' = []" using Q' assms(3) by simp
  with Q' have "q' = []" by (auto simp: lags_def)
  with Q' show ?thesis by (cases s; cases s') (simp add: sync_run_def drain_def)
qed

end

section \<open>Runs end\<close>

text \<open>A state that is not final has a step, and no run is infinite.\<close>

lemma dma_progress: "p \<noteq> [] \<or> q \<noteq> [] \<Longrightarrow> \<exists>z. dma_step run (p, s, q) z"
proof -
  assume nf: "p \<noteq> [] \<or> q \<noteq> []"
  have engine: "\<exists>z. dma_step run (p, s, q) z" if nq: "q \<noteq> []"
  proof -
    obtain tr q0 where q: "q = tr # q0" using nq by (cases q) auto
    obtain m r where s: "s = (m, r)" by fastforce
    show ?thesis unfolding q s by (cases "tr_moves tr") (blast intro: engine_move engine_done)+
  qed
  show ?thesis
  proof (cases "q = []")
    case True
    with nf obtain i p0 where p: "p = i # p0" by (cases p) auto
    show ?thesis unfolding p True
    proof (cases i)
      case (Wait tag slot)
      have "dma_step run (Wait tag slot # p0, s, []) (p0, s, [])" by (rule cpu_wait) simp
      with Wait show "\<exists>z. dma_step run (i # p0, s, []) z" by blast
    qed (blast intro: cpu_start cpu_exec)+
  qed (rule engine)
qed

fun instr_work :: "'c instr \<Rightarrow> nat" where
  "instr_work (Start tr) = length (tr_moves tr) + 2"
| "instr_work (Wait tag slot) = 1"
| "instr_work (Exec c) = 1"

definition dma_work :: "'c instr list \<times> ('v mem \<times> 'r) \<times> transfer list \<Rightarrow> nat" where
  "dma_work z = sum_list (map instr_work (fst z)) + sum_list (map (\<lambda>tr. length (tr_moves tr) + 1) (snd (snd z)))"

lemma dma_step_work: "dma_step run y z \<Longrightarrow> dma_work z < dma_work y"
  by (induction rule: dma_step.induct) (auto simp: dma_work_def)

lemma dma_terminates: "wfP (\<lambda>z y. dma_step run y z)"
proof -
  have "wf (measure dma_work)" by simp
  then show ?thesis unfolding wfp_def by (rule wf_subset) (auto dest: dma_step_work)
qed

lemma dma_finishes: "\<exists>s'. (dma_step run)\<^sup>*\<^sup>* (p, s, q) ([], s', [])"
proof (induction "dma_work (p, s, q)" arbitrary: p s q rule: less_induct)
  case less
  show ?case
  proof (cases "p = [] \<and> q = []")
    case True
    then show ?thesis by (intro exI [of _ s]) simp
  next
    case False
    then obtain p1 s1 q1 where st: "dma_step run (p, s, q) (p1, s1, q1)" using dma_progress [of p q] by (metis prod_cases3)
    from less [OF dma_step_work [OF st]] obtain s' where "(dma_step run)\<^sup>*\<^sup>* (p1, s1, q1) ([], s', [])" by blast
    with st show ?thesis by (meson converse_rtranclp_into_rtranclp)
  qed
qed

end
