(* ===== verification/Vtcm_Transfers.thy ===== *)
theory Vtcm_Transfers
  imports Dma_Engine
begin

text \<open>
  Pipelining of the transfers between DDR and VTCM in a tile loop:
  \<open>CodeGen/Transforms/HexagonPipelineVTCMTransfers.cpp\<close>. The analysis decides which copies of a loop
  become asynchronous transfers of the DMA engine; the transformation gives every staged buffer a second
  slot and rotates the loop. The program it builds runs on the engine of \<open>Dma_Engine\<close>.

  A loop is described by what the pass reads of the IR: the operations of its body with the copies among
  them and in their regions, the users of its buffers, the types. The rest of an operation is the
  parameter \<open>run\<close> of the meaning. Byte counts are far from the bounds of 64-bit integers and are
  integers here.
\<close>

section \<open>Types and shapes of transfers\<close>

definition kMax1DTransferBytes :: int where "kMax1DTransferBytes = 16777215"
definition kMax2DFieldValue :: int where "kMax2DFieldValue = 65535"
definition kNumBuffers :: int where "kNumBuffers = 2"

datatype tile_elem = IntOrFloat nat | OtherElement

text \<open>The type of a value that is copied: \<open>None\<close> stands for a dynamic size or stride, for strides that are
  not known as the layout is not strided, and for a memory space that is not an integer.\<close>

record tile_type =
  ty_shape :: "int option list"
  ty_strides :: "int option list option"
  ty_elem :: tile_elem
  ty_space :: "int option"

definition DEFAULT_DDR_ADDRESS_SPACE :: int where "DEFAULT_DDR_ADDRESS_SPACE = 0"
definition VTCM_ADDRESS_SPACE :: int where "VTCM_ADDRESS_SPACE = 1"

definition isInMemorySpace :: "tile_type \<Rightarrow> int \<Rightarrow> bool" where
  "isInMemorySpace t memorySpace \<longleftrightarrow> ty_space t = Some memorySpace"

definition has_static_shape :: "tile_type \<Rightarrow> bool" where
  "has_static_shape t \<longleftrightarrow> list_all (\<lambda>d. d \<noteq> None) (ty_shape t)"

definition num_elements :: "tile_type \<Rightarrow> int" where
  "num_elements t = prod_list (map the (ty_shape t))"

text \<open>One asynchronous transfer: contiguous, or rows that are dense in VTCM.\<close>

record dma_shape =
  maxElements :: int
  ds_stride :: "int option"
  ds_width :: int

definition getRowStride :: "tile_type \<Rightarrow> int option" where
  "getRowStride t =
     (case ty_strides t of
        None \<Rightarrow> None
      | Some strides \<Rightarrow>
          if last strides \<noteq> Some 1 then None
          else (let width = last (ty_shape t)
                in if length (ty_shape t) = 1 \<or> hd (ty_shape t) = Some 1 then width
                   else hd strides))"

definition getDMAShape :: "tile_type \<Rightarrow> tile_type \<Rightarrow> tile_type \<Rightarrow> dma_shape option" where
  "getDMAShape ddrType vtcmType bufferType =
     (if \<not> list_all (\<lambda>t. 1 \<le> length (ty_shape t) \<and> length (ty_shape t) \<le> 2 \<and> last (ty_shape t) \<noteq> None)
           [ddrType, vtcmType] then None
      else if \<not> has_static_shape bufferType then None
      else case ty_elem ddrType of
        OtherElement \<Rightarrow> None
      | IntOrFloat bits \<Rightarrow>
          if ty_elem ddrType \<noteq> ty_elem vtcmType \<or> bits mod 8 \<noteq> 0 then None
          else let elementBytes = int (bits div 8);
                   maxElems = (if has_static_shape vtcmType then num_elements vtcmType else num_elements bufferType);
                   width = the (last (ty_shape vtcmType))
               in if maxElems = 0 \<or> last (ty_shape ddrType) \<noteq> Some width then None
                  else if getRowStride vtcmType \<noteq> Some width then None
                  else case getRowStride ddrType of
                    None \<Rightarrow> None
                  | Some stride \<Rightarrow>
                      if stride < width then None
                      else if stride = width then
                        (if maxElems * elementBytes > kMax1DTransferBytes then None
                         else Some \<lparr>maxElements = maxElems, ds_stride = None, ds_width = 0\<rparr>)
                      else if width * elementBytes > kMax2DFieldValue \<or> maxElems div width > kMax2DFieldValue \<or>
                              stride * elementBytes > kMax2DFieldValue then None
                      else Some \<lparr>maxElements = maxElems, ds_stride = Some stride, ds_width = width\<rparr>)"

section \<open>The loop\<close>

text \<open>A value is an allocation, a view of another value by a subview, or anything else.\<close>

datatype view_source = AllocResult nat | SubViewOf view_source | OtherValue

fun getStagingBuffer :: "view_source \<Rightarrow> nat option" where
  "getStagingBuffer (SubViewOf v) = getStagingBuffer v"
| "getStagingBuffer (AllocResult b) = Some b"
| "getStagingBuffer OtherValue = None"

text \<open>What a value is when the loop runs: a matrix of elements of its base.\<close>

record view =
  v_offset :: int
  v_rows :: nat
  v_cols :: nat
  v_row_stride :: int
  v_col_stride :: int

text \<open>The operations of the loop body that compute a value, and whether they can be cloned.\<close>

record slice_op =
  so_regions :: nat
  so_effect_free :: bool

record copy_operand =
  val_type :: tile_type
  val_source :: view_source
  val_slice :: "slice_op list"
  val_view :: "int \<Rightarrow> view"

definition isRecomputable :: "copy_operand \<Rightarrow> bool" where
  "isRecomputable v \<longleftrightarrow> list_all (\<lambda>op. so_regions op = 0 \<and> so_effect_free op) (val_slice v)"

record copy_op =
  cp_id :: nat
  cp_source :: copy_operand
  cp_target :: copy_operand

definition isLoad :: "copy_op \<Rightarrow> bool" where
  "isLoad copy \<longleftrightarrow> isInMemorySpace (val_type (cp_source copy)) DEFAULT_DDR_ADDRESS_SPACE \<and>
     isInMemorySpace (val_type (cp_target copy)) VTCM_ADDRESS_SPACE"

definition isStore :: "copy_op \<Rightarrow> bool" where
  "isStore copy \<longleftrightarrow> isInMemorySpace (val_type (cp_source copy)) VTCM_ADDRESS_SPACE \<and>
     isInMemorySpace (val_type (cp_target copy)) DEFAULT_DDR_ADDRESS_SPACE"

text \<open>The operations of the body, each with its copy, when it is one, and the copies in its regions.\<close>

record body_op =
  bo_id :: nat
  bo_copy :: "copy_op option"
  bo_nested :: "copy_op list"

datatype user_kind = SubViewUser | DeallocUser | OtherUser

text \<open>Where a user is: in front of the loop or behind it, or in the operation of the body with a position,
  or the loop itself.\<close>

datatype place = OutsideLoop | TheLoop | InBody nat

text \<open>A user of a value, with the users of its results when it is view-like.\<close>

datatype user = User user_kind place "user list"

fun collectUsersThroughViews :: "user list \<Rightarrow> (user_kind \<times> place) list" where
  "collectUsersThroughViews [] = []"
| "collectUsersThroughViews (User k p us # rest) =
     (k, p) # collectUsersThroughViews us @ collectUsersThroughViews rest"

datatype parent_kind = ThreadForall | AsyncExecute | OtherParent

record tile_loop =
  tl_id :: nat
  tl_lb :: "int option"
  tl_ub :: "int option"
  tl_step :: "int option"
  tl_init_args :: nat
  tl_parents :: "(nat \<times> parent_kind) list"
  tl_body :: "body_op list"
  tl_users :: "nat \<Rightarrow> user list"
  tl_buffer_type :: "nat \<Rightarrow> tile_type"
  tl_buffer_inside :: "nat \<Rightarrow> bool"

section \<open>Analysis\<close>

text \<open>A user that the loop contains; the deallocation behind the loop and subviews do not count.\<close>

definition ignored_user :: "user_kind \<times> place \<Rightarrow> bool" where
  "ignored_user u \<longleftrightarrow> fst u = SubViewUser \<or> (fst u = DeallocUser \<and> snd u = OutsideLoop)"

fun user_staged :: "nat option \<Rightarrow> nat option \<Rightarrow> place \<Rightarrow> bool" where
  "user_staged load store (InBody k) \<longleftrightarrow>
     (case load of None \<Rightarrow> True | Some l \<Rightarrow> \<not> k < l) \<and> (case store of None \<Rightarrow> True | Some s \<Rightarrow> \<not> s < k)"
| "user_staged load store p \<longleftrightarrow> False"

definition isStagedPerIteration :: "tile_loop \<Rightarrow> nat \<Rightarrow> nat option \<Rightarrow> nat option \<Rightarrow> bool" where
  "isStagedPerIteration loop buffer load store \<longleftrightarrow>
     list_all (\<lambda>u. ignored_user u \<or> user_staged load store (snd u)) (collectUsersThroughViews (tl_users loop buffer))"

text \<open>A transfer, with the position of its copy in the body.\<close>

record vtcm_transfer =
  vt_position :: nat
  vt_copy :: copy_op
  vt_buffer :: nat
  vt_shape :: dma_shape

abbreviation vtcm_value :: "copy_op \<Rightarrow> copy_operand" where
  "vtcm_value copy \<equiv> if isLoad copy then cp_target copy else cp_source copy"

abbreviation ddr_value :: "copy_op \<Rightarrow> copy_operand" where
  "ddr_value copy \<equiv> if isLoad copy then cp_source copy else cp_target copy"

definition analyze_copy :: "tile_loop \<Rightarrow> nat \<Rightarrow> copy_op \<Rightarrow> vtcm_transfer option" where
  "analyze_copy loop k copy =
     (case getStagingBuffer (val_source (vtcm_value copy)) of
        None \<Rightarrow> None
      | Some buffer \<Rightarrow>
          if tl_buffer_inside loop buffer then None
          else case getDMAShape (val_type (ddr_value copy)) (val_type (vtcm_value copy)) (tl_buffer_type loop buffer) of
            None \<Rightarrow> None
          | Some shape \<Rightarrow>
              if \<not> isRecomputable (ddr_value copy) \<or> (isLoad copy \<and> \<not> isRecomputable (vtcm_value copy)) then None
              else Some \<lparr>vt_position = k, vt_copy = copy, vt_buffer = buffer, vt_shape = shape\<rparr>)"

type_synonym transfers = "vtcm_transfer list \<times> vtcm_transfer list"

text \<open>\<open>loadOf\<close> and \<open>storeOf\<close>: the position of the load and of the store of a buffer.\<close>

definition transfer_of :: "vtcm_transfer list \<Rightarrow> nat \<Rightarrow> nat option" where
  "transfer_of ts buffer = map_option vt_position (find (\<lambda>t. vt_buffer t = buffer) ts)"

fun collect_copies :: "tile_loop \<Rightarrow> nat \<Rightarrow> body_op list \<Rightarrow> transfers \<Rightarrow> transfers option" where
  "collect_copies loop k [] ts = Some ts"
| "collect_copies loop k (op # ops) (loads, stores) =
     (case bo_copy op of
        None \<Rightarrow> collect_copies loop (k + 1) ops (loads, stores)
      | Some copy \<Rightarrow>
          if \<not> isLoad copy \<and> \<not> isStore copy then collect_copies loop (k + 1) ops (loads, stores)
          else case analyze_copy loop k copy of
            None \<Rightarrow> None
          | Some transfer \<Rightarrow>
              if isLoad copy then
                (if transfer_of loads (vt_buffer transfer) \<noteq> None then None
                 else collect_copies loop (k + 1) ops (loads @ [transfer], stores))
              else
                (if transfer_of stores (vt_buffer transfer) \<noteq> None then None
                 else collect_copies loop (k + 1) ops (loads, stores @ [transfer])))"

text \<open>Whether a copy anywhere in the loop, the operation itself or one in its regions, is one of the
  transfers or no transfer at all.\<close>

definition copy_accounted :: "transfers \<Rightarrow> copy_op \<Rightarrow> bool" where
  "copy_accounted ts copy \<longleftrightarrow>
     (\<not> isLoad copy \<and> \<not> isStore copy) \<or>
     (case getStagingBuffer (val_source (vtcm_value copy)) of
        None \<Rightarrow> False
      | Some buffer \<Rightarrow>
          (case find (\<lambda>t. vt_buffer t = buffer) (if isLoad copy then fst ts else snd ts) of
             None \<Rightarrow> False
           | Some t \<Rightarrow> cp_id (vt_copy t) = cp_id copy))"

definition op_copies :: "body_op \<Rightarrow> copy_op list" where
  "op_copies op = (case bo_copy op of None \<Rightarrow> [] | Some copy \<Rightarrow> [copy]) @ bo_nested op"

definition staged_buffers :: "transfers \<Rightarrow> nat list" where
  "staged_buffers ts = remdups (map vt_buffer (fst ts @ snd ts))"

definition analyzeTileLoop :: "tile_loop \<Rightarrow> transfers option" where
  "analyzeTileLoop loop =
     (case collect_copies loop 0 (tl_body loop) ([], []) of
        None \<Rightarrow> None
      | Some ts \<Rightarrow>
          if \<not> list_all (\<lambda>b. isStagedPerIteration loop b (transfer_of (fst ts) b) (transfer_of (snd ts) b)) (staged_buffers ts)
          then None
          else if \<not> list_all (\<lambda>op. list_all (copy_accounted ts) (op_copies op)) (tl_body loop) then None
          else Some ts)"

section \<open>Transformation\<close>

text \<open>The second slot of the staged buffers: \<open>memref::multiBuffer\<close> and the pass select the same slot.\<close>

definition createSlot :: "int \<Rightarrow> int \<Rightarrow> int \<Rightarrow> nat" where
  "createSlot iv lb step = nat (((iv - lb) div step) mod kNumBuffers)"

definition dim_size :: "tile_type \<Rightarrow> view \<Rightarrow> int" where
  "dim_size t v = int (if length (ty_shape t) = 1 then v_cols v else v_rows v)"

definition createNumElements :: "tile_type \<Rightarrow> view \<Rightarrow> dma_shape \<Rightarrow> int" where
  "createNumElements t v shape =
     (if has_static_shape t then maxElements shape
      else let rows = dim_size t v
           in if length (ty_shape t) = 1 then rows else rows * the (last (ty_shape t)))"

text \<open>What \<open>memref.dma_start\<close> moves: element \<open>e\<close> of the transfer, dense in VTCM.\<close>

definition dma_ddr_index :: "dma_shape \<Rightarrow> int \<Rightarrow> nat \<Rightarrow> int" where
  "dma_ddr_index shape start e =
     (case ds_stride shape of
        None \<Rightarrow> start + int e
      | Some stride \<Rightarrow> start + int e div ds_width shape * stride + int e mod ds_width shape)"

definition direct :: "bool \<Rightarrow> loc \<times> loc \<Rightarrow> loc \<times> loc" where
  "direct load p = (if load then p else (snd p, fst p))"

definition dma_moves :: "bool \<Rightarrow> dma_shape \<Rightarrow> int \<Rightarrow> nat \<Rightarrow> nat \<Rightarrow> int \<Rightarrow> int \<Rightarrow> (loc \<times> loc) list" where
  "dma_moves load shape ddr_start buffer slot vtcm_start numElements =
     map (\<lambda>e. direct load (Ddr (dma_ddr_index shape ddr_start e), Vtcm buffer slot (vtcm_start + int e))) [0..<nat numElements]"

text \<open>The transfer of a copy at an iteration, into or out of the slot of the iteration.\<close>

definition createDMAStart :: "nat \<Rightarrow> nat \<Rightarrow> vtcm_transfer \<Rightarrow> int \<Rightarrow> transfer" where
  "createDMAStart tag slot t iv =
     (let copy = vt_copy t;
          vv = val_view (vtcm_value copy) iv;
          numElements = createNumElements (val_type (vtcm_value copy)) vv (vt_shape t)
      in \<lparr>tr_tag = tag, tr_slot = slot,
          tr_moves = dma_moves (isLoad copy) (vt_shape t) (v_offset (val_view (ddr_value copy) iv)) (vt_buffer t) slot
                       (v_offset vv) numElements\<rparr>)"

text \<open>A computation of the loop is named by its position and the iteration. Tags number the transfers.\<close>

type_synonym tile_program = "(nat \<times> int) instr list"
type_synonym tagged = "(nat \<times> vtcm_transfer) list"

definition issueLoads :: "int \<Rightarrow> int \<Rightarrow> tagged \<Rightarrow> int \<Rightarrow> tile_program" where
  "issueLoads lb step loads loadIv =
     map (\<lambda>(tag, t). Start (createDMAStart tag (createSlot loadIv lb step) t loadIv)) loads"

definition createDMAWaits :: "int \<Rightarrow> int \<Rightarrow> tagged \<Rightarrow> int \<Rightarrow> tile_program" where
  "createDMAWaits lb step ts iv = map (\<lambda>(tag, t). Wait tag (createSlot iv lb step)) ts"

text \<open>The body: the copies of loads are gone, stores are issued where the copy was.\<close>

definition position_in :: "nat \<Rightarrow> tagged \<Rightarrow> (nat \<times> vtcm_transfer) option" where
  "position_in k ts = find (\<lambda>(tag, t). vt_position t = k) ts"

definition body_op_program :: "int \<Rightarrow> int \<Rightarrow> tagged \<Rightarrow> tagged \<Rightarrow> int \<Rightarrow> nat \<Rightarrow> tile_program" where
  "body_op_program lb step loads stores iv k =
     (if position_in k loads \<noteq> None then []
      else case position_in k stores of
        Some (tag, t) \<Rightarrow> [Start (createDMAStart tag (createSlot iv lb step) t iv)]
      | None \<Rightarrow> [Exec (k, iv)])"

definition tile_body :: "int \<Rightarrow> int \<Rightarrow> tagged \<Rightarrow> tagged \<Rightarrow> nat \<Rightarrow> int \<Rightarrow> tile_program" where
  "tile_body lb step loads stores n iv = concat (map (body_op_program lb step loads stores iv) [0..<n])"

text \<open>\<open>llvm::divideCeil\<close> divides unsigned integers of 64 bits.\<close>

definition divideCeil :: "int \<Rightarrow> int \<Rightarrow> int" where
  "divideCeil x y = (let n = x mod 2 ^ 64; bias = (if n \<noteq> 0 then 1 else 0) in (n - bias) div y + bias)"

text \<open>The rotated loop: what runs in front of it, in each iteration and behind it.\<close>

record pipelined_loop =
  pl_prologue :: tile_program
  pl_iteration :: "int \<Rightarrow> tile_program"
  pl_epilogue :: tile_program

definition pipelineTileLoop :: "nat \<Rightarrow> transfers \<Rightarrow> int \<Rightarrow> int \<Rightarrow> int \<Rightarrow> pipelined_loop" where
  "pipelineTileLoop n ts lb ub step =
     (let loads = enumerate 0 (fst ts);
          stores = enumerate (length (fst ts)) (snd ts);
          lastIv = lb + (divideCeil (ub - lb) step - 1) * step
      in \<lparr>pl_prologue = issueLoads lb step loads lb,
          pl_iteration = (\<lambda>iv.
            (if iv + step < ub then issueLoads lb step loads (iv + step) else []) @
            createDMAWaits lb step loads iv @
            tile_body lb step loads stores n iv @
            (if iv > lb then createDMAWaits lb step stores (iv - step) else [])),
          pl_epilogue = createDMAWaits lb step stores lastIv\<rparr>)"

section \<open>The pass\<close>

definition runsOnDispatchThread :: "tile_loop \<Rightarrow> bool" where
  "runsOnDispatchThread loop \<longleftrightarrow> list_all (\<lambda>(i, p). \<not> (p = ThreadForall \<or> p = AsyncExecute)) (tl_parents loop)"

text \<open>The marked loops that contain a marked loop.\<close>

definition outerLoops :: "tile_loop list \<Rightarrow> nat list" where
  "outerLoops loops = filter (\<lambda>i. i \<in> set (map tl_id loops)) (concat (map (\<lambda>l. map fst (tl_parents l)) loops))"

datatype loop_outcome = Unchanged | PassFailure | Pipelined pipelined_loop

text \<open>One marked loop; \<open>multiBuffer\<close> tells whether a buffer can get a second slot.\<close>

definition process_loop :: "(nat \<Rightarrow> bool) \<Rightarrow> bool \<Rightarrow> tile_loop list \<Rightarrow> tile_loop \<Rightarrow> loop_outcome" where
  "process_loop multiBuffer pipelineOuterTileLoops loops loop =
     (if \<not> pipelineOuterTileLoops \<and> tl_id loop \<in> set (outerLoops loops) then Unchanged
      else case (tl_lb loop, tl_ub loop, tl_step loop) of
        (Some lb, Some ub, Some step) \<Rightarrow>
          if step \<le> 0 \<or> tl_init_args loop \<noteq> 0 \<or> \<not> runsOnDispatchThread loop then Unchanged
          else if divideCeil (ub - lb) step < 2 then Unchanged
          else (case analyzeTileLoop loop of
              None \<Rightarrow> Unchanged
            | Some ts \<Rightarrow>
                if fst ts = [] \<and> snd ts = [] then Unchanged
                else if \<not> list_all multiBuffer (staged_buffers ts) then PassFailure
                else Pipelined (pipelineTileLoop (length (tl_body loop)) ts lb ub step))
      | _ \<Rightarrow> Unchanged)"

section \<open>Meaning\<close>

text \<open>The iterations of \<open>scf.for\<close>.\<close>

function loop_ivs :: "int \<Rightarrow> int \<Rightarrow> int \<Rightarrow> int list" where
  "loop_ivs iv ub step = (if 0 < step \<and> iv < ub then iv # loop_ivs (iv + step) ub step else [])"
  by pat_completeness auto
termination by (relation "measure (\<lambda>(iv, ub, step). nat (ub - iv))") auto

declare loop_ivs.simps [simp del]

definition pipelined_program :: "pipelined_loop \<Rightarrow> int \<Rightarrow> int \<Rightarrow> int \<Rightarrow> tile_program" where
  "pipelined_program p lb ub step = pl_prologue p @ concat (map (pl_iteration p) (loop_ivs lb ub step)) @ pl_epilogue p"

text \<open>\<open>memref.copy\<close> copies element by element.\<close>

definition view_index :: "view \<Rightarrow> int list" where
  "view_index v = concat (map (\<lambda>r. map (\<lambda>c. v_offset v + int r * v_row_stride v + int c * v_col_stride v) [0..<v_cols v]) [0..<v_rows v])"

definition copy_moves :: "bool \<Rightarrow> view \<Rightarrow> nat \<Rightarrow> nat \<Rightarrow> view \<Rightarrow> (loc \<times> loc) list" where
  "copy_moves load ddr buffer slot vtcm = map (direct load) (zip (map Ddr (view_index ddr)) (map (Vtcm buffer slot) (view_index vtcm)))"

definition copy_transfer :: "nat \<Rightarrow> vtcm_transfer \<Rightarrow> int \<Rightarrow> transfer" where
  "copy_transfer slot t iv =
     (let copy = vt_copy t
      in \<lparr>tr_tag = 0, tr_slot = slot,
          tr_moves = copy_moves (isLoad copy) (val_view (ddr_value copy) iv) (vt_buffer t) slot (val_view (vtcm_value copy) iv)\<rparr>)"

text \<open>The loop as it was: its copies are done in place, every buffer has one slot.\<close>

definition op_transfer :: "tile_loop \<Rightarrow> nat \<Rightarrow> vtcm_transfer option" where
  "op_transfer loop k =
     (case bo_copy (tl_body loop ! k) of
        None \<Rightarrow> None
      | Some copy \<Rightarrow> if isLoad copy \<or> isStore copy then analyze_copy loop k copy else None)"

definition original_op :: "nat \<Rightarrow> tile_loop \<Rightarrow> int \<Rightarrow> nat \<Rightarrow> (nat \<times> int) instr" where
  "original_op slot loop iv k =
     (case op_transfer loop k of None \<Rightarrow> Exec (k, iv) | Some t \<Rightarrow> Start (copy_transfer slot t iv))"

definition original_iteration :: "nat \<Rightarrow> tile_loop \<Rightarrow> int \<Rightarrow> tile_program" where
  "original_iteration slot loop iv = map (original_op slot loop iv) [0..<length (tl_body loop)]"

definition original_program :: "tile_loop \<Rightarrow> int \<Rightarrow> int \<Rightarrow> int \<Rightarrow> tile_program" where
  "original_program loop lb ub step = concat (map (original_iteration 0 loop) (loop_ivs lb ub step))"

text \<open>The other operations: the elements of the buffers they read and write, and what they compute of the
  values they read and of all other memory.\<close>

record ('v, 'r) tile_compute =
  tc_reads :: "nat \<Rightarrow> int \<Rightarrow> (nat \<times> int) list"
  tc_writes :: "nat \<Rightarrow> int \<Rightarrow> (nat \<times> int) list"
  tc_fun :: "nat \<Rightarrow> int \<Rightarrow> 'v list \<Rightarrow> 'r \<Rightarrow> (nat \<Rightarrow> 'v) \<times> 'r"

definition slot_loc :: "nat \<Rightarrow> nat \<times> int \<Rightarrow> loc" where
  "slot_loc slot p = Vtcm (fst p) slot (snd p)"

definition exec_tile :: "('v, 'r) tile_compute \<Rightarrow> (int \<Rightarrow> nat) \<Rightarrow> nat \<times> int \<Rightarrow> 'v mem \<times> 'r \<Rightarrow> 'v mem \<times> 'r" where
  "exec_tile tc slot_of c s =
     (let (k, iv) = c; slot = slot_of iv;
          (w, r) = tc_fun tc k iv (map (\<lambda>p. fst s (slot_loc slot p)) (tc_reads tc k iv)) (snd s);
          written = map_of (zip (map (slot_loc slot) (tc_writes tc k iv)) [0..<length (tc_writes tc k iv)])
      in (\<lambda>l. case written l of None \<Rightarrow> fst s l | Some i \<Rightarrow> w i, r))"

end
