(* ===== verification/Vtcm_Analysis.thy ===== *)
theory Vtcm_Analysis
  imports Vtcm_Transfers
begin

text \<open>
  Facts about the analysis of tile loops: an accepted copy is exactly one transfer of the engine, and what
  the analysis collects are the copies of the body in order, each buffer used between its load and its
  store.
\<close>

section \<open>A transfer moves what the copy copied\<close>

text \<open>A view of a type: its static sizes and strides are those of the type.\<close>

definition dim_matches :: "int option \<Rightarrow> int \<Rightarrow> bool" where
  "dim_matches d n \<longleftrightarrow> (case d of None \<Rightarrow> True | Some x \<Rightarrow> x = n)"

definition view_of_type :: "tile_type \<Rightarrow> view \<Rightarrow> bool" where
  "view_of_type t v \<longleftrightarrow>
     (if length (ty_shape t) = 1 then v_rows v = 1 \<and> dim_matches (hd (ty_shape t)) (int (v_cols v))
      else length (ty_shape t) = 2 \<and> dim_matches (hd (ty_shape t)) (int (v_rows v)) \<and> dim_matches (last (ty_shape t)) (int (v_cols v))) \<and>
     (case ty_strides t of
        None \<Rightarrow> True
      | Some strides \<Rightarrow> length strides = length (ty_shape t) \<and> dim_matches (last strides) (v_col_stride v) \<and>
          (length strides = 2 \<longrightarrow> dim_matches (hd strides) (v_row_stride v)))"

text \<open>The operands of a copy have the same sizes, and a view of a buffer fits into it.\<close>

definition copy_views_ok :: "tile_type \<Rightarrow> view \<Rightarrow> tile_type \<Rightarrow> view \<Rightarrow> tile_type \<Rightarrow> bool" where
  "copy_views_ok dt dv vt vv bt \<longleftrightarrow> view_of_type dt dv \<and> view_of_type vt vv \<and> v_rows dv = v_rows vv \<and>
     v_cols dv = v_cols vv \<and> int (v_rows vv) * int (v_cols vv) \<le> num_elements bt"

lemma concat_rows: "concat (map (\<lambda>r. map (f r) [0..<w]) [0..<n]) = map (\<lambda>e. f (e div w) (e mod w)) [0..<n * w]"
proof (induction n)
  case (Suc n)
  have "map (\<lambda>e. f (e div w) (e mod w)) [n * w..<n * w + w] = map (f n) [0..<w]"
  proof (rule nth_equalityI)
    fix i
    assume "i < length (map (\<lambda>e. f (e div w) (e mod w)) [n * w..<n * w + w])"
    then have "i < w" by simp
    then show "map (\<lambda>e. f (e div w) (e mod w)) [n * w..<n * w + w] ! i = map (f n) [0..<w] ! i" by simp
  qed simp
  moreover have "[0..<Suc n * w] = [0..<n * w] @ [n * w..<n * w + w]" by (metis add.commute add_0 mult_Suc upt_add_eq_append zero_le)
  ultimately show ?case using Suc by simp
qed simp

lemma list_length_cases: "length xs = 1 \<or> length xs = 2 \<Longrightarrow> (\<exists>a. xs = [a]) \<or> (\<exists>a b. xs = [a, b])"
  by (auto simp: length_Suc_conv numeral_2_eq_2)

lemma row_stride_view:
  assumes "getRowStride t = Some st" and "view_of_type t v" and "last (ty_shape t) \<noteq> None"
  shows "v_col_stride v = 1 \<and> (v_rows v = 1 \<and> st = int (v_cols v) \<or> v_row_stride v = st) \<and> last (ty_shape t) = Some (int (v_cols v))"
proof -
  obtain ss where ss: "ty_strides t = Some ss" "last ss = Some 1" "length ss = length (ty_shape t)"
    using assms(1,2) by (auto simp: getRowStride_def view_of_type_def split: option.splits if_splits)
  have "length (ty_shape t) = 1 \<or> length (ty_shape t) = 2" using assms(2) by (auto simp: view_of_type_def split: if_splits)
  from list_length_cases [OF this] show ?thesis
  proof (elim disjE exE)
    fix a assume sh: "ty_shape t = [a]"
    then obtain c where "ss = [c]" using ss(3) by (cases ss) auto
    with sh ss assms show ?thesis by (auto simp: getRowStride_def view_of_type_def dim_matches_def split: option.splits)
  next
    fix a b assume sh: "ty_shape t = [a, b]"
    then obtain c d where "ss = [c, d]" using ss(3) by (cases ss; cases "tl ss") auto
    with sh ss assms show ?thesis by (auto simp: getRowStride_def view_of_type_def dim_matches_def split: option.splits if_splits)
  qed
qed

lemma view_elements:
  assumes "view_of_type t v" and "has_static_shape t"
  shows "num_elements t = int (v_rows v) * int (v_cols v)"
proof -
  have "length (ty_shape t) = 1 \<or> length (ty_shape t) = 2" using assms(1) by (auto simp: view_of_type_def split: if_splits)
  from list_length_cases [OF this] show ?thesis
    using assms by (auto simp: view_of_type_def has_static_shape_def num_elements_def dim_matches_def split: option.splits)
qed

text \<open>What the shape of an accepted copy is.\<close>

lemma getDMAShape_Some:
  assumes "getDMAShape dt vt bt = Some sh"
  obtains bits st width where
    "ty_elem dt = IntOrFloat bits" "maxElements sh = (if has_static_shape vt then num_elements vt else num_elements bt)"
    "last (ty_shape dt) = Some width" "last (ty_shape vt) = Some width" "getRowStride vt = Some width" "getRowStride dt = Some st"
    "st = width \<and> ds_stride sh = None \<and> maxElements sh * int (bits div 8) \<le> kMax1DTransferBytes \<or>
     width < st \<and> ds_stride sh = Some st \<and> ds_width sh = width \<and> width * int (bits div 8) \<le> kMax2DFieldValue \<and>
     maxElements sh div width \<le> kMax2DFieldValue \<and> st * int (bits div 8) \<le> kMax2DFieldValue"
  using assms unfolding getDMAShape_def Let_def
  by (auto split: if_splits option.splits tile_elem.splits)

lemma numElements_correct:
  assumes "getDMAShape dt vt bt = Some sh" and "copy_views_ok dt dv vt vv bt"
  shows "createNumElements vt vv sh = int (v_rows vv) * int (v_cols vv)"
proof -
  obtain width where w: "maxElements sh = (if has_static_shape vt then num_elements vt else num_elements bt)" "last (ty_shape vt) = Some width"
    using assms(1) by (auto elim: getDMAShape_Some)
  have v: "view_of_type vt vv" using assms(2) by (simp add: copy_views_ok_def)
  show ?thesis
  proof (cases "has_static_shape vt")
    case True
    with w v show ?thesis by (simp add: createNumElements_def view_elements)
  next
    case False
    have "length (ty_shape vt) = 1 \<or> length (ty_shape vt) = 2" using v by (auto simp: view_of_type_def split: if_splits)
    from list_length_cases [OF this] show ?thesis using False w v
      by (auto simp: createNumElements_def dim_size_def view_of_type_def dim_matches_def has_static_shape_def)
  qed
qed

lemma view_index_dense:
  assumes "v_col_stride v = 1" and "v_rows v = 1 \<or> v_row_stride v = int (v_cols v)"
  shows "view_index v = map (\<lambda>e. v_offset v + int e) [0..<v_rows v * v_cols v]"
proof -
  have "view_index v = map (\<lambda>e. v_offset v + int (e div v_cols v) * v_row_stride v + int (e mod v_cols v)) [0..<v_rows v * v_cols v]"
    unfolding view_index_def using assms(1) concat_rows [of "\<lambda>r c. v_offset v + int r * v_row_stride v + int c"] by simp
  also have "\<dots> = map (\<lambda>e. v_offset v + int e) [0..<v_rows v * v_cols v]"
  proof (rule map_cong [OF refl])
    fix e
    assume e: "e \<in> set [0..<v_rows v * v_cols v]"
    show "v_offset v + int (e div v_cols v) * v_row_stride v + int (e mod v_cols v) = v_offset v + int e"
    proof (cases "v_rows v = 1")
      case False
      then have "v_row_stride v = int (v_cols v)" using assms(2) by simp
      then show ?thesis by (metis add.assoc div_mult_mod_eq of_nat_add of_nat_mult)
    qed (use e in simp)
  qed
  finally show ?thesis .
qed

lemma view_index_rows:
  assumes "v_col_stride v = 1" and "v_row_stride v = st"
  shows "view_index v = map (\<lambda>e. v_offset v + int e div int (v_cols v) * st + int e mod int (v_cols v)) [0..<v_rows v * v_cols v]"
  unfolding view_index_def using assms concat_rows [of "\<lambda>r c. v_offset v + int r * st + int c"] by (simp add: zdiv_int zmod_int)

lemma dma_moves_correct:
  assumes "getDMAShape dt vt bt = Some sh" and "copy_views_ok dt dv vt vv bt"
  shows "dma_moves load sh (v_offset dv) b slot (v_offset vv) (createNumElements vt vv sh) = copy_moves load dv b slot vv"
proof -
  obtain st width where s: "last (ty_shape dt) = Some width" "last (ty_shape vt) = Some width" "getRowStride vt = Some width" "getRowStride dt = Some st"
    "st = width \<and> ds_stride sh = None \<or> width < st \<and> ds_stride sh = Some st \<and> ds_width sh = width"
    using assms(1) by (auto elim: getDMAShape_Some)
  have v: "view_of_type dt dv" "view_of_type vt vv" "v_rows dv = v_rows vv" "v_cols dv = v_cols vv" using assms(2) by (auto simp: copy_views_ok_def)
  from row_stride_view [OF s(3) v(2)] s(2) have vt: "v_col_stride vv = 1" "v_rows vv = 1 \<or> v_row_stride vv = int (v_cols vv)" "width = int (v_cols vv)" by auto
  from row_stride_view [OF s(4) v(1)] s(1) have dt: "v_col_stride dv = 1" "v_rows dv = 1 \<and> st = int (v_cols dv) \<or> v_row_stride dv = st" by auto
  have n: "nat (createNumElements vt vv sh) = v_rows vv * v_cols vv" using numElements_correct [OF assms] by (simp add: nat_mult_distrib)
  have "view_index dv = map (dma_ddr_index sh (v_offset dv)) [0..<v_rows vv * v_cols vv]"
  proof (cases "st = width")
    case True
    with s(5) have "ds_stride sh = None" by auto
    moreover have "view_index dv = map (\<lambda>e. v_offset dv + int e) [0..<v_rows dv * v_cols dv]"
      by (rule view_index_dense) (use dt True vt(3) v(4) in auto)
    ultimately show ?thesis using v(3,4) by (simp add: dma_ddr_index_def)
  next
    case False
    with s(5) dt vt(3) v(4) have r: "ds_stride sh = Some st" "ds_width sh = int (v_cols dv)" "v_row_stride dv = st" by auto
    from view_index_rows [OF dt(1) r(3)] show ?thesis using r v(3,4) by (simp add: dma_ddr_index_def)
  qed
  with view_index_dense [OF vt(1,2)] n show ?thesis by (simp add: dma_moves_def copy_moves_def zip_map_map zip_same_conv_map)
qed

text \<open>The fields of the descriptor hold it.\<close>

lemma dma_fields_fit:
  assumes "getDMAShape dt vt bt = Some sh" and "copy_views_ok dt dv vt vv bt" and "ty_elem dt = IntOrFloat bits"
  shows "(case ds_stride sh of
      None \<Rightarrow> createNumElements vt vv sh * int (bits div 8) \<le> kMax1DTransferBytes
    | Some st \<Rightarrow> ds_width sh * int (bits div 8) \<le> kMax2DFieldValue \<and> createNumElements vt vv sh div ds_width sh \<le> kMax2DFieldValue \<and>
        st * int (bits div 8) \<le> kMax2DFieldValue)"
proof -
  obtain st width where s: "maxElements sh = (if has_static_shape vt then num_elements vt else num_elements bt)"
    "last (ty_shape vt) = Some width" "getRowStride vt = Some width"
    "st = width \<and> ds_stride sh = None \<and> maxElements sh * int (bits div 8) \<le> kMax1DTransferBytes \<or>
     width < st \<and> ds_stride sh = Some st \<and> ds_width sh = width \<and> width * int (bits div 8) \<le> kMax2DFieldValue \<and>
     maxElements sh div width \<le> kMax2DFieldValue \<and> st * int (bits div 8) \<le> kMax2DFieldValue"
    using assms(1,3) by (auto elim: getDMAShape_Some)
  have v: "view_of_type vt vv" "int (v_rows vv) * int (v_cols vv) \<le> num_elements bt" using assms(2) by (auto simp: copy_views_ok_def)
  have le: "createNumElements vt vv sh \<le> maxElements sh"
    unfolding numElements_correct [OF assms(1,2)] s(1) using v view_elements [OF v(1)] by simp
  have w: "0 \<le> width" using row_stride_view [OF s(3) v(1)] s(2) by simp
  have "createNumElements vt vv sh * int (bits div 8) \<le> maxElements sh * int (bits div 8)" using le by (intro mult_right_mono) simp_all
  moreover have "createNumElements vt vv sh div width \<le> maxElements sh div width"
    using le w by (cases "width = 0") (simp_all add: zdiv_mono1)
  ultimately show ?thesis using s(4) by auto
qed

section \<open>What the analysis collects\<close>

text \<open>The transfers of one direction, in the order of the body.\<close>

definition transfers_at :: "(copy_op \<Rightarrow> bool) \<Rightarrow> tile_loop \<Rightarrow> nat list \<Rightarrow> vtcm_transfer list" where
  "transfers_at P loop ks = List.map_filter (\<lambda>k. case op_transfer loop k of None \<Rightarrow> None | Some t \<Rightarrow> if P (vt_copy t) then Some t else None) ks"

lemma transfers_at_simps [simp]:
  "transfers_at P loop [] = []"
  "transfers_at P loop (k # ks) = (case op_transfer loop k of None \<Rightarrow> [] | Some t \<Rightarrow> if P (vt_copy t) then [t] else []) @ transfers_at P loop ks"
  "transfers_at P loop (ks @ js) = transfers_at P loop ks @ transfers_at P loop js"
  by (auto simp: transfers_at_def List.map_filter_def split: option.splits)

lemma analyze_copy_Some:
  assumes "analyze_copy loop k copy = Some t"
  shows "vt_position t = k" "vt_copy t = copy" "getStagingBuffer (val_source (vtcm_value copy)) = Some (vt_buffer t)"
    "getDMAShape (val_type (ddr_value copy)) (val_type (vtcm_value copy)) (tl_buffer_type loop (vt_buffer t)) = Some (vt_shape t)"
  using assms by (auto simp: analyze_copy_def split: option.splits if_splits)

lemma op_transfer_Some:
  assumes "op_transfer loop k = Some t"
  shows "vt_position t = k" "isLoad (vt_copy t) \<or> isStore (vt_copy t)" "bo_copy (tl_body loop ! k) = Some (vt_copy t)"
    "analyze_copy loop k (vt_copy t) = Some t"
  using assms analyze_copy_Some by (auto simp: op_transfer_def split: option.splits if_splits)

lemma not_load_and_store: "isLoad c \<Longrightarrow> \<not> isStore c"
  by (auto simp: isLoad_def isStore_def isInMemorySpace_def DEFAULT_DDR_ADDRESS_SPACE_def VTCM_ADDRESS_SPACE_def)

lemma transfer_of_None: "transfer_of ts b = None \<longleftrightarrow> b \<notin> vt_buffer ` set ts"
  by (auto simp: transfer_of_def find_None_iff)

lemma collect_copies_Some:
  assumes "collect_copies loop k ops (l, s) = Some (l', s')" and "drop k (tl_body loop) = ops" and "k + length ops = n"
    and "distinct (map vt_buffer l)" and "distinct (map vt_buffer s)"
  shows "l' = l @ transfers_at isLoad loop [k..<n] \<and> s' = s @ transfers_at isStore loop [k..<n] \<and>
    distinct (map vt_buffer l') \<and> distinct (map vt_buffer s')"
  using assms
proof (induction ops arbitrary: k l s)
  case (Cons op ops)
  have op: "tl_body loop ! k = op" and k: "k < n" using Cons.prems(2,3) by (auto simp: nth_via_drop)
  have tl: "drop (k + 1) (tl_body loop) = ops" using Cons.prems(2) by (metis Suc_eq_plus1 drop_Suc list.sel(3) tl_drop)
  have up: "[k..<n] = k # [k + 1..<n]" using k upt_conv_Cons by simp
  have len: "k + 1 + length ops = n" using Cons.prems(3) by simp
  show ?case
  proof (cases "bo_copy op")
    case None
    then have "op_transfer loop k = None" using op by (simp add: op_transfer_def)
    with None Cons.IH [OF _ tl len] Cons.prems show ?thesis unfolding up by simp
  next
    case (Some copy)
    show ?thesis
    proof (cases "isLoad copy \<or> isStore copy")
      case False
      then have "op_transfer loop k = None" using op Some by (simp add: op_transfer_def)
      with False Some Cons.IH [OF _ tl len] Cons.prems show ?thesis unfolding up by simp
    next
      case True
      then obtain tr where tr: "analyze_copy loop k copy = Some tr" using Cons.prems(1) Some by (auto split: option.splits if_splits)
      then have ot: "op_transfer loop k = Some tr" using op Some True by (simp add: op_transfer_def)
      have vc: "vt_copy tr = copy" using analyze_copy_Some [OF tr] by simp
      show ?thesis
      proof (cases "isLoad copy")
        case load: True
        then have c: "collect_copies loop (k + 1) ops (l @ [tr], s) = Some (l', s')" "transfer_of l (vt_buffer tr) = None"
          using Cons.prems(1) Some tr by (auto split: if_splits)
        have "distinct (map vt_buffer (l @ [tr]))" using Cons.prems(4) c(2) by (auto simp: transfer_of_None)
        moreover have "transfers_at isLoad loop [k..<n] = tr # transfers_at isLoad loop [k + 1..<n]"
          "transfers_at isStore loop [k..<n] = transfers_at isStore loop [k + 1..<n]"
          using load not_load_and_store [OF load] by (simp_all add: up ot vc)
        ultimately show ?thesis using Cons.IH [OF c(1) tl len _ Cons.prems(5)] unfolding append_assoc append_Cons append_Nil by metis
      next
        case store: False
        then have c: "collect_copies loop (k + 1) ops (l, s @ [tr]) = Some (l', s')" "transfer_of s (vt_buffer tr) = None"
          using Cons.prems(1) Some tr True by (auto split: if_splits)
        have "distinct (map vt_buffer (s @ [tr]))" using Cons.prems(5) c(2) by (auto simp: transfer_of_None)
        moreover have "transfers_at isLoad loop [k..<n] = transfers_at isLoad loop [k + 1..<n]"
          "transfers_at isStore loop [k..<n] = tr # transfers_at isStore loop [k + 1..<n]"
          using store True by (simp_all add: up ot vc)
        ultimately show ?thesis using Cons.IH [OF c(1) tl len Cons.prems(4)] unfolding append_assoc append_Cons append_Nil by metis
      qed
    qed
  qed
qed simp

lemma analyzeTileLoop_Some:
  assumes "analyzeTileLoop loop = Some ts"
  shows "fst ts = transfers_at isLoad loop [0..<length (tl_body loop)]" "snd ts = transfers_at isStore loop [0..<length (tl_body loop)]"
    "distinct (map vt_buffer (fst ts))" "distinct (map vt_buffer (snd ts))"
    "\<forall>b\<in>set (staged_buffers ts). isStagedPerIteration loop b (transfer_of (fst ts) b) (transfer_of (snd ts) b)"
proof -
  obtain l s where ts: "ts = (l, s)" by fastforce
  have c: "collect_copies loop 0 (tl_body loop) ([], []) = Some (l, s)"
    and st: "\<forall>b\<in>set (staged_buffers ts). isStagedPerIteration loop b (transfer_of (fst ts) b) (transfer_of (snd ts) b)"
    using assms ts by (auto simp: analyzeTileLoop_def list_all_iff split: option.splits if_splits)
  have r: "l = [] @ transfers_at isLoad loop [0..<length (tl_body loop)] \<and> s = [] @ transfers_at isStore loop [0..<length (tl_body loop)] \<and>
      distinct (map vt_buffer l) \<and> distinct (map vt_buffer s)"
    by (rule collect_copies_Some [OF c]) simp_all
  show "fst ts = transfers_at isLoad loop [0..<length (tl_body loop)]" "snd ts = transfers_at isStore loop [0..<length (tl_body loop)]"
    "distinct (map vt_buffer (fst ts))" "distinct (map vt_buffer (snd ts))"
    "\<forall>b\<in>set (staged_buffers ts). isStagedPerIteration loop b (transfer_of (fst ts) b) (transfer_of (snd ts) b)"
    using r st unfolding ts append_Nil fst_conv snd_conv by blast+
qed

lemma set_transfers_at: "t \<in> set (transfers_at P loop [0..<n]) \<longleftrightarrow> (\<exists>k<n. op_transfer loop k = Some t \<and> P (vt_copy t))"
  by (induction n) (auto simp: less_Suc_eq split: option.splits)

lemma positions_sorted: "sorted_wrt (\<lambda>x y. vt_position x < vt_position y) (transfers_at P loop [0..<n]) \<and>
  (\<forall>t\<in>set (transfers_at P loop [0..<n]). vt_position t < n)"
proof (induction n)
  case (Suc n)
  then show ?case by (auto simp: sorted_wrt_append less_Suc_eq dest: op_transfer_Some split: option.splits)
qed simp

lemma unique_transfer_of:
  assumes "distinct (map vt_buffer ts)" and "t \<in> set ts"
  shows "transfer_of ts (vt_buffer t) = Some (vt_position t)"
proof -
  have "find (\<lambda>x. vt_buffer x = vt_buffer t) ts = Some t" using assms
  proof (induction ts)
    case (Cons a ts)
    then show ?case by (cases "vt_buffer a = vt_buffer t") (auto simp: rev_image_eqI)
  qed simp
  then show ?thesis by (simp add: transfer_of_def)
qed

text \<open>The positions of the users of a staged buffer.\<close>

definition uses_at :: "tile_loop \<Rightarrow> nat \<Rightarrow> nat \<Rightarrow> bool" where
  "uses_at loop b k \<longleftrightarrow> (\<exists>u\<in>set (collectUsersThroughViews (tl_users loop b)). \<not> ignored_user u \<and> snd u = InBody k)"

lemma staged_use:
  assumes "analyzeTileLoop loop = Some ts" and "uses_at loop b k"
  shows "t \<in> set (fst ts) \<Longrightarrow> vt_buffer t = b \<Longrightarrow> vt_position t \<le> k"
    and "t \<in> set (snd ts) \<Longrightarrow> vt_buffer t = b \<Longrightarrow> k \<le> vt_position t"
proof -
  note a = analyzeTileLoop_Some [OF assms(1)]
  have "user_staged (transfer_of (fst ts) b) (transfer_of (snd ts) b) (InBody k)" if "b \<in> set (staged_buffers ts)"
  proof -
    have "isStagedPerIteration loop b (transfer_of (fst ts) b) (transfer_of (snd ts) b)" using a(5) that by blast
    with assms(2) show ?thesis unfolding isStagedPerIteration_def uses_at_def list_all_iff by (metis (no_types, lifting))
  qed
  then show "t \<in> set (fst ts) \<Longrightarrow> vt_buffer t = b \<Longrightarrow> vt_position t \<le> k"
    and "t \<in> set (snd ts) \<Longrightarrow> vt_buffer t = b \<Longrightarrow> k \<le> vt_position t"
    using unique_transfer_of [OF a(3)] unique_transfer_of [OF a(4)] by (force simp: staged_buffers_def)+
qed

end
