(* ===== verification/Vtcm_Pipeline.thy ===== *)
theory Vtcm_Pipeline
  imports Vtcm_Analysis
begin

text \<open>
  The pipelined tile loop does what the loop did: no computation conflicts with a pending transfer, and
  every run on the engine ends with the memory of the loop as it was written.
\<close>

section \<open>Computations on the engine\<close>

definition read_locs :: "('v, 'r) tile_compute \<Rightarrow> (int \<Rightarrow> nat) \<Rightarrow> nat \<times> int \<Rightarrow> loc set" where
  "read_locs tc slot_of c = slot_loc (slot_of (snd c)) ` set (tc_reads tc (fst c) (snd c))"

definition write_locs :: "('v, 'r) tile_compute \<Rightarrow> (int \<Rightarrow> nat) \<Rightarrow> nat \<times> int \<Rightarrow> loc set" where
  "write_locs tc slot_of c = slot_loc (slot_of (snd c)) ` set (tc_writes tc (fst c) (snd c))"

lemma exec_tile_eq:
  "exec_tile tc slot_of (k, iv) (m, r) =
    (let out = tc_fun tc k iv (map (\<lambda>p. m (slot_loc (slot_of iv) p)) (tc_reads tc k iv)) r
     in (\<lambda>l. case map_of (zip (map (slot_loc (slot_of iv)) (tc_writes tc k iv)) [0..<length (tc_writes tc k iv)]) l of
               None \<Rightarrow> m l | Some i \<Rightarrow> fst out i, snd out))"
  unfolding exec_tile_def Let_def case_prod_unfold fst_conv snd_conv by (rule refl)

lemma exec_tile_written:
  "(map_of (zip (map (slot_loc s) ws) [0..<length ws]) l = None) \<longleftrightarrow> l \<notin> slot_loc s ` set ws"
  by (simp add: map_of_zip_is_None)

interpretation tile: dma_client "exec_tile tc slot_of" "read_locs tc slot_of" "write_locs tc slot_of"
  for tc :: "('v, 'r) tile_compute" and slot_of
proof unfold_locales
  fix l c and m :: "'v mem" and r :: 'r
  assume nw: "l \<notin> write_locs tc slot_of c"
  obtain k iv where c: "c = (k, iv)" by fastforce
  have "map_of (zip (map (slot_loc (slot_of iv)) (tc_writes tc k iv)) [0..<length (tc_writes tc k iv)]) l = None"
    unfolding exec_tile_written using nw c by (simp add: write_locs_def)
  note none = this
  show "fst (exec_tile tc slot_of c (m, r)) l = m l" unfolding c exec_tile_eq by (simp add: none Let_def)
next
  fix c and m m' :: "'v mem" and r :: 'r
  assume agree: "\<And>l. l \<in> read_locs tc slot_of c \<Longrightarrow> m l = m' l"
  obtain k iv where c: "c = (k, iv)" by fastforce
  have eq: "map (\<lambda>p. m (slot_loc (slot_of iv) p)) (tc_reads tc k iv) = map (\<lambda>p. m' (slot_loc (slot_of iv) p)) (tc_reads tc k iv)"
    using agree c by (auto simp: read_locs_def)
  show "snd (exec_tile tc slot_of c (m, r)) = snd (exec_tile tc slot_of c (m', r))"
    unfolding c exec_tile_eq eq by (simp add: Let_def)
  fix l
  assume "l \<in> write_locs tc slot_of c"
  then have "map_of (zip (map (slot_loc (slot_of iv)) (tc_writes tc k iv)) [0..<length (tc_writes tc k iv)]) l \<noteq> None"
    unfolding exec_tile_written using c by (simp add: write_locs_def)
  then obtain i where i: "map_of (zip (map (slot_loc (slot_of iv)) (tc_writes tc k iv)) [0..<length (tc_writes tc k iv)]) l = Some i" by blast
  show "fst (exec_tile tc slot_of c (m, r)) l = fst (exec_tile tc slot_of c (m', r)) l"
    unfolding c exec_tile_eq eq by (simp add: i Let_def)
qed

section \<open>Pending transfers of the pipelined loop\<close>

abbreviation loads_of :: "transfers \<Rightarrow> tagged" where
  "loads_of ts \<equiv> enumerate 0 (fst ts)"

abbreviation stores_of :: "transfers \<Rightarrow> tagged" where
  "stores_of ts \<equiv> enumerate (length (fst ts)) (snd ts)"

definition starts :: "int \<Rightarrow> int \<Rightarrow> tagged \<Rightarrow> int \<Rightarrow> transfer list" where
  "starts lb step ts iv = map (\<lambda>(tag, t). createDMAStart tag (createSlot iv lb step) t iv) ts"

lemma issueLoads_starts: "issueLoads lb step ts iv = map Start (starts lb step ts iv)"
  by (auto simp: issueLoads_def starts_def)

lemma pending_starts [simp]: "pending (map Start xs) Q = Q @ xs"
  by (induction xs arbitrary: Q) simp_all

lemma dma_safe_starts [simp]: "dma_safe R W (map Start xs) Q"
  by (induction xs arbitrary: Q) simp_all

lemma dma_safe_waits [simp]: "dma_safe R W (createDMAWaits lb step ts iv) Q"
  by (induction ts arbitrary: Q) (auto simp: createDMAWaits_def)

lemma createDMAStart_sel [simp]:
  "tr_tag (createDMAStart tag slot t iv) = tag" "tr_slot (createDMAStart tag slot t iv) = slot"
  by (simp_all add: createDMAStart_def Let_def)

lemma pending_waits:
  assumes "distinct (map fst ts)" and "\<forall>tr\<in>set Q. \<not> (tr_slot tr = createSlot iv lb step \<and> tr_tag tr \<in> fst ` set ts)"
  shows "pending (createDMAWaits lb step ts iv) (starts lb step ts iv @ Q) = Q"
  using assms
proof (induction ts)
  case (Cons x ts)
  obtain tag t where x: "x = (tag, t)" by fastforce
  let ?slot = "createSlot iv lb step"
  have "\<not> list_ex (labelled tag ?slot) (starts lb step ts iv @ Q)"
  proof -
    have "tag \<notin> fst ` set ts" using Cons.prems(1) x by simp
    then have "tr_tag tr \<noteq> tag" if "tr \<in> set (starts lb step ts iv)" for tr using that by (force simp: starts_def)
    moreover have "\<not> labelled tag ?slot tr" if "tr \<in> set Q" for tr using that Cons.prems(2) x by auto
    ultimately show ?thesis by (auto simp: list_ex_iff)
  qed
  then have "after_wait tag ?slot (starts lb step ts iv @ Q) = starts lb step ts iv @ Q"
    by (cases "starts lb step ts iv @ Q") auto
  then have "pending (createDMAWaits lb step (x # ts) iv) (starts lb step (x # ts) iv @ Q) =
      pending (createDMAWaits lb step ts iv) (starts lb step ts iv @ Q)"
    unfolding x by (simp add: createDMAWaits_def starts_def)
  with Cons show ?case by auto
qed (simp add: createDMAWaits_def starts_def)

lemma set_starts: "tr \<in> set (starts lb step ts iv) \<longleftrightarrow> (\<exists>(tag, t)\<in>set ts. tr = createDMAStart tag (createSlot iv lb step) t iv)"
  by (auto simp: starts_def)

lemma tags_of:
  "fst ` set (loads_of ts) = {0..<length (fst ts)}"
  "fst ` set (stores_of ts) = {length (fst ts)..<length (fst ts) + length (snd ts)}"
  by (simp_all flip: set_map add: map_fst_enumerate add.commute)

lemma distinct_tags: "distinct (map fst (enumerate n xs))"
  by (simp add: map_fst_enumerate)

lemma slot_flips: "0 < step \<Longrightarrow> createSlot (iv + step) lb step \<noteq> createSlot iv lb step"
proof -
  assume "0 < step"
  then have "(iv + step - lb) div step = (iv - lb) div step + 1"
    by (metis add_diff_eq diff_add_eq div_add_self2 less_irrefl)
  moreover have "nat ((x + 1) mod 2) \<noteq> nat (x mod 2)" for x :: int
    by (simp add: eq_nat_nat_iff) presburger
  ultimately show ?thesis by (simp add: createSlot_def kNumBuffers_def)
qed

text \<open>The body issues the stores in the order of their positions.\<close>

definition stores_before :: "nat \<Rightarrow> tagged \<Rightarrow> tagged" where
  "stores_before k ts = filter (\<lambda>(tag, t). vt_position t < k) ts"

lemma filter_Suc_position:
  assumes "sorted_wrt (\<lambda>x y. vt_position (snd x) < vt_position (snd y)) ts"
  shows "stores_before (Suc k) ts = stores_before k ts @ (case position_in k ts of None \<Rightarrow> [] | Some x \<Rightarrow> [x])"
  using assms
proof (induction ts)
  case (Cons x ts)
  have "k \<le> vt_position (snd x) \<Longrightarrow> stores_before k ts = []" "k \<le> vt_position (snd x) \<Longrightarrow> stores_before (Suc k) ts = []"
    using Cons.prems by (auto simp: stores_before_def filter_empty_conv)
  then show ?case using Cons
    by (cases "vt_position (snd x)" k rule: linorder_cases) (auto simp: stores_before_def position_in_def split: prod.splits)
qed (simp add: stores_before_def position_in_def)

lemma sorted_enumerate:
  "sorted_wrt (\<lambda>x y. vt_position x < vt_position y) xs \<Longrightarrow> sorted_wrt (\<lambda>x y. vt_position (snd x) < vt_position (snd y)) (enumerate n xs)"
  using sorted_wrt_map [of "\<lambda>x y. vt_position x < vt_position y" snd "enumerate n xs"] by simp

lemma position_in_enumerate:
  "position_in k (enumerate n xs) = None \<longleftrightarrow> (\<forall>t\<in>set xs. vt_position t \<noteq> k)"
  "position_in k (enumerate n xs) = Some (tag, t) \<Longrightarrow> t \<in> set xs \<and> vt_position t = k"
proof -
  show "position_in k (enumerate n xs) = None \<longleftrightarrow> (\<forall>t\<in>set xs. vt_position t \<noteq> k)"
    by (induction xs arbitrary: n) (auto simp: position_in_def)
  show "position_in k (enumerate n xs) = Some (tag, t) \<Longrightarrow> t \<in> set xs \<and> vt_position t = k"
    by (induction xs arbitrary: n) (auto simp: position_in_def split: if_splits)
qed

text \<open>What the analysis found at a position.\<close>

lemma position_analysis:
  assumes "analyzeTileLoop loop = Some ts" and "k < length (tl_body loop)"
  shows "position_in k (loads_of ts) \<noteq> None \<longleftrightarrow> (\<exists>t. op_transfer loop k = Some t \<and> isLoad (vt_copy t))"
    and "position_in k (stores_of ts) = None \<longleftrightarrow> (\<forall>t. op_transfer loop k = Some t \<longrightarrow> isLoad (vt_copy t))"
    and "position_in k (stores_of ts) = Some (tag, t) \<Longrightarrow> op_transfer loop k = Some t \<and> isStore (vt_copy t)"
proof -
  note a = analyzeTileLoop_Some [OF assms(1)]
  have l: "t \<in> set (fst ts) \<and> vt_position t = k \<longleftrightarrow> op_transfer loop k = Some t \<and> isLoad (vt_copy t)"
    and s: "t \<in> set (snd ts) \<and> vt_position t = k \<longleftrightarrow> op_transfer loop k = Some t \<and> isStore (vt_copy t)" for t
    unfolding a(1,2) set_transfers_at using op_transfer_Some(1) assms(2) by blast+
  show "position_in k (loads_of ts) \<noteq> None \<longleftrightarrow> (\<exists>t. op_transfer loop k = Some t \<and> isLoad (vt_copy t))"
    unfolding position_in_enumerate using l by blast
  show "position_in k (stores_of ts) = None \<longleftrightarrow> (\<forall>t. op_transfer loop k = Some t \<longrightarrow> isLoad (vt_copy t))"
    unfolding position_in_enumerate using s op_transfer_Some(2) not_load_and_store by blast
  show "position_in k (stores_of ts) = Some (tag, t) \<Longrightarrow> op_transfer loop k = Some t \<and> isStore (vt_copy t)"
    using s position_in_enumerate(2) by blast
qed

lemma stores_before_step:
  assumes "analyzeTileLoop loop = Some ts" and "k < length (tl_body loop)"
  shows "pending (body_op_program lb step (loads_of ts) (stores_of ts) iv k) Q =
    Q @ starts lb step (case position_in k (stores_of ts) of None \<Rightarrow> [] | Some x \<Rightarrow> [x]) iv"
proof (cases "position_in k (loads_of ts)")
  case None
  then show ?thesis by (auto simp: body_op_program_def starts_def split: option.splits)
next
  case (Some x)
  then obtain t where "op_transfer loop k = Some t" "isLoad (vt_copy t)" using position_analysis(1) [OF assms] by auto
  then have "position_in k (stores_of ts) = None" using position_analysis(2) [OF assms] by auto
  with Some show ?thesis by (simp add: body_op_program_def starts_def)
qed

lemma pending_body_prefix:
  assumes "analyzeTileLoop loop = Some ts" and "k \<le> length (tl_body loop)"
  shows "pending (tile_body lb step (loads_of ts) (stores_of ts) k iv) Q = Q @ starts lb step (stores_before k (stores_of ts)) iv"
  using assms(2)
proof (induction k)
  case 0
  then show ?case by (simp add: tile_body_def stores_before_def starts_def)
next
  case (Suc k)
  have "sorted_wrt (\<lambda>x y. vt_position (snd x) < vt_position (snd y)) (stores_of ts)"
    using positions_sorted analyzeTileLoop_Some(2) [OF assms(1)] by (metis sorted_enumerate)
  from filter_Suc_position [OF this, of k] Suc stores_before_step [OF assms(1)]
  show ?case by (simp add: tile_body_def pending_append starts_def)
qed

lemma stores_before_all:
  assumes "analyzeTileLoop loop = Some ts"
  shows "stores_before (length (tl_body loop)) (stores_of ts) = stores_of ts"
proof -
  have "vt_position t < length (tl_body loop)" if "t \<in> set (snd ts)" for t
    using positions_sorted analyzeTileLoop_Some(2) [OF assms] that by metis
  moreover have "snd x \<in> set (snd ts)" if "x \<in> set (stores_of ts)" for x
    using that by (metis list.set_map imageI map_snd_enumerate)
  ultimately show ?thesis by (auto simp: stores_before_def filter_id_conv)
qed

lemma pending_body:
  assumes "analyzeTileLoop loop = Some ts"
  shows "pending (tile_body lb step (loads_of ts) (stores_of ts) (length (tl_body loop)) iv) Q = Q @ starts lb step (stores_of ts) iv"
  using pending_body_prefix [OF assms order_refl] stores_before_all [OF assms] by simp

text \<open>Between two iterations the loads of the next one and the stores of the last one are pending.\<close>

lemma pending_iteration:
  assumes a: "analyzeTileLoop loop = Some ts" and s: "0 < step" and lb: "lb < iv \<or> prev = []"
    and prev: "prev = [] \<or> prev = starts lb step (stores_of ts) (iv - step)" and lp: "lb < iv \<Longrightarrow> prev = starts lb step (stores_of ts) (iv - step)"
  shows "pending (pl_iteration (pipelineTileLoop (length (tl_body loop)) ts lb ub step) iv) (starts lb step (loads_of ts) iv @ prev) =
    (if iv + step < ub then starts lb step (loads_of ts) (iv + step) else []) @ starts lb step (stores_of ts) iv"
proof -
  let ?next = "if iv + step < ub then starts lb step (loads_of ts) (iv + step) else []"
  have neq: "createSlot (iv + step) lb step \<noteq> createSlot iv lb step" "createSlot iv lb step \<noteq> createSlot (iv - step) lb step"
    using slot_flips [OF s, of iv] slot_flips [OF s, of "iv - step"] by simp_all
  have "\<forall>tr\<in>set (prev @ ?next). \<not> (tr_slot tr = createSlot iv lb step \<and> tr_tag tr \<in> fst ` set (loads_of ts))"
    using prev neq unfolding tags_of by (auto simp: set_starts in_set_enumerate_eq)
  from pending_waits [OF distinct_tags this]
  have w1: "pending (createDMAWaits lb step (loads_of ts) iv) (starts lb step (loads_of ts) iv @ prev @ ?next) = prev @ ?next" .
  have "\<forall>tr\<in>set (?next @ starts lb step (stores_of ts) iv). \<not> (tr_slot tr = createSlot (iv - step) lb step \<and> tr_tag tr \<in> fst ` set (stores_of ts))"
    using neq unfolding tags_of by (auto simp: set_starts in_set_enumerate_eq)
  from pending_waits [OF distinct_tags this]
  have w2: "pending (createDMAWaits lb step (stores_of ts) (iv - step)) (starts lb step (stores_of ts) (iv - step) @ ?next @ starts lb step (stores_of ts) iv) =
      ?next @ starts lb step (stores_of ts) iv" .
  show ?thesis using w1 w2 lb lp pending_body [OF a]
    by (auto simp: pipelineTileLoop_def Let_def pending_append issueLoads_starts)
qed

abbreviation prev_stores :: "int \<Rightarrow> int \<Rightarrow> transfers \<Rightarrow> int \<Rightarrow> transfer list" where
  "prev_stores lb step ts iv \<equiv> if lb < iv then starts lb step (stores_of ts) (iv - step) else []"

abbreviation iteration :: "tile_loop \<Rightarrow> transfers \<Rightarrow> int \<Rightarrow> int \<Rightarrow> int \<Rightarrow> int \<Rightarrow> tile_program" where
  "iteration loop ts lb ub step \<equiv> pl_iteration (pipelineTileLoop (length (tl_body loop)) ts lb ub step)"

lemma loop_ivs_Cons: "0 < step \<Longrightarrow> iv < ub \<Longrightarrow> loop_ivs iv ub step = iv # loop_ivs (iv + step) ub step"
  by (subst loop_ivs.simps) simp

lemma loop_ivs_Nil: "\<not> iv < ub \<Longrightarrow> loop_ivs iv ub step = []"
  by (subst loop_ivs.simps) simp

text \<open>Induction on the iterations that are left.\<close>

lemma loop_ivs_induct [consumes 2, case_names last step]:
  assumes "(0 :: int) < step" and "iv < ub"
    and "\<And>iv. iv < ub \<Longrightarrow> \<not> iv + step < ub \<Longrightarrow> P iv"
    and "\<And>iv. iv < ub \<Longrightarrow> iv + step < ub \<Longrightarrow> P (iv + step) \<Longrightarrow> P iv"
  shows "P iv"
  using assms(2)
proof (induction "nat (ub - iv)" arbitrary: iv rule: less_induct)
  case less
  show ?case
  proof (cases "iv + step < ub")
    case True
    with less assms(1) have "P (iv + step)" by (intro less.hyps) auto
    with assms(4) [OF less.prems True] show ?thesis .
  qed (rule assms(3) [OF less.prems])
qed

lemma loop_pending:
  assumes a: "analyzeTileLoop loop = Some ts" and s: "0 < step" and "iv < ub" and "lb \<le> iv"
  shows "pending (concat (map (iteration loop ts lb ub step) (loop_ivs iv ub step))) (starts lb step (loads_of ts) iv @ prev_stores lb step ts iv) =
    starts lb step (stores_of ts) (last (loop_ivs iv ub step))"
  using s assms(3,4)
proof (induction iv rule: loop_ivs_induct)
  case (last iv)
  have "pending (iteration loop ts lb ub step iv) (starts lb step (loads_of ts) iv @ prev_stores lb step ts iv) = starts lb step (stores_of ts) iv"
    using pending_iteration [OF a s, of lb iv "prev_stores lb step ts iv" ub] last by simp
  with last s show ?case by (simp add: loop_ivs_Cons loop_ivs_Nil pending_append)
next
  case (step iv)
  have "pending (iteration loop ts lb ub step iv) (starts lb step (loads_of ts) iv @ prev_stores lb step ts iv) =
      starts lb step (loads_of ts) (iv + step) @ prev_stores lb step ts (iv + step)"
    using pending_iteration [OF a s, of lb iv "prev_stores lb step ts iv" ub] step s by simp
  with step s show ?case by (simp add: loop_ivs_Cons [of step iv] pending_append) (simp add: loop_ivs_Cons)
qed

section \<open>No computation conflicts with a pending transfer\<close>

text \<open>The users of a buffer include the copies that it stages and the computations that access it.\<close>

definition accesses_listed :: "tile_loop \<Rightarrow> ('v, 'r) tile_compute \<Rightarrow> int list \<Rightarrow> bool" where
  "accesses_listed loop tc ivs \<longleftrightarrow> (\<forall>k\<in>{0..<length (tl_body loop)}.
     case op_transfer loop k of
       None \<Rightarrow> \<forall>iv\<in>set ivs. \<forall>p\<in>set (tc_reads tc k iv @ tc_writes tc k iv). uses_at loop (fst p) k
     | Some t \<Rightarrow> uses_at loop (vt_buffer t) k)"

lemma conflict_free_append: "conflict_free R W (Q1 @ Q2) \<longleftrightarrow> conflict_free R W Q1 \<and> conflict_free R W Q2"
  by (auto simp: conflict_free_def)

lemma transfer_moves:
  assumes "(s, d) \<in> set (tr_moves (createDMAStart tag slot t iv))"
  shows "(\<exists>a x. s = Ddr a \<and> d = Vtcm (vt_buffer t) slot x) \<or> (\<exists>a x. s = Vtcm (vt_buffer t) slot x \<and> d = Ddr a)"
  using assms by (auto simp: createDMAStart_def Let_def dma_moves_def direct_def split: if_splits)

lemma start_conflict_free:
  assumes "\<And>l. l \<in> R \<union> W \<Longrightarrow> \<exists>b x. l = Vtcm b sl x \<and> (slot = sl \<longrightarrow> vt_buffer t \<noteq> b)"
  shows "conflict_free R W [createDMAStart tag slot t iv]"
  unfolding conflict_free_def using transfer_moves [of _ _ tag slot t iv] assms by fastforce

lemma conflict_free_starts:
  assumes "\<And>tag t. (tag, t) \<in> set ts \<Longrightarrow> conflict_free R W [createDMAStart tag (createSlot iv lb step) t iv]"
  shows "conflict_free R W (starts lb step ts iv)"
  unfolding conflict_free_def using assms by (fastforce simp: set_starts conflict_free_def)

lemma slot_conflict_free:
  assumes "slot_of iv \<noteq> createSlot iv' lb step"
  shows "conflict_free (read_locs tc slot_of (k, iv)) (write_locs tc slot_of (k, iv)) (starts lb step ts iv')"
  by (rule conflict_free_starts, rule start_conflict_free [where sl = "slot_of iv"])
    (use assms in \<open>auto simp: read_locs_def write_locs_def slot_loc_def\<close>)

lemma listed_access:
  assumes "accesses_listed loop tc ivs" and "iv \<in> set ivs" and "k < length (tl_body loop)" and "op_transfer loop k = None"
    and "l \<in> read_locs tc slot_of (k, iv) \<union> write_locs tc slot_of (k, iv)"
  shows "\<exists>b x. l = Vtcm b (slot_of iv) x \<and> uses_at loop b k"
proof -
  obtain p where p: "p \<in> set (tc_reads tc k iv @ tc_writes tc k iv)" "l = slot_loc (slot_of iv) p"
    using assms(5) by (auto simp: read_locs_def write_locs_def)
  have "uses_at loop (fst p) k" using bspec [OF assms(1) [unfolded accesses_listed_def], of k] assms(2-4) p(1) by simp
  with p(2) show ?thesis by (auto simp: slot_loc_def)
qed

lemma store_conflict_free:
  assumes a: "analyzeTileLoop loop = Some ts" and acc: "accesses_listed loop tc ivs" and "iv \<in> set ivs"
    and k: "k < length (tl_body loop)" "op_transfer loop k = None"
  shows "conflict_free (read_locs tc slot_of (k, iv)) (write_locs tc slot_of (k, iv)) (starts lb step (stores_before k (stores_of ts)) iv)"
proof (rule conflict_free_starts)
  fix tag t
  assume "(tag, t) \<in> set (stores_before k (stores_of ts))"
  then have t: "t \<in> set (snd ts)" "vt_position t < k"
    by (auto simp: stores_before_def) (metis imageI list.set_map map_snd_enumerate snd_conv)
  show "conflict_free (read_locs tc slot_of (k, iv)) (write_locs tc slot_of (k, iv)) [createDMAStart tag (createSlot iv lb step) t iv]"
  proof (rule start_conflict_free [where sl = "slot_of iv"])
    fix l
    assume "l \<in> read_locs tc slot_of (k, iv) \<union> write_locs tc slot_of (k, iv)"
    from listed_access [OF acc assms(3) k this] staged_use(2) [OF a] t
    show "\<exists>b x. l = Vtcm b (slot_of iv) x \<and> (createSlot iv lb step = slot_of iv \<longrightarrow> vt_buffer t \<noteq> b)" by fastforce
  qed
qed

lemma safe_body_prefix:
  assumes a: "analyzeTileLoop loop = Some ts" and acc: "accesses_listed loop tc ivs" and "iv \<in> set ivs"
    and Q: "\<And>k. conflict_free (read_locs tc slot_of (k, iv)) (write_locs tc slot_of (k, iv)) Q" and "k \<le> length (tl_body loop)"
  shows "dma_safe (read_locs tc slot_of) (write_locs tc slot_of) (tile_body lb step (loads_of ts) (stores_of ts) k iv) Q"
  using assms(5)
proof (induction k)
  case 0
  then show ?case by (simp add: tile_body_def)
next
  case (Suc k)
  have "dma_safe (read_locs tc slot_of) (write_locs tc slot_of) (body_op_program lb step (loads_of ts) (stores_of ts) iv k)
      (Q @ starts lb step (stores_before k (stores_of ts)) iv)"
  proof (cases "op_transfer loop k")
    case None
    from store_conflict_free [OF a acc assms(3) _ None] Suc.prems Q show ?thesis
      by (auto simp: body_op_program_def conflict_free_append split: option.splits)
  next
    case (Some t)
    then have "position_in k (loads_of ts) \<noteq> None \<or> position_in k (stores_of ts) \<noteq> None"
      using position_analysis(1,2) [OF a, of k] Suc.prems by auto
    then show ?thesis by (auto simp: body_op_program_def split: option.splits)
  qed
  with Suc pending_body_prefix [OF a, of k lb step iv Q] show ?case by (simp add: tile_body_def dma_safe_append)
qed

lemma safe_iteration:
  assumes a: "analyzeTileLoop loop = Some ts" and acc: "accesses_listed loop tc ivs" and "iv \<in> set ivs" and s: "0 < step"
  shows "dma_safe (read_locs tc (\<lambda>iv. createSlot iv lb step)) (write_locs tc (\<lambda>iv. createSlot iv lb step))
    (iteration loop ts lb ub step iv) (starts lb step (loads_of ts) iv @ prev_stores lb step ts iv)"
proof -
  let ?next = "if iv + step < ub then starts lb step (loads_of ts) (iv + step) else []"
  have neq: "createSlot iv lb step \<noteq> createSlot (iv + step) lb step" "createSlot iv lb step \<noteq> createSlot (iv - step) lb step"
    using slot_flips [OF s, of iv lb, symmetric] slot_flips [OF s, of "iv - step" lb] by simp_all
  have "\<forall>tr\<in>set (prev_stores lb step ts iv @ ?next). \<not> (tr_slot tr = createSlot iv lb step \<and> tr_tag tr \<in> fst ` set (loads_of ts))"
    using neq unfolding tags_of by (auto simp: set_starts in_set_enumerate_eq)
  note w1 = pending_waits [OF distinct_tags this]
  have Q: "conflict_free (read_locs tc (\<lambda>iv. createSlot iv lb step) (k, iv)) (write_locs tc (\<lambda>iv. createSlot iv lb step) (k, iv))
      (prev_stores lb step ts iv @ ?next)" for k
    using neq by (auto simp: conflict_free_append slot_conflict_free) (simp_all add: conflict_free_def)
  note body = safe_body_prefix [OF a acc assms(3) Q order_refl, of lb step]
  have head: "(if iv + step < ub then issueLoads lb step (loads_of ts) (iv + step) else []) = map Start ?next"
    by (simp add: issueLoads_starts)
  have tail: "dma_safe R W (if lb < iv then createDMAWaits lb step (stores_of ts) (iv - step) else []) P" for R W P by simp
  show ?thesis unfolding pipelineTileLoop_def Let_def pipelined_loop.select_convs head
    by (simp only: dma_safe_append pending_append pending_starts dma_safe_starts dma_safe_waits append_assoc w1 body tail simp_thms)
qed

text \<open>The last iteration, and the whole program.\<close>

lemma last_iteration:
  assumes s: "0 < step" and "iv < ub"
  shows "last (loop_ivs iv ub step) = iv + (ub - iv - 1) div step * step"
  using s assms(2)
proof (induction iv rule: loop_ivs_induct)
  case (last iv)
  then have "(ub - iv - 1) div step = 0" by (intro div_pos_pos_trivial) auto
  with last s show ?case by (simp add: loop_ivs_Cons loop_ivs_Nil)
next
  case (step iv)
  have "(ub - iv - 1) div step = (ub - (iv + step) - 1) div step + 1"
    using div_add_self2 [of step "ub - (iv + step) - 1"] s by (simp add: algebra_simps)
  moreover have "loop_ivs (iv + step) ub step \<noteq> []" using step s by (simp add: loop_ivs_Cons)
  ultimately show ?case using step s by (simp add: loop_ivs_Cons [of step iv] algebra_simps)
qed

lemma last_iv_formula:
  assumes "0 < step" and "lb < ub" and "ub - lb < 2 ^ 63"
  shows "lb + (divideCeil (ub - lb) step - 1) * step = last (loop_ivs lb ub step)"
proof -
  have "(ub - lb) mod 2 ^ 64 = ub - lb" using assms by (intro mod_pos_pos_trivial) auto
  then show ?thesis using assms by (simp add: divideCeil_def Let_def last_iteration)
qed

lemma pipelined_pending:
  assumes a: "analyzeTileLoop loop = Some ts" and s: "0 < step" and "lb < ub" and "ub - lb < 2 ^ 63"
  shows "pending (pipelined_program (pipelineTileLoop (length (tl_body loop)) ts lb ub step) lb ub step) [] = []"
proof -
  let ?last = "last (loop_ivs lb ub step)"
  have p: "pending (concat (map (iteration loop ts lb ub step) (loop_ivs lb ub step))) (starts lb step (loads_of ts) lb) =
      starts lb step (stores_of ts) ?last"
    using loop_pending [OF a s assms(3), of lb] by simp
  have w: "pending (createDMAWaits lb step (stores_of ts) ?last) (starts lb step (stores_of ts) ?last) = []"
    using pending_waits [OF distinct_tags, of "[]" ?last lb step "length (fst ts)" "snd ts"] by simp
  have "pipelined_program (pipelineTileLoop (length (tl_body loop)) ts lb ub step) lb ub step =
      map Start (starts lb step (loads_of ts) lb) @ concat (map (iteration loop ts lb ub step) (loop_ivs lb ub step)) @
      createDMAWaits lb step (stores_of ts) ?last"
    using last_iv_formula [OF s assms(3,4)] by (simp add: pipelined_program_def pipelineTileLoop_def Let_def issueLoads_starts)
  with p w show ?thesis by (simp add: pending_append)
qed

lemma safe_loop:
  assumes a: "analyzeTileLoop loop = Some ts" and acc: "accesses_listed loop tc ivs" and s: "0 < step" and "iv < ub" and "lb \<le> iv"
    and "set (loop_ivs iv ub step) \<subseteq> set ivs"
  shows "dma_safe (read_locs tc (\<lambda>iv. createSlot iv lb step)) (write_locs tc (\<lambda>iv. createSlot iv lb step))
    (concat (map (iteration loop ts lb ub step) (loop_ivs iv ub step))) (starts lb step (loads_of ts) iv @ prev_stores lb step ts iv)"
  using s assms(4-6)
proof (induction iv rule: loop_ivs_induct)
  case (last iv)
  then show ?case using safe_iteration [OF a acc _ s, of iv] s by (simp add: loop_ivs_Cons loop_ivs_Nil dma_safe_append)
next
  case (step iv)
  have iv: "iv \<in> set ivs" "set (loop_ivs (iv + step) ub step) \<subseteq> set ivs" using step.prems step.hyps s by (auto simp: loop_ivs_Cons [of step iv])
  have "pending (iteration loop ts lb ub step iv) (starts lb step (loads_of ts) iv @ prev_stores lb step ts iv) =
      starts lb step (loads_of ts) (iv + step) @ prev_stores lb step ts (iv + step)"
    using pending_iteration [OF a s, of lb iv "prev_stores lb step ts iv" ub] step s by simp
  with step.IH step.prems step.hyps iv(2) safe_iteration [OF a acc iv(1) s, of lb ub] s
  show ?case by (simp add: loop_ivs_Cons [of step iv] dma_safe_append)
qed

lemma pipelined_safe:
  assumes a: "analyzeTileLoop loop = Some ts" and acc: "accesses_listed loop tc (loop_ivs lb ub step)" and s: "0 < step" and "lb < ub"
  shows "dma_safe (read_locs tc (\<lambda>iv. createSlot iv lb step)) (write_locs tc (\<lambda>iv. createSlot iv lb step))
    (pipelined_program (pipelineTileLoop (length (tl_body loop)) ts lb ub step) lb ub step) []"
  using safe_loop [OF a acc s assms(4), of lb]
  by (simp add: pipelined_program_def dma_safe_append pipelineTileLoop_def Let_def issueLoads_starts)

section \<open>Transfers that change places\<close>

definition commutes :: "('c \<Rightarrow> 'v mem \<times> 'r \<Rightarrow> 'v mem \<times> 'r) \<Rightarrow> 'c instr \<Rightarrow> 'c instr \<Rightarrow> bool" where
  "commutes run i j \<longleftrightarrow> (\<forall>s. sync_instr run i (sync_instr run j s) = sync_instr run j (sync_instr run i s))"

lemma commutes_sym: "commutes run i j \<Longrightarrow> commutes run j i"
  by (simp add: commutes_def)

lemma sync_run_append: "sync_run run (p @ p') s = sync_run run p' (sync_run run p s)"
  by (simp add: sync_run_def)

lemma commutes_instr_run:
  assumes "\<forall>j\<in>set p. commutes run i j"
  shows "sync_instr run i (sync_run run p s) = sync_run run p (sync_instr run i s)"
  using assms unfolding sync_run_def by (induction p arbitrary: s) (auto simp: commutes_def)

lemma commutes_run:
  assumes "\<forall>i\<in>set p1. \<forall>j\<in>set p2. commutes run i j"
  shows "sync_run run (p1 @ p2) s = sync_run run (p2 @ p1) s"
  using assms
proof (induction p1 arbitrary: s)
  case (Cons i p1)
  have "sync_run run ((i # p1) @ p2) s = sync_run run (p2 @ p1) (sync_instr run i s)" using Cons by (simp add: sync_run_def)
  also have "\<dots> = sync_run run (p2 @ (i # p1)) s" using commutes_instr_run [of p2 run i s] Cons.prems by (simp add: sync_run_def)
  finally show ?case .
qed simp

text \<open>The instructions that satisfy a predicate can be done first.\<close>

lemma partition_run:
  assumes "sorted_wrt (\<lambda>x y. \<not> P x \<and> P y \<longrightarrow> commutes run (f x) (f y)) xs"
  shows "sync_run run (map f (filter P xs) @ map f (filter (\<lambda>x. \<not> P x) xs)) s = sync_run run (map f xs) s"
  using assms
proof (induction xs arbitrary: s)
  case (Cons x xs)
  show ?case
  proof (cases "P x")
    case True
    with Cons show ?thesis by (simp add: sync_run_def)
  next
    case False
    have "\<forall>j\<in>set (map f (filter P xs)). commutes run (f x) j" using Cons.prems False by auto
    from commutes_instr_run [OF this] Cons False show ?thesis by (simp add: sync_run_def)
  qed
qed simp

lemma moves_commute:
  assumes "\<forall>(s, d)\<in>set ms1. \<forall>(s', d')\<in>set ms2. d \<noteq> d' \<and> d \<noteq> s' \<and> d' \<noteq> s"
  shows "fold move ms1 (fold move ms2 m) = fold move ms2 (fold move ms1 m)"
proof -
  have one: "move p (fold move ms2 m) = fold move ms2 (move p m)" if "p \<in> set ms1" for p m
  proof -
    have "\<forall>(s', d')\<in>set ms2. snd p \<noteq> d' \<and> snd p \<noteq> s' \<and> d' \<noteq> fst p" using assms that by fastforce
    then show ?thesis
    proof (induction ms2 arbitrary: m)
      case (Cons q ms2)
      then have "move p (move q m) = move q (move p m)" by (cases q) (auto simp: move_def fun_upd_twist)
      then have "fold move (q # ms2) (move p m) = fold move ms2 (move p (move q m))" by simp
      with Cons show ?case by simp
    qed simp
  qed
  have "set ps \<subseteq> set ms1 \<Longrightarrow> fold move ps (fold move ms2 m) = fold move ms2 (fold move ps m)" for ps m
    by (induction ps arbitrary: m) (simp_all add: one)
  then show ?thesis by blast
qed

lemma start_start_commutes:
  assumes "\<forall>(s, d)\<in>set (tr_moves a). \<forall>(s', d')\<in>set (tr_moves b). d \<noteq> d' \<and> d \<noteq> s' \<and> d' \<noteq> s"
  shows "commutes run (Start a) (Start b)"
  unfolding commutes_def using moves_commute [OF assms] by (auto simp: apfst_def)

lemma start_exec_commutes:
  assumes "conflict_free (read_locs tc slot_of c) (write_locs tc slot_of c) [a]"
  shows "commutes (exec_tile tc slot_of) (Start a) (Exec c)"
  unfolding commutes_def
proof
  fix s :: "'a mem \<times> 'b"
  obtain m r where s: "s = (m, r)" by fastforce
  have "exec_tile tc slot_of c (fold move (tr_moves a) m, r) = apfst (fold move (tr_moves a)) (exec_tile tc slot_of c (m, r))"
    by (rule tile.exec_moves) (use assms in \<open>simp add: conflict_free_def\<close>)
  then show "sync_instr (exec_tile tc slot_of) (Start a) (sync_instr (exec_tile tc slot_of) (Exec c) s) =
      sync_instr (exec_tile tc slot_of) (Exec c) (sync_instr (exec_tile tc slot_of) (Start a) s)"
    by (simp add: s)
qed

end
