(* ===== verification/Vtcm_Equivalence.thy ===== *)
theory Vtcm_Equivalence
  imports Vtcm_Pipeline
begin

text \<open>
  The pipelined loop against the loop as it was written: moving the loads back to their copies gives the
  loop on two slots of every buffer, and that loop has the effects of the loop on one slot.
\<close>

section \<open>The loads back in their places\<close>

definition views_ok :: "tile_loop \<Rightarrow> int list \<Rightarrow> bool" where
  "views_ok loop ivs \<longleftrightarrow> (\<forall>k\<in>{0..<length (tl_body loop)}.
     case op_transfer loop k of
       None \<Rightarrow> True
     | Some t \<Rightarrow> \<forall>iv\<in>set ivs. let copy = vt_copy t
         in copy_views_ok (val_type (ddr_value copy)) (val_view (ddr_value copy) iv) (val_type (vtcm_value copy))
              (val_view (vtcm_value copy) iv) (tl_buffer_type loop (vt_buffer t)))"

definition ddr_region :: "vtcm_transfer \<Rightarrow> int \<Rightarrow> int set" where
  "ddr_region t iv = set (view_index (val_view (ddr_value (vt_copy t)) iv))"

text \<open>What a load reads was not stored by the iteration before, nor earlier in its own iteration: the pass
  does not support and does not check such loops.\<close>

definition no_stale_loads :: "transfers \<Rightarrow> int \<Rightarrow> int list \<Rightarrow> bool" where
  "no_stale_loads ts step ivs \<longleftrightarrow> (\<forall>iv\<in>set ivs. \<forall>l\<in>set (fst ts). \<forall>s\<in>set (snd ts).
     (vt_position s < vt_position l \<longrightarrow> ddr_region l iv \<inter> ddr_region s iv = {}) \<and>
     (iv + step \<in> set ivs \<longrightarrow> ddr_region l (iv + step) \<inter> ddr_region s iv = {}))"

lemma start_moves:
  assumes "views_ok loop ivs" and "iv \<in> set ivs" and "k < length (tl_body loop)" and "op_transfer loop k = Some t"
  shows "tr_moves (createDMAStart tag slot t iv) = tr_moves (copy_transfer slot t iv)"
proof -
  have "\<forall>iv\<in>set ivs. let copy = vt_copy t in copy_views_ok (val_type (ddr_value copy)) (val_view (ddr_value copy) iv) (val_type (vtcm_value copy))
      (val_view (vtcm_value copy) iv) (tl_buffer_type loop (vt_buffer t))"
    using bspec [OF assms(1) [unfolded views_ok_def], of k] assms(3,4) by simp
  then have v: "copy_views_ok (val_type (ddr_value (vt_copy t))) (val_view (ddr_value (vt_copy t)) iv) (val_type (vtcm_value (vt_copy t)))
      (val_view (vtcm_value (vt_copy t)) iv) (tl_buffer_type loop (vt_buffer t))" using assms(2) by (simp only: Let_def)
  show ?thesis
    using dma_moves_correct [OF analyze_copy_Some(4) [OF op_transfer_Some(4) [OF assms(4)]] v, of "isLoad (vt_copy t)" "vt_buffer t" slot]
    by (simp add: createDMAStart_def copy_transfer_def Let_def)
qed

lemma copy_moves_locs:
  assumes "(s, d) \<in> set (tr_moves (copy_transfer slot t iv))"
  shows "if isLoad (vt_copy t) then (\<exists>a\<in>ddr_region t iv. s = Ddr a) \<and> (\<exists>x. d = Vtcm (vt_buffer t) slot x)
    else (\<exists>a\<in>ddr_region t iv. d = Ddr a) \<and> (\<exists>x. s = Vtcm (vt_buffer t) slot x)"
proof -
  obtain z where z: "z \<in> set (zip (map Ddr (view_index (val_view (ddr_value (vt_copy t)) iv)))
      (map (Vtcm (vt_buffer t) slot) (view_index (val_view (vtcm_value (vt_copy t)) iv))))"
    and sd: "(s, d) = direct (isLoad (vt_copy t)) z"
    using assms unfolding copy_transfer_def copy_moves_def Let_def transfer.select_convs set_map by blast
  obtain x y where xy: "z = (x, y)" by fastforce
  from set_zip_leftD [OF z [unfolded xy]] set_zip_rightD [OF z [unfolded xy]] sd [unfolded xy] show ?thesis by (auto simp: direct_def ddr_region_def)
qed

lemma load_store_commutes:
  assumes "views_ok loop ivs" and "iv \<in> set ivs" and "iv' \<in> set ivs"
    and "k < length (tl_body loop)" "op_transfer loop k = Some t" "isLoad (vt_copy t)"
    and "k' < length (tl_body loop)" "op_transfer loop k' = Some t'" "isStore (vt_copy t')"
    and "slot \<noteq> slot' \<or> vt_buffer t \<noteq> vt_buffer t'" and "ddr_region t iv \<inter> ddr_region t' iv' = {}"
  shows "commutes run (Start (createDMAStart tag slot t iv)) (Start (createDMAStart tag' slot' t' iv'))"
proof (rule start_start_commutes, clarify)
  fix s d s' d'
  assume m: "(s, d) \<in> set (tr_moves (createDMAStart tag slot t iv))" "(s', d') \<in> set (tr_moves (createDMAStart tag' slot' t' iv'))"
  have "\<not> isLoad (vt_copy t')" using assms(9) not_load_and_store by blast
  with m assms(6,10,11) copy_moves_locs [of s d slot t iv] copy_moves_locs [of s' d' slot' t' iv']
  show "d \<noteq> d' \<and> d \<noteq> s' \<and> d' \<noteq> s"
    unfolding start_moves [OF assms(1,2,4,5)] start_moves [OF assms(1,3,7,8)] by auto
qed

text \<open>The operations of an iteration on the slot of the iteration, every transfer with the tag 0: tags mean
  nothing to transfers that are done at once.\<close>

definition tile_op :: "int \<Rightarrow> int \<Rightarrow> tile_loop \<Rightarrow> int \<Rightarrow> nat \<Rightarrow> (nat \<times> int) instr" where
  "tile_op lb step loop iv k =
     (case op_transfer loop k of None \<Rightarrow> Exec (k, iv) | Some t \<Rightarrow> Start (createDMAStart 0 (createSlot iv lb step) t iv))"

definition is_load_at :: "tile_loop \<Rightarrow> nat \<Rightarrow> bool" where
  "is_load_at loop k \<longleftrightarrow> (case op_transfer loop k of None \<Rightarrow> False | Some t \<Rightarrow> isLoad (vt_copy t))"

lemma sync_start_tag: "sync_instr run (Start (createDMAStart tag slot t iv)) = sync_instr run (Start (createDMAStart 0 slot t iv))"
  by (rule ext) (simp add: createDMAStart_def Let_def)

lemma sync_loads:
  "sync_run run (map Start (starts lb step (enumerate m (transfers_at isLoad loop ks)) iv)) s =
   sync_run run (map (tile_op lb step loop iv) (filter (is_load_at loop) ks)) s"
proof (induction ks arbitrary: m s)
  case (Cons k ks)
  show ?case
  proof (cases "is_load_at loop k")
    case True
    then obtain t where t: "op_transfer loop k = Some t" "isLoad (vt_copy t)" by (auto simp: is_load_at_def split: option.splits)
    with Cons True sync_start_tag [of run m] show ?thesis by (simp add: tile_op_def sync_run_def starts_def)
  next
    case False
    with Cons show ?thesis by (auto simp: is_load_at_def split: option.splits)
  qed
qed (simp add: starts_def)

lemma sync_loads_of:
  assumes "analyzeTileLoop loop = Some ts"
  shows "sync_run run (map Start (starts lb step (loads_of ts) iv)) s =
   sync_run run (map (tile_op lb step loop iv) (filter (is_load_at loop) [0..<length (tl_body loop)])) s"
  unfolding analyzeTileLoop_Some(1) [OF assms] by (rule sync_loads)

lemma sync_body:
  assumes a: "analyzeTileLoop loop = Some ts" and "k \<le> length (tl_body loop)"
  shows "sync_run run (tile_body lb step (loads_of ts) (stores_of ts) k iv) s =
    sync_run run (map (tile_op lb step loop iv) (filter (\<lambda>k. \<not> is_load_at loop k) [0..<k])) s"
  using assms(2)
proof (induction k)
  case 0
  then show ?case by (simp add: tile_body_def)
next
  case (Suc k)
  then have k: "k < length (tl_body loop)" by simp
  have "sync_run run (body_op_program lb step (loads_of ts) (stores_of ts) iv k) s =
      sync_run run (if is_load_at loop k then [] else [tile_op lb step loop iv k]) s" for s
  proof (cases "is_load_at loop k")
    case True
    then have "position_in k (loads_of ts) \<noteq> None" using position_analysis(1) [OF a k] by (auto simp: is_load_at_def split: option.splits)
    with True show ?thesis by (auto simp: body_op_program_def)
  next
    case nl: False
    then have "\<not> (\<exists>t. op_transfer loop k = Some t \<and> isLoad (vt_copy t))" by (auto simp: is_load_at_def)
    with position_analysis(1) [OF a k] have l: "position_in k (loads_of ts) = None" by blast
    show ?thesis
    proof (cases "position_in k (stores_of ts)")
      case None
      then have "op_transfer loop k = None" using position_analysis(2) [OF a k] nl by (auto simp: is_load_at_def split: option.splits)
      with None l nl show ?thesis by (simp add: body_op_program_def tile_op_def is_load_at_def)
    next
      case (Some x)
      obtain tag t where x: "x = (tag, t)" by fastforce
      have "op_transfer loop k = Some t" using position_analysis(3) [OF a k] Some x by blast
      with Some x l nl sync_start_tag [of run tag] show ?thesis by (simp add: body_op_program_def tile_op_def sync_run_def)
    qed
  qed
  with Suc show ?case by (simp add: tile_body_def sync_run_append)
qed

text \<open>A load changes places with an operation that is no load, when they use different slots or different
  buffers, and different parts of DDR.\<close>

lemma load_commutes:
  assumes "accesses_listed loop tc ivs" and "views_ok loop ivs" and "iv \<in> set ivs" and "iv' \<in> set ivs"
    and "k < length (tl_body loop)" "\<not> is_load_at loop k" and "k' < length (tl_body loop)" "op_transfer loop k' = Some t'" "isLoad (vt_copy t')"
    and buf: "\<And>b. uses_at loop b k \<Longrightarrow> createSlot iv' lb step \<noteq> createSlot iv lb step \<or> vt_buffer t' \<noteq> b"
    and ddr: "\<And>t. op_transfer loop k = Some t \<Longrightarrow> isStore (vt_copy t) \<Longrightarrow> ddr_region t' iv' \<inter> ddr_region t iv = {}"
  shows "commutes (exec_tile tc (\<lambda>iv. createSlot iv lb step)) (tile_op lb step loop iv' k') (tile_op lb step loop iv k)"
proof -
  have l: "tile_op lb step loop iv' k' = Start (createDMAStart 0 (createSlot iv' lb step) t' iv')" using assms(8) by (simp add: tile_op_def)
  show ?thesis unfolding l
  proof (cases "op_transfer loop k")
    case exec: None
    let ?so = "\<lambda>iv. createSlot iv lb step"
    have "conflict_free (read_locs tc ?so (k, iv)) (write_locs tc ?so (k, iv)) [createDMAStart 0 (createSlot iv' lb step) t' iv']"
    proof (rule start_conflict_free [where sl = "?so iv"])
      fix x
      assume "x \<in> read_locs tc ?so (k, iv) \<union> write_locs tc ?so (k, iv)"
      from listed_access [OF assms(1,3,5) exec this] buf
      show "\<exists>b y. x = Vtcm b (?so iv) y \<and> (createSlot iv' lb step = ?so iv \<longrightarrow> vt_buffer t' \<noteq> b)" by blast
    qed
    then show "commutes (exec_tile tc ?so) (Start (createDMAStart 0 (createSlot iv' lb step) t' iv')) (tile_op lb step loop iv k)"
      using exec by (simp add: tile_op_def start_exec_commutes)
  next
    case transfer: (Some t)
    then have st: "isStore (vt_copy t)" using assms(6) op_transfer_Some(2) by (auto simp: is_load_at_def)
    have "uses_at loop (vt_buffer t) k" using bspec [OF assms(1) [unfolded accesses_listed_def], of k] assms(5) transfer by simp
    from buf [OF this] show "commutes (exec_tile tc (\<lambda>iv. createSlot iv lb step)) (Start (createDMAStart 0 (createSlot iv' lb step) t' iv')) (tile_op lb step loop iv k)"
      unfolding tile_op_def transfer option.case
      by (intro load_store_commutes [OF assms(2,4,3,7,8,9,5) transfer st]) (use ddr [OF transfer st] in auto)
  qed
qed

lemma op_in_transfers:
  assumes "analyzeTileLoop loop = Some ts" and "k < length (tl_body loop)" and "op_transfer loop k = Some t"
  shows "isLoad (vt_copy t) \<Longrightarrow> t \<in> set (fst ts)" and "isStore (vt_copy t) \<Longrightarrow> t \<in> set (snd ts)"
  using analyzeTileLoop_Some(1,2) [OF assms(1)] assms(2,3) by (auto simp: set_transfers_at)

lemma sync_iteration:
  assumes a: "analyzeTileLoop loop = Some ts" and acc: "accesses_listed loop tc ivs" and v: "views_ok loop ivs" and ns: "no_stale_loads ts step ivs"
    and iv: "iv \<in> set ivs"
  shows "sync_run (exec_tile tc (\<lambda>iv. createSlot iv lb step))
      (map Start (starts lb step (loads_of ts) iv) @ tile_body lb step (loads_of ts) (stores_of ts) (length (tl_body loop)) iv) s =
    sync_run (exec_tile tc (\<lambda>iv. createSlot iv lb step)) (map (tile_op lb step loop iv) [0..<length (tl_body loop)]) s"
proof -
  let ?n = "length (tl_body loop)" and ?run = "exec_tile tc (\<lambda>iv. createSlot iv lb step)"
  have com: "commutes ?run (tile_op lb step loop iv x) (tile_op lb step loop iv y)"
    if h: "x < y" "y < ?n" "\<not> is_load_at loop x" "is_load_at loop y" for x y
  proof -
    obtain t' where t': "op_transfer loop y = Some t'" "isLoad (vt_copy t')" using h(4) by (auto simp: is_load_at_def split: option.splits)
    have tin: "t' \<in> set (fst ts)" using op_in_transfers(1) [OF a h(2) t'] .
    have x: "x < ?n" using h by simp
    have "commutes ?run (tile_op lb step loop iv y) (tile_op lb step loop iv x)"
    proof (rule load_commutes [OF acc v iv iv x h(3) h(2) t'])
      fix b
      assume "uses_at loop b x"
      from staged_use(1) [OF a this tin] h(1) op_transfer_Some(1) [OF t'(1)]
      show "createSlot iv lb step \<noteq> createSlot iv lb step \<or> vt_buffer t' \<noteq> b" by fastforce
    next
      fix t
      assume t: "op_transfer loop x = Some t" "isStore (vt_copy t)"
      from op_in_transfers(2) [OF a x t] tin iv ns h(1) op_transfer_Some(1) [OF t(1)] op_transfer_Some(1) [OF t'(1)]
      show "ddr_region t' iv \<inter> ddr_region t iv = {}" unfolding no_stale_loads_def by blast
    qed
    then show ?thesis by (rule commutes_sym)
  qed
  have "sorted_wrt (\<lambda>x y. \<not> is_load_at loop x \<and> is_load_at loop y \<longrightarrow> commutes ?run (tile_op lb step loop iv x) (tile_op lb step loop iv y)) [0..<?n]"
    by (rule sorted_wrt_mono_rel [OF _ sorted_wrt_upt]) (use com in auto)
  from partition_run [OF this, of s]
  show ?thesis unfolding sync_run_append sync_body [OF a order_refl] sync_loads_of [OF a] .
qed

lemma loads_past_body:
  assumes a: "analyzeTileLoop loop = Some ts" and acc: "accesses_listed loop tc ivs" and v: "views_ok loop ivs" and ns: "no_stale_loads ts step ivs"
    and iv: "iv \<in> set ivs" "iv + step \<in> set ivs" and s: "0 < step"
  shows "sync_run (exec_tile tc (\<lambda>iv. createSlot iv lb step))
      (map Start (starts lb step (loads_of ts) (iv + step)) @ tile_body lb step (loads_of ts) (stores_of ts) (length (tl_body loop)) iv) st =
    sync_run (exec_tile tc (\<lambda>iv. createSlot iv lb step))
      (tile_body lb step (loads_of ts) (stores_of ts) (length (tl_body loop)) iv @ map Start (starts lb step (loads_of ts) (iv + step))) st"
proof -
  let ?n = "length (tl_body loop)" and ?run = "exec_tile tc (\<lambda>iv. createSlot iv lb step)"
  let ?loads = "map (tile_op lb step loop (iv + step)) (filter (is_load_at loop) [0..<?n])"
  let ?body = "map (tile_op lb step loop iv) (filter (\<lambda>k. \<not> is_load_at loop k) [0..<?n])"
  have "commutes ?run (tile_op lb step loop (iv + step) y) (tile_op lb step loop iv x)"
    if h: "x < ?n" "y < ?n" "\<not> is_load_at loop x" "is_load_at loop y" for x y
  proof -
    obtain t' where t': "op_transfer loop y = Some t'" "isLoad (vt_copy t')" using h(4) by (auto simp: is_load_at_def split: option.splits)
    have tin: "t' \<in> set (fst ts)" using op_in_transfers(1) [OF a h(2) t'] .
    show ?thesis
    proof (rule load_commutes [OF acc v iv h(1,3,2) t'])
      show "createSlot (iv + step) lb step \<noteq> createSlot iv lb step \<or> vt_buffer t' \<noteq> b" for b using slot_flips [OF s] by blast
      fix t
      assume t: "op_transfer loop x = Some t" "isStore (vt_copy t)"
      from op_in_transfers(2) [OF a h(1) t] tin iv ns show "ddr_region t' (iv + step) \<inter> ddr_region t iv = {}"
        unfolding no_stale_loads_def by blast
    qed
  qed
  then have "\<forall>i\<in>set ?loads. \<forall>j\<in>set ?body. commutes ?run i j" by auto
  from commutes_run [OF this, of st]
  show ?thesis unfolding sync_run_append sync_body [OF a order_refl] sync_loads_of [OF a] .
qed

section \<open>The whole loop on two slots\<close>

lemma sync_waits [simp]: "sync_run run (createDMAWaits lb step ts iv) s = s"
  by (induction ts arbitrary: s) (auto simp: createDMAWaits_def sync_run_def)

lemma sync_pl_iteration:
  "sync_run run (iteration loop ts lb ub step iv) s =
   sync_run run ((if iv + step < ub then map Start (starts lb step (loads_of ts) (iv + step)) else []) @
     tile_body lb step (loads_of ts) (stores_of ts) (length (tl_body loop)) iv) s"
proof -
  have tail: "sync_run run (if lb < iv then createDMAWaits lb step (stores_of ts) (iv - step) else []) s = s" for s
    by (simp add: sync_run_def [of run "[]"])
  show ?thesis unfolding pipelineTileLoop_def Let_def pipelined_loop.select_convs issueLoads_starts sync_run_append sync_waits tail by simp
qed

abbreviation double_iteration :: "tile_loop \<Rightarrow> int \<Rightarrow> int \<Rightarrow> int \<Rightarrow> tile_program" where
  "double_iteration loop lb step iv \<equiv> map (tile_op lb step loop iv) [0..<length (tl_body loop)]"

lemma sync_loop:
  assumes a: "analyzeTileLoop loop = Some ts" and acc: "accesses_listed loop tc ivs" and v: "views_ok loop ivs" and ns: "no_stale_loads ts step ivs"
    and s: "0 < step" and "iv < ub" and "set (loop_ivs iv ub step) \<subseteq> set ivs"
  shows "sync_run (exec_tile tc (\<lambda>iv. createSlot iv lb step))
      (map Start (starts lb step (loads_of ts) iv) @ concat (map (iteration loop ts lb ub step) (loop_ivs iv ub step))) st =
    sync_run (exec_tile tc (\<lambda>iv. createSlot iv lb step)) (concat (map (double_iteration loop lb step) (loop_ivs iv ub step))) st"
  using s assms(6,7)
proof (induction iv arbitrary: st rule: loop_ivs_induct)
  case (last iv)
  then have "iv \<in> set ivs" using s by (simp add: loop_ivs_Cons)
  from sync_iteration [OF a acc v ns this, of lb st] last s show ?case
    by (simp add: loop_ivs_Cons loop_ivs_Nil sync_run_append sync_pl_iteration)
next
  case (step iv)
  let ?run = "exec_tile tc (\<lambda>iv. createSlot iv lb step)" and ?body = "tile_body lb step (loads_of ts) (stores_of ts) (length (tl_body loop)) iv"
  let ?rest = "concat (map (iteration loop ts lb ub step) (loop_ivs (iv + step) ub step))"
  let ?next = "map Start (starts lb step (loads_of ts) (iv + step))"
  have iv: "iv \<in> set ivs" "iv + step \<in> set ivs" "set (loop_ivs (iv + step) ub step) \<subseteq> set ivs"
    using step.prems step.hyps s by (auto simp: loop_ivs_Cons [of step iv] loop_ivs_Cons [of step "iv + step"])
  have "sync_run ?run (map Start (starts lb step (loads_of ts) iv) @ concat (map (iteration loop ts lb ub step) (loop_ivs iv ub step))) st =
      sync_run ?run ?rest (sync_run ?run (?next @ ?body) (sync_run ?run (map Start (starts lb step (loads_of ts) iv)) st))"
    using step.hyps s by (simp add: loop_ivs_Cons [of step iv] sync_run_append sync_pl_iteration)
  also have "\<dots> = sync_run ?run (?next @ ?rest) (sync_run ?run (map Start (starts lb step (loads_of ts) iv) @ ?body) st)"
    unfolding loads_past_body [OF a acc v ns iv(1,2) s, of lb] by (simp add: sync_run_append)
  also have "\<dots> = sync_run ?run (concat (map (double_iteration loop lb step) (loop_ivs iv ub step))) st"
    unfolding step.IH [OF iv(3)] sync_iteration [OF a acc v ns iv(1), of lb]
    using step.hyps s by (simp add: loop_ivs_Cons [of step iv] sync_run_append)
  finally show ?case .
qed

lemma sync_pipelined:
  assumes a: "analyzeTileLoop loop = Some ts" and acc: "accesses_listed loop tc (loop_ivs lb ub step)" and v: "views_ok loop (loop_ivs lb ub step)"
    and ns: "no_stale_loads ts step (loop_ivs lb ub step)" and s: "0 < step" and lb: "lb < ub"
  shows "sync_run (exec_tile tc (\<lambda>iv. createSlot iv lb step)) (pipelined_program (pipelineTileLoop (length (tl_body loop)) ts lb ub step) lb ub step) st =
    sync_run (exec_tile tc (\<lambda>iv. createSlot iv lb step)) (concat (map (double_iteration loop lb step) (loop_ivs lb ub step))) st"
proof -
  have "sync_run run (pipelined_program (pipelineTileLoop (length (tl_body loop)) ts lb ub step) lb ub step) st =
      sync_run run (map Start (starts lb step (loads_of ts) lb) @ concat (map (iteration loop ts lb ub step) (loop_ivs lb ub step))) st"
    for run :: "nat \<times> int \<Rightarrow> 'a mem \<times> 'b \<Rightarrow> 'a mem \<times> 'b"
    unfolding pipelined_program_def sync_run_append by (simp add: pipelineTileLoop_def Let_def issueLoads_starts)
  with sync_loop [OF a acc v ns s lb order_refl, of lb st] show ?thesis by simp
qed

section \<open>Two slots against one\<close>

text \<open>The same DDR and private memory, and the same elements of the buffers as far as they are defined.\<close>

definition same_data :: "(nat \<times> int) set \<Rightarrow> nat \<Rightarrow> 'v mem \<times> 'r \<Rightarrow> 'v mem \<times> 'r \<Rightarrow> bool" where
  "same_data V slot s1 s2 \<longleftrightarrow> snd s1 = snd s2 \<and> (\<forall>a. fst s1 (Ddr a) = fst s2 (Ddr a)) \<and>
     (\<forall>p\<in>V. fst s1 (slot_loc slot p) = fst s2 (slot_loc 0 p))"

definition vtcm_region :: "vtcm_transfer \<Rightarrow> int \<Rightarrow> (nat \<times> int) set" where
  "vtcm_region t iv = Pair (vt_buffer t) ` set (view_index (val_view (vtcm_value (vt_copy t)) iv))"

text \<open>What an operation reads of the buffers, and what it writes.\<close>

definition op_reads :: "tile_loop \<Rightarrow> ('v, 'r) tile_compute \<Rightarrow> int \<Rightarrow> nat \<Rightarrow> (nat \<times> int) set" where
  "op_reads loop tc iv k = (case op_transfer loop k of None \<Rightarrow> set (tc_reads tc k iv) | Some t \<Rightarrow> if isLoad (vt_copy t) then {} else vtcm_region t iv)"

definition op_writes :: "tile_loop \<Rightarrow> ('v, 'r) tile_compute \<Rightarrow> int \<Rightarrow> nat \<Rightarrow> (nat \<times> int) set" where
  "op_writes loop tc iv k = (case op_transfer loop k of None \<Rightarrow> set (tc_writes tc k iv) | Some t \<Rightarrow> if isLoad (vt_copy t) then vtcm_region t iv else {})"

text \<open>No operation reads an element of a buffer that its iteration did not load or write: the pass does not
  support loops that keep data of a tile for the next one.\<close>

fun reads_defined :: "tile_loop \<Rightarrow> ('v, 'r) tile_compute \<Rightarrow> int \<Rightarrow> nat list \<Rightarrow> (nat \<times> int) set \<Rightarrow> bool" where
  "reads_defined loop tc iv [] V \<longleftrightarrow> True"
| "reads_defined loop tc iv (k # ks) V \<longleftrightarrow> op_reads loop tc iv k \<subseteq> V \<and> reads_defined loop tc iv ks (V \<union> op_writes loop tc iv k)"

lemma slot_loc_inj: "slot_loc s p = slot_loc s q \<longleftrightarrow> p = q"
  by (auto simp: slot_loc_def prod_eq_iff)

lemma map_of_slot_loc: "map_of (zip (map (slot_loc s) ws) ys) (slot_loc s p) = map_of (zip ws ys) p"
proof (induction ws arbitrary: ys)
  case (Cons w ws)
  then show ?case by (cases ys) (auto simp: slot_loc_inj)
qed simp

lemma map_of_slot_Ddr: "map_of (zip (map (slot_loc s) ws) ys) (Ddr a) = None"
proof (induction ws arbitrary: ys)
  case (Cons w ws)
  then show ?case by (cases ys) (auto simp: slot_loc_def)
qed simp

lemma exec_same_data:
  assumes "same_data V (slot_of iv) s1 s2" and "set (tc_reads tc k iv) \<subseteq> V"
  shows "same_data (V \<union> set (tc_writes tc k iv)) (slot_of iv) (exec_tile tc slot_of (k, iv) s1) (exec_tile tc (\<lambda>_. 0) (k, iv) s2)"
proof -
  obtain m1 r m2 where s: "s1 = (m1, r)" "s2 = (m2, r)" using assms(1) by (cases s1; cases s2) (auto simp: same_data_def)
  have eq: "map (\<lambda>p. m1 (slot_loc (slot_of iv) p)) (tc_reads tc k iv) = map (\<lambda>p. m2 (slot_loc 0 p)) (tc_reads tc k iv)"
    using assms s by (auto simp: same_data_def)
  have "map_of (zip ws [0..<length ws]) p \<noteq> None" if "p \<in> set ws" for p and ws :: "(nat \<times> int) list"
    using that by (simp add: map_of_zip_is_None)
  then show ?thesis using assms(1) unfolding s exec_tile_eq eq
    by (auto simp: same_data_def Let_def map_of_slot_Ddr map_of_slot_loc dest!: map_of_SomeD dest: set_zip_leftD split: option.splits)
qed

lemma load_same_data:
  assumes "same_data V slot (m1, r) (m2, r)"
  shows "same_data (V \<union> Pair b ` set (map snd ps)) slot
    (fold move (map (\<lambda>p. (Ddr (fst p), Vtcm b slot (snd p))) ps) m1, r) (fold move (map (\<lambda>p. (Ddr (fst p), Vtcm b 0 (snd p))) ps) m2, r)"
  using assms
proof (induction ps arbitrary: m1 m2 V)
  case (Cons p ps)
  have "same_data (insert (b, snd p) V) slot (move (Ddr (fst p), Vtcm b slot (snd p)) m1, r) (move (Ddr (fst p), Vtcm b 0 (snd p)) m2, r)"
    using Cons.prems by (auto simp: same_data_def move_def slot_loc_def)
  from Cons.IH [OF this] show ?case by simp
qed simp

lemma store_same_data:
  assumes "same_data V slot (m1, r) (m2, r)" and "Pair b ` set (map snd ps) \<subseteq> V"
  shows "same_data V slot
    (fold move (map (\<lambda>p. (Vtcm b slot (snd p), Ddr (fst p))) ps) m1, r) (fold move (map (\<lambda>p. (Vtcm b 0 (snd p), Ddr (fst p))) ps) m2, r)"
  using assms
proof (induction ps arbitrary: m1 m2)
  case (Cons p ps)
  have "same_data V slot (move (Vtcm b slot (snd p), Ddr (fst p)) m1, r) (move (Vtcm b 0 (snd p), Ddr (fst p)) m2, r)"
    using Cons.prems by (auto simp: same_data_def move_def slot_loc_def)
  from Cons.IH [OF this] Cons.prems show ?case by simp
qed simp

lemma length_view_index: "length (view_index v) = v_rows v * v_cols v"
proof -
  have "length (concat (map (\<lambda>r. map (g r) [0..<w]) [0..<n])) = n * w" for g :: "nat \<Rightarrow> nat \<Rightarrow> int" and w n
    by (induction n) simp_all
  then show ?thesis by (simp add: view_index_def)
qed

lemma copy_moves_pairs:
  "copy_moves load dv b slot vv = map (\<lambda>p. direct load (Ddr (fst p), Vtcm b slot (snd p))) (zip (view_index dv) (view_index vv))"
  unfolding copy_moves_def zip_map_map by (auto simp: case_prod_unfold)

lemma op_same_data:
  assumes v: "views_ok loop ivs" and iv: "iv \<in> set ivs" and k: "k < length (tl_body loop)"
    and d: "same_data V (createSlot iv lb step) s1 s2" and r: "op_reads loop tc iv k \<subseteq> V"
  shows "same_data (V \<union> op_writes loop tc iv k) (createSlot iv lb step)
    (sync_instr (exec_tile tc (\<lambda>iv. createSlot iv lb step)) (tile_op lb step loop iv k) s1)
    (sync_instr (exec_tile tc (\<lambda>_. 0)) (original_op 0 loop iv k) s2)"
proof (cases "op_transfer loop k")
  case None
  with exec_same_data [of V "\<lambda>iv. createSlot iv lb step" iv s1 s2 tc k] d r show ?thesis
    by (simp add: tile_op_def original_op_def op_reads_def op_writes_def)
next
  case (Some t)
  let ?slot = "createSlot iv lb step" and ?dv = "val_view (ddr_value (vt_copy t)) iv" and ?vv = "val_view (vtcm_value (vt_copy t)) iv"
  let ?ps = "zip (view_index ?dv) (view_index ?vv)"
  have "\<forall>iv\<in>set ivs. let copy = vt_copy t in copy_views_ok (val_type (ddr_value copy)) (val_view (ddr_value copy) iv) (val_type (vtcm_value copy))
      (val_view (vtcm_value copy) iv) (tl_buffer_type loop (vt_buffer t))"
    using bspec [OF v [unfolded views_ok_def], of k] k Some by simp
  then have "length (view_index ?dv) = length (view_index ?vv)" using iv by (auto simp: Let_def copy_views_ok_def length_view_index)
  then have reg: "Pair (vt_buffer t) ` set (map snd ?ps) = vtcm_region t iv" by (simp add: vtcm_region_def)
  obtain m1 q m2 where s: "s1 = (m1, q)" "s2 = (m2, q)" using d by (cases s1; cases s2) (auto simp: same_data_def)
  have run1: "sync_instr run (tile_op lb step loop iv k) s1 = (fold move (copy_moves (isLoad (vt_copy t)) ?dv (vt_buffer t) ?slot ?vv) m1, q)" for run
    using start_moves [OF v iv k Some, of 0 ?slot] Some s by (simp add: tile_op_def copy_transfer_def Let_def)
  have run2: "sync_instr run (original_op 0 loop iv k) s2 = (fold move (copy_moves (isLoad (vt_copy t)) ?dv (vt_buffer t) 0 ?vv) m2, q)" for run
    using Some s by (simp add: original_op_def copy_transfer_def Let_def)
  show ?thesis
  proof (cases "isLoad (vt_copy t)")
    case True
    with load_same_data [OF d [unfolded s], of "vt_buffer t" ?ps] Some show ?thesis
      unfolding run1 run2 copy_moves_pairs reg by (simp add: direct_def op_writes_def)
  next
    case False
    then have "Pair (vt_buffer t) ` set (map snd ?ps) \<subseteq> V" using r Some unfolding reg by (simp add: op_reads_def)
    from store_same_data [OF d [unfolded s] this] False Some show ?thesis
      unfolding run1 run2 copy_moves_pairs by (simp add: direct_def op_writes_def)
  qed
qed

lemma iteration_same_data:
  assumes v: "views_ok loop ivs" and iv: "iv \<in> set ivs" and "same_data V (createSlot iv lb step) s1 s2"
    and "\<forall>k\<in>set ks. k < length (tl_body loop)" and "reads_defined loop tc iv ks V"
  shows "\<exists>V'. same_data V' (createSlot iv lb step)
    (sync_run (exec_tile tc (\<lambda>iv. createSlot iv lb step)) (map (tile_op lb step loop iv) ks) s1)
    (sync_run (exec_tile tc (\<lambda>_. 0)) (map (original_op 0 loop iv) ks) s2)"
  using assms(3-)
proof (induction ks arbitrary: V s1 s2)
  case Nil
  then show ?case by (auto simp: sync_run_def)
next
  case (Cons k ks)
  then have "same_data (V \<union> op_writes loop tc iv k) (createSlot iv lb step)
      (sync_instr (exec_tile tc (\<lambda>iv. createSlot iv lb step)) (tile_op lb step loop iv k) s1)
      (sync_instr (exec_tile tc (\<lambda>_. 0)) (original_op 0 loop iv k) s2)" by (intro op_same_data [OF v iv]) auto
  from Cons.IH [OF this] Cons.prems show ?case by (simp add: sync_run_def)
qed

lemma loop_same_data:
  assumes v: "views_ok loop ivs" and rd: "\<forall>iv\<in>set ivs. reads_defined loop tc iv [0..<length (tl_body loop)] {}"
    and "set js \<subseteq> set ivs" and "same_data {} 0 s1 s2"
  shows "same_data {} 0 (sync_run (exec_tile tc (\<lambda>iv. createSlot iv lb step)) (concat (map (double_iteration loop lb step) js)) s1)
    (sync_run (exec_tile tc (\<lambda>_. 0)) (concat (map (original_iteration 0 loop) js)) s2)"
  using assms(3,4)
proof (induction js arbitrary: s1 s2)
  case Nil
  then show ?case by (simp add: sync_run_def)
next
  case (Cons iv js)
  have "same_data {} (createSlot iv lb step) s1 s2" using Cons.prems(2) by (simp add: same_data_def)
  from iteration_same_data [OF v _ this, of "[0..<length (tl_body loop)]" tc] rd Cons.prems(1)
  have "same_data {} 0 (sync_run (exec_tile tc (\<lambda>iv. createSlot iv lb step)) (double_iteration loop lb step iv) s1)
      (sync_run (exec_tile tc (\<lambda>_. 0)) (original_iteration 0 loop iv) s2)"
    unfolding original_iteration_def by (auto simp: same_data_def)
  from Cons.IH [OF _ this] Cons.prems(1) show ?case by (simp add: sync_run_append)
qed

end
