(* ===== verification/Vtcm_Pipeline_Properties.thy ===== *)
theory Vtcm_Pipeline_Properties
  imports Vtcm_Equivalence
begin

text \<open>The properties of the pipelining of tile loops, with a loop that satisfies their assumptions.\<close>

section \<open>What the pass relies on\<close>

text \<open>The use lists of the buffers are complete and views have the sizes of their types, as the IR
  guarantees; no load is stale and no computation reads data of another tile, as the pass assumes.\<close>

definition supported_loop :: "tile_loop \<Rightarrow> ('v, 'r) tile_compute \<Rightarrow> int \<Rightarrow> int \<Rightarrow> int \<Rightarrow> bool" where
  "supported_loop loop tc lb ub step \<longleftrightarrow>
     (let ivs = loop_ivs lb ub step
      in accesses_listed loop tc ivs \<and> views_ok loop ivs \<and>
         (\<forall>iv\<in>set ivs. reads_defined loop tc iv [0..<length (tl_body loop)] {}) \<and>
         (case analyzeTileLoop loop of None \<Rightarrow> False | Some ts \<Rightarrow> no_stale_loads ts step ivs))"

lemma process_loop_Pipelined:
  assumes "process_loop multiBuffer outer loops loop = Pipelined p" and "tl_lb loop = Some lb" and "tl_ub loop = Some ub" and "tl_step loop = Some step"
  obtains ts where "analyzeTileLoop loop = Some ts" "0 < step" "2 \<le> divideCeil (ub - lb) step"
    "p = pipelineTileLoop (length (tl_body loop)) ts lb ub step"
  using assms by (auto simp: process_loop_def split: if_splits option.splits)

lemma pipelined_run:
  assumes p: "process_loop multiBuffer outer loops loop = Pipelined p" and b: "tl_lb loop = Some lb" "tl_ub loop = Some ub" "tl_step loop = Some step"
    and range: "lb \<le> ub" "ub - lb < 2 ^ 63" and sup: "supported_loop loop tc lb ub step"
    and run: "(dma_step (exec_tile tc (\<lambda>iv. createSlot iv lb step)))\<^sup>*\<^sup>* (pipelined_program p lb ub step, s, []) ([], s2, q2)"
  shows "q2 = [] \<and> same_data {} 0 s2 (sync_run (exec_tile tc (\<lambda>_. 0)) (original_program loop lb ub step) s)"
proof -
  obtain ts where ts: "analyzeTileLoop loop = Some ts" "0 < step" "2 \<le> divideCeil (ub - lb) step"
    and p': "p = pipelineTileLoop (length (tl_body loop)) ts lb ub step"
    using process_loop_Pipelined [OF p b] by blast
  have lb: "lb < ub" using range(1) ts(3) by (cases "lb = ub") (simp_all add: divideCeil_def)
  have sup': "accesses_listed loop tc (loop_ivs lb ub step)" "views_ok loop (loop_ivs lb ub step)"
    "\<forall>iv\<in>set (loop_ivs lb ub step). reads_defined loop tc iv [0..<length (tl_body loop)] {}" "no_stale_loads ts step (loop_ivs lb ub step)"
    using sup ts(1) by (simp_all add: supported_loop_def Let_def)
  from tile.run_sync [OF run [unfolded p'] pipelined_safe [OF ts(1) sup'(1) ts(2) lb] pipelined_pending [OF ts(1,2) lb range(2)]]
  have "q2 = [] \<and> s2 = sync_run (exec_tile tc (\<lambda>iv. createSlot iv lb step)) (concat (map (double_iteration loop lb step) (loop_ivs lb ub step))) s"
    unfolding sync_pipelined [OF ts(1) sup'(1,2,4) ts(2) lb] .
  moreover have "same_data {} 0 s s" by (simp add: same_data_def)
  ultimately show ?thesis using loop_same_data [OF sup'(2,3) order_refl, of s s lb step] by (auto simp: original_program_def)
qed

section \<open>A loop\<close>

text \<open>Tiles of two elements are loaded, incremented and stored behind element 100.\<close>

definition sample_type :: "int \<Rightarrow> tile_type" where
  "sample_type space = \<lparr>ty_shape = [Some 2], ty_strides = Some [Some 1], ty_elem = IntOrFloat 32, ty_space = Some space\<rparr>"

definition sample_value :: "int \<Rightarrow> view_source \<Rightarrow> (int \<Rightarrow> int) \<Rightarrow> copy_operand" where
  "sample_value space src start = \<lparr>val_type = sample_type space, val_source = src, val_slice = [],
     val_view = (\<lambda>iv. \<lparr>v_offset = start iv, v_rows = 1, v_cols = 2, v_row_stride = 2, v_col_stride = 1\<rparr>)\<rparr>"

definition sample_load :: copy_op where
  "sample_load = \<lparr>cp_id = 0, cp_source = sample_value 0 OtherValue (\<lambda>iv. 2 * iv), cp_target = sample_value 1 (AllocResult 0) (\<lambda>iv. 0)\<rparr>"

definition sample_store :: copy_op where
  "sample_store = \<lparr>cp_id = 1, cp_source = sample_value 1 (SubViewOf (AllocResult 1)) (\<lambda>iv. 0), cp_target = sample_value 0 OtherValue (\<lambda>iv. 100 + 2 * iv)\<rparr>"

definition sample_loop :: "int \<Rightarrow> tile_loop" where
  "sample_loop ub = \<lparr>tl_id = 0, tl_lb = Some 0, tl_ub = Some ub, tl_step = Some 1, tl_init_args = 0, tl_parents = [],
     tl_body = [\<lparr>bo_id = 0, bo_copy = Some sample_load, bo_nested = []\<rparr>, \<lparr>bo_id = 1, bo_copy = None, bo_nested = []\<rparr>,
       \<lparr>bo_id = 2, bo_copy = Some sample_store, bo_nested = []\<rparr>],
     tl_users = (\<lambda>b. if b = 0 then [User OtherUser (InBody 0) [], User OtherUser (InBody 1) []]
       else [User SubViewUser OutsideLoop [User OtherUser (InBody 2) []], User OtherUser (InBody 1) [], User DeallocUser OutsideLoop []]),
     tl_buffer_type = (\<lambda>b. sample_type 1), tl_buffer_inside = (\<lambda>b. False)\<rparr>"

definition sample_compute :: "(int, unit) tile_compute" where
  "sample_compute = \<lparr>tc_reads = (\<lambda>k iv. [(0, 0), (0, 1)]), tc_writes = (\<lambda>k iv. [(1, 0), (1, 1)]),
     tc_fun = (\<lambda>k iv vals r. (\<lambda>i. vals ! i + 1, r))\<rparr>"

definition sample_transfers :: transfers where
  "sample_transfers =
     ([\<lparr>vt_position = 0, vt_copy = sample_load, vt_buffer = 0, vt_shape = \<lparr>maxElements = 2, ds_stride = None, ds_width = 0\<rparr>\<rparr>],
      [\<lparr>vt_position = 2, vt_copy = sample_store, vt_buffer = 1, vt_shape = \<lparr>maxElements = 2, ds_stride = None, ds_width = 0\<rparr>\<rparr>])"

lemmas sample_defs = sample_type_def sample_value_def sample_load_def sample_store_def

lemma sample_kinds: "isLoad sample_load" "\<not> isLoad sample_store" "isStore sample_store"
  by (simp_all add: isLoad_def isStore_def isInMemorySpace_def sample_defs DEFAULT_DDR_ADDRESS_SPACE_def VTCM_ADDRESS_SPACE_def)

lemma sample_shape: "getDMAShape (sample_type 0) (sample_type 1) (sample_type 1) = Some \<lparr>maxElements = 2, ds_stride = None, ds_width = 0\<rparr>"
  by (simp add: getDMAShape_def sample_type_def has_static_shape_def num_elements_def getRowStride_def Let_def kMax1DTransferBytes_def)

lemma sample_values:
  "val_type (cp_source sample_load) = sample_type 0" "val_type (cp_target sample_load) = sample_type 1"
  "val_type (cp_source sample_store) = sample_type 1" "val_type (cp_target sample_store) = sample_type 0"
  "val_source (cp_target sample_load) = AllocResult 0" "val_source (cp_source sample_store) = SubViewOf (AllocResult 1)"
  "val_slice (cp_source sample_load) = []" "val_slice (cp_target sample_load) = []" "val_slice (cp_target sample_store) = []"
  by (simp_all add: sample_load_def sample_store_def sample_value_def)

lemma sample_ops:
  "analyze_copy (sample_loop ub) 0 sample_load = Some (hd (fst sample_transfers))"
  "analyze_copy (sample_loop ub) 2 sample_store = Some (hd (snd sample_transfers))"
  by (simp_all add: analyze_copy_def sample_kinds sample_values sample_shape isRecomputable_def sample_transfers_def sample_loop_def)

lemma sample_tile_analysis: "analyzeTileLoop (sample_loop ub) = Some sample_transfers"
proof -
  have "collect_copies (sample_loop ub) 0 (tl_body (sample_loop ub)) ([], []) = Some sample_transfers"
    using sample_ops [of ub] by (simp add: sample_loop_def sample_kinds sample_transfers_def transfer_of_def numeral_2_eq_2)
  moreover have "list_all (copy_accounted sample_transfers) [sample_load, sample_store]"
    by (simp add: copy_accounted_def sample_kinds sample_values sample_transfers_def)
  ultimately show ?thesis
    by (simp add: analyzeTileLoop_def sample_transfers_def staged_buffers_def isStagedPerIteration_def ignored_user_def transfer_of_def
        sample_loop_def op_copies_def)
qed

lemma sample_op_transfer:
  "op_transfer (sample_loop ub) 0 = Some (hd (fst sample_transfers))" "op_transfer (sample_loop ub) (Suc 0) = None"
  "op_transfer (sample_loop ub) 2 = Some (hd (snd sample_transfers))"
  using sample_ops [of ub] by (simp_all add: op_transfer_def sample_kinds) (simp_all add: sample_loop_def sample_kinds)

lemma sample_ivs: "loop_ivs 0 3 1 = [0, 1, 2]"
  by (simp add: loop_ivs.simps)

lemma sample_length: "length (tl_body (sample_loop ub)) = 3"
  by (simp add: sample_loop_def)

lemma sample_positions: "{0..<length (tl_body (sample_loop ub))} = {0, Suc 0, 2}"
  by (auto simp: sample_length)

lemma sample_transfer_sel:
  "vt_copy (hd (fst sample_transfers)) = sample_load" "vt_copy (hd (snd sample_transfers)) = sample_store"
  "vt_buffer (hd (fst sample_transfers)) = 0" "vt_buffer (hd (snd sample_transfers)) = Suc 0"
  "vt_position (hd (fst sample_transfers)) = 0" "vt_position (hd (snd sample_transfers)) = 2"
  by (simp_all add: sample_transfers_def)

lemma sample_lists: "set (fst sample_transfers) = {hd (fst sample_transfers)}" "set (snd sample_transfers) = {hd (snd sample_transfers)}"
  by (simp_all add: sample_transfers_def)

lemma sample_upt: "[0..<2] = [0, Suc 0]" "[0..<3] = [0, Suc 0, 2]"
  by (simp_all add: eval_nat_numeral)

lemma sample_uses: "uses_at (sample_loop ub) 0 0" "uses_at (sample_loop ub) 0 (Suc 0)" "uses_at (sample_loop ub) (Suc 0) (Suc 0)" "uses_at (sample_loop ub) (Suc 0) 2"
  by (simp_all add: uses_at_def sample_loop_def ignored_user_def numeral_2_eq_2)

lemma sample_indices:
  "view_index (val_view (cp_source sample_load) iv) = [2 * iv, 2 * iv + 1]" "view_index (val_view (cp_target sample_load) iv) = [0, 1]"
  "view_index (val_view (cp_source sample_store) iv) = [0, 1]" "view_index (val_view (cp_target sample_store) iv) = [100 + 2 * iv, 101 + 2 * iv]"
  by (simp_all add: view_index_def sample_load_def sample_store_def sample_value_def sample_upt)

lemma sample_views: "views_ok (sample_loop ub) ivs"
  unfolding views_ok_def sample_positions
  by (simp add: sample_op_transfer sample_transfer_sel sample_kinds)
    (simp add: copy_views_ok_def view_of_type_def dim_matches_def num_elements_def sample_loop_def sample_defs)

lemma sample_supported: "supported_loop (sample_loop 3) sample_compute 0 3 1"
proof -
  have "accesses_listed (sample_loop 3) sample_compute [0, 1, 2]"
    unfolding accesses_listed_def sample_positions
    by (simp add: sample_op_transfer sample_transfer_sel sample_uses) (auto simp: sample_compute_def sample_uses)
  moreover have "reads_defined (sample_loop 3) sample_compute iv [0..<length (tl_body (sample_loop 3))] {}" for iv
    unfolding sample_length sample_upt
    by (simp add: op_reads_def op_writes_def sample_op_transfer sample_transfer_sel sample_kinds vtcm_region_def sample_indices)
      (simp add: sample_compute_def)
  moreover have "no_stale_loads sample_transfers 1 [0, 1, 2]"
    unfolding no_stale_loads_def sample_lists
    by (simp add: sample_transfer_sel ddr_region_def sample_kinds sample_indices)
  ultimately show ?thesis using sample_views by (simp add: supported_loop_def sample_ivs sample_tile_analysis)
qed

lemma sample_pipelined:
  "process_loop (\<lambda>b. True) False [sample_loop 3] (sample_loop 3) = Pipelined (pipelineTileLoop 3 sample_transfers 0 3 1)"
proof -
  have "tl_parents (sample_loop 3) = []" "tl_init_args (sample_loop 3) = 0" "tl_lb (sample_loop 3) = Some 0"
    "tl_ub (sample_loop 3) = Some 3" "tl_step (sample_loop 3) = Some 1"
    by (simp_all add: sample_loop_def)
  then show ?thesis
    by (simp add: process_loop_def outerLoops_def runsOnDispatchThread_def divideCeil_def sample_tile_analysis sample_length)
      (simp add: sample_transfers_def list_all_iff)
qed

section \<open>Properties\<close>

text \<open>
  C24: a copy for which \<open>getDMAShape\<close> finds a transfer is exactly that transfer: whatever the number of rows is
  when the loop runs, one-dimensional or two-dimensional, the engine moves the elements of the copy, each
  from its place to its place in the same order, and the fields of the descriptor hold its length, its
  width, its height and its stride.
\<close>

theorem dma_transfer_correct:
  assumes "getDMAShape ddrType vtcmType bufferType = Some shape" and "copy_views_ok ddrType ddr vtcmType vtcm bufferType"
    and "ty_elem ddrType = IntOrFloat bits"
  shows "dma_moves load shape (v_offset ddr) buffer slot (v_offset vtcm) (createNumElements vtcmType vtcm shape) =
      copy_moves load ddr buffer slot vtcm \<and>
    (case ds_stride shape of
       None \<Rightarrow> createNumElements vtcmType vtcm shape * int (bits div 8) \<le> kMax1DTransferBytes
     | Some stride \<Rightarrow> ds_width shape * int (bits div 8) \<le> kMax2DFieldValue \<and>
         createNumElements vtcmType vtcm shape div ds_width shape \<le> kMax2DFieldValue \<and> stride * int (bits div 8) \<le> kMax2DFieldValue)"
  using dma_moves_correct [OF assms(1,2)] dma_fields_fit [OF assms] by blast

text \<open>Two rows of a ragged tile, 8 elements apart in DDR.\<close>

definition strided_type :: tile_type where
  "strided_type = \<lparr>ty_shape = [None, Some 3], ty_strides = Some [Some 8, Some 1], ty_elem = IntOrFloat 16, ty_space = Some 0\<rparr>"

definition ragged_type :: tile_type where
  "ragged_type = \<lparr>ty_shape = [None, Some 3], ty_strides = Some [Some 3, Some 1], ty_elem = IntOrFloat 16, ty_space = Some 1\<rparr>"

definition full_type :: tile_type where
  "full_type = ragged_type\<lparr>ty_shape := [Some 4, Some 3]\<rparr>"

definition strided_view :: view where
  "strided_view = \<lparr>v_offset = 40, v_rows = 2, v_cols = 3, v_row_stride = 8, v_col_stride = 1\<rparr>"

definition ragged_view :: view where
  "ragged_view = \<lparr>v_offset = 0, v_rows = 2, v_cols = 3, v_row_stride = 3, v_col_stride = 1\<rparr>"

lemma strided_shape: "getDMAShape strided_type ragged_type full_type = Some \<lparr>maxElements = 12, ds_stride = Some 8, ds_width = 3\<rparr>"
  by (simp add: getDMAShape_def strided_type_def ragged_type_def full_type_def has_static_shape_def num_elements_def getRowStride_def Let_def
      kMax2DFieldValue_def)

lemma strided_views_ok: "copy_views_ok strided_type strided_view ragged_type ragged_view full_type"
  by (simp add: copy_views_ok_def view_of_type_def dim_matches_def num_elements_def strided_type_def ragged_type_def full_type_def
      strided_view_def ragged_view_def)

theorem dma_transfer_correct_witness:
  "map fst (dma_moves True \<lparr>maxElements = 12, ds_stride = Some 8, ds_width = 3\<rparr> 40 0 1 0 6) = map Ddr [40, 41, 42, 48, 49, 50]"
proof -
  have n: "createNumElements ragged_type ragged_view \<lparr>maxElements = 12, ds_stride = Some 8, ds_width = 3\<rparr> = 6"
    by (simp add: createNumElements_def ragged_type_def ragged_view_def has_static_shape_def dim_size_def)
  have "dma_moves True \<lparr>maxElements = 12, ds_stride = Some 8, ds_width = 3\<rparr> (v_offset strided_view) 0 1 (v_offset ragged_view)
      (createNumElements ragged_type ragged_view \<lparr>maxElements = 12, ds_stride = Some 8, ds_width = 3\<rparr>) = copy_moves True strided_view 0 1 ragged_view"
    using dma_transfer_correct [OF strided_shape strided_views_ok, of 16 True 0 1] by (simp add: strided_type_def)
  then show ?thesis unfolding n
    by (simp add: strided_view_def ragged_view_def) (simp add: copy_moves_def view_index_def direct_def eval_nat_numeral)
qed

text \<open>
  C2: the pipelined loop has the effects of the loop it replaces. From any state that a run on the engine
  reaches, however processor and engine interleave, the run can be finished, and every finished run has
  no transfer pending and leaves in DDR and in all memory but the staged buffers what the loop leaves
  when it copies in place, tile after tile.
\<close>

theorem pipelined_loop_equivalent:
  assumes "process_loop multiBuffer outer loops loop = Pipelined p"
    and "tl_lb loop = Some lb" and "tl_ub loop = Some ub" and "tl_step loop = Some step"
    and "lb \<le> ub" and "ub - lb < 2 ^ 63" and "supported_loop loop tc lb ub step"
    and "(dma_step (exec_tile tc (\<lambda>iv. createSlot iv lb step)))\<^sup>*\<^sup>* (pipelined_program p lb ub step, s, []) (p1, s1, q1)"
  shows "(\<exists>s2. (dma_step (exec_tile tc (\<lambda>iv. createSlot iv lb step)))\<^sup>*\<^sup>* (p1, s1, q1) ([], s2, [])) \<and>
    (\<forall>s2 q2. (dma_step (exec_tile tc (\<lambda>iv. createSlot iv lb step)))\<^sup>*\<^sup>* (p1, s1, q1) ([], s2, q2) \<longrightarrow>
       q2 = [] \<and>
       snd s2 = snd (sync_run (exec_tile tc (\<lambda>_. 0)) (original_program loop lb ub step) s) \<and>
       (\<forall>a. fst s2 (Ddr a) = fst (sync_run (exec_tile tc (\<lambda>_. 0)) (original_program loop lb ub step) s) (Ddr a)))"
proof (intro conjI allI impI)
  show "\<exists>s2. (dma_step (exec_tile tc (\<lambda>iv. createSlot iv lb step)))\<^sup>*\<^sup>* (p1, s1, q1) ([], s2, [])" by (rule dma_finishes)
  fix s2 q2
  assume "(dma_step (exec_tile tc (\<lambda>iv. createSlot iv lb step)))\<^sup>*\<^sup>* (p1, s1, q1) ([], s2, q2)"
  note run = pipelined_run [OF assms(1-7) rtranclp_trans [OF assms(8) this]]
  from run show "q2 = []" by blast
  from run show "snd s2 = snd (sync_run (exec_tile tc (\<lambda>_. 0)) (original_program loop lb ub step) s)" by (simp add: same_data_def)
  from run show "fst s2 (Ddr a) = fst (sync_run (exec_tile tc (\<lambda>_. 0)) (original_program loop lb ub step) s) (Ddr a)" for a
    by (simp add: same_data_def)
qed

lemma sample_original:
  "map (\<lambda>a. fst (sync_run (exec_tile sample_compute (\<lambda>_. 0)) (original_program (sample_loop 3) 0 3 1) (\<lambda>l. case l of Ddr a \<Rightarrow> a | _ \<Rightarrow> 0, ())) (Ddr a))
    [100, 101, 102, 103, 104, 105] = [1, 2, 3, 4, 5, 6]"
proof -
  have e: "exec_tile sample_compute (\<lambda>_. 0) (k, iv) (m, r) = (m(Vtcm 1 0 0 := m (Vtcm 0 0 0) + 1, Vtcm 1 0 1 := m (Vtcm 0 0 1) + 1), r)" for k iv r and m :: "int mem"
    unfolding exec_tile_eq by (rule prod_eqI) (auto simp: sample_compute_def slot_loc_def Let_def)
  have it: "original_iteration 0 (sample_loop 3) iv =
      [Start (copy_transfer 0 (hd (fst sample_transfers)) iv), Exec (1, iv), Start (copy_transfer 0 (hd (snd sample_transfers)) iv)]" for iv
    by (simp add: original_iteration_def sample_length sample_upt original_op_def sample_op_transfer)
  have l: "tr_moves (copy_transfer 0 (hd (fst sample_transfers)) iv) = [(Ddr (2 * iv), Vtcm 0 0 0), (Ddr (2 * iv + 1), Vtcm 0 0 1)]" for iv
    by (simp add: copy_transfer_def copy_moves_def sample_transfer_sel sample_kinds sample_indices direct_def)
  have s: "tr_moves (copy_transfer 0 (hd (snd sample_transfers)) iv) = [(Vtcm 1 0 0, Ddr (100 + 2 * iv)), (Vtcm 1 0 1, Ddr (101 + 2 * iv))]" for iv
    by (simp add: copy_transfer_def copy_moves_def sample_transfer_sel sample_kinds sample_indices direct_def)
  show ?thesis by (simp add: original_program_def sample_ivs it sync_run_def l s move_def e)
qed

theorem pipelined_loop_equivalent_witness:
  "\<exists>s2. (dma_step (exec_tile sample_compute (\<lambda>iv. createSlot iv 0 1)))\<^sup>*\<^sup>*
      (pipelined_program (pipelineTileLoop 3 sample_transfers 0 3 1) 0 3 1, (\<lambda>l. case l of Ddr a \<Rightarrow> a | _ \<Rightarrow> 0, ()), []) ([], s2, []) \<and>
    map (\<lambda>a. fst s2 (Ddr a)) [100, 101, 102, 103, 104, 105] = [1, 2, 3, 4, 5, 6]"
proof -
  let ?s = "(\<lambda>l. case l of Ddr a \<Rightarrow> a | _ \<Rightarrow> 0, ())"
  have b: "tl_lb (sample_loop 3) = Some 0" "tl_ub (sample_loop 3) = Some 3" "tl_step (sample_loop 3) = Some 1"
    by (simp_all add: sample_loop_def)
  have r: "(0 :: int) \<le> 3" "(3 :: int) - 0 < 2 ^ 63" by simp_all
  note eq = pipelined_loop_equivalent [OF sample_pipelined b r sample_supported rtranclp.rtrancl_refl, of ?s]
  then obtain s2 where s2: "(dma_step (exec_tile sample_compute (\<lambda>iv. createSlot iv 0 1)))\<^sup>*\<^sup>*
      (pipelined_program (pipelineTileLoop 3 sample_transfers 0 3 1) 0 3 1, ?s, []) ([], s2, [])" by blast
  have "\<forall>a. fst s2 (Ddr a) = fst (sync_run (exec_tile sample_compute (\<lambda>_. 0)) (original_program (sample_loop 3) 0 3 1) ?s) (Ddr a)"
    using conjunct2 [OF eq] s2 by blast
  with sample_original s2 show ?thesis by (intro exI [of _ s2]) simp
qed

end
