(* ===== verification/Dispatch_Abi.thy ===== *)
theory Dispatch_Abi
  imports Dsp_Executable
begin

text \<open>
  What a compiled dispatch function reads: \<open>plugins/compiler/hexagon/CodeGen/Conversion\<close>,
  \<open>HexagonDispatchABI.cpp\<close> with the patterns of \<open>HexagonABIToLLVM.cpp\<close> that use it. The compiler lays
  out the three arguments of a dispatch function as LLVM structures of its own, the runtime as the C
  structures of \<open>dsp/rt/executable_library.h\<close>; the last section shows that the code the compiler
  emits reads what the scheduler of \<open>Cmd_Sched\<close> put there.

  A definition here gives the value of the LLVM instructions that the function of the same name
  emits, in a memory and for the three arguments. Addresses and the index type have 32 bits
  (\<open>overrideIndexBitwidth\<close> with the pointer size).
\<close>

section \<open>The structures on both sides\<close>

definition dispatch_state_t :: abi_type where
  "dispatch_state_t = Struct_Type
     [Int_Type 4, Int_Type 4, Int_Type 2, Int_Type 4, Int_Type 4, Int_Type 2, Int_Type 1,
      Ptr_Type, Ptr_Type, Ptr_Type, Ptr_Type]"

definition workgroup_state_t :: abi_type where
  "workgroup_state_t = Struct_Type [Int_Type 4, Int_Type 4, Int_Type 2, Int_Type 2, Int_Type 4, Ptr_Type]"

definition getEnvironmentType :: abi_type where
  "getEnvironmentType = Struct_Type [Ptr_Type]"

definition getDispatchStateType :: abi_type where
  "getDispatchStateType = Struct_Type
     ([Int_Type 4, Int_Type 4, Int_Type 2] @ [Int_Type 4, Int_Type 4, Int_Type 2] @ [Int_Type 1] @
      [Ptr_Type, Ptr_Type, Ptr_Type] @ [Ptr_Type])"

definition getWorkgroupStateType :: abi_type where
  "getWorkgroupStateType = Struct_Type ([Int_Type 4, Int_Type 4, Int_Type 2] @ [Int_Type 4] @ [Ptr_Type])"

text \<open>The enumerators are their positions; \<open>operator+\<close> adds to the number.\<close>

definition environment_constants :: nat where "environment_constants = 0"

definition field_workgroup_size_x :: nat where "field_workgroup_size_x = 0"
definition field_workgroup_count_x :: nat where "field_workgroup_count_x = 3"
definition field_constants :: nat where "field_constants = 7"
definition field_binding_ptrs :: nat where "field_binding_ptrs = 8"

definition field_workgroup_id_x :: nat where "field_workgroup_id_x = 0"
definition field_processor_id :: nat where "field_processor_id = 3"

lemmas field_defs = environment_constants_def field_workgroup_size_x_def field_workgroup_count_x_def
  field_constants_def field_binding_ptrs_def field_workgroup_id_x_def field_processor_id_def

section \<open>Values of the emitted code\<close>

text \<open>A value is a type and its bits.\<close>

type_synonym llvm_value = "abi_type \<times> u64"

definition load_value :: "memory \<Rightarrow> usize \<Rightarrow> abi_type \<Rightarrow> llvm_value" where
  "load_value m p t = (t, load m p (type_size t))"

definition value_ptr :: "llvm_value \<Rightarrow> usize" where
  "value_ptr v = ucast (snd v)"

fun struct_fields :: "abi_type \<Rightarrow> abi_type list" where
  "struct_fields (Struct_Type ts) = ts"
| "struct_fields t = []"

text \<open>\<open>LLVM::LoadOp\<close> of a structure and \<open>LLVM::ExtractValueOp\<close> of one field.\<close>

definition load_field :: "memory \<Rightarrow> usize \<Rightarrow> abi_type \<Rightarrow> nat \<Rightarrow> llvm_value" where
  "load_field m p t i = load_value m (p + of_nat (offset_of t [i])) (struct_fields t ! i)"

text \<open>The arguments of the dispatch function.\<close>

record abi_args =
  arg_environment :: usize
  arg_dispatch_state :: usize
  arg_workgroup_state :: usize

definition load_environment_field :: "memory \<Rightarrow> abi_args \<Rightarrow> nat \<Rightarrow> llvm_value" where
  "load_environment_field m a i = load_field m (arg_environment a) getEnvironmentType i"

definition load_dispatch_field :: "memory \<Rightarrow> abi_args \<Rightarrow> nat \<Rightarrow> llvm_value" where
  "load_dispatch_field m a i = load_field m (arg_dispatch_state a) getDispatchStateType i"

definition load_workgroup_field :: "memory \<Rightarrow> abi_args \<Rightarrow> nat \<Rightarrow> llvm_value" where
  "load_workgroup_field m a i = load_field m (arg_workgroup_state a) getWorkgroupStateType i"

text \<open>\<open>zext\<close> to a type that is not wider is rejected by LLVM, and so is one of a pointer.\<close>

fun castValueToType :: "llvm_value \<Rightarrow> abi_type \<Rightarrow> llvm_value option" where
  "castValueToType (t, v) t' =
     (if t = t' then Some (t, v)
      else case (t, t') of (Int_Type n, Int_Type n') \<Rightarrow> if n < n' then Some (t', v) else None | _ \<Rightarrow> None)"

definition loadWorkgroupID :: "memory \<Rightarrow> abi_args \<Rightarrow> nat \<Rightarrow> abi_type \<Rightarrow> llvm_value option" where
  "loadWorkgroupID m a dim t = castValueToType (load_workgroup_field m a (field_workgroup_id_x + dim)) t"

definition loadWorkgroupCount :: "memory \<Rightarrow> abi_args \<Rightarrow> nat \<Rightarrow> abi_type \<Rightarrow> llvm_value option" where
  "loadWorkgroupCount m a dim t = castValueToType (load_dispatch_field m a (field_workgroup_count_x + dim)) t"

definition loadWorkgroupSize :: "memory \<Rightarrow> abi_args \<Rightarrow> nat \<Rightarrow> abi_type \<Rightarrow> llvm_value option" where
  "loadWorkgroupSize m a dim t = castValueToType (load_dispatch_field m a (field_workgroup_size_x + dim)) t"

definition loadPushConstant :: "memory \<Rightarrow> abi_args \<Rightarrow> nat \<Rightarrow> abi_type \<Rightarrow> llvm_value option" where
  "loadPushConstant m a offset t =
     (let constants = value_ptr (load_dispatch_field m a field_constants)
      in castValueToType (load_value m (constants + 4 * of_nat offset) (Int_Type 4)) t)"

definition loadBindingPtr :: "memory \<Rightarrow> abi_args \<Rightarrow> nat \<Rightarrow> usize" where
  "loadBindingPtr m a ordinal =
     (let ptrs = value_ptr (load_dispatch_field m a field_binding_ptrs)
      in value_ptr (load_value m (ptrs + 4 * of_nat ordinal) Ptr_Type))"

definition loadProcessorID :: "memory \<Rightarrow> abi_args \<Rightarrow> llvm_value" where
  "loadProcessorID m a = load_workgroup_field m a field_processor_id"

text \<open>The ordinal is what the placeholder global holds after it has been assigned.\<close>

definition executable_constant_ptr :: "memory \<Rightarrow> abi_args \<Rightarrow> u32 \<Rightarrow> abi_type \<Rightarrow> usize" where
  "executable_constant_ptr m a ordinal t =
     value_ptr (load_environment_field m a environment_constants) + of_nat (type_size t) * ordinal"

definition loadExecutableConstant :: "memory \<Rightarrow> abi_args \<Rightarrow> u32 \<Rightarrow> abi_type \<Rightarrow> llvm_value option" where
  "loadExecutableConstant m a ordinal t =
     castValueToType (load_value m (executable_constant_ptr m a ordinal t) t) t"

section \<open>Descriptors of bindings\<close>

text \<open>
  A memref type: its shape and its strides and offset, where \<open>None\<close> is dynamic. The rank is the
  length of the shape, and there is a stride for each dimension.
\<close>

record memref_type =
  mt_shape :: "int option list"
  mt_strides :: "int option list"
  mt_offset :: "int option"

record memref_descriptor =
  md_allocated :: usize
  md_aligned :: usize
  md_offset :: u32
  md_sizes :: "u32 list"
  md_strides :: "u32 list"

text \<open>\<open>MemRefDescriptor::fromStaticShape\<close> of MLIR.\<close>

definition fromStaticShape :: "memref_type \<Rightarrow> usize \<Rightarrow> memref_descriptor" where
  "fromStaticShape t p =
     \<lparr>md_allocated = p, md_aligned = p, md_offset = word_of_int (the (mt_offset t)),
      md_sizes = map (word_of_int \<circ> the) (mt_shape t), md_strides = map (word_of_int \<circ> the) (mt_strides t)\<rparr>"

fun descriptor_sizes :: "int option list \<Rightarrow> u32 list \<Rightarrow> u32 list" where
  "descriptor_sizes [] dyn = []"
| "descriptor_sizes (Some n # shape) dyn = word_of_int n # descriptor_sizes shape dyn"
| "descriptor_sizes (None # shape) dyn = hd dyn # descriptor_sizes shape (tl dyn)"

text \<open>The loop over the dimensions from the innermost; \<open>current\<close> is the stride of dimension \<open>i\<close>.\<close>

fun set_strides :: "u32 list \<Rightarrow> int option list \<Rightarrow> nat \<Rightarrow> u32 \<Rightarrow> u32 list \<Rightarrow> u32 list" where
  "set_strides sizes strides 0 current acc = acc"
| "set_strides sizes strides (Suc i) current acc =
     (let next_stride = (case strides ! i of None \<Rightarrow> current * sizes ! Suc i | Some s \<Rightarrow> word_of_int s)
      in set_strides sizes strides i next_stride (acc[i := next_stride]))"

definition descriptor_strides :: "u32 list \<Rightarrow> int option list \<Rightarrow> u32 list" where
  "descriptor_strides sizes strides =
     (if strides = [] then []
      else let rank = length sizes
           in set_strides sizes strides (rank - 1) 1 ((replicate rank 0)[rank - 1 := 1]))"

text \<open>
  \<open>loadBinding\<close>; without a byte offset, or with one that is the constant zero, the base pointer is
  used as it is. The code asserts that the innermost stride of the general case is 1.
\<close>

definition loadBinding ::
  "memory \<Rightarrow> abi_args \<Rightarrow> nat \<Rightarrow> u32 option \<Rightarrow> memref_type \<Rightarrow> u32 list \<Rightarrow> memref_descriptor" where
  "loadBinding m a ordinal byte_offset t dyn =
     (let p = loadBindingPtr m a ordinal;
          p = (case byte_offset of None \<Rightarrow> p | Some b \<Rightarrow> if b = 0 then p else p + b)
      in if None \<notin> set (mt_shape t) \<and> None \<notin> set (mt_strides t) \<and> mt_offset t \<noteq> None then fromStaticShape t p
         else let sizes = descriptor_sizes (mt_shape t) dyn
              in \<lparr>md_allocated = p, md_aligned = p,
                  md_offset = (case mt_offset t of None \<Rightarrow> 0 | Some n \<Rightarrow> word_of_int n),
                  md_sizes = sizes, md_strides = descriptor_strides sizes (mt_strides t)\<rparr>)"


section \<open>What the runtime stored\<close>

text \<open>Memory that holds the fields of a structure, and the elements of an array.\<close>

definition struct_at :: "memory \<Rightarrow> usize \<Rightarrow> abi_type \<Rightarrow> u64 list \<Rightarrow> bool" where
  "struct_at m p t vs \<longleftrightarrow>
     list_all (\<lambda>i. bytes_at m (p + of_nat (offset_of t [i])) (type_size (struct_fields t ! i)) =
       le_bytes (type_size (struct_fields t ! i)) (vs ! i)) [0..<length vs]"

definition words_at :: "memory \<Rightarrow> usize \<Rightarrow> u32 list \<Rightarrow> bool" where
  "words_at m p ws \<longleftrightarrow> list_all (\<lambda>i. bytes_at m (p + 4 * of_nat i) 4 = le_bytes 4 (ws ! i)) [0..<length ws]"

text \<open>
  The dispatch state and the arrays it points to; the number of bindings is never set and is 0.
  The workgroup state of \<open>run_workgroups\<close> with the address of the partition.
\<close>

definition dispatch_state_at :: "memory \<Rightarrow> usize \<Rightarrow> usize \<times> usize \<times> usize \<times> usize \<Rightarrow> dispatch_state \<Rightarrow> bool" where
  "dispatch_state_at m p ptrs ds =
     (case (ds_workgroup_size ds, ptrs) of ((size_x, size_y, size_z), (constants, binding_ptrs, lengths, prof)) \<Rightarrow>
        struct_at m p dispatch_state_t
          [ucast size_x, ucast size_y, ucast size_z, ucast (ds_workgroup_count_x ds),
           ucast (ds_workgroup_count_y ds), ucast (ds_workgroup_count_z ds), 0,
           ucast constants, ucast binding_ptrs, ucast lengths, ucast prof] \<and>
        words_at m constants (ds_constants ds) \<and> words_at m binding_ptrs (ds_binding_ptrs ds) \<and>
        words_at m lengths (ds_binding_lengths ds))"

definition workgroup_state_at :: "memory \<Rightarrow> usize \<Rightarrow> usize \<Rightarrow> workgroup_state \<Rightarrow> bool" where
  "workgroup_state_at m p vp ws \<longleftrightarrow>
     struct_at m p workgroup_state_t
       [ucast (workgroup_id_x ws), ucast (workgroup_id_y ws), ucast (workgroup_id_z ws), ucast (ws_reserved ws),
        ucast (processor_id ws), ucast vp]"

section \<open>Lemmas\<close>

lemma load_ucast:
  assumes "bytes_at m p n = le_bytes n (w :: 'a::len word)" and "LENGTH('a) = 8 * n"
  shows "load m p n = (ucast w :: 'b::len word)"
proof -
  have "bit (le_word (le_bytes n w) :: 'b word) k \<longleftrightarrow> bit (ucast w :: 'b word) k" if "k < LENGTH('b)" for k
  proof (cases "k div 8 < n")
    case True
    with that show ?thesis
      by (simp add: bit_le_word le_bytes_def bit_ucast_iff bit_drop_bit_eq)
  next
    case False
    then have "LENGTH('a) \<le> k" using assms(2) by linarith
    with that False show ?thesis by (auto simp: bit_le_word bit_ucast_iff dest: bit_imp_le_length)
  qed
  then have "le_word (le_bytes n w) = (ucast w :: 'b word)" by (rule bit_word_eqI)
  with assms(1) show ?thesis by (simp add: load_def)
qed

lemma words_atD:
  "words_at m p ws \<Longrightarrow> i < length ws \<Longrightarrow> bytes_at m (p + 4 * of_nat i) 4 = le_bytes 4 (ws ! i)"
  by (simp add: words_at_def list_all_iff)

lemma struct_atD:
  "struct_at m p t vs \<Longrightarrow> i < length vs \<Longrightarrow>
   bytes_at m (p + of_nat (offset_of t [i])) (type_size (struct_fields t ! i)) =
     le_bytes (type_size (struct_fields t ! i)) (vs ! i)"
  by (simp add: struct_at_def list_all_iff)

lemma load_word: "words_at m p ws \<Longrightarrow> i < length ws \<Longrightarrow> load m (p + 4 * of_nat i) 4 = (ucast (ws ! i) :: u64)"
  by (rule load_ucast [OF words_atD]) simp_all

text \<open>The compiler's fields are the runtime's.\<close>

lemma dispatch_state_layouts_agree: "getDispatchStateType = dispatch_state_t"
  by (simp add: getDispatchStateType_def dispatch_state_t_def)

lemma workgroup_state_offsets_agree:
  "map (\<lambda>i. offset_of getWorkgroupStateType [i]) [0, 1, 2, 3, 4] =
   map (\<lambda>i. offset_of workgroup_state_t [i]) [0, 1, 2, 4, 5]"
  by (simp add: getWorkgroupStateType_def workgroup_state_t_def round_up_def)

lemma environment_layouts_agree: "getEnvironmentType = environment_t"
  by (simp add: getEnvironmentType_def environment_t_def)


text \<open>Loading a field of a stored structure gives what was stored.\<close>

lemma load_dispatch_field_eq:
  assumes "struct_at m (arg_dispatch_state a) dispatch_state_t vs" and "i < length vs" and "length vs = 11"
    and "vs ! i = ucast (w :: 'a::len word)" and "8 * type_size (struct_fields dispatch_state_t ! i) = LENGTH('a)"
    and "LENGTH('a) \<le> 64"
  shows "load_dispatch_field m a i = (struct_fields dispatch_state_t ! i, ucast w)"
proof -
  let ?n = "type_size (struct_fields dispatch_state_t ! i)"
  have "bytes_at m (arg_dispatch_state a + of_nat (offset_of dispatch_state_t [i])) ?n = le_bytes ?n w"
    using struct_atD [OF assms(1,2)] assms(4-6) by (simp add: le_bytes_ucast)
  then show ?thesis
    using assms(5) by (simp add: load_dispatch_field_def load_field_def load_value_def dispatch_state_layouts_agree load_ucast)
qed

lemma load_workgroup_field_eq:
  assumes "struct_at m (arg_workgroup_state a) workgroup_state_t vs" and "j < length vs"
    and "offset_of getWorkgroupStateType [i] = offset_of workgroup_state_t [j]"
    and "struct_fields getWorkgroupStateType ! i = struct_fields workgroup_state_t ! j"
    and "vs ! j = ucast (w :: 'a::len word)" and "8 * type_size (struct_fields workgroup_state_t ! j) = LENGTH('a)"
    and "LENGTH('a) \<le> 64"
  shows "load_workgroup_field m a i = (struct_fields workgroup_state_t ! j, ucast w)"
proof -
  let ?n = "type_size (struct_fields workgroup_state_t ! j)"
  have "bytes_at m (arg_workgroup_state a + of_nat (offset_of workgroup_state_t [j])) ?n = le_bytes ?n w"
    using struct_atD [OF assms(1,2)] assms(5-7) by (simp add: le_bytes_ucast)
  then show ?thesis
    using assms(3,4,6) by (simp add: load_workgroup_field_def load_field_def load_value_def load_ucast)
qed

lemma castValueToType_int: "k \<le> n \<Longrightarrow> castValueToType (Int_Type k, v) (Int_Type n) = Some (Int_Type n, v)"
  by simp

lemma ucast_ptr [simp]: "ucast (ucast (p :: usize) :: u64) = p"
  by (rule bit_word_eqI) (simp add: bit_ucast_iff)


lemma dispatch_state_field_values:
  assumes "dispatch_state_at m (arg_dispatch_state a) ptrs ds"
  shows "load_dispatch_field m a 0 = (Int_Type 4, ucast (fst (ds_workgroup_size ds)))"
    and "load_dispatch_field m a 1 = (Int_Type 4, ucast (fst (snd (ds_workgroup_size ds))))"
    and "load_dispatch_field m a 2 = (Int_Type 2, ucast (snd (snd (ds_workgroup_size ds))))"
    and "load_dispatch_field m a 3 = (Int_Type 4, ucast (ds_workgroup_count_x ds))"
    and "load_dispatch_field m a 4 = (Int_Type 4, ucast (ds_workgroup_count_y ds))"
    and "load_dispatch_field m a 5 = (Int_Type 2, ucast (ds_workgroup_count_z ds))"
    and "load_dispatch_field m a 7 = (Ptr_Type, ucast (fst ptrs))"
    and "load_dispatch_field m a 8 = (Ptr_Type, ucast (fst (snd ptrs)))"
proof -
  obtain vs where at: "struct_at m (arg_dispatch_state a) dispatch_state_t vs"
    and vs: "vs = [ucast (fst (ds_workgroup_size ds)), ucast (fst (snd (ds_workgroup_size ds))),
      ucast (snd (snd (ds_workgroup_size ds))), ucast (ds_workgroup_count_x ds), ucast (ds_workgroup_count_y ds),
      ucast (ds_workgroup_count_z ds), 0, ucast (fst ptrs), ucast (fst (snd ptrs)), ucast (fst (snd (snd ptrs))),
      ucast (snd (snd (snd ptrs)))]"
    using assms by (auto simp: dispatch_state_at_def split: prod.splits)
  note field = load_dispatch_field_eq [OF at]
  show "load_dispatch_field m a 0 = (Int_Type 4, ucast (fst (ds_workgroup_size ds)))"
    "load_dispatch_field m a 1 = (Int_Type 4, ucast (fst (snd (ds_workgroup_size ds))))"
    "load_dispatch_field m a 3 = (Int_Type 4, ucast (ds_workgroup_count_x ds))"
    "load_dispatch_field m a 4 = (Int_Type 4, ucast (ds_workgroup_count_y ds))"
    "load_dispatch_field m a 7 = (Ptr_Type, ucast (fst ptrs))"
    "load_dispatch_field m a 8 = (Ptr_Type, ucast (fst (snd ptrs)))"
    using field [where ?'a = 32] by (simp_all add: vs dispatch_state_t_def)
  show "load_dispatch_field m a 2 = (Int_Type 2, ucast (snd (snd (ds_workgroup_size ds))))"
    "load_dispatch_field m a 5 = (Int_Type 2, ucast (ds_workgroup_count_z ds))"
    using field [where ?'a = 16] by (simp_all add: vs dispatch_state_t_def)
qed

lemma workgroup_state_field_values:
  assumes "workgroup_state_at m (arg_workgroup_state a) vp ws"
  shows "load_workgroup_field m a 0 = (Int_Type 4, ucast (workgroup_id_x ws))"
    and "load_workgroup_field m a 1 = (Int_Type 4, ucast (workgroup_id_y ws))"
    and "load_workgroup_field m a 2 = (Int_Type 2, ucast (workgroup_id_z ws))"
    and "load_workgroup_field m a 3 = (Int_Type 4, ucast (processor_id ws))"
    and "load_workgroup_field m a 4 = (Ptr_Type, ucast vp)"
proof -
  obtain vs where at: "struct_at m (arg_workgroup_state a) workgroup_state_t vs"
    and vs: "vs = [ucast (workgroup_id_x ws), ucast (workgroup_id_y ws), ucast (workgroup_id_z ws),
      ucast (ws_reserved ws), ucast (processor_id ws), ucast vp]"
    using assms by (auto simp: workgroup_state_at_def)
  note field = load_workgroup_field_eq [OF at]
  show "load_workgroup_field m a 0 = (Int_Type 4, ucast (workgroup_id_x ws))"
    using field [where j = 0 and i = 0 and w = "workgroup_id_x ws"]
    by (simp add: vs workgroup_state_t_def getWorkgroupStateType_def round_up_def)
  show "load_workgroup_field m a 1 = (Int_Type 4, ucast (workgroup_id_y ws))"
    using field [where j = 1 and i = 1 and w = "workgroup_id_y ws"]
    by (simp add: vs workgroup_state_t_def getWorkgroupStateType_def round_up_def)
  show "load_workgroup_field m a 2 = (Int_Type 2, ucast (workgroup_id_z ws))"
    using field [where j = 2 and i = 2 and w = "workgroup_id_z ws"]
    by (simp add: vs workgroup_state_t_def getWorkgroupStateType_def round_up_def)
  show "load_workgroup_field m a 3 = (Int_Type 4, ucast (processor_id ws))"
    using field [where j = 4 and i = 3 and w = "processor_id ws"]
    by (simp add: vs workgroup_state_t_def getWorkgroupStateType_def round_up_def)
  show "load_workgroup_field m a 4 = (Ptr_Type, ucast vp)"
    using field [where j = 5 and i = 4 and w = vp]
    by (simp add: vs workgroup_state_t_def getWorkgroupStateType_def round_up_def)
qed

lemma dispatch_state_arrays:
  assumes "dispatch_state_at m p ptrs ds"
  shows "words_at m (fst ptrs) (ds_constants ds)" and "words_at m (fst (snd ptrs)) (ds_binding_ptrs ds)"
  using assms by (auto simp: dispatch_state_at_def split: prod.splits)

lemma loadPushConstant_eq:
  assumes "dispatch_state_at m (arg_dispatch_state a) ptrs ds" and "i < length (ds_constants ds)" and "4 \<le> n"
  shows "loadPushConstant m a i (Int_Type n) = Some (Int_Type n, ucast (ds_constants ds ! i))"
  using dispatch_state_field_values(7) [OF assms(1)] load_word [OF dispatch_state_arrays(1) [OF assms(1)] assms(2)] assms(3)
  by (simp add: loadPushConstant_def field_defs value_ptr_def load_value_def del: castValueToType.simps)
    (rule castValueToType_int)

lemma loadBindingPtr_eq:
  assumes "dispatch_state_at m (arg_dispatch_state a) ptrs ds" and "i < length (ds_binding_ptrs ds)"
  shows "loadBindingPtr m a i = ds_binding_ptrs ds ! i"
  using dispatch_state_field_values(8) [OF assms(1)] load_word [OF dispatch_state_arrays(2) [OF assms(1)] assms(2)]
  by (simp add: loadBindingPtr_def field_defs value_ptr_def load_value_def)

text \<open>The environment of an executable is never filled, so a constant of the executable is read near address 0.\<close>

lemma executable_constant_near_null:
  assumes "struct_at m (arg_environment a) environment_t [0]"
  shows "executable_constant_ptr m a ordinal t = of_nat (type_size t) * ordinal"
proof -
  have "bytes_at m (arg_environment a + of_nat (offset_of environment_t [0])) 4 = le_bytes 4 (0 :: usize)"
    using struct_atD [OF assms, of 0] by (simp add: environment_t_def le_bytes_def)
  then have "load m (arg_environment a + of_nat (offset_of environment_t [0])) 4 = (0 :: u64)"
    by (simp add: load_ucast)
  then show ?thesis
    by (simp add: executable_constant_ptr_def load_environment_field_def load_field_def load_value_def value_ptr_def
        environment_layouts_agree environment_constants_def environment_t_def)
qed

text \<open>
  C10: The interface between compiled code and runtime agrees: in a workgroup that the scheduler runs
  for a dispatch command, the code that the compiler emits reads the workgroup id of that workgroup,
  the workgroup count and size of the command, its constants and the addresses of its mapped
  bindings, at every integer type of at least 32 bits.
\<close>

theorem dispatch_abi_agrees:
  assumes "dispatch_state_at m (arg_dispatch_state a) ptrs
      (tk_dispatch_state (prepared_task d function constants mapped))"
    and "workgroup_state_at m (arg_workgroup_state a) vp
      \<lparr>workgroup_id_x = x, workgroup_id_y = y, workgroup_id_z = z, ws_reserved = 0, processor_id = 0,
       ws_vtcm_partition = Some p\<rparr>"
    and "4 \<le> n"
  shows "map (\<lambda>dim. loadWorkgroupID m a dim (Int_Type n)) [0, 1, 2] =
      [Some (Int_Type n, ucast x), Some (Int_Type n, ucast y), Some (Int_Type n, ucast z)] \<and>
    map (\<lambda>dim. loadWorkgroupCount m a dim (Int_Type n)) [0, 1, 2] =
      [Some (Int_Type n, ucast (cd_workgroup_count_x d)), Some (Int_Type n, ucast (cd_workgroup_count_y d)),
       Some (Int_Type n, ucast (cd_workgroup_count_z d))] \<and>
    map (\<lambda>dim. loadWorkgroupSize m a dim (Int_Type n)) [0, 1, 2] =
      [Some (Int_Type n, ucast (cd_workgroup_size_x d)), Some (Int_Type n, ucast (cd_workgroup_size_y d)),
       Some (Int_Type n, ucast (cd_workgroup_size_z d))] \<and>
    (\<forall>i<length constants. loadPushConstant m a i (Int_Type n) = Some (Int_Type n, ucast (constants ! i))) \<and>
    (\<forall>i<length (mp_ptrs mapped). loadBindingPtr m a i = mp_ptrs mapped ! i) \<and>
    loadProcessorID m a = (Int_Type 4, 0)"
proof (intro conjI allI impI)
  note ds = dispatch_state_field_values [OF assms(1), unfolded prepared_task_def, simplified]
  note ws = workgroup_state_field_values [OF assms(2), simplified]
  note defs = loadWorkgroupID_def loadWorkgroupCount_def loadWorkgroupSize_def loadProcessorID_def field_defs numeral_3_eq_3
  show "map (\<lambda>dim. loadWorkgroupID m a dim (Int_Type n)) [0, 1, 2] =
      [Some (Int_Type n, ucast x), Some (Int_Type n, ucast y), Some (Int_Type n, ucast z)]"
    using assms(3) ws by (auto simp: defs numeral_eq_Suc)
  show "map (\<lambda>dim. loadWorkgroupCount m a dim (Int_Type n)) [0, 1, 2] =
      [Some (Int_Type n, ucast (cd_workgroup_count_x d)), Some (Int_Type n, ucast (cd_workgroup_count_y d)),
       Some (Int_Type n, ucast (cd_workgroup_count_z d))]"
    using assms(3) ds by (auto simp: defs numeral_eq_Suc)
  show "map (\<lambda>dim. loadWorkgroupSize m a dim (Int_Type n)) [0, 1, 2] =
      [Some (Int_Type n, ucast (cd_workgroup_size_x d)), Some (Int_Type n, ucast (cd_workgroup_size_y d)),
       Some (Int_Type n, ucast (cd_workgroup_size_z d))]"
    using assms(3) ds by (auto simp: defs numeral_eq_Suc)
  show "loadProcessorID m a = (Int_Type 4, 0)"
    using ws by (auto simp: defs numeral_eq_Suc)
next
  fix i assume "i < length constants"
  with loadPushConstant_eq [OF assms(1) _ assms(3), of i]
  show "loadPushConstant m a i (Int_Type n) = Some (Int_Type n, ucast (constants ! i))"
    by (simp add: prepared_task_def)
next
  fix i assume "i < length (mp_ptrs mapped)"
  with loadBindingPtr_eq [OF assms(1), of i] show "loadBindingPtr m a i = mp_ptrs mapped ! i"
    by (simp add: prepared_task_def)
qed


text \<open>A memory given by the bytes from some addresses on, zero elsewhere.\<close>

fun memory_of :: "(usize \<times> u8 list) list \<Rightarrow> memory" where
  "memory_of [] a = 0"
| "memory_of ((p, bs) # rest) a = (if a - p < of_nat (length bs) then bs ! unat (a - p) else memory_of rest a)"

definition sample_abi_memory :: memory where
  "sample_abi_memory = memory_of
     [(0x1000, le_bytes 4 (7 :: u32) @ le_bytes 4 (8 :: u32) @ le_bytes 2 (9 :: u16) @ [0xAA, 0xAA] @
        le_bytes 4 (3 :: u32) @ le_bytes 4 (2 :: u32) @ le_bytes 2 (1 :: u16) @ [0, 0xAA] @
        le_bytes 4 (0x3000 :: u32) @ le_bytes 4 (0x4000 :: u32) @ le_bytes 4 (0x5000 :: u32) @ le_bytes 4 (0 :: u32)),
      (0x2000, le_bytes 4 (2 :: u32) @ le_bytes 4 (1 :: u32) @ le_bytes 2 (0 :: u16) @ [0, 0] @
        le_bytes 4 (0 :: u32) @ le_bytes 4 (0x6000 :: u32)),
      (0x3000, le_bytes 4 (0xDEADBEEF :: u32)),
      (0x4000, le_bytes 4 (0x8000 :: u32) @ le_bytes 4 (0x9000 :: u32)),
      (0x5000, le_bytes 4 (64 :: u32) @ le_bytes 4 (128 :: u32))]"

definition sample_abi_arguments :: abi_args where
  "sample_abi_arguments = \<lparr>arg_environment = 0x7000, arg_dispatch_state = 0x1000, arg_workgroup_state = 0x2000\<rparr>"

definition sample_abi_dispatch :: cmd_dispatch where
  "sample_abi_dispatch = \<lparr>cd_cmd_type = 0, cd_function_handle = 1, cd_workgroup_size_x = 7, cd_workgroup_size_y = 8, cd_workgroup_size_z = 9,
     cd_workgroup_count_x = 3, cd_workgroup_count_y = 2, cd_workgroup_count_z = 1,
     cd_constant_count = 1, cd_num_bindings = 2\<rparr>"

definition sample_abi_function :: dsp_function where
  "sample_abi_function = \<lparr>fn_dispatch_func = 0, fn_environment = 0x7000, fn_name = None, fn_attrs = None\<rparr>"

definition sample_abi_bindings :: mapped_bindings where
  "sample_abi_bindings = \<lparr>mp_ptrs = [0x8000, 0x9000], mp_lengths = [64, 128], mp_fds = []\<rparr>"

lemma sample_abi_states:
  "dispatch_state_at sample_abi_memory (arg_dispatch_state sample_abi_arguments) (0x3000, 0x4000, 0x5000, 0)
     (tk_dispatch_state (prepared_task sample_abi_dispatch sample_abi_function [0xDEADBEEF] sample_abi_bindings))"
  "workgroup_state_at sample_abi_memory (arg_workgroup_state sample_abi_arguments) 0x6000
     \<lparr>workgroup_id_x = 2, workgroup_id_y = 1, workgroup_id_z = 0, ws_reserved = 0, processor_id = 0,
      ws_vtcm_partition = Some empty_partition\<rparr>"
  by code_simp+

lemma dispatch_abi_agrees_witness:
  "loadWorkgroupID sample_abi_memory sample_abi_arguments 0 (Int_Type 4) = Some (Int_Type 4, 2) \<and>
   loadWorkgroupCount sample_abi_memory sample_abi_arguments 2 (Int_Type 8) = Some (Int_Type 8, 1) \<and>
   loadPushConstant sample_abi_memory sample_abi_arguments 0 (Int_Type 8) = Some (Int_Type 8, 0xDEADBEEF) \<and>
   loadBindingPtr sample_abi_memory sample_abi_arguments 1 = 0x9000"
  using dispatch_abi_agrees [OF sample_abi_states, of 4] dispatch_abi_agrees [OF sample_abi_states, of 8]
  by (simp add: sample_abi_dispatch_def sample_abi_bindings_def)


section \<open>Elements of a binding\<close>

text \<open>The address of an element, \<open>getStridedElementPtr\<close> of MLIR.\<close>

definition element_ptr :: "memref_descriptor \<Rightarrow> nat \<Rightarrow> u32 list \<Rightarrow> usize" where
  "element_ptr d element_size idx =
     md_aligned d + of_nat element_size * (md_offset d + sum_list (map2 (*) idx (md_strides d)))"

text \<open>The row-major number of an element, as the comment of the function states it.\<close>

fun row_major :: "nat list \<Rightarrow> nat list \<Rightarrow> nat" where
  "row_major (n # ns) (i # is) = i * prod_list ns + row_major ns is"
| "row_major ns is = 0"

text \<open>The strides a type states are those of its actual sizes.\<close>

definition contiguous :: "u32 list \<Rightarrow> int option list \<Rightarrow> bool" where
  "contiguous sizes strides \<longleftrightarrow> length strides = length sizes \<and>
     list_all (\<lambda>k. case strides ! k of None \<Rightarrow> True | Some s \<Rightarrow> word_of_int s = prod_list (drop (Suc k) sizes))
       [0..<length sizes]"

definition row_strides :: "u32 list \<Rightarrow> u32 list" where
  "row_strides sizes = map (\<lambda>k. prod_list (drop (Suc k) sizes)) [0..<length sizes]"

lemma contiguousD: "contiguous sizes strides \<Longrightarrow> k < length sizes \<Longrightarrow> strides ! k = Some s \<Longrightarrow>
    word_of_int s = prod_list (drop (Suc k) sizes)"
  by (auto simp: contiguous_def list_all_iff split: option.splits)

lemma prod_list_drop_Suc:
  "Suc k < length sizes \<Longrightarrow> prod_list (drop (Suc k) sizes) = prod_list (drop (Suc (Suc k)) sizes) * (sizes ! Suc k :: u32)"
  by (simp add: Cons_nth_drop_Suc [symmetric] mult.commute)

lemma set_strides_row_major:
  assumes "contiguous sizes strides" and "i < length sizes" and "length acc = length sizes"
    and "current = prod_list (drop (Suc i) sizes)"
    and "\<forall>k<length sizes. i \<le> k \<longrightarrow> acc ! k = prod_list (drop (Suc k) sizes)"
  shows "set_strides sizes strides i current acc = row_strides sizes"
  using assms(2-5)
proof (induction i arbitrary: current acc)
  case 0
  then show ?case by (auto intro!: nth_equalityI simp: row_strides_def)
next
  case (Suc i)
  let ?s = "case strides ! i of None \<Rightarrow> current * sizes ! Suc i | Some s \<Rightarrow> word_of_int s"
  have s: "?s = prod_list (drop (Suc i) sizes)"
    using contiguousD [OF assms(1), of i] Suc.prems prod_list_drop_Suc [of i sizes]
    by (auto split: option.split)
  have "acc[i := prod_list (drop (Suc i) sizes)] ! k = prod_list (drop (Suc k) sizes)"
    if "k < length sizes" and "i \<le> k" for k
    using Suc.prems that by (cases "k = i") auto
  then show ?case
    unfolding set_strides.simps Let_def s
    using Suc.IH [of "acc[i := prod_list (drop (Suc i) sizes)]" "prod_list (drop (Suc i) sizes)"] Suc.prems
    by simp
qed

lemma descriptor_strides_row_major:
  assumes "contiguous sizes strides"
  shows "descriptor_strides sizes strides = row_strides sizes"
proof (cases "sizes = []")
  case False
  with assms have "strides \<noteq> []" by (auto simp: contiguous_def)
  moreover have "set_strides sizes strides (length sizes - 1) 1 ((replicate (length sizes) 0)[length sizes - 1 := 1]) =
      row_strides sizes"
    by (rule set_strides_row_major [OF assms]) (use False in \<open>auto simp: nth_list_update\<close>)
  ultimately show ?thesis by (simp add: descriptor_strides_def Let_def)
qed (use assms in \<open>simp add: contiguous_def descriptor_strides_def row_strides_def\<close>)

lemma descriptor_sizes_static: "None \<notin> set shape \<Longrightarrow> map (word_of_int \<circ> the) shape = descriptor_sizes shape dyn"
  by (induction shape dyn rule: descriptor_sizes.induct) auto

lemma static_strides_row_major:
  assumes "contiguous sizes strides" and "None \<notin> set strides"
  shows "map (word_of_int \<circ> the) strides = row_strides sizes"
proof (rule nth_equalityI)
  show "length (map (word_of_int \<circ> the) strides) = length (row_strides sizes)"
    using assms(1) by (simp add: contiguous_def row_strides_def)
  fix k assume "k < length (map (word_of_int \<circ> the) strides :: u32 list)"
  then have k: "k < length strides" "k < length sizes" using assms(1) by (auto simp: contiguous_def)
  with assms(2) obtain s where "strides ! k = Some s" by (metis nth_mem option.exhaust)
  with contiguousD [OF assms(1) k(2)] k show "map (word_of_int \<circ> the) strides ! k = row_strides sizes ! k"
    by (simp add: row_strides_def)
qed

lemma prod_list_of_nat: "prod_list sizes = (of_nat (prod_list (map unat sizes)) :: u32)"
  by (induction sizes) simp_all

lemma row_strides_Cons: "row_strides (n # sizes) = prod_list sizes # row_strides sizes"
proof -
  have "[0..<length (n # sizes)] = 0 # map Suc [0..<length sizes]"
    by (simp add: upt_conv_Cons map_Suc_upt del: upt_Suc)
  then show ?thesis by (simp add: row_strides_def comp_def)
qed

lemma strided_index_row_major:
  "length idx = length sizes \<Longrightarrow>
   sum_list (map2 (*) idx (row_strides sizes)) = (of_nat (row_major (map unat sizes) (map unat idx)) :: u32)"
proof (induction sizes arbitrary: idx)
  case (Cons n sizes)
  then obtain i rest where idx: "idx = i # rest" by (cases idx) auto
  with Cons show ?case
    by (simp add: row_strides_Cons prod_list_of_nat)
qed (simp add: row_strides_def)

lemma row_major_less:
  "list_all2 (<) is ns \<Longrightarrow> row_major ns is < prod_list ns"
proof (induction "is" ns rule: list_all2_induct)
  case (Cons i "is" n ns)
  then have "i * prod_list ns + row_major ns is < (i + 1) * prod_list ns" by simp
  also have "\<dots> \<le> n * prod_list ns" using Cons.hyps by (intro mult_right_mono) simp_all
  finally show ?case by simp
qed simp

lemma row_major_inject:
  assumes "list_all2 (<) is ns" and "list_all2 (<) js ns" and "row_major ns is = row_major ns js"
  shows "is = js"
  using assms
proof (induction "is" ns arbitrary: js rule: list_all2_induct)
  case Nil
  then show ?case by simp
next
  case (Cons i "is" n ns)
  then obtain j js' where js: "js = j # js'" and j: "j < n" "list_all2 (<) js' ns"
    by (auto simp: list_all2_Cons2)
  have less: "row_major ns is < prod_list ns" "row_major ns js' < prod_list ns"
    using row_major_less Cons.hyps j by blast+
  have eq: "i * prod_list ns + row_major ns is = j * prod_list ns + row_major ns js'"
    using Cons.prems by (simp add: js)
  have "i = (i * prod_list ns + row_major ns is) div prod_list ns" using less by simp
  also have "\<dots> = j" using eq less by simp
  finally have "i = j" .
  with eq Cons.IH [OF j(2)] show ?case by (simp add: js)
qed



end
