(* ===== verification/Memref_Copy.thy ===== *)
theory Memref_Copy
  imports Struct_Layout Cmd_Exec
begin

text \<open>
  The copy of strided memrefs that compiled code calls, \<open>plugins/runtime/hexagon/dsp/rt/memref_copy.c\<close>.
  The descriptors are read from memory once: they are temporaries of the caller, outside of the data
  of either memref. Signed 32-bit products and addresses wrap.

  The copy is related to a list of byte copies, one for each byte of each element; where no byte is
  both read and written and each is written with one value, the order of the copies and the bulk copy
  of contiguous rows make no difference.
\<close>

section \<open>The code\<close>

record dynamic_memref =
  dm_rank :: i32
  dm_data :: usize
  dm_offset :: i32
  dm_sizes :: "i32 list"
  dm_strides :: "i32 list"

text \<open>\<open>hexagon_unpack_dynamic_memref\<close>; the sizes and strides lie behind the offset.\<close>

definition load_words :: "memory \<Rightarrow> usize \<Rightarrow> nat \<Rightarrow> i32 list" where
  "load_words m p n = map (\<lambda>i. load m (p + 4 * of_nat i) 4) [0..<n]"

definition unpack_dynamic_memref :: "memory \<Rightarrow> usize \<Rightarrow> dynamic_memref option" where
  "unpack_dynamic_memref m p =
     (if p = 0 then None
      else let rank = load m p 4 :: i32; desc = load m (p + 4) 4 :: usize
           in if rank <s 0 \<or> desc = 0 then None
              else Some \<lparr>dm_rank = rank, dm_data = load m (desc + 4) 4, dm_offset = load m (desc + 8) 4,
                         dm_sizes = load_words m (desc + 12) (unat rank),
                         dm_strides = load_words m (desc + 12 + 4 * rank) (unat rank)\<rparr>)"

text \<open>The dimensions with their size and the strides of source and destination; the last is the row.\<close>

fun copy_nd :: "i32 \<Rightarrow> (i32 \<times> i32 \<times> i32) list \<Rightarrow> usize \<Rightarrow> usize \<Rightarrow> memory \<Rightarrow> memory" where
  "copy_nd es [] src dst m = m"
| "copy_nd es [(n, ss, ds)] src dst m =
     (if ss = 1 \<and> ds = 1 then copy_memory dst src (n * es) m
      else fold (\<lambda>i. copy_memory (dst + of_nat i * ds * es) (src + of_nat i * ss * es) es) [0..<nat (sint n)] m)"
| "copy_nd es ((n, ss, ds) # dim # dims) src dst m =
     fold (\<lambda>i. copy_nd es (dim # dims) (src + of_nat i * ss * es) (dst + of_nat i * ds * es)) [0..<nat (sint n)] m"

definition memref_copy :: "i32 \<Rightarrow> usize \<Rightarrow> usize \<Rightarrow> memory \<Rightarrow> memory" where
  "memref_copy es src_unranked dst_unranked m =
     (case (unpack_dynamic_memref m src_unranked, unpack_dynamic_memref m dst_unranked) of
        (Some src, Some dst) \<Rightarrow>
          if dm_rank src \<noteq> dm_rank dst then m
          else let src_ptr = dm_data src + dm_offset src * es; dst_ptr = dm_data dst + dm_offset dst * es
               in if dm_rank src = 0 then copy_memory dst_ptr src_ptr es m
                  else if 0 \<in> set (dm_sizes src) then m
                  else copy_nd es (zip (dm_sizes src) (zip (dm_strides src) (dm_strides dst))) src_ptr dst_ptr m
      | _ \<Rightarrow> m)"

section \<open>Byte copies\<close>

definition copies :: "(usize \<times> usize) list \<Rightarrow> memory \<Rightarrow> memory" where
  "copies ps m = fold (\<lambda>(s, d) m. m(d := m s)) ps m"

text \<open>No byte is read and written, and no byte is written from two places.\<close>

definition disjoint_copies :: "(usize \<times> usize) set \<Rightarrow> bool" where
  "disjoint_copies P \<longleftrightarrow> (\<forall>(s, d)\<in>P. \<forall>(s', d')\<in>P. s \<noteq> d' \<and> (d = d' \<longrightarrow> s = s'))"

lemma disjoint_copiesD:
  assumes "disjoint_copies P" and "(s, d) \<in> P" and "(s', d') \<in> P"
  shows "s \<noteq> d'" and "d = d' \<Longrightarrow> s = s'"
  using assms by (auto simp: disjoint_copies_def)

lemma disjoint_copies_subset: "disjoint_copies P \<Longrightarrow> Q \<subseteq> P \<Longrightarrow> disjoint_copies Q"
  unfolding disjoint_copies_def by blast

lemma copies_simps [simp]: "copies [] m = m" "copies ((s, d) # ps) m = copies ps (m(d := m s))"
  by (simp_all add: copies_def)

lemma copies_append: "copies (ps @ qs) m = copies qs (copies ps m)"
  by (simp add: copies_def)

lemma copies_other: "a \<notin> snd ` set ps \<Longrightarrow> copies ps m a = m a"
  by (induction ps arbitrary: m) auto

lemma copies_read:
  assumes "disjoint_copies (set ps)" and "(s, d) \<in> set ps"
  shows "copies ps m d = m s"
  using assms
proof (induction ps rule: rev_induct)
  case (snoc p ps)
  obtain s' d' where p: "p = (s', d')" by (cases p)
  have sub: "disjoint_copies (set ps)" using snoc.prems(1) by (rule disjoint_copies_subset) auto
  have "x \<noteq> s'" if "(y, x) \<in> set ps" for x y
    using disjoint_copiesD(1) [OF snoc.prems(1), of s' d' y x] that by (auto simp: p)
  then have source: "copies ps m s' = m s'" by (intro copies_other) (metis imageE prod.collapse)
  show ?case
  proof (cases "d = d'")
    case True
    moreover have "s = s'" using disjoint_copiesD(2) [OF snoc.prems(1), of s d s' d'] snoc.prems(2) True by (simp add: p)
    ultimately show ?thesis using source by (simp add: copies_append p)
  next
    case False
    with snoc.prems(2) have "(s, d) \<in> set ps" by (auto simp: p)
    with snoc.IH [OF sub] False show ?thesis by (simp add: copies_append p)
  qed
qed simp

text \<open>A \<open>memcpy\<close> of \<open>n\<close> bytes.\<close>

definition byte_pairs :: "usize \<Rightarrow> usize \<Rightarrow> nat \<Rightarrow> (usize \<times> usize) list" where
  "byte_pairs s d n = map (\<lambda>j. (s + of_nat j, d + of_nat j)) [0..<n]"

lemma set_byte_pairs: "set (byte_pairs s d n) = {(s + of_nat j, d + of_nat j) |j. j < n}"
  by (auto simp: byte_pairs_def)

lemma copy_memory_copies:
  assumes "disjoint_copies (set (byte_pairs s d n))" and "n < 2 ^ 32"
  shows "copy_memory d s (of_nat n) m = copies (byte_pairs s d n) m"
proof
  fix a
  have n: "unat (of_nat n :: u32) = n" using assms(2) by (simp add: unsigned_of_nat take_bit_nat_eq_self)
  show "copy_memory d s (of_nat n) m a = copies (byte_pairs s d n) m a"
  proof (cases "a - d < of_nat n")
    case True
    then have "unat (a - d) < n" using n by (simp add: word_less_nat_alt)
    then have "(s + (a - d), a) \<in> set (byte_pairs s d n)"
      by (auto simp: set_byte_pairs intro!: exI [of _ "unat (a - d)"])
    with copies_read [OF assms(1)] True show ?thesis by (simp add: copy_memory_def)
  next
    case False
    have "a \<notin> snd ` set (byte_pairs s d n)"
    proof
      assume "a \<in> snd ` set (byte_pairs s d n)"
      then obtain j where "a = d + of_nat j" "j < n" by (auto simp: set_byte_pairs)
      then have "a - d < of_nat n"
        using assms(2) by (simp add: word_less_nat_alt unsigned_of_nat take_bit_nat_eq_self)
      with False show False by simp
    qed
    with copies_other False show ?thesis by (simp add: copy_memory_def)
  qed
qed

text \<open>A contiguous row is its elements one after the other.\<close>

lemma byte_pairs_add: "byte_pairs s d (a + b) = byte_pairs s d a @ byte_pairs (s + of_nat a) (d + of_nat a) b"
proof -
  have "[0..<a + b] = [0..<a] @ [a..<a + b]" by (rule upt_add_eq_append) simp
  also have "[a..<a + b] = map (\<lambda>j. j + a) [0..<b]" by (simp add: map_add_upt add.commute)
  finally show ?thesis by (simp add: byte_pairs_def add_ac comp_def)
qed

lemma byte_pairs_rows:
  "byte_pairs s d (n * e) = concat (map (\<lambda>i. byte_pairs (s + of_nat i * of_nat e) (d + of_nat i * of_nat e) e) [0..<n])"
proof (induction n)
  case 0
  then show ?case by (simp add: byte_pairs_def)
next
  case (Suc n)
  have "byte_pairs s d (Suc n * e) = byte_pairs s d (n * e + e)" by (simp add: add.commute)
  then show ?case using Suc by (simp add: byte_pairs_add)
qed


section \<open>The copy as byte copies\<close>

text \<open>The addresses of the elements, in the order of the copy.\<close>

fun elements :: "i32 \<Rightarrow> (i32 \<times> i32 \<times> i32) list \<Rightarrow> usize \<Rightarrow> usize \<Rightarrow> (usize \<times> usize) list" where
  "elements es [] src dst = [(src, dst)]"
| "elements es ((n, ss, ds) # dims) src dst =
     concat (map (\<lambda>i. elements es dims (src + of_nat i * ss * es) (dst + of_nat i * ds * es)) [0..<nat (sint n)])"

definition element_bytes :: "i32 \<Rightarrow> (i32 \<times> i32 \<times> i32) list \<Rightarrow> usize \<Rightarrow> usize \<Rightarrow> (usize \<times> usize) list" where
  "element_bytes es dims src dst = concat (map (\<lambda>(s, d). byte_pairs s d (unat es)) (elements es dims src dst))"

lemma concat_map_concat: "concat (map f (concat (map g xs))) = concat (map (\<lambda>x. concat (map f (g x))) xs)"
  by (induction xs) simp_all

lemma element_bytes_Cons:
  "element_bytes es ((n, ss, ds) # dims) src dst =
   concat (map (\<lambda>i. element_bytes es dims (src + of_nat i * ss * es) (dst + of_nat i * ds * es)) [0..<nat (sint n)])"
  by (simp add: element_bytes_def concat_map_concat)

text \<open>A loop of copies is the copies of its iterations.\<close>

lemma fold_copies:
  assumes "\<And>i m. i \<in> set is \<Longrightarrow> f i m = copies (g i) m"
  shows "fold f is m = copies (concat (map g is)) m"
  using assms by (induction "is" arbitrary: m) (simp_all add: copies_append)

lemma disjoint_copies_part:
  "disjoint_copies (set (concat (map g is))) \<Longrightarrow> i \<in> set is \<Longrightarrow> disjoint_copies (set (g i))"
  by (rule disjoint_copies_subset) auto

lemma sint_unat_nonneg: assumes "0 \<le> sint (n :: i32)" shows "sint n = int (unat n)"
proof -
  have neg: "\<not> bit (uint n) 31" using assms by (simp add: sint_uint) 
  have "signed_take_bit 31 (uint n) = take_bit 31 (uint n)" using neg by (rule signed_take_bit_eq_if_positive)
  moreover have "take_bit 31 (uint n) = uint n"
  proof (rule bit_eqI)
    fix k show "bit (take_bit 31 (uint n)) k = bit (uint n) k"
      using neg by (cases "k = 31") (auto simp: bit_take_bit_iff bit_uint_iff)
  qed
  ultimately show ?thesis by (simp add: sint_uint)
qed
lemma unat_u32_less: "unat (w :: u32) < 2 ^ 32"
  using unsigned_less [of w] by simp

text \<open>The size of the innermost row in bytes fits its type, and no size is negative.\<close>

definition row_fits :: "i32 \<Rightarrow> (i32 \<times> i32 \<times> i32) list \<Rightarrow> bool" where
  "row_fits es dims \<longleftrightarrow> dims \<noteq> [] \<and> 0 \<le> sint (fst (last dims)) \<and> unat (fst (last dims)) * unat es < 2 ^ 32"

lemma copy_row_copies:
  assumes "disjoint_copies (set (element_bytes es [(n, ss, ds)] src dst))" and "row_fits es [(n, ss, ds)]"
  shows "copy_nd es [(n, ss, ds)] src dst m = copies (element_bytes es [(n, ss, ds)] src dst) m"
proof (cases "ss = 1 \<and> ds = 1")
  case True
  have n: "nat (sint n) = unat n" using assms(2) by (simp add: row_fits_def sint_unat_nonneg)
  have row: "element_bytes es [(n, ss, ds)] src dst = byte_pairs src dst (unat n * unat es)"
    using True by (simp add: element_bytes_Cons element_bytes_def n byte_pairs_rows comp_def)
  have "copy_memory dst src (of_nat (unat n * unat es)) m = copies (byte_pairs src dst (unat n * unat es)) m"
    using assms by (intro copy_memory_copies) (simp_all add: row row_fits_def)
  then show ?thesis using True row by simp
next
  case False
  have "copy_memory (dst + of_nat i * ds * es) (src + of_nat i * ss * es) es m' =
      copies (element_bytes es [] (src + of_nat i * ss * es) (dst + of_nat i * ds * es)) m'"
    if "i \<in> set [0..<nat (sint n)]" for i m'
    using copy_memory_copies [of "src + of_nat i * ss * es" "dst + of_nat i * ds * es" "unat es" m']
      disjoint_copies_part [OF assms(1) [unfolded element_bytes_Cons] that] unat_u32_less [of es]
    by (simp add: element_bytes_def)
  then show ?thesis
    unfolding copy_nd.simps if_not_P [OF False] element_bytes_Cons by (rule fold_copies)
qed

lemma copy_nd_copies:
  assumes "disjoint_copies (set (element_bytes es dims src dst))" and "row_fits es dims"
  shows "copy_nd es dims src dst m = copies (element_bytes es dims src dst) m"
  using assms
proof (induction es dims src dst m rule: copy_nd.induct)
  case (2 es n ss ds src dst m)
  then show ?case by (rule copy_row_copies)
next
  case (3 es n ss ds dim dims src dst m)
  have fits: "row_fits es (dim # dims)" using "3.prems"(2) by (simp add: row_fits_def)
  have "copy_nd es (dim # dims) (src + of_nat i * ss * es) (dst + of_nat i * ds * es) m' =
      copies (element_bytes es (dim # dims) (src + of_nat i * ss * es) (dst + of_nat i * ds * es)) m'"
    if "i \<in> set [0..<nat (sint n)]" for i m'
    by (rule "3.IH" [OF that disjoint_copies_part [OF "3.prems"(1) [unfolded element_bytes_Cons] that] fits])
  then show ?case by (simp add: element_bytes_Cons fold_copies del: set_upt)
qed (simp add: row_fits_def)

section \<open>Elements by their index\<close>

text \<open>The address of an element of a memref, and the indices within its sizes.\<close>

definition element_address :: "i32 \<Rightarrow> dynamic_memref \<Rightarrow> nat list \<Rightarrow> usize" where
  "element_address es r idx = dm_data r + (dm_offset r + sum_list (map2 (\<lambda>i s. of_nat i * s) idx (dm_strides r))) * es"

definition in_sizes :: "i32 list \<Rightarrow> nat list \<Rightarrow> bool" where
  "in_sizes sizes idx \<longleftrightarrow> list_all2 (\<lambda>i n. int i < sint n) idx sizes"

lemma elements_index:
  assumes "length ss = length ns" and "length ds = length ns"
  shows "set (elements es (zip ns (zip ss ds)) src dst) =
    {(src + sum_list (map2 (\<lambda>i s. of_nat i * s) idx ss) * es, dst + sum_list (map2 (\<lambda>i s. of_nat i * s) idx ds) * es) |idx.
       in_sizes ns idx}"
  using assms
proof (induction ns arbitrary: ss ds src dst)
  case Nil
  then show ?case by (auto simp: in_sizes_def)
next
  case (Cons n ns)
  obtain s ss' d ds' where lists: "ss = s # ss'" "ds = d # ds'" "length ss' = length ns" "length ds' = length ns"
    using Cons.prems by (cases ss; cases ds) auto
  let ?F = "\<lambda>idx. (src + sum_list (map2 (\<lambda>i s. of_nat i * s) idx ss) * es,
      dst + sum_list (map2 (\<lambda>i s. of_nat i * s) idx ds) * es)"
  have split: "in_sizes (n # ns) idx \<longleftrightarrow> (\<exists>i idx'. idx = i # idx' \<and> i < nat (sint n) \<and> in_sizes ns idx')" for idx
    by (cases idx) (auto simp: in_sizes_def zless_nat_eq_int_zless)
  have "{?F idx |idx. in_sizes (n # ns) idx} = (\<Union>i\<in>{0..<nat (sint n)}. {?F (i # idx) |idx. in_sizes ns idx})"
    unfolding split by fastforce
  moreover have "set (elements es (zip ns (zip ss' ds')) (src + of_nat i * s * es) (dst + of_nat i * d * es)) =
      {?F (i # idx) |idx. in_sizes ns idx}" for i
    unfolding Cons.IH [OF lists(3,4)] by (simp add: lists add.assoc distrib_right)
  ultimately show ?case by (simp add: lists(1,2))
qed


lemma set_element_bytes:
  "set (element_bytes es dims src dst) =
   {(s + of_nat j, d + of_nat j) |s d j. (s, d) \<in> set (elements es dims src dst) \<and> j < unat es}"
  by (auto simp: element_bytes_def set_byte_pairs)

text \<open>What the copy reads and writes, by index and byte.\<close>

definition memref_bytes :: "i32 \<Rightarrow> dynamic_memref \<Rightarrow> dynamic_memref \<Rightarrow> (usize \<times> usize) set" where
  "memref_bytes es src dst =
     {(element_address es src idx + of_nat j, element_address es dst idx + of_nat j) |idx j.
        in_sizes (dm_sizes src) idx \<and> j < unat es}"

definition memref_wf :: "dynamic_memref \<Rightarrow> bool" where
  "memref_wf r \<longleftrightarrow> length (dm_sizes r) = unat (dm_rank r) \<and> length (dm_strides r) = unat (dm_rank r)"

lemma unpack_wf: "unpack_dynamic_memref m p = Some r \<Longrightarrow> memref_wf r"
  by (auto simp: unpack_dynamic_memref_def memref_wf_def load_words_def Let_def split: if_splits)

lemma memref_bytes_elements:
  assumes "memref_wf src" and "memref_wf dst" and "dm_rank src = dm_rank dst"
  shows "set (element_bytes es (zip (dm_sizes src) (zip (dm_strides src) (dm_strides dst)))
      (dm_data src + dm_offset src * es) (dm_data dst + dm_offset dst * es)) = memref_bytes es src dst"
proof -
  have "length (dm_strides src) = length (dm_sizes src)" "length (dm_strides dst) = length (dm_sizes src)"
    using assms by (simp_all add: memref_wf_def)
  note elements = elements_index [OF this]
  have "set (elements es (zip (dm_sizes src) (zip (dm_strides src) (dm_strides dst)))
      (dm_data src + dm_offset src * es) (dm_data dst + dm_offset dst * es)) =
      {(element_address es src idx, element_address es dst idx) |idx. in_sizes (dm_sizes src) idx}"
    unfolding elements element_address_def by (simp add: algebra_simps)
  then show ?thesis by (auto simp: set_element_bytes memref_bytes_def)
qed

lemma zero_size_no_bytes:
  assumes "0 \<in> set (dm_sizes src)"
  shows "memref_bytes es src dst = {}"
proof -
  have "\<not> in_sizes (dm_sizes src) idx" for idx
    using assms by (auto simp: in_sizes_def list_all2_conv_all_nth in_set_conv_nth)
  then show ?thesis by (simp add: memref_bytes_def)
qed

lemma memref_copy_copies:
  assumes "unpack_dynamic_memref m p = Some src" and "unpack_dynamic_memref m q = Some dst"
    and "dm_rank src = dm_rank dst" and "disjoint_copies (memref_bytes es src dst)"
    and "dm_sizes src \<noteq> [] \<longrightarrow> 0 \<le> sint (last (dm_sizes src)) \<and> unat (last (dm_sizes src)) * unat es < 2 ^ 32"
  shows "\<exists>ps. set ps = memref_bytes es src dst \<and> memref_copy es p q m = copies ps m"
proof (cases "0 \<in> set (dm_sizes src)")
  case True
  then have "dm_rank src \<noteq> 0" using unpack_wf [OF assms(1)] by (auto simp: memref_wf_def)
  with True assms(1-3) have "memref_copy es p q m = copies [] m" by (simp add: memref_copy_def)
  with zero_size_no_bytes [OF True] show ?thesis by (metis list.set(1))
next
  case False
  let ?s = "dm_data src + dm_offset src * es" and ?d = "dm_data dst + dm_offset dst * es"
  let ?dims = "zip (dm_sizes src) (zip (dm_strides src) (dm_strides dst))"
  note wf = unpack_wf [OF assms(1)] unpack_wf [OF assms(2)]
  note bytes = memref_bytes_elements [OF wf assms(3)]
  have disjoint: "disjoint_copies (set (element_bytes es ?dims ?s ?d))" using assms(4) by (simp add: bytes)
  have "memref_copy es p q m = copies (element_bytes es ?dims ?s ?d) m"
  proof (cases "dm_rank src = 0")
    case True
    then have "dm_sizes src = []" using wf(1) by (simp add: memref_wf_def)
    then have "element_bytes es ?dims ?s ?d = byte_pairs ?s ?d (unat es)" by (simp add: element_bytes_def)
    with True assms(1-3) disjoint copy_memory_copies [of ?s ?d "unat es" m] unat_u32_less [of es] show ?thesis
      by (simp add: memref_copy_def)
  next
    case nonzero: False
    then have "unat (dm_rank src) \<noteq> 0" by (simp add: unat_eq_0)
    then have sizes: "dm_sizes src \<noteq> []" "length (zip (dm_strides src) (dm_strides dst)) = length (dm_sizes src)"
      using wf assms(3) by (auto simp: memref_wf_def)
    then have "?dims \<noteq> []" by (cases "dm_sizes src"; cases "zip (dm_strides src) (dm_strides dst)") auto
  moreover have "last ?dims = (last (dm_sizes src), last (zip (dm_strides src) (dm_strides dst)))"
    using sizes by (intro last_zip) auto
  ultimately have "row_fits es ?dims" using sizes assms(5) by (simp add: row_fits_def)
    with copy_nd_copies [OF disjoint] nonzero False assms(1-3) show ?thesis by (simp add: memref_copy_def)
  qed
  with bytes show ?thesis by blast
qed

lemma memref_copy_mismatch:
  "map_option dm_rank (unpack_dynamic_memref m p) \<noteq> map_option dm_rank (unpack_dynamic_memref m q) \<or>
     unpack_dynamic_memref m p = None \<Longrightarrow> memref_copy es p q m = m"
  by (auto simp: memref_copy_def split: option.split)

text \<open>
  C29: A copy between two memrefs of one rank writes every element of the source to the element of the
  destination with the same index, and no other byte, for any strides and offsets, provided that no
  byte is both read and written, no byte is written from two places, and a row fits the address space.
\<close>

theorem memref_copy_correct:
  assumes "unpack_dynamic_memref m p = Some src" and "unpack_dynamic_memref m q = Some dst"
    and "dm_rank src = dm_rank dst" and "disjoint_copies (memref_bytes es src dst)"
    and "dm_sizes src \<noteq> [] \<longrightarrow> 0 \<le> sint (last (dm_sizes src)) \<and> unat (last (dm_sizes src)) * unat es < 2 ^ 32"
  shows "(\<forall>idx j. in_sizes (dm_sizes src) idx \<longrightarrow> j < unat es \<longrightarrow>
      memref_copy es p q m (element_address es dst idx + of_nat j) = m (element_address es src idx + of_nat j)) \<and>
    (\<forall>a. (\<forall>idx j. in_sizes (dm_sizes src) idx \<longrightarrow> j < unat es \<longrightarrow> a \<noteq> element_address es dst idx + of_nat j) \<longrightarrow>
      memref_copy es p q m a = m a)"
proof (intro conjI allI impI)
  from memref_copy_copies [OF assms] obtain ps
    where ps: "set ps = memref_bytes es src dst" "memref_copy es p q m = copies ps m" by blast
  fix idx j
  assume "in_sizes (dm_sizes src) idx" "j < unat es"
  then have "(element_address es src idx + of_nat j, element_address es dst idx + of_nat j) \<in> set ps"
    by (auto simp: ps(1) memref_bytes_def)
  from copies_read [OF _ this] assms(4)
  show "memref_copy es p q m (element_address es dst idx + of_nat j) = m (element_address es src idx + of_nat j)"
    by (simp add: ps)
next
  from memref_copy_copies [OF assms] obtain ps
    where ps: "set ps = memref_bytes es src dst" "memref_copy es p q m = copies ps m" by blast
  fix a
  assume "\<forall>idx j. in_sizes (dm_sizes src) idx \<longrightarrow> j < unat es \<longrightarrow> a \<noteq> element_address es dst idx + of_nat j"
  then have "a \<notin> snd ` set ps" unfolding ps(1) memref_bytes_def by fastforce
  then show "memref_copy es p q m a = m a" by (simp add: ps(2) copies_other)
qed


text \<open>A 2 by 2 block of bytes out of rows of 8, copied to a transposed destination.\<close>

definition sample_copy_memory :: memory where
  "sample_copy_memory = (\<lambda>a.
     if a < 0x100 then 0
     else if a - 0x100 < 8 then ([2, 0, 0, 0, 0, 2, 0, 0] :: u8 list) ! unat (a - 0x100)
     else if a - 0x108 < 8 then ([2, 0, 0, 0, 0, 3, 0, 0] :: u8 list) ! unat (a - 0x108)
     else if a - 0x200 < 28 then
       ([0, 0, 0, 0, 0, 16, 0, 0, 3, 0, 0, 0, 2, 0, 0, 0, 2, 0, 0, 0, 8, 0, 0, 0, 1, 0, 0, 0] :: u8 list) ! unat (a - 0x200)
     else if a - 0x300 < 28 then
       ([0, 0, 0, 0, 0, 32, 0, 0, 0, 0, 0, 0, 2, 0, 0, 0, 2, 0, 0, 0, 1, 0, 0, 0, 2, 0, 0, 0] :: u8 list) ! unat (a - 0x300)
     else ucast a)"

definition sample_copy_src :: dynamic_memref where
  "sample_copy_src = \<lparr>dm_rank = 2, dm_data = 0x1000, dm_offset = 3, dm_sizes = [2, 2], dm_strides = [8, 1]\<rparr>"

definition sample_copy_dst :: dynamic_memref where
  "sample_copy_dst = \<lparr>dm_rank = 2, dm_data = 0x2000, dm_offset = 0, dm_sizes = [2, 2], dm_strides = [1, 2]\<rparr>"

lemma sample_copy_unpack:
  "unpack_dynamic_memref sample_copy_memory 0x100 = Some sample_copy_src"
  "unpack_dynamic_memref sample_copy_memory 0x108 = Some sample_copy_dst"
  by code_simp+

lemma in_sizes_2_2: "in_sizes [2, 2] idx \<longleftrightarrow> idx \<in> {[0, 0], [0, 1], [1, 0], [1, 1]}"
  by (auto simp: in_sizes_def list_all2_Cons2)

lemma sample_copy_bytes:
  "memref_bytes 1 sample_copy_src sample_copy_dst =
   {(0x1003, 0x2000), (0x1004, 0x2002), (0x100B, 0x2001), (0x100C, 0x2003)}"
proof -
  have four: "{(f idx + of_nat j, g idx + of_nat j) |idx j. idx \<in> {a, b, c, d} \<and> j < unat (1 :: i32)} =
      {(f a, g a), (f b, g b), (f c, g c), (f d, g d)}" for f g :: "nat list \<Rightarrow> usize" and a b c d
    by auto
  have "in_sizes (dm_sizes sample_copy_src) idx \<longleftrightarrow> idx \<in> {[0, 0], [0, 1], [1, 0], [1, 1]}" for idx
    by (simp add: sample_copy_src_def in_sizes_2_2)
  then show ?thesis
    unfolding memref_bytes_def by (simp only: four)
      (simp add: element_address_def sample_copy_src_def sample_copy_dst_def insert_commute)
qed

lemma memref_copy_correct_witness:
  "memref_copy 1 0x100 0x108 sample_copy_memory 0x2001 = 11 \<and>
   memref_copy 1 0x100 0x108 sample_copy_memory 0x2002 = 4"
proof -
  have disjoint: "disjoint_copies (memref_bytes 1 sample_copy_src sample_copy_dst)"
    by (simp add: sample_copy_bytes disjoint_copies_def)
  have rank: "dm_rank sample_copy_src = dm_rank sample_copy_dst"
    and fits: "dm_sizes sample_copy_src \<noteq> [] \<longrightarrow>
      0 \<le> sint (last (dm_sizes sample_copy_src)) \<and> unat (last (dm_sizes sample_copy_src)) * unat (1 :: i32) < 2 ^ 32"
    by (simp_all add: sample_copy_src_def sample_copy_dst_def)
  note copied = memref_copy_correct [OF sample_copy_unpack rank disjoint fits, THEN conjunct1, rule_format]
  have "memref_copy 1 0x100 0x108 sample_copy_memory 0x2001 = sample_copy_memory 0x100B"
    using copied [of "[1, 0]" 0] by (simp add: sample_copy_src_def sample_copy_dst_def in_sizes_2_2 element_address_def)
  moreover have "memref_copy 1 0x100 0x108 sample_copy_memory 0x2002 = sample_copy_memory 0x1004"
    using copied [of "[0, 1]" 0] by (simp add: sample_copy_src_def sample_copy_dst_def in_sizes_2_2 element_address_def)
  moreover have "sample_copy_memory 0x100B = 11" "sample_copy_memory 0x1004 = 4" by code_simp+
  ultimately show ?thesis by simp
qed

end
