(* ===== verification/Profiler_Records.thy ===== *)
theory Profiler_Records
  imports Prelude "HOL-Library.Multiset"
begin

text \<open>
  The profiler of the DSP runtime, \<open>plugins/runtime/hexagon/dsp/rt/profiler.c\<close>, in builds that enable
  it. The threads that run dispatches take records from one array without a lock: they look at a
  counter, increment it atomically, and take the increment back when it went past the end.

  Each access to shared data is one step of a thread, and the steps of the threads interleave in any
  order. Log messages and the PMU registers are left out. Time stamps, zone types and texts of the
  records are up to the environment.
\<close>

section \<open>State\<close>

record prof_record =
  re_start_ticks :: u64
  re_stop_ticks :: u64
  re_extra_info :: string
  re_zone_type :: u16
  re_completed :: bool
  re_thread_id :: u32

text \<open>Where a thread is in \<open>profiler_measurement_start\<close>.\<close>

datatype prof_pc = Outside | Checked | Undo | Dropping | Filling u32

text \<open>
  The context with the header's capacity, the records, the threads, and two logs that only serve the
  properties: which thread got which record, newest first, and how many calls got none.
\<close>

record prof_context =
  pf_num_records :: u32
  pf_next_record_idx :: u32
  pf_dropped_records :: u32
  pf_records :: "prof_record list"
  pf_threads :: "prof_pc list"
  pf_acquired :: "(nat \<times> u32) list"
  pf_lost :: nat

definition profiler_context_init :: "u32 \<Rightarrow> prof_record list \<Rightarrow> nat \<Rightarrow> prof_context" where
  "profiler_context_init num_records records threads =
     \<lparr>pf_num_records = num_records, pf_next_record_idx = 0, pf_dropped_records = 0, pf_records = records,
      pf_threads = replicate threads Outside, pf_acquired = [], pf_lost = 0\<rparr>"

text \<open>The counters that \<open>profiler_context_deinit\<close> hands to the host: started and dropped records.\<close>

definition profiler_context_deinit :: "prof_context \<Rightarrow> u32 \<times> u32" where
  "profiler_context_deinit s = (pf_next_record_idx s, pf_dropped_records s)"

section \<open>Steps\<close>

definition set_pc :: "nat \<Rightarrow> prof_pc \<Rightarrow> prof_context \<Rightarrow> prof_context" where
  "set_pc i pc s = s\<lparr>pf_threads := (pf_threads s)[i := pc]\<rparr>"

text \<open>The fields that starting a measurement writes; \<open>strncpy\<close> keeps 63 characters.\<close>

definition start_record :: "u32 \<Rightarrow> string option \<Rightarrow> u32 \<Rightarrow> u64 \<Rightarrow> prof_record \<Rightarrow> prof_record" where
  "start_record zone_type extra_info thread_id now r =
     r\<lparr>re_zone_type := ucast zone_type, re_thread_id := thread_id, re_start_ticks := now,
       re_extra_info := (case extra_info of None \<Rightarrow> '''' | Some info \<Rightarrow> take 63 info)\<rparr>"

text \<open>\<open>profiler_context_get_fresh_record\<close> step by step, and then the writes to the record.\<close>

definition check_capacity :: "nat \<Rightarrow> prof_context \<Rightarrow> prof_context" where
  "check_capacity i s = set_pc i (if pf_next_record_idx s < pf_num_records s then Checked else Dropping) s"

definition take_index :: "nat \<Rightarrow> prof_context \<Rightarrow> prof_context" where
  "take_index i s =
     (let new_next_idx = pf_next_record_idx s + 1; idx = new_next_idx - 1; s = s\<lparr>pf_next_record_idx := new_next_idx\<rparr>
      in if idx < pf_num_records s then set_pc i (Filling idx) (s\<lparr>pf_acquired := (i, idx) # pf_acquired s\<rparr>)
         else set_pc i Undo s)"

definition undo_index :: "nat \<Rightarrow> prof_context \<Rightarrow> prof_context" where
  "undo_index i s = set_pc i Dropping (s\<lparr>pf_next_record_idx := pf_next_record_idx s - 1\<rparr>)"

definition count_dropped :: "nat \<Rightarrow> prof_context \<Rightarrow> prof_context" where
  "count_dropped i s =
     set_pc i Outside (s\<lparr>pf_dropped_records := pf_dropped_records s + 1, pf_lost := Suc (pf_lost s)\<rparr>)"

definition fill_record :: "nat \<Rightarrow> u32 \<Rightarrow> prof_record \<Rightarrow> prof_context \<Rightarrow> prof_context" where
  "fill_record i idx r s = set_pc i Outside (s\<lparr>pf_records := (pf_records s)[unat idx := r]\<rparr>)"

text \<open>The next step of a thread; the zone, text, thread id and time are those of its call.\<close>

definition thread_step :: "nat \<Rightarrow> u32 \<Rightarrow> string option \<Rightarrow> u32 \<Rightarrow> u64 \<Rightarrow> prof_context \<Rightarrow> prof_context" where
  "thread_step i zone_type info thread_id now s =
     (case pf_threads s ! i of
        Outside \<Rightarrow> check_capacity i s
      | Checked \<Rightarrow> take_index i s
      | Undo \<Rightarrow> undo_index i s
      | Dropping \<Rightarrow> count_dropped i s
      | Filling idx \<Rightarrow> fill_record i idx (start_record zone_type info thread_id now (pf_records s ! unat idx)) s)"

inductive prof_step :: "prof_context \<Rightarrow> prof_context \<Rightarrow> bool" where
  "i < length (pf_threads s) \<Longrightarrow> prof_step s (thread_step i zone_type info thread_id now s)"

inductive_cases prof_stepE: "prof_step s s'"

inductive prof_reachable :: "prof_context \<Rightarrow> prof_context \<Rightarrow> bool" for s0 where
  prof_start: "prof_reachable s0 s0"
| prof_next: "prof_reachable s0 s \<Longrightarrow> prof_step s s' \<Longrightarrow> prof_reachable s0 s'"

text \<open>\<open>profiler_measurement_finish_and_record\<close>: a record is finished once.\<close>

definition measurement_finish :: "u64 \<Rightarrow> prof_record \<Rightarrow> prof_record" where
  "measurement_finish now r = (if re_completed r then r else r\<lparr>re_stop_ticks := now, re_completed := True\<rparr>)"

section \<open>Invariant\<close>

definition undoing :: "prof_context \<Rightarrow> nat" where
  "undoing s = count (mset (pf_threads s)) Undo"

definition prof_inv :: "prof_context \<Rightarrow> bool" where
  "prof_inv s \<longleftrightarrow>
     unat (pf_next_record_idx s) = length (pf_acquired s) + undoing s \<and>
     length (pf_acquired s) \<le> unat (pf_num_records s) \<and>
     (Undo \<in> set (pf_threads s) \<or> Dropping \<in> set (pf_threads s) \<or> 0 < pf_lost s \<longrightarrow>
        length (pf_acquired s) = unat (pf_num_records s)) \<and>
     map snd (pf_acquired s) = map of_nat (rev [0..<length (pf_acquired s)]) \<and>
     (\<forall>i idx. i < length (pf_threads s) \<longrightarrow> pf_threads s ! i = Filling idx \<longrightarrow> (i, idx) \<in> set (pf_acquired s)) \<and>
     pf_dropped_records s = of_nat (pf_lost s)"

text \<open>The number of threads and the capacity, which no step changes.\<close>

definition prof_fits :: "prof_context \<Rightarrow> bool" where
  "prof_fits s \<longleftrightarrow> unat (pf_num_records s) + length (pf_threads s) < 2 ^ 32"

lemma set_pc_fields [simp]:
  "pf_num_records (set_pc i pc s) = pf_num_records s" "pf_next_record_idx (set_pc i pc s) = pf_next_record_idx s"
  "pf_dropped_records (set_pc i pc s) = pf_dropped_records s" "pf_records (set_pc i pc s) = pf_records s"
  "pf_acquired (set_pc i pc s) = pf_acquired s" "pf_lost (set_pc i pc s) = pf_lost s"
  "pf_threads (set_pc i pc s) = (pf_threads s)[i := pc]"
  by (simp_all add: set_pc_def)

lemmas thread_step_defs = check_capacity_def take_index_def undo_index_def count_dropped_def fill_record_def

lemma thread_step_frame:
  "pf_num_records (thread_step i z t d n s) = pf_num_records s"
  "length (pf_threads (thread_step i z t d n s)) = length (pf_threads s)"
  "length (pf_records (thread_step i z t d n s)) = length (pf_records s)"
  by (simp_all add: thread_step_def thread_step_defs Let_def split: prof_pc.split)

lemma undoing_bound: "undoing s \<le> length (pf_threads s)"
  unfolding undoing_def by (metis count_le_size size_mset)

lemma undoing_update:
  assumes "i < length (pf_threads s)" and "pf_threads s ! i = old" and "pf_threads s' = (pf_threads s)[i := pc]"
  shows "undoing s' + (if old = Undo then 1 else 0) = undoing s + (if pc = Undo then 1 else 0)"
proof -
  have "old \<in># mset (pf_threads s)" using assms(1,2) by auto
  then have "0 < count (mset (pf_threads s)) old" by (simp only: count_greater_zero_iff)
  then show ?thesis using assms by (auto simp: undoing_def mset_update)
qed

lemma undoing_positive: "Undo \<in> set (pf_threads s) \<longleftrightarrow> 0 < undoing s"
  by (simp add: undoing_def count_greater_zero_iff)


lemma set_update_pc: "pc \<in> set (xs[i := pc']) \<Longrightarrow> pc \<noteq> pc' \<Longrightarrow> pc \<in> set xs"
  using set_update_subset_insert by fastforce

lemma prof_invD:
  assumes "prof_inv s"
  shows "unat (pf_next_record_idx s) = length (pf_acquired s) + undoing s"
    and "length (pf_acquired s) \<le> unat (pf_num_records s)"
    and "Undo \<in> set (pf_threads s) \<or> Dropping \<in> set (pf_threads s) \<or> 0 < pf_lost s \<Longrightarrow>
      length (pf_acquired s) = unat (pf_num_records s)"
    and "map snd (pf_acquired s) = map of_nat (rev [0..<length (pf_acquired s)])"
    and "i < length (pf_threads s) \<Longrightarrow> pf_threads s ! i = Filling idx \<Longrightarrow> (i, idx) \<in> set (pf_acquired s)"
    and "pf_dropped_records s = of_nat (pf_lost s)"
  using assms unfolding prof_inv_def by blast+

text \<open>No call is undoing an increment while there are records left.\<close>

lemma full_when_past_end:
  assumes "prof_inv s" and "\<not> pf_next_record_idx s < pf_num_records s"
  shows "length (pf_acquired s) = unat (pf_num_records s)"
proof (cases "undoing s = 0")
  case True
  with assms prof_invD(1,2) [OF assms(1)] show ?thesis by (simp add: word_less_nat_alt)
next
  case False
  then show ?thesis using prof_invD(3) [OF assms(1)] undoing_positive by simp
qed

lemma none_undoing_before_end:
  assumes "prof_inv s" and "pf_next_record_idx s < pf_num_records s"
  shows "undoing s = 0" and "length (pf_acquired s) < unat (pf_num_records s)"
proof -
  have "undoing s = 0"
  proof (rule ccontr)
    assume "undoing s \<noteq> 0"
    then have "length (pf_acquired s) = unat (pf_num_records s)" using prof_invD(3) [OF assms(1)] undoing_positive by simp
    with assms(2) prof_invD(1) [OF assms(1)] show False by (simp add: word_less_nat_alt)
  qed
  with assms(2) prof_invD(1) [OF assms(1)] show "undoing s = 0" "length (pf_acquired s) < unat (pf_num_records s)"
    by (simp_all add: word_less_nat_alt)
qed

lemma next_no_wrap:
  assumes "prof_inv s" and "prof_fits s" and "i < length (pf_threads s)" and "pf_threads s ! i \<noteq> Undo"
  shows "unat (pf_next_record_idx s + 1) = unat (pf_next_record_idx s) + 1"
proof -
  have "undoing (set_pc i Undo s) = undoing s + 1"
    using undoing_update [OF assms(3) refl, of "set_pc i Undo s" Undo] assms(4) by simp
  moreover have "undoing (set_pc i Undo s) \<le> length (pf_threads s)"
    using undoing_bound [of "set_pc i Undo s"] by simp
  ultimately have "unat (pf_next_record_idx s) + 1 < 2 ^ 32"
    using prof_invD(1,2) [OF assms(1)] assms(2) by (simp add: prof_fits_def)
  then show ?thesis by (simp add: unat_word_ariths(1))
qed

lemma unat_of_nat_eq_self: "unat (w :: u32) = n \<Longrightarrow> w = of_nat n"
  by auto

text \<open>The steps keep the invariant.\<close>

lemma check_capacity_inv:
  assumes "prof_inv s" and "i < length (pf_threads s)" and "pf_threads s ! i = Outside"
  shows "prof_inv (check_capacity i s)"
proof -
  let ?pc = "if pf_next_record_idx s < pf_num_records s then Checked else Dropping"
  have undoing: "undoing (set_pc i ?pc s) = undoing s"
    using undoing_update [OF assms(2,3), of "set_pc i ?pc s" ?pc] by simp
  have full: "length (pf_acquired s) = unat (pf_num_records s)"
    if "Undo \<in> set ((pf_threads s)[i := ?pc]) \<or> Dropping \<in> set ((pf_threads s)[i := ?pc]) \<or> 0 < pf_lost s"
    using that prof_invD(3) [OF assms(1)] full_when_past_end [OF assms(1)]
    by (cases "pf_next_record_idx s < pf_num_records s") (auto dest: set_update_pc)
  have filling: "(j, idx) \<in> set (pf_acquired s)"
    if "j < length (pf_threads s)" "(pf_threads s)[i := ?pc] ! j = Filling idx" for j idx
    using that prof_invD(5) [OF assms(1)] by (cases "i = j") (auto split: if_splits)
  show ?thesis
    unfolding prof_inv_def check_capacity_def
    using prof_invD(1,2,4,6) [OF assms(1)] undoing full filling by simp
qed

lemma undo_index_inv:
  assumes "prof_inv s" and "i < length (pf_threads s)" and "pf_threads s ! i = Undo"
  shows "prof_inv (undo_index i s)" and "unat (pf_num_records s) \<le> unat (pf_next_record_idx (undo_index i s))"
proof -
  have undoing: "undoing s = undoing (undo_index i s) + 1"
    using undoing_update [OF assms(2,3), of "undo_index i s" Dropping] by (simp add: undo_index_def)
  have undo: "Undo \<in> set (pf_threads s)" using assms(2,3) by (metis nth_mem)
  then have full: "length (pf_acquired s) = unat (pf_num_records s)" using prof_invD(3) [OF assms(1)] by simp
  have "unat (pf_next_record_idx s - 1) = unat (pf_next_record_idx s) - 1"
    using prof_invD(1) [OF assms(1)] undoing by (intro unat_minus_one) auto
  then have count: "unat (pf_next_record_idx (undo_index i s)) = length (pf_acquired s) + undoing (undo_index i s)"
    using prof_invD(1) [OF assms(1)] undoing by (simp add: undo_index_def)
  have filling: "(j, idx) \<in> set (pf_acquired s)"
    if "j < length (pf_threads s)" "(pf_threads s)[i := Dropping] ! j = Filling idx" for j idx
    using that prof_invD(5) [OF assms(1)] by (cases "i = j") auto
  show "prof_inv (undo_index i s)"
    unfolding prof_inv_def using prof_invD(4,6) [OF assms(1)] count full filling
    by (simp add: undo_index_def)
  show "unat (pf_num_records s) \<le> unat (pf_next_record_idx (undo_index i s))"
    using count full by simp
qed

lemma count_dropped_inv:
  assumes "prof_inv s" and "i < length (pf_threads s)" and "pf_threads s ! i = Dropping"
  shows "prof_inv (count_dropped i s)"
proof -
  have undoing: "undoing (count_dropped i s) = undoing s"
    using undoing_update [OF assms(2,3), of "count_dropped i s" Outside] by (simp add: count_dropped_def)
  have "Dropping \<in> set (pf_threads s)" using assms(2,3) by (metis nth_mem)
  then have full: "length (pf_acquired s) = unat (pf_num_records s)" using prof_invD(3) [OF assms(1)] by simp
  have filling: "(j, idx) \<in> set (pf_acquired s)"
    if "j < length (pf_threads s)" "(pf_threads s)[i := Outside] ! j = Filling idx" for j idx
    using that prof_invD(5) [OF assms(1)] by (cases "i = j") auto
  show ?thesis
    unfolding prof_inv_def using prof_invD(1,4,6) [OF assms(1)] undoing full filling
    by (simp add: count_dropped_def)
qed

lemma fill_record_inv:
  assumes "prof_inv s" and "i < length (pf_threads s)" and "pf_threads s ! i = Filling idx"
  shows "prof_inv (fill_record i idx r s)"
proof -
  have undoing: "undoing (fill_record i idx r s) = undoing s"
    using undoing_update [OF assms(2,3), of "fill_record i idx r s" Outside] by (simp add: fill_record_def)
  have full: "length (pf_acquired s) = unat (pf_num_records s)"
    if "Undo \<in> set ((pf_threads s)[i := Outside]) \<or> Dropping \<in> set ((pf_threads s)[i := Outside]) \<or> 0 < pf_lost s"
    using that prof_invD(3) [OF assms(1)] by (auto dest: set_update_pc)
  have filling: "(j, idx') \<in> set (pf_acquired s)"
    if "j < length (pf_threads s)" "(pf_threads s)[i := Outside] ! j = Filling idx'" for j idx'
    using that prof_invD(5) [OF assms(1)] by (cases "i = j") auto
  show ?thesis
    unfolding prof_inv_def using prof_invD(1,2,4,6) [OF assms(1)] undoing full filling
    by (simp add: fill_record_def)
qed

lemma take_index_inv:
  assumes "prof_inv s" and "prof_fits s" and "i < length (pf_threads s)" and "pf_threads s ! i = Checked"
  shows "prof_inv (take_index i s)"
proof (cases "pf_next_record_idx s < pf_num_records s")
  case True
  let ?s = "take_index i s" and ?idx = "pf_next_record_idx s"
  have fields: "pf_threads ?s = (pf_threads s)[i := Filling ?idx]" "pf_acquired ?s = (i, ?idx) # pf_acquired s"
    "pf_next_record_idx ?s = ?idx + 1" "pf_num_records ?s = pf_num_records s" "pf_lost ?s = pf_lost s"
    "pf_dropped_records ?s = pf_dropped_records s"
    using True by (simp_all add: take_index_def Let_def)
  note before = none_undoing_before_end [OF assms(1) True]
  have undoing: "undoing ?s = undoing s"
    using undoing_update [OF assms(3,4) fields(1)] by simp
  have idx: "?idx = of_nat (length (pf_acquired s))"
    using prof_invD(1) [OF assms(1)] before(1) by (metis add.right_neutral unat_of_nat_eq_self)
  have not_full: "\<not> (Undo \<in> set (pf_threads ?s) \<or> Dropping \<in> set (pf_threads ?s) \<or> 0 < pf_lost s)"
    using prof_invD(3) [OF assms(1)] before(2) unfolding fields by (auto dest!: set_update_pc)
  have filling: "(j, idx) \<in> set (pf_acquired ?s)"
    if "j < length (pf_threads s)" "(pf_threads s)[i := Filling ?idx] ! j = Filling idx" for j idx
    using that prof_invD(5) [OF assms(1)] unfolding fields by (cases "i = j") auto
  have "map snd (pf_acquired ?s) = map of_nat (rev [0..<length (pf_acquired ?s)])"
    using prof_invD(4) [OF assms(1)] idx by (simp add: fields)
  moreover have "unat (pf_next_record_idx ?s) = length (pf_acquired ?s) + undoing ?s"
    using next_no_wrap [OF assms(1-3)] assms(4) prof_invD(1) [OF assms(1)] undoing by (simp add: fields)
  ultimately show ?thesis
    unfolding prof_inv_def using prof_invD(6) [OF assms(1)] before(2) not_full filling
    by (simp add: fields)
next
  case False
  let ?s = "take_index i s"
  have fields: "pf_threads ?s = (pf_threads s)[i := Undo]" "pf_acquired ?s = pf_acquired s"
    "pf_next_record_idx ?s = pf_next_record_idx s + 1" "pf_num_records ?s = pf_num_records s" "pf_lost ?s = pf_lost s"
    "pf_dropped_records ?s = pf_dropped_records s"
    using False by (simp_all add: take_index_def Let_def)
  have undoing: "undoing ?s = undoing s + 1"
    using undoing_update [OF assms(3,4) fields(1)] by simp
  have filling: "(j, idx) \<in> set (pf_acquired s)"
    if "j < length (pf_threads s)" "(pf_threads s)[i := Undo] ! j = Filling idx" for j idx
    using that prof_invD(5) [OF assms(1)] by (cases "i = j") auto
  have "unat (pf_next_record_idx ?s) = length (pf_acquired ?s) + undoing ?s"
    using next_no_wrap [OF assms(1-3)] assms(4) prof_invD(1) [OF assms(1)] undoing by (simp add: fields)
  then show ?thesis
    unfolding prof_inv_def using prof_invD(4,6) [OF assms(1)] full_when_past_end [OF assms(1) False] filling
    by (simp add: fields)
qed

lemma thread_step_inv:
  assumes "prof_inv s" and "prof_fits s" and "i < length (pf_threads s)"
  shows "prof_inv (thread_step i z t d n s)"
  using assms by (cases "pf_threads s ! i")
    (simp_all add: thread_step_def check_capacity_inv take_index_inv undo_index_inv count_dropped_inv fill_record_inv)

lemma reachable_inv:
  assumes "prof_reachable s0 s" and "prof_inv s0" and "prof_fits s0"
  shows "prof_inv s \<and> prof_fits s \<and> pf_num_records s = pf_num_records s0 \<and>
    length (pf_records s) = length (pf_records s0) \<and> length (pf_threads s) = length (pf_threads s0)"
  using assms
proof (induction rule: prof_reachable.induct)
  case (prof_next s s')
  from prof_next.hyps(2) obtain i z t d n where i: "i < length (pf_threads s)" and s': "s' = thread_step i z t d n s"
    by (auto elim: prof_stepE)
  with prof_next thread_step_inv [OF _ _ i] show ?case by (simp add: thread_step_frame prof_fits_def)
qed simp

lemma init_inv: "prof_inv (profiler_context_init num records threads)"
  by (auto simp: prof_inv_def profiler_context_init_def undoing_def)


section \<open>The log\<close>

text \<open>
  Sizes of the packed structures of \<open>arm_dsp/profiler.h\<close> with 8 counters. The host sizes the log,
  \<open>iree_hal_hexagon_alloc_and_init_profiler_data\<close>; \<open>hexagon_dsp_command_buffer_execute_profiler\<close> checks
  it in 32 bits.
\<close>

definition PROF_HEADER_SIZE :: nat where "PROF_HEADER_SIZE = 8 * 4 + 3 * 4 + 8 + 4"
definition PROF_RECORD_SIZE :: nat where "PROF_RECORD_SIZE = 2 * 8 + 2 * (8 * 4) + 64 + 2 + 1 + 1 + 4"

definition profiler_data_size :: "u32 \<Rightarrow> u64 option" where
  "profiler_data_size capacity =
     (let size = of_nat PROF_HEADER_SIZE + ucast capacity * of_nat PROF_RECORD_SIZE
      in if size > 2 ^ 31 - 1 then None else Some size)"

definition profiler_log_accepted :: "u32 \<Rightarrow> u32 \<Rightarrow> bool" where
  "profiler_log_accepted log_size num_records \<longleftrightarrow>
     \<not> log_size < of_nat PROF_HEADER_SIZE \<and>
     \<not> log_size - of_nat PROF_HEADER_SIZE < num_records * of_nat PROF_RECORD_SIZE"

lemma unat_of_nat_u64: "k < 2 ^ 64 \<Longrightarrow> unat (of_nat k :: u64) = k"
  by (simp add: unsigned_of_nat take_bit_nat_eq_self)

lemma unat_of_nat_u32: "k < 2 ^ 32 \<Longrightarrow> unat (of_nat k :: u32) = k"
  by (simp add: unsigned_of_nat take_bit_nat_eq_self)

lemma profiler_log_fits:
  assumes "profiler_data_size capacity = Some n"
  shows "profiler_log_accepted (ucast n) capacity"
    and "unat n = PROF_HEADER_SIZE + unat capacity * PROF_RECORD_SIZE"
proof -
  have "unat capacity < 2 ^ 32" using unsigned_less [of capacity] by simp
  then have wide: "56 + unat capacity * 152 < 2 ^ 64" by simp
  have n: "n = of_nat (56 + unat capacity * 152)" "n \<le> 2 ^ 31 - 1"
    using assms by (auto simp: profiler_data_size_def Let_def PROF_HEADER_SIZE_def PROF_RECORD_SIZE_def split: if_splits)
  then have unat_n: "unat n = 56 + unat capacity * 152"
    using unat_of_nat_u64 [OF wide] by (simp only:)
  then show "unat n = PROF_HEADER_SIZE + unat capacity * PROF_RECORD_SIZE"
    by (simp add: PROF_HEADER_SIZE_def PROF_RECORD_SIZE_def)
  have small: "56 + unat capacity * 152 < 2 ^ 31"
    using n(2) unat_n by (simp add: word_le_nat_alt)
  have log: "(ucast n :: u32) = of_nat (56 + unat capacity * 152)"
    unfolding unat_n [symmetric] by simp
  have bound: "56 + unat capacity * 152 < 2 ^ 32"
    using small by simp
  have sizes: "(of_nat PROF_HEADER_SIZE :: u32) = 56" "(of_nat PROF_RECORD_SIZE :: u32) = 152"
    by (simp_all add: PROF_HEADER_SIZE_def PROF_RECORD_SIZE_def)
  have enough: "\<not> (of_nat (56 + unat capacity * 152) :: u32) < 56"
    unfolding word_less_nat_alt unat_of_nat_u32 [OF bound] by simp
  have rest: "(of_nat (56 + unat capacity * 152) :: u32) - 56 = capacity * 152" by simp
  show "profiler_log_accepted (ucast n) capacity"
    unfolding profiler_log_accepted_def log sizes rest using enough by blast
qed

section \<open>Properties\<close>

text \<open>
  C11: However the threads interleave, no two measurements get the same record and every record lies
  within the array that the host reserved; taking an increment back never brings the counter below
  the capacity; a measurement is dropped only when all records are taken. When no thread is in a
  call, the host is told the number of records taken, which are the first ones, and the number of
  measurements dropped. The array of the host's log has room for the capacity it states.
\<close>

theorem profiler_records_safe:
  assumes "profiler_data_size capacity = Some log_size"
    and "length records = unat capacity"
    and "unat capacity + threads < 2 ^ 32"
    and "prof_reachable (profiler_context_init capacity records threads) s"
  shows "profiler_log_accepted (ucast log_size) capacity \<and>
    unat log_size = PROF_HEADER_SIZE + length (pf_records s) * PROF_RECORD_SIZE \<and>
    distinct (map snd (pf_acquired s)) \<and>
    (\<forall>(i, idx)\<in>set (pf_acquired s). unat idx < length (pf_records s)) \<and>
    (\<forall>i<threads. \<forall>idx. pf_threads s ! i = Filling idx \<longrightarrow> (i, idx) \<in> set (pf_acquired s)) \<and>
    (\<forall>i<threads. pf_threads s ! i = Undo \<longrightarrow> capacity \<le> pf_next_record_idx (undo_index i s)) \<and>
    (0 < pf_lost s \<longrightarrow> length (pf_acquired s) = unat capacity) \<and>
    (set (pf_threads s) \<subseteq> {Outside} \<longrightarrow>
       profiler_context_deinit s = (of_nat (length (pf_acquired s)), of_nat (pf_lost s)) \<and>
       snd ` set (pf_acquired s) = of_nat ` {..<length (pf_acquired s)})"
proof -
  note log = profiler_log_fits [OF assms(1)]
  have fits: "prof_fits (profiler_context_init capacity records threads)"
    using assms(3) by (simp add: prof_fits_def profiler_context_init_def)
  from reachable_inv [OF assms(4) init_inv fits] have inv: "prof_inv s"
    and same: "pf_num_records s = capacity" "length (pf_records s) = length records" "length (pf_threads s) = threads"
    by (simp_all add: profiler_context_init_def)
  have len: "length records = unat capacity" by (rule assms(2))
  let ?n = "length (pf_acquired s)"
  have n: "?n \<le> unat capacity" "unat capacity < 2 ^ 32"
    using prof_invD(2) [OF inv] unsigned_less [of capacity] by (simp_all add: same)
  have indices: "map snd (pf_acquired s) = map of_nat (rev [0..<?n])" by (rule prof_invD(4) [OF inv])
  have unat_index: "unat (of_nat k :: u32) = k" if "k < ?n" for k
    using that n by (simp add: unsigned_of_nat take_bit_nat_eq_self)
  have "inj_on (of_nat :: nat \<Rightarrow> u32) {..<?n}" using unat_index by (metis inj_onI lessThan_iff)
  then have distinct: "distinct (map snd (pf_acquired s))"
    unfolding indices by (simp add: distinct_map lessThan_atLeast0)
  have snd_set: "snd ` set (pf_acquired s) = of_nat ` {..<?n}"
    using arg_cong [OF indices, of set] by (simp add: lessThan_atLeast0)
  have in_range: "unat idx < length (pf_records s)" if "(i, idx) \<in> set (pf_acquired s)" for i idx
  proof -
    have "idx \<in> of_nat ` {..<?n}" using that snd_set by (metis image_eqI snd_conv)
    then show ?thesis using unat_index n same len by fastforce
  qed
  have undo: "capacity \<le> pf_next_record_idx (undo_index i s)" if "i < threads" "pf_threads s ! i = Undo" for i
    using undo_index_inv(2) [OF inv] that same by (simp add: word_le_nat_alt)
  have quiet: "profiler_context_deinit s = (of_nat ?n, of_nat (pf_lost s))" if "set (pf_threads s) \<subseteq> {Outside}"
  proof -
    have "undoing s = 0" using that undoing_positive [of s] by auto
    then have "unat (pf_next_record_idx s) = ?n" using prof_invD(1) [OF inv] by simp
    then show ?thesis using prof_invD(6) [OF inv] by (simp add: profiler_context_deinit_def unat_of_nat_eq_self)
  qed
  have "unat log_size = PROF_HEADER_SIZE + length (pf_records s) * PROF_RECORD_SIZE"
    using log(2) same len by simp
  then show ?thesis
    using log(1) distinct in_range undo quiet snd_set prof_invD(3,5) [OF inv] same by auto
qed


text \<open>Two threads race for the only record; the loser takes its increment back and is counted.\<close>

definition run_threads :: "nat list \<Rightarrow> prof_context \<Rightarrow> prof_context" where
  "run_threads is s = fold (\<lambda>i s. thread_step i 2 (Some ''kernel'') 7 100 s) is s"

lemma run_threads_reachable:
  assumes "list_all (\<lambda>i. i < length (pf_threads s0)) is"
  shows "prof_reachable s0 (run_threads is s0)"
proof -
  have "prof_reachable s0 (run_threads is s)"
    if "prof_reachable s0 s" "list_all (\<lambda>i. i < length (pf_threads s)) is" for s
    using that
  proof (induction "is" arbitrary: s)
    case (Cons i "is")
    have "prof_step s (thread_step i 2 (Some ''kernel'') 7 100 s)" using Cons.prems(2) by (auto intro: prof_step.intros)
    with Cons.prems Cons.IH [OF prof_next] show ?case by (simp add: run_threads_def thread_step_frame)
  qed (simp add: run_threads_def)
  from this [OF prof_start assms] show ?thesis .
qed

definition sample_prof_record :: prof_record where
  "sample_prof_record = \<lparr>re_start_ticks = 0, re_stop_ticks = 0, re_extra_info = '''', re_zone_type = 0,
     re_completed = False, re_thread_id = 0\<rparr>"

definition sample_prof_context :: prof_context where
  "sample_prof_context = profiler_context_init 1 [sample_prof_record] 2"

lemma profiler_records_safe_witness:
  "profiler_context_deinit (run_threads [0, 1, 0, 1, 1, 1, 0] sample_prof_context) = (1, 1) \<and>
   distinct (map snd (pf_acquired (run_threads [0, 1, 0, 1, 1, 1, 0] sample_prof_context)))"
proof -
  have "profiler_data_size 1 = Some 208" by code_simp
  moreover have "prof_reachable (profiler_context_init 1 [sample_prof_record] 2)
      (run_threads [0, 1, 0, 1, 1, 1, 0] (profiler_context_init 1 [sample_prof_record] 2))"
    by (rule run_threads_reachable) (simp add: profiler_context_init_def)
  ultimately have "distinct (map snd (pf_acquired (run_threads [0, 1, 0, 1, 1, 1, 0] sample_prof_context)))"
    using profiler_records_safe [of 1 208 "[sample_prof_record]" 2] by (simp add: sample_prof_context_def)
  moreover have "profiler_context_deinit (run_threads [0, 1, 0, 1, 1, 1, 0] sample_prof_context) = (1, 1)"
    by code_simp
  ultimately show ?thesis by simp
qed

end
