(* ===== verification/Profiler_Export.thy ===== *)
theory Profiler_Export
  imports Profiler_Records "HOL-Library.Product_Lexorder"
begin

text \<open>
  How the host hands the records of the DSP to Tracy, \<open>plugins/runtime/hexagon/profiler.c\<close>: each DSP
  thread gets a lane (a GPU context of Tracy), the completed records are sorted by lane and time and
  become zones, each with a query id for its begin and its end. Time stamps have been rebased to the
  clock of the host (the conversion in floating point is not part of the model, nor are the plots of
  the PMU counters). The allocation of contexts and \<open>qsort\<close> are parameters.
\<close>

definition TRACY_MAX_ZONES :: nat where "TRACY_MAX_ZONES = 0x7FFF"
definition TRACY_CONTEXT_INVALID :: u8 where "TRACY_CONTEXT_INVALID = 0xFF"
definition TRACY_MAX_LANES :: nat where "TRACY_MAX_LANES = 16"

section \<open>Lanes\<close>

text \<open>The used part of the two arrays: threads with their contexts, in the order of allocation.\<close>

type_synonym tracy_lanes = "(u32 \<times> u8) list"

text \<open>\<open>alloc n\<close> is the context that Tracy gives to the lane with number \<open>n\<close>.\<close>

definition tracy_lane :: "(nat \<Rightarrow> u8) \<Rightarrow> tracy_lanes \<Rightarrow> u32 \<Rightarrow> u8 \<times> tracy_lanes" where
  "tracy_lane alloc lanes thread_id =
     (case find (\<lambda>(t, c). t = thread_id) lanes of
        Some (t, c) \<Rightarrow> (c, lanes)
      | None \<Rightarrow>
          if length lanes \<ge> TRACY_MAX_LANES then (TRACY_CONTEXT_INVALID, lanes)
          else (let c = alloc (length lanes) in (c, lanes @ [(thread_id, c)])))"

section \<open>Views\<close>

record prof_view =
  vw_record_index :: nat
  vw_start :: int
  vw_end :: int
  vw_zone_type :: u16
  vw_query_begin :: u16
  vw_query_end :: u16
  vw_context_id :: u8
  vw_extra_info :: string

definition compare_views :: "prof_view \<Rightarrow> prof_view \<Rightarrow> int" where
  "compare_views l r =
     (if vw_context_id l < vw_context_id r then - 1 else if vw_context_id l > vw_context_id r then 1
      else if vw_start l < vw_start r then - 1 else if vw_start l > vw_start r then 1
      else if vw_end l < vw_end r then - 1 else if vw_end l > vw_end r then 1 else 0)"

definition record_view :: "nat \<Rightarrow> prof_record \<Rightarrow> u8 \<Rightarrow> prof_view" where
  "record_view i r c =
     \<lparr>vw_record_index = i, vw_start = sint (re_start_ticks r), vw_end = sint (re_stop_ticks r),
      vw_zone_type = re_zone_type r, vw_query_begin = 0, vw_query_end = 0, vw_context_id = c,
      vw_extra_info = re_extra_info r\<rparr>"

text \<open>The loop over the records; \<open>room\<close> is the number of zones that still fit.\<close>

fun collect_views :: "(nat \<Rightarrow> u8) \<Rightarrow> nat \<Rightarrow> nat \<Rightarrow> prof_record list \<Rightarrow> tracy_lanes \<Rightarrow> prof_view list \<times> tracy_lanes" where
  "collect_views alloc room i [] lanes = ([], lanes)"
| "collect_views alloc room i (r # rs) lanes =
     (if room = 0 then ([], lanes)
      else if \<not> re_completed r \<or> sint (re_stop_ticks r) \<le> sint (re_start_ticks r)
        then collect_views alloc room (Suc i) rs lanes
      else case tracy_lane alloc lanes (re_thread_id r) of (c, lanes) \<Rightarrow>
        if c = TRACY_CONTEXT_INVALID then collect_views alloc room (Suc i) rs lanes
        else case collect_views alloc (room - 1) (Suc i) rs lanes of
          (views, lanes) \<Rightarrow> (record_view i r c # views, lanes))"

definition number_views :: "prof_view list \<Rightarrow> prof_view list" where
  "number_views vs = map (\<lambda>(i, v). v\<lparr>vw_query_begin := of_nat (2 * i), vw_query_end := of_nat (2 * i + 1)\<rparr>)
     (enumerate 0 vs)"

definition collect_and_sort_views ::
  "(nat \<Rightarrow> u8) \<Rightarrow> (prof_view list \<Rightarrow> prof_view list) \<Rightarrow> prof_record list \<Rightarrow> tracy_lanes \<Rightarrow> prof_view list \<times> tracy_lanes" where
  "collect_and_sort_views alloc qsort records lanes =
     (case collect_views alloc (min (length records) TRACY_MAX_ZONES) 0 records lanes of
        (views, lanes) \<Rightarrow> (number_views (qsort views), lanes))"

text \<open>\<open>qsort\<close> of the C library: a permutation that the comparison accepts.\<close>

definition qsort_law :: "(prof_view list \<Rightarrow> prof_view list) \<Rightarrow> bool" where
  "qsort_law qsort \<longleftrightarrow>
     (\<forall>vs. mset (qsort vs) = mset vs \<and> sorted_wrt (\<lambda>l r. compare_views l r \<le> 0) (qsort vs))"

section \<open>Zones\<close>

text \<open>The names and colours of the zone types.\<close>

definition zone_names :: "string list" where
  "zone_names = [''DSP execution'', ''Schedule'', ''Kernel'', ''Barrier'', ''Copy'', ''Fill'', ''Mem Management'',
     ''Marker'', ''Unknown'']"

definition zone_to_string :: "u16 \<Rightarrow> string" where
  "zone_to_string t = (if unat t < length zone_names then zone_names ! unat t else ''Invalid zone name'')"

definition zone_color_xbgr :: "u16 \<Rightarrow> u32" where
  "zone_color_xbgr t =
     (if t = 0 then 0xa46e5c else if t = 1 then 0xb68b7c else if t = 2 then 0x808cb1 else if t = 3 then 0x93a9c8
      else if t = 4 \<or> t = 5 \<or> t = 6 then 0xdde2dd else if t = 7 then 0x9ac7b7 else 0xA97E90)"

text \<open>The calls of the tracing library.\<close>

datatype tracy_call =
    Zone_Begin u8 u16 string u32
  | Zone_End u8 u16
  | Zone_Notify u8 u16 int

definition end_zone :: "prof_view \<Rightarrow> tracy_call list" where
  "end_zone v = [Zone_End (vw_context_id v) (vw_query_end v), Zone_Notify (vw_context_id v) (vw_query_end v) (vw_end v)]"

definition begin_zone :: "prof_view \<Rightarrow> tracy_call list" where
  "begin_zone v =
     [Zone_Begin (vw_context_id v) (vw_query_begin v)
        (if vw_extra_info v \<noteq> [] then vw_extra_info v else zone_to_string (vw_zone_type v))
        (zone_color_xbgr (vw_zone_type v)),
      Zone_Notify (vw_context_id v) (vw_query_begin v) (vw_start v)]"

text \<open>The stack of zones that are still active, and what the inner loop ends for the next zone.\<close>

fun end_zones_before :: "prof_view \<Rightarrow> prof_view list \<Rightarrow> tracy_call list \<times> prof_view list" where
  "end_zones_before v [] = ([], [])"
| "end_zones_before v (upper # stack) =
     (if vw_context_id upper = vw_context_id v \<and> vw_end upper > vw_start v then ([], upper # stack)
      else case end_zones_before v stack of (calls, stack) \<Rightarrow> (end_zone upper @ calls, stack))"

fun emit_zones :: "prof_view list \<Rightarrow> prof_view list \<Rightarrow> tracy_call list" where
  "emit_zones [] stack = concat (map end_zone stack)"
| "emit_zones (v # vs) stack =
     (case end_zones_before v stack of (calls, stack) \<Rightarrow> calls @ begin_zone v @ emit_zones vs (v # stack))"

definition emit_tracy_zones :: "prof_view list \<Rightarrow> tracy_call list" where
  "emit_tracy_zones vs = emit_zones vs []"

section \<open>Properties of the calls\<close>

text \<open>
  Zones nest: an end closes the zone that was begun last, with the query id after its begin, and all
  zones are closed. A zone lies in the lane of the one around it, starts no earlier and before the
  other ends; \<open>time\<close> gives the time of a query.
\<close>

fun nested :: "(u8 \<times> u16 \<Rightarrow> int) \<Rightarrow> (u8 \<times> u16) list \<Rightarrow> tracy_call list \<Rightarrow> bool" where
  "nested time stack [] \<longleftrightarrow> stack = []"
| "nested time stack (Zone_Begin c q name color # calls) \<longleftrightarrow>
     (case stack of [] \<Rightarrow> True
      | (c', q') # _ \<Rightarrow> c' = c \<and> time (c', q') \<le> time (c, q) \<and> time (c, q) < time (c', q' + 1)) \<and>
     nested time ((c, q) # stack) calls"
| "nested time stack (Zone_End c q # calls) \<longleftrightarrow>
     (case stack of [] \<Rightarrow> False | (c', q') # rest \<Rightarrow> c' = c \<and> q' + 1 = q \<and> nested time rest calls)"
| "nested time stack (Zone_Notify c q t # calls) \<longleftrightarrow> time (c, q) = t \<and> nested time stack calls"

fun begun :: "tracy_call list \<Rightarrow> (u8 \<times> u16) list" where
  "begun [] = []"
| "begun (Zone_Begin c q name color # calls) = (c, q) # begun calls"
| "begun (_ # calls) = begun calls"

lemma begun_append [simp]: "begun (xs @ ys) = begun xs @ begun ys"
  by (induction xs rule: begun.induct) simp_all

abbreviation view_key :: "prof_view \<Rightarrow> u8 \<times> u16" where
  "view_key v \<equiv> (vw_context_id v, vw_query_begin v)"

definition timed :: "(u8 \<times> u16 \<Rightarrow> int) \<Rightarrow> prof_view \<Rightarrow> bool" where
  "timed time v \<longleftrightarrow> time (view_key v) = vw_start v \<and> time (vw_context_id v, vw_query_begin v + 1) = vw_end v \<and>
     vw_query_end v = vw_query_begin v + 1"

lemma nested_end_zone [simp]:
  "timed time v \<Longrightarrow> nested time (view_key v # stack) (end_zone v @ calls) = nested time stack calls"
  by (simp add: end_zone_def timed_def)

lemma begun_end_zone [simp]: "begun (end_zone v) = []"
  by (simp add: end_zone_def)

lemma nested_end_zones:
  assumes "end_zones_before v stack = (ended, rest)" and "\<forall>s\<in>set stack. timed time s"
  shows "nested time (map view_key stack) (ended @ calls) = nested time (map view_key rest) calls \<and> begun ended = [] \<and>
    set rest \<subseteq> set stack \<and> (rest \<noteq> [] \<longrightarrow> vw_context_id (hd rest) = vw_context_id v \<and> vw_start v < vw_end (hd rest))"
  using assms
proof (induction stack arbitrary: ended)
  case (Cons u stack)
  show ?case
  proof (cases "vw_context_id u = vw_context_id v \<and> vw_end u > vw_start v")
    case True
    with Cons.prems(1) show ?thesis by auto
  next
    case False
    then obtain ended' where below: "end_zones_before v stack = (ended', rest)" and ended: "ended = end_zone u @ ended'"
      using Cons.prems(1) by (auto split: prod.splits)
    have timed: "timed time u" "\<forall>s\<in>set stack. timed time s" using Cons.prems(2) by auto
    from Cons.IH [OF below timed(2)] nested_end_zone [OF timed(1), of "map view_key stack" "ended' @ calls"]
    show ?thesis by (auto simp: ended)
  qed
qed simp

lemma nested_close:
  "\<forall>s\<in>set stack. timed time s \<Longrightarrow> nested time (map view_key stack) (concat (map end_zone stack))"
  by (induction stack) simp_all

lemma begun_close: "begun (concat (map end_zone stack)) = []"
  by (induction stack) simp_all

lemma sorted_starts:
  "compare_views l r \<le> 0 \<Longrightarrow> vw_context_id l = vw_context_id r \<Longrightarrow> vw_start l \<le> vw_start r"
  by (simp add: compare_views_def split: if_splits)

lemma emit_zones_nested:
  assumes "\<forall>v\<in>set (vs @ stack). timed time v" and "sorted_wrt (\<lambda>l r. compare_views l r \<le> 0) vs"
    and "\<forall>s\<in>set stack. \<forall>v\<in>set vs. compare_views s v \<le> 0"
  shows "nested time (map view_key stack) (emit_zones vs stack)" and "begun (emit_zones vs stack) = map view_key vs"
proof -
  have "nested time (map view_key stack) (emit_zones vs stack) \<and> begun (emit_zones vs stack) = map view_key vs"
    using assms
  proof (induction vs arbitrary: stack)
    case Nil
    then show ?case by (simp add: nested_close begun_close)
  next
    case (Cons v vs)
    obtain ended rest where split: "end_zones_before v stack = (ended, rest)" by fastforce
    have timed: "\<forall>s\<in>set stack. timed time s" "timed time v" using Cons.prems(1) by auto
    have ends: "\<And>calls. nested time (map view_key stack) (ended @ calls) = nested time (map view_key rest) calls"
      "begun ended = []" "set rest \<subseteq> set stack"
      "rest \<noteq> [] \<Longrightarrow> vw_context_id (hd rest) = vw_context_id v \<and> vw_start v < vw_end (hd rest)"
      using nested_end_zones [OF split timed(1)] by blast+
    have tail: "nested time (map view_key (v # rest)) (emit_zones vs (v # rest)) \<and>
        begun (emit_zones vs (v # rest)) = map view_key vs"
      using Cons.prems ends(3) by (intro Cons.IH) auto
    have "case map view_key rest of [] \<Rightarrow> True
      | (c', q') # _ \<Rightarrow> c' = vw_context_id v \<and> time (c', q') \<le> time (view_key v) \<and> time (view_key v) < time (c', q' + 1)"
    proof (cases rest)
      case (Cons upper below)
      then have upper: "upper \<in> set stack" "timed time upper" "vw_context_id upper = vw_context_id v" "vw_start v < vw_end upper"
        using ends(3,4) timed by auto
      then have "vw_start upper \<le> vw_start v" using Cons.prems(3) by (auto intro: sorted_starts)
      with upper timed(2) show ?thesis by (simp add: Cons timed_def)
    qed simp
    with tail ends(1,2) timed(2) show ?case
      by (simp add: split begin_zone_def) (simp add: timed_def)
  qed
  then show "nested time (map view_key stack) (emit_zones vs stack)" "begun (emit_zones vs stack) = map view_key vs"
    by simp_all
qed

section \<open>Properties of the views\<close>

definition lanes_ok :: "tracy_lanes \<Rightarrow> bool" where
  "lanes_ok lanes \<longleftrightarrow> distinct (map fst lanes) \<and> length lanes \<le> TRACY_MAX_LANES"

lemma find_lane:
  "find (\<lambda>(t, c). t = thread) lanes = Some (t, c) \<Longrightarrow> t = thread \<and> (t, c) \<in> set lanes"
  "find (\<lambda>(t, c). t = thread) lanes = None \<Longrightarrow> thread \<notin> fst ` set lanes"
  by (auto simp: find_Some_iff find_None_iff) (metis nth_mem)

lemma tracy_lane_ok:
  assumes "tracy_lane alloc lanes thread = (c, lanes')" and "lanes_ok lanes"
  shows "lanes_ok lanes'" and "\<exists>ext. lanes' = lanes @ ext"
    and "(thread, c) \<in> set lanes' \<or>
      c = TRACY_CONTEXT_INVALID \<and> length lanes' = TRACY_MAX_LANES \<and> thread \<notin> fst ` set lanes'"
proof -
  have "lanes_ok lanes' \<and> (\<exists>ext. lanes' = lanes @ ext) \<and> ((thread, c) \<in> set lanes' \<or>
      c = TRACY_CONTEXT_INVALID \<and> length lanes' = TRACY_MAX_LANES \<and> thread \<notin> fst ` set lanes')"
  proof (cases "find (\<lambda>(t, c). t = thread) lanes")
    case None
    with assms find_lane(2) [OF None] show ?thesis
      by (auto simp: tracy_lane_def Let_def lanes_ok_def split: if_splits)
  next
    case (Some p)
    obtain t d where p: "p = (t, d)" by (cases p)
    with assms find_lane(1) [OF Some [unfolded p]] Some show ?thesis by (auto simp: tracy_lane_def)
  qed
  then show "lanes_ok lanes'" "\<exists>ext. lanes' = lanes @ ext" "(thread, c) \<in> set lanes' \<or>
      c = TRACY_CONTEXT_INVALID \<and> length lanes' = TRACY_MAX_LANES \<and> thread \<notin> fst ` set lanes'"
    by blast+
qed

text \<open>The records that become zones.\<close>

definition shown :: "prof_record \<Rightarrow> bool" where
  "shown r \<longleftrightarrow> re_completed r \<and> sint (re_start_ticks r) < sint (re_stop_ticks r)"

lemma full_lanes_end:
  "lanes_ok (lanes @ ext) \<Longrightarrow> length lanes = TRACY_MAX_LANES \<Longrightarrow> ext = []"
  by (simp add: lanes_ok_def)

lemma collect_views_sound:
  assumes "collect_views alloc room i rs lanes = (vs, lanes')" and "lanes_ok lanes"
  shows "lanes_ok lanes' \<and> (\<exists>ext. lanes' = lanes @ ext) \<and> length vs \<le> room \<and>
    sorted_wrt (<) (map vw_record_index vs) \<and>
    (\<forall>v\<in>set vs. \<exists>k<length rs. \<exists>c. shown (rs ! k) \<and> (re_thread_id (rs ! k), c) \<in> set lanes' \<and>
       v = record_view (i + k) (rs ! k) c)"
  using assms
proof (induction alloc room i rs lanes arbitrary: vs lanes' rule: collect_views.induct)
  case (2 alloc room i r rs lanes)
  have shift: "\<exists>k<length (r # rs). \<exists>c. shown ((r # rs) ! k) \<and> (re_thread_id ((r # rs) ! k), c) \<in> set L \<and>
      v = record_view (i + k) ((r # rs) ! k) c"
    if "\<exists>k<length rs. \<exists>c. shown (rs ! k) \<and> (re_thread_id (rs ! k), c) \<in> set L \<and> v = record_view (Suc i + k) (rs ! k) c"
    for v L
    using that by (metis Suc_less_eq add_Suc_shift length_Cons nth_Cons_Suc)
  show ?case
  proof (cases "room = 0")
    case True
    with "2.prems" show ?thesis by simp
  next
    case room: False
    show ?thesis
    proof (cases "shown r")
      case False
      then have skip: "\<not> re_completed r \<or> sint (re_stop_ticks r) \<le> sint (re_start_ticks r)" by (auto simp: shown_def)
      with "2.prems"(1) room have "collect_views alloc room (Suc i) rs lanes = (vs, lanes')" by simp
      from "2.IH"(1) [OF room skip this "2.prems"(2)] show ?thesis using shift by blast
    next
      case True
      then have show_r: "\<not> (\<not> re_completed r \<or> sint (re_stop_ticks r) \<le> sint (re_start_ticks r))" by (auto simp: shown_def)
      obtain c lanes1 where lane: "tracy_lane alloc lanes (re_thread_id r) = (c, lanes1)" by fastforce
      note ok = tracy_lane_ok [OF lane "2.prems"(2)]
      show ?thesis
      proof (cases "c = TRACY_CONTEXT_INVALID")
        case invalid: True
        with "2.prems"(1) room show_r lane have "collect_views alloc room (Suc i) rs lanes1 = (vs, lanes')" by simp
        from "2.IH"(2) [OF room show_r lane [symmetric] invalid this ok(1)] ok(2) show ?thesis
          using shift by fastforce
      next
        case valid: False
        with "2.prems"(1) room show_r lane obtain vs1
          where rest: "collect_views alloc (room - 1) (Suc i) rs lanes1 = (vs1, lanes')" and vs: "vs = record_view i r c # vs1"
          by (auto split: prod.splits)
        from "2.IH"(3) [OF room show_r lane [symmetric] valid rest ok(1)]
        have IH: "lanes_ok lanes'" "\<exists>ext. lanes' = lanes1 @ ext" "length vs1 \<le> room - 1"
          "sorted_wrt (<) (map vw_record_index vs1)"
          "\<forall>v\<in>set vs1. \<exists>k<length rs. \<exists>c. shown (rs ! k) \<and> (re_thread_id (rs ! k), c) \<in> set lanes' \<and>
             v = record_view (Suc i + k) (rs ! k) c"
          by blast+
        have in_lanes: "(re_thread_id r, c) \<in> set lanes'" using ok(3) valid IH(2) by auto
        have "i < vw_record_index v" if "v \<in> set vs1" for v
          using IH(5) that by (fastforce simp: record_view_def)
        then have sorted: "sorted_wrt (<) (map vw_record_index vs)"
          using IH(4) by (auto simp: vs) (simp add: record_view_def)
        have first: "\<exists>k<length (r # rs). \<exists>c. shown ((r # rs) ! k) \<and> (re_thread_id ((r # rs) ! k), c) \<in> set lanes' \<and>
            record_view i r c0 = record_view (i + k) ((r # rs) ! k) c" if "c0 = c" for c0
          using in_lanes True that by (intro exI [of _ 0]) auto
        have "\<exists>ext. lanes' = lanes @ ext" using ok(2) IH(2) by auto
        moreover have "length vs \<le> room" using IH(3) room by (simp add: vs)
        ultimately show ?thesis using IH(1,5) sorted first shift by (simp add: vs)
      qed
    qed
  qed
qed simp

lemma collect_views_complete:
  assumes "collect_views alloc room i rs lanes = (vs, lanes')" and "lanes_ok lanes" and "length rs \<le> room"
    and "k < length rs" and "shown (rs ! k)" and "(re_thread_id (rs ! k), c) \<in> set lanes'" and "c \<noteq> TRACY_CONTEXT_INVALID"
  shows "record_view (i + k) (rs ! k) c \<in> set vs"
  using assms
proof (induction alloc room i rs lanes arbitrary: vs lanes' k rule: collect_views.induct)
  case (2 alloc room i r rs lanes)
  have room: "room \<noteq> 0" using "2.prems"(3) by simp
  show ?case
  proof (cases "shown r")
    case False
    then have skip: "\<not> re_completed r \<or> sint (re_stop_ticks r) \<le> sint (re_start_ticks r)" by (auto simp: shown_def)
    obtain j where k: "k = Suc j" using False "2.prems"(5) by (cases k) auto
    from skip "2.prems"(1) room have "collect_views alloc room (Suc i) rs lanes = (vs, lanes')" by simp
    from "2.IH"(1) [OF room skip this "2.prems"(2)] "2.prems"(3-7) show ?thesis by (simp add: k)
  next
    case True
    then have show_r: "\<not> (\<not> re_completed r \<or> sint (re_stop_ticks r) \<le> sint (re_start_ticks r))" by (auto simp: shown_def)
    obtain d lanes1 where lane: "tracy_lane alloc lanes (re_thread_id r) = (d, lanes1)" by fastforce
    note ok = tracy_lane_ok [OF lane "2.prems"(2)]
    show ?thesis
    proof (cases "d = TRACY_CONTEXT_INVALID")
      case invalid: True
      with "2.prems"(1) room show_r lane have rest: "collect_views alloc room (Suc i) rs lanes1 = (vs, lanes')" by simp
      have grown: "lanes_ok lanes'" "\<exists>ext. lanes' = lanes1 @ ext"
        using collect_views_sound [OF rest ok(1)] by blast+
      have "k \<noteq> 0"
      proof
        assume "k = 0"
        with "2.prems"(6) have mem: "(re_thread_id r, c) \<in> set lanes'" by simp
        from ok(3) show False
        proof
          assume "(re_thread_id r, d) \<in> set lanes1"
          then have "(re_thread_id r, d) \<in> set lanes'" using grown(2) by auto
          with mem grown(1) have "c = d" by (auto simp: lanes_ok_def dest: eq_key_imp_eq_value)
          with invalid "2.prems"(7) show False by simp
        next
          assume full: "d = TRACY_CONTEXT_INVALID \<and> length lanes1 = TRACY_MAX_LANES \<and> re_thread_id r \<notin> fst ` set lanes1"
          then have "lanes' = lanes1" using grown full_lanes_end by auto
          with mem full show False by force
        qed
      qed
      then obtain j where k: "k = Suc j" by (cases k) auto
      from "2.IH"(2) [OF room show_r lane [symmetric] invalid rest ok(1)] "2.prems"(3-7) show ?thesis by (simp add: k)
    next
      case valid: False
      with "2.prems"(1) room show_r lane obtain vs1
        where rest: "collect_views alloc (room - 1) (Suc i) rs lanes1 = (vs1, lanes')" and vs: "vs = record_view i r d # vs1"
        by (auto split: prod.splits)
      have grown: "lanes_ok lanes'" "\<exists>ext. lanes' = lanes1 @ ext"
        using collect_views_sound [OF rest ok(1)] by blast+
      show ?thesis
      proof (cases k)
        case 0
        have "(re_thread_id r, d) \<in> set lanes'" using ok(3) valid grown(2) by auto
        with "2.prems"(6) grown(1) have "c = d" by (auto simp: 0 lanes_ok_def dest: eq_key_imp_eq_value)
        then show ?thesis by (simp add: 0 vs)
      next
        case (Suc j)
        from "2.IH"(3) [OF room show_r lane [symmetric] valid rest ok(1)] "2.prems"(3-7) show ?thesis
          by (simp add: Suc vs)
      qed
    qed
  qed
qed simp

section \<open>The export\<close>

text \<open>The time of a query: even ids begin the zone of the view with that number, odd ids end it.\<close>

definition query_time :: "prof_view list \<Rightarrow> u8 \<times> u16 \<Rightarrow> int" where
  "query_time vs = (\<lambda>(c, q). if even (unat q) then vw_start (vs ! (unat q div 2)) else vw_end (vs ! (unat q div 2)))"

lemma number_views_nth:
  "k < length vs \<Longrightarrow> number_views vs ! k = (vs ! k)\<lparr>vw_query_begin := of_nat (2 * k), vw_query_end := of_nat (2 * k + 1)\<rparr>"
  by (simp add: number_views_def nth_enumerate_eq)

lemma length_number_views [simp]: "length (number_views vs) = length vs"
  by (simp add: number_views_def)

lemma unat_of_nat_u16: "k < 2 ^ 16 \<Longrightarrow> unat (of_nat k :: u16) = k"
  by (simp add: unsigned_of_nat take_bit_nat_eq_self)

lemma query_ids:
  assumes "length vs \<le> TRACY_MAX_ZONES" and "k < length vs"
  shows "unat (vw_query_begin (number_views vs ! k)) = 2 * k" and "unat (vw_query_end (number_views vs ! k)) = 2 * k + 1"
    and "vw_query_end (number_views vs ! k) = vw_query_begin (number_views vs ! k) + 1"
proof -
  have "2 * k < 2 ^ 16" "2 * k + 1 < 2 ^ 16" using assms by (simp_all add: TRACY_MAX_ZONES_def)
  from this [THEN unat_of_nat_u16]
  show "unat (vw_query_begin (number_views vs ! k)) = 2 * k" "unat (vw_query_end (number_views vs ! k)) = 2 * k + 1"
    unfolding number_views_nth [OF assms(2)] by (simp_all del: of_nat_add of_nat_mult of_nat_Suc)
  show "vw_query_end (number_views vs ! k) = vw_query_begin (number_views vs ! k) + 1"
    unfolding number_views_nth [OF assms(2)] by simp
qed

lemma number_views_timed:
  assumes "length vs \<le> TRACY_MAX_ZONES" and "v \<in> set (number_views vs)"
  shows "timed (query_time (number_views vs)) v"
proof -
  from assms(2) obtain k where k: "k < length vs" "v = number_views vs ! k" by (auto simp: in_set_conv_nth)
  note ids = query_ids [OF assms(1) k(1), folded k(2)]
  have "query_time (number_views vs) (view_key v) = vw_start v"
    by (simp add: query_time_def ids(1) k(2) [symmetric])
  moreover have "query_time (number_views vs) (vw_context_id v, vw_query_end v) = vw_end v"
    by (simp add: query_time_def ids(2) k(2) [symmetric])
  ultimately show ?thesis unfolding timed_def by (simp add: ids(3))
qed

lemma compare_numbered [simp]:
  "compare_views (l\<lparr>vw_query_begin := a, vw_query_end := b\<rparr>) (r\<lparr>vw_query_begin := c, vw_query_end := d\<rparr>) =
   compare_views l r"
  by (simp add: compare_views_def)

lemma number_views_sorted:
  assumes "sorted_wrt (\<lambda>l r. compare_views l r \<le> 0) vs"
  shows "sorted_wrt (\<lambda>l r. compare_views l r \<le> 0) (number_views vs)"
  unfolding sorted_wrt_iff_nth_less
proof (intro allI impI)
  fix i j assume "i < j" "j < length (number_views vs)"
  with assms show "compare_views (number_views vs ! i) (number_views vs ! j) \<le> 0"
    by (simp add: number_views_nth sorted_wrt_iff_nth_less)
qed

lemma distinct_queries:
  assumes "length vs \<le> TRACY_MAX_ZONES"
  shows "distinct (map vw_query_begin (number_views vs) @ map vw_query_end (number_views vs))"
proof -
  have "map unat (map vw_query_begin (number_views vs)) = map (\<lambda>k. 2 * k) [0..<length vs]"
    "map unat (map vw_query_end (number_views vs)) = map (\<lambda>k. 2 * k + 1) [0..<length vs]"
    using query_ids(1,2) [OF assms] by (auto intro!: nth_equalityI)
  then have "map unat (map vw_query_begin (number_views vs) @ map vw_query_end (number_views vs)) =
      map (\<lambda>k. 2 * k) [0..<length vs] @ map (\<lambda>k. 2 * k + 1) [0..<length vs]" by simp
  moreover have "distinct (map (\<lambda>k. 2 * k) [0..<length vs] @ map (\<lambda>k. 2 * k + 1) [0..<length vs])"
    by (auto simp: distinct_map inj_on_def) presburger
  ultimately show ?thesis by (metis distinct_map)
qed

text \<open>
  C30: The calls to Tracy form well-nested zones: every zone is begun and ended exactly once, the one
  begun last is ended first, a zone lies in the lane of the zone around it and starts within it, and
  each notification carries the time of its record; all query ids differ. Every zone is a completed
  record of positive duration in the lane of its thread, two threads have two lanes, and unless there
  are too many records, no such record of a thread with a lane is left out.
\<close>

theorem profiler_zones_nested:
  assumes "qsort_law qsort" and "lanes_ok lanes"
    and "collect_and_sort_views alloc qsort records lanes = (views, lanes')"
  shows "nested (query_time views) [] (emit_tracy_zones views) \<and>
    begun (emit_tracy_zones views) = map view_key views \<and>
    distinct (map vw_query_begin views @ map vw_query_end views) \<and>
    distinct (map vw_record_index views) \<and> lanes_ok lanes' \<and>
    (\<forall>v\<in>set views. \<exists>r c. vw_record_index v < length records \<and> r = records ! vw_record_index v \<and> shown r \<and>
       (re_thread_id r, c) \<in> set lanes' \<and> vw_context_id v = c \<and>
       vw_start v = sint (re_start_ticks r) \<and> vw_end v = sint (re_stop_ticks r)) \<and>
    (length records \<le> TRACY_MAX_ZONES \<longrightarrow>
       (\<forall>k<length records. \<forall>c. shown (records ! k) \<longrightarrow> (re_thread_id (records ! k), c) \<in> set lanes' \<longrightarrow>
          c \<noteq> TRACY_CONTEXT_INVALID \<longrightarrow> k \<in> vw_record_index ` set views))"
proof -
  obtain vs where collect: "collect_views alloc (min (length records) TRACY_MAX_ZONES) 0 records lanes = (vs, lanes')"
    and views: "views = number_views (qsort vs)"
    using assms(3) by (auto simp: collect_and_sort_views_def split: prod.splits)
  note sound = collect_views_sound [OF collect assms(2)]
  have perm: "mset (qsort vs) = mset vs" and sorted: "sorted_wrt (\<lambda>l r. compare_views l r \<le> 0) (qsort vs)"
    using assms(1) by (auto simp: qsort_law_def)
  have len: "length (qsort vs) \<le> TRACY_MAX_ZONES" using sound perm by (metis min.bounded_iff mset_eq_length)
  have timed: "\<forall>v\<in>set (views @ []). timed (query_time views) v" using number_views_timed [OF len] by (simp add: views)
  note emitted = emit_zones_nested [OF timed number_views_sorted [OF sorted, folded views]]
  have indices: "map vw_record_index views = map vw_record_index (qsort vs)"
    by (auto intro!: nth_equalityI simp: views number_views_nth)
  have "distinct (map vw_record_index vs)" using sound by (simp add: strict_sorted_iff)
  then have distinct: "distinct (map vw_record_index views)"
    unfolding indices using perm by (metis distinct_map mset_eq_imp_distinct_iff mset_eq_setD)
  have same: "set (qsort vs) = set vs" using perm by (rule mset_eq_setD)
  have content: "\<exists>r c. vw_record_index v < length records \<and> r = records ! vw_record_index v \<and> shown r \<and>
      (re_thread_id r, c) \<in> set lanes' \<and> vw_context_id v = c \<and>
      vw_start v = sint (re_start_ticks r) \<and> vw_end v = sint (re_stop_ticks r)" if "v \<in> set views" for v
  proof -
    from that obtain k where k: "k < length (qsort vs)" "v = number_views (qsort vs) ! k"
      by (auto simp: views in_set_conv_nth)
    then have "qsort vs ! k \<in> set vs" using same nth_mem by blast
    with sound obtain j c where "j < length records" "shown (records ! j)" "(re_thread_id (records ! j), c) \<in> set lanes'"
      "qsort vs ! k = record_view j (records ! j) c" by auto
    then show ?thesis by (simp add: k(2) number_views_nth [OF k(1)] record_view_def)
  qed
  have complete: "k \<in> vw_record_index ` set views"
    if "length records \<le> TRACY_MAX_ZONES" "k < length records" "shown (records ! k)"
      "(re_thread_id (records ! k), c) \<in> set lanes'" "c \<noteq> TRACY_CONTEXT_INVALID" for k c
  proof -
    have "record_view k (records ! k) c \<in> set vs"
      using collect_views_complete [OF collect assms(2) _ that(2-5)] that(1) by simp
    then have "k \<in> vw_record_index ` set (qsort vs)" by (force simp: same record_view_def)
    then show ?thesis using arg_cong [OF indices, of set] by simp
  qed
  show ?thesis
    using emitted distinct_queries [OF len, folded views] distinct sound content complete
    by (simp add: emit_tracy_zones_def)
qed

text \<open>A sorting function of the library obeys the law of \<open>qsort\<close>.\<close>

lemma sort_key_qsort: "qsort_law (sort_key (\<lambda>v. (vw_context_id v, vw_start v, vw_end v)))"
proof -
  have "compare_views l r \<le> 0 \<longleftrightarrow>
      (vw_context_id l, vw_start l, vw_end l) \<le> (vw_context_id r, vw_start r, vw_end r)" for l r
    by (auto simp: compare_views_def)
  moreover have "sorted_wrt (\<lambda>l r. (f l :: u8 \<times> int \<times> int) \<le> f r) (sort_key f vs)" for f and vs :: "prof_view list"
    using sorted_sort_key [of f vs] by (simp add: sorted_wrt_map)
  ultimately show ?thesis by (simp only: qsort_law_def mset_sort simp_thms)
qed

text \<open>A dispatch inside the execution, another on a second thread, and a record that was never completed.\<close>

definition sample_export_records :: "prof_record list" where
  "sample_export_records =
     [\<lparr>re_start_ticks = 0, re_stop_ticks = 100, re_extra_info = '''', re_zone_type = 0, re_completed = True, re_thread_id = 5\<rparr>,
      \<lparr>re_start_ticks = 20, re_stop_ticks = 60, re_extra_info = ''b'', re_zone_type = 2, re_completed = True, re_thread_id = 6\<rparr>,
      \<lparr>re_start_ticks = 10, re_stop_ticks = 50, re_extra_info = ''a'', re_zone_type = 2, re_completed = True, re_thread_id = 5\<rparr>,
      \<lparr>re_start_ticks = 70, re_stop_ticks = 0, re_extra_info = '''', re_zone_type = 3, re_completed = False, re_thread_id = 5\<rparr>]"

definition sample_views :: "prof_view list" where
  "sample_views = fst (collect_and_sort_views of_nat (sort_key (\<lambda>v. (vw_context_id v, vw_start v, vw_end v)))
     sample_export_records [])"

lemma sample_views_eq:
  "sample_views = number_views (sort_key (\<lambda>v. (vw_context_id v, vw_start v, vw_end v))
     (fst (collect_views of_nat 4 0 sample_export_records [])))"
proof -
  have "min (length sample_export_records) TRACY_MAX_ZONES = 4"
    by (simp add: sample_export_records_def TRACY_MAX_ZONES_def)
  then show ?thesis by (simp add: sample_views_def collect_and_sort_views_def split: prod.split)
qed

lemma sample_collected:
  "fst (collect_views of_nat 4 0 sample_export_records []) =
     [record_view 0 (sample_export_records ! 0) 0, record_view 1 (sample_export_records ! 1) 1,
      record_view 2 (sample_export_records ! 2) 0]"
  by (simp add: sample_export_records_def tracy_lane_def TRACY_MAX_LANES_def TRACY_CONTEXT_INVALID_def)
    (simp add: numeral_2_eq_2)

lemma sample_sorted:
  "sample_views = number_views
     [record_view 0 (sample_export_records ! 0) 0, record_view 2 (sample_export_records ! 2) 0,
      record_view 1 (sample_export_records ! 1) 1]"
  by (simp add: sample_views_eq sample_collected) (simp add: record_view_def sample_export_records_def)

lemma sample_numbered:
  "sample_views =
     [\<lparr>vw_record_index = 0, vw_start = 0, vw_end = 100, vw_zone_type = 0, vw_query_begin = 0, vw_query_end = 1,
       vw_context_id = 0, vw_extra_info = ''''\<rparr>,
      \<lparr>vw_record_index = 2, vw_start = 10, vw_end = 50, vw_zone_type = 2, vw_query_begin = 2, vw_query_end = 3,
       vw_context_id = 0, vw_extra_info = ''a''\<rparr>,
      \<lparr>vw_record_index = 1, vw_start = 20, vw_end = 60, vw_zone_type = 2, vw_query_begin = 4, vw_query_end = 5,
       vw_context_id = 1, vw_extra_info = ''b''\<rparr>]"
  by (simp add: sample_sorted number_views_def record_view_def sample_export_records_def)

lemma sample_calls:
  "emit_tracy_zones sample_views =
     [Zone_Begin 0 0 ''DSP execution'' 0xa46e5c, Zone_Notify 0 0 0, Zone_Begin 0 2 ''a'' 0x808cb1, Zone_Notify 0 2 10,
      Zone_End 0 3, Zone_Notify 0 3 50, Zone_End 0 1, Zone_Notify 0 1 100,
      Zone_Begin 1 4 ''b'' 0x808cb1, Zone_Notify 1 4 20, Zone_End 1 5, Zone_Notify 1 5 60]"
  by (simp add: sample_numbered emit_tracy_zones_def begin_zone_def end_zone_def zone_color_xbgr_def zone_to_string_def
      zone_names_def)

lemma profiler_zones_nested_witness:
  "nested (query_time sample_views) []
     [Zone_Begin 0 0 ''DSP execution'' 0xa46e5c, Zone_Notify 0 0 0, Zone_Begin 0 2 ''a'' 0x808cb1, Zone_Notify 0 2 10,
      Zone_End 0 3, Zone_Notify 0 3 50, Zone_End 0 1, Zone_Notify 0 1 100,
      Zone_Begin 1 4 ''b'' 0x808cb1, Zone_Notify 1 4 20, Zone_End 1 5, Zone_Notify 1 5 60]"
proof -
  have "lanes_ok []" by (simp add: lanes_ok_def)
  note nested = profiler_zones_nested [OF sort_key_qsort this prod.collapse [symmetric], THEN conjunct1,
      of of_nat sample_export_records, folded sample_views_def]
  show ?thesis unfolding sample_calls [symmetric] by (rule nested)
qed

end
