(* ===== verification/Spec2Isabelle.thy ===== *)
theory Spec2Isabelle
  imports Vtcm_Demand Vtcm_Partition Dispatch_Resources Region_Allocator Dispatch_Planner Residency Direct_Bufs Cmd_Properties
    Host_Queue Host_Executable Rpc_Memory Hmx_Runtime_ABI Vtcm_Pipeline_Properties Dispatch_Abi Memref_Copy Profiler_Export
begin

text \<open>
  Verification library of the IREE Hexagon plugin.

  \<^bold>\<open>The program.\<close> The repository makes IREE generate code for Qualcomm's Hexagon DSP and run it there.
  It has three parts, and the development follows them:

  \<^item> The compiler (\<open>plugins/compiler/hexagon\<close>, C++) runs on a workstation. For every dispatch it chooses
    a lowering strategy and tile sizes, writes them on the IR as attributes, rewrites the loops so that
    DMA transfers overlap with computation, lowers matrix multiplications to calls of micro kernels,
    measures what the dispatch needs at run time, and emits a library of dispatch functions.
  \<^item> The host runtime (\<open>plugins/runtime/hexagon\<close>, C) runs on the ARM cores. It allocates memory that the
    DSP can see, loads executables, records command buffers, serializes them, and asks the DSP to
    execute them.
  \<^item> The DSP runtime (\<open>plugins/runtime/hexagon/dsp\<close>, C and C++) runs on the 32-bit DSP. It loads the
    libraries, creates command buffers from the serialized bytes, keeps the allocations it needs mapped,
    executes dispatches on its worker threads, and gives each dispatch its share of VTCM, the fast
    on-chip memory.

  The parts share no memory model and no types: what one writes the others read as bytes, attributes or
  addresses. Much of the development is about these boundaries. Paths below are relative to
  \<open>src/plugins/compiler/hexagon\<close>, \<open>src/plugins/runtime/hexagon\<close> and its directory \<open>dsp\<close>. Every
  theory names its sources and explains its state in its opening text.

  \<^bold>\<open>Foundations.\<close> \<open>Prelude\<close>: machine integers at their widths, outcomes of code that may abort or fail,
  alignment, lists. \<open>Worklist_Search\<close>: depth-first search with a worklist, the form of the graph walks
  of the compiler, with its correctness for any graph. \<open>Struct_Layout\<close>: the natural layout of C and
  LLVM structures on a 32-bit little-endian machine. \<open>Dsp_Status\<close>, \<open>Status_Codes\<close>: status codes and
  their translation (\<open>utils.c\<close>).

  \<^bold>\<open>Compiler: planning a dispatch\<close> (\<open>CodeGen/Strategy/Planning\<close>). One theory per file, in the order
  the planner calls them. \<open>Plan_Types\<close> (\<open>DispatchPlanTypes\<close>): the plan as records, the pipelines and what
  each requires of a plan. \<open>Dispatch_Analysis\<close>: the graph that gives the loops of all operations common
  dimensions, a union-find as a list of leaders. \<open>Strategy_Support\<close>, \<open>Strategies\<close>: the strategy of each
  root and the tiles of each operation. \<open>Vtcm_Planning\<close>, \<open>Root_Tile_Propagation\<close>: the VTCM stage and the
  bounds that the root puts on fused operations. \<open>Plan_Verification\<close>: every check with its diagnostic as
  an error value. \<open>Plan_Encoding\<close>, \<open>Lowering_Config\<close> (\<open>CodeGen/IR/HexagonLoweringConfig.cpp\<close>): the plan as
  attributes on the IR, their readers, printer and parser. \<open>Dispatch_Planner\<close>: the whole, from a function
  to its configuration. The lemmas show that each stage does what the next one expects, up to the
  planner as a whole: planning is all or nothing, fails only for stated causes, and what it leaves
  on the IR verifies and reads back as the plan.

  \<^bold>\<open>Compiler: resources of a dispatch.\<close> \<open>Dispatch_Resources\<close>
  (\<open>CodeGen/Transforms/HexagonAnnotateDispatchResources.cpp\<close>) models the IR as operations with kinds, nesting,
  control flow successors and calls; the analysis is compared with a declarative sum over everything
  reachable. \<open>Vtcm_Demand\<close> (\<open>CodeGen/Conversion/HexagonConvertToLLVM.cpp\<close>) joins it with the partition of the
  runtime: the declared bytes serve every allocation.

  \<^bold>\<open>Compiler: pipelining of transfers\<close> (\<open>CodeGen/Transforms/HexagonPipelineVTCMTransfers.cpp\<close>).
  \<open>Dma_Engine\<close> is an abstract processor with an engine that moves elements at any time; a program is safe
  when no computation conflicts with a pending transfer, and then all interleavings agree. \<open>Vtcm_Transfers\<close>
  holds the analysis of a tile loop and the rewritten loop; \<open>Vtcm_Analysis\<close>, \<open>Vtcm_Pipeline\<close> and
  \<open>Vtcm_Equivalence\<close> show that an accepted loop is rewritten into a safe program with the effects of the
  loop as it was; the results are in \<open>Vtcm_Pipeline_Properties\<close>.

  \<^bold>\<open>Matrix unit, both sides.\<close> \<open>Hmx_Tiles\<close> models the micro kernels of \<open>dsp/ukernel/hmx/hmx.c\<close> with checked
  array accesses; \<open>Hmx_Pack\<close>, \<open>Hmx_Transpose\<close>, \<open>Hmx_Unpack\<close> and \<open>Hmx_Properties\<close> show where every element
  goes. \<open>Hmx_Contracts\<close> (\<open>CodeGen/IR/HmxContracts.cpp\<close>) and \<open>Hmx_Runtime_ABI\<close>
  (\<open>CodeGen/Transforms/HexagonVerifyHmxRuntimeABI.cpp\<close> and the conversion to kernel calls) show that what the
  compiler verified is what the kernels need to run without a fault.

  \<^bold>\<open>Executables, both sides.\<close> \<open>Library_Builder\<close> (\<open>Target/LibraryBuilder.cpp\<close>) makes the constants of a
  library, \<open>Dsp_Executable\<close> (\<open>dsp/executable.c\<close>) reads them in a memory; \<open>Built_Library\<close> and
  \<open>Executable_Loading\<close> show that the reader finds what the builder wrote and that loading neither leaks nor
  loses anything. \<open>Host_Executable\<close>: the host's side (\<open>executable.c\<close>, \<open>executable_cache.c\<close>). \<open>Dispatch_Abi\<close>
  (\<open>CodeGen/Conversion/HexagonDispatchABI.cpp\<close>): what compiled code reads through its arguments is what the
  scheduler stored there. \<open>Memref_Copy\<close> (\<open>dsp/rt/memref_copy.c\<close>): the copy that compiled code calls.

  \<^bold>\<open>DSP runtime.\<close> \<open>Vtcm_Partition\<close> (\<open>dsp/rt/vtcm_partition.cpp\<close>): the allocator of a dispatch.
  \<open>Residency\<close> (\<open>dsp/residency.c\<close>): the cache of mapped allocations, with its invariant, its refinement to a
  counter per allocation, and eviction in the order of last use. \<open>Direct_Bufs\<close>, \<open>Cmd_Sched\<close>, \<open>Cmd_Exec\<close>
  (\<open>dsp/command_buffer.c\<close>): creation of a command buffer, the scheduler with its slots and worker threads, and
  the walk over the commands. \<open>Cmd_Safety\<close> carries one invariant through all of it and \<open>Cmd_Properties\<close>
  draws the consequences. \<open>Profiler_Records\<close> (\<open>dsp/rt/profiler.c\<close>): the allocation of records without a
  lock, as interleaved steps of threads.

  \<^bold>\<open>Host runtime and its interface to the DSP.\<close> \<open>Wire_Format\<close> (\<open>arm_dsp/cmd_buf.h\<close>,
  \<open>arm_dsp/bindings.h\<close>): the packed structures and their bytes. \<open>Serialize\<close> (\<open>serialize\<close>) and \<open>Recording\<close>
  (\<open>command_buffer.c\<close>): from recorded commands to those bytes. \<open>Host_Queue\<close> (\<open>device.c\<close>, \<open>dsp/device.c\<close>): the
  path from recording to execution. \<open>Rpc_Memory\<close> (\<open>mem_alloc.c\<close>, \<open>buffer.c\<close>, \<open>allocator.c\<close>): host and DSP as
  one state machine, so that what the DSP maps is memory the host has not released. \<open>Profiler_Export\<close>
  (\<open>profiler.c\<close>): the zones that are handed to Tracy.

  \<^bold>\<open>Interfaces.\<close> Where one part relies on a promise of another, the promise is a locale and the code's model
  interprets it:
  \<^item> \<open>region_allocator\<close>, the laws of a bump allocator, with whole sequences of allocations proved from them;
    interpreted by the partition (\<open>vp\<close>).
  \<^item> \<open>hold_cache\<close> and its extension \<open>forget_cache\<close>, which the execution of a command buffer and the release of
    host memory rely on; interpreted by the residency cache (\<open>rc\<close>, \<open>rf\<close>).
  \<^item> \<open>wire_struct\<close>, a fixed size and a decoder that inverts the encoder; interpreted by each of the seven
    structures that go over the wire.
  \<^item> \<open>library_contract\<close>, what the loader relies on in a library; interpreted by the compiler's image
    (\<open>compiled\<close>).
  \<^item> \<open>dma_client\<close>, what a computation may read and write beside the engine; interpreted by a tile of a
    pipelined loop (\<open>tile\<close>).

  \<^bold>\<open>Integers.\<close> Integers of C and C++ are words of their width, and sums wrap, wherever the code does not
  exclude it by a check: sizes, addresses, counters, indices of the kernels. Tile sizes and shapes of the
  compiler are \<open>int\<close> or \<open>nat\<close> where the code computes with the checked sizes of MLIR types. The DSP has
  32-bit addresses.

  \<^bold>\<open>Termination and bounds.\<close> Loops are total functions with a measure wherever they end by themselves
  (eviction, retries, waiting, which consume entries or running dispatches). A wait that no worker would ever
  end is the outcome \<open>Blocked\<close>, an \<open>abort\<close> the outcome \<open>Aborted\<close>, an access outside an object \<open>Crashed\<close>.
  Executing a command buffer is never blocked and never crashes, and it aborts only for a dispatch whose
  declared VTCM the pool does not serve; without such a dispatch it returns.
  The walks over graphs of the compiler are \<open>while_option\<close>: \<open>None\<close> would be a walk that does not end, and
  the theorems on the loop check and the collection show that it does not happen on a finite module.
  \<open>collectResources\<close> follows calls, with fuel for the depth; each call visits a function that was not
  visited before, so one unit more than there are reachable functions is enough, and the theorem says so.

  \<^bold>\<open>Parameters.\<close> Code outside of the repository is an argument of the definitions: MLIR, IREE and
  hexagon-mlir queries (records of functions over numbered operations, values and types), the tile search and
  \<open>VtcmPool\<close> of hexagon-mlir, the SDK (mapping, RPC memory, power, vector instructions), the C library
  (allocation, files), the functions of a compiled dispatch, and which threads run when. Where a theorem relies
  on documented behaviour of such code it has a named hypothesis, and a witness at concrete functions.

  \<^bold>\<open>Not modelled.\<close> Passes that only drive transformations of MLIR, IREE and hexagon-mlir or assemble
  pipelines of them (their meaning is that of dialects outside of the repository); the generation of LLVM IR
  and machine code and the linker process; registration, options and diagnostics; the decision trace;
  dispatch instrumentation; semaphores, events and channels, which forward to IREE; RPC stubs, which are
  generated; power modes and timers, which are hardware requests; the conversion of time stamps by
  floating-point arithmetic and the plots of PMU counters. Execution of command buffers is modelled in the
  build without profiling, and the profiler by itself.
\<close>

end
